(* ===== verification/PS_Prelude.thy ===== *)
theory PS_Prelude
  imports
    Main
    "HOL-Library.AList"
    "HOL-Library.Product_Lexorder"
    "HOL-Library.Option_ord"
    "HOL-Library.List_Lexorder"
    "HOL-Library.Char_ord"
begin

text \<open>
  Shared vocabulary of the development.

  \<^item> JavaScript values: safe integers, truthiness of optional strings, ISO timestamps,
    \<open>[...new Set(xs)]\<close>.
  \<^item> Results of operations that may throw (\<open>js_error + 'a\<close>).
  \<^item> JavaScript objects and \<open>Map\<close>s used as dictionaries, and SQLite tables with a
    primary key: association lists in insertion order. Overwriting a key keeps its place and a
    new key goes to the end (\<open>AList.update\<close>), as JavaScript does for keys that are not
    array indices; the keys of this program are UUIDs and names.
  \<^item> The interface \<open>keyed_table\<close> of such a dictionary, with its laws, and the lemmas
    the components prove once over it.
\<close>

named_theorems ps_defs \<open>definitions of the components, for unfolding on demand\<close>
named_theorems ps_inv \<open>an operation keeps an invariant of its component\<close>

section \<open>Numbers\<close>

text \<open>
  \<open>Number.MAX_SAFE_INTEGER\<close>. Timestamps and counters pass a zod schema
  \<open>z.number().int().nonnegative().safe()\<close>: they are integers in a range where the
  arithmetic of doubles is exact, so they are modelled as \<open>int\<close> with the schema's bounds
  as checks. A sum of two such numbers that leaves the range is rejected by the schema in the
  code and in the model alike.
\<close>

definition max_safe_integer :: int where
  "max_safe_integer = 9007199254740991"

definition safe_nonneg :: "int \<Rightarrow> bool" where
  "safe_nonneg n \<longleftrightarrow> 0 \<le> n \<and> n \<le> max_safe_integer"

definition safe_pos :: "int \<Rightarrow> bool" where
  "safe_pos n \<longleftrightarrow> 0 < n \<and> n \<le> max_safe_integer"

definition opt_all :: "('a \<Rightarrow> bool) \<Rightarrow> 'a option \<Rightarrow> bool" where
  "opt_all P x = (case x of None \<Rightarrow> True | Some y \<Rightarrow> P y)"

lemma opt_all_simps [simp]:
  "opt_all P None"
  "opt_all P (Some y) = P y"
  by (simp_all add: opt_all_def)

lemma safe_pos_nonneg: "safe_pos n \<Longrightarrow> safe_nonneg n"
  by (simp add: safe_pos_def safe_nonneg_def)

section \<open>Errors\<close>

text \<open>
  An operation that may throw returns \<open>js_error + 'a\<close>: \<open>SchemaError\<close> is the
  \<open>ZodError\<close> of a failed \<open>Schema.parse\<close>, \<open>Thrown msg\<close> an
  \<open>Error\<close> of the program.
\<close>

datatype js_error = SchemaError | Thrown string

type_synonym 'a result = "js_error + 'a"

fun result_bind :: "'a result \<Rightarrow> ('a \<Rightarrow> 'b result) \<Rightarrow> 'b result" where
  "result_bind (Inl e) f = Inl e"
| "result_bind (Inr x) f = f x"

lemma result_bind_Inr_iff:
  "result_bind m f = Inr y \<longleftrightarrow> (\<exists>x. m = Inr x \<and> f x = Inr y)"
  by (cases m) auto

section \<open>Optional strings\<close>

text \<open>An optional string in a boolean position: \<open>undefined\<close> and \<open>""\<close> are false.\<close>

definition truthy :: "string option \<Rightarrow> bool" where
  "truthy x = (case x of None \<Rightarrow> False | Some s \<Rightarrow> s \<noteq> [])"

lemma truthy_simps [simp]:
  "\<not> truthy None"
  "truthy (Some s) \<longleftrightarrow> s \<noteq> []"
  by (simp_all add: truthy_def)

lemma truthy_iff: "truthy x \<longleftrightarrow> (\<exists>s. x = Some s \<and> s \<noteq> [])"
  by (cases x) auto

text \<open>The operator \<open>x ?? d\<close>.\<close>

definition nullish :: "'a option \<Rightarrow> 'a \<Rightarrow> 'a" where
  "nullish x d = (case x of None \<Rightarrow> d | Some y \<Rightarrow> y)"

lemma nullish_simps [simp]:
  "nullish None d = d"
  "nullish (Some y) d = y"
  by (simp_all add: nullish_def)

section \<open>Timestamps\<close>

text \<open>
  A timestamp string. \<open>Iso t\<close> is the string \<open>new Date(t).toISOString()\<close> (or another
  datetime string of the same instant); \<open>Opaque s\<close> a string that is not one, which
  \<open>z.string().datetime()\<close> refuses and on which \<open>Date.parse\<close> is \<open>NaN\<close>.
  \<open>toISOString\<close> throws on an instant beyond the range of a \<open>Date\<close>, and the schema
  accepts years of four digits only.
\<close>

datatype timestamp = Iso int | Opaque string

fun date_parse :: "timestamp \<Rightarrow> int option" where
  "date_parse (Iso t) = Some t"
| "date_parse (Opaque s) = None"

definition to_iso :: "int \<Rightarrow> timestamp result" where
  "to_iso t = (if \<bar>t\<bar> \<le> 8640000000000000 then Inr (Iso t) else Inl (Thrown ''Invalid time value''))"

fun datetime_valid :: "timestamp \<Rightarrow> bool" where
  "datetime_valid (Iso t) = (- 62167219200000 \<le> t \<and> t \<le> 253402300799999)"
| "datetime_valid (Opaque s) = False"

lemma datetime_valid_iff:
  "datetime_valid x \<longleftrightarrow> (\<exists>t. x = Iso t \<and> - 62167219200000 \<le> t \<and> t \<le> 253402300799999)"
  by (cases x) auto

section \<open>Lists\<close>

text \<open>\<open>[...new Set(xs)]\<close>: the first occurrence of every element, in order.\<close>

fun uniq_acc :: "'a list \<Rightarrow> 'a list \<Rightarrow> 'a list" where
  "uniq_acc acc [] = acc"
| "uniq_acc acc (x # xs) = (if x \<in> set acc then uniq_acc acc xs else uniq_acc (acc @ [x]) xs)"

definition uniq :: "'a list \<Rightarrow> 'a list" where
  "uniq xs = uniq_acc [] xs"

lemma set_uniq_acc: "set (uniq_acc acc xs) = set acc \<union> set xs"
  by (induction acc xs rule: uniq_acc.induct) auto

lemma distinct_uniq_acc: "distinct acc \<Longrightarrow> distinct (uniq_acc acc xs)"
  by (induction acc xs rule: uniq_acc.induct) auto

lemma uniq_acc_prefix: "\<exists>ys. uniq_acc acc xs = acc @ ys"
proof (induction acc xs rule: uniq_acc.induct)
  case (1 acc)
  then show ?case by simp
next
  case (2 acc x xs)
  then show ?case by (cases "x \<in> set acc") auto
qed

lemma set_uniq [simp]: "set (uniq xs) = set xs"
  by (simp add: uniq_def set_uniq_acc)

lemma distinct_uniq [simp]: "distinct (uniq xs)"
  by (simp add: uniq_def distinct_uniq_acc)

text \<open>\<open>xs.slice(-n)\<close> for a positive \<open>n\<close>: the last \<open>n\<close> elements.\<close>

definition slice_last :: "nat \<Rightarrow> 'a list \<Rightarrow> 'a list" where
  "slice_last n xs = drop (length xs - n) xs"

lemma length_slice_last: "length (slice_last n xs) \<le> n"
  by (simp add: slice_last_def)

lemma set_slice_last: "set (slice_last n xs) \<subseteq> set xs"
  by (simp add: slice_last_def set_drop_subset)

lemma remove1_filter_distinct: "distinct xs \<Longrightarrow> remove1 x xs = filter (\<lambda>y. y \<noteq> x) xs"
  by (simp add: distinct_remove1_removeAll removeAll_filter_not_eq eq_commute[of x])

lemma find_None_conv: "find P xs = None \<longleftrightarrow> (\<forall>x \<in> set xs. \<not> P x)"
  by (auto simp: find_None_iff)

lemma find_SomeD: "find P xs = Some x \<Longrightarrow> x \<in> set xs \<and> P x"
  by (auto simp: find_Some_iff)

section \<open>Dictionaries and tables\<close>

type_synonym ('k, 'v) table = "('k \<times> 'v) list"

abbreviation table_get :: "('k, 'v) table \<Rightarrow> 'k \<Rightarrow> 'v option" where
  "table_get \<equiv> map_of"

abbreviation table_put :: "'k \<Rightarrow> 'v \<Rightarrow> ('k, 'v) table \<Rightarrow> ('k, 'v) table" where
  "table_put \<equiv> AList.update"

abbreviation table_del :: "'k \<Rightarrow> ('k, 'v) table \<Rightarrow> ('k, 'v) table" where
  "table_del \<equiv> AList.delete"

definition table_wf :: "('k, 'v) table \<Rightarrow> bool" where
  "table_wf t = distinct (map fst t)"

lemma table_get_put: "table_get (table_put k v t) j = (if j = k then Some v else table_get t j)"
  by (simp add: update_conv')

lemma table_get_del: "table_get (table_del k t) j = (if j = k then None else table_get t j)"
  by (simp add: delete_conv')

lemma table_wf_put [simp]: "table_wf t \<Longrightarrow> table_wf (table_put k v t)"
  by (simp add: table_wf_def distinct_update)

lemma table_wf_del [simp]: "table_wf t \<Longrightarrow> table_wf (table_del k t)"
  by (simp add: table_wf_def distinct_delete)

lemma table_wf_Nil [simp]: "table_wf []"
  by (simp add: table_wf_def)

lemma table_wf_filter [simp]: "table_wf t \<Longrightarrow> table_wf (filter P t)"
  by (simp add: table_wf_def distinct_map_filter)

lemma table_mem_iff: "table_wf t \<Longrightarrow> (k, v) \<in> set t \<longleftrightarrow> table_get t k = Some v"
  by (auto simp: table_wf_def)

lemma table_get_filter:
  "table_wf t \<Longrightarrow>
   table_get (filter P t) k = (case table_get t k of None \<Rightarrow> None
                              | Some v \<Rightarrow> if P (k, v) then Some v else None)"
proof (induction t)
  case Nil
  then show ?case by simp
next
  case (Cons x t)
  obtain a b where x: "x = (a, b)" by (cases x)
  have wf: "table_wf t" and fresh: "a \<notin> fst ` set t"
    using Cons.prems by (auto simp: table_wf_def x)
  have none: "table_get t a = None"
    using fresh by (simp add: map_of_eq_None_iff)
  show ?case
    using Cons.IH[OF wf] none by (auto simp: x split: option.splits)
qed

text \<open>
  The interface of a dictionary: reading after writing. The stores of the program (a SQLite
  table with a primary key and an upsert) and its in-memory objects are used through it.
\<close>

locale keyed_table =
  fixes get :: "'t \<Rightarrow> 'k \<Rightarrow> 'v option"
    and put :: "'k \<Rightarrow> 'v \<Rightarrow> 't \<Rightarrow> 't"
    and del :: "'k \<Rightarrow> 't \<Rightarrow> 't"
    and wf :: "'t \<Rightarrow> bool"
  assumes get_put: "wf t \<Longrightarrow> get (put k v t) j = (if j = k then Some v else get t j)"
    and get_del: "wf t \<Longrightarrow> get (del k t) j = (if j = k then None else get t j)"
    and wf_put: "wf t \<Longrightarrow> wf (put k v t)"
    and wf_del: "wf t \<Longrightarrow> wf (del k t)"
begin

lemma get_put_same: "wf t \<Longrightarrow> get (put k v t) k = Some v"
  by (simp add: get_put)

lemma get_put_other: "wf t \<Longrightarrow> j \<noteq> k \<Longrightarrow> get (put k v t) j = get t j"
  by (simp add: get_put)

lemma put_put: "wf t \<Longrightarrow> get (put k v (put k w t)) = get (put k v t)"
  by (rule ext) (simp add: get_put wf_put)

lemma put_commute: "wf t \<Longrightarrow> j \<noteq> k \<Longrightarrow> get (put j v (put k w t)) = get (put k w (put j v t))"
  by (rule ext) (simp add: get_put wf_put)

lemma del_put: "wf t \<Longrightarrow> get (del k (put k v t)) = get (del k t)"
  by (rule ext) (simp add: get_put get_del wf_put)

text \<open>A read-modify-write of one key leaves every other key alone.\<close>

lemma update_frame:
  "wf t \<Longrightarrow> get t k = Some v \<Longrightarrow> get (put k (f v) t) j = (if j = k then Some (f v) else get t j)"
  by (simp add: get_put)

end

interpretation row: keyed_table table_get table_put table_del table_wf
  by unfold_locales (simp_all add: table_get_put table_get_del)

section \<open>Text\<close>

text \<open>\<open>String.prototype.trim\<close> on the characters of the model, and splitting at a character.\<close>

definition is_space :: "char \<Rightarrow> bool" where
  "is_space c \<longleftrightarrow> of_char c \<in> {9, 10, 11, 12, 13, 32, 160 :: nat}"

definition trim :: "string \<Rightarrow> string" where
  "trim s = rev (dropWhile is_space (rev (dropWhile is_space s)))"

fun split_at_char :: "char \<Rightarrow> string \<Rightarrow> string list" where
  "split_at_char c [] = [[]]"
| "split_at_char c (x # xs) =
     (if x = c then [] # split_at_char c xs
      else (case split_at_char c xs of [] \<Rightarrow> [[x]] | w # ws \<Rightarrow> (x # w) # ws))"

lemma trim_id: "w \<noteq> [] \<Longrightarrow> \<not> is_space (hd w) \<Longrightarrow> \<not> is_space (last w) \<Longrightarrow> trim w = w"
proof -
  assume w: "w \<noteq> []" "\<not> is_space (hd w)" "\<not> is_space (last w)"
  have "dropWhile is_space w = w" using w(1,2) by (cases w) simp_all
  moreover have "dropWhile is_space (rev w) = rev w" using w(1,3) by (cases w rule: rev_cases) simp_all
  ultimately show ?thesis by (simp add: trim_def)
qed

end
