(* ===== verification/Message_Queue.thy ===== *)
theory Message_Queue
  imports PS_Prelude
begin

text \<open>
  The runtime message queue: \<open>src/runtime/queue/priority-queue.ts\<close> (an in-memory queue
  with four priority buckets), \<open>src/runtime/types/envelope.ts\<close> (the messages) and
  \<open>src/runtime/queue/journal-backed-queue.ts\<close> (the durable queue with claims, leases,
  retries and dead letters).

  A method of the durable queue is a mutator over the in-memory state, run by
  \<open>with_locked_state\<close> inside one SQLite transaction: the state is rebuilt from the table
  \<open>runtime_queue_records\<close>, changed, validated and written back when it is dirty. Calls of
  \<open>this.now()\<close> inside one synchronous method are one clock reading, the argument
  \<open>now\<close>; \<open>randomUUID()\<close> is the argument \<open>uuid\<close> of \<open>claim\<close>.

  This theory holds the definitions, in the order of the sources; \<open>Queue_Invariant\<close>
  holds the invariant and its preservation, \<open>Queue_Transactions\<close> the table and the
  properties.
\<close>

section \<open>Envelopes\<close>

datatype priority = Critical | High | Normal | Low

definition priority_order :: "priority list" where
  "priority_order = [Critical, High, Normal, Low]"

datatype envelope_type = Command | Event

record auth_context =
  auth_principal :: string
  auth_roles :: "string list option"

text \<open>The payload is opaque to the queue; it stands as its JSON text.\<close>

record envelope =
  env_id :: string
  env_type :: envelope_type
  env_name :: string
  env_source :: string
  env_goal_id :: "string option"
  env_correlation_id :: "string option"
  env_dedupe_key :: "string option"
  env_priority :: priority
  env_payload :: string
  env_reply_channel_id :: "string option"
  env_created_at :: int
  env_ttl_ms :: "int option"
  env_auth :: "auth_context option"

definition envelope_valid :: "envelope \<Rightarrow> bool" where
  "envelope_valid e \<longleftrightarrow> safe_nonneg (env_created_at e) \<and> opt_all safe_pos (env_ttl_ms e)"

section \<open>The in-memory priority queue\<close>

type_synonym 'a buckets = "priority \<Rightarrow> 'a list"

definition pq_empty :: "'a buckets" where
  "pq_empty = (\<lambda>_. [])"

definition pq_enqueue :: "'a \<Rightarrow> priority \<Rightarrow> 'a buckets \<Rightarrow> 'a buckets" where
  "pq_enqueue x p q = q(p := q p @ [x])"

text \<open>The loop over \<open>PRIORITY_ORDER\<close>: shift the first bucket that is not empty.\<close>

fun pq_dequeue_from :: "priority list \<Rightarrow> 'a buckets \<Rightarrow> 'a option \<times> 'a buckets" where
  "pq_dequeue_from [] q = (None, q)"
| "pq_dequeue_from (p # ps) q =
     (case q p of [] \<Rightarrow> pq_dequeue_from ps q | x # xs \<Rightarrow> (Some x, q(p := xs)))"

definition pq_dequeue :: "'a buckets \<Rightarrow> 'a option \<times> 'a buckets" where
  "pq_dequeue q = pq_dequeue_from priority_order q"

fun pq_peek_from :: "priority list \<Rightarrow> 'a buckets \<Rightarrow> 'a option" where
  "pq_peek_from [] q = None"
| "pq_peek_from (p # ps) q = (case q p of [] \<Rightarrow> pq_peek_from ps q | x # _ \<Rightarrow> Some x)"

definition pq_peek :: "'a buckets \<Rightarrow> 'a option" where
  "pq_peek q = pq_peek_from priority_order q"

definition pq_size :: "'a buckets \<Rightarrow> nat" where
  "pq_size q = sum_list (map (\<lambda>p. length (q p)) priority_order)"

definition pq_size_by_priority :: "'a buckets \<Rightarrow> priority \<Rightarrow> nat" where
  "pq_size_by_priority q p = length (q p)"

definition pq_clear :: "'a buckets \<Rightarrow> 'a buckets" where
  "pq_clear q = (\<lambda>p. [])"

definition pq_drain :: "priority \<Rightarrow> 'a buckets \<Rightarrow> 'a list \<times> 'a buckets" where
  "pq_drain p q = (q p, q(p := []))"

section \<open>Records and state of the durable queue\<close>

datatype queue_status = Pending | Inflight | Completed | Deadletter

record queue_record =
  qr_envelope :: envelope
  qr_status :: queue_status
  qr_attempt :: int
  qr_createdAt :: int
  qr_updatedAt :: int
  qr_workerId :: "string option"
  qr_claimToken :: "string option"
  qr_leaseUntil :: "int option"
  qr_deadletterReason :: "string option"
  qr_completedAt :: "int option"

record claim_record =
  cr_messageId :: string
  cr_workerId :: string
  cr_leaseUntil :: int
  cr_attempt :: int
  cr_claimedAt :: int

record queue_state =
  qs_records :: "(string, queue_record) table"
  qs_pending :: "priority \<Rightarrow> string list"
  qs_inflight :: "(string, claim_record) table"

text \<open>The zod schemas of the records; what they do not bound is fixed by the types.\<close>

definition queue_record_valid :: "queue_record \<Rightarrow> bool" where
  "queue_record_valid r \<longleftrightarrow>
     envelope_valid (qr_envelope r) \<and> safe_nonneg (qr_attempt r) \<and>
     safe_nonneg (qr_createdAt r) \<and> safe_nonneg (qr_updatedAt r) \<and>
     opt_all safe_nonneg (qr_leaseUntil r) \<and> opt_all safe_nonneg (qr_completedAt r)"

definition claim_record_valid :: "claim_record \<Rightarrow> bool" where
  "claim_record_valid c \<longleftrightarrow>
     safe_nonneg (cr_leaseUntil c) \<and> safe_nonneg (cr_attempt c) \<and> safe_nonneg (cr_claimedAt c)"

definition queue_state_valid :: "queue_state \<Rightarrow> bool" where
  "queue_state_valid s \<longleftrightarrow>
     list_all (\<lambda>(_, r). queue_record_valid r) (qs_records s) \<and>
     list_all (\<lambda>(_, c). claim_record_valid c) (qs_inflight s)"

definition is_expired :: "envelope \<Rightarrow> int \<Rightarrow> bool" where
  "is_expired e now \<longleftrightarrow>
     env_created_at e + (case env_ttl_ms e of None \<Rightarrow> 300000 | Some t \<Rightarrow> t) \<le> now"

definition empty_pending :: "priority \<Rightarrow> string list" where
  "empty_pending = (\<lambda>_. [])"

definition build_empty_state :: queue_state where
  "build_empty_state = \<lparr>qs_records = [], qs_pending = empty_pending, qs_inflight = []\<rparr>"

text \<open>The claim record that the loading code derives from an in-flight record.\<close>

definition derived_claim :: "string \<Rightarrow> queue_record \<Rightarrow> claim_record" where
  "derived_claim mid r =
     \<lparr>cr_messageId = mid,
      cr_workerId = (case qr_workerId r of None \<Rightarrow> '''' | Some w \<Rightarrow> w),
      cr_leaseUntil = (case qr_leaseUntil r of None \<Rightarrow> 0 | Some t \<Rightarrow> t),
      cr_attempt = qr_attempt r,
      cr_claimedAt = qr_updatedAt r\<rparr>"

section \<open>Normalisation of a loaded state\<close>

definition normalize_records :: "(string, queue_record) table \<Rightarrow> (string, queue_record) table" where
  "normalize_records recs =
     filter (\<lambda>(mid, r). queue_record_valid r \<and> env_id (qr_envelope r) = mid) recs"

definition normalize_pending ::
  "(string, queue_record) table \<Rightarrow> (priority \<Rightarrow> string list) \<Rightarrow> priority \<Rightarrow> string list" where
  "normalize_pending recs pend p =
     filter (\<lambda>mid. case table_get recs mid of None \<Rightarrow> False | Some r \<Rightarrow> qr_status r = Pending) (pend p)"

definition normalize_inflight ::
  "(string, queue_record) table \<Rightarrow> (string, claim_record) table \<Rightarrow> (string, claim_record) table" where
  "normalize_inflight recs infl =
     filter (\<lambda>(tok, c). claim_record_valid c \<and>
       (case table_get recs (cr_messageId c) of None \<Rightarrow> False
        | Some r \<Rightarrow> qr_status r = Inflight \<and> qr_claimToken r = Some tok)) infl"

text \<open>One round of the last loop: a record the lists do not mention is put where it belongs.\<close>

definition adopt_record :: "queue_state \<Rightarrow> string \<times> queue_record \<Rightarrow> queue_state" where
  "adopt_record s mr = (case mr of (mid, r) \<Rightarrow>
     (let p = env_priority (qr_envelope r);
          s1 = (if qr_status r = Pending \<and> mid \<notin> set (qs_pending s p)
                then s\<lparr>qs_pending := (qs_pending s)(p := qs_pending s p @ [mid])\<rparr> else s)
      in if qr_status r = Inflight \<and> truthy (qr_claimToken r)
         then s1\<lparr>qs_inflight := table_put (the (qr_claimToken r)) (derived_claim mid r) (qs_inflight s1)\<rparr>
         else s1))"

definition normalize_state :: "queue_state \<Rightarrow> queue_state" where
  "normalize_state st =
     (let recs = normalize_records (qs_records st);
          s0 = \<lparr>qs_records = recs,
                qs_pending = normalize_pending recs (qs_pending st),
                qs_inflight = normalize_inflight recs (qs_inflight st)\<rparr>
      in foldl adopt_record s0 recs)"

section \<open>The mutators\<close>

text \<open>A mutator returns its result, the changed state and the \<open>dirty\<close> flag.\<close>

type_synonym 'a mutation = "'a \<times> queue_state \<times> bool"

definition lease_expired :: "queue_record \<Rightarrow> string \<Rightarrow> int \<Rightarrow> bool" where
  "lease_expired r tok now \<longleftrightarrow>
     qr_claimToken r = Some tok \<and> (case qr_leaseUntil r of None \<Rightarrow> 0 | Some t \<Rightarrow> t) \<le> now"

text \<open>\<open>removePending\<close>: the first bucket that holds the id loses its first occurrence.\<close>

fun remove_pending_from :: "priority list \<Rightarrow> string \<Rightarrow> (priority \<Rightarrow> string list) \<Rightarrow> priority \<Rightarrow> string list" where
  "remove_pending_from [] mid pend = pend"
| "remove_pending_from (p # ps) mid pend =
     (if mid \<in> set (pend p) then pend(p := remove1 mid (pend p))
      else remove_pending_from ps mid pend)"

definition remove_pending :: "string \<Rightarrow> queue_state \<Rightarrow> queue_state" where
  "remove_pending mid s = s\<lparr>qs_pending := remove_pending_from priority_order mid (qs_pending s)\<rparr>"

definition push_pending :: "priority \<Rightarrow> string \<Rightarrow> queue_state \<Rightarrow> queue_state" where
  "push_pending p mid s = s\<lparr>qs_pending := (qs_pending s)(p := qs_pending s p @ [mid])\<rparr>"

definition put_record :: "string \<Rightarrow> queue_record \<Rightarrow> queue_state \<Rightarrow> queue_state" where
  "put_record mid r s = s\<lparr>qs_records := table_put mid r (qs_records s)\<rparr>"

definition drop_claim :: "string \<Rightarrow> queue_state \<Rightarrow> queue_state" where
  "drop_claim tok s = s\<lparr>qs_inflight := table_del tok (qs_inflight s)\<rparr>"

text \<open>\<open>delete record.workerId; delete record.claimToken; delete record.leaseUntil\<close>.\<close>

definition clear_lease :: "queue_record \<Rightarrow> queue_record" where
  "clear_lease r = r\<lparr>qr_workerId := None, qr_claimToken := None, qr_leaseUntil := None\<rparr>"

record accept_result =
  ar_accepted :: bool
  ar_duplicate :: bool
  ar_messageId :: string

definition active_dedupe :: "string option \<Rightarrow> string \<times> queue_record \<Rightarrow> bool" where
  "active_dedupe key mr = (case mr of (_, r) \<Rightarrow>
     env_dedupe_key (qr_envelope r) = key \<and> qr_status r \<noteq> Completed \<and> qr_status r \<noteq> Deadletter)"

definition forget_message :: "queue_state \<Rightarrow> string \<times> queue_record \<Rightarrow> queue_state" where
  "forget_message s mr =
     remove_pending (fst mr) (s\<lparr>qs_records := table_del (fst mr) (qs_records s)\<rparr>)"

definition fresh_record :: "int \<Rightarrow> envelope \<Rightarrow> queue_record" where
  "fresh_record now e =
     \<lparr>qr_envelope = e, qr_status = Pending, qr_attempt = 0, qr_createdAt = now, qr_updatedAt = now,
      qr_workerId = None, qr_claimToken = None, qr_leaseUntil = None,
      qr_deadletterReason = None, qr_completedAt = None\<rparr>"

definition accept :: "int \<Rightarrow> envelope \<Rightarrow> queue_state \<Rightarrow> accept_result mutation" where
  "accept now e s =
     (let mid = env_id e;
          refused = (\<lambda>dup i. \<lparr>ar_accepted = False, ar_duplicate = dup, ar_messageId = i\<rparr>);
          insert = (\<lambda>s'. (\<lparr>ar_accepted = True, ar_duplicate = False, ar_messageId = mid\<rparr>,
                     push_pending (env_priority e) mid (put_record mid (fresh_record now e) s'), True))
      in if table_get (qs_records s) mid \<noteq> None then (refused True mid, s, False)
         else if is_expired e now then (refused False mid, s, False)
         else if truthy (env_dedupe_key e) then
           (let active = filter (active_dedupe (env_dedupe_key e)) (qs_records s)
            in case find (\<lambda>(_, r). qr_status r = Inflight) active of
                 Some hit \<Rightarrow> (refused True (fst hit), s, False)
               | None \<Rightarrow> insert (foldl forget_message s active))
         else insert s)"

record queue_claim =
  qc_claimToken :: string
  qc_messageId :: string
  qc_workerId :: string
  qc_leaseUntil :: int
  qc_attempt :: int
  qc_envelope :: envelope

definition expire_before_claim :: "int \<Rightarrow> queue_record \<Rightarrow> queue_record" where
  "expire_before_claim now r =
     r\<lparr>qr_status := Deadletter, qr_deadletterReason := Some ''expired before claim'', qr_updatedAt := now\<rparr>"

definition filtered_out :: "(envelope \<Rightarrow> bool) option \<Rightarrow> envelope \<Rightarrow> bool" where
  "filtered_out f e = (case f of None \<Rightarrow> False | Some g \<Rightarrow> \<not> g e)"

text \<open>
  The \<open>while\<close> loop over one bucket. \<open>kept\<close> is the part of the bucket before
  \<open>index\<close>, the next argument the part from \<open>index\<close> on; the result is the bucket after
  the loop, the records, the dirty flag and the claimed message, if the loop returned one.
\<close>

fun claim_bucket ::
  "(envelope \<Rightarrow> bool) option \<Rightarrow> int \<Rightarrow> string list \<Rightarrow> string list \<Rightarrow> (string, queue_record) table \<Rightarrow> bool \<Rightarrow>
   string list \<times> (string, queue_record) table \<times> bool \<times> string option" where
  "claim_bucket f now kept [] recs dirty = (kept, recs, dirty, None)"
| "claim_bucket f now kept (mid # rest) recs dirty =
     (case table_get recs mid of
        None \<Rightarrow> claim_bucket f now kept rest recs True
      | Some r \<Rightarrow>
          if qr_status r \<noteq> Pending then claim_bucket f now kept rest recs True
          else if is_expired (qr_envelope r) now then
            claim_bucket f now kept rest (table_put mid (expire_before_claim now r) recs) True
          else if filtered_out f (qr_envelope r) then
            claim_bucket f now (kept @ [mid]) rest recs dirty
          else (kept @ rest, recs, True, Some mid))"

fun claim_scan ::
  "(envelope \<Rightarrow> bool) option \<Rightarrow> int \<Rightarrow> priority list \<Rightarrow> queue_state \<Rightarrow> bool \<Rightarrow> string option mutation" where
  "claim_scan f now [] s dirty = (None, s, dirty)"
| "claim_scan f now (p # ps) s dirty =
     (case claim_bucket f now [] (qs_pending s p) (qs_records s) dirty of
        (bucket, recs, dirty', hit) \<Rightarrow>
          (let s' = s\<lparr>qs_records := recs, qs_pending := (qs_pending s)(p := bucket)\<rparr>
           in case hit of Some mid \<Rightarrow> (Some mid, s', True) | None \<Rightarrow> claim_scan f now ps s' dirty'))"

definition lease_record :: "int \<Rightarrow> string \<Rightarrow> string \<Rightarrow> int \<Rightarrow> queue_record \<Rightarrow> queue_record" where
  "lease_record now worker uuid leaseMs r =
     r\<lparr>qr_status := Inflight, qr_attempt := qr_attempt r + 1, qr_workerId := Some worker,
       qr_claimToken := Some uuid, qr_leaseUntil := Some (now + leaseMs), qr_updatedAt := now\<rparr>"

definition claim ::
  "int \<Rightarrow> string \<Rightarrow> string \<Rightarrow> int \<Rightarrow> (envelope \<Rightarrow> bool) option \<Rightarrow> queue_state \<Rightarrow> queue_claim option mutation" where
  "claim now uuid worker leaseMs f s =
     (case claim_scan f now priority_order s False of
        (None, s', dirty) \<Rightarrow> (None, s', dirty)
      | (Some mid, s', _) \<Rightarrow>
          (case table_get (qs_records s') mid of
             None \<Rightarrow> (None, s', True)
           | Some r \<Rightarrow>
               (let r' = lease_record now worker uuid leaseMs r;
                    c = \<lparr>cr_messageId = mid, cr_workerId = worker, cr_leaseUntil = now + leaseMs,
                         cr_attempt = qr_attempt r + 1, cr_claimedAt = now\<rparr>;
                    s1 = put_record mid r' s';
                    s2 = s1\<lparr>qs_inflight := table_put uuid c (qs_inflight s1)\<rparr>
                in (Some \<lparr>qc_claimToken = uuid, qc_messageId = mid, qc_workerId = worker,
                          qc_leaseUntil = now + leaseMs, qc_attempt = qr_attempt r + 1,
                          qc_envelope = qr_envelope r\<rparr>, s2, True))))"

text \<open>The record a claim token stands for, as the guards of the methods read it.\<close>

definition held_record :: "string \<Rightarrow> claim_record \<Rightarrow> queue_state \<Rightarrow> queue_record option" where
  "held_record tok c s = (case table_get (qs_records s) (cr_messageId c) of
     None \<Rightarrow> None
   | Some r \<Rightarrow> if qr_status r \<noteq> Inflight \<or> qr_claimToken r \<noteq> Some tok then None else Some r)"

definition renew :: "int \<Rightarrow> string \<Rightarrow> int \<Rightarrow> queue_state \<Rightarrow> queue_claim option mutation" where
  "renew now tok leaseMs s =
     (case table_get (qs_inflight s) tok of
        None \<Rightarrow> (None, s, False)
      | Some c \<Rightarrow> (case held_record tok c s of
          None \<Rightarrow> (None, drop_claim tok s, True)
        | Some r \<Rightarrow>
            if lease_expired r tok now then (None, s, False)
            else (let until = now + leaseMs;
                      r' = r\<lparr>qr_leaseUntil := Some until, qr_updatedAt := now\<rparr>;
                      c' = c\<lparr>cr_leaseUntil := until, cr_claimedAt := now\<rparr>;
                      s1 = put_record (cr_messageId c) r' s
                  in (Some \<lparr>qc_claimToken = tok, qc_messageId = cr_messageId c,
                            qc_workerId = cr_workerId c, qc_leaseUntil = until,
                            qc_attempt = cr_attempt c, qc_envelope = qr_envelope r\<rparr>,
                      s1\<lparr>qs_inflight := table_put tok c' (qs_inflight s1)\<rparr>, True))))"

definition ack :: "int \<Rightarrow> string \<Rightarrow> queue_state \<Rightarrow> bool mutation" where
  "ack now tok s =
     (case table_get (qs_inflight s) tok of
        None \<Rightarrow> (False, s, False)
      | Some c \<Rightarrow> (case held_record tok c s of
          None \<Rightarrow> (False, s, False)
        | Some r \<Rightarrow>
            if lease_expired r tok now then (False, s, False)
            else (let r' = clear_lease (r\<lparr>qr_status := Completed, qr_completedAt := Some now,
                                          qr_updatedAt := now\<rparr>)
                  in (True, drop_claim tok (put_record (cr_messageId c) r' s), True))))"

definition nack :: "int \<Rightarrow> int \<Rightarrow> string \<Rightarrow> string \<Rightarrow> bool \<Rightarrow> queue_state \<Rightarrow> bool mutation" where
  "nack maxAttempts now tok reason requeue s =
     (case table_get (qs_inflight s) tok of
        None \<Rightarrow> (False, s, False)
      | Some c \<Rightarrow> (case held_record tok c s of
          None \<Rightarrow> (False, s, False)
        | Some r \<Rightarrow>
            if lease_expired r tok now then (False, s, False)
            else (let s1 = drop_claim tok s;
                      r1 = clear_lease (r\<lparr>qr_updatedAt := now\<rparr>)
                  in if \<not> requeue \<or> maxAttempts \<le> qr_attempt r1 then
                       (True, put_record (cr_messageId c)
                          (r1\<lparr>qr_status := Deadletter, qr_deadletterReason := Some reason\<rparr>) s1, True)
                     else
                       (True, push_pending (env_priority (qr_envelope r1)) (env_id (qr_envelope r1))
                          (put_record (cr_messageId c) (r1\<lparr>qr_status := Pending\<rparr>) s1), True))))"

text \<open>\<open>if (record.status === 'inflight' && record.claimToken) delete state.inflight[...]\<close>.\<close>

definition release_claim_of :: "queue_record \<Rightarrow> queue_state \<Rightarrow> queue_state" where
  "release_claim_of r s =
     (if qr_status r = Inflight \<and> truthy (qr_claimToken r) then drop_claim (the (qr_claimToken r)) s else s)"

definition requeue_message :: "int \<Rightarrow> string \<Rightarrow> queue_state \<Rightarrow> bool mutation" where
  "requeue_message now mid s =
     (case table_get (qs_records s) mid of
        None \<Rightarrow> (False, s, False)
      | Some r \<Rightarrow>
          if qr_status r = Completed then (False, s, False)
          else if qr_status r = Pending then (True, s, False)
          else (let s1 = release_claim_of r s;
                    r' = (clear_lease r)\<lparr>qr_deadletterReason := None, qr_status := Pending, qr_updatedAt := now\<rparr>
                in (True, push_pending (env_priority (qr_envelope r)) mid (put_record mid r' s1), True)))"

definition deadletter :: "int \<Rightarrow> string \<Rightarrow> string \<Rightarrow> queue_state \<Rightarrow> bool mutation" where
  "deadletter now mid reason s =
     (case table_get (qs_records s) mid of
        None \<Rightarrow> (False, s, False)
      | Some r \<Rightarrow>
          (let s1 = remove_pending mid (release_claim_of r s);
               r' = (clear_lease r)\<lparr>qr_status := Deadletter, qr_deadletterReason := Some reason,
                                    qr_updatedAt := now\<rparr>
           in (True, put_record mid r' s1, True)))"

record sweep_result =
  sw_reclaimed :: nat
  sw_deadlettered :: nat
  sw_expiredClaimTokens :: "string list"

text \<open>One round of the sweep over a copy of the in-flight entries.\<close>

definition sweep_one ::
  "int \<Rightarrow> int \<Rightarrow> sweep_result \<times> queue_state \<Rightarrow> string \<times> claim_record \<Rightarrow> sweep_result \<times> queue_state" where
  "sweep_one maxAttempts now acc tc = (case acc of (res, s) \<Rightarrow> (case tc of (tok, c) \<Rightarrow>
     if cr_leaseUntil c > now then (res, s)
     else (let res1 = res\<lparr>sw_expiredClaimTokens := sw_expiredClaimTokens res @ [tok]\<rparr>;
               s1 = drop_claim tok s
           in case held_record tok c s of
                None \<Rightarrow> (res1, s1)
              | Some r \<Rightarrow>
                  (let r1 = clear_lease (r\<lparr>qr_updatedAt := now\<rparr>)
                   in if maxAttempts \<le> qr_attempt r1 then
                        (res1\<lparr>sw_deadlettered := sw_deadlettered res1 + 1\<rparr>,
                         put_record (cr_messageId c)
                           (r1\<lparr>qr_status := Deadletter, qr_deadletterReason := Some ''lease expired''\<rparr>) s1)
                      else
                        (res1\<lparr>sw_reclaimed := sw_reclaimed res1 + 1\<rparr>,
                         push_pending (env_priority (qr_envelope r1)) (env_id (qr_envelope r1))
                           (put_record (cr_messageId c) (r1\<lparr>qr_status := Pending\<rparr>) s1))))))"

definition sweep_expired_claims :: "int \<Rightarrow> int \<Rightarrow> queue_state \<Rightarrow> sweep_result mutation" where
  "sweep_expired_claims maxAttempts now s =
     (case foldl (sweep_one maxAttempts now)
             (\<lparr>sw_reclaimed = 0, sw_deadlettered = 0, sw_expiredClaimTokens = []\<rparr>, s) (qs_inflight s) of
        (res, s') \<Rightarrow> (res, s', sw_expiredClaimTokens res \<noteq> []))"

section \<open>Reading methods\<close>

record queue_snapshot =
  sn_pending :: "priority \<Rightarrow> string list"
  sn_inflight :: "(string, claim_record) table"
  sn_completed :: "string list"
  sn_deadletter :: "string list"

definition snapshot :: "queue_state \<Rightarrow> queue_snapshot" where
  "snapshot s =
     \<lparr>sn_pending = qs_pending s, sn_inflight = qs_inflight s,
      sn_completed = [env_id (qr_envelope r). (_, r) \<leftarrow> qs_records s, qr_status r = Completed],
      sn_deadletter = [env_id (qr_envelope r). (_, r) \<leftarrow> qs_records s, qr_status r = Deadletter]\<rparr>"

definition queue_get :: "string \<Rightarrow> queue_state \<Rightarrow> queue_record option" where
  "queue_get mid s = table_get (qs_records s) mid"

definition queue_size :: "queue_state \<Rightarrow> nat" where
  "queue_size s = foldl (\<lambda>total p. total + length (qs_pending s p)) 0 priority_order"

definition inflight_size :: "queue_state \<Rightarrow> nat" where
  "inflight_size s = length (qs_inflight s)"

section \<open>The table and the transaction\<close>

text \<open>
  A row of \<open>runtime_queue_records\<close>: the columns the reader uses. The other columns are
  copies of fields of the record, kept for queries outside this class.
\<close>

record queue_row =
  row_message_id :: string
  row_priority :: priority
  row_queue_order :: "nat option"
  row_created_at :: int
  row_record :: queue_record

fun priority_rank :: "priority \<Rightarrow> nat" where
  "priority_rank Critical = 0"
| "priority_rank High = 1"
| "priority_rank Normal = 2"
| "priority_rank Low = 3"

text \<open>The \<open>ORDER BY\<close> key; SQLite sorts NULL first, as \<open>None\<close> is the least option.\<close>

definition row_key :: "queue_row \<Rightarrow> nat \<times> nat option \<times> int \<times> string" where
  "row_key w = (priority_rank (row_priority w), row_queue_order w, row_created_at w, row_message_id w)"

definition load_row :: "queue_state \<Rightarrow> queue_row \<Rightarrow> queue_state" where
  "load_row s w =
     (let mid = row_message_id w; r = row_record w
      in if \<not> queue_record_valid r \<or> env_id (qr_envelope r) \<noteq> mid then s
         else (let s1 = put_record mid r s;
                   s2 = (if qr_status r = Pending then push_pending (env_priority (qr_envelope r)) mid s1 else s1)
               in if qr_status r = Inflight \<and> truthy (qr_claimToken r)
                  then s2\<lparr>qs_inflight := table_put (the (qr_claimToken r)) (derived_claim mid r) (qs_inflight s2)\<rparr>
                  else s2))"

definition read_queue_state :: "queue_row list \<Rightarrow> queue_state" where
  "read_queue_state rows = normalize_state (foldl load_row build_empty_state (sort_key row_key rows))"

text \<open>The map \<open>pendingOrder\<close>: a later entry of the same id overwrites an earlier one.\<close>

definition pending_order :: "(priority \<Rightarrow> string list) \<Rightarrow> string \<Rightarrow> nat option" where
  "pending_order pend =
     foldl (\<lambda>m p. foldl (\<lambda>m' (i, mid). m'(mid \<mapsto> i)) m (enumerate 0 (pend p))) Map.empty priority_order"

definition write_queue_state :: "queue_state \<Rightarrow> queue_row list" where
  "write_queue_state s =
     map (\<lambda>(mid, r). \<lparr>row_message_id = mid, row_priority = env_priority (qr_envelope r),
            row_queue_order = (if qr_status r = Pending then pending_order (qs_pending s) mid else None),
            row_created_at = qr_createdAt r, row_record = r\<rparr>) (qs_records s)"

text \<open>
  \<open>withLockedState\<close>: one SQLite transaction. A throw inside it (here the schema check of
  \<open>persist\<close>) rolls the transaction back, so the table keeps its rows.
\<close>

definition with_locked_state :: "(queue_state \<Rightarrow> 'a mutation) \<Rightarrow> queue_row list \<Rightarrow> 'a result \<times> queue_row list" where
  "with_locked_state mutator rows =
     (case mutator (read_queue_state rows) of (res, s', dirty) \<Rightarrow>
        if \<not> dirty then (Inr res, rows)
        else if queue_state_valid s' then (Inr res, write_queue_state s')
        else (Inl SchemaError, rows))"

text \<open>\<open>accept\<close> parses its envelope before it opens the transaction.\<close>

definition accept_envelope :: "int \<Rightarrow> envelope \<Rightarrow> queue_row list \<Rightarrow> accept_result result \<times> queue_row list" where
  "accept_envelope now e rows =
     (if envelope_valid e then with_locked_state (accept now e) rows else (Inl SchemaError, rows))"

definition import_legacy_state :: "queue_state option \<Rightarrow> queue_row list \<Rightarrow> queue_snapshot \<times> queue_row list" where
  "import_legacy_state raw rows =
     (let s = (case raw of None \<Rightarrow> build_empty_state | Some st \<Rightarrow> normalize_state st);
          rows' = write_queue_state s
      in (snapshot (read_queue_state rows'), rows'))"

end
