(* ===== verification/Queue_Invariant.thy ===== *)
theory Queue_Invariant
  imports Message_Queue
begin

text \<open>
  The invariant of the durable queue and its preservation by every mutator: a record is in
  the bucket of its priority exactly when it is pending, and under its claim token in the claim
  table exactly when it is in flight. One transition lemma carries all the proofs; the loops of
  the sweep and of \<open>claim\<close> are brought to closed forms on the way.
\<close>

section \<open>The invariant\<close>

definition pending_at :: "queue_state \<Rightarrow> string \<Rightarrow> priority \<Rightarrow> bool" where
  "pending_at s mid p \<longleftrightarrow> (\<exists>r. table_get (qs_records s) mid = Some r \<and> qr_status r = Pending \<and>
     env_priority (qr_envelope r) = p)"

definition claimed_by :: "queue_state \<Rightarrow> string \<Rightarrow> claim_record \<Rightarrow> bool" where
  "claimed_by s tok c \<longleftrightarrow> (\<exists>mid r. table_get (qs_records s) mid = Some r \<and> qr_status r = Inflight \<and>
     qr_claimToken r = Some tok \<and> c = derived_claim mid r)"

definition record_consistent :: "string \<Rightarrow> queue_record \<Rightarrow> bool" where
  "record_consistent mid r \<longleftrightarrow> env_id (qr_envelope r) = mid \<and>
     (qr_status r = Inflight \<longleftrightarrow> qr_claimToken r \<noteq> None) \<and> qr_claimToken r \<noteq> Some ''''"

definition queue_wf :: "queue_state \<Rightarrow> bool" where
  "queue_wf s \<longleftrightarrow>
     table_wf (qs_records s) \<and> table_wf (qs_inflight s) \<and>
     (\<forall>mid r. table_get (qs_records s) mid = Some r \<longrightarrow> record_consistent mid r) \<and>
     (\<forall>p. distinct (qs_pending s p)) \<and>
     (\<forall>p mid. mid \<in> set (qs_pending s p) \<longleftrightarrow> pending_at s mid p) \<and>
     (\<forall>tok c. table_get (qs_inflight s) tok = Some c \<longleftrightarrow> claimed_by s tok c)"

lemma queue_wfD:
  assumes "queue_wf s"
  shows "table_wf (qs_records s)" "table_wf (qs_inflight s)"
    "table_get (qs_records s) mid = Some r \<Longrightarrow> record_consistent mid r"
    "distinct (qs_pending s p)"
    "mid \<in> set (qs_pending s p) \<longleftrightarrow> pending_at s mid p"
    "table_get (qs_inflight s) tok = Some c \<longleftrightarrow> claimed_by s tok c"
  using assms by (simp_all add: queue_wf_def)

lemma derived_claim_messageId [simp]: "cr_messageId (derived_claim mid r) = mid"
  by (simp add: derived_claim_def)

lemma claimed_by_iff:
  "claimed_by s tok c \<longleftrightarrow> (\<exists>r. table_get (qs_records s) (cr_messageId c) = Some r \<and> qr_status r = Inflight \<and>
     qr_claimToken r = Some tok \<and> c = derived_claim (cr_messageId c) r)"
  by (auto simp: claimed_by_def)

text \<open>
  Every mutator changes one record, and its places in the buckets and the claim table with it.
  This is the one lemma behind all preservation proofs.
\<close>

lemma queue_wf_transition:
  assumes wf: "queue_wf s"
    and recs: "table_get (qs_records s') = (table_get (qs_records s))(mid \<mapsto> r)"
    and wfs: "table_wf (qs_records s')" "table_wf (qs_inflight s')"
    and cons: "record_consistent mid r"
    and dist: "\<And>p. distinct (qs_pending s' p)"
    and pend: "\<And>p m. m \<in> set (qs_pending s' p) \<longleftrightarrow>
       (if m = mid then qr_status r = Pending \<and> env_priority (qr_envelope r) = p
        else m \<in> set (qs_pending s p))"
    and infl: "\<And>tok c. table_get (qs_inflight s') tok = Some c \<longleftrightarrow>
       (if qr_claimToken r = Some tok then c = derived_claim mid r
        else table_get (qs_inflight s) tok = Some c \<and> cr_messageId c \<noteq> mid)"
    and fresh: "\<And>m r2. table_get (qs_records s) m = Some r2 \<Longrightarrow> m \<noteq> mid \<Longrightarrow>
       qr_claimToken r2 \<noteq> None \<Longrightarrow> qr_claimToken r2 \<noteq> qr_claimToken r"
  shows "queue_wf s'"
proof -
  have get: "\<And>m. table_get (qs_records s') m = (if m = mid then Some r else table_get (qs_records s) m)"
    by (simp add: recs)
  have inflight: "qr_claimToken r \<noteq> None \<longleftrightarrow> qr_status r = Inflight"
    using cons by (auto simp: record_consistent_def)
  have c1: "m \<in> set (qs_pending s' p) \<longleftrightarrow> pending_at s' m p" for m p
    using queue_wfD(5)[OF wf, of m p] by (auto simp: pend pending_at_def get)
  have c2: "table_get (qs_inflight s') tok = Some c \<longleftrightarrow> claimed_by s' tok c" for tok c
  proof (cases "qr_claimToken r = Some tok")
    case True
    then have "claimed_by s' tok c \<longleftrightarrow> c = derived_claim mid r"
      using inflight fresh[of "cr_messageId c"]
      by (auto simp: claimed_by_iff get split: if_splits)
    with True show ?thesis by (simp add: infl)
  next
    case False
    then show ?thesis
      using queue_wfD(6)[OF wf, of tok c]
      by (auto simp: infl claimed_by_iff get)
  qed
  have c3: "record_consistent m r2" if "table_get (qs_records s') m = Some r2" for m r2
    using that cons queue_wfD(3)[OF wf] by (auto simp: get split: if_splits)
  show ?thesis
    unfolding queue_wf_def using wfs dist c1 c2 c3 by blast
qed

text \<open>The record behind a claim token.\<close>

lemma held_record_Some:
  "held_record tok c s = Some r \<longleftrightarrow>
     table_get (qs_records s) (cr_messageId c) = Some r \<and> qr_status r = Inflight \<and> qr_claimToken r = Some tok"
  by (auto simp: held_record_def split: option.splits)

lemma wf_claim_held:
  assumes "queue_wf s" "table_get (qs_inflight s) tok = Some c"
  shows "\<exists>r. held_record tok c s = Some r \<and> c = derived_claim (cr_messageId c) r"
  using queue_wfD(6)[OF assms(1), of tok c] assms(2)
  by (auto simp: claimed_by_iff held_record_Some)

lemma wf_token_unique:
  assumes wf: "queue_wf s"
    and "table_get (qs_records s) m1 = Some r1" "qr_claimToken r1 = Some tok"
    and "table_get (qs_records s) m2 = Some r2" "qr_claimToken r2 = Some tok"
  shows "m1 = m2"
proof -
  have "qr_status r1 = Inflight" "qr_status r2 = Inflight"
    using queue_wfD(3)[OF wf] assms by (auto simp: record_consistent_def)
  then have "claimed_by s tok (derived_claim m1 r1)" "claimed_by s tok (derived_claim m2 r2)"
    using assms by (auto simp: claimed_by_def)
  then have "derived_claim m1 r1 = derived_claim m2 r2"
    using queue_wfD(6)[OF wf, of tok] by (metis option.inject)
  then show ?thesis by (metis derived_claim_messageId)
qed

lemma wf_no_pending_elsewhere:
  "queue_wf s \<Longrightarrow> table_get (qs_records s) mid = Some r \<Longrightarrow> qr_status r \<noteq> Pending \<Longrightarrow> mid \<notin> set (qs_pending s p)"
  by (auto simp: queue_wfD(5) pending_at_def)

lemma wf_pending_bucket:
  "queue_wf s \<Longrightarrow> table_get (qs_records s) mid = Some r \<Longrightarrow> mid \<in> set (qs_pending s p) \<Longrightarrow>
   qr_status r = Pending \<and> env_priority (qr_envelope r) = p"
  by (auto simp: queue_wfD(5) pending_at_def)

text \<open>The record leaves the in-flight state under its token.\<close>

lemma wf_inflight_release:
  assumes wf: "queue_wf s" and r: "table_get (qs_records s) mid = Some r"
    and tok: "qr_claimToken r = Some tok"
  shows "table_get (table_del tok (qs_inflight s)) t = Some c \<longleftrightarrow>
         table_get (qs_inflight s) t = Some c \<and> cr_messageId c \<noteq> mid"
proof (cases "t = tok")
  case True
  have "cr_messageId c = mid" if h: "table_get (qs_inflight s) tok = Some c"
  proof -
    obtain r2 where "held_record tok c s = Some r2" using wf_claim_held[OF wf h] by blast
    then show ?thesis using wf_token_unique[OF wf _ _ r tok] by (auto simp: held_record_Some)
  qed
  then show ?thesis using True by (auto simp: table_get_del)
next
  case False
  have "cr_messageId c \<noteq> mid" if h: "table_get (qs_inflight s) t = Some c"
    using wf_claim_held[OF wf h] r tok False by (auto simp: held_record_Some)
  then show ?thesis using False by (auto simp: table_get_del)
qed

lemma wf_not_inflight_no_claim:
  assumes wf: "queue_wf s" and r: "table_get (qs_records s) mid = Some r" and "qr_status r \<noteq> Inflight"
    and h: "table_get (qs_inflight s) t = Some c"
  shows "cr_messageId c \<noteq> mid"
  using wf_claim_held[OF wf h] r assms(3) by (auto simp: held_record_Some)


section \<open>Preservation\<close>

lemmas state_sel = put_record_def drop_claim_def push_pending_def clear_lease_def

text \<open>An in-flight record is settled: completed, dead-lettered or pending again.\<close>

lemma settle_wf:
  assumes wf: "queue_wf s" and r: "table_get (qs_records s) mid = Some r"
    and tok: "qr_claimToken r = Some tok"
    and r': "qr_envelope r' = qr_envelope r" "qr_status r' \<noteq> Inflight" "qr_claimToken r' = None"
  shows "queue_wf (if qr_status r' = Pending
      then push_pending (env_priority (qr_envelope r')) mid (put_record mid r' (drop_claim tok s))
      else put_record mid r' (drop_claim tok s))" (is "queue_wf ?s")
proof (rule queue_wf_transition[OF wf, of _ mid r'])
  have rc: "record_consistent mid r" using queue_wfD(3)[OF wf r] .
  then have "qr_status r = Inflight" using tok by (simp add: record_consistent_def)
  then have out: "mid \<notin> set (qs_pending s p)" for p
    using wf_no_pending_elsewhere[OF wf r] by simp
  show "table_get (qs_records ?s) = (table_get (qs_records s))(mid \<mapsto> r')"
    by (auto simp: state_sel update_conv')
  show "table_wf (qs_records ?s)" "table_wf (qs_inflight ?s)"
    using queue_wfD(1,2)[OF wf] by (auto simp: state_sel)
  show "record_consistent mid r'" using rc r' by (simp add: record_consistent_def)
  show "distinct (qs_pending ?s p)" for p
    using queue_wfD(4)[OF wf, of p] out by (auto simp: state_sel)
  show "m \<in> set (qs_pending ?s p) \<longleftrightarrow> (if m = mid then qr_status r' = Pending \<and> env_priority (qr_envelope r') = p
        else m \<in> set (qs_pending s p))" for m p
    using out by (auto simp: state_sel)
  show "table_get (qs_inflight ?s) t = Some c \<longleftrightarrow>
       (if qr_claimToken r' = Some t then c = derived_claim mid r'
        else table_get (qs_inflight s) t = Some c \<and> cr_messageId c \<noteq> mid)" for t c
    using wf_inflight_release[OF wf r tok, of t c] r' by (auto simp: state_sel)
  show "qr_claimToken r2 \<noteq> qr_claimToken r'" if "qr_claimToken r2 \<noteq> None" for r2
    using that r' by simp
qed

lemma held_settle:
  assumes wf: "queue_wf s" and c: "table_get (qs_inflight s) tok = Some c" and h: "held_record tok c s = Some r"
  shows "table_get (qs_records s) (cr_messageId c) = Some r" "qr_claimToken r = Some tok"
    "env_id (qr_envelope r) = cr_messageId c" "qr_status r = Inflight" "c = derived_claim (cr_messageId c) r"
proof -
  show r: "table_get (qs_records s) (cr_messageId c) = Some r" and "qr_claimToken r = Some tok" "qr_status r = Inflight"
    using h by (auto simp: held_record_Some)
  show "env_id (qr_envelope r) = cr_messageId c" using queue_wfD(3)[OF wf r] by (simp add: record_consistent_def)
  show "c = derived_claim (cr_messageId c) r" using wf_claim_held[OF wf c] h by auto
qed

lemma drop_put: "drop_claim tok (put_record mid r s) = put_record mid r (drop_claim tok s)"
  by (cases s) (simp add: state_sel)

lemma ack_wf [ps_inv]: "queue_wf s \<Longrightarrow> queue_wf (fst (snd (ack now tok s)))"
proof -
  assume wf: "queue_wf s"
  have "queue_wf (drop_claim tok (put_record (cr_messageId c)
          (clear_lease (r\<lparr>qr_status := Completed, qr_completedAt := Some now, qr_updatedAt := now\<rparr>)) s))"
    if c: "table_get (qs_inflight s) tok = Some c" and h: "held_record tok c s = Some r" for c r
    using settle_wf[OF wf held_settle(1,2)[OF wf c h],
        of "clear_lease (r\<lparr>qr_status := Completed, qr_completedAt := Some now, qr_updatedAt := now\<rparr>)"]
    by (simp add: drop_put clear_lease_def)
  then show ?thesis using wf by (auto simp: ack_def Let_def split: option.splits)
qed

lemma nack_wf [ps_inv]: "queue_wf s \<Longrightarrow> queue_wf (fst (snd (nack maxA now tok reason rq s)))"
proof -
  assume wf: "queue_wf s"
  have "queue_wf (put_record (cr_messageId c) ((clear_lease (r\<lparr>qr_updatedAt := now\<rparr>))\<lparr>qr_status := Deadletter,
           qr_deadletterReason := Some reason\<rparr>) (drop_claim tok s))"
    and "queue_wf (push_pending (env_priority (qr_envelope r)) (env_id (qr_envelope r))
           (put_record (cr_messageId c) ((clear_lease (r\<lparr>qr_updatedAt := now\<rparr>))\<lparr>qr_status := Pending\<rparr>) (drop_claim tok s)))"
    if c: "table_get (qs_inflight s) tok = Some c" and h: "held_record tok c s = Some r" for c r
    using settle_wf[OF wf held_settle(1,2)[OF wf c h],
        of "(clear_lease (r\<lparr>qr_updatedAt := now\<rparr>))\<lparr>qr_status := Deadletter, qr_deadletterReason := Some reason\<rparr>"]
      settle_wf[OF wf held_settle(1,2)[OF wf c h],
        of "(clear_lease (r\<lparr>qr_updatedAt := now\<rparr>))\<lparr>qr_status := Pending\<rparr>"] held_settle(3)[OF wf c h]
    by (simp_all add: clear_lease_def)
  then show ?thesis using wf by (auto simp: nack_def Let_def clear_lease_def split: option.splits)
qed

lemma renew_wf [ps_inv]: "queue_wf s \<Longrightarrow> queue_wf (fst (snd (renew now tok leaseMs s)))"
proof -
  assume wf: "queue_wf s"
  let ?r' = "\<lambda>r. r\<lparr>qr_leaseUntil := Some (now + leaseMs), qr_updatedAt := now\<rparr>"
  let ?s' = "\<lambda>c r. (put_record (cr_messageId c) (?r' r) s)\<lparr>qs_inflight :=
       table_put tok (c\<lparr>cr_leaseUntil := now + leaseMs, cr_claimedAt := now\<rparr>) (qs_inflight s)\<rparr>"
  have "queue_wf (?s' c r)"
    if c: "table_get (qs_inflight s) tok = Some c" and h: "held_record tok c s = Some r" for c r
  proof (rule queue_wf_transition[OF wf, of _ "cr_messageId c" "?r' r"])
    note hs = held_settle[OF wf c h]
    show "table_get (qs_records (?s' c r)) = (table_get (qs_records s))(cr_messageId c \<mapsto> ?r' r)"
      by (simp add: state_sel update_conv')
    show "table_wf (qs_records (?s' c r))" "table_wf (qs_inflight (?s' c r))"
      using queue_wfD(1,2)[OF wf] by (auto simp: state_sel)
    show "record_consistent (cr_messageId c) (?r' r)"
      using queue_wfD(3)[OF wf hs(1)] by (simp add: record_consistent_def)
    show "distinct (qs_pending (?s' c r) p)" for p using queue_wfD(4)[OF wf] by (simp add: state_sel)
    show "m \<in> set (qs_pending (?s' c r) p) \<longleftrightarrow>
       (if m = cr_messageId c then qr_status (?r' r) = Pending \<and> env_priority (qr_envelope (?r' r)) = p
        else m \<in> set (qs_pending s p))" for m p
      using wf_no_pending_elsewhere[OF wf hs(1)] hs(4) by (simp add: state_sel)
    have new: "c\<lparr>cr_leaseUntil := now + leaseMs, cr_claimedAt := now\<rparr> = derived_claim (cr_messageId c) (?r' r)"
      by (subst hs(5)) (simp add: derived_claim_def)
    show "table_get (qs_inflight (?s' c r)) t = Some d \<longleftrightarrow>
       (if qr_claimToken (?r' r) = Some t then d = derived_claim (cr_messageId c) (?r' r)
        else table_get (qs_inflight s) t = Some d \<and> cr_messageId d \<noteq> cr_messageId c)" for t d
      using wf_inflight_release[OF wf hs(1,2), of t d] hs(2) new
      by (auto simp: state_sel table_get_put table_get_del)
    show "qr_claimToken r2 \<noteq> qr_claimToken (?r' r)"
      if "table_get (qs_records s) m = Some r2" "m \<noteq> cr_messageId c" for m r2
      using wf_token_unique[OF wf that(1) _ hs(1,2)] that(2) hs(2) by auto
  qed
  moreover have "held_record tok c s \<noteq> None" if "table_get (qs_inflight s) tok = Some c" for c
    using wf_claim_held[OF wf that] by auto
  ultimately show ?thesis using wf by (auto simp: renew_def Let_def put_record_def split: option.splits)
qed

lemma remove_pending_from_spec:
  assumes "\<And>p q. mid \<in> set (pend p) \<Longrightarrow> mid \<in> set (pend q) \<Longrightarrow> p = q"
    and "\<And>p. distinct (pend p)"
    and "\<And>p. mid \<in> set (pend p) \<Longrightarrow> p \<in> set ps"
  shows "remove_pending_from ps mid pend = (\<lambda>q. removeAll mid (pend q))"
  using assms
proof (induction ps)
  case Nil
  then have "mid \<notin> set (pend p)" for p by auto
  then show ?case by (simp add: fun_eq_iff)
next
  case (Cons p ps)
  show ?case
  proof (cases "mid \<in> set (pend p)")
    case True
    then have "removeAll mid (pend q) = pend q" if "q \<noteq> p" for q
      using Cons.prems(1)[of p q] that by (intro removeAll_id) auto
    with True Cons.prems(2)[of p] show ?thesis
      by (simp add: fun_eq_iff distinct_remove1_removeAll)
  next
    case False
    have "p' \<in> set ps" if "mid \<in> set (pend p')" for p'
      using Cons.prems(3)[OF that] that False by auto
    with Cons.prems(1,2) have "remove_pending_from ps mid pend = (\<lambda>q. removeAll mid (pend q))"
      by (rule Cons.IH)
    with False show ?thesis by simp
  qed
qed

lemma priority_order_all [simp]: "p \<in> set priority_order"
  by (cases p) (simp_all add: priority_order_def)

lemma wf_remove_pending:
  assumes wf: "queue_wf s"
  shows "remove_pending mid s = s\<lparr>qs_pending := (\<lambda>q. removeAll mid (qs_pending s q))\<rparr>"
proof -
  have "p = q" if "mid \<in> set (qs_pending s p)" "mid \<in> set (qs_pending s q)" for p q
    using that by (auto simp: queue_wfD(5)[OF wf] pending_at_def)
  then have "remove_pending_from priority_order mid (qs_pending s) = (\<lambda>q. removeAll mid (qs_pending s q))"
    by (intro remove_pending_from_spec) (auto simp: queue_wfD(4)[OF wf])
  then show ?thesis by (simp add: remove_pending_def)
qed

lemma wf_release_claim_of:
  assumes wf: "queue_wf s" and r: "table_get (qs_records s) mid = Some r"
  shows "release_claim_of r s = (case qr_claimToken r of None \<Rightarrow> s | Some tok \<Rightarrow> drop_claim tok s)"
  using queue_wfD(3)[OF wf r] by (auto simp: release_claim_of_def record_consistent_def truthy_iff)

text \<open>A record moves to a state without a claim, from whatever state it is in.\<close>

definition move_record :: "string \<Rightarrow> queue_record \<Rightarrow> queue_record \<Rightarrow> queue_state \<Rightarrow> queue_state" where
  "move_record mid r r' s =
     (let s1 = (case qr_claimToken r of None \<Rightarrow> s | Some tok \<Rightarrow> drop_claim tok s);
          s2 = put_record mid r' (s1\<lparr>qs_pending := (\<lambda>q. removeAll mid (qs_pending s1 q))\<rparr>)
      in if qr_status r' = Pending then push_pending (env_priority (qr_envelope r')) mid s2 else s2)"

lemma move_record_sel:
  "qs_records (move_record mid r r' s) = table_put mid r' (qs_records s)"
  "qs_inflight (move_record mid r r' s) =
     (case qr_claimToken r of None \<Rightarrow> qs_inflight s | Some tok \<Rightarrow> table_del tok (qs_inflight s))"
  "qs_pending (move_record mid r r' s) p =
     (if qr_status r' = Pending \<and> env_priority (qr_envelope r') = p
      then removeAll mid (qs_pending s p) @ [mid] else removeAll mid (qs_pending s p))"
  by (auto simp: move_record_def Let_def state_sel split: option.splits)

lemma move_record_wf:
  assumes wf: "queue_wf s" and r: "table_get (qs_records s) mid = Some r"
    and r': "qr_envelope r' = qr_envelope r" "qr_status r' \<noteq> Inflight" "qr_claimToken r' = None"
  shows "queue_wf (move_record mid r r' s)" (is "queue_wf ?s")
proof (rule queue_wf_transition[OF wf, of _ mid r'])
  have rc: "record_consistent mid r" using queue_wfD(3)[OF wf r] .
  show "table_get (qs_records ?s) = (table_get (qs_records s))(mid \<mapsto> r')"
    by (simp add: move_record_sel update_conv')
  show "table_wf (qs_records ?s)" "table_wf (qs_inflight ?s)"
    using queue_wfD(1,2)[OF wf] by (auto simp: move_record_sel split: option.splits)
  show "record_consistent mid r'" using rc r' by (simp add: record_consistent_def)
  show "distinct (qs_pending ?s p)" for p
    using queue_wfD(4)[OF wf, of p] by (simp add: move_record_sel distinct_removeAll)
  show "m \<in> set (qs_pending ?s p) \<longleftrightarrow> (if m = mid then qr_status r' = Pending \<and> env_priority (qr_envelope r') = p
        else m \<in> set (qs_pending s p))" for m p
    by (auto simp: move_record_sel)
  show "table_get (qs_inflight ?s) t = Some c \<longleftrightarrow>
       (if qr_claimToken r' = Some t then c = derived_claim mid r'
        else table_get (qs_inflight s) t = Some c \<and> cr_messageId c \<noteq> mid)" for t c
  proof (cases "qr_claimToken r")
    case None
    then have "qr_status r \<noteq> Inflight" using rc by (simp add: record_consistent_def)
    then show ?thesis
      using wf_not_inflight_no_claim[OF wf r, of t c] None r' by (auto simp: move_record_sel)
  next
    case (Some tok)
    then show ?thesis
      using wf_inflight_release[OF wf r Some, of t c] r' by (simp add: move_record_sel)
  qed
  show "qr_claimToken r2 \<noteq> qr_claimToken r'" if "qr_claimToken r2 \<noteq> None" for r2
    using that r' by simp
qed

lemma removeAll_settled:
  "queue_wf s \<Longrightarrow> table_get (qs_records s) mid = Some r \<Longrightarrow> qr_status r \<noteq> Pending \<Longrightarrow>
   removeAll mid (qs_pending s p) = qs_pending s p"
  using wf_no_pending_elsewhere by (metis removeAll_id)

lemma requeue_move:
  assumes wf: "queue_wf s" and r: "table_get (qs_records s) mid = Some r"
    and st: "qr_status r \<noteq> Completed" "qr_status r \<noteq> Pending"
  shows "requeue_message now mid s = (True, move_record mid r
    ((clear_lease r)\<lparr>qr_deadletterReason := None, qr_status := Pending, qr_updatedAt := now\<rparr>) s, True)"
  using r st removeAll_settled[OF wf r st(2)]
  by (simp add: requeue_message_def Let_def wf_release_claim_of[OF wf r] move_record_def clear_lease_def
      put_record_def push_pending_def drop_claim_def split: option.splits)

lemma requeue_wf [ps_inv]: "queue_wf s \<Longrightarrow> queue_wf (fst (snd (requeue_message now mid s)))"
proof -
  assume wf: "queue_wf s"
  show ?thesis
  proof (cases "\<exists>r. table_get (qs_records s) mid = Some r \<and> qr_status r \<noteq> Completed \<and> qr_status r \<noteq> Pending")
    case True
    then obtain r where r: "table_get (qs_records s) mid = Some r" "qr_status r \<noteq> Completed" "qr_status r \<noteq> Pending"
      by blast
    show ?thesis
      unfolding requeue_move[OF wf r] using wf r(1) by (simp add: move_record_wf clear_lease_def)
  next
    case False
    then show ?thesis using wf by (auto simp: requeue_message_def split: option.splits)
  qed
qed

lemma deadletter_move:
  assumes wf: "queue_wf s" and r: "table_get (qs_records s) mid = Some r"
  shows "deadletter now mid reason s = (True, move_record mid r
    ((clear_lease r)\<lparr>qr_status := Deadletter, qr_deadletterReason := Some reason, qr_updatedAt := now\<rparr>) s, True)"
proof -
  let ?s1 = "release_claim_of r s"
  have "qs_pending ?s1 = qs_pending s" by (simp add: release_claim_of_def drop_claim_def)
  then have "remove_pending mid ?s1 = ?s1\<lparr>qs_pending := (\<lambda>q. removeAll mid (qs_pending ?s1 q))\<rparr>"
    using wf_remove_pending[OF wf, of mid] unfolding remove_pending_def
    by (metis (no_types, lifting) queue_state.select_convs(2) queue_state.surjective queue_state.update_convs(2))
  then show ?thesis
    using r by (simp add: deadletter_def Let_def move_record_def clear_lease_def wf_release_claim_of[OF wf r])
qed

lemma deadletter_wf [ps_inv]: "queue_wf s \<Longrightarrow> queue_wf (fst (snd (deadletter now mid reason s)))"
proof (cases "table_get (qs_records s) mid")
  case None
  then show "queue_wf s \<Longrightarrow> ?thesis" by (simp add: deadletter_def)
next
  case (Some r)
  assume wf: "queue_wf s"
  show ?thesis
    unfolding deadletter_move[OF wf Some] using wf Some by (simp add: move_record_wf clear_lease_def)
qed

text \<open>The sweep of one expired claim.\<close>

definition swept_record :: "int \<Rightarrow> int \<Rightarrow> queue_record \<Rightarrow> queue_record" where
  "swept_record maxAttempts now r =
     (let r1 = clear_lease (r\<lparr>qr_updatedAt := now\<rparr>)
      in if maxAttempts \<le> qr_attempt r
         then r1\<lparr>qr_status := Deadletter, qr_deadletterReason := Some ''lease expired''\<rparr>
         else r1\<lparr>qr_status := Pending\<rparr>)"

lemma swept_record_sel:
  "qr_envelope (swept_record m now r) = qr_envelope r"
  "qr_attempt (swept_record m now r) = qr_attempt r"
  "qr_claimToken (swept_record m now r) = None"
  "qr_status (swept_record m now r) = (if m \<le> qr_attempt r then Deadletter else Pending)"
  by (simp_all add: swept_record_def clear_lease_def Let_def)

definition claim_lapsed :: "int \<Rightarrow> string \<times> claim_record \<Rightarrow> bool" where
  "claim_lapsed now tc \<longleftrightarrow> cr_leaseUntil (snd tc) \<le> now"

definition count_sweep :: "int \<Rightarrow> sweep_result \<Rightarrow> string \<times> claim_record \<Rightarrow> sweep_result" where
  "count_sweep maxAttempts res tc =
     (let res1 = res\<lparr>sw_expiredClaimTokens := sw_expiredClaimTokens res @ [fst tc]\<rparr>
      in if maxAttempts \<le> cr_attempt (snd tc) then res1\<lparr>sw_deadlettered := sw_deadlettered res + 1\<rparr>
         else res1\<lparr>sw_reclaimed := sw_reclaimed res + 1\<rparr>)"

lemma sweep_one_move:
  assumes wf: "queue_wf s" and c: "table_get (qs_inflight s) tok = Some c"
    and h: "held_record tok c s = Some r"
  shows "sweep_one m now (res, s) (tok, c) =
    (if claim_lapsed now (tok, c)
     then (count_sweep m res (tok, c), move_record (cr_messageId c) r (swept_record m now r) s) else (res, s))"
proof -
  note hs = held_settle[OF wf c h]
  have att: "cr_attempt c = qr_attempt r" by (subst hs(5)) (simp add: derived_claim_def)
  have "removeAll (cr_messageId c) (qs_pending s p) = qs_pending s p" for p
    using removeAll_settled[OF wf hs(1)] hs(4) by simp
  then show ?thesis
    using h hs(2,3) att
    by (simp add: sweep_one_def claim_lapsed_def count_sweep_def Let_def move_record_def swept_record_def
        clear_lease_def put_record_def push_pending_def drop_claim_def not_less)
qed

lemma move_record_inflight_other:
  assumes wf: "queue_wf s" and c: "table_get (qs_inflight s) tok = Some c"
    and h: "held_record tok c s = Some r" and ne: "t \<noteq> tok"
  shows "table_get (qs_inflight (move_record (cr_messageId c) r r' s)) t = table_get (qs_inflight s) t"
  using held_settle(2)[OF wf c h] ne by (simp add: move_record_sel table_get_del)

definition lapsed_token :: "int \<Rightarrow> (string \<times> claim_record) list \<Rightarrow> queue_record \<Rightarrow> bool" where
  "lapsed_token now xs r \<longleftrightarrow> (\<exists>tc \<in> set xs. qr_claimToken r = Some (fst tc) \<and> claim_lapsed now tc)"

lemma sweep_fold:
  assumes "queue_wf s" "distinct (map fst xs)"
    and "\<And>t c. (t, c) \<in> set xs \<Longrightarrow> table_get (qs_inflight s) t = Some c"
    and "foldl (sweep_one m now) (res, s) xs = (res', s')"
  shows "queue_wf s' \<and>
    res' = foldl (count_sweep m) res (filter (claim_lapsed now) xs) \<and>
    (\<forall>t. table_get (qs_inflight s') t =
       (if t \<in> fst ` set (filter (claim_lapsed now) xs) then None else table_get (qs_inflight s) t)) \<and>
    (\<forall>mid. table_get (qs_records s') mid =
       map_option (\<lambda>r. if lapsed_token now xs r then swept_record m now r else r) (table_get (qs_records s) mid))"
  using assms
proof (induction xs arbitrary: s res)
  case Nil
  then show ?case by (auto simp: lapsed_token_def option.map_ident)
next
  case (Cons tc xs)
  obtain tok c where tc: "tc = (tok, c)" by (cases tc)
  have c: "table_get (qs_inflight s) tok = Some c" using Cons.prems(3) tc by simp
  obtain r where h: "held_record tok c s = Some r" using wf_claim_held[OF Cons.prems(1) c] by blast
  note hs = held_settle[OF Cons.prems(1) c h]
  have fresh: "tok \<notin> fst ` set xs" using Cons.prems(2) tc by auto
  show ?case
  proof (cases "claim_lapsed now tc")
    case False
    then have "foldl (sweep_one m now) (res, s) xs = (res', s')"
      using Cons.prems(4) sweep_one_move[OF Cons.prems(1) c h] tc by simp
    with False Cons show ?thesis by (auto simp: lapsed_token_def)
  next
    case True
    let ?s1 = "move_record (cr_messageId c) r (swept_record m now r) s"
    have run: "foldl (sweep_one m now) (count_sweep m res (tok, c), ?s1) xs = (res', s')"
      using Cons.prems(4) sweep_one_move[OF Cons.prems(1) c h] tc True by simp
    have wf1: "queue_wf ?s1"
      using move_record_wf[OF Cons.prems(1) hs(1)] by (simp add: swept_record_sel)
    have still: "table_get (qs_inflight ?s1) t = Some d" if "(t, d) \<in> set xs" for t d
    proof -
      have "t \<noteq> tok" using fresh that by (auto simp: image_iff)
      then show ?thesis using Cons.prems(3)[of t d] that
        by (simp add: move_record_inflight_other[OF Cons.prems(1) c h])
    qed
    have "distinct (map fst xs)" using Cons.prems(2) by simp
    note ih = Cons.IH[OF wf1 this still run]
    have infl: "table_get (qs_inflight ?s1) t = (if t = tok then None else table_get (qs_inflight s) t)" for t
      using hs(2) by (simp add: move_record_sel table_get_del)
    have recs: "table_get (qs_records ?s1) mid =
        (if mid = cr_messageId c then Some (swept_record m now r) else table_get (qs_records s) mid)" for mid
      by (simp add: move_record_sel table_get_put)
    have tokonly: "qr_claimToken r2 \<noteq> Some tok"
      if "table_get (qs_records s) mid = Some r2" "mid \<noteq> cr_messageId c" for mid r2
      using wf_token_unique[OF Cons.prems(1) that(1) _ hs(1,2)] that(2) by auto
    have "table_get (qs_records s') mid = map_option (\<lambda>r. if lapsed_token now (tc # xs) r
        then swept_record m now r else r) (table_get (qs_records s) mid)" for mid
    proof (cases "mid = cr_messageId c")
      case True
      have "lapsed_token now (tc # xs) r" "\<not> lapsed_token now xs (swept_record m now r)"
        using hs(2) tc \<open>claim_lapsed now tc\<close> by (simp_all add: lapsed_token_def swept_record_sel)
      then show ?thesis using ih recs[of mid] hs(1) True by simp
    next
      case False
      have same: "lapsed_token now (tc # xs) r2 = lapsed_token now xs r2"
        if "table_get (qs_records s) mid = Some r2" for r2
        using tokonly[OF that False] tc by (simp add: lapsed_token_def)
      have "table_get (qs_records s') mid = map_option (\<lambda>r. if lapsed_token now xs r
          then swept_record m now r else r) (table_get (qs_records s) mid)"
        using ih recs[of mid] False by simp
      then show ?thesis using same by (cases "table_get (qs_records s) mid") simp_all
    qed
    with ih infl True tc show ?thesis by auto
  qed
qed

lemma sweep_wf [ps_inv]: "queue_wf s \<Longrightarrow> queue_wf (fst (snd (sweep_expired_claims m now s)))"
proof -
  assume wf: "queue_wf s"
  obtain res' s' where run: "foldl (sweep_one m now)
      (\<lparr>sw_reclaimed = 0, sw_deadlettered = 0, sw_expiredClaimTokens = []\<rparr>, s) (qs_inflight s) = (res', s')"
    by (cases "foldl (sweep_one m now)
      (\<lparr>sw_reclaimed = 0, sw_deadlettered = 0, sw_expiredClaimTokens = []\<rparr>, s) (qs_inflight s)")
  have "distinct (map fst (qs_inflight s))" using queue_wfD(2)[OF wf] by (simp add: table_wf_def)
  moreover have "table_get (qs_inflight s) t = Some c" if "(t, c) \<in> set (qs_inflight s)" for t c
    using that queue_wfD(2)[OF wf] by (simp add: table_mem_iff)
  ultimately have "queue_wf s'" using sweep_fold[OF wf _ _ run] by simp
  then show ?thesis by (simp add: sweep_expired_claims_def run)
qed

section \<open>Claiming\<close>

definition claimable :: "(envelope \<Rightarrow> bool) option \<Rightarrow> int \<Rightarrow> (string, queue_record) table \<Rightarrow> string \<Rightarrow> bool" where
  "claimable f now recs mid \<longleftrightarrow> (case table_get recs mid of None \<Rightarrow> False
     | Some r \<Rightarrow> qr_status r = Pending \<and> \<not> is_expired (qr_envelope r) now \<and> \<not> filtered_out f (qr_envelope r))"

definition stale_at :: "int \<Rightarrow> (string, queue_record) table \<Rightarrow> string \<Rightarrow> bool" where
  "stale_at now recs mid \<longleftrightarrow> (case table_get recs mid of None \<Rightarrow> False
     | Some r \<Rightarrow> is_expired (qr_envelope r) now)"

definition expire_one :: "int \<Rightarrow> (string, queue_record) table \<Rightarrow> string \<Rightarrow> (string, queue_record) table" where
  "expire_one now recs mid = (case table_get recs mid of None \<Rightarrow> recs
     | Some r \<Rightarrow> table_put mid (expire_before_claim now r) recs)"

lemma expire_one_get:
  "table_get (expire_one now recs mid) m =
     (if m = mid then map_option (expire_before_claim now) (table_get recs mid) else table_get recs m)"
  by (auto simp: expire_one_def table_get_put split: option.splits)

lemma expire_fold_get:
  "distinct ms \<Longrightarrow> table_get (foldl (expire_one now) recs ms) m =
     (if m \<in> set ms then map_option (expire_before_claim now) (table_get recs m) else table_get recs m)"
  by (induction ms arbitrary: recs) (auto simp: expire_one_get)

lemma expire_fold_wf: "table_wf recs \<Longrightarrow> table_wf (foldl (expire_one now) recs ms)"
  by (induction ms arbitrary: recs) (auto simp: expire_one_def split: option.splits)

text \<open>The loop over one bucket whose messages are all pending.\<close>

lemma claim_bucket_closed:
  assumes "\<And>m. m \<in> set todo \<Longrightarrow> \<exists>r. table_get recs m = Some r \<and> qr_status r = Pending"
    and "distinct todo"
  shows "claim_bucket f now kept todo recs d =
     (let pre = takeWhile (\<lambda>m. \<not> claimable f now recs m) todo;
          post = dropWhile (\<lambda>m. \<not> claimable f now recs m) todo;
          ex = filter (stale_at now recs) pre
      in (kept @ filter (\<lambda>m. \<not> stale_at now recs m) pre @ tl post,
          foldl (expire_one now) recs ex, d \<or> ex \<noteq> [] \<or> post \<noteq> [],
          (case post of [] \<Rightarrow> None | m # _ \<Rightarrow> Some m)))"
  using assms
proof (induction todo arbitrary: kept recs d)
  case Nil
  then show ?case by simp
next
  case (Cons m todo)
  obtain r where r: "table_get recs m = Some r" "qr_status r = Pending" using Cons.prems(1)[of m] by auto
  have fresh: "m \<notin> set todo" and dist: "distinct todo" using Cons.prems(2) by auto
  consider (stale) "is_expired (qr_envelope r) now"
    | (skip) "\<not> is_expired (qr_envelope r) now" "filtered_out f (qr_envelope r)"
    | (take) "\<not> is_expired (qr_envelope r) now" "\<not> filtered_out f (qr_envelope r)" by blast
  then show ?case
  proof cases
    case stale
    let ?recs = "expire_one now recs m"
    have eq: "?recs = table_put m (expire_before_claim now r) recs" by (simp add: expire_one_def r)
    have same: "claimable f now ?recs x = claimable f now recs x" "stale_at now ?recs x = stale_at now recs x"
      if "x \<in> set todo" for x
      using that fresh by (auto simp: claimable_def stale_at_def expire_one_get)
    have "takeWhile (\<lambda>x. \<not> claimable f now ?recs x) todo = takeWhile (\<lambda>x. \<not> claimable f now recs x) todo"
      "dropWhile (\<lambda>x. \<not> claimable f now ?recs x) todo = dropWhile (\<lambda>x. \<not> claimable f now recs x) todo"
      using same by (auto intro: takeWhile_cong dropWhile_cong)
    moreover have "filter (stale_at now ?recs) (takeWhile P todo) = filter (stale_at now recs) (takeWhile P todo)"
      "filter (\<lambda>x. \<not> stale_at now ?recs x) (takeWhile P todo) = filter (\<lambda>x. \<not> stale_at now recs x) (takeWhile P todo)" for P
      using same by (auto intro!: filter_cong dest: set_takeWhileD)
    moreover have "claim_bucket f now kept (m # todo) recs d = claim_bucket f now kept todo ?recs True"
      using stale r by (simp add: eq)
    moreover have "claim_bucket f now kept todo ?recs True =
     (let pre = takeWhile (\<lambda>m. \<not> claimable f now ?recs m) todo;
          post = dropWhile (\<lambda>m. \<not> claimable f now ?recs m) todo;
          ex = filter (stale_at now ?recs) pre
      in (kept @ filter (\<lambda>m. \<not> stale_at now ?recs m) pre @ tl post,
          foldl (expire_one now) ?recs ex, True \<or> ex \<noteq> [] \<or> post \<noteq> [],
          (case post of [] \<Rightarrow> None | m # _ \<Rightarrow> Some m)))"
    proof (rule Cons.IH[OF _ dist])
      fix x assume "x \<in> set todo"
      then show "\<exists>r. table_get ?recs x = Some r \<and> qr_status r = Pending"
        using Cons.prems(1)[of x] fresh by (auto simp: expire_one_get)
    qed
    moreover have "claimable f now recs m = False" "stale_at now recs m = True"
      using stale r by (simp_all add: claimable_def stale_at_def)
    ultimately show ?thesis by (simp add: Let_def)
  next
    case skip
    then have "claim_bucket f now kept (m # todo) recs d = claim_bucket f now (kept @ [m]) todo recs d"
      using r by simp
    moreover have "claimable f now recs m = False" "stale_at now recs m = False"
      using skip r by (simp_all add: claimable_def stale_at_def)
    moreover note Cons.IH[OF Cons.prems(1) dist, of "kept @ [m]" d]
    ultimately show ?thesis by (simp add: Let_def)
  next
    case take
    then have "claimable f now recs m" using r by (simp add: claimable_def)
    then show ?thesis using take r by simp
  qed
qed

text \<open>The state in which the messages \<open>ms\<close> are expired.\<close>

definition expire_state :: "int \<Rightarrow> string list \<Rightarrow> queue_state \<Rightarrow> queue_state" where
  "expire_state now ms s =
     s\<lparr>qs_records := foldl (expire_one now) (qs_records s) ms,
       qs_pending := (\<lambda>p. filter (\<lambda>m. m \<notin> set ms) (qs_pending s p))\<rparr>"

lemma expire_state_wf:
  assumes "queue_wf s" "distinct ms" "\<And>m. m \<in> set ms \<Longrightarrow> \<exists>p. m \<in> set (qs_pending s p)"
  shows "queue_wf (expire_state now ms s)"
  using assms
proof (induction ms arbitrary: s)
  case Nil
  then show ?case by (simp add: expire_state_def)
next
  case (Cons m ms)
  obtain p where p: "m \<in> set (qs_pending s p)" using Cons.prems(3)[of m] by auto
  then obtain r where r: "table_get (qs_records s) m = Some r" "qr_status r = Pending"
    using queue_wfD(5)[OF Cons.prems(1)] by (auto simp: pending_at_def)
  have tok: "qr_claimToken r = None"
    using queue_wfD(3)[OF Cons.prems(1) r(1)] r(2) by (simp add: record_consistent_def)
  let ?s1 = "move_record m r (expire_before_claim now r) s"
  have wf1: "queue_wf ?s1"
    using move_record_wf[OF Cons.prems(1) r(1)] tok by (simp add: expire_before_claim_def)
  have s1: "?s1 = s\<lparr>qs_pending := (\<lambda>q. removeAll m (qs_pending s q)),
        qs_records := table_put m (expire_before_claim now r) (qs_records s)\<rparr>"
    using tok by (simp add: move_record_def put_record_def expire_before_claim_def)
  have "\<exists>p. x \<in> set (qs_pending ?s1 p)" if "x \<in> set ms" for x
    using Cons.prems(2,3) that by (fastforce simp: s1)
  then have "queue_wf (expire_state now ms ?s1)" using Cons.IH[OF wf1] Cons.prems(2) by simp
  moreover have "filter (\<lambda>x. x \<notin> set ms) (removeAll m xs) = filter (\<lambda>x. x \<noteq> m \<and> x \<notin> set ms) xs" for xs
    by (induction xs) auto
  ultimately show ?case by (simp add: expire_state_def s1 expire_one_def r)
qed

lemma expire_state_append:
  "expire_state now (xs @ ys) s = expire_state now ys (expire_state now xs s)"
  by (auto simp: expire_state_def fun_eq_iff intro: filter_cong)

lemma wf_pending_get:
  "queue_wf s \<Longrightarrow> m \<in> set (qs_pending s p) \<Longrightarrow>
   \<exists>r. table_get (qs_records s) m = Some r \<and> qr_status r = Pending \<and> env_priority (qr_envelope r) = p"
  by (simp add: queue_wfD(5) pending_at_def)

lemma wf_pending_once:
  "queue_wf s \<Longrightarrow> m \<in> set (qs_pending s p) \<Longrightarrow> m \<in> set (qs_pending s q) \<Longrightarrow> p = q"
  by (auto simp: queue_wfD(5) pending_at_def)

lemma claimable_expire_other:
  "distinct ms \<Longrightarrow> m \<notin> set ms \<Longrightarrow>
   claimable f now (qs_records (expire_state now ms s)) m = claimable f now (qs_records s) m"
  by (simp add: claimable_def expire_state_def expire_fold_get)

lemma stale_expire_other:
  "distinct ms \<Longrightarrow> m \<notin> set ms \<Longrightarrow>
   stale_at now (qs_records (expire_state now ms s)) m = stale_at now (qs_records s) m"
  by (simp add: stale_at_def expire_state_def expire_fold_get)

lemma claimable_not_stale: "claimable f now recs m \<Longrightarrow> \<not> stale_at now recs m"
  by (auto simp: claimable_def stale_at_def split: option.splits)

lemma head_option: "((case xs of [] \<Rightarrow> None | m # _ \<Rightarrow> Some m) \<noteq> None) = (xs \<noteq> [])"
  by (cases xs) auto

text \<open>The expired messages the loop passes over before it claims one.\<close>

definition passed_over :: "(envelope \<Rightarrow> bool) option \<Rightarrow> int \<Rightarrow> queue_state \<Rightarrow> priority \<Rightarrow> string list" where
  "passed_over f now s p = filter (stale_at now (qs_records s))
     (takeWhile (\<lambda>m. \<not> claimable f now (qs_records s) m) (qs_pending s p))"

text \<open>One bucket of a well-formed state.\<close>

lemma claim_bucket_wf:
  assumes wf: "queue_wf s" and ex_def: "ex = passed_over f now s p"
  shows "s\<lparr>qs_records := fst (snd (claim_bucket f now [] (qs_pending s p) (qs_records s) d)),
           qs_pending := (qs_pending s)(p := fst (claim_bucket f now [] (qs_pending s p) (qs_records s) d))\<rparr>
         = (case find (claimable f now (qs_records s)) (qs_pending s p) of
              None \<Rightarrow> expire_state now ex s
            | Some m \<Rightarrow> (expire_state now ex s)\<lparr>qs_pending := (\<lambda>q. removeAll m (qs_pending (expire_state now ex s) q))\<rparr>)"
    and "snd (snd (snd (claim_bucket f now [] (qs_pending s p) (qs_records s) d)))
         = find (claimable f now (qs_records s)) (qs_pending s p)"
    and "fst (snd (snd (claim_bucket f now [] (qs_pending s p) (qs_records s) d)))
         = (d \<or> ex \<noteq> [] \<or> find (claimable f now (qs_records s)) (qs_pending s p) \<noteq> None)"
proof -
  let ?C = "claimable f now (qs_records s)"
  let ?b = "qs_pending s p"
  note ex_def = ex_def[unfolded passed_over_def]
  let ?pre = "takeWhile (\<lambda>m. \<not> ?C m) ?b" and ?post = "dropWhile (\<lambda>m. \<not> ?C m) ?b"
  have dist: "distinct ?b" using queue_wfD(4)[OF wf] .
  have closed: "claim_bucket f now [] ?b (qs_records s) d =
     (filter (\<lambda>m. \<not> stale_at now (qs_records s) m) ?pre @ tl ?post,
      foldl (expire_one now) (qs_records s) ex, d \<or> ex \<noteq> [] \<or> ?post \<noteq> [],
      (case ?post of [] \<Rightarrow> None | m # _ \<Rightarrow> Some m))"
  proof -
    have "\<exists>r. table_get (qs_records s) m = Some r \<and> qr_status r = Pending" if "m \<in> set ?b" for m
      using wf_pending_get[OF wf that] by blast
    from claim_bucket_closed[OF this dist, of f now "[]" d] show ?thesis
      by (simp only: Let_def ex_def append_Nil)
  qed
  have fnd: "find ?C ?b = (case ?post of [] \<Rightarrow> None | m # _ \<Rightarrow> Some m)"
    by (simp add: find_dropWhile comp_def)
  have split: "?b = ?pre @ ?post" by simp
  have exsub: "set ex \<subseteq> set ?pre" by (auto simp: ex_def)
  have other: "filter (\<lambda>m. m \<notin> set ex) (qs_pending s q) = qs_pending s q" if "q \<noteq> p" for q
  proof -
    have "m \<notin> set ex" if m: "m \<in> set (qs_pending s q)" for m
      using exsub wf_pending_once[OF wf m, of p] \<open>q \<noteq> p\<close> by (auto dest: set_takeWhileD)
    then show ?thesis by (simp add: filter_id_conv)
  qed
  have disj: "set ?pre \<inter> set ?post = {}"
    using dist split by (metis distinct_append)
  have keep: "filter (\<lambda>m. m \<notin> set ex) ?b = filter (\<lambda>m. \<not> stale_at now (qs_records s) m) ?pre @ ?post"
  proof -
    have "filter (\<lambda>m. m \<notin> set ex) ?pre = filter (\<lambda>m. \<not> stale_at now (qs_records s) m) ?pre"
      by (rule filter_cong) (auto simp: ex_def)
    moreover have "filter (\<lambda>m. m \<notin> set ex) ?post = ?post"
      using disj exsub by (auto simp: filter_id_conv)
    ultimately show ?thesis using split by (metis filter_append)
  qed
  show "snd (snd (snd (claim_bucket f now [] ?b (qs_records s) d))) = find ?C ?b"
    by (simp only: closed snd_conv fnd)
  show "fst (snd (snd (claim_bucket f now [] ?b (qs_records s) d))) = (d \<or> ex \<noteq> [] \<or> find ?C ?b \<noteq> None)"
  proof -
    have "(?post \<noteq> []) = (find ?C ?b \<noteq> None)" unfolding fnd by (simp only: head_option)
    then show ?thesis by (simp only: closed fst_conv snd_conv)
  qed
  show "s\<lparr>qs_records := fst (snd (claim_bucket f now [] ?b (qs_records s) d)),
           qs_pending := (qs_pending s)(p := fst (claim_bucket f now [] ?b (qs_records s) d))\<rparr>
         = (case find ?C ?b of
              None \<Rightarrow> expire_state now ex s
            | Some m \<Rightarrow> (expire_state now ex s)\<lparr>qs_pending := (\<lambda>q. removeAll m (qs_pending (expire_state now ex s) q))\<rparr>)"
  proof (cases ?post)
    case Nil
    then show ?thesis
      using keep other by (simp add: closed fnd expire_state_def fun_eq_iff del: dropWhile_eq_Nil_conv)
  next
    case (Cons m rest)
    have mb: "m \<in> set ?b" using split Cons by (metis in_set_conv_decomp)
    have nin: "m \<notin> set (qs_pending s q)" if "q \<noteq> p" for q
      using wf_pending_once[OF wf mb] that by blast
    have "m \<notin> set rest" "m \<notin> set ?pre"
      using dist split Cons disj by (metis distinct.simps(2) distinct_append, auto)
    then have "removeAll m (filter (\<lambda>m. m \<notin> set ex) ?b) =
        filter (\<lambda>m. \<not> stale_at now (qs_records s) m) ?pre @ rest"
      using keep Cons by (simp add: removeAll_id)
    moreover have "removeAll m (filter (\<lambda>m. m \<notin> set ex) (qs_pending s q)) = qs_pending s q" if "q \<noteq> p" for q
      using other[OF that] nin[OF that] by (simp add: removeAll_id)
    ultimately show ?thesis
      by (simp add: closed fnd Cons expire_state_def fun_eq_iff)
  qed
qed

lemma find_append: "find P (xs @ ys) = (case find P xs of None \<Rightarrow> find P ys | Some x \<Rightarrow> Some x)"
  by (induction xs) auto

lemma find_concat_Cons:
  "find P (concat (map f (p # ps))) = (case find P (f p) of None \<Rightarrow> find P (concat (map f ps)) | Some x \<Rightarrow> Some x)"
  by (simp add: find_append)

lemma find_cong_on: "(\<And>x. x \<in> set xs \<Longrightarrow> P x = Q x) \<Longrightarrow> find P xs = find Q xs"
  by (induction xs) auto

text \<open>
  The whole scan: it claims the first claimable message in priority order, expiring messages on
  the way, and it tells the caller to write the state back exactly when it changed it.
\<close>

lemma claim_scan_wf:
  assumes "queue_wf s" "distinct ps"
  shows "\<exists>ms. distinct ms \<and> queue_wf (expire_state now ms s) \<and>
     (\<forall>m \<in> set ms. stale_at now (qs_records s) m \<and> (\<exists>p \<in> set ps. m \<in> set (qs_pending s p))) \<and>
     claim_scan f now ps s d =
       (case find (claimable f now (qs_records s)) (concat (map (qs_pending s) ps)) of
          None \<Rightarrow> (None, expire_state now ms s, d \<or> ms \<noteq> [])
        | Some m \<Rightarrow> (Some m, (expire_state now ms s)\<lparr>qs_pending :=
              (\<lambda>q. removeAll m (qs_pending (expire_state now ms s) q))\<rparr>, True))"
  using assms
proof (induction ps arbitrary: s d)
  case Nil
  have "expire_state now [] s = s" by (simp add: expire_state_def)
  then show ?case using Nil.prems(1) by (intro exI[of _ "[]"]) simp
next
  case (Cons p ps)
  let ?ex = "passed_over f now s p"
  let ?r = "claim_bucket f now [] (qs_pending s p) (qs_records s) d"
  let ?s1 = "expire_state now ?ex s"
  have ex_sub: "m \<in> set (qs_pending s p)" "stale_at now (qs_records s) m" if "m \<in> set ?ex" for m
    using that by (auto simp: passed_over_def dest: set_takeWhileD)
  have ex_dist: "distinct ?ex"
    using queue_wfD(4)[OF Cons.prems(1), of p] by (simp add: passed_over_def distinct_takeWhile)
  have wf1: "queue_wf ?s1" using expire_state_wf[OF Cons.prems(1) ex_dist] ex_sub(1) by blast
  obtain b recs d' hit where r: "?r = (b, recs, d', hit)" by (cases ?r) auto
  note cb = claim_bucket_wf[OF Cons.prems(1) refl, where p = p and f = f and now = now and d = d, unfolded r, simplified]
  show ?case
  proof (cases hit)
    case (Some m)
    then have fnd: "find (claimable f now (qs_records s)) (qs_pending s p) = Some m" using cb(2) by simp
    show ?thesis
      using cb(1) fnd Some ex_dist wf1 ex_sub
      by (intro exI[of _ ?ex]) (simp add: r find_append split: prod.splits)
  next
    case None
    then have fnd: "find (claimable f now (qs_records s)) (qs_pending s p) = None" using cb(2) by simp
    have s1: "s\<lparr>qs_records := recs, qs_pending := (qs_pending s)(p := b)\<rparr> = ?s1"
      using cb(1) fnd by simp
    have step: "claim_scan f now (p # ps) s d = claim_scan f now ps ?s1 (d \<or> ?ex \<noteq> [])"
    proof -
      have d': "d' = (d \<or> ?ex \<noteq> [])" using cb(3) fnd by auto
      show ?thesis using None by (simp only: claim_scan.simps r s1 d' Let_def prod.case option.case)
    qed
    obtain ms where ms: "distinct ms" "queue_wf (expire_state now ms ?s1)"
      "\<And>m. m \<in> set ms \<Longrightarrow> stale_at now (qs_records ?s1) m \<and> (\<exists>q \<in> set ps. m \<in> set (qs_pending ?s1 q))"
      "claim_scan f now ps ?s1 (d \<or> ?ex \<noteq> []) =
       (case find (claimable f now (qs_records ?s1)) (concat (map (qs_pending ?s1) ps)) of
          None \<Rightarrow> (None, expire_state now ms ?s1, (d \<or> ?ex \<noteq> []) \<or> ms \<noteq> [])
        | Some m \<Rightarrow> (Some m, (expire_state now ms ?s1)\<lparr>qs_pending :=
              (\<lambda>q. removeAll m (qs_pending (expire_state now ms ?s1) q))\<rparr>, True))"
      using Cons.IH[OF wf1, of "d \<or> ?ex \<noteq> []"] Cons.prems(2) by auto
    have far: "m \<notin> set ?ex" if "q \<in> set ps" "m \<in> set (qs_pending s q)" for m q
      using that ex_sub(1)[of m] wf_pending_once[OF Cons.prems(1), of m p q] Cons.prems(2) by auto
    have same: "qs_pending ?s1 q = qs_pending s q" if "q \<in> set ps" for q
      using far[OF that] by (simp add: expire_state_def filter_id_conv)
    have finds: "find (claimable f now (qs_records ?s1)) (concat (map (qs_pending ?s1) ps))
        = find (claimable f now (qs_records s)) (concat (map (qs_pending s) ps))"
    proof -
      have "concat (map (qs_pending ?s1) ps) = concat (map (qs_pending s) ps)"
        using same by (metis map_cong)
      moreover have "claimable f now (qs_records ?s1) m = claimable f now (qs_records s) m"
        if "m \<in> set (concat (map (qs_pending s) ps))" for m
        using that far claimable_expire_other[OF ex_dist] by fastforce
      ultimately show ?thesis by (metis find_cong_on)
    qed
    have nin: "m \<notin> set ?ex" "stale_at now (qs_records s) m" "\<exists>q \<in> set ps. m \<in> set (qs_pending s q)"
      if mm: "m \<in> set ms" for m
    proof -
      obtain q where q: "q \<in> set ps" "m \<in> set (qs_pending ?s1 q)" using ms(3)[OF mm] by blast
      then have "m \<in> set (qs_pending s q)" using same by simp
      then show "m \<notin> set ?ex" "\<exists>q \<in> set ps. m \<in> set (qs_pending s q)" using far[OF q(1)] q(1) by blast+
      then show "stale_at now (qs_records s) m" using ms(3)[OF mm] stale_expire_other[OF ex_dist] by simp
    qed
    have rest: "find (claimable f now (qs_records s)) (concat (map (qs_pending s) (p # ps)))
        = find (claimable f now (qs_records s)) (concat (map (qs_pending s) ps))"
      using fnd by (simp add: find_append)
    have dd: "((d \<or> ?ex \<noteq> []) \<or> ms \<noteq> []) = (d \<or> ?ex @ ms \<noteq> [])" by auto
    have scan: "claim_scan f now (p # ps) s d =
       (case find (claimable f now (qs_records s)) (concat (map (qs_pending s) (p # ps))) of
          None \<Rightarrow> (None, expire_state now (?ex @ ms) s, d \<or> ?ex @ ms \<noteq> [])
        | Some m \<Rightarrow> (Some m, (expire_state now (?ex @ ms) s)\<lparr>qs_pending :=
              (\<lambda>q. removeAll m (qs_pending (expire_state now (?ex @ ms) s) q))\<rparr>, True))"
      by (simp only: step ms(4) finds rest dd expire_state_append)
    have "distinct (?ex @ ms)" using ex_dist ms(1) nin(1) by auto
    moreover have "queue_wf (expire_state now (?ex @ ms) s)" using ms(2) by (simp add: expire_state_append)
    moreover have "\<forall>m \<in> set (?ex @ ms). stale_at now (qs_records s) m \<and> (\<exists>q \<in> set (p # ps). m \<in> set (qs_pending s q))"
      using ex_sub nin(2,3) by auto
    ultimately show ?thesis using scan by blast
  qed
qed

text \<open>A claim of a pending message under a fresh, non-empty token.\<close>

definition leased_state :: "int \<Rightarrow> string \<Rightarrow> string \<Rightarrow> int \<Rightarrow> string \<Rightarrow> queue_record \<Rightarrow> queue_state \<Rightarrow> queue_state" where
  "leased_state now worker uuid leaseMs mid r s =
     s\<lparr>qs_records := table_put mid (lease_record now worker uuid leaseMs r) (qs_records s),
       qs_pending := (\<lambda>q. removeAll mid (qs_pending s q)),
       qs_inflight := table_put uuid (derived_claim mid (lease_record now worker uuid leaseMs r)) (qs_inflight s)\<rparr>"

lemma leased_state_wf:
  assumes wf: "queue_wf s" and r: "table_get (qs_records s) mid = Some r" "qr_status r = Pending"
    and fresh: "table_get (qs_inflight s) uuid = None" and ne: "uuid \<noteq> ''''"
  shows "queue_wf (leased_state now worker uuid leaseMs mid r s)" (is "queue_wf ?s")
proof (rule queue_wf_transition[OF wf, of _ mid "lease_record now worker uuid leaseMs r"])
  let ?r = "lease_record now worker uuid leaseMs r"
  have st: "qr_status ?r = Inflight" "qr_claimToken ?r = Some uuid" "qr_envelope ?r = qr_envelope r"
    by (simp_all add: lease_record_def)
  show "table_get (qs_records ?s) = (table_get (qs_records s))(mid \<mapsto> ?r)"
    by (simp add: leased_state_def update_conv')
  show "table_wf (qs_records ?s)" "table_wf (qs_inflight ?s)"
    using queue_wfD(1,2)[OF wf] by (simp_all add: leased_state_def)
  show "record_consistent mid ?r"
    using queue_wfD(3)[OF wf r(1)] ne by (simp add: record_consistent_def st)
  show "distinct (qs_pending ?s p)" for p
    using queue_wfD(4)[OF wf] by (simp add: leased_state_def distinct_removeAll)
  show "m \<in> set (qs_pending ?s p) \<longleftrightarrow> (if m = mid then qr_status ?r = Pending \<and> env_priority (qr_envelope ?r) = p
        else m \<in> set (qs_pending s p))" for m p
    by (simp add: leased_state_def st)
  have "cr_messageId c \<noteq> mid" if "table_get (qs_inflight s) t = Some c" for t c
    using wf_not_inflight_no_claim[OF wf r(1) _ that] r(2) by simp
  then show "table_get (qs_inflight ?s) t = Some c \<longleftrightarrow>
       (if qr_claimToken ?r = Some t then c = derived_claim mid ?r
        else table_get (qs_inflight s) t = Some c \<and> cr_messageId c \<noteq> mid)" for t c
    by (auto simp: leased_state_def table_get_put st)
  show "qr_claimToken r2 \<noteq> qr_claimToken ?r"
    if m: "table_get (qs_records s) m = Some r2" and "qr_claimToken r2 \<noteq> None" for m r2
  proof
    assume eq: "qr_claimToken r2 = qr_claimToken ?r"
    then have "claimed_by s uuid (derived_claim m r2)"
      using m queue_wfD(3)[OF wf m] by (auto simp: claimed_by_def st record_consistent_def)
    then show False using fresh queue_wfD(6)[OF wf, of uuid] by simp
  qed
qed

lemma claimable_pending:
  assumes "queue_wf s" "claimable f now (qs_records s) m"
  shows "\<exists>r. table_get (qs_records s) m = Some r \<and> qr_status r = Pending"
  using assms(2) by (auto simp: claimable_def split: option.splits)

text \<open>What \<open>claim\<close> does to a well-formed state.\<close>

lemma claim_wf_form:
  assumes wf: "queue_wf s"
  shows "\<exists>ms. distinct ms \<and> queue_wf (expire_state now ms s) \<and>
     (\<forall>m \<in> set ms. stale_at now (qs_records s) m \<and> (\<exists>p. m \<in> set (qs_pending s p))) \<and>
     (case find (claimable f now (qs_records s)) (concat (map (qs_pending s) priority_order)) of
        None \<Rightarrow> claim now uuid worker leaseMs f s = (None, expire_state now ms s, ms \<noteq> [])
      | Some m \<Rightarrow> (\<exists>r. table_get (qs_records s) m = Some r \<and> m \<notin> set ms \<and>
          claim now uuid worker leaseMs f s =
            (Some \<lparr>qc_claimToken = uuid, qc_messageId = m, qc_workerId = worker,
                   qc_leaseUntil = now + leaseMs, qc_attempt = qr_attempt r + 1, qc_envelope = qr_envelope r\<rparr>,
             leased_state now worker uuid leaseMs m r (expire_state now ms s), True)))"
proof -
  have "distinct priority_order" by (simp add: priority_order_def)
  from claim_scan_wf[OF wf this, of now f False] obtain ms where
    ms: "distinct ms" "queue_wf (expire_state now ms s)"
      "\<forall>m \<in> set ms. stale_at now (qs_records s) m \<and> (\<exists>p \<in> set priority_order. m \<in> set (qs_pending s p))"
    and scan: "claim_scan f now priority_order s False =
       (case find (claimable f now (qs_records s)) (concat (map (qs_pending s) priority_order)) of
          None \<Rightarrow> (None, expire_state now ms s, False \<or> ms \<noteq> [])
        | Some m \<Rightarrow> (Some m, (expire_state now ms s)\<lparr>qs_pending :=
              (\<lambda>q. removeAll m (qs_pending (expire_state now ms s) q))\<rparr>, True))"
    by blast
  show ?thesis
  proof (cases "find (claimable f now (qs_records s)) (concat (map (qs_pending s) priority_order))")
    case None
    then show ?thesis using ms scan by (intro exI[of _ ms]) (auto simp: claim_def)
  next
    case (Some m)
    then have cl: "claimable f now (qs_records s) m" using find_SomeD by fastforce
    then obtain r where r: "table_get (qs_records s) m = Some r" using claimable_pending[OF wf] by blast
    have nin: "m \<notin> set ms" using ms(3) claimable_not_stale[OF cl] by blast
    have r': "table_get (qs_records (expire_state now ms s)) m = Some r"
      using nin ms(1) r by (simp add: expire_state_def expire_fold_get)
    have "claim now uuid worker leaseMs f s =
            (Some \<lparr>qc_claimToken = uuid, qc_messageId = m, qc_workerId = worker,
                   qc_leaseUntil = now + leaseMs, qc_attempt = qr_attempt r + 1, qc_envelope = qr_envelope r\<rparr>,
             leased_state now worker uuid leaseMs m r (expire_state now ms s), True)"
      using r' by (simp add: claim_def scan Some Let_def put_record_def leased_state_def lease_record_def derived_claim_def)
    then show ?thesis using ms Some r nin by (intro exI[of _ ms]) auto
  qed
qed

lemma claim_wf [ps_inv]:
  assumes wf: "queue_wf s" and fresh: "table_get (qs_inflight s) uuid = None" and ne: "uuid \<noteq> ''''"
  shows "queue_wf (fst (snd (claim now uuid worker leaseMs f s)))"
proof -
  obtain ms where ms: "distinct ms" "queue_wf (expire_state now ms s)"
    and fm: "case find (claimable f now (qs_records s)) (concat (map (qs_pending s) priority_order)) of
        None \<Rightarrow> claim now uuid worker leaseMs f s = (None, expire_state now ms s, ms \<noteq> [])
      | Some m \<Rightarrow> (\<exists>r. table_get (qs_records s) m = Some r \<and> m \<notin> set ms \<and>
          claim now uuid worker leaseMs f s =
            (Some \<lparr>qc_claimToken = uuid, qc_messageId = m, qc_workerId = worker,
                   qc_leaseUntil = now + leaseMs, qc_attempt = qr_attempt r + 1, qc_envelope = qr_envelope r\<rparr>,
             leased_state now worker uuid leaseMs m r (expire_state now ms s), True))"
    using claim_wf_form[OF wf] by blast
  show ?thesis
  proof (cases "find (claimable f now (qs_records s)) (concat (map (qs_pending s) priority_order))")
    case None
    then show ?thesis using fm ms(2) by simp
  next
    case (Some m)
    then obtain r where r: "table_get (qs_records s) m = Some r" "m \<notin> set ms"
      and eq: "fst (snd (claim now uuid worker leaseMs f s)) =
         leased_state now worker uuid leaseMs m r (expire_state now ms s)" using fm by auto
    have st: "qr_status r = Pending"
      using find_SomeD[OF Some] r(1) by (simp add: claimable_def)
    have "table_get (qs_records (expire_state now ms s)) m = Some r"
      using r ms(1) by (simp add: expire_state_def expire_fold_get)
    moreover have "table_get (qs_inflight (expire_state now ms s)) uuid = None"
      using fresh by (simp add: expire_state_def)
    ultimately show ?thesis unfolding eq using leased_state_wf[OF ms(2)] st ne by blast
  qed
qed

section \<open>Accepting\<close>

lemma forget_message_wf:
  assumes wf: "queue_wf s" and r: "table_get (qs_records s) mid = Some r" "qr_status r = Pending"
  shows "queue_wf (forget_message s (mid, r))"
proof -
  let ?s = "forget_message s (mid, r)"
  have "remove_pending mid s = s\<lparr>qs_pending := (\<lambda>q. removeAll mid (qs_pending s q))\<rparr>"
    by (rule wf_remove_pending[OF wf])
  then have p: "qs_pending ?s q = removeAll mid (qs_pending s q)" for q
    by (simp add: forget_message_def remove_pending_def) (metis queue_state.select_convs(2) queue_state.surjective queue_state.update_convs(2))
  have rs: "qs_records ?s = table_del mid (qs_records s)" and infl: "qs_inflight ?s = qs_inflight s"
    by (simp_all add: forget_message_def remove_pending_def)
  have cl: "claimed_by ?s tok c \<longleftrightarrow> claimed_by s tok c" for tok c
    using r by (auto simp: claimed_by_iff rs table_get_del)
  show ?thesis
    unfolding queue_wf_def
  proof (intro conjI allI impI)
    show "table_wf (qs_records ?s)" "table_wf (qs_inflight ?s)" using queue_wfD(1,2)[OF wf] by (simp_all add: rs infl)
    show "record_consistent m r2" if "table_get (qs_records ?s) m = Some r2" for m r2
      using that queue_wfD(3)[OF wf] by (auto simp: rs table_get_del split: if_splits)
    show "distinct (qs_pending ?s q)" for q using queue_wfD(4)[OF wf] by (simp add: p distinct_removeAll)
    show "m \<in> set (qs_pending ?s q) \<longleftrightarrow> pending_at ?s m q" for m q
      using queue_wfD(5)[OF wf, of m q] by (auto simp: p pending_at_def rs table_get_del)
    show "table_get (qs_inflight ?s) t = Some c \<longleftrightarrow> claimed_by ?s t c" for t c
      using queue_wfD(6)[OF wf] by (simp add: infl cl)
  qed
qed

lemma forget_message_get:
  "table_get (qs_records (forget_message s mr)) m = (if m = fst mr then None else table_get (qs_records s) m)"
  by (simp add: forget_message_def remove_pending_def table_get_del)

lemma forget_fold:
  assumes "queue_wf s" "distinct (map fst xs)"
    and "\<And>m r. (m, r) \<in> set xs \<Longrightarrow> table_get (qs_records s) m = Some r \<and> qr_status r = Pending"
  shows "queue_wf (foldl forget_message s xs) \<and>
    (\<forall>m. table_get (qs_records (foldl forget_message s xs)) m =
       (if m \<in> fst ` set xs then None else table_get (qs_records s) m))"
  using assms
proof (induction xs arbitrary: s)
  case Nil
  then show ?case by simp
next
  case (Cons x xs)
  obtain m r where x: "x = (m, r)" by (cases x)
  have mr: "table_get (qs_records s) m = Some r" "qr_status r = Pending" using Cons.prems(3)[of m r] x by auto
  have wf1: "queue_wf (forget_message s x)" using forget_message_wf[OF Cons.prems(1) mr] x by simp
  have "table_get (qs_records (forget_message s x)) m' = Some r' \<and> qr_status r' = Pending"
    if "(m', r') \<in> set xs" for m' r'
    using Cons.prems(2,3) that x by (auto simp: forget_message_get image_iff)
  with Cons.IH[OF wf1] Cons.prems(2) show ?case by (auto simp: forget_message_get x)
qed

lemma insert_fresh_wf:
  assumes wf: "queue_wf s" and new: "table_get (qs_records s) (env_id e) = None"
  shows "queue_wf (push_pending (env_priority e) (env_id e) (put_record (env_id e) (fresh_record now e) s))"
    (is "queue_wf ?s")
proof (rule queue_wf_transition[OF wf, of _ "env_id e" "fresh_record now e"])
  have out: "env_id e \<notin> set (qs_pending s p)" for p
    using new by (auto simp: queue_wfD(5)[OF wf] pending_at_def)
  show "table_get (qs_records ?s) = (table_get (qs_records s))(env_id e \<mapsto> fresh_record now e)"
    by (simp add: state_sel update_conv')
  show "table_wf (qs_records ?s)" "table_wf (qs_inflight ?s)" using queue_wfD(1,2)[OF wf] by (simp_all add: state_sel)
  show "record_consistent (env_id e) (fresh_record now e)" by (simp add: record_consistent_def fresh_record_def)
  show "distinct (qs_pending ?s p)" for p using queue_wfD(4)[OF wf] out by (simp add: state_sel)
  show "m \<in> set (qs_pending ?s p) \<longleftrightarrow> (if m = env_id e then qr_status (fresh_record now e) = Pending \<and>
      env_priority (qr_envelope (fresh_record now e)) = p else m \<in> set (qs_pending s p))" for m p
    using out by (auto simp: state_sel fresh_record_def)
  have "cr_messageId c \<noteq> env_id e" if "table_get (qs_inflight s) t = Some c" for t c
    using wf_claim_held[OF wf that] new by (auto simp: held_record_Some)
  then show "table_get (qs_inflight ?s) t = Some c \<longleftrightarrow>
       (if qr_claimToken (fresh_record now e) = Some t then c = derived_claim (env_id e) (fresh_record now e)
        else table_get (qs_inflight s) t = Some c \<and> cr_messageId c \<noteq> env_id e)" for t c
    by (auto simp: state_sel fresh_record_def)
  show "qr_claimToken r2 \<noteq> qr_claimToken (fresh_record now e)" if "qr_claimToken r2 \<noteq> None" for r2
    using that by (simp add: fresh_record_def)
qed

lemma active_dedupe_pending:
  assumes "queue_wf s" "find (\<lambda>(_, r). qr_status r = Inflight) (filter (active_dedupe k) (qs_records s)) = None"
    and "(m, r) \<in> set (filter (active_dedupe k) (qs_records s))"
  shows "table_get (qs_records s) m = Some r \<and> qr_status r = Pending"
proof -
  have "qr_status r \<noteq> Inflight" using assms(2,3) by (auto simp: find_None_conv)
  then have "qr_status r = Pending" using assms(3) by (cases "qr_status r") (auto simp: active_dedupe_def)
  then show ?thesis using assms(3) queue_wfD(1)[OF assms(1)] by (simp add: table_mem_iff)
qed

lemma accept_wf [ps_inv]: "queue_wf s \<Longrightarrow> queue_wf (fst (snd (accept now e s)))"
proof -
  assume wf: "queue_wf s"
  let ?act = "filter (active_dedupe (env_dedupe_key e)) (qs_records s)"
  have "queue_wf (push_pending (env_priority e) (env_id e)
          (put_record (env_id e) (fresh_record now e) (foldl forget_message s ?act)))"
    if "table_get (qs_records s) (env_id e) = None" and "find (\<lambda>(_, r). qr_status r = Inflight) ?act = None"
  proof -
    have "distinct (map fst ?act)" using queue_wfD(1)[OF wf] by (simp add: table_wf_def distinct_map_filter)
    from forget_fold[OF wf this active_dedupe_pending[OF wf that(2)]] that(1)
    show ?thesis by (intro insert_fresh_wf) auto
  qed
  then show ?thesis using wf insert_fresh_wf[OF wf, of e now]
    by (simp add: accept_def Let_def split: option.splits)
qed

end
