(* ===== verification/Queue_Transactions.thy ===== *)
theory Queue_Transactions
  imports Queue_Invariant "HOL-Library.Multiset"
begin

text \<open>
  The durable queue over its SQLite table: a state written and read back is the same state, the
  operations as transactions on the table keep the invariant, and the properties of the queue.
\<close>

section \<open>Writing the table and reading it back\<close>

text \<open>Two states that differ in the order of their dictionaries only.\<close>

definition state_equiv :: "queue_state \<Rightarrow> queue_state \<Rightarrow> bool" where
  "state_equiv s t \<longleftrightarrow> table_get (qs_records s) = table_get (qs_records t) \<and>
     qs_pending s = qs_pending t \<and> table_get (qs_inflight s) = table_get (qs_inflight t)"

lemma state_equiv_wf:
  "state_equiv s t \<Longrightarrow> table_wf (qs_records s) \<Longrightarrow> table_wf (qs_inflight s) \<Longrightarrow> queue_wf t \<Longrightarrow> queue_wf s"
  by (simp add: queue_wf_def state_equiv_def pending_at_def claimed_by_def)

text \<open>The loaded state, list by list.\<close>

definition loadable :: "queue_row \<Rightarrow> bool" where
  "loadable w \<longleftrightarrow> queue_record_valid (row_record w) \<and> env_id (qr_envelope (row_record w)) = row_message_id w"

definition row_entry :: "queue_row \<Rightarrow> string \<times> queue_record" where
  "row_entry w = (row_message_id w, row_record w)"

lemma table_put_fresh: "k \<notin> fst ` set t \<Longrightarrow> table_put k v t = t @ [(k, v)]"
  by (induction t) auto

lemma load_row_records:
  "loadable w \<Longrightarrow> qs_records (load_row s w) = table_put (row_message_id w) (row_record w) (qs_records s)"
  by (simp add: load_row_def Let_def loadable_def state_sel)

lemma load_row_pending:
  "loadable w \<Longrightarrow> qs_pending (load_row s w) p =
     (if qr_status (row_record w) = Pending \<and> env_priority (qr_envelope (row_record w)) = p
      then qs_pending s p @ [row_message_id w] else qs_pending s p)"
  by (auto simp: load_row_def Let_def loadable_def state_sel)

lemma load_row_inflight:
  "loadable w \<Longrightarrow> qs_inflight (load_row s w) =
     (if qr_status (row_record w) = Inflight \<and> truthy (qr_claimToken (row_record w))
      then table_put (the (qr_claimToken (row_record w))) (derived_claim (row_message_id w) (row_record w)) (qs_inflight s)
      else qs_inflight s)"
  by (auto simp: load_row_def Let_def loadable_def state_sel)

lemma load_fold_records:
  "list_all loadable ws \<Longrightarrow> distinct (map row_message_id ws) \<Longrightarrow>
   fst ` set (qs_records s) \<inter> row_message_id ` set ws = {} \<Longrightarrow>
   qs_records (foldl load_row s ws) = qs_records s @ map row_entry ws"
proof (induction ws arbitrary: s)
  case Nil
  then show ?case by simp
next
  case (Cons w ws)
  then have "qs_records (load_row s w) = qs_records s @ [row_entry w]"
    by (simp add: load_row_records table_put_fresh row_entry_def)
  with Cons show ?case by (auto simp: row_entry_def)
qed

lemma load_fold_pending:
  "list_all loadable ws \<Longrightarrow> qs_pending (foldl load_row s ws) p =
     qs_pending s p @ map row_message_id (filter (\<lambda>w. qr_status (row_record w) = Pending \<and>
       env_priority (qr_envelope (row_record w)) = p) ws)"
  by (induction ws arbitrary: s) (auto simp: load_row_pending)

lemma load_fold_inflight_wf:
  "list_all loadable ws \<Longrightarrow> table_wf (qs_inflight s) \<Longrightarrow> table_wf (qs_inflight (foldl load_row s ws))"
  by (induction ws arbitrary: s) (auto simp: load_row_inflight)

definition row_claims :: "queue_row \<Rightarrow> string \<Rightarrow> bool" where
  "row_claims w tok \<longleftrightarrow> qr_status (row_record w) = Inflight \<and> qr_claimToken (row_record w) = Some tok \<and> tok \<noteq> ''''"

lemma load_fold_inflight_none:
  "list_all loadable ws \<Longrightarrow> (\<And>w. w \<in> set ws \<Longrightarrow> \<not> row_claims w tok) \<Longrightarrow>
   table_get (qs_inflight (foldl load_row s ws)) tok = table_get (qs_inflight s) tok"
proof (induction ws arbitrary: s)
  case Nil
  then show ?case by simp
next
  case (Cons w ws)
  have "\<not> row_claims w tok" using Cons.prems(2) by simp
  then have "table_get (qs_inflight (load_row s w)) tok = table_get (qs_inflight s) tok"
    using Cons.prems(1) by (auto simp: load_row_inflight row_claims_def table_get_put truthy_iff)
  then show ?case using Cons.IH[of "load_row s w"] Cons.prems by simp
qed

lemma load_fold_inflight_some:
  "list_all loadable ws \<Longrightarrow> w \<in> set ws \<Longrightarrow> row_claims w tok \<Longrightarrow>
   (\<And>w'. w' \<in> set ws \<Longrightarrow> row_claims w' tok \<Longrightarrow> w' = w) \<Longrightarrow>
   table_get (qs_inflight (foldl load_row s ws)) tok = Some (derived_claim (row_message_id w) (row_record w))"
proof (induction ws arbitrary: s)
  case Nil
  then show ?case by simp
next
  case (Cons v ws)
  show ?case
  proof (cases "w \<in> set ws")
    case True
    have "list_all loadable ws" using Cons.prems(1) by simp
    moreover have "w' = w" if "w' \<in> set ws" "row_claims w' tok" for w'
      using Cons.prems(4)[OF _ that(2)] that(1) by simp
    ultimately have "table_get (qs_inflight (foldl load_row (load_row s v) ws)) tok =
        Some (derived_claim (row_message_id w) (row_record w))"
      using Cons.IH[OF _ True Cons.prems(3)] by blast
    then show ?thesis by simp
  next
    case False
    then have v: "v = w" using Cons.prems(2) by simp
    have "\<not> row_claims w' tok" if "w' \<in> set ws" for w'
      using Cons.prems(4)[of w'] that False by (metis list.set_intros(2))
    then have "table_get (qs_inflight (foldl load_row (load_row s v) ws)) tok = table_get (qs_inflight (load_row s v)) tok"
      using Cons.prems(1) by (intro load_fold_inflight_none) simp_all
    moreover have "table_get (qs_inflight (load_row s w)) tok = Some (derived_claim (row_message_id w) (row_record w))"
      using Cons.prems(1,3) by (simp add: v load_row_inflight row_claims_def table_get_put)
    ultimately show ?thesis by (simp add: v)
  qed
qed

section \<open>Normalisation changes nothing in a well-formed state\<close>

lemma adopt_record_id:
  assumes "queue_wf s" "table_get (qs_records s) mid = Some r"
  shows "adopt_record s (mid, r) = s"
proof -
  have "mid \<in> set (qs_pending s (env_priority (qr_envelope r)))" if "qr_status r = Pending"
    using assms that by (simp add: queue_wfD(5) pending_at_def)
  moreover have "table_put tok (derived_claim mid r) (qs_inflight s) = qs_inflight s"
    if "qr_status r = Inflight" "qr_claimToken r = Some tok" for tok
  proof -
    have "table_get (qs_inflight s) tok = Some (derived_claim mid r)"
      using queue_wfD(6)[OF assms(1)] assms(2) that by (auto simp: claimed_by_def)
    then show ?thesis by (rule update_triv)
  qed
  ultimately show ?thesis by (auto simp: adopt_record_def Let_def truthy_iff)
qed

lemma adopt_fold_id:
  "queue_wf s \<Longrightarrow> (\<And>mid r. (mid, r) \<in> set xs \<Longrightarrow> table_get (qs_records s) mid = Some r) \<Longrightarrow>
   foldl adopt_record s xs = s"
  by (induction xs) (auto simp: adopt_record_id)

lemma normalize_id:
  assumes wf: "queue_wf s" and valid: "queue_state_valid s"
  shows "normalize_state s = s"
proof -
  have recs: "normalize_records (qs_records s) = qs_records s"
    using queue_wfD(1,3)[OF wf] valid
    by (auto simp: normalize_records_def filter_id_conv table_mem_iff record_consistent_def
        queue_state_valid_def list_all_iff)
  have kept: "\<exists>r. table_get (qs_records s) m = Some r \<and> qr_status r = Pending" if "m \<in> set (qs_pending s p)" for m p
    using wf_pending_get[OF wf that] by blast
  have "normalize_pending (qs_records s) (qs_pending s) p = qs_pending s p" for p
    unfolding normalize_pending_def filter_id_conv using kept by fastforce
  then have pend: "normalize_pending (qs_records s) (qs_pending s) = qs_pending s" by (rule ext)
  have "claim_record_valid c \<and> (case table_get (qs_records s) (cr_messageId c) of None \<Rightarrow> False
        | Some r \<Rightarrow> qr_status r = Inflight \<and> qr_claimToken r = Some tok)" if m: "(tok, c) \<in> set (qs_inflight s)" for tok c
  proof -
    have g: "table_get (qs_inflight s) tok = Some c" using m queue_wfD(2)[OF wf] by (simp add: table_mem_iff)
    show ?thesis using wf_claim_held[OF wf g] valid m
      by (auto simp: held_record_Some queue_state_valid_def list_all_iff)
  qed
  then have infl: "normalize_inflight (qs_records s) (qs_inflight s) = qs_inflight s"
    by (auto simp: normalize_inflight_def filter_id_conv)
  have "foldl adopt_record s (qs_records s) = s"
    using queue_wfD(1)[OF wf] by (intro adopt_fold_id[OF wf]) (simp add: table_mem_iff)
  moreover have "\<lparr>qs_records = qs_records s, qs_pending = qs_pending s, qs_inflight = qs_inflight s\<rparr> = s" by simp
  ultimately show ?thesis by (simp only: normalize_state_def Let_def recs pend infl)
qed

text \<open>The map \<open>pendingOrder\<close> gives the position of a message in its bucket.\<close>

definition number_bucket :: "string list \<Rightarrow> nat \<Rightarrow> (string \<Rightarrow> nat option) \<Rightarrow> string \<Rightarrow> nat option" where
  "number_bucket xs n m = foldl (\<lambda>m' (i, mid). m'(mid \<mapsto> i)) m (enumerate n xs)"

lemma number_bucket_simps [simp]:
  "number_bucket [] n m = m"
  "number_bucket (x # xs) n m = number_bucket xs (Suc n) (m(x \<mapsto> n))"
  by (simp_all add: number_bucket_def)

lemma number_bucket_other: "x \<notin> set xs \<Longrightarrow> number_bucket xs n m x = m x"
  by (induction xs arbitrary: n m) simp_all

lemma number_bucket_nth:
  "distinct xs \<Longrightarrow> i < length xs \<Longrightarrow> number_bucket xs n m (xs ! i) = Some (n + i)"
proof (induction xs arbitrary: n m i)
  case Nil
  then show ?case by simp
next
  case (Cons x xs)
  then show ?case by (cases i) (simp_all add: number_bucket_other)
qed

lemma number_fold_other:
  "(\<And>p. p \<in> set ps \<Longrightarrow> x \<notin> set (pend p)) \<Longrightarrow> foldl (\<lambda>m p. number_bucket (pend p) 0 m) m ps x = m x"
  by (induction ps arbitrary: m) (simp_all add: number_bucket_other)

lemma pending_order_nth:
  assumes "\<And>p q. x \<in> set (pend p) \<Longrightarrow> x \<in> set (pend q) \<Longrightarrow> p = q"
    and "distinct (pend p)" "i < length (pend p)" "pend p ! i = x"
  shows "pending_order pend x = Some i"
proof -
  have inp: "x \<in> set (pend p)" using assms(3,4) by auto
  then have other: "x \<notin> set (pend q)" if "q \<noteq> p" for q using assms(1) that by blast
  have dp: "distinct priority_order" by (simp add: priority_order_def)
  obtain ps qs where split: "priority_order = ps @ p # qs"
    using priority_order_all[of p] by (meson split_list)
  have nin: "p \<notin> set qs" using dp unfolding split by simp
  have "pending_order pend x = foldl (\<lambda>m p. number_bucket (pend p) 0 m) Map.empty priority_order x"
    by (simp add: pending_order_def number_bucket_def)
  also have "\<dots> = number_bucket (pend p) 0 (foldl (\<lambda>m p. number_bucket (pend p) 0 m) Map.empty ps) x"
    unfolding split foldl_append foldl_Cons
    by (rule number_fold_other) (metis other nin)
  also have "\<dots> = Some i" using number_bucket_nth[OF assms(2,3)] assms(4) by simp
  finally show ?thesis .
qed

lemma map_of_same_set: "table_wf a \<Longrightarrow> table_wf b \<Longrightarrow> map_of a = map_of b \<longleftrightarrow> set a = set b"
  unfolding table_wf_def by (rule map_of_inject_set)

definition state_row :: "queue_state \<Rightarrow> string \<times> queue_record \<Rightarrow> queue_row" where
  "state_row s mr = (case mr of (mid, r) \<Rightarrow>
     \<lparr>row_message_id = mid, row_priority = env_priority (qr_envelope r),
      row_queue_order = (if qr_status r = Pending then pending_order (qs_pending s) mid else None),
      row_created_at = qr_createdAt r, row_record = r\<rparr>)"

lemma state_row_sel:
  "row_message_id (state_row s mr) = fst mr" "row_record (state_row s mr) = snd mr"
  "row_priority (state_row s mr) = env_priority (qr_envelope (snd mr))"
  "row_queue_order (state_row s mr) =
     (if qr_status (snd mr) = Pending then pending_order (qs_pending s) (fst mr) else None)"
  "row_entry (state_row s mr) = mr"
  by (simp_all add: state_row_def row_entry_def split: prod.splits)

lemma write_rows: "write_queue_state s = map (state_row s) (qs_records s)"
  by (simp add: write_queue_state_def state_row_def cong: map_cong)

lemma filter_set_iff: "x \<in> set (filter P xs) \<longleftrightarrow> x \<in> set xs \<and> P x"
  by simp

lemma write_rows_mset: "mset (map row_message_id (write_queue_state s)) = mset (map fst (qs_records s))"
  unfolding write_rows map_map comp_def state_row_sel ..

text \<open>A bucket comes back in its order.\<close>

lemma reload_bucket:
  assumes wf: "queue_wf s"
  defines "ws \<equiv> sort_key row_key (write_queue_state s)"
  shows "map row_message_id (filter (\<lambda>w. qr_status (row_record w) = Pending \<and>
           env_priority (qr_envelope (row_record w)) = p) ws) = qs_pending s p"
proof -
  let ?P = "\<lambda>w. qr_status (row_record w) = Pending \<and> env_priority (qr_envelope (row_record w)) = p"
  let ?fs = "filter ?P ws"
  let ?idx = "\<lambda>m. the (pending_order (qs_pending s) m)"
  have dist: "distinct (qs_pending s p)" by (rule queue_wfD(4)[OF wf])
  have nth: "pending_order (qs_pending s) (qs_pending s p ! i) = Some i" if "i < length (qs_pending s p)" for i
    by (rule pending_order_nth[of _ "qs_pending s" p]) (use wf_pending_once[OF wf] dist that in auto)
  have rows: "w \<in> set ws \<longleftrightarrow> (\<exists>mr \<in> set (qs_records s). w = state_row s mr)" for w
    by (auto simp: ws_def write_rows)
  have rowI: "state_row s mr \<in> set ws" if "mr \<in> set (qs_records s)" for mr
    using that by (simp add: ws_def write_rows)
  have inset: "row_message_id ` set ?fs = set (qs_pending s p)"
  proof -
    have "m \<in> row_message_id ` set ?fs \<longleftrightarrow> pending_at s m p" for m
    proof
      assume "m \<in> row_message_id ` set ?fs"
      then obtain mr where mr: "mr \<in> set (qs_records s)" "?P (state_row s mr)" "m = fst mr"
        using rows by (auto simp: state_row_sel)
      then have "table_get (qs_records s) m = Some (snd mr)"
        using table_mem_iff[OF queue_wfD(1)[OF wf], of "fst mr" "snd mr"] by simp
      then show "pending_at s m p" using mr(2) by (auto simp: pending_at_def state_row_sel)
    next
      assume "pending_at s m p"
      then obtain r where "table_get (qs_records s) m = Some r" "qr_status r = Pending" "env_priority (qr_envelope r) = p"
        by (auto simp: pending_at_def)
      then have "(m, r) \<in> set (qs_records s)" "?P (state_row s (m, r))"
        using table_mem_iff[OF queue_wfD(1)[OF wf]] by (simp_all add: state_row_sel)
      then have "state_row s (m, r) \<in> set ?fs" using rowI[of "(m, r)"] by (simp only: filter_set_iff simp_thms)
      from imageI[OF this, of row_message_id] show "m \<in> row_message_id ` set ?fs"
        by (simp only: state_row_sel fst_conv)
    qed
    then show ?thesis using queue_wfD(5)[OF wf] by blast
  qed
  have drows: "distinct (map row_message_id ?fs)"
  proof -
    have ms: "mset (map row_message_id ws) = mset (map fst (qs_records s))"
      using write_rows_mset[of s] by (simp add: ws_def)
    have "distinct (map row_message_id ws)"
      using queue_wfD(1)[OF wf] mset_eq_imp_distinct_iff[OF ms] by (simp add: table_wf_def)
    then show ?thesis by (rule distinct_map_filter)
  qed
  have keyed: "row_key w = (priority_rank p, Some (?idx (row_message_id w)), row_created_at w, row_message_id w)"
    if "w \<in> set ?fs" for w
  proof -
    have "row_message_id w \<in> set (qs_pending s p)" using inset that by blast
    then have "\<exists>i. pending_order (qs_pending s) (row_message_id w) = Some i"
      using nth by (metis in_set_conv_nth)
    then show ?thesis using that rows[of w] by (auto simp: row_key_def state_row_sel)
  qed
  have "sorted (map row_key ?fs)" unfolding ws_def by (simp add: sorted_filter)
  then have sfs: "sorted (map ?idx (map row_message_id ?fs))"
  proof -
    assume srt: "sorted (map row_key ?fs)"
    have "?idx (row_message_id v) \<le> ?idx (row_message_id w)"
      if "v \<in> set ?fs" "w \<in> set ?fs" "row_key v \<le> row_key w" for v w
      using that(3) unfolding keyed[OF that(1)] keyed[OF that(2)] by (auto simp: less_eq_prod_def)
    then have "sorted_wrt (\<lambda>v w. ?idx (row_message_id v) \<le> ?idx (row_message_id w)) ?fs"
      using srt unfolding sorted_map by (rule sorted_wrt_mono_rel)
    then show ?thesis by (simp add: sorted_map comp_def)
  qed
  have idxs: "map ?idx (qs_pending s p) = [0..<length (qs_pending s p)]"
    by (rule nth_equalityI) (simp_all add: nth)
  show ?thesis
  proof (rule map_sorted_distinct_set_unique[of ?idx])
    have inj: "inj_on ?idx (set (qs_pending s p))"
      using idxs by (metis distinct_map distinct_upt)
    have sets: "set (map row_message_id ?fs) = set (qs_pending s p)" using inset by simp
    then show "inj_on ?idx (set (map row_message_id ?fs) \<union> set (qs_pending s p))" using inj by simp
    show "sorted (map ?idx (map row_message_id ?fs))" by (rule sfs)
    show "distinct (map ?idx (map row_message_id ?fs))"
      using drows inj by (simp only: distinct_map sets simp_thms)
    show "sorted (map ?idx (qs_pending s p))" "distinct (map ?idx (qs_pending s p))"
      by (simp_all only: idxs sorted_upt distinct_upt)
    show "set (map row_message_id ?fs) = set (qs_pending s p)" by (rule sets)
  qed
qed

lemma state_equivD:
  assumes "state_equiv s t" "table_wf (qs_records s)" "table_wf (qs_records t)"
    "table_wf (qs_inflight s)" "table_wf (qs_inflight t)"
  shows "set (qs_records s) = set (qs_records t)" "set (qs_inflight s) = set (qs_inflight t)"
  using assms by (simp_all add: state_equiv_def map_of_same_set)

lemma reload_fold:
  assumes wf: "queue_wf s" and valid: "queue_state_valid s"
  defines "t \<equiv> foldl load_row build_empty_state (sort_key row_key (write_queue_state s))"
  shows "state_equiv t s" "queue_wf t" "queue_state_valid t"
proof -
  let ?ws = "sort_key row_key (write_queue_state s)"
  have rows: "w \<in> set ?ws \<longleftrightarrow> (\<exists>mr \<in> set (qs_records s). w = state_row s mr)" for w
    by (auto simp: write_rows)
  have get: "table_get (qs_records s) (fst mr) = Some (snd mr)" if "mr \<in> set (qs_records s)" for mr
    using table_mem_iff[OF queue_wfD(1)[OF wf], of "fst mr" "snd mr"] that by simp
  have ld: "list_all loadable ?ws"
    unfolding list_all_iff
  proof
    fix w assume "w \<in> set ?ws"
    then obtain mr where mr: "mr \<in> set (qs_records s)" "w = state_row s mr" using rows[of w] by auto
    then show "loadable w"
      using queue_wfD(3)[OF wf get[OF mr(1)]] valid
      by (auto simp: loadable_def state_row_sel record_consistent_def queue_state_valid_def list_all_iff)
  qed
  have dist: "distinct (map row_message_id ?ws)"
  proof -
    have ms: "mset (map row_message_id ?ws) = mset (map fst (qs_records s))"
      using write_rows_mset[of s] by simp
    show ?thesis using queue_wfD(1)[OF wf] mset_eq_imp_distinct_iff[OF ms] by (simp add: table_wf_def)
  qed
  have recs: "qs_records t = map row_entry ?ws"
    unfolding t_def using ld dist by (subst load_fold_records) (simp_all add: build_empty_state_def)
  have wfr: "table_wf (qs_records t)"
    using dist by (simp add: recs table_wf_def comp_def row_entry_def)
  have "set (qs_records t) = set (qs_records s)"
    by (auto simp: recs write_rows image_comp state_row_sel comp_def)
  then have r: "table_get (qs_records t) = table_get (qs_records s)"
    using map_of_same_set[OF wfr queue_wfD(1)[OF wf]] by simp
  have p: "qs_pending t = qs_pending s"
  proof
    fix q show "qs_pending t q = qs_pending s q"
      unfolding t_def load_fold_pending[OF ld] reload_bucket[OF wf]
      by (simp add: build_empty_state_def empty_pending_def)
  qed
  have wfi: "table_wf (qs_inflight t)"
    unfolding t_def by (rule load_fold_inflight_wf[OF ld]) (simp add: build_empty_state_def)
  have i: "table_get (qs_inflight t) tok = table_get (qs_inflight s) tok" for tok
  proof (cases "table_get (qs_inflight s) tok")
    case None
    have "\<not> row_claims w tok" if inw: "w \<in> set ?ws" for w
    proof
      assume c: "row_claims w tok"
      obtain mr where "mr \<in> set (qs_records s)" "w = state_row s mr" using rows[of w] inw by auto
      then have "claimed_by s tok (derived_claim (fst mr) (snd mr))"
        using get[of mr] c unfolding claimed_by_def row_claims_def by (metis state_row_sel(2))
      then have "table_get (qs_inflight s) tok = Some (derived_claim (fst mr) (snd mr))"
        using queue_wfD(6)[OF wf] by blast
      then show False using None by simp
    qed
    then have "table_get (qs_inflight t) tok = table_get (qs_inflight build_empty_state) tok"
      unfolding t_def by (rule load_fold_inflight_none[OF ld])
    then show ?thesis using None by (simp add: build_empty_state_def)
  next
    case (Some c)
    obtain r where h: "held_record tok c s = Some r" using wf_claim_held[OF wf Some] by blast
    note hs = held_settle[OF wf Some h]
    let ?w = "state_row s (cr_messageId c, r)"
    have m: "?w \<in> set ?ws" using hs(1) table_mem_iff[OF queue_wfD(1)[OF wf]] by (simp add: write_rows)
    have ne: "tok \<noteq> ''''" using queue_wfD(3)[OF wf hs(1)] hs(2) by (auto simp: record_consistent_def)
    have cl: "row_claims ?w tok" using hs ne by (simp add: row_claims_def state_row_sel)
    have "w' = ?w" if inw: "w' \<in> set ?ws" "row_claims w' tok" for w'
    proof -
      obtain mr where mr: "mr \<in> set (qs_records s)" "w' = state_row s mr" using rows[of w'] inw(1) by auto
      then have "qr_claimToken (snd mr) = Some tok" using inw(2) by (simp add: row_claims_def state_row_sel)
      then have "fst mr = cr_messageId c" using wf_token_unique[OF wf get[OF mr(1)] _ hs(1,2)] by simp
      then have "mr = (cr_messageId c, r)" using get[OF mr(1)] hs(1) by (cases mr) simp
      then show ?thesis using mr(2) by simp
    qed
    then have "table_get (qs_inflight t) tok = Some (derived_claim (row_message_id ?w) (row_record ?w))"
      unfolding t_def by (rule load_fold_inflight_some[OF ld m cl])
    then show ?thesis using Some hs(5) by (simp add: state_row_sel)
  qed
  show eq: "state_equiv t s" using r p i by (simp add: state_equiv_def fun_eq_iff)
  show "queue_wf t" by (rule state_equiv_wf[OF eq wfr wfi wf])
  show "queue_state_valid t"
    using valid state_equivD[OF eq wfr queue_wfD(1)[OF wf] wfi queue_wfD(2)[OF wf]]
    by (simp add: queue_state_valid_def list_all_iff)
qed

lemma reload:
  assumes "queue_wf s" "queue_state_valid s"
  shows "state_equiv (read_queue_state (write_queue_state s)) s"
    "queue_wf (read_queue_state (write_queue_state s))" "queue_state_valid (read_queue_state (write_queue_state s))"
  using reload_fold[OF assms] normalize_id[OF reload_fold(2,3)[OF assms]]
  by (simp_all add: read_queue_state_def)

section \<open>The table under the operations\<close>

text \<open>Every call of the queue's interface, as one transaction on the table.\<close>

inductive queue_step :: "queue_row list \<Rightarrow> queue_row list \<Rightarrow> bool" where
  step_accept: "queue_step rows (snd (accept_envelope now e rows))"
| step_claim: "uuid \<noteq> '''' \<Longrightarrow> table_get (qs_inflight (read_queue_state rows)) uuid = None \<Longrightarrow>
    queue_step rows (snd (with_locked_state (claim now uuid worker leaseMs f) rows))"
| step_renew: "queue_step rows (snd (with_locked_state (renew now tok leaseMs) rows))"
| step_ack: "queue_step rows (snd (with_locked_state (ack now tok) rows))"
| step_nack: "queue_step rows (snd (with_locked_state (nack maxAttempts now tok reason rq) rows))"
| step_requeue: "queue_step rows (snd (with_locked_state (requeue_message now mid) rows))"
| step_deadletter: "queue_step rows (snd (with_locked_state (deadletter now mid reason) rows))"
| step_sweep: "queue_step rows (snd (with_locked_state (sweep_expired_claims maxAttempts now) rows))"

inductive queue_reachable :: "queue_row list \<Rightarrow> bool" where
  reach_empty: "queue_reachable []"
| reach_step: "queue_reachable rows \<Longrightarrow> queue_step rows rows' \<Longrightarrow> queue_reachable rows'"

inductive_cases queue_stepE: "queue_step rows rows'"

definition table_ok :: "queue_row list \<Rightarrow> bool" where
  "table_ok rows \<longleftrightarrow> (\<exists>s. queue_wf s \<and> queue_state_valid s \<and> rows = write_queue_state s)"

lemma empty_wf: "queue_wf build_empty_state"
  by (auto simp: queue_wf_def build_empty_state_def empty_pending_def pending_at_def claimed_by_def)

lemma empty_valid: "queue_state_valid build_empty_state"
  by (simp add: queue_state_valid_def build_empty_state_def)

lemma table_ok_read:
  assumes "table_ok rows"
  shows "queue_wf (read_queue_state rows)" "queue_state_valid (read_queue_state rows)"
  using assms reload(2,3) by (auto simp: table_ok_def)

lemma table_ok_empty: "table_ok []"
  unfolding table_ok_def
  by (rule exI[of _ build_empty_state])
    (use empty_wf empty_valid in \<open>simp add: write_rows build_empty_state_def\<close>)

text \<open>A transaction keeps a table whose mutator keeps the invariant.\<close>

lemma with_locked_ok:
  assumes "table_ok rows" "queue_wf (fst (snd (m (read_queue_state rows))))"
  shows "table_ok (snd (with_locked_state m rows))"
  using assms by (auto simp: with_locked_state_def table_ok_def split: prod.splits)

lemma queue_step_ok: "queue_step rows rows' \<Longrightarrow> table_ok rows \<Longrightarrow> table_ok rows'"
  by (erule queue_stepE)
    (auto intro!: with_locked_ok intro: accept_wf claim_wf renew_wf ack_wf nack_wf requeue_wf deadletter_wf sweep_wf
      simp: accept_envelope_def dest: table_ok_read)

lemma queue_reachable_ok: "queue_reachable rows \<Longrightarrow> table_ok rows"
  by (induction rule: queue_reachable.induct) (auto intro: table_ok_empty queue_step_ok)

end
