(* ===== verification/Queue_Properties.thy ===== *)
theory Queue_Properties
  imports Queue_Transactions
begin

text \<open>
  The properties of the durable queue and of the in-memory priority queue, each with a witness on
  a small table.
\<close>

section \<open>Properties of the durable queue\<close>

lemmas reachable_read = table_ok_read[OF queue_reachable_ok]

lemma with_locked_value:
  "fst (with_locked_state m rows) = Inr x \<Longrightarrow> x = fst (m (read_queue_state rows))"
  by (auto simp: with_locked_state_def split: prod.splits if_splits)

lemma with_locked_clean:
  "m (read_queue_state rows) = (x, s, False) \<Longrightarrow> with_locked_state m rows = (Inr x, rows)"
  by (simp add: with_locked_state_def)

lemma with_locked_dirty:
  "m (read_queue_state rows) = (x, s, True) \<Longrightarrow> with_locked_state m rows =
     (if queue_state_valid s then (Inr x, write_queue_state s) else (Inl SchemaError, rows))"
  by (simp add: with_locked_state_def)

lemma stale_at_get: "table_get recs m = Some r \<Longrightarrow> stale_at now recs m = is_expired (qr_envelope r) now"
  by (simp add: stale_at_def)

text \<open>The two outcomes of \<open>claim\<close>.\<close>

lemma claim_wfE:
  assumes "queue_wf s"
  obtains (none) ms where "distinct ms" "\<forall>m \<in> set ms. stale_at now (qs_records s) m"
      "find (claimable f now (qs_records s)) (concat (map (qs_pending s) priority_order)) = None"
      "claim now uuid worker leaseMs f s = (None, expire_state now ms s, ms \<noteq> [])"
    | (taken) m r ms where "distinct ms" "\<forall>m \<in> set ms. stale_at now (qs_records s) m"
      "find (claimable f now (qs_records s)) (concat (map (qs_pending s) priority_order)) = Some m"
      "table_get (qs_records s) m = Some r" "m \<notin> set ms"
      "claim now uuid worker leaseMs f s =
         (Some \<lparr>qc_claimToken = uuid, qc_messageId = m, qc_workerId = worker,
                qc_leaseUntil = now + leaseMs, qc_attempt = qr_attempt r + 1, qc_envelope = qr_envelope r\<rparr>,
          leased_state now worker uuid leaseMs m r (expire_state now ms s), True)"
  using claim_wf_form[OF assms, where now = now and f = f and uuid = uuid and worker = worker and leaseMs = leaseMs] that
  by (cases "find (claimable f now (qs_records s)) (concat (map (qs_pending s) priority_order))") auto

text \<open>Sample messages for the witnesses.\<close>

definition sample_envelope :: "string \<Rightarrow> priority \<Rightarrow> envelope" where
  "sample_envelope i p =
     \<lparr>env_id = i, env_type = Event, env_name = ''tick'', env_source = ''cron'', env_goal_id = None,
      env_correlation_id = None, env_dedupe_key = Some ''k'', env_priority = p, env_payload = ''{}'',
      env_reply_channel_id = None, env_created_at = 1000, env_ttl_ms = None, env_auth = None\<rparr>"

definition sample_rows :: "queue_row list" where
  "sample_rows = snd (accept_envelope 1000 (sample_envelope ''a'' Low) [])"

definition sample_claimed :: "queue_row list" where
  "sample_claimed = snd (with_locked_state (claim 2000 ''t1'' ''w1'' 500 None) sample_rows)"

lemmas sample_defs = sample_envelope_def accept_envelope_def with_locked_state_def read_queue_state_def
  build_empty_state_def empty_pending_def normalize_state_def Let_def normalize_records_def
  normalize_inflight_def accept_def is_expired_def fresh_record_def
  put_record_def push_pending_def queue_state_valid_def queue_record_valid_def envelope_valid_def
  safe_nonneg_def safe_pos_def max_safe_integer_def write_queue_state_def pending_order_def priority_order_def
  active_dedupe_def load_row_def row_key_def adopt_record_def derived_claim_def claim_def lease_record_def
  filtered_out_def

lemma sample_rows_eval:
  "sample_rows = [\<lparr>row_message_id = ''a'', row_priority = Low, row_queue_order = Some 0,
     row_created_at = 1000, row_record = fresh_record 1000 (sample_envelope ''a'' Low)\<rparr>]"
  unfolding sample_rows_def by (simp add: sample_defs normalize_pending_def)

lemma sample_rows_reachable: "queue_reachable sample_rows"
  unfolding sample_rows_def by (rule reach_step[OF reach_empty step_accept])

lemma sample_rows_read:
  "read_queue_state sample_rows = \<lparr>qs_records = [(''a'', fresh_record 1000 (sample_envelope ''a'' Low))],
     qs_pending = empty_pending(Low := [''a'']), qs_inflight = []\<rparr>"
  unfolding sample_rows_eval by (auto simp: sample_defs normalize_pending_def fun_eq_iff)

lemma sample_claim:
  "claim 2000 ''t1'' ''w1'' 500 None (read_queue_state sample_rows) =
     (Some \<lparr>qc_claimToken = ''t1'', qc_messageId = ''a'', qc_workerId = ''w1'', qc_leaseUntil = 2500,
            qc_attempt = 1, qc_envelope = sample_envelope ''a'' Low\<rparr>,
      \<lparr>qs_records = [(''a'', lease_record 2000 ''w1'' ''t1'' 500 (fresh_record 1000 (sample_envelope ''a'' Low)))],
       qs_pending = empty_pending,
       qs_inflight = [(''t1'', \<lparr>cr_messageId = ''a'', cr_workerId = ''w1'', cr_leaseUntil = 2500,
                                cr_attempt = 1, cr_claimedAt = 2000\<rparr>)]\<rparr>, True)"
  unfolding sample_rows_read by (simp add: sample_defs fun_eq_iff)

lemma sample_claimed_eval:
  "with_locked_state (claim 2000 ''t1'' ''w1'' 500 None) sample_rows =
     (Inr (Some \<lparr>qc_claimToken = ''t1'', qc_messageId = ''a'', qc_workerId = ''w1'', qc_leaseUntil = 2500,
            qc_attempt = 1, qc_envelope = sample_envelope ''a'' Low\<rparr>),
      [\<lparr>row_message_id = ''a'', row_priority = Low, row_queue_order = None, row_created_at = 1000,
        row_record = lease_record 2000 ''w1'' ''t1'' 500 (fresh_record 1000 (sample_envelope ''a'' Low))\<rparr>])"
  using with_locked_dirty[where m = "claim 2000 ''t1'' ''w1'' 500 None", OF sample_claim]
  by (simp add: sample_defs claim_record_valid_def)

lemma sample_claimed_rows:
  "sample_claimed = [\<lparr>row_message_id = ''a'', row_priority = Low, row_queue_order = None, row_created_at = 1000,
        row_record = lease_record 2000 ''w1'' ''t1'' 500 (fresh_record 1000 (sample_envelope ''a'' Low))\<rparr>]"
  by (simp add: sample_claimed_def sample_claimed_eval)

lemma sample_claimed_reachable: "queue_reachable sample_claimed"
  unfolding sample_claimed_def
  by (rule reach_step[OF sample_rows_reachable step_claim]) (simp_all add: sample_rows_read)

lemma sample_claimed_read:
  "read_queue_state sample_claimed =
     \<lparr>qs_records = [(''a'', lease_record 2000 ''w1'' ''t1'' 500 (fresh_record 1000 (sample_envelope ''a'' Low)))],
      qs_pending = empty_pending,
      qs_inflight = [(''t1'', \<lparr>cr_messageId = ''a'', cr_workerId = ''w1'', cr_leaseUntil = 2500,
                                cr_attempt = 1, cr_claimedAt = 2000\<rparr>)]\<rparr>"
  unfolding sample_claimed_rows
  by (auto simp: sample_defs normalize_pending_def claim_record_valid_def fun_eq_iff)

text \<open>
  C1. Whatever sequence of calls (accept, claim under fresh tokens, renew, ack, nack, requeue, dead-letter,
  sweep, with any arguments and any clock) ran over an empty table: the state read back is
  consistent. Every id of a bucket is a pending record of that priority and occurs once, every
  pending record is in its bucket, and the claim table holds exactly the in-flight records under
  their tokens.
\<close>

theorem queue_reachable_consistent:
  "queue_reachable rows \<Longrightarrow> queue_wf (read_queue_state rows) \<and> queue_state_valid (read_queue_state rows)"
  using reachable_read by blast

theorem queue_reachable_consistent_witness:
  "queue_wf (read_queue_state sample_claimed) \<and> qs_inflight (read_queue_state sample_claimed) \<noteq> []"
  using queue_reachable_consistent[OF sample_claimed_reachable] by (simp add: sample_claimed_read)

text \<open>
  C38. Writing a consistent, valid state to the table and reading it back gives the same records,
  the same buckets in the same order and the same claims; only the order of the dictionaries may
  differ.
\<close>

theorem queue_write_read_roundtrip:
  "queue_wf s \<Longrightarrow> queue_state_valid s \<Longrightarrow> state_equiv (read_queue_state (write_queue_state s)) s"
  by (rule reload(1))

theorem queue_write_read_roundtrip_witness:
  "state_equiv (read_queue_state (write_queue_state (read_queue_state sample_rows))) (read_queue_state sample_rows)"
  by (rule queue_write_read_roundtrip) (rule reachable_read[OF sample_rows_reachable])+

text \<open>
  \<open>claim\<close> hands out the first claimable message (pending, not expired, accepted by the
  filter) in priority order and first-in-first-out inside a priority, and nothing when there is
  none. The messages it turns into dead letters on the way are expired ones.
\<close>

lemma claim_takes_first_claimable:
  assumes "queue_reachable rows" "uuid \<noteq> ''''"
    and "table_get (qs_inflight (read_queue_state rows)) uuid = None"
    and "fst (with_locked_state (claim now uuid worker leaseMs f) rows) = Inr got"
  defines "s \<equiv> read_queue_state rows"
  shows "map_option qc_messageId got =
           find (claimable f now (qs_records s)) (concat (map (qs_pending s) priority_order)) \<and>
         (\<forall>mid r r'. table_get (qs_records s) mid = Some r \<longrightarrow>
            table_get (qs_records (fst (snd (claim now uuid worker leaseMs f s)))) mid = Some r' \<longrightarrow>
            r' \<noteq> r \<longrightarrow> Some mid \<noteq> map_option qc_messageId got \<longrightarrow>
            is_expired (qr_envelope r) now \<and> r' = expire_before_claim now r)"
proof -
  have wf: "queue_wf s" using reachable_read(1)[OF assms(1)] by (simp add: s_def)
  have got: "got = fst (claim now uuid worker leaseMs f s)"
    using with_locked_value[OF assms(4)] by (simp add: s_def)
  show ?thesis
  proof (cases rule: claim_wfE[OF wf, where now = now and f = f and uuid = uuid and worker = worker and leaseMs = leaseMs])
    case (1 ms)
    then show ?thesis unfolding got
      by (auto simp: expire_state_def expire_fold_get stale_at_get split: if_splits)
  next
    case (2 m r ms)
    then show ?thesis unfolding got
      by (auto simp: leased_state_def table_get_put expire_state_def expire_fold_get stale_at_get split: if_splits)
  qed
qed

definition sample_urgent :: envelope where
  "sample_urgent = (sample_envelope ''b'' High)\<lparr>env_dedupe_key := None\<rparr>"

definition sample_two :: "queue_row list" where
  "sample_two = snd (accept_envelope 1000 sample_urgent sample_rows)"

definition sample_two_claimed :: "queue_row list" where
  "sample_two_claimed = snd (with_locked_state (claim 2000 ''t1'' ''w1'' 500 None) sample_two)"

lemma sample_two_reachable: "queue_reachable sample_two"
  unfolding sample_two_def by (rule reach_step[OF sample_rows_reachable step_accept])

lemma sample_two_rows:
  "sample_two =
     [\<lparr>row_message_id = ''a'', row_priority = Low, row_queue_order = Some 0, row_created_at = 1000,
       row_record = fresh_record 1000 (sample_envelope ''a'' Low)\<rparr>,
      \<lparr>row_message_id = ''b'', row_priority = High, row_queue_order = Some 0, row_created_at = 1000,
       row_record = fresh_record 1000 sample_urgent\<rparr>]"
  by code_simp

lemma sample_two_read:
  "read_queue_state sample_two =
     \<lparr>qs_records = [(''b'', fresh_record 1000 sample_urgent), (''a'', fresh_record 1000 (sample_envelope ''a'' Low))],
      qs_pending = empty_pending(Low := [''a''], High := [''b'']), qs_inflight = []\<rparr>"
  unfolding sample_two_rows
  by (auto simp: sample_defs sample_urgent_def normalize_pending_def fun_eq_iff)

lemma sample_two_claim:
  "claim 2000 ''t1'' ''w1'' 500 None (read_queue_state sample_two) =
     (Some \<lparr>qc_claimToken = ''t1'', qc_messageId = ''b'', qc_workerId = ''w1'', qc_leaseUntil = 2500,
            qc_attempt = 1, qc_envelope = sample_urgent\<rparr>,
      \<lparr>qs_records = [(''b'', lease_record 2000 ''w1'' ''t1'' 500 (fresh_record 1000 sample_urgent)),
                     (''a'', fresh_record 1000 (sample_envelope ''a'' Low))],
       qs_pending = empty_pending(Low := [''a'']),
       qs_inflight = [(''t1'', \<lparr>cr_messageId = ''b'', cr_workerId = ''w1'', cr_leaseUntil = 2500,
                                cr_attempt = 1, cr_claimedAt = 2000\<rparr>)]\<rparr>, True)"
  unfolding sample_two_read by (simp add: sample_defs sample_urgent_def fun_eq_iff)

lemma sample_two_claimed_eval:
  "with_locked_state (claim 2000 ''t1'' ''w1'' 500 None) sample_two =
     (Inr (Some \<lparr>qc_claimToken = ''t1'', qc_messageId = ''b'', qc_workerId = ''w1'', qc_leaseUntil = 2500,
            qc_attempt = 1, qc_envelope = sample_urgent\<rparr>),
      [\<lparr>row_message_id = ''b'', row_priority = High, row_queue_order = None, row_created_at = 1000,
       row_record = lease_record 2000 ''w1'' ''t1'' 500 (fresh_record 1000 sample_urgent)\<rparr>,
      \<lparr>row_message_id = ''a'', row_priority = Low, row_queue_order = Some 0, row_created_at = 1000,
       row_record = fresh_record 1000 (sample_envelope ''a'' Low)\<rparr>])"
  using with_locked_dirty[where m = "claim 2000 ''t1'' ''w1'' 500 None", OF sample_two_claim]
  by (simp add: sample_defs sample_urgent_def claim_record_valid_def)

lemma sample_two_claimed_read:
  "read_queue_state sample_two_claimed =
     \<lparr>qs_records = [(''b'', lease_record 2000 ''w1'' ''t1'' 500 (fresh_record 1000 sample_urgent)),
                     (''a'', fresh_record 1000 (sample_envelope ''a'' Low))],
      qs_pending = empty_pending(Low := [''a'']),
      qs_inflight = [(''t1'', \<lparr>cr_messageId = ''b'', cr_workerId = ''w1'', cr_leaseUntil = 2500,
                                cr_attempt = 1, cr_claimedAt = 2000\<rparr>)]\<rparr>"
  unfolding sample_two_claimed_def sample_two_claimed_eval
  by (auto simp: sample_defs sample_urgent_def normalize_pending_def claim_record_valid_def fun_eq_iff)

section \<open>Settling a claim\<close>

text \<open>A transaction that wrote: what the next call reads.\<close>

lemma transaction_effect:
  assumes "m (read_queue_state rows) = (x, t, True)" "queue_wf t" "fst (with_locked_state m rows) = Inr y"
  shows "y = x" "state_equiv (read_queue_state (snd (with_locked_state m rows))) t"
    "queue_wf (read_queue_state (snd (with_locked_state m rows)))"
proof -
  have w: "queue_state_valid t" "with_locked_state m rows = (Inr x, write_queue_state t)"
    using with_locked_dirty[where m = m, OF assms(1)] assms(3) by (simp_all split: if_splits)
  show "y = x" using assms(3) w(2) by simp
  show "state_equiv (read_queue_state (snd (with_locked_state m rows))) t"
    "queue_wf (read_queue_state (snd (with_locked_state m rows)))"
    using reload[OF assms(2) w(1)] by (simp_all add: w(2))
qed

lemma state_equivE:
  "state_equiv s t \<Longrightarrow> table_get (qs_records s) mid = table_get (qs_records t) mid"
  "state_equiv s t \<Longrightarrow> table_get (qs_inflight s) tok = table_get (qs_inflight t) tok"
  "state_equiv s t \<Longrightarrow> qs_pending s p = qs_pending t p"
  by (simp_all add: state_equiv_def)

lemma held_lease:
  assumes "queue_wf s" "table_get (qs_inflight s) tok = Some c" "held_record tok c s = Some r"
  shows "lease_expired r tok now \<longleftrightarrow> cr_leaseUntil c \<le> now" "cr_attempt c = qr_attempt r"
  using held_settle[OF assms] by (simp_all add: lease_expired_def derived_claim_def)
    (metis claim_record.select_convs(3), metis claim_record.select_convs(4))

definition claim_live :: "queue_state \<Rightarrow> string \<Rightarrow> int \<Rightarrow> bool" where
  "claim_live s tok now \<longleftrightarrow> (case table_get (qs_inflight s) tok of None \<Rightarrow> False | Some c \<Rightarrow> now < cr_leaseUntil c)"

lemma claim_liveE:
  assumes "queue_wf s" "claim_live s tok now"
  obtains c r where "table_get (qs_inflight s) tok = Some c" "held_record tok c s = Some r"
    "\<not> lease_expired r tok now" "now < cr_leaseUntil c"
proof -
  obtain c where c: "table_get (qs_inflight s) tok = Some c" "now < cr_leaseUntil c"
    using assms(2) by (auto simp: claim_live_def split: option.splits)
  obtain r where r: "held_record tok c s = Some r" using wf_claim_held[OF assms(1) c(1)] by blast
  show thesis using that[OF c(1) r] held_lease(1)[OF assms(1) c(1) r] c(2) by simp
qed

lemma claim_dead:
  assumes wf: "queue_wf s" and dead: "\<not> claim_live s tok now"
  shows "ack now tok s = (False, s, False)" "nack maxA now tok reason rq s = (False, s, False)"
    "renew now tok leaseMs s = (None, s, False)"
proof -
  have "\<exists>r. held_record tok c s = Some r \<and> lease_expired r tok now"
    if c: "table_get (qs_inflight s) tok = Some c" for c
    using wf_claim_held[OF wf c] held_lease(1)[OF wf c] dead c by (auto simp: claim_live_def)
  then show "ack now tok s = (False, s, False)" "nack maxA now tok reason rq s = (False, s, False)"
    "renew now tok leaseMs s = (None, s, False)"
    by (auto simp: ack_def nack_def renew_def split: option.splits)
qed

text \<open>
  A worker whose lease has run out, or whose token was settled, swept or never given, is
  powerless: \<open>ack\<close> and \<open>nack\<close> return false, \<open>renew\<close> returns nothing,
  and the table is unchanged.
\<close>

lemma lapsed_worker_is_powerless:
  assumes "queue_reachable rows" "\<not> claim_live (read_queue_state rows) tok now"
  shows "with_locked_state (ack now tok) rows = (Inr False, rows) \<and>
         with_locked_state (nack maxAttempts now tok reason rq) rows = (Inr False, rows) \<and>
         with_locked_state (renew now tok leaseMs) rows = (Inr None, rows)"
  using claim_dead[OF reachable_read(1)[OF assms(1)] assms(2)]
  by (simp add: with_locked_state_def)

text \<open>
  A live claim is settled exactly once by \<open>ack\<close>: the call returns true, its message
  becomes completed and loses its claim, every other record and every bucket stays as it was, and
  any later \<open>ack\<close> with the token returns false. (The call may still fail with a schema
  error, when the clock is out of range; the table is then unchanged.)
\<close>

lemma ack_settles_once:
  assumes "queue_reachable rows" "claim_live (read_queue_state rows) tok now"
    and "with_locked_state (ack now tok) rows = (Inr b, rows')"
  defines "s \<equiv> read_queue_state rows" and "s' \<equiv> read_queue_state rows'"
  shows "b \<and> (\<exists>mid r. table_get (qs_records s) mid = Some r \<and> qr_claimToken r = Some tok \<and>
           map_option qr_status (table_get (qs_records s') mid) = Some Completed \<and>
           (\<forall>m. m \<noteq> mid \<longrightarrow> table_get (qs_records s') m = table_get (qs_records s) m)) \<and>
         qs_pending s' = qs_pending s \<and> table_get (qs_inflight s') tok = None \<and>
         with_locked_state (ack later tok) rows' = (Inr False, rows')"
proof -
  have wf: "queue_wf s" using reachable_read(1)[OF assms(1)] by (simp add: s_def)
  obtain c r where c: "table_get (qs_inflight s) tok = Some c" and h: "held_record tok c s = Some r"
    and live: "\<not> lease_expired r tok now"
    using claim_liveE[OF wf] assms(2) unfolding s_def by blast
  let ?r' = "clear_lease (r\<lparr>qr_status := Completed, qr_completedAt := Some now, qr_updatedAt := now\<rparr>)"
  let ?t = "drop_claim tok (put_record (cr_messageId c) ?r' s)"
  have run: "ack now tok s = (True, ?t, True)" using c h live by (simp add: ack_def)
  have wft: "queue_wf ?t" using ack_wf[OF wf, of now tok] by (simp add: run)
  note eff = transaction_effect[where m = "ack now tok" and rows = rows, folded s_def, OF run wft, of b]
  have eq: "b" "state_equiv s' ?t" "queue_wf s'" using eff assms(3) by (simp_all add: s'_def)
  have gone: "table_get (qs_inflight s') tok = None"
    using state_equivE(2)[OF eq(2)] by (simp add: state_sel table_get_del)
  have "with_locked_state (ack later tok) rows' = (Inr False, rows')"
    using claim_dead(1)[OF eq(3), of tok later] gone
    by (simp add: claim_live_def with_locked_state_def s'_def)
  moreover have "qs_pending s' = qs_pending s"
    using state_equivE(3)[OF eq(2)] by (auto simp: state_sel)
  moreover have "table_get (qs_records s') m = (if m = cr_messageId c then Some ?r' else table_get (qs_records s) m)" for m
    using state_equivE(1)[OF eq(2)] by (simp add: state_sel table_get_put)
  ultimately show ?thesis
    using eq(1) gone held_settle(1,2)[OF wf c h]
    by (intro conjI exI[of _ "cr_messageId c"] exI[of _ r]) (simp_all add: clear_lease_def)
qed

text \<open>
  \<open>nack\<close> of a live claim decides by the attempts: without \<open>requeue\<close>, or when the
  message has used up \<open>maxAttempts\<close>, it becomes a dead letter with the reason given; otherwise it
  is pending again, at the end of the bucket of its priority. Its claim is gone either way,
  its attempt count is kept, and no other record changes.
\<close>

lemma nack_retries_or_deadletters:
  assumes "queue_reachable rows" "claim_live (read_queue_state rows) tok now"
    and "with_locked_state (nack maxAttempts now tok reason rq) rows = (Inr b, rows')"
  defines "s \<equiv> read_queue_state rows" and "s' \<equiv> read_queue_state rows'"
  shows "b \<and> table_get (qs_inflight s') tok = None \<and>
    (\<exists>mid r r'. table_get (qs_records s) mid = Some r \<and> qr_claimToken r = Some tok \<and>
       table_get (qs_records s') mid = Some r' \<and> qr_attempt r' = qr_attempt r \<and> qr_claimToken r' = None \<and>
       (if \<not> rq \<or> maxAttempts \<le> qr_attempt r
        then qr_status r' = Deadletter \<and> qr_deadletterReason r' = Some reason \<and> qs_pending s' = qs_pending s
        else qr_status r' = Pending \<and> qs_pending s' = (qs_pending s)
               (env_priority (qr_envelope r) := qs_pending s (env_priority (qr_envelope r)) @ [mid])) \<and>
       (\<forall>m. m \<noteq> mid \<longrightarrow> table_get (qs_records s') m = table_get (qs_records s) m))"
proof -
  have wf: "queue_wf s" using reachable_read(1)[OF assms(1)] by (simp add: s_def)
  obtain c r where c: "table_get (qs_inflight s) tok = Some c" and h: "held_record tok c s = Some r"
    and live: "\<not> lease_expired r tok now"
    using claim_liveE[OF wf] assms(2) unfolding s_def by blast
  note hs = held_settle[OF wf c h]
  let ?t = "fst (snd (nack maxAttempts now tok reason rq s))"
  have run: "nack maxAttempts now tok reason rq s = (True, ?t, True)"
    using c h live by (simp add: nack_def Let_def)
  have wft: "queue_wf ?t" by (rule nack_wf[OF wf])
  note eff = transaction_effect[where m = "nack maxAttempts now tok reason rq" and rows = rows, folded s_def, OF run wft, of b]
  have eq: "b" "state_equiv s' ?t" using eff assms(3) by (simp_all add: s'_def)
  have t: "?t = (if \<not> rq \<or> maxAttempts \<le> qr_attempt r then
        put_record (cr_messageId c) ((clear_lease (r\<lparr>qr_updatedAt := now\<rparr>))\<lparr>qr_status := Deadletter,
          qr_deadletterReason := Some reason\<rparr>) (drop_claim tok s)
      else push_pending (env_priority (qr_envelope r)) (cr_messageId c)
        (put_record (cr_messageId c) ((clear_lease (r\<lparr>qr_updatedAt := now\<rparr>))\<lparr>qr_status := Pending\<rparr>) (drop_claim tok s)))"
    using c h live hs(3) by (simp add: nack_def Let_def clear_lease_def)
  have pend: "qs_pending s' = qs_pending ?t" using state_equivE(3)[OF eq(2)] by (rule ext)
  define r' where "r' = (if \<not> rq \<or> maxAttempts \<le> qr_attempt r
      then (clear_lease (r\<lparr>qr_updatedAt := now\<rparr>))\<lparr>qr_status := Deadletter, qr_deadletterReason := Some reason\<rparr>
      else (clear_lease (r\<lparr>qr_updatedAt := now\<rparr>))\<lparr>qr_status := Pending\<rparr>)"
  have recs: "table_get (qs_records s') m = (if m = cr_messageId c then Some r' else table_get (qs_records s) m)" for m
    using state_equivE(1)[OF eq(2), of m] unfolding t r'_def by (simp add: state_sel table_get_put)
  have infl: "table_get (qs_inflight s') tok = None"
    using state_equivE(2)[OF eq(2), of tok] unfolding t by (simp add: state_sel table_get_del)
  have buckets: "if \<not> rq \<or> maxAttempts \<le> qr_attempt r
        then qr_status r' = Deadletter \<and> qr_deadletterReason r' = Some reason \<and> qs_pending s' = qs_pending s
        else qr_status r' = Pending \<and> qs_pending s' = (qs_pending s)
               (env_priority (qr_envelope r) := qs_pending s (env_priority (qr_envelope r)) @ [cr_messageId c])"
    unfolding pend t r'_def by (simp add: state_sel)
  have "qr_attempt r' = qr_attempt r" "qr_claimToken r' = None" by (simp_all add: r'_def clear_lease_def)
  with recs[of "cr_messageId c"] buckets hs(1,2) have
    "table_get (qs_records s) (cr_messageId c) = Some r \<and> qr_claimToken r = Some tok \<and>
       table_get (qs_records s') (cr_messageId c) = Some r' \<and> qr_attempt r' = qr_attempt r \<and> qr_claimToken r' = None \<and>
       (if \<not> rq \<or> maxAttempts \<le> qr_attempt r
        then qr_status r' = Deadletter \<and> qr_deadletterReason r' = Some reason \<and> qs_pending s' = qs_pending s
        else qr_status r' = Pending \<and> qs_pending s' = (qs_pending s)
               (env_priority (qr_envelope r) := qs_pending s (env_priority (qr_envelope r)) @ [cr_messageId c])) \<and>
       (\<forall>m. m \<noteq> cr_messageId c \<longrightarrow> table_get (qs_records s') m = table_get (qs_records s) m)"
    using recs by simp
  then show ?thesis using eq(1) infl by blast
qed

section \<open>Sweeping\<close>

lemma count_sweep_fold:
  "foldl (count_sweep m) res xs =
     \<lparr>sw_reclaimed = sw_reclaimed res + length (filter (\<lambda>tc. \<not> m \<le> cr_attempt (snd tc)) xs),
      sw_deadlettered = sw_deadlettered res + length (filter (\<lambda>tc. m \<le> cr_attempt (snd tc)) xs),
      sw_expiredClaimTokens = sw_expiredClaimTokens res @ map fst xs\<rparr>"
  by (induction xs arbitrary: res) (simp_all add: count_sweep_def Let_def)

lemma lapsed_live:
  assumes "queue_wf s"
  shows "tok \<in> fst ` set (filter (claim_lapsed now) (qs_inflight s)) \<longleftrightarrow>
     table_get (qs_inflight s) tok \<noteq> None \<and> \<not> claim_live s tok now"
  using table_mem_iff[OF queue_wfD(2)[OF assms], of tok]
  by (auto simp: claim_live_def claim_lapsed_def image_iff split: option.splits)

lemma foldl_lapsed_none:
  "filter (claim_lapsed now) xs = [] \<Longrightarrow> foldl (sweep_one m now) (res, s) xs = (res, s)"
  by (induction xs) (auto simp: sweep_one_def claim_lapsed_def split: prod.splits if_splits)

lemma lapsed_token_live:
  assumes wf: "queue_wf s" and r: "table_get (qs_records s) mid = Some r"
  shows "lapsed_token now (qs_inflight s) r \<longleftrightarrow> (\<exists>tok. qr_claimToken r = Some tok \<and> \<not> claim_live s tok now)"
proof -
  have "table_get (qs_inflight s) tok \<noteq> None" if "qr_claimToken r = Some tok" for tok
  proof -
    have "claimed_by s tok (derived_claim mid r)"
      using queue_wfD(3)[OF wf r] r that by (auto simp: claimed_by_def record_consistent_def)
    then show ?thesis using queue_wfD(6)[OF wf] by (metis option.distinct(1))
  qed
  moreover have "lapsed_token now (qs_inflight s) r \<longleftrightarrow>
      (\<exists>tok. qr_claimToken r = Some tok \<and> tok \<in> fst ` set (filter (claim_lapsed now) (qs_inflight s)))"
    by (auto simp: lapsed_token_def)
  ultimately show ?thesis using lapsed_live[OF wf] by blast
qed

lemma sweep_form:
  assumes wf: "queue_wf s"
  shows "\<exists>s'. sweep_expired_claims m now s =
      (\<lparr>sw_reclaimed = length (filter (\<lambda>tc. \<not> m \<le> cr_attempt (snd tc)) (filter (claim_lapsed now) (qs_inflight s))),
        sw_deadlettered = length (filter (\<lambda>tc. m \<le> cr_attempt (snd tc)) (filter (claim_lapsed now) (qs_inflight s))),
        sw_expiredClaimTokens = map fst (filter (claim_lapsed now) (qs_inflight s))\<rparr>, s',
       filter (claim_lapsed now) (qs_inflight s) \<noteq> []) \<and> queue_wf s' \<and>
    (\<forall>t. table_get (qs_inflight s') t = (if claim_live s t now then table_get (qs_inflight s) t else None)) \<and>
    (\<forall>mid. table_get (qs_records s') mid = map_option (\<lambda>r. case qr_claimToken r of None \<Rightarrow> r
        | Some t \<Rightarrow> if claim_live s t now then r else swept_record m now r) (table_get (qs_records s) mid))"
proof -
  let ?z = "\<lparr>sw_reclaimed = 0, sw_deadlettered = 0, sw_expiredClaimTokens = []\<rparr>"
  obtain res s' where run: "foldl (sweep_one m now) (?z, s) (qs_inflight s) = (res, s')"
    by (cases "foldl (sweep_one m now) (?z, s) (qs_inflight s)")
  have dist: "distinct (map fst (qs_inflight s))" using queue_wfD(2)[OF wf] by (simp add: table_wf_def)
  have mem: "table_get (qs_inflight s) t = Some c" if "(t, c) \<in> set (qs_inflight s)" for t c
    using that queue_wfD(2)[OF wf] by (simp add: table_mem_iff)
  note sf = sweep_fold[OF wf dist mem run]
  have res: "res = \<lparr>sw_reclaimed = length (filter (\<lambda>tc. \<not> m \<le> cr_attempt (snd tc)) (filter (claim_lapsed now) (qs_inflight s))),
        sw_deadlettered = length (filter (\<lambda>tc. m \<le> cr_attempt (snd tc)) (filter (claim_lapsed now) (qs_inflight s))),
        sw_expiredClaimTokens = map fst (filter (claim_lapsed now) (qs_inflight s))\<rparr>"
    using sf by (simp add: count_sweep_fold)
  have infl: "table_get (qs_inflight s') t = (if claim_live s t now then table_get (qs_inflight s) t else None)" for t
    using sf lapsed_live[OF wf, of t now] by (cases "table_get (qs_inflight s) t") (auto simp: claim_live_def)
  have recs: "table_get (qs_records s') mid = map_option (\<lambda>r. case qr_claimToken r of None \<Rightarrow> r
        | Some t \<Rightarrow> if claim_live s t now then r else swept_record m now r) (table_get (qs_records s) mid)" for mid
    using sf lapsed_token_live[OF wf, of mid _ now]
    by (cases "table_get (qs_records s) mid") (auto split: option.splits)
  have wf': "queue_wf s'" using sf by blast
  have "(sw_expiredClaimTokens res \<noteq> []) = (filter (claim_lapsed now) (qs_inflight s) \<noteq> [])"
    unfolding res by simp
  then have "sweep_expired_claims m now s = (res, s', filter (claim_lapsed now) (qs_inflight s) \<noteq> [])"
    by (simp only: sweep_expired_claims_def run prod.case)
  then show ?thesis unfolding res using wf' infl recs by blast
qed

text \<open>
  The sweep is exact: after it, the claim table holds the claims whose lease had not run out, and
  only these; a record in flight under a lapsed lease is dead-lettered with the reason ``lease
  expired'' when its attempts reached \<open>maxAttempts\<close> and pending again otherwise, and every other
  record is as it was. The counts and the tokens it reports are those of the lapsed claims.
\<close>

lemma sweep_is_exact:
  assumes "queue_reachable rows"
    and "with_locked_state (sweep_expired_claims m now) rows = (Inr res, rows')"
  defines "s \<equiv> read_queue_state rows" and "s' \<equiv> read_queue_state rows'"
    and "lapsed \<equiv> filter (\<lambda>(tok, c). cr_leaseUntil c \<le> now) (qs_inflight (read_queue_state rows))"
  shows "(\<forall>tok. table_get (qs_inflight s') tok = (if claim_live s tok now then table_get (qs_inflight s) tok else None)) \<and>
    (\<forall>mid. table_get (qs_records s') mid = map_option (\<lambda>r. case qr_claimToken r of None \<Rightarrow> r
       | Some tok \<Rightarrow> if claim_live s tok now then r
           else if m \<le> qr_attempt r
           then r\<lparr>qr_status := Deadletter, qr_updatedAt := now, qr_deadletterReason := Some ''lease expired'',
                  qr_workerId := None, qr_claimToken := None, qr_leaseUntil := None\<rparr>
           else r\<lparr>qr_status := Pending, qr_updatedAt := now,
                  qr_workerId := None, qr_claimToken := None, qr_leaseUntil := None\<rparr>)
       (table_get (qs_records s) mid)) \<and>
    sw_expiredClaimTokens res = map fst lapsed \<and>
    sw_deadlettered res = length (filter (\<lambda>(_, c). m \<le> cr_attempt c) lapsed) \<and>
    sw_reclaimed res + sw_deadlettered res = length lapsed"
proof -
  have wf: "queue_wf s" using reachable_read(1)[OF assms(1)] by (simp add: s_def)
  have lap: "lapsed = filter (claim_lapsed now) (qs_inflight s)"
    unfolding lapsed_def s_def by (rule filter_cong) (auto simp: claim_lapsed_def)
  have sw: "swept_record m now r = (if m \<le> qr_attempt r
           then r\<lparr>qr_status := Deadletter, qr_updatedAt := now, qr_deadletterReason := Some ''lease expired'',
                  qr_workerId := None, qr_claimToken := None, qr_leaseUntil := None\<rparr>
           else r\<lparr>qr_status := Pending, qr_updatedAt := now,
                  qr_workerId := None, qr_claimToken := None, qr_leaseUntil := None\<rparr>)" for r
    by (simp add: swept_record_def clear_lease_def)
  obtain t where run: "sweep_expired_claims m now s =
      (\<lparr>sw_reclaimed = length (filter (\<lambda>tc. \<not> m \<le> cr_attempt (snd tc)) lapsed),
        sw_deadlettered = length (filter (\<lambda>tc. m \<le> cr_attempt (snd tc)) lapsed),
        sw_expiredClaimTokens = map fst lapsed\<rparr>, t, lapsed \<noteq> [])" and wft: "queue_wf t"
    and infl: "\<And>tok. table_get (qs_inflight t) tok = (if claim_live s tok now then table_get (qs_inflight s) tok else None)"
    and recs: "\<And>mid. table_get (qs_records t) mid = map_option (\<lambda>r. case qr_claimToken r of None \<Rightarrow> r
        | Some tok \<Rightarrow> if claim_live s tok now then r else swept_record m now r) (table_get (qs_records s) mid)"
    using sweep_form[OF wf, of m now] unfolding lap by blast
  have res: "res = fst (sweep_expired_claims m now s)"
    using with_locked_value[where m = "sweep_expired_claims m now" and rows = rows] assms(2) by (simp add: s_def)
  have same: "table_get (qs_records s') = table_get (qs_records t) \<and> table_get (qs_inflight s') = table_get (qs_inflight t)"
  proof (cases "lapsed = []")
    case True
    then have rows': "s' = s" using assms(2) run by (simp add: with_locked_state_def s_def s'_def split: prod.splits)
    have "snd (sweep_expired_claims m now s) = (s, False)"
      using foldl_lapsed_none[of now "qs_inflight s"] True lap by (simp add: sweep_expired_claims_def)
    then have "t = s" using run by simp
    then show ?thesis using rows' by simp
  next
    case False
    then show ?thesis
      using transaction_effect(2)[where m = "sweep_expired_claims m now" and rows = rows, folded s_def, OF _ wft] run assms(2)
      by (simp add: state_equiv_def s'_def)
  qed
  have "length (filter (\<lambda>tc. \<not> m \<le> cr_attempt (snd tc)) lapsed) + length (filter (\<lambda>tc. m \<le> cr_attempt (snd tc)) lapsed)
      = length lapsed" using sum_length_filter_compl[of "\<lambda>tc. m \<le> cr_attempt (snd tc)" lapsed] by simp
  then show ?thesis
    unfolding sw[symmetric] using same infl recs res run by (simp add: case_prod_unfold)
qed

section \<open>Exclusive claims\<close>

text \<open>
  The record of a claimed message as long as the claim stands: in flight, under the token of the
  claim, for its worker, with its count of attempts.
\<close>

definition holds_claim :: "queue_claim \<Rightarrow> queue_state \<Rightarrow> bool" where
  "holds_claim c s \<longleftrightarrow> (\<exists>r. table_get (qs_records s) (qc_messageId c) = Some r \<and> qr_status r = Inflight \<and>
     qr_claimToken r = Some (qc_claimToken c) \<and> qr_workerId r = Some (qc_workerId c) \<and>
     qr_attempt r = qc_attempt c \<and> qr_envelope r = qc_envelope c)"

text \<open>
  The calls that neither settle nor sweep the claim \<open>c\<close>: every \<open>accept\<close>, \<open>claim\<close> and \<open>renew\<close>;
  \<open>ack\<close> and \<open>nack\<close> under another token, or under its own once its lease has run out; \<open>requeue\<close>
  and \<open>deadletter\<close> of other messages; a sweep while its lease runs.
\<close>

inductive leaving_step :: "queue_claim \<Rightarrow> queue_row list \<Rightarrow> queue_row list \<Rightarrow> bool" for c where
  leave_accept: "leaving_step c rows (snd (accept_envelope now e rows))"
| leave_claim: "uuid \<noteq> '''' \<Longrightarrow> table_get (qs_inflight (read_queue_state rows)) uuid = None \<Longrightarrow>
    leaving_step c rows (snd (with_locked_state (claim now uuid worker leaseMs f) rows))"
| leave_renew: "leaving_step c rows (snd (with_locked_state (renew now tok leaseMs) rows))"
| leave_ack: "tok \<noteq> qc_claimToken c \<or> \<not> claim_live (read_queue_state rows) tok now \<Longrightarrow>
    leaving_step c rows (snd (with_locked_state (ack now tok) rows))"
| leave_nack: "tok \<noteq> qc_claimToken c \<or> \<not> claim_live (read_queue_state rows) tok now \<Longrightarrow>
    leaving_step c rows (snd (with_locked_state (nack maxAttempts now tok reason rq) rows))"
| leave_requeue: "mid \<noteq> qc_messageId c \<Longrightarrow>
    leaving_step c rows (snd (with_locked_state (requeue_message now mid) rows))"
| leave_deadletter: "mid \<noteq> qc_messageId c \<Longrightarrow>
    leaving_step c rows (snd (with_locked_state (deadletter now mid reason) rows))"
| leave_sweep: "claim_live (read_queue_state rows) (qc_claimToken c) now \<Longrightarrow>
    leaving_step c rows (snd (with_locked_state (sweep_expired_claims maxAttempts now) rows))"

inductive_cases leaving_stepE: "leaving_step c rows rows'"

lemma leaving_queue_step: "leaving_step c rows rows' \<Longrightarrow> queue_step rows rows'"
  by (erule leaving_stepE) (auto intro: queue_step.intros)

lemma holds_same_record:
  "holds_claim c s \<Longrightarrow> table_get (qs_records t) (qc_messageId c) = table_get (qs_records s) (qc_messageId c) \<Longrightarrow>
   holds_claim c t"
  by (simp add: holds_claim_def)

lemma claimed_not_claimable: "holds_claim c s \<Longrightarrow> \<not> claimable f now (qs_records s) (qc_messageId c)"
  by (auto simp: holds_claim_def claimable_def)

lemma accept_keeps_claim:
  assumes wf: "queue_wf s" and held: "holds_claim c s"
  shows "holds_claim c (fst (snd (accept now e s)))"
proof (rule holds_same_record[OF held])
  let ?act = "filter (active_dedupe (env_dedupe_key e)) (qs_records s)"
  let ?mid = "qc_messageId c"
  obtain r where r: "table_get (qs_records s) ?mid = Some r" "qr_status r = Inflight"
    using held by (auto simp: holds_claim_def)
  have "table_get (qs_records (foldl forget_message s ?act)) ?mid = table_get (qs_records s) ?mid"
    if none: "find (\<lambda>(_, r). qr_status r = Inflight) ?act = None"
  proof -
    have "distinct (map fst ?act)" using queue_wfD(1)[OF wf] by (simp add: table_wf_def distinct_map_filter)
    from forget_fold[OF wf this active_dedupe_pending[OF wf none]]
    have "table_get (qs_records (foldl forget_message s ?act)) ?mid =
        (if ?mid \<in> fst ` set ?act then None else table_get (qs_records s) ?mid)" by blast
    moreover have "?mid \<notin> fst ` set ?act"
      using active_dedupe_pending[OF wf none] r by fastforce
    ultimately show ?thesis by simp
  qed
  then show "table_get (qs_records (fst (snd (accept now e s)))) ?mid = table_get (qs_records s) ?mid"
    using r(1) by (auto simp: accept_def Let_def state_sel table_get_put split: option.splits)
qed

lemma claim_keeps_claim:
  assumes wf: "queue_wf s" and held: "holds_claim c s"
  shows "holds_claim c (fst (snd (claim now uuid worker leaseMs f s)))"
proof (rule holds_same_record[OF held])
  let ?mid = "qc_messageId c"
  have busy: "?mid \<notin> set (qs_pending s p)" for p
    using held wf_pending_get[OF wf] by (fastforce simp: holds_claim_def)
  obtain ms where ms: "distinct ms" "?mid \<notin> set ms"
    and form: "case find (claimable f now (qs_records s)) (concat (map (qs_pending s) priority_order)) of
        None \<Rightarrow> claim now uuid worker leaseMs f s = (None, expire_state now ms s, ms \<noteq> [])
      | Some m \<Rightarrow> (\<exists>r. table_get (qs_records s) m = Some r \<and> m \<notin> set ms \<and>
          claim now uuid worker leaseMs f s =
            (Some \<lparr>qc_claimToken = uuid, qc_messageId = m, qc_workerId = worker,
                   qc_leaseUntil = now + leaseMs, qc_attempt = qr_attempt r + 1, qc_envelope = qr_envelope r\<rparr>,
             leased_state now worker uuid leaseMs m r (expire_state now ms s), True))"
    using claim_wf_form[OF wf, where now = now and f = f and uuid = uuid and worker = worker and leaseMs = leaseMs] busy by blast
  have "m \<noteq> ?mid" if "find (claimable f now (qs_records s)) (concat (map (qs_pending s) priority_order)) = Some m" for m
    using find_SomeD(1)[OF that] claimed_not_claimable[OF held] by blast
  then show "table_get (qs_records (fst (snd (claim now uuid worker leaseMs f s)))) ?mid = table_get (qs_records s) ?mid"
    using form ms
    by (auto simp: leased_state_def expire_state_def expire_fold_get table_get_put split: option.splits)
qed

lemma held_record_other:
  assumes "holds_claim c s" "held_record tok cr s = Some r" "tok \<noteq> qc_claimToken c"
  shows "cr_messageId cr \<noteq> qc_messageId c"
  using assms by (auto simp: holds_claim_def held_record_Some)

lemma renew_keeps_claim:
  "holds_claim c s \<Longrightarrow> holds_claim c (fst (snd (renew now tok leaseMs s)))"
  by (auto simp: renew_def holds_claim_def held_record_Some state_sel table_get_put Let_def split: option.splits)

lemma settle_other_keeps_claim:
  assumes held: "holds_claim c s" and other: "tok \<noteq> qc_claimToken c"
  shows "holds_claim c (fst (snd (ack now tok s)))" "holds_claim c (fst (snd (nack m now tok reason rq s)))"
proof -
  have away: "qc_messageId c \<noteq> cr_messageId cr" if "held_record tok cr s = Some r" for cr r
    using held_record_other[OF held that other] by simp
  have "table_get (qs_records (fst (snd (ack now tok s)))) (qc_messageId c) = table_get (qs_records s) (qc_messageId c)"
    by (auto simp: ack_def state_sel table_get_put Let_def split: option.splits dest: away)
  then show "holds_claim c (fst (snd (ack now tok s)))" by (rule holds_same_record[OF held])
  have "table_get (qs_records (fst (snd (nack m now tok reason rq s)))) (qc_messageId c) =
      table_get (qs_records s) (qc_messageId c)"
    by (auto simp: nack_def state_sel table_get_put Let_def split: option.splits dest: away)
  then show "holds_claim c (fst (snd (nack m now tok reason rq s)))" by (rule holds_same_record[OF held])
qed

lemma move_other_keeps_claim:
  assumes held: "holds_claim c s" and other: "mid \<noteq> qc_messageId c"
  shows "holds_claim c (fst (snd (requeue_message now mid s)))" "holds_claim c (fst (snd (deadletter now mid reason s)))"
proof -
  have rel: "qs_records (release_claim_of r s) = qs_records s" for r
    by (simp add: release_claim_of_def drop_claim_def)
  have "table_get (qs_records (fst (snd (requeue_message now mid s)))) (qc_messageId c) =
      table_get (qs_records s) (qc_messageId c)"
    using other by (auto simp: requeue_message_def push_pending_def put_record_def rel table_get_put Let_def split: option.splits)
  then show "holds_claim c (fst (snd (requeue_message now mid s)))" by (rule holds_same_record[OF held])
  have "table_get (qs_records (fst (snd (deadletter now mid reason s)))) (qc_messageId c) =
      table_get (qs_records s) (qc_messageId c)"
    using other by (auto simp: deadletter_def remove_pending_def put_record_def rel table_get_put Let_def split: option.splits)
  then show "holds_claim c (fst (snd (deadletter now mid reason s)))" by (rule holds_same_record[OF held])
qed

lemma sweep_keeps_claim:
  assumes wf: "queue_wf s" and held: "holds_claim c s" and live: "claim_live s (qc_claimToken c) now"
  shows "holds_claim c (fst (snd (sweep_expired_claims m now s)))"
proof (rule holds_same_record[OF held])
  obtain t where run: "fst (snd (sweep_expired_claims m now s)) = t"
    and recs: "\<And>mid. table_get (qs_records t) mid = map_option (\<lambda>r. case qr_claimToken r of None \<Rightarrow> r
        | Some tok \<Rightarrow> if claim_live s tok now then r else swept_record m now r) (table_get (qs_records s) mid)"
    using sweep_form[OF wf, of m now] by force
  show "table_get (qs_records (fst (snd (sweep_expired_claims m now s)))) (qc_messageId c) =
      table_get (qs_records s) (qc_messageId c)"
    using held live unfolding run recs by (auto simp: holds_claim_def)
qed

text \<open>A transaction whose mutator keeps the claim keeps it on the table.\<close>

lemma locked_keeps_claim:
  assumes wf: "queue_wf (fst (snd (m (read_queue_state rows))))"
    and held: "holds_claim c (read_queue_state rows)" "holds_claim c (fst (snd (m (read_queue_state rows))))"
  shows "holds_claim c (read_queue_state (snd (with_locked_state m rows)))"
proof (cases "snd (with_locked_state m rows) = rows")
  case True
  then show ?thesis using held(1) by simp
next
  case False
  obtain x t d where m: "m (read_queue_state rows) = (x, t, d)" by (cases "m (read_queue_state rows)")
  then have w: "snd (with_locked_state m rows) = write_queue_state t" "queue_state_valid t"
    using False by (auto simp: with_locked_state_def split: if_splits)
  have "state_equiv (read_queue_state (write_queue_state t)) t" using reload(1) wf w(2) by (simp add: m)
  then show ?thesis unfolding w(1) using held(2) by (simp add: m holds_claim_def state_equivE(1))
qed

lemma leaving_step_keeps_claim:
  assumes ok: "table_ok rows" and held: "holds_claim c (read_queue_state rows)" and step: "leaving_step c rows rows'"
  shows "holds_claim c (read_queue_state rows')"
proof -
  have wf: "queue_wf (read_queue_state rows)" by (rule table_ok_read(1)[OF ok])
  show ?thesis
    using step
  proof cases
    case (leave_accept now e)
    then show ?thesis
      using locked_keeps_claim[where m = "accept now e", OF accept_wf[OF wf] held accept_keeps_claim[OF wf held]] held
      by (simp add: accept_envelope_def)
  next
    case (leave_claim uuid now worker leaseMs f)
    then show ?thesis using claim_wf[OF wf] claim_keeps_claim[OF wf held] held by (simp add: locked_keeps_claim)
  next
    case (leave_renew now tok leaseMs)
    then show ?thesis using renew_wf[OF wf] renew_keeps_claim[OF held] held by (simp add: locked_keeps_claim)
  next
    case (leave_ack tok now)
    have "holds_claim c (fst (snd (ack now tok (read_queue_state rows))))"
      using leave_ack(2) settle_other_keeps_claim(1)[OF held] claim_dead(1)[OF wf] held by fastforce
    then show ?thesis unfolding leave_ack(1) by (rule locked_keeps_claim[where m = "ack now tok", OF ack_wf[OF wf] held])
  next
    case (leave_nack tok now maxAttempts reason rq)
    have "holds_claim c (fst (snd (nack maxAttempts now tok reason rq (read_queue_state rows))))"
      using leave_nack(2) settle_other_keeps_claim(2)[OF held] claim_dead(2)[OF wf] held by fastforce
    then show ?thesis unfolding leave_nack(1) by (rule locked_keeps_claim[where m = "nack maxAttempts now tok reason rq", OF nack_wf[OF wf] held])
  next
    case (leave_requeue mid now)
    then show ?thesis using requeue_wf[OF wf] move_other_keeps_claim(1)[OF held] held by (simp add: locked_keeps_claim)
  next
    case (leave_deadletter mid now reason)
    then show ?thesis using deadletter_wf[OF wf] move_other_keeps_claim(2)[OF held] held by (simp add: locked_keeps_claim)
  next
    case (leave_sweep now maxAttempts)
    then show ?thesis using sweep_wf[OF wf] sweep_keeps_claim[OF wf held] held by (simp add: locked_keeps_claim)
  qed
qed

lemma leaving_run_keeps_claim:
  assumes "(leaving_step c)\<^sup>*\<^sup>* rows rows'" "table_ok rows" "holds_claim c (read_queue_state rows)"
  shows "table_ok rows' \<and> holds_claim c (read_queue_state rows')"
  using assms
  by (induction rule: rtranclp_induct) (auto intro: leaving_step_keeps_claim queue_step_ok dest: leaving_queue_step)

text \<open>What a successful claim leaves on the table.\<close>

lemma claim_takes_hold:
  assumes "queue_reachable rows" "uuid \<noteq> ''''"
    and "table_get (qs_inflight (read_queue_state rows)) uuid = None"
    and "with_locked_state (claim now uuid worker leaseMs f) rows = (Inr (Some c), rows')"
  shows "table_ok rows'" "holds_claim c (read_queue_state rows')"
proof -
  let ?s = "read_queue_state rows"
  have wf: "queue_wf ?s" by (rule reachable_read(1)[OF assms(1)])
  have got: "fst (claim now uuid worker leaseMs f ?s) = Some c"
    using with_locked_value[of "claim now uuid worker leaseMs f" rows "Some c"] assms(4) by simp
  obtain m r ms where c: "c = \<lparr>qc_claimToken = uuid, qc_messageId = m, qc_workerId = worker,
        qc_leaseUntil = now + leaseMs, qc_attempt = qr_attempt r + 1, qc_envelope = qr_envelope r\<rparr>"
    and cl: "claim now uuid worker leaseMs f ?s =
      (Some c, leased_state now worker uuid leaseMs m r (expire_state now ms ?s), True)"
    by (cases rule: claim_wfE[OF wf, where now = now and f = f and uuid = uuid and worker = worker and leaseMs = leaseMs])
      (use got in auto)
  let ?t = "leased_state now worker uuid leaseMs m r (expire_state now ms ?s)"
  have wft: "queue_wf ?t" using claim_wf[OF wf assms(3,2), of now worker leaseMs f] cl by simp
  have rows': "rows' = snd (with_locked_state (claim now uuid worker leaseMs f) rows)" using assms(4) by simp
  show "table_ok rows'" unfolding rows'
    by (rule queue_step_ok[OF step_claim[OF assms(2,3)] queue_reachable_ok[OF assms(1)]])
  have "state_equiv (read_queue_state rows') ?t"
    unfolding rows' by (rule transaction_effect(2)[where m = "claim now uuid worker leaseMs f", OF cl wft]) (simp add: assms(4))
  then show "holds_claim c (read_queue_state rows')"
    by (simp add: holds_claim_def state_equivE(1) leased_state_def table_get_put c lease_record_def)
qed

text \<open>
  C4. A claim is exclusive until it is settled or swept. After a claim of a message succeeded, let
  any sequence of calls follow that does not settle or sweep it: messages accepted, other claims
  under fresh tokens, renewals of any token, \<open>ack\<close> and \<open>nack\<close> under other tokens (or late ones under its
  own), \<open>requeue\<close> and \<open>deadletter\<close> of other messages, sweeps while its lease runs. Then the message is
  still in flight, under the token, the worker and the attempt of the claim, and no further claim,
  by anybody, at any time, with any lease and filter, returns it.
\<close>

theorem claim_is_exclusive:
  assumes "queue_reachable rows" "uuid \<noteq> ''''"
    and "table_get (qs_inflight (read_queue_state rows)) uuid = None"
    and "with_locked_state (claim now uuid worker leaseMs f) rows = (Inr (Some c), rows')"
    and "(leaving_step c)\<^sup>*\<^sup>* rows' later"
  shows "holds_claim c (read_queue_state later) \<and>
     (\<forall>c'. fst (with_locked_state (claim now' uuid' worker' leaseMs' f') later) = Inr (Some c') \<longrightarrow>
        qc_messageId c' \<noteq> qc_messageId c)"
proof -
  let ?s = "read_queue_state later"
  note kept = leaving_run_keeps_claim[OF assms(5) claim_takes_hold[OF assms(1-4)]]
  have wf: "queue_wf ?s" by (rule table_ok_read(1)) (use kept in blast)
  have "qc_messageId c' \<noteq> qc_messageId c"
    if got: "fst (with_locked_state (claim now' uuid' worker' leaseMs' f') later) = Inr (Some c')" for c'
  proof -
    have "fst (claim now' uuid' worker' leaseMs' f' ?s) = Some c'" using with_locked_value[OF got] by simp
    then have "claimable f' now' (qs_records ?s) (qc_messageId c')"
      by (cases rule: claim_wfE[OF wf, where now = now' and f = f' and uuid = uuid' and worker = worker' and leaseMs = leaseMs'])
        (auto dest: find_SomeD)
    then show ?thesis using claimed_not_claimable kept by metis
  qed
  then show ?thesis using kept by blast
qed

definition sample_claim_b :: queue_claim where
  "sample_claim_b = \<lparr>qc_claimToken = ''t1'', qc_messageId = ''b'', qc_workerId = ''w1'', qc_leaseUntil = 2500,
     qc_attempt = 1, qc_envelope = sample_urgent\<rparr>"

definition sample_renewed :: "queue_row list" where
  "sample_renewed = snd (with_locked_state (renew 2100 ''t1'' 900) sample_two_claimed)"

definition sample_later :: "queue_row list" where
  "sample_later = snd (with_locked_state (sweep_expired_claims 3 2600) sample_renewed)"

lemma sample_renewed_live: "claim_live (read_queue_state sample_renewed) ''t1'' 2600"
  by code_simp

lemma sample_leaving_run: "(leaving_step sample_claim_b)\<^sup>*\<^sup>* sample_two_claimed sample_later"
proof -
  have "leaving_step sample_claim_b sample_two_claimed sample_renewed"
    unfolding sample_renewed_def by (rule leave_renew)
  moreover have "leaving_step sample_claim_b sample_renewed sample_later"
    unfolding sample_later_def by (rule leave_sweep) (use sample_renewed_live in \<open>simp add: sample_claim_b_def\<close>)
  ultimately show ?thesis by (meson rtranclp.rtrancl_into_rtrancl rtranclp.rtrancl_refl)
qed

lemma sample_second_claim:
  "fst (with_locked_state (claim 2700 ''t2'' ''w2'' 500 None) sample_later) =
     Inr (Some \<lparr>qc_claimToken = ''t2'', qc_messageId = ''a'', qc_workerId = ''w2'', qc_leaseUntil = 3200,
            qc_attempt = 1, qc_envelope = sample_envelope ''a'' Low\<rparr>)"
  by code_simp

lemma sample_two_claimed_run:
  "with_locked_state (claim 2000 ''t1'' ''w1'' 500 None) sample_two = (Inr (Some sample_claim_b), sample_two_claimed)"
  by (simp add: sample_two_claimed_def sample_two_claimed_eval sample_claim_b_def)

theorem claim_is_exclusive_witness:
  "holds_claim sample_claim_b (read_queue_state sample_later) \<and>
   (\<exists>c'. fst (with_locked_state (claim 2700 ''t2'' ''w2'' 500 None) sample_later) = Inr (Some c') \<and>
      qc_messageId c' = ''a'' \<and> qc_messageId c' \<noteq> qc_messageId sample_claim_b)"
  using claim_is_exclusive[OF sample_two_reachable _ _ sample_two_claimed_run sample_leaving_run,
      of 2700 "''t2''" "''w2''" 500 None] sample_second_claim
  by (simp add: sample_two_read)

section \<open>Deduplication\<close>

text \<open>The two outcomes of \<open>accept\<close> for a message with a dedupe key.\<close>

lemma accept_outcome:
  assumes wf: "queue_wf s" and key: "env_dedupe_key e = Some k" "k \<noteq> ''''"
  obtains (refused) "\<not> ar_accepted (fst (accept now e s))" "snd (accept now e s) = (s, False)"
    | (taken) u where "accept now e s = (\<lparr>ar_accepted = True, ar_duplicate = False, ar_messageId = env_id e\<rparr>, u, True)"
      "queue_wf u"
      "\<And>m. table_get (qs_records u) m = (if m = env_id e then Some (fresh_record now e)
         else if m \<in> fst ` set (filter (active_dedupe (Some k)) (qs_records s)) then None else table_get (qs_records s) m)"
      "\<And>mid r. table_get (qs_records s) mid = Some r \<Longrightarrow>
         \<not> (qr_status r = Inflight \<and> env_dedupe_key (qr_envelope r) = Some k)"
proof -
  let ?act = "filter (active_dedupe (Some k)) (qs_records s)"
  let ?t = "foldl forget_message s ?act"
  let ?u = "push_pending (env_priority e) (env_id e) (put_record (env_id e) (fresh_record now e) ?t)"
  show ?thesis
  proof (cases "table_get (qs_records s) (env_id e) = None \<and> \<not> is_expired e now \<and>
      find (\<lambda>(_, r). qr_status r = Inflight) ?act = None")
    case False
    then show ?thesis using key refused by (auto simp: accept_def Let_def split: option.splits)
  next
    case True
    then have acc: "accept now e s = (\<lparr>ar_accepted = True, ar_duplicate = False, ar_messageId = env_id e\<rparr>, ?u, True)"
      using key by (simp add: accept_def Let_def)
    have "distinct (map fst ?act)" using queue_wfD(1)[OF wf] by (simp add: table_wf_def distinct_map_filter)
    from forget_fold[OF wf this] active_dedupe_pending[OF wf] True
    have gone: "table_get (qs_records ?t) m = (if m \<in> fst ` set ?act then None else table_get (qs_records s) m)" for m
      by blast
    show ?thesis
    proof (rule taken[OF acc])
      show "queue_wf ?u" using accept_wf[OF wf, of now e] by (simp add: acc)
      show "table_get (qs_records ?u) m = (if m = env_id e then Some (fresh_record now e)
        else if m \<in> fst ` set ?act then None else table_get (qs_records s) m)" for m
        by (simp add: state_sel table_get_put gone)
      have "\<forall>x \<in> set ?act. \<not> (case x of (_, r) \<Rightarrow> qr_status r = Inflight)"
        using True unfolding find_None_conv by blast
      then show "\<not> (qr_status r = Inflight \<and> env_dedupe_key (qr_envelope r) = Some k)"
        if "table_get (qs_records s) mid = Some r" for mid r
        using table_mem_iff[OF queue_wfD(1)[OF wf]] that by (fastforce simp: active_dedupe_def)
    qed
  qed
qed

text \<open>
  Accepting a message with a dedupe key keeps the key unique among the active messages: if the
  message is accepted, it is the only record with this key that is neither completed nor dead-lettered, and
  every other record is as before; if another one with the key is in flight, the call
  refuses it as a duplicate and writes nothing.
\<close>

lemma accept_keeps_dedupe_key_unique:
  assumes "queue_reachable rows" "env_dedupe_key e = Some k" "k \<noteq> ''''"
    and "accept_envelope now e rows = (Inr res, rows')"
  defines "s \<equiv> read_queue_state rows" and "s' \<equiv> read_queue_state rows'"
  shows "(if ar_accepted res
     then (\<forall>mid r. table_get (qs_records s') mid = Some r \<and> env_dedupe_key (qr_envelope r) = Some k \<and>
             qr_status r \<in> {Pending, Inflight} \<longrightarrow> mid = env_id e \<and> r = fresh_record now e) \<and>
          table_get (qs_records s') (env_id e) = Some (fresh_record now e) \<and>
          (\<forall>mid r. mid \<noteq> env_id e \<longrightarrow> \<not> active_dedupe (Some k) (mid, r) \<longrightarrow>
             table_get (qs_records s) mid = Some r \<longrightarrow> table_get (qs_records s') mid = Some r)
     else rows' = rows) \<and>
     ((\<exists>mid r. table_get (qs_records s) mid = Some r \<and> env_dedupe_key (qr_envelope r) = Some k \<and>
         qr_status r = Inflight) \<longrightarrow> \<not> ar_accepted res)"
proof -
  have wf: "queue_wf s" using reachable_read(1)[OF assms(1)] by (simp add: s_def)
  have run: "with_locked_state (accept now e) rows = (Inr res, rows')"
    using assms(4) by (auto simp: accept_envelope_def split: if_splits)
  have res: "res = fst (accept now e s)"
    using with_locked_value[where m = "accept now e" and rows = rows] run by (simp add: s_def)
  show ?thesis
  proof (cases rule: accept_outcome[OF wf assms(2,3), where now = now])
    case 1
    then show ?thesis using run res by (auto simp: with_locked_state_def s_def split: prod.splits)
  next
    case (2 u)
    have "table_get (qs_records s') m = table_get (qs_records u) m" for m
      using transaction_effect(2)[where m = "accept now e" and rows = rows, folded s_def, OF 2(1,2)] run
        state_equivE(1) by (simp add: s'_def)
    note recs = this[unfolded 2(3)]
    have "mid \<in> fst ` set (filter (active_dedupe (Some k)) (qs_records s)) \<longleftrightarrow> active_dedupe (Some k) (mid, r)"
      if "table_get (qs_records s) mid = Some r" for mid r
      using table_mem_iff[OF queue_wfD(1)[OF wf], of mid] that by (force simp: image_iff)
    then show ?thesis
      using 2(4) by (auto simp: res 2(1) recs active_dedupe_def split: if_splits)
  qed
qed

section \<open>Completed is not final\<close>

text \<open>
  The guards of \<open>requeue\<close> treat a completed message as final (it refuses it), but
  \<open>deadletter\<close> has no such guard: on a completed message it succeeds and turns it into a dead
  letter, after which \<open>requeue\<close> puts it back in its bucket and it is run again.
\<close>

lemma deadletter_reopens_completed:
  assumes "queue_wf s" "table_get (qs_records s) mid = Some r" "qr_status r = Completed"
  shows "fst (requeue_message t0 mid s) = False \<and>
    (let s1 = fst (snd (deadletter t1 mid reason s)); s2 = fst (snd (requeue_message t2 mid s1))
     in fst (deadletter t1 mid reason s) \<and> fst (requeue_message t2 mid s1) \<and>
        mid \<in> set (qs_pending s2 (env_priority (qr_envelope r))))"
proof -
  let ?r1 = "(clear_lease r)\<lparr>qr_status := Deadletter, qr_deadletterReason := Some reason, qr_updatedAt := t1\<rparr>"
  let ?s1 = "move_record mid r ?r1 s"
  have d: "deadletter t1 mid reason s = (True, ?s1, True)" by (rule deadletter_move[OF assms(1,2)])
  have wf1: "queue_wf ?s1" using deadletter_wf[OF assms(1), of t1 mid reason] by (simp add: d)
  have r1: "table_get (qs_records ?s1) mid = Some ?r1" by (simp add: move_record_sel table_get_put)
  have q: "requeue_message t2 mid ?s1 = (True, move_record mid ?r1
      ((clear_lease ?r1)\<lparr>qr_deadletterReason := None, qr_status := Pending, qr_updatedAt := t2\<rparr>) ?s1, True)"
    by (rule requeue_move[OF wf1 r1]) (simp_all add: clear_lease_def)
  have "\<not> fst (requeue_message t0 mid s)" using assms(2,3) by (simp add: requeue_message_def)
  moreover have "mid \<in> set (qs_pending (move_record mid ?r1
      ((clear_lease ?r1)\<lparr>qr_deadletterReason := None, qr_status := Pending, qr_updatedAt := t2\<rparr>) ?s1)
      (env_priority (qr_envelope r)))"
    by (simp add: move_record_sel clear_lease_def)
  ultimately show ?thesis unfolding Let_def d fst_conv snd_conv q by simp
qed

section \<open>The in-memory priority queue\<close>

text \<open>
  The contract of a priority queue that is first-in-first-out inside a priority: \<open>order\<close> is the
  list in which it serves its elements. The client lemma: draining it yields that list.
\<close>

locale fifo_priority_queue =
  fixes enq :: "'a \<Rightarrow> 'p \<Rightarrow> 'q \<Rightarrow> 'q"
    and deq :: "'q \<Rightarrow> 'a option \<times> 'q"
    and first :: "'q \<Rightarrow> 'a option"
    and order :: "'q \<Rightarrow> 'a list"
  assumes deq_head: "fst (deq q) = (case order q of [] \<Rightarrow> None | x # _ \<Rightarrow> Some x)"
    and order_deq: "order (snd (deq q)) = tl (order q)"
    and first_order: "first q = (case order q of [] \<Rightarrow> None | x # _ \<Rightarrow> Some x)"
    and enq_order: "\<exists>xs ys. order q = xs @ ys \<and> order (enq x p q) = xs @ x # ys"
begin

primrec serve :: "nat \<Rightarrow> 'q \<Rightarrow> 'a list" where
  "serve 0 q = []"
| "serve (Suc n) q = (case deq q of (None, _) \<Rightarrow> [] | (Some x, q') \<Rightarrow> x # serve n q')"

lemma serve_order: "serve n q = take n (order q)"
proof (induction n arbitrary: q)
  case 0
  then show ?case by simp
next
  case (Suc n)
  obtain x q' where dq: "deq q = (x, q')" by (cases "deq q")
  then have "order q' = tl (order q)" "x = (case order q of [] \<Rightarrow> None | x # _ \<Rightarrow> Some x)"
    using order_deq[of q] deq_head[of q] by simp_all
  then show ?case using Suc.IH[of q'] by (cases "order q") (simp_all add: dq)
qed

lemma first_is_next: "fst (deq q) = first q"
  by (simp add: deq_head first_order)

lemma enq_served: "x \<in> set (serve (length (order (enq x p q))) (enq x p q))"
  using enq_order[of q x p] by (auto simp: serve_order)

end

definition pq_order :: "'a buckets \<Rightarrow> 'a list" where
  "pq_order q = concat (map q priority_order)"

lemma pq_dequeue_from_order:
  "distinct ps \<Longrightarrow>
   fst (pq_dequeue_from ps q) = (case concat (map q ps) of [] \<Rightarrow> None | x # _ \<Rightarrow> Some x) \<and>
   concat (map (snd (pq_dequeue_from ps q)) ps) = tl (concat (map q ps))"
proof (induction ps)
  case Nil
  then show ?case by simp
next
  case (Cons p ps)
  show ?case
  proof (cases "q p")
    case Nil
    have "snd (pq_dequeue_from ps q) p = q p"
    proof -
      have "p \<notin> set ps" using Cons.prems by simp
      then show ?thesis by (induction ps) (auto split: list.splits)
    qed
    then show ?thesis using Cons Nil by simp
  next
    case (Cons x xs)
    have "(if a = p then xs else q a) = q a" if "a \<in> set ps" for a using Cons.prems that by auto
    then have "map (\<lambda>a. if a = p then xs else q a) ps = map q ps" by simp
    from arg_cong[OF this, of concat] show ?thesis using Cons by simp
  qed
qed

lemma pq_peek_from_order:
  "pq_peek_from ps q = (case concat (map q ps) of [] \<Rightarrow> None | x # _ \<Rightarrow> Some x)"
proof (induction ps)
  case Nil
  then show ?case by simp
next
  case (Cons p ps)
  then show ?case by (cases "q p") simp_all
qed

lemma pq_enqueue_order: "\<exists>xs ys. pq_order q = xs @ ys \<and> pq_order (pq_enqueue x p q) = xs @ x # ys"
proof -
  obtain ps qs where split: "priority_order = ps @ p # qs"
    using priority_order_all[of p] by (meson split_list)
  have "distinct priority_order" by (simp add: priority_order_def)
  then have "p \<notin> set ps" "p \<notin> set qs" unfolding split by auto
  then have "pq_order q = (concat (map q ps) @ q p) @ concat (map q qs)"
    "pq_order (pq_enqueue x p q) = (concat (map q ps) @ q p) @ x # concat (map q qs)"
    by (simp_all add: pq_order_def split pq_enqueue_def)
  then show ?thesis by blast
qed

interpretation pq: fifo_priority_queue pq_enqueue pq_dequeue pq_peek pq_order
proof unfold_locales
  have d: "distinct priority_order" by (simp add: priority_order_def)
  show "fst (pq_dequeue q) = (case pq_order q of [] \<Rightarrow> None | x # _ \<Rightarrow> Some x)" for q :: "'a buckets"
    using pq_dequeue_from_order[OF d, of q] by (simp add: pq_dequeue_def pq_order_def)
  show "pq_order (snd (pq_dequeue q)) = tl (pq_order q)" for q :: "'a buckets"
    using pq_dequeue_from_order[OF d, of q] by (simp add: pq_dequeue_def pq_order_def)
  show "pq_peek q = (case pq_order q of [] \<Rightarrow> None | x # _ \<Rightarrow> Some x)" for q :: "'a buckets"
    by (simp add: pq_peek_def pq_peek_from_order pq_order_def)
  show "\<exists>xs ys. pq_order q = xs @ ys \<and> pq_order (pq_enqueue x p q) = xs @ x # ys" for q x p
    by (rule pq_enqueue_order)
qed

text \<open>
  C37. The in-memory queue serves by priority and in order of arrival inside a priority: \<open>dequeue\<close>
  returns what \<open>peek\<close> shows, the head of critical, high, normal, low taken in this order, and leaves
  the rest; its size is the number of elements it will serve.
\<close>

theorem pq_serves_by_priority_then_fifo:
  "fst (pq_dequeue q) = pq_peek q \<and>
   pq_peek q = (case q Critical @ q High @ q Normal @ q Low of [] \<Rightarrow> None | x # _ \<Rightarrow> Some x) \<and>
   pq_order (snd (pq_dequeue q)) = tl (q Critical @ q High @ q Normal @ q Low) \<and>
   pq_enqueue x p q p = q p @ [x] \<and>
   pq_size q = length (q Critical @ q High @ q Normal @ q Low)"
proof -
  have o: "pq_order q = q Critical @ q High @ q Normal @ q Low"
    by (simp add: pq_order_def priority_order_def)
  show ?thesis
    using pq.first_is_next[of q] pq.first_order[of q] pq.order_deq[of q]
    by (simp add: o pq_enqueue_def pq_size_def priority_order_def)
qed

end
