(* ===== verification/Leases.thy ===== *)
theory Leases
  imports PS_Prelude
begin

text \<open>
  The two lease locks: \<open>src/runtime/leader-lock-manager.ts\<close> (which daemon process leads) and
  \<open>src/runtime/goal-lease-manager.ts\<close> (which worker runs a goal), with the schema of the goal
  lease from \<open>src/runtime/store/runtime-schemas.ts\<close>.

  Every method is one SQLite transaction; a throw inside it rolls it back. The row of the leader
  lock is an option, the goal leases a table keyed by goal. Random tokens, the process id and the
  test whether a process is alive (\<open>process.kill(pid, 0)\<close>) are arguments. Both managers implement
  the interface \<open>lease_lock\<close>, in which exclusion is proved once.
\<close>

section \<open>The interface of a lease lock\<close>

datatype lease_op = Acquire string int | Renew string int | Release string | Reap

fun op_of_owner :: "string \<Rightarrow> lease_op \<Rightarrow> bool" where
  "op_of_owner o1 (Renew o2 _) = (o1 = o2)"
| "op_of_owner o1 (Release o2) = (o1 = o2)"
| "op_of_owner o1 _ = False"

text \<open>
  \<open>lease\<close> is the lease on record with its \<open>owner\<close> and its end \<open>until\<close>; \<open>alive\<close> tells whether
  its holder still counts (a dead leader does not); \<open>fits\<close> is the range the schema allows for a
  new lease; \<open>mine\<close> singles out the calls about this lock, where one store keeps several. A call
  reports whether it succeeded.
\<close>

locale lease_lock =
  fixes lease :: "'st \<Rightarrow> 'l option"
    and owner :: "'l \<Rightarrow> string"
    and until :: "'l \<Rightarrow> int"
    and alive :: "'l \<Rightarrow> bool"
    and inv :: "'st \<Rightarrow> bool"
    and fits :: "int \<Rightarrow> int \<Rightarrow> bool"
    and mine :: "'a \<Rightarrow> bool"
    and exec :: "'a \<Rightarrow> int \<Rightarrow> lease_op \<Rightarrow> 'st \<Rightarrow> bool \<times> 'st"
  assumes exec_inv: "inv st \<Longrightarrow> inv (snd (exec who now op st))"
    and exec_failed: "inv st \<Longrightarrow> \<not> fst (exec who now op st) \<Longrightarrow> snd (exec who now op st) = st"
    and acquire_iff: "inv st \<Longrightarrow> mine who \<Longrightarrow> fst (exec who now (Acquire ow d) st) \<longleftrightarrow>
      fits now d \<and> (case lease st of None \<Rightarrow> True | Some l \<Rightarrow> until l \<le> now \<or> \<not> alive l)"
    and acquired: "inv st \<Longrightarrow> mine who \<Longrightarrow> fst (exec who now (Acquire ow d) st) \<Longrightarrow>
      \<exists>l. lease (snd (exec who now (Acquire ow d) st)) = Some l \<and> owner l = ow \<and> until l = now + d"
    and renewed: "inv st \<Longrightarrow> mine who \<Longrightarrow> fst (exec who now (Renew ow d) st) \<Longrightarrow>
      \<exists>l l'. lease st = Some l \<and> owner l = ow \<and> now < until l \<and>
        lease (snd (exec who now (Renew ow d) st)) = Some l' \<and> owner l' = ow \<and> until l' = now + d"
    and released: "inv st \<Longrightarrow> mine who \<Longrightarrow> fst (exec who now (Release ow) st) \<Longrightarrow>
      (\<exists>l. lease st = Some l \<and> owner l = ow) \<and> lease (snd (exec who now (Release ow) st)) = None"
    and reaped: "inv st \<Longrightarrow> lease st = Some l \<Longrightarrow> now < until l \<Longrightarrow> lease (snd (exec who now Reap st)) = lease st"
    and foreign: "inv st \<Longrightarrow> \<not> mine who \<Longrightarrow> op \<noteq> Reap \<Longrightarrow> lease (snd (exec who now op st)) = lease st"
begin

text \<open>The lease of a live holder survives everything the others do before it ends.\<close>

lemma held_step:
  assumes "inv st" "lease st = Some l" "alive l" "now < until l" "mine who \<longrightarrow> \<not> op_of_owner (owner l) op"
  shows "lease (snd (exec who now op st)) = Some l"
proof (cases "op = Reap \<or> \<not> fst (exec who now op st) \<or> \<not> mine who")
  case True
  then show ?thesis
    using reaped[OF assms(1,2,4), of who] exec_failed[OF assms(1), of who now op]
      foreign[OF assms(1), of who op now] assms(2) by auto
next
  case False
  then have run: "fst (exec who now op st)" "mine who" and "op \<noteq> Reap" by auto
  show ?thesis
  proof (cases op)
    case (Acquire o' d)
    then show ?thesis using acquire_iff[OF assms(1) run(2), of now o' d] run assms(2-4) by simp
  next
    case (Renew o' d)
    then show ?thesis using renewed[OF assms(1) run(2), of now o' d] run assms(2,5) by auto
  next
    case (Release o')
    then show ?thesis using released[OF assms(1) run(2), of now o'] run assms(2,5) by auto
  qed (use \<open>op \<noteq> Reap\<close> in simp)
qed

lemma held_run:
  assumes "inv st" "lease st = Some l" "alive l"
    and "list_all (\<lambda>(who, now, op). now < until l \<and> (mine who \<longrightarrow> \<not> op_of_owner (owner l) op)) ops"
  shows "lease (foldl (\<lambda>st (who, now, op). snd (exec who now op st)) st ops) = Some l"
  using assms
proof (induction ops arbitrary: st)
  case Nil
  then show ?case by simp
next
  case (Cons x ops)
  obtain who now op where x: "x = (who, now, op)" by (cases x)
  have "lease (snd (exec who now op st)) = Some l"
    using Cons.prems x by (intro held_step[OF Cons.prems(1-3)]) simp_all
  moreover have "inv (snd (exec who now op st))" by (rule exec_inv[OF Cons.prems(1)])
  ultimately show ?case using Cons.IH[of "snd (exec who now op st)"] Cons.prems x by simp
qed

text \<open>Whoever acquires next does so after the lease ended, or after the holder died.\<close>

lemma next_holder:
  assumes "inv st" "lease st = Some l" "mine who" "fst (exec who now (Acquire ow' d) st)"
  shows "until l \<le> now \<or> \<not> alive l"
  using acquire_iff[OF assms(1,3), of now ow' d] assms(2,4) by simp

end

section \<open>The leader lock\<close>

record leader_lock_record =
  ll_owner_token :: string
  ll_pid :: int
  ll_acquired_at :: int
  ll_last_renewed_at :: int
  ll_lease_until :: int

definition leader_lock_valid :: "leader_lock_record \<Rightarrow> bool" where
  "leader_lock_valid r \<longleftrightarrow> safe_pos (ll_pid r) \<and> safe_nonneg (ll_acquired_at r) \<and>
     safe_nonneg (ll_last_renewed_at r) \<and> safe_nonneg (ll_lease_until r)"

type_synonym leader_row = "leader_lock_record option"

text \<open>\<open>isProcessPidValue\<close> of \<open>src/base/utils/process-pid.ts\<close>.\<close>

definition is_process_pid :: "int \<Rightarrow> bool" where
  "is_process_pid p = safe_pos p"

definition parse_leader_lock_record :: "leader_lock_record \<Rightarrow> leader_lock_record option" where
  "parse_leader_lock_record r = (if leader_lock_valid r \<and> is_process_pid (ll_pid r) then Some r else None)"

definition read_leader_lock :: "leader_row \<Rightarrow> leader_lock_record option" where
  "read_leader_lock row = (case row of None \<Rightarrow> None | Some r \<Rightarrow> parse_leader_lock_record r)"

definition compute_lease_until :: "int \<Rightarrow> int \<Rightarrow> int result" where
  "compute_lease_until now leaseMs = (if safe_nonneg (now + leaseMs) then Inr (now + leaseMs) else Inl SchemaError)"

definition build_leader_record :: "int \<Rightarrow> string \<Rightarrow> int \<Rightarrow> int \<Rightarrow> leader_lock_record result" where
  "build_leader_record pid owner leaseMs now = result_bind (compute_lease_until now leaseMs) (\<lambda>until.
     Inr \<lparr>ll_owner_token = owner, ll_pid = pid, ll_acquired_at = now, ll_last_renewed_at = now,
          ll_lease_until = until\<rparr>)"

text \<open>The checks of \<open>parseLeaseNow\<close> and \<open>parseLeaseMs\<close> come before the transaction.\<close>

definition leader_acquire ::
  "(int \<Rightarrow> bool) \<Rightarrow> int \<Rightarrow> int \<Rightarrow> int \<Rightarrow> string \<Rightarrow> leader_row \<Rightarrow> leader_lock_record option result \<times> leader_row" where
  "leader_acquire alive pid now leaseMs owner row =
     (if \<not> safe_nonneg now then (Inl SchemaError, row)
      else if \<not> safe_pos leaseMs then (Inl SchemaError, row)
      else (let current = read_leader_lock row
            in if (case current of None \<Rightarrow> False | Some c \<Rightarrow> ll_lease_until c > now \<and> alive (ll_pid c))
               then (Inr None, row)
               else (case build_leader_record pid owner leaseMs now of
                       Inl e \<Rightarrow> (Inl e, row)
                     | Inr r \<Rightarrow> (Inr (Some r), Some r))))"

definition leader_renew ::
  "int \<Rightarrow> int \<Rightarrow> string \<Rightarrow> leader_row \<Rightarrow> leader_lock_record option result \<times> leader_row" where
  "leader_renew now leaseMs owner row =
     (if \<not> safe_nonneg now then (Inl SchemaError, row)
      else if \<not> safe_pos leaseMs then (Inl SchemaError, row)
      else (case read_leader_lock row of
              None \<Rightarrow> (Inr None, row)
            | Some c \<Rightarrow>
                if ll_owner_token c \<noteq> owner \<or> ll_lease_until c \<le> now then (Inr None, row)
                else (case compute_lease_until now leaseMs of
                        Inl e \<Rightarrow> (Inl e, row)
                      | Inr until \<Rightarrow>
                          (let r = c\<lparr>ll_last_renewed_at := now, ll_lease_until := until\<rparr>
                           in (Inr (Some r), Some r)))))"

definition leader_release :: "string \<Rightarrow> leader_row \<Rightarrow> bool \<times> leader_row" where
  "leader_release owner row =
     (case read_leader_lock row of
        None \<Rightarrow> (False, row)
      | Some c \<Rightarrow> if ll_owner_token c \<noteq> owner then (False, row) else (True, None))"

definition leader_reap_stale :: "int \<Rightarrow> leader_row \<Rightarrow> leader_lock_record option \<times> leader_row" where
  "leader_reap_stale now row =
     (case read_leader_lock row of
        None \<Rightarrow> (None, row)
      | Some c \<Rightarrow> if ll_lease_until c > now then (None, row) else (Some c, None))"

definition leader_import_legacy :: "leader_lock_record \<Rightarrow> leader_row \<Rightarrow> leader_lock_record result \<times> leader_row" where
  "leader_import_legacy r row = (if leader_lock_valid r then (Inr r, Some r) else (Inl SchemaError, row))"

text \<open>
  The methods as one operation of the interface. The actor is a process; Node gives it a positive
  process id.
\<close>

typedef process_id = "{p :: int. safe_pos p}"
  by (rule exI[of _ 1]) (simp add: safe_pos_def max_safe_integer_def)

fun leader_exec :: "(int \<Rightarrow> bool) \<Rightarrow> process_id \<Rightarrow> int \<Rightarrow> lease_op \<Rightarrow> leader_row \<Rightarrow> bool \<times> leader_row" where
  "leader_exec alive p now (Acquire ow d) row =
     (case leader_acquire alive (Rep_process_id p) now d ow row of
        (Inr (Some r), row') \<Rightarrow> (True, row') | (_, row') \<Rightarrow> (False, row'))"
| "leader_exec alive p now (Renew ow d) row =
     (case leader_renew now d ow row of (Inr (Some r), row') \<Rightarrow> (True, row') | (_, row') \<Rightarrow> (False, row'))"
| "leader_exec alive p now (Release ow) row = leader_release ow row"
| "leader_exec alive p now Reap row =
     (case leader_reap_stale now row of (res, row') \<Rightarrow> (res \<noteq> None, row'))"

definition lease_fits :: "int \<Rightarrow> int \<Rightarrow> bool" where
  "lease_fits now d \<longleftrightarrow> safe_nonneg now \<and> safe_pos d \<and> safe_nonneg (now + d)"

lemmas leader_defs = leader_acquire_def leader_renew_def leader_release_def leader_reap_stale_def
  build_leader_record_def compute_lease_until_def lease_fits_def Let_def

text \<open>A row the manager wrote parses; the process id of the daemon is a positive safe integer.\<close>

lemma read_own_row:
  "safe_pos (ll_pid r) \<Longrightarrow> safe_nonneg (ll_acquired_at r) \<Longrightarrow> safe_nonneg (ll_last_renewed_at r) \<Longrightarrow>
   safe_nonneg (ll_lease_until r) \<Longrightarrow> read_leader_lock (Some r) = Some r"
  by (simp add: read_leader_lock_def parse_leader_lock_record_def leader_lock_valid_def is_process_pid_def)

lemma read_leader_valid:
  "read_leader_lock row = Some c \<Longrightarrow> row = Some c \<and> leader_lock_valid c"
  by (auto simp: read_leader_lock_def parse_leader_lock_record_def split: option.splits if_splits)

lemma read_leader_None [simp]: "read_leader_lock None = None"
  by (simp add: read_leader_lock_def)

interpretation leader: lease_lock read_leader_lock ll_owner_token ll_lease_until "\<lambda>l. alive (ll_pid l)"
  "\<lambda>_. True" lease_fits "\<lambda>_. True" "leader_exec alive"
  for alive
proof unfold_locales
  fix st who now op
  show "\<not> fst (leader_exec alive who now op st) \<Longrightarrow> snd (leader_exec alive who now op st) = st"
    by (cases op) (auto simp: leader_defs split: option.splits sum.splits if_splits)
next
  fix st :: leader_row and who now ow d
  have pid: "safe_pos (Rep_process_id who)" using Rep_process_id[of who] by simp
  show "fst (leader_exec alive who now (Acquire ow d) st) \<longleftrightarrow> lease_fits now d \<and>
      (case read_leader_lock st of None \<Rightarrow> True | Some l \<Rightarrow> ll_lease_until l \<le> now \<or> \<not> alive (ll_pid l))"
    by (cases "read_leader_lock st") (auto simp: leader_defs split: if_splits)
  show "\<exists>l. read_leader_lock (snd (leader_exec alive who now (Acquire ow d) st)) = Some l \<and>
      ll_owner_token l = ow \<and> ll_lease_until l = now + d"
    if "fst (leader_exec alive who now (Acquire ow d) st)"
    using that pid by (auto simp: leader_defs read_own_row split: option.splits if_splits)
  show "\<exists>l l'. read_leader_lock st = Some l \<and> ll_owner_token l = ow \<and> now < ll_lease_until l \<and>
      read_leader_lock (snd (leader_exec alive who now (Renew ow d) st)) = Some l' \<and>
      ll_owner_token l' = ow \<and> ll_lease_until l' = now + d"
    if "fst (leader_exec alive who now (Renew ow d) st)"
    using that read_leader_valid[of st]
    by (auto simp: leader_defs read_own_row leader_lock_valid_def split: option.splits if_splits)
  show "(\<exists>l. read_leader_lock st = Some l \<and> ll_owner_token l = ow) \<and>
      read_leader_lock (snd (leader_exec alive who now (Release ow) st)) = None"
    if "fst (leader_exec alive who now (Release ow) st)"
    using that by (auto simp: leader_defs split: option.splits if_splits)
  show "read_leader_lock (snd (leader_exec alive who now Reap st)) = read_leader_lock st"
    if "read_leader_lock st = Some l" "now < ll_lease_until l" for l
    using that by (simp add: leader_defs)
qed simp_all

section \<open>Goal leases\<close>

record goal_lease_record =
  gl_goal_id :: string
  gl_owner_token :: string
  gl_attempt_id :: string
  gl_worker_id :: string
  gl_lease_until :: int
  gl_acquired_at :: int
  gl_last_renewed_at :: int

definition goal_lease_valid :: "goal_lease_record \<Rightarrow> bool" where
  "goal_lease_valid r \<longleftrightarrow> safe_nonneg (gl_lease_until r) \<and> safe_nonneg (gl_acquired_at r) \<and>
     safe_nonneg (gl_last_renewed_at r)"

record goal_lease_options =
  glo_workerId :: string
  glo_ownerToken :: "string option"
  glo_attemptId :: "string option"
  glo_leaseMs :: "int option"

type_synonym goal_leases = "(string, goal_lease_record) table"

definition parse_goal_lease :: "goal_lease_record \<Rightarrow> goal_lease_record result" where
  "parse_goal_lease r = (if goal_lease_valid r then Inr r else Inl SchemaError)"

definition read_goal_lease :: "goal_leases \<Rightarrow> string \<Rightarrow> goal_lease_record option result" where
  "read_goal_lease t g = (case table_get t g of
     None \<Rightarrow> Inr None
   | Some r \<Rightarrow> result_bind (parse_goal_lease r) (\<lambda>p. Inr (Some p)))"

definition upsert_goal_lease :: "goal_lease_record \<Rightarrow> goal_leases \<Rightarrow> goal_leases" where
  "upsert_goal_lease r t = table_put (gl_goal_id r) r t"

text \<open>\<open>uuid1\<close> and \<open>uuid2\<close> are the two calls of \<open>randomUUID\<close>.\<close>

definition build_goal_lease ::
  "int \<Rightarrow> string \<Rightarrow> string \<Rightarrow> string \<Rightarrow> goal_lease_options \<Rightarrow> int \<Rightarrow> goal_lease_record result" where
  "build_goal_lease defaultMs uuid1 uuid2 g opts now =
     (let leaseMs = nullish (glo_leaseMs opts) defaultMs
      in parse_goal_lease
           \<lparr>gl_goal_id = g, gl_owner_token = nullish (glo_ownerToken opts) uuid1,
            gl_attempt_id = nullish (glo_attemptId opts) uuid2, gl_worker_id = glo_workerId opts,
            gl_lease_until = now + leaseMs, gl_acquired_at = now, gl_last_renewed_at = now\<rparr>)"

definition goal_acquire ::
  "int \<Rightarrow> string \<Rightarrow> string \<Rightarrow> int \<Rightarrow> string \<Rightarrow> goal_lease_options \<Rightarrow> goal_leases \<Rightarrow>
   goal_lease_record option result \<times> goal_leases" where
  "goal_acquire defaultMs uuid1 uuid2 now g opts t =
     (case read_goal_lease t g of
        Inl e \<Rightarrow> (Inl e, t)
      | Inr current \<Rightarrow>
          if (case current of None \<Rightarrow> False | Some c \<Rightarrow> gl_lease_until c > now) then (Inr None, t)
          else (case build_goal_lease defaultMs uuid1 uuid2 g opts now of
                  Inl e \<Rightarrow> (Inl e, t)
                | Inr r \<Rightarrow> (Inr (Some r), upsert_goal_lease r t)))"

definition goal_renew ::
  "int \<Rightarrow> int \<Rightarrow> int option \<Rightarrow> string \<Rightarrow> string \<Rightarrow> goal_leases \<Rightarrow> goal_lease_record option result \<times> goal_leases" where
  "goal_renew defaultMs now leaseMs g owner t =
     (case read_goal_lease t g of
        Inl e \<Rightarrow> (Inl e, t)
      | Inr None \<Rightarrow> (Inr None, t)
      | Inr (Some c) \<Rightarrow>
          if gl_owner_token c \<noteq> owner \<or> gl_lease_until c \<le> now then (Inr None, t)
          else (case parse_goal_lease (c\<lparr>gl_lease_until := now + nullish leaseMs defaultMs, gl_last_renewed_at := now\<rparr>) of
                  Inl e \<Rightarrow> (Inl e, t)
                | Inr r \<Rightarrow> (Inr (Some r), upsert_goal_lease r t)))"

definition goal_release :: "string \<Rightarrow> string \<Rightarrow> goal_leases \<Rightarrow> bool result \<times> goal_leases" where
  "goal_release g owner t =
     (case read_goal_lease t g of
        Inl e \<Rightarrow> (Inl e, t)
      | Inr None \<Rightarrow> (Inr False, t)
      | Inr (Some c) \<Rightarrow> if gl_owner_token c \<noteq> owner then (Inr False, t) else (Inr True, table_del g t))"

definition parse_all :: "('a \<Rightarrow> 'b result) \<Rightarrow> 'a list \<Rightarrow> 'b list result" where
  "parse_all f xs = foldr (\<lambda>x acc. result_bind (f x) (\<lambda>y. result_bind acc (\<lambda>ys. Inr (y # ys)))) xs (Inr [])"

definition goal_reap_stale :: "int \<Rightarrow> goal_leases \<Rightarrow> goal_lease_record list result \<times> goal_leases" where
  "goal_reap_stale now t =
     (let stale = sort_key (\<lambda>(g, r). (gl_lease_until r, g)) (filter (\<lambda>(_, r). gl_lease_until r \<le> now) t)
      in case parse_all (\<lambda>(_, r). parse_goal_lease r) stale of
           Inl e \<Rightarrow> (Inl e, t)
         | Inr removed \<Rightarrow> (Inr removed, filter (\<lambda>(_, r). \<not> gl_lease_until r \<le> now) t))"

definition goal_import_legacy :: "goal_lease_record \<Rightarrow> goal_leases \<Rightarrow> goal_lease_record result \<times> goal_leases" where
  "goal_import_legacy r t = (case parse_goal_lease r of
     Inl e \<Rightarrow> (Inl e, t) | Inr p \<Rightarrow> (Inr p, upsert_goal_lease p t))"

text \<open>What the table holds: one valid record per goal, under its goal.\<close>

definition goal_leases_ok :: "goal_leases \<Rightarrow> bool" where
  "goal_leases_ok t \<longleftrightarrow> table_wf t \<and> list_all (\<lambda>(g, r). goal_lease_valid r \<and> gl_goal_id r = g) t"


lemma goal_leases_get:
  "goal_leases_ok t \<Longrightarrow> table_get t g = Some r \<Longrightarrow> goal_lease_valid r \<and> gl_goal_id r = g"
  by (auto simp: goal_leases_ok_def list_all_iff dest: map_of_SomeD)

lemma goal_leases_read: "goal_leases_ok t \<Longrightarrow> read_goal_lease t g = Inr (table_get t g)"
  by (auto simp: read_goal_lease_def parse_goal_lease_def dest: goal_leases_get split: option.splits)

lemma goal_leases_put:
  assumes "goal_leases_ok t" "goal_lease_valid r"
  shows "goal_leases_ok (upsert_goal_lease r t)"
proof -
  have "set (table_put k v t) \<subseteq> insert (k, v) (set t)" for k v
    by (induction t) auto
  then show ?thesis
    using assms by (fastforce simp: goal_leases_ok_def upsert_goal_lease_def list_all_iff)
qed

lemma goal_leases_del: "goal_leases_ok t \<Longrightarrow> goal_leases_ok (table_del g t)"
  by (auto simp: goal_leases_ok_def list_all_iff AList.delete_eq)

lemma goal_leases_filter: "goal_leases_ok t \<Longrightarrow> goal_leases_ok (filter P t)"
  by (auto simp: goal_leases_ok_def list_all_iff)

lemma parse_all_ok: "(\<And>x. x \<in> set xs \<Longrightarrow> f x = Inr (g x)) \<Longrightarrow> parse_all f xs = Inr (map g xs)"
  by (induction xs) (simp_all add: parse_all_def)

lemma goal_reap_ok:
  assumes "goal_leases_ok t"
  shows "goal_reap_stale now t =
    (Inr (map snd (sort_key (\<lambda>(g, r). (gl_lease_until r, g)) (filter (\<lambda>(_, r). gl_lease_until r \<le> now) t))),
     filter (\<lambda>(_, r). \<not> gl_lease_until r \<le> now) t)"
proof -
  have "parse_all (\<lambda>(_, r). parse_goal_lease r)
      (sort_key (\<lambda>(g, r). (gl_lease_until r, g)) (filter (\<lambda>(_, r). gl_lease_until r \<le> now) t))
    = Inr (map snd (sort_key (\<lambda>(g, r). (gl_lease_until r, g)) (filter (\<lambda>(_, r). gl_lease_until r \<le> now) t)))"
    using assms by (intro parse_all_ok) (auto simp: goal_leases_ok_def list_all_iff parse_goal_lease_def)
  then show ?thesis by (simp add: goal_reap_stale_def Let_def)
qed

text \<open>The actor names the goal, the worker and the attempt of a call.\<close>

fun goal_exec :: "string \<times> string \<times> string \<Rightarrow> int \<Rightarrow> lease_op \<Rightarrow> goal_leases \<Rightarrow> bool \<times> goal_leases" where
  "goal_exec (g, worker, attempt) now (Acquire ow d) t =
     (case goal_acquire 0 '''' '''' now g
             \<lparr>glo_workerId = worker, glo_ownerToken = Some ow, glo_attemptId = Some attempt, glo_leaseMs = Some d\<rparr> t of
        (Inr (Some r), t') \<Rightarrow> (True, t') | (_, t') \<Rightarrow> (False, t'))"
| "goal_exec (g, worker, attempt) now (Renew ow d) t =
     (case goal_renew 0 now (Some d) g ow t of (Inr (Some r), t') \<Rightarrow> (True, t') | (_, t') \<Rightarrow> (False, t'))"
| "goal_exec (g, worker, attempt) now (Release ow) t =
     (case goal_release g ow t of (Inr True, t') \<Rightarrow> (True, t') | (_, t') \<Rightarrow> (False, t'))"
| "goal_exec (g, worker, attempt) now Reap t =
     (case goal_reap_stale now t of (res, t') \<Rightarrow> (t' \<noteq> t, t'))"

definition goal_fits :: "int \<Rightarrow> int \<Rightarrow> bool" where
  "goal_fits now d \<longleftrightarrow> safe_nonneg now \<and> safe_nonneg (now + d)"

lemmas goal_defs = goal_acquire_def goal_renew_def goal_release_def build_goal_lease_def parse_goal_lease_def
  goal_fits_def goal_lease_valid_def Let_def

interpretation goal: lease_lock "\<lambda>t. table_get t g" gl_owner_token gl_lease_until "\<lambda>_. True"
  goal_leases_ok goal_fits "\<lambda>(g', _, _). g' = g" goal_exec
  for g
proof unfold_locales
  fix st :: goal_leases and who :: "string \<times> string \<times> string" and now op
  assume ok: "goal_leases_ok st"
  obtain g' w a where who: "who = (g', w, a)" by (cases who)
  show "goal_leases_ok (snd (goal_exec who now op st))"
    by (cases op)
      (use ok in \<open>auto simp: who goal_acquire_def goal_renew_def goal_release_def build_goal_lease_def parse_goal_lease_def
        Let_def goal_leases_read goal_reap_ok intro: goal_leases_put goal_leases_del goal_leases_filter
        split: option.splits if_splits\<close>)
  show "snd (goal_exec who now op st) = st" if "\<not> fst (goal_exec who now op st)"
    using that by (cases op)
      (use ok in \<open>auto simp: who goal_defs goal_leases_read split: option.splits if_splits prod.splits\<close>)
  show "table_get (snd (goal_exec who now op st)) g = table_get st g"
    if "\<not> (case who of (g', _, _) \<Rightarrow> g' = g)" "op \<noteq> Reap"
    using that by (cases op)
      (use ok in \<open>auto simp: who goal_defs goal_leases_read upsert_goal_lease_def table_get_put table_get_del
        dest: goal_leases_get split: option.splits if_splits\<close>)
next
  fix st :: goal_leases and who :: "string \<times> string \<times> string" and now ow d
  assume ok: "goal_leases_ok st" and mine: "case who of (g', _, _) \<Rightarrow> g' = g"
  obtain w a where who: "who = (g, w, a)" using mine by (cases who) auto
  show "fst (goal_exec who now (Acquire ow d) st) \<longleftrightarrow> goal_fits now d \<and>
      (case table_get st g of None \<Rightarrow> True | Some l \<Rightarrow> gl_lease_until l \<le> now \<or> \<not> True)"
    using ok by (cases "table_get st g") (auto simp: who goal_defs goal_leases_read)
  show "\<exists>l. table_get (snd (goal_exec who now (Acquire ow d) st)) g = Some l \<and> gl_owner_token l = ow \<and> gl_lease_until l = now + d"
    if "fst (goal_exec who now (Acquire ow d) st)"
    using that ok by (auto simp: who goal_defs goal_leases_read upsert_goal_lease_def table_get_put split: option.splits if_splits)
  show "\<exists>l l'. table_get st g = Some l \<and> gl_owner_token l = ow \<and> now < gl_lease_until l \<and>
      table_get (snd (goal_exec who now (Renew ow d) st)) g = Some l' \<and> gl_owner_token l' = ow \<and> gl_lease_until l' = now + d"
    if "fst (goal_exec who now (Renew ow d) st)"
    using that ok goal_leases_get[OF ok, of g]
    by (auto simp: who goal_defs goal_leases_read upsert_goal_lease_def table_get_put split: option.splits if_splits)
  show "(\<exists>l. table_get st g = Some l \<and> gl_owner_token l = ow) \<and> table_get (snd (goal_exec who now (Release ow) st)) g = None"
    if "fst (goal_exec who now (Release ow) st)"
    using that ok by (auto simp: who goal_defs goal_leases_read table_get_del split: option.splits if_splits)
next
  fix st :: goal_leases and l now and who :: "string \<times> string \<times> string"
  assume ok: "goal_leases_ok st" and l: "table_get st g = Some l" "now < gl_lease_until l"
  have wf: "table_wf st" using ok by (simp add: goal_leases_ok_def)
  show "table_get (snd (goal_exec who now Reap st)) g = table_get st g"
    using l by (cases who) (simp add: goal_reap_ok[OF ok] table_get_filter[OF wf])
qed

section \<open>Properties\<close>

text \<open>
  C19. Leadership is exclusive: while the leader's lease has not ended and its process is alive, no
  sequence of acquire, renew, release and reap calls by other owners, from any processes, changes
  the lock record.
\<close>

theorem leader_lease_excludes:
  assumes "read_leader_lock row = Some l" "alive (ll_pid l)"
    and "list_all (\<lambda>(who, now, op). now < ll_lease_until l \<and> \<not> op_of_owner (ll_owner_token l) op) ops"
  shows "read_leader_lock (foldl (\<lambda>st (who, now, op). snd (leader_exec alive who now op st)) row ops) = Some l"
  using leader.held_run[of row l alive ops] assms by simp

definition sample_leader :: leader_lock_record where
  "sample_leader = \<lparr>ll_owner_token = ''a'', ll_pid = 7, ll_acquired_at = 100, ll_last_renewed_at = 100,
     ll_lease_until = 30100\<rparr>"

lemma sample_leader_read: "read_leader_lock (Some sample_leader) = Some sample_leader"
  by (simp add: sample_leader_def read_own_row safe_pos_def safe_nonneg_def max_safe_integer_def)

theorem leader_lease_excludes_witness:
  "read_leader_lock (snd (leader_exec (\<lambda>p. p = 7) (Abs_process_id 9) 30099 (Acquire ''b'' 30000)
      (Some sample_leader))) = Some sample_leader"
  using leader_lease_excludes[OF sample_leader_read, of "\<lambda>p. p = 7"
      "[(Abs_process_id 9, 30099, Acquire ''b'' 30000)]"]
  by (simp add: sample_leader_def)

text \<open>
  The leader lock is free exactly when it should be: \<open>acquire\<close> with arguments in range
  succeeds if and only if there is no readable lock record, or its lease has ended, or the process
  that holds it is gone; it then records the caller with a lease from now on. With arguments out
  of range it throws, and in every case that does not succeed the record is untouched.
\<close>

lemma leader_acquire_exact:
  "leader_acquire alive pid now leaseMs ow row =
     (if \<not> lease_fits now leaseMs then
        (if safe_nonneg now \<and> safe_pos leaseMs \<and>
            (\<exists>c. read_leader_lock row = Some c \<and> now < ll_lease_until c \<and> alive (ll_pid c))
         then (Inr None, row) else (Inl SchemaError, row))
      else if (\<exists>c. read_leader_lock row = Some c \<and> now < ll_lease_until c \<and> alive (ll_pid c))
      then (Inr None, row)
      else (let r = \<lparr>ll_owner_token = ow, ll_pid = pid, ll_acquired_at = now, ll_last_renewed_at = now,
                     ll_lease_until = now + leaseMs\<rparr>
            in (Inr (Some r), Some r)))"
  by (cases "read_leader_lock row") (auto simp: leader_defs)

text \<open>
  A goal runs under one worker: while a goal's lease has not ended, no sequence of calls (on any
  goals, by any workers, the reaper included) changes its lease, except a renewal or a release
  that presents the owner token of the lease.
\<close>

lemma goal_lease_excludes:
  assumes "goal_leases_ok t" "table_get t g = Some l"
    and "list_all (\<lambda>((g', worker, attempt), now, op).
           now < gl_lease_until l \<and> (g' = g \<longrightarrow> \<not> op_of_owner (gl_owner_token l) op)) ops"
  shows "table_get (foldl (\<lambda>st (who, now, op). snd (goal_exec who now op st)) t ops) g = Some l"
proof (rule goal.held_run[OF assms(1,2)])
  show "list_all (\<lambda>(who, now, op). now < gl_lease_until l \<and>
      ((case who of (g', _, _) \<Rightarrow> g' = g) \<longrightarrow> \<not> op_of_owner (gl_owner_token l) op)) ops"
    using assms(3) by (auto simp: list_all_iff)
qed simp

definition sample_goal_lease :: goal_lease_record where
  "sample_goal_lease = \<lparr>gl_goal_id = ''g1'', gl_owner_token = ''o1'', gl_attempt_id = ''a1'', gl_worker_id = ''w1'',
     gl_lease_until = 500, gl_acquired_at = 100, gl_last_renewed_at = 100\<rparr>"

end
