(* ===== verification/Guardrails.thy ===== *)
theory Guardrails
  imports PS_Prelude
begin

text \<open>
  The guardrails of the automation providers: \<open>src/runtime/guardrails/circuit-breaker.ts\<close>,
  \<open>backpressure-controller.ts\<close>, \<open>backpressure-limits.ts\<close> and \<open>guardrail-store.ts\<close>, with the
  schemas of \<open>src/runtime/store/runtime-schemas.ts\<close>.

  The breakers are a table keyed by \<open>provider::service\<close>; the back-pressure snapshot is one row.
  A method of the circuit breaker reads and writes in two transactions; its model does one after
  the other, and \<open>failure_record\<close> is the part between them, so that an interleaving can be
  stated. A method of the back-pressure controller is one transaction. \<open>now\<close> is the clock.
\<close>

section \<open>Circuit breaker\<close>

datatype breaker_state = Closed | Open | Half_open | Paused

datatype failure_code = Auth_required | Auth_expired | Permission_denied | Provider_unavailable
  | Rate_limited | Site_blocked | Navigation_failed | Verification_failed | Unknown_automation_error

fun failure_code_name :: "failure_code \<Rightarrow> string" where
  "failure_code_name Auth_required = ''auth_required''"
| "failure_code_name Auth_expired = ''auth_expired''"
| "failure_code_name Permission_denied = ''permission_denied''"
| "failure_code_name Provider_unavailable = ''provider_unavailable''"
| "failure_code_name Rate_limited = ''rate_limited''"
| "failure_code_name Site_blocked = ''site_blocked''"
| "failure_code_name Navigation_failed = ''navigation_failed''"
| "failure_code_name Verification_failed = ''verification_failed''"
| "failure_code_name Unknown_automation_error = ''unknown_automation_error''"

record breaker_record =
  br_key :: string
  br_provider_id :: string
  br_service_key :: string
  br_state :: breaker_state
  br_failure_count :: int
  br_last_failure_code :: "string option"
  br_last_failure_message :: "string option"
  br_last_failure_at :: "timestamp option"
  br_opened_at :: "timestamp option"
  br_cooldown_until :: "timestamp option"
  br_updated_at :: timestamp

definition breaker_valid :: "breaker_record \<Rightarrow> bool" where
  "breaker_valid r \<longleftrightarrow> safe_nonneg (br_failure_count r) \<and>
     opt_all datetime_valid (br_last_failure_at r) \<and> opt_all datetime_valid (br_opened_at r) \<and>
     opt_all datetime_valid (br_cooldown_until r) \<and> datetime_valid (br_updated_at r)"

record breaker_policy =
  bp_failureThreshold :: int
  bp_cooldownMs :: int

record breaker_policies =
  bps_default :: breaker_policy
  bps_byFailureCode :: "failure_code \<Rightarrow> breaker_policy option"

definition default_policies :: breaker_policies where
  "default_policies =
     \<lparr>bps_default = \<lparr>bp_failureThreshold = 3, bp_cooldownMs = 5 * 60000\<rparr>,
      bps_byFailureCode = Map.empty
        (Rate_limited \<mapsto> \<lparr>bp_failureThreshold = 2, bp_cooldownMs = 15 * 60000\<rparr>,
         Site_blocked \<mapsto> \<lparr>bp_failureThreshold = 2, bp_cooldownMs = 60 * 60000\<rparr>,
         Provider_unavailable \<mapsto> \<lparr>bp_failureThreshold = 2, bp_cooldownMs = 5 * 60000\<rparr>)\<rparr>"

text \<open>The reason texts, with the value the second one prints.\<close>

datatype breaker_reason = Manually_paused | Open_until "timestamp option"

record breaker_decision =
  bd_allowed :: bool
  bd_state :: breaker_state
  bd_reason :: "breaker_reason option"

definition breaker_key :: "string \<Rightarrow> string \<Rightarrow> string" where
  "breaker_key providerId serviceKey = providerId @ ''::'' @ serviceKey"

type_synonym breakers = "(string, breaker_record) table"

definition parse_breaker :: "breaker_record \<Rightarrow> breaker_record result" where
  "parse_breaker r = (if breaker_valid r then Inr r else Inl SchemaError)"

definition load_breaker :: "string \<Rightarrow> breakers \<Rightarrow> breaker_record option result" where
  "load_breaker key t = (case table_get t key of
     None \<Rightarrow> Inr None
   | Some r \<Rightarrow> result_bind (parse_breaker r) (\<lambda>p. Inr (Some p)))"

definition save_breaker :: "breaker_record \<Rightarrow> breakers \<Rightarrow> breaker_record result \<times> breakers" where
  "save_breaker r t = (case parse_breaker r of
     Inl e \<Rightarrow> (Inl e, t) | Inr p \<Rightarrow> (Inr p, table_put (br_key p) p t))"

text \<open>
  \<open>ORDER BY updated_at ASC, breaker_key ASC\<close>: the stored texts are datetimes, which sort as their
  instants do.
\<close>

definition list_breakers :: "breakers \<Rightarrow> breaker_record list result" where
  "list_breakers t =
     foldr (\<lambda>(_, r) acc. result_bind (parse_breaker r) (\<lambda>p. result_bind acc (\<lambda>ps. Inr (p # ps))))
       (sort_key (\<lambda>(k, r). (date_parse (br_updated_at r), k)) t) (Inr [])"

text \<open>\<open>current.cooldown_until ? Date.parse(current.cooldown_until) : 0\<close>; a stored value is a datetime.\<close>

definition cooldown_instant :: "breaker_record \<Rightarrow> int option" where
  "cooldown_instant r = (case br_cooldown_until r of None \<Rightarrow> Some 0 | Some ts \<Rightarrow> date_parse ts)"

definition before_run :: "int \<Rightarrow> string \<Rightarrow> string \<Rightarrow> breakers \<Rightarrow> breaker_decision result \<times> breakers" where
  "before_run now providerId serviceKey t =
     (case load_breaker (breaker_key providerId serviceKey) t of
        Inl e \<Rightarrow> (Inl e, t)
      | Inr None \<Rightarrow> (Inr \<lparr>bd_allowed = True, bd_state = Closed, bd_reason = None\<rparr>, t)
      | Inr (Some c) \<Rightarrow>
          (case br_state c of
             Closed \<Rightarrow> (Inr \<lparr>bd_allowed = True, bd_state = Closed, bd_reason = None\<rparr>, t)
           | Paused \<Rightarrow> (Inr \<lparr>bd_allowed = False, bd_state = Paused, bd_reason = Some Manually_paused\<rparr>, t)
           | Open \<Rightarrow>
               if (case cooldown_instant c of None \<Rightarrow> False | Some u \<Rightarrow> u > now)
               then (Inr \<lparr>bd_allowed = False, bd_state = Open,
                          bd_reason = Some (Open_until (br_cooldown_until c))\<rparr>, t)
               else (case to_iso now of
                       Inl e \<Rightarrow> (Inl e, t)
                     | Inr nowIso \<Rightarrow>
                         (case save_breaker (c\<lparr>br_state := Half_open, br_updated_at := nowIso\<rparr>) t of
                            (Inl e, t') \<Rightarrow> (Inl e, t')
                          | (Inr _, t') \<Rightarrow> (Inr \<lparr>bd_allowed = True, bd_state = Half_open, bd_reason = None\<rparr>, t')))
           | Half_open \<Rightarrow> (Inr \<lparr>bd_allowed = True, bd_state = Half_open, bd_reason = None\<rparr>, t)))"

definition record_success :: "int \<Rightarrow> string \<Rightarrow> string \<Rightarrow> breakers \<Rightarrow> unit result \<times> breakers" where
  "record_success now providerId serviceKey t =
     (case load_breaker (breaker_key providerId serviceKey) t of
        Inl e \<Rightarrow> (Inl e, t)
      | Inr None \<Rightarrow> (Inr (), t)
      | Inr (Some c) \<Rightarrow>
          (case to_iso now of
             Inl e \<Rightarrow> (Inl e, t)
           | Inr nowIso \<Rightarrow>
               (case save_breaker (c\<lparr>br_state := Closed, br_failure_count := 0, br_last_failure_code := None,
                    br_last_failure_message := None, br_last_failure_at := None, br_opened_at := None,
                    br_cooldown_until := None, br_updated_at := nowIso\<rparr>) t of
                  (Inl e, t') \<Rightarrow> (Inl e, t') | (Inr _, t') \<Rightarrow> (Inr (), t'))))"

text \<open>\<open>this.policies.byFailureCode?.[code] ?? this.policies.default\<close>.\<close>

definition policy_for :: "breaker_policies \<Rightarrow> failure_code \<Rightarrow> breaker_policy" where
  "policy_for pols code = nullish (bps_byFailureCode pols code) (bps_default pols)"

record failure_input =
  fi_providerId :: string
  fi_serviceKey :: string
  fi_failureCode :: failure_code
  fi_failureMessage :: "string option"

text \<open>The record that \<open>recordFailure\<close> saves, from the one it has read.\<close>

definition failure_record ::
  "breaker_policies \<Rightarrow> int \<Rightarrow> failure_input \<Rightarrow> breaker_record option \<Rightarrow> breaker_record result" where
  "failure_record pols now inp current =
     (let policy = policy_for pols (fi_failureCode inp);
          failureCount = (case current of None \<Rightarrow> 0 | Some c \<Rightarrow> br_failure_count c) + 1;
          opened = (failureCount \<ge> bp_failureThreshold policy)
      in result_bind (to_iso now) (\<lambda>nowIso.
         result_bind (if opened then result_bind (to_iso (now + bp_cooldownMs policy)) (\<lambda>u. Inr (Some u)) else Inr None) (\<lambda>cooldown.
         Inr \<lparr>br_key = breaker_key (fi_providerId inp) (fi_serviceKey inp),
              br_provider_id = fi_providerId inp, br_service_key = fi_serviceKey inp,
              br_state = (if opened then Open else Closed), br_failure_count = failureCount,
              br_last_failure_code = Some (failure_code_name (fi_failureCode inp)),
              br_last_failure_message = fi_failureMessage inp, br_last_failure_at = Some nowIso,
              br_opened_at = (if opened then Some nowIso else (case current of None \<Rightarrow> None | Some c \<Rightarrow> br_opened_at c)),
              br_cooldown_until = cooldown, br_updated_at = nowIso\<rparr>)))"

definition record_failure ::
  "breaker_policies \<Rightarrow> int \<Rightarrow> failure_input \<Rightarrow> breakers \<Rightarrow> breaker_record result \<times> breakers" where
  "record_failure pols now inp t =
     (case load_breaker (breaker_key (fi_providerId inp) (fi_serviceKey inp)) t of
        Inl e \<Rightarrow> (Inl e, t)
      | Inr current \<Rightarrow>
          (case failure_record pols now inp current of Inl e \<Rightarrow> (Inl e, t) | Inr r \<Rightarrow> save_breaker r t))"

section \<open>Back-pressure\<close>

record active_lease =
  al_provider_id :: string
  al_service_key :: string
  al_run_key :: string
  al_acquired_at :: timestamp

text \<open>The reasons of a rejection, with the limit their text prints.\<close>

datatype throttle_reason = Provider_limit int | Service_limit int

record throttle_entry =
  th_provider_id :: string
  th_service_key :: string
  th_reason :: throttle_reason
  th_at :: timestamp

record bp_snapshot =
  bs_updated_at :: timestamp
  bs_active :: "active_lease list"
  bs_throttled :: "throttle_entry list"

definition bp_snapshot_valid :: "bp_snapshot \<Rightarrow> bool" where
  "bp_snapshot_valid s \<longleftrightarrow> datetime_valid (bs_updated_at s) \<and>
     list_all (\<lambda>l. datetime_valid (al_acquired_at l)) (bs_active s) \<and>
     list_all (\<lambda>e. datetime_valid (th_at e)) (bs_throttled s)"

record bp_options =
  bo_maxConcurrentPerProvider :: "int option"
  bo_maxConcurrentPerService :: "int option"
  bo_leaseTtlMs :: "int option"

record bp_controller =
  bc_maxConcurrentPerProvider :: int
  bc_maxConcurrentPerService :: int
  bc_leaseTtlMs :: int

definition parse_bp_positive :: "int \<Rightarrow> string \<Rightarrow> int result" where
  "parse_bp_positive v field = (if safe_pos v then Inr v else Inl (Thrown (field @ '' must be a positive safe integer'')))"

definition bp_constructor :: "bp_options \<Rightarrow> bp_controller result" where
  "bp_constructor o1 =
     result_bind (parse_bp_positive (nullish (bo_maxConcurrentPerProvider o1) 2) ''maxConcurrentPerProvider'') (\<lambda>p.
     result_bind (parse_bp_positive (nullish (bo_maxConcurrentPerService o1) 1) ''maxConcurrentPerService'') (\<lambda>s.
     result_bind (parse_bp_positive (nullish (bo_leaseTtlMs o1) (10 * 60000)) ''leaseTtlMs'') (\<lambda>ttl.
     Inr \<lparr>bc_maxConcurrentPerProvider = p, bc_maxConcurrentPerService = s, bc_leaseTtlMs = ttl\<rparr>)))"

record bp_lease =
  bl_providerId :: string
  bl_serviceKey :: string
  bl_runKey :: string

definition lease_current :: "bp_controller \<Rightarrow> int \<Rightarrow> active_lease \<Rightarrow> bool" where
  "lease_current c now l = (case date_parse (al_acquired_at l) of
     None \<Rightarrow> False | Some t \<Rightarrow> now - t \<le> bc_leaseTtlMs c)"

definition prune_expired :: "bp_controller \<Rightarrow> int \<Rightarrow> active_lease list \<Rightarrow> active_lease list" where
  "prune_expired c now ls = filter (lease_current c now) ls"

definition bp_reject ::
  "timestamp \<Rightarrow> bp_snapshot \<Rightarrow> bp_lease \<Rightarrow> throttle_reason \<Rightarrow> active_lease list \<Rightarrow> bp_snapshot" where
  "bp_reject nowIso s l reason active =
     \<lparr>bs_updated_at = nowIso, bs_active = active,
      bs_throttled = slice_last 20 (bs_throttled s @
        [\<lparr>th_provider_id = bl_providerId l, th_service_key = bl_serviceKey l, th_reason = reason, th_at = nowIso\<rparr>])\<rparr>"

text \<open>\<open>Inr None\<close> is \<open>{ ok: true }\<close>, \<open>Inr (Some r)\<close> is \<open>{ ok: false, reason: r }\<close>.\<close>

definition bp_acquire_step ::
  "bp_controller \<Rightarrow> int \<Rightarrow> timestamp \<Rightarrow> bp_lease \<Rightarrow> bp_snapshot \<Rightarrow> bp_snapshot \<times> throttle_reason option" where
  "bp_acquire_step c now nowIso l s =
     (let active = prune_expired c now (bs_active s);
          providerActive = filter (\<lambda>e. al_provider_id e = bl_providerId l) active;
          serviceActive = filter (\<lambda>e. al_service_key e = bl_serviceKey l) providerActive
      in if int (length providerActive) \<ge> bc_maxConcurrentPerProvider c
         then (let r = Provider_limit (bc_maxConcurrentPerProvider c) in (bp_reject nowIso s l r active, Some r))
         else if int (length serviceActive) \<ge> bc_maxConcurrentPerService c
         then (let r = Service_limit (bc_maxConcurrentPerService c) in (bp_reject nowIso s l r active, Some r))
         else (\<lparr>bs_updated_at = nowIso,
                bs_active = active @ [\<lparr>al_provider_id = bl_providerId l, al_service_key = bl_serviceKey l,
                                      al_run_key = bl_runKey l, al_acquired_at = nowIso\<rparr>],
                bs_throttled = bs_throttled s\<rparr>, None))"

definition bp_release_step :: "bp_controller \<Rightarrow> int \<Rightarrow> timestamp \<Rightarrow> string \<Rightarrow> bp_snapshot \<Rightarrow> bp_snapshot \<times> unit" where
  "bp_release_step c now nowIso runKey s =
     (\<lparr>bs_updated_at = nowIso,
       bs_active = filter (\<lambda>e. al_run_key e \<noteq> runKey) (prune_expired c now (bs_active s)),
       bs_throttled = bs_throttled s\<rparr>, ())"

type_synonym bp_row = "bp_snapshot option"

definition read_bp_snapshot :: "bp_row \<Rightarrow> bp_snapshot option result" where
  "read_bp_snapshot row = (case row of None \<Rightarrow> Inr None
     | Some s \<Rightarrow> if bp_snapshot_valid s then Inr (Some s) else Inl SchemaError)"

text \<open>
  \<open>updateBackpressureSnapshot\<close>: one transaction; no updater reads the \<open>updated_at\<close> of the
  default snapshot (\<open>clock\<close>).
\<close>

definition update_bp_snapshot :: "timestamp \<Rightarrow> (bp_snapshot \<Rightarrow> (bp_snapshot \<times> 'a) result) \<Rightarrow> bp_row \<Rightarrow> 'a result \<times> bp_row" where
  "update_bp_snapshot clock updater row =
     (case read_bp_snapshot row of
        Inl e \<Rightarrow> (Inl e, row)
      | Inr cur \<Rightarrow>
          (case updater (nullish cur \<lparr>bs_updated_at = clock, bs_active = [], bs_throttled = []\<rparr>) of
             Inl e \<Rightarrow> (Inl e, row)
           | Inr (s', res) \<Rightarrow> if bp_snapshot_valid s' then (Inr res, Some s') else (Inl SchemaError, row)))"

definition bp_acquire :: "bp_controller \<Rightarrow> int \<Rightarrow> bp_lease \<Rightarrow> bp_row \<Rightarrow> throttle_reason option result \<times> bp_row" where
  "bp_acquire c now l row =
     update_bp_snapshot (Iso now) (\<lambda>s. result_bind (to_iso now) (\<lambda>nowIso. Inr (bp_acquire_step c now nowIso l s))) row"

definition bp_release :: "bp_controller \<Rightarrow> int \<Rightarrow> string \<Rightarrow> bp_row \<Rightarrow> unit result \<times> bp_row" where
  "bp_release c now runKey row =
     update_bp_snapshot (Iso now) (\<lambda>s. result_bind (to_iso now) (\<lambda>nowIso. Inr (bp_release_step c now nowIso runKey s))) row"

definition bp_snapshot_now :: "int \<Rightarrow> bp_row \<Rightarrow> bp_snapshot result" where
  "bp_snapshot_now now row = result_bind (read_bp_snapshot row) (\<lambda>stored. case stored of
     Some s \<Rightarrow> Inr s
   | None \<Rightarrow> result_bind (to_iso now) (\<lambda>nowIso. Inr \<lparr>bs_updated_at = nowIso, bs_active = [], bs_throttled = []\<rparr>))"

definition save_bp_snapshot :: "bp_snapshot \<Rightarrow> bp_row \<Rightarrow> bp_snapshot result \<times> bp_row" where
  "save_bp_snapshot s row = (if bp_snapshot_valid s then (Inr s, Some s) else (Inl SchemaError, row))"

section \<open>Properties of the circuit breaker\<close>

lemma to_iso_Inr: "to_iso t = Inr ts \<Longrightarrow> ts = Iso t"
  by (simp add: to_iso_def split: if_splits)

lemma datetime_to_iso: "datetime_valid (Iso t) \<Longrightarrow> to_iso t = Inr (Iso t)"
  by (auto simp: to_iso_def)

lemma save_breaker_ok: "fst (save_breaker r t) = Inr p \<Longrightarrow> p = r \<and> breaker_valid r \<and> snd (save_breaker r t) = table_put (br_key r) r t"
  by (auto simp: save_breaker_def parse_breaker_def split: if_splits)

lemma load_after_put: "breaker_valid r \<Longrightarrow> load_breaker (br_key r) (table_put (br_key r) r t) = Inr (Some r)"
  by (simp add: load_breaker_def table_get_put parse_breaker_def)

lemma failure_record_Inr:
  assumes "failure_record pols now inp cur = Inr r"
  shows "br_key r = breaker_key (fi_providerId inp) (fi_serviceKey inp)"
    "br_failure_count r = (case cur of None \<Rightarrow> 0 | Some c \<Rightarrow> br_failure_count c) + 1"
    "br_state r = (if br_failure_count r \<ge> bp_failureThreshold (policy_for pols (fi_failureCode inp)) then Open else Closed)"
    "br_cooldown_until r = (if br_state r = Open then Some (Iso (now + bp_cooldownMs (policy_for pols (fi_failureCode inp)))) else None)"
  using assms by (auto simp: failure_record_def Let_def result_bind_Inr_iff dest: to_iso_Inr split: if_splits)

lemma record_failure_Inr:
  assumes "record_failure pols now inp t = (Inr r, t')"
  obtains cur where "load_breaker (breaker_key (fi_providerId inp) (fi_serviceKey inp)) t = Inr cur"
    "failure_record pols now inp cur = Inr r" "breaker_valid r" "t' = table_put (br_key r) r t"
  using assms by (auto simp: record_failure_def save_breaker_def parse_breaker_def split: sum.splits if_splits)

text \<open>
  C22. A tripped breaker holds and then lets one trial through: when a failure brings the count to the
  threshold of its failure code, runs of that provider and service are refused until the cool-down
  of that code has passed, and the first run asked for after it is allowed, in the half-open
  state.
\<close>

theorem breaker_trips_and_cools:
  assumes "record_failure pols t0 inp t = (Inr r, t')"
    and "bp_failureThreshold (policy_for pols (fi_failureCode inp)) \<le> br_failure_count r"
    and "datetime_valid (Iso now)"
  defines "res \<equiv> before_run now (fi_providerId inp) (fi_serviceKey inp) t'"
    and "until \<equiv> t0 + bp_cooldownMs (policy_for pols (fi_failureCode inp))"
  shows "(now < until \<longrightarrow> res = (Inr \<lparr>bd_allowed = False, bd_state = Open, bd_reason = Some (Open_until (Some (Iso until)))\<rparr>, t')) \<and>
    (until \<le> now \<longrightarrow> fst res = Inr \<lparr>bd_allowed = True, bd_state = Half_open, bd_reason = None\<rparr> \<and>
       map_option br_state (table_get (snd res) (br_key r)) = Some Half_open)"
proof -
  obtain cur where rec: "failure_record pols t0 inp cur = Inr r" and v: "breaker_valid r"
    and t': "t' = table_put (br_key r) r t"
    using record_failure_Inr[OF assms(1)] by blast
  note fr = failure_record_Inr[OF rec]
  have st: "br_state r = Open" using fr(3) assms(2) by simp
  then have cd: "br_cooldown_until r = Some (Iso until)" using fr(4) by (simp add: until_def)
  have load: "load_breaker (breaker_key (fi_providerId inp) (fi_serviceKey inp)) t' = Inr (Some r)"
    using load_after_put[OF v, of t] fr(1) t' by simp
  have v': "breaker_valid (r\<lparr>br_state := Half_open, br_updated_at := Iso now\<rparr>)"
    using v assms(3) by (simp add: breaker_valid_def)
  show ?thesis
    unfolding res_def before_run_def load
    using st cd v' by (simp add: cooldown_instant_def datetime_to_iso[OF assms(3)] save_breaker_def parse_breaker_def table_get_put)
qed

definition sample_failure :: failure_input where
  "sample_failure = \<lparr>fi_providerId = ''p'', fi_serviceKey = ''s'', fi_failureCode = Site_blocked, fi_failureMessage = None\<rparr>"

definition sample_breaker :: "int \<Rightarrow> breaker_state \<Rightarrow> breaker_record" where
  "sample_breaker n st = \<lparr>br_key = ''p::s'', br_provider_id = ''p'', br_service_key = ''s'', br_state = st,
     br_failure_count = n, br_last_failure_code = None, br_last_failure_message = None, br_last_failure_at = None,
     br_opened_at = None, br_cooldown_until = None, br_updated_at = Iso 0\<rparr>"

lemmas breaker_eval = record_failure_def load_breaker_def parse_breaker_def failure_record_def save_breaker_def
  sample_failure_def sample_breaker_def breaker_key_def breaker_valid_def safe_nonneg_def max_safe_integer_def
  policy_for_def default_policies_def to_iso_def Let_def

theorem breaker_trips_and_cools_witness:
  "\<exists>r t'. record_failure default_policies 1000 sample_failure [(''p::s'', sample_breaker 1 Closed)] = (Inr r, t') \<and>
     fst (before_run 3600999 ''p'' ''s'' t') =
       Inr \<lparr>bd_allowed = False, bd_state = Open, bd_reason = Some (Open_until (Some (Iso 3601000)))\<rparr>"
proof -
  obtain r t' where run: "record_failure default_policies 1000 sample_failure [(''p::s'', sample_breaker 1 Closed)] = (Inr r, t')"
    and n: "br_failure_count r = 2"
    by (simp add: breaker_eval)
  have pol: "policy_for default_policies (fi_failureCode sample_failure) = \<lparr>bp_failureThreshold = 2, bp_cooldownMs = 3600000\<rparr>"
    by (simp add: policy_for_def default_policies_def sample_failure_def)
  show ?thesis
    using breaker_trips_and_cools[OF run, of 3600999] run n unfolding pol by (simp add: sample_failure_def)
qed

section \<open>Runs of the breaker under the default policies\<close>

inductive breaker_step :: "breakers \<Rightarrow> breakers \<Rightarrow> bool" where
  bstep_before: "breaker_step t (snd (before_run now p k t))"
| bstep_success: "breaker_step t (snd (record_success now p k t))"
| bstep_failure: "breaker_step t (snd (record_failure default_policies now inp t))"

inductive breaker_reachable :: "breakers \<Rightarrow> bool" where
  breach_empty: "breaker_reachable []"
| breach_step: "breaker_reachable t \<Longrightarrow> breaker_step t t' \<Longrightarrow> breaker_reachable t'"

inductive_cases breaker_stepE: "breaker_step t t'"

text \<open>An open or half-open breaker counts at least two failures, a closed one at most two.\<close>

definition breaker_ok :: "breaker_record \<Rightarrow> bool" where
  "breaker_ok r \<longleftrightarrow> breaker_valid r \<and>
     (case br_state r of Closed \<Rightarrow> br_failure_count r \<le> 2 | Paused \<Rightarrow> False | _ \<Rightarrow> 2 \<le> br_failure_count r)"

definition breakers_ok :: "breakers \<Rightarrow> bool" where
  "breakers_ok t \<longleftrightarrow> (\<forall>k r. table_get t k = Some r \<longrightarrow> breaker_ok r \<and> br_key r = k)"

lemma breakers_okD: "breakers_ok t \<Longrightarrow> table_get t k = Some r \<Longrightarrow> breaker_ok r \<and> br_key r = k"
  by (simp add: breakers_ok_def)

lemma breakers_ok_put: "breakers_ok t \<Longrightarrow> breaker_ok r \<Longrightarrow> breakers_ok (table_put (br_key r) r t)"
  by (auto simp: breakers_ok_def table_get_put)

lemma breakers_ok_save: "breakers_ok t \<Longrightarrow> (breaker_valid r \<Longrightarrow> breaker_ok r) \<Longrightarrow> breakers_ok (snd (save_breaker r t))"
  by (auto simp: save_breaker_def parse_breaker_def intro: breakers_ok_put)

lemma breakers_ok_load:
  "breakers_ok t \<Longrightarrow> load_breaker k t = Inr cur \<Longrightarrow> cur = table_get t k"
  by (auto simp: load_breaker_def parse_breaker_def split: option.splits if_splits)

lemma default_threshold: "bp_failureThreshold (policy_for default_policies c) \<in> {2, 3}"
  by (cases c) (simp_all add: policy_for_def default_policies_def)

lemma failure_record_ok:
  assumes "breakers_ok t" "load_breaker k t = Inr cur"
    "failure_record default_policies now inp cur = Inr r" "breaker_valid r"
  shows "breaker_ok r"
proof -
  note fr = failure_record_Inr[OF assms(3)]
  have "0 \<le> (case cur of None \<Rightarrow> 0 | Some c \<Rightarrow> br_failure_count c)"
    using breakers_ok_load[OF assms(1,2)] breakers_okD[OF assms(1)]
    by (auto simp: breaker_ok_def breaker_valid_def safe_nonneg_def split: option.splits)
  then show ?thesis
    using fr(2,3) assms(4) default_threshold[of "fi_failureCode inp"] by (auto simp: breaker_ok_def)
qed

text \<open>What a call leaves in the table: the table it found, or one saved record.\<close>

lemma before_run_table:
  "snd (before_run now p k t) = t \<or> (\<exists>c. load_breaker (breaker_key p k) t = Inr (Some c) \<and> br_state c = Open \<and>
     snd (before_run now p k t) = snd (save_breaker (c\<lparr>br_state := Half_open, br_updated_at := Iso now\<rparr>) t))"
  by (auto simp: before_run_def dest: to_iso_Inr split: sum.splits option.splits breaker_state.splits prod.splits)

lemma record_success_table:
  "snd (record_success now p k t) = t \<or> (\<exists>c. load_breaker (breaker_key p k) t = Inr (Some c) \<and>
     snd (record_success now p k t) = snd (save_breaker (c\<lparr>br_state := Closed, br_failure_count := 0,
       br_last_failure_code := None, br_last_failure_message := None, br_last_failure_at := None,
       br_opened_at := None, br_cooldown_until := None, br_updated_at := Iso now\<rparr>) t))"
  by (auto simp: record_success_def dest: to_iso_Inr split: sum.splits option.splits prod.splits)

lemma record_failure_table:
  "snd (record_failure pols now inp t) = t \<or>
   (\<exists>cur r. load_breaker (breaker_key (fi_providerId inp) (fi_serviceKey inp)) t = Inr cur \<and>
      failure_record pols now inp cur = Inr r \<and> snd (record_failure pols now inp t) = snd (save_breaker r t))"
  by (auto simp: record_failure_def split: sum.splits)

lemma breaker_step_ok:
  assumes "breaker_step t t'" "breakers_ok t"
  shows "breakers_ok t'"
  using assms(1)
proof cases
  case (bstep_before now p k)
  have "breaker_ok (c\<lparr>br_state := Half_open, br_updated_at := Iso now\<rparr>)"
    if "load_breaker (breaker_key p k) t = Inr (Some c)" "br_state c = Open"
      "breaker_valid (c\<lparr>br_state := Half_open, br_updated_at := Iso now\<rparr>)" for c
    using breakers_okD[OF assms(2), of _ c] breakers_ok_load[OF assms(2) that(1)] that(2,3)
    by (simp add: breaker_ok_def)
  then show ?thesis
    using before_run_table[of now p k t] bstep_before assms(2) by (auto intro!: breakers_ok_save)
next
  case (bstep_success now p k)
  have "breaker_ok (c\<lparr>br_state := Closed, br_failure_count := 0,
       br_last_failure_code := None, br_last_failure_message := None, br_last_failure_at := None,
       br_opened_at := None, br_cooldown_until := None, br_updated_at := Iso now\<rparr>)"
    if "breaker_valid (c\<lparr>br_state := Closed, br_failure_count := 0,
       br_last_failure_code := None, br_last_failure_message := None, br_last_failure_at := None,
       br_opened_at := None, br_cooldown_until := None, br_updated_at := Iso now\<rparr>)" for c
    using that by (simp add: breaker_ok_def)
  then show ?thesis
    using record_success_table[of now p k t] bstep_success assms(2) by (auto intro!: breakers_ok_save)
next
  case (bstep_failure now inp)
  then show ?thesis
    using record_failure_table[of default_policies now inp t] assms(2) failure_record_ok[OF assms(2)]
    by (auto intro!: breakers_ok_save)
qed

lemma breaker_reachable_ok: "breaker_reachable t \<Longrightarrow> breakers_ok t"
  by (induction rule: breaker_reachable.induct) (auto simp: breakers_ok_def[of "[]"] intro: breaker_step_ok)

text \<open>
  The trial run decides: in every table the breaker produces under its default policies, a
  failure recorded while the breaker is open or half-open opens it (again), whatever the
  failure code, and a success closes it with the count at zero.
\<close>

lemma half_open_trial_decides:
  assumes "breaker_reachable t" "table_get t (breaker_key (fi_providerId inp) (fi_serviceKey inp)) = Some c"
    and "br_state c \<in> {Open, Half_open}"
  shows "(fst (record_failure default_policies now inp t) = Inr r \<longrightarrow> br_state r = Open) \<and>
    (fst (record_success now (fi_providerId inp) (fi_serviceKey inp) t) = Inr () \<longrightarrow>
       map_option (\<lambda>r. (br_state r, br_failure_count r))
         (table_get (snd (record_success now (fi_providerId inp) (fi_serviceKey inp) t))
            (breaker_key (fi_providerId inp) (fi_serviceKey inp))) = Some (Closed, 0))"
proof -
  have ok: "breakers_ok t" by (rule breaker_reachable_ok[OF assms(1)])
  have c: "breaker_ok c" "br_key c = breaker_key (fi_providerId inp) (fi_serviceKey inp)"
    using breakers_okD[OF ok assms(2)] by simp_all
  have two: "2 \<le> br_failure_count c" using c(1) assms(3) by (auto simp: breaker_ok_def)
  have load: "load_breaker (breaker_key (fi_providerId inp) (fi_serviceKey inp)) t = Inr (Some c)"
    using assms(2) c(1) by (simp add: load_breaker_def parse_breaker_def breaker_ok_def)
  have "br_state r = Open" if run: "fst (record_failure default_policies now inp t) = Inr r"
  proof -
    obtain t' where "record_failure default_policies now inp t = (Inr r, t')" using run by (metis prod.collapse)
    then obtain cur where "load_breaker (breaker_key (fi_providerId inp) (fi_serviceKey inp)) t = Inr cur"
      "failure_record default_policies now inp cur = Inr r"
      by (rule record_failure_Inr)
    then show ?thesis
      using failure_record_Inr(2,3)[of default_policies now inp cur r] load two default_threshold[of "fi_failureCode inp"]
      by auto
  qed
  moreover have "map_option (\<lambda>r. (br_state r, br_failure_count r))
         (table_get (snd (record_success now (fi_providerId inp) (fi_serviceKey inp) t))
            (breaker_key (fi_providerId inp) (fi_serviceKey inp))) = Some (Closed, 0)"
    if "fst (record_success now (fi_providerId inp) (fi_serviceKey inp) t) = Inr ()"
    using that c(2) unfolding record_success_def load
    by (auto simp: save_breaker_def parse_breaker_def table_get_put split: sum.splits if_splits)
  ultimately show ?thesis by blast
qed

definition sample_tripped :: breakers where
  "sample_tripped = snd (record_failure default_policies 1000 sample_failure
     (snd (record_failure default_policies 900 sample_failure [])))"

lemma sample_tripped_reachable: "breaker_reachable sample_tripped"
  unfolding sample_tripped_def by (rule breach_step[OF breach_step[OF breach_empty bstep_failure] bstep_failure])

lemma sample_tripped_state:
  "\<exists>c. table_get sample_tripped (breaker_key (fi_providerId sample_failure) (fi_serviceKey sample_failure)) = Some c \<and>
     br_state c = Open"
  by (simp add: sample_tripped_def breaker_eval)

lemma before_run_closed:
  "table_get t (breaker_key p k) = Some c \<Longrightarrow> breaker_valid c \<Longrightarrow> br_state c = Closed \<Longrightarrow>
   fst (before_run now p k t) = Inr \<lparr>bd_allowed = True, bd_state = Closed, bd_reason = None\<rparr>"
  by (simp add: before_run_def load_breaker_def parse_breaker_def)

text \<open>
  A manual pause does not hold: \<open>beforeRun\<close> refuses a paused provider, but a run that was
  already going and then reports its outcome takes the pause away. After a recorded success, or a
  failure below its threshold, the breaker is closed and the next run is allowed.
\<close>

lemma outcome_overrides_manual_pause:
  assumes "table_get t (breaker_key p k) = Some c" "br_key c = breaker_key p k" "br_state c = Paused" "breaker_valid c"
    and "datetime_valid (Iso now)"
  shows "fst (before_run now p k t) = Inr \<lparr>bd_allowed = False, bd_state = Paused, bd_reason = Some Manually_paused\<rparr> \<and>
    fst (before_run later p k (snd (record_success now p k t))) =
      Inr \<lparr>bd_allowed = True, bd_state = Closed, bd_reason = None\<rparr> \<and>
    (br_failure_count c + 1 < bp_failureThreshold (policy_for pols code) \<and> br_failure_count c + 1 \<le> max_safe_integer \<longrightarrow>
     fst (before_run later p k (snd (record_failure pols now
        \<lparr>fi_providerId = p, fi_serviceKey = k, fi_failureCode = code, fi_failureMessage = m\<rparr> t))) =
      Inr \<lparr>bd_allowed = True, bd_state = Closed, bd_reason = None\<rparr>)"
proof -
  have load: "load_breaker (breaker_key p k) t = Inr (Some c)"
    using assms(1,4) by (simp add: load_breaker_def parse_breaker_def)
  have iso: "to_iso now = Inr (Iso now)" by (rule datetime_to_iso[OF assms(5)])
  have 1: "fst (before_run now p k t) = Inr \<lparr>bd_allowed = False, bd_state = Paused, bd_reason = Some Manually_paused\<rparr>"
    by (simp add: before_run_def load assms(3))
  have 2: "fst (before_run later p k (snd (record_success now p k t))) =
      Inr \<lparr>bd_allowed = True, bd_state = Closed, bd_reason = None\<rparr>"
  proof -
    let ?c = "c\<lparr>br_state := Closed, br_failure_count := 0, br_last_failure_code := None,
      br_last_failure_message := None, br_last_failure_at := None, br_opened_at := None,
      br_cooldown_until := None, br_updated_at := Iso now\<rparr>"
    have v: "breaker_valid ?c" using assms(5) by (simp add: breaker_valid_def safe_nonneg_def max_safe_integer_def)
    then have "snd (record_success now p k t) = table_put (breaker_key p k) ?c t"
      using assms(2) by (simp add: record_success_def load iso save_breaker_def parse_breaker_def)
    then show ?thesis using before_run_closed[OF _ v] by (simp add: table_get_put)
  qed
  have 3: "fst (before_run later p k (snd (record_failure pols now
        \<lparr>fi_providerId = p, fi_serviceKey = k, fi_failureCode = code, fi_failureMessage = m\<rparr> t))) =
      Inr \<lparr>bd_allowed = True, bd_state = Closed, bd_reason = None\<rparr>"
    if "br_failure_count c + 1 < bp_failureThreshold (policy_for pols code)" "br_failure_count c + 1 \<le> max_safe_integer"
  proof -
    let ?inp = "\<lparr>fi_providerId = p, fi_serviceKey = k, fi_failureCode = code, fi_failureMessage = m\<rparr>"
    have below: "\<not> bp_failureThreshold (policy_for pols code) \<le> br_failure_count c + 1" using that(1) by simp
    obtain r where r: "failure_record pols now ?inp (Some c) = Inr r"
      using below by (simp add: failure_record_def Let_def iso)
    note fr = failure_record_Inr[OF r, simplified]
    have v: "breaker_valid r" using r that assms(4,5)
      by (auto simp: failure_record_def Let_def iso breaker_valid_def safe_nonneg_def)
    then have "snd (record_failure pols now ?inp t) = table_put (breaker_key p k) r t"
      using fr(1) r by (simp add: record_failure_def load save_breaker_def parse_breaker_def)
    moreover have "br_state r = Closed" using fr(2,3) that(1) by simp
    ultimately show ?thesis using before_run_closed[OF _ v] by (simp add: table_get_put)
  qed
  show ?thesis using 1 2 3 by blast
qed

section \<open>Properties of back-pressure\<close>

datatype bp_op = Bp_acquire int bp_lease | Bp_release int string

fun bp_apply :: "bp_controller \<Rightarrow> bp_row \<Rightarrow> bp_op \<Rightarrow> bp_row" where
  "bp_apply c row (Bp_acquire now l) = snd (bp_acquire c now l row)"
| "bp_apply c row (Bp_release now k) = snd (bp_release c now k row)"

definition provider_load :: "string \<Rightarrow> active_lease list \<Rightarrow> int" where
  "provider_load p ls = int (length (filter (\<lambda>e. al_provider_id e = p) ls))"

definition service_load :: "string \<Rightarrow> string \<Rightarrow> active_lease list \<Rightarrow> int" where
  "service_load p k ls = int (length (filter (\<lambda>e. al_provider_id e = p \<and> al_service_key e = k) ls))"

definition bp_ok :: "bp_controller \<Rightarrow> bp_snapshot \<Rightarrow> bool" where
  "bp_ok c s \<longleftrightarrow> (\<forall>p. provider_load p (bs_active s) \<le> bc_maxConcurrentPerProvider c) \<and>
     (\<forall>p k. service_load p k (bs_active s) \<le> bc_maxConcurrentPerService c) \<and> length (bs_throttled s) \<le> 20"

lemma load_filter_le:
  "provider_load p (filter P ls) \<le> provider_load p ls"
  "service_load p k (filter P ls) \<le> service_load p k ls"
proof -
  have "length (filter Q (filter P ls)) \<le> length (filter Q ls)" for Q
    by (induction ls) auto
  then show "provider_load p (filter P ls) \<le> provider_load p ls" "service_load p k (filter P ls) \<le> service_load p k ls"
    by (simp_all add: provider_load_def service_load_def del: filter_filter)
qed

lemma bp_ok_prune: "bp_ok c s \<Longrightarrow> length ths \<le> 20 \<Longrightarrow>
   bp_ok c \<lparr>bs_updated_at = u, bs_active = filter P (bs_active s), bs_throttled = ths\<rparr>"
  using order_trans[OF load_filter_le(1)] order_trans[OF load_filter_le(2)]
  by (simp add: bp_ok_def)

lemma acquire_step_cases:
  "bp_acquire_step c now nowIso l s =
     (let active = prune_expired c now (bs_active s)
      in if bc_maxConcurrentPerProvider c \<le> provider_load (bl_providerId l) active
         then (bp_reject nowIso s l (Provider_limit (bc_maxConcurrentPerProvider c)) active,
               Some (Provider_limit (bc_maxConcurrentPerProvider c)))
         else if bc_maxConcurrentPerService c \<le> service_load (bl_providerId l) (bl_serviceKey l) active
         then (bp_reject nowIso s l (Service_limit (bc_maxConcurrentPerService c)) active,
               Some (Service_limit (bc_maxConcurrentPerService c)))
         else (\<lparr>bs_updated_at = nowIso,
                bs_active = active @ [\<lparr>al_provider_id = bl_providerId l, al_service_key = bl_serviceKey l,
                                      al_run_key = bl_runKey l, al_acquired_at = nowIso\<rparr>],
                bs_throttled = bs_throttled s\<rparr>, None))"
  by (simp add: bp_acquire_step_def Let_def provider_load_def service_load_def conj_commute)

lemma bp_ok_acquire: "bp_ok c s \<Longrightarrow> bp_ok c (fst (bp_acquire_step c now nowIso l s))"
proof -
  assume ok: "bp_ok c s"
  let ?a = "prune_expired c now (bs_active s)"
  have pruned: "bp_ok c \<lparr>bs_updated_at = nowIso, bs_active = ?a, bs_throttled = ths\<rparr>" if "length ths \<le> 20" for ths
    unfolding prune_expired_def by (rule bp_ok_prune[OF ok that])
  have "bp_ok c (bp_reject nowIso s l r ?a)" for r
    unfolding bp_reject_def by (rule pruned[OF length_slice_last])
  moreover have "bp_ok c \<lparr>bs_updated_at = nowIso,
                bs_active = ?a @ [\<lparr>al_provider_id = bl_providerId l, al_service_key = bl_serviceKey l,
                                      al_run_key = bl_runKey l, al_acquired_at = nowIso\<rparr>],
                bs_throttled = bs_throttled s\<rparr>"
    if "provider_load (bl_providerId l) ?a < bc_maxConcurrentPerProvider c"
      "service_load (bl_providerId l) (bl_serviceKey l) ?a < bc_maxConcurrentPerService c"
    using pruned[of "bs_throttled s"] ok that
    by (auto simp: bp_ok_def provider_load_def service_load_def)
  ultimately show ?thesis by (simp add: acquire_step_cases Let_def)
qed

lemma bp_ok_release: "bp_ok c s \<Longrightarrow> bp_ok c (fst (bp_release_step c now nowIso k s))"
  unfolding bp_release_step_def prune_expired_def fst_conv filter_filter
  by (rule bp_ok_prune) (simp_all add: bp_ok_def)

lemma update_bp_ok:
  assumes "\<And>s. row = Some s \<Longrightarrow> bp_ok c s" "bp_ok c \<lparr>bs_updated_at = clock, bs_active = [], bs_throttled = []\<rparr>"
    and "\<And>s s' res. bp_ok c s \<Longrightarrow> f s = Inr (s', res) \<Longrightarrow> bp_ok c s'"
    and "snd (update_bp_snapshot clock f row) = Some s"
  shows "bp_ok c s"
  using assms by (auto simp: update_bp_snapshot_def read_bp_snapshot_def split: option.splits sum.splits prod.splits if_splits)

lemma bp_apply_ok:
  assumes "0 \<le> bc_maxConcurrentPerProvider c" "0 \<le> bc_maxConcurrentPerService c"
    and "\<And>s. row = Some s \<Longrightarrow> bp_ok c s" "bp_apply c row op = Some s"
  shows "bp_ok c s"
proof -
  have empty: "bp_ok c \<lparr>bs_updated_at = u, bs_active = [], bs_throttled = []\<rparr>" for u
    using assms(1,2) by (simp add: bp_ok_def provider_load_def service_load_def)
  show ?thesis
  proof (cases op)
    case (Bp_acquire now l)
    let ?f = "\<lambda>s. result_bind (to_iso now) (\<lambda>nowIso. Inr (bp_acquire_step c now nowIso l s))"
    have step: "bp_ok c s'" if "bp_ok c s0" "?f s0 = Inr (s', res)" for s0 s' res
      using bp_ok_acquire[OF that(1), of now _ l] that(2) by (auto simp: result_bind_Inr_iff) (metis fst_conv)
    have run: "snd (update_bp_snapshot (Iso now) ?f row) = Some s"
      using assms(4) by (simp only: Bp_acquire bp_apply.simps bp_acquire_def)
    show ?thesis by (rule update_bp_ok[OF assms(3) empty step run])
  next
    case (Bp_release now k)
    let ?f = "\<lambda>s. result_bind (to_iso now) (\<lambda>nowIso. Inr (bp_release_step c now nowIso k s))"
    have step: "bp_ok c s'" if "bp_ok c s0" "?f s0 = Inr (s', res)" for s0 s' res
      using bp_ok_release[OF that(1), of now _ k] that(2) by (auto simp: result_bind_Inr_iff) (metis fst_conv)
    have run: "snd (update_bp_snapshot (Iso now) ?f row) = Some s"
      using assms(4) by (simp only: Bp_release bp_apply.simps bp_release_def)
    show ?thesis by (rule update_bp_ok[OF assms(3) empty step run])
  qed
qed

text \<open>
  C23. Back-pressure holds its limits: whatever acquire and release calls run on an empty store under
  a constructed controller, with any clock, at every moment no provider has more active leases
  than \<open>maxConcurrentPerProvider\<close>, no service of a provider more than \<open>maxConcurrentPerService\<close>, and the
  log of rejections keeps at most twenty entries.
\<close>

theorem backpressure_limits_hold:
  assumes "bp_constructor opts = Inr c" "foldl (bp_apply c) None ops = Some s"
  shows "(\<forall>p. provider_load p (bs_active s) \<le> bc_maxConcurrentPerProvider c) \<and>
    (\<forall>p k. service_load p k (bs_active s) \<le> bc_maxConcurrentPerService c) \<and> length (bs_throttled s) \<le> 20"
proof -
  have pos: "0 \<le> bc_maxConcurrentPerProvider c" "0 \<le> bc_maxConcurrentPerService c"
    using assms(1) by (auto simp: bp_constructor_def parse_bp_positive_def safe_pos_def result_bind_Inr_iff split: if_splits)
  have "\<forall>s. foldl (bp_apply c) None ops = Some s \<longrightarrow> bp_ok c s"
    by (induction ops rule: rev_induct) (auto intro: bp_apply_ok[OF pos])
  then show ?thesis using assms(2) by (simp add: bp_ok_def)
qed

definition sample_bp :: bp_controller where
  "sample_bp = \<lparr>bc_maxConcurrentPerProvider = 2, bc_maxConcurrentPerService = 1, bc_leaseTtlMs = 600000\<rparr>"

definition sample_bp_lease :: "string \<Rightarrow> string \<Rightarrow> bp_lease" where
  "sample_bp_lease k r = \<lparr>bl_providerId = ''p'', bl_serviceKey = k, bl_runKey = r\<rparr>"

lemma sample_bp_made: "bp_constructor \<lparr>bo_maxConcurrentPerProvider = None, bo_maxConcurrentPerService = None, bo_leaseTtlMs = None\<rparr> = Inr sample_bp"
  by (simp add: bp_constructor_def parse_bp_positive_def safe_pos_def max_safe_integer_def sample_bp_def)

lemmas bp_eval = bp_acquire_def update_bp_snapshot_def read_bp_snapshot_def bp_acquire_step_def to_iso_def Let_def
  sample_bp_def sample_bp_lease_def prune_expired_def lease_current_def bp_snapshot_valid_def bp_reject_def
  slice_last_def bp_release_def bp_release_step_def

theorem backpressure_limits_hold_witness:
  "\<exists>s. foldl (bp_apply sample_bp) None
      [Bp_acquire 10 (sample_bp_lease ''a'' ''r1''), Bp_acquire 20 (sample_bp_lease ''a'' ''r2'')] = Some s \<and>
    length (bs_active s) = 1 \<and> service_load ''p'' ''a'' (bs_active s) \<le> 1 \<and> length (bs_throttled s) = 1"
proof -
  have "\<exists>s. foldl (bp_apply sample_bp) None
      [Bp_acquire 10 (sample_bp_lease ''a'' ''r1''), Bp_acquire 20 (sample_bp_lease ''a'' ''r2'')] = Some s \<and>
    length (bs_active s) = 1 \<and> length (bs_throttled s) = 1"
    by (simp add: bp_eval)
  then obtain s where s: "foldl (bp_apply sample_bp) None
      [Bp_acquire 10 (sample_bp_lease ''a'' ''r1''), Bp_acquire 20 (sample_bp_lease ''a'' ''r2'')] = Some s"
    "length (bs_active s) = 1" "length (bs_throttled s) = 1" by blast
  have "service_load ''p'' ''a'' (bs_active s) \<le> bc_maxConcurrentPerService sample_bp"
    using backpressure_limits_hold[OF sample_bp_made s(1)] by blast
  then show ?thesis using s by (auto simp: sample_bp_def)
qed

text \<open>
  Admission is exact: on a readable snapshot and a clock in range, \<open>acquire\<close> succeeds exactly when
  the leases not older than the time to live leave room for the provider and for the service;
  expired leases are dropped either way, a success adds one lease dated now, and
  \<open>release\<close> removes the leases of the run and no other live one.
\<close>

lemma backpressure_admits_exactly:
  fixes c :: bp_controller
  assumes "datetime_valid (Iso now)" "opt_all bp_snapshot_valid row"
  defines "live \<equiv> filter (lease_current c now) (case row of None \<Rightarrow> [] | Some s \<Rightarrow> bs_active s)"
  shows "(fst (bp_acquire c now l row) = Inr None \<longleftrightarrow>
      provider_load (bl_providerId l) live < bc_maxConcurrentPerProvider c \<and>
      service_load (bl_providerId l) (bl_serviceKey l) live < bc_maxConcurrentPerService c) \<and>
    map_option bs_active (snd (bp_acquire c now l row)) =
      Some (if fst (bp_acquire c now l row) = Inr None
            then live @ [\<lparr>al_provider_id = bl_providerId l, al_service_key = bl_serviceKey l,
                         al_run_key = bl_runKey l, al_acquired_at = Iso now\<rparr>] else live) \<and>
    map_option bs_active (snd (bp_release c now k row)) = Some (filter (\<lambda>e. al_run_key e \<noteq> k) live)"
proof -
  define s where "s = (case row of None \<Rightarrow> \<lparr>bs_updated_at = Iso now, bs_active = [], bs_throttled = []\<rparr> | Some s \<Rightarrow> s)"
  have iso: "to_iso now = Inr (Iso now)" by (rule datetime_to_iso[OF assms(1)])
  have v: "bp_snapshot_valid s" using assms(1,2) by (cases row) (auto simp: s_def bp_snapshot_valid_def)
  have live: "live = prune_expired c now (bs_active s)" by (cases row) (simp_all add: live_def s_def prune_expired_def)
  have upd: "update_bp_snapshot (Iso now) f row = (case f s of Inl e \<Rightarrow> (Inl e, row)
      | Inr (s', res) \<Rightarrow> if bp_snapshot_valid s' then (Inr res, Some s') else (Inl SchemaError, row))"
    for f :: "bp_snapshot \<Rightarrow> (bp_snapshot \<times> 'x) result"
    using assms(2) by (cases row) (simp_all add: update_bp_snapshot_def read_bp_snapshot_def s_def split: sum.split)
  have sl: "set (slice_last 20 (xs :: throttle_entry list)) \<subseteq> set xs" for xs by (rule set_slice_last)
  have va: "bp_snapshot_valid (fst (bp_acquire_step c now (Iso now) l s))"
    using v assms(1) sl
    by (auto simp: acquire_step_cases Let_def bp_snapshot_valid_def bp_reject_def prune_expired_def list_all_iff
        dest!: subsetD[OF sl])
  have acq: "bp_acquire c now l row = (Inr (snd (bp_acquire_step c now (Iso now) l s)), Some (fst (bp_acquire_step c now (Iso now) l s)))"
    using va by (cases "bp_acquire_step c now (Iso now) l s") (simp add: bp_acquire_def upd iso)
  have rel: "bp_release c now k row = (Inr (), Some (fst (bp_release_step c now (Iso now) k s)))"
    using v assms(1) by (auto simp: bp_release_def upd iso bp_release_step_def bp_snapshot_valid_def prune_expired_def list_all_iff)
  have "fst (bp_acquire c now l row) = Inr None \<longleftrightarrow>
      provider_load (bl_providerId l) live < bc_maxConcurrentPerProvider c \<and>
      service_load (bl_providerId l) (bl_serviceKey l) live < bc_maxConcurrentPerService c"
    by (auto simp: acq acquire_step_cases Let_def live)
  moreover have "map_option bs_active (snd (bp_acquire c now l row)) =
      Some (if fst (bp_acquire c now l row) = Inr None
            then live @ [\<lparr>al_provider_id = bl_providerId l, al_service_key = bl_serviceKey l,
                         al_run_key = bl_runKey l, al_acquired_at = Iso now\<rparr>] else live)"
    by (auto simp: acq acquire_step_cases Let_def live bp_reject_def)
  moreover have "map_option bs_active (snd (bp_release c now k row)) = Some (filter (\<lambda>e. al_run_key e \<noteq> k) live)"
    by (simp add: rel bp_release_step_def live)
  ultimately show ?thesis by blast
qed

end
