(* ===== verification/Dependency_Graph.thy ===== *)
theory Dependency_Graph
  imports PS_Prelude Complex_Main
begin

text \<open>
  The dependency graph of goals: \<open>src/orchestrator/goal/goal-dependency-graph.ts\<close> with its types in
  \<open>src/orchestrator/goal/types/dependency.ts\<close> and \<open>src/base/types/core.ts\<close>.

  The object keeps a graph in memory and persists it whole; \<open>save\<close> parses it first, so a graph
  outside the schema throws after the memory was changed. The state is the graph in memory and the
  stored one. The answer of the language model is an argument (\<open>None\<close> when it fails the schema or
  the call throws). A confidence is a double between 0 and 1, a rational number here.
\<close>

section \<open>Edges and graphs\<close>

datatype dependency_type = Prerequisite | Resource_conflict | Synergy | Conflict | Strategy_dependency

datatype edge_status = Active | Satisfied | Invalidated

datatype strategy_kind = Strategy_prerequisite | Strategy_enhances

record strategy_metadata =
  sm_dependency_type :: strategy_kind
  sm_goal_id :: string

record dependency_edge =
  de_from :: string
  de_to :: string
  de_type :: dependency_type
  de_status :: edge_status
  de_condition :: "string option"
  de_affected_dimensions :: "string list"
  de_mitigation :: "string option"
  de_detection_confidence :: rat
  de_strategy_dependency :: "strategy_metadata option"
  de_reasoning :: "string option"
  de_created_at :: timestamp

record dependency_graph =
  dg_nodes :: "string list"
  dg_edges :: "dependency_edge list"
  dg_updated_at :: timestamp

definition edge_valid :: "dependency_edge \<Rightarrow> bool" where
  "edge_valid e \<longleftrightarrow> 0 \<le> de_detection_confidence e \<and> de_detection_confidence e \<le> 1 \<and>
     opt_all (\<lambda>m. sm_goal_id m \<noteq> []) (de_strategy_dependency e)"

definition graph_valid :: "dependency_graph \<Rightarrow> bool" where
  "graph_valid g \<longleftrightarrow> list_all edge_valid (dg_edges g)"

record graph_state =
  gs_graph :: dependency_graph
  gs_store :: "dependency_graph option"

definition empty_graph :: "int \<Rightarrow> dependency_graph" where
  "empty_graph now = \<lparr>dg_nodes = [], dg_edges = [], dg_updated_at = Iso now\<rparr>"

section \<open>Persistence\<close>

text \<open>\<open>load\<close>: a missing or malformed row gives an empty graph.\<close>

definition graph_load :: "int \<Rightarrow> dependency_graph option \<Rightarrow> dependency_graph" where
  "graph_load now store = (case store of None \<Rightarrow> empty_graph now
     | Some g \<Rightarrow> if graph_valid g then g else empty_graph now)"

definition graph_init :: "int \<Rightarrow> graph_state \<Rightarrow> graph_state" where
  "graph_init now s = s\<lparr>gs_graph := graph_load now (gs_store s)\<rparr>"

text \<open>\<open>save\<close> of the graph in memory: the result and the state.\<close>

definition graph_save :: "graph_state \<Rightarrow> unit result \<times> graph_state" where
  "graph_save s = (if graph_valid (gs_graph s) then (Inr (), s\<lparr>gs_store := Some (gs_graph s)\<rparr>) else (Inl SchemaError, s))"

section \<open>Cycle detection\<close>

text \<open>The map \<open>activePrerequisiteAdjacency\<close>.\<close>

definition add_adjacency :: "(string, string list) table \<Rightarrow> dependency_edge \<Rightarrow> (string, string list) table" where
  "add_adjacency adj e =
     (if de_type e \<noteq> Prerequisite \<or> de_status e \<noteq> Active then adj
      else (case table_get adj (de_from e) of
              Some out \<Rightarrow> table_put (de_from e) (out @ [de_to e]) adj
            | None \<Rightarrow> table_put (de_from e) [de_to e] adj))"

definition active_adjacency :: "dependency_edge list \<Rightarrow> (string, string list) table" where
  "active_adjacency es = foldl add_adjacency [] es"

text \<open>The breadth-first loop: the queue from \<open>index\<close> on, and the visited set.\<close>

function cycle_search :: "(string, string list) table \<Rightarrow> string \<Rightarrow> string list \<Rightarrow> string list \<Rightarrow> bool" where
  "cycle_search adj target [] visited = False"
| "cycle_search adj target (c # rest) visited =
     (if c = target then True
      else if c \<in> set visited then cycle_search adj target rest visited
      else (case table_get adj c of
              None \<Rightarrow> cycle_search adj target rest (c # visited)
            | Some next \<Rightarrow>
                cycle_search adj target (rest @ filter (\<lambda>x. x \<notin> set (c # visited)) next) (c # visited)))"
  by pat_completeness auto

lemma unvisited_decrease:
  assumes "table_get adj c = Some next" "c \<notin> set visited"
  shows "length (filter (\<lambda>k. k \<notin> set (c # visited)) (map fst adj))
       < length (filter (\<lambda>k. k \<notin> set visited) (map fst adj))"
proof -
  have "c \<in> set (map fst adj)" using map_of_SomeD[OF assms(1)] by force
  then obtain xs ys where split: "map fst adj = xs @ c # ys" by (meson split_list)
  have "length (filter (\<lambda>k. k \<notin> set (c # visited)) zs) \<le> length (filter (\<lambda>k. k \<notin> set visited) zs)" for zs
    by (induction zs) auto
  from this[of xs] this[of ys] show ?thesis unfolding split using assms(2) by simp
qed

lemma unvisited_same:
  assumes "table_get adj c = None"
  shows "filter ((\<lambda>k. k \<noteq> c \<and> k \<notin> set visited) \<circ> fst) adj = filter ((\<lambda>k. k \<notin> set visited) \<circ> fst) adj"
proof -
  have "c \<notin> fst ` set adj" using assms by (simp add: map_of_eq_None_iff)
  then show ?thesis by (intro filter_cong) auto
qed

termination cycle_search
proof (relation "measures [\<lambda>(adj, t, q, v). length (filter (\<lambda>k. k \<notin> set v) (map fst adj)), \<lambda>(adj, t, q, v). length q]",
    goal_cases)
  case (3 adj target c rest visited)
  then show ?case by (simp add: unvisited_same)
next
  case (4 adj target c rest visited nxt)
  then show ?case using unvisited_decrease[of adj c nxt visited] by simp
qed simp_all

definition detect_cycle :: "dependency_graph \<Rightarrow> string \<Rightarrow> string \<Rightarrow> bool" where
  "detect_cycle g from to = cycle_search (active_adjacency (dg_edges g)) from [to] []"

section \<open>Editing the graph\<close>

text \<open>A new edge, without its time of creation; the defaults of the schema are the caller's.\<close>

definition include_node :: "string \<Rightarrow> string list \<Rightarrow> string list" where
  "include_node n ns = (if n \<in> set ns then ns else ns @ [n])"

definition add_edge :: "int \<Rightarrow> dependency_edge \<Rightarrow> graph_state \<Rightarrow> dependency_edge result \<times> graph_state" where
  "add_edge now e s =
     (if de_type e = Prerequisite \<and> detect_cycle (gs_graph s) (de_from e) (de_to e)
      then (Inl (Thrown ''would create a cycle''), s)
      else (let full = e\<lparr>de_created_at := Iso now\<rparr>;
                g = gs_graph s;
                g' = \<lparr>dg_nodes = include_node (de_to e) (include_node (de_from e) (dg_nodes g)),
                      dg_edges = dg_edges g @ [full], dg_updated_at = Iso now\<rparr>
            in case graph_save (s\<lparr>gs_graph := g'\<rparr>) of
                 (Inl err, s') \<Rightarrow> (Inl err, s')
               | (Inr _, s') \<Rightarrow> (Inr full, s')))"

definition remove_edge :: "int \<Rightarrow> string \<Rightarrow> string \<Rightarrow> dependency_type \<Rightarrow> graph_state \<Rightarrow> unit result \<times> graph_state" where
  "remove_edge now from to ty s =
     graph_save (s\<lparr>gs_graph := (gs_graph s)\<lparr>
       dg_edges := filter (\<lambda>e. \<not> (de_from e = from \<and> de_to e = to \<and> de_type e = ty)) (dg_edges (gs_graph s)),
       dg_updated_at := Iso now\<rparr>\<rparr>)"

definition get_edge :: "dependency_graph \<Rightarrow> string \<Rightarrow> string \<Rightarrow> dependency_type option \<Rightarrow> dependency_edge option" where
  "get_edge g from to ty =
     find (\<lambda>e. de_from e = from \<and> de_to e = to \<and> (case ty of None \<Rightarrow> True | Some t \<Rightarrow> de_type e = t)) (dg_edges g)"

text \<open>Assigning to the first element that \<open>find\<close> returns.\<close>

fun update_first :: "('a \<Rightarrow> bool) \<Rightarrow> ('a \<Rightarrow> 'a) \<Rightarrow> 'a list \<Rightarrow> 'a list" where
  "update_first P f [] = []"
| "update_first P f (x # xs) = (if P x then f x # xs else x # update_first P f xs)"

definition update_edge_status :: "int \<Rightarrow> string \<Rightarrow> string \<Rightarrow> edge_status \<Rightarrow> graph_state \<Rightarrow> unit result \<times> graph_state" where
  "update_edge_status now from to st s =
     (case get_edge (gs_graph s) from to None of
        None \<Rightarrow> (Inr (), s)
      | Some _ \<Rightarrow>
          graph_save (s\<lparr>gs_graph := (gs_graph s)\<lparr>
            dg_edges := update_first (\<lambda>e. de_from e = from \<and> de_to e = to) (\<lambda>e. e\<lparr>de_status := st\<rparr>)
                          (dg_edges (gs_graph s)),
            dg_updated_at := Iso now\<rparr>\<rparr>))"

section \<open>Queries\<close>

definition get_edges :: "dependency_graph \<Rightarrow> string \<Rightarrow> dependency_edge list" where
  "get_edges g goal = filter (\<lambda>e. de_from e = goal \<or> de_to e = goal) (dg_edges g)"

definition get_prerequisites :: "dependency_graph \<Rightarrow> string \<Rightarrow> dependency_edge list" where
  "get_prerequisites g goal =
     filter (\<lambda>e. de_to e = goal \<and> de_type e = Prerequisite \<and> de_status e = Active) (dg_edges g)"

definition is_blocked :: "dependency_graph \<Rightarrow> string \<Rightarrow> bool" where
  "is_blocked g goal \<longleftrightarrow> length (get_prerequisites g goal) > 0"

definition get_blocking_goals :: "dependency_graph \<Rightarrow> string \<Rightarrow> string list" where
  "get_blocking_goals g goal = map de_from (get_prerequisites g goal)"

definition get_resource_conflicts :: "dependency_graph \<Rightarrow> string \<Rightarrow> dependency_edge list" where
  "get_resource_conflicts g goal =
     filter (\<lambda>e. de_type e = Resource_conflict \<and> de_status e = Active \<and> (de_from e = goal \<or> de_to e = goal)) (dg_edges g)"

definition get_synergy_partners :: "dependency_graph \<Rightarrow> string \<Rightarrow> string list" where
  "get_synergy_partners g goal =
     map (\<lambda>e. if de_from e = goal then de_to e else de_from e)
       (filter (\<lambda>e. de_type e = Synergy \<and> de_status e = Active \<and> (de_from e = goal \<or> de_to e = goal)) (dg_edges g))"

section \<open>Detection by the language model\<close>

record detect_item =
  di_from :: string
  di_to :: string
  di_type :: dependency_type
  di_condition :: "string option"
  di_affected_dimensions :: "string list option"
  di_reasoning :: "string option"
  di_detection_confidence :: "rat option"

text \<open>One round of the loop; an item whose edge is refused is skipped.\<close>

definition detect_add :: "int \<Rightarrow> dependency_edge list \<times> graph_state \<Rightarrow> detect_item \<Rightarrow> dependency_edge list \<times> graph_state" where
  "detect_add now acc i = (case acc of (edges, s) \<Rightarrow>
     (case add_edge now
        \<lparr>de_from = di_from i, de_to = di_to i, de_type = di_type i, de_status = Active,
         de_condition = di_condition i, de_affected_dimensions = nullish (di_affected_dimensions i) [],
         de_mitigation = None, de_detection_confidence = nullish (di_detection_confidence i) (1 / 2),
         de_strategy_dependency = None, de_reasoning = di_reasoning i, de_created_at = Iso now\<rparr> s of
        (Inl _, s') \<Rightarrow> (edges, s')
      | (Inr e, s') \<Rightarrow> (edges @ [e], s')))"

definition auto_detect_dependencies ::
  "int \<Rightarrow> bool \<Rightarrow> string list \<Rightarrow> detect_item list option \<Rightarrow> graph_state \<Rightarrow> dependency_edge list \<times> graph_state" where
  "auto_detect_dependencies now configured existing response s =
     (if \<not> configured \<or> existing = [] then ([], s)
      else (case response of None \<Rightarrow> ([], s) | Some items \<Rightarrow> foldl (detect_add now) ([], s) items))"

section \<open>Strategy dependencies\<close>

definition add_strategy_dependency ::
  "int \<Rightarrow> string \<Rightarrow> string \<Rightarrow> strategy_kind \<Rightarrow> string \<Rightarrow> graph_state \<Rightarrow> unit result \<times> graph_state" where
  "add_strategy_dependency now source target kind goal s =
     (case add_edge now
        \<lparr>de_from = source, de_to = target, de_type = Strategy_dependency, de_status = Active, de_condition = None,
         de_affected_dimensions = [], de_mitigation = None, de_detection_confidence = 1,
         de_strategy_dependency = Some \<lparr>sm_dependency_type = kind, sm_goal_id = goal\<rparr>, de_reasoning = None,
         de_created_at = Iso now\<rparr> s of
        (Inl e, s') \<Rightarrow> (Inl e, s') | (Inr _, s') \<Rightarrow> (Inr (), s'))"

text \<open>
  One token \<open>key:value\<close>: the position of the first colon must be positive. The result is the
  trimmed pair, if both parts are non-empty.
\<close>

definition parse_token :: "string \<Rightarrow> (string \<times> string) option" where
  "parse_token tok =
     (if CHR '':'' \<notin> set tok then None
      else (let k = takeWhile (\<lambda>x. x \<noteq> CHR '':'') tok;
                key = trim k;
                val = trim (tl (dropWhile (\<lambda>x. x \<noteq> CHR '':'') tok))
            in if k = [] then None
               else if key \<noteq> [] \<and> val \<noteq> [] then Some (key, val) else None))"

definition parse_legacy_reasoning :: "string option \<Rightarrow> strategy_metadata option" where
  "parse_legacy_reasoning reasoning =
     (if \<not> truthy reasoning then None
      else (let tokens = filter (\<lambda>t. t \<noteq> []) (map trim (split_at_char (CHR '';'') (the reasoning)))
            in if length tokens \<noteq> 2 then None
               else (let fields = foldl (\<lambda>t tok. case parse_token tok of None \<Rightarrow> t | Some (k, v) \<Rightarrow> table_put k v t) [] tokens
                     in if length fields \<noteq> 2 then None
                        else (case table_get fields ''strategy_dependency_type'' of
                                None \<Rightarrow> None
                              | Some ty \<Rightarrow>
                                  (case (if ty = ''prerequisite'' then Some Strategy_prerequisite
                                         else if ty = ''enhances'' then Some Strategy_enhances else None) of
                                     None \<Rightarrow> None
                                   | Some kind \<Rightarrow>
                                       (case table_get fields ''goal_id'' of
                                          None \<Rightarrow> None
                                        | Some goal \<Rightarrow> Some \<lparr>sm_dependency_type = kind, sm_goal_id = goal\<rparr>))))))"

definition resolve_strategy_metadata :: "dependency_edge \<Rightarrow> strategy_metadata option" where
  "resolve_strategy_metadata e = (case de_strategy_dependency e of
     Some m \<Rightarrow> Some m | None \<Rightarrow> parse_legacy_reasoning (de_reasoning e))"

record strategy_link =
  sl_source :: string
  sl_target :: string
  sl_dependency_type :: strategy_kind
  sl_goal_id :: string

definition get_strategy_dependencies :: "dependency_graph \<Rightarrow> string \<Rightarrow> strategy_link list" where
  "get_strategy_dependencies g strategy =
     concat (map (\<lambda>e. case resolve_strategy_metadata e of
         None \<Rightarrow> []
       | Some m \<Rightarrow> [\<lparr>sl_source = de_from e, sl_target = de_to e,
                     sl_dependency_type = sm_dependency_type m, sl_goal_id = sm_goal_id m\<rparr>])
       (filter (\<lambda>e. de_type e = Strategy_dependency \<and> (de_from e = strategy \<or> de_to e = strategy)) (dg_edges g)))"

definition is_strategy_blocked :: "dependency_graph \<Rightarrow> string \<Rightarrow> string list \<Rightarrow> bool" where
  "is_strategy_blocked g strategy completed \<longleftrightarrow>
     (\<exists>d \<in> set (get_strategy_dependencies g strategy).
        sl_dependency_type d = Strategy_prerequisite \<and> sl_target d = strategy \<and> sl_source d \<notin> set completed)"

section \<open>Correctness of the cycle search\<close>

text \<open>The relation of the active prerequisite edges.\<close>

definition prereq_rel :: "dependency_edge list \<Rightarrow> (string \<times> string) set" where
  "prereq_rel es = {(de_from e, de_to e) | e. e \<in> set es \<and> de_type e = Prerequisite \<and> de_status e = Active}"

definition successors :: "(string, string list) table \<Rightarrow> string \<Rightarrow> string list" where
  "successors adj x = (case table_get adj x of None \<Rightarrow> [] | Some ys \<Rightarrow> ys)"

definition adj_rel :: "(string, string list) table \<Rightarrow> (string \<times> string) set" where
  "adj_rel adj = {(x, y). y \<in> set (successors adj x)}"

lemma successors_put: "successors (table_put k v t) x = (if x = k then v else successors t x)"
  by (simp add: successors_def table_get_put)

lemma successors_add:
  "successors (add_adjacency adj e) x =
     (if de_type e = Prerequisite \<and> de_status e = Active \<and> x = de_from e then successors adj x @ [de_to e]
      else successors adj x)"
  by (auto simp: add_adjacency_def successors_def table_get_put split: option.splits)

lemma add_adjacency_rel:
  "adj_rel (add_adjacency adj e) = adj_rel adj \<union> prereq_rel [e]"
  by (auto simp: adj_rel_def successors_add prereq_rel_def split: if_splits)

lemma active_adjacency_rel: "adj_rel (active_adjacency es) = prereq_rel es"
proof -
  have "adj_rel (foldl add_adjacency adj es) = adj_rel adj \<union> prereq_rel es" for adj
  proof (induction es arbitrary: adj)
    case Nil
    then show ?case by (simp add: prereq_rel_def)
  next
    case (Cons e es)
    then show ?case by (auto simp: add_adjacency_rel prereq_rel_def)
  qed
  from this[of "[]"] show ?thesis by (simp add: active_adjacency_def adj_rel_def successors_def)
qed

lemma leave_visited:
  assumes "\<And>v w. v \<in> V \<Longrightarrow> (v, w) \<in> R \<Longrightarrow> w \<in> V \<union> Q" "t \<notin> V" "(v, t) \<in> R\<^sup>*" "v \<in> V"
  shows "\<exists>w \<in> Q - V. (w, t) \<in> R\<^sup>*"
  using assms(3,4)
proof (induction rule: converse_rtrancl_induct)
  case base
  then show ?case using assms(2) by simp
next
  case (step v w)
  show ?case
  proof (cases "w \<in> V")
    case True
    then show ?thesis using step.IH by blast
  next
    case False
    then have "w \<in> Q - V" using assms(1)[OF step.prems step.hyps(1)] by blast
    then show ?thesis using step.hyps(2) by blast
  qed
qed

lemma cycle_search_reach:
  assumes "\<And>v w. v \<in> set visited \<Longrightarrow> (v, w) \<in> adj_rel adj \<Longrightarrow> w \<in> set visited \<union> set todo" "target \<notin> set visited"
  shows "cycle_search adj target todo visited \<longleftrightarrow> (\<exists>c \<in> set todo. (c, target) \<in> (adj_rel adj)\<^sup>*)"
  using assms
proof (induction adj target todo visited rule: cycle_search.induct)
  case (1 adj target visited)
  then show ?case by simp
next
  case (2 adj target c rest visited)
  show ?case
  proof (cases "c = target")
    case True
    then show ?thesis by simp
  next
    case ne: False
    show ?thesis
    proof (cases "c \<in> set visited")
      case True
      have "(\<exists>w \<in> set rest. (w, target) \<in> (adj_rel adj)\<^sup>*)" if "(c, target) \<in> (adj_rel adj)\<^sup>*"
        using leave_visited[of "set visited" "adj_rel adj" "set (c # rest)" target c] 2(4,5) that True by auto
      moreover have "cycle_search adj target rest visited \<longleftrightarrow> (\<exists>c \<in> set rest. (c, target) \<in> (adj_rel adj)\<^sup>*)"
        using True 2(4) by (intro 2(1)[OF ne True _ 2(5)]) auto
      ultimately show ?thesis using ne True by auto
    next
      case new: False
      let ?next = "filter (\<lambda>x. x \<notin> set (c # visited)) (successors adj c)"
      have run: "cycle_search adj target (c # rest) visited = cycle_search adj target (rest @ ?next) (c # visited)"
        using ne new by (auto simp: successors_def split: option.splits)
      have closed: "w \<in> set (c # visited) \<union> set (rest @ ?next)"
        if "v \<in> set (c # visited)" "(v, w) \<in> adj_rel adj" for v w
        using that 2(4)[of v w] by (auto simp: adj_rel_def)
      have fresh: "target \<notin> set (c # visited)" using ne 2(5) by simp
      have ih: "cycle_search adj target (rest @ ?next) (c # visited) \<longleftrightarrow>
          (\<exists>w \<in> set (rest @ ?next). (w, target) \<in> (adj_rel adj)\<^sup>*)"
      proof (cases "table_get adj c")
        case None
        then have "?next = []" by (simp add: successors_def)
        then show ?thesis using 2(2)[OF ne new None] closed fresh by simp
      next
        case (Some ns)
        then have "successors adj c = ns" by (simp add: successors_def)
        then show ?thesis using 2(3)[OF ne new Some] closed fresh by simp
      qed
      have "(\<exists>w \<in> set (rest @ ?next). (w, target) \<in> (adj_rel adj)\<^sup>*) \<longleftrightarrow>
          (\<exists>w \<in> set (c # rest). (w, target) \<in> (adj_rel adj)\<^sup>*)"
      proof
        assume "\<exists>w \<in> set (rest @ ?next). (w, target) \<in> (adj_rel adj)\<^sup>*"
        then show "\<exists>w \<in> set (c # rest). (w, target) \<in> (adj_rel adj)\<^sup>*"
          by (auto simp: adj_rel_def intro: converse_rtrancl_into_rtrancl)
      next
        assume "\<exists>w \<in> set (c # rest). (w, target) \<in> (adj_rel adj)\<^sup>*"
        then consider "\<exists>w \<in> set rest. (w, target) \<in> (adj_rel adj)\<^sup>*" | "(c, target) \<in> (adj_rel adj)\<^sup>*" by auto
        then show "\<exists>w \<in> set (rest @ ?next). (w, target) \<in> (adj_rel adj)\<^sup>*"
        proof cases
          case 2
          then show ?thesis
            using leave_visited[of "set (c # visited)" "adj_rel adj" "set (rest @ ?next)" target c] closed fresh
            by (meson DiffD1 list.set_intros(1))
        qed auto
      qed
      then show ?thesis using run ih by simp
    qed
  qed
qed

lemma detect_cycle_iff: "detect_cycle g from to \<longleftrightarrow> (to, from) \<in> (prereq_rel (dg_edges g))\<^sup>*"
  unfolding detect_cycle_def by (subst cycle_search_reach) (simp_all add: active_adjacency_rel)

section \<open>Properties\<close>

text \<open>
  C36. Cycle detection is exact: \<open>detectCycle\<close> terminates and answers true exactly when the active
  prerequisite edges lead from \<open>to\<close> back to \<open>from\<close>.
\<close>

theorem detect_cycle_exact:
  "detect_cycle g src dst \<longleftrightarrow>
     (dst, src) \<in> {(de_from e, de_to e) | e. e \<in> set (dg_edges g) \<and> de_type e = Prerequisite \<and> de_status e = Active}\<^sup>*"
  unfolding detect_cycle_iff prereq_rel_def ..

definition graph_acyclic :: "dependency_graph \<Rightarrow> bool" where
  "graph_acyclic g \<longleftrightarrow> acyclic (prereq_rel (dg_edges g))"

lemma prereq_rel_append:
  "prereq_rel (es @ [e]) = (if de_type e = Prerequisite \<and> de_status e = Active
     then insert (de_from e, de_to e) (prereq_rel es) else prereq_rel es)"
  by (auto simp: prereq_rel_def)

lemma prereq_rel_mono: "set es \<subseteq> set es' \<Longrightarrow> prereq_rel es \<subseteq> prereq_rel es'"
  by (auto simp: prereq_rel_def)

lemma update_first_set: "x \<in> set (update_first P f xs) \<Longrightarrow> x \<in> set xs \<or> (\<exists>y \<in> set xs. x = f y)"
  by (induction xs) (auto split: if_splits)

definition endpoints_in :: "dependency_graph \<Rightarrow> bool" where
  "endpoints_in g \<longleftrightarrow> (\<forall>e \<in> set (dg_edges g). de_from e \<in> set (dg_nodes g) \<and> de_to e \<in> set (dg_nodes g))"

text \<open>The calls that edit the graph; a status update that activates an edge is left out.\<close>

inductive graph_step :: "graph_state \<Rightarrow> graph_state \<Rightarrow> bool" where
  gstep_add: "graph_step s (snd (add_edge now e s))"
| gstep_remove: "graph_step s (snd (remove_edge now src dst ty s))"
| gstep_status: "st \<noteq> Active \<Longrightarrow> graph_step s (snd (update_edge_status now src dst st s))"
| gstep_strategy: "graph_step s (snd (add_strategy_dependency now src dst kind goal s))"
| gstep_detect: "graph_step s (snd (auto_detect_dependencies now conf existing resp s))"
| gstep_init: "graph_step s (graph_init now s)"

inductive graph_reachable :: "graph_state \<Rightarrow> bool" where
  greach_new: "graph_reachable \<lparr>gs_graph = empty_graph now, gs_store = None\<rparr>"
| greach_step: "graph_reachable s \<Longrightarrow> graph_step s s' \<Longrightarrow> graph_reachable s'"

definition graph_ok :: "dependency_graph \<Rightarrow> bool" where
  "graph_ok g \<longleftrightarrow> graph_acyclic g \<and> endpoints_in g"

definition gstate_ok :: "graph_state \<Rightarrow> bool" where
  "gstate_ok s \<longleftrightarrow> graph_ok (gs_graph s) \<and> opt_all graph_ok (gs_store s)"

lemma graph_ok_empty [simp]: "graph_ok (empty_graph now)"
  by (simp add: graph_ok_def graph_acyclic_def endpoints_in_def empty_graph_def prereq_rel_def acyclic_def)

lemma gstate_ok_save: "graph_ok (gs_graph s) \<Longrightarrow> opt_all graph_ok (gs_store s) \<Longrightarrow> gstate_ok (snd (graph_save s))"
  by (simp add: graph_save_def gstate_ok_def)

lemma graph_ok_add:
  assumes "graph_ok g" "de_type e = Prerequisite \<Longrightarrow> \<not> detect_cycle g (de_from e) (de_to e)"
  shows "graph_ok \<lparr>dg_nodes = include_node (de_to e) (include_node (de_from e) (dg_nodes g)),
                   dg_edges = dg_edges g @ [e\<lparr>de_created_at := t\<rparr>], dg_updated_at = u\<rparr>"
proof -
  have "acyclic (prereq_rel (dg_edges g @ [e\<lparr>de_created_at := t\<rparr>]))"
    using assms by (simp add: prereq_rel_append acyclic_insert graph_ok_def graph_acyclic_def detect_cycle_iff)
  moreover have "endpoints_in \<lparr>dg_nodes = include_node (de_to e) (include_node (de_from e) (dg_nodes g)),
                   dg_edges = dg_edges g @ [e\<lparr>de_created_at := t\<rparr>], dg_updated_at = u\<rparr>"
    using assms(1) by (auto simp: graph_ok_def endpoints_in_def include_node_def)
  ultimately show ?thesis by (simp add: graph_ok_def graph_acyclic_def)
qed

lemma graph_ok_subset:
  assumes "graph_ok g" "set es \<subseteq> set (dg_edges g)"
  shows "graph_ok (g\<lparr>dg_edges := es, dg_updated_at := u\<rparr>)"
  using assms acyclic_subset[OF _ prereq_rel_mono[OF assms(2)]]
  by (auto simp: graph_ok_def graph_acyclic_def endpoints_in_def)

lemma add_edge_ok: "gstate_ok s \<Longrightarrow> gstate_ok (snd (add_edge now e s))"
proof -
  assume ok: "gstate_ok s"
  show ?thesis
  proof (cases "de_type e = Prerequisite \<and> detect_cycle (gs_graph s) (de_from e) (de_to e)")
    case True
    then show ?thesis using ok by (simp add: add_edge_def)
  next
    case False
    let ?g = "\<lparr>dg_nodes = include_node (de_to e) (include_node (de_from e) (dg_nodes (gs_graph s))),
                   dg_edges = dg_edges (gs_graph s) @ [e\<lparr>de_created_at := Iso now\<rparr>], dg_updated_at = Iso now\<rparr>"
    have "graph_ok ?g" using ok False by (intro graph_ok_add) (auto simp: gstate_ok_def)
    then have "gstate_ok (snd (graph_save (s\<lparr>gs_graph := ?g\<rparr>)))"
      using ok by (intro gstate_ok_save) (simp_all add: gstate_ok_def)
    moreover have "snd (add_edge now e s) = snd (graph_save (s\<lparr>gs_graph := ?g\<rparr>))"
      using False by (auto simp: add_edge_def Let_def graph_save_def)
    ultimately show ?thesis by simp
  qed
qed

lemma detect_add_ok: "gstate_ok (snd acc) \<Longrightarrow> gstate_ok (snd (detect_add now acc i))"
proof -
  assume ok: "gstate_ok (snd acc)"
  obtain edges s where acc: "acc = (edges, s)" by (cases acc)
  let ?e = "\<lparr>de_from = di_from i, de_to = di_to i, de_type = di_type i, de_status = Active,
         de_condition = di_condition i, de_affected_dimensions = nullish (di_affected_dimensions i) [],
         de_mitigation = None, de_detection_confidence = nullish (di_detection_confidence i) (1 / 2),
         de_strategy_dependency = None, de_reasoning = di_reasoning i, de_created_at = Iso now\<rparr>"
  have "snd (detect_add now acc i) = snd (add_edge now ?e s)"
    by (simp add: detect_add_def acc split: prod.split sum.split)
  then show ?thesis using add_edge_ok ok acc by simp
qed

lemma update_status_ok:
  assumes ok: "gstate_ok s" and st: "st \<noteq> Active"
  shows "gstate_ok (snd (update_edge_status now src dst st s))"
proof -
  let ?es = "update_first (\<lambda>e. de_from e = src \<and> de_to e = dst) (\<lambda>e. e\<lparr>de_status := st\<rparr>) (dg_edges (gs_graph s))"
  have "prereq_rel ?es \<subseteq> prereq_rel (dg_edges (gs_graph s))"
    using st by (auto simp: prereq_rel_def dest!: update_first_set)
  moreover have "endpoints_in ((gs_graph s)\<lparr>dg_edges := ?es, dg_updated_at := Iso now\<rparr>)"
    using ok by (auto simp: gstate_ok_def graph_ok_def endpoints_in_def dest!: update_first_set)
  ultimately have "graph_ok ((gs_graph s)\<lparr>dg_edges := ?es, dg_updated_at := Iso now\<rparr>)"
    using ok acyclic_subset by (auto simp: gstate_ok_def graph_ok_def graph_acyclic_def)
  then have "gstate_ok (snd (graph_save (s\<lparr>gs_graph := (gs_graph s)\<lparr>dg_edges := ?es, dg_updated_at := Iso now\<rparr>\<rparr>)))"
    using ok by (intro gstate_ok_save) (simp_all add: gstate_ok_def)
  then show ?thesis using ok by (simp add: update_edge_status_def split: option.split)
qed

lemma graph_step_ok: "graph_step s s' \<Longrightarrow> gstate_ok s \<Longrightarrow> gstate_ok s'"
proof (induction rule: graph_step.induct)
  case (gstep_remove s now src dst ty)
  then show ?case
    unfolding remove_edge_def
    by (intro gstate_ok_save) (auto simp: gstate_ok_def intro!: graph_ok_subset)
next
  case (gstep_strategy s now src dst kind goal)
  then show ?case using add_edge_ok[OF gstep_strategy]
    by (simp add: add_strategy_dependency_def split: prod.split sum.split) (metis snd_conv)
next
  case (gstep_detect s now conf existing resp)
  have "gstate_ok (snd (foldl (detect_add now) ([], s) items))" for items
    by (induction items rule: rev_induct) (simp_all add: gstep_detect detect_add_ok)
  then show ?case using gstep_detect by (auto simp: auto_detect_dependencies_def split: option.splits)
next
  case (gstep_init s now)
  then show ?case
    by (auto simp: graph_init_def graph_load_def gstate_ok_def split: option.splits)
qed (simp_all add: add_edge_ok update_status_ok)

lemma graph_reachable_ok: "graph_reachable s \<Longrightarrow> gstate_ok s"
proof (induction rule: graph_reachable.induct)
  case (greach_new now)
  then show ?case by (simp add: gstate_ok_def)
qed (rule graph_step_ok)

text \<open>An acyclic finite graph leaves some node free.\<close>

lemma unblocked_exists:
  assumes "graph_ok g" "dg_nodes g \<noteq> []"
  shows "\<exists>n \<in> set (dg_nodes g). \<not> is_blocked g n"
proof (rule ccontr)
  assume "\<not> ?thesis"
  then have all: "\<And>n. n \<in> set (dg_nodes g) \<Longrightarrow> is_blocked g n" by blast
  let ?R = "prereq_rel (dg_edges g)"
  have fin: "finite ?R"
  proof -
    have "?R \<subseteq> (\<lambda>e. (de_from e, de_to e)) ` set (dg_edges g)" by (auto simp: prereq_rel_def)
    then show ?thesis by (rule finite_subset) simp
  qed
  have "wf ?R" using finite_acyclic_wf[OF fin] assms(1) by (simp add: graph_ok_def graph_acyclic_def)
  moreover obtain n where "n \<in> set (dg_nodes g)" using assms(2) by (cases "dg_nodes g") auto
  ultimately obtain m where m: "m \<in> set (dg_nodes g)" "\<And>y. (y, m) \<in> ?R \<Longrightarrow> y \<notin> set (dg_nodes g)"
    by (rule wfE_min) blast
  obtain e where "e \<in> set (dg_edges g)" "de_to e = m" "de_type e = Prerequisite" "de_status e = Active"
    using all[OF m(1)] by (auto simp: is_blocked_def get_prerequisites_def filter_empty_conv)
  then have "(de_from e, m) \<in> ?R" "de_from e \<in> set (dg_nodes g)"
    using assms(1) by (auto simp: prereq_rel_def graph_ok_def endpoints_in_def)
  then show False using m(2) by blast
qed

text \<open>
  C17. Goals never deadlock: in every state the graph reaches by adding and removing edges, settling
  them, detecting them with the model and reloading from the store, the active prerequisites are
  acyclic in memory and in the store, every edge of either joins known nodes, and so, as long as there is
  a goal, some goal is not blocked.
\<close>

theorem goals_never_deadlock:
  assumes "graph_reachable s"
  shows "graph_acyclic (gs_graph s) \<and> opt_all graph_acyclic (gs_store s) \<and>
    endpoints_in (gs_graph s) \<and> opt_all endpoints_in (gs_store s) \<and>
    (dg_nodes (gs_graph s) = [] \<or> (\<exists>n \<in> set (dg_nodes (gs_graph s)). \<not> is_blocked (gs_graph s) n))"
  using graph_reachable_ok[OF assms] unblocked_exists[of "gs_graph s"]
  by (cases "gs_store s") (auto simp: gstate_ok_def graph_ok_def)

definition sample_edge :: "string \<Rightarrow> string \<Rightarrow> edge_status \<Rightarrow> dependency_edge" where
  "sample_edge a b st = \<lparr>de_from = a, de_to = b, de_type = Prerequisite, de_status = st, de_condition = None,
     de_affected_dimensions = [], de_mitigation = None, de_detection_confidence = 1,
     de_strategy_dependency = None, de_reasoning = None, de_created_at = Iso 0\<rparr>"

definition sample_graph :: graph_state where
  "sample_graph = snd (add_edge 1 (sample_edge ''a'' ''b'' Active) \<lparr>gs_graph = empty_graph 0, gs_store = None\<rparr>)"

lemma sample_graph_eval:
  "sample_graph = (let g = \<lparr>dg_nodes = [''a'', ''b''], dg_edges = [(sample_edge ''a'' ''b'' Active)\<lparr>de_created_at := Iso 1\<rparr>],
     dg_updated_at = Iso 1\<rparr> in \<lparr>gs_graph = g, gs_store = Some g\<rparr>)"
  by (simp add: sample_graph_def add_edge_def detect_cycle_def active_adjacency_def empty_graph_def Let_def
      sample_edge_def graph_save_def graph_valid_def edge_valid_def include_node_def)

theorem goals_never_deadlock_witness:
  "graph_acyclic (gs_graph sample_graph) \<and> (\<exists>n \<in> {''a'', ''b''}. \<not> is_blocked (gs_graph sample_graph) n) \<and>
   is_blocked (gs_graph sample_graph) ''b''"
proof -
  have "graph_reachable sample_graph"
    unfolding sample_graph_def by (rule greach_step[OF greach_new gstep_add])
  from goals_never_deadlock[OF this] show ?thesis
    by (simp add: sample_graph_eval Let_def is_blocked_def get_prerequisites_def sample_edge_def)
qed

section \<open>Where the graph can go wrong\<close>

text \<open>
  Reactivating an edge is not checked: when a prerequisite that was satisfied is followed by one
  in the other direction (which \<open>addEdge\<close> accepts), setting the first active again succeeds and
  closes a cycle: both goals block each other.
\<close>

lemma reactivation_closes_cycle:
  fixes now :: int
  assumes "get_edge (gs_graph s) a b None = Some e" "de_type e = Prerequisite"
    and "e' \<in> set (dg_edges (gs_graph s))" "de_from e' = b" "de_to e' = a" "de_type e' = Prerequisite" "de_status e' = Active"
    and "a \<noteq> b" "graph_valid (gs_graph s)"
  defines "s' \<equiv> snd (update_edge_status now a b Active s)"
  shows "fst (update_edge_status now a b Active s) = Inr () \<and> \<not> graph_acyclic (gs_graph s') \<and>
    is_blocked (gs_graph s') a \<and> is_blocked (gs_graph s') b"
proof -
  let ?P = "\<lambda>e. de_from e = a \<and> de_to e = b"
  let ?f = "\<lambda>e. e\<lparr>de_status := Active\<rparr>"
  let ?es = "update_first ?P ?f (dg_edges (gs_graph s))"
  have e: "e \<in> set (dg_edges (gs_graph s))" "?P e"
    using find_SomeD[OF assms(1)[unfolded get_edge_def]] by simp_all
  have upd: "update_first ?P ?f xs = (case find ?P xs of None \<Rightarrow> xs
      | Some x \<Rightarrow> takeWhile (\<lambda>y. \<not> ?P y) xs @ ?f x # tl (dropWhile (\<lambda>y. \<not> ?P y) xs))" for xs
    by (induction xs) (auto split: option.splits)
  have fnd: "find ?P (dg_edges (gs_graph s)) = Some e" using assms(1) by (simp add: get_edge_def)
  have in1: "?f e \<in> set ?es" unfolding upd fnd by simp
  have keep: "x \<in> set xs \<Longrightarrow> \<not> ?P x \<Longrightarrow> x \<in> set (update_first ?P ?f xs)" for x xs
    by (induction xs) auto
  have in2: "e' \<in> set ?es" using keep[OF assms(3)] assms(4,8) by simp
  have valid: "graph_valid ((gs_graph s)\<lparr>dg_edges := ?es, dg_updated_at := Iso now\<rparr>)"
    using assms(9) by (auto simp: graph_valid_def list_all_iff edge_valid_def dest!: update_first_set)
  have run: "update_edge_status now a b Active s = (Inr (), s\<lparr>gs_graph := (gs_graph s)\<lparr>dg_edges := ?es, dg_updated_at := Iso now\<rparr>,
      gs_store := Some ((gs_graph s)\<lparr>dg_edges := ?es, dg_updated_at := Iso now\<rparr>)\<rparr>)"
    using valid by (simp add: update_edge_status_def assms(1) graph_save_def)
  have "(a, b) \<in> prereq_rel ?es" "(b, a) \<in> prereq_rel ?es"
    using in1 in2 e(2) assms(2,4-7) unfolding prereq_rel_def by force+
  then have "\<not> acyclic (prereq_rel ?es)" by (meson acyclic_def r_into_trancl trancl_trans)
  moreover have "filter (\<lambda>x. de_to x = b \<and> de_type x = Prerequisite \<and> de_status x = Active) ?es \<noteq> []"
    "filter (\<lambda>x. de_to x = a \<and> de_type x = Prerequisite \<and> de_status x = Active) ?es \<noteq> []"
    using in1 in2 e(2) assms(2,5-7) unfolding filter_empty_conv by force+
  ultimately show ?thesis
    by (simp add: s'_def run graph_acyclic_def is_blocked_def get_prerequisites_def)
qed

definition sample_settled :: graph_state where
  "sample_settled = \<lparr>gs_graph = \<lparr>dg_nodes = [''a'', ''b''],
     dg_edges = [sample_edge ''a'' ''b'' Satisfied, sample_edge ''b'' ''a'' Active], dg_updated_at = Iso 0\<rparr>, gs_store = None\<rparr>"

text \<open>
  A refused edge stays in memory: adding a strategy dependency with an empty goal id throws, but
  the edge is already in the graph of the object; from then on every further edge and every
  status change throws too, and the stored graph never changes again.
\<close>

lemma refused_edge_poisons_graph:
  fixes now t :: int and src dst :: string and kind :: strategy_kind
  defines "s' s \<equiv> snd (add_strategy_dependency now src dst kind '''' s)"
  shows "fst (add_strategy_dependency now src dst kind '''' s) = Inl SchemaError \<and>
    gs_store (s' s) = gs_store s \<and>
    (\<exists>e \<in> set (dg_edges (gs_graph (s' s))). de_from e = src \<and> de_to e = dst) \<and>
    (\<exists>err. fst (add_edge t e2 (s' s)) = Inl err) \<and> gs_store (snd (add_edge t e2 (s' s))) = gs_store s \<and>
    gs_store (snd (update_edge_status t a b st (s' s))) = gs_store s"
proof -
  let ?bad = "\<lparr>de_from = src, de_to = dst, de_type = Strategy_dependency, de_status = Active, de_condition = None,
         de_affected_dimensions = [], de_mitigation = None, de_detection_confidence = 1,
         de_strategy_dependency = Some \<lparr>sm_dependency_type = kind, sm_goal_id = ''''\<rparr>, de_reasoning = None,
         de_created_at = Iso now\<rparr>"
  have bad: "\<not> edge_valid ?bad" "\<not> edge_valid (?bad\<lparr>de_status := st\<rparr>)" by (simp_all add: edge_valid_def)
  let ?s = "s\<lparr>gs_graph := \<lparr>dg_nodes = include_node dst (include_node src (dg_nodes (gs_graph s))),
      dg_edges = dg_edges (gs_graph s) @ [?bad], dg_updated_at = Iso now\<rparr>\<rparr>"
  have run: "add_strategy_dependency now src dst kind '''' s = (Inl SchemaError, ?s)"
    using bad by (simp add: add_strategy_dependency_def add_edge_def Let_def graph_save_def graph_valid_def)
  have add: "(\<exists>err. fst (add_edge t e2 ?s) = Inl err) \<and> gs_store (snd (add_edge t e2 ?s)) = gs_store s"
    using bad by (simp add: add_edge_def Let_def graph_save_def graph_valid_def)
  have upd: "\<not> graph_valid ((gs_graph ?s)\<lparr>dg_edges := update_first P (\<lambda>e. e\<lparr>de_status := st\<rparr>) (dg_edges (gs_graph ?s)), dg_updated_at := u\<rparr>)" for P u
  proof -
    have "?bad \<in> set (update_first P (\<lambda>e. e\<lparr>de_status := st\<rparr>) (xs @ [?bad])) \<or>
        ?bad\<lparr>de_status := st\<rparr> \<in> set (update_first P (\<lambda>e. e\<lparr>de_status := st\<rparr>) (xs @ [?bad]))" for xs
      by (induction xs) auto
    then show ?thesis using bad by (auto simp: graph_valid_def list_all_iff)
  qed
  have "gs_store (snd (update_edge_status t a b st ?s)) = gs_store s"
    using upd[where P = "\<lambda>e. de_from e = a \<and> de_to e = b" and u = "Iso t"]
    by (simp add: update_edge_status_def graph_save_def split: option.split)
  with add show ?thesis unfolding s'_def run by simp
qed

section \<open>The legacy metadata\<close>

lemma split_no_sep: "c \<notin> set w \<Longrightarrow> split_at_char c w = [w]"
  by (induction w) auto

definition kind_name :: "strategy_kind \<Rightarrow> string" where
  "kind_name k = (case k of Strategy_prerequisite \<Rightarrow> ''prerequisite'' | Strategy_enhances \<Rightarrow> ''enhances'')"

text \<open>
  The legacy metadata is read back: a reasoning text \<open>strategy_dependency_type:K;goal_id:G\<close>, with \<open>K\<close>
  one of the two kinds and \<open>G\<close> a non-empty id without semicolons or outer blanks, parses to
  \<open>K\<close> and \<open>G\<close> (colons inside \<open>G\<close> included).
\<close>

lemma legacy_metadata_roundtrip:
  assumes "goal \<noteq> ''''" "CHR '';'' \<notin> set goal" "\<not> is_space (hd goal)" "\<not> is_space (last goal)"
  shows "parse_legacy_reasoning (Some (''strategy_dependency_type:'' @ kind_name k @ '';goal_id:'' @ goal)) =
    Some \<lparr>sm_dependency_type = k, sm_goal_id = goal\<rparr>"
proof -
  have t1: "trim (''strategy_dependency_type:'' @ kind_name k) = ''strategy_dependency_type:'' @ kind_name k"
    by (rule trim_id) (cases k; simp add: kind_name_def is_space_def)+
  have t2: "trim (''goal_id:'' @ goal) = ''goal_id:'' @ goal"
    by (rule trim_id) (use assms in \<open>simp_all add: is_space_def\<close>)
  have sp: "split_at_char (CHR '';'') (''strategy_dependency_type:'' @ kind_name k @ '';goal_id:'' @ goal)
      = [''strategy_dependency_type:'' @ kind_name k, ''goal_id:'' @ goal]"
    using split_no_sep[OF assms(2)] by (cases k) (simp_all add: kind_name_def)
  have p1: "parse_token (''strategy_dependency_type:'' @ kind_name k) = Some (''strategy_dependency_type'', kind_name k)"
    using trim_id[of "''strategy_dependency_type''"] trim_id[of "kind_name k"]
    by (cases k) (simp_all add: parse_token_def kind_name_def is_space_def Let_def)
  have p2: "parse_token (''goal_id:'' @ goal) = Some (''goal_id'', goal)"
    using trim_id[of "''goal_id''"] trim_id[of goal] assms
    by (simp add: parse_token_def is_space_def Let_def)
  have "parse_legacy_reasoning (Some (''strategy_dependency_type:'' @ kind_name k @ '';goal_id:'' @ goal)) =
    (case (if kind_name k = ''prerequisite'' then Some Strategy_prerequisite
           else if kind_name k = ''enhances'' then Some Strategy_enhances else None) of
       None \<Rightarrow> None | Some kd \<Rightarrow> Some \<lparr>sm_dependency_type = kd, sm_goal_id = goal\<rparr>)"
    unfolding parse_legacy_reasoning_def option.sel sp
    using t1 t2 p1 p2 by (simp add: Let_def)
  then show ?thesis by (cases k) (simp_all add: kind_name_def)
qed

end
