(* ===== verification/Parallel_Executor.thy ===== *)
theory Parallel_Executor
  imports PS_Prelude Complex_Main
begin

text \<open>
  Parallel execution of a group of tasks: \<open>src/orchestrator/execution/parallel-executor.ts\<close>, with
  \<open>durationToMs\<close> of \<open>task/task-executor.ts\<close>.

  The waves are computed by recursion on the tasks that remain. \<open>runWithSemaphore\<close> is a step
  relation: a fixed number of workers, each of which, when its task ends, records the result and takes
  the next index in the same turn of the event loop; the tasks may end in any order. The pipeline
  that runs one task is an argument (its answer, or the text of its exception). Durations are
  rational; their product with a unit is exact wherever the double is.
\<close>

section \<open>Task groups\<close>

datatype duration_unit = Minutes | Hours | Days | Weeks

fun unit_ms :: "duration_unit \<Rightarrow> rat" where
  "unit_ms Minutes = 60 * 1000"
| "unit_ms Hours = 60 * 60 * 1000"
| "unit_ms Days = 24 * 60 * 60 * 1000"
| "unit_ms Weeks = 7 * 24 * 60 * 60 * 1000"

definition duration_to_ms :: "rat \<times> duration_unit \<Rightarrow> rat" where
  "duration_to_ms d = fst d * unit_ms (snd d)"

record subtask =
  tk_id :: string
  tk_work_description :: string
  tk_estimated_duration :: "(rat \<times> duration_unit) option"

record task_group =
  tg_subtasks :: "subtask list"
  tg_dependencies :: "(string \<times> string) list"
  tg_file_ownership :: "(string, string list) table"
  tg_shared_context :: "string option"

datatype verdict = Pass | Partial | Fail

record subtask_result =
  sr_task_id :: string
  sr_verdict :: verdict
  sr_output :: string
  sr_error :: "string option"

section \<open>Ownership of files\<close>

fun join :: "string \<Rightarrow> string list \<Rightarrow> string" where
  "join sep [] = []"
| "join sep [x] = x"
| "join sep (x # xs) = x @ sep @ join sep xs"

definition validate_file_ownership :: "task_group \<Rightarrow> string list" where
  "validate_file_ownership g =
     map (\<lambda>(file, owners). ''File \"'' @ file @ ''\" is owned by multiple tasks: '' @ join '', '' owners)
       (filter (\<lambda>(_, owners). length owners > 1) (tg_file_ownership g))"

section \<open>Waves\<close>

text \<open>The map \<open>dependsOn\<close>: a dependency of an unknown task is ignored.\<close>

definition depends_on :: "task_group \<Rightarrow> (string, string list) table" where
  "depends_on g =
     foldl (\<lambda>m (from, to). case table_get m to of
              None \<Rightarrow> m
            | Some ds \<Rightarrow> table_put to (if from \<in> set ds then ds else ds @ [from]) m)
       (foldl (\<lambda>m i. table_put i [] m) [] (map tk_id (tg_subtasks g))) (tg_dependencies g)"

definition ready :: "(string, string list) table \<Rightarrow> string list \<Rightarrow> string \<Rightarrow> bool" where
  "ready deps completed i \<longleftrightarrow> list_all (\<lambda>d. d \<in> set completed) (nullish (table_get deps i) [])"

function build_waves :: "(string, string list) table \<Rightarrow> string list \<Rightarrow> string list \<Rightarrow> string list list" where
  "build_waves deps completed remaining =
     (if remaining = [] then []
      else (let wave = filter (ready deps completed) remaining
            in if wave = [] then [remaining]
               else wave # build_waves deps (completed @ wave) (filter (\<lambda>i. i \<notin> set wave) remaining)))"
  by pat_completeness auto

termination build_waves
proof (relation "measure (\<lambda>(deps, completed, remaining). length remaining)", simp, goal_cases)
  case (1 deps completed remaining wave)
  then obtain x where x: "x \<in> set remaining" "x \<in> set wave" by (metis filter_is_subset hd_in_set subset_iff)
  have "length (filter (\<lambda>i. i \<notin> set wave) remaining) < length remaining"
    by (rule length_filter_less[OF x(1)]) (use x(2) in simp)
  then show ?case using 1 by simp
qed

declare build_waves.simps [simp del]

definition build_execution_order :: "task_group \<Rightarrow> string list list" where
  "build_execution_order g = build_waves (depends_on g) [] (uniq (map tk_id (tg_subtasks g)))"

section \<open>Running one task\<close>

record agent_task =
  at_prompt :: string
  at_timeout_ms :: rat
  at_adapter_type :: string

text \<open>What a pipeline run gives: its verdict and the outputs of its stages, or an exception.\<close>

type_synonym pipeline_run = "string + (verdict \<times> string list)"

definition run_subtask :: "(string \<Rightarrow> agent_task \<Rightarrow> pipeline_run) \<Rightarrow> task_group \<Rightarrow> string \<Rightarrow> subtask_result" where
  "run_subtask pipeline g taskId =
     (case find (\<lambda>t. tk_id t = taskId) (tg_subtasks g) of
        None \<Rightarrow> \<lparr>sr_task_id = taskId, sr_verdict = Fail, sr_output = [], sr_error = Some ''Subtask not found''\<rparr>
      | Some t \<Rightarrow>
          (case pipeline taskId
             \<lparr>at_prompt = tk_work_description t,
              at_timeout_ms = (case tk_estimated_duration t of None \<Rightarrow> 60000 | Some d \<Rightarrow> duration_to_ms d),
              at_adapter_type = ''default''\<rparr> of
             Inl err \<Rightarrow> \<lparr>sr_task_id = taskId, sr_verdict = Fail, sr_output = [], sr_error = Some err\<rparr>
           | Inr (v, outs) \<Rightarrow> \<lparr>sr_task_id = taskId, sr_verdict = v,
                              sr_output = (if outs = [] then [] else last outs), sr_error = None\<rparr>))"

definition aggregate_verdict :: "subtask_result list \<Rightarrow> verdict" where
  "aggregate_verdict rs =
     (if length rs = 0 then Fail
      else (let hasFailure = (\<exists>r \<in> set rs. sr_verdict r = Fail);
                hasPass = (\<exists>r \<in> set rs. sr_verdict r = Pass)
            in if \<not> hasFailure then Pass else if hasPass then Partial else Fail))"

section \<open>The semaphore\<close>

text \<open>
  A worker is running the task of an index, or has left its loop; \<open>results\<close> is the array, with a
  hole (\<open>None\<close>) where nothing was stored.
\<close>

record 'a pool =
  pl_next :: nat
  pl_workers :: "nat option list"
  pl_results :: "'a option list"

text \<open>\<open>n\<close> tasks, limit \<open>k\<close>: \<open>Promise.all\<close> starts the workers one after the other.\<close>

definition pool_start :: "nat \<Rightarrow> nat \<Rightarrow> 'a pool" where
  "pool_start n k = \<lparr>pl_next = min k n, pl_workers = map Some [0..<min k n], pl_results = replicate n None\<rparr>"

text \<open>The task of worker \<open>w\<close> ends with the value \<open>v\<close>.\<close>

definition pool_finish :: "nat \<Rightarrow> 'a \<Rightarrow> 'a pool \<Rightarrow> 'a pool" where
  "pool_finish w v p =
     (case pl_workers p ! w of
        None \<Rightarrow> p
      | Some i \<Rightarrow>
          (let p1 = p\<lparr>pl_results := (pl_results p)[i := Some v]\<rparr>
           in if pl_next p < length (pl_results p)
              then p1\<lparr>pl_workers := (pl_workers p)[w := Some (pl_next p)], pl_next := pl_next p + 1\<rparr>
              else p1\<lparr>pl_workers := (pl_workers p)[w := None]\<rparr>))"

text \<open>One task of the pool ends; the \<open>i\<close>-th task gives \<open>f i\<close>.\<close>

inductive pool_step :: "(nat \<Rightarrow> 'a) \<Rightarrow> 'a pool \<Rightarrow> 'a pool \<Rightarrow> bool" for f where
  pool_step: "w < length (pl_workers p) \<Longrightarrow> pl_workers p ! w = Some i \<Longrightarrow> pool_step f p (pool_finish w (f i) p)"

definition pool_running :: "'a pool \<Rightarrow> nat list" where
  "pool_running p = map the (filter (\<lambda>w. w \<noteq> None) (pl_workers p))"

section \<open>The whole execution\<close>

record execution_result =
  er_results :: "subtask_result list"
  er_overall_verdict :: verdict
  er_conflicts_detected :: "string list"

text \<open>
  \<open>runWithSemaphore\<close> returns the results of its tasks in order (the properties of the pool below);
  the reconciliation of the results only logs.
\<close>

definition execute_group :: "(string \<Rightarrow> agent_task \<Rightarrow> pipeline_run) \<Rightarrow> task_group \<Rightarrow> execution_result result" where
  "execute_group pipeline g =
     (let conflicts = validate_file_ownership g
      in if conflicts \<noteq> []
         then Inl (Thrown (''[ParallelExecutor] File ownership conflicts detected:'' @ [CHR 0x0A] @ join [CHR 0x0A] conflicts))
         else (let results = concat (map (map (run_subtask pipeline g)) (build_execution_order g))
               in Inr \<lparr>er_results = results, er_overall_verdict = aggregate_verdict results,
                       er_conflicts_detected = conflicts\<rparr>))"

section \<open>Waves respect the dependencies\<close>

lemma build_waves_set:
  "set (concat (build_waves deps completed remaining)) = set remaining"
proof (induction deps completed remaining rule: build_waves.induct)
  case (1 deps completed remaining)
  show ?case
  proof (cases "remaining = []")
    case True
    then show ?thesis by (simp add: build_waves.simps)
  next
    case False
    let ?wave = "filter (ready deps completed) remaining"
    show ?thesis
    proof (cases "?wave = []")
      case True
      then show ?thesis using False by (subst build_waves.simps) simp
    next
      case w: False
      have "set (concat (build_waves deps (completed @ ?wave) (filter (\<lambda>i. i \<notin> set ?wave) remaining)))
          = set (filter (\<lambda>i. i \<notin> set ?wave) remaining)"
        using 1[OF False refl w] .
      then show ?thesis using False w by (subst build_waves.simps) (auto simp: Let_def)
    qed
  qed
qed

lemma build_waves_step:
  "remaining \<noteq> [] \<Longrightarrow> filter (ready deps completed) remaining \<noteq> [] \<Longrightarrow>
   build_waves deps completed remaining =
     filter (ready deps completed) remaining #
     build_waves deps (completed @ filter (ready deps completed) remaining)
       (filter (\<lambda>i. i \<notin> set (filter (ready deps completed) remaining)) remaining)"
  by (subst build_waves.simps) (simp add: Let_def)

lemma build_waves_stuck:
  "remaining \<noteq> [] \<Longrightarrow> filter (ready deps completed) remaining = [] \<Longrightarrow> build_waves deps completed remaining = [remaining]"
  by (subst build_waves.simps) (simp add: Let_def)

lemma build_waves_distinct:
  "distinct remaining \<Longrightarrow> distinct (concat (build_waves deps completed remaining))"
proof (induction deps completed remaining rule: build_waves.induct)
  case (1 deps completed remaining)
  show ?case
  proof (cases "remaining = [] \<or> filter (ready deps completed) remaining = []")
    case True
    then show ?thesis using 1(2) by (cases "remaining = []") (simp_all add: build_waves.simps build_waves_stuck)
  next
    case False
    then show ?thesis
      using 1 build_waves_set by (simp add: build_waves_step) auto
  qed
qed

text \<open>
  As long as some remaining task is always ready, every task comes in a wave after all its
  dependencies.
\<close>

definition before :: "string list list \<Rightarrow> string \<Rightarrow> string \<Rightarrow> bool" where
  "before ws a b \<longleftrightarrow> (\<exists>i j. i < j \<and> j < length ws \<and> a \<in> set (ws ! i) \<and> b \<in> set (ws ! j))"

lemma before_Cons: "before ws a b \<Longrightarrow> before (w # ws) a b"
  unfolding before_def by (metis Suc_less_eq length_Cons nth_Cons_Suc)

lemma before_first: "a \<in> set w \<Longrightarrow> b \<in> set (concat ws) \<Longrightarrow> before (w # ws) a b"
proof -
  assume a: "a \<in> set w" "b \<in> set (concat ws)"
  then obtain v where "v \<in> set ws" "b \<in> set v" by auto
  then obtain j where "j < length ws" "b \<in> set (ws ! j)" by (metis in_set_conv_nth)
  then show ?thesis using a(1) unfolding before_def
    by (metis Suc_less_eq length_Cons nth_Cons_0 nth_Cons_Suc zero_less_Suc)
qed

lemma build_waves_before:
  assumes "\<And>xs done. set xs \<subseteq> set remaining \<Longrightarrow> xs \<noteq> [] \<Longrightarrow> set done = set completed \<union> (set remaining - set xs) \<Longrightarrow>
      \<exists>x \<in> set xs. ready deps done x"
    and "b \<in> set remaining" "a \<in> set (nullish (table_get deps b) [])"
  shows "a \<in> set completed \<or> before (build_waves deps completed remaining) a b"
  using assms
proof (induction deps completed remaining rule: build_waves.induct)
  case (1 deps completed remaining)
  let ?wave = "filter (ready deps completed) remaining"
  let ?rest = "filter (\<lambda>i. i \<notin> set ?wave) remaining"
  have ne: "remaining \<noteq> []" using 1(3) by auto
  have "\<exists>x \<in> set remaining. ready deps completed x" using 1(2)[of remaining completed] ne by auto
  then have w: "?wave \<noteq> []" by (simp add: filter_empty_conv)
  note step = build_waves_step[OF ne w]
  show ?case
  proof (cases "ready deps completed b")
    case True
    then show ?thesis using 1(4) by (auto simp: ready_def list_all_iff)
  next
    case False
    then have brest: "b \<in> set ?rest" using 1(3) by simp
    have "a \<in> set (completed @ ?wave) \<or> before (build_waves deps (completed @ ?wave) ?rest) a b"
    proof (rule 1(1)[OF ne refl w _ brest 1(4)])
      fix xs "done"
      assume xs: "set xs \<subseteq> set ?rest" "xs \<noteq> []" "set done = set (completed @ ?wave) \<union> (set ?rest - set xs)"
      then have d: "set done = set completed \<union> (set remaining - set xs)" by auto
      have sub: "set xs \<subseteq> set remaining" using xs(1) by auto
      show "\<exists>x \<in> set xs. ready deps done x" by (rule 1(2)[OF sub xs(2) d])
    qed
    moreover have "before (build_waves deps completed remaining) a b" if "a \<in> set ?wave"
      unfolding step by (rule before_first[OF that]) (use brest build_waves_set in auto)
    ultimately show ?thesis unfolding step using before_Cons by auto
  qed
qed

text \<open>The dependencies that count: of known tasks.\<close>

lemma table_get_init: "table_get (foldl (\<lambda>m i. table_put i [] m) m ids) x = (if x \<in> set ids then Some [] else table_get m x)"
  by (induction ids arbitrary: m) (auto simp: table_get_put)

lemma depends_fold:
  "map_option set (table_get (foldl (\<lambda>m (from, to). case table_get m to of
              None \<Rightarrow> m
            | Some ds \<Rightarrow> table_put to (if from \<in> set ds then ds else ds @ [from]) m) m deps) x)
   = map_option (\<lambda>ds. set ds \<union> {a. (a, x) \<in> set deps}) (table_get m x)"
proof (induction deps arbitrary: m)
  case Nil
  then show ?case by (cases "table_get m x") simp_all
next
  case (Cons d deps)
  obtain a b where d: "d = (a, b)" by (cases d)
  show ?case
    by (cases "table_get m b"; cases "x = b"; subst foldl_Cons; subst Cons.IH)
      (auto simp: d table_get_put map_option_case split: option.splits)
qed

lemma depends_on_set:
  "map_option set (table_get (depends_on g) x) =
     (if x \<in> tk_id ` set (tg_subtasks g) then Some {a. (a, x) \<in> set (tg_dependencies g)} else None)"
  unfolding depends_on_def depends_fold by (simp add: table_get_init)

lemma depends_on_mem:
  "x \<in> tk_id ` set (tg_subtasks g) \<Longrightarrow>
   set (nullish (table_get (depends_on g) x) []) = {a. (a, x) \<in> set (tg_dependencies g)}"
  using depends_on_set[of g x] by (cases "table_get (depends_on g) x") simp_all

definition task_ids :: "task_group \<Rightarrow> string set" where
  "task_ids g = tk_id ` set (tg_subtasks g)"

text \<open>
  C28. The waves are a schedule: every task of the group runs in exactly one wave, exactly once, and,
  when the dependencies are acyclic and mention only tasks of the group, every task runs in a later
  wave than each task it depends on.
\<close>

theorem waves_schedule_dependencies:
  "distinct (concat (build_execution_order g)) \<and> set (concat (build_execution_order g)) = task_ids g \<and>
   (acyclic (set (tg_dependencies g)) \<and> fst ` set (tg_dependencies g) \<subseteq> task_ids g \<longrightarrow>
    (\<forall>a b. (a, b) \<in> set (tg_dependencies g) \<and> b \<in> task_ids g \<longrightarrow> before (build_execution_order g) a b))"
proof (intro conjI impI allI)
  let ?ids = "uniq (map tk_id (tg_subtasks g))"
  let ?R = "set (tg_dependencies g)"
  show "distinct (concat (build_execution_order g))"
    unfolding build_execution_order_def by (rule build_waves_distinct) simp
  show "set (concat (build_execution_order g)) = task_ids g"
    unfolding build_execution_order_def build_waves_set by (simp add: task_ids_def)
  fix a b assume h: "acyclic ?R \<and> fst ` ?R \<subseteq> task_ids g" "(a, b) \<in> ?R \<and> b \<in> task_ids g"
  have wfR: "wf ?R" using h(1) by (simp add: finite_acyclic_wf)
  have "a \<in> set [] \<or> before (build_waves (depends_on g) [] ?ids) a b"
  proof (rule build_waves_before)
    fix xs "done" assume xs: "set xs \<subseteq> set ?ids" "xs \<noteq> []" "set done = set [] \<union> (set ?ids - set xs)"
    obtain x where x: "x \<in> set xs" "\<And>y. (y, x) \<in> ?R \<Longrightarrow> y \<notin> set xs"
      using xs(2) wfE_min[OF wfR, of "hd xs" "set xs"] by (metis hd_in_set)
    have xid: "x \<in> tk_id ` set (tg_subtasks g)" using xs(1) x(1) by auto
    have "ready (depends_on g) done x"
      unfolding ready_def list_all_iff depends_on_mem[OF xid]
    proof
      fix d assume "d \<in> {a. (a, x) \<in> ?R}"
      then have dx: "(d, x) \<in> ?R" by simp
      then have "d \<in> task_ids g" using h(1) by force
      then show "d \<in> set done" using x(2)[OF dx] xs(3) by (simp add: task_ids_def)
    qed
    then show "\<exists>x \<in> set xs. ready (depends_on g) done x" using x(1) by blast
  next
    show "b \<in> set ?ids" using h(2) by (simp add: task_ids_def)
    show "a \<in> set (nullish (table_get (depends_on g) b) [])"
      using h(2) depends_on_mem[of b g] by (simp add: task_ids_def)
  qed
  then show "before (build_execution_order g) a b" by (simp add: build_execution_order_def)
qed

definition sample_group :: "(string \<times> string) list \<Rightarrow> task_group" where
  "sample_group deps = \<lparr>tg_subtasks = [\<lparr>tk_id = ''c'', tk_work_description = [], tk_estimated_duration = None\<rparr>,
      \<lparr>tk_id = ''a'', tk_work_description = [], tk_estimated_duration = Some (2, Minutes)\<rparr>],
     tg_dependencies = deps, tg_file_ownership = [], tg_shared_context = None\<rparr>"

theorem waves_schedule_dependencies_witness:
  "before (build_execution_order (sample_group [(''a'', ''c'')])) ''a'' ''c''"
proof -
  have "acyclic {(''a'', ''c'')}" by (auto simp: acyclic_def dest: tranclD tranclD2)
  then show ?thesis
    using waves_schedule_dependencies[of "sample_group [(''a'', ''c'')]"]
    by (simp add: sample_group_def task_ids_def)
qed

text \<open>A task that waits for something that never completes stays to the end.\<close>

lemma build_waves_forced:
  assumes "t \<in> set remaining" "u \<in> set remaining"
    and "a \<in> set (nullish (table_get deps t) [])" "a \<notin> set completed" "a \<notin> set remaining"
    and "t \<in> set (nullish (table_get deps u) [])" "t \<notin> set completed"
  shows "\<exists>w \<in> set (build_waves deps completed remaining). t \<in> set w \<and> u \<in> set w"
  using assms
proof (induction deps completed remaining rule: build_waves.induct)
  case (1 deps completed remaining)
  let ?wave = "filter (ready deps completed) remaining"
  have ne: "remaining \<noteq> []" using 1(2) by auto
  show ?case
  proof (cases "?wave = []")
    case True
    then show ?thesis using 1(2,3) build_waves_stuck[OF ne] by simp
  next
    case False
    have nr: "\<not> ready deps completed t" "\<not> ready deps completed u"
      using 1(4-8) by (auto simp: ready_def list_all_iff)
    have "\<exists>w \<in> set (build_waves deps (completed @ ?wave) (filter (\<lambda>i. i \<notin> set ?wave) remaining)). t \<in> set w \<and> u \<in> set w"
      by (rule 1(1)[OF ne refl False]) (use 1(2-8) nr in auto)
    then show ?thesis unfolding build_waves_step[OF ne False] by simp
  qed
qed

text \<open>
  A dependency on a task outside the group breaks the order of the tasks behind it: the task that
  has it never becomes ready, so it is put with all that is left into one forced wave, together with
  every task that depends on it, and these run in parallel although one must wait for the other.
\<close>

lemma unknown_dependency_breaks_order:
  assumes "(a, t) \<in> set (tg_dependencies g)" "a \<notin> task_ids g" "(t, u) \<in> set (tg_dependencies g)"
    and "t \<in> task_ids g" "u \<in> task_ids g"
  shows "\<exists>w \<in> set (build_execution_order g). t \<in> set w \<and> u \<in> set w"
  unfolding build_execution_order_def
  by (rule build_waves_forced[where a = a])
    (use assms depends_on_mem[of t g] depends_on_mem[of u g] in \<open>simp_all add: task_ids_def\<close>)

section \<open>The semaphore bounds and completes\<close>

definition working :: "'a pool \<Rightarrow> nat \<Rightarrow> nat \<Rightarrow> bool" where
  "working p w i \<longleftrightarrow> w < length (pl_workers p) \<and> pl_workers p ! w = Some i"

definition pool_wf :: "(nat \<Rightarrow> 'a) \<Rightarrow> nat \<Rightarrow> nat \<Rightarrow> 'a pool \<Rightarrow> bool" where
  "pool_wf f n k p \<longleftrightarrow> length (pl_results p) = n \<and> length (pl_workers p) = min k n \<and> pl_next p \<le> n \<and>
     (\<forall>i < n. pl_results p ! i = (if i < pl_next p \<and> (\<forall>w. \<not> working p w i) then Some (f i) else None)) \<and>
     (\<forall>w i. working p w i \<longrightarrow> i < pl_next p) \<and>
     (\<forall>w w' i. working p w i \<longrightarrow> working p w' i \<longrightarrow> w = w') \<and>
     (\<forall>w < length (pl_workers p). pl_workers p ! w = None \<longrightarrow> pl_next p = n) \<and>
     (min k n \<le> pl_next p)"

lemma pool_wfD:
  assumes "pool_wf f n k p"
  shows "length (pl_results p) = n" "length (pl_workers p) = min k n" "pl_next p \<le> n"
    "i < n \<Longrightarrow> pl_results p ! i = (if i < pl_next p \<and> (\<forall>w. \<not> working p w i) then Some (f i) else None)"
    "working p w i \<Longrightarrow> i < pl_next p" "working p w i \<Longrightarrow> working p w' i \<Longrightarrow> w = w'"
    "w < length (pl_workers p) \<Longrightarrow> pl_workers p ! w = None \<Longrightarrow> pl_next p = n"
    "min k n \<le> pl_next p"
  using assms unfolding pool_wf_def by blast+

lemma pool_wf_start: "pool_wf f n k (pool_start n k)"
proof -
  have "working (pool_start n k) w i \<longleftrightarrow> w = i \<and> i < min k n" for w i
    by (auto simp: working_def pool_start_def)
  then show ?thesis unfolding pool_wf_def by (auto simp: pool_start_def)
qed

lemma pool_finish_working:
  assumes wf: "pool_wf f n k p" and w: "working p w i"
  shows "working (pool_finish w v p) w' j \<longleftrightarrow>
     (if w' = w then pl_next p < n \<and> j = pl_next p else working p w' j)"
  using w pool_wfD(1)[OF wf] by (auto simp: working_def pool_finish_def Let_def nth_list_update)

lemma pool_wf_finish:
  assumes wf: "pool_wf f n k p" and w: "working p w i"
  shows "pool_wf f n k (pool_finish w (f i) p)" (is "pool_wf f n k ?p")
proof -
  note D = pool_wfD[OF wf]
  note work = pool_finish_working[OF wf w]
  have sel: "w < length (pl_workers p)" "pl_workers p ! w = Some i" using w by (simp_all add: working_def)
  have i: "i < pl_next p" "i < n" using D(5)[OF w] D(3) by simp_all
  have nxt: "pl_next ?p = (if pl_next p < n then pl_next p + 1 else pl_next p)"
    "pl_results ?p = (pl_results p)[i := Some (f i)]" "length (pl_workers ?p) = min k n"
    using D(1,2) sel by (auto simp: pool_finish_def Let_def)
  have results: "pl_results ?p ! j = (if j < pl_next ?p \<and> (\<forall>v. \<not> working ?p v j) then Some (f j) else None)" if j: "j < n" for j
  proof (cases "j = i")
    case True
    have "\<not> working ?p v i" for v using work[of _ v i] D(6)[OF w, of v] i(1) by auto
    then show ?thesis using True i nxt D(1) by simp
  next
    case False
    have "pl_results ?p ! j = pl_results p ! j" using False nxt(2) by simp
    moreover have "(j < pl_next ?p \<and> (\<forall>v. \<not> working ?p v j)) \<longleftrightarrow> (j < pl_next p \<and> (\<forall>v. \<not> working p v j))"
    proof -
      have nw: "\<not> working p w j" using False sel by (simp add: working_def)
      then have "(\<forall>v. \<not> working ?p v j) \<longleftrightarrow> \<not> (pl_next p < n \<and> j = pl_next p) \<and> (\<forall>v. \<not> working p v j)"
        using work[of "f i" _ j] by metis
      then show ?thesis using nxt(1) j by (auto simp: less_Suc_eq)
    qed
    ultimately show ?thesis using D(4)[OF j] by simp
  qed
  have idle: "pl_next ?p = n" if "v < length (pl_workers ?p)" "pl_workers ?p ! v = None" for v
    using that D(3,7) sel nxt D(1,2)
    by (cases "v = w") (auto simp: pool_finish_def Let_def nth_list_update split: if_splits)
  show ?thesis
    unfolding pool_wf_def
    using nxt D(1,3,5,6,8) results idle work by (auto simp: less_Suc_eq)
qed

text \<open>How much is left: the tasks not started and the tasks running.\<close>

definition pool_left :: "'a pool \<Rightarrow> nat" where
  "pool_left p = (length (pl_results p) - pl_next p) + length (filter (\<lambda>w. w \<noteq> None) (pl_workers p))"

lemma filter_update:
  assumes "w < length xs"
  shows "length (filter P (xs[w := y])) + (if P (xs ! w) then 1 else 0) = length (filter P xs) + (if P y then 1 else 0)"
proof -
  have "filter P xs = filter P (take w xs @ xs ! w # drop (Suc w) xs)" using id_take_nth_drop[OF assms] by simp
  then show ?thesis using assms by (simp add: upd_conv_take_nth_drop)
qed

lemma pool_left_finish:
  assumes wf: "pool_wf f n k p" and w: "working p w i"
  shows "pool_left (pool_finish w v p) < pool_left p"
proof -
  have sel: "w < length (pl_workers p)" "pl_workers p ! w = Some i" using w by (simp_all add: working_def)
  show ?thesis
    using sel pool_wfD(1,3)[OF wf] filter_update[OF sel(1), of "\<lambda>w. w \<noteq> None" None]
      filter_update[OF sel(1), of "\<lambda>w. w \<noteq> None" "Some (pl_next p)"]
    by (auto simp: pool_left_def pool_finish_def Let_def)
qed

lemma pool_reachable_wf: "(pool_step f)\<^sup>*\<^sup>* (pool_start n k) p \<Longrightarrow> pool_wf f n k p"
proof (induction rule: rtranclp_induct)
  case base
  then show ?case by (rule pool_wf_start)
next
  case (step p q)
  then show ?case by (auto elim!: pool_step.cases intro!: pool_wf_finish simp: working_def)
qed

text \<open>
  The semaphore bounds, terminates and completes: in whatever order the tasks end, never more than
  \<open>limit\<close> tasks run at once, every ending brings the execution closer to its end, and when no task runs
  any more, with a limit of at least one, the array holds the result of every task at its index.
\<close>

lemma semaphore_bounds_and_completes:
  assumes "(pool_step f)\<^sup>*\<^sup>* (pool_start n limit) p"
  shows "length (pool_running p) \<le> limit \<and>
    (\<forall>q. pool_step f p q \<longrightarrow> pool_left q < pool_left p) \<and>
    (pool_running p = [] \<and> 1 \<le> limit \<longrightarrow> pl_results p = map (\<lambda>i. Some (f i)) [0..<n])"
proof (intro conjI allI impI)
  have wf: "pool_wf f n limit p" by (rule pool_reachable_wf[OF assms])
  have "length (pool_running p) \<le> length (pl_workers p)" by (simp add: pool_running_def)
  then show "length (pool_running p) \<le> limit" using pool_wfD(2)[OF wf] by simp
  show "pool_left q < pool_left p" if "pool_step f p q" for q
    using that by cases (auto intro: pool_left_finish[OF wf] simp: working_def)
  assume h: "pool_running p = [] \<and> 1 \<le> limit"
  then have idle: "pl_workers p ! w = None" if "w < length (pl_workers p)" for w
    using that nth_mem[OF that] by (auto simp: pool_running_def filter_empty_conv)
  then have "\<not> working p w i" for w i by (auto simp: working_def)
  moreover have "pl_next p = n"
  proof (cases "n = 0")
    case True
    then show ?thesis using pool_wfD(3)[OF wf] by simp
  next
    case False
    then have "0 < length (pl_workers p)" using h pool_wfD(2)[OF wf] by simp
    then show ?thesis using pool_wfD(7)[OF wf] idle by blast
  qed
  ultimately show "pl_results p = map (\<lambda>i. Some (f i)) [0..<n]"
    using pool_wfD(1,4)[OF wf] by (intro nth_equalityI) auto
qed

text \<open>
  A group in which no task fails passes as a whole, even when no task passed: with every result
  \<open>partial\<close> the overall verdict is \<open>pass\<close>, whereas one failure among partial results makes it
  \<open>fail\<close>; \<open>partial\<close> comes out exactly when some task fails and some task passes.
\<close>

lemma verdict_of_partial_results:
  "(aggregate_verdict rs = Pass \<longleftrightarrow> rs \<noteq> [] \<and> (\<forall>r \<in> set rs. sr_verdict r \<noteq> Fail)) \<and>
   (aggregate_verdict rs = Partial \<longleftrightarrow> (\<exists>r \<in> set rs. sr_verdict r = Fail) \<and> (\<exists>r \<in> set rs. sr_verdict r = Pass))"
  by (auto simp: aggregate_verdict_def Let_def)

end
