(* ===== verification/Capability_Order.thy ===== *)
theory Capability_Order
  imports PS_Prelude "HOL-Library.Multiset"
begin

text \<open>
  The order in which missing capabilities are acquired:
  \<open>src/platform/observation/capability-dependencies.ts\<close>. The dependency map is a list of entries; the
  registry store that keeps it is the argument that the operations transform. Of a gap the code uses
  the name of the missing capability only.

  \<open>resolve_dependencies\<close> is Kahn's algorithm as the code runs it, with its in-degree map, its
  adjacency lists and its sorted queue.
\<close>

section \<open>The dependency map\<close>

record capability_dependency =
  cd_capability_id :: string
  cd_depends_on :: "string list"

text \<open>\<open>addDependency\<close>: the first entry of the capability is replaced, or a new one is added.\<close>

fun put_entry :: "capability_dependency \<Rightarrow> capability_dependency list \<Rightarrow> capability_dependency list" where
  "put_entry e [] = [e]"
| "put_entry e (d # ds) = (if cd_capability_id d = cd_capability_id e then e # ds else d # put_entry e ds)"

definition add_dependency :: "string \<Rightarrow> string list \<Rightarrow> capability_dependency list \<Rightarrow> capability_dependency list" where
  "add_dependency cap dependsOn store = put_entry \<lparr>cd_capability_id = cap, cd_depends_on = dependsOn\<rparr> store"

definition get_dependencies :: "string \<Rightarrow> capability_dependency list \<Rightarrow> string list" where
  "get_dependencies cap store = (case find (\<lambda>d. cd_capability_id d = cap) store of
     None \<Rightarrow> [] | Some e \<Rightarrow> cd_depends_on e)"

section \<open>Kahn's algorithm\<close>

definition all_ids :: "capability_dependency list \<Rightarrow> string list" where
  "all_ids ds = uniq (concat (map (\<lambda>d. cd_capability_id d # cd_depends_on d) ds))"

text \<open>The pairs (prerequisite, capability) in the order of the nested loops.\<close>

definition dep_edges :: "capability_dependency list \<Rightarrow> (string \<times> string) list" where
  "dep_edges ds = concat (map (\<lambda>d. map (\<lambda>p. (p, cd_capability_id d)) (cd_depends_on d)) ds)"

definition add_pair ::
  "(string, int) table \<times> (string, string list) table \<Rightarrow> string \<times> string \<Rightarrow>
   (string, int) table \<times> (string, string list) table" where
  "add_pair m pc = (case m of (deg, adj) \<Rightarrow> case pc of (p, c) \<Rightarrow>
     (table_put c (nullish (table_get deg c) 0 + 1) deg,
      (case table_get adj p of None \<Rightarrow> adj | Some l \<Rightarrow> table_put p (l @ [c]) adj)))"

definition build_maps :: "capability_dependency list \<Rightarrow> (string, int) table \<times> (string, string list) table" where
  "build_maps ds =
     foldl add_pair (map (\<lambda>i. (i, 0)) (all_ids ds), map (\<lambda>i. (i, [])) (all_ids ds)) (dep_edges ds)"

text \<open>One neighbour of the node taken from the queue.\<close>

definition visit :: "(string, int) table \<times> string list \<Rightarrow> string \<Rightarrow> (string, int) table \<times> string list" where
  "visit dq m = (case dq of (deg, q) \<Rightarrow>
     (let d = nullish (table_get deg m) 0 - 1; deg' = table_put m d deg
      in if d = 0 then (deg', sort (q @ [m])) else (deg', q)))"

definition positive_degrees :: "(string, int) table \<Rightarrow> nat" where
  "positive_degrees deg = sum_list (map (\<lambda>kd. nat (snd kd)) deg)"

lemma positive_degrees_put:
  "positive_degrees (table_put m (nullish (table_get deg m) 0 - 1) deg) + nat (nullish (table_get deg m) 0) =
   positive_degrees deg + nat (nullish (table_get deg m) 0 - 1)"
  by (induction deg) (auto simp: positive_degrees_def)

lemma visit_measure:
  "positive_degrees (fst (visit dq m)) + length (snd (visit dq m)) \<le> positive_degrees (fst dq) + length (snd dq)"
proof -
  obtain deg q where dq: "dq = (deg, q)" by (cases dq)
  show ?thesis using positive_degrees_put[of m deg]
    by (auto simp: visit_def dq Let_def)
qed

lemma visits_measure:
  "positive_degrees (fst (foldl visit dq ms)) + length (snd (foldl visit dq ms)) \<le> positive_degrees (fst dq) + length (snd dq)"
proof (induction ms arbitrary: dq)
  case Nil
  then show ?case by simp
next
  case (Cons m ms)
  show ?case unfolding foldl_Cons by (rule order_trans[OF Cons.IH visit_measure])
qed

function kahn :: "(string, string list) table \<Rightarrow> (string, int) table \<Rightarrow> string list \<Rightarrow> string list \<Rightarrow> string list" where
  "kahn adj deg [] result = result"
| "kahn adj deg (node # q) result =
     (case foldl visit (deg, q) (nullish (table_get adj node) []) of
        (deg', q') \<Rightarrow> kahn adj deg' q' (result @ [node]))"
  by pat_completeness auto

termination kahn
proof (relation "measure (\<lambda>(adj, deg, q, result). positive_degrees deg + length q)", simp, goal_cases)
  case (1 adj deg node q result deg' q')
  show ?case
    using visits_measure[of "(deg, q)" "nullish (table_get adj node) []"] unfolding 1[symmetric] by simp
qed

definition resolve_dependencies :: "capability_dependency list \<Rightarrow> string list" where
  "resolve_dependencies ds =
     (if ds = [] then []
      else (case build_maps ds of (deg, adj) \<Rightarrow>
              kahn adj deg (sort (map fst (filter (\<lambda>(_, d). d = 0) deg))) []))"

section \<open>The order of the gaps\<close>

definition relevant_dependencies :: "string list \<Rightarrow> capability_dependency list \<Rightarrow> capability_dependency list" where
  "relevant_dependencies gapIds store =
     filter (\<lambda>d. cd_depends_on d \<noteq> [])
       (map (\<lambda>d. d\<lparr>cd_depends_on := filter (\<lambda>x. x \<in> set gapIds) (cd_depends_on d)\<rparr>)
         (filter (\<lambda>d. cd_capability_id d \<in> set gapIds) store))"

text \<open>\<open>name\<close> is \<open>g.missing_capability.name\<close>.\<close>

definition get_acquisition_order :: "('g \<Rightarrow> string) \<Rightarrow> capability_dependency list \<Rightarrow> 'g list \<Rightarrow> 'g list" where
  "get_acquisition_order name store gaps =
     (if gaps = [] then []
      else (let relevant = relevant_dependencies (map name gaps) store
            in if relevant = [] then gaps
               else (let sorted = resolve_dependencies relevant
                     in filter (\<lambda>g. name g \<notin> set sorted) gaps @
                        concat (map (\<lambda>i. case find (\<lambda>g. name g = i) gaps of None \<Rightarrow> [] | Some g \<Rightarrow> [g]) sorted))))"

section \<open>What the maps hold\<close>

definition degree :: "(string, int) table \<Rightarrow> string \<Rightarrow> int" where
  "degree deg x = nullish (table_get deg x) 0"

lemma degree_put: "degree (table_put k v deg) x = (if x = k then v else degree deg x)"
  by (simp add: degree_def table_get_put)

lemma add_pair_eq:
  "add_pair (deg, adj) (p, c) = (table_put c (degree deg c + 1) deg,
     (case table_get adj p of None \<Rightarrow> adj | Some l \<Rightarrow> table_put p (l @ [c]) adj))"
  by (simp add: add_pair_def degree_def)

lemma add_pairs_degree:
  "degree (fst (foldl add_pair (deg, adj) es)) x = degree deg x + int (length (filter (\<lambda>e. snd e = x) es))"
proof (induction es arbitrary: deg adj)
  case Nil
  then show ?case by simp
next
  case (Cons e es)
  obtain p c where e: "e = (p, c)" by (cases e)
  show ?case using Cons.IH by (simp add: e add_pair_eq degree_put)
qed

lemma add_pairs_adj:
  "table_get (snd (foldl add_pair (deg, adj) es)) p =
     map_option (\<lambda>l. l @ map snd (filter (\<lambda>e. fst e = p) es)) (table_get adj p)"
proof (induction es arbitrary: deg adj)
  case Nil
  then show ?case by (cases "table_get adj p") simp_all
next
  case (Cons e es)
  obtain a c where e: "e = (a, c)" by (cases e)
  show ?case
    by (cases "table_get adj a"; cases "a = p"; cases "table_get adj p")
      (simp_all add: e add_pair_eq Cons.IH table_get_put)
qed

lemma add_pairs_keys:
  "snd ` set es \<subseteq> fst ` set deg \<Longrightarrow> distinct (map fst deg) \<Longrightarrow>
   map fst (fst (foldl add_pair (deg, adj) es)) = map fst deg"
proof (induction es arbitrary: deg adj)
  case Nil
  then show ?case by simp
next
  case (Cons e es)
  obtain a c where e: "e = (a, c)" by (cases e)
  have c: "c \<in> fst ` set deg" using Cons.prems(1) e by auto
  have keys: "map fst (table_put c v deg) = map fst deg" for v
    using c by (induction deg) auto
  have "fst ` set (table_put c v deg) = fst ` set deg" for v
    using keys[of v] by (metis list.set_map)
  then show ?case
    using Cons.IH[of "table_put c (degree deg c + 1) deg"] Cons.prems keys e
    by (simp add: add_pair_eq)
qed

lemma edges_in_ids: "(p, c) \<in> set (dep_edges ds) \<Longrightarrow> p \<in> set (all_ids ds) \<and> c \<in> set (all_ids ds)"
  by (auto simp: dep_edges_def all_ids_def)

lemma build_maps_degree: "degree (fst (build_maps ds)) x = int (length (filter (\<lambda>e. snd e = x) (dep_edges ds)))"
proof -
  have "degree (map (\<lambda>i. (i, 0)) ids) x = 0" for ids
    by (induction ids) (auto simp: degree_def)
  then show ?thesis unfolding build_maps_def add_pairs_degree by simp
qed

lemma build_maps_adj:
  "nullish (table_get (snd (build_maps ds)) p) [] = map snd (filter (\<lambda>e. fst e = p) (dep_edges ds))"
proof -
  have init: "table_get (map (\<lambda>i. (i, [])) ids) p = (if p \<in> set ids then Some [] else None)" for ids
    by (induction ids) auto
  have "filter (\<lambda>e. fst e = p) (dep_edges ds) = []" if "p \<notin> set (all_ids ds)"
    using that edges_in_ids by (force simp: filter_empty_conv)
  then show ?thesis unfolding build_maps_def add_pairs_adj by (simp add: init)
qed

lemma build_maps_keys: "map fst (fst (build_maps ds)) = all_ids ds"
proof -
  have "map fst (map (\<lambda>i. (i, 0 :: int)) (all_ids ds)) = all_ids ds" by (simp add: comp_def)
  moreover have "snd ` set (dep_edges ds) \<subseteq> fst ` set (map (\<lambda>i. (i, 0 :: int)) (all_ids ds))"
    using edges_in_ids by force
  ultimately show ?thesis
    unfolding build_maps_def by (subst add_pairs_keys) (simp_all add: all_ids_def)
qed

section \<open>One round of the algorithm\<close>

lemma visit_eq:
  "visit (deg, q) m = (table_put m (degree deg m - 1) deg, if degree deg m - 1 = 0 then sort (q @ [m]) else q)"
  by (simp add: visit_def Let_def degree_def)

lemma visits_effect:
  assumes "\<And>x. x \<in> set ms \<Longrightarrow> int (count_list ms x) \<le> degree deg x" "foldl visit (deg, q) ms = (deg', q')"
  shows "(\<forall>x. degree deg' x = degree deg x - int (count_list ms x)) \<and>
    set q' = set q \<union> {x \<in> set ms. degree deg x = int (count_list ms x)} \<and>
    (distinct q \<longrightarrow> set q \<inter> set ms = {} \<longrightarrow> distinct q')"
  using assms
proof (induction ms arbitrary: deg q)
  case Nil
  then show ?case by simp
next
  case (Cons m ms)
  let ?d = "degree deg m - 1"
  let ?deg = "table_put m ?d deg"
  let ?q = "if ?d = 0 then sort (q @ [m]) else q"
  have run: "foldl visit (?deg, ?q) ms = (deg', q')"
    using Cons.prems(2) by (simp only: foldl_Cons visit_eq)
  have bound: "int (count_list ms x) \<le> degree ?deg x" if "x \<in> set ms" for x
    using Cons.prems(1)[of x] that by (auto simp: degree_put)
  have last: "m \<notin> set ms" if "?d = 0"
    using Cons.prems(1)[of m] that count_list_0_iff[of ms m] by auto
  note ih = Cons.IH[OF bound run]
  have deg': "degree deg' x = degree deg x - int (count_list (m # ms) x)" for x
    using ih by (simp add: degree_put)
  have "set q' = set q \<union> {x \<in> set (m # ms). degree deg x = int (count_list (m # ms) x)}"
  proof -
    have "set q' = set ?q \<union> {x \<in> set ms. degree ?deg x = int (count_list ms x)}" using ih by blast
    moreover have "degree deg m = int (count_list (m # ms) m) \<Longrightarrow> m \<notin> set ms \<Longrightarrow> ?d = 0"
      using count_list_0_iff[of ms m] by simp
    ultimately show ?thesis using last by (auto simp: degree_put)
  qed
  moreover have "distinct q'" if "distinct q" "set q \<inter> set (m # ms) = {}"
  proof -
    have "distinct ?q" "set ?q \<inter> set ms = {}" using that last by auto
    then show ?thesis using ih by blast
  qed
  ultimately show ?case using deg' by blast
qed

text \<open>Edges into \<open>x\<close> from nodes not yet taken.\<close>

definition open_edges :: "(string \<times> string) list \<Rightarrow> string set \<Rightarrow> string \<Rightarrow> nat" where
  "open_edges es done x = length (filter (\<lambda>e. snd e = x \<and> fst e \<notin> done) es)"

lemma open_edges_0: "open_edges es done x = 0 \<longleftrightarrow> (\<forall>p. (p, x) \<in> set es \<longrightarrow> p \<in> done)"
  by (auto simp: open_edges_def filter_empty_conv)

lemma open_edges_insert:
  "n \<notin> done \<Longrightarrow> open_edges es done x =
     open_edges es (insert n done) x + count_list (map snd (filter (\<lambda>e. fst e = n) es)) x"
  by (induction es) (auto simp: open_edges_def)

definition prereqs_first :: "(string \<times> string) list \<Rightarrow> string list \<Rightarrow> bool" where
  "prereqs_first es xs \<longleftrightarrow> (\<forall>ys c zs p. xs = ys @ c # zs \<longrightarrow> (p, c) \<in> set es \<longrightarrow> p \<in> set ys)"

lemma prereqs_first_snoc:
  assumes "prereqs_first es xs" "\<And>p. (p, c) \<in> set es \<Longrightarrow> p \<in> set xs"
  shows "prereqs_first es (xs @ [c])"
  unfolding prereqs_first_def
proof (intro allI impI)
  fix ys d zs p assume h: "xs @ [c] = ys @ d # zs" "(p, d) \<in> set es"
  show "p \<in> set ys"
  proof (cases zs rule: rev_cases)
    case Nil
    then show ?thesis using h assms(2) by simp
  next
    case (snoc zs' z)
    then have "xs = ys @ d # zs'" using h(1) by simp
    then show ?thesis using assms(1) h(2) unfolding prereqs_first_def by blast
  qed
qed

lemma prereqs_first_closed: "prereqs_first es xs \<Longrightarrow> c \<in> set xs \<Longrightarrow> (p, c) \<in> set es \<Longrightarrow> p \<in> set xs"
proof -
  assume h: "prereqs_first es xs" "c \<in> set xs" "(p, c) \<in> set es"
  obtain ys zs where "xs = ys @ c # zs" using split_list[OF h(2)] by blast
  then show "p \<in> set xs" using h(1,3) unfolding prereqs_first_def by fastforce
qed

definition kahn_inv :: "(string \<times> string) list \<Rightarrow> string set \<Rightarrow> (string, int) table \<Rightarrow> string list \<Rightarrow> string list \<Rightarrow> bool" where
  "kahn_inv es ids deg q result \<longleftrightarrow>
     (\<forall>x. degree deg x = int (open_edges es (set result) x)) \<and> distinct (result @ q) \<and>
     set q = {x \<in> ids. open_edges es (set result) x = 0} - set result \<and> set result \<subseteq> ids \<and> prereqs_first es result"

lemma kahn_inv_step:
  assumes inv: "kahn_inv es ids deg (n # q) result" and ids: "\<And>p c. (p, c) \<in> set es \<Longrightarrow> p \<in> ids \<and> c \<in> ids"
    and run: "foldl visit (deg, q) (map snd (filter (\<lambda>e. fst e = n) es)) = (deg', q')"
  shows "kahn_inv es ids deg' q' (result @ [n])"
proof -
  let ?ms = "map snd (filter (\<lambda>e. fst e = n) es)"
  let ?R = "set result"
  have I: "\<And>x. degree deg x = int (open_edges es ?R x)" "distinct (result @ n # q)"
    "set (n # q) = {x \<in> ids. open_edges es ?R x = 0} - ?R" "?R \<subseteq> ids" "prereqs_first es result"
    using inv by (auto simp: kahn_inv_def)
  have n: "n \<in> ids" "open_edges es ?R n = 0" "n \<notin> ?R" using I(3) by auto
  have ins: "open_edges es ?R x = open_edges es (insert n ?R) x + count_list ?ms x" for x
    by (rule open_edges_insert[OF n(3)])
  have bound: "int (count_list ?ms x) \<le> degree deg x" for x using ins[of x] I(1) by simp
  have pos: "0 < open_edges es ?R x" if "x \<in> set ?ms" for x
    using ins[of x] that count_list_0_iff[of ?ms x] by (metis add_gr_0 gr0I)
  have ms_out: "x \<in> ids" "x \<noteq> n" "x \<notin> ?R" "x \<notin> set q" if x: "x \<in> set ?ms" for x
  proof -
    have e: "(n, x) \<in> set es" using x by auto
    show "x \<in> ids" using ids e by blast
    show "x \<noteq> n" using pos[OF x] n(2) by auto
    show "x \<notin> ?R" using prereqs_first_closed[OF I(5) _ e] n(3) by blast
    have "x \<notin> set (n # q)" unfolding I(3) using pos[OF x] by simp
    then show "x \<notin> set q" by simp
  qed
  note eff = visits_effect[OF bound run]
  have "degree deg' x = int (open_edges es (set (result @ [n])) x)" for x
    using eff I(1) ins[of x] by simp
  moreover have "set q' = {x \<in> ids. open_edges es (set (result @ [n])) x = 0} - set (result @ [n])"
  proof -
    have q': "x \<in> set q' \<longleftrightarrow> x \<in> set q \<or> (x \<in> set ?ms \<and> open_edges es (insert n ?R) x = 0)" for x
      using eff I(1)[of x] ins[of x] by auto
    have q: "x \<in> set q \<longleftrightarrow> x \<in> ids \<and> open_edges es ?R x = 0 \<and> x \<notin> ?R \<and> x \<noteq> n" for x
      using I(2,3) by auto
    have "x \<in> set q' \<longleftrightarrow> x \<in> ids \<and> open_edges es (insert n ?R) x = 0 \<and> x \<noteq> n \<and> x \<notin> ?R" for x
    proof (cases "x \<in> set ?ms")
      case True
      then show ?thesis using ms_out[OF True] q'[of x] by blast
    next
      case False
      then have "open_edges es ?R x = open_edges es (insert n ?R) x"
        using ins[of x] count_list_0_iff[of ?ms x] by simp
      then show ?thesis using q'[of x] q[of x] False by auto
    qed
    then show ?thesis by (auto simp del: set_map set_filter)
  qed
  moreover have "distinct q'" using eff I(2) ms_out(4) by auto
  moreover have "set q' \<inter> set (result @ [n]) = {}" using calculation(2) by blast
  moreover have "prereqs_first es (result @ [n])"
    by (rule prereqs_first_snoc[OF I(5)]) (use n(2) in \<open>simp add: open_edges_0\<close>)
  ultimately show ?thesis using I(2,4) n(1) unfolding kahn_inv_def by auto
qed

lemma kahn_inv_end:
  assumes "kahn_inv es ids deg q result" "\<And>p c. (p, c) \<in> set es \<Longrightarrow> p \<in> ids \<and> c \<in> ids"
    and "\<And>p. nullish (table_get adj p) [] = map snd (filter (\<lambda>e. fst e = p) es)"
  shows "\<exists>deg'. kahn_inv es ids deg' [] (kahn adj deg q result)"
  using assms
proof (induction adj deg q result rule: kahn.induct)
  case (1 adj deg result)
  then show ?case by auto
next
  case (2 adj deg node q result)
  obtain deg' q' where run: "foldl visit (deg, q) (nullish (table_get adj node) []) = (deg', q')"
    by (cases "foldl visit (deg, q) (nullish (table_get adj node) [])")
  have "kahn_inv es ids deg' q' (result @ [node])"
    using kahn_inv_step[OF 2(2,3)] run 2(4) by simp
  then show ?case using 2(1)[OF run[symmetric]] 2(3,4) run by simp
qed

section \<open>Properties\<close>

lemma resolve_inv:
  assumes "ds \<noteq> []"
  shows "\<exists>deg. kahn_inv (dep_edges ds) (set (all_ids ds)) deg [] (resolve_dependencies ds)"
proof -
  obtain deg adj where maps: "build_maps ds = (deg, adj)" by (cases "build_maps ds")
  let ?q = "sort (map fst (filter (\<lambda>(_, d). d = 0) deg))"
  have keys: "map fst deg = all_ids ds" using build_maps_keys[of ds] maps by simp
  have dist: "distinct (map fst deg)" unfolding keys by (simp add: all_ids_def)
  have dg: "degree deg x = int (open_edges (dep_edges ds) {} x)" for x
    using build_maps_degree[of ds x] maps by (simp add: open_edges_def)
  have "x \<in> set ?q \<longleftrightarrow> x \<in> set (all_ids ds) \<and> open_edges (dep_edges ds) {} x = 0" for x
  proof -
    have "(x, d) \<in> set deg \<Longrightarrow> degree deg x = d" for d
      using dist by (simp add: degree_def)
    then have "x \<in> set ?q \<longleftrightarrow> x \<in> set (map fst deg) \<and> degree deg x = 0" by force
    then show ?thesis unfolding keys by (simp add: dg)
  qed
  moreover have "distinct ?q" using dist by (simp add: distinct_map_filter)
  ultimately have "kahn_inv (dep_edges ds) (set (all_ids ds)) deg ?q []"
    using dg unfolding kahn_inv_def prereqs_first_def by auto
  moreover have "nullish (table_get adj p) [] = map snd (filter (\<lambda>e. fst e = p) (dep_edges ds))" for p
    using build_maps_adj[of ds p] maps by simp
  ultimately show ?thesis
    using kahn_inv_end[of "dep_edges ds" "set (all_ids ds)" deg ?q "[]" adj] edges_in_ids[of _ _ ds] assms maps
    by (simp add: resolve_dependencies_def)
qed

lemma resolve_facts:
  shows "distinct (resolve_dependencies ds)" "set (resolve_dependencies ds) \<subseteq> set (all_ids ds)"
    "prereqs_first (dep_edges ds) (resolve_dependencies ds)"
    "x \<in> set (all_ids ds) \<Longrightarrow> (\<And>p. (p, x) \<in> set (dep_edges ds) \<Longrightarrow> p \<in> set (resolve_dependencies ds)) \<Longrightarrow>
     x \<in> set (resolve_dependencies ds)"
proof -
  have "distinct (resolve_dependencies ds) \<and> set (resolve_dependencies ds) \<subseteq> set (all_ids ds) \<and>
    prereqs_first (dep_edges ds) (resolve_dependencies ds) \<and>
    (\<forall>x \<in> set (all_ids ds). (\<forall>p. (p, x) \<in> set (dep_edges ds) \<longrightarrow> p \<in> set (resolve_dependencies ds)) \<longrightarrow>
       x \<in> set (resolve_dependencies ds))"
  proof (cases "ds = []")
    case True
    then show ?thesis by (simp add: resolve_dependencies_def prereqs_first_def all_ids_def uniq_def)
  next
    case False
    then show ?thesis using resolve_inv[OF False] by (auto simp: kahn_inv_def open_edges_0)
  qed
  then show "distinct (resolve_dependencies ds)" "set (resolve_dependencies ds) \<subseteq> set (all_ids ds)"
    "prereqs_first (dep_edges ds) (resolve_dependencies ds)"
    "x \<in> set (all_ids ds) \<Longrightarrow> (\<And>p. (p, x) \<in> set (dep_edges ds) \<Longrightarrow> p \<in> set (resolve_dependencies ds)) \<Longrightarrow>
     x \<in> set (resolve_dependencies ds)"
    by blast+
qed

lemma resolve_complete:
  assumes "acyclic (set (dep_edges ds))"
  shows "set (resolve_dependencies ds) = set (all_ids ds)"
proof (rule ccontr)
  assume ne: "set (resolve_dependencies ds) \<noteq> set (all_ids ds)"
  let ?left = "set (all_ids ds) - set (resolve_dependencies ds)"
  have "wf (set (dep_edges ds))" using assms by (simp add: finite_acyclic_wf)
  moreover obtain y where "y \<in> ?left" using ne resolve_facts(2)[of ds] by blast
  ultimately obtain x where x: "x \<in> ?left" "\<And>p. (p, x) \<in> set (dep_edges ds) \<Longrightarrow> p \<notin> ?left"
    by (rule wfE_min) blast
  have "p \<in> set (resolve_dependencies ds)" if "(p, x) \<in> set (dep_edges ds)" for p
    using x(2)[OF that] edges_in_ids[OF that] by blast
  then show False using resolve_facts(4)[of x ds] x(1) by blast
qed

lemma prereqs_first_at: "prereqs_first es xs \<Longrightarrow> xs = ys @ c # zs \<Longrightarrow> (p, c) \<in> set es \<Longrightarrow> p \<in> set ys"
  unfolding prereqs_first_def by blast

lemma distinct_split_unique:
  "distinct (us @ b # vs) \<Longrightarrow> us @ b # vs = us' @ b # vs' \<Longrightarrow> us = us'"
proof (induction us arbitrary: us')
  case Nil
  then show ?case by (cases us') auto
next
  case (Cons u us)
  show ?case
  proof (cases us')
    case Nil
    then show ?thesis using Cons.prems by auto
  next
    case (Cons w ws)
    have "distinct (us @ b # vs)" using Cons.prems(1) by simp
    moreover have "us @ b # vs = ws @ b # vs'" using Cons.prems(2) \<open>us' = w # ws\<close> by simp
    ultimately have "us = ws" by (rule Cons.IH)
    then show ?thesis using Cons.prems(2) \<open>us' = w # ws\<close> by simp
  qed
qed

lemma prereqs_first_no_cycle:
  assumes "prereqs_first es xs" "distinct xs" "(a, b) \<in> (set es)\<^sup>+" "b \<in> set xs"
  shows "\<exists>ys zs. xs = ys @ b # zs \<and> a \<in> set ys"
  using assms(3,4)
proof (induction rule: trancl_induct)
  case (base b)
  obtain ys zs where c: "xs = ys @ b # zs" using split_list[OF base.prems] by blast
  then show ?case using prereqs_first_at[OF assms(1) c base.hyps] by blast
next
  case (step b c)
  obtain ys zs where c: "xs = ys @ c # zs" using split_list[OF step.prems] by blast
  have yb: "b \<in> set ys" by (rule prereqs_first_at[OF assms(1) c step.hyps(2)])
  obtain us vs where b: "xs = us @ b # vs" "a \<in> set us" using step.IH yb c by auto
  obtain us' vs' where ys: "ys = us' @ b # vs'" using split_list[OF yb] by blast
  have same: "us @ b # vs = us' @ b # (vs' @ c # zs)" using b(1) c ys by simp
  have "distinct (us @ b # vs)" using assms(2) b(1) by simp
  then have "us = us'" using same by (rule distinct_split_unique)
  then have "a \<in> set ys" using b(2) ys by simp
  then show ?case using c by blast
qed

text \<open>
  The topological sort is right on every input: it lists capabilities of the input without
  repetition, each after all its prerequisites; it lists all of them exactly when the dependencies
  have no cycle (a capability on a cycle never appears).
\<close>

lemma resolve_dependencies_topological:
  "distinct (resolve_dependencies ds) \<and> set (resolve_dependencies ds) \<subseteq> set (all_ids ds) \<and>
   (\<forall>ys c zs p. resolve_dependencies ds = ys @ c # zs \<longrightarrow> (p, c) \<in> set (dep_edges ds) \<longrightarrow> p \<in> set ys) \<and>
   (set (resolve_dependencies ds) = set (all_ids ds) \<longleftrightarrow> acyclic (set (dep_edges ds)))"
proof -
  have "acyclic (set (dep_edges ds))" if all: "set (resolve_dependencies ds) = set (all_ids ds)"
  proof (rule acyclicI, rule allI, rule notI)
    fix x assume c: "(x, x) \<in> (set (dep_edges ds))\<^sup>+"
    then obtain p where "(p, x) \<in> set (dep_edges ds)" by (meson tranclD2)
    then have "x \<in> set (resolve_dependencies ds)" using all edges_in_ids by blast
    then obtain ys zs where "resolve_dependencies ds = ys @ x # zs" "x \<in> set ys"
      using prereqs_first_no_cycle[OF resolve_facts(3,1) c] by blast
    then show False using resolve_facts(1)[of ds] by auto
  qed
  then show ?thesis
    using resolve_facts(1-3)[of ds] resolve_complete[of ds] unfolding prereqs_first_def by blast
qed

definition sample_deps :: "capability_dependency list" where
  "sample_deps = [\<lparr>cd_capability_id = ''app'', cd_depends_on = [''net'', ''db'']\<rparr>,
                  \<lparr>cd_capability_id = ''db'', cd_depends_on = [''net'']\<rparr>]"

section \<open>The order of the gaps is right\<close>

lemma find_by_name: "distinct (map name gs) \<Longrightarrow> g \<in> set gs \<Longrightarrow> find (\<lambda>h. name h = name g) gs = Some g"
  by (induction gs) (auto simp: image_iff)

lemma relevant_edge_in_gaps:
  "(p, c) \<in> set (dep_edges (relevant_dependencies ns store)) \<Longrightarrow> p \<in> set ns \<and> c \<in> set ns"
  by (auto simp: dep_edges_def relevant_dependencies_def)

lemma relevant_ids_in_gaps: "set (all_ids (relevant_dependencies ns store)) \<subseteq> set ns"
  by (auto simp: all_ids_def relevant_dependencies_def)

lemma relevant_edge:
  "d \<in> set store \<Longrightarrow> cd_capability_id d \<in> set ns \<Longrightarrow> p \<in> set (cd_depends_on d) \<Longrightarrow> p \<in> set ns \<Longrightarrow>
   (p, cd_capability_id d) \<in> set (dep_edges (relevant_dependencies ns store))"
  by (force simp: dep_edges_def relevant_dependencies_def filter_empty_conv)

lemma found_names:
  assumes "distinct (map name gaps)" "set is \<subseteq> name ` set gaps"
  shows "map name (concat (map (\<lambda>i. case find (\<lambda>g. name g = i) gaps of None \<Rightarrow> [] | Some g \<Rightarrow> [g]) is)) = is"
    "set (concat (map (\<lambda>i. case find (\<lambda>g. name g = i) gaps of None \<Rightarrow> [] | Some g \<Rightarrow> [g]) is)) \<subseteq> set gaps"
proof -
  have one: "\<exists>g \<in> set gaps. name g = i \<and> find (\<lambda>g. name g = i) gaps = Some g" if "i \<in> set is" for i
    using assms(2) that find_by_name[OF assms(1)] by fastforce
  then show "map name (concat (map (\<lambda>i. case find (\<lambda>g. name g = i) gaps of None \<Rightarrow> [] | Some g \<Rightarrow> [g]) is)) = is"
    by (induction "is") fastforce+
  show "set (concat (map (\<lambda>i. case find (\<lambda>g. name g = i) gaps of None \<Rightarrow> [] | Some g \<Rightarrow> [g]) is)) \<subseteq> set gaps"
    using one by fastforce
qed

text \<open>The names of the answer: first the gaps outside the sort, in their order, then the sort.\<close>

lemma acquisition_names:
  assumes "distinct (map name gaps)"
  shows "map name (get_acquisition_order name store gaps) =
      (let sorted = resolve_dependencies (relevant_dependencies (map name gaps) store)
       in filter (\<lambda>n. n \<notin> set sorted) (map name gaps) @ sorted)"
    "set (get_acquisition_order name store gaps) \<subseteq> set gaps"
proof -
  let ?rel = "relevant_dependencies (map name gaps) store"
  let ?sorted = "resolve_dependencies ?rel"
  have sub: "set ?sorted \<subseteq> name ` set gaps"
    using resolve_facts(2)[of ?rel] relevant_ids_in_gaps[of "map name gaps" store] by auto
  have empty: "?rel = [] \<Longrightarrow> ?sorted = []" by (simp add: resolve_dependencies_def)
  note found = found_names[OF assms sub]
  show "map name (get_acquisition_order name store gaps) =
      (let sorted = ?sorted in filter (\<lambda>n. n \<notin> set sorted) (map name gaps) @ sorted)"
  proof (cases "gaps = [] \<or> ?rel = []")
    case True
    have "gaps = [] \<Longrightarrow> ?sorted = []" using sub by simp
    then have "?sorted = []" using True empty by blast
    then show ?thesis using True by (auto simp: get_acquisition_order_def)
  next
    case False
    then have "get_acquisition_order name store gaps =
        filter (\<lambda>g. name g \<notin> set ?sorted) gaps @
        concat (map (\<lambda>i. case find (\<lambda>g. name g = i) gaps of None \<Rightarrow> [] | Some g \<Rightarrow> [g]) ?sorted)"
      by (simp add: get_acquisition_order_def Let_def)
    then show ?thesis using found(1) by (simp add: filter_map comp_def Let_def)
  qed
  show "set (get_acquisition_order name store gaps) \<subseteq> set gaps"
    unfolding get_acquisition_order_def Let_def using found(2) by (auto split: if_splits)
qed

lemma split_behind:
  assumes "a \<notin> set fs" "fs @ xs = ys @ a # zs"
  obtains us where "ys = fs @ us" "xs = us @ a # zs"
proof -
  have "\<exists>us. ys = fs @ us \<and> xs = us @ a # zs" using assms
  proof (induction fs arbitrary: ys)
    case Nil
    then show ?case by simp
  next
    case (Cons f fs)
    then show ?case by (cases ys) auto
  qed
  then show thesis using that by blast
qed

lemma distinct_names_perm:
  assumes "distinct (map name ys)" "set ys \<subseteq> set xs" "name ` set ys = name ` set xs" "distinct (map name xs)"
  shows "mset ys = mset xs"
proof -
  have "x \<in> set ys" if x: "x \<in> set xs" for x
  proof -
    obtain y where y: "y \<in> set ys" "name y = name x" using assms(3) x by (metis imageE imageI)
    then have "y = x" using assms(2,4) x by (metis distinct_map inj_on_def subsetD)
    then show ?thesis using y by simp
  qed
  then have "set ys = set xs" using assms(2) by blast
  then show ?thesis using assms(1,4) set_eq_iff_mset_eq_distinct[of ys xs] by (simp add: distinct_map)
qed

text \<open>
  The acquisition order is a permutation of the gaps, and when the dependencies among the gaps
  have no cycle every gap comes after the gaps it depends on.
\<close>

lemma acquisition_order_respects_dependencies:
  assumes "distinct (map name gaps)"
    and "acyclic (set (dep_edges (relevant_dependencies (map name gaps) store)))"
  shows "mset (get_acquisition_order name store gaps) = mset gaps \<and>
    (\<forall>ys c zs d p. get_acquisition_order name store gaps = ys @ c # zs \<longrightarrow> d \<in> set store \<longrightarrow>
       cd_capability_id d = name c \<longrightarrow> p \<in> set (cd_depends_on d) \<longrightarrow> p \<in> name ` set gaps \<longrightarrow>
       p \<in> name ` set ys)"
proof -
  let ?rel = "relevant_dependencies (map name gaps) store"
  let ?sorted = "resolve_dependencies ?rel"
  let ?out = "get_acquisition_order name store gaps"
  let ?front = "filter (\<lambda>n. n \<notin> set ?sorted) (map name gaps)"
  have names: "map name ?out = ?front @ ?sorted" using acquisition_names(1)[OF assms(1)] by (simp add: Let_def)
  have sub: "set ?sorted \<subseteq> name ` set gaps"
    using resolve_facts(2)[of ?rel] relevant_ids_in_gaps[of "map name gaps" store] by auto
  have "mset ?out = mset gaps"
  proof (rule distinct_names_perm[OF _ acquisition_names(2)[OF assms(1)] _ assms(1)])
    show "distinct (map name ?out)" unfolding names using assms(1) resolve_facts(1)[of ?rel] by auto
    have "set (map name ?out) = name ` set gaps" unfolding names using sub by auto
    then show "name ` set ?out = name ` set gaps" by simp
  qed
  moreover have "p \<in> name ` set ys"
    if h: "?out = ys @ c # zs" "d \<in> set store" "cd_capability_id d = name c" "p \<in> set (cd_depends_on d)"
      "p \<in> name ` set gaps" for ys c zs d p
  proof -
    have c: "name c \<in> name ` set gaps" using h(1) acquisition_names(2)[OF assms(1), of store] by auto
    have e: "(p, name c) \<in> set (dep_edges ?rel)"
      using relevant_edge[OF h(2), of "map name gaps" p] h(3-5) c by simp
    have all: "name c \<in> set ?sorted"
      using resolve_complete[OF assms(2)] edges_in_ids[OF e] by blast
    have split: "?front @ ?sorted = map name ys @ name c # map name zs" using names h(1) by simp
    have "name c \<notin> set ?front" using all by simp
    from this split obtain us where us: "map name ys = ?front @ us" "?sorted = us @ name c # map name zs"
      by (rule split_behind)
    have "p \<in> set us" by (rule prereqs_first_at[OF resolve_facts(3) us(2) e])
    then have "p \<in> set (map name ys)" unfolding us(1) by simp
    then show ?thesis by simp
  qed
  ultimately show ?thesis by blast
qed

definition sample_gap_store :: "capability_dependency list" where
  "sample_gap_store = [\<lparr>cd_capability_id = ''app'', cd_depends_on = [''db'', ''net'']\<rparr>]"

lemma sample_relevant:
  "relevant_dependencies [''app'', ''db'', ''log''] sample_gap_store =
     [\<lparr>cd_capability_id = ''app'', cd_depends_on = [''db'']\<rparr>]"
  by (simp add: relevant_dependencies_def sample_gap_store_def)

text \<open>
  A cycle turns the order around: a gap that the sort leaves out, because it lies on a cycle of
  the gaps or behind one, is placed before every sorted gap, also before the gaps that it depends on.
\<close>

lemma cycle_puts_dependents_first:
  assumes "distinct (map name gaps)" "(p, c) \<in> set (dep_edges (relevant_dependencies (map name gaps) store))"
    and "p \<in> set (resolve_dependencies (relevant_dependencies (map name gaps) store))"
    and "c \<notin> set (resolve_dependencies (relevant_dependencies (map name gaps) store))"
  shows "\<exists>xs ys zs. map name (get_acquisition_order name store gaps) = xs @ c # ys @ p # zs"
proof -
  let ?sorted = "resolve_dependencies (relevant_dependencies (map name gaps) store)"
  have "c \<in> set (filter (\<lambda>n. n \<notin> set ?sorted) (map name gaps))"
    using relevant_edge_in_gaps[OF assms(2)] assms(4) by simp
  then obtain xs ys where front: "filter (\<lambda>n. n \<notin> set ?sorted) (map name gaps) = xs @ c # ys"
    using split_list by fast
  obtain us vs where "?sorted = us @ p # vs" using split_list[OF assms(3)] by blast
  then have "map name (get_acquisition_order name store gaps) = xs @ c # (ys @ us) @ p # vs"
    using acquisition_names(1)[OF assms(1)] front by (simp add: Let_def)
  then show ?thesis by blast
qed

definition sample_cycle_store :: "capability_dependency list" where
  "sample_cycle_store = [\<lparr>cd_capability_id = ''a'', cd_depends_on = [''base'', ''b'']\<rparr>,
                         \<lparr>cd_capability_id = ''b'', cd_depends_on = [''a'']\<rparr>]"

end
