(* ===== verification/Shell_Policy.thy ===== *)
theory Shell_Policy
  imports PS_Prelude
begin

text \<open>
  Which shell commands run without a question: \<open>src/tools/system/ShellTool/command-policy.ts\<close>,
  with the execution policy of \<open>src/orchestrator/execution/agent-loop/execution-policy.ts\<close> and the
  protected roots of \<open>self-protection.ts\<close>.

  The tokenizer is a recursion on the characters with the open quote and the current word as
  arguments; the analysis is a recursion on the tokens. Paths are POSIX paths; \<open>canonical\<close> (the
  file system's \<open>realpath\<close>) is an argument.
\<close>

section \<open>The execution policy\<close>

datatype execution_profile = Consumer | Dev
datatype sandbox_mode = Read_Only | Workspace_Write | Danger_Full_Access
datatype approval_policy = On_Request | Never | Untrusted

record execution_policy =
  ep_executionProfile :: execution_profile
  ep_sandboxMode :: sandbox_mode
  ep_approvalPolicy :: approval_policy
  ep_networkAccess :: bool
  ep_workspaceRoot :: string
  ep_protectedPaths :: "string list"
  ep_trustProjectInstructions :: bool

record security_config =
  sec_sandbox_mode :: "sandbox_mode option"
  sec_approval_policy :: "approval_policy option"
  sec_network_access :: "bool option"
  sec_protected_paths :: "string list option"
  sec_trust_project_instructions :: "bool option"

text \<open>The environment: the values of \<open>PULSEED_DEV\<close> and \<open>PULSEED_SELF_PROTECTION_ROOTS\<close>.\<close>

definition resolve_execution_profile :: "string option \<Rightarrow> execution_profile" where
  "resolve_execution_profile dev = (if dev = Some ''1'' then Dev else Consumer)"

definition split_env_roots :: "string option \<Rightarrow> string list" where
  "split_env_roots v = (case v of None \<Rightarrow> [] | Some s \<Rightarrow> filter (\<lambda>r. r \<noteq> []) (map trim (split_at_char (CHR '':'') s)))"

text \<open>
  \<open>resolvePulSeedProtectedRoots\<close>: \<open>packageRoot\<close> is the given or the found root of the package,
  \<open>is_root\<close> tells whether a directory holds PulSeed's own package file.
\<close>

definition resolve_protected_roots ::
  "(string \<Rightarrow> string) \<Rightarrow> (string \<Rightarrow> bool) \<Rightarrow> string option \<Rightarrow> string option \<Rightarrow> string option \<Rightarrow> string \<Rightarrow> string list" where
  "resolve_protected_roots canonical is_root dev envRoots packageRoot workspaceRoot =
     (if resolve_execution_profile dev = Dev then []
      else uniq ((if truthy packageRoot then [canonical (the packageRoot)] else []) @
                 (if is_root (canonical workspaceRoot) then [canonical workspaceRoot] else []) @
                 map canonical (split_env_roots envRoots)))"

definition is_path_inside_protected_roots :: "(string \<Rightarrow> string) \<Rightarrow> string \<Rightarrow> string list \<Rightarrow> bool" where
  "is_path_inside_protected_roots canonical pathname roots =
     (let target = canonical pathname
      in list_ex (\<lambda>root. target = canonical root \<or>
           take (length (canonical root) + 1) target = canonical root @ ''/'') roots)"

text \<open>\<open>resolveExecutionPolicy\<close> over the default policy.\<close>

definition resolve_execution_policy :: "execution_policy \<Rightarrow> security_config option \<Rightarrow> execution_policy" where
  "resolve_execution_policy base security = (case security of None \<Rightarrow> base | Some sec \<Rightarrow>
     base\<lparr>ep_sandboxMode := nullish (sec_sandbox_mode sec) (ep_sandboxMode base),
          ep_approvalPolicy := nullish (sec_approval_policy sec) (ep_approvalPolicy base),
          ep_networkAccess := nullish (sec_network_access sec) (ep_networkAccess base),
          ep_protectedPaths := ep_protectedPaths base @ nullish (sec_protected_paths sec) [],
          ep_trustProjectInstructions :=
            nullish (sec_trust_project_instructions sec) (ep_trustProjectInstructions base)\<rparr>)"

definition default_execution_policy :: "execution_profile \<Rightarrow> string list \<Rightarrow> string \<Rightarrow> execution_policy" where
  "default_execution_policy profile protectedRoots resolvedRoot =
     \<lparr>ep_executionProfile = profile, ep_sandboxMode = Workspace_Write, ep_approvalPolicy = On_Request,
      ep_networkAccess = False, ep_workspaceRoot = resolvedRoot, ep_protectedPaths = protectedRoots,
      ep_trustProjectInstructions = True\<rparr>"

section \<open>Tokens\<close>

datatype shell_operator =
  And | Or | Sequence | Pipe | Stdout_Redirect | Stdout_Append | Stderr_Redirect | Stderr_Append
  | Combined_Redirect | Stdin_Redirect

datatype shell_token = Word string | Operator shell_operator

definition redirect_operator :: "char \<Rightarrow> char option \<Rightarrow> shell_operator" where
  "redirect_operator c nxt =
     (if c = CHR ''<'' then Stdin_Redirect
      else if nxt = Some (CHR ''>'') then Stdout_Append else Stdout_Redirect)"

definition take_redirect_descriptor :: "string \<Rightarrow> shell_operator option" where
  "take_redirect_descriptor current =
     (if current = ''1'' then Some Stdout_Redirect
      else if current = ''2'' then Some Stderr_Redirect else None)"

definition push_word :: "string \<Rightarrow> shell_token list \<Rightarrow> shell_token list" where
  "push_word current tokens = (if current = [] then tokens else tokens @ [Word current])"

abbreviation (input) dquote :: char where "dquote \<equiv> CHR 0x22"
abbreviation (input) squote :: char where "squote \<equiv> CHR 0x27"
abbreviation (input) backtick :: char where "backtick \<equiv> CHR 0x60"
abbreviation (input) backslash :: char where "backslash \<equiv> CHR 0x5C"

definition substitution_error :: string where
  "substitution_error = ''Shell command contains unsupported command substitution syntax''"

definition multiline_error :: string where
  "multiline_error = ''Shell command contains unsupported multiline syntax''"

definition unterminated_error :: string where
  "unterminated_error = ''Shell command contains unterminated quoted text''"

definition next_char :: "string \<Rightarrow> char option" where
  "next_char cs = (case cs of [] \<Rightarrow> None | d # _ \<Rightarrow> Some d)"

text \<open>
  One turn of the loop: the function returns with an error, or goes on with the open quote, the
  current word, the tokens so far and the rest of the command.
\<close>

datatype token_outcome = Halt string | Go "char option" string "shell_token list" string

definition quoted_step :: "char \<Rightarrow> string \<Rightarrow> shell_token list \<Rightarrow> char \<Rightarrow> string \<Rightarrow> token_outcome" where
  "quoted_step k current tokens c cs =
     (if c = k then Go None current tokens cs
      else if k = dquote \<and> c = backtick then Halt substitution_error
      else if k = dquote \<and> c = CHR ''$'' \<and> next_char cs = Some (CHR ''('') then Halt substitution_error
      else if c = backslash \<and> next_char cs \<noteq> None
           then Go (Some k) (current @ [the (next_char cs)]) tokens (tl cs)
      else Go (Some k) (current @ [c]) tokens cs)"

definition redirect_tokens :: "string \<Rightarrow> shell_token list \<Rightarrow> char \<Rightarrow> string \<Rightarrow> shell_token list" where
  "redirect_tokens current tokens c cs = (case take_redirect_descriptor current of
     Some d \<Rightarrow> tokens @ [Operator d]
   | None \<Rightarrow> push_word current tokens @ [Operator (redirect_operator c (next_char cs))])"

definition plain_step :: "string \<Rightarrow> shell_token list \<Rightarrow> char \<Rightarrow> string \<Rightarrow> token_outcome" where
  "plain_step current tokens c cs =
     (if c = squote \<or> c = dquote then Go (Some c) current tokens cs
      else if c = CHR 0x0A \<or> c = CHR 0x0D then Halt multiline_error
      else if c = backtick then Halt substitution_error
      else if c = CHR ''$'' \<and> next_char cs = Some (CHR ''('') then Halt substitution_error
      else if c = backslash \<and> next_char cs \<noteq> None
           then Go None (current @ [the (next_char cs)]) tokens (tl cs)
      else if c = CHR '' '' \<or> c = CHR 0x09 then Go None [] (push_word current tokens) cs
      else if c = CHR ''&'' \<and> next_char cs = Some (CHR ''&'')
           then Go None [] (push_word current tokens @ [Operator And]) (tl cs)
      else if c = CHR ''|'' \<and> next_char cs = Some (CHR ''|'')
           then Go None [] (push_word current tokens @ [Operator Or]) (tl cs)
      else if c = CHR ''|'' then Go None [] (push_word current tokens @ [Operator Pipe]) cs
      else if c = CHR '';'' then Go None [] (push_word current tokens @ [Operator Sequence]) cs
      else if c = CHR ''>'' \<or> c = CHR ''<''
           then Go None [] (redirect_tokens current tokens c cs)
                  (if c = CHR ''>'' \<and> next_char cs = Some (CHR ''>'') then tl cs else cs)
      else if c = CHR ''&'' \<and> next_char cs = Some (CHR ''>'')
           then Go None [] (push_word current tokens @ [Operator Combined_Redirect]) (tl cs)
      else Go None (current @ [c]) tokens cs)"

definition token_step :: "char option \<Rightarrow> string \<Rightarrow> shell_token list \<Rightarrow> char \<Rightarrow> string \<Rightarrow> token_outcome" where
  "token_step q current tokens c cs =
     (case q of Some k \<Rightarrow> quoted_step k current tokens c cs | None \<Rightarrow> plain_step current tokens c cs)"

lemma token_step_shorter: "token_step q current tokens c cs = Go q' current' tokens' cs' \<Longrightarrow> length cs' \<le> length cs"
  by (auto simp: token_step_def quoted_step_def plain_step_def split: option.splits if_splits)

function tokenize :: "char option \<Rightarrow> string \<Rightarrow> shell_token list \<Rightarrow> string \<Rightarrow> shell_token list \<times> string option" where
  "tokenize q current tokens [] =
     (if q = None then (push_word current tokens, None) else (tokens, Some unterminated_error))"
| "tokenize q current tokens (c # cs) = (case token_step q current tokens c cs of
     Halt e \<Rightarrow> (tokens, Some e)
   | Go q' current' tokens' cs' \<Rightarrow> tokenize q' current' tokens' cs')"
  by pat_completeness auto

termination tokenize
  by (relation "measure (\<lambda>(q, current, tokens, cs). length cs)") (auto dest: token_step_shorter[OF sym] token_step_shorter)

definition tokenize_shell_command :: "string \<Rightarrow> shell_token list \<times> string option" where
  "tokenize_shell_command command = tokenize None [] [] command"

definition is_command_boundary :: "shell_operator \<Rightarrow> bool" where
  "is_command_boundary op \<longleftrightarrow> op \<in> {And, Or, Sequence, Pipe}"

definition is_output_redirection :: "shell_operator \<Rightarrow> bool" where
  "is_output_redirection op \<longleftrightarrow>
     op \<in> {Stdout_Redirect, Stdout_Append, Stderr_Redirect, Stderr_Append, Combined_Redirect}"

section \<open>Commands and what they may do\<close>

record shell_capabilities =
  sc_readOnly :: bool
  sc_localWrite :: bool
  sc_network :: bool
  sc_destructive :: bool
  sc_protectedTarget :: bool

definition empty_capabilities :: shell_capabilities where
  "empty_capabilities = \<lparr>sc_readOnly = True, sc_localWrite = False, sc_network = False,
     sc_destructive = False, sc_protectedTarget = False\<rparr>"

definition read_only_capabilities :: shell_capabilities where
  "read_only_capabilities = empty_capabilities"

definition unknown_capabilities :: shell_capabilities where
  "unknown_capabilities = empty_capabilities\<lparr>sc_readOnly := False\<rparr>"

definition local_write_capabilities :: shell_capabilities where
  "local_write_capabilities = unknown_capabilities\<lparr>sc_localWrite := True\<rparr>"

text \<open>The overrides the code passes are arguments: \<open>localWrite\<close> here, \<open>network\<close> below.\<close>

definition network_capabilities :: "bool \<Rightarrow> shell_capabilities" where
  "network_capabilities localWrite = unknown_capabilities\<lparr>sc_network := True, sc_localWrite := localWrite\<rparr>"

definition destructive_capabilities :: "bool \<Rightarrow> shell_capabilities" where
  "destructive_capabilities network = unknown_capabilities\<lparr>sc_destructive := True, sc_network := network\<rparr>"

definition merge_capabilities :: "shell_capabilities \<Rightarrow> shell_capabilities \<Rightarrow> shell_capabilities" where
  "merge_capabilities t s =
     \<lparr>sc_readOnly = (sc_readOnly t \<and> sc_readOnly s), sc_localWrite = (sc_localWrite t \<or> sc_localWrite s),
      sc_network = (sc_network t \<or> sc_network s), sc_destructive = (sc_destructive t \<or> sc_destructive s),
      sc_protectedTarget = (sc_protectedTarget t \<or> sc_protectedTarget s)\<rparr>"

record simple_command =
  cmd_executable :: string
  cmd_args :: "string list"

definition is_ascii_alpha :: "char \<Rightarrow> bool" where
  "is_ascii_alpha c = (let n = of_char c :: nat in 65 \<le> n \<and> n \<le> 90 \<or> 97 \<le> n \<and> n \<le> 122)"

definition is_ascii_digit :: "char \<Rightarrow> bool" where
  "is_ascii_digit c = (let n = of_char c :: nat in 48 \<le> n \<and> n \<le> 57)"

definition is_environment_assignment :: "string \<Rightarrow> bool" where
  "is_environment_assignment value =
     (CHR ''='' \<in> set value \<and>
      (case takeWhile (\<lambda>c. c \<noteq> CHR ''='') value of
         [] \<Rightarrow> False
       | c # cs \<Rightarrow> (c = CHR ''_'' \<or> is_ascii_alpha c) \<and>
           list_all (\<lambda>d. d = CHR ''_'' \<or> is_ascii_alpha d \<or> is_ascii_digit d) cs))"

definition build_simple_command :: "string list \<Rightarrow> simple_command option" where
  "build_simple_command words = (case dropWhile is_environment_assignment words of
     [] \<Rightarrow> None
   | e # args \<Rightarrow> if e = [] then None else Some \<lparr>cmd_executable = e, cmd_args = args\<rparr>)"

definition read_only_commands :: "string list" where
  "read_only_commands = [''cat'', ''head'', ''tail'', ''wc'', ''ls'', ''pwd'', ''echo'', ''date'', ''hostname'',
     ''which'', ''type'', ''file'', ''rg'', ''find'', ''du'', ''df'', ''tree'']"

definition local_write_commands :: "string list" where
  "local_write_commands = [''mv'', ''cp'', ''mkdir'', ''touch'', ''chmod'', ''chown'', ''tee'', ''apply_patch'']"

definition network_commands :: "string list" where
  "network_commands = [''curl'', ''wget'', ''ssh'', ''scp'', ''rsync'']"

definition destructive_commands :: "string list" where
  "destructive_commands = [''rm'', ''mkfs'', ''dd'', ''shutdown'', ''reboot'', ''sudo'']"

definition git_read_subcommands :: "string list" where
  "git_read_subcommands = [''status'', ''log'', ''diff'', ''show'', ''branch'', ''rev-parse'', ''rev-list'', ''describe'']"

definition git_write_subcommands :: "string list" where
  "git_write_subcommands = [''apply'', ''checkout'', ''restore'']"

definition git_network_subcommands :: "string list" where
  "git_network_subcommands = [''fetch'', ''pull'', ''clone'']"

definition git_destructive_subcommands :: "string list" where
  "git_destructive_subcommands = [''push'', ''commit'', ''merge'', ''rebase'', ''reset'', ''clean'', ''stash'']"

definition npm_read_subcommands :: "string list" where
  "npm_read_subcommands = [''ls'', ''list'', ''view'', ''info'', ''outdated'', ''audit'']"

definition npm_write_subcommands :: "string list" where
  "npm_write_subcommands = [''uninstall'', ''run'', ''exec'']"

definition npm_network_subcommands :: "string list" where
  "npm_network_subcommands = [''install'', ''publish'']"

definition classify_git_command :: "string list \<Rightarrow> shell_capabilities" where
  "classify_git_command args = (case args of
     [] \<Rightarrow> unknown_capabilities
   | sub # rest \<Rightarrow>
       if sub = [] then unknown_capabilities
       else if sub \<in> set git_read_subcommands then read_only_capabilities
       else if sub = ''tag'' \<and> (case rest of [] \<Rightarrow> True | a # _ \<Rightarrow> a = ''-l'' \<or> a = ''--list'')
            then read_only_capabilities
       else if sub \<in> set git_write_subcommands then local_write_capabilities
       else if sub \<in> set git_network_subcommands then network_capabilities False
       else if sub \<in> set git_destructive_subcommands then destructive_capabilities (sub = ''push'')
       else unknown_capabilities)"

definition classify_npm_command :: "string list \<Rightarrow> shell_capabilities" where
  "classify_npm_command args = (case args of
     [] \<Rightarrow> unknown_capabilities
   | sub # _ \<Rightarrow>
       if sub = [] then unknown_capabilities
       else if sub \<in> set npm_read_subcommands then read_only_capabilities
       else if sub \<in> set npm_write_subcommands then local_write_capabilities
       else if sub \<in> set npm_network_subcommands then network_capabilities True
       else unknown_capabilities)"

definition to_lower :: "char \<Rightarrow> char" where
  "to_lower c = (let n = of_char c :: nat in if 65 \<le> n \<and> n \<le> 90 then char_of (n + 32) else c)"

definition is_no_emit_option :: "string \<Rightarrow> bool" where
  "is_no_emit_option arg = (map to_lower arg = ''--noemit'')"

definition classify_npx_command :: "string list \<Rightarrow> shell_capabilities" where
  "classify_npx_command args = (case args of
     [] \<Rightarrow> unknown_capabilities
   | e # rest \<Rightarrow>
       if e = ''vitest'' \<and> (case rest of [] \<Rightarrow> False | s # _ \<Rightarrow> s = ''run'' \<or> s = ''list'' \<or> s = ''--reporter'')
       then read_only_capabilities
       else if e = ''tsc'' \<and> list_ex is_no_emit_option args then read_only_capabilities
       else unknown_capabilities)"

definition is_find_mutation_option :: "string \<Rightarrow> bool" where
  "is_find_mutation_option arg = (arg \<in> set [''-delete'', ''-exec'', ''-execdir'', ''-ok'', ''-okdir''])"

definition is_in_place_edit_option :: "string \<Rightarrow> bool" where
  "is_in_place_edit_option arg = (arg = ''-i'' \<or> take 3 arg = ''-i.'')"

definition classify_simple_command :: "simple_command \<Rightarrow> shell_capabilities" where
  "classify_simple_command c = (let e = cmd_executable c; args = cmd_args c in
     if CHR ''/'' \<in> set e then unknown_capabilities
     else if e \<in> set read_only_commands
          then (if e = ''find'' \<and> list_ex is_find_mutation_option args then local_write_capabilities
                else read_only_capabilities)
     else if e \<in> set local_write_commands then local_write_capabilities
     else if e \<in> set network_commands then network_capabilities False
     else if e \<in> set destructive_commands then destructive_capabilities False
     else if e = ''git'' then classify_git_command args
     else if e = ''npm'' then classify_npm_command args
     else if e = ''npx'' then classify_npx_command args
     else if e = ''pip'' \<or> e = ''pip3''
          then (case args of a # _ \<Rightarrow> if a = ''install'' then network_capabilities True else unknown_capabilities
                | [] \<Rightarrow> unknown_capabilities)
     else if e = ''sed'' \<or> e = ''perl''
          then (if list_ex is_in_place_edit_option args then local_write_capabilities else unknown_capabilities)
     else unknown_capabilities)"

definition collect_potential_path_tokens :: "simple_command \<Rightarrow> string list" where
  "collect_potential_path_tokens c = filter (\<lambda>arg. arg \<noteq> [] \<and> hd arg \<noteq> CHR ''-'') (cmd_args c)"

section \<open>The analysis\<close>

record shell_analysis =
  sa_commands :: "simple_command list"
  sa_pathTokens :: "string list"
  sa_capabilities :: shell_capabilities
  sa_unsupportedReason :: "string option"

definition flush_command :: "string list \<Rightarrow> shell_analysis \<Rightarrow> shell_analysis" where
  "flush_command words a = (case build_simple_command words of
     None \<Rightarrow> a
   | Some c \<Rightarrow> a\<lparr>sa_commands := sa_commands a @ [c],
                 sa_capabilities := merge_capabilities (sa_capabilities a) (classify_simple_command c),
                 sa_pathTokens := sa_pathTokens a @ collect_potential_path_tokens c\<rparr>)"

definition mark_redirected :: "shell_analysis \<Rightarrow> shell_analysis" where
  "mark_redirected a = a\<lparr>sa_capabilities := (sa_capabilities a)\<lparr>sc_readOnly := False, sc_localWrite := True\<rparr>\<rparr>"

definition note_operator :: "shell_operator \<Rightarrow> shell_analysis \<Rightarrow> shell_analysis" where
  "note_operator op a = (if is_output_redirection op then mark_redirected a else a)"

text \<open>The target of a redirection is a path token and not a word of the command.\<close>

fun analyze_tokens :: "shell_token list \<Rightarrow> string list \<Rightarrow> shell_analysis \<Rightarrow> shell_analysis" where
  "analyze_tokens [] words a = flush_command words a"
| "analyze_tokens (Word w # ts) words a = analyze_tokens ts (words @ [w]) a"
| "analyze_tokens (Operator op # Word t # ts) words a =
     (if is_command_boundary op then analyze_tokens (Word t # ts) [] (flush_command words a)
      else analyze_tokens ts words ((note_operator op a)\<lparr>sa_pathTokens := sa_pathTokens a @ [t]\<rparr>))"
| "analyze_tokens (Operator op # ts) words a =
     (if is_command_boundary op then analyze_tokens ts [] (flush_command words a)
      else analyze_tokens ts words (note_operator op a))"

definition analyze_shell_command :: "string \<Rightarrow> shell_analysis" where
  "analyze_shell_command command = (case tokenize_shell_command (trim command) of
     (tokens, Some e) \<Rightarrow> \<lparr>sa_commands = [], sa_pathTokens = [], sa_capabilities = empty_capabilities,
                         sa_unsupportedReason = Some e\<rparr>
   | (tokens, None) \<Rightarrow> analyze_tokens tokens []
       \<lparr>sa_commands = [], sa_pathTokens = [], sa_capabilities = empty_capabilities, sa_unsupportedReason = None\<rparr>)"

section \<open>The decision\<close>

text \<open>\<open>path.isAbsolute\<close> and \<open>path.resolve\<close> on POSIX paths; \<open>here\<close> is the working directory of the process.\<close>

definition is_absolute :: "string \<Rightarrow> bool" where
  "is_absolute p = (p \<noteq> [] \<and> hd p = CHR ''/'')"

fun normal_segments :: "string list \<Rightarrow> string list \<Rightarrow> string list" where
  "normal_segments acc [] = acc"
| "normal_segments acc (s # ss) =
     (if s = [] \<or> s = ''.'' then normal_segments acc ss
      else if s = ''..'' then normal_segments (butlast acc) ss
      else normal_segments (acc @ [s]) ss)"

definition path_resolve :: "string \<Rightarrow> string \<Rightarrow> string \<Rightarrow> string" where
  "path_resolve here base p =
     (let full = (if is_absolute p then p
                  else if is_absolute base then base @ ''/'' @ p
                  else here @ ''/'' @ base @ ''/'' @ p);
          segs = normal_segments [] (split_at_char (CHR ''/'') full)
      in if segs = [] then ''/'' else concat (map (\<lambda>s. CHR ''/'' # s) segs))"

datatype shell_status = Allowed | Needs_Approval | Denied

record shell_assessment =
  as_status :: shell_status
  as_reason :: "string option"
  as_capabilities :: shell_capabilities

definition targets_protected_root ::
  "(string \<Rightarrow> string) \<Rightarrow> string \<Rightarrow> string list \<Rightarrow> execution_policy option \<Rightarrow> string option \<Rightarrow> bool" where
  "targets_protected_root canonical here pathTokens policy cwd = (case policy of
     None \<Rightarrow> False
   | Some pol \<Rightarrow>
       if ep_protectedPaths pol = [] then False
       else (let effective = nullish cwd (ep_workspaceRoot pol)
             in is_path_inside_protected_roots canonical effective (ep_protectedPaths pol) \<or>
                list_ex (\<lambda>t. is_path_inside_protected_roots canonical
                              (if is_absolute t then t else path_resolve here effective t)
                              (ep_protectedPaths pol)) pathTokens))"

definition mutating :: "shell_capabilities \<Rightarrow> bool" where
  "mutating c = (sc_localWrite c \<or> \<not> sc_readOnly c)"

definition denied :: "string \<Rightarrow> shell_capabilities \<Rightarrow> shell_assessment" where
  "denied reason c = \<lparr>as_status = Denied, as_reason = Some reason, as_capabilities = c\<rparr>"

definition allowed :: "shell_capabilities \<Rightarrow> shell_assessment" where
  "allowed c = \<lparr>as_status = Allowed, as_reason = None, as_capabilities = c\<rparr>"

definition needs_approval :: "string \<Rightarrow> shell_capabilities \<Rightarrow> shell_assessment" where
  "needs_approval reason c = \<lparr>as_status = Needs_Approval, as_reason = Some reason, as_capabilities = c\<rparr>"

definition assess_shell_command ::
  "(string \<Rightarrow> string) \<Rightarrow> string \<Rightarrow> string \<Rightarrow> execution_policy option \<Rightarrow> string option \<Rightarrow> shell_assessment" where
  "assess_shell_command canonical here command policy cwd =
     (let a = analyze_shell_command command; c = sa_capabilities a in
      if sa_unsupportedReason a \<noteq> None then denied (the (sa_unsupportedReason a)) c
      else if mutating c \<and> targets_protected_root canonical here (sa_pathTokens a) policy cwd
           then denied ''Shell command would mutate a protected PulSeed source root'' (c\<lparr>sc_protectedTarget := True\<rparr>)
      else if sc_destructive c then denied ''Denied destructive shell command'' c
      else if sc_protectedTarget c \<and> mutating c then denied ''Shell command targets a protected path'' c
      else if sc_network c \<and> (case policy of None \<Rightarrow> False | Some pol \<Rightarrow> \<not> ep_networkAccess pol)
           then denied ''Network access is disabled for this session'' c
      else if \<not> sc_localWrite c \<and> \<not> sc_network c \<and> sc_readOnly c then allowed c
      else (case policy of
              None \<Rightarrow> if mutating c \<or> sc_network c then needs_approval ''Shell command requires approval'' c else allowed c
            | Some pol \<Rightarrow>
                if ep_sandboxMode pol = Read_Only
                then denied ''Read-only sandbox blocks mutating shell commands'' c
                else if mutating c \<or> sc_network c
                then (if ep_approvalPolicy pol \<noteq> Never
                      then needs_approval ''Shell command requires approval under current execution policy'' c
                      else allowed c)
                else allowed c))"

definition is_read_only_shell_command :: "string \<Rightarrow> bool" where
  "is_read_only_shell_command command =
     (let r = assess_shell_command id [] command None None; c = as_capabilities r
      in as_status r = Allowed \<and> sc_readOnly c \<and> \<not> sc_localWrite c \<and> \<not> sc_network c \<and> \<not> sc_destructive c \<and>
         \<not> sc_protectedTarget c)"

definition contains_shell_executable :: "string \<Rightarrow> string \<Rightarrow> bool" where
  "contains_shell_executable command executable =
     list_ex (\<lambda>c. cmd_executable c = executable) (sa_commands (analyze_shell_command command))"

definition format_denial_reason :: "string \<Rightarrow> string" where
  "format_denial_reason reason =
     (if reason = multiline_error
      then reason @ '' Use apply_patch for edits, read/list tools for inspection, or a supported one-line shell command for verification.'' @
           '' Do not retry with heredocs, here-strings, or inline language rewrites.''
      else reason)"

text \<open>
  \<open>ShellTool.checkPermissions\<close> after the working directory was validated: \<open>preApproved\<close> stands for
  either of the two approvals of the context.
\<close>

datatype permission_check = Perm_Allowed | Perm_Needs_Approval string | Perm_Denied string

definition shell_check_permissions ::
  "(string \<Rightarrow> string) \<Rightarrow> string \<Rightarrow> string \<Rightarrow> execution_policy option \<Rightarrow> string option \<Rightarrow> bool \<Rightarrow> permission_check" where
  "shell_check_permissions canonical here command policy cwd preApproved =
     (let r = assess_shell_command canonical here command policy cwd
      in case as_status r of
           Allowed \<Rightarrow> Perm_Allowed
         | Needs_Approval \<Rightarrow>
             if preApproved then Perm_Allowed
             else Perm_Needs_Approval (nullish (as_reason r) ''Shell command requires approval'')
         | Denied \<Rightarrow> Perm_Denied (format_denial_reason (nullish (as_reason r) ''Shell command denied by policy'')))"

section \<open>What the analysis collects\<close>

definition redirects :: "shell_token list \<Rightarrow> bool" where
  "redirects ts = list_ex (\<lambda>t. case t of Operator op \<Rightarrow> is_output_redirection op | Word w \<Rightarrow> False) ts"

text \<open>
  The capabilities are those of the commands together; an output redirection adds a local write.
\<close>

definition collected :: "bool \<Rightarrow> shell_analysis \<Rightarrow> bool" where
  "collected r a \<longleftrightarrow> (let cs = map classify_simple_command (sa_commands a) in
     sa_capabilities a =
       \<lparr>sc_readOnly = (\<not> r \<and> list_all sc_readOnly cs), sc_localWrite = (r \<or> list_ex sc_localWrite cs),
        sc_network = list_ex sc_network cs, sc_destructive = list_ex sc_destructive cs,
        sc_protectedTarget = False\<rparr>)"

lemmas kind_defs = read_only_capabilities_def local_write_capabilities_def
  network_capabilities_def destructive_capabilities_def unknown_capabilities_def empty_capabilities_def

definition capability_kinds :: "shell_capabilities set" where
  "capability_kinds = {read_only_capabilities, unknown_capabilities, local_write_capabilities,
     network_capabilities False, network_capabilities True, destructive_capabilities False, destructive_capabilities True}"

lemma kinds_intro:
  "read_only_capabilities \<in> capability_kinds" "unknown_capabilities \<in> capability_kinds"
  "local_write_capabilities \<in> capability_kinds" "network_capabilities b \<in> capability_kinds"
  "destructive_capabilities b \<in> capability_kinds"
  by (cases b; simp add: capability_kinds_def)+

lemma kinds_if: "x \<in> capability_kinds \<Longrightarrow> y \<in> capability_kinds \<Longrightarrow> (if b then x else y) \<in> capability_kinds"
  by simp

lemma sub_kinds:
  "classify_git_command args \<in> capability_kinds" "classify_npm_command args \<in> capability_kinds"
  "classify_npx_command args \<in> capability_kinds"
  unfolding classify_git_command_def classify_npm_command_def classify_npx_command_def
  by (cases args; simp only: list.case kinds_intro; intro kinds_if kinds_intro)+

lemma classified_kinds: "classify_simple_command c \<in> capability_kinds"
proof -
  have pip: "(case cmd_args c of a # _ \<Rightarrow> if a = ''install'' then network_capabilities True else unknown_capabilities
      | [] \<Rightarrow> unknown_capabilities) \<in> capability_kinds"
    by (cases "cmd_args c"; simp only: list.case kinds_intro; intro kinds_if kinds_intro)
  show ?thesis unfolding classify_simple_command_def Let_def
    by (intro kinds_if kinds_intro sub_kinds pip)
qed

lemmas kind_cases = classified_kinds[unfolded capability_kinds_def insert_iff empty_iff]

lemma classified_read_only: "sc_readOnly (classify_simple_command c) \<longleftrightarrow> classify_simple_command c = read_only_capabilities"
  using kind_cases[of c]
  by (elim disjE) (simp_all add: kind_defs)

lemma classified_target: "\<not> sc_protectedTarget (classify_simple_command c)"
  using kind_cases[of c]
  by (elim disjE) (simp_all add: kind_defs)

lemma classified_mutating:
  "sc_localWrite (classify_simple_command c) \<or> sc_network (classify_simple_command c) \<or>
   sc_destructive (classify_simple_command c) \<Longrightarrow> \<not> sc_readOnly (classify_simple_command c)"
  using kind_cases[of c]
  by (elim disjE) (simp_all add: kind_defs)

lemma flush_collected: "collected r a \<Longrightarrow> collected r (flush_command words a)"
  using classified_target
  by (auto simp: collected_def flush_command_def merge_capabilities_def Let_def split: option.splits)

lemma mark_collected: "collected r a \<Longrightarrow> collected True (mark_redirected a)"
  by (simp add: collected_def mark_redirected_def Let_def)

lemma note_collected: "collected r a \<Longrightarrow> collected (r \<or> is_output_redirection op) (note_operator op a)"
  by (simp add: note_operator_def mark_collected)

lemma boundary_no_redirect: "is_command_boundary op \<Longrightarrow> \<not> is_output_redirection op"
  by (auto simp: is_command_boundary_def is_output_redirection_def)

lemma path_collected: "collected r (a\<lparr>sa_pathTokens := ps\<rparr>) = collected r a"
  by (simp add: collected_def)

lemma analyze_tokens_collected: "collected r a \<Longrightarrow> collected (r \<or> redirects ts) (analyze_tokens ts words a)"
proof (induction ts words a arbitrary: r rule: analyze_tokens.induct, goal_cases)
  case (1 words a r)
  then show ?case by (simp add: redirects_def flush_collected)
next
  case (2 w ts words a r)
  then show ?case by (simp add: redirects_def)
next
  case (3 op t ts words a r)
  have step: "collected (r \<or> is_output_redirection op) ((note_operator op a)\<lparr>sa_pathTokens := sa_pathTokens a @ [t]\<rparr>)"
    using note_collected[OF 3(3)] by (simp only: path_collected)
  show ?case
  proof (cases "is_command_boundary op")
    case True
    then show ?thesis using 3(1)[OF True flush_collected[OF 3(3)]] boundary_no_redirect by (simp add: redirects_def)
  next
    case False
    then show ?thesis using 3(2)[OF False step] by (simp add: redirects_def disj_assoc)
  qed
next
  case (4 op words a r)
  then show ?case
    using note_collected[OF 4(3), of op] flush_collected[OF 4(3)] boundary_no_redirect[of op]
    by (cases "is_command_boundary op") (auto simp: redirects_def disj_assoc)
next
  case (5 op op' ts words a r)
  show ?case
  proof (cases "is_command_boundary op")
    case True
    then show ?thesis using 5(1)[OF True flush_collected[OF 5(3)]] boundary_no_redirect
      by (simp add: redirects_def)
  next
    case False
    then show ?thesis using 5(2)[OF False note_collected[OF 5(3)]] by (simp add: redirects_def disj_assoc)
  qed
qed

text \<open>The analysis of a command that tokenizes.\<close>

lemma analysis_reason:
  "sa_unsupportedReason (analyze_tokens ts words a) = sa_unsupportedReason a"
  by (induction ts words a rule: analyze_tokens.induct)
    (auto simp: flush_command_def note_operator_def mark_redirected_def split: option.splits)

lemma analysis_facts:
  assumes "tokenize_shell_command (trim command) = (ts, e)"
  shows "sa_unsupportedReason (analyze_shell_command command) = e"
    "e = None \<Longrightarrow> collected (redirects ts) (analyze_shell_command command)"
proof -
  let ?init = "\<lparr>sa_commands = [], sa_pathTokens = [], sa_capabilities = empty_capabilities, sa_unsupportedReason = None\<rparr>"
  have "collected False ?init" by (simp add: collected_def empty_capabilities_def)
  then have "collected (redirects ts) (analyze_tokens ts [] ?init)"
    using analyze_tokens_collected[of False ?init ts "[]"] by simp
  then show "e = None \<Longrightarrow> collected (redirects ts) (analyze_shell_command command)"
    by (simp add: analyze_shell_command_def assms)
  show "sa_unsupportedReason (analyze_shell_command command) = e"
    by (cases e) (simp_all add: analyze_shell_command_def assms analysis_reason)
qed

lemma collected_classes:
  assumes "tokenize_shell_command (trim command) = (ts, None)"
    and "cs = map classify_simple_command (sa_commands (analyze_shell_command command))"
  defines "c \<equiv> sa_capabilities (analyze_shell_command command)"
  shows "sc_readOnly c \<longleftrightarrow> \<not> redirects ts \<and> (\<forall>c \<in> set cs. c = read_only_capabilities)"
    "sc_localWrite c \<Longrightarrow> \<not> sc_readOnly c" "sc_network c \<longleftrightarrow> (\<exists>c \<in> set cs. sc_network c)"
    "sc_destructive c \<longleftrightarrow> (\<exists>c \<in> set cs. sc_destructive c)" "\<not> sc_protectedTarget c"
    "sc_network c \<or> sc_destructive c \<Longrightarrow> \<not> sc_readOnly c"
proof -
  have "collected (redirects ts) (analyze_shell_command command)" by (rule analysis_facts(2)[OF assms(1) refl])
  then have c: "c = \<lparr>sc_readOnly = (\<not> redirects ts \<and> list_all sc_readOnly cs),
      sc_localWrite = (redirects ts \<or> list_ex sc_localWrite cs), sc_network = list_ex sc_network cs,
      sc_destructive = list_ex sc_destructive cs, sc_protectedTarget = False\<rparr>"
    unfolding collected_def c_def assms(2) by (simp only: Let_def)
  have ro: "sc_readOnly x \<longleftrightarrow> x = read_only_capabilities" if "x \<in> set cs" for x
    using that classified_read_only unfolding assms(2) by auto
  have mut: "\<not> sc_readOnly x" if "x \<in> set cs" "sc_localWrite x \<or> sc_network x \<or> sc_destructive x" for x
    using that classified_mutating unfolding assms(2) by auto
  show "sc_readOnly c \<longleftrightarrow> \<not> redirects ts \<and> (\<forall>c \<in> set cs. c = read_only_capabilities)"
    unfolding c using ro by (simp add: list_all_iff)
  show "sc_localWrite c \<Longrightarrow> \<not> sc_readOnly c" "sc_network c \<or> sc_destructive c \<Longrightarrow> \<not> sc_readOnly c"
    unfolding c using mut by (auto simp: list_all_iff list_ex_iff)
  show "sc_network c \<longleftrightarrow> (\<exists>c \<in> set cs. sc_network c)" "sc_destructive c \<longleftrightarrow> (\<exists>c \<in> set cs. sc_destructive c)"
    "\<not> sc_protectedTarget c"
    unfolding c by (simp_all add: list_ex_iff)
qed

lemma assess_denied_status: "as_status (denied r c) = Denied" "as_status (allowed c) = Allowed"
  "as_status (needs_approval r c) = Needs_Approval"
  by (simp_all add: denied_def allowed_def needs_approval_def)

lemma assess_destructive:
  assumes "tokenize_shell_command (trim command) = (ts, e)"
    and "cs = map classify_simple_command (sa_commands (analyze_shell_command command))"
    and "\<exists>c \<in> set cs. sc_destructive c"
  shows "as_status (assess_shell_command canonical here command policy cwd) = Denied"
proof (cases e)
  case None
  then show ?thesis
    using collected_classes(4)[OF _ assms(2)] assms(1,3) analysis_facts(1)[OF assms(1)]
    by (simp add: assess_shell_command_def Let_def assess_denied_status)
next
  case (Some r)
  then show ?thesis using analysis_facts(1)[OF assms(1)]
    by (simp add: assess_shell_command_def Let_def assess_denied_status)
qed

lemma assess_allowed:
  assumes "tokenize_shell_command (trim command) = (ts, e)"
    and "cs = map classify_simple_command (sa_commands (analyze_shell_command command))"
  shows "as_status (assess_shell_command canonical here command policy cwd) = Allowed \<longleftrightarrow>
      e = None \<and>
      (\<not> redirects ts \<and> (\<forall>c \<in> set cs. c = read_only_capabilities) \<or>
       (\<exists>pol. policy = Some pol \<and> ep_approvalPolicy pol = Never \<and> ep_sandboxMode pol \<noteq> Read_Only \<and>
          \<not> targets_protected_root canonical here (sa_pathTokens (analyze_shell_command command)) policy cwd \<and>
          (\<forall>c \<in> set cs. \<not> sc_destructive c \<and> (sc_network c \<longrightarrow> ep_networkAccess pol))))"
proof (cases e)
  case (Some r)
  then show ?thesis using analysis_facts(1)[OF assms(1)]
    by (simp add: assess_shell_command_def Let_def assess_denied_status)
next
  case None
  let ?c = "sa_capabilities (analyze_shell_command command)"
  let ?t = "targets_protected_root canonical here (sa_pathTokens (analyze_shell_command command)) policy cwd"
  have no: "sa_unsupportedReason (analyze_shell_command command) = None"
    using analysis_facts(1)[OF assms(1)] None by simp
  note k = collected_classes[OF assms(1)[unfolded None] assms(2)]
  show ?thesis
  proof (cases "sc_readOnly ?c")
    case True
    then have "\<not> sc_localWrite ?c" "\<not> sc_network ?c" "\<not> sc_destructive ?c" using k(2,6) by blast+
    then have "assess_shell_command canonical here command policy cwd = allowed ?c"
      using True no by (simp add: assess_shell_command_def mutating_def Let_def)
    then show ?thesis using True k(1) None by (simp add: assess_denied_status)
  next
    case False
    have *: "as_status (assess_shell_command canonical here command policy cwd) = Allowed \<longleftrightarrow>
        \<not> ?t \<and> \<not> sc_destructive ?c \<and>
        (\<exists>pol. policy = Some pol \<and> ep_approvalPolicy pol = Never \<and> ep_sandboxMode pol \<noteq> Read_Only \<and>
           (sc_network ?c \<longrightarrow> ep_networkAccess pol))"
      using False no k(5)
      by (cases policy) (simp_all add: assess_shell_command_def mutating_def Let_def assess_denied_status)
    show ?thesis unfolding * using False k(1,3,4) None by auto
  qed
qed

text \<open>
  C24. When the assessment of a shell command is that it runs without a question: it tokenizes, and either
  it redirects no output and every command that the analysis finds in the line is in the read-only class,
  or the policy never asks, the sandbox is not read-only, no path that the analysis finds lies in a protected
  root, no command that it finds is in the destructive class and the network commands are covered by the
  policy. A line in which the analysis finds a command of the destructive class is denied under every
  policy. The commands are those of the tokenizer, not those of the shell: one behind a single \<open>&\<close> is not
  among them (lemma \<open>hidden_command_runs_unasked\<close>).
\<close>

theorem shell_allowed_exactly:
  assumes "tokenize_shell_command (trim command) = (ts, e)"
    and "cs = map classify_simple_command (sa_commands (analyze_shell_command command))"
  shows "(as_status (assess_shell_command canonical here command policy cwd) = Allowed \<longleftrightarrow>
      e = None \<and>
      (\<not> redirects ts \<and> (\<forall>c \<in> set cs. c = read_only_capabilities) \<or>
       (\<exists>pol. policy = Some pol \<and> ep_approvalPolicy pol = Never \<and> ep_sandboxMode pol \<noteq> Read_Only \<and>
          \<not> targets_protected_root canonical here (sa_pathTokens (analyze_shell_command command)) policy cwd \<and>
          (\<forall>c \<in> set cs. \<not> sc_destructive c \<and> (sc_network c \<longrightarrow> ep_networkAccess pol))))) \<and>
    ((\<exists>c \<in> set cs. sc_destructive c) \<longrightarrow>
      as_status (assess_shell_command canonical here command policy cwd) = Denied)"
  using assess_allowed[OF assms, where canonical = canonical and here = here and policy = policy and cwd = cwd]
    assess_destructive[OF assms, where canonical = canonical and here = here and policy = policy and cwd = cwd]
  by blast

theorem shell_allowed_exactly_witness:
  "as_status (assess_shell_command id ''/'' ''ls -l | wc -l'' None None) = Allowed \<and>
   as_status (assess_shell_command id ''/'' ''ls; rm x'' None None) = Denied"
proof -
  have t1: "tokenize_shell_command (trim ''ls -l | wc -l'') =
      ([Word ''ls'', Word ''-l'', Operator Pipe, Word ''wc'', Word ''-l''], None)" by code_simp
  have c1: "[read_only_capabilities, read_only_capabilities] =
      map classify_simple_command (sa_commands (analyze_shell_command ''ls -l | wc -l''))" by code_simp
  have t2: "tokenize_shell_command (trim ''ls; rm x'') =
      ([Word ''ls'', Operator Sequence, Word ''rm'', Word ''x''], None)" by code_simp
  have c2: "[read_only_capabilities, destructive_capabilities False] =
      map classify_simple_command (sa_commands (analyze_shell_command ''ls; rm x''))" by code_simp
  show ?thesis
    using shell_allowed_exactly[OF t1 c1, of id "''/''" None None] shell_allowed_exactly[OF t2 c2, of id "''/''" None None]
    by (simp add: redirects_def is_output_redirection_def destructive_capabilities_def)
qed

section \<open>Quoting\<close>

definition escape_word :: "string \<Rightarrow> string" where
  "escape_word w = concat (map (\<lambda>c. [backslash, c]) w)"

lemma tokenize_escaped:
  "tokenize None current tokens (escape_word w @ rest) = tokenize None (current @ w) tokens rest"
  by (induction w arbitrary: current)
    (simp_all add: escape_word_def token_step_def plain_step_def next_char_def)

text \<open>
  Escaping protects any text: words in which every character is escaped by a backslash, each
  followed by a blank, tokenize to exactly these words, whatever operators, quotes, line breaks or
  substitutions they contain.
\<close>

lemma escaped_words_roundtrip:
  assumes "[] \<notin> set ws"
  shows "tokenize_shell_command (concat (map (\<lambda>w. escape_word w @ '' '') ws)) = (map Word ws, None)"
proof -
  have "tokenize None [] tokens (concat (map (\<lambda>w. escape_word w @ '' '') ws)) = (tokens @ map Word ws, None)" for tokens
    using assms
  proof (induction ws arbitrary: tokens)
    case Nil
    then show ?case by (simp add: push_word_def)
  next
    case (Cons w ws)
    have blank: "tokenize None w tokens (CHR '' '' # rest) = tokenize None [] (push_word w tokens) rest" for rest
      by (simp add: token_step_def plain_step_def)
    show ?case using Cons by (auto simp: tokenize_escaped blank push_word_def simp del: tokenize.simps)
  qed
  then show ?thesis by (simp add: tokenize_shell_command_def)
qed

section \<open>Commands that the analysis does not see\<close>

definition special_chars :: "char set" where
  "special_chars = {squote, dquote, backtick, backslash, CHR 0x0A, CHR 0x0D, CHR ''$'', CHR ''|'', CHR '';'',
     CHR ''<'', CHR ''>'', CHR ''&''}"

lemma plain_step_plain:
  "c \<notin> special_chars \<Longrightarrow> plain_step current tokens c cs =
     (if c = CHR '' '' \<or> c = CHR 0x09 then Go None [] (push_word current tokens) cs else Go None (current @ [c]) tokens cs)"
  by (simp add: plain_step_def special_chars_def)

lemma tokenize_plain:
  "set cs \<inter> special_chars = {} \<Longrightarrow> \<exists>ws. tokenize None current tokens cs = (tokens @ map Word ws, None)"
proof (induction cs arbitrary: current tokens)
  case Nil
  have "push_word current tokens = tokens @ map Word (if current = [] then [] else [current])"
    by (simp add: push_word_def)
  then show ?case by (metis tokenize.simps(1))
next
  case (Cons c cs)
  have c: "c \<notin> special_chars" and cs: "set cs \<inter> special_chars = {}" using Cons.prems by auto
  obtain ws ws' where ih: "tokenize None [] (push_word current tokens) cs = (push_word current tokens @ map Word ws, None)"
    "tokenize None (current @ [c]) tokens cs = (tokens @ map Word ws', None)"
    using Cons.IH[OF cs] by blast
  have "push_word current tokens @ map Word ws = tokens @ map Word ((if current = [] then [] else [current]) @ ws)"
    by (simp add: push_word_def)
  then have "\<exists>vs. push_word current tokens @ map Word ws = tokens @ map Word vs" by blast
  then show ?case using ih by (auto simp: token_step_def plain_step_plain[OF c])
qed

lemma analyze_words:
  "analyze_tokens (map Word ws) words a = flush_command (words @ ws) a"
  by (induction ws arbitrary: words) simp_all

lemma echo_allowed:
  assumes "tokenize_shell_command (trim command) = (map Word (''echo'' # ws), None)"
  shows "as_status (assess_shell_command canonical here command policy cwd) = Allowed"
    "map cmd_executable (sa_commands (analyze_shell_command command)) = [''echo'']"
proof -
  have "is_environment_assignment ''echo'' = False" by code_simp
  then have b: "build_simple_command (''echo'' # ws) = Some \<lparr>cmd_executable = ''echo'', cmd_args = ws\<rparr>"
    by (simp add: build_simple_command_def)
  then have cmds: "sa_commands (analyze_shell_command command) = [\<lparr>cmd_executable = ''echo'', cmd_args = ws\<rparr>]"
    unfolding analyze_shell_command_def assms by (simp add: analyze_words[of "''echo'' # ws" "[]", simplified] flush_command_def)
  then show "map cmd_executable (sa_commands (analyze_shell_command command)) = [''echo'']" by simp
  have "classify_simple_command \<lparr>cmd_executable = ''echo'', cmd_args = ws\<rparr> = read_only_capabilities"
    by (simp add: classify_simple_command_def read_only_commands_def Let_def)
  moreover have "\<not> redirects (map Word (''echo'' # ws))"
    by (simp add: redirects_def list_ex_iff)
  ultimately show "as_status (assess_shell_command canonical here command policy cwd) = Allowed"
    using assess_allowed[OF assms refl, where canonical = canonical and here = here and policy = policy and cwd = cwd] cmds
    by simp
qed

text \<open>
  A command after a single \<open>&\<close> is not seen: the analysis takes it for arguments of the command
  before it, so that the line runs without a question under every policy, whatever follows. The
  same holds for a command behind a quoted backslash, which the shell reads as a closed quote and the
  tokenizer as an escaped one.
\<close>

lemma hidden_command_runs_unasked:
  assumes "rest \<noteq> []" "\<not> is_space (last rest)" "set rest \<inter> special_chars = {}"
  shows "as_status (assess_shell_command canonical here (''echo & '' @ rest) policy cwd) = Allowed \<and>
    map cmd_executable (sa_commands (analyze_shell_command (''echo & '' @ rest))) = [''echo''] \<and>
    as_status (assess_shell_command canonical here
      (''echo '' @ [squote, backslash, squote] @ '';'' @ rest @ '' #'' @ [squote]) policy cwd) = Allowed"
proof -
  have "trim (''echo & '' @ rest) = ''echo & '' @ rest"
    by (rule trim_id) (use assms in \<open>simp_all add: is_space_def\<close>)
  moreover obtain ws where "tokenize None [] ([Word ''echo''] @ [Word ''&'']) rest = (([Word ''echo''] @ [Word ''&'']) @ map Word ws, None)"
    using tokenize_plain[OF assms(3)] by blast
  moreover have "tokenize None [] [] (''echo & '' @ rest) = tokenize None [] ([Word ''echo''] @ [Word ''&'']) rest"
    by (simp add: token_step_def plain_step_def next_char_def push_word_def)
  ultimately have "tokenize_shell_command (trim (''echo & '' @ rest)) = (map Word (''echo'' # ''&'' # ws), None)"
    by (simp add: tokenize_shell_command_def)
  note first = echo_allowed[OF this]
  have quoted: "tokenize (Some squote) current tokens (cs @ tl) = tokenize (Some squote) (current @ cs) tokens tl"
    if "set cs \<inter> special_chars = {}" for current tokens cs tl
    using that by (induction cs arbitrary: current) (auto simp: token_step_def quoted_step_def special_chars_def)
  let ?line = "''echo '' @ [squote, backslash, squote] @ '';'' @ rest @ '' #'' @ [squote]"
  have "trim ?line = ?line"
    by (rule trim_id) (simp_all add: is_space_def)
  moreover have "tokenize None [] [] ?line = tokenize (Some squote) [squote, CHR '';''] [Word ''echo''] (rest @ '' #'' @ [squote])"
    by (simp add: token_step_def plain_step_def quoted_step_def next_char_def push_word_def)
  moreover have "\<dots> = (map Word (''echo'' # [[squote, CHR '';''] @ rest @ '' #'']), None)"
    unfolding quoted[OF assms(3)]
    by (simp add: token_step_def quoted_step_def push_word_def)
  ultimately have "tokenize_shell_command (trim ?line) = (map Word (''echo'' # [[squote, CHR '';''] @ rest @ '' #'']), None)"
    by (simp add: tokenize_shell_command_def)
  note second = echo_allowed[OF this]
  show ?thesis using first second(1) by blast
qed

end
