(* ===== verification/Budget_Store.thy ===== *)
theory Budget_Store
  imports PS_Prelude Complex_Main
begin

text \<open>
  Runtime budgets: \<open>src/runtime/store/budget-store.ts\<close>. The table \<open>runtime_budgets\<close> is an
  association list; a row is the JSON value it holds (\<open>None\<close> when the text does not have the shape of
  a budget). The default of \<open>exhaustion_policy\<close> is applied where a value is decoded.

  The numbers of a budget are doubles between 0 and \<open>Number.MAX_SAFE_INTEGER\<close>, rational
  numbers here; \<open>rnd\<close> is the rounding of a sum or a difference to a double, an argument. Timestamps
  of the clock are arguments. \<open>load\<close> and \<open>save\<close> are separate transactions, so that two updates
  can interleave.
\<close>

section \<open>The records\<close>

datatype dimension = Wall_Clock_Ms | Iterations | Tasks | Process_Ms | Disk_Bytes | Artifacts | Llm_Tokens
  | Tool_Calls | Evaluator_Attempts

datatype budget_mode = Exploration | Consolidation | Finalization | Exhausted

datatype threshold_action = Approval_Required | Handoff_Required | Finalization_Required

datatype exhaustion_policy = Stop | Ask_Approval | Hand_Off | Finalize

datatype usage_source = Task_Execution | Artifact_Generation | Tool_Usage | Evaluator_Call | Manual

record budget_scope =
  bs_goal_id :: "string option"
  bs_run_id :: "string option"

definition scope_valid :: "budget_scope \<Rightarrow> bool" where
  "scope_valid s \<longleftrightarrow> bs_goal_id s \<noteq> Some [] \<and> bs_run_id s \<noteq> Some [] \<and> (truthy (bs_goal_id s) \<or> truthy (bs_run_id s))"

record mode_transition =
  mt_consolidation :: "rat option"
  mt_finalization :: "rat option"

record budget_limit =
  bl_dimension :: dimension
  bl_limit :: rat
  bl_warn_at_remaining :: "rat option"
  bl_approval_at_remaining :: "rat option"
  bl_handoff_at_remaining :: "rat option"
  bl_finalization_at_remaining :: "rat option"
  bl_mode_transition_at_remaining :: "mode_transition option"
  bl_exhaustion_policy :: exhaustion_policy

definition budget_number :: "rat \<Rightarrow> bool" where
  "budget_number x \<longleftrightarrow> 0 \<le> x \<and> x \<le> of_int max_safe_integer"

text \<open>\<open>RuntimeBudgetLimitBaseSchema\<close>, and with the refinement that no threshold exceeds the limit.\<close>

definition limit_base_valid :: "budget_limit \<Rightarrow> bool" where
  "limit_base_valid l \<longleftrightarrow> budget_number (bl_limit l) \<and>
     opt_all budget_number (bl_warn_at_remaining l) \<and> opt_all budget_number (bl_approval_at_remaining l) \<and>
     opt_all budget_number (bl_handoff_at_remaining l) \<and> opt_all budget_number (bl_finalization_at_remaining l) \<and>
     opt_all (\<lambda>m. opt_all budget_number (mt_consolidation m) \<and> opt_all budget_number (mt_finalization m))
       (bl_mode_transition_at_remaining l)"

definition limit_valid :: "budget_limit \<Rightarrow> bool" where
  "limit_valid l \<longleftrightarrow> limit_base_valid l \<and>
     (let below = (\<lambda>t. t \<le> bl_limit l) in
        opt_all below (bl_warn_at_remaining l) \<and> opt_all below (bl_approval_at_remaining l) \<and>
        opt_all below (bl_handoff_at_remaining l) \<and> opt_all below (bl_finalization_at_remaining l) \<and>
        opt_all (\<lambda>m. opt_all below (mt_consolidation m) \<and> opt_all below (mt_finalization m))
          (bl_mode_transition_at_remaining l))"

record consumption =
  co_amount :: rat
  co_source :: usage_source
  co_reason :: "string option"
  co_observed_at :: timestamp

record budget_usage =
  bu_dimension :: dimension
  bu_used :: rat
  bu_updated_at :: timestamp
  bu_recent :: "consumption list"

definition consumption_valid :: "consumption \<Rightarrow> bool" where
  "consumption_valid c \<longleftrightarrow> budget_number (co_amount c) \<and> co_reason c \<noteq> Some [] \<and> datetime_valid (co_observed_at c)"

definition usage_valid :: "budget_usage \<Rightarrow> bool" where
  "usage_valid u \<longleftrightarrow> budget_number (bu_used u) \<and> datetime_valid (bu_updated_at u) \<and> list_all consumption_valid (bu_recent u)"

record budget =
  bg_budget_id :: string
  bg_scope :: budget_scope
  bg_title :: "string option"
  bg_created_at :: timestamp
  bg_updated_at :: timestamp
  bg_limits :: "budget_limit list"
  bg_usage :: "budget_usage list"
  bg_notes :: "string option"

definition dimensions_unique :: "budget \<Rightarrow> bool" where
  "dimensions_unique b \<longleftrightarrow> distinct (map bl_dimension (bg_limits b)) \<and> distinct (map bu_dimension (bg_usage b))"

definition record_valid :: "(budget_limit \<Rightarrow> bool) \<Rightarrow> budget \<Rightarrow> bool" where
  "record_valid limit_ok b \<longleftrightarrow> bg_budget_id b \<noteq> [] \<and> scope_valid (bg_scope b) \<and> bg_title b \<noteq> Some [] \<and>
     datetime_valid (bg_created_at b) \<and> datetime_valid (bg_updated_at b) \<and>
     bg_limits b \<noteq> [] \<and> list_all limit_ok (bg_limits b) \<and> list_all usage_valid (bg_usage b) \<and>
     bg_notes b \<noteq> Some [] \<and> dimensions_unique b"

definition budget_valid :: "budget \<Rightarrow> bool" where
  "budget_valid = record_valid limit_valid"

definition budget_readable :: "budget \<Rightarrow> bool" where
  "budget_readable = record_valid limit_base_valid"

section \<open>Reading and writing rows\<close>

type_synonym budget_table = "(string, budget option) table"

definition clamp :: "rat \<Rightarrow> rat option \<Rightarrow> rat option" where
  "clamp l t = map_option (\<lambda>x. if l < x then l else x) t"

definition normalize_legacy_limit :: "budget_limit \<Rightarrow> budget_limit" where
  "normalize_legacy_limit l = (let c = clamp (bl_limit l) in
     l\<lparr>bl_warn_at_remaining := c (bl_warn_at_remaining l),
       bl_approval_at_remaining := c (bl_approval_at_remaining l),
       bl_handoff_at_remaining := c (bl_handoff_at_remaining l),
       bl_finalization_at_remaining := c (bl_finalization_at_remaining l),
       bl_mode_transition_at_remaining :=
         map_option (\<lambda>m. \<lparr>mt_consolidation = c (mt_consolidation m), mt_finalization = c (mt_finalization m)\<rparr>)
           (bl_mode_transition_at_remaining l)\<rparr>)"

definition normalize_legacy_record :: "budget \<Rightarrow> budget" where
  "normalize_legacy_record b = b\<lparr>bg_limits := map normalize_legacy_limit (bg_limits b)\<rparr>"

text \<open>A throw of the second parse is caught and reads as no budget.\<close>

definition parse_budget_json :: "budget option \<Rightarrow> budget option" where
  "parse_budget_json raw = (case raw of None \<Rightarrow> None | Some b \<Rightarrow>
     if budget_valid b then Some b
     else if budget_readable b
          then (let n = normalize_legacy_record b in if budget_valid n then Some n else None)
          else None)"

definition read_budget :: "string \<Rightarrow> budget_table \<Rightarrow> budget option" where
  "read_budget i t = (case table_get t i of None \<Rightarrow> None | Some raw \<Rightarrow> parse_budget_json raw)"

definition list_budgets :: "budget_table \<Rightarrow> budget list" where
  "list_budgets t = concat (map (\<lambda>(i, raw). case parse_budget_json raw of None \<Rightarrow> [] | Some b \<Rightarrow> [b]) (sort_key fst t))"

definition upsert_budget :: "budget \<Rightarrow> budget_table \<Rightarrow> budget_table" where
  "upsert_budget b t = table_put (bg_budget_id b) (Some b) t"

definition save_budget :: "budget \<Rightarrow> budget_table \<Rightarrow> budget result \<times> budget_table" where
  "save_budget b t = (if budget_valid b then (Inr b, upsert_budget b t) else (Inl SchemaError, t))"

definition must_load :: "string \<Rightarrow> budget_table \<Rightarrow> budget result" where
  "must_load i t = (case read_budget i t of
     None \<Rightarrow> Inl (Thrown (''Runtime budget not found: '' @ i)) | Some b \<Rightarrow> Inr b)"

definition import_legacy_record :: "budget \<Rightarrow> budget_table \<Rightarrow> budget result \<times> budget_table" where
  "import_legacy_record b t = (if budget_valid b then save_budget b t else (Inl SchemaError, t))"

section \<open>Creating a budget\<close>

record create_input =
  ci_budget_id :: string
  ci_scope :: budget_scope
  ci_title :: "string option"
  ci_created_at :: "timestamp option"
  ci_limits :: "budget_limit list"
  ci_notes :: "string option"

definition zero_usage :: "timestamp \<Rightarrow> dimension \<Rightarrow> budget_usage" where
  "zero_usage now d = \<lparr>bu_dimension = d, bu_used = 0, bu_updated_at = now, bu_recent = []\<rparr>"

definition if_truthy :: "string option \<Rightarrow> string option" where
  "if_truthy s = (if truthy s then s else None)"

definition create_budget :: "timestamp \<Rightarrow> create_input \<Rightarrow> budget_table \<Rightarrow> budget result \<times> budget_table" where
  "create_budget nowIso input t =
     (if read_budget (ci_budget_id input) t \<noteq> None
      then (Inl (Thrown (''Runtime budget already exists: '' @ ci_budget_id input)), t)
      else (let createdAt = nullish (ci_created_at input) nowIso
            in if \<not> list_all limit_valid (ci_limits input) then (Inl SchemaError, t)
               else save_budget
                 \<lparr>bg_budget_id = ci_budget_id input, bg_scope = ci_scope input, bg_title = if_truthy (ci_title input),
                  bg_created_at = createdAt, bg_updated_at = createdAt, bg_limits = ci_limits input,
                  bg_usage = map (\<lambda>l. zero_usage createdAt (bl_dimension l)) (ci_limits input),
                  bg_notes = if_truthy (ci_notes input)\<rparr> t))"

section \<open>Using a budget\<close>

definition amount_error :: js_error where
  "amount_error = Thrown ''Budget usage amount must be a finite safe non-negative number''"

definition total_error :: js_error where
  "total_error = Thrown ''Budget usage total must be a finite safe non-negative number''"

definition parse_usage_amount :: "rat \<Rightarrow> rat result" where
  "parse_usage_amount a = (if budget_number a then Inr a else Inl amount_error)"

definition parse_optional_amount :: "rat option \<Rightarrow> rat option result" where
  "parse_optional_amount a = (case a of None \<Rightarrow> Inr None
     | Some x \<Rightarrow> result_bind (parse_usage_amount x) (\<lambda>y. Inr (if 0 < y then Some y else None)))"

definition add_budget_usage :: "(rat \<Rightarrow> rat) \<Rightarrow> rat \<Rightarrow> rat \<Rightarrow> rat result" where
  "add_budget_usage rnd current amount =
     result_bind (parse_usage_amount current) (\<lambda>c. result_bind (parse_usage_amount amount) (\<lambda>a.
       if 0 < a \<and> rnd (of_int max_safe_integer - c) < a then Inl total_error
       else (let next' = rnd (c + a)
             in if 0 < a \<and> next' \<le> c then Inl total_error
                else if budget_number next' then Inr next' else Inl total_error)))"

record usage_input =
  ui_dimension :: dimension
  ui_amount :: rat
  ui_source :: usage_source
  ui_reason :: "string option"
  ui_observed_at :: "timestamp option"

definition usage_for :: "budget_usage list \<Rightarrow> dimension \<Rightarrow> budget_usage option" where
  "usage_for us d = find (\<lambda>u. bu_dimension u = d) (rev us)"

definition has_limit :: "budget \<Rightarrow> dimension \<Rightarrow> bool" where
  "has_limit b d = list_ex (\<lambda>l. bl_dimension l = d) (bg_limits b)"

definition dimension_name :: "dimension \<Rightarrow> string" where
  "dimension_name d = (case d of Wall_Clock_Ms \<Rightarrow> ''wall_clock_ms'' | Iterations \<Rightarrow> ''iterations''
     | Tasks \<Rightarrow> ''tasks'' | Process_Ms \<Rightarrow> ''process_ms'' | Disk_Bytes \<Rightarrow> ''disk_bytes'' | Artifacts \<Rightarrow> ''artifacts''
     | Llm_Tokens \<Rightarrow> ''llm_tokens'' | Tool_Calls \<Rightarrow> ''tool_calls'' | Evaluator_Attempts \<Rightarrow> ''evaluator_attempts'')"

text \<open>The updater that \<open>updateUsage\<close> hands to \<open>update\<close>.\<close>

definition apply_usage :: "(rat \<Rightarrow> rat) \<Rightarrow> timestamp \<Rightarrow> string \<Rightarrow> usage_input \<Rightarrow> budget \<Rightarrow> budget result" where
  "apply_usage rnd nowIso i input b =
     (let seen = nullish (ui_observed_at input) nowIso; d = ui_dimension input
      in if \<not> has_limit b d
         then Inl (Thrown (''Budget '' @ i @ '' has no limit for '' @ dimension_name d))
         else (let existing = nullish (usage_for (bg_usage b) d) (zero_usage seen d)
               in result_bind (add_budget_usage rnd (bu_used existing) (ui_amount input)) (\<lambda>used.
                    let entry = \<lparr>co_amount = ui_amount input, co_source = ui_source input,
                                 co_reason = if_truthy (ui_reason input), co_observed_at = seen\<rparr>;
                        upd = existing\<lparr>bu_used := used, bu_updated_at := seen,
                                       bu_recent := take 20 (entry # bu_recent existing)\<rparr>
                    in Inr (b\<lparr>bg_updated_at := seen,
                              bg_usage := map (\<lambda>l. if bl_dimension l = d then upd
                                               else nullish (usage_for (bg_usage b) (bl_dimension l))
                                                      (zero_usage seen (bl_dimension l))) (bg_limits b)\<rparr>))))"

text \<open>
  \<open>updateUsage\<close> up to its write: the amount is checked, the budget loaded and the new record computed.
  The write is a transaction of its own; between the two another call may run.
\<close>

definition compute_usage :: "(rat \<Rightarrow> rat) \<Rightarrow> timestamp \<Rightarrow> string \<Rightarrow> usage_input \<Rightarrow> budget_table \<Rightarrow> budget result" where
  "compute_usage rnd nowIso i input t =
     result_bind (parse_usage_amount (ui_amount input)) (\<lambda>a.
       result_bind (must_load i t) (apply_usage rnd nowIso i input))"

definition update_usage ::
  "(rat \<Rightarrow> rat) \<Rightarrow> timestamp \<Rightarrow> string \<Rightarrow> usage_input \<Rightarrow> budget_table \<Rightarrow> budget result \<times> budget_table" where
  "update_usage rnd nowIso i input t = (case compute_usage rnd nowIso i input t of
     Inl e \<Rightarrow> (Inl e, t) | Inr b \<Rightarrow> save_budget b t)"

section \<open>Recording consumption\<close>

text \<open>\<open>planUsageUpdates\<close>: the fold carries the planned use of every dimension.\<close>

definition plan_step ::
  "(rat \<Rightarrow> rat) \<Rightarrow> budget \<Rightarrow> (dimension, rat) table \<times> (dimension \<times> rat) list \<Rightarrow> dimension \<times> rat option \<Rightarrow>
   ((dimension, rat) table \<times> (dimension \<times> rat) list) result" where
  "plan_step rnd b acc inp = (case acc of (planned, updates) \<Rightarrow> case inp of (d, raw) \<Rightarrow>
     result_bind (parse_optional_amount raw) (\<lambda>am. case am of
       None \<Rightarrow> Inr acc
     | Some a \<Rightarrow>
         if \<not> has_limit b d then Inr acc
         else result_bind (add_budget_usage rnd (nullish (table_get planned d) 0) a) (\<lambda>used.
                Inr (table_put d used planned, updates @ [(d, a)]))))"

definition plan_usage_updates ::
  "(rat \<Rightarrow> rat) \<Rightarrow> budget \<Rightarrow> (dimension \<times> rat option) list \<Rightarrow> (dimension \<times> rat) list result" where
  "plan_usage_updates rnd b inputs =
     result_bind (foldl (\<lambda>m inp. result_bind m (\<lambda>acc. plan_step rnd b acc inp))
        (Inr (foldl (\<lambda>t u. table_put (bu_dimension u) (bu_used u) t) [] (bg_usage b), [])) inputs)
       (\<lambda>acc. Inr (snd acc))"

text \<open>One call of \<open>updateUsage\<close> per planned update; \<open>nows\<close> are the clock readings of the calls.\<close>

fun apply_updates ::
  "(rat \<Rightarrow> rat) \<Rightarrow> timestamp list \<Rightarrow> string \<Rightarrow> usage_source \<Rightarrow> timestamp option \<Rightarrow> string option \<Rightarrow>
   (dimension \<times> rat) list \<Rightarrow> budget \<Rightarrow> budget_table \<Rightarrow> budget result \<times> budget_table" where
  "apply_updates rnd nows i src seen reason [] b t = (Inr b, t)"
| "apply_updates rnd nows i src seen reason ((d, a) # us) b t =
     (case update_usage rnd (hd nows) i
             \<lparr>ui_dimension = d, ui_amount = a, ui_source = src, ui_reason = reason, ui_observed_at = seen\<rparr> t of
        (Inl e, t') \<Rightarrow> (Inl e, t')
      | (Inr b', t') \<Rightarrow> apply_updates rnd (tl nows) i src seen reason us b' t')"

definition record_consumption ::
  "(rat \<Rightarrow> rat) \<Rightarrow> timestamp list \<Rightarrow> string \<Rightarrow> usage_source \<Rightarrow> timestamp option \<Rightarrow> string option \<Rightarrow>
   (dimension \<times> rat option) list \<Rightarrow> budget_table \<Rightarrow> budget result \<times> budget_table" where
  "record_consumption rnd nows i src seen reason inputs t =
     (case must_load i t of
        Inl e \<Rightarrow> (Inl e, t)
      | Inr b \<Rightarrow> (case plan_usage_updates rnd b inputs of
          Inl e \<Rightarrow> (Inl e, t)
        | Inr updates \<Rightarrow> apply_updates rnd nows i src seen reason updates b t))"

definition record_task_execution where
  "record_task_execution rnd nows i iterations tasks process_ms wall_clock_ms seen reason =
     record_consumption rnd nows i Task_Execution seen reason
       [(Iterations, iterations), (Tasks, tasks), (Process_Ms, process_ms), (Wall_Clock_Ms, wall_clock_ms)]"

definition record_artifact_generation where
  "record_artifact_generation rnd nows i disk_bytes artifacts seen reason =
     record_consumption rnd nows i Artifact_Generation seen reason [(Disk_Bytes, disk_bytes), (Artifacts, artifacts)]"

definition record_tool_usage where
  "record_tool_usage rnd nows i llm_tokens tool_calls seen reason =
     record_consumption rnd nows i Tool_Usage seen reason [(Llm_Tokens, llm_tokens), (Tool_Calls, tool_calls)]"

definition record_evaluator_call where
  "record_evaluator_call rnd nowIso i attempts seen reason =
     update_usage rnd nowIso i
       \<lparr>ui_dimension = Evaluator_Attempts, ui_amount = nullish attempts 1, ui_source = Evaluator_Call,
        ui_reason = reason, ui_observed_at = seen\<rparr>"

section \<open>The status of a budget\<close>

record dimension_status =
  ds_dimension :: dimension
  ds_limit :: rat
  ds_used :: rat
  ds_remaining :: rat
  ds_exhausted :: bool
  ds_exhaustion_policy :: exhaustion_policy
  ds_threshold_actions :: "threshold_action list"

definition at_most :: "rat \<Rightarrow> rat option \<Rightarrow> bool" where
  "at_most remaining t = (case t of None \<Rightarrow> False | Some x \<Rightarrow> remaining \<le> x)"

definition threshold_actions_for :: "budget_limit \<Rightarrow> rat \<Rightarrow> rat \<Rightarrow> threshold_action list" where
  "threshold_actions_for l remaining used = uniq
     ((if at_most remaining (bl_approval_at_remaining l) then [Approval_Required] else []) @
      (if at_most remaining (bl_handoff_at_remaining l) then [Handoff_Required] else []) @
      (if at_most remaining (bl_finalization_at_remaining l) then [Finalization_Required] else []) @
      (if bl_limit l \<le> used
       then (case bl_exhaustion_policy l of Hand_Off \<Rightarrow> [Handoff_Required] | Finalize \<Rightarrow> [Finalization_Required]
             | Ask_Approval \<Rightarrow> [Approval_Required] | Stop \<Rightarrow> [])
       else []))"

definition dimension_status_of :: "(rat \<Rightarrow> rat) \<Rightarrow> budget_usage list \<Rightarrow> budget_limit \<Rightarrow> dimension_status" where
  "dimension_status_of rnd us l =
     (let used = (case usage_for us (bl_dimension l) of None \<Rightarrow> 0 | Some u \<Rightarrow> bu_used u);
          remaining = max 0 (rnd (bl_limit l - used))
      in \<lparr>ds_dimension = bl_dimension l, ds_limit = bl_limit l, ds_used = used, ds_remaining = remaining,
          ds_exhausted = (bl_limit l \<le> used), ds_exhaustion_policy = bl_exhaustion_policy l,
          ds_threshold_actions = threshold_actions_for l remaining used\<rparr>)"

text \<open>The loop over the dimensions returns at the first finalization.\<close>

fun mode_loop :: "budget_limit list \<Rightarrow> budget_mode \<Rightarrow> dimension_status list \<Rightarrow> budget_mode" where
  "mode_loop limits mode [] = mode"
| "mode_loop limits mode (s # ss) =
     (let transitions = (case find (\<lambda>l. bl_dimension l = ds_dimension s) limits of
                           None \<Rightarrow> None | Some l \<Rightarrow> bl_mode_transition_at_remaining l);
          final = (case transitions of None \<Rightarrow> None | Some m \<Rightarrow> mt_finalization m);
          consol = (case transitions of None \<Rightarrow> None | Some m \<Rightarrow> mt_consolidation m)
      in if at_most (ds_remaining s) final then Finalization
         else mode_loop limits (if at_most (ds_remaining s) consol then Consolidation else mode) ss)"

definition budget_mode_of :: "budget_limit list \<Rightarrow> dimension_status list \<Rightarrow> budget_mode" where
  "budget_mode_of limits dims =
     (if list_ex ds_exhausted dims then Exhausted else mode_loop limits Exploration dims)"

record budget_status =
  st_budget_id :: string
  st_scope :: budget_scope
  st_mode :: budget_mode
  st_dimensions :: "dimension_status list"
  st_approval_required :: bool
  st_handoff_required :: bool
  st_finalization_required :: bool
  st_exhausted :: bool
  st_recent_consumption :: "consumption list"

text \<open>\<open>collate\<close> gives the order of the timestamp strings (\<open>localeCompare\<close>).\<close>

definition budget_status_of :: "(rat \<Rightarrow> rat) \<Rightarrow> (timestamp \<Rightarrow> int) \<Rightarrow> budget \<Rightarrow> budget_status" where
  "budget_status_of rnd collate b =
     (let dims = map (dimension_status_of rnd (bg_usage b)) (bg_limits b);
          needs = (\<lambda>a. list_ex (\<lambda>d. a \<in> set (ds_threshold_actions d)) dims)
      in \<lparr>st_budget_id = bg_budget_id b, st_scope = bg_scope b, st_mode = budget_mode_of (bg_limits b) dims,
          st_dimensions = dims, st_approval_required = needs Approval_Required,
          st_handoff_required = needs Handoff_Required, st_finalization_required = needs Finalization_Required,
          st_exhausted = list_ex ds_exhausted dims,
          st_recent_consumption =
            take 10 (sort_key (\<lambda>c. - collate (co_observed_at c)) (concat (map bu_recent (bg_usage b))))\<rparr>)"

record generation_context =
  gc_budget_id :: string
  gc_scope :: budget_scope
  gc_mode :: budget_mode
  gc_exhausted :: bool
  gc_approval_required :: bool
  gc_handoff_required :: bool
  gc_finalization_required :: bool
  gc_remaining :: "(dimension, rat) table"
  gc_recent_consumption :: "consumption list"

definition task_generation_context :: "(rat \<Rightarrow> rat) \<Rightarrow> (timestamp \<Rightarrow> int) \<Rightarrow> budget \<Rightarrow> generation_context" where
  "task_generation_context rnd collate b = (let s = budget_status_of rnd collate b in
     \<lparr>gc_budget_id = st_budget_id s, gc_scope = st_scope s, gc_mode = st_mode s, gc_exhausted = st_exhausted s,
      gc_approval_required = st_approval_required s, gc_handoff_required = st_handoff_required s,
      gc_finalization_required = st_finalization_required s,
      gc_remaining = foldl (\<lambda>t d. table_put (ds_dimension d) (ds_remaining d) t) [] (st_dimensions s),
      gc_recent_consumption = st_recent_consumption s\<rparr>)"

section \<open>Rows\<close>

definition used_of :: "budget \<Rightarrow> dimension \<Rightarrow> rat" where
  "used_of b d = (case usage_for (bg_usage b) d of None \<Rightarrow> 0 | Some u \<Rightarrow> bu_used u)"

lemma parse_valid: "parse_budget_json raw = Some b \<Longrightarrow> budget_valid b"
  by (auto simp: parse_budget_json_def Let_def split: option.splits if_splits)

lemma read_valid: "read_budget i t = Some b \<Longrightarrow> budget_valid b"
  by (auto simp: read_budget_def parse_valid split: option.splits)

lemma save_read:
  assumes "save_budget b t = (Inr b', t')"
  shows "b' = b" "budget_valid b"
    "read_budget j t' = (if j = bg_budget_id b then Some b else read_budget j t)"
  using assms
  by (auto simp: save_budget_def upsert_budget_def read_budget_def parse_budget_json_def table_get_put split: if_splits)

lemma usage_for_snoc: "usage_for (us @ [u]) d = (if bu_dimension u = d then Some u else usage_for us d)"
  by (simp add: usage_for_def)

lemma usage_for_map:
  assumes "\<And>x. bu_dimension (f x) = g x" "\<And>x y. x \<in> set xs \<Longrightarrow> y \<in> set xs \<Longrightarrow> g x = g y \<Longrightarrow> f x = f y"
    and "x \<in> set xs" "g x = d"
  shows "usage_for (map f xs) d = Some (f x)"
proof -
  have "f x \<in> set (rev (map f xs))" "bu_dimension (f x) = d" using assms(1)[of x] assms(3,4) by simp_all
  then have "find (\<lambda>u. bu_dimension u = d) (rev (map f xs)) \<noteq> None"
    unfolding find_None_conv by blast
  then obtain u where u: "find (\<lambda>u. bu_dimension u = d) (rev (map f xs)) = Some u" by blast
  have "u \<in> set (rev (map f xs))" "bu_dimension u = d" using find_SomeD[OF u] by blast+
  then obtain y where y: "y \<in> set xs" "u = f y" by (metis imageE image_set set_rev)
  have "g y = g x" using assms(1)[of y] y(2) \<open>bu_dimension u = d\<close> assms(4) by simp
  then have "f y = f x" by (rule assms(2)[OF y(1) assms(3)])
  then show ?thesis using u y(2) by (simp add: usage_for_def)
qed

section \<open>What one update does\<close>

lemma add_usage_facts:
  assumes "add_budget_usage rnd c a = Inr n"
  shows "n = rnd (c + a)" "budget_number n" "budget_number c" "budget_number a" "0 < a \<Longrightarrow> c < n"
  using assms by (auto simp: add_budget_usage_def parse_usage_amount_def Let_def split: if_splits)

lemma usage_for_dim: "usage_for us d = Some u \<Longrightarrow> bu_dimension u = d"
  unfolding usage_for_def by (blast dest: find_SomeD)

lemma apply_usage_facts:
  assumes "apply_usage rnd now i input b = Inr b'"
  defines "d \<equiv> ui_dimension input"
  shows "has_limit b d" "add_budget_usage rnd (used_of b d) (ui_amount input) = Inr (used_of b' d)"
    "bg_limits b' = bg_limits b" "bg_budget_id b' = bg_budget_id b"
    "e \<noteq> d \<Longrightarrow> has_limit b e \<Longrightarrow> used_of b' e = used_of b e"
proof -
  let ?at = "nullish (ui_observed_at input) now"
  let ?old = "nullish (usage_for (bg_usage b) d) (zero_usage ?at d)"
  have used: "bu_used ?old = used_of b d"
    by (cases "usage_for (bg_usage b) d") (simp_all add: used_of_def zero_usage_def)
  show limit: "has_limit b d"
    using assms by (auto simp: apply_usage_def Let_def split: if_splits)
  obtain n where n: "add_budget_usage rnd (used_of b d) (ui_amount input) = Inr n"
    using assms(1) limit used unfolding apply_usage_def Let_def d_def
    by (auto simp: result_bind_Inr_iff simp del: result_bind.simps)
  define upd where "upd = ?old\<lparr>bu_used := n, bu_updated_at := ?at,
      bu_recent := take 20 (\<lparr>co_amount = ui_amount input, co_source = ui_source input,
        co_reason = if_truthy (ui_reason input), co_observed_at = ?at\<rparr> # bu_recent ?old)\<rparr>"
  define f where "f (l :: budget_limit) = (if bl_dimension l = d then upd
      else nullish (usage_for (bg_usage b) (bl_dimension l)) (zero_usage ?at (bl_dimension l)))" for l
  have b': "b' = b\<lparr>bg_updated_at := ?at, bg_usage := map f (bg_limits b)\<rparr>"
    using assms(1) limit n used unfolding apply_usage_def Let_def d_def f_def upd_def by simp
  then show "bg_limits b' = bg_limits b" "bg_budget_id b' = bg_budget_id b" by simp_all
  have fdim: "bu_dimension (f l) = bl_dimension l" for l
    using usage_for_dim[of "bg_usage b" "bl_dimension l"]
    by (cases "usage_for (bg_usage b) (bl_dimension l)") (auto simp: f_def upd_def zero_usage_def)
  have same: "f l = f m" if "bl_dimension l = bl_dimension m" for l m
    using that by (simp add: f_def)
  have get: "usage_for (bg_usage b') (bl_dimension l) = Some (f l)" if "l \<in> set (bg_limits b)" for l
  proof -
    have "usage_for (map f (bg_limits b)) (bl_dimension l) = Some (f l)"
      by (rule usage_for_map[where g = bl_dimension]) (use fdim same that in blast)+
    then show ?thesis by (simp add: b')
  qed
  obtain l where l: "l \<in> set (bg_limits b)" "bl_dimension l = d"
    using limit by (auto simp: has_limit_def list_ex_iff)
  have "bu_used (f l) = n" using l by (simp add: f_def upd_def)
  then show "add_budget_usage rnd (used_of b d) (ui_amount input) = Inr (used_of b' d)"
    using n get[OF l(1)] l(2) by (simp add: used_of_def)
  show "used_of b' e = used_of b e" if e: "e \<noteq> d" "has_limit b e"
  proof -
    obtain m where m: "m \<in> set (bg_limits b)" "bl_dimension m = e"
      using e by (auto simp: has_limit_def list_ex_iff)
    have "bu_used (f m) = used_of b e"
      using m e by (cases "usage_for (bg_usage b) e") (simp_all add: f_def used_of_def zero_usage_def)
    then show ?thesis using get[OF m(1)] m(2) by (simp add: used_of_def)
  qed
qed

lemma compute_facts:
  assumes "compute_usage rnd now i input t = Inr b'"
  obtains b where "read_budget i t = Some b" "apply_usage rnd now i input b = Inr b'" "budget_number (ui_amount input)"
  using assms
  by (auto simp: compute_usage_def must_load_def parse_usage_amount_def result_bind_Inr_iff split: option.splits if_splits)

lemma update_facts:
  assumes "update_usage rnd now i input t = (Inr b', t')" "read_budget i t = Some b"
  shows "apply_usage rnd now i input b = Inr b'" "save_budget b' t = (Inr b', t')"
proof -
  obtain c where c: "compute_usage rnd now i input t = Inr c" "save_budget c t = (Inr b', t')"
    using assms(1) by (auto simp: update_usage_def split: sum.splits)
  have "c = b'" using save_read(1)[OF c(2)] by simp
  then show "apply_usage rnd now i input b = Inr b'" "save_budget b' t = (Inr b', t')"
    using c assms(2) by (auto elim: compute_facts)
qed

text \<open>
  A usage update that succeeds adds its amount to the used total of its dimension and to no
  other: the stored budget reads back as the returned one, with the same limits; a positive amount
  raises the total, which never leaves the safe range, whatever the rounding; other budgets are
  untouched.
\<close>

lemma usage_update_accumulates:
  assumes "read_budget i t = Some b" "bg_budget_id b = i" "update_usage rnd now i input t = (Inr b', t')"
  shows "read_budget i t' = Some b' \<and> bg_limits b' = bg_limits b \<and>
    used_of b' (ui_dimension input) = rnd (used_of b (ui_dimension input) + ui_amount input) \<and>
    budget_number (used_of b' (ui_dimension input)) \<and>
    (0 < ui_amount input \<longrightarrow> used_of b (ui_dimension input) < used_of b' (ui_dimension input)) \<and>
    (\<forall>d. d \<noteq> ui_dimension input \<longrightarrow> has_limit b d \<longrightarrow> used_of b' d = used_of b d) \<and>
    (\<forall>j. j \<noteq> i \<longrightarrow> read_budget j t' = read_budget j t)"
proof -
  note u = update_facts[OF assms(3,1)]
  note a = apply_usage_facts[OF u(1)]
  show ?thesis using a(1,3-5) add_usage_facts[OF a(2)] save_read(3)[OF u(2)] assms(2) by auto
qed

section \<open>Recording is all or nothing\<close>

text \<open>An update that the plan accepts: its dimension has a limit and the new total is safe.\<close>

definition accepted :: "(rat \<Rightarrow> rat) \<Rightarrow> budget \<Rightarrow> dimension \<times> rat \<Rightarrow> bool" where
  "accepted rnd b u \<longleftrightarrow> has_limit b (fst u) \<and> (\<exists>n. add_budget_usage rnd (used_of b (fst u)) (snd u) = Inr n)"

lemma planned_start:
  "nullish (table_get (foldl (\<lambda>t u. table_put (bu_dimension u) (bu_used u) t) [] us) d) 0 =
   (case usage_for us d of None \<Rightarrow> 0 | Some u \<Rightarrow> bu_used u)"
proof (induction us rule: rev_induct)
  case Nil
  then show ?case by (simp add: usage_for_def)
next
  case (snoc u us)
  then show ?case by (simp add: usage_for_snoc table_get_put)
qed

lemma plan_step_facts:
  assumes "plan_step rnd b (planned, us) (d, raw) = Inr (planned', us')"
  shows "us' = us \<and> planned' = planned \<or>
    (\<exists>a n. us' = us @ [(d, a)] \<and> planned' = table_put d n planned \<and> has_limit b d \<and>
       add_budget_usage rnd (nullish (table_get planned d) 0) a = Inr n)"
  using assms
  by (auto simp: plan_step_def result_bind_Inr_iff simp del: result_bind.simps split: option.splits if_splits)

lemma plan_accepts:
  assumes "plan_usage_updates rnd b inputs = Inr us" "distinct (map fst inputs)"
  shows "distinct (map fst us) \<and> set (map fst us) \<subseteq> set (map fst inputs) \<and> (\<forall>u \<in> set us. accepted rnd b u)"
proof -
  let ?start = "foldl (\<lambda>t u. table_put (bu_dimension u) (bu_used u) t) [] (bg_usage b)"
  have "distinct (map fst us) \<and> set (map fst us) \<subseteq> set (map fst inputs) \<and> (\<forall>u \<in> set us. accepted rnd b u) \<and>
      (\<forall>d. d \<notin> set (map fst inputs) \<longrightarrow> nullish (table_get planned d) 0 = used_of b d)"
    if "foldl (\<lambda>m inp. result_bind m (\<lambda>acc. plan_step rnd b acc inp)) (Inr (?start, [])) inputs = Inr (planned, us)"
      "distinct (map fst inputs)" for inputs planned us
    using that
  proof (induction inputs arbitrary: planned us rule: rev_induct)
    case Nil
    then show ?case by (auto simp: planned_start used_of_def)
  next
    case (snoc inp inputs)
    obtain d raw where inp: "inp = (d, raw)" by (cases inp)
    obtain planned0 us0 where ih: "foldl (\<lambda>m inp. result_bind m (\<lambda>acc. plan_step rnd b acc inp)) (Inr (?start, [])) inputs = Inr (planned0, us0)"
      and step: "plan_step rnd b (planned0, us0) (d, raw) = Inr (planned, us)"
      using snoc.prems(1) inp by (auto simp: result_bind_Inr_iff simp del: result_bind.simps)
    have IH: "distinct (map fst us0)" "set (map fst us0) \<subseteq> set (map fst inputs)" "\<forall>u \<in> set us0. accepted rnd b u"
      "\<forall>d. d \<notin> set (map fst inputs) \<longrightarrow> nullish (table_get planned0 d) 0 = used_of b d"
      using snoc.IH[OF ih] snoc.prems(2) by auto
    have d: "d \<notin> set (map fst inputs)" using snoc.prems(2) inp by simp
    from plan_step_facts[OF step] show ?case
    proof (elim disjE exE conjE)
      assume "us = us0" "planned = planned0"
      then show ?thesis using IH inp by auto
    next
      fix a n assume h: "us = us0 @ [(d, a)]" "planned = table_put d n planned0" "has_limit b d"
        "add_budget_usage rnd (nullish (table_get planned0 d) 0) a = Inr n"
      have "accepted rnd b (d, a)" using h(3,4) IH(4) d by (simp add: accepted_def)
      moreover have "d \<notin> set (map fst us0)" using d IH(2) by blast
      ultimately show ?thesis using IH h(1,2) inp by (auto simp: table_get_put)
    qed
  qed
  moreover obtain planned where "foldl (\<lambda>m inp. result_bind m (\<lambda>acc. plan_step rnd b acc inp)) (Inr (?start, [])) inputs = Inr (planned, us)"
    using assms(1) by (auto simp: plan_usage_updates_def result_bind_Inr_iff simp del: result_bind.simps)
  ultimately show ?thesis using assms(2) by blast
qed

lemma zero_usage_valid: "datetime_valid now \<Longrightarrow> usage_valid (zero_usage now d)"
  by (simp add: usage_valid_def zero_usage_def budget_number_def max_safe_integer_def)

lemma usage_for_valid: "list_all usage_valid us \<Longrightarrow> usage_for us d = Some u \<Longrightarrow> usage_valid u"
  using find_SomeD[of "\<lambda>u. bu_dimension u = d" "rev us" u] by (auto simp: usage_for_def list_all_iff)

lemma if_truthy_ok: "if_truthy s \<noteq> Some []"
  by (cases s) (auto simp: if_truthy_def)

text \<open>An accepted update with a valid timestamp keeps the record valid.\<close>

lemma apply_usage_valid:
  assumes "budget_valid b" "accepted rnd b (d, a)" "datetime_valid (nullish seen now)"
    and inp: "input = \<lparr>ui_dimension = d, ui_amount = a, ui_source = src, ui_reason = reason, ui_observed_at = seen\<rparr>"
  shows "\<exists>b'. apply_usage rnd now i input b = Inr b' \<and> budget_valid b'"
proof -
  let ?at = "nullish seen now"
  let ?old = "nullish (usage_for (bg_usage b) d) (zero_usage ?at d)"
  obtain n where n: "add_budget_usage rnd (used_of b d) a = Inr n" and limit: "has_limit b d"
    using assms(2) by (auto simp: accepted_def)
  have used: "bu_used ?old = used_of b d"
    by (cases "usage_for (bg_usage b) d") (simp_all add: used_of_def zero_usage_def)
  have us: "list_all usage_valid (bg_usage b)" using assms(1) by (simp add: budget_valid_def record_valid_def)
  have old: "usage_valid (nullish (usage_for (bg_usage b) e) (zero_usage ?at e))" for e
    using zero_usage_valid[OF assms(3)] usage_for_valid[OF us]
    by (cases "usage_for (bg_usage b) e") auto
  define upd where "upd = ?old\<lparr>bu_used := n, bu_updated_at := ?at,
      bu_recent := take 20 (\<lparr>co_amount = a, co_source = src, co_reason = if_truthy reason, co_observed_at = ?at\<rparr> # bu_recent ?old)\<rparr>"
  define f where "f (l :: budget_limit) = (if bl_dimension l = d then upd
      else nullish (usage_for (bg_usage b) (bl_dimension l)) (zero_usage ?at (bl_dimension l)))" for l
  have b': "apply_usage rnd now i input b = Inr (b\<lparr>bg_updated_at := ?at, bg_usage := map f (bg_limits b)\<rparr>)"
    using limit n used unfolding apply_usage_def Let_def inp f_def upd_def by simp
  have "consumption_valid \<lparr>co_amount = a, co_source = src, co_reason = if_truthy reason, co_observed_at = ?at\<rparr>"
    using add_usage_facts(4)[OF n] assms(3) if_truthy_ok by (simp add: consumption_valid_def)
  then have "usage_valid upd"
    using add_usage_facts(2)[OF n] assms(3) old[of d]
    by (auto simp: usage_valid_def upd_def list_all_iff dest: in_set_takeD)
  then have f: "usage_valid (f l)" for l using old by (simp add: f_def)
  have fdim: "bu_dimension (f l) = bl_dimension l" for l
    using usage_for_dim[of "bg_usage b" "bl_dimension l"]
    by (cases "usage_for (bg_usage b) (bl_dimension l)") (auto simp: f_def upd_def zero_usage_def)
  have dims: "map bu_dimension (map f (bg_limits b)) = map bl_dimension (bg_limits b)"
    by (simp add: fdim)
  have "budget_valid (b\<lparr>bg_updated_at := ?at, bg_usage := map f (bg_limits b)\<rparr>)"
    using assms(1,3) f by (simp add: budget_valid_def record_valid_def dimensions_unique_def list_all_iff dims[unfolded map_map])
  then show ?thesis using b' by blast
qed

lemma apply_updates_succeed:
  assumes "read_budget i t = Some b" "bg_budget_id b = i" "\<forall>u \<in> set us. accepted rnd b u" "distinct (map fst us)"
    and "\<forall>now \<in> set nows. datetime_valid (nullish seen now)" "length us \<le> length nows"
  shows "\<exists>b' t'. apply_updates rnd nows i src seen reason us b t = (Inr b', t') \<and>
    (\<forall>(d, a) \<in> set us. used_of b' d = rnd (used_of b d + a)) \<and>
    (\<forall>d. has_limit b d \<longrightarrow> d \<notin> fst ` set us \<longrightarrow> used_of b' d = used_of b d) \<and> read_budget i t' = Some b'"
  using assms
proof (induction us arbitrary: b t nows)
  case Nil
  then show ?case by simp
next
  case (Cons u us)
  obtain d a where u: "u = (d, a)" by (cases u)
  obtain now nows' where nows: "nows = now # nows'" using Cons.prems(6) by (cases nows) auto
  define input where "input = \<lparr>ui_dimension = d, ui_amount = a, ui_source = src, ui_reason = reason, ui_observed_at = seen\<rparr>"
  have valid: "budget_valid b" by (rule read_valid[OF Cons.prems(1)])
  have acc: "accepted rnd b (d, a)" using Cons.prems(3) u by simp
  obtain b1 where b1: "apply_usage rnd now i input b = Inr b1" "budget_valid b1"
    using apply_usage_valid[OF valid acc _ input_def] Cons.prems(5) nows by fastforce
  note facts = apply_usage_facts[OF b1(1)]
  have id1: "bg_budget_id b1 = i" using facts(4) Cons.prems(2) by simp
  define t1 where "t1 = upsert_budget b1 t"
  have "budget_number a" using acc add_usage_facts(4) by (auto simp: accepted_def)
  then have upd: "update_usage rnd now i input t = (Inr b1, t1)"
    using b1 Cons.prems(1)
    by (simp add: update_usage_def compute_usage_def parse_usage_amount_def must_load_def save_budget_def t1_def input_def)
  have r1: "read_budget i t1 = Some b1"
    using save_read(3)[of b1 t b1 t1] b1(2) id1 by (simp add: save_budget_def t1_def)
  have limits: "has_limit b1 e = has_limit b e" for e using facts(3) by (simp add: has_limit_def)
  have others: "used_of b1 e = used_of b e" if "has_limit b e" "e \<noteq> d" for e
    using facts(5)[of e] that by (simp add: input_def)
  have "\<forall>v \<in> set us. accepted rnd b1 v"
  proof
    fix v assume v: "v \<in> set us"
    then have "accepted rnd b v" "fst v \<noteq> d" using Cons.prems(3,4) u by auto
    then show "accepted rnd b1 v" using others limits by (simp add: accepted_def)
  qed
  moreover have "distinct (map fst us)" "\<forall>now \<in> set nows'. datetime_valid (nullish seen now)" "length us \<le> length nows'"
    using Cons.prems(4-6) nows by auto
  ultimately obtain b' t' where ih: "apply_updates rnd nows' i src seen reason us b1 t1 = (Inr b', t')"
    "\<forall>(d, a) \<in> set us. used_of b' d = rnd (used_of b1 d + a)"
    "\<forall>d. has_limit b1 d \<longrightarrow> d \<notin> fst ` set us \<longrightarrow> used_of b' d = used_of b1 d" "read_budget i t' = Some b'"
    using Cons.IH[OF r1 id1] by blast
  have run: "apply_updates rnd nows i src seen reason (u # us) b t = (Inr b', t')"
    using ih(1) upd by (simp add: u nows input_def)
  have new: "used_of b1 d = rnd (used_of b d + a)" using add_usage_facts(1)[OF facts(2)] by (simp add: input_def)
  have d: "d \<notin> fst ` set us" using Cons.prems(4) u by simp
  have "used_of b' e = rnd (used_of b e + c)" if "(e, c) \<in> set (u # us)" for e c
  proof (cases "(e, c) = u")
    case True
    have "has_limit b1 d" using facts(1) limits by (simp add: input_def)
    then show ?thesis using True u new ih(3) d by auto
  next
    case False
    then have e: "(e, c) \<in> set us" using that by simp
    then have "e \<noteq> d" using d by force
    moreover have "has_limit b e" using Cons.prems(3) e by (fastforce simp: accepted_def)
    ultimately show ?thesis using ih(2) e others by fastforce
  qed
  moreover have "used_of b' e = used_of b e" if "has_limit b e" "e \<notin> fst ` set (u # us)" for e
    using ih(3) limits others that u by auto
  ultimately show ?case using run ih(4) by blast
qed

definition planned :: "budget \<Rightarrow> (dimension \<times> rat option) list \<Rightarrow> (dimension \<times> rat) list" where
  "planned b inputs = concat (map (\<lambda>(d, raw). case raw of None \<Rightarrow> []
     | Some a \<Rightarrow> if 0 < a \<and> has_limit b d then [(d, a)] else []) inputs)"

lemma plan_step_planned:
  "plan_step rnd b (tab, us) inp = Inr (tab', us') \<Longrightarrow> us' = us @ planned b [inp]"
  by (cases inp)
    (auto simp: plan_step_def planned_def parse_optional_amount_def parse_usage_amount_def result_bind_Inr_iff
      simp del: result_bind.simps split: option.splits if_splits)

lemma plan_planned: "plan_usage_updates rnd b inputs = Inr us \<Longrightarrow> us = planned b inputs"
proof -
  have "us = snd start @ planned b inputs"
    if "foldl (\<lambda>m inp. result_bind m (\<lambda>acc. plan_step rnd b acc inp)) (Inr start) inputs = Inr (tab, us)" for start tab us
    using that
  proof (induction inputs arbitrary: tab us rule: rev_induct)
    case Nil
    then show ?case by (simp add: planned_def)
  next
    case (snoc inp inputs)
    obtain tab0 us0 where ih: "foldl (\<lambda>m inp. result_bind m (\<lambda>acc. plan_step rnd b acc inp)) (Inr start) inputs = Inr (tab0, us0)"
      "plan_step rnd b (tab0, us0) inp = Inr (tab, us)"
      using snoc.prems by (auto simp: result_bind_Inr_iff simp del: result_bind.simps)
    show ?case using snoc.IH[OF ih(1)] plan_step_planned[OF ih(2)] by (simp add: planned_def)
  qed
  then show "plan_usage_updates rnd b inputs = Inr us \<Longrightarrow> us = planned b inputs"
    by (fastforce simp: plan_usage_updates_def result_bind_Inr_iff simp del: result_bind.simps)
qed

lemma planned_get:
  "distinct (map fst inputs) \<Longrightarrow> (d, raw) \<in> set inputs \<Longrightarrow> has_limit b d \<Longrightarrow>
   (\<forall>a. (d, a) \<in> set (planned b inputs) \<longleftrightarrow> raw = Some a \<and> 0 < a)"
  by (force simp: planned_def split: option.splits if_splits dest: eq_key_imp_eq_value)

lemma length_planned: "length (planned b inputs) \<le> length inputs"
  by (induction inputs) (auto simp: planned_def split: option.splits)

lemma apply_usage_stamp: "apply_usage rnd now i input b = Inr b' \<Longrightarrow> bg_updated_at b' = nullish (ui_observed_at input) now"
  by (auto simp: apply_usage_def Let_def result_bind_Inr_iff simp del: result_bind.simps split: if_splits)

lemma update_bad_stamp:
  assumes "\<not> datetime_valid (nullish (ui_observed_at input) now)"
  shows "\<exists>e. update_usage rnd now i input t = (Inl e, t)"
proof (cases "compute_usage rnd now i input t")
  case (Inl e)
  then show ?thesis by (simp add: update_usage_def)
next
  case (Inr b')
  then have "bg_updated_at b' = nullish (ui_observed_at input) now"
    by (rule compute_facts) (rule apply_usage_stamp)
  then have "\<not> budget_valid b'" using assms by (simp add: budget_valid_def record_valid_def)
  then show ?thesis using Inr by (simp add: update_usage_def save_budget_def)
qed

text \<open>
  Recording the consumption of a step is all or nothing when nothing else runs in between: if it
  throws, no budget changed, although it writes once per dimension; if it returns, every given
  positive amount of a limited dimension was added, every other limited dimension kept its total,
  and the stored budget is the returned one.
\<close>

lemma recording_is_all_or_nothing:
  assumes "read_budget i t = Some b" "bg_budget_id b = i" "distinct (map fst inputs)"
    and "\<forall>now \<in> set nows. datetime_valid now" "length inputs \<le> length nows"
    and "record_consumption rnd nows i src seen reason inputs t = (r, t')"
  shows "case r of
      Inl e \<Rightarrow> t' = t
    | Inr b' \<Rightarrow> read_budget i t' = Some b' \<and>
        (\<forall>d raw. (d, raw) \<in> set inputs \<longrightarrow> has_limit b d \<longrightarrow>
           used_of b' d = (case raw of None \<Rightarrow> used_of b d
             | Some a \<Rightarrow> if 0 < a then rnd (used_of b d + a) else used_of b d))"
proof (cases "plan_usage_updates rnd b inputs")
  case (Inl e)
  then show ?thesis using assms(1,6) by (auto simp: record_consumption_def must_load_def)
next
  case (Inr us)
  have run: "apply_updates rnd nows i src seen reason us b t = (r, t')"
    using assms(1,6) Inr by (simp add: record_consumption_def must_load_def)
  have us: "us = planned b inputs" by (rule plan_planned[OF Inr])
  have len: "length us \<le> length nows" using length_planned[of b inputs] assms(5) us by simp
  note acc = plan_accepts[OF Inr assms(3)]
  show ?thesis
  proof (cases "us \<noteq> [] \<and> \<not> datetime_valid (nullish seen (hd nows))")
    case True
    then obtain d a vs where "us = (d, a) # vs" by (cases us) auto
    then show ?thesis
      using run update_bad_stamp[of "\<lparr>ui_dimension = d, ui_amount = a, ui_source = src, ui_reason = reason, ui_observed_at = seen\<rparr>" "hd nows" rnd i t] True
      by auto
  next
    case False
    then consider "us = []" | "\<forall>now \<in> set nows. datetime_valid (nullish seen now)"
      using assms(4) len by (cases seen) auto
    then obtain b' where b': "r = Inr b'" "\<forall>(d, a) \<in> set us. used_of b' d = rnd (used_of b d + a)"
      "\<forall>d. has_limit b d \<longrightarrow> d \<notin> fst ` set us \<longrightarrow> used_of b' d = used_of b d" "read_budget i t' = Some b'"
    proof cases
      case 1
      then show ?thesis using that[of b] run assms(1) by auto
    next
      case 2
      then show ?thesis
        using that run apply_updates_succeed[OF assms(1,2) _ _ 2 len, of rnd src reason] acc by fastforce
    qed
    have "used_of b' d = (case raw of None \<Rightarrow> used_of b d
             | Some a \<Rightarrow> if 0 < a then rnd (used_of b d + a) else used_of b d)"
      if "(d, raw) \<in> set inputs" "has_limit b d" for d raw
    proof (cases "\<exists>a. raw = Some a \<and> 0 < a")
      case True
      then show ?thesis using planned_get[OF assms(3) that] b'(2) us by fastforce
    next
      case False
      then have "d \<notin> fst ` set us" using planned_get[OF assms(3) that] us by auto
      then show ?thesis using False b'(3) that(2) by (auto split: option.splits)
    qed
    then show ?thesis using b'(1,4) by simp
  qed
qed

text \<open>
  Two usage updates of one budget that both load before either writes lose the first amount:
  both calls report success, and the stored total is the old one plus the second amount only.
\<close>

lemma concurrent_updates_lose_consumption:
  assumes "read_budget i t = Some b" "bg_budget_id b = i"
    and "compute_usage rnd now1 i input1 t = Inr b1" "compute_usage rnd now2 i input2 t = Inr b2"
    and "ui_dimension input1 = d" "ui_dimension input2 = d"
    and "save_budget b1 t = (Inr c1, t1)" "save_budget b2 t1 = (Inr c2, t2)"
  shows "\<exists>b'. read_budget i t2 = Some b' \<and> used_of b' d = rnd (used_of b d + ui_amount input2) \<and>
    used_of c1 d = rnd (used_of b d + ui_amount input1)"
proof -
  have a1: "apply_usage rnd now1 i input1 b = Inr b1" using assms(1,3) by (auto elim: compute_facts)
  have a2: "apply_usage rnd now2 i input2 b = Inr b2" using assms(1,4) by (auto elim: compute_facts)
  note f1 = apply_usage_facts[OF a1] and f2 = apply_usage_facts[OF a2]
  have "read_budget i t2 = Some b2" using save_read(3)[OF assms(8), of i] save_read(1)[OF assms(8)] f2(4) assms(2) by simp
  then show ?thesis
    using add_usage_facts(1)[OF f1(2)] add_usage_facts(1)[OF f2(2)] assms(5,6) save_read(1)[OF assms(7)] by simp
qed

section \<open>The pressure only grows\<close>

text \<open>The modes are ordered by how far the budget is spent.\<close>

fun mode_rank :: "budget_mode \<Rightarrow> nat" where
  "mode_rank Exploration = 0"
| "mode_rank Consolidation = 1"
| "mode_rank Finalization = 2"
| "mode_rank Exhausted = 3"

lemma mode_rank_inj: "mode_rank x = mode_rank y \<Longrightarrow> x = y"
  by (cases x; cases y) simp_all

instantiation budget_mode :: linorder
begin

definition less_eq_budget_mode :: "budget_mode \<Rightarrow> budget_mode \<Rightarrow> bool" where
  "less_eq_budget_mode x y \<longleftrightarrow> mode_rank x \<le> mode_rank y"

definition less_budget_mode :: "budget_mode \<Rightarrow> budget_mode \<Rightarrow> bool" where
  "less_budget_mode x y \<longleftrightarrow> mode_rank x < mode_rank y"

instance
  by standard (auto simp: less_eq_budget_mode_def less_budget_mode_def mode_rank_inj)

end

text \<open>A dimension under more pressure: the same limit, more used and no more remaining.\<close>

definition more_spent :: "dimension_status \<Rightarrow> dimension_status \<Rightarrow> bool" where
  "more_spent s s' \<longleftrightarrow> ds_dimension s' = ds_dimension s \<and> ds_remaining s' \<le> ds_remaining s \<and>
     (ds_exhausted s \<longrightarrow> ds_exhausted s') \<and> set (ds_threshold_actions s) \<subseteq> set (ds_threshold_actions s')"

lemma at_most_mono: "at_most x t \<Longrightarrow> y \<le> x \<Longrightarrow> at_most y t"
  by (auto simp: at_most_def split: option.splits)

lemma actions_mono:
  "remaining' \<le> remaining \<Longrightarrow> used \<le> used' \<Longrightarrow>
   set (threshold_actions_for l remaining used) \<subseteq> set (threshold_actions_for l remaining' used')"
  using at_most_mono[of remaining _ remaining']
  by (auto simp: threshold_actions_for_def split: exhaustion_policy.splits)

lemma mode_rank_bound: "m \<le> Finalization \<longleftrightarrow> m \<noteq> Exhausted"
  by (cases m) (simp_all add: less_eq_budget_mode_def)

lemma mode_loop_bounds: "m \<noteq> Exhausted \<Longrightarrow> m \<noteq> Finalization \<Longrightarrow> m \<le> mode_loop limits m ss \<and> mode_loop limits m ss \<le> Finalization"
proof (induction ss arbitrary: m)
  case Nil
  then show ?case by (simp add: mode_rank_bound)
next
  case (Cons s ss)
  have "m \<le> Finalization" "m \<le> Consolidation"
    using Cons.prems by (cases m; simp add: less_eq_budget_mode_def)+
  then show ?case using Cons.IH[of m] Cons.IH[of Consolidation] Cons.prems
    by (auto simp: Let_def intro: order_trans)
qed

lemma mode_loop_mono:
  "list_all2 more_spent ss ss' \<Longrightarrow> m \<le> m' \<Longrightarrow> m' \<le> Consolidation \<Longrightarrow> mode_loop limits m ss \<le> mode_loop limits m' ss'"
proof (induction ss ss' arbitrary: m m' rule: list_all2_induct)
  case Nil
  then show ?case by simp
next
  case (Cons s ss s' ss')
  have m: "m \<noteq> Exhausted" "m \<noteq> Finalization" "m' \<noteq> Exhausted" "m' \<noteq> Finalization"
    using Cons.prems by (auto simp: less_eq_budget_mode_def)
  have s: "ds_dimension s' = ds_dimension s" "ds_remaining s' \<le> ds_remaining s"
    using Cons.hyps(1) by (simp_all add: more_spent_def)
  let ?tr = "case find (\<lambda>l. bl_dimension l = ds_dimension s) limits of
               None \<Rightarrow> None | Some l \<Rightarrow> bl_mode_transition_at_remaining l"
  let ?fin = "case ?tr of None \<Rightarrow> None | Some m \<Rightarrow> mt_finalization m"
  let ?con = "case ?tr of None \<Rightarrow> None | Some m \<Rightarrow> mt_consolidation m"
  have eq: "mode_loop limits m (s # ss) = (if at_most (ds_remaining s) ?fin then Finalization
         else mode_loop limits (if at_most (ds_remaining s) ?con then Consolidation else m) ss)"
    "mode_loop limits m' (s' # ss') = (if at_most (ds_remaining s') ?fin then Finalization
         else mode_loop limits (if at_most (ds_remaining s') ?con then Consolidation else m') ss')"
    unfolding mode_loop.simps Let_def s(1) by (rule refl)+
  show ?case
  proof (cases "at_most (ds_remaining s') ?fin")
    case True
    have "mode_loop limits m (s # ss) \<le> Finalization" using mode_loop_bounds[OF m(1,2)] by blast
    then show ?thesis unfolding eq(2) using True by simp
  next
    case False
    then have "\<not> at_most (ds_remaining s) ?fin" using at_most_mono[OF _ s(2)] by blast
    moreover have "(if at_most (ds_remaining s) ?con then Consolidation else m) \<le>
        (if at_most (ds_remaining s') ?con then Consolidation else m')"
      using at_most_mono[OF _ s(2), of ?con] Cons.prems by (auto intro: order_trans)
    moreover have "(if at_most (ds_remaining s') ?con then Consolidation else m') \<le> Consolidation"
      using Cons.prems by simp
    ultimately show ?thesis unfolding eq using False Cons.IH by simp
  qed
qed

lemma budget_mode_mono:
  assumes "list_all2 more_spent ss ss'"
  shows "budget_mode_of limits ss \<le> budget_mode_of limits ss'"
proof -
  have ex: "list_ex ds_exhausted ss \<Longrightarrow> list_ex ds_exhausted ss'"
    using assms by (induction ss ss' rule: list_all2_induct) (auto simp: more_spent_def)
  have top: "x \<le> Exhausted" for x by (cases x) (simp_all add: less_eq_budget_mode_def)
  have "mode_loop limits Exploration ss \<le> mode_loop limits Exploration ss'"
    by (rule mode_loop_mono[OF assms]) (simp_all add: less_eq_budget_mode_def)
  then show ?thesis using ex top by (simp add: budget_mode_of_def)
qed

lemma statuses_more_spent:
  assumes "mono rnd" "\<And>d. has_limit b d \<Longrightarrow> used_of b d \<le> used_of b' d"
  shows "list_all2 more_spent (map (dimension_status_of rnd (bg_usage b)) (bg_limits b))
    (map (dimension_status_of rnd (bg_usage b')) (bg_limits b))"
proof -
  have "more_spent (dimension_status_of rnd (bg_usage b) l) (dimension_status_of rnd (bg_usage b') l)"
    if "l \<in> set (bg_limits b)" for l
  proof -
    have le: "used_of b (bl_dimension l) \<le> used_of b' (bl_dimension l)"
      using assms(2) that by (auto simp: has_limit_def list_ex_iff)
    then have "rnd (bl_limit l - used_of b' (bl_dimension l)) \<le> rnd (bl_limit l - used_of b (bl_dimension l))"
      using assms(1) by (simp add: mono_def)
    then show ?thesis using le actions_mono
      unfolding more_spent_def dimension_status_of_def Let_def used_of_def[symmetric]
      by (auto simp: max.coboundedI2 max.mono)
  qed
  then show ?thesis by (simp add: list_all2_map1 list_all2_map2 list_all2_same)
qed

lemma needs_mono:
  assumes "list_all2 more_spent ss ss'" "list_ex (\<lambda>d. a \<in> set (ds_threshold_actions d)) ss"
  shows "list_ex (\<lambda>d. a \<in> set (ds_threshold_actions d)) ss'"
  using assms by (induction ss ss' rule: list_all2_induct) (auto simp: more_spent_def)

text \<open>
  Consumption never relieves a budget: after a successful update with a positive amount the mode
  is the same or a later one (exploration, consolidation, finalization, exhausted), and an action
  that was required (approval, handoff, finalization) still is; rounding need only be monotone.
\<close>

lemma consumption_never_relieves:
  fixes collate :: "timestamp \<Rightarrow> int"
  assumes "read_budget i t = Some b" "update_usage rnd now i input t = (Inr b', t')" "0 < ui_amount input" "mono rnd"
  defines "s \<equiv> budget_status_of rnd collate b" and "s' \<equiv> budget_status_of rnd collate b'"
  shows "st_mode s \<le> st_mode s' \<and> (st_approval_required s \<longrightarrow> st_approval_required s') \<and>
    (st_handoff_required s \<longrightarrow> st_handoff_required s') \<and>
    (st_finalization_required s \<longrightarrow> st_finalization_required s') \<and> (st_exhausted s \<longrightarrow> st_exhausted s')"
proof -
  note a = apply_usage_facts[OF update_facts(1)[OF assms(2,1)]]
  have "used_of b d \<le> used_of b' d" if "has_limit b d" for d
    using a(5)[of d] that add_usage_facts(5)[OF a(2) assms(3)] by (cases "d = ui_dimension input") auto
  note more = statuses_more_spent[OF assms(4) this]
  have ex: "list_ex ds_exhausted ss \<Longrightarrow> list_ex ds_exhausted ss'" if "list_all2 more_spent ss ss'" for ss ss'
    using that by (induction ss ss' rule: list_all2_induct) (auto simp: more_spent_def)
  show ?thesis
    unfolding s_def s'_def budget_status_of_def Let_def a(3)
    using budget_mode_mono[OF more] needs_mono[OF more] ex[OF more] by simp
qed

section \<open>Witnesses\<close>

definition sample_budget :: budget where
  "sample_budget = \<lparr>bg_budget_id = ''b'', bg_scope = \<lparr>bs_goal_id = Some ''g'', bs_run_id = None\<rparr>, bg_title = None,
     bg_created_at = Iso 0, bg_updated_at = Iso 0,
     bg_limits = [\<lparr>bl_dimension = Tasks, bl_limit = 10, bl_warn_at_remaining = None, bl_approval_at_remaining = Some 4,
        bl_handoff_at_remaining = None, bl_finalization_at_remaining = None,
        bl_mode_transition_at_remaining = None, bl_exhaustion_policy = Stop\<rparr>],
     bg_usage = [\<lparr>bu_dimension = Tasks, bu_used = 2, bu_updated_at = Iso 0, bu_recent = []\<rparr>], bg_notes = None\<rparr>"

definition sample_table :: budget_table where
  "sample_table = [(''b'', Some sample_budget)]"

definition sample_usage :: "rat \<Rightarrow> usage_input" where
  "sample_usage a = \<lparr>ui_dimension = Tasks, ui_amount = a, ui_source = Manual, ui_reason = None, ui_observed_at = None\<rparr>"

definition sample_after :: "timestamp \<Rightarrow> rat \<Rightarrow> budget" where
  "sample_after now a = sample_budget\<lparr>bg_updated_at := now,
     bg_usage := [\<lparr>bu_dimension = Tasks, bu_used = 2 + a, bu_updated_at = now,
        bu_recent = [\<lparr>co_amount = a, co_source = Manual, co_reason = None, co_observed_at = now\<rparr>]\<rparr>]\<rparr>"

lemmas sample_budget_defs = sample_budget_def sample_table_def sample_usage_def sample_after_def budget_valid_def
  record_valid_def scope_valid_def limit_valid_def limit_base_valid_def budget_number_def max_safe_integer_def
  usage_valid_def consumption_valid_def dimensions_unique_def Let_def if_truthy_def

lemma sample_read: "read_budget ''b'' sample_table = Some sample_budget"
  by (simp add: read_budget_def parse_budget_json_def sample_budget_defs)

lemma sample_compute:
  assumes "0 < a" "a \<le> 100"
  shows "compute_usage id now ''b'' (sample_usage a) sample_table = Inr (sample_after now a)"
proof -
  have "must_load ''b'' sample_table = Inr sample_budget" by (simp add: must_load_def sample_read)
  then show ?thesis using assms
    by (simp add: compute_usage_def apply_usage_def parse_usage_amount_def add_budget_usage_def usage_for_def
        has_limit_def sample_budget_defs)
qed

lemma sample_save:
  assumes "0 < a" "a \<le> 100" "datetime_valid now"
  shows "save_budget (sample_after now a) t = (Inr (sample_after now a), table_put ''b'' (Some (sample_after now a)) t)"
  using assms by (simp add: save_budget_def upsert_budget_def sample_budget_defs)

lemma sample_update:
  "update_usage id (Iso 5) ''b'' (sample_usage 3) sample_table = (Inr (sample_after (Iso 5) 3), [(''b'', Some (sample_after (Iso 5) 3))])"
  by (simp add: update_usage_def sample_compute sample_save) (simp add: sample_table_def)

end
