(* ===== verification/Trust.thy ===== *)
theory Trust
  imports PS_Prelude Complex_Main
begin

text \<open>
  Trust: \<open>src/platform/traits/trust-manager.ts\<close> with its types in \<open>traits/types/trust.ts\<close>, the rows of
  \<open>src/runtime/store/trust-state-store.ts\<close> and the plugin states of \<open>src/runtime/plugin-loader.ts\<close>.

  The manager loads the store once, keeps it in memory and writes it back whole after each change; its
  state is the cached store, the rows and the window of recent successes, which lives in memory only.
  A restart forgets the cache and the window. Balances are rational; sums with the two deltas are exact
  wherever the double is. Clock readings are arguments.
\<close>

section \<open>The store\<close>

record trust_balance =
  tb_domain :: string
  tb_balance :: rat
  tb_success_delta :: rat
  tb_failure_delta :: rat

definition balance_valid :: "trust_balance \<Rightarrow> bool" where
  "balance_valid b \<longleftrightarrow> - 100 \<le> tb_balance b \<and> tb_balance b \<le> 100"

datatype override_type = Trust_Grant | Permanent_Gate

record override_entry =
  oe_timestamp :: timestamp
  oe_override_type :: override_type
  oe_domain :: string
  oe_target_category :: "string option"
  oe_balance_before :: "rat option"
  oe_balance_after :: "rat option"

record trust_store =
  ts_balances :: "(string, trust_balance) table"
  ts_permanent_gates :: "(string, string list) table"
  ts_override_log :: "override_entry list"

definition store_valid :: "trust_store \<Rightarrow> bool" where
  "store_valid s \<longleftrightarrow> list_all (\<lambda>(d, b). balance_valid b) (ts_balances s)"

datatype action_quadrant = Autonomous | Execute_With_Confirm | Observe_And_Propose

definition high_trust_threshold :: rat where "high_trust_threshold = 20"
definition high_confidence_threshold :: rat where "high_confidence_threshold = 1 / 2"
definition trust_success_delta :: rat where "trust_success_delta = 3"
definition trust_failure_delta :: rat where "trust_failure_delta = - 10"
definition rate_limit_max :: nat where "rate_limit_max = 3"
definition rate_limit_window :: int where "rate_limit_window = 3600000"

definition default_balance :: "string \<Rightarrow> trust_balance" where
  "default_balance d = \<lparr>tb_domain = d, tb_balance = 0, tb_success_delta = trust_success_delta,
     tb_failure_delta = trust_failure_delta\<rparr>"

definition clamp_trust :: "rat \<Rightarrow> rat" where
  "clamp_trust v = max (- 100) (min 100 v)"

section \<open>Rows\<close>

record trust_rows =
  tr_balances :: "trust_balance list"
  tr_gates :: "(string \<times> nat \<times> string) list"
  tr_log :: "override_entry list"

text \<open>A balance row outside the schema makes the load throw.\<close>

definition read_trust_store :: "trust_rows \<Rightarrow> trust_store result" where
  "read_trust_store rows =
     (if \<not> list_all balance_valid (tr_balances rows) then Inl SchemaError
      else Inr \<lparr>ts_balances = foldl (\<lambda>t b. table_put (tb_domain b) b t) [] (sort_key tb_domain (tr_balances rows)),
                ts_permanent_gates =
                  foldl (\<lambda>t (d, i, c). table_put d (nullish (table_get t d) [] @ [c]) t) [] (sort (tr_gates rows)),
                ts_override_log = tr_log rows\<rparr>)"

definition replace_trust_store :: "trust_store \<Rightarrow> trust_rows" where
  "replace_trust_store s =
     \<lparr>tr_balances = map snd (ts_balances s),
      tr_gates = concat (map (\<lambda>(d, cs). map (\<lambda>(i, c). (d, i, c)) (enumerate 0 cs)) (ts_permanent_gates s)),
      tr_log = ts_override_log s\<rparr>"

section \<open>The manager\<close>

record trust_state =
  tm_cache :: "trust_store option"
  tm_rows :: trust_rows
  tm_success :: "(string, int list) table"

definition trust_restart :: "trust_state \<Rightarrow> trust_state" where
  "trust_restart st = st\<lparr>tm_cache := None, tm_success := []\<rparr>"

definition load_store :: "trust_state \<Rightarrow> trust_store result \<times> trust_state" where
  "load_store st = (case tm_cache st of
     Some s \<Rightarrow> (Inr s, st)
   | None \<Rightarrow> (case read_trust_store (tm_rows st) of
       Inl e \<Rightarrow> (Inl e, st)
     | Inr s \<Rightarrow> if store_valid s then (Inr s, st\<lparr>tm_cache := Some s\<rparr>) else (Inl SchemaError, st)))"

text \<open>The caller has changed the cached object already when \<open>saveStore\<close> parses it.\<close>

definition save_store :: "trust_store \<Rightarrow> trust_state \<Rightarrow> unit result \<times> trust_state" where
  "save_store s st =
     (if store_valid s then (Inr (), st\<lparr>tm_cache := Some s, tm_rows := replace_trust_store s\<rparr>)
      else (Inl SchemaError, st\<lparr>tm_cache := Some s\<rparr>))"

definition balance_in :: "trust_store \<Rightarrow> string \<Rightarrow> trust_balance" where
  "balance_in s d = nullish (table_get (ts_balances s) d) (default_balance d)"

definition get_balance :: "string \<Rightarrow> trust_state \<Rightarrow> trust_balance result \<times> trust_state" where
  "get_balance d st = (case load_store st of
     (Inl e, st') \<Rightarrow> (Inl e, st')
   | (Inr s, st') \<Rightarrow> (case table_get (ts_balances s) d of
       None \<Rightarrow> (Inr (default_balance d), st')
     | Some b \<Rightarrow> if balance_valid b then (Inr b, st') else (Inl SchemaError, st')))"

text \<open>The common end of \<open>recordSuccess\<close> and \<open>recordFailure\<close>.\<close>

definition adjust_balance :: "string \<Rightarrow> rat \<Rightarrow> trust_state \<Rightarrow> trust_balance result \<times> trust_state" where
  "adjust_balance d delta st = (case load_store st of
     (Inl e, st') \<Rightarrow> (Inl e, st')
   | (Inr s, st') \<Rightarrow>
       (let current = balance_in s d;
            updated = current\<lparr>tb_balance := clamp_trust (tb_balance current + delta)\<rparr>
        in case save_store (s\<lparr>ts_balances := table_put d updated (ts_balances s)\<rparr>) st' of
             (Inl e, st'') \<Rightarrow> (Inl e, st'')
           | (Inr u, st'') \<Rightarrow> (Inr updated, st'')))"

definition recent_successes :: "int \<Rightarrow> string \<Rightarrow> trust_state \<Rightarrow> int list" where
  "recent_successes now d st =
     filter (\<lambda>t. now - rate_limit_window \<le> t) (nullish (table_get (tm_success st) d) [])"

definition record_success :: "int \<Rightarrow> string \<Rightarrow> trust_state \<Rightarrow> trust_balance result \<times> trust_state" where
  "record_success now d st =
     (let timestamps = recent_successes now d st
      in if rate_limit_max \<le> length timestamps
         then (case load_store (st\<lparr>tm_success := table_put d timestamps (tm_success st)\<rparr>) of
                 (Inl e, st') \<Rightarrow> (Inl e, st')
               | (Inr s, st') \<Rightarrow> (Inr (balance_in s d), st'))
         else adjust_balance d trust_success_delta
                (st\<lparr>tm_success := table_put d (timestamps @ [now]) (tm_success st)\<rparr>))"

definition record_failure :: "string \<Rightarrow> trust_state \<Rightarrow> trust_balance result \<times> trust_state" where
  "record_failure d st = adjust_balance d trust_failure_delta st"

definition get_action_quadrant :: "string \<Rightarrow> rat \<Rightarrow> trust_state \<Rightarrow> action_quadrant result \<times> trust_state" where
  "get_action_quadrant d confidence st = (case get_balance d st of
     (Inl e, st') \<Rightarrow> (Inl e, st')
   | (Inr b, st') \<Rightarrow>
       (let highTrust = high_trust_threshold \<le> tb_balance b; highConfidence = high_confidence_threshold \<le> confidence
        in (Inr (if highTrust \<and> highConfidence then Autonomous
                 else if \<not> highTrust \<and> \<not> highConfidence then Observe_And_Propose
                 else Execute_With_Confirm), st')))"

definition has_permanent_gate :: "string \<Rightarrow> string \<Rightarrow> trust_state \<Rightarrow> bool result \<times> trust_state" where
  "has_permanent_gate d category st = (case load_store st of
     (Inl e, st') \<Rightarrow> (Inl e, st')
   | (Inr s, st') \<Rightarrow> (Inr (case table_get (ts_permanent_gates s) d of None \<Rightarrow> False | Some gs \<Rightarrow> category \<in> set gs), st'))"

definition requires_approval ::
  "string \<Rightarrow> string \<Rightarrow> rat \<Rightarrow> string option \<Rightarrow> trust_state \<Rightarrow> bool result \<times> trust_state" where
  "requires_approval reversibility d confidence category st =
     (if reversibility = ''irreversible'' \<or> reversibility = ''unknown'' then (Inr True, st)
      else (case (if truthy category then has_permanent_gate d (the category) st else (Inr False, st)) of
              (Inl e, st') \<Rightarrow> (Inl e, st')
            | (Inr True, st') \<Rightarrow> (Inr True, st')
            | (Inr False, st') \<Rightarrow> (case get_action_quadrant d confidence st' of
                (Inl e, st'') \<Rightarrow> (Inl e, st'')
              | (Inr q, st'') \<Rightarrow> (Inr (q = Observe_And_Propose), st''))))"

definition set_override :: "timestamp \<Rightarrow> string \<Rightarrow> rat \<Rightarrow> trust_state \<Rightarrow> unit result \<times> trust_state" where
  "set_override nowIso d balance st = (case load_store st of
     (Inl e, st') \<Rightarrow> (Inl e, st')
   | (Inr s, st') \<Rightarrow>
       (let current = balance_in s d; after = clamp_trust balance;
            entry = \<lparr>oe_timestamp = nowIso, oe_override_type = Trust_Grant, oe_domain = d, oe_target_category = None,
                     oe_balance_before = Some (tb_balance current), oe_balance_after = Some after\<rparr>
        in save_store (s\<lparr>ts_balances := table_put d (current\<lparr>tb_balance := after\<rparr>) (ts_balances s),
                         ts_override_log := ts_override_log s @ [entry]\<rparr>) st'))"

definition add_permanent_gate :: "timestamp \<Rightarrow> string \<Rightarrow> string \<Rightarrow> trust_state \<Rightarrow> unit result \<times> trust_state" where
  "add_permanent_gate nowIso d category st = (case load_store st of
     (Inl e, st') \<Rightarrow> (Inl e, st')
   | (Inr s, st') \<Rightarrow>
       (let gates = nullish (table_get (ts_permanent_gates s) d) [];
            gates' = (if category \<in> set gates then gates else gates @ [category]);
            entry = \<lparr>oe_timestamp = nowIso, oe_override_type = Permanent_Gate, oe_domain = d,
                     oe_target_category = Some category, oe_balance_before = None, oe_balance_after = None\<rparr>
        in save_store (s\<lparr>ts_permanent_gates := table_put d gates' (ts_permanent_gates s),
                         ts_override_log := ts_override_log s @ [entry]\<rparr>) st'))"

section \<open>Plugins\<close>

record plugin_state =
  ps_trust_score :: rat
  ps_usage_count :: int
  ps_success_count :: int
  ps_failure_count :: int

type_synonym plugin_states = "(string, plugin_state) table"

definition plugin_state_valid :: "plugin_state \<Rightarrow> bool" where
  "plugin_state_valid p \<longleftrightarrow> of_int \<lfloor>ps_trust_score p\<rfloor> = ps_trust_score p \<and> - 100 \<le> ps_trust_score p \<and> ps_trust_score p \<le> 100 \<and>
     safe_nonneg (ps_usage_count p) \<and> safe_nonneg (ps_success_count p) \<and> safe_nonneg (ps_failure_count p)"

text \<open>\<open>updatePluginState\<close>: a state outside the schema rejects the promise, which the caller logs.\<close>

definition update_plugin_state :: "string \<Rightarrow> (plugin_state \<Rightarrow> plugin_state) \<Rightarrow> plugin_states \<Rightarrow> plugin_states" where
  "update_plugin_state n f ps = (case table_get ps n of
     None \<Rightarrow> ps
   | Some p \<Rightarrow> if plugin_state_valid (f p) then table_put n (f p) ps else ps)"

definition record_plugin_success :: "string \<Rightarrow> plugin_states \<Rightarrow> plugin_states" where
  "record_plugin_success n ps = update_plugin_state n
     (\<lambda>p. p\<lparr>ps_trust_score := clamp_trust (ps_trust_score p + trust_success_delta),
            ps_success_count := ps_success_count p + 1, ps_usage_count := ps_usage_count p + 1\<rparr>) ps"

definition record_plugin_failure :: "string \<Rightarrow> plugin_states \<Rightarrow> plugin_states" where
  "record_plugin_failure n ps = update_plugin_state n
     (\<lambda>p. p\<lparr>ps_trust_score := clamp_trust (ps_trust_score p + trust_failure_delta),
            ps_failure_count := ps_failure_count p + 1, ps_usage_count := ps_usage_count p + 1\<rparr>) ps"

record plugin_match =
  pm_pluginName :: string
  pm_matchScore :: rat
  pm_matchedDimensions :: "string list"
  pm_trustScore :: rat
  pm_autoSelectable :: bool

definition enrich_match :: "plugin_states \<Rightarrow> plugin_match \<Rightarrow> plugin_match" where
  "enrich_match ps c =
     (let t = (case table_get ps (pm_pluginName c) of Some p \<Rightarrow> ps_trust_score p | None \<Rightarrow> pm_trustScore c)
      in c\<lparr>pm_trustScore := t, pm_autoSelectable := (high_trust_threshold \<le> t)\<rparr>)"

definition select_plugin :: "plugin_match list \<Rightarrow> plugin_states \<Rightarrow> plugin_match option" where
  "select_plugin candidates ps =
     (case sort_key (\<lambda>c. (- pm_matchScore c, - pm_trustScore c))
             (filter pm_autoSelectable (map (enrich_match ps) candidates)) of
        [] \<Rightarrow> None | c # _ \<Rightarrow> Some c)"

section \<open>The invariant\<close>

definition gated :: "trust_store \<Rightarrow> string \<Rightarrow> string \<Rightarrow> bool" where
  "gated s d c \<longleftrightarrow> (case table_get (ts_permanent_gates s) d of None \<Rightarrow> False | Some gs \<Rightarrow> c \<in> set gs)"

definition row_gated :: "trust_rows \<Rightarrow> string \<Rightarrow> string \<Rightarrow> bool" where
  "row_gated rows d c \<longleftrightarrow> (\<exists>i. (d, i, c) \<in> set (tr_gates rows))"

definition store_ok :: "trust_store \<Rightarrow> bool" where
  "store_ok s \<longleftrightarrow> store_valid s \<and> table_wf (ts_balances s) \<and> table_wf (ts_permanent_gates s)"

definition trust_ok :: "trust_state \<Rightarrow> bool" where
  "trust_ok st \<longleftrightarrow> list_all balance_valid (tr_balances (tm_rows st)) \<and>
     (case tm_cache st of None \<Rightarrow> True
      | Some s \<Rightarrow> store_ok s \<and> (\<forall>d c. gated s d c \<longleftrightarrow> row_gated (tm_rows st) d c))"

lemma clamp_valid: "- 100 \<le> clamp_trust v" "clamp_trust v \<le> 100"
  by (simp_all add: clamp_trust_def)

lemma store_valid_get: "store_valid s \<Longrightarrow> table_get (ts_balances s) d = Some b \<Longrightarrow> balance_valid b"
  by (auto simp: store_valid_def list_all_iff dest: map_of_SomeD)

lemma store_valid_put:
  "store_valid s \<Longrightarrow> table_wf (ts_balances s) \<Longrightarrow> balance_valid b \<Longrightarrow> store_valid (s\<lparr>ts_balances := table_put d b (ts_balances s)\<rparr>)"
proof -
  assume h: "store_valid s" "table_wf (ts_balances s)" "balance_valid b"
  have "set (table_put d b t) \<subseteq> insert (d, b) (set t)" for t :: "(string, trust_balance) table"
    by (induction t) auto
  then show ?thesis using h(1,3) unfolding store_valid_def list_all_iff by fastforce
qed

lemma balance_in_valid: "store_valid s \<Longrightarrow> balance_valid (balance_in s d)"
  using store_valid_get[of s d]
  by (cases "table_get (ts_balances s) d") (auto simp: balance_in_def default_balance_def balance_valid_def)

lemma gate_fold:
  "(\<exists>gs. table_get (foldl (\<lambda>t (d, i, c). table_put d (nullish (table_get t d) [] @ [c]) t) t0 rows) d = Some gs \<and> c \<in> set gs) \<longleftrightarrow>
   (\<exists>gs. table_get t0 d = Some gs \<and> c \<in> set gs) \<or> (\<exists>i. (d, i, c) \<in> set rows)"
proof (induction rows rule: rev_induct)
  case Nil
  then show ?case by simp
next
  case (snoc row rows)
  obtain e i b where row: "row = (e, i, b)" by (cases row) auto
  show ?case
  proof (cases "e = d")
    case True
    show ?thesis
      by (cases "table_get (foldl (\<lambda>t (d, i, c). table_put d (nullish (table_get t d) [] @ [c]) t) t0 rows) d")
        (use snoc row True in \<open>auto simp: table_get_put\<close>)
  next
    case False
    then show ?thesis using snoc row by (auto simp: table_get_put)
  qed
qed

lemma gate_fold_wf:
  "table_wf t0 \<Longrightarrow> table_wf (foldl (\<lambda>t (d, i, c). table_put d (nullish (table_get t d) [] @ [c]) t) t0 rows)"
  by (induction rows arbitrary: t0) (auto simp: table_wf_put)

lemma balance_fold:
  "table_wf t0 \<Longrightarrow> list_all (\<lambda>(d, b). balance_valid b) t0 \<Longrightarrow> list_all balance_valid bs \<Longrightarrow>
   table_wf (foldl (\<lambda>t b. table_put (tb_domain b) b t) t0 bs) \<and>
   list_all (\<lambda>(d, b). balance_valid b) (foldl (\<lambda>t b. table_put (tb_domain b) b t) t0 bs)"
proof (induction bs arbitrary: t0)
  case Nil
  then show ?case by simp
next
  case (Cons b bs)
  have "list_all (\<lambda>(d, b). balance_valid b) (table_put (tb_domain b) b t0)"
    using store_valid_put[of "\<lparr>ts_balances = t0, ts_permanent_gates = [], ts_override_log = []\<rparr>" b "tb_domain b"] Cons.prems
    by (simp add: store_valid_def)
  then show ?case using Cons.IH[of "table_put (tb_domain b) b t0"] Cons.prems by (simp add: table_wf_put)
qed

lemma read_rows_ok:
  assumes "list_all balance_valid (tr_balances rows)"
  shows "\<exists>s. read_trust_store rows = Inr s \<and> store_ok s \<and> (\<forall>d c. gated s d c \<longleftrightarrow> row_gated rows d c)"
proof -
  have "list_all balance_valid (sort_key tb_domain (tr_balances rows))" using assms by (simp add: list_all_iff)
  note b = balance_fold[OF table_wf_Nil _ this]
  have "gated \<lparr>ts_balances = x, ts_permanent_gates =
      foldl (\<lambda>t (d, i, c). table_put d (nullish (table_get t d) [] @ [c]) t) [] (sort (tr_gates rows)), ts_override_log = y\<rparr> d c
      \<longleftrightarrow> row_gated rows d c" for x y d c
    using gate_fold[of "[]" "sort (tr_gates rows)" d c] by (auto simp: gated_def row_gated_def split: option.splits)
  then show ?thesis
    using assms b gate_fold_wf[OF table_wf_Nil]
    by (simp add: read_trust_store_def store_ok_def store_valid_def)
qed

lemma replace_gated: "table_wf (ts_permanent_gates s) \<Longrightarrow> row_gated (replace_trust_store s) d c \<longleftrightarrow> gated s d c"
proof -
  assume wf: "table_wf (ts_permanent_gates s)"
  have "row_gated (replace_trust_store s) d c \<longleftrightarrow> (\<exists>gs. (d, gs) \<in> set (ts_permanent_gates s) \<and> c \<in> set gs)"
  proof -
    have mem: "c \<in> set gs \<longleftrightarrow> (\<exists>i. (i, c) \<in> set (enumerate 0 gs))" for gs
    proof -
      have "c \<in> set gs \<longleftrightarrow> c \<in> snd ` set (enumerate 0 gs)" unfolding set_map[symmetric] by simp
      then show ?thesis by force
    qed
    show ?thesis unfolding mem row_gated_def replace_trust_store_def by force
  qed
  then show ?thesis using table_mem_iff[OF wf] by (auto simp: gated_def split: option.splits)
qed

text \<open>The store that the next operation works on.\<close>

definition the_store :: "trust_state \<Rightarrow> trust_store" where
  "the_store st = (case tm_cache st of Some s \<Rightarrow> s
     | None \<Rightarrow> (case read_trust_store (tm_rows st) of Inr s \<Rightarrow> s | Inl e \<Rightarrow> \<lparr>ts_balances = [], ts_permanent_gates = [], ts_override_log = []\<rparr>))"

lemma the_store_ok:
  assumes "trust_ok st"
  shows "store_ok (the_store st)" "gated (the_store st) d c \<longleftrightarrow> row_gated (tm_rows st) d c"
    "load_store st = (Inr (the_store st), st\<lparr>tm_cache := Some (the_store st)\<rparr>)"
proof -
  have "store_ok (the_store st) \<and> (\<forall>d c. gated (the_store st) d c \<longleftrightarrow> row_gated (tm_rows st) d c) \<and>
    load_store st = (Inr (the_store st), st\<lparr>tm_cache := Some (the_store st)\<rparr>)"
  proof (cases "tm_cache st")
    case None
    then obtain s where "read_trust_store (tm_rows st) = Inr s" "store_ok s" "\<forall>d c. gated s d c \<longleftrightarrow> row_gated (tm_rows st) d c"
      using read_rows_ok assms unfolding trust_ok_def by blast
    then show ?thesis using None by (simp add: the_store_def load_store_def store_ok_def)
  next
    case (Some s)
    then show ?thesis using assms by (simp add: the_store_def load_store_def trust_ok_def)
  qed
  then show "store_ok (the_store st)" "gated (the_store st) d c \<longleftrightarrow> row_gated (tm_rows st) d c"
    "load_store st = (Inr (the_store st), st\<lparr>tm_cache := Some (the_store st)\<rparr>)" by blast+
qed

lemma load_trust_ok:
  "trust_ok st \<Longrightarrow> trust_ok (st\<lparr>tm_cache := Some (the_store st)\<rparr>)"
  using the_store_ok by (simp add: trust_ok_def)

text \<open>A changed store that passes the schema is saved, and the invariant holds.\<close>

lemma save_trust_ok:
  assumes "trust_ok st" "store_ok s"
  shows "save_store s st = (Inr (), st\<lparr>tm_cache := Some s, tm_rows := replace_trust_store s\<rparr>)"
    "trust_ok (st\<lparr>tm_cache := Some s, tm_rows := replace_trust_store s\<rparr>)"
proof -
  show "save_store s st = (Inr (), st\<lparr>tm_cache := Some s, tm_rows := replace_trust_store s\<rparr>)"
    using assms(2) by (simp add: save_store_def store_ok_def)
  have "list_all balance_valid (tr_balances (replace_trust_store s))"
    using assms(2) by (auto simp: store_ok_def store_valid_def replace_trust_store_def list_all_iff)
  then show "trust_ok (st\<lparr>tm_cache := Some s, tm_rows := replace_trust_store s\<rparr>)"
    using assms(2) replace_gated by (simp add: trust_ok_def store_ok_def)
qed

section \<open>The operations\<close>

datatype trust_op =
  Success int string
  | Failure string
  | Override timestamp string rat
  | Gate timestamp string string
  | Restart

fun trust_do :: "trust_op \<Rightarrow> trust_state \<Rightarrow> trust_state" where
  "trust_do (Success now d) st = snd (record_success now d st)"
| "trust_do (Failure d) st = snd (record_failure d st)"
| "trust_do (Override now d v) st = snd (set_override now d v st)"
| "trust_do (Gate now d c) st = snd (add_permanent_gate now d c st)"
| "trust_do Restart st = trust_restart st"

definition trust_run :: "trust_op list \<Rightarrow> trust_state \<Rightarrow> trust_state" where
  "trust_run ops st = foldl (\<lambda>s op. trust_do op s) st ops"

definition balance_of :: "trust_state \<Rightarrow> string \<Rightarrow> rat" where
  "balance_of st d = tb_balance (balance_in (the_store st) d)"

lemma store_ok_put_balance:
  assumes "store_ok s"
  shows "store_ok (s\<lparr>ts_balances := table_put d ((balance_in s d)\<lparr>tb_balance := clamp_trust v\<rparr>) (ts_balances s)\<rparr>)"
  using assms store_valid_put[of s "(balance_in s d)\<lparr>tb_balance := clamp_trust v\<rparr>" d] clamp_valid[of v]
  by (simp add: store_ok_def balance_valid_def table_wf_put)

lemma trust_ok_window: "trust_ok (st\<lparr>tm_success := w\<rparr>) = trust_ok st" "the_store (st\<lparr>tm_success := w\<rparr>) = the_store st"
  for st :: trust_state
  unfolding trust_ok_def the_store_def by (simp_all split: option.splits)

text \<open>What \<open>adjust_balance\<close> does under the invariant.\<close>

lemma adjust_effect:
  fixes d :: string and delta :: rat
  assumes "trust_ok st"
  defines "s \<equiv> the_store st"
  defines "u \<equiv> (balance_in s d)\<lparr>tb_balance := clamp_trust (tb_balance (balance_in s d) + delta)\<rparr>"
  defines "s' \<equiv> s\<lparr>ts_balances := table_put d u (ts_balances s)\<rparr>"
  shows "adjust_balance d delta st = (Inr u, st\<lparr>tm_cache := Some s', tm_rows := replace_trust_store s'\<rparr>)"
    "trust_ok (st\<lparr>tm_cache := Some s', tm_rows := replace_trust_store s'\<rparr>)"
proof -
  have "store_ok s'" unfolding s'_def u_def s_def by (rule store_ok_put_balance[OF the_store_ok(1)[OF assms(1)]])
  note sv = save_trust_ok[OF load_trust_ok[OF assms(1)] this]
  show "adjust_balance d delta st = (Inr u, st\<lparr>tm_cache := Some s', tm_rows := replace_trust_store s'\<rparr>)"
    using sv(1) the_store_ok(3)[OF assms(1)] by (simp add: adjust_balance_def Let_def u_def s'_def s_def)
  show "trust_ok (st\<lparr>tm_cache := Some s', tm_rows := replace_trust_store s'\<rparr>)" using sv(2) by simp
qed

lemma adjust_view:
  assumes "trust_ok st"
  shows "trust_ok (snd (adjust_balance d delta st))" "tm_success (snd (adjust_balance d delta st)) = tm_success st"
    "balance_of (snd (adjust_balance d delta st)) e = (if e = d then clamp_trust (balance_of st d + delta) else balance_of st e)"
    "row_gated (tm_rows (snd (adjust_balance d delta st))) a c \<longleftrightarrow> row_gated (tm_rows st) a c"
proof -
  note eff = adjust_effect[OF assms, of d delta]
  show "trust_ok (snd (adjust_balance d delta st))" "tm_success (snd (adjust_balance d delta st)) = tm_success st"
    using eff by simp_all
  show "balance_of (snd (adjust_balance d delta st)) e = (if e = d then clamp_trust (balance_of st d + delta) else balance_of st e)"
    using eff(1) by (simp add: balance_of_def the_store_def balance_in_def table_get_put)
  have "row_gated (tm_rows (snd (adjust_balance d delta st))) a c \<longleftrightarrow> gated (the_store st) a c"
    unfolding eff(1) using replace_gated the_store_ok(1)[OF assms] by (simp add: store_ok_def gated_def)
  then show "row_gated (tm_rows (snd (adjust_balance d delta st))) a c \<longleftrightarrow> row_gated (tm_rows st) a c"
    using the_store_ok(2)[OF assms] by simp
qed

lemma record_success_cases:
  fixes d :: string and now :: int
  assumes "trust_ok st"
  defines "w \<equiv> recent_successes now d st"
  shows "snd (record_success now d st) =
    (if rate_limit_max \<le> length w then st\<lparr>tm_success := table_put d w (tm_success st), tm_cache := Some (the_store st)\<rparr>
     else snd (adjust_balance d trust_success_delta (st\<lparr>tm_success := table_put d (w @ [now]) (tm_success st)\<rparr>)))"
  using the_store_ok(3)[of "st\<lparr>tm_success := table_put d w (tm_success st)\<rparr>"] assms
  by (simp add: record_success_def Let_def trust_ok_window)

lemma the_store_cached: "the_store (st\<lparr>tm_cache := Some s\<rparr>) = s"
  by (simp add: the_store_def)

lemma success_view:
  fixes d :: string and now :: int
  assumes "trust_ok st"
  defines "st' \<equiv> snd (record_success now d st)" and "w \<equiv> recent_successes now d st"
  shows "trust_ok st'" "row_gated (tm_rows st') a c \<longleftrightarrow> row_gated (tm_rows st) a c"
    "e \<noteq> d \<Longrightarrow> balance_of st' e = balance_of st e \<and> table_get (tm_success st') e = table_get (tm_success st) e"
    "rate_limit_max \<le> length w \<Longrightarrow> balance_of st' d = balance_of st d \<and> table_get (tm_success st') d = Some w"
    "\<not> rate_limit_max \<le> length w \<Longrightarrow>
       balance_of st' d = clamp_trust (balance_of st d + trust_success_delta) \<and> table_get (tm_success st') d = Some (w @ [now])"
proof -
  let ?st1 = "st\<lparr>tm_success := table_put d (w @ [now]) (tm_success st)\<rparr>"
  have ok1: "trust_ok ?st1" using assms(1) by (simp add: trust_ok_window)
  have bal1: "balance_of ?st1 e = balance_of st e" for e by (simp add: balance_of_def trust_ok_window)
  note adj = adjust_view[OF ok1, of d trust_success_delta]
  have cached: "trust_ok (st\<lparr>tm_success := t, tm_cache := Some (the_store st)\<rparr>)"
    "balance_of (st\<lparr>tm_success := t, tm_cache := Some (the_store st)\<rparr>) e = balance_of st e" for t e
    using load_trust_ok[of "st\<lparr>tm_success := t\<rparr>"] assms(1)
    by (simp_all add: trust_ok_window balance_of_def the_store_cached)
  have st': "st' = (if rate_limit_max \<le> length w then st\<lparr>tm_success := table_put d w (tm_success st), tm_cache := Some (the_store st)\<rparr>
     else snd (adjust_balance d trust_success_delta ?st1))"
    unfolding st'_def w_def by (rule record_success_cases[OF assms(1)])
  show "trust_ok st'" "row_gated (tm_rows st') a c \<longleftrightarrow> row_gated (tm_rows st) a c"
    using adj(1) adj(4)[of a c] cached(1) by (simp_all add: st')
  show "e \<noteq> d \<Longrightarrow> balance_of st' e = balance_of st e \<and> table_get (tm_success st') e = table_get (tm_success st) e"
    using adj(2) adj(3)[of e] cached(2) bal1 by (simp add: st' table_get_put)
  show "rate_limit_max \<le> length w \<Longrightarrow> balance_of st' d = balance_of st d \<and> table_get (tm_success st') d = Some w"
    using cached(2) by (simp add: st' table_get_put)
  show "\<not> rate_limit_max \<le> length w \<Longrightarrow>
       balance_of st' d = clamp_trust (balance_of st d + trust_success_delta) \<and> table_get (tm_success st') d = Some (w @ [now])"
    using adj(2) adj(3)[of d] bal1 by (simp add: st' table_get_put)
qed

lemma failure_view:
  fixes d :: string
  assumes "trust_ok st"
  defines "st' \<equiv> snd (record_failure d st)"
  shows "trust_ok st'" "row_gated (tm_rows st') a c \<longleftrightarrow> row_gated (tm_rows st) a c"
    "tm_success st' = tm_success st"
    "balance_of st' e = (if e = d then clamp_trust (balance_of st d + trust_failure_delta) else balance_of st e)"
  using adjust_view[OF assms(1), of d trust_failure_delta] by (simp_all add: st'_def record_failure_def)

text \<open>Overrides and gates save a store that keeps every gate.\<close>

lemma save_keeps_gates:
  assumes "trust_ok st" "store_ok s'" "\<And>a c. gated (the_store st) a c \<Longrightarrow> gated s' a c"
  shows "fst (save_store s' (st\<lparr>tm_cache := Some (the_store st)\<rparr>)) = Inr ()"
    "trust_ok (snd (save_store s' (st\<lparr>tm_cache := Some (the_store st)\<rparr>)))"
    "row_gated (tm_rows st) a c \<Longrightarrow> row_gated (tm_rows (snd (save_store s' (st\<lparr>tm_cache := Some (the_store st)\<rparr>)))) a c"
    "gated s' a c \<Longrightarrow> row_gated (tm_rows (snd (save_store s' (st\<lparr>tm_cache := Some (the_store st)\<rparr>)))) a c"
proof -
  note sv = save_trust_ok[OF load_trust_ok[OF assms(1)] assms(2)]
  have wf: "table_wf (ts_permanent_gates s')" using assms(2) by (simp add: store_ok_def)
  show "fst (save_store s' (st\<lparr>tm_cache := Some (the_store st)\<rparr>)) = Inr ()"
    "trust_ok (snd (save_store s' (st\<lparr>tm_cache := Some (the_store st)\<rparr>)))" using sv by simp_all
  show "gated s' a c \<Longrightarrow> row_gated (tm_rows (snd (save_store s' (st\<lparr>tm_cache := Some (the_store st)\<rparr>)))) a c"
    using sv(1) replace_gated[OF wf] by simp
  then show "row_gated (tm_rows st) a c \<Longrightarrow> row_gated (tm_rows (snd (save_store s' (st\<lparr>tm_cache := Some (the_store st)\<rparr>)))) a c"
    using assms(3) the_store_ok(2)[OF assms(1)] by blast
qed

lemma override_view:
  fixes now :: timestamp and d :: string and v :: rat
  assumes "trust_ok st"
  defines "st' \<equiv> snd (set_override now d v st)"
  shows "trust_ok st'" "row_gated (tm_rows st) a c \<Longrightarrow> row_gated (tm_rows st') a c"
proof -
  let ?s = "the_store st"
  define s' where "s' = ?s\<lparr>ts_balances := table_put d ((balance_in ?s d)\<lparr>tb_balance := clamp_trust v\<rparr>) (ts_balances ?s),
      ts_override_log := ts_override_log ?s @ [\<lparr>oe_timestamp = now, oe_override_type = Trust_Grant, oe_domain = d,
        oe_target_category = None, oe_balance_before = Some (tb_balance (balance_in ?s d)),
        oe_balance_after = Some (clamp_trust v)\<rparr>]\<rparr>"
  have st': "st' = snd (save_store s' (st\<lparr>tm_cache := Some ?s\<rparr>))"
    using the_store_ok(3)[OF assms(1)] by (simp add: st'_def set_override_def Let_def s'_def)
  have "store_ok s'"
    using store_ok_put_balance[OF the_store_ok(1)[OF assms(1)], of d v] by (simp add: s'_def store_ok_def store_valid_def)
  moreover have "\<And>a c. gated ?s a c \<Longrightarrow> gated s' a c" by (simp add: s'_def gated_def)
  ultimately show "trust_ok st'" "row_gated (tm_rows st) a c \<Longrightarrow> row_gated (tm_rows st') a c"
    using save_keeps_gates[OF assms(1)] st' by simp_all
qed

lemma gate_view:
  fixes now :: timestamp and d k :: string
  assumes "trust_ok st"
  defines "st' \<equiv> snd (add_permanent_gate now d k st)"
  shows "trust_ok st'" "row_gated (tm_rows st) a c \<Longrightarrow> row_gated (tm_rows st') a c" "row_gated (tm_rows st') d k"
proof -
  let ?s = "the_store st"
  let ?old = "nullish (table_get (ts_permanent_gates ?s) d) []"
  define gs where "gs = (if k \<in> set ?old then ?old else ?old @ [k])"
  define s' where "s' = ?s\<lparr>ts_permanent_gates := table_put d gs (ts_permanent_gates ?s),
      ts_override_log := ts_override_log ?s @ [\<lparr>oe_timestamp = now, oe_override_type = Permanent_Gate, oe_domain = d,
        oe_target_category = Some k, oe_balance_before = None, oe_balance_after = None\<rparr>]\<rparr>"
  have st': "st' = snd (save_store s' (st\<lparr>tm_cache := Some ?s\<rparr>))"
    using the_store_ok(3)[OF assms(1)] by (simp add: st'_def add_permanent_gate_def Let_def s'_def gs_def)
  have ok: "store_ok s'"
    using the_store_ok(1)[OF assms(1)] by (simp add: s'_def store_ok_def store_valid_def table_wf_put)
  have keep: "\<And>a c. gated ?s a c \<Longrightarrow> gated s' a c"
    by (auto simp: s'_def gated_def table_get_put gs_def split: option.splits)
  have new: "gated s' d k" by (simp add: s'_def gated_def table_get_put gs_def)
  show "trust_ok st'" "row_gated (tm_rows st') d k" "row_gated (tm_rows st) a c \<Longrightarrow> row_gated (tm_rows st') a c"
    using save_keeps_gates[OF assms(1) ok keep] new st' by simp_all
qed

lemma restart_view: "trust_ok st \<Longrightarrow> trust_ok (trust_restart st)" "tm_rows (trust_restart st) = tm_rows st"
  by (simp_all add: trust_restart_def trust_ok_def)

lemma trust_do_keeps:
  "trust_ok st \<Longrightarrow> trust_ok (trust_do op st)"
  "trust_ok st \<Longrightarrow> row_gated (tm_rows st) d c \<Longrightarrow> row_gated (tm_rows (trust_do op st)) d c"
  by (cases op; use success_view(1,2) failure_view(1,2) override_view gate_view(1,2) restart_view in simp)+

lemma trust_run_Cons: "trust_run (op # ops) st = trust_run ops (trust_do op st)"
  by (simp add: trust_run_def)

lemma trust_run_keeps:
  "trust_ok st \<Longrightarrow> trust_ok (trust_run ops st)"
  "trust_ok st \<Longrightarrow> row_gated (tm_rows st) d c \<Longrightarrow> row_gated (tm_rows (trust_run ops st)) d c"
  unfolding trust_run_def by (induction ops arbitrary: st) (simp_all add: trust_do_keeps)

section \<open>Properties\<close>

lemma has_gate_value:
  assumes "trust_ok st"
  shows "fst (has_permanent_gate d c st) = Inr (row_gated (tm_rows st) d c)"
  using the_store_ok(2)[OF assms, of d c] the_store_ok(3)[OF assms] by (simp add: has_permanent_gate_def gated_def)

lemma get_balance_value:
  assumes "trust_ok st"
  shows "\<exists>b. get_balance d st = (Inr b, st\<lparr>tm_cache := Some (the_store st)\<rparr>) \<and> tb_balance b = balance_of st d"
proof -
  have "store_valid (the_store st)" using the_store_ok(1)[OF assms] by (simp add: store_ok_def)
  then show ?thesis
    using the_store_ok(3)[OF assms] store_valid_get[of "the_store st" d]
    by (cases "table_get (ts_balances (the_store st)) d") (simp_all add: get_balance_def balance_of_def balance_in_def)
qed

lemma requires_approval_value:
  assumes "trust_ok st"
  shows "fst (requires_approval rv d conf cat st) =
    Inr (rv = ''irreversible'' \<or> rv = ''unknown'' \<or> (\<exists>c. cat = Some c \<and> c \<noteq> [] \<and> row_gated (tm_rows st) d c) \<or>
         (balance_of st d < high_trust_threshold \<and> conf < high_confidence_threshold))"
proof -
  let ?st = "st\<lparr>tm_cache := Some (the_store st)\<rparr>"
  have bal: "balance_of ?st d = balance_of st d" by (simp add: balance_of_def the_store_cached)
  have quad: "\<exists>q st'. get_action_quadrant d conf s = (Inr q, st') \<and>
      (q = Observe_And_Propose \<longleftrightarrow> balance_of s d < high_trust_threshold \<and> conf < high_confidence_threshold)"
    if "trust_ok s" for s
    using get_balance_value[OF that, of d] by (auto simp: get_action_quadrant_def Let_def)
  obtain q1 s1 where q1: "get_action_quadrant d conf st = (Inr q1, s1)"
    "q1 = Observe_And_Propose \<longleftrightarrow> balance_of st d < high_trust_threshold \<and> conf < high_confidence_threshold"
    using quad[OF assms] by blast
  obtain q2 s2 where q2: "get_action_quadrant d conf ?st = (Inr q2, s2)"
    "q2 = Observe_And_Propose \<longleftrightarrow> balance_of st d < high_trust_threshold \<and> conf < high_confidence_threshold"
    using quad[OF load_trust_ok[OF assms]] bal by auto
  have gate: "has_permanent_gate d c st = (Inr (row_gated (tm_rows st) d c), ?st)" for c
    using has_gate_value[OF assms, of d c] the_store_ok(3)[OF assms] by (simp add: has_permanent_gate_def)
  show ?thesis
  proof (cases "truthy cat")
    case True
    then obtain c where "cat = Some c" "c \<noteq> []" by (auto simp: truthy_iff)
    then show ?thesis using q2 gate[of c]
      by (cases "row_gated (tm_rows st) d c") (simp_all add: requires_approval_def)
  next
    case False
    then have "\<not> (\<exists>c. cat = Some c \<and> c \<noteq> [] \<and> row_gated (tm_rows st) d c)" by (auto simp: truthy_iff)
    then show ?thesis using False q1 unfolding requires_approval_def by auto
  qed
qed

text \<open>
  C26. A permanent gate is permanent: once it was added, an action of its category needs approval
  after any sequence of successes, failures, overrides, further gates and restarts, whatever the
  trust, the confidence and the reversibility.
\<close>

theorem permanent_gate_is_permanent:
  assumes "trust_ok st" "category \<noteq> ''''"
  shows "fst (requires_approval reversibility d confidence (Some category)
           (trust_run ops (snd (add_permanent_gate now d category st)))) = Inr True"
proof -
  let ?st = "snd (add_permanent_gate now d category st)"
  have ok: "trust_ok (trust_run ops ?st)" by (rule trust_run_keeps(1)[OF gate_view(1)[OF assms(1)]])
  have "row_gated (tm_rows (trust_run ops ?st)) d category"
    by (rule trust_run_keeps(2)[OF gate_view(1)[OF assms(1)] gate_view(3)[OF assms(1)]])
  then show ?thesis using requires_approval_value[OF ok] assms(2) by simp
qed

text \<open>
  When an action needs approval, exactly: it is irreversible or of unknown reversibility, or its
  category has a permanent gate in the domain, or both the trust of the domain and the confidence
  are low. Low trust alone, or low confidence alone, needs none.
\<close>

lemma approval_is_exact:
  assumes "trust_ok st"
  shows "fst (requires_approval reversibility d confidence category st) =
    Inr (reversibility = ''irreversible'' \<or> reversibility = ''unknown'' \<or>
         (\<exists>c. category = Some c \<and> c \<noteq> [] \<and> fst (has_permanent_gate d c st) = Inr True) \<or>
         fst (get_action_quadrant d confidence st) = Inr Observe_And_Propose)"
proof -
  have "fst (get_action_quadrant d confidence st) = Inr Observe_And_Propose \<longleftrightarrow>
      balance_of st d < high_trust_threshold \<and> confidence < high_confidence_threshold"
    using get_balance_value[OF assms, of d]
    by (auto simp: get_action_quadrant_def Let_def split: if_splits)
  then show ?thesis using requires_approval_value[OF assms] has_gate_value[OF assms] by simp
qed

text \<open>The successes of a domain that lie at or after an instant.\<close>

definition late_successes :: "int \<Rightarrow> string \<Rightarrow> trust_state \<Rightarrow> nat" where
  "late_successes t d st = length (filter (\<lambda>x. t \<le> x) (nullish (table_get (tm_success st) d) []))"

fun in_hour :: "int \<Rightarrow> string \<Rightarrow> trust_op \<Rightarrow> bool" where
  "in_hour t d (Success now e) \<longleftrightarrow> (e = d \<longrightarrow> t \<le> now \<and> now \<le> t + rate_limit_window)"
| "in_hour t d (Failure e) \<longleftrightarrow> True"
| "in_hour t d op \<longleftrightarrow> False"

lemma recent_keeps_late:
  "now \<le> t + rate_limit_window \<Longrightarrow>
   length (filter (\<lambda>x. t \<le> x) (recent_successes now d st)) = late_successes t d st"
  by (simp add: recent_successes_def late_successes_def) (metis (no_types, lifting) add.commute diff_le_eq order.trans)

lemma clamp_up: "- 100 \<le> x \<Longrightarrow> 0 \<le> k \<Longrightarrow> clamp_trust (x + k) \<le> x + k"
  by (simp add: clamp_trust_def)

lemma clamp_down: "- 100 \<le> x \<Longrightarrow> k \<le> 0 \<Longrightarrow> clamp_trust (x + k) \<le> x"
  by (simp add: clamp_trust_def)

lemma balance_of_range: "trust_ok st \<Longrightarrow> - 100 \<le> balance_of st d \<and> balance_of st d \<le> 100"
  using balance_in_valid[of "the_store st" d] the_store_ok(1)[of st]
  by (simp add: balance_of_def balance_valid_def store_ok_def)

lemma late_append: "table_get (tm_success st') d = Some (w @ [now]) \<Longrightarrow> t \<le> now \<Longrightarrow>
   late_successes t d st' = length (filter (\<lambda>x. t \<le> x) w) + 1"
  by (simp add: late_successes_def)

text \<open>One step: at most the third success of the hour still raises the balance.\<close>

lemma hour_step:
  assumes "trust_ok st" "in_hour t d op"
    and inv: "balance_of st d \<le> start + 3 * of_nat n" "n \<le> 3" "n \<le> late_successes t d st"
  shows "\<exists>n'. balance_of (trust_do op st) d \<le> start + 3 * of_nat n' \<and> n' \<le> 3 \<and> n' \<le> late_successes t d (trust_do op st)"
proof (cases op)
  case (Success now e)
  let ?w = "recent_successes now e st"
  note v = success_view[OF assms(1), where now = now and d = e]
  show ?thesis
  proof (cases "e = d")
    case False
    then show ?thesis using v(3)[of d] inv Success by (intro exI[of _ n]) (auto simp: late_successes_def)
  next
    case True
    then have t: "t \<le> now" "now \<le> t + rate_limit_window" using assms(2) Success by simp_all
    have late: "length (filter (\<lambda>x. t \<le> x) ?w) = late_successes t d st" using recent_keeps_late[OF t(2)] True by simp
    show ?thesis
    proof (cases "rate_limit_max \<le> length ?w")
      case True
      then have "balance_of (trust_do op st) d = balance_of st d" "late_successes t d (trust_do op st) = late_successes t d st"
        using v(4) \<open>e = d\<close> Success late by (simp_all add: late_successes_def)
      then show ?thesis using inv by auto
    next
      case False
      then have b: "balance_of (trust_do op st) d = clamp_trust (balance_of st d + 3)"
        and w: "table_get (tm_success (trust_do op st)) d = Some (?w @ [now])"
        using v(5) \<open>e = d\<close> Success by (simp_all add: trust_success_delta_def)
      have "late_successes t d st < 3"
        using False late length_filter_le[of "\<lambda>x. t \<le> x" ?w] by (simp add: rate_limit_max_def)
      moreover have "balance_of (trust_do op st) d \<le> balance_of st d + 3"
        unfolding b using clamp_up balance_of_range[OF assms(1)] by simp
      ultimately show ?thesis
        using inv late_append[OF w t(1)] late by (intro exI[of _ "n + 1"]) auto
    qed
  qed
next
  case (Failure e)
  have "balance_of (trust_do op st) d \<le> balance_of st d"
    using failure_view(4)[OF assms(1), of e d] clamp_down[of "balance_of st d" "-10"] balance_of_range[OF assms(1), of d] Failure
    by (auto simp: trust_failure_delta_def)
  then show ?thesis using inv failure_view(3)[OF assms(1), of e] Failure
    by (intro exI[of _ n]) (auto simp: late_successes_def)
qed (use assms(2) in simp_all)

text \<open>
  Trust is earned slowly: whatever successes and failures are recorded, as long as the successes of
  a domain fall into one hour its balance rises by at most 9 (three rewards), and it never leaves the
  range from -100 to 100.
\<close>

lemma hourly_trust_gain_is_bounded:
  assumes "trust_ok st" "\<forall>op \<in> set ops. in_hour t d op"
  shows "balance_of (trust_run ops st) d \<le> balance_of st d + 9 \<and>
    - 100 \<le> balance_of (trust_run ops st) d \<and> balance_of (trust_run ops st) d \<le> 100"
proof -
  have "\<exists>n. balance_of (trust_run ops s) d \<le> start + 3 * of_nat n \<and> n \<le> 3"
    if "trust_ok s" "\<forall>op \<in> set ops. in_hour t d op" "balance_of s d \<le> start + 3 * of_nat n" "n \<le> 3" "n \<le> late_successes t d s"
    for s n start
    using that
  proof (induction ops arbitrary: s n)
    case Nil
    then show ?case by (auto simp: trust_run_def)
  next
    case (Cons op ops)
    obtain n' where "balance_of (trust_do op s) d \<le> start + 3 * of_nat n'" "n' \<le> 3" "n' \<le> late_successes t d (trust_do op s)"
      using hour_step[OF Cons.prems(1) _ Cons.prems(3-5)] Cons.prems(2) by auto
    moreover have "\<forall>op \<in> set ops. in_hour t d op" using Cons.prems(2) by simp
    ultimately have "\<exists>n. balance_of (trust_run ops (trust_do op s)) d \<le> start + 3 * of_nat n \<and> n \<le> 3"
      using Cons.IH[OF trust_do_keeps(1)[OF Cons.prems(1), of op]] by blast
    then show ?case by (simp only: trust_run_Cons)
  qed
  from this[OF assms, of "balance_of st d" 0] obtain n :: nat
    where n: "balance_of (trust_run ops st) d \<le> balance_of st d + 3 * of_nat n" "n \<le> 3" by auto
  have "(of_nat n :: rat) \<le> of_nat 3" using n(2) by (simp only: of_nat_le_iff)
  then have "balance_of (trust_run ops st) d \<le> balance_of st d + 9" using n(1) by simp
  then show ?thesis using balance_of_range[OF trust_run_keeps(1)[OF assms(1)]] by blast
qed

section \<open>Witnesses\<close>

definition fresh_trust :: trust_state where
  "fresh_trust = \<lparr>tm_cache = None, tm_rows = \<lparr>tr_balances = [], tr_gates = [], tr_log = []\<rparr>, tm_success = []\<rparr>"

lemma fresh_trust_ok: "trust_ok fresh_trust"
  by (simp add: trust_ok_def fresh_trust_def)

lemma fresh_trust_store: "the_store fresh_trust = \<lparr>ts_balances = [], ts_permanent_gates = [], ts_override_log = []\<rparr>"
  by (simp add: the_store_def fresh_trust_def read_trust_store_def)

lemma fresh_balance: "balance_of fresh_trust d = 0"
  by (simp add: balance_of_def balance_in_def fresh_trust_store default_balance_def)

theorem permanent_gate_is_permanent_witness:
  "fst (requires_approval ''reversible'' ''code'' 1 (Some ''deploy'')
     (trust_run [Override (Iso 1) ''code'' 100, Restart, Success 5 ''code'']
       (snd (add_permanent_gate (Iso 0) ''code'' ''deploy'' fresh_trust)))) = Inr True"
  by (rule permanent_gate_is_permanent[OF fresh_trust_ok]) simp

end
