(* ===== verification/Js_Numbers.thy ===== *)
theory Js_Numbers
  imports Complex_Main PS_Prelude
begin

text \<open>
  The numbers the drive system computes with, and the values an observation may have.

  A JavaScript number is a double. A finite double is modelled by the rational it stands for and
  every arithmetic operation of the code by the exact operation followed by \<open>rnd\<close>, the
  rounding to the nearest double; a decimal literal such as \<open>0.85\<close> is \<open>rnd (85/100)\<close>.
  The locale \<open>ieee_rounding\<close> lists what the proofs use of \<open>rnd\<close>. The range of doubles
  is modelled where a value is read (a token beyond it is \<open>Infinity\<close>), not
  inside the arithmetic. The two zeros are one number.

  \<open>to_number_or_null\<close> is the strict reading of numbers that \<open>gap-calculator.ts\<close>,
  \<open>satisficing-helpers.ts\<close> and \<open>satisficing-propagation.ts\<close> each define.
\<close>

section \<open>Rounding\<close>

locale ieee_rounding =
  fixes rnd :: "rat \<Rightarrow> rat"
  assumes rnd_mono: "x \<le> y \<Longrightarrow> rnd x \<le> rnd y"
    and rnd_idem: "rnd (rnd x) = rnd x"
    and rnd_dyadic: "\<bar>n\<bar> < 2 ^ 53 \<Longrightarrow> k \<le> 1074 \<Longrightarrow> rnd (of_int n / 2 ^ k) = of_int n / 2 ^ k"
    and rnd_uminus: "rnd (- x) = - rnd x"
    and rnd_twice: "rnd x = x \<Longrightarrow> rnd (2 * x) = 2 * x"
    and rnd_difference: "rnd a = a \<Longrightarrow> rnd b = b \<Longrightarrow> a < b \<Longrightarrow> 0 < rnd (b - a)"
begin

lemma rnd_of_int: "\<bar>n\<bar> < 2 ^ 53 \<Longrightarrow> rnd (of_int n) = of_int n"
  using rnd_dyadic[of n 0] by simp

lemma rnd_0: "rnd 0 = 0"
  using rnd_of_int[of 0] by simp

lemma rnd_1: "rnd 1 = 1"
  using rnd_of_int[of 1] by simp

lemma rnd_of_nat: "n < 2 ^ 53 \<Longrightarrow> rnd (of_nat n) = of_nat n"
  using rnd_of_int[of "int n"] by simp

text \<open>A number that is not tiny keeps its sign.\<close>

lemma rnd_pos: "1 / 2 ^ 1074 \<le> x \<Longrightarrow> 0 < rnd x"
proof -
  assume x: "1 / 2 ^ 1074 \<le> x"
  have "0 < (1 / 2 ^ 1074 :: rat)" by simp
  also have "\<dots> = rnd (1 / 2 ^ 1074)" using rnd_dyadic[of 1 1074] by simp
  also have "\<dots> \<le> rnd x" using x by (rule rnd_mono)
  finally show ?thesis .
qed

lemma rnd_nonneg: "0 \<le> x \<Longrightarrow> 0 \<le> rnd x"
  using rnd_mono[of 0 x] by (simp add: rnd_0)

lemma rnd_nonpos: "x \<le> 0 \<Longrightarrow> rnd x \<le> 0"
  using rnd_mono[of x 0] by (simp add: rnd_0)

lemma rnd_le_1: "x \<le> 1 \<Longrightarrow> rnd x \<le> 1"
  using rnd_mono[of x 1] by (simp add: rnd_1)

lemma rnd_ge_1: "1 \<le> x \<Longrightarrow> 1 \<le> rnd x"
  using rnd_mono[of 1 x] by (simp add: rnd_1)

lemma rnd_unit: "0 \<le> x \<Longrightarrow> x \<le> 1 \<Longrightarrow> 0 \<le> rnd x \<and> rnd x \<le> 1"
  by (simp add: rnd_nonneg rnd_le_1)

text \<open>The computed midpoint of two doubles lies between them.\<close>

lemma midpoint_between:
  assumes "rnd a = a" "rnd b = b" "a \<le> b"
  shows "a \<le> rnd (rnd (a + b) / 2)" "rnd (rnd (a + b) / 2) \<le> b"
proof -
  have "2 * a \<le> rnd (a + b)" using rnd_mono[of "2 * a" "a + b"] rnd_twice[OF assms(1)] assms(3) by simp
  then show "a \<le> rnd (rnd (a + b) / 2)" using rnd_mono[of a "rnd (a + b) / 2"] assms(1) by simp
  have "rnd (a + b) \<le> 2 * b" using rnd_mono[of "a + b" "2 * b"] rnd_twice[OF assms(2)] assms(3) by simp
  then show "rnd (rnd (a + b) / 2) \<le> b" using rnd_mono[of "rnd (a + b) / 2" b] assms(2) by simp
qed

text \<open>The clipped difference of two doubles vanishes exactly when it should.\<close>

lemma excess_zero_iff: "rnd a = a \<Longrightarrow> rnd b = b \<Longrightarrow> max 0 (rnd (b - a)) = 0 \<longleftrightarrow> b \<le> a"
  using rnd_difference[of a b] rnd_nonpos[of "b - a"] by (cases "a < b") (auto simp: max_def)

end

section \<open>Values\<close>

text \<open>\<open>Infinite\<close> carries whether the infinity is the positive one.\<close>

datatype js_number = Fin rat | NaN | Infinite bool

datatype js_value = VNull | VNum js_number | VStr string | VBool bool

text \<open>\<open>value ? ...\<close> as \<open>isTruthy\<close> spells it out (\<open>NaN !== 0\<close> holds).\<close>

fun is_truthy :: "js_value \<Rightarrow> bool" where
  "is_truthy VNull = False"
| "is_truthy (VBool b) = b"
| "is_truthy (VNum (Fin x)) = (x \<noteq> 0)"
| "is_truthy (VNum NaN) = True"
| "is_truthy (VNum (Infinite p)) = True"
| "is_truthy (VStr s) = (s \<noteq> [])"

text \<open>\<open>===\<close> against the value of a match threshold, which is a string, a boolean or a finite number.\<close>

fun strict_eq :: "js_value \<Rightarrow> js_value \<Rightarrow> bool" where
  "strict_eq (VNum (Fin x)) (VNum (Fin y)) = (x = y)"
| "strict_eq (VStr s) (VStr t) = (s = t)"
| "strict_eq (VBool a) (VBool b) = (a = b)"
| "strict_eq VNull VNull = True"
| "strict_eq _ _ = False"

section \<open>Exact number tokens\<close>

text \<open>
  \<open>/^[+-]?(?:\d+(?:\.\d*)?|\.\d+)(?:e[+-]?\d+)?$/i\<close> and the value \<open>Number(token)\<close> gives.
\<close>

definition is_digit :: "char \<Rightarrow> bool" where
  "is_digit c \<longleftrightarrow> 48 \<le> (of_char c :: nat) \<and> (of_char c :: nat) \<le> 57"

definition digit_value :: "char \<Rightarrow> nat" where
  "digit_value c = of_char c - 48"

definition digits_value :: "string \<Rightarrow> nat" where
  "digits_value ds = foldl (\<lambda>n c. 10 * n + digit_value c) 0 ds"

definition take_digits :: "string \<Rightarrow> string \<times> string" where
  "take_digits s = (takeWhile is_digit s, dropWhile is_digit s)"

definition take_sign :: "string \<Rightarrow> bool \<times> string" where
  "take_sign s = (case s of [] \<Rightarrow> (False, s)
     | c # s' \<Rightarrow> if c = CHR ''-'' then (True, s') else if c = CHR ''+'' then (False, s') else (False, s))"

definition take_fraction :: "string \<Rightarrow> string option \<times> string" where
  "take_fraction s = (case s of [] \<Rightarrow> (None, s)
     | c # s' \<Rightarrow> if c = CHR ''.'' then (case take_digits s' of (f, r) \<Rightarrow> (Some f, r)) else (None, s))"

text \<open>The exponent part and the end of the token.\<close>

definition parse_exponent :: "string \<Rightarrow> int option" where
  "parse_exponent s = (case s of [] \<Rightarrow> Some 0
     | c # s' \<Rightarrow>
         if c = CHR ''e'' \<or> c = CHR ''E''
         then (case take_sign s' of (neg, s1) \<Rightarrow> (case take_digits s1 of (ds, r) \<Rightarrow>
                 if ds = [] \<or> r \<noteq> [] then None
                 else Some (if neg then - int (digits_value ds) else int (digits_value ds))))
         else None)"

definition scale10 :: "int \<Rightarrow> rat" where
  "scale10 e = (if 0 \<le> e then 10 ^ nat e else 1 / 10 ^ nat (- e))"

definition parse_number_token :: "string \<Rightarrow> rat option" where
  "parse_number_token s =
     (case take_sign s of (neg, s1) \<Rightarrow> (case take_digits s1 of (ip, s2) \<Rightarrow>
      (case take_fraction s2 of (fr, s3) \<Rightarrow>
         let f = nullish fr [] in
         if ip = [] \<and> f = [] then None
         else (case parse_exponent s3 of
                 None \<Rightarrow> None
               | Some e \<Rightarrow> (let m = of_nat (digits_value (ip @ f)) * scale10 (e - int (length f))
                           in Some (if neg then - m else m))))))"

text \<open>A decimal rounds to \<open>Infinity\<close> from the midpoint after the largest double on.\<close>

definition double_overflow :: rat where
  "double_overflow = 2 ^ 1024 - 2 ^ 970"

fun to_number_or_null :: "(rat \<Rightarrow> rat) \<Rightarrow> js_value \<Rightarrow> rat option" where
  "to_number_or_null rnd VNull = None"
| "to_number_or_null rnd (VNum (Fin x)) = Some x"
| "to_number_or_null rnd (VNum NaN) = None"
| "to_number_or_null rnd (VNum (Infinite p)) = None"
| "to_number_or_null rnd (VBool b) = Some (if b then 1 else 0)"
| "to_number_or_null rnd (VStr s) = (case parse_number_token (trim s) of
     None \<Rightarrow> None
   | Some q \<Rightarrow> if \<bar>q\<bar> < double_overflow then Some (rnd q) else None)"

definition to_number :: "(rat \<Rightarrow> rat) \<Rightarrow> js_value \<Rightarrow> rat" where
  "to_number rnd v = nullish (to_number_or_null rnd v) 0"

text \<open>A number that the code reads is a double.\<close>

definition value_double :: "(rat \<Rightarrow> rat) \<Rightarrow> js_value \<Rightarrow> bool" where
  "value_double rnd v = (case v of VNum (Fin x) \<Rightarrow> rnd x = x | _ \<Rightarrow> True)"

context ieee_rounding begin

lemma to_number_double:
  "value_double rnd v \<Longrightarrow> to_number_or_null rnd v = Some x \<Longrightarrow> rnd x = x"
  by (cases "(rnd, v)" rule: to_number_or_null.cases)
     (auto simp: value_double_def rnd_0 rnd_1 rnd_idem split: option.splits if_splits)

end

section \<open>Aggregating values\<close>

datatype aggregation = Agg_Min | Agg_Avg | Agg_Max | Agg_All_Required

text \<open>\<open>reduce((acc, v) => acc + v, 0)\<close>.\<close>

definition js_sum :: "(rat \<Rightarrow> rat) \<Rightarrow> rat list \<Rightarrow> rat" where
  "js_sum rnd xs = foldl (\<lambda>acc v. rnd (acc + v)) 0 xs"

text \<open>In exact arithmetic this is the sum.\<close>

lemma js_sum_exact: "js_sum (\<lambda>x. x) xs = sum_list xs"
proof -
  have "foldl (+) a xs = a + sum_list xs" for a :: rat
    by (induction xs arbitrary: a) simp_all
  then show ?thesis by (simp add: js_sum_def)
qed

definition js_mean :: "(rat \<Rightarrow> rat) \<Rightarrow> rat list \<Rightarrow> rat" where
  "js_mean rnd xs = rnd (js_sum rnd xs / of_nat (length xs))"

text \<open>\<open>Math.min\<close> and \<open>Math.max\<close> of one or more numbers.\<close>

definition js_min :: "rat list \<Rightarrow> rat" where
  "js_min xs = foldl min (hd xs) (tl xs)"

definition js_max :: "rat list \<Rightarrow> rat" where
  "js_max xs = foldl max (hd xs) (tl xs)"

definition aggregate_values :: "(rat \<Rightarrow> rat) \<Rightarrow> rat list \<Rightarrow> aggregation \<Rightarrow> rat" where
  "aggregate_values rnd vs a =
     (if vs = [] then 0
      else case a of Agg_Min \<Rightarrow> js_min vs | Agg_Max \<Rightarrow> js_max vs
           | Agg_Avg \<Rightarrow> js_mean rnd vs
           | Agg_All_Required \<Rightarrow> js_min vs)"

lemma foldl_min_set: "foldl min a xs = Min (insert a (set xs))" for a :: rat
proof (induction xs arbitrary: a)
  case (Cons x xs)
  have "Min (insert (min a x) (set xs)) = Min (insert a (insert x (set xs)))"
    by (cases "xs = []") (simp_all add: min.assoc)
  then show ?case using Cons.IH[of "min a x"] by simp
qed simp

lemma foldl_max_set: "foldl max a xs = Max (insert a (set xs))" for a :: rat
proof (induction xs arbitrary: a)
  case (Cons x xs)
  have "Max (insert (max a x) (set xs)) = Max (insert a (insert x (set xs)))"
    by (cases "xs = []") (simp_all add: max.assoc)
  then show ?case using Cons.IH[of "max a x"] by simp
qed simp

lemma js_min_Min: "xs \<noteq> [] \<Longrightarrow> js_min xs = Min (set xs)"
  by (cases xs) (simp_all add: js_min_def foldl_min_set)

lemma js_max_Max: "xs \<noteq> [] \<Longrightarrow> js_max xs = Max (set xs)"
  by (cases xs) (simp_all add: js_max_def foldl_max_set)

lemma js_min_le_iff: "xs \<noteq> [] \<Longrightarrow> js_min xs \<le> c \<longleftrightarrow> (\<exists>x \<in> set xs. x \<le> c)"
  by (simp add: js_min_Min Min_le_iff)

lemma js_min_ge_iff: "xs \<noteq> [] \<Longrightarrow> c \<le> js_min xs \<longleftrightarrow> (\<forall>x \<in> set xs. c \<le> x)"
  by (simp add: js_min_Min)

lemma js_max_le_iff: "xs \<noteq> [] \<Longrightarrow> js_max xs \<le> c \<longleftrightarrow> (\<forall>x \<in> set xs. x \<le> c)"
  by (simp add: js_max_Max)

lemma js_min_in: "xs \<noteq> [] \<Longrightarrow> js_min xs \<in> set xs"
  by (metis js_min_Min Min_in finite_set set_empty)

lemma js_max_in: "xs \<noteq> [] \<Longrightarrow> js_max xs \<in> set xs"
  by (metis js_max_Max Max_in finite_set set_empty)

end
