(* ===== verification/Goal_Model.thy ===== *)
theory Goal_Model
  imports Js_Numbers
begin

text \<open>
  Goals: the data model of \<open>base/types/core.ts\<close> and \<open>orchestrator/goal/types/goal.ts\<close>, the
  store behind \<open>StateManager.loadGoal\<close> and \<open>saveGoal\<close>, and the traversal of the goal tree.
  Fields that no modelled operation reads (titles, history, observation settings, \<dots>) are one
  opaque JSON text.
\<close>

section \<open>Data\<close>

datatype threshold =
    T_Min rat
  | T_Max rat
  | T_Range rat rat
  | T_Present
  | T_Match js_value

text \<open>A match threshold holds a string, a boolean or a finite number; the numbers are doubles.\<close>

fun threshold_wf :: "(rat \<Rightarrow> rat) \<Rightarrow> threshold \<Rightarrow> bool" where
  "threshold_wf rnd (T_Min v) = (rnd v = v)"
| "threshold_wf rnd (T_Max v) = (rnd v = v)"
| "threshold_wf rnd (T_Range l h) = (rnd l = l \<and> rnd h = h)"
| "threshold_wf rnd T_Present = True"
| "threshold_wf rnd (T_Match v) = (case v of VNum (Fin x) \<Rightarrow> rnd x = x | VStr s \<Rightarrow> True | VBool b \<Rightarrow> True | _ \<Rightarrow> False)"

record dimension =
  dm_name :: string
  dm_current_value :: js_value
  dm_threshold :: threshold
  dm_confidence :: rat
  dm_last_updated :: "timestamp option"
  dm_uncertainty_weight :: "rat option"
  dm_mapping :: "(string \<times> aggregation) option"
  dm_rest :: string

datatype goal_status = G_Active | G_Completed | G_Cancelled | G_Waiting | G_Archived | G_Abandoned

record goal =
  gl_id :: string
  gl_parent_id :: "string option"
  gl_status :: goal_status
  gl_dimensions :: "dimension list"
  gl_constraints :: "string list"
  gl_children_ids :: "string list"
  gl_deadline :: "timestamp option"
  gl_uncertainty_weight :: rat
  gl_updated_at :: timestamp
  gl_rest :: string

text \<open>
  What \<open>GoalSchema.parse\<close> checks of the modelled fields. \<open>z.number()\<close> refuses
  \<open>NaN\<close> and lets an infinity pass.
\<close>

definition dimension_valid :: "dimension \<Rightarrow> bool" where
  "dimension_valid d \<longleftrightarrow> dm_current_value d \<noteq> VNum NaN \<and> 0 \<le> dm_confidence d \<and> dm_confidence d \<le> 1"

definition goal_valid :: "goal \<Rightarrow> bool" where
  "goal_valid g \<longleftrightarrow> list_all dimension_valid (gl_dimensions g) \<and> opt_all datetime_valid (gl_deadline g)"

text \<open>\<open>JSON.parse(JSON.stringify(goal))\<close>: an infinite number is written as \<open>null\<close>.\<close>

fun json_value :: "js_value \<Rightarrow> js_value" where
  "json_value (VNum (Infinite p)) = VNull"
| "json_value v = v"

definition json_goal :: "goal \<Rightarrow> goal" where
  "json_goal g = g\<lparr>gl_dimensions := map (\<lambda>d. d\<lparr>dm_current_value := json_value (dm_current_value d)\<rparr>) (gl_dimensions g)\<rparr>"

section \<open>The store\<close>

text \<open>
  The rows of \<open>goal_records\<close> by goal id, and the write fences: the callback registered for a
  goal may refuse a write with an error. The file lock around a write serialises writers; an
  operation below is one such critical section.
\<close>

record goal_store =
  st_goals :: "(string, goal) table"
  st_fence :: "string \<Rightarrow> js_error option"

definition load_goal :: "goal_store \<Rightarrow> string \<Rightarrow> goal option" where
  "load_goal st i = table_get (st_goals st) i"

definition put_goal :: "goal \<Rightarrow> goal_store \<Rightarrow> goal_store" where
  "put_goal g st = st\<lparr>st_goals := table_put (gl_id g) (json_goal g) (st_goals st)\<rparr>"

definition save_goal :: "goal \<Rightarrow> goal_store \<Rightarrow> unit result \<times> goal_store" where
  "save_goal g st =
     (if \<not> goal_valid g then (Inl SchemaError, st)
      else case st_fence st (gl_id g) of
             Some e \<Rightarrow> (Inl e, st)
           | None \<Rightarrow> (Inr (), put_goal g st))"

text \<open>A row is stored under the id of its goal and holds a goal that came through the schema and JSON.\<close>

definition store_ok :: "goal_store \<Rightarrow> bool" where
  "store_ok st \<longleftrightarrow> table_wf (st_goals st) \<and>
     (\<forall>i g. load_goal st i = Some g \<longrightarrow> gl_id g = i \<and> goal_valid g \<and> json_goal g = g)"

lemma json_goal_fields [simp]:
  "gl_id (json_goal g) = gl_id g" "gl_parent_id (json_goal g) = gl_parent_id g"
  "gl_status (json_goal g) = gl_status g" "gl_children_ids (json_goal g) = gl_children_ids g"
  "gl_constraints (json_goal g) = gl_constraints g" "gl_deadline (json_goal g) = gl_deadline g"
  by (simp_all add: json_goal_def)

lemma json_value_idem [simp]: "json_value (json_value v) = json_value v"
  by (cases v rule: json_value.cases) simp_all

lemma json_goal_idem [simp]: "json_goal (json_goal g) = json_goal g"
  by (simp add: json_goal_def)

lemma json_goal_same_dimensions: "json_goal g = g \<Longrightarrow> gl_dimensions h = gl_dimensions g \<Longrightarrow> json_goal h = h"
proof -
  assume g: "json_goal g = g" and h: "gl_dimensions h = gl_dimensions g"
  have "map (\<lambda>d. d\<lparr>dm_current_value := json_value (dm_current_value d)\<rparr>) (gl_dimensions h) = gl_dimensions h"
    using arg_cong[OF g, of gl_dimensions] by (simp add: h json_goal_def)
  then show "json_goal h = h" by (simp add: json_goal_def)
qed

lemma json_value_nan [simp]: "json_value v = VNum NaN \<longleftrightarrow> v = VNum NaN"
  by (cases v rule: json_value.cases) simp_all

lemma json_goal_valid [simp]: "goal_valid (json_goal g) = goal_valid g"
  by (simp add: goal_valid_def json_goal_def dimension_valid_def list_all_iff)

lemma load_put_goal:
  "load_goal (put_goal g st) i = (if i = gl_id g then Some (json_goal g) else load_goal st i)"
  by (simp add: load_goal_def put_goal_def table_get_put)

lemma fence_put_goal [simp]: "st_fence (put_goal g st) = st_fence st"
  by (simp add: put_goal_def)

lemma save_goal_cases:
  obtains (saved) "save_goal g st = (Inr (), put_goal g st)" "goal_valid g"
  | (refused) e where "save_goal g st = (Inl e, st)"
  by (cases "goal_valid g"; cases "st_fence st (gl_id g)") (auto simp: save_goal_def)

lemma save_goal_Inr:
  "save_goal g st = (Inr u, st') \<longleftrightarrow> goal_valid g \<and> st_fence st (gl_id g) = None \<and> st' = put_goal g st"
  by (auto simp: save_goal_def split: option.splits)

lemma put_goal_ok [ps_inv]: "store_ok st \<Longrightarrow> goal_valid g \<Longrightarrow> store_ok (put_goal g st)"
  by (auto simp: store_ok_def load_put_goal) (simp add: put_goal_def)

lemma save_goal_ok [ps_inv]: "store_ok st \<Longrightarrow> store_ok (snd (save_goal g st))"
  by (cases rule: save_goal_cases[of g st]) (auto intro: put_goal_ok)

lemma store_okD:
  "store_ok st \<Longrightarrow> load_goal st i = Some g \<Longrightarrow> gl_id g = i \<and> goal_valid g \<and> json_goal g = g"
  by (simp add: store_ok_def)

section \<open>The goal tree\<close>

text \<open>\<open>bfsCollect\<close>: the queue from the current index on, the visited ids, the goals found so far.\<close>

definition known_unvisited :: "goal_store \<Rightarrow> string list \<Rightarrow> nat" where
  "known_unvisited st visited = card (set (map fst (st_goals st)) - set visited)"

lemma known_unvisited_less:
  assumes "i \<notin> set visited" "load_goal st i = Some g"
  shows "known_unvisited st (i # visited) < known_unvisited st visited"
proof -
  have "i \<in> set (map fst (st_goals st))"
    using assms(2) by (auto simp: load_goal_def dest: map_of_SomeD intro: rev_image_eqI)
  then have "set (map fst (st_goals st)) - set (i # visited) \<subset> set (map fst (st_goals st)) - set visited"
    using assms(1) by auto
  then show ?thesis unfolding known_unvisited_def by (intro psubset_card_mono) simp_all
qed

lemma known_unvisited_le: "known_unvisited st (i # visited) \<le> known_unvisited st visited"
  unfolding known_unvisited_def by (intro card_mono) auto

function bfs_collect :: "goal_store \<Rightarrow> string list \<Rightarrow> string list \<Rightarrow> goal list \<Rightarrow> goal list" where
  "bfs_collect st [] visited found = found"
| "bfs_collect st (i # queue) visited found =
     (if i \<in> set visited then bfs_collect st queue visited found
      else (case load_goal st i of
              None \<Rightarrow> bfs_collect st queue (i # visited) found
            | Some g \<Rightarrow>
                bfs_collect st (queue @ filter (\<lambda>c. c \<notin> set (i # visited)) (gl_children_ids g))
                  (i # visited) (found @ [g])))"
  by pat_completeness auto
termination
proof (relation "measures [\<lambda>(st, q, v, f). known_unvisited st v, \<lambda>(st, q, v, f). length q]", goal_cases)
  case 1
  show ?case by simp
next
  case (2 st i queue visited found)
  show ?case by simp
next
  case (3 st i queue visited found)
  show ?case using known_unvisited_le[of st i visited] by (auto simp: le_less)
next
  case (4 st i queue visited found g)
  show ?case using known_unvisited_less[OF 4] by simp
qed

definition get_goal_tree :: "goal_store \<Rightarrow> string \<Rightarrow> goal list option" where
  "get_goal_tree st r = (case load_goal st r of None \<Rightarrow> None | Some _ \<Rightarrow> Some (bfs_collect st [r] [] []))"

definition get_subtree :: "goal_store \<Rightarrow> string \<Rightarrow> goal list" where
  "get_subtree st i = nullish (get_goal_tree st i) []"

text \<open>The child relation of the stored goals.\<close>

definition child_rel :: "goal_store \<Rightarrow> (string \<times> string) set" where
  "child_rel st = {(a, c). \<exists>g. load_goal st a = Some g \<and> c \<in> set (gl_children_ids g)}"

definition stored :: "goal_store \<Rightarrow> string set" where
  "stored st = {i. load_goal st i \<noteq> None}"

lemma child_relI: "load_goal st a = Some g \<Longrightarrow> c \<in> set (gl_children_ids g) \<Longrightarrow> (a, c) \<in> child_rel st"
  by (auto simp: child_rel_def)

abbreviation goal_ids :: "goal list \<Rightarrow> string list" where
  "goal_ids gs \<equiv> map gl_id gs"

lemma bfs_prefix: "\<exists>gs. bfs_collect st q v f = f @ gs"
  by (induction st q v f rule: bfs_collect.induct) (auto split: option.splits)

lemma bfs_sound:
  assumes "store_ok st" "\<forall>g \<in> set f. load_goal st (gl_id g) = Some g" "set (goal_ids f) \<subseteq> set v" "distinct (goal_ids f)"
  shows "distinct (goal_ids (bfs_collect st q v f)) \<and>
         (\<forall>g \<in> set (bfs_collect st q v f).
            load_goal st (gl_id g) = Some g \<and> (g \<in> set f \<or> (\<exists>a \<in> set q. (a, gl_id g) \<in> (child_rel st)\<^sup>*)))"
  using assms
proof (induction st q v f rule: bfs_collect.induct)
  case (1 st v f)
  then show ?case by auto
next
  case (2 st i q v f)
  show ?case
  proof (cases "i \<in> set v")
    case True
    then show ?thesis using "2.IH"(1) "2.prems" by auto
  next
    case new: False
    show ?thesis
    proof (cases "load_goal st i")
      case None
      have "set (goal_ids f) \<subseteq> set (i # v)" using "2.prems"(3) by auto
      then show ?thesis using "2.IH"(2)[OF new None] "2.prems" new None by auto
    next
      case (Some g)
      have g: "gl_id g = i" using store_okD[OF "2.prems"(1) Some] by simp
      let ?cs = "filter (\<lambda>c. c \<notin> set (i # v)) (gl_children_ids g)"
      have d: "distinct (goal_ids (f @ [g]))" using "2.prems"(3,4) new g by auto
      have sub: "set (goal_ids (f @ [g])) \<subseteq> set (i # v)" using "2.prems"(3) g by auto
      have ld: "\<forall>h \<in> set (f @ [g]). load_goal st (gl_id h) = Some h" using "2.prems"(2) g Some by auto
      note IH' = "2.IH"(3)[OF new Some "2.prems"(1) ld sub d]
      then have IH: "distinct (goal_ids (bfs_collect st (q @ ?cs) (i # v) (f @ [g])))"
        "\<forall>h \<in> set (bfs_collect st (q @ ?cs) (i # v) (f @ [g])). load_goal st (gl_id h) = Some h \<and>
           (h \<in> set (f @ [g]) \<or> (\<exists>a \<in> set (q @ ?cs). (a, gl_id h) \<in> (child_rel st)\<^sup>*))"
        by blast+
      have step: "(i, x) \<in> (child_rel st)\<^sup>*" if "c \<in> set ?cs" "(c, x) \<in> (child_rel st)\<^sup>*" for c x
        using that child_relI[OF Some, of c] by (auto intro: converse_rtrancl_into_rtrancl)
      have eq: "bfs_collect st (i # q) v f = bfs_collect st (q @ ?cs) (i # v) (f @ [g])" using new Some by simp
      have "h \<in> set f \<or> (\<exists>a \<in> set (i # q). (a, gl_id h) \<in> (child_rel st)\<^sup>*)"
        if "h \<in> set (f @ [g]) \<or> (\<exists>a \<in> set (q @ ?cs). (a, gl_id h) \<in> (child_rel st)\<^sup>*)" for h
        using that step[of _ "gl_id h"] g by fastforce
      then show ?thesis unfolding eq using IH by blast
    qed
  qed
qed

lemma bfs_complete:
  assumes "store_ok st" "set v \<inter> stored st \<subseteq> set (goal_ids f)"
    "\<forall>a \<in> set (goal_ids f). child_rel st `` {a} \<subseteq> set v \<union> set q"
  shows "set q \<inter> stored st \<subseteq> set (goal_ids (bfs_collect st q v f)) \<and>
         (\<forall>a \<in> set (goal_ids (bfs_collect st q v f)).
            child_rel st `` {a} \<inter> stored st \<subseteq> set (goal_ids (bfs_collect st q v f)))"
  using assms
proof (induction st q v f rule: bfs_collect.induct)
  case (1 st v f)
  then show ?case by fastforce
next
  case (2 st i q v f)
  show ?case
  proof (cases "i \<in> set v")
    case True
    have "\<forall>a \<in> set (goal_ids f). child_rel st `` {a} \<subseteq> set v \<union> set q" using "2.prems"(3) True by auto
    then have IH: "set q \<inter> stored st \<subseteq> set (goal_ids (bfs_collect st q v f)) \<and>
       (\<forall>a \<in> set (goal_ids (bfs_collect st q v f)).
            child_rel st `` {a} \<inter> stored st \<subseteq> set (goal_ids (bfs_collect st q v f)))"
      by (rule "2.IH"(1)[OF True "2.prems"(1,2)])
    obtain gs where gs: "bfs_collect st q v f = f @ gs" using bfs_prefix by blast
    have "i \<in> stored st \<Longrightarrow> i \<in> set (goal_ids (f @ gs))" using True "2.prems"(2) by auto
    then have "i \<in> stored st \<Longrightarrow> i \<in> set (goal_ids (bfs_collect st q v f))" unfolding gs .
    then show ?thesis using IH True by auto
  next
    case new: False
    show ?thesis
    proof (cases "load_goal st i")
      case None
      have "set (i # v) \<inter> stored st \<subseteq> set (goal_ids f)" using "2.prems"(2) None by (auto simp: stored_def)
      moreover have "\<forall>a \<in> set (goal_ids f). child_rel st `` {a} \<subseteq> set (i # v) \<union> set q"
        using "2.prems"(3) by auto
      ultimately show ?thesis using "2.IH"(2)[OF new None "2.prems"(1)] new None by (simp add: stored_def)
    next
      case (Some g)
      have g: "gl_id g = i" using store_okD[OF "2.prems"(1) Some] by simp
      let ?cs = "filter (\<lambda>c. c \<notin> set (i # v)) (gl_children_ids g)"
      have "set (i # v) \<inter> stored st \<subseteq> set (goal_ids (f @ [g]))" using "2.prems"(2) g by auto
      moreover have "child_rel st `` {i} = set (gl_children_ids g)" using Some by (auto simp: child_rel_def)
      then have "\<forall>a \<in> set (goal_ids (f @ [g])). child_rel st `` {a} \<subseteq> set (i # v) \<union> set (q @ ?cs)"
        using "2.prems"(3) g by auto
      ultimately have IH: "set (q @ ?cs) \<inter> stored st \<subseteq> set (goal_ids (bfs_collect st (q @ ?cs) (i # v) (f @ [g])))"
        "\<forall>a \<in> set (goal_ids (bfs_collect st (q @ ?cs) (i # v) (f @ [g]))).
            child_rel st `` {a} \<inter> stored st \<subseteq> set (goal_ids (bfs_collect st (q @ ?cs) (i # v) (f @ [g])))"
        using "2.IH"(3)[OF new Some "2.prems"(1)] by auto
      obtain gs where "bfs_collect st (q @ ?cs) (i # v) (f @ [g]) = (f @ [g]) @ gs" using bfs_prefix by blast
      then have "i \<in> set (goal_ids (bfs_collect st (q @ ?cs) (i # v) (f @ [g])))" using g by simp
      then show ?thesis using IH new Some by auto
    qed
  qed
qed

text \<open>
  C30. What reading a goal tree gives in a store of valid goals under their own ids, whatever the child links
  are (shared children, a goal that is its own descendant, ids of goals that do not exist): \<open>getGoalTree\<close>
  answers null exactly for a missing root, and otherwise gives the root first and then every stored goal
  that can be reached through the children of stored goals, each once and as it is stored.
\<close>
theorem goal_tree_is_reachable_goals:
  assumes "store_ok st"
  shows "case load_goal st r of
           None \<Rightarrow> get_goal_tree st r = None
         | Some g \<Rightarrow> (\<exists>gs. get_goal_tree st r = Some (g # gs) \<and> distinct (goal_ids (g # gs)) \<and>
             (\<forall>h \<in> set (g # gs). load_goal st (gl_id h) = Some h) \<and>
             set (goal_ids (g # gs)) = {i \<in> stored st. (r, i) \<in> (child_rel st)\<^sup>*})"
proof (cases "load_goal st r")
  case None
  then show ?thesis by (simp add: get_goal_tree_def)
next
  case (Some g)
  define R where "R = bfs_collect st [r] [] []"
  have sound: "distinct (goal_ids R)" "\<forall>h \<in> set R. load_goal st (gl_id h) = Some h \<and> (r, gl_id h) \<in> (child_rel st)\<^sup>*"
    using bfs_sound[OF assms, of "[]" "[]" "[r]"] by (auto simp: R_def)
  have complete: "r \<in> set (goal_ids R)" "\<forall>a \<in> set (goal_ids R). child_rel st `` {a} \<inter> stored st \<subseteq> set (goal_ids R)"
    using bfs_complete[OF assms, of "[]" "[]" "[r]"] Some by (auto simp: R_def stored_def)
  have from_stored: "a \<in> stored st" if "(a, b) \<in> child_rel st" for a b
    using that by (auto simp: child_rel_def stored_def)
  have "i \<in> stored st \<longrightarrow> i \<in> set (goal_ids R)" if "(r, i) \<in> (child_rel st)\<^sup>*" for i
    using that
  proof induction
    case base
    then show ?case using complete(1) by simp
  next
    case (step a b)
    then show ?case using from_stored[OF step.hyps(2)] complete(2) by blast
  qed
  then have "set (goal_ids R) = {i \<in> stored st. (r, i) \<in> (child_rel st)\<^sup>*}"
    using sound(2) by (auto simp: stored_def)
  moreover obtain gs where "R = g # gs"
    using bfs_prefix[of st "filter (\<lambda>c. c \<notin> set [r]) (gl_children_ids g)" "[r]" "[g]"] Some by (auto simp: R_def)
  ultimately show ?thesis using Some sound by (auto simp: get_goal_tree_def R_def)
qed

end
