(* ===== verification/Ieee_Double.thy ===== *)
theory Ieee_Double
  imports Js_Numbers "HOL-Library.Log_Nat"
begin

text \<open>
  The rounding of ECMAScript: to the nearest IEEE 754 double, ties to the even significand, with
  gradual underflow and without the upper end of the range. A double is a multiple of
  \<open>2 ^ -1074\<close> whose significand has at most 53 bits. The laws that the proofs about the
  drive system use of rounding are proved of it here.
\<close>

section \<open>Rounding to an integer\<close>

definition round_half_even :: "rat \<Rightarrow> int" where
  "round_half_even x =
     (let f = \<lfloor>x\<rfloor>; d = x - of_int f
      in if d < 1 / 2 then f else if 1 / 2 < d then f + 1 else if even f then f else f + 1)"

lemma round_half_even_of_int [simp]: "round_half_even (of_int n) = n"
  by (simp add: round_half_even_def)

lemma round_half_even_mono: "x \<le> y \<Longrightarrow> round_half_even x \<le> round_half_even y"
proof -
  assume xy: "x \<le> y"
  then have "\<lfloor>x\<rfloor> \<le> \<lfloor>y\<rfloor>" by (rule floor_mono)
  then consider "\<lfloor>x\<rfloor> = \<lfloor>y\<rfloor>" | "\<lfloor>x\<rfloor> + 1 \<le> \<lfloor>y\<rfloor>" by linarith
  then show ?thesis
  proof cases
    case 1
    then show ?thesis using xy by (simp add: round_half_even_def Let_def)
  next
    case 2
    then show ?thesis by (simp add: round_half_even_def Let_def)
  qed
qed

section \<open>Rounding to a significand of 53 bits\<close>

text \<open>\<open>z\<close> counts multiples of \<open>2 ^ -1074\<close>; \<open>2 ^ excess_bits z\<close> is the spacing of the doubles around it.\<close>

definition excess_bits :: "rat \<Rightarrow> nat" where
  "excess_bits z = floorlog 2 (nat \<lfloor>z\<rfloor>) - 53"

definition round_quanta :: "rat \<Rightarrow> int" where
  "round_quanta z = 2 ^ excess_bits z * round_half_even (z / 2 ^ excess_bits z)"

definition quantum :: rat where
  "quantum = 1 / 2 ^ 1074"

definition to_double :: "rat \<Rightarrow> rat" where
  "to_double x = (if 0 \<le> x then of_int (round_quanta (x / quantum)) * quantum
                  else - (of_int (round_quanta (- x / quantum)) * quantum))"

lemma excess_bits_upper: "0 \<le> z \<Longrightarrow> z < 2 ^ (excess_bits z + 53)"
proof -
  assume z: "0 \<le> z"
  have "nat \<lfloor>z\<rfloor> < 2 ^ floorlog 2 (nat \<lfloor>z\<rfloor>)"
    using floorlog_bounds[of "nat \<lfloor>z\<rfloor>" 2] by (cases "nat \<lfloor>z\<rfloor> = 0") (auto simp: floorlog_def)
  also have "\<dots> \<le> 2 ^ (excess_bits z + 53)"
    by (rule power_increasing) (simp_all add: excess_bits_def)
  finally have "\<lfloor>z\<rfloor> < 2 ^ (excess_bits z + 53)"
    using z by (simp add: nat_less_iff)
  then show ?thesis by (simp add: floor_less_iff)
qed

lemma excess_bits_lower: "0 < excess_bits z \<Longrightarrow> 2 ^ (excess_bits z + 52) \<le> z"
proof -
  assume k: "0 < excess_bits z"
  then have n: "0 < nat \<lfloor>z\<rfloor>" by (cases "nat \<lfloor>z\<rfloor> = 0") (auto simp: excess_bits_def floorlog_def)
  have "excess_bits z + 52 = floorlog 2 (nat \<lfloor>z\<rfloor>) - 1" using k by (simp add: excess_bits_def)
  then have "2 ^ (excess_bits z + 52) \<le> nat \<lfloor>z\<rfloor>" using floorlog_bounds[OF n, of 2] by simp
  then have "(2 ^ (excess_bits z + 52) :: int) \<le> \<lfloor>z\<rfloor>" using n by (simp add: le_nat_iff)
  then show ?thesis by (simp add: le_floor_iff)
qed

lemma excess_bits_mono: "z \<le> w \<Longrightarrow> excess_bits z \<le> excess_bits w"
  by (simp add: excess_bits_def diff_le_mono floorlog_mono nat_mono floor_mono)

lemma round_quanta_upper: "0 \<le> z \<Longrightarrow> round_quanta z \<le> 2 ^ (excess_bits z + 53)"
proof -
  assume z: "0 \<le> z"
  have "z / 2 ^ excess_bits z \<le> of_int (2 ^ 53)"
    using excess_bits_upper[OF z] by (simp add: divide_le_eq power_add)
  from round_half_even_mono[OF this] have "round_half_even (z / 2 ^ excess_bits z) \<le> 2 ^ 53"
    by (simp only: round_half_even_of_int)
  then show ?thesis by (simp add: round_quanta_def power_add)
qed

lemma round_quanta_lower: "0 < excess_bits z \<Longrightarrow> 2 ^ (excess_bits z + 52) \<le> round_quanta z"
proof -
  assume k: "0 < excess_bits z"
  have "of_int (2 ^ 52) \<le> z / 2 ^ excess_bits z"
    using excess_bits_lower[OF k] by (simp add: le_divide_eq power_add)
  from round_half_even_mono[OF this] have "2 ^ 52 \<le> round_half_even (z / 2 ^ excess_bits z)"
    by (simp only: round_half_even_of_int)
  then show ?thesis by (simp add: round_quanta_def power_add)
qed

lemma round_quanta_mono: "0 \<le> z \<Longrightarrow> z \<le> w \<Longrightarrow> round_quanta z \<le> round_quanta w"
proof -
  assume z: "0 \<le> z" and zw: "z \<le> w"
  consider "excess_bits z = excess_bits w" | "excess_bits z < excess_bits w"
    using excess_bits_mono[OF zw] by linarith
  then show ?thesis
  proof cases
    case 1
    have "z / 2 ^ excess_bits w \<le> w / 2 ^ excess_bits w" using zw by (simp add: divide_right_mono)
    then show ?thesis using 1 round_half_even_mono by (simp add: round_quanta_def)
  next
    case 2
    have "round_quanta z \<le> 2 ^ (excess_bits z + 53)" by (rule round_quanta_upper[OF z])
    also have "\<dots> \<le> 2 ^ (excess_bits w + 52)" using 2 by (intro power_increasing) simp_all
    also have "\<dots> \<le> round_quanta w" using 2 by (intro round_quanta_lower) simp
    finally show ?thesis .
  qed
qed

lemma round_quanta_0 [simp]: "round_quanta 0 = 0"
  by (simp add: round_quanta_def round_half_even_def)

lemma round_quanta_nonneg: "0 \<le> z \<Longrightarrow> 0 \<le> round_quanta z"
  using round_quanta_mono[of 0 z] by simp

text \<open>An integer that the spacing around it divides is kept.\<close>

lemma round_quanta_multiple: "2 ^ excess_bits (of_int n) dvd n \<Longrightarrow> round_quanta (of_int n) = n"
proof -
  let ?k = "excess_bits (of_int n :: rat)"
  assume "2 ^ ?k dvd n"
  then obtain m where m: "n = 2 ^ ?k * m" by (rule dvdE)
  have "of_int n / 2 ^ ?k = (of_int m :: rat)" by (subst m) simp
  then show ?thesis using m by (simp add: round_quanta_def)
qed

lemma excess_bits_le: "n < 2 ^ (k + 53) \<Longrightarrow> excess_bits (of_int n) \<le> k"
  by (simp add: excess_bits_def le_diff_conv nat_less_iff floorlog_leD floorlog_le_iff)

lemma round_quanta_idem: "0 \<le> z \<Longrightarrow> round_quanta (of_int (round_quanta z)) = round_quanta z"
proof -
  assume z: "0 \<le> z"
  let ?k = "excess_bits z"
  have up: "round_quanta z \<le> 2 ^ (?k + 53)" by (rule round_quanta_upper[OF z])
  have dvd: "2 ^ ?k dvd round_quanta z" by (simp add: round_quanta_def)
  show ?thesis
  proof (cases "round_quanta z = 2 ^ (?k + 53)")
    case True
    have "excess_bits (of_int (2 ^ (?k + 53))) \<le> Suc ?k" by (rule excess_bits_le) simp
    then have "2 ^ excess_bits (of_int (2 ^ (?k + 53)) :: rat) dvd (2 ^ (?k + 53) :: int)"
      by (intro le_imp_power_dvd) linarith
    then show ?thesis unfolding True by (rule round_quanta_multiple)
  next
    case False
    then have "excess_bits (of_int (round_quanta z)) \<le> ?k" using up by (intro excess_bits_le) simp
    then have "2 ^ excess_bits (of_int (round_quanta z) :: rat) dvd round_quanta z"
      using dvd by (meson dvd_trans le_imp_power_dvd)
    then show ?thesis by (rule round_quanta_multiple)
  qed
qed

lemma round_quanta_small: "0 \<le> n \<Longrightarrow> n < 2 ^ 53 \<Longrightarrow> round_quanta (of_int n) = n"
  using excess_bits_le[of n 0] by (intro round_quanta_multiple) simp

section \<open>The laws\<close>

lemma quantum_pos [simp]: "0 < quantum"
  by (simp add: quantum_def)

lemma to_double_uminus: "to_double (- x) = - to_double x"
  by (cases "x = 0") (simp_all add: to_double_def)

lemma to_double_nonneg: "0 \<le> x \<Longrightarrow> 0 \<le> to_double x"
  by (simp add: to_double_def round_quanta_nonneg less_imp_le)

lemma to_double_mono_nonneg: "0 \<le> x \<Longrightarrow> x \<le> y \<Longrightarrow> to_double x \<le> to_double y"
proof -
  assume a: "0 \<le> x" "x \<le> y"
  have "round_quanta (x / quantum) \<le> round_quanta (y / quantum)"
    using a by (intro round_quanta_mono) (simp_all add: divide_right_mono less_imp_le)
  then show ?thesis using a by (simp add: to_double_def)
qed

lemma to_double_mono: "x \<le> y \<Longrightarrow> to_double x \<le> to_double y"
proof -
  assume xy: "x \<le> y"
  consider "0 \<le> x" | "x < 0" "0 \<le> y" | "y < 0" by linarith
  then show ?thesis
  proof cases
    case 1
    then show ?thesis using xy by (rule to_double_mono_nonneg)
  next
    case 2
    then have "0 \<le> to_double (- x)" "0 \<le> to_double y" by (simp_all add: to_double_nonneg)
    then show ?thesis by (simp add: to_double_uminus)
  next
    case 3
    then have "to_double (- y) \<le> to_double (- x)" using xy by (intro to_double_mono_nonneg) simp_all
    then show ?thesis by (simp add: to_double_uminus)
  qed
qed

lemma to_double_quanta: "\<exists>n. to_double x = of_int n * quantum"
proof (cases "0 \<le> x")
  case True
  then show ?thesis by (auto simp: to_double_def)
next
  case False
  then have "to_double x = of_int (- round_quanta (- x / quantum)) * quantum" by (simp add: to_double_def)
  then show ?thesis by blast
qed

lemma to_double_idem_nonneg: "0 \<le> x \<Longrightarrow> to_double (to_double x) = to_double x"
proof -
  assume x: "0 \<le> x"
  have "0 \<le> round_quanta (x / quantum)" using x by (intro round_quanta_nonneg) (simp add: less_imp_le)
  moreover have "round_quanta (of_int (round_quanta (x / quantum))) = round_quanta (x / quantum)"
    using x by (intro round_quanta_idem) (simp add: less_imp_le)
  ultimately show ?thesis using x by (simp add: to_double_def less_imp_le)
qed

lemma to_double_idem: "to_double (to_double x) = to_double x"
  using to_double_idem_nonneg[of x] to_double_idem_nonneg[of "- x"]
  by (cases "0 \<le> x") (simp_all add: to_double_uminus)

lemma to_double_small: "0 \<le> n \<Longrightarrow> n < 2 ^ 53 \<Longrightarrow> to_double (of_int n * quantum) = of_int n * quantum"
  by (simp add: to_double_def round_quanta_small less_imp_le)

text \<open>Fractions with a significand of up to 53 bits are doubles.\<close>

lemma to_double_dyadic_nonneg:
  "0 \<le> n \<Longrightarrow> n < 2 ^ 53 \<Longrightarrow> k \<le> 1074 \<Longrightarrow> to_double (of_int n / 2 ^ k) = of_int n / 2 ^ k"
proof -
  assume n: "0 \<le> n" "n < 2 ^ 53" and k: "k \<le> 1074"
  let ?e = "1074 - k" and ?m = "n * 2 ^ (1074 - k)"
  have "?m < 2 ^ 53 * 2 ^ ?e" using n by (intro mult_strict_right_mono) simp_all
  then have "?m < 2 ^ (?e + 53)" by (simp only: power_add mult.commute)
  then have "excess_bits (of_int ?m) \<le> ?e" by (rule excess_bits_le)
  then have "2 ^ excess_bits (of_int ?m :: rat) dvd (2 ^ ?e :: int)" by (rule le_imp_power_dvd)
  then have "2 ^ excess_bits (of_int ?m :: rat) dvd ?m" by (rule dvd_mult)
  then have m: "round_quanta (of_int ?m) = ?m" by (rule round_quanta_multiple)
  have pw: "(2 :: rat) ^ 1074 = 2 ^ ?e * 2 ^ k" using k by (simp flip: power_add)
  have q: "of_int n / 2 ^ k / quantum = of_int ?m" unfolding quantum_def pw by simp
  have "of_int ?m * quantum = of_int n / 2 ^ k" unfolding quantum_def pw by simp
  then show ?thesis using n(1) m q by (simp only: to_double_def) simp
qed

lemma to_double_dyadic: "\<bar>n\<bar> < 2 ^ 53 \<Longrightarrow> k \<le> 1074 \<Longrightarrow> to_double (of_int n / 2 ^ k) = of_int n / 2 ^ k"
  using to_double_dyadic_nonneg[of n k] to_double_dyadic_nonneg[of "- n" k] to_double_uminus[of "of_int n / 2 ^ k"]
  by (cases "0 \<le> n") (simp_all add: abs_if)

lemma to_double_nat: "0 \<le> n \<Longrightarrow> n < 2 ^ 53 \<Longrightarrow> to_double (of_int n) = of_int n"
  using to_double_dyadic_nonneg[of n 0] by simp

lemma to_double_numeral:
  "numeral k < (2 ^ 53 :: int) \<Longrightarrow> to_double (numeral k) = numeral k"
  "numeral k < (2 ^ 53 :: int) \<Longrightarrow> to_double (- numeral k) = - numeral k"
  using to_double_nat[of "numeral k"] by (simp_all add: to_double_uminus)

lemma to_double_1: "to_double 1 = 1"
  using to_double_nat[of 1] by simp

text \<open>Doubling a double is exact.\<close>

lemma round_quanta_fix: "round_quanta (of_int n) = n \<Longrightarrow> 2 ^ excess_bits (of_int n) dvd n"
  by (metis dvd_triv_left round_quanta_def)

lemma round_quanta_twice: "0 \<le> n \<Longrightarrow> round_quanta (of_int n) = n \<Longrightarrow> round_quanta (of_int (2 * n)) = 2 * n"
proof -
  let ?k = "excess_bits (of_int n :: rat)"
  assume n: "0 \<le> n" "round_quanta (of_int n) = n"
  have "of_int n < (of_int (2 ^ (?k + 53)) :: rat)" using excess_bits_upper[of "of_int n"] n(1) by simp
  then have "n < 2 ^ (?k + 53)" by (simp only: of_int_less_iff)
  then have "2 * n < 2 ^ (Suc ?k + 53)" by (simp only: add_Suc power_Suc)
  then have "excess_bits (of_int (2 * n)) \<le> Suc ?k" by (rule excess_bits_le)
  then have "2 ^ excess_bits (of_int (2 * n) :: rat) dvd (2 * 2 ^ ?k :: int)"
    by (metis le_imp_power_dvd power_Suc)
  also have "(2 * 2 ^ ?k :: int) dvd 2 * n" using round_quanta_fix[OF n(2)] by (rule mult_dvd_mono[OF dvd_refl])
  finally show ?thesis by (rule round_quanta_multiple)
qed

lemma to_double_twice_nonneg: "0 \<le> x \<Longrightarrow> to_double x = x \<Longrightarrow> to_double (2 * x) = 2 * x"
proof -
  assume x: "0 \<le> x" "to_double x = x"
  obtain n where n: "x = of_int n * quantum" using to_double_quanta[of x] x(2) by metis
  have xq: "x / quantum = of_int n" "2 * x / quantum = of_int (2 * n)" using n less_imp_neq[OF quantum_pos] by simp_all
  have n0: "0 \<le> n" using x(1) n quantum_pos by (simp add: zero_le_mult_iff)
  have "of_int (round_quanta (of_int n)) * quantum = of_int n * quantum"
    using x n xq(1) by (simp add: to_double_def)
  then have "round_quanta (of_int n) = n" using quantum_pos by simp
  from round_quanta_twice[OF n0 this] show ?thesis
    using x(1) xq(2) n by (simp only: to_double_def) simp
qed

lemma to_double_twice: "to_double x = x \<Longrightarrow> to_double (2 * x) = 2 * x"
  using to_double_twice_nonneg[of x] to_double_twice_nonneg[of "- x"] to_double_uminus[of "2 * x"]
  by (cases "0 \<le> x") (simp_all add: to_double_uminus)

lemma to_double_difference:
  assumes "to_double a = a" "to_double b = b" "a < b"
  shows "0 < to_double (b - a)"
proof -
  obtain m n where m: "a = of_int m * quantum" and n: "b = of_int n * quantum"
    using to_double_quanta[of a] to_double_quanta[of b] assms(1,2) by metis
  then have "m < n" using assms(3) by simp
  then have "1 \<le> (of_int (n - m) :: rat)" by simp
  from mult_right_mono[OF this, of quantum] have "quantum \<le> of_int (n - m) * quantum"
    by (simp add: less_imp_le)
  also have "\<dots> = b - a" by (simp add: m n left_diff_distrib)
  finally have "to_double quantum \<le> to_double (b - a)" by (rule to_double_mono)
  moreover have "to_double quantum = quantum" using to_double_small[of 1] by simp
  ultimately show ?thesis using quantum_pos by linarith
qed

interpretation double: ieee_rounding to_double
  by unfold_locales
     (simp_all add: to_double_mono to_double_idem to_double_dyadic to_double_uminus to_double_twice to_double_difference)

text \<open>Exact arithmetic satisfies the laws as well; small examples are evaluated with it.\<close>

interpretation exact: ieee_rounding "\<lambda>x. x"
  by unfold_locales simp_all

end
