(* ===== verification/Gap_Calculator.thy ===== *)
theory Gap_Calculator
  imports Goal_Model Ieee_Double
begin

text \<open>
  The gap pipeline of \<open>platform/drive/gap-calculator.ts\<close>: raw gap, normalized gap,
  confidence-weighted gap, per dimension and per goal, and the aggregation of child gaps.
\<close>

section \<open>Operations\<close>

definition full_numeric_gap :: "(rat \<Rightarrow> rat) \<Rightarrow> threshold \<Rightarrow> rat" where
  "full_numeric_gap rnd t =
     (let or_one = (\<lambda>x. if \<bar>x\<bar> = 0 then 1 else \<bar>x\<bar>)
      in case t of T_Min v \<Rightarrow> or_one v | T_Max v \<Rightarrow> or_one v
         | T_Range l h \<Rightarrow> or_one (rnd (h - l)) | _ \<Rightarrow> 1)"

definition is_numeric_threshold :: "threshold \<Rightarrow> bool" where
  "is_numeric_threshold t = (case t of T_Min _ \<Rightarrow> True | T_Max _ \<Rightarrow> True | T_Range _ _ \<Rightarrow> True | _ \<Rightarrow> False)"

text \<open>The switch for a missing observation, and the one for a value.\<close>

fun null_raw_gap :: "(rat \<Rightarrow> rat) \<Rightarrow> threshold \<Rightarrow> rat" where
  "null_raw_gap rnd (T_Min v) = v"
| "null_raw_gap rnd (T_Max v) = (if v > 0 then v else 1)"
| "null_raw_gap rnd (T_Range l h) = rnd (h - l)"
| "null_raw_gap rnd T_Present = 1"
| "null_raw_gap rnd (T_Match v) = 1"

definition compute_raw_gap :: "(rat \<Rightarrow> rat) \<Rightarrow> js_value \<Rightarrow> threshold \<Rightarrow> rat" where
  "compute_raw_gap rnd v t =
     (if v = VNull then null_raw_gap rnd t
      else case t of
        T_Min n \<Rightarrow> (case to_number_or_null rnd v of None \<Rightarrow> full_numeric_gap rnd t
                    | Some c \<Rightarrow> max 0 (rnd (n - c)))
      | T_Max n \<Rightarrow> (case to_number_or_null rnd v of None \<Rightarrow> full_numeric_gap rnd t
                    | Some c \<Rightarrow> max 0 (rnd (c - n)))
      | T_Range l h \<Rightarrow> (case to_number_or_null rnd v of None \<Rightarrow> full_numeric_gap rnd t
                    | Some c \<Rightarrow> rnd (max 0 (rnd (l - c)) + max 0 (rnd (c - h))))
      | T_Present \<Rightarrow> (if is_truthy v then 0 else 1)
      | T_Match m \<Rightarrow> (case v of
            VNum (Fin x) \<Rightarrow> max 0 (min 1 (rnd (1 - x)))
          | VNum _ \<Rightarrow> 1
          | _ \<Rightarrow> if strict_eq v m then 0 else 1))"

definition normalize_gap :: "(rat \<Rightarrow> rat) \<Rightarrow> js_number \<Rightarrow> threshold \<Rightarrow> js_value \<Rightarrow> rat" where
  "normalize_gap rnd raw t v = (case raw of
     Fin r \<Rightarrow>
       (if is_numeric_threshold t \<and> v \<noteq> VNull \<and> to_number_or_null rnd v = None then 1
        else if v = VNull then 1
        else case t of
          T_Min n \<Rightarrow> if n = 0 then (if r > 0 then 1 else 0) else rnd (r / n)
        | T_Max n \<Rightarrow> if n = 0 then min r 1 else rnd (r / n)
        | T_Range l h \<Rightarrow> (let halfWidth = rnd (rnd (h - l) / 2)
                         in if halfWidth = 0 then (if r > 0 then 1 else 0) else min 1 (rnd (r / halfWidth)))
        | T_Present \<Rightarrow> r
        | T_Match m \<Rightarrow> r)
   | _ \<Rightarrow> 1)"

definition apply_confidence_weight :: "(rat \<Rightarrow> rat) \<Rightarrow> rat \<Rightarrow> rat \<Rightarrow> rat \<Rightarrow> bool \<Rightarrow> rat" where
  "apply_confidence_weight rnd normalized confidence weight isNull =
     (if isNull then normalized
      else min 1 (rnd (normalized * rnd (1 + rnd (rnd (1 - confidence) * weight)))))"

record weighted_gap =
  wg_dimension_name :: string
  wg_raw_gap :: rat
  wg_normalized_gap :: rat
  wg_normalized_weighted_gap :: rat
  wg_confidence :: rat
  wg_uncertainty_weight :: rat

definition calculate_dimension_gap :: "(rat \<Rightarrow> rat) \<Rightarrow> dimension \<Rightarrow> rat \<Rightarrow> weighted_gap" where
  "calculate_dimension_gap rnd d globalWeight =
     (let v = dm_current_value d; t = dm_threshold d;
          w = nullish (dm_uncertainty_weight d) globalWeight;
          raw = compute_raw_gap rnd v t;
          normalized = normalize_gap rnd (Fin raw) t v
      in \<lparr>wg_dimension_name = dm_name d, wg_raw_gap = raw, wg_normalized_gap = normalized,
          wg_normalized_weighted_gap = apply_confidence_weight rnd normalized (dm_confidence d) w (v = VNull),
          wg_confidence = dm_confidence d, wg_uncertainty_weight = w\<rparr>)"

record gap_vector =
  gv_goal_id :: string
  gv_gaps :: "weighted_gap list"
  gv_timestamp :: timestamp

definition calculate_gap_vector :: "(rat \<Rightarrow> rat) \<Rightarrow> timestamp \<Rightarrow> string \<Rightarrow> dimension list \<Rightarrow> rat \<Rightarrow> gap_vector" where
  "calculate_gap_vector rnd nowIso goalId dims globalWeight =
     \<lparr>gv_goal_id = goalId, gv_gaps = map (\<lambda>d. calculate_dimension_gap rnd d globalWeight) dims,
      gv_timestamp = nowIso\<rparr>"

datatype gap_aggregation = Gap_Max | Gap_Weighted_Avg | Gap_Sum

definition weight_of :: "rat list \<Rightarrow> nat \<Rightarrow> rat" where
  "weight_of ws i = (if i < length ws then ws ! i else 1)"

definition aggregate_gaps :: "(rat \<Rightarrow> rat) \<Rightarrow> rat list \<Rightarrow> gap_aggregation \<Rightarrow> rat list option \<Rightarrow> rat" where
  "aggregate_gaps rnd gaps m weights =
     (if gaps = [] then 0
      else case m of
        Gap_Max \<Rightarrow> js_max gaps
      | Gap_Weighted_Avg \<Rightarrow>
          (let w = nullish weights (map (\<lambda>_. 1) gaps);
               total = js_sum rnd w
           in if total = 0 then 0
              else rnd (foldl (\<lambda>acc (i, g). rnd (acc + rnd (g * weight_of w i))) 0 (enumerate 0 gaps) / total))
      | Gap_Sum \<Rightarrow> js_sum rnd gaps)"

text \<open>\<open>dimensionProgress\<close>; \<open>None\<close> as value stands for \<open>undefined\<close>.\<close>

definition dimension_progress :: "(rat \<Rightarrow> rat) \<Rightarrow> js_value option \<Rightarrow> threshold option \<Rightarrow> rat option" where
  "dimension_progress rnd v t = (case v of None \<Rightarrow> None | Some x \<Rightarrow>
     if x = VNull then None
     else (case t of None \<Rightarrow> None | Some th \<Rightarrow>
       let normalized = normalize_gap rnd (Fin (compute_raw_gap rnd x th)) th x
       in Some (rnd (1 - max 0 (min 1 normalized)))))"

section \<open>Properties\<close>

text \<open>The thresholds for which the formulas of the pipeline make sense.\<close>

fun threshold_sane :: "threshold \<Rightarrow> bool" where
  "threshold_sane (T_Min v) = (0 \<le> v)"
| "threshold_sane (T_Max v) = (0 \<le> v)"
| "threshold_sane (T_Range l h) = (l \<le> h)"
| "threshold_sane _ = True"

context ieee_rounding begin

lemma full_numeric_gap_nonneg: "0 \<le> full_numeric_gap rnd t"
  by (cases t) (simp_all add: full_numeric_gap_def Let_def)

lemma raw_gap_nonneg: "threshold_sane t \<Longrightarrow> 0 \<le> compute_raw_gap rnd v t"
  by (cases t)
     (auto simp: compute_raw_gap_def full_numeric_gap_nonneg rnd_nonneg split: option.splits js_value.splits js_number.splits)

lemma normalize_gap_nonneg: "threshold_sane t \<Longrightarrow> 0 \<le> r \<Longrightarrow> 0 \<le> normalize_gap rnd (Fin r) t v"
  by (cases t) (auto simp: normalize_gap_def Let_def rnd_nonneg)

lemma confidence_factor_ge_1: "c \<le> 1 \<Longrightarrow> 0 \<le> w \<Longrightarrow> 1 \<le> rnd (1 + rnd (rnd (1 - c) * w))"
  by (intro rnd_ge_1) (simp add: rnd_nonneg)

lemma confidence_weight_bounds:
  assumes "0 \<le> g" "c \<le> 1" "0 \<le> w" "rnd g = g"
  shows "min 1 g \<le> apply_confidence_weight rnd g c w False" "apply_confidence_weight rnd g c w False \<le> 1"
proof -
  have "g * 1 \<le> g * rnd (1 + rnd (rnd (1 - c) * w))"
    using assms(1) confidence_factor_ge_1[OF assms(2,3)] by (intro mult_left_mono) simp_all
  from rnd_mono[OF this] have "g \<le> rnd (g * rnd (1 + rnd (rnd (1 - c) * w)))" using assms(4) by simp
  then show "min 1 g \<le> apply_confidence_weight rnd g c w False"
    by (auto simp: apply_confidence_weight_def min_def)
  show "apply_confidence_weight rnd g c w False \<le> 1" by (simp add: apply_confidence_weight_def)
qed

lemma confidence_weight_antitone:
  assumes "0 \<le> g" "c \<le> c'" "0 \<le> w"
  shows "apply_confidence_weight rnd g c' w False \<le> apply_confidence_weight rnd g c w False"
proof -
  have "rnd (1 - c') * w \<le> rnd (1 - c) * w" using assms by (intro mult_right_mono rnd_mono) simp_all
  then have "rnd (1 + rnd (rnd (1 - c') * w)) \<le> rnd (1 + rnd (rnd (1 - c) * w))"
    by (intro rnd_mono) (simp add: rnd_mono)
  from rnd_mono[OF mult_left_mono[OF this assms(1)]]
  have "rnd (g * rnd (1 + rnd (rnd (1 - c') * w))) \<le> rnd (g * rnd (1 + rnd (rnd (1 - c) * w)))" .
  then show ?thesis by (simp add: apply_confidence_weight_def min_le_iff_disj)
qed

lemma clipped_double: "rnd x = x \<Longrightarrow> rnd (max 0 x) = max 0 x" "rnd x = x \<Longrightarrow> rnd (min 1 x) = min 1 x"
  by (simp_all add: max_def min_def rnd_0 rnd_1)

lemma normalize_gap_double:
  "rnd r = r \<Longrightarrow> rnd (normalize_gap rnd (Fin r) t v) = normalize_gap rnd (Fin r) t v"
  by (cases t) (auto simp: normalize_gap_def Let_def rnd_0 rnd_1 rnd_idem clipped_double min.commute[of r])

lemma full_numeric_gap_double: "threshold_wf rnd t \<Longrightarrow> rnd (full_numeric_gap rnd t) = full_numeric_gap rnd t"
  by (cases t) (auto simp: full_numeric_gap_def Let_def rnd_0 rnd_1 rnd_idem abs_if rnd_uminus)

lemma raw_gap_double: "threshold_wf rnd t \<Longrightarrow> rnd (compute_raw_gap rnd v t) = compute_raw_gap rnd v t"
  by (cases t)
     (auto simp: compute_raw_gap_def full_numeric_gap_double rnd_0 rnd_1 rnd_idem clipped_double
           split: option.splits js_value.splits js_number.splits)

end

text \<open>
  The weighted gap of a dimension, the number the whole loop is driven by, lies in [0, 1] for
  every observation (missing, text, boolean, out of range), and it is not smaller than the
  normalized gap (cut at 1). A missing observation is a full gap whatever the confidence is, and a
  lower confidence never gives a smaller gap.
\<close>
lemma weighted_gap_bounds:
  assumes "ieee_rounding rnd" "threshold_wf rnd (dm_threshold d)" "threshold_sane (dm_threshold d)"
    "0 \<le> c" "c \<le> dm_confidence d" "dm_confidence d \<le> 1" "0 \<le> nullish (dm_uncertainty_weight d) w"
  shows "case calculate_dimension_gap rnd d w of g \<Rightarrow>
           0 \<le> wg_raw_gap g \<and> 0 \<le> wg_normalized_gap g \<and>
           min 1 (wg_normalized_gap g) \<le> wg_normalized_weighted_gap g \<and> wg_normalized_weighted_gap g \<le> 1 \<and>
           (dm_current_value d = VNull \<longrightarrow> wg_normalized_weighted_gap g = 1) \<and>
           wg_normalized_weighted_gap g
             \<le> wg_normalized_weighted_gap (calculate_dimension_gap rnd (d\<lparr>dm_confidence := c\<rparr>) w)"
proof -
  note rounding = ieee_rounding.raw_gap_nonneg[OF assms(1)] ieee_rounding.raw_gap_double[OF assms(1)]
    ieee_rounding.normalize_gap_nonneg[OF assms(1)] ieee_rounding.normalize_gap_double[OF assms(1)]
  let ?v = "dm_current_value d" and ?t = "dm_threshold d" and ?w = "nullish (dm_uncertainty_weight d) w"
  let ?r = "compute_raw_gap rnd ?v ?t"
  let ?g = "normalize_gap rnd (Fin ?r) ?t ?v"
  have r: "0 \<le> ?r" "rnd ?r = ?r" using assms(2,3) by (simp_all add: rounding)
  have g: "0 \<le> ?g" "rnd ?g = ?g" using assms(3) r by (simp_all add: rounding)
  have null: "?v = VNull \<Longrightarrow> ?g = 1" by (simp add: normalize_gap_def)
  show ?thesis
    using r g null ieee_rounding.confidence_weight_bounds[OF assms(1) g(1) assms(6,7) g(2)]
      ieee_rounding.confidence_weight_antitone[OF assms(1) g(1) assms(5,7)]
    by (cases "?v = VNull") (simp_all add: calculate_dimension_gap_def Let_def apply_confidence_weight_def)
qed

definition sample_dimension :: "threshold \<Rightarrow> js_value \<Rightarrow> dimension" where
  "sample_dimension t v =
     \<lparr>dm_name = ''coverage'', dm_current_value = v, dm_threshold = t, dm_confidence = 1, dm_last_updated = None,
      dm_uncertainty_weight = None, dm_mapping = None, dm_rest = []\<rparr>"

text \<open>
  A negative target turns the pipeline around. For a min target below zero that the observation
  misses, the raw gap is positive, but the division by the target makes the normalized gap and the
  weighted gap zero or negative and the progress 1: the missed dimension looks complete, and the
  bottleneck of the goal (the maximum) never is this dimension.
\<close>
lemma missed_negative_target_looks_complete:
  assumes "ieee_rounding rnd" "rnd n = n" "rnd c = c" "c < n" "n < 0" "dm_threshold d = T_Min n"
    "dm_current_value d = VNum (Fin c)" "dm_confidence d \<le> 1" "0 \<le> nullish (dm_uncertainty_weight d) w"
  shows "case calculate_dimension_gap rnd d w of g \<Rightarrow>
           0 < wg_raw_gap g \<and> wg_normalized_gap g \<le> 0 \<and> wg_normalized_weighted_gap g \<le> 0 \<and>
           dimension_progress rnd (Some (dm_current_value d)) (Some (dm_threshold d)) = Some 1"
proof -
  let ?r = "compute_raw_gap rnd (VNum (Fin c)) (T_Min n)"
  let ?g = "normalize_gap rnd (Fin ?r) (T_Min n) (VNum (Fin c))"
  have r: "0 < ?r"
    using ieee_rounding.rnd_difference[OF assms(1,3,2,4)] by (simp add: compute_raw_gap_def)
  have "?r / n \<le> 0" using r assms(5) by (simp add: divide_le_0_iff)
  then have g: "?g \<le> 0"
    using assms(5) by (simp add: normalize_gap_def is_numeric_threshold_def ieee_rounding.rnd_nonpos[OF assms(1)])
  have "?g * rnd (1 + rnd (rnd (1 - dm_confidence d) * nullish (dm_uncertainty_weight d) w)) \<le> 0"
    using g ieee_rounding.confidence_factor_ge_1[OF assms(1,8,9)] by (intro mult_nonpos_nonneg) simp_all
  then have "apply_confidence_weight rnd ?g (dm_confidence d) (nullish (dm_uncertainty_weight d) w) False \<le> 0"
    by (simp add: apply_confidence_weight_def min_le_iff_disj ieee_rounding.rnd_nonpos[OF assms(1)])
  then show ?thesis
    using r g assms(6,7) ieee_rounding.rnd_1[OF assms(1)]
    by (simp add: calculate_dimension_gap_def Let_def dimension_progress_def)
qed

end
