(* ===== verification/Satisficing.thy ===== *)
theory Satisficing
  imports Gap_Calculator "HOL-Library.Multiset"
begin

text \<open>
  The completion judgement: \<open>SatisficingJudge\<close> of \<open>platform/drive/satisficing-judge.ts\<close>
  with \<open>satisficing-helpers.ts\<close>. The judge keeps two maps in memory, the recent gaps of a
  dimension and the number of consecutive checks at which a goal was met; they are threaded
  through the operations as its state, together with the calls of the listener. The text of
  \<open>evidence\<close> is left out of the proposals, and \<open>checked_at\<close> is the time argument.
\<close>

section \<open>Thresholds\<close>

definition get_numeric_threshold_value :: "dimension \<Rightarrow> rat option" where
  "get_numeric_threshold_value d = (case dm_threshold d of
     T_Min v \<Rightarrow> Some v | T_Max v \<Rightarrow> Some v | T_Range l h \<Rightarrow> Some h | T_Present \<Rightarrow> None
   | T_Match m \<Rightarrow> (case m of VNum (Fin x) \<Rightarrow> Some x | _ \<Rightarrow> None))"

definition get_numeric_threshold_value_for_proposal :: "dimension \<Rightarrow> rat option" where
  "get_numeric_threshold_value_for_proposal d = (case dm_threshold d of
     T_Min v \<Rightarrow> Some v | T_Max v \<Rightarrow> Some v | T_Range l h \<Rightarrow> Some h | _ \<Rightarrow> None)"

definition get_satisfied_value :: "(rat \<Rightarrow> rat) \<Rightarrow> dimension \<Rightarrow> js_value" where
  "get_satisfied_value rnd d = (case dm_threshold d of
     T_Min v \<Rightarrow> VNum (Fin v) | T_Max v \<Rightarrow> VNum (Fin v)
   | T_Range l h \<Rightarrow> VNum (Fin (rnd (rnd (l + h) / 2)))
   | T_Present \<Rightarrow> VBool True | T_Match m \<Rightarrow> m)"

definition is_satisfied_value :: "(rat \<Rightarrow> rat) \<Rightarrow> js_value \<Rightarrow> threshold \<Rightarrow> bool" where
  "is_satisfied_value rnd v t =
     (if v = VNull then False
      else case t of
        T_Min n \<Rightarrow> (case to_number_or_null rnd v of None \<Rightarrow> False | Some c \<Rightarrow> c \<ge> n)
      | T_Max n \<Rightarrow> (case to_number_or_null rnd v of None \<Rightarrow> False | Some c \<Rightarrow> c \<le> n)
      | T_Range l h \<Rightarrow> (case to_number_or_null rnd v of None \<Rightarrow> False | Some c \<Rightarrow> c \<ge> l \<and> c \<le> h)
      | T_Present \<Rightarrow> is_truthy v
      | T_Match m \<Rightarrow> strict_eq v m)"

definition is_satisfied_raw :: "(rat \<Rightarrow> rat) \<Rightarrow> dimension \<Rightarrow> bool" where
  "is_satisfied_raw rnd d = is_satisfied_value rnd (dm_current_value d) (dm_threshold d)"

definition compute_actual_progress :: "(rat \<Rightarrow> rat) \<Rightarrow> dimension \<Rightarrow> rat" where
  "compute_actual_progress rnd d =
     (if dm_current_value d = VNull then 0
      else nullish (dimension_progress rnd (Some (dm_current_value d)) (Some (dm_threshold d))) 0)"

section \<open>Confidence\<close>

datatype confidence_tier = Tier_High | Tier_Medium | Tier_Low

definition get_confidence_tier :: "(rat \<Rightarrow> rat) \<Rightarrow> rat \<Rightarrow> confidence_tier" where
  "get_confidence_tier rnd c =
     (if c \<ge> rnd (85 / 100) then Tier_High else if c \<ge> 1 / 2 then Tier_Medium else Tier_Low)"

definition get_ceiling :: "(rat \<Rightarrow> rat) \<Rightarrow> confidence_tier \<Rightarrow> rat" where
  "get_ceiling rnd t = (case t of Tier_High \<Rightarrow> 1 | Tier_Medium \<Rightarrow> rnd (85 / 100) | Tier_Low \<Rightarrow> rnd (60 / 100))"

definition apply_progress_ceiling :: "(rat \<Rightarrow> rat) \<Rightarrow> rat \<Rightarrow> rat \<Rightarrow> rat" where
  "apply_progress_ceiling rnd actual confidence = min actual (get_ceiling rnd (get_confidence_tier rnd confidence))"

record dimension_satisfaction =
  ds_dimension_name :: string
  ds_is_satisfied :: bool
  ds_current_value :: "rat option"
  ds_threshold_value :: "rat option"
  ds_confidence :: rat
  ds_confidence_tier :: confidence_tier
  ds_effective_progress :: rat
  ds_progress_ceiling :: rat

definition is_dimension_satisfied :: "(rat \<Rightarrow> rat) \<Rightarrow> dimension \<Rightarrow> dimension_satisfaction" where
  "is_dimension_satisfied rnd d =
     (let tier = get_confidence_tier rnd (dm_confidence d); ceiling = get_ceiling rnd tier
      in \<lparr>ds_dimension_name = dm_name d, ds_is_satisfied = is_satisfied_raw rnd d,
          ds_current_value = to_number_or_null rnd (dm_current_value d),
          ds_threshold_value = get_numeric_threshold_value d, ds_confidence = dm_confidence d,
          ds_confidence_tier = tier, ds_effective_progress = min (compute_actual_progress rnd d) ceiling,
          ds_progress_ceiling = ceiling\<rparr>)"

section \<open>Convergence\<close>

datatype satisficing_status = Satisficed | Converged_Satisficed | Stalled | In_Progress

record judge_state =
  js_gap_history :: "(string, rat list) table"
  js_streak :: "(string, nat) table"
  js_listens :: bool
  js_notified :: "(string \<times> string list) list"

definition convergence_window :: nat where "convergence_window = 5"

definition convergence_epsilon :: "(rat \<Rightarrow> rat) \<Rightarrow> rat" where "convergence_epsilon rnd = rnd (1 / 100)"

definition compute_variance :: "(rat \<Rightarrow> rat) \<Rightarrow> rat list \<Rightarrow> rat option" where
  "compute_variance rnd vs =
     (if length vs < 2 then None
      else (let mean = js_mean rnd vs in Some (js_mean rnd (map (\<lambda>v. rnd (rnd (v - mean) ^ 2)) vs))))"

definition push_gap :: "rat list \<Rightarrow> rat \<Rightarrow> rat list" where
  "push_gap buf gap = (let b = buf @ [gap] in if length b > convergence_window then tl b else b)"

definition record_gap :: "string \<Rightarrow> rat \<Rightarrow> judge_state \<Rightarrow> judge_state" where
  "record_gap key gap j =
     j\<lparr>js_gap_history := table_put key (push_gap (nullish (table_get (js_gap_history j) key) []) gap) (js_gap_history j)\<rparr>"

record convergence_judgment =
  cv_status :: satisficing_status
  cv_gap :: rat
  cv_variance :: "rat option"
  cv_window_size :: nat
  cv_samples_available :: nat

definition judge_convergence ::
  "(rat \<Rightarrow> rat) \<Rightarrow> string \<Rightarrow> rat \<Rightarrow> rat \<Rightarrow> judge_state \<Rightarrow> convergence_judgment \<times> judge_state" where
  "judge_convergence rnd key gap thr j =
     (let j' = record_gap key gap j;
          buf = nullish (table_get (js_gap_history j') key) [];
          variance = compute_variance rnd buf;
          status = (if gap < thr then Satisficed
                    else case variance of
                      None \<Rightarrow> In_Progress
                    | Some v \<Rightarrow>
                        if v < convergence_epsilon rnd
                        then (if gap \<le> rnd (thr * (3 / 2)) then Converged_Satisficed else Stalled)
                        else In_Progress)
      in (\<lparr>cv_status = status, cv_gap = gap, cv_variance = variance, cv_window_size = convergence_window,
           cv_samples_available = length buf\<rparr>, j'))"

definition clear_gap_history :: "string \<Rightarrow> judge_state \<Rightarrow> judge_state" where
  "clear_gap_history key j = j\<lparr>js_gap_history := table_del key (js_gap_history j)\<rparr>"

section \<open>Completion of a goal\<close>

record completion_judgment =
  cj_is_complete :: bool
  cj_blocking_dimensions :: "string list"
  cj_low_confidence_dimensions :: "string list"
  cj_needs_verification_task :: bool
  cj_checked_at :: timestamp

type_synonym statuses = "(string, satisficing_status) table option"

definition convergence_key :: "string \<Rightarrow> string \<Rightarrow> string" where
  "convergence_key goalId name = goalId @ '':'' @ name"

definition judged_satisfaction :: "(rat \<Rightarrow> rat) \<Rightarrow> statuses \<Rightarrow> string \<Rightarrow> dimension \<Rightarrow> dimension_satisfaction" where
  "judged_satisfaction rnd conv goalId d =
     (let base = is_dimension_satisfied rnd d
      in case conv of
           None \<Rightarrow> base
         | Some m \<Rightarrow>
             if \<not> ds_is_satisfied base \<and> table_get m (convergence_key goalId (dm_name d)) = Some Converged_Satisficed
             then base\<lparr>ds_is_satisfied := True,
                       ds_confidence_tier := (if ds_confidence_tier base = Tier_Low then Tier_Medium
                                              else ds_confidence_tier base)\<rparr>
             else base)"

definition is_goal_complete ::
  "(rat \<Rightarrow> rat) \<Rightarrow> timestamp \<Rightarrow> statuses \<Rightarrow> goal \<Rightarrow> judge_state \<Rightarrow> completion_judgment \<times> judge_state" where
  "is_goal_complete rnd nowIso conv g j =
     (if gl_dimensions g = []
      then (\<lparr>cj_is_complete = True, cj_blocking_dimensions = [], cj_low_confidence_dimensions = [],
             cj_needs_verification_task = False, cj_checked_at = nowIso\<rparr>, j)
      else
        (let sats = map (judged_satisfaction rnd conv (gl_id g)) (gl_dimensions g);
             blocking = map ds_dimension_name (filter (\<lambda>s. \<not> ds_is_satisfied s) sats);
             low = map ds_dimension_name (filter (\<lambda>s. ds_confidence_tier s = Tier_Low) sats);
             needs = list_ex (\<lambda>s. ds_is_satisfied s \<and> ds_confidence s < rnd (85 / 100)) sats;
             met = (blocking = [] \<and> low = []);
             streak = nullish (table_get (js_streak j) (gl_id g)) 0 + 1;
             complete = (met \<and> streak \<ge> 2);
             j1 = j\<lparr>js_streak := (if met then (if streak \<ge> 2 then table_del (gl_id g) (js_streak j)
                                            else table_put (gl_id g) streak (js_streak j))
                                 else table_put (gl_id g) 0 (js_streak j))\<rparr>;
             satisfied = map ds_dimension_name (filter ds_is_satisfied sats);
             j2 = (if js_listens j \<and> satisfied \<noteq> []
                   then j1\<lparr>js_notified := js_notified j1 @ [(gl_id g, satisfied)]\<rparr> else j1)
         in (\<lparr>cj_is_complete = complete, cj_blocking_dimensions = blocking, cj_low_confidence_dimensions = low,
              cj_needs_verification_task = needs, cj_checked_at = nowIso\<rparr>, j2)))"

section \<open>The dimensions of the next iteration\<close>

text \<open>\<open>xs.slice(0, n)\<close> for an integer \<open>n\<close>.\<close>

definition slice_to :: "int \<Rightarrow> 'a list \<Rightarrow> 'a list" where
  "slice_to n xs = (if 0 \<le> n then take (nat n) xs else take (nat (int (length xs) + n)) xs)"

record iteration_constraints =
  ic_max_dimensions :: int
  ic_uncertainty_threshold :: rat

definition drive_score_of :: "(string \<times> rat) list \<Rightarrow> dimension \<Rightarrow> rat" where
  "drive_score_of scores d = nullish (map_of (rev scores) (dm_name d)) 0"

definition select_dimensions_for_iteration ::
  "(rat \<Rightarrow> rat) \<Rightarrow> dimension list \<Rightarrow> (string \<times> rat) list \<Rightarrow> iteration_constraints option \<Rightarrow> string list" where
  "select_dimensions_for_iteration rnd dims scores cs =
     (let c = nullish cs \<lparr>ic_max_dimensions = 3, ic_uncertainty_threshold = 1 / 2\<rparr>;
          candidates = filter (\<lambda>d. dm_confidence d \<ge> ic_uncertainty_threshold c)
                         (filter (\<lambda>d. \<not> is_satisfied_raw rnd d) dims)
      in map dm_name (slice_to (ic_max_dimensions c) (sort_key (\<lambda>d. - drive_score_of scores d) candidates)))"

section \<open>Threshold adjustment\<close>

record threshold_proposal =
  tp_goal_id :: string
  tp_dimension_name :: string
  tp_current_threshold :: rat
  tp_proposed_threshold :: rat
  tp_reason :: string

text \<open>An entry of the task history: the three fields as far as they have the right type.\<close>

record history_entry =
  he_primary_dimension :: "string option"
  he_actual_elapsed_ms :: "rat option"
  he_estimated_duration_ms :: "rat option"

definition history_of :: "history_entry list \<Rightarrow> string \<Rightarrow> (rat \<times> rat) list" where
  "history_of hs name = concat (map (\<lambda>h.
     case (he_primary_dimension h, he_actual_elapsed_ms h, he_estimated_duration_ms h) of
       (Some p, Some a, Some e) \<Rightarrow> if e > 0 \<and> p = name then [(a, e)] else []
     | _ \<Rightarrow> []) hs)"

definition propose ::
  "(rat \<Rightarrow> rat) \<Rightarrow> string \<Rightarrow> dimension \<Rightarrow> rat \<Rightarrow> string \<Rightarrow> threshold_proposal list \<Rightarrow> threshold_proposal list" where
  "propose rnd goalId d factor reason ps = (case get_numeric_threshold_value_for_proposal d of
     None \<Rightarrow> ps
   | Some t \<Rightarrow> ps @ [\<lparr>tp_goal_id = goalId, tp_dimension_name = dm_name d, tp_current_threshold = t,
                     tp_proposed_threshold = rnd (t * rnd factor), tp_reason = reason\<rparr>])"

definition proposed_for :: "threshold_proposal list \<Rightarrow> dimension \<Rightarrow> bool" where
  "proposed_for ps d = list_ex (\<lambda>p. tp_dimension_name p = dm_name d) ps"

definition adjust_dimension ::
  "(rat \<Rightarrow> rat) \<Rightarrow> goal \<Rightarrow> (string, nat) table \<Rightarrow> history_entry list \<Rightarrow> threshold_proposal list \<Rightarrow> dimension
   \<Rightarrow> threshold_proposal list" where
  "adjust_dimension rnd g failures hs ps d =
     (let satisfied = map ds_dimension_name (filter ds_is_satisfied (map (is_dimension_satisfied rnd) (gl_dimensions g)));
          progress = compute_actual_progress rnd d;
          ps1 = (if nullish (table_get failures (dm_name d)) 0 \<ge> 3 \<and> progress < rnd (1 / 10)
                 then propose rnd (gl_id g) d (8 / 10) ''high_failure_no_progress'' ps else ps);
          hist = history_of hs (dm_name d);
          ps2 = (if length hist \<ge> 3 \<and>
                    js_mean rnd (map fst hist) < rnd (js_mean rnd (map snd hist) / 2) \<and> progress < 1 / 2 \<and>
                    \<not> proposed_for ps1 d
                 then propose rnd (gl_id g) d (85 / 100) ''resource_undershoot'' ps1 else ps1);
          others = list_all (\<lambda>x. dm_name x \<in> set satisfied) (filter (\<lambda>x. dm_name x \<noteq> dm_name d) (gl_dimensions g))
      in if others \<and> dm_name d \<notin> set satisfied \<and> progress < rnd (30 / 100) \<and> \<not> proposed_for ps2 d
         then propose rnd (gl_id g) d (8 / 10) ''bottleneck_dimension'' ps2 else ps2)"

definition detect_threshold_adjustment_needed ::
  "(rat \<Rightarrow> rat) \<Rightarrow> goal \<Rightarrow> (string, nat) table \<Rightarrow> history_entry list \<Rightarrow> threshold_proposal list" where
  "detect_threshold_adjustment_needed rnd g failures hs =
     foldl (adjust_dimension rnd g failures hs) [] (gl_dimensions g)"

section \<open>Proposing dimension mappings\<close>

text \<open>
  The embedding service is the pair of arguments \<open>emb\<close> and \<open>cosine\<close>; without one there is
  no proposal. The text of \<open>reasoning\<close> is left out.
\<close>

record named_dimension =
  nd_name :: string
  nd_description :: "string option"

record mapping_proposal =
  mp_subgoal_dimension :: string
  mp_parent_dimension :: string
  mp_similarity_score :: rat
  mp_suggested_aggregation :: aggregation
  mp_confidence :: rat

definition embedding_text :: "named_dimension \<Rightarrow> string" where
  "embedding_text d = (if truthy (nd_description d) then nd_name d @ '': '' @ the (nd_description d) else nd_name d)"

definition best_match :: "(string \<Rightarrow> 'v) \<Rightarrow> ('v \<Rightarrow> 'v \<Rightarrow> rat) \<Rightarrow> 'v \<Rightarrow> named_dimension list \<Rightarrow> (string \<times> rat) option" where
  "best_match emb cosine v parents = foldl (\<lambda>best p.
      let s = cosine v (emb (embedding_text p))
      in case best of None \<Rightarrow> Some (nd_name p, s) | Some (n, b) \<Rightarrow> if s > b then Some (nd_name p, s) else best)
     None parents"

definition propose_dimension_mapping ::
  "(rat \<Rightarrow> rat) \<Rightarrow> ((string \<Rightarrow> 'v) \<times> ('v \<Rightarrow> 'v \<Rightarrow> rat)) option \<Rightarrow> named_dimension list \<Rightarrow> named_dimension list
   \<Rightarrow> mapping_proposal list" where
  "propose_dimension_mapping rnd client subs parents = (case client of
     None \<Rightarrow> []
   | Some (emb, cosine) \<Rightarrow> concat (map (\<lambda>d.
       case best_match emb cosine (emb (embedding_text d)) parents of
         None \<Rightarrow> []
       | Some (n, s) \<Rightarrow>
           if s > 1 / 2
           then [\<lparr>mp_subgoal_dimension = nd_name d, mp_parent_dimension = n, mp_similarity_score = s,
                  mp_suggested_aggregation = Agg_Avg, mp_confidence = min s (rnd (9 / 10))\<rparr>]
           else []) subs))"

section \<open>Gap and satisfaction\<close>

lemma raw_gap_zero_iff_satisfied:
  assumes "ieee_rounding rnd" "threshold_wf rnd t" "value_double rnd v" "v \<noteq> VNull"
    "\<And>m x. t = T_Match m \<Longrightarrow> v \<noteq> VNum x"
  shows "compute_raw_gap rnd v t = 0 \<longleftrightarrow> is_satisfied_value rnd v t"
proof -
  note excess = ieee_rounding.excess_zero_iff[OF assms(1)]
  have dbl: "to_number_or_null rnd v = Some c \<Longrightarrow> rnd c = c" for c
    using ieee_rounding.to_number_double[OF assms(1,3)] .
  have full: "full_numeric_gap rnd t \<noteq> 0" by (cases t) (auto simp: full_numeric_gap_def Let_def)
  show ?thesis
  proof (cases t)
    case (T_Min n)
    then show ?thesis using assms(2,4) full excess dbl
      by (auto simp: compute_raw_gap_def is_satisfied_value_def split: option.splits)
  next
    case (T_Max n)
    then show ?thesis using assms(2,4) full excess dbl
      by (auto simp: compute_raw_gap_def is_satisfied_value_def split: option.splits)
  next
    case (T_Range l h)
    have sum0: "rnd (max 0 (rnd (l - c)) + max 0 (rnd (c - h))) = 0 \<longleftrightarrow> l \<le> c \<and> c \<le> h" if c: "rnd c = c" for c
    proof -
      let ?a = "max 0 (rnd (l - c))" and ?b = "max 0 (rnd (c - h))"
      have dab: "rnd ?a = ?a" "rnd ?b = ?b"
        by (simp_all add: ieee_rounding.clipped_double[OF assms(1)] ieee_rounding.rnd_idem[OF assms(1)])
      have "?a \<le> rnd (?a + ?b)" "?b \<le> rnd (?a + ?b)"
        using ieee_rounding.rnd_mono[OF assms(1), of ?a "?a + ?b"]
          ieee_rounding.rnd_mono[OF assms(1), of ?b "?a + ?b"] dab by simp_all
      then have "rnd (?a + ?b) = 0 \<longleftrightarrow> ?a = 0 \<and> ?b = 0"
        using ieee_rounding.rnd_0[OF assms(1)] by fastforce
      then show ?thesis using excess[OF c, of l] excess[of h c] c assms(2) T_Range by simp
    qed
    then show ?thesis using assms(4) full dbl T_Range
      by (auto simp: compute_raw_gap_def is_satisfied_value_def split: option.splits)
  next
    case T_Present
    then show ?thesis using assms(4) by (simp add: compute_raw_gap_def is_satisfied_value_def)
  next
    case (T_Match m)
    then show ?thesis using assms(4,5)
      by (cases v) (auto simp: compute_raw_gap_def is_satisfied_value_def)
  qed
qed

text \<open>
  The two parts of the loop that look at a dimension agree: for an observation that is there,
  the gap calculator finds no raw gap exactly when the satisficing judge calls the dimension
  satisfied. The one exception is a match threshold observed as a number. The gap calculator reads
  the number as a score, the judge compares it with the text: a score of 1 or more has no gap and
  full progress, and the dimension is never satisfied, so its goal cannot complete.
\<close>
lemma satisfied_exactly_without_gap:
  assumes "ieee_rounding rnd" "threshold_wf rnd (dm_threshold d)" "value_double rnd (dm_current_value d)"
    "dm_current_value d \<noteq> VNull"
  shows "((\<forall>m x. dm_threshold d = T_Match m \<longrightarrow> dm_current_value d \<noteq> VNum x) \<longrightarrow>
           (compute_raw_gap rnd (dm_current_value d) (dm_threshold d) = 0 \<longleftrightarrow> is_satisfied_raw rnd d)) \<and>
         (\<forall>s x. dm_threshold d = T_Match (VStr s) \<and> dm_current_value d = VNum (Fin x) \<and> 1 \<le> x \<longrightarrow>
           compute_raw_gap rnd (dm_current_value d) (dm_threshold d) = 0 \<and>
           compute_actual_progress rnd d = 1 \<and> \<not> is_satisfied_raw rnd d)"
proof -
  have "compute_raw_gap rnd (VNum (Fin x)) (T_Match (VStr s)) = 0 \<and>
        dimension_progress rnd (Some (VNum (Fin x))) (Some (T_Match (VStr s))) = Some 1 \<and>
        \<not> is_satisfied_value rnd (VNum (Fin x)) (T_Match (VStr s))" if "1 \<le> x" for s x
  proof -
    have "rnd (1 - x) \<le> 0" using that by (intro ieee_rounding.rnd_nonpos[OF assms(1)]) simp
    then have r: "compute_raw_gap rnd (VNum (Fin x)) (T_Match (VStr s)) = 0" by (simp add: compute_raw_gap_def)
    then show ?thesis
      by (simp add: dimension_progress_def normalize_gap_def is_numeric_threshold_def is_satisfied_value_def
          ieee_rounding.rnd_1[OF assms(1)])
  qed
  then show ?thesis using raw_gap_zero_iff_satisfied[OF assms]
    by (simp add: is_satisfied_raw_def compute_actual_progress_def)
qed

section \<open>The two checks before completion\<close>

text \<open>A goal is met at a check when no dimension blocks it and none has low confidence.\<close>

definition goal_met :: "(rat \<Rightarrow> rat) \<Rightarrow> statuses \<Rightarrow> goal \<Rightarrow> bool" where
  "goal_met rnd conv g \<longleftrightarrow> list_all (\<lambda>d. let s = judged_satisfaction rnd conv (gl_id g) d
     in ds_is_satisfied s \<and> ds_confidence_tier s \<noteq> Tier_Low) (gl_dimensions g)"

definition streak_of :: "judge_state \<Rightarrow> string \<Rightarrow> nat" where
  "streak_of j i = nullish (table_get (js_streak j) i) 0"

lemma goal_complete_result:
  "cj_is_complete (fst (is_goal_complete rnd nowIso conv g j)) \<longleftrightarrow>
     gl_dimensions g = [] \<or> goal_met rnd conv g \<and> 1 \<le> streak_of j (gl_id g)"
  by (auto simp: is_goal_complete_def Let_def goal_met_def streak_of_def list_all_iff filter_empty_conv)

lemma goal_complete_streak:
  "streak_of (snd (is_goal_complete rnd nowIso conv g j)) i =
     (if i = gl_id g \<and> gl_dimensions g \<noteq> []
      then if goal_met rnd conv g \<and> streak_of j i = 0 then 1 else 0
      else streak_of j i)"
  by (auto simp: is_goal_complete_def Let_def goal_met_def streak_of_def list_all_iff filter_empty_conv
      table_get_put table_get_del)

text \<open>A sequence of checks: time, convergence statuses and goal of each.\<close>

type_synonym goal_check = "timestamp \<times> statuses \<times> goal"

fun run_checks :: "(rat \<Rightarrow> rat) \<Rightarrow> goal_check list \<Rightarrow> judge_state \<Rightarrow> completion_judgment list \<times> judge_state" where
  "run_checks rnd [] j = ([], j)"
| "run_checks rnd ((now, conv, g) # cs) j =
     (case is_goal_complete rnd now conv g j of (r, j') \<Rightarrow>
        (case run_checks rnd cs j' of (rs, j'') \<Rightarrow> (r # rs, j'')))"

definition fresh_judge :: judge_state where
  "fresh_judge = \<lparr>js_gap_history = [], js_streak = [], js_listens = False, js_notified = []\<rparr>"

lemma run_checks_append:
  "run_checks rnd (cs @ ds) j =
     (case run_checks rnd cs j of (rs, j') \<Rightarrow> (case run_checks rnd ds j' of (ss, j'') \<Rightarrow> (rs @ ss, j'')))"
  by (induction rnd cs j rule: run_checks.induct) (auto split: prod.splits)

lemma run_checks_length: "length (fst (run_checks rnd cs j)) = length cs"
  by (induction rnd cs j rule: run_checks.induct) (auto split: prod.splits)

lemma run_checks_other:
  "\<forall>(now, conv, g) \<in> set cs. gl_id g \<noteq> i \<Longrightarrow> streak_of (snd (run_checks rnd cs j)) i = streak_of j i"
proof (induction rnd cs j rule: run_checks.induct)
  case (2 rnd now conv g cs j)
  then show ?case
    using goal_complete_streak[of rnd now conv g j i] by (auto split: prod.splits)
qed simp

text \<open>
  C6. A goal with dimensions is declared complete only on a second look: in any sequence of
  checks, with checks of other goals in between, a check completes the goal exactly when the goal
  is met at this check and was met at the check of it before, which did not complete it. The first
  check of a goal never completes it.
\<close>
theorem completion_needs_second_check:
  assumes "gl_id g1 = i" "gl_id g2 = i" "gl_dimensions g1 \<noteq> []" "gl_dimensions g2 \<noteq> []"
    "\<forall>(now, conv, g) \<in> set between. gl_id g \<noteq> i" "\<forall>(now, conv, g) \<in> set first. gl_id g \<noteq> i"
  shows "(case run_checks rnd (before @ [(t1, c1, g1)] @ between @ [(t2, c2, g2)]) fresh_judge of (rs, j) \<Rightarrow>
            cj_is_complete (last rs) \<longleftrightarrow>
              goal_met rnd c2 g2 \<and> goal_met rnd c1 g1 \<and> \<not> cj_is_complete (rs ! length before)) \<and>
         \<not> cj_is_complete (last (fst (run_checks rnd (first @ [(t1, c1, g1)]) fresh_judge)))"
proof -
  define j0 where "j0 = snd (run_checks rnd before fresh_judge)"
  define j1 where "j1 = snd (is_goal_complete rnd t1 c1 g1 j0)"
  define j2 where "j2 = snd (run_checks rnd between j1)"
  define r1 where "r1 = fst (is_goal_complete rnd t1 c1 g1 j0)"
  define r2 where "r2 = fst (is_goal_complete rnd t2 c2 g2 j2)"
  obtain rs0 rsb where rs0: "run_checks rnd before fresh_judge = (rs0, j0)" "length rs0 = length before"
    and rsb: "run_checks rnd between j1 = (rsb, j2)"
    using run_checks_length by (metis j0_def j2_def prod.collapse)
  have run: "run_checks rnd (before @ [(t1, c1, g1)] @ between @ [(t2, c2, g2)]) fresh_judge =
      (rs0 @ [r1] @ rsb @ [r2], snd (is_goal_complete rnd t2 c2 g2 j2))"
    using rs0 rsb by (simp add: run_checks_append r1_def r2_def j1_def case_prod_beta)
  have "streak_of j2 i = streak_of j1 i" using run_checks_other[OF assms(5), of rnd j1] by (simp add: j2_def)
  then have "cj_is_complete r2 \<longleftrightarrow> goal_met rnd c2 g2 \<and> goal_met rnd c1 g1 \<and> \<not> cj_is_complete r1"
    using assms(1-4) by (auto simp: r1_def r2_def goal_complete_result j1_def goal_complete_streak)
  moreover have "streak_of (snd (run_checks rnd first fresh_judge)) i = 0"
    using run_checks_other[OF assms(6), of rnd fresh_judge] by (simp add: streak_of_def fresh_judge_def)
  then have "\<not> cj_is_complete (last (fst (run_checks rnd (first @ [(t1, c1, g1)]) fresh_judge)))"
    using assms(1,3) by (simp add: run_checks_append goal_complete_result case_prod_beta)
  ultimately show ?thesis using rs0(2) unfolding run by (simp add: nth_append)
qed

definition sample_goal :: "string \<Rightarrow> dimension list \<Rightarrow> string list \<Rightarrow> goal" where
  "sample_goal i dims children =
     \<lparr>gl_id = i, gl_parent_id = None, gl_status = G_Active, gl_dimensions = dims, gl_constraints = [],
      gl_children_ids = children, gl_deadline = None, gl_uncertainty_weight = 1, gl_updated_at = Iso 0, gl_rest = []\<rparr>"

theorem completion_needs_second_check_witness:
  "(let g = sample_goal ''g'' [sample_dimension (T_Min 80) (VNum (Fin 90))] [];
        other = sample_goal ''h'' [sample_dimension T_Present VNull] []
    in (case run_checks (\<lambda>x. x) ([] @ [(Iso 1, None, g)] @ [(Iso 2, None, other)] @ [(Iso 3, None, g)]) fresh_judge of
          (rs, j) \<Rightarrow> cj_is_complete (last rs) \<longleftrightarrow>
            goal_met (\<lambda>x. x) None g \<and> goal_met (\<lambda>x. x) None g \<and> \<not> cj_is_complete (rs ! length ([] :: goal_check list))) \<and>
       \<not> cj_is_complete (last (fst (run_checks (\<lambda>x. x) ([] @ [(Iso 1, None, g)]) fresh_judge))))"
  unfolding Let_def
  by (rule completion_needs_second_check[where i = "''g''"]) (simp_all add: sample_goal_def)

text \<open>
  A goal that stays met is completed: of any two consecutive checks of a goal at which it is
  met, with checks of other goals in between and whatever happened before, one declares it complete.
\<close>
lemma met_goal_completes_within_two_checks:
  assumes "gl_id g1 = i" "gl_id g2 = i" "goal_met rnd c1 g1" "goal_met rnd c2 g2"
    "\<forall>(now, conv, g) \<in> set between. gl_id g \<noteq> i"
  shows "case run_checks rnd ([(t1, c1, g1)] @ between @ [(t2, c2, g2)]) j of (rs, j') \<Rightarrow>
           cj_is_complete (hd rs) \<or> cj_is_complete (last rs)"
proof -
  define j1 where "j1 = snd (is_goal_complete rnd t1 c1 g1 j)"
  define j2 where "j2 = snd (run_checks rnd between j1)"
  have "streak_of j2 i = streak_of j1 i" using run_checks_other[OF assms(5), of rnd j1] by (simp add: j2_def)
  then have "cj_is_complete (fst (is_goal_complete rnd t1 c1 g1 j)) \<or> cj_is_complete (fst (is_goal_complete rnd t2 c2 g2 j2))"
    using assms(1-4) by (auto simp: goal_complete_result j1_def goal_complete_streak)
  then show ?thesis by (simp add: run_checks_append j1_def j2_def case_prod_beta)
qed

section \<open>Well-formed judgements\<close>

lemma dimension_progress_unit:
  assumes "ieee_rounding rnd"
  shows "opt_all (\<lambda>p. 0 \<le> p \<and> p \<le> 1) (dimension_progress rnd v t)"
  by (cases v; cases t)
     (auto simp: dimension_progress_def Let_def intro!: ieee_rounding.rnd_nonneg[OF assms] ieee_rounding.rnd_le_1[OF assms])

lemma actual_progress_unit:
  assumes "ieee_rounding rnd"
  shows "0 \<le> compute_actual_progress rnd d \<and> compute_actual_progress rnd d \<le> 1"
  using dimension_progress_unit[OF assms, of "Some (dm_current_value d)" "Some (dm_threshold d)"]
  by (auto simp: compute_actual_progress_def nullish_def split: option.splits)

lemma ceiling_unit:
  assumes "ieee_rounding rnd"
  shows "0 \<le> get_ceiling rnd t \<and> get_ceiling rnd t \<le> 1"
  by (cases t) (auto simp: get_ceiling_def intro!: ieee_rounding.rnd_nonneg[OF assms] ieee_rounding.rnd_le_1[OF assms])

lemma ceiling_mono:
  assumes "ieee_rounding rnd" "c \<le> c'"
  shows "get_ceiling rnd (get_confidence_tier rnd c) \<le> get_ceiling rnd (get_confidence_tier rnd c')"
proof -
  have "rnd (60 / 100) \<le> rnd (85 / 100)" "rnd (85 / 100) \<le> 1" "rnd (60 / 100) \<le> 1"
    using ieee_rounding.rnd_mono[OF assms(1), of "60 / 100" "85 / 100"] ieee_rounding.rnd_le_1[OF assms(1)] by auto
  then show ?thesis using assms(2) by (auto simp: get_ceiling_def get_confidence_tier_def)
qed

text \<open>
  C34. A completion judgement is consistent and its numbers are in range: a completed goal has
  neither blocking nor low-confidence dimensions; the dimensions it names are dimensions of the
  goal; the reported progress of a dimension lies between 0 and the ceiling of its confidence tier,
  which lies in [0, 1] and does not fall when the confidence grows.
\<close>
theorem judgement_is_consistent:
  assumes "ieee_rounding rnd" "c \<le> dm_confidence d"
  shows "(case is_goal_complete rnd nowIso conv g j of (r, j') \<Rightarrow>
            (cj_is_complete r \<longrightarrow> cj_blocking_dimensions r = [] \<and> cj_low_confidence_dimensions r = []) \<and>
            set (cj_blocking_dimensions r) \<union> set (cj_low_confidence_dimensions r) \<subseteq> dm_name ` set (gl_dimensions g)) \<and>
         (case is_dimension_satisfied rnd d of s \<Rightarrow>
            0 \<le> ds_effective_progress s \<and> ds_effective_progress s \<le> ds_progress_ceiling s \<and> ds_progress_ceiling s \<le> 1 \<and>
            ds_progress_ceiling (is_dimension_satisfied rnd (d\<lparr>dm_confidence := c\<rparr>)) \<le> ds_progress_ceiling s)"
proof -
  have "ds_dimension_name (judged_satisfaction rnd conv i x) = dm_name x" for i x
    by (auto simp: judged_satisfaction_def is_dimension_satisfied_def Let_def split: option.splits)
  then have "case is_goal_complete rnd nowIso conv g j of (r, j') \<Rightarrow>
            (cj_is_complete r \<longrightarrow> cj_blocking_dimensions r = [] \<and> cj_low_confidence_dimensions r = []) \<and>
            set (cj_blocking_dimensions r) \<union> set (cj_low_confidence_dimensions r) \<subseteq> dm_name ` set (gl_dimensions g)"
    by (auto simp: is_goal_complete_def Let_def)
  then show ?thesis
    using actual_progress_unit[OF assms(1), of d] ceiling_unit[OF assms(1)] ceiling_mono[OF assms]
    by (simp add: is_dimension_satisfied_def Let_def)
qed

theorem judgement_is_consistent_witness:
  "(let d = sample_dimension (T_Max 5) (VStr ''4.5e0''); g = sample_goal ''g'' [d] [] in
    (case is_goal_complete to_double (Iso 1) None g fresh_judge of (r, j') \<Rightarrow>
       (cj_is_complete r \<longrightarrow> cj_blocking_dimensions r = [] \<and> cj_low_confidence_dimensions r = []) \<and>
       set (cj_blocking_dimensions r) \<union> set (cj_low_confidence_dimensions r) \<subseteq> dm_name ` set (gl_dimensions g)) \<and>
    (case is_dimension_satisfied to_double d of s \<Rightarrow>
       0 \<le> ds_effective_progress s \<and> ds_effective_progress s \<le> ds_progress_ceiling s \<and> ds_progress_ceiling s \<le> 1 \<and>
       ds_progress_ceiling (is_dimension_satisfied to_double (d\<lparr>dm_confidence := 0\<rparr>)) \<le> ds_progress_ceiling s))"
  unfolding Let_def
  by (rule judgement_is_consistent[OF double.ieee_rounding_axioms]) (simp add: sample_dimension_def)

section \<open>Choosing dimensions and proposing thresholds\<close>

definition iteration_candidates :: "(rat \<Rightarrow> rat) \<Rightarrow> rat \<Rightarrow> dimension list \<Rightarrow> dimension list" where
  "iteration_candidates rnd u dims = filter (\<lambda>d. u \<le> dm_confidence d \<and> \<not> is_satisfied_raw rnd d) dims"

lemma sorted_take_drop: "sorted (map f xs) \<Longrightarrow> x \<in> set (take n xs) \<Longrightarrow> y \<in> set (drop n xs) \<Longrightarrow> f x \<le> f y"
proof -
  assume "sorted (map f xs)" and xy: "x \<in> set (take n xs)" "y \<in> set (drop n xs)"
  then have "sorted (map f (take n xs @ drop n xs))" by simp
  then show "f x \<le> f y" using xy by (simp only: map_append sorted_append) simp
qed

text \<open>
  The dimensions of the next iteration are the best ones: with a limit of \<open>n\<close> the selection
  splits the candidates (not satisfied, confident enough) into the chosen ones, in the order of
  falling drive scores, and the rest, none of which scores higher than a chosen one; a candidate is
  left out only when \<open>n\<close> dimensions are chosen.
\<close>
lemma selection_takes_best_candidates:
  assumes "0 \<le> n"
  shows "\<exists>chosen rest.
           select_dimensions_for_iteration rnd dims scores
             (Some \<lparr>ic_max_dimensions = n, ic_uncertainty_threshold = u\<rparr>) = map dm_name chosen \<and>
           mset chosen + mset rest = mset (iteration_candidates rnd u dims) \<and>
           length chosen = min (nat n) (length (iteration_candidates rnd u dims)) \<and>
           sorted (rev (map (drive_score_of scores) chosen)) \<and>
           (\<forall>x \<in> set chosen. \<forall>y \<in> set rest. drive_score_of scores y \<le> drive_score_of scores x)"
proof -
  let ?c = "iteration_candidates rnd u dims" and ?f = "\<lambda>d. - drive_score_of scores d"
  let ?s = "sort_key ?f ?c"
  have sel: "select_dimensions_for_iteration rnd dims scores
      (Some \<lparr>ic_max_dimensions = n, ic_uncertainty_threshold = u\<rparr>) = map dm_name (take (nat n) ?s)"
    using assms by (simp add: select_dimensions_for_iteration_def iteration_candidates_def slice_to_def conj_commute)
  have srt: "sorted (map ?f ?s)" by simp
  have "mset (take (nat n) ?s) + mset (drop (nat n) ?s) = mset ?c"
    by (metis append_take_drop_id mset_append mset_sort)
  moreover have "sorted (rev (map (drive_score_of scores) (take (nat n) ?s)))"
    using sorted_wrt_take[OF srt[unfolded sorted_map], of "nat n"]
    by (simp add: sorted_wrt_rev sorted_wrt_map)
  moreover have "\<forall>x \<in> set (take (nat n) ?s). \<forall>y \<in> set (drop (nat n) ?s). drive_score_of scores y \<le> drive_score_of scores x"
    using sorted_take_drop[OF srt] by fastforce
  ultimately show ?thesis
    by (intro exI[of _ "take (nat n) ?s"] exI[of _ "drop (nat n) ?s"]) (simp add: sel)
qed

definition adjust_factors :: "rat set" where
  "adjust_factors = {8 / 10, 85 / 100}"

definition proposal_from :: "(rat \<Rightarrow> rat) \<Rightarrow> dimension list \<Rightarrow> threshold_proposal \<Rightarrow> bool" where
  "proposal_from rnd dims p \<longleftrightarrow> (\<exists>d \<in> set dims. \<exists>f \<in> adjust_factors.
     tp_dimension_name p = dm_name d \<and> get_numeric_threshold_value_for_proposal d = Some (tp_current_threshold p) \<and>
     tp_proposed_threshold p = rnd (tp_current_threshold p * rnd f))"

lemma propose_from:
  "\<forall>p \<in> set ps. proposal_from rnd dims p \<Longrightarrow> d \<in> set dims \<Longrightarrow> f \<in> adjust_factors \<Longrightarrow>
   \<forall>p \<in> set (propose rnd i d f r ps). proposal_from rnd dims p"
  by (auto simp: propose_def proposal_from_def split: option.splits)

lemma adjust_from:
  "\<forall>p \<in> set ps. proposal_from rnd dims p \<Longrightarrow> d \<in> set dims \<Longrightarrow>
   \<forall>p \<in> set (adjust_dimension rnd g fl hs ps d). proposal_from rnd dims p"
proof -
  assume ps: "\<forall>p \<in> set ps. proposal_from rnd dims p" and d: "d \<in> set dims"
  have step: "\<forall>p \<in> set (if b then propose rnd i d f r qs else qs). proposal_from rnd dims p"
    if "\<forall>p \<in> set qs. proposal_from rnd dims p" "f \<in> adjust_factors" for b i f r qs
    using that propose_from[OF that(1) d that(2)] by simp
  have f: "8 / 10 \<in> adjust_factors" "85 / 100 \<in> adjust_factors" by (simp_all add: adjust_factors_def)
  show ?thesis unfolding adjust_dimension_def Let_def by (intro step ps f)
qed

lemma detect_from:
  "p \<in> set (detect_threshold_adjustment_needed rnd g fl hs) \<Longrightarrow> proposal_from rnd (gl_dimensions g) p"
proof -
  have "\<forall>p \<in> set (foldl (adjust_dimension rnd g fl hs) ps ds). proposal_from rnd (gl_dimensions g) p"
    if "\<forall>p \<in> set ps. proposal_from rnd (gl_dimensions g) p" "set ds \<subseteq> set (gl_dimensions g)" for ps ds
    using that
  proof (induction ds arbitrary: ps)
    case (Cons d ds)
    have "\<forall>p \<in> set (adjust_dimension rnd g fl hs ps d). proposal_from rnd (gl_dimensions g) p"
      using Cons.prems by (intro adjust_from) auto
    then show ?case using Cons.IH Cons.prems(2) by simp
  qed simp
  then show "p \<in> set (detect_threshold_adjustment_needed rnd g fl hs) \<Longrightarrow> proposal_from rnd (gl_dimensions g) p"
    unfolding detect_threshold_adjustment_needed_def by force
qed

text \<open>
  The threshold adjustment, which is to relax a target that seems out of reach, scales every
  numeric threshold by 0.8 or 0.85. For a positive min target this does relax it: what satisfied the
  old target satisfies the proposed one. For a positive max target it does the opposite: the proposed
  ceiling is at most the old one, and what misses the old target misses the proposed one.
\<close>
lemma proposal_relaxes_min_but_tightens_max:
  assumes "ieee_rounding rnd" "p \<in> set (detect_threshold_adjustment_needed rnd g failures history)"
    "\<forall>d \<in> set (gl_dimensions g). threshold_wf rnd (dm_threshold d)" "0 < tp_current_threshold p"
  shows "\<exists>d \<in> set (gl_dimensions g). dm_name d = tp_dimension_name p \<and>
           tp_proposed_threshold p \<le> tp_current_threshold p \<and>
           (\<forall>n. dm_threshold d = T_Min n \<longrightarrow> n = tp_current_threshold p \<and>
              (\<forall>v. is_satisfied_value rnd v (T_Min n) \<longrightarrow> is_satisfied_value rnd v (T_Min (tp_proposed_threshold p)))) \<and>
           (\<forall>n. dm_threshold d = T_Max n \<longrightarrow> n = tp_current_threshold p \<and>
              (\<forall>v. \<not> is_satisfied_value rnd v (T_Max n) \<longrightarrow> \<not> is_satisfied_value rnd v (T_Max (tp_proposed_threshold p))))"
proof -
  let ?t = "tp_current_threshold p" and ?q = "tp_proposed_threshold p"
  obtain d f where d: "d \<in> set (gl_dimensions g)" "dm_name d = tp_dimension_name p"
      "get_numeric_threshold_value_for_proposal d = Some ?t"
    and f: "f \<in> adjust_factors" "?q = rnd (?t * rnd f)"
    using detect_from[OF assms(2)] unfolding proposal_from_def by metis
  have "rnd f \<le> 1" using f(1) by (intro ieee_rounding.rnd_le_1[OF assms(1)]) (auto simp: adjust_factors_def)
  then have "?t * rnd f \<le> ?t" using assms(4) by (simp add: mult_le_cancel_left1)
  from ieee_rounding.rnd_mono[OF assms(1) this] have "?q \<le> rnd ?t" using f(2) by simp
  moreover have "rnd ?t = ?t" using d(3) bspec[OF assms(3) d(1)]
    by (cases "dm_threshold d") (auto simp: get_numeric_threshold_value_for_proposal_def)
  ultimately have le: "?q \<le> ?t" by simp
  show ?thesis
    using d le by (intro bexI[of _ d])
      (auto simp: get_numeric_threshold_value_for_proposal_def is_satisfied_value_def split: option.splits)
qed

definition slow_goal :: goal where
  "slow_goal = sample_goal ''g'' [sample_dimension (T_Max 100) (VNum (Fin 300))] []"

definition slow_proposal :: threshold_proposal where
  "slow_proposal = \<lparr>tp_goal_id = ''g'', tp_dimension_name = ''coverage'', tp_current_threshold = 100,
     tp_proposed_threshold = 80, tp_reason = ''high_failure_no_progress''\<rparr>"

end
