(* ===== verification/Goal_Completion.thy ===== *)
theory Goal_Completion
  imports Satisficing
begin

text \<open>
  Completion in the goal tree, \<open>platform/drive/satisficing-propagation.ts\<close>: the recursive
  judgement of a tree and the propagation of a completed subgoal to its parent.

  \<open>judgeTreeCompletion\<close> recurses over the stored child links, which nothing keeps free of
  cycles. The model counts the depth of the recursion down: \<open>None\<close> says that the depth did not
  suffice. The properties say exactly on which stores some depth does.
\<close>

section \<open>Judging a tree\<close>

record tree_acc =
  ta_blocking :: "string list"
  ta_low :: "string list"
  ta_needs :: bool

text \<open>\<open>for (const dim of dims) if (!xs.includes(dim)) xs.push(dim)\<close>.\<close>

definition push_new :: "string list \<Rightarrow> string list \<Rightarrow> string list" where
  "push_new xs ys = foldl (\<lambda>acc y. if y \<in> set acc then acc else acc @ [y]) xs ys"

definition merge_child :: "completion_judgment \<Rightarrow> tree_acc \<Rightarrow> tree_acc" where
  "merge_child r a =
     (let a1 = (if cj_is_complete r then a
                else a\<lparr>ta_blocking := push_new (ta_blocking a) (cj_blocking_dimensions r),
                       ta_low := push_new (ta_low a) (cj_low_confidence_dimensions r)\<rparr>)
      in if cj_needs_verification_task r then a1\<lparr>ta_needs := True\<rparr> else a1)"

text \<open>The body of the loop over the children, around the recursive call \<open>rec\<close>.\<close>

definition child_step ::
  "goal_store \<Rightarrow> (string \<Rightarrow> judge_state \<Rightarrow> (completion_judgment \<times> judge_state) option)
   \<Rightarrow> (tree_acc \<times> judge_state) option \<Rightarrow> string \<Rightarrow> (tree_acc \<times> judge_state) option" where
  "child_step st rec acc c = (case acc of None \<Rightarrow> None | Some (a, j) \<Rightarrow>
     (case load_goal st c of
        None \<Rightarrow> Some (a\<lparr>ta_blocking := ta_blocking a @ [c]\<rparr>, j)
      | Some child \<Rightarrow>
          if gl_status child = G_Cancelled then Some (a, j)
          else (case rec c j of None \<Rightarrow> None | Some (r, j') \<Rightarrow> Some (merge_child r a, j'))))"

primrec judge_tree_completion ::
  "(rat \<Rightarrow> rat) \<Rightarrow> timestamp \<Rightarrow> statuses \<Rightarrow> goal_store \<Rightarrow> nat \<Rightarrow> string \<Rightarrow> judge_state
   \<Rightarrow> (completion_judgment \<times> judge_state) option" where
  "judge_tree_completion rnd nowIso conv st 0 = (\<lambda>i j. None)"
| "judge_tree_completion rnd nowIso conv st (Suc depth) = (\<lambda>i j.
     case load_goal st i of
       None \<Rightarrow> Some (\<lparr>cj_is_complete = False, cj_blocking_dimensions = [], cj_low_confidence_dimensions = [],
                     cj_needs_verification_task = False, cj_checked_at = nowIso\<rparr>, j)
     | Some g \<Rightarrow>
         if gl_children_ids g = [] then Some (is_goal_complete rnd nowIso conv g j)
         else (case foldl (child_step st (judge_tree_completion rnd nowIso conv st depth))
                      (Some (\<lparr>ta_blocking = [], ta_low = [], ta_needs = False\<rparr>, j)) (gl_children_ids g) of
                 None \<Rightarrow> None
               | Some (a, j') \<Rightarrow>
                   Some (\<lparr>cj_is_complete = (ta_blocking a = [] \<and> ta_low a = []),
                          cj_blocking_dimensions = ta_blocking a, cj_low_confidence_dimensions = ta_low a,
                          cj_needs_verification_task = ta_needs a, cj_checked_at = nowIso\<rparr>, j')))"

lemmas judge_tree_Suc = judge_tree_completion.simps(2)

declare judge_tree_completion.simps(2) [simp del]

section \<open>Propagating a completed subgoal\<close>

fun text_includes :: "string \<Rightarrow> string \<Rightarrow> bool" where
  "text_includes [] t = (t = [])"
| "text_includes (c # s) t = (take (length t) (c # s) = t \<or> text_includes s t)"

definition set_current_value :: "js_value \<Rightarrow> timestamp \<Rightarrow> dimension \<Rightarrow> dimension" where
  "set_current_value v now d = d\<lparr>dm_current_value := v, dm_last_updated := Some now\<rparr>"

text \<open>\<open>findIndex((d) => d.name === name || d.name.includes(name))\<close>, and the update at that index.\<close>

definition matches_name :: "string \<Rightarrow> dimension \<Rightarrow> bool" where
  "matches_name name d \<longleftrightarrow> dm_name d = name \<or> text_includes (dm_name d) name"

fun satisfy_first :: "(rat \<Rightarrow> rat) \<Rightarrow> timestamp \<Rightarrow> string \<Rightarrow> dimension list \<Rightarrow> dimension list" where
  "satisfy_first rnd now name [] = []"
| "satisfy_first rnd now name (d # ds) =
     (if matches_name name d then set_current_value (get_satisfied_value rnd d) now d # ds
      else d # satisfy_first rnd now name ds)"

text \<open>The mapped dimensions by target, in the order of their first occurrence.\<close>

definition group_mapped :: "dimension list \<Rightarrow> (string, dimension list) table" where
  "group_mapped ds = foldl (\<lambda>t d. case dm_mapping d of
      None \<Rightarrow> t
    | Some (p, a) \<Rightarrow> table_put p (nullish (table_get t p) [] @ [d]) t) [] ds"

definition aggregated_value :: "(rat \<Rightarrow> rat) \<Rightarrow> dimension list \<Rightarrow> rat" where
  "aggregated_value rnd ds =
     (let a = (case ds of [] \<Rightarrow> Agg_Avg | d # _ \<Rightarrow> (case dm_mapping d of None \<Rightarrow> Agg_Avg | Some (p, a) \<Rightarrow> a))
      in if a = Agg_All_Required then aggregate_values rnd (map (compute_actual_progress rnd) ds) a
         else aggregate_values rnd (List.map_filter (\<lambda>d. to_number_or_null rnd (dm_current_value d)) ds) a)"

definition propagate_mapped :: "(rat \<Rightarrow> rat) \<Rightarrow> timestamp \<Rightarrow> dimension list \<Rightarrow> dimension list \<Rightarrow> dimension list" where
  "propagate_mapped rnd now sub parent =
     (let updates = map (\<lambda>(p, ds). (p, aggregated_value rnd ds)) (group_mapped sub)
      in map (\<lambda>d. case table_get updates (dm_name d) of
                None \<Rightarrow> d
              | Some x \<Rightarrow> set_current_value (VNum (Fin x)) now d) parent)"

definition propagate_unmapped :: "(rat \<Rightarrow> rat) \<Rightarrow> timestamp \<Rightarrow> dimension list \<Rightarrow> dimension list \<Rightarrow> dimension list" where
  "propagate_unmapped rnd now sub parent =
     foldl (\<lambda>ds u. satisfy_first rnd now (dm_name u) ds) parent (filter (\<lambda>d. dm_mapping d = None) sub)"

definition propagate_subgoal_completion ::
  "(rat \<Rightarrow> rat) \<Rightarrow> timestamp \<Rightarrow> string \<Rightarrow> string \<Rightarrow> dimension list option \<Rightarrow> goal_store \<Rightarrow> unit result \<times> goal_store" where
  "propagate_subgoal_completion rnd now subgoalId parentId subDims st = (case load_goal st parentId of
     None \<Rightarrow> (Inl (Thrown (''propagateSubgoalCompletion: parent goal '' @ [CHR 0x22] @ parentId @ [CHR 0x22] @ '' not found'')), st)
   | Some parent \<Rightarrow>
       (let save = (\<lambda>ds. save_goal (parent\<lparr>gl_dimensions := ds, gl_updated_at := now\<rparr>) st)
        in case subDims of
             Some (d # ds) \<Rightarrow>
               save (propagate_unmapped rnd now (d # ds) (propagate_mapped rnd now (d # ds) (gl_dimensions parent)))
           | _ \<Rightarrow>
               if list_ex (matches_name subgoalId) (gl_dimensions parent)
               then save (satisfy_first rnd now subgoalId (gl_dimensions parent))
               else (Inr (), st)))"

section \<open>When the judgement of a tree returns\<close>

definition open_child :: "goal_store \<Rightarrow> (string \<times> string) set" where
  "open_child st = {(p, c). \<exists>g ch. load_goal st p = Some g \<and> c \<in> set (gl_children_ids g) \<and>
     load_goal st c = Some ch \<and> gl_status ch \<noteq> G_Cancelled}"

definition below :: "goal_store \<Rightarrow> string \<Rightarrow> string set" where
  "below st i = (open_child st)\<^sup>+ `` {i}"

definition cycle_below :: "goal_store \<Rightarrow> string \<Rightarrow> bool" where
  "cycle_below st i \<longleftrightarrow> (\<exists>x. (i, x) \<in> (open_child st)\<^sup>* \<and> (x, x) \<in> (open_child st)\<^sup>+)"

lemma child_step_None [simp]: "foldl (child_step st rec) None cs = None"
  by (induction cs) (simp_all add: child_step_def)

lemma open_childI:
  "load_goal st p = Some g \<Longrightarrow> c \<in> set (gl_children_ids g) \<Longrightarrow> load_goal st c = Some ch \<Longrightarrow>
   gl_status ch \<noteq> G_Cancelled \<Longrightarrow> (p, c) \<in> open_child st"
  unfolding open_child_def by blast

lemma fold_child_None:
  assumes "c \<in> set cs" "load_goal st c = Some ch" "gl_status ch \<noteq> G_Cancelled" "\<And>j. rec c j = None"
  shows "foldl (child_step st rec) acc cs = None"
  using assms(1)
proof (induction cs arbitrary: acc)
  case (Cons d cs)
  show ?case
  proof (cases "d = c")
    case True
    then have "child_step st rec acc d = None" using assms(2-4) by (auto simp: child_step_def split: option.splits)
    then show ?thesis by simp
  next
    case False
    then show ?thesis using Cons by simp
  qed
qed simp

lemma fold_child_Some:
  assumes "\<forall>c \<in> set cs. \<forall>ch. load_goal st c = Some ch \<longrightarrow> gl_status ch \<noteq> G_Cancelled \<longrightarrow> (\<forall>j. rec c j \<noteq> None)"
  shows "foldl (child_step st rec) (Some x) cs \<noteq> None"
  using assms
proof (induction cs arbitrary: x)
  case (Cons d cs)
  obtain a j where x: "x = (a, j)" by (cases x)
  have "\<exists>y. child_step st rec (Some x) d = Some y"
  proof (cases "load_goal st d")
    case (Some ch)
    then have "gl_status ch \<noteq> G_Cancelled \<Longrightarrow> \<exists>y. rec d j = Some y" using Cons.prems by simp
    then show ?thesis using Some by (auto simp: child_step_def x)
  qed (simp add: child_step_def x)
  then obtain y where "child_step st rec (Some x) d = Some y" by blast
  then show ?case using Cons by simp
qed simp

lemma fold_child_mono:
  assumes "\<And>c j r. rec c j = Some r \<Longrightarrow> rec' c j = Some r" "foldl (child_step st rec) acc cs = Some z"
  shows "foldl (child_step st rec') acc cs = Some z"
  using assms(2)
proof (induction cs arbitrary: acc)
  case (Cons d cs)
  obtain y where y: "child_step st rec acc d = Some y"
    using Cons.prems by (cases "child_step st rec acc d") simp_all
  then have "child_step st rec' acc d = Some y"
    by (auto simp: child_step_def assms(1) split: option.splits if_splits prod.splits)
  then show ?case using Cons y by simp
qed simp

lemma judge_tree_mono:
  "judge_tree_completion rnd t conv st n i j = Some r \<Longrightarrow> judge_tree_completion rnd t conv st (Suc n) i j = Some r"
proof (induction n arbitrary: i j r)
  case (Suc n)
  show ?case
  proof (cases "load_goal st i")
    case (Some g)
    note mono = fold_child_mono[where rec = "judge_tree_completion rnd t conv st n"
        and rec' = "judge_tree_completion rnd t conv st (Suc n)", OF Suc.IH]
    show ?thesis using Suc.prems mono Some
      by (auto simp: judge_tree_Suc split: if_splits option.splits dest!: mono)
  qed (use Suc.prems in \<open>simp add: judge_tree_Suc\<close>)
qed simp

lemma judge_tree_depth_irrelevant:
  "judge_tree_completion rnd t conv st n i j = Some r \<Longrightarrow> n \<le> m \<Longrightarrow> judge_tree_completion rnd t conv st m i j = Some r"
  by (induction m) (auto simp: le_Suc_eq intro: judge_tree_mono)

lemma cycle_below_child: "cycle_below st i \<Longrightarrow> \<exists>c. (i, c) \<in> open_child st \<and> cycle_below st c"
proof -
  assume "cycle_below st i"
  then obtain x where x: "(i, x) \<in> (open_child st)\<^sup>*" "(x, x) \<in> (open_child st)\<^sup>+" by (auto simp: cycle_below_def)
  then have "(i, x) \<in> (open_child st)\<^sup>+" by (rule rtrancl_trancl_trancl)
  then obtain c where "(i, c) \<in> open_child st" "(c, x) \<in> (open_child st)\<^sup>*" by (auto dest: tranclD)
  then show ?thesis using x(2) by (auto simp: cycle_below_def)
qed

lemma judge_tree_cycle: "cycle_below st i \<Longrightarrow> judge_tree_completion rnd t conv st n i j = None"
proof (induction n arbitrary: i j)
  case (Suc n)
  obtain c where c: "(i, c) \<in> open_child st" "cycle_below st c" using cycle_below_child[OF Suc.prems] by blast
  then obtain g ch where g: "load_goal st i = Some g" "c \<in> set (gl_children_ids g)" "load_goal st c = Some ch"
      "gl_status ch \<noteq> G_Cancelled" by (auto simp: open_child_def)
  have "foldl (child_step st (judge_tree_completion rnd t conv st n)) acc (gl_children_ids g) = None" for acc
    by (rule fold_child_None[OF g(2-4)]) (rule Suc.IH[OF c(2)])
  then show ?case using g(1,2) by (auto simp: judge_tree_Suc)
qed simp

lemma below_finite: "finite (below st i)" "card (below st i) \<le> length (st_goals st)"
proof -
  have sub: "below st i \<subseteq> set (map fst (st_goals st))"
    unfolding below_def by (auto simp: open_child_def load_goal_def dest!: tranclD2 map_of_SomeD intro: rev_image_eqI)
  then show "finite (below st i)" by (rule finite_subset) simp
  have "card (below st i) \<le> card (set (map fst (st_goals st)))" using sub by (intro card_mono) simp_all
  also have "\<dots> \<le> length (st_goals st)" using card_length[of "map fst (st_goals st)"] by simp
  finally show "card (below st i) \<le> length (st_goals st)" .
qed

lemma below_child:
  assumes "\<not> cycle_below st i" "(i, c) \<in> open_child st"
  shows "\<not> cycle_below st c" "card (below st c) < card (below st i)"
proof -
  show "\<not> cycle_below st c" using assms by (auto simp: cycle_below_def intro: converse_rtrancl_into_rtrancl)
  have "c \<notin> below st c" using assms by (auto simp: below_def cycle_below_def)
  moreover have "c \<in> below st i" "below st c \<subseteq> below st i"
    using assms(2) by (auto simp: below_def intro: trancl_into_trancl2)
  ultimately have "below st c \<subset> below st i" by blast
  then show "card (below st c) < card (below st i)" by (intro psubset_card_mono below_finite)
qed

lemma judge_tree_enough:
  "\<not> cycle_below st i \<Longrightarrow> card (below st i) < n \<Longrightarrow> judge_tree_completion rnd t conv st n i j \<noteq> None"
proof (induction n arbitrary: i j)
  case (Suc n)
  have fold: "\<exists>y. foldl (child_step st (judge_tree_completion rnd t conv st n)) (Some x) (gl_children_ids g) = Some y"
    if g: "load_goal st i = Some g" for x g
  proof -
    have "judge_tree_completion rnd t conv st n c j' \<noteq> None"
      if c: "c \<in> set (gl_children_ids g)" "load_goal st c = Some ch" "gl_status ch \<noteq> G_Cancelled" for c ch j'
      using Suc.prems below_child[OF Suc.prems(1) open_childI[OF g c]] by (intro Suc.IH) simp_all
    then have "foldl (child_step st (judge_tree_completion rnd t conv st n)) (Some x) (gl_children_ids g) \<noteq> None"
      by (intro fold_child_Some) blast
    then show ?thesis by simp
  qed
  show ?case
  proof (cases "load_goal st i")
    case (Some g)
    obtain y where "foldl (child_step st (judge_tree_completion rnd t conv st n))
        (Some (\<lparr>ta_blocking = [], ta_low = [], ta_needs = False\<rparr>, j)) (gl_children_ids g) = Some y"
      using fold[OF Some] by blast
    then show ?thesis using Some by (simp add: judge_tree_Suc split: prod.splits)
  qed (simp add: judge_tree_Suc)
qed simp

text \<open>
  C29. The judgement of a tree returns exactly when no cycle of child links (through goals that are
  not cancelled) can be reached from the root. Without a cycle a recursion depth of the number of
  stored goals plus one is enough, and the answer is the same for every greater depth; with one no
  depth is enough, so the code recurses without end.
\<close>
theorem tree_judgement_returns_iff_acyclic:
  "if \<exists>x. (rootId, x) \<in> (open_child st)\<^sup>* \<and> (x, x) \<in> (open_child st)\<^sup>+
   then \<forall>depth. judge_tree_completion rnd t conv st depth rootId j = None
   else \<exists>r. \<forall>depth > length (st_goals st). judge_tree_completion rnd t conv st depth rootId j = Some r"
proof (cases "cycle_below st rootId")
  case True
  then show ?thesis using judge_tree_cycle unfolding cycle_below_def by simp
next
  case False
  let ?n = "Suc (length (st_goals st))"
  obtain r where "judge_tree_completion rnd t conv st ?n rootId j = Some r"
    using judge_tree_enough[OF False, of ?n rnd t conv j] below_finite(2)[of st rootId] by (auto simp: less_Suc_eq_le)
  then show ?thesis using False judge_tree_depth_irrelevant[of rnd t conv st ?n rootId j r]
    unfolding cycle_below_def by (auto simp: Suc_le_eq)
qed

section \<open>The judgement of a tree of leaves\<close>

lemma push_new_Nil_iff: "push_new xs ys = [] \<longleftrightarrow> xs = [] \<and> ys = []"
proof -
  have keep: "push_new xs ys \<noteq> []" if "xs \<noteq> []" for xs ys
    using that unfolding push_new_def by (induction ys arbitrary: xs) simp_all
  show ?thesis
  proof (cases ys)
    case (Cons y zs)
    then show ?thesis using keep[of "if y \<in> set xs then xs else xs @ [y]" zs]
      by (cases "xs = []") (auto simp: push_new_def)
  qed (simp add: push_new_def)
qed

definition clear_acc :: "tree_acc \<Rightarrow> bool" where
  "clear_acc a \<longleftrightarrow> ta_blocking a = [] \<and> ta_low a = []"

lemma merge_leaf:
  "clear_acc (merge_child (fst (is_goal_complete rnd t conv g j)) a) \<longleftrightarrow> clear_acc a \<and> goal_met rnd conv g"
proof -
  let ?r = "fst (is_goal_complete rnd t conv g j)"
  have "cj_is_complete ?r \<Longrightarrow> goal_met rnd conv g" by (auto simp: goal_complete_result goal_met_def)
  moreover have "cj_blocking_dimensions ?r = [] \<and> cj_low_confidence_dimensions ?r = [] \<longleftrightarrow> goal_met rnd conv g"
    by (auto simp: is_goal_complete_def Let_def goal_met_def list_all_iff filter_empty_conv)
  ultimately show ?thesis by (auto simp: merge_child_def clear_acc_def Let_def push_new_Nil_iff)
qed

lemma fold_leaves:
  assumes "\<forall>c \<in> set cs. \<exists>ch. load_goal st c = Some ch \<and> gl_children_ids ch = [] \<and> gl_status ch \<noteq> G_Cancelled"
  shows "\<exists>a' j'. foldl (child_step st (judge_tree_completion rnd t conv st (Suc n))) (Some (a, j)) cs = Some (a', j') \<and>
           (clear_acc a' \<longleftrightarrow> clear_acc a \<and> (\<forall>c \<in> set cs. goal_met rnd conv (the (load_goal st c))))"
  using assms
proof (induction cs arbitrary: a j)
  case (Cons c cs)
  obtain ch where ch: "load_goal st c = Some ch" "gl_children_ids ch = []" "gl_status ch \<noteq> G_Cancelled"
    using Cons.prems by (metis list.set_intros(1))
  have rest: "\<forall>c \<in> set cs. \<exists>ch. load_goal st c = Some ch \<and> gl_children_ids ch = [] \<and> gl_status ch \<noteq> G_Cancelled"
    using Cons.prems by (metis list.set_intros(2))
  let ?p = "is_goal_complete rnd t conv ch j"
  have "child_step st (judge_tree_completion rnd t conv st (Suc n)) (Some (a, j)) c = Some (merge_child (fst ?p) a, snd ?p)"
    using ch by (simp add: child_step_def judge_tree_Suc case_prod_beta)
  moreover obtain a' j' where
    "foldl (child_step st (judge_tree_completion rnd t conv st (Suc n))) (Some (merge_child (fst ?p) a, snd ?p)) cs = Some (a', j')"
    "clear_acc a' \<longleftrightarrow> clear_acc (merge_child (fst ?p) a) \<and> (\<forall>c \<in> set cs. goal_met rnd conv (the (load_goal st c)))"
    using Cons.IH[OF rest] by blast
  ultimately show ?case using ch(1) by (simp add: merge_leaf)
qed simp

text \<open>
  The second check is skipped in a tree. A root with children that are leaves is judged complete
  at the very first look as soon as every leaf is met, whatever the judge has seen before, although
  each of these leaves alone is not complete at a first look: a leaf that waits for its second
  check reports no blocking dimension, and the root looks at nothing else.
\<close>
lemma tree_completes_without_second_check:
  assumes "load_goal st rootId = Some g" "gl_children_ids g \<noteq> []"
    "\<forall>c \<in> set (gl_children_ids g). \<exists>ch. load_goal st c = Some ch \<and> gl_children_ids ch = [] \<and>
       gl_status ch \<noteq> G_Cancelled \<and> gl_dimensions ch \<noteq> []"
  shows "(\<exists>r j'. judge_tree_completion rnd t conv st (Suc (Suc depth)) rootId j = Some (r, j') \<and>
            (cj_is_complete r \<longleftrightarrow> (\<forall>c \<in> set (gl_children_ids g). goal_met rnd conv (the (load_goal st c))))) \<and>
         (\<forall>c \<in> set (gl_children_ids g).
            \<not> cj_is_complete (fst (is_goal_complete rnd t conv (the (load_goal st c)) fresh_judge)))"
proof -
  have leaves: "\<forall>c \<in> set (gl_children_ids g). \<exists>ch. load_goal st c = Some ch \<and> gl_children_ids ch = [] \<and> gl_status ch \<noteq> G_Cancelled"
    using assms(3) by blast
  obtain a' j' where f: "foldl (child_step st (judge_tree_completion rnd t conv st (Suc depth)))
        (Some (\<lparr>ta_blocking = [], ta_low = [], ta_needs = False\<rparr>, j)) (gl_children_ids g) = Some (a', j')"
    and "clear_acc a' \<longleftrightarrow> (\<forall>c \<in> set (gl_children_ids g). goal_met rnd conv (the (load_goal st c)))"
    using fold_leaves[OF leaves] by (fastforce simp: clear_acc_def)
  moreover have "judge_tree_completion rnd t conv st (Suc (Suc depth)) rootId j =
      Some (\<lparr>cj_is_complete = clear_acc a', cj_blocking_dimensions = ta_blocking a',
             cj_low_confidence_dimensions = ta_low a', cj_needs_verification_task = ta_needs a', cj_checked_at = t\<rparr>, j')"
    using assms(1,2) f by (simp add: judge_tree_Suc[of rnd t conv st "Suc depth"] clear_acc_def)
  moreover have "\<forall>c \<in> set (gl_children_ids g).
      \<not> cj_is_complete (fst (is_goal_complete rnd t conv (the (load_goal st c)) fresh_judge))"
    using assms(3) by (fastforce simp: goal_complete_result streak_of_def fresh_judge_def)
  ultimately show ?thesis by simp
qed

definition tree_store :: goal_store where
  "tree_store = \<lparr>st_goals = [(''root'', sample_goal ''root'' [] [''leaf'']),
     (''leaf'', sample_goal ''leaf'' [sample_dimension (T_Min 80) (VNum (Fin 90))] [])], st_fence = (\<lambda>_. None)\<rparr>"

section \<open>What propagation does to the parent\<close>

lemma satisfied_value_satisfies:
  assumes "ieee_rounding rnd" "threshold_wf rnd (dm_threshold d)" "threshold_sane (dm_threshold d)"
  shows "is_satisfied_raw rnd (set_current_value (get_satisfied_value rnd d) now d)"
proof (cases "dm_threshold d")
  case (T_Range l h)
  then show ?thesis using assms ieee_rounding.midpoint_between[OF assms(1), of l h]
    by (simp add: is_satisfied_raw_def is_satisfied_value_def set_current_value_def get_satisfied_value_def)
next
  case (T_Match m)
  then show ?thesis using assms(2)
    by (cases m) (auto simp: is_satisfied_raw_def is_satisfied_value_def set_current_value_def get_satisfied_value_def
        split: js_number.splits)
qed (simp_all add: is_satisfied_raw_def is_satisfied_value_def set_current_value_def get_satisfied_value_def)

lemma satisfied_value_json:
  "threshold_wf rnd (dm_threshold d) \<Longrightarrow> json_value (get_satisfied_value rnd d) = get_satisfied_value rnd d"
  by (cases "dm_threshold d") (auto simp: get_satisfied_value_def split: js_value.splits js_number.splits)

lemma satisfy_first_split:
  "list_ex (matches_name n) ds \<Longrightarrow>
   \<exists>xs d ys. ds = xs @ d # ys \<and> (\<forall>x \<in> set xs. \<not> matches_name n x) \<and> matches_name n d \<and>
     satisfy_first rnd now n ds = xs @ set_current_value (get_satisfied_value rnd d) now d # ys"
proof (induction ds)
  case (Cons d ds)
  show ?case
  proof (cases "matches_name n d")
    case True
    then show ?thesis by (intro exI[of _ "[]"] exI[of _ d] exI[of _ ds]) simp
  next
    case False
    then obtain xs e ys where "ds = xs @ e # ys" "\<forall>x \<in> set xs. \<not> matches_name n x" "matches_name n e"
      "satisfy_first rnd now n ds = xs @ set_current_value (get_satisfied_value rnd e) now e # ys"
      using Cons by auto
    then show ?thesis using False by (intro exI[of _ "d # xs"] exI[of _ e] exI[of _ ys]) simp
  qed
qed simp

lemma json_goal_dimensions:
  "json_goal g = g \<Longrightarrow> d \<in> set (gl_dimensions g) \<Longrightarrow> d\<lparr>dm_current_value := json_value (dm_current_value d)\<rparr> = d"
proof -
  assume g: "json_goal g = g" and d: "d \<in> set (gl_dimensions g)"
  have "map (\<lambda>d. d\<lparr>dm_current_value := json_value (dm_current_value d)\<rparr>) (gl_dimensions g) = map (\<lambda>d. d) (gl_dimensions g)"
    using arg_cong[OF g, of gl_dimensions] by (simp add: json_goal_def)
  then show ?thesis using d by (simp only: map_eq_conv)
qed

text \<open>
  Propagating a completed subgoal satisfies its dimension of the parent and nothing else: when
  the save succeeds, the stored parent is the old one with the first dimension whose name is or
  contains the id of the subgoal set to a value that satisfies its threshold (the midpoint, for a
  range). With no such dimension nothing is stored, and with no parent the call throws.
\<close>
lemma propagation_satisfies_first_match:
  assumes "ieee_rounding rnd" "store_ok st" "load_goal st parentId = Some p"
    "\<forall>d \<in> set (gl_dimensions p). threshold_wf rnd (dm_threshold d) \<and> threshold_sane (dm_threshold d)"
    "propagate_subgoal_completion rnd now subId parentId None st = (Inr (), st')"
  shows "if list_ex (matches_name subId) (gl_dimensions p)
         then \<exists>xs d ys d'. gl_dimensions p = xs @ d # ys \<and> (\<forall>x \<in> set xs. \<not> matches_name subId x) \<and>
                matches_name subId d \<and> is_satisfied_raw rnd d' \<and>
                d' = d\<lparr>dm_current_value := dm_current_value d', dm_last_updated := Some now\<rparr> \<and>
                load_goal st' parentId = Some (p\<lparr>gl_dimensions := xs @ d' # ys, gl_updated_at := now\<rparr>) \<and>
                (\<forall>i. i \<noteq> parentId \<longrightarrow> load_goal st' i = load_goal st i)
         else st' = st"
proof (cases "list_ex (matches_name subId) (gl_dimensions p)")
  case True
  note p = store_okD[OF assms(2,3)]
  obtain xs d ys where split: "gl_dimensions p = xs @ d # ys" "\<forall>x \<in> set xs. \<not> matches_name subId x" "matches_name subId d"
    "satisfy_first rnd now subId (gl_dimensions p) = xs @ set_current_value (get_satisfied_value rnd d) now d # ys"
    using satisfy_first_split[OF True, of rnd now] by metis
  let ?d = "set_current_value (get_satisfied_value rnd d) now d"
  let ?p = "p\<lparr>gl_dimensions := xs @ ?d # ys, gl_updated_at := now\<rparr>"
  have d: "threshold_wf rnd (dm_threshold d)" "threshold_sane (dm_threshold d)" using assms(4) split(1) by auto
  have "save_goal ?p st = (Inr (), st')"
    using assms(3,5) True split(4) by (simp add: propagate_subgoal_completion_def)
  then have st': "st' = put_goal ?p st" by (cases rule: save_goal_cases[of ?p st]) auto
  have "x\<lparr>dm_current_value := json_value (dm_current_value x)\<rparr> = x" if "x \<in> set xs \<union> set ys" for x
    using json_goal_dimensions[of p x] p split(1) that by auto
  then have "json_goal ?p = ?p"
    using satisfied_value_json[OF d(1)] by (simp add: json_goal_def set_current_value_def map_idI)
  then have load: "load_goal st' i = (if i = parentId then Some ?p else load_goal st i)" for i
    using p by (simp add: st' load_put_goal)
  have stored: "load_goal st' parentId = Some ?p" and others: "\<forall>i. i \<noteq> parentId \<longrightarrow> load_goal st' i = load_goal st i"
    by (simp_all add: load)
  have upd: "?d = d\<lparr>dm_current_value := dm_current_value ?d, dm_last_updated := Some now\<rparr>"
    by (simp add: set_current_value_def)
  show ?thesis unfolding if_P[OF True]
    by (rule exI[of _ xs], rule exI[of _ d], rule exI[of _ ys], rule exI[of _ ?d])
      (intro conjI split(1-3) satisfied_value_satisfies[OF assms(1) d] upd stored others)
next
  case False
  then show ?thesis using assms(3,5) by (simp add: propagate_subgoal_completion_def)
qed

definition parent_store :: goal_store where
  "parent_store = \<lparr>st_goals = [(''root'', sample_goal ''root'' [sample_dimension (T_Min 80) (VNum (Fin 10))] [''leaf''])],
     st_fence = (\<lambda>_. None)\<rparr>"

definition propagated_store :: goal_store where
  "propagated_store = snd (propagate_subgoal_completion (\<lambda>x. x) (Iso 5) ''cover'' ''root'' None parent_store)"

text \<open>A goal that is its own grandchild is read once.\<close>

definition looped_store :: goal_store where
  "looped_store = \<lparr>st_goals = [(''root'', sample_goal ''root'' [] [''leaf'', ''gone'']), (''leaf'', sample_goal ''leaf'' [] [''root''])],
     st_fence = (\<lambda>_. None)\<rparr>"

theorem goal_tree_is_reachable_goals_witness:
  "\<exists>gs. get_goal_tree looped_store ''root'' = Some (sample_goal ''root'' [] [''leaf'', ''gone''] # gs) \<and>
     distinct (goal_ids (sample_goal ''root'' [] [''leaf'', ''gone''] # gs)) \<and>
     set (goal_ids (sample_goal ''root'' [] [''leaf'', ''gone''] # gs)) =
       {i \<in> stored looped_store. (''root'', i) \<in> (child_rel looped_store)\<^sup>*}"
proof -
  have ok: "store_ok looped_store"
    by (auto simp: store_ok_def looped_store_def load_goal_def table_wf_def sample_goal_def goal_valid_def
        json_goal_def split: if_splits)
  have ld: "load_goal looped_store ''root'' = Some (sample_goal ''root'' [] [''leaf'', ''gone''])"
    by (simp add: looped_store_def load_goal_def)
  from goal_tree_is_reachable_goals[OF ok, of "''root''"] show ?thesis
    unfolding ld option.case by blast
qed

theorem tree_judgement_returns_iff_acyclic_witness:
  "\<forall>depth. judge_tree_completion (\<lambda>x. x) (Iso 0) None looped_store depth ''root'' fresh_judge = None"
proof -
  have "(''root'', ''leaf'') \<in> open_child looped_store" "(''leaf'', ''root'') \<in> open_child looped_store"
    by (auto simp: open_child_def looped_store_def load_goal_def sample_goal_def)
  then have "\<exists>x. (''root'', x) \<in> (open_child looped_store)\<^sup>* \<and> (x, x) \<in> (open_child looped_store)\<^sup>+"
    by (blast intro: trancl_into_trancl2 r_into_trancl)
  then show ?thesis
    using tree_judgement_returns_iff_acyclic[of "''root''" looped_store "\<lambda>x. x" "Iso 0" None fresh_judge] by simp
qed

end
