(* ===== verification/Goal_Tree.thy ===== *)
theory Goal_Tree
  imports Goal_Completion
begin

text \<open>
  The goal tree: \<open>orchestrator/goal/state-aggregator.ts\<close> (rolling child states up, pushing
  constraints and deadlines down, the completion cascade) and \<open>goal-tree-pruner.ts\<close>.

  Every function runs on one store without another writer in between. The walk up the parent links
  is a loop that need not end: \<open>check_completion_cascade\<close> is a partial function whose value
  \<open>None\<close> says so. The recursion of the pruner over child links counts its depth down, as in
  \<open>Goal_Completion\<close>.
\<close>

section \<open>Upward aggregation\<close>

definition dimension_gap_simple :: "(rat \<Rightarrow> rat) \<Rightarrow> dimension \<Rightarrow> rat" where
  "dimension_gap_simple rnd d =
     (if dm_current_value d = VNull then 1
      else case dimension_progress rnd (Some (dm_current_value d)) (Some (dm_threshold d)) of
             None \<Rightarrow> 1 | Some p \<Rightarrow> rnd (1 - p))"

definition is_closed_status :: "goal_status \<Rightarrow> bool" where
  "is_closed_status s \<longleftrightarrow> s = G_Completed \<or> s = G_Cancelled \<or> s = G_Abandoned"

definition compute_child_gap :: "(rat \<Rightarrow> rat) \<Rightarrow> goal \<Rightarrow> rat" where
  "compute_child_gap rnd g =
     (if gl_dimensions g = [] then 0
      else if is_closed_status (gl_status g) then 0
      else min 1 (max 0 (js_mean rnd (map (dimension_gap_simple rnd) (gl_dimensions g)))))"

definition min_child_confidence :: "goal \<Rightarrow> rat" where
  "min_child_confidence g = (if gl_dimensions g = [] then 1 else js_min (map dm_confidence (gl_dimensions g)))"

record aggregated_state =
  as_parent_id :: string
  as_aggregated_gap :: rat
  as_aggregated_confidence :: rat
  as_child_gaps :: "(string, rat) table"
  as_child_completions :: "(string, bool) table"
  as_aggregation_method :: aggregation
  as_timestamp :: timestamp

text \<open>The aggregation rules registered so far, by parent id.\<close>

type_synonym aggregation_rules = "(string, aggregation) table"

definition register_aggregation_rule :: "string \<Rightarrow> aggregation \<Rightarrow> aggregation_rules \<Rightarrow> aggregation_rules" where
  "register_aggregation_rule parentId a rules = table_put parentId a rules"

definition resolve_aggregation_method :: "aggregation_rules \<Rightarrow> string \<Rightarrow> aggregation" where
  "resolve_aggregation_method rules parentId = nullish (table_get rules parentId) Agg_Min"

definition child_gap_in :: "(rat \<Rightarrow> rat) \<Rightarrow> goal_store \<Rightarrow> string \<Rightarrow> rat" where
  "child_gap_in rnd st c = (case load_goal st c of None \<Rightarrow> 1 | Some g \<Rightarrow> compute_child_gap rnd g)"

definition child_confidence_in :: "goal_store \<Rightarrow> string \<Rightarrow> rat" where
  "child_confidence_in st c = (case load_goal st c of None \<Rightarrow> 0 | Some g \<Rightarrow> min_child_confidence g)"

definition child_completed_in :: "goal_store \<Rightarrow> string \<Rightarrow> bool" where
  "child_completed_in st c = (case load_goal st c of None \<Rightarrow> False | Some g \<Rightarrow> gl_status g = G_Completed)"

definition child_table :: "(string \<Rightarrow> 'a) \<Rightarrow> string list \<Rightarrow> (string, 'a) table" where
  "child_table f cs = foldl (\<lambda>t c. table_put c (f c) t) [] cs"

definition aggregate_gap :: "(rat \<Rightarrow> rat) \<Rightarrow> aggregation \<Rightarrow> rat list \<Rightarrow> rat" where
  "aggregate_gap rnd a gaps =
     (if gaps = [] then 0
      else if a = Agg_All_Required then rnd (1 - aggregate_values rnd (map (\<lambda>g. rnd (1 - g)) gaps) a)
      else aggregate_values rnd gaps a)"

definition synthetic_value :: "(rat \<Rightarrow> rat) \<Rightarrow> rat \<Rightarrow> threshold \<Rightarrow> rat option" where
  "synthetic_value rnd gap t = (case t of
     T_Min v \<Rightarrow> Some (rnd (v * rnd (1 - gap)))
   | T_Max v \<Rightarrow> Some (rnd (v * rnd (1 + gap)))
   | T_Range l h \<Rightarrow> Some (rnd (rnd (rnd (l + h) / 2) * rnd (1 - gap)))
   | _ \<Rightarrow> None)"

definition synthesize_dimension :: "(rat \<Rightarrow> rat) \<Rightarrow> timestamp \<Rightarrow> rat \<Rightarrow> rat \<Rightarrow> dimension \<Rightarrow> dimension" where
  "synthesize_dimension rnd now gap confidence d = (case synthetic_value rnd gap (dm_threshold d) of
     None \<Rightarrow> d
   | Some x \<Rightarrow> d\<lparr>dm_current_value := VNum (Fin x), dm_confidence := confidence, dm_last_updated := Some now\<rparr>)"

definition aggregate_child_states ::
  "(rat \<Rightarrow> rat) \<Rightarrow> timestamp \<Rightarrow> aggregation_rules \<Rightarrow> string \<Rightarrow> goal_store \<Rightarrow> aggregated_state result \<times> goal_store" where
  "aggregate_child_states rnd now rules parentId st = (case load_goal st parentId of
     None \<Rightarrow> (Inl (Thrown (''StateAggregator.aggregateChildStates: parent goal '' @ [CHR 0x22] @ parentId @
                          [CHR 0x22] @ '' not found'')), st)
   | Some parent \<Rightarrow>
       (let cs = gl_children_ids parent;
            gaps = child_table (child_gap_in rnd st) cs;
            method = resolve_aggregation_method rules parentId;
            gap = min 1 (max 0 (aggregate_gap rnd method (map (\<lambda>c. nullish (table_get gaps c) 1) cs)));
            confidence = (if cs = [] then 1 else js_min (map (child_confidence_in st) cs));
            res = \<lparr>as_parent_id = parentId, as_aggregated_gap = gap, as_aggregated_confidence = confidence,
                   as_child_gaps = gaps, as_child_completions = child_table (child_completed_in st) cs,
                   as_aggregation_method = method, as_timestamp = now\<rparr>
        in if cs \<noteq> [] \<and> gl_dimensions parent \<noteq> []
           then (case save_goal (parent\<lparr>gl_dimensions := map (synthesize_dimension rnd now gap confidence) (gl_dimensions parent),
                                        gl_updated_at := now\<rparr>) st of
                   (Inl e, st') \<Rightarrow> (Inl e, st')
                 | (Inr _, st') \<Rightarrow> (Inr res, st'))
           else (Inr res, st)))"

section \<open>Downward propagation\<close>

definition parse_deadline_ms :: "timestamp option \<Rightarrow> int option" where
  "parse_deadline_ms d = (case d of None \<Rightarrow> None | Some t \<Rightarrow> date_parse t)"

text \<open>The new deadline of a child, or the error of \<open>toISOString\<close>.\<close>

definition child_deadline :: "int \<Rightarrow> int option \<Rightarrow> timestamp option \<Rightarrow> timestamp option result" where
  "child_deadline now parentMs deadline = (case (parentMs, parse_deadline_ms deadline) of
     (Some pm, Some cm) \<Rightarrow>
       (let pr = pm - now; cr = cm - now
        in if pr > 0 \<and> cr \<noteq> pr then result_bind (to_iso (now + min cr pr)) (\<lambda>t. Inr (Some t)) else Inr deadline)
   | _ \<Rightarrow> Inr deadline)"

definition propagate_to_child :: "int \<Rightarrow> goal \<Rightarrow> string \<Rightarrow> goal_store \<Rightarrow> unit result \<times> goal_store" where
  "propagate_to_child now parent c st = (case load_goal st c of
     None \<Rightarrow> (Inr (), st)
   | Some child \<Rightarrow>
       (let fresh = filter (\<lambda>x. x \<notin> set (gl_constraints child)) (gl_constraints parent);
            constraints = gl_constraints child @ fresh
        in case child_deadline now (parse_deadline_ms (gl_deadline parent)) (gl_deadline child) of
             Inl e \<Rightarrow> (Inl e, st)
           | Inr deadline \<Rightarrow>
               if fresh \<noteq> [] \<or> deadline \<noteq> gl_deadline child
               then save_goal (child\<lparr>gl_constraints := constraints, gl_deadline := deadline, gl_updated_at := Iso now\<rparr>) st
               else (Inr (), st)))"

fun propagate_to_children :: "int \<Rightarrow> goal \<Rightarrow> string list \<Rightarrow> goal_store \<Rightarrow> unit result \<times> goal_store" where
  "propagate_to_children now parent [] st = (Inr (), st)"
| "propagate_to_children now parent (c # cs) st = (case propagate_to_child now parent c st of
     (Inl e, st') \<Rightarrow> (Inl e, st')
   | (Inr _, st') \<Rightarrow> propagate_to_children now parent cs st')"

definition propagate_state_down :: "int \<Rightarrow> string \<Rightarrow> goal_store \<Rightarrow> unit result \<times> goal_store" where
  "propagate_state_down now parentId st = (case load_goal st parentId of
     None \<Rightarrow> (Inl (Thrown (''StateAggregator.propagateStateDown: parent goal '' @ [CHR 0x22] @ parentId @
                          [CHR 0x22] @ '' not found'')), st)
   | Some parent \<Rightarrow> propagate_to_children now parent (gl_children_ids parent) st)"

section \<open>The completion cascade\<close>

definition child_done :: "goal_store \<Rightarrow> string list \<Rightarrow> string \<Rightarrow> bool" where
  "child_done st done c \<longleftrightarrow> c \<in> set done \<or>
     (case load_goal st c of None \<Rightarrow> False | Some g \<Rightarrow> is_closed_status (gl_status g))"

text \<open>One round of the loop: the parent that becomes completable, if there is one.\<close>

definition cascade_next :: "goal_store \<Rightarrow> string list \<Rightarrow> string \<Rightarrow> string option" where
  "cascade_next st done i = (case load_goal st i of
     None \<Rightarrow> None
   | Some g \<Rightarrow> (case gl_parent_id g of
       None \<Rightarrow> None
     | Some p \<Rightarrow> (case load_goal st p of
         None \<Rightarrow> None
       | Some pg \<Rightarrow> if list_all (child_done st done) (gl_children_ids pg) then Some p else None)))"

partial_function (option) cascade :: "goal_store \<Rightarrow> string list \<Rightarrow> string list \<Rightarrow> string \<Rightarrow> string list option" where
  "cascade st done completable i = (case cascade_next st done i of
     None \<Rightarrow> Some completable
   | Some p \<Rightarrow> cascade st (p # done) (completable @ [p]) p)"

definition check_completion_cascade :: "goal_store \<Rightarrow> string \<Rightarrow> string list option" where
  "check_completion_cascade st i = cascade st [i] [] i"

section \<open>Pruning\<close>

datatype prune_reason = Prune_No_Progress | Prune_Superseded | Prune_Merged | Prune_User_Requested

record prune_decision =
  pd_goal_id :: string
  pd_reason :: prune_reason
  pd_replacement_id :: "string option"

record prune_record =
  pr_subgoal_id :: string
  pr_reason :: string
  pr_timestamp :: timestamp

text \<open>\<open>cancelGoalAndDescendants\<close>; the loop over the children around the recursive call.\<close>

fun cancel_children ::
  "(goal \<Rightarrow> goal_store \<Rightarrow> (unit result \<times> goal_store) option) \<Rightarrow> string list \<Rightarrow> goal_store \<Rightarrow> (unit result \<times> goal_store) option" where
  "cancel_children rec [] st = Some (Inr (), st)"
| "cancel_children rec (c # cs) st = (case load_goal st c of
     None \<Rightarrow> cancel_children rec cs st
   | Some child \<Rightarrow> (case rec child st of
       None \<Rightarrow> None
     | Some (Inl e, st') \<Rightarrow> Some (Inl e, st')
     | Some (Inr _, st') \<Rightarrow> cancel_children rec cs st'))"

primrec cancel_goal_and_descendants ::
  "timestamp \<Rightarrow> nat \<Rightarrow> goal \<Rightarrow> goal_store \<Rightarrow> (unit result \<times> goal_store) option" where
  "cancel_goal_and_descendants now 0 = (\<lambda>g st. None)"
| "cancel_goal_and_descendants now (Suc depth) = (\<lambda>g st.
     case cancel_children (cancel_goal_and_descendants now depth) (gl_children_ids g) st of
       None \<Rightarrow> None
     | Some (Inl e, st') \<Rightarrow> Some (Inl e, st')
     | Some (Inr _, st') \<Rightarrow> Some (save_goal (g\<lparr>gl_status := G_Cancelled, gl_updated_at := now\<rparr>) st'))"

text \<open>Taking a child off the list of its parent; \<open>if (goal.parent_id)\<close> is false for an empty id.\<close>

definition unlink_from_parent :: "timestamp \<Rightarrow> string \<Rightarrow> goal \<Rightarrow> goal_store \<Rightarrow> unit result \<times> goal_store" where
  "unlink_from_parent now i g st =
     (if \<not> truthy (gl_parent_id g) then (Inr (), st)
      else case load_goal st (the (gl_parent_id g)) of
             None \<Rightarrow> (Inr (), st)
           | Some p \<Rightarrow> save_goal (p\<lparr>gl_children_ids := filter (\<lambda>c. c \<noteq> i) (gl_children_ids p), gl_updated_at := now\<rparr>) st)"

definition cancel_and_unlink :: "timestamp \<Rightarrow> nat \<Rightarrow> string \<Rightarrow> goal \<Rightarrow> goal_store \<Rightarrow> (unit result \<times> goal_store) option" where
  "cancel_and_unlink now depth i g st = (case cancel_goal_and_descendants now depth g st of
     None \<Rightarrow> None
   | Some (Inl e, st') \<Rightarrow> Some (Inl e, st')
   | Some (Inr _, st') \<Rightarrow> Some (unlink_from_parent now i g st'))"

definition prune_goal ::
  "timestamp \<Rightarrow> nat \<Rightarrow> string \<Rightarrow> prune_reason \<Rightarrow> goal_store \<Rightarrow> (prune_decision result \<times> goal_store) option" where
  "prune_goal now depth i reason st = (case load_goal st i of
     None \<Rightarrow> Some (Inl (Thrown (''GoalTreeManager.pruneGoal: goal '' @ [CHR 0x22] @ i @ [CHR 0x22] @ '' not found'')), st)
   | Some g \<Rightarrow> (case cancel_and_unlink now depth i g st of
       None \<Rightarrow> None
     | Some (Inl e, st') \<Rightarrow> Some (Inl e, st')
     | Some (Inr _, st') \<Rightarrow> Some (Inr \<lparr>pd_goal_id = i, pd_reason = reason, pd_replacement_id = None\<rparr>, st')))"

type_synonym prune_history = "(string, prune_record list) table"

definition prune_subgoal ::
  "timestamp \<Rightarrow> nat \<Rightarrow> string \<Rightarrow> string \<Rightarrow> string option \<Rightarrow> prune_history \<Rightarrow> goal_store
   \<Rightarrow> (prune_decision result \<times> prune_history \<times> goal_store) option" where
  "prune_subgoal now depth i reason parentGoalId hist st = (case load_goal st i of
     None \<Rightarrow> Some (Inl (Thrown (''GoalTreeManager.pruneSubgoal: goal '' @ [CHR 0x22] @ i @ [CHR 0x22] @ '' not found'')), hist, st)
   | Some g \<Rightarrow> (case cancel_and_unlink now depth i g st of
       None \<Rightarrow> None
     | Some (Inl e, st') \<Rightarrow> Some (Inl e, hist, st')
     | Some (Inr _, st') \<Rightarrow>
         (let key = nullish parentGoalId (nullish (gl_parent_id g) i);
              rec = \<lparr>pr_subgoal_id = i, pr_reason = reason, pr_timestamp = now\<rparr>
          in Some (Inr \<lparr>pd_goal_id = i, pd_reason = Prune_User_Requested, pd_replacement_id = None\<rparr>,
                   table_put key (nullish (table_get hist key) [] @ [rec]) hist, st'))))"

definition get_prune_history :: "string \<Rightarrow> prune_history \<Rightarrow> prune_record list" where
  "get_prune_history i hist = nullish (table_get hist i) []"

section \<open>One finished child\<close>

lemma child_table_get: "table_get (child_table f cs) c = (if c \<in> set cs then Some (f c) else None)"
proof -
  have "table_get (foldl (\<lambda>t c. table_put c (f c) t) t cs) c = (if c \<in> set cs then Some (f c) else table_get t c)" for t
    by (induction cs arbitrary: t) (auto simp: table_get_put)
  then show ?thesis by (simp add: child_table_def)
qed

lemma child_gap_unit: "0 \<le> child_gap_in rnd st c \<and> child_gap_in rnd st c \<le> 1"
  by (auto simp: child_gap_in_def compute_child_gap_def split: option.splits)

lemma synthetic_value_satisfies:
  assumes "ieee_rounding rnd" "threshold_wf rnd t" "threshold_sane t" "synthetic_value rnd 0 t = Some x"
  shows "is_satisfied_value rnd (VNum (Fin x)) t"
proof -
  note r = ieee_rounding.rnd_1[OF assms(1)] ieee_rounding.rnd_idem[OF assms(1)]
  show ?thesis
  proof (cases t)
    case (T_Range l h)
    then show ?thesis using assms(2-4) ieee_rounding.midpoint_between[OF assms(1), of l h]
      by (auto simp: synthetic_value_def is_satisfied_value_def r)
  qed (use assms(2-4) in \<open>auto simp: synthetic_value_def is_satisfied_value_def r\<close>)
qed

lemma synthesize_json:
  "json_value (dm_current_value d) = dm_current_value d \<Longrightarrow>
   json_value (dm_current_value (synthesize_dimension rnd now g c d)) = dm_current_value (synthesize_dimension rnd now g c d)"
  by (simp add: synthesize_dimension_def split: option.splits)

lemma aggregate_stored:
  assumes "store_ok st" "load_goal st i = Some p" "aggregate_child_states rnd now rules i st = (Inr res, st')"
    "gl_children_ids p \<noteq> []" "gl_dimensions p \<noteq> []"
  shows "load_goal st' i = Some (p\<lparr>gl_dimensions :=
           map (synthesize_dimension rnd now (as_aggregated_gap res) (as_aggregated_confidence res)) (gl_dimensions p),
           gl_updated_at := now\<rparr>)"
proof -
  note p = store_okD[OF assms(1,2)]
  let ?ds = "map (synthesize_dimension rnd now (as_aggregated_gap res) (as_aggregated_confidence res)) (gl_dimensions p)"
  let ?p = "p\<lparr>gl_dimensions := ?ds, gl_updated_at := now\<rparr>"
  have "save_goal ?p st = (Inr (), st')"
    using assms(2-5) by (auto simp: aggregate_child_states_def Let_def split: prod.splits sum.splits)
  then have st': "st' = put_goal ?p st" by (cases rule: save_goal_cases[of ?p st]) auto
  have "json_value (dm_current_value d) = dm_current_value d" if "d \<in> set (gl_dimensions p)" for d
    using arg_cong[OF json_goal_dimensions[of p d], of dm_current_value] p that by simp
  then have "json_goal ?p = ?p" by (simp add: json_goal_def map_idI synthesize_json)
  then show ?thesis using p by (simp add: st' load_put_goal)
qed

text \<open>
  With the default aggregation one finished child finishes the parent. The default takes the
  minimum, the documentation means the minimum of the achievements (the weakest link), but the code
  takes it of the gaps: as soon as one child is completed, cancelled or abandoned, the aggregated gap
  is 0 whatever the other children are, and the values written to the parent satisfy every one of its
  numeric dimensions.
\<close>
lemma one_finished_child_satisfies_parent:
  assumes "ieee_rounding rnd" "store_ok st" "load_goal st i = Some p" "table_get rules i = None"
    "c \<in> set (gl_children_ids p)" "load_goal st c = Some child" "is_closed_status (gl_status child)"
    "\<forall>d \<in> set (gl_dimensions p). threshold_wf rnd (dm_threshold d) \<and> threshold_sane (dm_threshold d)"
    "gl_dimensions p \<noteq> []" "aggregate_child_states rnd now rules i st = (Inr res, st')"
  shows "as_aggregated_gap res = 0 \<and>
         (\<exists>p'. load_goal st' i = Some p' \<and> length (gl_dimensions p') = length (gl_dimensions p) \<and>
           (\<forall>d \<in> set (gl_dimensions p'). is_numeric_threshold (dm_threshold d) \<longrightarrow> is_satisfied_raw rnd d))"
proof -
  let ?gaps = "map (\<lambda>c. nullish (table_get (child_table (child_gap_in rnd st) (gl_children_ids p)) c) 1) (gl_children_ids p)"
  have gaps: "?gaps = map (child_gap_in rnd st) (gl_children_ids p)" by (simp add: child_table_get)
  have zero: "child_gap_in rnd st c = 0" using assms(6,7) by (simp add: child_gap_in_def compute_child_gap_def)
  have ne: "gl_children_ids p \<noteq> []" using assms(5) by auto
  have "js_min ?gaps \<le> 0" unfolding gaps using zero assms(5) ne by (subst js_min_le_iff) (auto intro!: bexI[of _ c])
  moreover have "0 \<le> js_min ?gaps" unfolding gaps using ne by (subst js_min_ge_iff) (auto simp: child_gap_unit)
  ultimately have "aggregate_gap rnd Agg_Min ?gaps = 0"
    using ne by (simp add: aggregate_gap_def aggregate_values_def)
  then have gap: "as_aggregated_gap res = 0"
    using assms(3,4,10) by (auto simp: aggregate_child_states_def resolve_aggregation_method_def Let_def
        split: if_splits prod.splits sum.splits)
  have "is_satisfied_raw rnd (synthesize_dimension rnd now 0 cf d)"
    if d: "d \<in> set (gl_dimensions p)" "is_numeric_threshold (dm_threshold (synthesize_dimension rnd now 0 cf d))" for d cf
  proof -
    have t: "dm_threshold (synthesize_dimension rnd now 0 cf d) = dm_threshold d"
      by (simp add: synthesize_dimension_def split: option.splits)
    then obtain x where x: "synthetic_value rnd 0 (dm_threshold d) = Some x"
      using d(2) by (cases "dm_threshold d") (auto simp: synthetic_value_def is_numeric_threshold_def)
    then show ?thesis using synthetic_value_satisfies[OF assms(1) _ _ x] assms(8) d(1)
      by (simp add: is_satisfied_raw_def synthesize_dimension_def)
  qed
  then show ?thesis using aggregate_stored[OF assms(2,3,10) ne assms(9)] gap by auto
qed

definition mixed_store :: goal_store where
  "mixed_store = \<lparr>st_goals =
     [(''p'', sample_goal ''p'' [sample_dimension (T_Min 80) (VNum (Fin 10))] [''a'', ''b'']),
      (''a'', (sample_goal ''a'' [] [])\<lparr>gl_status := G_Cancelled, gl_parent_id := Some ''p''\<rparr>),
      (''b'', (sample_goal ''b'' [sample_dimension (T_Min 80) VNull] [])\<lparr>gl_parent_id := Some ''p''\<rparr>)], st_fence = (\<lambda>_. None)\<rparr>"

definition mixed_result :: "aggregated_state result \<times> goal_store" where
  "mixed_result = aggregate_child_states (\<lambda>x. x) (Iso 1) [] ''p'' mixed_store"

lemma mixed_store_ok: "store_ok mixed_store"
  by (auto simp: store_ok_def mixed_store_def load_goal_def table_wf_def sample_goal_def goal_valid_def
      dimension_valid_def sample_dimension_def json_goal_def)

section \<open>Constraints and deadlines go down\<close>

definition inherits :: "int \<Rightarrow> goal \<Rightarrow> goal \<Rightarrow> bool" where
  "inherits now parent child \<longleftrightarrow> set (gl_constraints parent) \<subseteq> set (gl_constraints child) \<and>
     (\<forall>pm cm. parse_deadline_ms (gl_deadline parent) = Some pm \<longrightarrow> now < pm \<longrightarrow>
        parse_deadline_ms (gl_deadline child) = Some cm \<longrightarrow> cm \<le> pm)"

lemma child_deadline_bound:
  assumes "child_deadline now parentMs dl = Inr dl'" "parentMs = Some pm" "now < pm" "parse_deadline_ms dl' = Some cm"
  shows "cm \<le> pm"
proof (cases "parse_deadline_ms dl")
  case None
  then show ?thesis using assms by (simp add: child_deadline_def)
next
  case (Some m)
  then show ?thesis using assms
    by (auto simp: child_deadline_def Let_def result_bind_Inr_iff to_iso_def parse_deadline_ms_def split: if_splits)
qed

lemma propagate_to_child_step:
  assumes "store_ok st" "propagate_to_child now p c st = (Inr u, st1)"
  shows "store_ok st1" "j \<noteq> c \<Longrightarrow> load_goal st1 j = load_goal st j"
    "load_goal st1 c = Some ch \<Longrightarrow> inherits now p ch"
proof -
  consider (missing) "load_goal st c = None" "st1 = st"
    | (kept) child where "load_goal st c = Some child" "st1 = st"
        "filter (\<lambda>x. x \<notin> set (gl_constraints child)) (gl_constraints p) = []"
        "child_deadline now (parse_deadline_ms (gl_deadline p)) (gl_deadline child) = Inr (gl_deadline child)"
    | (saved) child dl g where "load_goal st c = Some child" "st1 = put_goal g st" "goal_valid g"
        "child_deadline now (parse_deadline_ms (gl_deadline p)) (gl_deadline child) = Inr dl"
        "g = child\<lparr>gl_constraints := gl_constraints child @ filter (\<lambda>x. x \<notin> set (gl_constraints child)) (gl_constraints p),
                   gl_deadline := dl, gl_updated_at := Iso now\<rparr>"
  proof (cases "load_goal st c")
    case None
    then show ?thesis using assms(2) by (intro missing) (simp_all add: propagate_to_child_def)
  next
    case (Some child)
    let ?fresh = "filter (\<lambda>x. x \<notin> set (gl_constraints child)) (gl_constraints p)"
    obtain dl where dl: "child_deadline now (parse_deadline_ms (gl_deadline p)) (gl_deadline child) = Inr dl"
      using assms(2) Some by (auto simp: propagate_to_child_def Let_def split: sum.splits)
    let ?g = "child\<lparr>gl_constraints := gl_constraints child @ ?fresh, gl_deadline := dl, gl_updated_at := Iso now\<rparr>"
    show ?thesis
    proof (cases "?fresh \<noteq> [] \<or> dl \<noteq> gl_deadline child")
      case True
      then have "save_goal ?g st = (Inr u, st1)" using assms(2) Some dl by (simp add: propagate_to_child_def Let_def)
      then have "st1 = put_goal ?g st" "goal_valid ?g" by (simp_all only: save_goal_Inr)
      then show ?thesis using Some dl by (intro saved) simp_all
    next
      case False
      then show ?thesis using assms(2) Some dl by (intro kept[of child]) (simp_all add: propagate_to_child_def Let_def)
    qed
  qed
  note cases = this
  have dl: "inherits now p ch"
    if "set (gl_constraints p) \<subseteq> set (gl_constraints ch)"
      "child_deadline now (parse_deadline_ms (gl_deadline p)) d = Inr (gl_deadline ch)" for ch d
    using that child_deadline_bound[OF that(2)] by (auto simp: inherits_def)
  show "store_ok st1" by (cases rule: cases) (auto simp: assms(1) intro: put_goal_ok)
  show "load_goal st1 j = load_goal st j" if "j \<noteq> c"
    using that store_okD[OF assms(1)] by (cases rule: cases) (auto simp: load_put_goal)
  show "inherits now p ch" if "load_goal st1 c = Some ch"
    using that
  proof (cases rule: cases)
    case missing
    then show ?thesis using that by simp
  next
    case (kept child)
    then show ?thesis using that by (intro dl[where d = "gl_deadline child"]) (auto simp: filter_empty_conv)
  next
    case (saved child dl g)
    then have "ch = json_goal g" using that store_okD[OF assms(1) saved(1)] by (simp add: load_put_goal)
    then show ?thesis using saved by (intro dl[where d = "gl_deadline child"]) auto
  qed
qed

lemma propagate_to_children_spec:
  "store_ok st \<Longrightarrow> propagate_to_children now p cs st = (Inr u, st') \<Longrightarrow>
   (\<forall>j. j \<notin> set cs \<longrightarrow> load_goal st' j = load_goal st j) \<and>
   (\<forall>j ch. j \<in> set cs \<or> (\<forall>h. load_goal st j = Some h \<longrightarrow> inherits now p h) \<longrightarrow> load_goal st' j = Some ch \<longrightarrow> inherits now p ch)"
proof (induction cs arbitrary: st)
  case (Cons c cs)
  obtain v st1 where st1: "propagate_to_child now p c st = (Inr v, st1)" "propagate_to_children now p cs st1 = (Inr u, st')"
    using Cons.prems(2) by (auto split: prod.splits sum.splits)
  note step = propagate_to_child_step[OF Cons.prems(1) st1(1)]
  note IH = Cons.IH[OF step(1) st1(2)]
  show ?case
  proof (intro conjI allI impI)
    fix j assume "j \<notin> set (c # cs)"
    then show "load_goal st' j = load_goal st j" using IH step(2)[of j] by simp
  next
    fix j ch
    assume a: "j \<in> set (c # cs) \<or> (\<forall>h. load_goal st j = Some h \<longrightarrow> inherits now p h)" and l: "load_goal st' j = Some ch"
    have "j \<in> set cs \<or> (\<forall>h. load_goal st1 j = Some h \<longrightarrow> inherits now p h)"
      using a step(2)[of j] step(3) by (cases "j = c") auto
    then show "inherits now p ch" using IH l by blast
  qed
qed simp

text \<open>
  Pushing the state of a goal down works: when the call returns without an error, every stored
  child has all constraints of the parent and, while the deadline of the parent lies ahead, no
  deadline of a child is later than the one of the parent. Goals that are not children are untouched.
\<close>
lemma state_goes_down_to_children:
  assumes "store_ok st" "load_goal st i = Some p" "propagate_state_down now i st = (Inr u, st')"
  shows "\<forall>j. (j \<notin> set (gl_children_ids p) \<longrightarrow> load_goal st' j = load_goal st j) \<and>
           (\<forall>child. j \<in> set (gl_children_ids p) \<and> load_goal st' j = Some child \<longrightarrow>
              set (gl_constraints p) \<subseteq> set (gl_constraints child) \<and>
              (\<forall>pm cm. parse_deadline_ms (gl_deadline p) = Some pm \<and> now < pm \<and>
                 parse_deadline_ms (gl_deadline child) = Some cm \<longrightarrow> cm \<le> pm))"
proof -
  have "propagate_to_children now p (gl_children_ids p) st = (Inr u, st')"
    using assms(2,3) by (simp add: propagate_state_down_def)
  from propagate_to_children_spec[OF assms(1) this] show ?thesis unfolding inherits_def by blast
qed

section \<open>The cascade of completions\<close>

definition parent_rel :: "goal_store \<Rightarrow> (string \<times> string) set" where
  "parent_rel st = {(a, b). \<exists>g pg. load_goal st a = Some g \<and> gl_parent_id g = Some b \<and> load_goal st b = Some pg}"

lemma cascade_next_Some:
  "cascade_next st done i = Some p \<longleftrightarrow>
     (i, p) \<in> parent_rel st \<and> list_all (child_done st done) (gl_children_ids (the (load_goal st p)))"
  by (auto simp: cascade_next_def parent_rel_def split: option.splits)

lemma cascade_next_None:
  "cascade_next st done i = None \<longleftrightarrow>
     (\<forall>p. (i, p) \<in> parent_rel st \<longrightarrow> \<not> list_all (child_done st done) (gl_children_ids (the (load_goal st p))))"
  by (auto simp: cascade_next_def parent_rel_def split: option.splits)

lemma parent_rel_ancestors: "finite ((parent_rel st)\<^sup>+ `` {i})"
proof (rule finite_subset)
  show "(parent_rel st)\<^sup>+ `` {i} \<subseteq> set (map fst (st_goals st))"
    by (auto simp: parent_rel_def load_goal_def dest!: tranclD2 map_of_SomeD intro: rev_image_eqI)
qed simp

text \<open>What the list of a cascade from \<open>i\<close> satisfies; \<open>done\<close> are the ids treated as complete before.\<close>

fun cascade_correct :: "goal_store \<Rightarrow> string list \<Rightarrow> string \<Rightarrow> string list \<Rightarrow> bool" where
  "cascade_correct st done i [] =
     (\<forall>p. (i, p) \<in> parent_rel st \<longrightarrow> (\<exists>c \<in> set (gl_children_ids (the (load_goal st p))). \<not> child_done st done c))"
| "cascade_correct st done i (p # ps) =
     ((i, p) \<in> parent_rel st \<and> (\<forall>c \<in> set (gl_children_ids (the (load_goal st p))). child_done st done c) \<and>
      cascade_correct st (p # done) p ps)"

lemma cascade_returns:
  assumes "\<forall>x. (i, x) \<in> (parent_rel st)\<^sup>* \<longrightarrow> (x, x) \<notin> (parent_rel st)\<^sup>+"
  shows "\<exists>ps. cascade st done acc i = Some (acc @ ps) \<and> cascade_correct st done i ps \<and>
           distinct ps \<and> set ps \<subseteq> (parent_rel st)\<^sup>+ `` {i}"
  using assms
proof (induction "card ((parent_rel st)\<^sup>+ `` {i})" arbitrary: i "done" acc rule: less_induct)
  case less
  show ?case
  proof (cases "cascade_next st done i")
    case None
    then have "cascade_correct st done i []" by (auto simp: cascade_next_None list_all_iff)
    then show ?thesis using None by (subst cascade.simps) auto
  next
    case (Some p)
    then have ip: "(i, p) \<in> parent_rel st" and dn: "\<forall>c \<in> set (gl_children_ids (the (load_goal st p))). child_done st done c"
      by (simp_all add: cascade_next_Some list_all_iff)
    have sub: "(parent_rel st)\<^sup>+ `` {p} \<subseteq> (parent_rel st)\<^sup>+ `` {i}" using ip by (auto intro: trancl_into_trancl2)
    have pp: "p \<notin> (parent_rel st)\<^sup>+ `` {p}" "p \<in> (parent_rel st)\<^sup>+ `` {i}" using less.prems ip by auto
    have "card ((parent_rel st)\<^sup>+ `` {p}) < card ((parent_rel st)\<^sup>+ `` {i})"
      using sub pp by (intro psubset_card_mono parent_rel_ancestors) blast
    moreover have "\<forall>x. (p, x) \<in> (parent_rel st)\<^sup>* \<longrightarrow> (x, x) \<notin> (parent_rel st)\<^sup>+"
      using less.prems ip by (meson converse_rtrancl_into_rtrancl)
    ultimately obtain ps where ps: "cascade st (p # done) (acc @ [p]) p = Some ((acc @ [p]) @ ps)"
        "cascade_correct st (p # done) p ps" "distinct ps" "set ps \<subseteq> (parent_rel st)\<^sup>+ `` {p}"
      using less.hyps[of p "p # done" "acc @ [p]"] by blast
    have "cascade st done acc i = Some (acc @ p # ps)" using Some ps(1) by (subst cascade.simps) simp
    moreover have "cascade_correct st done i (p # ps)" using ip dn ps(2) by simp
    moreover have "distinct (p # ps)" "set (p # ps) \<subseteq> (parent_rel st)\<^sup>+ `` {i}" using ps(3,4) pp sub by auto
    ultimately show ?thesis by blast
  qed
qed

lemma cascade_correct_nth:
  "cascade_correct st done i ps \<Longrightarrow> k < length ps \<Longrightarrow>
   ((i # ps) ! k, ps ! k) \<in> parent_rel st \<and>
   (\<forall>c \<in> set (gl_children_ids (the (load_goal st (ps ! k)))). child_done st (rev (take k ps) @ done) c)"
  by (induction st "done" i ps arbitrary: k rule: cascade_correct.induct) (auto simp: nth_Cons split: nat.splits)

lemma cascade_correct_last:
  "cascade_correct st done i ps \<Longrightarrow> (last (i # ps), q) \<in> parent_rel st \<Longrightarrow>
   \<exists>c \<in> set (gl_children_ids (the (load_goal st q))). \<not> child_done st (rev ps @ done) c"
  by (induction st "done" i ps rule: cascade_correct.induct) auto

text \<open>
  When the parent links above a goal have no cycle, the completion cascade returns, and it
  returns the right ancestors: each is the stored parent of the one before (the first of the goal
  itself), all of its children are completed, cancelled, abandoned, the goal itself or ancestors
  listed before it; none is listed twice; and the next parent up, if there is one, has a child that
  is not done.
\<close>
lemma cascade_returns_completable_ancestors:
  assumes "\<forall>x. (i, x) \<in> (parent_rel st)\<^sup>* \<longrightarrow> (x, x) \<notin> (parent_rel st)\<^sup>+"
  shows "\<exists>ps. check_completion_cascade st i = Some ps \<and> distinct ps \<and>
           (\<forall>k < length ps. ((i # ps) ! k, ps ! k) \<in> parent_rel st \<and>
              (\<forall>c \<in> set (gl_children_ids (the (load_goal st (ps ! k)))). child_done st (rev (take k ps) @ [i]) c)) \<and>
           (\<forall>q. (last (i # ps), q) \<in> parent_rel st \<longrightarrow>
              (\<exists>c \<in> set (gl_children_ids (the (load_goal st q))). \<not> child_done st (rev ps @ [i]) c))"
proof -
  obtain ps where ps: "cascade st [i] [] i = Some ([] @ ps)" "cascade_correct st [i] i ps" "distinct ps"
    using cascade_returns[OF assms, of "[i]" "[]"] by blast
  show ?thesis
    by (rule exI[of _ ps]) (use ps cascade_correct_nth[OF ps(2)] cascade_correct_last[OF ps(2)] in
        \<open>auto simp: check_completion_cascade_def\<close>)
qed

section \<open>Pruning cancels the subtree\<close>

text \<open>The child links between stored goals; pruning follows all of them, whatever the status is.\<close>

definition stored_child :: "goal_store \<Rightarrow> (string \<times> string) set" where
  "stored_child st = {(a, c). \<exists>g ch. load_goal st a = Some g \<and> c \<in> set (gl_children_ids g) \<and> load_goal st c = Some ch}"

definition cancelled :: "timestamp \<Rightarrow> goal \<Rightarrow> goal" where
  "cancelled now g = g\<lparr>gl_status := G_Cancelled, gl_updated_at := now\<rparr>"

text \<open>The store in which the goals of a set are cancelled and nothing else is changed.\<close>

definition marks :: "timestamp \<Rightarrow> string set \<Rightarrow> goal_store \<Rightarrow> goal_store \<Rightarrow> bool" where
  "marks now X st st' \<longleftrightarrow> store_ok st' \<and>
     (\<forall>x. load_goal st' x = (if x \<in> X then map_option (cancelled now) (load_goal st x) else load_goal st x))"

definition reach :: "goal_store \<Rightarrow> string set \<Rightarrow> string set" where
  "reach st X = (stored_child st)\<^sup>* `` X"

lemma cancelled_cancelled [simp]: "cancelled now (cancelled now g) = cancelled now g"
  by (simp add: cancelled_def)

lemma map_cancelled [simp]: "map_option (cancelled now) (map_option (cancelled now) x) = map_option (cancelled now) x"
  by (simp add: option.map_comp o_def)

lemma marks_stored_child: "marks now X st st' \<Longrightarrow> stored_child st' = stored_child st"
proof -
  assume m: "marks now X st st'"
  have "(\<exists>g ch. load_goal st' a = Some g \<and> c \<in> set (gl_children_ids g) \<and> load_goal st' c = Some ch) \<longleftrightarrow>
        (\<exists>g ch. load_goal st a = Some g \<and> c \<in> set (gl_children_ids g) \<and> load_goal st c = Some ch)" for a c
    using m unfolding marks_def by (cases "a \<in> X"; cases "c \<in> X") (auto simp: cancelled_def)
  then show ?thesis by (simp add: stored_child_def)
qed

lemma marks_trans: "marks now X st st1 \<Longrightarrow> marks now Y st1 st2 \<Longrightarrow> marks now (X \<union> Y) st st2"
  by (auto simp: marks_def)

lemma marks_refl: "store_ok st \<Longrightarrow> marks now {} st st"
  by (simp add: marks_def)

lemma stored_descendants: "finite ((stored_child st)\<^sup>+ `` {i})" "card ((stored_child st)\<^sup>+ `` {i}) \<le> length (st_goals st)"
proof -
  have sub: "(stored_child st)\<^sup>+ `` {i} \<subseteq> set (map fst (st_goals st))"
    by (auto simp: stored_child_def load_goal_def dest!: tranclD2 map_of_SomeD intro: rev_image_eqI)
  then show "finite ((stored_child st)\<^sup>+ `` {i})" by (rule finite_subset) simp
  have "card ((stored_child st)\<^sup>+ `` {i}) \<le> card (set (map fst (st_goals st)))" using sub by (intro card_mono) simp_all
  also have "\<dots> \<le> length (st_goals st)" using card_length[of "map fst (st_goals st)"] by simp
  finally show "card ((stored_child st)\<^sup>+ `` {i}) \<le> length (st_goals st)" .
qed

definition acyclic_from :: "(string \<times> string) set \<Rightarrow> string \<Rightarrow> bool" where
  "acyclic_from R i \<longleftrightarrow> (\<forall>x. (i, x) \<in> R\<^sup>* \<longrightarrow> (x, x) \<notin> R\<^sup>+)"

lemma acyclic_from_step:
  assumes "acyclic_from R i" "(i, c) \<in> R" "finite (R\<^sup>+ `` {i})"
  shows "acyclic_from R c" "card (R\<^sup>+ `` {c}) < card (R\<^sup>+ `` {i})"
proof -
  show "acyclic_from R c" using assms(1,2) unfolding acyclic_from_def by (meson converse_rtrancl_into_rtrancl)
  have "c \<notin> R\<^sup>+ `` {c}" "c \<in> R\<^sup>+ `` {i}" using assms(1,2) by (auto simp: acyclic_from_def)
  moreover have "R\<^sup>+ `` {c} \<subseteq> R\<^sup>+ `` {i}" using assms(2) by (auto intro: trancl_into_trancl2)
  ultimately have "R\<^sup>+ `` {c} \<subset> R\<^sup>+ `` {i}" by blast
  then show "card (R\<^sup>+ `` {c}) < card (R\<^sup>+ `` {i})" using assms(3) by (intro psubset_card_mono)
qed

text \<open>What a cancelling call does: it returns, and without an error it marks the goals of \<open>X\<close>.\<close>

definition cancels :: "timestamp \<Rightarrow> string set \<Rightarrow> goal_store \<Rightarrow> (unit result \<times> goal_store) option \<Rightarrow> bool" where
  "cancels now X st out \<longleftrightarrow> (\<exists>r st'. out = Some (r, st') \<and> (r = Inr () \<longrightarrow> marks now X st st'))"

lemma cancel_children_cancels:
  assumes "store_ok st"
    "\<And>c ch st1 Y. c \<in> set cs \<Longrightarrow> marks now Y st st1 \<Longrightarrow> load_goal st1 c = Some ch \<Longrightarrow>
       cancels now (reach st {c}) st1 (rec ch st1)"
  shows "cancels now (reach st {c \<in> set cs. load_goal st c \<noteq> None}) st (cancel_children rec cs st)"
proof -
  have "cancels now (Y \<union> reach st {c \<in> set ds. load_goal st c \<noteq> None}) st (cancel_children rec ds st1)"
    if "set ds \<subseteq> set cs" "marks now Y st st1" for ds st1 Y
    using that
  proof (induction ds arbitrary: st1 Y)
    case Nil
    then show ?case by (simp add: cancels_def reach_def)
  next
    case (Cons c ds)
    show ?case
    proof (cases "load_goal st1 c")
      case None
      then have "load_goal st c = None" using Cons.prems(2) by (auto simp: marks_def split: if_splits)
      then have "{x \<in> set (c # ds). load_goal st x \<noteq> None} = {x \<in> set ds. load_goal st x \<noteq> None}" by auto
      then show ?thesis using Cons None by simp
    next
      case (Some ch)
      then have st_c: "load_goal st c \<noteq> None" using Cons.prems(2) by (auto simp: marks_def split: if_splits)
      have "c \<in> set cs" using Cons.prems(1) by simp
      from assms(2)[OF this Cons.prems(2) Some] obtain r st2
        where r: "rec ch st1 = Some (r, st2)" "r = Inr () \<Longrightarrow> marks now (reach st {c}) st1 st2"
        unfolding cancels_def by blast
      have set_eq: "Y \<union> reach st {c} \<union> reach st {x \<in> set ds. load_goal st x \<noteq> None} =
          Y \<union> reach st {x \<in> set (c # ds). load_goal st x \<noteq> None}"
        using st_c by (auto simp: reach_def)
      show ?thesis
      proof (cases r)
        case (Inl e)
        then show ?thesis using Some r by (simp add: cancels_def)
      next
        case (Inr u)
        then have "marks now (Y \<union> reach st {c}) st st2" using marks_trans[OF Cons.prems(2)] r(2) by simp
        then show ?thesis using Cons.IH[of "Y \<union> reach st {c}" st2] Cons.prems(1) Some r Inr set_eq by simp
      qed
    qed
  qed
  from this[OF _ marks_refl[OF assms(1)], of cs] show ?thesis by simp
qed

lemma cancel_goal_cancels:
  assumes "store_ok st" "load_goal st i = Some g" "acyclic_from (stored_child st) i"
    "card ((stored_child st)\<^sup>+ `` {i}) < n"
  shows "cancels now (reach st {i}) st (cancel_goal_and_descendants now n g st)"
  using assms
proof (induction n arbitrary: i g st)
  case (Suc n)
  let ?R = "stored_child st" and ?cs = "gl_children_ids g"
  let ?X = "reach st {c \<in> set ?cs. load_goal st c \<noteq> None}"
  note g = store_okD[OF Suc.prems(1,2)]
  have child: "(i, c) \<in> ?R" if "c \<in> set ?cs" "load_goal st c \<noteq> None" for c
    using that Suc.prems(2) by (auto simp: stored_child_def)
  have child_ok: "cancels now (reach st {c}) st1 (cancel_goal_and_descendants now n ch st1)"
    if c: "c \<in> set ?cs" and m: "marks now Y st st1" and ch: "load_goal st1 c = Some ch" for c ch st1 Y
  proof -
    have "load_goal st c \<noteq> None" using m ch by (auto simp: marks_def split: if_splits)
    note step = acyclic_from_step[OF Suc.prems(3) child[OF c this] stored_descendants(1)]
    have "cancels now (reach st1 {c}) st1 (cancel_goal_and_descendants now n ch st1)"
      using m ch step Suc.prems(4) by (intro Suc.IH) (simp_all add: marks_stored_child[OF m], simp add: marks_def)
    then show ?thesis by (simp add: reach_def marks_stored_child[OF m])
  qed
  have "cancels now ?X st (cancel_children (cancel_goal_and_descendants now n) ?cs st)"
    by (rule cancel_children_cancels[OF Suc.prems(1)]) (rule child_ok)
  then obtain r st1 where r: "cancel_children (cancel_goal_and_descendants now n) ?cs st = Some (r, st1)"
      "r = Inr () \<Longrightarrow> marks now ?X st st1"
    unfolding cancels_def by blast
  show ?case
  proof (cases r)
    case (Inl e)
    then show ?thesis using r by (simp add: cancels_def)
  next
    case (Inr u)
    then have m: "marks now ?X st st1" using r(2) by simp
    have "i \<notin> ?X"
    proof
      assume "i \<in> ?X"
      then obtain c where "c \<in> set ?cs" "load_goal st c \<noteq> None" "(c, i) \<in> ?R\<^sup>*" by (auto simp: reach_def)
      then have "(i, i) \<in> ?R\<^sup>+" using child[of c] by (auto intro: rtrancl_into_trancl2)
      then show False using Suc.prems(3) by (auto simp: acyclic_from_def)
    qed
    have X: "reach st {i} = insert i ?X"
    proof (rule set_eqI)
      fix x
      have edge: "(i, c) \<in> ?R \<longleftrightarrow> c \<in> set ?cs \<and> load_goal st c \<noteq> None" for c
        using Suc.prems(2) by (auto simp: stored_child_def)
      have "(i, x) \<in> ?R\<^sup>* \<longleftrightarrow> x = i \<or> (\<exists>c. (i, c) \<in> ?R \<and> (c, x) \<in> ?R\<^sup>*)"
        by (metis converse_rtranclE converse_rtrancl_into_rtrancl rtrancl.rtrancl_refl)
      then show "x \<in> reach st {i} \<longleftrightarrow> x \<in> insert i ?X" unfolding edge reach_def by blast
    qed
    let ?g = "cancelled now g"
    have "gl_id ?g = i" "json_goal ?g = ?g"
      using g json_goal_same_dimensions[of g ?g] by (simp_all add: cancelled_def)
    then have "marks now (reach st {i}) st (put_goal ?g st1)" if "goal_valid ?g"
      using m that Suc.prems(2) \<open>i \<notin> ?X\<close> put_goal_ok[of st1 ?g] by (simp add: marks_def X load_put_goal)
    then show ?thesis using r(1) Inr
      by (auto simp: cancels_def save_goal_def cancelled_def split: option.splits)
  qed
qed simp

lemma unlink_from_parent_spec:
  assumes "store_ok st" "unlink_from_parent now i g st = (Inr v, st')"
  shows "load_goal st' x =
    (if truthy (gl_parent_id g) \<and> Some x = gl_parent_id g
     then map_option (\<lambda>p. p\<lparr>gl_children_ids := filter (\<lambda>c. c \<noteq> i) (gl_children_ids p), gl_updated_at := now\<rparr>) (load_goal st x)
     else load_goal st x)"
proof (cases "truthy (gl_parent_id g) \<and> load_goal st (the (gl_parent_id g)) \<noteq> None")
  case True
  then obtain q p where qp: "gl_parent_id g = Some q" "load_goal st q = Some p" by (auto simp: truthy_iff)
  let ?p = "p\<lparr>gl_children_ids := filter (\<lambda>c. c \<noteq> i) (gl_children_ids p), gl_updated_at := now\<rparr>"
  note p = store_okD[OF assms(1) qp(2)]
  have "st' = put_goal ?p st" using assms(2) True qp by (auto simp: unlink_from_parent_def save_goal_Inr)
  moreover have "json_goal ?p = ?p" using p json_goal_same_dimensions[of p ?p] by simp
  ultimately show ?thesis using True qp p by (auto simp: load_put_goal)
next
  case False
  then have "load_goal st x = None" if "truthy (gl_parent_id g)" "Some x = gl_parent_id g"
    using that by (metis option.sel)
  moreover have "st' = st" using assms(2) False by (auto simp: unlink_from_parent_def split: if_splits option.splits)
  ultimately show ?thesis by simp
qed

text \<open>
  Pruning a goal with no cycle below it returns (a recursion depth of the number of stored goals
  plus one is enough), and when it reports no error it has done exactly this: the goal and every
  stored goal below it are cancelled, the goal is off the list of its parent, and every other goal
  is as before.
\<close>
lemma prune_cancels_exactly_the_subtree:
  assumes "store_ok st" "load_goal st i = Some g" "acyclic_from (stored_child st) i" "length (st_goals st) < depth"
  shows "\<exists>r st'. prune_goal now depth i reason st = Some (r, st') \<and>
           (\<forall>d. r = Inr d \<longrightarrow>
              (\<forall>x. load_goal st' x =
                 (let h = (if (i, x) \<in> (stored_child st)\<^sup>* then map_option (cancelled now) (load_goal st x) else load_goal st x)
                  in if truthy (gl_parent_id g) \<and> Some x = gl_parent_id g
                     then map_option (\<lambda>p. p\<lparr>gl_children_ids := filter (\<lambda>c. c \<noteq> i) (gl_children_ids p), gl_updated_at := now\<rparr>) h
                     else h)))"
proof -
  have "card ((stored_child st)\<^sup>+ `` {i}) < depth" using stored_descendants(2)[of st i] assms(4) by simp
  from cancel_goal_cancels[OF assms(1-3) this] obtain r0 st1
    where r0: "cancel_goal_and_descendants now depth g st = Some (r0, st1)" "r0 = Inr () \<Longrightarrow> marks now (reach st {i}) st st1"
    unfolding cancels_def by blast
  show ?thesis
  proof (cases r0)
    case (Inl e)
    then show ?thesis using assms(2) r0(1) by (simp add: prune_goal_def cancel_and_unlink_def)
  next
    case (Inr u)
    then have m: "marks now (reach st {i}) st st1" using r0(2) by simp
    then have load1: "load_goal st1 x = (if (i, x) \<in> (stored_child st)\<^sup>* then map_option (cancelled now) (load_goal st x)
        else load_goal st x)" and ok1: "store_ok st1" for x
      by (auto simp: marks_def reach_def)
    obtain v st' where un: "unlink_from_parent now i g st1 = (v, st')" by (cases "unlink_from_parent now i g st1")
    show ?thesis
    proof (cases v)
      case (Inl e)
      then show ?thesis using assms(2) r0(1) Inr un by (simp add: prune_goal_def cancel_and_unlink_def)
    next
      case (Inr w)
      then show ?thesis using assms(2) r0(1) \<open>r0 = Inr u\<close> un unlink_from_parent_spec[OF ok1, of now i g w st'] load1
        by (simp add: prune_goal_def cancel_and_unlink_def Let_def)
    qed
  qed
qed

lemma mixed_children: "stored_child mixed_store = {(''p'', ''a''), (''p'', ''b'')}"
  by (auto simp: stored_child_def mixed_store_def load_goal_def sample_goal_def split: if_splits)

end
