(* ===== verification/Stall_Detector.thy ===== *)
theory Stall_Detector
  imports Goal_Completion
begin

text \<open>
  Stall detection: \<open>platform/drive/stall-detector.ts\<close> with \<open>stall-detector/thresholds.ts\<close>,
  \<open>analysis.ts\<close> and \<open>repetitive.ts\<close>, the \<open>ProgressPredictor\<close> it may hold, and the
  rows of \<open>stall-state-store.ts\<close>. A gap history is the list of its normalized gaps, oldest first;
  the texts of \<open>evidence\<close> are left out of the analyses.
\<close>

section \<open>Thresholds\<close>

record character_config =
  cc_caution_level :: int
  cc_stall_flexibility :: int
  cc_communication_directness :: int
  cc_proactivity_level :: int

definition character_valid :: "character_config \<Rightarrow> bool" where
  "character_valid c \<longleftrightarrow> (\<forall>l \<in> {cc_caution_level c, cc_stall_flexibility c, cc_communication_directness c,
     cc_proactivity_level c}. 1 \<le> l \<and> l \<le> 5)"

text \<open>The multiplier is a number of quarters, so its arithmetic is exact.\<close>

definition stall_threshold_multiplier :: "character_config \<Rightarrow> rat result" where
  "stall_threshold_multiplier c =
     (if character_valid c then Inr (3 / 4 + of_int (cc_stall_flexibility c) * (1 / 4)) else Inl SchemaError)"

definition base_feedback_n :: "string option \<Rightarrow> rat" where
  "base_feedback_n category =
     (if \<not> truthy category then 5
      else nullish (map_of [(''immediate'', 6), (''medium_term'', 5), (''long_term'', 10)] (the category)) 5)"

definition get_adjusted_n :: "character_config \<Rightarrow> string option \<Rightarrow> nat result" where
  "get_adjusted_n c category =
     result_bind (stall_threshold_multiplier c) (\<lambda>m. Inr (nat \<lfloor>base_feedback_n category * m + 1 / 2\<rfloor>))"

definition is_zero_progress :: "(rat \<Rightarrow> rat) \<Rightarrow> rat list \<Rightarrow> bool" where
  "is_zero_progress rnd gaps =
     (if length gaps < 3 then False
      else (let recent = slice_last 3 gaps
            in if \<not> list_all (\<lambda>g. g \<ge> rnd (9 / 10)) recent then False
               else rnd (js_max recent - js_min recent) < rnd (1 / 100)))"

definition duration_to_hours :: "(rat \<Rightarrow> rat) \<Rightarrow> rat \<times> string \<Rightarrow> rat" where
  "duration_to_hours rnd d = (case d of (v, u) \<Rightarrow>
     if u = ''minutes'' then rnd (v / 60)
     else if u = ''hours'' then v
     else if u = ''days'' then rnd (v * 24)
     else if u = ''weeks'' then rnd (rnd (v * 24) * 7)
     else v)"

definition compute_time_threshold :: "(rat \<Rightarrow> rat) \<Rightarrow> (rat \<times> string) option \<Rightarrow> string option \<Rightarrow> rat" where
  "compute_time_threshold rnd est category = (case est of
     Some d \<Rightarrow> rnd (duration_to_hours rnd d * 2)
   | None \<Rightarrow>
       if truthy category
       then nullish (map_of [(''coding'', 2), (''implementation'', 2), (''research'', 4), (''investigation'', 4)] (the category)) 3
       else 3)"

section \<open>The progress predictor\<close>

datatype gap_trend = Improving | Worsening | Stable

record prediction =
  pn_predicted_gap :: rat
  pn_confidence :: rat
  pn_trend :: gap_trend
  pn_iterations_to_goal :: "int option"
  pn_slope :: rat

text \<open>The sums of the regression loop: \<open>x\<close>, \<open>y\<close>, \<open>x y\<close>, \<open>x x\<close>.\<close>

definition regression_sums :: "(rat \<Rightarrow> rat) \<Rightarrow> rat list \<Rightarrow> rat \<times> rat \<times> rat \<times> rat" where
  "regression_sums rnd ys = foldl (\<lambda>(sx, sy, sxy, sxx) (i, y).
     (sx + of_nat i, rnd (sy + y), rnd (sxy + rnd (of_nat i * y)), sxx + of_nat (i * i))) (0, 0, 0, 0) (enumerate 0 ys)"

definition regression_line :: "(rat \<Rightarrow> rat) \<Rightarrow> rat list \<Rightarrow> rat \<times> rat" where
  "regression_line rnd ys = (case regression_sums rnd ys of (sx, sy, sxy, sxx) \<Rightarrow>
     let n = of_nat (length ys); den = n * sxx - sx * sx
     in if den = 0 then (0, rnd (sy / n))
        else (let slope = rnd (rnd (rnd (n * sxy) - rnd (sx * sy)) / den)
              in (slope, rnd (rnd (sy - rnd (slope * sx)) / n))))"

definition predict :: "(rat \<Rightarrow> rat) \<Rightarrow> nat \<Rightarrow> rat list \<Rightarrow> nat \<Rightarrow> prediction option" where
  "predict rnd minPoints history windowSize =
     (if length history < minPoints then None
      else (let w = slice_last windowSize history; n = of_nat (length w) in
        case regression_line rnd w of (slope, intercept) \<Rightarrow>
          (let predicted = max 0 (min 1 (rnd (rnd (slope * n) + intercept)));
               meanY = (case regression_sums rnd w of (sx, sy, sxy, sxx) \<Rightarrow> rnd (sy / n));
               ssTot = js_sum rnd (map (\<lambda>y. rnd (rnd (y - meanY) ^ 2)) w);
               ssRes = js_sum rnd (map (\<lambda>(i, y). rnd (rnd (y - rnd (rnd (slope * of_nat i) + intercept)) ^ 2)) (enumerate 0 w));
               confidence = (if ssTot = 0 then 1 else max 0 (rnd (1 - rnd (ssRes / ssTot))));
               thr = rnd (5 / 1000);
               trend = (if slope < - thr then Improving else if slope > thr then Worsening else Stable);
               steps = rnd (rnd (- intercept / slope) - (n - 1))
           in Some \<lparr>pn_predicted_gap = predicted, pn_confidence = confidence, pn_trend = trend,
                    pn_iterations_to_goal = (if trend = Improving \<and> slope < 0 \<and> steps > 1 / 2 then Some \<lceil>steps\<rceil> else None),
                    pn_slope = slope\<rparr>)))"

datatype metric_trend = M_Improving | M_Stalled | M_Noisy | M_Regressing | M_Breakthrough

record metric_context =
  mc_metric_key :: string
  mc_trend :: metric_trend
  mc_slope :: rat
  mc_confidence :: rat
  mc_rest :: string

definition predict_metric_trend :: "metric_context \<Rightarrow> prediction" where
  "predict_metric_trend c =
     (let trend = (case mc_trend c of M_Regressing \<Rightarrow> Worsening | M_Stalled \<Rightarrow> Stable | M_Noisy \<Rightarrow> Stable | _ \<Rightarrow> Improving)
      in \<lparr>pn_predicted_gap = (case trend of Worsening \<Rightarrow> 1 | Stable \<Rightarrow> 1 / 2 | Improving \<Rightarrow> 0),
          pn_confidence = mc_confidence c, pn_trend = trend, pn_iterations_to_goal = None,
          pn_slope = (case trend of Worsening \<Rightarrow> \<bar>mc_slope c\<bar> | Stable \<Rightarrow> 0 | Improving \<Rightarrow> - \<bar>mc_slope c\<bar>)\<rparr>)"

section \<open>Reports\<close>

datatype stall_type = Dimension_Stall | Time_Exceeded | Consecutive_Failure | Global_Stall
  | Predicted_Plateau | Predicted_Regression

datatype stall_cause = Information_Deficit | Approach_Failure | Capability_Limit | External_Dependency | Goal_Infeasible

record stall_report =
  rp_stall_type :: stall_type
  rp_goal_id :: string
  rp_dimension_name :: "string option"
  rp_task_id :: "string option"
  rp_detected_at :: timestamp
  rp_escalation_level :: rat
  rp_suggested_cause :: stall_cause
  rp_decay_factor :: rat
  rp_metric_context :: "metric_context option"

text \<open>\<open>dt_predictor\<close> is the \<open>minDataPoints\<close> of the predictor, if there is one.\<close>

record detector =
  dt_character :: character_config
  dt_predictor :: "nat option"

definition decay_factor_stalled :: "(rat \<Rightarrow> rat) \<Rightarrow> rat" where "decay_factor_stalled rnd = rnd (6 / 10)"
definition min_improvement_delta :: "(rat \<Rightarrow> rat) \<Rightarrow> rat" where "min_improvement_delta rnd = rnd (5 / 100)"
definition achieved_gap_threshold :: "(rat \<Rightarrow> rat) \<Rightarrow> rat" where "achieved_gap_threshold rnd = rnd (2 / 100)"

definition make_report ::
  "stall_type \<Rightarrow> string \<Rightarrow> string option \<Rightarrow> string option \<Rightarrow> timestamp \<Rightarrow> stall_cause \<Rightarrow> rat \<Rightarrow> metric_context option \<Rightarrow> stall_report" where
  "make_report t g d task now cause decay ctx =
     \<lparr>rp_stall_type = t, rp_goal_id = g, rp_dimension_name = d, rp_task_id = task, rp_detected_at = now,
      rp_escalation_level = 0, rp_suggested_cause = cause, rp_decay_factor = decay, rp_metric_context = ctx\<rparr>"

definition check_metric_trend_stall ::
  "(rat \<Rightarrow> rat) \<Rightarrow> detector \<Rightarrow> timestamp \<Rightarrow> string \<Rightarrow> string \<Rightarrow> metric_context option \<Rightarrow> stall_report option" where
  "check_metric_trend_stall rnd dt now g d ctx = (case ctx of
     None \<Rightarrow> None
   | Some c \<Rightarrow>
       if mc_trend c = M_Improving \<or> mc_trend c = M_Breakthrough \<or> mc_trend c = M_Noisy then None
       else (let decay = (if mc_trend c = M_Regressing then 1 / 2
                          else if dt_predictor dt \<noteq> None \<and> pn_trend (predict_metric_trend c) = Stable then rnd (3 / 10)
                          else decay_factor_stalled rnd)
             in Some (make_report Dimension_Stall g (Some d) None now Approach_Failure decay (Some c))))"

definition check_predicted_stall ::
  "(rat \<Rightarrow> rat) \<Rightarrow> detector \<Rightarrow> timestamp \<Rightarrow> string \<Rightarrow> string \<Rightarrow> rat list \<Rightarrow> stall_report option" where
  "check_predicted_stall rnd dt now g d gaps = (case dt_predictor dt of
     None \<Rightarrow> None
   | Some minPoints \<Rightarrow> (case predict rnd minPoints gaps 5 of
       None \<Rightarrow> None
     | Some p \<Rightarrow>
         if pn_confidence p \<le> rnd (6 / 10) then None
         else (case pn_trend p of
             Stable \<Rightarrow> Some (make_report Predicted_Plateau g (Some d) None now Approach_Failure (rnd (3 / 10)) None)
           | Worsening \<Rightarrow> Some (make_report Predicted_Regression g (Some d) None now Approach_Failure (1 / 2) None)
           | Improving \<Rightarrow> None)))"

definition is_achieved :: "(rat \<Rightarrow> rat) \<Rightarrow> rat list \<Rightarrow> bool" where
  "is_achieved rnd recent = list_all (\<lambda>g. g \<le> achieved_gap_threshold rnd) recent"

definition has_improved :: "(rat \<Rightarrow> rat) \<Rightarrow> rat list \<Rightarrow> bool" where
  "has_improved rnd recent = (rnd (hd recent - last recent) \<ge> min_improvement_delta rnd)"

definition check_dimension_stall ::
  "(rat \<Rightarrow> rat) \<Rightarrow> detector \<Rightarrow> timestamp \<Rightarrow> string \<Rightarrow> string \<Rightarrow> rat list \<Rightarrow> string option \<Rightarrow> metric_context option
   \<Rightarrow> stall_report option result" where
  "check_dimension_stall rnd dt now g d gaps category ctx =
     (let metric = check_metric_trend_stall rnd dt now g d ctx
      in if metric \<noteq> None \<or> (case ctx of None \<Rightarrow> False | Some c \<Rightarrow> mc_trend c = M_Improving \<or> mc_trend c = M_Breakthrough)
         then Inr metric
         else result_bind (get_adjusted_n (dt_character dt) category) (\<lambda>n.
           let stalled = make_report Dimension_Stall g (Some d) None now Approach_Failure (decay_factor_stalled rnd) ctx;
               recent = slice_last (n + 1) gaps
           in if length gaps < n + 1 then Inr None
              else if is_zero_progress rnd gaps then Inr (Some stalled)
              else if is_achieved rnd recent then Inr None
              else if has_improved rnd recent then Inr (check_predicted_stall rnd dt now g d recent)
              else Inr (Some stalled)))"

record timed_task =
  tt_task_id :: "string option"
  tt_goal_id :: string
  tt_estimated_duration :: "(rat \<times> string) option"
  tt_started_at :: "timestamp option"
  tt_task_category :: "string option"

definition check_time_exceeded :: "(rat \<Rightarrow> rat) \<Rightarrow> int \<Rightarrow> timed_task \<Rightarrow> stall_report option" where
  "check_time_exceeded rnd now t = (case tt_started_at t of
     None \<Rightarrow> None
   | Some s \<Rightarrow> (case date_parse s of
       None \<Rightarrow> None
     | Some started \<Rightarrow>
         (let hours = rnd (of_int (now - started) / 3600000);
              limit = compute_time_threshold rnd (tt_estimated_duration t) (tt_task_category t)
          in if hours \<le> limit then None
             else Some (make_report Time_Exceeded (tt_goal_id t) None (tt_task_id t) (Iso now) External_Dependency
                          (decay_factor_stalled rnd) None))))"

definition check_consecutive_failures :: "(rat \<Rightarrow> rat) \<Rightarrow> timestamp \<Rightarrow> string \<Rightarrow> string \<Rightarrow> int \<Rightarrow> stall_report option" where
  "check_consecutive_failures rnd now g d failures =
     (if failures < 3 then None
      else Some (make_report Consecutive_Failure g (Some d) None now Approach_Failure (decay_factor_stalled rnd) None))"

text \<open>
  The loop of \<open>checkGlobalStall\<close>: the counts of dimensions without progress and of achieved ones,
  or \<open>None\<close> when the loop returns early.
\<close>

fun global_counts :: "(rat \<Rightarrow> rat) \<Rightarrow> nat \<Rightarrow> nat \<Rightarrow> nat \<Rightarrow> (string \<times> rat list) list \<Rightarrow> (nat \<times> nat) option" where
  "global_counts rnd n zero achieved [] = Some (zero, achieved)"
| "global_counts rnd n zero achieved ((d, gaps) # rest) =
     (if length gaps < n + 1 then None
      else if is_zero_progress rnd gaps then global_counts rnd n (zero + 1) achieved rest
      else (let recent = slice_last (n + 1) gaps
            in if is_achieved rnd recent then global_counts rnd n zero (achieved + 1) rest
               else if has_improved rnd recent then None
               else global_counts rnd n zero achieved rest))"

definition check_global_stall ::
  "(rat \<Rightarrow> rat) \<Rightarrow> timestamp \<Rightarrow> string \<Rightarrow> (string \<times> rat list) list \<Rightarrow> nat \<Rightarrow> stall_report option" where
  "check_global_stall rnd now g dims n =
     (if dims = [] then None
      else case global_counts rnd n 0 0 dims of
             None \<Rightarrow> None
           | Some (zero, achieved) \<Rightarrow>
               if achieved + zero = length dims \<and> achieved > 0 then None
               else Some (make_report Global_Stall g None None now Goal_Infeasible (decay_factor_stalled rnd) None))"

definition classify_stall_cause :: "string \<Rightarrow> rat option list option \<Rightarrow> stall_cause" where
  "classify_stall_cause stallType confidences =
     (if (case confidences of None \<Rightarrow> False
          | Some cs \<Rightarrow> list_ex (\<lambda>c. case c of None \<Rightarrow> False | Some x \<Rightarrow> x < 1 / 2) cs)
      then Information_Deficit
      else if stallType = ''time_exceeded'' then External_Dependency
      else if stallType = ''global_stall'' then Goal_Infeasible
      else Approach_Failure)"

definition recovery_schedule :: "(rat \<Rightarrow> rat) \<Rightarrow> (int \<times> rat) list" where
  "recovery_schedule rnd = [(0, 3 / 4), (2, rnd (9 / 10)), (4, 1)]"

definition compute_decay_factor :: "(rat \<Rightarrow> rat) \<Rightarrow> bool \<Rightarrow> int option \<Rightarrow> rat" where
  "compute_decay_factor rnd isStalled loops =
     (if isStalled then decay_factor_stalled rnd
      else case loops of None \<Rightarrow> 1
           | Some l \<Rightarrow> foldl (\<lambda>f (n, s). if l \<ge> n then s else f) 1 (recovery_schedule rnd))"

definition is_suppressed :: "int \<Rightarrow> timestamp option \<Rightarrow> bool" where
  "is_suppressed now plateauUntil = (case plateauUntil of None \<Rightarrow> False
     | Some t \<Rightarrow> (case date_parse t of None \<Rightarrow> False | Some until \<Rightarrow> now < until))"

section \<open>The analysis of a stall\<close>

datatype analysis_cause = Parameter_Issue | Strategy_Wrong | Goal_Unreachable

datatype recommended_action = Act_Refine | Act_Pivot | Act_Escalate

record stall_analysis =
  sn_cause :: analysis_cause
  sn_confidence :: rat
  sn_recommended_action :: recommended_action

fun strictly_increasing :: "rat list \<Rightarrow> bool" where
  "strictly_increasing (x # y # zs) = (\<not> y \<le> x \<and> strictly_increasing (y # zs))"
| "strictly_increasing _ = True"

definition analyze_stall_cause :: "(rat \<Rightarrow> rat) \<Rightarrow> rat list \<Rightarrow> stall_analysis" where
  "analyze_stall_cause rnd gaps =
     (if length gaps < 3
      then \<lparr>sn_cause = Strategy_Wrong, sn_confidence = rnd (3 / 10), sn_recommended_action = Act_Pivot\<rparr>
      else
        (let mean = js_mean rnd gaps;
             variance = js_mean rnd (map (\<lambda>v. rnd (rnd (v - mean) ^ 2)) gaps);
             delta = rnd (last gaps - hd gaps)
         in if strictly_increasing gaps \<and> delta > rnd (5 / 100)
            then \<lparr>sn_cause = Goal_Unreachable, sn_confidence = rnd (8 / 10), sn_recommended_action = Act_Escalate\<rparr>
            else if variance > rnd (1 / 100) \<and> \<bar>delta\<bar> < rnd (5 / 100)
            then \<lparr>sn_cause = Parameter_Issue, sn_confidence = 3 / 4, sn_recommended_action = Act_Refine\<rparr>
            else if variance \<le> rnd (5 / 1000) \<and> \<bar>delta\<bar> < rnd (5 / 100)
            then \<lparr>sn_cause = Strategy_Wrong, sn_confidence = 3 / 4, sn_recommended_action = Act_Pivot\<rparr>
            else \<lparr>sn_cause = Strategy_Wrong, sn_confidence = 1 / 2, sn_recommended_action = Act_Pivot\<rparr>))"

section \<open>Repetition of tasks\<close>

record diff_stats =
  df_files_changed :: "rat option"
  df_insertions :: "rat option"
  df_deletions :: "rat option"

text \<open>The evidence of a task result, as far as it is read; of the lists only the length is.\<close>

record task_evidence =
  te_changed_files :: "string list option"
  te_diff_stats :: "diff_stats option"
  te_artifact_changes :: "string list option"

record task_entry =
  ten_strategy_id :: "string option"
  ten_output :: string
  ten_task_result :: "task_evidence option"

datatype repetition_pattern = Identical_Actions | Oscillating | No_Change

datatype repetition_source = Typed_Task_Result | Text_Fallback | No_Source

record repetition_result =
  rr_is_repetitive :: bool
  rr_pattern :: "repetition_pattern option"
  rr_confidence :: rat
  rr_source :: repetition_source

definition bigrams :: "string \<Rightarrow> string list" where
  "bigrams s = map (\<lambda>i. take 2 (drop i s)) [0..<length s - 1]"

definition count_bigrams :: "string list \<Rightarrow> (string, nat) table" where
  "count_bigrams bs = foldl (\<lambda>t b. table_put b (nullish (table_get t b) 0 + 1) t) [] bs"

definition match_bigrams :: "string list \<Rightarrow> (string, nat) table \<Rightarrow> nat" where
  "match_bigrams as counts = fst (foldl (\<lambda>(n, t) b.
     let c = nullish (table_get t b) 0 in if c > 0 then (n + 1, table_put b (c - 1) t) else (n, t)) (0, counts) as)"

definition string_similarity :: "(rat \<Rightarrow> rat) \<Rightarrow> string \<Rightarrow> string \<Rightarrow> rat" where
  "string_similarity rnd a b =
     (if a = [] \<or> b = [] then 0
      else (let as = bigrams a; bs = bigrams b
            in if as = [] \<or> bs = [] then 0
               else rnd (of_nat (2 * match_bigrams as (count_bigrams bs)) / of_nat (length as + length bs))))"

definition to_lower :: "string \<Rightarrow> string" where
  "to_lower s = map (\<lambda>c. if 65 \<le> (of_char c :: nat) \<and> (of_char c :: nat) \<le> 90 then char_of (of_char c + 32 :: nat) else c) s"

definition no_change_patterns :: "string list" where
  "no_change_patterns = [''no changes made'', ''no modifications'', ''nothing to change'', ''no action taken'']"

definition has_material_task_change :: "task_entry \<Rightarrow> bool" where
  "has_material_task_change e = (case ten_task_result e of
     None \<Rightarrow> False
   | Some r \<Rightarrow>
       nullish (te_changed_files r) [] \<noteq> [] \<or> nullish (te_artifact_changes r) [] \<noteq> [] \<or>
       (case te_diff_stats r of None \<Rightarrow> False
        | Some d \<Rightarrow> nullish (df_files_changed d) 0 > 0 \<or> nullish (df_insertions d) 0 > 0 \<or> nullish (df_deletions d) 0 > 0))"

definition has_typed_no_op_evidence :: "task_entry \<Rightarrow> bool" where
  "has_typed_no_op_evidence e = (case ten_task_result e of
     None \<Rightarrow> False
   | Some r \<Rightarrow> \<not> has_material_task_change e \<and>
       (te_changed_files r = Some [] \<or> te_artifact_changes r = Some [] \<or>
        (case te_diff_stats r of None \<Rightarrow> False
         | Some d \<Rightarrow> nullish (df_files_changed d) 0 = 0 \<and> nullish (df_insertions d) 0 = 0 \<and> nullish (df_deletions d) 0 = 0)))"

definition not_repetitive :: "repetition_source \<Rightarrow> repetition_result" where
  "not_repetitive s = \<lparr>rr_is_repetitive = False, rr_pattern = None, rr_confidence = 0, rr_source = s\<rparr>"

definition repetitive :: "repetition_pattern \<Rightarrow> rat \<Rightarrow> repetition_source \<Rightarrow> repetition_result" where
  "repetitive p c s = \<lparr>rr_is_repetitive = True, rr_pattern = Some p, rr_confidence = c, rr_source = s\<rparr>"

definition detect_oscillation :: "(rat \<Rightarrow> rat) \<Rightarrow> task_entry list \<Rightarrow> repetition_result" where
  "detect_oscillation rnd history =
     (if length history \<ge> 4
      then (let out = map ten_output (slice_last 4 history);
                s02 = string_similarity rnd (out ! 0) (out ! 2);
                s13 = string_similarity rnd (out ! 1) (out ! 3);
                s01 = string_similarity rnd (out ! 0) (out ! 1);
                thr = rnd (8 / 10)
            in if s02 \<ge> thr \<and> s13 \<ge> thr \<and> s01 < thr
               then repetitive Oscillating (min (min s02 s13) (rnd (6 / 10))) Text_Fallback
               else not_repetitive No_Source)
      else not_repetitive No_Source)"

definition detect_repetitive_patterns :: "(rat \<Rightarrow> rat) \<Rightarrow> task_entry list \<Rightarrow> repetition_result" where
  "detect_repetitive_patterns rnd history =
     (if length history < 3 then not_repetitive No_Source
      else
        (let recent = slice_last 3 history; out = map ten_output recent;
             ids = map ten_strategy_id recent
         in if list_ex has_material_task_change recent then not_repetitive Typed_Task_Result
            else if list_all (\<lambda>e. ten_task_result e \<noteq> None) recent \<and> list_all has_typed_no_op_evidence recent
            then repetitive No_Change (rnd (9 / 10)) Typed_Task_Result
            else if list_all (\<lambda>e. list_ex (\<lambda>p. text_includes (to_lower (ten_output e)) p) no_change_patterns) recent
            then repetitive No_Change (rnd (6 / 10)) Text_Fallback
            else
              (let avg = rnd (rnd (string_similarity rnd (out ! 0) (out ! 1) + string_similarity rnd (out ! 1) (out ! 2)) / 2)
               in if ids ! 0 \<noteq> None \<and> list_all (\<lambda>i. i = ids ! 0) ids \<and> avg \<ge> rnd (8 / 10)
                  then repetitive Identical_Actions (min avg (rnd (6 / 10))) Text_Fallback
                  else detect_oscillation rnd history)))"

section \<open>Escalation\<close>

record stall_state =
  ss_goal_id :: string
  ss_dimension_escalation :: "(string, rat) table"
  ss_rest :: string

type_synonym stall_rows = "(string, stall_state) table"

definition default_stall_state :: "string \<Rightarrow> stall_state" where
  "default_stall_state g = \<lparr>ss_goal_id = g, ss_dimension_escalation = [], ss_rest = ''{}''\<rparr>"

definition get_stall_state :: "string \<Rightarrow> stall_rows \<Rightarrow> stall_state" where
  "get_stall_state g rows = nullish (table_get rows g) (default_stall_state g)"

definition save_stall_state :: "string \<Rightarrow> stall_state \<Rightarrow> stall_rows \<Rightarrow> unit result \<times> stall_rows" where
  "save_stall_state g s rows =
     (if ss_goal_id s \<noteq> g
      then (Inl (Thrown (''Stall state goal_id '' @ ss_goal_id s @ '' does not match storage key '' @ g)), rows)
      else (Inr (), table_put g s rows))"

definition delete_stall_state :: "string \<Rightarrow> stall_rows \<Rightarrow> stall_rows" where
  "delete_stall_state g rows = table_del g rows"

definition get_escalation_level :: "string \<Rightarrow> string \<Rightarrow> stall_rows \<Rightarrow> rat" where
  "get_escalation_level g d rows = nullish (table_get (ss_dimension_escalation (get_stall_state g rows)) d) 0"

definition set_escalation :: "string \<Rightarrow> string \<Rightarrow> rat \<Rightarrow> stall_rows \<Rightarrow> unit result \<times> stall_rows" where
  "set_escalation g d level rows =
     (let s = get_stall_state g rows
      in save_stall_state g (s\<lparr>ss_dimension_escalation := table_put d level (ss_dimension_escalation s)\<rparr>) rows)"

definition increment_escalation :: "(rat \<Rightarrow> rat) \<Rightarrow> string \<Rightarrow> string \<Rightarrow> stall_rows \<Rightarrow> rat result \<times> stall_rows" where
  "increment_escalation rnd g d rows =
     (let level = min (rnd (get_escalation_level g d rows + 1)) 3
      in case set_escalation g d level rows of (Inl e, rows') \<Rightarrow> (Inl e, rows') | (Inr _, rows') \<Rightarrow> (Inr level, rows'))"

definition reset_escalation :: "string \<Rightarrow> string \<Rightarrow> stall_rows \<Rightarrow> unit result \<times> stall_rows" where
  "reset_escalation g d rows = set_escalation g d 0 rows"

section \<open>Similarity of outputs\<close>

text \<open>A table of counts represents a multiset.\<close>

definition represents :: "(string, nat) table \<Rightarrow> string multiset \<Rightarrow> bool" where
  "represents t M \<longleftrightarrow> (\<forall>b. nullish (table_get t b) 0 = count M b)"

lemma represents_put: "represents t M \<Longrightarrow> count N b = v \<Longrightarrow> (\<And>x. x \<noteq> b \<Longrightarrow> count N x = count M x) \<Longrightarrow> represents (table_put b v t) N"
  by (auto simp: represents_def table_get_put)

lemma count_bigrams_represents: "represents (count_bigrams bs) (mset bs)"
proof -
  have "represents (foldl (\<lambda>t b. table_put b (nullish (table_get t b) 0 + 1) t) t bs) (M + mset bs)" if "represents t M" for t M
    using that
  proof (induction bs arbitrary: t M)
    case (Cons b bs)
    have "represents (table_put b (nullish (table_get t b) 0 + 1) t) (add_mset b M)"
      using Cons.prems by (intro represents_put[OF Cons.prems]) (simp_all add: represents_def)
    from Cons.IH[OF this] show ?case by simp
  qed simp
  from this[of "[]" "{#}"] show ?thesis by (simp add: count_bigrams_def represents_def)
qed

lemma match_bigrams_size:
  assumes "represents t M"
  shows "match_bigrams as t = size (mset as \<inter># M)"
proof -
  let ?f = "\<lambda>(n, t) b. let c = nullish (table_get t b) 0 in if c > 0 then (n + 1, table_put b (c - 1) t) else (n, t)"
  have "fst (foldl ?f (k, t) as) = k + size (mset as \<inter># M)" for k
    using assms
  proof (induction as arbitrary: k t M)
    case (Cons a as)
    have c: "nullish (table_get t a) 0 = count M a" using Cons.prems by (simp add: represents_def)
    show ?case
    proof (cases "a \<in># M")
      case True
      then obtain N where N: "M = add_mset a N" by (meson mset_add)
      have "represents (table_put a (count M a - 1) t) N" by (rule represents_put[OF Cons.prems]) (simp_all add: N)
      moreover have "0 < count M a" using True by simp
      ultimately show ?thesis using Cons.IH[of _ N "k + 1"] c by (simp add: N Let_def)
    next
      case False
      then have "mset (a # as) \<inter># M = mset as \<inter># M" by (simp add: inter_add_left1)
      then show ?thesis using False Cons.IH[OF Cons.prems, of k] c by (simp add: count_eq_zero_iff Let_def)
    qed
  qed simp
  from this[of 0] show ?thesis by (simp add: match_bigrams_def)
qed

text \<open>The reference: the Dice coefficient of the multisets of bigrams.\<close>

definition dice :: "string \<Rightarrow> string \<Rightarrow> rat" where
  "dice a b = of_nat (2 * size (mset (bigrams a) \<inter># mset (bigrams b))) / of_nat (length (bigrams a) + length (bigrams b))"

lemma dice_bounds: "0 \<le> dice a b" "dice a b \<le> 1"
proof -
  let ?A = "mset (bigrams a)" and ?B = "mset (bigrams b)"
  have "size (?A \<inter># ?B) \<le> size ?A" "size (?A \<inter># ?B) \<le> size ?B" 
    by (simp_all only: size_mset_mono subset_mset.inf_le1 subset_mset.inf_le2)
  then have le: "2 * size (?A \<inter># ?B) \<le> length (bigrams a) + length (bigrams b)" by simp
  show "0 \<le> dice a b" unfolding dice_def by (intro divide_nonneg_nonneg of_nat_0_le_iff)
  show "dice a b \<le> 1"
  proof (cases "length (bigrams a) + length (bigrams b) = 0")
    case False
    then show ?thesis using le unfolding dice_def by (simp only: divide_le_eq_1 of_nat_le_iff of_nat_0_less_iff) simp
  qed (simp add: dice_def)
qed

text \<open>
  The similarity behind the repetition check is the Dice coefficient of the bigrams: the loop
  over the counts computes twice the size of the intersection of the two multisets of bigrams over
  their total size (0 for texts shorter than two characters), correctly rounded. It lies in [0, 1],
  does not depend on the order of the texts, and is 1 for a text of two or more characters and itself.
\<close>
lemma similarity_is_dice_coefficient:
  assumes "ieee_rounding rnd"
  shows "string_similarity rnd a b = (if length a < 2 \<or> length b < 2 then 0 else rnd (dice a b)) \<and>
         0 \<le> string_similarity rnd a b \<and> string_similarity rnd a b \<le> 1 \<and>
         string_similarity rnd a b = string_similarity rnd b a \<and>
         (2 \<le> length a \<longrightarrow> string_similarity rnd a a = 1)"
proof -
  have empty: "bigrams s = [] \<longleftrightarrow> length s < 2" for s by (auto simp: bigrams_def)
  have eq: "string_similarity rnd a b = (if length a < 2 \<or> length b < 2 then 0 else rnd (dice a b))" for a b
  proof (cases "length a < 2 \<or> length b < 2")
    case True
    then show ?thesis using empty by (auto simp: string_similarity_def Let_def)
  next
    case False
    then have "a \<noteq> []" "b \<noteq> []" "bigrams a \<noteq> []" "bigrams b \<noteq> []" by (auto simp: empty)
    then show ?thesis using False
      by (simp add: string_similarity_def dice_def Let_def match_bigrams_size[OF count_bigrams_represents])
  qed
  have sym: "dice a b = dice b a"
    by (simp add: dice_def add.commute subset_mset.inf_commute[of "mset (bigrams a)"])
  have "dice a a = 1" if "2 \<le> length a"
  proof -
    have "length (bigrams a) \<noteq> 0" using that by (simp add: bigrams_def)
    then show ?thesis by (simp add: dice_def)
  qed
  then show ?thesis using sym dice_bounds ieee_rounding.rnd_unit[OF assms] ieee_rounding.rnd_1[OF assms]
    by (simp add: eq)
qed

section \<open>What counts as a stall\<close>

lemma adjusted_n_ge_5: "get_adjusted_n c category = Inr n \<Longrightarrow> 5 \<le> n"
proof -
  assume "get_adjusted_n c category = Inr n"
  then obtain m where m: "character_valid c" "m = 3 / 4 + of_int (cc_stall_flexibility c) * (1 / 4)"
    "n = nat \<lfloor>base_feedback_n category * m + 1 / 2\<rfloor>"
    by (auto simp: get_adjusted_n_def stall_threshold_multiplier_def split: if_splits)
  have "1 \<le> m" using m(1,2) by (simp add: character_valid_def)
  moreover have b: "5 \<le> base_feedback_n category"
    by (auto simp: base_feedback_n_def nullish_def)
  ultimately have "5 * 1 \<le> base_feedback_n category * m" by (intro mult_mono) simp_all
  then have "5 \<le> \<lfloor>base_feedback_n category * m + 1 / 2\<rfloor>" by (simp add: le_floor_iff)
  then show ?thesis using m(3) by linarith
qed

lemma slice_last_replicate: "slice_last k (xs @ replicate m x) = replicate k x" if "k \<le> m"
  using that by (simp add: slice_last_def)

lemma constant_minmax: "0 < k \<Longrightarrow> js_max (replicate k x) = x \<and> js_min (replicate k x) = x"
  by (simp add: js_max_Max js_min_Min set_replicate_conv_if)

text \<open>The verdicts on a history that ends with the same gap over the whole window.\<close>

lemma constant_history:
  assumes "ieee_rounding rnd" "2 \<le> n" "h = before @ replicate (n + 1) x"
  shows "slice_last (n + 1) h = replicate (n + 1) x" "\<not> length h < n + 1"
    "is_zero_progress rnd h \<longleftrightarrow> rnd (9 / 10) \<le> x"
    "is_achieved rnd (replicate (n + 1) x) \<longleftrightarrow> x \<le> rnd (2 / 100)"
    "\<not> has_improved rnd (replicate (n + 1) x)"
    "rnd (9 / 10) \<le> x \<Longrightarrow> \<not> x \<le> rnd (2 / 100)"
proof -
  note mono = ieee_rounding.rnd_mono[OF assms(1)] and dyadic = ieee_rounding.rnd_dyadic[OF assms(1)]
  have pos: "0 < rnd (1 / 100)" "0 < rnd (5 / 100)"
    by (simp_all add: ieee_rounding.rnd_pos[OF assms(1)])
  show w: "slice_last (n + 1) h = replicate (n + 1) x" and len: "\<not> length h < n + 1"
    using assms(3) by (simp_all only: slice_last_replicate) simp
  have w3: "slice_last 3 h = replicate 3 x" using assms(2,3) by (simp only: slice_last_replicate)
  have mm: "js_max (replicate 3 x) = x" "js_min (replicate 3 x) = x" using constant_minmax[of 3 x] by simp_all
  show "is_zero_progress rnd h \<longleftrightarrow> rnd (9 / 10) \<le> x"
    using assms(2) len pos mm ieee_rounding.rnd_0[OF assms(1)]
    by (simp add: is_zero_progress_def Let_def w3 list_all_iff set_replicate_conv_if)
  show "is_achieved rnd (replicate (n + 1) x) \<longleftrightarrow> x \<le> rnd (2 / 100)"
    by (auto simp: is_achieved_def achieved_gap_threshold_def list_all_iff)
  show "\<not> has_improved rnd (replicate (n + 1) x)"
    using pos ieee_rounding.rnd_0[OF assms(1)] by (simp add: has_improved_def min_improvement_delta_def)
  have "rnd (2 / 100) \<le> 1 / 2 ^ 1" "3 / 2 ^ 2 \<le> rnd (9 / 10)"
    using mono[of "2 / 100" "1 / 2 ^ 1"] mono[of "3 / 2 ^ 2" "9 / 10"] dyadic[of 1 1] dyadic[of 3 2] by simp_all
  then show "rnd (9 / 10) \<le> x \<Longrightarrow> \<not> x \<le> rnd (2 / 100)" by simp
qed

text \<open>
  A dimension whose gap has not moved over the window is reported exactly when it is not yet
  achieved: if the last \<open>n + 1\<close> gaps (\<open>n\<close> the number of loops for the feedback category and
  the character, at least 5) are the same, the detector reports a stall of the dimension when that
  gap is above the achieved threshold 0.02, and nothing when it is not.
\<close>
lemma constant_gap_is_stalled_unless_achieved:
  assumes "ieee_rounding rnd" "get_adjusted_n (dt_character dt) category = Inr n"
  shows "5 \<le> n \<and> check_dimension_stall rnd dt now g d (before @ replicate (n + 1) x) category None =
           Inr (if x \<le> rnd (2 / 100) then None
                else Some (make_report Dimension_Stall g (Some d) None now Approach_Failure (rnd (6 / 10)) None))"
proof -
  define h where "h = before @ replicate (n + 1) x"
  have n: "5 \<le> n" by (rule adjusted_n_ge_5[OF assms(2)])
  note c = constant_history[OF assms(1) _ h_def]
  show ?thesis unfolding h_def[symmetric]
    using assms(2) n c by (simp add: check_dimension_stall_def check_metric_trend_stall_def Let_def decay_factor_stalled_def del: replicate_Suc)
qed

definition sample_detector :: detector where
  "sample_detector = \<lparr>dt_character = \<lparr>cc_caution_level = 2, cc_stall_flexibility = 1, cc_communication_directness = 3,
     cc_proactivity_level = 2\<rparr>, dt_predictor = None\<rparr>"

text \<open>
  The global check overlooks the worst dimensions. Take a goal with one achieved dimension and
  one that does not move. Stuck at a gap above 0.02 and below 0.9, the goal is reported as globally
  stalled; stuck at 0.9 or more, with no progress at all, it is not: a dimension without progress
  counts with the achieved ones as soon as one is achieved.
\<close>
lemma zero_progress_hides_global_stall:
  assumes "ieee_rounding rnd" "2 \<le> n" "a \<le> rnd (2 / 100)"
  shows "check_global_stall rnd now g [(d1, replicate (n + 1) a), (d2, replicate (n + 1) x)] n =
           (if x \<le> rnd (2 / 100) \<or> rnd (9 / 10) \<le> x then None
            else Some (make_report Global_Stall g None None now Goal_Infeasible (rnd (6 / 10)) None))"
proof -
  define ha hx where "ha = [] @ replicate (n + 1) a" and "hx = [] @ replicate (n + 1) x"
  note c = constant_history[OF assms(1,2) ha_def] constant_history[OF assms(1,2) hx_def]
  have h: "replicate (n + 1) a = ha" "replicate (n + 1) x = hx" by (simp_all add: ha_def hx_def)
  show ?thesis unfolding h
    using c assms(3) by (auto simp: check_global_stall_def Let_def decay_factor_stalled_def simp del: replicate_Suc)
qed

end
