(* ===== verification/Record_Lifecycle.thy ===== *)
theory Record_Lifecycle
  imports PS_Prelude
begin

text \<open>
  The contract of a table whose records have a life cycle: an operation may move a record forward,
  but a settled record stays settled and keeps its settlement. Permission grants, approvals and
  permission wait plans are its instances; the lemmas carry the contract to every sequence of
  operations.
\<close>

locale settled_records =
  fixes step :: "'op \<Rightarrow> ('k, 'r) table \<Rightarrow> ('k, 'r) table"
    and wf :: "('k, 'r) table \<Rightarrow> bool"
    and settled :: "'r \<Rightarrow> bool"
    and same :: "'r \<Rightarrow> 'r \<Rightarrow> bool"
  assumes step_wf: "wf t \<Longrightarrow> wf (step a t)"
    and step_settled: "wf t \<Longrightarrow> table_get t k = Some r \<Longrightarrow> settled r \<Longrightarrow>
          \<exists>r'. table_get (step a t) k = Some r' \<and> settled r' \<and> same r r'"
    and same_refl: "same r r"
    and same_trans: "same r r' \<Longrightarrow> same r' r'' \<Longrightarrow> same r r''"
begin

lemma run_wf: "wf t \<Longrightarrow> wf (fold step as t)"
  by (induction as arbitrary: t) (simp_all add: step_wf)

lemma run_settled:
  "wf t \<Longrightarrow> table_get t k = Some r \<Longrightarrow> settled r \<Longrightarrow>
   \<exists>r'. table_get (fold step as t) k = Some r' \<and> settled r' \<and> same r r'"
proof (induction as arbitrary: t r)
  case Nil
  then show ?case using same_refl by auto
next
  case (Cons a as)
  obtain r1 where r1: "table_get (step a t) k = Some r1" "settled r1" "same r r1"
    using step_settled[OF Cons.prems] by blast
  obtain r' where "table_get (fold step as (step a t)) k = Some r'" "settled r'" "same r1 r'"
    using Cons.IH[OF step_wf[OF Cons.prems(1)] r1(1,2)] by blast
  then show ?case using same_trans[OF r1(3)] by auto
qed

text \<open>Whatever is settled between two points of a run was decided once.\<close>

lemma run_split:
  "wf t \<Longrightarrow> table_get (fold step as t) k = Some r \<Longrightarrow> settled r \<Longrightarrow>
   \<exists>r'. table_get (fold step (as @ bs) t) k = Some r' \<and> settled r' \<and> same r r'"
  using run_settled[OF run_wf] by simp

end

end
