(* ===== verification/Json_Values.thy ===== *)
theory Json_Values
  imports Js_Numbers "HOL-Library.Multiset"
begin

text \<open>
  Untyped values: what \<open>JSON.parse\<close> gives and what a tool gets as its input. An object is the
  insertion-ordered list of its properties; a property that is absent or \<open>undefined\<close> is not in it.
\<close>

datatype json =
  J_Null | J_Bool bool | J_Number js_number | J_String string | J_Array "json list" | J_Object "(string \<times> json) list"

fun json_field :: "json \<Rightarrow> string \<Rightarrow> json option" where
  "json_field (J_Object fields) k = map_of fields k"
| "json_field v k = None"

text \<open>\<open>typeof v === "object" && v !== null\<close>.\<close>

fun is_json_object :: "json \<Rightarrow> bool" where
  "is_json_object (J_Object fields) = True"
| "is_json_object (J_Array vs) = True"
| "is_json_object v = False"

section \<open>Texts that do not depend on the order of keys\<close>

text \<open>
  \<open>sortJson\<close> orders the properties of every object by name, \<open>JSON.stringify\<close> then writes the
  value. What is written stands for the value but for the numbers \<open>NaN\<close> and \<open>Infinity\<close>, which it
  writes as \<open>null\<close>; so two texts are equal exactly when the values below are.
\<close>

fun sort_json :: "json \<Rightarrow> json" where
  "sort_json (J_Array vs) = J_Array (map sort_json vs)"
| "sort_json (J_Object fields) = J_Object (sort_key fst (map (\<lambda>f. (fst f, sort_json (snd f))) fields))"
| "sort_json v = v"

fun written :: "json \<Rightarrow> json" where
  "written (J_Array vs) = J_Array (map written vs)"
| "written (J_Object fields) = J_Object (map (\<lambda>f. (fst f, written (snd f))) fields)"
| "written (J_Number (Fin r)) = J_Number (Fin r)"
| "written (J_Number n) = J_Null"
| "written v = v"

definition stable_json :: "json \<Rightarrow> json" where
  "stable_json v = written (sort_json v)"

text \<open>The names of an object are distinct, at every depth.\<close>

fun json_wf :: "json \<Rightarrow> bool" where
  "json_wf (J_Array vs) \<longleftrightarrow> (\<forall>v \<in> set vs. json_wf v)"
| "json_wf (J_Object fields) \<longleftrightarrow> distinct (map fst fields) \<and> (\<forall>f \<in> set fields. json_wf (snd f))"
| "json_wf v \<longleftrightarrow> True"

text \<open>The values that are the same up to the order of properties.\<close>

fun is_leaf :: "json \<Rightarrow> bool" where
  "is_leaf (J_Array vs) = False"
| "is_leaf (J_Object fields) = False"
| "is_leaf v = True"

inductive json_same :: "json \<Rightarrow> json \<Rightarrow> bool" where
  leaf: "is_leaf v \<Longrightarrow> is_leaf w \<Longrightarrow> written v = written w \<Longrightarrow> json_same v w"
| arrays: "list_all2 json_same vs ws \<Longrightarrow> json_same (J_Array vs) (J_Array ws)"
| objects: "mset fs = mset fs' \<Longrightarrow> mset gs = mset gs' \<Longrightarrow>
     list_all2 (\<lambda>f g. fst f = fst g \<and> json_same (snd f) (snd g)) fs' gs' \<Longrightarrow> json_same (J_Object fs) (J_Object gs)"

inductive_simps json_same_objects: "json_same (J_Object fs) (J_Object gs)"
inductive_simps json_same_arrays: "json_same (J_Array vs) (J_Array ws)"

lemma sort_map_keys:
  fixes fs :: "('k::linorder \<times> 'v) list" and h :: "'v \<Rightarrow> 'w"
  shows "sort_key fst (map (\<lambda>f. (fst f, h (snd f))) fs) = map (\<lambda>f. (fst f, h (snd f))) (sort_key fst fs)"
proof -
  have ins: "insort_key fst (fst f, h (snd f)) (map (\<lambda>f. (fst f, h (snd f))) fs) = map (\<lambda>f. (fst f, h (snd f))) (insort_key fst f fs)"
    for f and fs
    by (induction fs) auto
  show ?thesis by (induction fs) (simp_all add: ins)
qed

lemma stable_json_simps [simp]:
  "stable_json (J_Array vs) = J_Array (map stable_json vs)"
  "stable_json (J_Object fields) = J_Object (map (\<lambda>f. (fst f, stable_json (snd f))) (sort_key fst fields))"
  "is_leaf v \<Longrightarrow> stable_json v = written v"
proof -
  show "stable_json (J_Object fields) = J_Object (map (\<lambda>f. (fst f, stable_json (snd f))) (sort_key fst fields))"
    by (simp add: stable_json_def sort_map_keys)
  show "stable_json (J_Array vs) = J_Array (map stable_json vs)" by (simp add: stable_json_def)
  show "is_leaf v \<Longrightarrow> stable_json v = written v" by (cases v) (simp_all add: stable_json_def)
qed

lemma json_same_stable: "json_same v w \<Longrightarrow> json_wf v \<Longrightarrow> json_wf w \<Longrightarrow> stable_json v = stable_json w"
proof (induction v w rule: json_same.induct)
  case (leaf v w)
  then show ?case by simp
next
  case (arrays vs ws)
  have "map stable_json vs = map stable_json ws"
    using arrays.IH arrays.prems by (auto simp: list_all2_conv_all_nth intro!: nth_equalityI)
  then show ?case by simp
next
  case (objects fs fs' gs gs')
  let ?h = "\<lambda>f. (fst f, stable_json (snd f))"
  have sets: "set fs = set fs'" "set gs = set gs'" using objects.hyps by (auto dest: mset_eq_setD)
  have "map ?h fs' = map ?h gs'"
    using objects.IH objects.prems sets by (auto simp: list_all2_conv_all_nth intro!: nth_equalityI)
  then have "map ?h (sort_key fst fs') = map ?h (sort_key fst gs')"
    using sort_map_keys[of stable_json fs'] sort_map_keys[of stable_json gs'] by simp
  moreover have "sort_key fst fs = sort_key fst fs'" "sort_key fst gs = sort_key fst gs'"
    using objects.hyps objects.prems by (auto intro!: sort_key_eq_sort_key simp: distinct_map)
  ultimately show ?case by simp
qed

lemma written_leaf: "is_leaf v \<Longrightarrow> is_leaf (written v)"
  by (cases v rule: written.cases) simp_all

lemma stable_json_shape:
  "stable_json w = J_Array vs \<Longrightarrow> \<exists>ws. w = J_Array ws"
  "stable_json w = J_Object fs \<Longrightarrow> \<exists>gs. w = J_Object gs"
  "is_leaf (stable_json w) \<Longrightarrow> is_leaf w"
  using written_leaf[of w] by (cases w; auto)+

lemma map_eq_list_all2:
  "map h xs = map h ys \<Longrightarrow> (\<And>x y. x \<in> set xs \<Longrightarrow> h x = h y \<Longrightarrow> R x y) \<Longrightarrow> list_all2 R xs ys"
  by (induction xs arbitrary: ys) (auto simp: Cons_eq_map_conv)

lemma stable_json_same: "stable_json v = stable_json w \<Longrightarrow> json_same v w"
proof (induction v arbitrary: w)
  case (J_Array vs)
  obtain ws where "w = J_Array ws"
    using stable_json_shape(1)[OF J_Array.prems[symmetric, unfolded stable_json_simps]] by blast
  with J_Array.prems have w: "w = J_Array ws" "map stable_json vs = map stable_json ws" by simp_all
  then have "list_all2 json_same vs ws"
    by (intro map_eq_list_all2[OF w(2)]) (rule J_Array.IH)
  then show ?case using w by (simp add: json_same.arrays)
next
  case (J_Object fs)
  let ?h = "\<lambda>f. (fst f, stable_json (snd f))"
  obtain gs where "w = J_Object gs"
    using stable_json_shape(2)[OF J_Object.prems[symmetric, unfolded stable_json_simps]] by blast
  with J_Object.prems have w: "w = J_Object gs" "map ?h (sort_key fst fs) = map ?h (sort_key fst gs)" by simp_all
  have IH: "json_same (snd f) w'" if "f \<in> set (sort_key fst fs)" "stable_json (snd f) = stable_json w'" for f w'
    using J_Object.IH[of f "snd f" w'] that by (cases f) auto
  have "list_all2 (\<lambda>f g. fst f = fst g \<and> json_same (snd f) (snd g)) (sort_key fst fs) (sort_key fst gs)"
    by (rule map_eq_list_all2[OF w(2)]) (use IH in auto)
  then show ?case unfolding w(1) by (intro json_same.objects[where fs' = "sort_key fst fs" and gs' = "sort_key fst gs"]) simp_all
qed (metis is_leaf.simps(3-6) json_same.leaf stable_json_shape(3) stable_json_simps(3) written_leaf)+

lemma stable_json_eq: "json_wf v \<Longrightarrow> json_wf w \<Longrightarrow> stable_json v = stable_json w \<longleftrightarrow> json_same v w"
  using json_same_stable stable_json_same by blast

text \<open>Equal texts have equal fields.\<close>

lemma json_same_field:
  assumes "json_same (J_Object fs) (J_Object gs)" "distinct (map fst fs)" "distinct (map fst gs)" "map_of fs k = Some v"
  shows "\<exists>w. map_of gs k = Some w \<and> json_same v w"
proof -
  obtain fs' gs' where perm: "mset fs = mset fs'" "mset gs = mset gs'"
    and all: "list_all2 (\<lambda>f g. fst f = fst g \<and> json_same (snd f) (snd g)) fs' gs'"
    using assms(1) unfolding json_same_objects by (auto simp: is_leaf.simps)
  have "(k, v) \<in> set fs'" using map_of_SomeD[OF assms(4)] mset_eq_setD[OF perm(1)] by simp
  then obtain w where "(k, w) \<in> set gs'" "json_same v w"
    using all by (force simp: list_all2_conv_all_nth in_set_conv_nth)
  moreover have "set gs' = set gs" using mset_eq_setD[OF perm(2)] by simp
  ultimately show ?thesis using assms(3) by auto
qed

section \<open>Reading values with a schema\<close>

text \<open>
  \<open>z.object\<close> accepts objects that are no arrays. Of a field: \<open>z.string().min(1)\<close>, with
  \<open>.optional()\<close>; \<open>z.boolean().optional()\<close>; \<open>z.number().int().nonnegative().safe().optional()\<close>.
\<close>

fun is_record :: "json \<Rightarrow> bool" where
  "is_record (J_Object fields) = True"
| "is_record v = False"

definition text_field :: "json \<Rightarrow> string \<Rightarrow> string option" where
  "text_field v k = (case json_field v k of Some (J_String s) \<Rightarrow> Some s | _ \<Rightarrow> None)"

definition has_text :: "json \<Rightarrow> string \<Rightarrow> bool" where
  "has_text v k \<longleftrightarrow> truthy (text_field v k)"

definition may_text :: "json \<Rightarrow> string \<Rightarrow> bool" where
  "may_text v k \<longleftrightarrow> json_field v k = None \<or> has_text v k"

fun json_int :: "json \<Rightarrow> int option" where
  "json_int (J_Number (Fin r)) = (if snd (quotient_of r) = 1 then Some (fst (quotient_of r)) else None)"
| "json_int v = None"

definition may_count :: "json \<Rightarrow> string \<Rightarrow> bool" where
  "may_count v k \<longleftrightarrow> (case json_field v k of None \<Rightarrow> True | Some w \<Rightarrow> (case json_int w of Some n \<Rightarrow> safe_nonneg n | None \<Rightarrow> False))"

definition may_bool :: "json \<Rightarrow> string \<Rightarrow> bool" where
  "may_bool v k \<longleftrightarrow> (case json_field v k of None \<Rightarrow> True | Some (J_Bool b) \<Rightarrow> True | _ \<Rightarrow> False)"

definition bool_field :: "json \<Rightarrow> string \<Rightarrow> bool option" where
  "bool_field v k = (case json_field v k of Some (J_Bool b) \<Rightarrow> Some b | _ \<Rightarrow> None)"

text \<open>\<open>z.array(z.enum(names))\<close>, with at least \<open>n\<close> elements.\<close>

definition enum_list :: "nat \<Rightarrow> string list \<Rightarrow> json \<Rightarrow> bool" where
  "enum_list n names v = (case v of
     J_Array vs \<Rightarrow> n \<le> length vs \<and> list_all (\<lambda>w. case w of J_String s \<Rightarrow> s \<in> set names | _ \<Rightarrow> False) vs
   | _ \<Rightarrow> False)"

end
