(* ===== verification/Wait_Plans.thy ===== *)
theory Wait_Plans
  imports Record_Lifecycle Json_Values
begin

text \<open>
  Permission wait plans: \<open>src/runtime/store/permission-wait-plan-store.ts\<close>. A tool call that waits
  for permission is stored with the plan it was asked for; when the answer is there, the call may
  be resumed with a plan that is the same.

  The table \<open>permission_wait_plans\<close> is an association table from id to record. Creation is one
  transaction. The other operations load the record, decide, and save in a transaction of its own:
  their argument \<open>others\<close> is what other operations do to the table in between. \<open>now\<close> is the clock
  after the load, \<open>eid\<close> the id made up for the audit event. Numbers are integers, as for grants.
\<close>

section \<open>The records\<close>

datatype wait_state =
  Waiting_For_Permission | Plan_Approved | Plan_Denied | Plan_Expired | Plan_Cancelled | Plan_Resumed | Mismatch_Rejected

record plan_target =
  pt_goal_id :: "string option"
  pt_run_id :: "string option"
  pt_session_id :: "string option"
  pt_turn_id :: "string option"
  pt_tool_call_id :: "string option"

datatype reversibility = Reversible | Irreversible | Reversibility_Unknown

record plan_permission =
  pp_permission_level :: string
  pp_is_destructive :: bool
  pp_reversibility :: reversibility

record capability_facts =
  cf_tool_permission_level :: string
  cf_tool_is_read_only :: bool
  cf_tool_is_destructive :: bool
  cf_tool_requires_network :: "bool option"
  cf_tool_activity_category :: "string option"
  cf_tool_tags :: "string list"
  cf_capability_id :: "string option"
  cf_capability_provider_kind :: "string option"
  cf_capability_provider_ref :: "string option"
  cf_capability_operation_kind :: "string option"
  cf_capability_side_effect_profile :: "string option"
  cf_capability_readiness_state :: "string option"
  cf_capability_approval_fingerprint :: "string option"
  cf_capability_admission_id :: "string option"
  cf_capability_admission_status :: "string option"
  cf_host_decision_status :: "string option"
  cf_host_decision_reason :: "string option"
  cf_permission_grant_status :: "string option"
  cf_permission_grant_reason :: "string option"

record canonical_plan =
  cp_tool_name :: string
  cp_input :: "json option"
  cp_cwd :: string
  cp_command :: "string option"
  cp_target :: plan_target
  cp_permission :: plan_permission
  cp_state_epoch :: "string option"
  cp_capability_facts :: capability_facts

record approval_origin =
  ao_channel :: string
  ao_conversation_id :: string
  ao_user_id :: "string option"
  ao_session_id :: "string option"
  ao_turn_id :: "string option"
  ao_reply_target :: "json option"

record plan_event =
  pe_event_id :: string
  pe_state :: wait_state
  pe_created_at :: int
  pe_reason :: "string option"
  pe_response_channel :: "string option"
  pe_audit_refs :: "string list"
  pe_mismatch_reasons :: "string list option"

record wait_plan =
  wp_wait_plan_id :: string
  wp_approval_id :: string
  wp_goal_id :: "string option"
  wp_state :: wait_state
  wp_created_at :: int
  wp_updated_at :: int
  wp_expires_at :: "int option"
  wp_resolved_at :: "int option"
  wp_resumed_at :: "int option"
  wp_origin :: "approval_origin option"
  wp_canonical_plan :: canonical_plan
  wp_audit_refs :: "string list"
  wp_audit_events :: "plan_event list"

abbreviation (input) filled :: "string \<Rightarrow> bool" where
  "filled s \<equiv> s \<noteq> []"

definition target_valid :: "plan_target \<Rightarrow> bool" where
  "target_valid t \<longleftrightarrow> list_all (opt_all filled) [pt_goal_id t, pt_run_id t, pt_session_id t, pt_turn_id t, pt_tool_call_id t]"

definition facts_valid :: "capability_facts \<Rightarrow> bool" where
  "facts_valid f \<longleftrightarrow> filled (cf_tool_permission_level f) \<and>
     list_all (opt_all filled)
       [cf_tool_activity_category f, cf_capability_id f, cf_capability_provider_kind f, cf_capability_provider_ref f,
        cf_capability_operation_kind f, cf_capability_side_effect_profile f, cf_capability_readiness_state f,
        cf_capability_approval_fingerprint f, cf_capability_admission_id f, cf_capability_admission_status f,
        cf_host_decision_status f, cf_host_decision_reason f, cf_permission_grant_status f, cf_permission_grant_reason f]"

definition canonical_plan_valid :: "canonical_plan \<Rightarrow> bool" where
  "canonical_plan_valid p \<longleftrightarrow> filled (cp_tool_name p) \<and> filled (cp_cwd p) \<and> opt_all filled (cp_command p) \<and>
     target_valid (cp_target p) \<and> filled (pp_permission_level (cp_permission p)) \<and> opt_all filled (cp_state_epoch p) \<and>
     facts_valid (cp_capability_facts p)"

definition approval_origin_valid :: "approval_origin \<Rightarrow> bool" where
  "approval_origin_valid og \<longleftrightarrow> filled (ao_channel og) \<and> filled (ao_conversation_id og) \<and>
     list_all (opt_all filled) [ao_user_id og, ao_session_id og, ao_turn_id og]"

definition event_valid :: "plan_event \<Rightarrow> bool" where
  "event_valid e \<longleftrightarrow> filled (pe_event_id e) \<and> safe_nonneg (pe_created_at e) \<and> opt_all filled (pe_reason e) \<and>
     opt_all filled (pe_response_channel e)"

definition wait_plan_valid :: "wait_plan \<Rightarrow> bool" where
  "wait_plan_valid r \<longleftrightarrow> filled (wp_wait_plan_id r) \<and> filled (wp_approval_id r) \<and> opt_all filled (wp_goal_id r) \<and>
     safe_nonneg (wp_created_at r) \<and> safe_nonneg (wp_updated_at r) \<and>
     list_all (opt_all safe_nonneg) [wp_expires_at r, wp_resolved_at r, wp_resumed_at r] \<and>
     opt_all approval_origin_valid (wp_origin r) \<and> canonical_plan_valid (wp_canonical_plan r) \<and>
     list_all event_valid (wp_audit_events r)"

definition is_terminal_wait_state :: "wait_state \<Rightarrow> bool" where
  "is_terminal_wait_state s \<longleftrightarrow> s = Plan_Denied \<or> s = Plan_Expired \<or> s = Plan_Cancelled \<or> s = Plan_Resumed \<or> s = Mismatch_Rejected"

section \<open>Comparing plans\<close>

text \<open>
  Target, permission and facts have fields of texts and booleans only, so that their sorted JSON is
  the same exactly when they are equal; an absent input has no text.
\<close>

definition diff_permission_wait_canonical_plans :: "canonical_plan \<Rightarrow> canonical_plan \<Rightarrow> string list" where
  "diff_permission_wait_canonical_plans p q =
     (if cp_tool_name p \<noteq> cp_tool_name q then [''tool_name_changed''] else []) @
     (if cp_cwd p \<noteq> cp_cwd q then [''cwd_changed''] else []) @
     (if cp_command p \<noteq> cp_command q then [''command_changed''] else []) @
     (if cp_state_epoch p \<noteq> cp_state_epoch q then [''state_epoch_changed''] else []) @
     (if cp_target p \<noteq> cp_target q then [''target_changed''] else []) @
     (if cp_permission p \<noteq> cp_permission q then [''permission_changed''] else []) @
     (if cp_capability_facts p \<noteq> cp_capability_facts q then [''capability_facts_changed''] else []) @
     (if map_option stable_json (cp_input p) \<noteq> map_option stable_json (cp_input q) then [''input_changed''] else [])"

section \<open>The operations\<close>

type_synonym wait_table = "(string, wait_plan) table"

definition read_permission_wait_plan :: "wait_table \<Rightarrow> string \<Rightarrow> wait_plan option result" where
  "read_permission_wait_plan t w = (case table_get t w of
     None \<Rightarrow> Inr None
   | Some r \<Rightarrow> if wait_plan_valid r then Inr (Some r) else Inl SchemaError)"

definition list_permission_wait_plans :: "(wait_plan \<Rightarrow> bool) \<Rightarrow> wait_table \<Rightarrow> wait_plan list result" where
  "list_permission_wait_plans P t =
     (let rows = sort_key (\<lambda>r. (wp_updated_at r, wp_wait_plan_id r)) (filter P (map snd t))
      in if list_all wait_plan_valid rows then Inr rows else Inl SchemaError)"

definition upsert_permission_wait_plan :: "wait_plan \<Rightarrow> wait_table \<Rightarrow> wait_table" where
  "upsert_permission_wait_plan r t = table_put (wp_wait_plan_id r) r t"

definition save_wait_plan :: "wait_plan \<Rightarrow> wait_table \<Rightarrow> wait_plan result \<times> wait_table" where
  "save_wait_plan r t = (if wait_plan_valid r then (Inr r, upsert_permission_wait_plan r t) else (Inl SchemaError, t))"

definition plan_event_of ::
  "string \<Rightarrow> int \<Rightarrow> wait_state \<Rightarrow> string option \<Rightarrow> string option \<Rightarrow> string list \<Rightarrow> string list option \<Rightarrow> plan_event" where
  "plan_event_of eid now s why channel refs mismatch =
     \<lparr>pe_event_id = eid, pe_state = s, pe_created_at = now, pe_reason = (if truthy why then why else None),
      pe_response_channel = (if truthy channel then channel else None), pe_audit_refs = refs, pe_mismatch_reasons = mismatch\<rparr>"

record wait_input =
  wi_wait_plan_id :: string
  wi_approval_id :: "string option"
  wi_goal_id :: "string option"
  wi_expires_at :: "int option"
  wi_origin :: "approval_origin option"
  wi_canonical_plan :: canonical_plan
  wi_audit_refs :: "string list option"

definition waiting_plan :: "wait_input \<Rightarrow> int \<Rightarrow> string \<Rightarrow> wait_plan" where
  "waiting_plan input now eid =
     \<lparr>wp_wait_plan_id = wi_wait_plan_id input, wp_approval_id = nullish (wi_approval_id input) (wi_wait_plan_id input),
      wp_goal_id = (if truthy (wi_goal_id input) then wi_goal_id input else None), wp_state = Waiting_For_Permission,
      wp_created_at = now, wp_updated_at = now,
      wp_expires_at = (if wi_expires_at input = Some 0 then None else wi_expires_at input),
      wp_resolved_at = None, wp_resumed_at = None, wp_origin = wi_origin input, wp_canonical_plan = wi_canonical_plan input,
      wp_audit_refs = nullish (wi_audit_refs input) [],
      wp_audit_events = [plan_event_of eid now Waiting_For_Permission (Some ''approval_required'') None
        (nullish (wi_audit_refs input) []) None]\<rparr>"

definition create_waiting :: "wait_input \<Rightarrow> int \<Rightarrow> string \<Rightarrow> wait_table \<Rightarrow> wait_plan result \<times> wait_table" where
  "create_waiting input now eid t = (case read_permission_wait_plan t (wi_wait_plan_id input) of
     Inl e \<Rightarrow> (Inl e, t)
   | Inr (Some r) \<Rightarrow> (Inr r, t)
   | Inr None \<Rightarrow> save_wait_plan (waiting_plan input now eid) t)"

definition merge_refs :: "string list \<Rightarrow> string list \<Rightarrow> string list" where
  "merge_refs existing additions = uniq (existing @ additions)"

record resolution =
  rs_resolved_at :: "int option"
  rs_response_channel :: "string option"
  rs_reason :: "string option"
  rs_audit_refs :: "string list option"

definition transitioned :: "wait_state \<Rightarrow> resolution \<Rightarrow> int \<Rightarrow> string \<Rightarrow> wait_plan \<Rightarrow> wait_plan" where
  "transitioned s input now eid r =
     (let time = nullish (rs_resolved_at input) now; refs = nullish (rs_audit_refs input) []
      in r\<lparr>wp_state := s, wp_updated_at := time, wp_resolved_at := Some time, wp_audit_refs := merge_refs (wp_audit_refs r) refs,
           wp_audit_events := wp_audit_events r @
             [plan_event_of eid now s (rs_reason input) (rs_response_channel input) refs None]\<rparr>)"

definition transition ::
  "string \<Rightarrow> wait_state \<Rightarrow> resolution \<Rightarrow> int \<Rightarrow> string \<Rightarrow> (wait_table \<Rightarrow> wait_table) \<Rightarrow> wait_table \<Rightarrow>
   wait_plan option result \<times> wait_table" where
  "transition w s input now eid others t = (case read_permission_wait_plan t w of
     Inl e \<Rightarrow> (Inl e, t)
   | Inr None \<Rightarrow> (Inr None, t)
   | Inr (Some current) \<Rightarrow>
       if is_terminal_wait_state (wp_state current) \<or> wp_state current = s then (Inr (Some current), t)
       else (case save_wait_plan (transitioned s input now eid current) (others t) of
               (Inl e, t') \<Rightarrow> (Inl e, t') | (Inr r, t') \<Rightarrow> (Inr (Some r), t')))"

definition mark_approved ::
  "string \<Rightarrow> resolution \<Rightarrow> int \<Rightarrow> string \<Rightarrow> (wait_table \<Rightarrow> wait_table) \<Rightarrow> wait_table \<Rightarrow> wait_plan option result \<times> wait_table" where
  "mark_approved w input = transition w Plan_Approved (input\<lparr>rs_reason := None\<rparr>)"

definition mark_denied ::
  "string \<Rightarrow> resolution \<Rightarrow> int \<Rightarrow> string \<Rightarrow> (wait_table \<Rightarrow> wait_table) \<Rightarrow> wait_table \<Rightarrow> wait_plan option result \<times> wait_table" where
  "mark_denied w input = transition w Plan_Denied input"

definition mark_expired ::
  "string \<Rightarrow> resolution \<Rightarrow> int \<Rightarrow> string \<Rightarrow> (wait_table \<Rightarrow> wait_table) \<Rightarrow> wait_table \<Rightarrow> wait_plan option result \<times> wait_table" where
  "mark_expired w input =
     transition w Plan_Expired (input\<lparr>rs_response_channel := None, rs_reason := Some (nullish (rs_reason input) ''approval_expired'')\<rparr>)"

definition mark_cancelled ::
  "string \<Rightarrow> resolution \<Rightarrow> int \<Rightarrow> string \<Rightarrow> (wait_table \<Rightarrow> wait_table) \<Rightarrow> wait_table \<Rightarrow> wait_plan option result \<times> wait_table" where
  "mark_cancelled w input = transition w Plan_Cancelled input"

datatype resume_result =
  Resumed wait_plan | Rejected wait_plan "string list" | Expired_Plan wait_plan | Not_Approved wait_plan | Not_Found

definition rejected_plan :: "string list \<Rightarrow> string list \<Rightarrow> int \<Rightarrow> string \<Rightarrow> wait_plan \<Rightarrow> wait_plan" where
  "rejected_plan mismatch refs now eid r =
     r\<lparr>wp_state := Mismatch_Rejected, wp_updated_at := now, wp_resolved_at := Some now,
       wp_audit_refs := merge_refs (wp_audit_refs r) refs,
       wp_audit_events := wp_audit_events r @
         [plan_event_of eid now Mismatch_Rejected (Some ''canonical_plan_mismatch'') None refs (Some mismatch)]\<rparr>"

definition resumed_plan :: "int option \<Rightarrow> string list \<Rightarrow> int \<Rightarrow> string \<Rightarrow> wait_plan \<Rightarrow> wait_plan" where
  "resumed_plan resumed_at refs now eid r =
     (let time = nullish resumed_at now
      in r\<lparr>wp_state := Plan_Resumed, wp_resumed_at := Some time, wp_updated_at := time,
           wp_audit_refs := merge_refs (wp_audit_refs r) refs,
           wp_audit_events := wp_audit_events r @
             [plan_event_of eid now Plan_Resumed (Some ''approved_plan_resumed'') None refs None]\<rparr>)"

definition lapsed :: "wait_plan \<Rightarrow> int \<Rightarrow> bool" where
  "lapsed r now \<longleftrightarrow> (wp_state r = Waiting_For_Permission \<or> wp_state r = Plan_Approved) \<and>
     (case wp_expires_at r of Some e \<Rightarrow> e \<le> now | None \<Rightarrow> False)"

text \<open>
  An expired plan is marked by \<open>markExpired\<close>, which loads again: \<open>others\<close> is what happens before, and
  \<open>others'\<close> what happens inside of it, at \<open>later\<close>.
\<close>

definition resume_approved ::
  "string \<Rightarrow> canonical_plan \<Rightarrow> int option \<Rightarrow> string list option \<Rightarrow> int \<Rightarrow> int \<Rightarrow> string \<Rightarrow>
   (wait_table \<Rightarrow> wait_table) \<Rightarrow> (wait_table \<Rightarrow> wait_table) \<Rightarrow> wait_table \<Rightarrow> resume_result result \<times> wait_table" where
  "resume_approved w plan resumed_at refs now later eid others others' t = (case read_permission_wait_plan t w of
     Inl e \<Rightarrow> (Inl e, t)
   | Inr None \<Rightarrow> (Inr Not_Found, t)
   | Inr (Some current) \<Rightarrow>
       if wp_state current = Plan_Expired then (Inr (Expired_Plan current), t)
       else if lapsed current now
       then (case mark_expired w \<lparr>rs_resolved_at = Some now, rs_response_channel = None,
                      rs_reason = Some ''approval_expired_before_resume'', rs_audit_refs = refs\<rparr> later eid others' (others t) of
               (Inl e, t') \<Rightarrow> (Inl e, t') | (Inr r, t') \<Rightarrow> (Inr (Expired_Plan (nullish r current)), t'))
       else if wp_state current \<noteq> Plan_Approved then (Inr (Not_Approved current), t)
       else let mismatch = diff_permission_wait_canonical_plans (wp_canonical_plan current) plan in
         if mismatch \<noteq> []
         then (case save_wait_plan (rejected_plan mismatch (nullish refs []) now eid current) (others t) of
                 (Inl e, t') \<Rightarrow> (Inl e, t') | (Inr r, t') \<Rightarrow> (Inr (Rejected r mismatch), t'))
         else (case save_wait_plan (resumed_plan resumed_at (nullish refs []) now eid current) (others t) of
                 (Inl e, t') \<Rightarrow> (Inl e, t') | (Inr r, t') \<Rightarrow> (Inr (Resumed r), t')))"

definition import_legacy_wait_plan :: "wait_plan \<Rightarrow> wait_table \<Rightarrow> wait_plan result \<times> wait_table" where
  "import_legacy_wait_plan r t = save_wait_plan r t"

section \<open>Runs\<close>

text \<open>The operations one after the other; \<open>importLegacyRecord\<close> belongs to the migration and is left out.\<close>

datatype wait_op =
  W_Create wait_input int string
| W_Approve string resolution int string
| W_Deny string resolution int string
| W_Expire string resolution int string
| W_Cancel string resolution int string
| W_Resume string canonical_plan "int option" "string list option" int int string

fun wait_step :: "wait_op \<Rightarrow> wait_table \<Rightarrow> wait_table" where
  "wait_step (W_Create input now eid) t = snd (create_waiting input now eid t)"
| "wait_step (W_Approve w input now eid) t = snd (mark_approved w input now eid id t)"
| "wait_step (W_Deny w input now eid) t = snd (mark_denied w input now eid id t)"
| "wait_step (W_Expire w input now eid) t = snd (mark_expired w input now eid id t)"
| "wait_step (W_Cancel w input now eid) t = snd (mark_cancelled w input now eid id t)"
| "wait_step (W_Resume w plan resumed_at refs now later eid) t = snd (resume_approved w plan resumed_at refs now later eid id id t)"

definition resumes_plan :: "string \<Rightarrow> wait_op \<Rightarrow> wait_table \<Rightarrow> bool" where
  "resumes_plan w a t = (case a of
     W_Resume v plan resumed_at refs now later eid \<Rightarrow> v = w \<and>
       (case fst (resume_approved w plan resumed_at refs now later eid id id t) of Inr (Resumed r) \<Rightarrow> True | _ \<Rightarrow> False)
   | _ \<Rightarrow> False)"

fun resumptions :: "string \<Rightarrow> wait_op list \<Rightarrow> wait_table \<Rightarrow> nat" where
  "resumptions w [] t = 0"
| "resumptions w (a # as) t = (if resumes_plan w a t then 1 else 0) + resumptions w as (wait_step a t)"

definition wait_table_ok :: "wait_table \<Rightarrow> bool" where
  "wait_table_ok t \<longleftrightarrow> table_wf t \<and> (\<forall>w r. table_get t w = Some r \<longrightarrow> wp_wait_plan_id r = w \<and> wait_plan_valid r)"

abbreviation terminal_plan :: "wait_plan \<Rightarrow> bool" where
  "terminal_plan r \<equiv> is_terminal_wait_state (wp_state r)"

lemma wait_table_okD: "wait_table_ok t \<Longrightarrow> table_get t w = Some r \<Longrightarrow> wp_wait_plan_id r = w \<and> wait_plan_valid r"
  by (simp add: wait_table_ok_def)

lemma read_wait_ok: "wait_table_ok t \<Longrightarrow> read_permission_wait_plan t w = Inr (table_get t w)"
  by (auto simp: read_permission_wait_plan_def wait_table_ok_def split: option.splits)

lemma save_wait_ok: "wait_table_ok t \<Longrightarrow> wait_table_ok (snd (save_wait_plan r t))"
  by (auto simp: wait_table_ok_def save_wait_plan_def upsert_permission_wait_plan_def table_get_put)

lemma save_wait_get:
  "table_get (snd (save_wait_plan r t)) w = (if wait_plan_valid r \<and> wp_wait_plan_id r = w then Some r else table_get t w)"
  by (simp add: save_wait_plan_def upsert_permission_wait_plan_def table_get_put)

lemma changed_plans [simp]:
  "wp_wait_plan_id (transitioned s input now eid r) = wp_wait_plan_id r"
  "wp_wait_plan_id (rejected_plan ms refs now eid r) = wp_wait_plan_id r"
  "wp_wait_plan_id (resumed_plan ra refs now eid r) = wp_wait_plan_id r"
  "wp_wait_plan_id (waiting_plan inp now eid) = wi_wait_plan_id inp"
  "wp_state (transitioned s input now eid r) = s"
  "wp_state (rejected_plan ms refs now eid r) = Mismatch_Rejected"
  "wp_state (resumed_plan ra refs now eid r) = Plan_Resumed"
  by (simp_all add: transitioned_def rejected_plan_def resumed_plan_def waiting_plan_def Let_def)

lemma snd_answer [simp]:
  "snd (case p of (Inl e, t) \<Rightarrow> (Inl (g e), t) | (Inr r, t) \<Rightarrow> (Inr (f r), t)) = snd p"
  by (cases p; cases "fst p") auto

text \<open>An operation changes the table by one save at most, of a plan that was not terminal.\<close>

lemma transition_shape:
  assumes "wait_table_ok t"
  shows "snd (transition w s input now eid id t) = t \<or>
    (\<exists>r r'. table_get t w = Some r \<and> \<not> terminal_plan r \<and> wp_wait_plan_id r' = wp_wait_plan_id r \<and>
       snd (transition w s input now eid id t) = snd (save_wait_plan r' t))"
proof (cases "table_get t w")
  case (Some r)
  have "wp_wait_plan_id (transitioned s input now eid r) = wp_wait_plan_id r" by (rule changed_plans)
  then show ?thesis using Some assms by (auto simp del: changed_plans simp: transition_def read_wait_ok)
qed (use assms in \<open>simp add: transition_def read_wait_ok\<close>)

lemma resume_shape:
  assumes "wait_table_ok t"
  shows "snd (resume_approved w plan ra refs now later eid id id t) = t \<or>
    (\<exists>r r'. table_get t w = Some r \<and> \<not> terminal_plan r \<and> wp_wait_plan_id r' = wp_wait_plan_id r \<and>
       snd (resume_approved w plan ra refs now later eid id id t) = snd (save_wait_plan r' t))"
proof (cases "table_get t w")
  case None
  then show ?thesis using assms by (simp add: resume_approved_def read_wait_ok)
next
  case (Some r)
  define exp_input where "exp_input = \<lparr>rs_resolved_at = Some now, rs_response_channel = None,
     rs_reason = Some (nullish (Some ''approval_expired_before_resume'') ''approval_expired''), rs_audit_refs = refs\<rparr>"
  define saved where "saved t' \<longleftrightarrow> (\<exists>r'. wp_wait_plan_id r' = wp_wait_plan_id r \<and> t' = snd (save_wait_plan r' t))" for t'
  have saves: "saved (snd (save_wait_plan (rejected_plan ms refs now eid r) t))"
      "saved (snd (save_wait_plan (resumed_plan ra refs now eid r) t))" for ms refs
    unfolding saved_def by (rule exI conjI refl changed_plans)+
  have "snd (resume_approved w plan ra refs now later eid id id t) = t \<or>
      snd (resume_approved w plan ra refs now later eid id id t) = snd (transition w Plan_Expired exp_input later eid id t) \<or>
      (\<not> terminal_plan r \<and> saved (snd (resume_approved w plan ra refs now later eid id id t)))"
    using Some assms saves
    by (simp add: resume_approved_def read_wait_ok mark_expired_def exp_input_def Let_def is_terminal_wait_state_def)
  then show ?thesis
    using transition_shape[OF assms, of w Plan_Expired exp_input later eid] Some unfolding saved_def by metis
qed

lemma wait_step_shape:
  assumes "wait_table_ok t"
  shows "wait_step a t = t \<or> (\<exists>r'. wait_step a t = snd (save_wait_plan r' t) \<and>
    (case table_get t (wp_wait_plan_id r') of None \<Rightarrow> True | Some r \<Rightarrow> \<not> terminal_plan r))"
proof -
  have tr: "snd (transition w s input now eid id t) = t \<or> (\<exists>r'. snd (transition w s input now eid id t) = snd (save_wait_plan r' t) \<and>
      (case table_get t (wp_wait_plan_id r') of None \<Rightarrow> True | Some r \<Rightarrow> \<not> terminal_plan r))" for w s input now eid
    using transition_shape[OF assms, of w s input now eid] wait_table_okD[OF assms, of w] by fastforce
  show ?thesis
  proof (cases a)
    case (W_Create input now eid)
    then show ?thesis using assms by (auto simp: create_waiting_def read_wait_ok split: option.split)
  next
    case (W_Resume w plan ra refs now later eid)
    then show ?thesis using resume_shape[OF assms, of w plan ra refs now later eid] wait_table_okD[OF assms, of w] by fastforce
  qed (simp_all add: mark_approved_def mark_denied_def mark_expired_def mark_cancelled_def tr)
qed

interpretation closed: settled_records wait_step wait_table_ok terminal_plan "(=)"
proof unfold_locales
  fix t a k r
  assume "wait_table_ok t" "table_get t k = Some r" "terminal_plan r"
  then show "\<exists>r'. table_get (wait_step a t) k = Some r' \<and> terminal_plan r' \<and> r = r'"
    using wait_step_shape[of t a] by (auto simp: save_wait_get)
next
  fix t a
  assume "wait_table_ok t"
  then show "wait_table_ok (wait_step a t)" using wait_step_shape[of t a] save_wait_ok by auto
qed simp_all

section \<open>When a plan is resumed\<close>

definition same_plan :: "canonical_plan \<Rightarrow> canonical_plan \<Rightarrow> bool" where
  "same_plan p q \<longleftrightarrow> q\<lparr>cp_input := cp_input p\<rparr> = p \<and> rel_option json_same (cp_input p) (cp_input q)"

lemma diff_empty_iff:
  assumes "opt_all json_wf (cp_input p)" "opt_all json_wf (cp_input q)"
  shows "diff_permission_wait_canonical_plans p q = [] \<longleftrightarrow> same_plan p q"
proof -
  have "map_option stable_json (cp_input p) = map_option stable_json (cp_input q) \<longleftrightarrow> rel_option json_same (cp_input p) (cp_input q)"
    using assms by (cases "cp_input p"; cases "cp_input q") (simp_all add: stable_json_eq)
  then show ?thesis
    by (cases p; cases q) (auto simp: diff_permission_wait_canonical_plans_def same_plan_def)
qed

lemma resumed_iff:
  assumes "wait_table_ok t"
  shows "resume_approved w plan ra refs now later eid others others' t = (Inr (Resumed r'), t') \<longleftrightarrow>
    (\<exists>r. table_get t w = Some r \<and> wp_state r = Plan_Approved \<and> \<not> lapsed r now \<and>
       diff_permission_wait_canonical_plans (wp_canonical_plan r) plan = [] \<and>
       r' = resumed_plan ra (nullish refs []) now eid r \<and> wait_plan_valid r' \<and> t' = table_put w r' (others t))"
  using wait_table_okD[OF assms, of w]
  by (auto simp: resume_approved_def read_wait_ok[OF assms] Let_def save_wait_plan_def upsert_permission_wait_plan_def
      split: option.splits sum.splits prod.splits if_splits)

lemma resumes_plan_state:
  assumes "wait_table_ok t" "resumes_plan w a t"
  shows "\<exists>r r'. table_get t w = Some r \<and> \<not> terminal_plan r \<and> table_get (wait_step a t) w = Some r' \<and> terminal_plan r'"
proof -
  from assms(2) obtain plan ra refs now later eid r' where a: "a = W_Resume w plan ra refs now later eid"
    and res: "resume_approved w plan ra refs now later eid id id t = (Inr (Resumed r'), wait_step a t)"
    by (auto simp: resumes_plan_def prod_eq_iff split: wait_op.splits sum.splits resume_result.splits)
  show ?thesis using res[unfolded resumed_iff[OF assms(1)]]
    by (auto simp: is_terminal_wait_state_def table_get_put)
qed

lemma terminal_no_resumption:
  "wait_table_ok t \<Longrightarrow> table_get t w = Some r \<Longrightarrow> terminal_plan r \<Longrightarrow> resumptions w as t = 0"
proof (induction as arbitrary: t)
  case (Cons a as)
  have "table_get (wait_step a t) w = Some r" using closed.step_settled[OF Cons.prems] by blast
  then show ?case using Cons resumes_plan_state[OF Cons.prems(1), of w a] closed.step_wf by auto
qed simp

lemma resumptions_le_one: "wait_table_ok t \<Longrightarrow> resumptions w as t \<le> 1"
proof (induction as arbitrary: t)
  case (Cons a as)
  note ok = closed.step_wf[OF Cons.prems, of a]
  show ?case
  proof (cases "resumes_plan w a t")
    case True
    then show ?thesis using resumes_plan_state[OF Cons.prems True] terminal_no_resumption[OF ok] by auto
  qed (use Cons.IH[OF ok] in simp)
qed simp

text \<open>
  C11. A stored call is resumed once at most. In every sequence of operations one plan is resumed at
  most once, and a plan that was denied, cancelled, has expired, was rejected or is resumed already
  is never resumed and never changes again.
\<close>
theorem plan_resumes_at_most_once:
  assumes "wait_table_ok t"
  shows "resumptions w as t \<le> 1 \<and>
    (\<forall>r. table_get t w = Some r \<longrightarrow> wp_state r \<noteq> Waiting_For_Permission \<longrightarrow> wp_state r \<noteq> Plan_Approved \<longrightarrow>
       resumptions w as t = 0 \<and> table_get (fold wait_step as t) w = Some r)"
proof -
  have "terminal_plan r" if "wp_state r \<noteq> Waiting_For_Permission" "wp_state r \<noteq> Plan_Approved" for r
    using that by (cases "wp_state r") (simp_all add: is_terminal_wait_state_def)
  then show ?thesis
    using resumptions_le_one[OF assms] terminal_no_resumption[OF assms] closed.run_settled[OF assms] by blast
qed

text \<open>
  C12. A call is resumed exactly when its plan is approved, has not run out, and is the plan that is
  to be run now: the same tool, directory, command, state, target, permission and capability facts,
  and an input that differs in the order of properties at most. The plan is then stored as resumed.
\<close>
theorem resumed_exactly_if_approved_and_same:
  assumes "wait_table_ok t" "table_get t w = Some r" "opt_all json_wf (cp_input (wp_canonical_plan r))"
    "opt_all json_wf (cp_input plan)" "safe_nonneg (nullish resumed_at now)" "safe_nonneg now" "eid \<noteq> []"
  shows "(\<exists>r' t'. resume_approved w plan resumed_at refs now later eid others others' t = (Inr (Resumed r'), t') \<and>
            wp_state r' = Plan_Resumed \<and> t' = table_put w r' (others t)) \<longleftrightarrow>
         wp_state r = Plan_Approved \<and> (\<forall>e. wp_expires_at r = Some e \<longrightarrow> now < e) \<and>
         same_plan (wp_canonical_plan r) plan"
proof -
  have "wait_plan_valid (resumed_plan resumed_at (nullish refs []) now eid r)"
    using wait_table_okD[OF assms(1,2)] assms(5-7)
    by (auto simp: wait_plan_valid_def resumed_plan_def plan_event_of_def event_valid_def Let_def)
  then show ?thesis
    using assms(2) diff_empty_iff[OF assms(3,4)]
    by (auto simp: resumed_iff[OF assms(1)] lapsed_def not_le split: option.splits)
qed

text \<open>
  Interleaved operations lose answers. The operation decides on the record it has loaded and
  writes it back later: two resumptions of one approved plan that overlap both answer that the call
  may run, and a denial that comes between load and write is answered as done and then
  overwritten by the resumption.
\<close>
lemma overlapping_resumptions_both_run:
  assumes "wait_table_ok t"
    "fst (resume_approved w plan resumed_at refs now later eid id id t) = Inr (Resumed r1)"
    "fst (resume_approved w plan resumed_at' refs' now' later' eid' id id t) = Inr (Resumed r2)"
    "fst (mark_denied w answer now'' eid'' id t) = Inr (Some r3)"
  shows "fst (resume_approved w plan resumed_at refs now later eid
           (\<lambda>t. snd (resume_approved w plan resumed_at' refs' now' later' eid' id id t)) id t) = Inr (Resumed r1) \<and>
         wp_state r3 = Plan_Denied \<and>
         (\<exists>r. table_get (snd (resume_approved w plan resumed_at refs now later eid
                (\<lambda>t. snd (mark_denied w answer now'' eid'' id t)) id t)) w = Some r \<and> wp_state r = Plan_Resumed)"
proof -
  obtain t1 where "resume_approved w plan resumed_at refs now later eid id id t = (Inr (Resumed r1), t1)"
    using assms(2) by (cases "resume_approved w plan resumed_at refs now later eid id id t") simp
  then obtain r where r: "table_get t w = Some r" "wp_state r = Plan_Approved"
      "r1 = resumed_plan resumed_at (nullish refs []) now eid r"
    and any: "resume_approved w plan resumed_at refs now later eid others id t = (Inr (Resumed r1), table_put w r1 (others t))" for others
    unfolding resumed_iff[OF assms(1)] by auto
  have "wp_state r3 = Plan_Denied"
    using assms(4) r by (auto simp: mark_denied_def transition_def read_wait_ok[OF assms(1)] is_terminal_wait_state_def
        save_wait_plan_def split: if_splits)
  then show ?thesis using any r(3) by (simp add: table_get_put)
qed

section \<open>Witnesses\<close>

definition sample_plan :: "json \<Rightarrow> canonical_plan" where
  "sample_plan v = \<lparr>cp_tool_name = ''write'', cp_input = Some v, cp_cwd = ''/w'', cp_command = None,
     cp_target = \<lparr>pt_goal_id = None, pt_run_id = None, pt_session_id = None, pt_turn_id = None, pt_tool_call_id = None\<rparr>,
     cp_permission = \<lparr>pp_permission_level = ''write_local'', pp_is_destructive = False, pp_reversibility = Reversible\<rparr>,
     cp_state_epoch = None,
     cp_capability_facts = \<lparr>cf_tool_permission_level = ''write_local'', cf_tool_is_read_only = False, cf_tool_is_destructive = False,
       cf_tool_requires_network = None, cf_tool_activity_category = None, cf_tool_tags = [], cf_capability_id = None,
       cf_capability_provider_kind = None, cf_capability_provider_ref = None, cf_capability_operation_kind = None,
       cf_capability_side_effect_profile = None, cf_capability_readiness_state = None, cf_capability_approval_fingerprint = None,
       cf_capability_admission_id = None, cf_capability_admission_status = None, cf_host_decision_status = None,
       cf_host_decision_reason = None, cf_permission_grant_status = None, cf_permission_grant_reason = None\<rparr>\<rparr>"

definition sample_json :: "bool \<Rightarrow> json" where
  "sample_json b = (let x = (''a'', J_Null); y = (''b'', J_String ''v'') in J_Object (if b then [x, y] else [y, x]))"

definition plain_resolution :: resolution where
  "plain_resolution = \<lparr>rs_resolved_at = None, rs_response_channel = None, rs_reason = None, rs_audit_refs = None\<rparr>"

definition sample_wait :: wait_plan where
  "sample_wait = waiting_plan \<lparr>wi_wait_plan_id = ''w1'', wi_approval_id = None, wi_goal_id = None, wi_expires_at = Some 100,
     wi_origin = None, wi_canonical_plan = sample_plan (sample_json True), wi_audit_refs = None\<rparr> 5 ''e1''"

definition approved_plans :: wait_table where
  "approved_plans = [(''w1'', transitioned Plan_Approved plain_resolution 6 ''e2'' sample_wait)]"

lemma approved_plans_ok: "wait_table_ok approved_plans"
proof -
  have "wait_plan_valid (transitioned Plan_Approved plain_resolution 6 ''e2'' sample_wait)" by code_simp
  moreover have "wp_wait_plan_id (transitioned Plan_Approved plain_resolution 6 ''e2'' sample_wait) = ''w1''" by code_simp
  ultimately show ?thesis by (simp add: wait_table_ok_def approved_plans_def table_wf_def)
qed

lemma approved_plans_get:
  "table_get approved_plans ''w1'' = Some (transitioned Plan_Approved plain_resolution 6 ''e2'' sample_wait)"
  by (simp add: approved_plans_def)

lemma sample_json_same: "json_same (sample_json True) (sample_json False)"
  by (rule stable_json_same) code_simp

theorem plan_resumes_at_most_once_witness:
  "resumptions ''w1'' [W_Resume ''w1'' (sample_plan (sample_json False)) None None 7 8 ''e3'',
     W_Resume ''w1'' (sample_plan (sample_json True)) None None 9 9 ''e4''] approved_plans \<le> 1"
  using plan_resumes_at_most_once[OF approved_plans_ok] by blast

theorem resumed_exactly_if_approved_and_same_witness:
  "\<exists>r' t'. resume_approved ''w1'' (sample_plan (sample_json False)) None None 7 8 ''e3'' id id approved_plans = (Inr (Resumed r'), t') \<and>
     wp_state r' = Plan_Resumed"
proof -
  have plan: "wp_canonical_plan (transitioned Plan_Approved plain_resolution 6 ''e2'' sample_wait) = sample_plan (sample_json True)"
    and expires: "wp_expires_at (transitioned Plan_Approved plain_resolution 6 ''e2'' sample_wait) = Some 100"
    by (simp_all add: transitioned_def sample_wait_def waiting_plan_def Let_def)
  have inputs: "cp_input (sample_plan v) = Some v" for v by (simp add: sample_plan_def)
  have wf: "json_wf (sample_json b)" for b by (simp add: sample_json_def Let_def)
  have same: "same_plan (sample_plan (sample_json True)) (sample_plan (sample_json False))"
    using sample_json_same by (simp add: same_plan_def sample_plan_def)
  show ?thesis
    using resumed_exactly_if_approved_and_same[OF approved_plans_ok approved_plans_get, of "sample_plan (sample_json False)" None 7 "''e3''" None 8 id id]
    by (simp add: plan expires inputs wf same safe_nonneg_def max_safe_integer_def) blast
qed

end
