(* ===== verification/Approval_Flow.thy ===== *)
theory Approval_Flow
  imports Wait_Plans
begin

text \<open>
  Approvals: \<open>src/runtime/store/approval-store.ts\<close> (the durable records), \<open>permission-dialogue.ts\<close>
  (the permission task in a record) and \<open>approval-broker.ts\<close> (who waits for which answer).

  The table \<open>approval_records\<close> is an association table from id to record. The broker keeps the
  requests that wait in this process; timers, broadcasts and the rendering of prompts are left out,
  a timer that fires is a call of \<open>finalize_approval\<close>. The save of a request and the request's entry
  in the broker are one step: \<open>finalizeApproval\<close> waits for the save. The ids of the two action
  bindings of a record come from \<open>surface-projection-protocol.ts\<close> and are a parameter.
\<close>

section \<open>The records\<close>

datatype approval_state = Ap_Pending | Ap_Approved | Ap_Denied | Ap_Expired | Ap_Cancelled

record approval =
  ap_approval_id :: string
  ap_surface_issuance_id :: "string option"
  ap_goal_id :: "string option"
  ap_request_envelope_id :: string
  ap_correlation_id :: string
  ap_state :: approval_state
  ap_created_at :: int
  ap_expires_at :: int
  ap_resolved_at :: "int option"
  ap_response_channel :: "string option"
  ap_origin :: "approval_origin option"
  ap_payload :: "json option"

definition approval_valid :: "approval \<Rightarrow> bool" where
  "approval_valid r \<longleftrightarrow> opt_all filled (ap_surface_issuance_id r) \<and> safe_nonneg (ap_created_at r) \<and>
     safe_nonneg (ap_expires_at r) \<and> opt_all safe_nonneg (ap_resolved_at r) \<and> opt_all approval_origin_valid (ap_origin r)"

section \<open>The store\<close>

type_synonym approval_table = "(string, approval) table"

definition read_approval :: "approval_table \<Rightarrow> string \<Rightarrow> approval option result" where
  "read_approval t i = (case table_get t i of
     None \<Rightarrow> Inr None | Some r \<Rightarrow> if approval_valid r then Inr (Some r) else Inl SchemaError)"

definition list_approvals :: "(approval \<Rightarrow> bool) \<Rightarrow> approval_table \<Rightarrow> approval list result" where
  "list_approvals P t =
     (let rows = sort_key (\<lambda>r. (ap_created_at r, ap_approval_id r)) (filter P (map snd t))
      in if list_all approval_valid rows then Inr rows else Inl SchemaError)"

definition upsert_approval :: "approval \<Rightarrow> approval_table \<Rightarrow> approval_table" where
  "upsert_approval r t = table_put (ap_approval_id r) r t"

definition load_pending :: "approval_table \<Rightarrow> string \<Rightarrow> approval option result" where
  "load_pending t i = result_bind (read_approval t i)
     (\<lambda>r. Inr (case r of Some a \<Rightarrow> if ap_state a = Ap_Pending then Some a else None | None \<Rightarrow> None))"

definition load_resolved :: "approval_table \<Rightarrow> string \<Rightarrow> approval option result" where
  "load_resolved t i = result_bind (read_approval t i)
     (\<lambda>r. Inr (case r of Some a \<Rightarrow> if ap_state a \<noteq> Ap_Pending then Some a else None | None \<Rightarrow> None))"

definition list_pending :: "approval_table \<Rightarrow> approval list result" where
  "list_pending t = list_approvals (\<lambda>r. ap_state r = Ap_Pending) t"

definition list_resolved :: "approval_table \<Rightarrow> approval list result" where
  "list_resolved t = list_approvals (\<lambda>r. ap_state r \<noteq> Ap_Pending) t"

definition remove_pending :: "string \<Rightarrow> approval_table \<Rightarrow> approval_table" where
  "remove_pending i t = filter (\<lambda>(k, r). \<not> (k = i \<and> ap_state r = Ap_Pending)) t"

definition remove_resolved :: "string \<Rightarrow> approval_table \<Rightarrow> approval_table" where
  "remove_resolved i t = filter (\<lambda>(k, r). \<not> (k = i \<and> ap_state r \<noteq> Ap_Pending)) t"

definition save_pending :: "approval \<Rightarrow> approval_table \<Rightarrow> approval result \<times> approval_table" where
  "save_pending r t =
     (let parsed = r\<lparr>ap_state := Ap_Pending\<rparr> in
      if \<not> approval_valid parsed then (Inl SchemaError, t)
      else case read_approval t (ap_approval_id parsed) of
             Inl e \<Rightarrow> (Inl e, t)
           | Inr (Some a) \<Rightarrow> if ap_state a \<noteq> Ap_Pending then (Inr a, t) else (Inr parsed, upsert_approval parsed t)
           | Inr None \<Rightarrow> (Inr parsed, upsert_approval parsed t))"

definition save_resolved :: "approval \<Rightarrow> int \<Rightarrow> approval_table \<Rightarrow> approval result \<times> approval_table" where
  "save_resolved r now t =
     (let parsed = r\<lparr>ap_resolved_at := Some (nullish (ap_resolved_at r) now)\<rparr>
      in if approval_valid parsed then (Inr parsed, upsert_approval parsed t) else (Inl SchemaError, t))"

text \<open>A property of the update that is present overrides the record, also with \<open>undefined\<close>.\<close>

record approval_update =
  au_state :: approval_state
  au_resolved_at :: "int option"
  au_response_channel :: "string option option"
  au_payload :: "json option option"

definition resolved_approval :: "approval_update \<Rightarrow> int \<Rightarrow> approval \<Rightarrow> approval" where
  "resolved_approval u now r =
     r\<lparr>ap_state := au_state u, ap_resolved_at := Some (nullish (au_resolved_at u) now),
       ap_response_channel := nullish (au_response_channel u) (ap_response_channel r),
       ap_payload := nullish (au_payload u) (ap_payload r)\<rparr>"

definition resolve_pending :: "string \<Rightarrow> approval_update \<Rightarrow> int \<Rightarrow> approval_table \<Rightarrow> approval option result \<times> approval_table" where
  "resolve_pending i u now t = (case read_approval t i of
     Inl e \<Rightarrow> (Inl e, t)
   | Inr None \<Rightarrow> (Inr None, t)
   | Inr (Some a) \<Rightarrow>
       if ap_state a \<noteq> Ap_Pending then (Inr (Some a), t)
       else if approval_valid (resolved_approval u now a)
       then (Inr (Some (resolved_approval u now a)), upsert_approval (resolved_approval u now a) t)
       else (Inl SchemaError, t))"

definition expiry_update :: "int \<Rightarrow> approval \<Rightarrow> approval_update" where
  "expiry_update now r = \<lparr>au_state = Ap_Expired, au_resolved_at = Some now,
     au_response_channel = Some (ap_response_channel r), au_payload = Some (ap_payload r)\<rparr>"

fun expire_listed :: "int \<Rightarrow> approval list \<Rightarrow> approval_table \<Rightarrow> nat result \<times> approval_table" where
  "expire_listed now [] t = (Inr 0, t)"
| "expire_listed now (r # rs) t =
     (if ap_expires_at r > now then expire_listed now rs t
      else case resolve_pending (ap_approval_id r) (expiry_update now r) now t of
             (Inl e, t') \<Rightarrow> (Inl e, t')
           | (Inr _, t') \<Rightarrow> (case expire_listed now rs t' of (Inl e, t'') \<Rightarrow> (Inl e, t'') | (Inr n, t'') \<Rightarrow> (Inr (Suc n), t'')))"

text \<open>The result is \<open>expiredPending\<close>; \<open>removedPending\<close> is always 0.\<close>

definition reconcile :: "int \<Rightarrow> approval_table \<Rightarrow> nat result \<times> approval_table" where
  "reconcile now t = (case list_pending t of Inl e \<Rightarrow> (Inl e, t) | Inr rs \<Rightarrow> expire_listed now rs t)"

definition prune_resolved :: "int \<Rightarrow> int \<Rightarrow> approval_table \<Rightarrow> nat result \<times> approval_table" where
  "prune_resolved olderThanMs now t = (case list_resolved t of
     Inl e \<Rightarrow> (Inl e, t)
   | Inr rs \<Rightarrow>
       (let old = filter (\<lambda>r. nullish (ap_resolved_at r) (ap_created_at r) < now - olderThanMs) rs
        in (Inr (length old), fold (\<lambda>r. remove_resolved (ap_approval_id r)) old t)))"

section \<open>The permission task of a record\<close>

datatype risk_class = Risk_Low | Risk_Medium | Risk_High | Risk_Critical | Risk_Unknown

definition classify_permission_risk :: "string option \<Rightarrow> bool option \<Rightarrow> risk_class" where
  "classify_permission_risk level isDestructive =
     (if isDestructive = Some True then Risk_Critical
      else if level = Some ''write_remote'' \<or> level = Some ''execute'' then Risk_High
      else if level = Some ''write_local'' then Risk_Medium
      else if level = Some ''read_metrics'' \<or> level = Some ''read_only'' then Risk_Low
      else Risk_Unknown)"

definition capability_names :: "string list" where
  "capability_names = [''read_workspace'', ''write_workspace'', ''run_tests'', ''run_safe_local_commands'', ''update_memory'',
     ''update_surface'', ''notify_user'', ''delegate_work'', ''inspect_runtime'', ''prepare_draft'']"

definition excluded_names :: "string list" where
  "excluded_names = [''destructive_action'', ''delete'', ''write_remote'', ''network_send'', ''external_send'', ''secret_change'',
     ''protected_path_mutation'', ''production_mutation'', ''billing_or_purchase'', ''unknown_capability'']"

definition proposal_scopes :: "string list" where
  "proposal_scopes = [''once'', ''run'', ''goal'', ''session'', ''workspace'', ''project'', ''global'']"

definition may_enums :: "nat \<Rightarrow> string list \<Rightarrow> json \<Rightarrow> string \<Rightarrow> bool" where
  "may_enums n names v k \<longleftrightarrow> (case json_field v k of None \<Rightarrow> True | Some w \<Rightarrow> enum_list n names w)"

definition proposal_fields :: "string list" where
  "proposal_fields = [''schema_version'', ''capabilities'', ''current_request_capabilities'', ''excluded_capabilities'',
     ''default_scope'', ''allowed_scopes'', ''summary'']"

fun only_fields :: "string list \<Rightarrow> json \<Rightarrow> bool" where
  "only_fields names (J_Object fs) \<longleftrightarrow> list_all (\<lambda>f. fst f \<in> set names) fs"
| "only_fields names v \<longleftrightarrow> False"

definition grant_proposal_valid :: "json \<Rightarrow> bool" where
  "grant_proposal_valid v \<longleftrightarrow> is_record v \<and> only_fields proposal_fields v \<and>
     text_field v ''schema_version'' = Some ''permission-grant-proposal-v1'' \<and>
     (case json_field v ''capabilities'' of Some w \<Rightarrow> enum_list 1 capability_names w | None \<Rightarrow> False) \<and>
     may_enums 1 capability_names v ''current_request_capabilities'' \<and>
     may_enums 0 excluded_names v ''excluded_capabilities'' \<and>
     (json_field v ''default_scope'' = None \<or>
        (case text_field v ''default_scope'' of Some s \<Rightarrow> s \<in> set proposal_scopes | None \<Rightarrow> False)) \<and>
     may_enums 1 proposal_scopes v ''allowed_scopes'' \<and> may_text v ''summary''"

definition permission_target_valid :: "json \<Rightarrow> bool" where
  "permission_target_valid v \<longleftrightarrow> is_record v \<and>
     may_text v ''session_id'' \<and> may_text v ''run_id'' \<and> may_text v ''tool_id'' \<and> may_text v ''tool_call_id''"

definition pending_permission_task_valid :: "json \<Rightarrow> bool" where
  "pending_permission_task_valid v \<longleftrightarrow> is_record v \<and> text_field v ''kind'' = Some ''permission'' \<and>
     has_text v ''id'' \<and> has_text v ''description'' \<and> has_text v ''action'' \<and> has_text v ''operation_summary'' \<and>
     (case text_field v ''risk_class'' of
        Some s \<Rightarrow> s \<in> {''low'', ''medium'', ''high'', ''critical'', ''unknown''} | None \<Rightarrow> False) \<and>
     (case json_field v ''target'' of Some w \<Rightarrow> permission_target_valid w | None \<Rightarrow> False) \<and>
     has_text v ''state_epoch'' \<and> may_text v ''wait_plan_id'' \<and> may_text v ''state_version'' \<and> may_count v ''expires_at'' \<and>
     may_text v ''permission_level'' \<and> may_bool v ''is_destructive'' \<and> may_text v ''reversibility'' \<and>
     (case json_field v ''grant_proposal'' of Some w \<Rightarrow> grant_proposal_valid w | None \<Rightarrow> True)"

fun without_field :: "string \<Rightarrow> json \<Rightarrow> json" where
  "without_field k (J_Object fs) = J_Object (table_del k fs)"
| "without_field k v = v"

text \<open>The task is the value itself; unknown properties, which the schema drops, stay in it.\<close>

definition get_pending_permission_task :: "approval \<Rightarrow> json option" where
  "get_pending_permission_task r = (case ap_payload r of
     None \<Rightarrow> None
   | Some payload \<Rightarrow>
       if \<not> is_record payload then None
       else case json_field payload ''task'' of
              None \<Rightarrow> None
            | Some task \<Rightarrow>
                if pending_permission_task_valid task then Some task
                else if \<not> is_record task \<or> json_field task ''expires_at'' = None then None
                else if pending_permission_task_valid (without_field ''expires_at'' task) then Some (without_field ''expires_at'' task)
                else None)"

definition is_permission_approval_stale :: "approval \<Rightarrow> string option \<Rightarrow> bool" where
  "is_permission_approval_stale r currentEpoch = (case get_pending_permission_task r of
     None \<Rightarrow> False
   | Some task \<Rightarrow> truthy currentEpoch \<and> text_field task ''state_epoch'' \<noteq> currentEpoch)"

section \<open>The broker\<close>

record session =
  bs_record :: approval
  bs_waits :: bool

text \<open>
  \<open>bs_waits\<close>: the session has a \<open>resolve\<close>, that is, a caller of \<open>requestApproval\<close> awaits the answer. A
  restart of the process tracks the stored requests without one.
\<close>

record broker =
  br_pending :: "(string, session) table"
  br_started :: bool
  br_store :: approval_table
  br_plans :: "wait_table option"

record resolution_request =
  rr_state :: approval_state
  rr_approved :: bool
  rr_reason :: "string option"
  rr_responseChannel :: "string option"

definition wait_plan_of :: "approval \<Rightarrow> string option" where
  "wait_plan_of r = (case get_pending_permission_task r of None \<Rightarrow> None | Some task \<Rightarrow> text_field task ''wait_plan_id'')"

text \<open>\<open>between\<close> is what others do to the plans while a plan is marked; an error is logged and dropped.\<close>

definition transition_permission_wait_plan ::
  "approval \<Rightarrow> resolution_request \<Rightarrow> int \<Rightarrow> string \<Rightarrow> (wait_table \<Rightarrow> wait_table) \<Rightarrow> wait_table option \<Rightarrow> wait_table option" where
  "transition_permission_wait_plan r q now eid between plans = (case (plans, wait_plan_of r) of
     (Some t, Some w) \<Rightarrow>
       (let input = \<lparr>rs_resolved_at = Some (nullish (ap_resolved_at r) now),
              rs_response_channel = (if truthy (rr_responseChannel q) then rr_responseChannel q else None),
              rs_reason = (if truthy (rr_reason q) then rr_reason q else None),
              rs_audit_refs = Some [''approval:'' @ ap_approval_id r]\<rparr>
        in Some (case rr_state q of
             Ap_Approved \<Rightarrow> snd (mark_approved w input now eid between t)
           | Ap_Denied \<Rightarrow> snd (mark_denied w input now eid between t)
           | Ap_Expired \<Rightarrow> snd (mark_expired w input now eid between t)
           | Ap_Cancelled \<Rightarrow> snd (mark_cancelled w input now eid between t)
           | Ap_Pending \<Rightarrow> t))
   | _ \<Rightarrow> plans)"

record finalized =
  fo_record :: "approval option result"
  fo_answer :: "bool option"
  fo_broadcast :: "bool option"

text \<open>
  The end of a request. The session is dropped at once; \<open>others\<close> is what happens to the store until
  the transaction that resolves the record. \<open>fo_answer\<close> is what the waiting caller gets, \<open>fo_broadcast\<close>
  what the event says.
\<close>

definition finalize_approval ::
  "string \<Rightarrow> resolution_request \<Rightarrow> int \<Rightarrow> string \<Rightarrow> (approval_table \<Rightarrow> approval_table) \<Rightarrow> (wait_table \<Rightarrow> wait_table) \<Rightarrow>
   broker \<Rightarrow> finalized \<times> broker" where
  "finalize_approval i q now eid others between b =
     (let session = table_get (br_pending b) i;
          b1 = b\<lparr>br_pending := table_del i (br_pending b)\<rparr>;
          u = \<lparr>au_state = rr_state q, au_resolved_at = Some now, au_response_channel = Some (rr_responseChannel q), au_payload = None\<rparr>
      in case resolve_pending i u now (others (br_store b)) of
           (Inl e, st) \<Rightarrow> (\<lparr>fo_record = Inl e, fo_answer = None, fo_broadcast = None\<rparr>, b1\<lparr>br_store := st\<rparr>)
         | (Inr None, st) \<Rightarrow> (\<lparr>fo_record = Inr None, fo_answer = None, fo_broadcast = None\<rparr>, b1\<lparr>br_store := st\<rparr>)
         | (Inr (Some r), st) \<Rightarrow>
             (\<lparr>fo_record = Inr (Some r),
               fo_answer = (case session of Some s \<Rightarrow> if bs_waits s then Some (rr_approved q) else None | None \<Rightarrow> None),
               fo_broadcast = Some (rr_approved q)\<rparr>,
              b1\<lparr>br_store := st, br_plans := transition_permission_wait_plan r q now eid between (br_plans b)\<rparr>))"

definition track_pending :: "approval \<Rightarrow> bool \<Rightarrow> broker \<Rightarrow> broker" where
  "track_pending r waits b = b\<lparr>br_pending := table_put (ap_approval_id r) \<lparr>bs_record = r, bs_waits = waits\<rparr> (br_pending b)\<rparr>"

definition track_approval_request :: "approval \<Rightarrow> broker \<Rightarrow> js_error option \<times> broker" where
  "track_approval_request r b = (case save_pending r (br_store b) of
     (Inl e, st) \<Rightarrow> (Some e, b\<lparr>br_store := st, br_pending := table_del (ap_approval_id r) (br_pending b)\<rparr>)
   | (Inr _, st) \<Rightarrow> (None, track_pending r True (b\<lparr>br_store := st\<rparr>)))"

definition timeout_request :: resolution_request where
  "timeout_request = \<lparr>rr_state = Ap_Expired, rr_approved = False, rr_reason = Some ''timeout'', rr_responseChannel = Some ''system''\<rparr>"

fun track_stored :: "int \<Rightarrow> (string \<Rightarrow> string) \<Rightarrow> approval list \<Rightarrow> broker \<Rightarrow> js_error option \<times> broker" where
  "track_stored now eid [] b = (None, b)"
| "track_stored now eid (r # rs) b =
     (if ap_expires_at r \<le> now
      then case finalize_approval (ap_approval_id r) timeout_request now (eid (ap_approval_id r)) id id b of
             (out, b') \<Rightarrow> (case fo_record out of Inl e \<Rightarrow> (Some e, b') | Inr _ \<Rightarrow> track_stored now eid rs b')
      else track_stored now eid rs (track_pending r False b))"

definition start_broker :: "int \<Rightarrow> (string \<Rightarrow> string) \<Rightarrow> broker \<Rightarrow> js_error option \<times> broker" where
  "start_broker now eid b =
     (if br_started b then (None, b)
      else case list_pending (br_store b) of
             Inl e \<Rightarrow> (Some e, b\<lparr>br_started := True\<rparr>)
           | Inr rs \<Rightarrow> track_stored now eid rs (b\<lparr>br_started := True\<rparr>))"

definition stop_broker :: "broker \<Rightarrow> broker" where
  "stop_broker b = b\<lparr>br_pending := [], br_started := False\<rparr>"

text \<open>The record of a request; \<open>payload\<close> holds the task with its expiry.\<close>

definition requested_approval ::
  "string \<Rightarrow> string \<Rightarrow> string \<Rightarrow> approval_origin option \<Rightarrow> json \<Rightarrow> int \<Rightarrow> int \<Rightarrow> approval" where
  "requested_approval approvalId issuance goalId og payload timeoutMs createdAt =
     \<lparr>ap_approval_id = approvalId, ap_surface_issuance_id = Some issuance, ap_goal_id = Some goalId,
      ap_request_envelope_id = approvalId, ap_correlation_id = approvalId, ap_state = Ap_Pending,
      ap_created_at = createdAt, ap_expires_at = createdAt + timeoutMs, ap_resolved_at = None, ap_response_channel = None,
      ap_origin = og, ap_payload = Some payload\<rparr>"

definition strip_prefix :: "string \<Rightarrow> string" where
  "strip_prefix s = (if take 4 s = ''sab:'' then drop 4 s else s)"

definition max_date_ms :: int where
  "max_date_ms = 8640000000000000"

definition binding_expired :: "approval \<Rightarrow> int \<Rightarrow> bool" where
  "binding_expired r now \<longleftrightarrow> \<bar>ap_expires_at r\<bar> \<le> max_date_ms \<and> ap_expires_at r < now"

text \<open>
  \<open>bind r approved\<close> is the id of the action binding. The surface, its instance and the kind of action
  of a binding are those of the record it was made from, so that of the checks of
  \<open>validateSurfaceActionBinding\<close> the expiry is left.
\<close>

definition validate_approval_resolution_binding ::
  "(approval \<Rightarrow> bool \<Rightarrow> string) \<Rightarrow> approval \<Rightarrow> bool \<Rightarrow> string option \<Rightarrow> string option \<Rightarrow> int \<Rightarrow> bool" where
  "validate_approval_resolution_binding bind r approved bindingId bindingToken now =
     (let ref = (case bindingId of Some s \<Rightarrow> Some s | None \<Rightarrow> bindingToken) in
      truthy ref \<and>
      (case find (\<lambda>b. bind r b = the ref \<or> strip_prefix (bind r b) = the ref) [True, False] of
         None \<Rightarrow> False
       | Some b \<Rightarrow> bind r b = bind r approved \<and> \<not> binding_expired r now))"

definition answered :: "bool \<Rightarrow> string option \<Rightarrow> resolution_request" where
  "answered approved channel = \<lparr>rr_state = (if approved then Ap_Approved else Ap_Denied), rr_approved = approved,
     rr_reason = None, rr_responseChannel = channel\<rparr>"

definition resolve_approval ::
  "(approval \<Rightarrow> bool \<Rightarrow> string) \<Rightarrow> string \<Rightarrow> bool \<Rightarrow> string \<Rightarrow> string option \<Rightarrow> string option \<Rightarrow> int \<Rightarrow> string \<Rightarrow>
   (approval_table \<Rightarrow> approval_table) \<Rightarrow> (wait_table \<Rightarrow> wait_table) \<Rightarrow> broker \<Rightarrow> bool result \<times> finalized option \<times> broker" where
  "resolve_approval bind i approved channel bindingId bindingToken now eid others between b =
     (case (case table_get (br_pending b) i of Some s \<Rightarrow> Inr (Some (bs_record s)) | None \<Rightarrow> load_pending (br_store b) i) of
        Inl e \<Rightarrow> (Inl e, None, b)
      | Inr None \<Rightarrow> (Inr False, None, b)
      | Inr (Some r) \<Rightarrow>
          if ap_origin r \<noteq> None \<or> \<not> validate_approval_resolution_binding bind r approved bindingId bindingToken now
          then (Inr False, None, b)
          else case finalize_approval i (answered approved (Some channel)) now eid others between b of
                 (out, b') \<Rightarrow> (result_bind (fo_record out) (\<lambda>x. Inr (x \<noteq> None)), Some out, b'))"

definition required_field_matches :: "string option \<Rightarrow> string option \<Rightarrow> bool" where
  "required_field_matches expected actual \<longleftrightarrow> expected \<noteq> None \<and> expected = actual"

definition conversational_approval_origin_matches :: "approval_origin option \<Rightarrow> approval_origin \<Rightarrow> bool" where
  "conversational_approval_origin_matches expected actual = (case expected of
     None \<Rightarrow> False
   | Some og \<Rightarrow> ao_channel og = ao_channel actual \<and> ao_conversation_id og = ao_conversation_id actual \<and>
       required_field_matches (ao_user_id og) (ao_user_id actual) \<and>
       required_field_matches (ao_session_id og) (ao_session_id actual))"

definition approval_origin_matches :: "approval_origin option \<Rightarrow> approval_origin \<Rightarrow> bool" where
  "approval_origin_matches expected actual \<longleftrightarrow> conversational_approval_origin_matches expected actual \<and>
     required_field_matches (case expected of Some og \<Rightarrow> ao_turn_id og | None \<Rightarrow> None) (ao_turn_id actual)"

definition resolve_conversational_approval ::
  "string \<Rightarrow> bool \<Rightarrow> approval_origin \<Rightarrow> int \<Rightarrow> string \<Rightarrow>
   (approval_table \<Rightarrow> approval_table) \<Rightarrow> (wait_table \<Rightarrow> wait_table) \<Rightarrow> broker \<Rightarrow> bool result \<times> finalized option \<times> broker" where
  "resolve_conversational_approval i approved og now eid others between b = (case load_pending (br_store b) i of
     Inl e \<Rightarrow> (Inl e, None, b)
   | Inr None \<Rightarrow> (Inr False, None, b)
   | Inr (Some r) \<Rightarrow>
       if \<not> approval_origin_matches (ap_origin r) og \<or> binding_expired r now then (Inr False, None, b)
       else case finalize_approval i (answered approved (Some (ao_channel og))) now eid others between b of
              (out, b') \<Rightarrow> (result_bind (fo_record out) (\<lambda>x. Inr (x \<noteq> None)), Some out, b'))"

datatype pending_lookup = Found approval | No_Match | Ambiguous

definition find_pending_conversational_approval :: "approval_origin \<Rightarrow> broker \<Rightarrow> pending_lookup result" where
  "find_pending_conversational_approval og b = result_bind (list_pending (br_store b)) (\<lambda>rs.
     Inr (case filter (\<lambda>r. conversational_approval_origin_matches (ap_origin r) og) rs of
            [] \<Rightarrow> No_Match | [r] \<Rightarrow> Found r | _ \<Rightarrow> Ambiguous))"

definition load_pending_approval :: "string \<Rightarrow> broker \<Rightarrow> approval option result" where
  "load_pending_approval i b = (case table_get (br_pending b) i of
     Some s \<Rightarrow> Inr (Some (bs_record s)) | None \<Rightarrow> load_pending (br_store b) i)"

text \<open>
  The delivery of a prompt to a conversation: \<open>None\<close> when there is nobody to deliver it or the
  delivery throws, else whether it was delivered and the reason if not.
\<close>

definition deliver_if_conversational ::
  "approval \<Rightarrow> (bool \<times> string option) option \<Rightarrow> int \<Rightarrow> string \<Rightarrow> broker \<Rightarrow> finalized option \<times> broker" where
  "deliver_if_conversational r delivery now eid b = (case ap_origin r of
     None \<Rightarrow> (None, b)
   | Some og \<Rightarrow>
       (let refuse = (\<lambda>why. case finalize_approval (ap_approval_id r)
                \<lparr>rr_state = Ap_Denied, rr_approved = False, rr_reason = Some why, rr_responseChannel = Some (ao_channel og)\<rparr> now eid id id b of
              (out, b') \<Rightarrow> (Some out, b'))
        in case delivery of
             None \<Rightarrow> refuse ''approval_channel_unreachable''
           | Some (True, _) \<Rightarrow> (None, b)
           | Some (False, why) \<Rightarrow> refuse (nullish why ''approval_channel_unreachable'')))"

section \<open>A resolution is final\<close>

definition approval_table_ok :: "approval_table \<Rightarrow> bool" where
  "approval_table_ok t \<longleftrightarrow> table_wf t \<and> (\<forall>i r. table_get t i = Some r \<longrightarrow> ap_approval_id r = i \<and> approval_valid r)"

text \<open>The operations of the running system; removal and the migration are left out.\<close>

datatype approval_op = A_Save approval | A_Resolve string approval_update int | A_Reconcile int

fun approval_step :: "approval_op \<Rightarrow> approval_table \<Rightarrow> approval_table" where
  "approval_step (A_Save r) t = snd (save_pending r t)"
| "approval_step (A_Resolve i u now) t = snd (resolve_pending i u now t)"
| "approval_step (A_Reconcile now) t = snd (reconcile now t)"

lemma approval_table_okD: "approval_table_ok t \<Longrightarrow> table_get t i = Some r \<Longrightarrow> ap_approval_id r = i \<and> approval_valid r"
  by (simp add: approval_table_ok_def)

lemma read_approval_ok: "approval_table_ok t \<Longrightarrow> read_approval t i = Inr (table_get t i)"
  by (auto simp: read_approval_def approval_table_ok_def split: option.splits)

lemma upsert_approval_ok: "approval_table_ok t \<Longrightarrow> approval_valid r \<Longrightarrow> approval_table_ok (upsert_approval r t)"
  by (auto simp: approval_table_ok_def upsert_approval_def table_get_put)

lemma resolved_approval_id [simp]: "ap_approval_id (resolved_approval u now r) = ap_approval_id r"
  by (simp add: resolved_approval_def)

lemma resolve_pending_ok: "approval_table_ok t \<Longrightarrow> approval_table_ok (snd (resolve_pending i u now t))"
  by (auto simp: resolve_pending_def read_approval_ok upsert_approval_ok split: option.split)

lemma resolve_pending_get:
  assumes "approval_table_ok t"
  shows "table_get (snd (resolve_pending i u now t)) j = (case table_get t j of
      Some r \<Rightarrow> if j = i \<and> ap_state r = Ap_Pending \<and> approval_valid (resolved_approval u now r)
                then Some (resolved_approval u now r) else Some r
    | None \<Rightarrow> None)"
proof (cases "table_get t i")
  case None
  then show ?thesis using assms by (auto simp: resolve_pending_def read_approval_ok split: option.split)
next
  case (Some r)
  then show ?thesis using assms approval_table_okD[OF assms Some]
    by (auto simp: resolve_pending_def read_approval_ok upsert_approval_def table_get_put split: option.split)
qed

lemma snd_expire_listed:
  "snd (expire_listed now (r # rs) t) =
     (if ap_expires_at r > now then snd (expire_listed now rs t)
      else let (res, t') = resolve_pending (ap_approval_id r) (expiry_update now r) now t
           in if isl res then t' else snd (expire_listed now rs t'))"
  by (auto split: prod.split sum.split)

lemma expire_listed_ok: "approval_table_ok t \<Longrightarrow> approval_table_ok (snd (expire_listed now rs t))"
proof (induction rs arbitrary: t)
  case (Cons r rs)
  obtain res t' where res: "resolve_pending (ap_approval_id r) (expiry_update now r) now t = (res, t')" by fastforce
  have "approval_table_ok t'" using resolve_pending_ok[OF Cons.prems, of "ap_approval_id r" "expiry_update now r" now] res by simp
  then show ?case using Cons.IH Cons.prems by (simp del: expire_listed.simps add: snd_expire_listed res)
qed simp

lemma expire_listed_settled:
  "approval_table_ok t \<Longrightarrow> table_get t k = Some r \<Longrightarrow> ap_state r \<noteq> Ap_Pending \<Longrightarrow>
   table_get (snd (expire_listed now rs t)) k = Some r"
proof (induction rs arbitrary: t)
  case (Cons a rs)
  obtain res t' where res: "resolve_pending (ap_approval_id a) (expiry_update now a) now t = (res, t')" by fastforce
  then have t': "t' = snd (resolve_pending (ap_approval_id a) (expiry_update now a) now t)" by simp
  have "approval_table_ok t'" "table_get t' k = Some r"
    unfolding t' using Cons.prems by (simp_all add: resolve_pending_ok resolve_pending_get)
  then show ?case using Cons.IH Cons.prems by (simp del: expire_listed.simps add: snd_expire_listed res)
qed simp

lemma approval_step_ok: "approval_table_ok t \<Longrightarrow> approval_table_ok (approval_step a t)"
  by (cases a) (auto simp: save_pending_def Let_def read_approval_ok upsert_approval_ok resolve_pending_ok reconcile_def
      expire_listed_ok split: option.split sum.split)

interpretation decided: settled_records approval_step approval_table_ok "\<lambda>r. ap_state r \<noteq> Ap_Pending" "(=)"
proof unfold_locales
  fix t a k r
  assume ok: "approval_table_ok t" and r: "table_get t k = Some r" "ap_state r \<noteq> Ap_Pending"
  have "table_get (approval_step a t) k = Some r"
  proof (cases a)
    case (A_Save q)
    then show ?thesis using ok r
      by (auto simp: save_pending_def Let_def read_approval_ok upsert_approval_def table_get_put split: option.split)
  next
    case (A_Resolve i u now)
    then show ?thesis using ok r by (simp add: resolve_pending_get)
  next
    case (A_Reconcile now)
    then show ?thesis using expire_listed_settled[OF ok r] r by (auto simp: reconcile_def split: sum.split)
  qed
  then show "\<exists>r'. table_get (approval_step a t) k = Some r' \<and> ap_state r' \<noteq> Ap_Pending \<and> r = r'" using r by simp
qed (simp_all add: approval_step_ok)

text \<open>
  C13. The first answer to an approval stands. Once a record is resolved, no later request with the
  same id, no later answer (from any channel, in any order) and no later expiry changes anything
  of it.
\<close>
theorem first_resolution_stands:
  assumes "approval_table_ok t" "table_get t i = Some r" "ap_state r \<noteq> Ap_Pending"
  shows "table_get (fold approval_step as t) i = Some r"
  using decided.run_settled[OF assms] by blast

section \<open>What reconciliation does\<close>

definition overdue :: "int \<Rightarrow> approval \<Rightarrow> bool" where
  "overdue now r \<longleftrightarrow> ap_state r = Ap_Pending \<and> ap_expires_at r \<le> now"

definition lapse :: "int \<Rightarrow> approval \<Rightarrow> approval" where
  "lapse now r = r\<lparr>ap_state := Ap_Expired, ap_resolved_at := Some now\<rparr>"

lemma resolve_overdue:
  assumes "approval_table_ok t" "table_get t i = Some r" "overdue now r" "safe_nonneg now"
  shows "resolve_pending i (expiry_update now r) now t = (Inr (Some (lapse now r)), table_put i (lapse now r) t)"
proof -
  have "resolved_approval (expiry_update now r) now r = lapse now r"
    by (simp add: resolved_approval_def expiry_update_def lapse_def)
  moreover have "approval_valid (lapse now r)" "ap_approval_id (lapse now r) = i"
    using approval_table_okD[OF assms(1,2)] assms(4) by (simp_all add: approval_valid_def lapse_def)
  ultimately show ?thesis using assms by (simp add: resolve_pending_def read_approval_ok upsert_approval_def overdue_def)
qed

lemma expire_listed_exact:
  "approval_table_ok t \<Longrightarrow> safe_nonneg now \<Longrightarrow> distinct (map ap_approval_id rs) \<Longrightarrow>
   (\<forall>r \<in> set rs. table_get t (ap_approval_id r) = Some r \<and> ap_state r = Ap_Pending) \<Longrightarrow>
   \<exists>t'. expire_listed now rs t = (Inr (length (filter (overdue now) rs)), t') \<and>
     (\<forall>i. table_get t' i = (case table_get t i of
        Some r \<Rightarrow> Some (if r \<in> set rs \<and> overdue now r then lapse now r else r) | None \<Rightarrow> None))"
proof (induction rs arbitrary: t)
  case Nil
  then show ?case by (auto split: option.split)
next
  case (Cons a rs)
  have a: "table_get t (ap_approval_id a) = Some a" "ap_state a = Ap_Pending" using Cons.prems by auto
  show ?case
  proof (cases "overdue now a")
    case False
    then have later: "ap_expires_at a > now" using a by (simp add: overdue_def)
    have same: "(r \<in> set (a # rs) \<and> overdue now r) = (r \<in> set rs \<and> overdue now r)" for r using False by auto
    have "distinct (map ap_approval_id rs)" "\<forall>r \<in> set rs. table_get t (ap_approval_id r) = Some r \<and> ap_state r = Ap_Pending"
      using Cons.prems(3,4) by simp_all
    from Cons.IH[OF Cons.prems(1,2) this] show ?thesis unfolding same using later False by simp
  next
    case True
    let ?t = "table_put (ap_approval_id a) (lapse now a) t"
    note res = resolve_overdue[OF Cons.prems(1) a(1) True Cons.prems(2)]
    have ok: "approval_table_ok ?t" using resolve_pending_ok[OF Cons.prems(1), of "ap_approval_id a" "expiry_update now a" now] res by simp
    have rest: "\<forall>r \<in> set rs. table_get ?t (ap_approval_id r) = Some r \<and> ap_state r = Ap_Pending"
    proof
      fix r assume r: "r \<in> set rs"
      then have "ap_approval_id r \<noteq> ap_approval_id a" using Cons.prems(3) by (metis distinct.simps(2) image_eqI list.set_map list.simps(9))
      then show "table_get ?t (ap_approval_id r) = Some r \<and> ap_state r = Ap_Pending"
        using Cons.prems(4) r by (simp add: table_get_put)
    qed
    have dist: "distinct (map ap_approval_id rs)" using Cons.prems(3) by simp
    obtain t' where t': "expire_listed now rs ?t = (Inr (length (filter (overdue now) rs)), t')"
        "\<forall>i. table_get t' i = (case table_get ?t i of
           Some r \<Rightarrow> Some (if r \<in> set rs \<and> overdue now r then lapse now r else r) | None \<Rightarrow> None)"
      using Cons.IH[OF ok Cons.prems(2) dist rest] by blast
    have fresh: "lapse now a \<notin> set rs" using rest by (auto simp: lapse_def)
    have own: "r = a" if "table_get t i = Some r" "i = ap_approval_id a" for i r using that a by simp
    have other: "r \<noteq> a" if "table_get t i = Some r" "i \<noteq> ap_approval_id a" for i r
      using that approval_table_okD[OF Cons.prems(1)] by auto
    have "table_get t' i = (case table_get t i of
        Some r \<Rightarrow> Some (if r \<in> set (a # rs) \<and> overdue now r then lapse now r else r) | None \<Rightarrow> None)" for i
    proof (cases "i = ap_approval_id a")
      case True': True
      then show ?thesis using t'(2)[rule_format, of i] fresh a True by (simp add: table_get_put)
    next
      case False
      then show ?thesis using t'(2)[rule_format, of i] other[of i] by (simp add: table_get_put split: option.split)
    qed
    moreover have "\<not> ap_expires_at a > now" using True by (simp add: overdue_def)
    ultimately show ?thesis using t'(1) True res by simp
  qed
qed

text \<open>
  Reconciliation expires exactly the requests that are due: every pending record whose time has
  come is expired at this time and keeps everything else, every other record stays as it is, and
  the count is the number of records expired.
\<close>
lemma reconcile_expires_exactly_the_overdue:
  assumes "approval_table_ok t" "safe_nonneg now"
  shows "\<exists>t'. reconcile now t = (Inr (length (filter (\<lambda>(i, r). overdue now r) t)), t') \<and>
    (\<forall>i. table_get t' i = map_option (\<lambda>r. if overdue now r then lapse now r else r) (table_get t i))"
proof -
  let ?rs = "sort_key (\<lambda>r. (ap_created_at r, ap_approval_id r)) (filter (\<lambda>r. ap_state r = Ap_Pending) (map snd t))"
  have mem: "(i, r) \<in> set t \<longleftrightarrow> table_get t i = Some r" for i r
    using assms(1) by (simp add: approval_table_ok_def table_mem_iff)
  have rows: "r \<in> set ?rs \<longleftrightarrow> table_get t (ap_approval_id r) = Some r \<and> ap_state r = Ap_Pending" for r
  proof -
    have "r \<in> snd ` set t \<longleftrightarrow> table_get t (ap_approval_id r) = Some r"
      using approval_table_okD[OF assms(1)] mem by (metis (mono_tags, lifting) image_iff prod.collapse snd_conv)
    then show ?thesis by simp
  qed
  have list: "list_pending t = Inr ?rs"
    using rows approval_table_okD[OF assms(1)] by (auto simp: list_pending_def list_approvals_def Let_def list_all_iff)
  have keys: "map fst t = map (\<lambda>x. ap_approval_id (snd x)) t"
    using mem approval_table_okD[OF assms(1)] by (auto intro!: map_cong)
  have "distinct (map ap_approval_id (map snd t))"
    using assms(1) keys by (simp add: approval_table_ok_def table_wf_def comp_def)
  then have dist: "distinct (map ap_approval_id ?rs)"
    using distinct_map_filter[of ap_approval_id "map snd t" "\<lambda>r. ap_state r = Ap_Pending"] by (simp add: distinct_map)
  obtain t' where t': "expire_listed now ?rs t = (Inr (length (filter (overdue now) ?rs)), t')"
      "\<forall>i. table_get t' i = (case table_get t i of
        Some r \<Rightarrow> Some (if r \<in> set ?rs \<and> overdue now r then lapse now r else r) | None \<Rightarrow> None)"
    using expire_listed_exact[OF assms dist] rows by blast
  have "length (filter (overdue now) ?rs) = length (filter (overdue now) (filter (\<lambda>r. ap_state r = Ap_Pending) (map snd t)))"
    by (simp only: size_mset[symmetric] mset_filter mset_sort)
  also have "\<dots> = length (filter (\<lambda>(i, r). overdue now r) t)"
    by (induction t) (auto simp: overdue_def)
  finally have count: "length (filter (overdue now) ?rs) = length (filter (\<lambda>(i, r). overdue now r) t)" .
  have "\<forall>i. table_get t' i = map_option (\<lambda>r. if overdue now r then lapse now r else r) (table_get t i)"
    using t'(2) rows approval_table_okD[OF assms(1)] by (auto simp: overdue_def split: option.split)
  then show ?thesis using t'(1) list count by (simp add: reconcile_def)
qed

section \<open>What the waiting caller is told\<close>

fun plan_state_for :: "approval_state \<Rightarrow> wait_state" where
  "plan_state_for Ap_Approved = Plan_Approved"
| "plan_state_for Ap_Denied = Plan_Denied"
| "plan_state_for Ap_Expired = Plan_Expired"
| "plan_state_for Ap_Cancelled = Plan_Cancelled"
| "plan_state_for Ap_Pending = Waiting_For_Permission"

lemma transition_waiting:
  assumes "wait_table_ok t" "table_get t w = Some p" "wp_state p = Waiting_For_Permission" "s \<noteq> Waiting_For_Permission"
    "opt_all safe_nonneg (rs_resolved_at input)" "safe_nonneg now" "eid \<noteq> []"
  shows "\<exists>p'. table_get (snd (transition w s input now eid id t)) w = Some p' \<and> wp_state p' = s"
proof -
  have "wait_plan_valid (transitioned s input now eid p)"
    using wait_table_okD[OF assms(1,2)] assms(5-7)
    by (cases "rs_resolved_at input")
      (auto simp: wait_plan_valid_def transitioned_def Let_def plan_event_of_def event_valid_def opt_all_def truthy_def split: option.splits)
  then show ?thesis using assms wait_table_okD[OF assms(1,2)]
    by (simp add: transition_def read_wait_ok is_terminal_wait_state_def save_wait_get)
qed

lemma plan_follows_answer:
  assumes "wait_table_ok t" "wait_plan_of r = Some w" "table_get t w = Some p" "wp_state p = Waiting_For_Permission"
    "opt_all safe_nonneg (ap_resolved_at r)" "safe_nonneg now" "eid \<noteq> []" "rr_state q \<noteq> Ap_Pending"
  shows "\<exists>t' p'. transition_permission_wait_plan r q now eid id (Some t) = Some t' \<and> table_get t' w = Some p' \<and>
    wp_state p' = plan_state_for (rr_state q)"
proof -
  have t: "opt_all safe_nonneg (Some (nullish (ap_resolved_at r) now))"
    using assms(5,6) by (cases "ap_resolved_at r") simp_all
  show ?thesis
  proof (cases "rr_state q")
    case Ap_Approved
    then show ?thesis using assms(2) transition_waiting[OF assms(1,3,4) _ _ assms(6,7), of Plan_Approved] t
      by (auto simp: transition_permission_wait_plan_def Let_def mark_approved_def)
  next
    case Ap_Denied
    then show ?thesis using assms(2) transition_waiting[OF assms(1,3,4) _ _ assms(6,7), of Plan_Denied] t
      by (auto simp: transition_permission_wait_plan_def Let_def mark_denied_def)
  next
    case Ap_Expired
    then show ?thesis using assms(2) transition_waiting[OF assms(1,3,4) _ _ assms(6,7), of Plan_Expired] t
      by (auto simp: transition_permission_wait_plan_def Let_def mark_expired_def)
  next
    case Ap_Cancelled
    then show ?thesis using assms(2) transition_waiting[OF assms(1,3,4) _ _ assms(6,7), of Plan_Cancelled] t
      by (auto simp: transition_permission_wait_plan_def Let_def mark_cancelled_def)
  qed (use assms(8) in simp)
qed

text \<open>
  C14. As long as the record is pending when the answer reaches the store, everyone agrees: the
  record is stored in the state of the answer, the waiting caller and the event say the same, the
  session is gone, and the plan that waits for this approval follows.
\<close>
theorem answer_agrees_with_record:
  assumes "approval_table_ok (others (br_store b))" "table_get (others (br_store b)) i = Some r" "ap_state r = Ap_Pending"
    "table_get (br_pending b) i = Some s" "bs_waits s" "safe_nonneg now" "rr_state q \<noteq> Ap_Pending"
    "br_plans b = Some t" "wait_table_ok t" "wait_plan_of r = Some w" "table_get t w = Some p"
    "wp_state p = Waiting_For_Permission" "eid \<noteq> []"
  shows "\<exists>r' p' b'. finalize_approval i q now eid others id b =
      (\<lparr>fo_record = Inr (Some r'), fo_answer = Some (rr_approved q), fo_broadcast = Some (rr_approved q)\<rparr>, b') \<and>
    table_get (br_store b') i = Some r' \<and> ap_state r' = rr_state q \<and> table_get (br_pending b') i = None \<and>
    table_get (the (br_plans b')) w = Some p' \<and> wp_state p' = plan_state_for (rr_state q)"
proof -
  let ?u = "\<lparr>au_state = rr_state q, au_resolved_at = Some now, au_response_channel = Some (rr_responseChannel q), au_payload = None\<rparr>"
  let ?r = "resolved_approval ?u now r"
  have "approval_valid ?r" "ap_approval_id ?r = i"
    using approval_table_okD[OF assms(1,2)] assms(6) by (simp_all add: approval_valid_def resolved_approval_def)
  then have res: "resolve_pending i ?u now (others (br_store b)) = (Inr (Some ?r), table_put i ?r (others (br_store b)))"
    using assms(1-3) by (simp add: resolve_pending_def read_approval_ok upsert_approval_def)
  have "wait_plan_of ?r = Some w" "ap_resolved_at ?r = Some now" "ap_state ?r = rr_state q"
    using assms(10) by (simp_all add: wait_plan_of_def get_pending_permission_task_def resolved_approval_def)
  then obtain t' p' where "transition_permission_wait_plan ?r q now eid id (Some t) = Some t'" "table_get t' w = Some p'"
      "wp_state p' = plan_state_for (rr_state q)"
    using plan_follows_answer[OF assms(9) _ assms(11,12) _ assms(6,13,7)] assms(6) by fastforce
  then show ?thesis using assms(4,5,8) res \<open>ap_state ?r = rr_state q\<close>
    by (simp add: finalize_approval_def Let_def table_get_put delete_conv')
qed

text \<open>
  An answer that comes too late is not recognised as such: the store keeps the first resolution,
  but the waiting caller and the event get the late answer and a plan that still waits follows it.
  A caller can be told that a request is approved whose record says denied, and the other way round.
\<close>
lemma late_answer_contradicts_record:
  assumes "approval_table_ok (others (br_store b))" "table_get (others (br_store b)) i = Some r" "ap_state r \<noteq> Ap_Pending"
    "table_get (br_pending b) i = Some s" "bs_waits s" "safe_nonneg now" "rr_state q \<noteq> Ap_Pending"
    "br_plans b = Some t" "wait_table_ok t" "wait_plan_of r = Some w" "table_get t w = Some p"
    "wp_state p = Waiting_For_Permission" "eid \<noteq> []"
  shows "\<exists>p' b'. finalize_approval i q now eid others id b =
      (\<lparr>fo_record = Inr (Some r), fo_answer = Some (rr_approved q), fo_broadcast = Some (rr_approved q)\<rparr>, b') \<and>
    table_get (br_store b') i = Some r \<and>
    table_get (the (br_plans b')) w = Some p' \<and> wp_state p' = plan_state_for (rr_state q)"
proof -
  let ?u = "\<lparr>au_state = rr_state q, au_resolved_at = Some now, au_response_channel = Some (rr_responseChannel q), au_payload = None\<rparr>"
  have res: "resolve_pending i ?u now (others (br_store b)) = (Inr (Some r), others (br_store b))"
    using assms(1-3) by (simp add: resolve_pending_def read_approval_ok)
  have "opt_all safe_nonneg (ap_resolved_at r)" using approval_table_okD[OF assms(1,2)] by (simp add: approval_valid_def)
  then obtain t' p' where "transition_permission_wait_plan r q now eid id (Some t) = Some t'" "table_get t' w = Some p'"
      "wp_state p' = plan_state_for (rr_state q)"
    using plan_follows_answer[OF assms(9-12) _ assms(6,13,7)] by fastforce
  then show ?thesis using assms(2,4,5,8) res by (simp add: finalize_approval_def Let_def)
qed

section \<open>Witnesses\<close>

definition sample_task :: json where
  "sample_task = J_Object [(''kind'', J_String ''permission''), (''id'', J_String ''t''), (''description'', J_String ''d''),
     (''action'', J_String ''a''), (''operation_summary'', J_String ''o''), (''risk_class'', J_String ''low''),
     (''target'', J_Object []), (''state_epoch'', J_String ''e''), (''wait_plan_id'', J_String ''w1'')]"

definition sample_approval :: approval where
  "sample_approval = requested_approval ''a1'' ''i1'' ''g'' None (J_Object [(''task'', sample_task)]) 100 5"

definition deny_first :: "approval_table \<Rightarrow> approval_table" where
  "deny_first t = snd (resolve_pending ''a1'' \<lparr>au_state = Ap_Denied, au_resolved_at = None, au_response_channel = None, au_payload = None\<rparr> 6 t)"

definition sample_broker :: broker where
  "sample_broker = snd (track_approval_request sample_approval
     \<lparr>br_pending = [], br_started = True, br_store = [], br_plans = Some [(''w1'', sample_wait)]\<rparr>)"

lemma sample_store: "br_store sample_broker = [(''a1'', sample_approval)]"
  by code_simp

lemma sample_store_ok: "approval_table_ok (br_store sample_broker)"
proof -
  have "approval_valid sample_approval" "ap_approval_id sample_approval = ''a1''" by code_simp+
  then show ?thesis by (simp add: sample_store approval_table_ok_def table_wf_def)
qed

lemma sample_pending: "table_get (br_pending sample_broker) ''a1'' = Some \<lparr>bs_record = sample_approval, bs_waits = True\<rparr>"
  by code_simp

lemma sample_wait_ok: "wait_table_ok [(''w1'', sample_wait)]"
proof -
  have "wait_plan_valid sample_wait" "wp_wait_plan_id sample_wait = ''w1''" by code_simp+
  then show ?thesis by (simp add: wait_table_ok_def table_wf_def)
qed

lemma sample_facts:
  "br_plans sample_broker = Some [(''w1'', sample_wait)]" "wp_state sample_wait = Waiting_For_Permission"
  "wait_plan_of sample_approval = Some ''w1''" "ap_state sample_approval = Ap_Pending" "safe_nonneg 7"
  by code_simp+

theorem first_resolution_stands_witness:
  "table_get (fold approval_step [A_Save sample_approval, A_Reconcile 500] (deny_first (br_store sample_broker))) ''a1'' =
     Some (sample_approval\<lparr>ap_state := Ap_Denied, ap_resolved_at := Some 6\<rparr>)"
proof (rule first_resolution_stands)
  show "approval_table_ok (deny_first (br_store sample_broker))"
    unfolding deny_first_def by (rule resolve_pending_ok[OF sample_store_ok])
  show "table_get (deny_first (br_store sample_broker)) ''a1'' = Some (sample_approval\<lparr>ap_state := Ap_Denied, ap_resolved_at := Some 6\<rparr>)"
    by code_simp
qed simp

theorem answer_agrees_with_record_witness:
  "\<exists>r' b'. finalize_approval ''a1'' (answered True (Some ''http'')) 7 ''e9'' id id sample_broker =
     (\<lparr>fo_record = Inr (Some r'), fo_answer = Some True, fo_broadcast = Some True\<rparr>, b') \<and> ap_state r' = Ap_Approved"
proof -
  have "approval_table_ok (id (br_store sample_broker))" "table_get (id (br_store sample_broker)) ''a1'' = Some sample_approval"
    using sample_store_ok by (simp_all add: sample_store)
  note * = answer_agrees_with_record[where others = id and b = sample_broker, OF this sample_facts(4) sample_pending _ sample_facts(5) _ sample_facts(1) sample_wait_ok
      sample_facts(3) _ sample_facts(2), of "answered True (Some ''http'')" "''e9''"]
  then show ?thesis by (simp add: answered_def) blast
qed

end
