(* ===== verification/Workspace_Paths.thy ===== *)
theory Workspace_Paths
  imports Shell_Policy
begin

text \<open>
  Where tools may read and write: \<open>src/tools/workspace-scope.ts\<close> (the working directory of a call
  and paths inside the workspace) and \<open>src/tools/fs/FileValidationTool/protected-path-policy.ts\<close> (the
  check before a file is read, written or edited).

  Paths are POSIX paths. The functions of \<open>node:path\<close> are modelled on the segments of a path;
  \<open>realpath\<close> (the file system, \<open>None\<close> for its error), \<open>home\<close> and \<open>here\<close>, the home directory and the
  working directory of the process, both absolute, are arguments. Letters are folded to lower case
  as for ASCII.
\<close>

section \<open>Paths\<close>

abbreviation (input) slash :: char where "slash \<equiv> CHR ''/''"

definition path_segments :: "string \<Rightarrow> string list" where
  "path_segments p = normal_segments [] (split_at_char slash p)"

definition path_text :: "string list \<Rightarrow> string" where
  "path_text segs = (if segs = [] then [slash] else concat (map (\<lambda>s. slash # s) segs))"

definition starts_with :: "string \<Rightarrow> string \<Rightarrow> bool" where
  "starts_with p s \<longleftrightarrow> take (length p) s = p"

fun has_infix :: "string \<Rightarrow> string \<Rightarrow> bool" where
  "has_infix [] p \<longleftrightarrow> p = []"
| "has_infix (c # s) p \<longleftrightarrow> starts_with p (c # s) \<or> has_infix s p"

fun join_slash :: "string list \<Rightarrow> string" where
  "join_slash [] = []"
| "join_slash [s] = s"
| "join_slash (s # ss) = s @ slash # join_slash ss"

text \<open>\<open>path.relative\<close> and, for an absolute first part, \<open>path.join\<close>, which keeps a slash at the end.\<close>

fun relative_segments :: "string list \<Rightarrow> string list \<Rightarrow> string list" where
  "relative_segments (f # fs) (t # ts) =
     (if f = t then relative_segments fs ts else replicate (Suc (length fs)) ''..'' @ t # ts)"
| "relative_segments fs ts = replicate (length fs) ''..'' @ ts"

definition path_relative :: "string \<Rightarrow> string \<Rightarrow> string \<Rightarrow> string" where
  "path_relative here a b =
     join_slash (relative_segments (path_segments (path_resolve here here a)) (path_segments (path_resolve here here b)))"

definition path_join :: "string \<Rightarrow> string \<Rightarrow> string" where
  "path_join base rest =
     (let full = base @ slash # rest; segs = path_segments full
      in path_text segs @ (if segs \<noteq> [] \<and> last full = slash then [slash] else []))"

definition expand_tilde_path :: "string \<Rightarrow> string \<Rightarrow> string" where
  "expand_tilde_path home v =
     (if v = ''~'' then home
      else if starts_with ''~/'' v then path_join home (drop 2 v)
      else v)"

section \<open>The scope of the workspace\<close>

text \<open>
  \<open>canonicalPath\<close> of the scope: the real path of the longest existing ancestor, and below it the parts
  that do not exist yet. The ancestors are walked on the reversed segments.
\<close>

fun resolve_existing :: "(string \<Rightarrow> string option) \<Rightarrow> string list \<Rightarrow> string list \<Rightarrow> string option" where
  "resolve_existing realpath [] missing = map_option (\<lambda>r. path_text (path_segments r @ missing)) (realpath (path_text []))"
| "resolve_existing realpath (s # rs) missing = (case realpath (path_text (rev (s # rs))) of
     Some r \<Rightarrow> Some (path_text (path_segments r @ missing))
   | None \<Rightarrow> resolve_existing realpath rs (s # missing))"

definition canonical_path :: "(string \<Rightarrow> string option) \<Rightarrow> string \<Rightarrow> string \<Rightarrow> string \<Rightarrow> string" where
  "canonical_path realpath here home v =
     (let resolved = path_resolve here here (expand_tilde_path home v)
      in case realpath resolved of
           Some r \<Rightarrow> r
         | None \<Rightarrow> (case rev (path_segments resolved) of
              [] \<Rightarrow> resolved
            | s # rs \<Rightarrow> nullish (resolve_existing realpath rs [s]) resolved))"

definition is_inside_or_equal :: "string \<Rightarrow> string \<Rightarrow> string \<Rightarrow> bool" where
  "is_inside_or_equal here candidate top_dir =
     (let rel = path_relative here top_dir candidate
      in rel = [] \<or> (\<not> starts_with ''..'' rel \<and> \<not> is_absolute rel))"

record scope_validation =
  sv_valid :: bool
  sv_resolved :: string
  sv_workspaceRoot :: string
  sv_error :: "string option"

definition resolve_workspace_cwd ::
  "(string \<Rightarrow> string option) \<Rightarrow> string \<Rightarrow> string \<Rightarrow> string option \<Rightarrow> string \<Rightarrow> execution_policy option \<Rightarrow> scope_validation" where
  "resolve_workspace_cwd realpath here home requested cwd policy =
     (let canonical = canonical_path realpath here home;
          baseCwd = canonical cwd;
          workspaceRoot = canonical (case policy of Some pol \<Rightarrow> ep_workspaceRoot pol | None \<Rightarrow> baseCwd);
          rawCwd = (if requested \<noteq> None \<and> trim (the requested) \<noteq> [] then expand_tilde_path home (trim (the requested)) else baseCwd);
          resolved = canonical (if is_absolute rawCwd then rawCwd else path_resolve here baseCwd rawCwd)
      in if policy = None \<or> is_inside_or_equal here resolved workspaceRoot
         then \<lparr>sv_valid = True, sv_resolved = resolved, sv_workspaceRoot = workspaceRoot, sv_error = None\<rparr>
         else \<lparr>sv_valid = False, sv_resolved = resolved, sv_workspaceRoot = workspaceRoot,
               sv_error = Some (''cwd escapes workspace root: '' @ resolved)\<rparr>)"

definition resolve_workspace_path ::
  "(string \<Rightarrow> string option) \<Rightarrow> string \<Rightarrow> string \<Rightarrow> string \<Rightarrow> string \<Rightarrow> string \<Rightarrow> scope_validation" where
  "resolve_workspace_path realpath here home requestedPath cwd workspaceRoot =
     (let canonical = canonical_path realpath here home;
          top_dir = canonical workspaceRoot;
          baseCwd = canonical cwd;
          rawPath = expand_tilde_path home (trim requestedPath);
          resolved = canonical (if is_absolute rawPath then rawPath else path_resolve here baseCwd rawPath)
      in if is_inside_or_equal here resolved top_dir
         then \<lparr>sv_valid = True, sv_resolved = resolved, sv_workspaceRoot = top_dir, sv_error = None\<rparr>
         else \<lparr>sv_valid = False, sv_resolved = resolved, sv_workspaceRoot = top_dir,
               sv_error = Some (''path escapes workspace root: '' @ resolved)\<rparr>)"

section \<open>Protected paths\<close>

definition default_protected_path_patterns :: "string list" where
  "default_protected_path_patterns =
     [''.git'', ''.codex'', ''.agents'', ''.pulseed'', ''AGENTS.md'', ''AGENTS.override.md'', ''.env'', ''.env.local'',
      ''.env.production'', ''credentials'', ''secret'', ''.ssh'', ''id_rsa'', ''node_modules'']"

text \<open>The \<open>canonicalPath\<close> of this file: a path that does not exist is resolved as text only.\<close>

definition protected_canonical_path :: "(string \<Rightarrow> string option) \<Rightarrow> string \<Rightarrow> string \<Rightarrow> string \<Rightarrow> string" where
  "protected_canonical_path realpath here home v =
     (let expanded = expand_tilde_path home v
      in nullish (realpath expanded) (path_resolve here here expanded))"

definition normalize_for_match :: "string \<Rightarrow> string" where
  "normalize_for_match v =
     map to_lower (if starts_with ''./'' v then dropWhile (\<lambda>c. c = slash) (tl v) else v)"

definition matches_relative :: "string \<Rightarrow> string \<Rightarrow> bool" where
  "matches_relative pattern normalized =
     (let p = normalize_for_match pattern;
          isBroadToken = (slash \<notin> set p \<and> \<not> starts_with ''.'' p)
      in normalized = p \<or> starts_with (p @ [slash]) normalized \<or> has_infix normalized (slash # p @ [slash]) \<or>
         (isBroadToken \<and> has_infix normalized p))"

definition matches_protected :: "(string \<Rightarrow> string option) \<Rightarrow> string \<Rightarrow> string \<Rightarrow> string \<Rightarrow> string \<Rightarrow> string \<Rightarrow> bool" where
  "matches_protected realpath here home resolved normalized pattern =
     (let e = expand_tilde_path home pattern
      in if is_absolute e
         then (let top_dir = protected_canonical_path realpath here home e in resolved = top_dir \<or> starts_with (top_dir @ [slash]) resolved)
         else matches_relative pattern normalized)"

record protected_validation =
  pv_valid :: bool
  pv_resolved :: string
  pv_error :: "string option"

definition validate_protected_path ::
  "(string \<Rightarrow> string option) \<Rightarrow> string \<Rightarrow> string \<Rightarrow> string \<Rightarrow> string \<Rightarrow> string option \<Rightarrow> string list option \<Rightarrow> protected_validation" where
  "validate_protected_path realpath here home filePath cwd0 workspaceRoot0 protectedPaths =
     (let canonical = protected_canonical_path realpath here home;
          cwd = canonical cwd0;
          workspaceRoot = canonical (nullish workspaceRoot0 cwd0);
          requested = expand_tilde_path home filePath;
          resolved = canonical (if is_absolute requested then requested else path_resolve here cwd requested);
          rel = path_relative here workspaceRoot resolved
      in if starts_with ''..'' rel \<or> is_absolute rel
         then \<lparr>pv_valid = False, pv_resolved = resolved, pv_error = Some ''Path traversal outside workspace root''\<rparr>
         else case find (matches_protected realpath here home resolved (normalize_for_match (if rel = [] then ''.'' else rel)))
                        (default_protected_path_patterns @ nullish protectedPaths []) of
                Some pattern \<Rightarrow> \<lparr>pv_valid = False, pv_resolved = resolved,
                  pv_error = Some (''Blocked: path targets protected area '' @ [CHR 0x22] @ pattern @ [CHR 0x22])\<rparr>
              | None \<Rightarrow> \<lparr>pv_valid = True, pv_resolved = resolved, pv_error = None\<rparr>)"

definition validate_file_path ::
  "(string \<Rightarrow> string option) \<Rightarrow> string \<Rightarrow> string \<Rightarrow> string \<Rightarrow> string \<Rightarrow> string list option \<Rightarrow> protected_validation" where
  "validate_file_path realpath here home filePath cwd protectedPaths =
     validate_protected_path realpath here home filePath cwd (Some cwd) protectedPaths"

section \<open>Segments\<close>

definition clean :: "string \<Rightarrow> bool" where
  "clean s \<longleftrightarrow> s \<noteq> [] \<and> s \<noteq> ''.'' \<and> s \<noteq> ''..'' \<and> slash \<notin> set s"

lemma split_free: "c \<notin> set s \<Longrightarrow> split_at_char c s = [s]"
  by (induction s) auto

lemma split_append: "c \<notin> set s \<Longrightarrow> split_at_char c (s @ c # t) = s # split_at_char c t"
  by (induction s) auto

lemma split_pieces_free: "w \<in> set (split_at_char c s) \<Longrightarrow> c \<notin> set w"
  by (induction s arbitrary: w) (auto split: list.splits if_splits)

lemma normal_segments_clean: "list_all clean segs \<Longrightarrow> normal_segments acc segs = acc @ segs"
  by (induction segs arbitrary: acc) (simp_all add: clean_def)

lemma clean_normal_segments:
  "list_all clean acc \<Longrightarrow> \<forall>s \<in> set segs. slash \<notin> set s \<Longrightarrow> list_all clean (normal_segments acc segs)"
proof (induction acc segs rule: normal_segments.induct)
  case (2 acc s ss)
  have "list_all clean (butlast acc)" using "2.prems"(1) by (auto simp: list_all_iff dest: in_set_butlastD)
  moreover have "s \<noteq> [] \<Longrightarrow> s \<noteq> ''.'' \<Longrightarrow> s \<noteq> ''..'' \<Longrightarrow> clean s" using "2.prems"(2) by (simp add: clean_def)
  ultimately show ?case using 2 by simp
qed simp

lemma clean_path_segments [simp]: "list_all clean (path_segments p)"
  by (simp add: path_segments_def clean_normal_segments split_pieces_free)

lemma split_path_text:
  "list_all clean segs \<Longrightarrow> segs \<noteq> [] \<Longrightarrow> split_at_char slash (concat (map (\<lambda>s. slash # s) segs)) = [] # segs"
proof (induction segs)
  case (Cons s ss)
  have free: "slash \<notin> set s" using Cons.prems by (simp add: clean_def)
  show ?case
  proof (cases ss)
    case Nil
    then show ?thesis using free by (simp add: split_free)
  next
    case (Cons t ts)
    let ?rest = "concat (map (\<lambda>s. slash # s) ss)"
    have "split_at_char slash ?rest = [] # ss" using Cons.IH Cons.prems Cons by simp
    moreover obtain r where "?rest = slash # r" using Cons by simp
    ultimately have "split_at_char slash r = ss" "?rest = slash # r" by simp_all
    then show ?thesis using free by (simp add: split_append)
  qed
qed simp

lemma segments_of_text [simp]: "list_all clean segs \<Longrightarrow> path_segments (path_text segs) = segs"
  by (cases "segs = []") (simp_all add: path_segments_def path_text_def split_path_text normal_segments_clean)

lemma text_inject:
  assumes "list_all clean a" "list_all clean b"
  shows "path_text a = path_text b \<longleftrightarrow> a = b"
proof
  assume "path_text a = path_text b"
  then have "path_segments (path_text a) = path_segments (path_text b)" by (rule arg_cong)
  then show "a = b" by (simp add: assms)
qed simp

lemma absolute_text [simp]: "is_absolute (path_text segs)"
  by (cases segs) (simp_all add: path_text_def is_absolute_def)

lemma path_resolve_alt:
  "path_resolve here base p = path_text (path_segments
     (if is_absolute p then p else if is_absolute base then base @ slash # p else here @ slash # base @ slash # p))"
  by (simp add: path_resolve_def Let_def path_text_def path_segments_def)

lemma resolve_is_text: "path_resolve here base p = path_text (path_segments (path_resolve here base p))"
  by (simp add: path_resolve_alt)

lemma resolve_text [simp]: "list_all clean segs \<Longrightarrow> path_resolve here base (path_text segs) = path_text segs"
  by (simp add: path_resolve_alt)

lemma resolve_resolve [simp]: "path_resolve here base (path_resolve here' base' p) = path_resolve here' base' p"
  using resolve_text[OF clean_path_segments, of here base "path_resolve here' base' p"]
  by (simp add: resolve_is_text[symmetric])

section \<open>Inside the workspace\<close>

lemma starts_with_append [simp]: "starts_with p (p @ s)"
  by (simp add: starts_with_def)

lemma relative_segments_prefix [simp]: "relative_segments a (a @ rest) = rest"
  by (induction a) (cases rest, simp_all)

lemma relative_segments_outside: "\<nexists>rest. b = a @ rest \<Longrightarrow> \<exists>us. relative_segments a b = ''..'' # us"
proof (induction a arbitrary: b)
  case outer: (Cons f fs)
  show ?case
  proof (cases b)
    case (Cons t ts)
    then show ?thesis using outer.IH[of ts] outer.prems by (cases "f = t") auto
  qed simp
qed simp

lemma clean_starts:
  assumes "clean s" "t = [] \<or> hd t = slash"
  shows "starts_with ''..'' (s @ t) \<longleftrightarrow> starts_with ''..'' s"
proof (cases s)
  case (Cons c s')
  then show ?thesis using assms by (cases s') (auto simp: starts_with_def clean_def take_Cons' neq_Nil_conv)
qed (use assms in \<open>simp add: clean_def\<close>)

lemma join_starts:
  "list_all clean segs \<Longrightarrow> starts_with ''..'' (join_slash segs) \<longleftrightarrow> segs \<noteq> [] \<and> starts_with ''..'' (hd segs)"
  by (cases segs rule: join_slash.cases) (simp_all add: clean_starts, simp add: starts_with_def)

lemma join_empty: "list_all clean segs \<Longrightarrow> join_slash segs = [] \<longleftrightarrow> segs = []"
  by (cases segs rule: join_slash.cases) (simp_all add: clean_def)

lemma join_relative: "list_all clean segs \<Longrightarrow> \<not> is_absolute (join_slash segs)"
  by (cases segs rule: join_slash.cases) (auto simp: is_absolute_def clean_def neq_Nil_conv)

lemma path_relative_cases:
  obtains (inside) rest where "path_segments (path_resolve here here b) = path_segments (path_resolve here here a) @ rest"
      "path_relative here a b = join_slash rest" "list_all clean rest"
  | (outside) "\<nexists>rest. path_segments (path_resolve here here b) = path_segments (path_resolve here here a) @ rest"
      "starts_with ''..'' (path_relative here a b)"
proof (cases "\<exists>rest. path_segments (path_resolve here here b) = path_segments (path_resolve here here a) @ rest")
  case True
  then obtain rest where rest: "path_segments (path_resolve here here b) = path_segments (path_resolve here here a) @ rest" ..
  have "list_all clean rest" using clean_path_segments[of "path_resolve here here b"] by (simp add: rest)
  then show ?thesis using inside[OF rest] by (simp add: path_relative_def rest)
next
  case False
  then obtain us where "relative_segments (path_segments (path_resolve here here a)) (path_segments (path_resolve here here b)) = ''..'' # us"
    using relative_segments_outside by blast
  then have "starts_with ''..'' (path_relative here a b)"
    by (cases us) (simp_all add: path_relative_def starts_with_def)
  then show ?thesis using outside False by blast
qed

text \<open>
  The test of the workspace, written on texts, is the test on segments: a path is inside when its
  segments extend those of the root, with one exception on the safe side, a first segment below
  the root whose name begins with two dots.
\<close>
lemma inside_is_segment_prefix:
  "is_inside_or_equal here candidate top_dir \<longleftrightarrow>
     (\<exists>rest. path_segments (path_resolve here here candidate) = path_segments (path_resolve here here top_dir) @ rest \<and>
        (rest = [] \<or> \<not> starts_with ''..'' (hd rest)))"
proof (cases rule: path_relative_cases[of here candidate top_dir])
  case (inside rest)
  then show ?thesis
    by (auto simp: is_inside_or_equal_def Let_def join_empty join_starts join_relative)
next
  case outside
  then show ?thesis by (auto simp: is_inside_or_equal_def Let_def starts_with_def)
qed

section \<open>Symbolic links\<close>

text \<open>
  What the file system promises of \<open>realpath\<close>: its answers are canonical and so are their ancestors, a
  path below one that does not resolve does not resolve, and a path resolves step by step.
\<close>

definition realpath_ok :: "(string \<Rightarrow> string option) \<Rightarrow> bool" where
  "realpath_ok realpath \<longleftrightarrow>
     (\<forall>p r. realpath p = Some r \<longrightarrow> r = path_text (path_segments r)) \<and>
     (\<forall>p r a b. realpath p = Some r \<longrightarrow> path_segments r = a @ b \<longrightarrow> realpath (path_text a) = Some (path_text a)) \<and>
     (\<forall>a s. list_all clean (a @ [s]) \<longrightarrow> realpath (path_text a) = None \<longrightarrow> realpath (path_text (a @ [s])) = None) \<and>
     (\<forall>a s r. list_all clean (a @ [s]) \<longrightarrow> realpath (path_text a) = Some r \<longrightarrow>
        realpath (path_text (a @ [s])) = realpath (path_text (path_segments r @ [s])))"

text \<open>
  Every part of the path that resolves is its own real path. Of a part that does not resolve this
  says nothing: it may be missing, or a link whose target is missing.
\<close>

definition resolves_in_place :: "(string \<Rightarrow> string option) \<Rightarrow> string \<Rightarrow> bool" where
  "resolves_in_place realpath p \<longleftrightarrow>
     (\<forall>a b. path_segments p = a @ b \<longrightarrow> realpath (path_text a) = None \<or> realpath (path_text a) = Some (path_text a))"

text \<open>
  \<open>link\<close> are the names under which the file system has a symbolic link. No part of a path is one; and
  a file system without dangling links: every link resolves, to another name than its own.
\<close>

definition no_link_on :: "(string \<Rightarrow> bool) \<Rightarrow> string \<Rightarrow> bool" where
  "no_link_on link p \<longleftrightarrow> (\<forall>a b. path_segments p = a @ b \<longrightarrow> \<not> link (path_text a))"

definition no_dangling_links :: "(string \<Rightarrow> string option) \<Rightarrow> (string \<Rightarrow> bool) \<Rightarrow> bool" where
  "no_dangling_links realpath link \<longleftrightarrow>
     (\<forall>a. list_all clean a \<longrightarrow> link (path_text a) \<longrightarrow> (\<exists>r. realpath (path_text a) = Some r \<and> r \<noteq> path_text a))"

lemma in_place_no_link:
  assumes "resolves_in_place realpath p" "no_dangling_links realpath link"
  shows "no_link_on link p"
  unfolding no_link_on_def
proof (intro allI impI notI)
  fix a b
  assume ab: "path_segments p = a @ b" and l: "link (path_text a)"
  have "list_all clean a" using clean_path_segments[of p] by (simp add: ab list_all_append)
  then obtain r where "realpath (path_text a) = Some r" "r \<noteq> path_text a"
    using assms(2) l unfolding no_dangling_links_def by blast
  then show False using assms(1) ab unfolding resolves_in_place_def by fastforce
qed

lemma unresolved_below:
  assumes "realpath_ok realpath" "realpath (path_text a) = None" "list_all clean (a @ b)"
  shows "realpath (path_text (a @ b)) = None"
  using assms(3)
proof (induction b rule: rev_induct)
  case (snoc s b)
  then show ?case using assms(1) unfolding realpath_ok_def by (metis append.assoc list_all_append)
qed (simp add: assms(2))

lemma resolved_in_place:
  assumes "realpath_ok realpath" "realpath p = Some r"
  shows "resolves_in_place realpath r" "r = path_text (path_segments r)"
  using assms unfolding realpath_ok_def resolves_in_place_def by blast+

lemma missing_in_place:
  assumes "realpath_ok realpath" "realpath (path_text a) = Some r" "list_all clean (a @ s # ss)"
    "realpath (path_text (a @ [s])) = None"
  shows "resolves_in_place realpath (path_text (path_segments r @ s # ss))"
  unfolding resolves_in_place_def
proof (intro allI impI)
  fix c d
  have cl: "list_all clean (path_segments r @ s # ss)" using assms(3) by simp
  assume "path_segments (path_text (path_segments r @ s # ss)) = c @ d"
  then have cd: "path_segments r @ s # ss = c @ d" using cl by (simp del: list_all_append)
  have "realpath (path_text (a @ [s])) = realpath (path_text (path_segments r @ [s]))"
    using assms(1-3) unfolding realpath_ok_def by (simp add: list_all_append)
  then have none: "realpath (path_text (path_segments r @ [s])) = None" using assms(4) by simp
  consider us where "path_segments r = c @ us" | us where "c = path_segments r @ us" "s # ss = us @ d"
    using cd by (auto simp: append_eq_append_conv2)
  then show "realpath (path_text c) = None \<or> realpath (path_text c) = Some (path_text c)"
  proof cases
    case 1
    then show ?thesis using resolved_in_place(1)[OF assms(1,2)] unfolding resolves_in_place_def by blast
  next
    case (2 us)
    show ?thesis
    proof (cases us)
      case Nil
      then show ?thesis using 2 resolved_in_place(1)[OF assms(1,2)] unfolding resolves_in_place_def by (metis append_Nil2)
    next
      case (Cons u e)
      then have e: "c = (path_segments r @ [s]) @ e" using 2 by simp
      have "list_all clean c" using cd cl by (simp add: list_all_append)
      then show ?thesis using unresolved_below[OF assms(1) none, of e] by (simp add: e)
    qed
  qed
qed

lemma resolve_existing_in_place:
  "realpath_ok realpath \<Longrightarrow> list_all clean (rev rs @ s # ss) \<Longrightarrow> realpath (path_text (rev rs @ [s])) = None \<Longrightarrow>
   case resolve_existing realpath rs (s # ss) of
     Some p \<Rightarrow> resolves_in_place realpath p \<and> p = path_text (path_segments p)
   | None \<Rightarrow> realpath (path_text []) = None"
proof (induction rs arbitrary: s ss)
  case Nil
  show ?case
  proof (cases "realpath (path_text [])")
    case (Some r)
    then show ?thesis using missing_in_place[of realpath "[]" r s ss] Nil by (simp add: list_all_append)
  qed simp
next
  case (Cons x rs)
  show ?case
  proof (cases "realpath (path_text (rev (x # rs)))")
    case None
    then show ?thesis using Cons.IH[of x "s # ss"] Cons.prems by simp
  next
    case (Some r)
    then show ?thesis using missing_in_place[OF Cons.prems(1) Some] Cons.prems(2,3) by (simp add: list_all_append)
  qed
qed

lemma canonical_in_place:
  assumes "realpath_ok realpath"
  shows "resolves_in_place realpath (canonical_path realpath here home v)"
    and "canonical_path realpath here home v = path_text (path_segments (canonical_path realpath here home v))"
proof -
  let ?p = "path_resolve here here (expand_tilde_path home v)"
  have unresolved: "resolves_in_place realpath p" if "realpath (path_text []) = None" for p
    using unresolved_below[OF assms that] clean_path_segments[of p] unfolding resolves_in_place_def by (metis append_Nil list_all_append)
  have "resolves_in_place realpath (canonical_path realpath here home v) \<and>
        canonical_path realpath here home v = path_text (path_segments (canonical_path realpath here home v))"
  proof (cases "realpath ?p")
    case (Some r)
    then show ?thesis using resolved_in_place[OF assms Some] by (simp add: canonical_path_def)
  next
    case None
    show ?thesis
    proof (cases "rev (path_segments ?p)")
      case Nil
      then have "?p = path_text []" using resolve_is_text[of here here "expand_tilde_path home v"] by simp
      moreover from this have "resolves_in_place realpath (path_text [])" using None by (intro unresolved) simp
      ultimately show ?thesis using None Nil by (simp add: canonical_path_def resolve_is_text[symmetric])
    next
      case (Cons s rs)
      then have segs: "path_segments ?p = rev rs @ [s]" by (metis rev_eq_Cons_iff rev_rev_ident)
      then have "list_all clean (rev rs @ [s])" using clean_path_segments[of ?p] by simp
      moreover have "realpath (path_text (rev rs @ [s])) = None" using None segs resolve_is_text by metis
      ultimately have "case resolve_existing realpath rs [s] of
          Some p \<Rightarrow> resolves_in_place realpath p \<and> p = path_text (path_segments p) | None \<Rightarrow> realpath (path_text []) = None"
        by (rule resolve_existing_in_place[OF assms])
      then show ?thesis using None Cons unresolved[of ?p] resolve_is_text[of here here "expand_tilde_path home v"]
        by (simp add: canonical_path_def split: option.splits)
    qed
  qed
  then show "resolves_in_place realpath (canonical_path realpath here home v)"
    "canonical_path realpath here home v = path_text (path_segments (canonical_path realpath here home v))" by simp_all
qed

lemma canonical_inside:
  assumes "realpath_ok realpath"
    "is_inside_or_equal here (canonical_path realpath here home v) (canonical_path realpath here home w)"
  shows "\<exists>rest. path_segments (canonical_path realpath here home v) = path_segments (canonical_path realpath here home w) @ rest"
proof -
  have fixed: "path_resolve here here (canonical_path realpath here home u) = canonical_path realpath here home u" for u
    using resolve_text[OF clean_path_segments, of here here "canonical_path realpath here home u"]
      canonical_in_place(2)[OF assms(1), of here home u] by simp
  show ?thesis using assms(2) unfolding is_inside_or_equal_def Let_def
    by (cases rule: path_relative_cases[of here "canonical_path realpath here home v" "canonical_path realpath here home w"])
      (auto simp: fixed starts_with_def)
qed

text \<open>
  C15. A working directory or a path that is accepted for a workspace has the segments of the real
  path of the workspace root in front, and every part of it that resolves is its own real path: no
  link that resolves leads out of the workspace or to another place in it. Parts that do not resolve
  are taken as they are written. In a file system without dangling links no part of the accepted
  path is a link at all, so that what a tool then opens or creates under this name is in the workspace.
\<close>
theorem accepted_paths_stay_inside:
  assumes "realpath_ok realpath"
  shows "(case resolve_workspace_path realpath here home p cwd workspaceRoot of v \<Rightarrow>
            sv_valid v \<longrightarrow> resolves_in_place realpath (sv_resolved v) \<and>
              (no_dangling_links realpath link \<longrightarrow> no_link_on link (sv_resolved v)) \<and>
              (\<exists>rest. path_segments (sv_resolved v) = path_segments (sv_workspaceRoot v) @ rest)) \<and>
         (case resolve_workspace_cwd realpath here home requested cwd (Some pol) of v \<Rightarrow>
            sv_valid v \<longrightarrow> resolves_in_place realpath (sv_resolved v) \<and>
              (no_dangling_links realpath link \<longrightarrow> no_link_on link (sv_resolved v)) \<and>
              (\<exists>rest. path_segments (sv_resolved v) = path_segments (sv_workspaceRoot v) @ rest))"
  using canonical_in_place(1)[OF assms] in_place_no_link[OF canonical_in_place(1)[OF assms]] canonical_inside[OF assms]
  by (simp add: resolve_workspace_path_def resolve_workspace_cwd_def Let_def)

section \<open>A new file behind a link\<close>

lemma expand_text [simp]: "expand_tilde_path home (path_text segs) = path_text segs"
  using absolute_text[of segs] by (cases "path_text segs") (auto simp: expand_tilde_path_def starts_with_def is_absolute_def)

lemma relative_text:
  "list_all clean a \<Longrightarrow> list_all clean rest \<Longrightarrow> path_relative here (path_text a) (path_text (a @ rest)) = join_slash rest"
  by (simp add: path_relative_def)

lemma trim_text: "f \<noteq> [] \<Longrightarrow> \<not> is_space (last f) \<Longrightarrow> trim (path_text (a @ [f])) = path_text (a @ [f])"
  using absolute_text[of "a @ [f]"] by (intro trim_id) (auto simp: path_text_def is_absolute_def is_space_def)

text \<open>
  The check before a file is written does not look through a link when the file is new. Let a
  directory of the workspace be a link to somewhere else: for a file below it that does not exist
  yet, \<open>validateFilePath\<close> resolves the text of the path only and accepts it (when no protected
  pattern matches the text), although the file would be created outside of the workspace, where
  \<open>resolveWorkspacePath\<close> sees and refuses it.
\<close>
lemma new_file_behind_link_is_accepted:
  assumes "list_all clean (w @ [l, f])" "\<not> is_space (last f)" "\<not> starts_with ''..'' l"
    "realpath (path_text w) = Some (path_text w)" "realpath (path_text (w @ [l])) = Some r"
    "realpath (path_text (w @ [l, f])) = None"
    "\<nexists>rest. path_segments r @ [f] = w @ rest"
    "\<forall>p \<in> set (default_protected_path_patterns @ nullish protectedPaths []).
       \<not> matches_protected realpath here home (path_text (w @ [l, f])) (normalize_for_match (join_slash [l, f])) p"
  shows "validate_file_path realpath here home (path_text (w @ [l, f])) (path_text w) protectedPaths =
           \<lparr>pv_valid = True, pv_resolved = path_text (w @ [l, f]), pv_error = None\<rparr> \<and>
         canonical_path realpath here home (path_text (w @ [l, f])) = path_text (path_segments r @ [f]) \<and>
         \<not> sv_valid (resolve_workspace_path realpath here home (path_text (w @ [l, f])) (path_text w) (path_text w))"
proof -
  have cl: "list_all clean w" "list_all clean [l, f]" "clean f" using assms(1) by (simp_all add: list_all_append)
  have rel: "path_relative here (path_text w) (path_text (w @ [l, f])) = join_slash [l, f]" by (rule relative_text[OF cl(1,2)])
  have "\<not> starts_with ''..'' (join_slash [l, f])" "\<not> is_absolute (join_slash [l, f])"
    using assms(3) join_starts[OF cl(2)] join_relative[OF cl(2)] by simp_all
  moreover have "find (matches_protected realpath here home (path_text (w @ [l, f])) (normalize_for_match (join_slash [l, f])))
      (default_protected_path_patterns @ nullish protectedPaths []) = None"
    using assms(8) by (simp add: find_None_conv)
  ultimately have "validate_file_path realpath here home (path_text (w @ [l, f])) (path_text w) protectedPaths =
      \<lparr>pv_valid = True, pv_resolved = path_text (w @ [l, f]), pv_error = None\<rparr>"
    using assms(1,4,6) rel
    by (simp add: validate_file_path_def validate_protected_path_def protected_canonical_path_def Let_def join_empty cl)
  moreover have canon: "canonical_path realpath here home (path_text (w @ [l, f])) = path_text (path_segments r @ [f])"
    "canonical_path realpath here home (path_text w) = path_text w"
    using assms(1,4,5,6) cl by (simp_all add: canonical_path_def)
  moreover have "trim (path_text (w @ [l, f])) = path_text (w @ [l, f])"
    using trim_text[of f "w @ [l]"] assms(2) cl(3) by (simp add: clean_def)
  moreover have "\<not> is_inside_or_equal here (path_text (path_segments r @ [f])) (path_text w)"
    using assms(7) cl by (simp add: inside_is_segment_prefix list_all_append)
  ultimately show ?thesis by (simp add: resolve_workspace_path_def Let_def)
qed

text \<open>
  A dangling link is not seen at all. Let \<open>l\<close> be a name in the workspace that does not resolve, because
  it is a link to a missing file anywhere: \<open>canonicalPath\<close> of the scope goes on with the parent, keeps
  the name and accepts the path, as the check before a file is written does (when no protected
  pattern matches); a tool that creates the file follows the link and writes to its target.
\<close>
lemma dangling_link_is_accepted:
  assumes "list_all clean (w @ [l])" "\<not> is_space (last l)" "\<not> starts_with ''..'' l"
    "realpath (path_text w) = Some (path_text w)" "link (path_text (w @ [l]))" "realpath (path_text (w @ [l])) = None"
    "\<forall>p \<in> set (default_protected_path_patterns @ nullish protectedPaths []).
       \<not> matches_protected realpath here home (path_text (w @ [l])) (normalize_for_match l) p"
  shows "resolve_workspace_path realpath here home (path_text (w @ [l])) (path_text w) (path_text w) =
           \<lparr>sv_valid = True, sv_resolved = path_text (w @ [l]), sv_workspaceRoot = path_text w, sv_error = None\<rparr> \<and>
         validate_file_path realpath here home (path_text (w @ [l])) (path_text w) protectedPaths =
           \<lparr>pv_valid = True, pv_resolved = path_text (w @ [l]), pv_error = None\<rparr> \<and>
         \<not> no_link_on link (path_text (w @ [l]))"
proof -
  have cl: "list_all clean w" "clean l" using assms(1) by (simp_all add: list_all_append)
  have ne: "l \<noteq> []" using cl(2) by (simp add: clean_def)
  have canon: "canonical_path realpath here home (path_text (w @ [l])) = path_text (w @ [l])"
    "canonical_path realpath here home (path_text w) = path_text w"
    using assms(1,4,6) cl by (cases "rev w", simp_all add: canonical_path_def)
  have "is_inside_or_equal here (path_text (w @ [l])) (path_text w)"
    using assms(3) cl by (simp add: inside_is_segment_prefix list_all_append)
  then have scope: "resolve_workspace_path realpath here home (path_text (w @ [l])) (path_text w) (path_text w) =
      \<lparr>sv_valid = True, sv_resolved = path_text (w @ [l]), sv_workspaceRoot = path_text w, sv_error = None\<rparr>"
    using trim_text[OF ne assms(2), of w] by (simp add: resolve_workspace_path_def Let_def canon)
  have rel: "path_relative here (path_text w) (path_text (w @ [l])) = l"
    using relative_text[OF cl(1), of "[l]" here] cl(2) by simp
  have "\<not> is_absolute l" using join_relative[of "[l]"] cl(2) by simp
  moreover have "find (matches_protected realpath here home (path_text (w @ [l])) (normalize_for_match l))
      (default_protected_path_patterns @ nullish protectedPaths []) = None"
    using assms(7) by (simp add: find_None_conv)
  ultimately have "validate_file_path realpath here home (path_text (w @ [l])) (path_text w) protectedPaths =
      \<lparr>pv_valid = True, pv_resolved = path_text (w @ [l]), pv_error = None\<rparr>"
    using assms(1,3,4,6) rel ne
    by (simp add: validate_file_path_def validate_protected_path_def protected_canonical_path_def Let_def)
  moreover have "\<not> no_link_on link (path_text (w @ [l]))"
    using assms(1,5) by (auto simp: no_link_on_def simp del: list_all_append)
  ultimately show ?thesis using scope by blast
qed

section \<open>Names that are protected\<close>

lemma lower_slash [simp]: "to_lower c = slash \<longleftrightarrow> c = slash"
proof -
  have "to_lower c = slash \<Longrightarrow> c = slash"
  proof -
    assume low: "to_lower c = slash"
    have "(of_char c :: nat) < 256" by simp
    then have "of_char c = (47 :: nat)"
      using arg_cong[OF low, of "of_char :: char \<Rightarrow> nat"] by (simp add: to_lower_def Let_def split: if_splits)
    then have "of_char c = (of_char slash :: nat)" by simp
    then show "c = slash" by (simp only: of_char_eq_iff)
  qed
  then show ?thesis by (auto simp: to_lower_def)
qed

lemma lower_dot [simp]: "to_lower (CHR ''.'') = CHR ''.''"
  by (simp add: to_lower_def)

lemma slash_in_lower [simp]: "slash \<in> to_lower ` set s \<longleftrightarrow> slash \<in> set s"
  by (metis (no_types, lifting) image_iff lower_slash)

lemma lower_join: "map to_lower (join_slash ss) = join_slash (map (map to_lower) ss)"
  by (induction ss rule: join_slash.induct) (simp_all add: to_lower_def)

lemma starts_withE:
  assumes "starts_with p s"
  obtains t where "s = p @ t"
  using assms append_take_drop_id[of "length p" s] unfolding starts_with_def by metis

lemma first_slash: "slash \<notin> set p \<Longrightarrow> slash \<notin> set s \<Longrightarrow> s @ slash # t = p @ slash # u \<longleftrightarrow> s = p \<and> t = u"
  by (induction s arbitrary: p) (case_tac p; auto)+

lemma starts_with_name:
  assumes "slash \<notin> set p" "slash \<notin> set s"
  shows "starts_with (p @ [slash]) (s @ slash # t) \<longleftrightarrow> s = p"
    and "\<not> starts_with (p @ [slash]) s"
proof -
  show "starts_with (p @ [slash]) (s @ slash # t) \<longleftrightarrow> s = p"
  proof
    assume "starts_with (p @ [slash]) (s @ slash # t)"
    then obtain u where "s @ slash # t = (p @ [slash]) @ u" by (rule starts_withE)
    then show "s = p" using first_slash[OF assms, of t u] by simp
  qed (simp add: starts_with_def)
  show "\<not> starts_with (p @ [slash]) s"
  proof
    assume "starts_with (p @ [slash]) s"
    then obtain u where "s = (p @ [slash]) @ u" by (rule starts_withE)
    then show False using assms(2) by simp
  qed
qed

lemma infix_skip:
  assumes "slash \<notin> set s"
  shows "has_infix (s @ slash # t) (slash # p) \<longleftrightarrow> starts_with p t \<or> has_infix t (slash # p)"
    and "\<not> has_infix s (slash # p)"
  using assms by (induction s) (auto simp: starts_with_def)

lemma infix_join:
  assumes "slash \<notin> set p" "\<forall>s \<in> set ss. slash \<notin> set s"
  shows "has_infix (join_slash ss) (slash # p @ [slash]) \<longleftrightarrow> (\<exists>k. 0 < k \<and> Suc k < length ss \<and> ss ! k = p)"
  using assms(2)
proof (induction ss rule: join_slash.induct)
  case (3 s t ss)
  have "starts_with (p @ [slash]) (join_slash (t # ss)) \<longleftrightarrow> ss \<noteq> [] \<and> t = p"
    using starts_with_name[OF assms(1), of t] "3.prems" by (cases ss) auto
  then have "has_infix (join_slash (s # t # ss)) (slash # p @ [slash]) \<longleftrightarrow>
      (ss \<noteq> [] \<and> t = p) \<or> (\<exists>k. 0 < k \<and> Suc k < length (t # ss) \<and> (t # ss) ! k = p)"
    using 3 by (simp add: infix_skip(1))
  also have "\<dots> \<longleftrightarrow> (\<exists>k. Suc k < length (t # ss) \<and> (t # ss) ! k = p)"
  proof (intro iffI; elim exE conjE disjE)
    fix k assume "Suc k < length (t # ss)" "(t # ss) ! k = p"
    then show "(ss \<noteq> [] \<and> t = p) \<or> (\<exists>k. 0 < k \<and> Suc k < length (t # ss) \<and> (t # ss) ! k = p)"
      by (cases k) auto
  qed auto
  also have "\<dots> \<longleftrightarrow> (\<exists>k. 0 < k \<and> Suc k < length (s # t # ss) \<and> (s # t # ss) ! k = p)"
  proof (intro iffI; elim exE conjE)
    fix k assume "0 < k" "Suc k < length (s # t # ss)" "(s # t # ss) ! k = p"
    then show "\<exists>k. Suc k < length (t # ss) \<and> (t # ss) ! k = p" by (cases k) auto
  qed auto
  finally show ?case .
qed (auto simp: infix_skip(2))

text \<open>
  What a protected name with a leading dot (.git, .env, .ssh, ...) protects: a path of the workspace
  is refused by it exactly when the name is its first component or a component that is not its
  last one, in any case of letters. The workspace's own .env is refused, the .env of a package in
  a subdirectory is not.
\<close>
lemma dot_name_protects_all_but_nested_files:
  assumes "list_all clean (w @ ss)" "ss \<noteq> []" "clean p" "hd p = CHR ''.''" "map to_lower p = p"
  shows "matches_protected realpath here home (path_text (w @ ss)) (normalize_for_match (join_slash ss)) p \<longleftrightarrow>
           (\<exists>k < length ss. map to_lower (ss ! k) = p \<and> (k = 0 \<or> Suc k < length ss))"
proof -
  let ?ls = "map (map to_lower) ss"
  have free: "slash \<notin> set p" "\<forall>s \<in> set ?ls. slash \<notin> set s"
    using assms(1,3) by (auto simp: clean_def list_all_iff)
  have cl: "list_all clean ss" using assms(1) by (simp add: list_all_append)
  have dot: "\<not> starts_with ''./'' (q @ t)" if "clean q" for q t
    using that by (cases q; cases "tl q") (auto simp: starts_with_def clean_def)
  have "\<not> starts_with ''./'' (join_slash ss)"
    using cl dot dot[where t = "[]"] assms(2) by (cases ss rule: join_slash.cases) simp_all
  then have norm: "normalize_for_match (join_slash ss) = join_slash ?ls" "normalize_for_match p = p"
    using assms(5) dot[OF assms(3), of "[]"] by (simp_all add: normalize_for_match_def lower_join)
  have p: "expand_tilde_path home p = p" "\<not> is_absolute p" "starts_with ''.'' p"
    using assms(3,4) by (cases p; auto simp: expand_tilde_path_def is_absolute_def starts_with_def clean_def)+
  have "join_slash ?ls = p \<or> starts_with (p @ [slash]) (join_slash ?ls) \<longleftrightarrow> ?ls ! 0 = p"
  proof (cases ?ls rule: join_slash.cases)
    case (2 s)
    then show ?thesis using starts_with_name(2)[OF free(1), of s] free(2) by simp
  next
    case (3 s t us)
    have "join_slash ?ls \<noteq> p" using free(1) 3 by auto
    then show ?thesis using starts_with_name(1)[OF free(1), of s] free(2) 3 by simp
  qed (use assms(2) in simp)
  then have "matches_protected realpath here home (path_text (w @ ss)) (normalize_for_match (join_slash ss)) p \<longleftrightarrow>
      ?ls ! 0 = p \<or> (\<exists>k. 0 < k \<and> Suc k < length ?ls \<and> ?ls ! k = p)"
    using p norm infix_join[OF free] by (auto simp: matches_protected_def matches_relative_def Let_def)
  also have "\<dots> \<longleftrightarrow> (\<exists>k < length ss. map to_lower (ss ! k) = p \<and> (k = 0 \<or> Suc k < length ss))"
  proof (intro iffI; elim exE conjE disjE)
    show "\<exists>k < length ss. map to_lower (ss ! k) = p \<and> (k = 0 \<or> Suc k < length ss)" if "?ls ! 0 = p"
      using that assms(2) by (intro exI[of _ 0]) simp
  next
    fix k assume "0 < k" "Suc k < length ?ls" "?ls ! k = p"
    then show "\<exists>k < length ss. map to_lower (ss ! k) = p \<and> (k = 0 \<or> Suc k < length ss)"
      by (intro exI[of _ k]) simp
  next
    fix k assume k: "k < length ss" "map to_lower (ss ! k) = p" "k = 0"
    then show "?ls ! 0 = p \<or> (\<exists>k. 0 < k \<and> Suc k < length ?ls \<and> ?ls ! k = p)" by simp
  next
    fix k assume "k < length ss" "map to_lower (ss ! k) = p" "Suc k < length ss"
    then show "?ls ! 0 = p \<or> (\<exists>k. 0 < k \<and> Suc k < length ?ls \<and> ?ls ! k = p)" by (cases "k = 0") auto
  qed
  finally show ?thesis .
qed

section \<open>Witnesses\<close>

text \<open>A file system where every path exists and /w/link is a link to /etc, and one with one file less.\<close>

definition link_fs :: "string \<Rightarrow> string option" where
  "link_fs p = Some (path_text (case path_segments p of
     s # t # r \<Rightarrow> if s = ''w'' \<and> t = ''link'' then ''etc'' # r else s # t # r | segs \<Rightarrow> segs))"

definition sparse_fs :: "string \<Rightarrow> string option" where
  "sparse_fs p = (if p = ''/w/link/new.txt'' then None else link_fs p)"

lemma link_fs_ok: "realpath_ok link_fs"
proof -
  define go where "go segs = (case segs of s # t # r \<Rightarrow> if s = ''w'' \<and> t = ''link'' then ''etc'' # r else s # t # r | segs \<Rightarrow> segs)"
    for segs :: "string list"
  have clean: "list_all clean (go segs)" if "list_all clean segs" for segs
    using that by (auto simp: go_def clean_def split: list.splits)
  have fs: "link_fs p = Some (path_text (go (path_segments p)))" for p by (simp add: link_fs_def go_def)
  have prefix: "go a = a" if "go segs = a @ b" for segs a b
    using that by (auto simp: go_def Cons_eq_append_conv split: list.splits if_splits)
  have step: "go (go a @ [s]) = go (a @ [s])" for a s
    by (auto simp: go_def split: list.splits)
  have segs: "path_segments (path_text (go (path_segments p))) = go (path_segments p)" for p by (simp add: clean)
  show ?thesis unfolding realpath_ok_def fs
  proof (intro conjI allI impI)
    fix p r a b
    assume r: "Some (path_text (go (path_segments p))) = Some r" "path_segments r = a @ b"
    then have "path_segments (path_text (go (path_segments p))) = a @ b" by simp
    then have ab: "go (path_segments p) = a @ b" unfolding segs .
    then have "list_all clean (a @ b)" using clean[OF clean_path_segments, of p] by simp
    then show "Some (path_text (go (path_segments (path_text a)))) = Some (path_text a)"
      using prefix[OF ab] by (simp add: list_all_append)
  next
    fix a s r
    assume "list_all clean (a @ [s])" "Some (path_text (go (path_segments (path_text a)))) = Some r"
    then show "Some (path_text (go (path_segments (path_text (a @ [s]))))) =
        Some (path_text (go (path_segments (path_text (path_segments r @ [s])))))"
      using clean[of a] by (auto simp: list_all_append step)
  qed (auto simp: segs)
qed

definition sample_link :: "string \<Rightarrow> bool" where
  "sample_link p \<longleftrightarrow> path_segments p = [''w'', ''link'']"

lemma sample_links_resolve: "no_dangling_links link_fs sample_link"
  by (auto simp: no_dangling_links_def sample_link_def link_fs_def text_inject clean_def)

theorem accepted_paths_stay_inside_witness:
  "sv_valid (resolve_workspace_path link_fs ''/'' ''/home/u'' ''a.txt'' ''/w'' ''/w'') \<and>
   no_link_on sample_link (sv_resolved (resolve_workspace_path link_fs ''/'' ''/home/u'' ''a.txt'' ''/w'' ''/w'')) \<and>
   \<not> sv_valid (resolve_workspace_path link_fs ''/'' ''/home/u'' ''link/a.txt'' ''/w'' ''/w'')"
proof -
  have "sv_valid (resolve_workspace_path link_fs ''/'' ''/home/u'' ''a.txt'' ''/w'' ''/w'')"
    "\<not> sv_valid (resolve_workspace_path link_fs ''/'' ''/home/u'' ''link/a.txt'' ''/w'' ''/w'')" by code_simp+
  then show ?thesis
    using accepted_paths_stay_inside[OF link_fs_ok, of "''/''" "''/home/u''" "''a.txt''" "''/w''" "''/w''" sample_link]
      sample_links_resolve by simp
qed

end
