(* ===== verification/Permission_Grants.thy ===== *)
theory Permission_Grants
  imports Record_Lifecycle
begin

text \<open>
  Permission grants: \<open>src/runtime/store/permission-grant-store.ts\<close>. A grant is what a user has agreed
  to once for several tool calls; it has a scope, a duration, capabilities and a life cycle.

  The table \<open>permission_grants\<close> is an association table from grant id to record; the columns besides
  \<open>record_json\<close> are copies of fields of the record. A method is one transaction; \<open>now\<close> is the reading
  of the store's clock in it. Numbers are integers: a fraction is refused by the schema like an
  integer out of range. \<open>reply_target\<close>, which no code of the store looks at, is a text.
\<close>

section \<open>The records\<close>

datatype grant_state = Grant_Proposed | Grant_Active | Grant_Expired | Grant_Revoked | Grant_Superseded

datatype grant_capability =
  Read_Workspace | Write_Workspace | Run_Tests | Run_Safe_Local_Commands | Update_Memory | Update_Surface
  | Notify_User | Delegate_Work | Inspect_Runtime | Prepare_Draft

datatype excluded_capability =
  Destructive_Action | Delete_Data | Write_Remote_Data | Network_Send | External_Send | Secret_Change
  | Protected_Path_Mutation | Production_Mutation | Billing_Or_Purchase | Unknown_Capability

datatype subject_kind = Sk_User | Sk_Operator | Sk_Agent | Sk_System

record grant_subject =
  sj_kind :: subject_kind
  sj_id :: string
  sj_display_name :: "string option"

record grant_origin =
  go_channel :: string
  go_platform :: "string option"
  go_conversation_id :: "string option"
  go_user_id :: "string option"
  go_session_id :: "string option"
  go_turn_id :: "string option"
  go_message_id :: "string option"
  go_reply_target :: "string option"

datatype grant_source = Redacted_Text string "string option" | Source_Ref string "string option"

datatype scope_kind = Scope_Turn | Scope_Run | Scope_Goal | Scope_Session | Scope_Workspace | Scope_Project | Scope_Global

record grant_scope =
  sc_kind :: scope_kind
  sc_turn_id :: "string option"
  sc_run_id :: "string option"
  sc_goal_id :: "string option"
  sc_session_id :: "string option"
  sc_workspace_root :: "string option"
  sc_project_id :: "string option"

datatype grant_duration = Once | Until_Run_Done | Until_Goal_Done | For_Session | Standing | Expires_At int

datatype grant_review = No_Review | Periodic int int "int option"

record freshness_binding =
  fb_permission_state_epoch :: "int option"
  fb_state_refs :: "string option list"

datatype freshness = Fresh | Stale | Freshness_Unknown

record grant_staleness =
  gs_status :: freshness
  gs_checked_at :: "int option"
  gs_stale_at :: "int option"
  gs_reason :: "string option"
  gs_binding :: freshness_binding

record grant =
  gr_grant_id :: string
  gr_subject :: grant_subject
  gr_origin :: grant_origin
  gr_source :: grant_source
  gr_scope :: grant_scope
  gr_duration :: grant_duration
  gr_review :: grant_review
  gr_capabilities :: "grant_capability list"
  gr_excluded_capabilities :: "excluded_capability list"
  gr_state :: grant_state
  gr_state_version :: int
  gr_state_epoch :: int
  gr_staleness :: grant_staleness
  gr_created_at :: int
  gr_updated_at :: int
  gr_activated_at :: "int option"
  gr_expired_at :: "int option"
  gr_revoked_at :: "int option"
  gr_revoked_by :: "string option"
  gr_revocation_reason :: "string option"
  gr_superseded_at :: "int option"
  gr_supersedes :: "string list"
  gr_superseded_by :: "string option"
  gr_last_used_at :: "int option"
  gr_usage_count :: int
  gr_audit_refs :: "string list"

text \<open>The six optional references of the freshness binding are a list in the order of the schema.\<close>

abbreviation (input) nonempty :: "string \<Rightarrow> bool" where
  "nonempty s \<equiv> s \<noteq> []"

definition subject_valid :: "grant_subject \<Rightarrow> bool" where
  "subject_valid s \<longleftrightarrow> nonempty (sj_id s) \<and> opt_all nonempty (sj_display_name s)"

definition origin_valid :: "grant_origin \<Rightarrow> bool" where
  "origin_valid og \<longleftrightarrow> nonempty (go_channel og) \<and>
     list_all (opt_all nonempty) [go_platform og, go_conversation_id og, go_user_id og, go_session_id og, go_turn_id og, go_message_id og]"

fun source_valid :: "grant_source \<Rightarrow> bool" where
  "source_valid (Redacted_Text text why) \<longleftrightarrow> nonempty text \<and> opt_all nonempty why"
| "source_valid (Source_Ref ref why) \<longleftrightarrow> nonempty ref \<and> opt_all nonempty why"

definition scope_valid :: "grant_scope \<Rightarrow> bool" where
  "scope_valid s \<longleftrightarrow>
     list_all (opt_all nonempty)
       [sc_turn_id s, sc_run_id s, sc_goal_id s, sc_session_id s, sc_workspace_root s, sc_project_id s] \<and>
     (case sc_kind s of
        Scope_Turn \<Rightarrow> truthy (sc_turn_id s)
      | Scope_Run \<Rightarrow> truthy (sc_run_id s)
      | Scope_Goal \<Rightarrow> truthy (sc_goal_id s)
      | Scope_Session \<Rightarrow> truthy (sc_session_id s)
      | Scope_Workspace \<Rightarrow> truthy (sc_workspace_root s)
      | Scope_Project \<Rightarrow> truthy (sc_project_id s)
      | Scope_Global \<Rightarrow> True)"

fun duration_valid :: "grant_duration \<Rightarrow> bool" where
  "duration_valid (Expires_At t) = safe_nonneg t"
| "duration_valid d = True"

fun review_valid :: "grant_review \<Rightarrow> bool" where
  "review_valid No_Review = True"
| "review_valid (Periodic interval due lastReviewed) \<longleftrightarrow>
     safe_pos interval \<and> safe_nonneg due \<and> opt_all safe_nonneg lastReviewed"

definition staleness_valid :: "grant_staleness \<Rightarrow> bool" where
  "staleness_valid s \<longleftrightarrow> opt_all safe_nonneg (gs_checked_at s) \<and> opt_all safe_nonneg (gs_stale_at s) \<and>
     opt_all nonempty (gs_reason s) \<and> opt_all safe_nonneg (fb_permission_state_epoch (gs_binding s)) \<and>
     list_all (opt_all nonempty) (fb_state_refs (gs_binding s))"

definition grant_valid :: "grant \<Rightarrow> bool" where
  "grant_valid g \<longleftrightarrow>
     nonempty (gr_grant_id g) \<and> subject_valid (gr_subject g) \<and> origin_valid (gr_origin g) \<and> source_valid (gr_source g) \<and>
     scope_valid (gr_scope g) \<and> duration_valid (gr_duration g) \<and> review_valid (gr_review g) \<and>
     gr_capabilities g \<noteq> [] \<and> safe_nonneg (gr_state_version g) \<and> safe_nonneg (gr_state_epoch g) \<and>
     staleness_valid (gr_staleness g) \<and> safe_nonneg (gr_created_at g) \<and> safe_nonneg (gr_updated_at g) \<and>
     list_all (opt_all safe_nonneg)
       [gr_activated_at g, gr_expired_at g, gr_revoked_at g, gr_superseded_at g, gr_last_used_at g] \<and>
     list_all (opt_all nonempty) [gr_revoked_by g, gr_revocation_reason g, gr_superseded_by g] \<and>
     list_all nonempty (gr_supersedes g) \<and> list_all nonempty (gr_audit_refs g) \<and> safe_nonneg (gr_usage_count g) \<and>
     distinct (gr_capabilities g) \<and> distinct (gr_excluded_capabilities g) \<and> distinct (gr_audit_refs g) \<and>
     distinct (gr_supersedes g) \<and>
     (gr_state g = Grant_Active \<longrightarrow> gr_activated_at g \<noteq> None) \<and>
     (gr_state g = Grant_Expired \<longrightarrow> gr_expired_at g \<noteq> None) \<and>
     (gr_state g = Grant_Revoked \<longrightarrow> gr_revoked_at g \<noteq> None) \<and>
     (gr_state g = Grant_Superseded \<longrightarrow> truthy (gr_superseded_by g)) \<and>
     (gr_duration g = Standing \<longrightarrow> gr_review g \<noteq> No_Review)"

section \<open>When a grant is in force\<close>

definition is_permission_grant_expired :: "grant \<Rightarrow> int \<Rightarrow> bool" where
  "is_permission_grant_expired g now \<longleftrightarrow>
     gr_state g = Grant_Expired \<or> (case gr_duration g of Expires_At t \<Rightarrow> t \<le> now | _ \<Rightarrow> False)"

definition is_permission_grant_review_due :: "grant \<Rightarrow> int \<Rightarrow> bool" where
  "is_permission_grant_review_due g now \<longleftrightarrow> (case gr_review g of Periodic _ due _ \<Rightarrow> due \<le> now | No_Review \<Rightarrow> False)"

definition is_permission_grant_stale :: "grant \<Rightarrow> bool" where
  "is_permission_grant_stale g \<longleftrightarrow> gs_status (gr_staleness g) \<noteq> Fresh"

definition is_permission_grant_currently_active :: "grant \<Rightarrow> int \<Rightarrow> bool" where
  "is_permission_grant_currently_active g now \<longleftrightarrow>
     gr_state g = Grant_Active \<and> \<not> is_permission_grant_expired g now \<and> \<not> is_permission_grant_review_due g now \<and>
     \<not> is_permission_grant_stale g \<and> \<not> (gr_duration g = Once \<and> 0 < gr_usage_count g)"

section \<open>The table\<close>

type_synonym grant_table = "(string, grant) table"

definition read_permission_grant :: "grant_table \<Rightarrow> string \<Rightarrow> grant option result" where
  "read_permission_grant t i = (case table_get t i of
     None \<Rightarrow> Inr None
   | Some g \<Rightarrow> if grant_valid g then Inr (Some g) else Inl SchemaError)"

definition upsert_permission_grant :: "grant \<Rightarrow> grant_table \<Rightarrow> grant_table" where
  "upsert_permission_grant g t = table_put (gr_grant_id g) g t"

definition list_permission_grants :: "(grant \<Rightarrow> bool) \<Rightarrow> grant_table \<Rightarrow> grant list result" where
  "list_permission_grants P t =
     (let rows = sort_key (\<lambda>g. (gr_updated_at g, gr_grant_id g)) (filter P (map snd t))
      in if list_all grant_valid rows then Inr rows else Inl SchemaError)"

definition list_by_state :: "grant_state \<Rightarrow> grant_table \<Rightarrow> grant list result" where
  "list_by_state s t = list_permission_grants (\<lambda>g. gr_state g = s) t"

definition list_active :: "int \<Rightarrow> grant_table \<Rightarrow> grant list result" where
  "list_active now t = result_bind (list_permission_grants (\<lambda>_. True) t)
     (\<lambda>gs. Inr (filter (\<lambda>g. is_permission_grant_currently_active g now) gs))"

section \<open>The operations\<close>

definition append_unique :: "string list \<Rightarrow> string list \<Rightarrow> string list" where
  "append_unique current additions = uniq (current @ additions)"

record grant_input =
  gi_grant_id :: string
  gi_subject :: grant_subject
  gi_origin :: grant_origin
  gi_source :: grant_source
  gi_scope :: grant_scope
  gi_duration :: grant_duration
  gi_review :: "grant_review option"
  gi_capabilities :: "grant_capability list"
  gi_excluded_capabilities :: "excluded_capability list option"
  gi_staleness :: "grant_staleness option"
  gi_audit_refs :: "string list option"
  gi_supersedes :: "string list option"
  gi_created_at :: "int option"

definition empty_binding :: freshness_binding where
  "empty_binding = \<lparr>fb_permission_state_epoch = None, fb_state_refs = replicate 6 None\<rparr>"

definition new_grant :: "grant_input \<Rightarrow> grant_state \<Rightarrow> int \<Rightarrow> grant" where
  "new_grant input st now =
     \<lparr>gr_grant_id = gi_grant_id input, gr_subject = gi_subject input, gr_origin = gi_origin input,
      gr_source = gi_source input, gr_scope = gi_scope input, gr_duration = gi_duration input,
      gr_review = nullish (gi_review input) No_Review, gr_capabilities = uniq (gi_capabilities input),
      gr_excluded_capabilities = uniq (nullish (gi_excluded_capabilities input) []), gr_state = st,
      gr_state_version = 0, gr_state_epoch = now,
      gr_staleness = nullish (gi_staleness input)
        \<lparr>gs_status = Fresh, gs_checked_at = Some now, gs_stale_at = None, gs_reason = None, gs_binding = empty_binding\<rparr>,
      gr_created_at = now, gr_updated_at = now,
      gr_activated_at = (if st = Grant_Active then Some now else None), gr_expired_at = None, gr_revoked_at = None,
      gr_revoked_by = None, gr_revocation_reason = None, gr_superseded_at = None,
      gr_supersedes = uniq (nullish (gi_supersedes input) []), gr_superseded_by = None, gr_last_used_at = None,
      gr_usage_count = 0, gr_audit_refs = uniq (nullish (gi_audit_refs input) [])\<rparr>"

definition create_grant :: "grant_input \<Rightarrow> grant_state \<Rightarrow> int \<Rightarrow> grant_table \<Rightarrow> grant result \<times> grant_table" where
  "create_grant input st now t = (case read_permission_grant t (gi_grant_id input) of
     Inl e \<Rightarrow> (Inl e, t)
   | Inr (Some g) \<Rightarrow> (Inl (Thrown (''Permission grant already exists: '' @ gi_grant_id input)), t)
   | Inr None \<Rightarrow>
       (let g = new_grant input st (nullish (gi_created_at input) now)
        in if grant_valid g then (Inr g, upsert_permission_grant g t) else (Inl SchemaError, t)))"

definition update_grant ::
  "string \<Rightarrow> (grant \<Rightarrow> grant) \<Rightarrow> bool \<Rightarrow> int \<Rightarrow> grant_table \<Rightarrow> grant option result \<times> grant_table" where
  "update_grant i updater requireActive now t = (case read_permission_grant t i of
     Inl e \<Rightarrow> (Inl e, t)
   | Inr None \<Rightarrow> (Inr None, t)
   | Inr (Some current) \<Rightarrow>
       if requireActive \<and> \<not> is_permission_grant_currently_active current now then (Inr None, t)
       else if grant_valid (updater current) then (Inr (Some (updater current)), upsert_permission_grant (updater current) t)
       else (Inl SchemaError, t))"

definition activated :: "int \<Rightarrow> string list \<Rightarrow> grant \<Rightarrow> grant" where
  "activated at refs g =
     (if gr_state g \<noteq> Grant_Proposed \<and> gr_state g \<noteq> Grant_Active then g
      else g\<lparr>gr_state := Grant_Active, gr_state_version := gr_state_version g + 1, gr_state_epoch := at,
             gr_activated_at := Some (nullish (gr_activated_at g) at), gr_updated_at := at,
             gr_audit_refs := append_unique (gr_audit_refs g) refs\<rparr>)"

definition expired :: "int \<Rightarrow> string list \<Rightarrow> grant \<Rightarrow> grant" where
  "expired at refs g =
     g\<lparr>gr_state := Grant_Expired, gr_state_version := gr_state_version g + 1, gr_state_epoch := at,
       gr_expired_at := Some at, gr_updated_at := at, gr_audit_refs := append_unique (gr_audit_refs g) refs\<rparr>"

definition revoked :: "int \<Rightarrow> string option \<Rightarrow> string option \<Rightarrow> string list \<Rightarrow> grant \<Rightarrow> grant" where
  "revoked at revokedBy why refs g =
     g\<lparr>gr_state := Grant_Revoked, gr_state_version := gr_state_version g + 1, gr_state_epoch := at,
       gr_revoked_at := Some at,
       gr_revoked_by := (if truthy revokedBy then revokedBy else gr_revoked_by g),
       gr_revocation_reason := (if truthy why then why else gr_revocation_reason g),
       gr_updated_at := at, gr_audit_refs := append_unique (gr_audit_refs g) refs\<rparr>"

definition marked_stale :: "int \<Rightarrow> string \<Rightarrow> string list \<Rightarrow> grant \<Rightarrow> grant" where
  "marked_stale at why refs g =
     g\<lparr>gr_updated_at := at,
       gr_staleness := (gr_staleness g)\<lparr>gs_status := Stale, gs_checked_at := Some at, gs_stale_at := Some at, gs_reason := Some why\<rparr>,
       gr_audit_refs := append_unique (gr_audit_refs g) refs\<rparr>"

definition reviewed :: "int \<Rightarrow> int \<Rightarrow> string list \<Rightarrow> grant \<Rightarrow> grant" where
  "reviewed at due refs g =
     (if gr_state g \<noteq> Grant_Active then g
      else g\<lparr>gr_state_version := gr_state_version g + 1, gr_state_epoch := at, gr_updated_at := at,
             gr_review := Periodic (max (due - at) 1) due (Some at),
             gr_staleness := (gr_staleness g)\<lparr>gs_status := Fresh, gs_checked_at := Some at\<rparr>,
             gr_audit_refs := append_unique (gr_audit_refs g) refs\<rparr>)"

definition used :: "int \<Rightarrow> string option \<Rightarrow> grant \<Rightarrow> grant" where
  "used at ref g =
     (let nxt = g\<lparr>gr_updated_at := at, gr_last_used_at := Some at, gr_usage_count := gr_usage_count g + 1,
                  gr_audit_refs := append_unique (gr_audit_refs g) (if truthy ref then [the ref] else [])\<rparr>
      in if gr_duration g \<noteq> Once then nxt
         else nxt\<lparr>gr_state := Grant_Expired, gr_state_version := gr_state_version g + 1, gr_state_epoch := at,
                  gr_expired_at := Some at\<rparr>)"

definition superseded :: "int \<Rightarrow> string \<Rightarrow> string list \<Rightarrow> grant \<Rightarrow> grant" where
  "superseded at replacement refs g =
     g\<lparr>gr_state := Grant_Superseded, gr_state_version := gr_state_version g + 1, gr_state_epoch := at,
       gr_superseded_at := Some at, gr_superseded_by := Some replacement, gr_updated_at := at,
       gr_audit_refs := append_unique (gr_audit_refs g) refs\<rparr>"

definition activate :: "string \<Rightarrow> int option \<Rightarrow> string list \<Rightarrow> int \<Rightarrow> grant_table \<Rightarrow> grant option result \<times> grant_table" where
  "activate i at refs now t = update_grant i (activated (nullish at now) refs) False now t"

definition expire :: "string \<Rightarrow> int option \<Rightarrow> string list \<Rightarrow> int \<Rightarrow> grant_table \<Rightarrow> grant option result \<times> grant_table" where
  "expire i at refs now t = update_grant i (expired (nullish at now) refs) False now t"

definition revoke ::
  "string \<Rightarrow> int option \<Rightarrow> string option \<Rightarrow> string option \<Rightarrow> string list \<Rightarrow> int \<Rightarrow> grant_table \<Rightarrow> grant option result \<times> grant_table" where
  "revoke i at revokedBy why refs now t = update_grant i (revoked (nullish at now) revokedBy why refs) False now t"

definition mark_stale ::
  "string \<Rightarrow> int option \<Rightarrow> string \<Rightarrow> string list \<Rightarrow> int \<Rightarrow> grant_table \<Rightarrow> grant option result \<times> grant_table" where
  "mark_stale i at why refs now t = update_grant i (marked_stale (nullish at now) why refs) False now t"

definition review ::
  "string \<Rightarrow> int option \<Rightarrow> int \<Rightarrow> string list \<Rightarrow> int \<Rightarrow> grant_table \<Rightarrow> grant option result \<times> grant_table" where
  "review i at due refs now t = update_grant i (reviewed (nullish at now) due refs) False now t"

definition record_use ::
  "string \<Rightarrow> int option \<Rightarrow> string option \<Rightarrow> int \<Rightarrow> grant_table \<Rightarrow> grant option result \<times> grant_table" where
  "record_use i at ref now t = update_grant i (used (nullish at now) ref) True now t"

text \<open>
  \<open>supersede\<close> is three transactions: the look at the old grant, the creation of the replacement as a
  proposal, and the mark on the old grant. Below they follow each other without another writer.
\<close>

definition mark_superseded ::
  "string \<Rightarrow> int \<Rightarrow> string \<Rightarrow> string list \<Rightarrow> int \<Rightarrow> grant_table \<Rightarrow> grant option result \<times> grant_table" where
  "mark_superseded i at replacement refs now t = update_grant i (superseded at replacement refs) False now t"

definition supersede ::
  "string \<Rightarrow> grant_input \<Rightarrow> int option \<Rightarrow> string list \<Rightarrow> int \<Rightarrow> grant_table \<Rightarrow> (grant \<times> grant) option result \<times> grant_table" where
  "supersede i input at refs now t = (case read_permission_grant t i of
     Inl e \<Rightarrow> (Inl e, t)
   | Inr None \<Rightarrow> (Inr None, t)
   | Inr (Some current) \<Rightarrow>
       (let at' = nullish at now in
        if \<not> safe_nonneg at' then (Inl SchemaError, t)
        else case create_grant (input\<lparr>gi_supersedes := Some (append_unique (nullish (gi_supersedes input) []) [i]),
                                      gi_created_at := Some (nullish (gi_created_at input) at')\<rparr>) Grant_Proposed now t of
               (Inl e, t1) \<Rightarrow> (Inl e, t1)
             | (Inr replacement, t1) \<Rightarrow>
                 (case mark_superseded i at' (gr_grant_id replacement) refs now t1 of
                    (Inl e, t2) \<Rightarrow> (Inl e, t2)
                  | (Inr None, t2) \<Rightarrow> (Inr None, t2)
                  | (Inr (Some old), t2) \<Rightarrow> (Inr (Some (old, replacement)), t2))))"

definition import_legacy_record :: "grant \<Rightarrow> grant_table \<Rightarrow> grant result \<times> grant_table" where
  "import_legacy_record g t = (if grant_valid g then (Inr g, upsert_permission_grant g t) else (Inl SchemaError, t))"

section \<open>Runs of the store\<close>

text \<open>
  The transactions of the store as data. \<open>import_legacy_record\<close>, which writes whatever the migration
  read from files before the store is in use, is not among them.
\<close>

datatype grant_op =
  Op_Create grant_input bool int
| Op_Activate string "int option" "string list" int
| Op_Expire string "int option" "string list" int
| Op_Revoke string "int option" "string option" "string option" "string list" int
| Op_Mark_Stale string "int option" string "string list" int
| Op_Review string "int option" int "string list" int
| Op_Record_Use string "int option" "string option" int
| Op_Mark_Superseded string int string "string list" int

fun run_grant_op :: "grant_op \<Rightarrow> grant_table \<Rightarrow> grant option result \<times> grant_table" where
  "run_grant_op (Op_Create input active now) t =
     (case create_grant input (if active then Grant_Active else Grant_Proposed) now t of
        (Inl e, t') \<Rightarrow> (Inl e, t') | (Inr g, t') \<Rightarrow> (Inr (Some g), t'))"
| "run_grant_op (Op_Activate i at refs now) t = activate i at refs now t"
| "run_grant_op (Op_Expire i at refs now) t = expire i at refs now t"
| "run_grant_op (Op_Revoke i at revokedBy why refs now) t = revoke i at revokedBy why refs now t"
| "run_grant_op (Op_Mark_Stale i at why refs now) t = mark_stale i at why refs now t"
| "run_grant_op (Op_Review i at due refs now) t = review i at due refs now t"
| "run_grant_op (Op_Record_Use i at ref now) t = record_use i at ref now t"
| "run_grant_op (Op_Mark_Superseded i at replacement refs now) t = mark_superseded i at replacement refs now t"

abbreviation grant_step :: "grant_op \<Rightarrow> grant_table \<Rightarrow> grant_table" where
  "grant_step a t \<equiv> snd (run_grant_op a t)"

text \<open>The tool calls that grant \<open>i\<close> has let through in a run: the uses that were recorded.\<close>

definition granted_use :: "string \<Rightarrow> grant_op \<Rightarrow> grant_table \<Rightarrow> bool" where
  "granted_use i a t = (case a of
     Op_Record_Use j at ref now \<Rightarrow> j = i \<and> (case fst (run_grant_op a t) of Inr (Some g) \<Rightarrow> True | _ \<Rightarrow> False)
   | _ \<Rightarrow> False)"

fun granted_uses :: "string \<Rightarrow> grant_op list \<Rightarrow> grant_table \<Rightarrow> nat" where
  "granted_uses i [] t = 0"
| "granted_uses i (a # as) t = (if granted_use i a t then 1 else 0) + granted_uses i as (grant_step a t)"

definition grant_table_ok :: "grant_table \<Rightarrow> bool" where
  "grant_table_ok t \<longleftrightarrow> table_wf t \<and> (\<forall>i g. table_get t i = Some g \<longrightarrow> gr_grant_id g = i \<and> grant_valid g)"

section \<open>What a transaction does\<close>

lemma grant_table_okD: "grant_table_ok t \<Longrightarrow> table_get t i = Some g \<Longrightarrow> gr_grant_id g = i \<and> grant_valid g"
  by (simp add: grant_table_ok_def)

lemma read_ok: "grant_table_ok t \<Longrightarrow> read_permission_grant t i = Inr (table_get t i)"
  by (auto simp: read_permission_grant_def grant_table_ok_def split: option.splits)

lemma upsert_ok: "grant_table_ok t \<Longrightarrow> grant_valid g \<Longrightarrow> grant_table_ok (upsert_permission_grant g t)"
  by (auto simp: grant_table_ok_def upsert_permission_grant_def table_get_put)

lemma updaters_keep [simp]:
  "gr_grant_id (activated at refs g) = gr_grant_id g" "gr_duration (activated at refs g) = gr_duration g"
  "gr_grant_id (expired at refs g) = gr_grant_id g" "gr_duration (expired at refs g) = gr_duration g"
  "gr_grant_id (revoked at b why refs g) = gr_grant_id g" "gr_duration (revoked at b why refs g) = gr_duration g"
  "gr_grant_id (marked_stale at w refs g) = gr_grant_id g" "gr_duration (marked_stale at w refs g) = gr_duration g"
  "gr_grant_id (reviewed at due refs g) = gr_grant_id g" "gr_duration (reviewed at due refs g) = gr_duration g"
  "gr_grant_id (used at ref g) = gr_grant_id g" "gr_duration (used at ref g) = gr_duration g"
  "gr_grant_id (superseded at r refs g) = gr_grant_id g" "gr_duration (superseded at r refs g) = gr_duration g"
  by (simp_all add: activated_def expired_def revoked_def marked_stale_def reviewed_def used_def superseded_def Let_def)

lemma updaters_usage [simp]:
  "gr_usage_count (activated at refs g) = gr_usage_count g" "gr_usage_count (expired at refs g) = gr_usage_count g"
  "gr_usage_count (revoked at b why refs g) = gr_usage_count g"
  "gr_usage_count (marked_stale at w refs g) = gr_usage_count g"
  "gr_usage_count (reviewed at due refs g) = gr_usage_count g" "gr_usage_count (used at ref g) = gr_usage_count g + 1"
  "gr_usage_count (superseded at r refs g) = gr_usage_count g"
  by (simp_all add: activated_def expired_def revoked_def marked_stale_def reviewed_def used_def superseded_def Let_def)

lemma update_grant_ok:
  assumes "grant_table_ok t" "\<And>g. gr_grant_id (f g) = gr_grant_id g"
  shows "update_grant i f ra now t = (case table_get t i of
           None \<Rightarrow> (Inr None, t)
         | Some g \<Rightarrow> if ra \<and> \<not> is_permission_grant_currently_active g now then (Inr None, t)
                     else if grant_valid (f g) then (Inr (Some (f g)), table_put i (f g) t) else (Inl SchemaError, t))"
  using assms grant_table_okD[OF assms(1)]
  by (auto simp: update_grant_def read_ok upsert_permission_grant_def split: option.splits)

lemma update_grant_keeps_ok:
  "grant_table_ok t \<Longrightarrow> (\<And>g. gr_grant_id (f g) = gr_grant_id g) \<Longrightarrow> grant_table_ok (snd (update_grant i f ra now t))"
  using upsert_ok[of t "f (the (table_get t i))"] grant_table_okD[of t i]
  by (auto simp: update_grant_ok upsert_permission_grant_def split: option.splits)

lemmas grant_ops = activate_def expire_def revoke_def mark_stale_def review_def record_use_def mark_superseded_def

lemma update_grant_get:
  assumes "grant_table_ok t" "table_get t i = Some g" "\<And>g. gr_grant_id (f g) = gr_grant_id g"
  shows "table_get (snd (update_grant j f ra now t)) i =
           Some (if j = i \<and> (ra \<longrightarrow> is_permission_grant_currently_active g now) \<and> grant_valid (f g) then f g else g)"
  using assms by (auto simp: update_grant_ok table_get_put split: option.splits)

lemma new_grant_id [simp]: "gr_grant_id (new_grant input st now) = gi_grant_id input"
  by (simp add: new_grant_def)

lemma create_grant_get:
  assumes "grant_table_ok t"
  shows "grant_table_ok (snd (create_grant input st now t))"
    and "table_get t i = Some g \<Longrightarrow> table_get (snd (create_grant input st now t)) i = Some g"
  using assms upsert_ok[OF assms, of "new_grant input st (nullish (gi_created_at input) now)"]
  by (auto simp: create_grant_def read_ok upsert_permission_grant_def table_get_put Let_def split: option.splits)

definition administrative :: "(grant \<Rightarrow> grant) set" where
  "administrative =
     {f. \<exists>at refs b why due r. f \<in> {activated at refs, expired at refs, revoked at b why refs, marked_stale at r refs,
           reviewed at due refs, superseded at r refs}}"

lemma administrativeI [simp]:
  "activated at refs \<in> administrative" "expired at refs \<in> administrative" "revoked at b why refs \<in> administrative"
  "marked_stale at w refs \<in> administrative" "reviewed at due refs \<in> administrative" "superseded at w refs \<in> administrative"
  unfolding administrative_def by blast+

lemma administrative_keeps:
  "f \<in> administrative \<Longrightarrow>
     gr_grant_id (f g) = gr_grant_id g \<and> gr_duration (f g) = gr_duration g \<and> gr_usage_count (f g) = gr_usage_count g"
  by (auto simp: administrative_def)

text \<open>A transaction creates, applies an administrative change to one grant, or records a use.\<close>

lemma grant_step_shape:
  obtains (create) input st now where "grant_step a t = snd (create_grant input st now t)" "\<And>i. \<not> granted_use i a t"
  | (change) j f now where "grant_step a t = snd (update_grant j f False now t)" "f \<in> administrative" "\<And>i. \<not> granted_use i a t"
  | (use) j at ref now where "a = Op_Record_Use j at ref now"
proof (cases a)
  case (Op_Create input active now)
  have "grant_step a t = snd (create_grant input (if active then Grant_Active else Grant_Proposed) now t)"
    by (simp add: Op_Create split: prod.splits sum.splits)
  then show ?thesis using create by (simp add: granted_use_def Op_Create)
next
  case (Op_Record_Use j at ref now)
  then show ?thesis by (rule use)
qed (simp_all add: grant_ops granted_use_def change)

lemma grant_step_ok: "grant_table_ok t \<Longrightarrow> grant_table_ok (grant_step a t)"
  by (rule grant_step_shape[of a t])
     (auto simp: create_grant_get(1) update_grant_keeps_ok administrative_keeps record_use_def)

text \<open>A stored grant after a transaction is the same or what one of the updaters made of it.\<close>

lemma grant_step_get:
  assumes "grant_table_ok t" "table_get t i = Some g"
  obtains (same) "table_get (grant_step a t) i = Some g" "\<not> granted_use i a t"
  | (changed) f where "table_get (grant_step a t) i = Some (f g)" "f \<in> administrative" "\<not> granted_use i a t"
  | (used) at ref now where "table_get (grant_step a t) i = Some (used at ref g)"
      "granted_use i a t" "is_permission_grant_currently_active g now"
proof (rule grant_step_shape[of a t], goal_cases)
  case (1 input st now)
  then show ?thesis using same create_grant_get(2)[OF assms] by simp
next
  case (2 j f now)
  then have "table_get (grant_step a t) i = Some (if j = i \<and> grant_valid (f g) then f g else g)"
    using assms by (simp add: update_grant_get administrative_keeps)
  then show ?thesis using same changed 2 by (cases "j = i \<and> grant_valid (f g)") auto
next
  case (3 j at ref now)
  let ?f = "Permission_Grants.used (nullish at now) ref"
  have get: "table_get (grant_step a t) i =
      Some (if j = i \<and> is_permission_grant_currently_active g now \<and> grant_valid (?f g) then ?f g else g)"
    using assms by (simp add: 3 record_use_def update_grant_get)
  have "granted_use i a t \<longleftrightarrow> j = i \<and> is_permission_grant_currently_active g now \<and> grant_valid (?f g)"
    using assms by (auto simp: 3 granted_use_def record_use_def update_grant_ok split: if_splits)
  then show ?thesis using get same used by (cases "granted_use i a t") auto
qed

section \<open>A grant that is over stays over\<close>

definition terminal :: "grant \<Rightarrow> bool" where
  "terminal g \<longleftrightarrow> gr_state g = Grant_Expired \<or> gr_state g = Grant_Revoked \<or> gr_state g = Grant_Superseded"

definition spent :: "grant \<Rightarrow> bool" where
  "spent g \<longleftrightarrow> gr_duration g = Once \<and> 0 < gr_usage_count g"

definition same_use :: "grant \<Rightarrow> grant \<Rightarrow> bool" where
  "same_use g g' \<longleftrightarrow> gr_duration g' = gr_duration g \<and> gr_usage_count g' = gr_usage_count g"

lemma administrative_terminal: "f \<in> administrative \<Longrightarrow> terminal g \<Longrightarrow> terminal (f g)"
  by (auto simp: administrative_def terminal_def activated_def expired_def revoked_def marked_stale_def reviewed_def superseded_def)

lemma not_active [simp]:
  "terminal g \<Longrightarrow> \<not> is_permission_grant_currently_active g now"
  "spent g \<Longrightarrow> \<not> is_permission_grant_currently_active g now"
  by (auto simp: terminal_def spent_def is_permission_grant_currently_active_def)

interpretation over: settled_records grant_step grant_table_ok terminal same_use
proof unfold_locales
  fix t a k g
  assume "grant_table_ok t" "table_get t k = Some g" "terminal g"
  then show "\<exists>g'. table_get (grant_step a t) k = Some g' \<and> terminal g' \<and> same_use g g'"
    by (cases rule: grant_step_get[where a = a]) (auto simp: administrative_terminal administrative_keeps same_use_def)
qed (simp_all add: grant_step_ok same_use_def)

interpretation once: settled_records grant_step grant_table_ok spent same_use
proof unfold_locales
  fix t a k g
  assume "grant_table_ok t" "table_get t k = Some g" "spent g"
  then show "\<exists>g'. table_get (grant_step a t) k = Some g' \<and> spent g' \<and> same_use g g'"
    by (cases rule: grant_step_get[where a = a]) (auto simp: administrative_keeps same_use_def spent_def)
qed (simp_all add: grant_step_ok same_use_def)

text \<open>The recorded uses of a run are the growth of the usage count.\<close>

lemma usage_counts_uses:
  "grant_table_ok t \<Longrightarrow> table_get t i = Some g \<Longrightarrow>
   \<exists>g'. table_get (fold grant_step as t) i = Some g' \<and> gr_duration g' = gr_duration g \<and>
        gr_usage_count g' = gr_usage_count g + int (granted_uses i as t)"
proof (induction as arbitrary: t g)
  case (Cons a as)
  have "\<exists>g1. table_get (grant_step a t) i = Some g1 \<and> gr_duration g1 = gr_duration g \<and>
      gr_usage_count g1 = gr_usage_count g + (if granted_use i a t then 1 else 0)"
    by (rule grant_step_get[OF Cons.prems, of a]) (auto simp: administrative_keeps)
  then obtain g1 where g1: "table_get (grant_step a t) i = Some g1" "gr_duration g1 = gr_duration g"
    "gr_usage_count g1 = gr_usage_count g + (if granted_use i a t then 1 else 0)" by blast
  show ?case using Cons.IH[OF grant_step_ok[OF Cons.prems(1)] g1(1)] g1(2,3) by auto
qed simp

lemma terminal_no_uses:
  assumes "grant_table_ok t" "table_get t i = Some g" "terminal g \<or> spent g"
  shows "granted_uses i as t = 0"
proof -
  obtain g1 where "table_get (fold grant_step as t) i = Some g1"
      "gr_usage_count g1 = gr_usage_count g + int (granted_uses i as t)"
    using usage_counts_uses[OF assms(1,2)] by blast
  moreover obtain g2 where "table_get (fold grant_step as t) i = Some g2" "same_use g g2"
    using assms over.run_settled[OF assms(1,2)] once.run_settled[OF assms(1,2)] by blast
  ultimately show ?thesis by (simp add: same_use_def)
qed

lemma once_at_most_one:
  "grant_table_ok t \<Longrightarrow> table_get t i = Some g \<Longrightarrow> gr_duration g = Once \<Longrightarrow> granted_uses i as t \<le> 1"
proof (induction as arbitrary: t g)
  case (Cons a as)
  note ok = grant_step_ok[OF Cons.prems(1), of a]
  from Cons.prems(1,2) show ?case
  proof (cases rule: grant_step_get[where a = a])
    case (used at ref now)
    have "0 \<le> gr_usage_count g" using grant_table_okD[OF Cons.prems(1,2)] by (simp add: grant_valid_def safe_nonneg_def)
    then have "spent (Permission_Grants.used at ref g)" using Cons.prems(3) by (simp add: spent_def)
    then show ?thesis using terminal_no_uses[OF ok used(1)] used(2) by simp
  next
    case same
    then show ?thesis using Cons.IH[OF ok same(1) Cons.prems(3)] by simp
  next
    case (changed f)
    then show ?thesis using Cons.IH[OF ok changed(1)] Cons.prems(3) by (simp add: administrative_keeps)
  qed
qed simp

text \<open>
  A grant that was revoked, has expired or was superseded never lets a tool call through again:
  whatever sequence of transactions follows (activation, review, further uses, in any order and
  at any time), it stays in one of these states, no use of it is recorded, and at no time is it in
  force.
\<close>
lemma finished_grant_never_returns:
  assumes "grant_table_ok t" "table_get t i = Some g"
    "gr_state g = Grant_Expired \<or> gr_state g = Grant_Revoked \<or> gr_state g = Grant_Superseded"
  shows "granted_uses i as t = 0 \<and>
         (\<exists>g'. table_get (fold grant_step as t) i = Some g' \<and>
            (gr_state g' = Grant_Expired \<or> gr_state g' = Grant_Revoked \<or> gr_state g' = Grant_Superseded) \<and>
            gr_usage_count g' = gr_usage_count g \<and> (\<forall>now. \<not> is_permission_grant_currently_active g' now))"
proof -
  have fin: "terminal g" using assms(3) by (simp add: terminal_def)
  then obtain g' where g': "table_get (fold grant_step as t) i = Some g'" "terminal g'" "same_use g g'"
    using over.run_settled[OF assms(1,2)] by blast
  then show ?thesis using terminal_no_uses[OF assms(1,2)] fin by (auto simp: same_use_def terminal_def[symmetric])
qed

text \<open>
  C7. A grant counts its uses exactly, lets a call through only while it is in force, and a grant
  for one use lets at most one call through, in every sequence of transactions (two tool calls
  that have both seen the grant unused among them).
\<close>
theorem grant_uses_are_counted:
  assumes "grant_table_ok t" "table_get t i = Some g"
  shows "\<exists>g'. table_get (fold grant_step as t) i = Some g' \<and>
           gr_usage_count g' = gr_usage_count g + int (granted_uses i as t) \<and>
           (gr_duration g = Once \<longrightarrow> granted_uses i as t \<le> 1) \<and>
           (\<forall>a. granted_use i a (fold grant_step as t) \<longrightarrow>
              (\<exists>at ref now. a = Op_Record_Use i at ref now \<and> is_permission_grant_currently_active g' now))"
proof -
  obtain g' where g': "table_get (fold grant_step as t) i = Some g'"
      "gr_usage_count g' = gr_usage_count g + int (granted_uses i as t)"
    using usage_counts_uses[OF assms] by blast
  have "\<exists>at ref now. a = Op_Record_Use i at ref now \<and> is_permission_grant_currently_active g' now"
    if use: "granted_use i a (fold grant_step as t)" for a
  proof -
    obtain at ref now where a: "a = Op_Record_Use i at ref now"
      using use by (cases a) (auto simp: granted_use_def)
    show ?thesis using use a over.run_wf[OF assms(1), of as] g'(1)
      by (auto simp: granted_use_def record_use_def update_grant_ok split: if_splits)
  qed
  then show ?thesis using g' once_at_most_one[OF assms] by blast
qed

definition sample_grant_input :: "grant_duration \<Rightarrow> grant_input" where
  "sample_grant_input d =
     \<lparr>gi_grant_id = ''g1'', gi_subject = \<lparr>sj_kind = Sk_User, sj_id = ''ann'', sj_display_name = None\<rparr>,
      gi_origin = \<lparr>go_channel = ''chat'', go_platform = None, go_conversation_id = None, go_user_id = None,
        go_session_id = None, go_turn_id = None, go_message_id = None, go_reply_target = None\<rparr>,
      gi_source = Source_Ref ''turn-1'' None,
      gi_scope = \<lparr>sc_kind = Scope_Global, sc_turn_id = None, sc_run_id = None, sc_goal_id = None, sc_session_id = None,
        sc_workspace_root = None, sc_project_id = None\<rparr>,
      gi_duration = d, gi_review = None, gi_capabilities = [Write_Workspace], gi_excluded_capabilities = None,
      gi_staleness = None, gi_audit_refs = None, gi_supersedes = None, gi_created_at = None\<rparr>"

definition sample_grants :: "grant_duration \<Rightarrow> grant_table" where
  "sample_grants d = [(''g1'', new_grant (sample_grant_input d) Grant_Active 5)]"

definition revoked_grants :: grant_table where
  "revoked_grants = [(''g1'', revoked 7 None None [] (new_grant (sample_grant_input Standing) Grant_Proposed 5)\<lparr>gr_duration := For_Session\<rparr>)]"

lemmas sample_grant_defs = new_grant_def sample_grant_input_def grant_valid_def subject_valid_def origin_valid_def
  scope_valid_def staleness_valid_def empty_binding_def safe_nonneg_def max_safe_integer_def uniq_def list_all_iff

lemma sample_grants_ok: "d = Once \<or> d = Until_Goal_Done \<Longrightarrow> grant_table_ok (sample_grants d)"
  by (auto simp: grant_table_ok_def sample_grants_def table_wf_def sample_grant_defs)

lemma revoked_grants_ok: "grant_table_ok revoked_grants"
  by (auto simp: grant_table_ok_def revoked_grants_def table_wf_def sample_grant_defs revoked_def append_unique_def)

theorem grant_uses_are_counted_witness:
  "\<exists>g'. table_get (fold grant_step [Op_Record_Use ''g1'' None None 8, Op_Record_Use ''g1'' None None 9] (sample_grants Once)) ''g1'' = Some g' \<and>
     gr_usage_count g' = gr_usage_count (snd (hd (sample_grants Once))) +
       int (granted_uses ''g1'' [Op_Record_Use ''g1'' None None 8, Op_Record_Use ''g1'' None None 9] (sample_grants Once)) \<and>
     granted_uses ''g1'' [Op_Record_Use ''g1'' None None 8, Op_Record_Use ''g1'' None None 9] (sample_grants Once) \<le> 1"
proof -
  have "table_get (sample_grants Once) ''g1'' = Some (snd (hd (sample_grants Once)))"
    and "gr_duration (snd (hd (sample_grants Once))) = Once"
    by (simp_all add: sample_grants_def new_grant_def sample_grant_input_def)
  with grant_uses_are_counted[OF sample_grants_ok, of Once "''g1''" "snd (hd (sample_grants Once))"
    "[Op_Record_Use ''g1'' None None 8, Op_Record_Use ''g1'' None None 9]"]
  show ?thesis by blast
qed

end
