(* ===== verification/Tool_Permission.thy ===== *)
theory Tool_Permission
  imports Json_Values Workspace_Paths Permission_Grants
begin

text \<open>
  May a tool run: \<open>src/tools/execution-orchestrator.ts\<close> (the decision of the host),
  \<open>permission-grant-evaluator.ts\<close> (whether a stored grant answers for the user) and \<open>permission.ts\<close>
  (the check that combines both with rules, trust and the ethics gate).

  The texts of reasons are left out, and with them the text of the input that they quote. The ethics
  gate, the matchers of rules and the file system are arguments; a gate that throws answers
  \<open>None\<close>. A store of grants is its table, which the check returns changed when a use is recorded.
\<close>

section \<open>Tools and calls\<close>

datatype permission_level = Level_Read_Only | Level_Read_Metrics | Level_Write_Local | Level_Execute | Level_Write_Remote

datatype activity_category =
  Act_Search | Act_Read | Act_Planning | Act_Command | Act_File_Create | Act_File_Modify | Act_Test | Act_Approval

datatype gateway_exposure = Default_Safe | Approval_Required | Runtime_Control | Never_Exposed

record tool =
  tl_name :: string
  tl_aliases :: "string list"
  tl_permissionLevel :: permission_level
  tl_isReadOnly :: bool
  tl_isDestructive :: bool
  tl_shouldDefer :: bool
  tl_alwaysLoad :: bool
  tl_requiresNetwork :: "bool option"
  tl_tags :: "string list"
  tl_activityCategory :: "activity_category option"
  tl_gatewayExposure :: "gateway_exposure option"

text \<open>The two limits of the metadata, \<open>maxConcurrency\<close> and \<open>maxOutputChars\<close>, are left out.\<close>

record call_context =
  cx_cwd :: string
  cx_goalId :: string
  cx_trustBalance :: rat
  cx_hostPolicyApproved :: "bool option"
  cx_executionPolicy :: "execution_policy option"
  cx_hostToolState :: "(string \<times> string option) option"
  cx_runId :: "string option"
  cx_turnId :: "string option"
  cx_projectId :: "string option"
  cx_sessionId :: "string option"
  cx_conversationSessionId :: "string option"
  cx_runtimeReplyTarget :: "json option"
  cx_runtimeControlActor :: "json option"
  cx_callId :: "string option"

text \<open>\<open>cx_hostToolState\<close> is the current and the observed epoch.\<close>

record host =
  ho_realpath :: "string \<Rightarrow> string option"
  ho_canonical :: "string \<Rightarrow> string"
  ho_here :: string
  ho_home :: string

section \<open>The decision of the host\<close>

datatype host_status = H_Allowed | H_Denied | H_Needs_Permission | H_Needs_Sandbox | H_Needs_Escalation | H_Fail_Closed

datatype execution_reason =
  Why_Approval_Denied | Why_Permission_Denied | Why_Policy_Blocked | Why_Dry_Run | Why_Tool_Error | Why_Timed_Out
  | Why_Interrupted | Why_Sandbox_Required | Why_Escalation_Required | Why_Stale_State

record host_decision =
  hd_status :: host_status
  hd_executionReason :: "execution_reason option"
  hd_requiredSandboxMode :: "sandbox_mode option"
  hd_requiredApprovalPolicy :: "approval_policy option"

definition host_allowed :: host_decision where
  "host_allowed = \<lparr>hd_status = H_Allowed, hd_executionReason = None, hd_requiredSandboxMode = None, hd_requiredApprovalPolicy = None\<rparr>"

definition host_needs_permission :: host_decision where
  "host_needs_permission = \<lparr>hd_status = H_Needs_Permission, hd_executionReason = Some Why_Approval_Denied,
     hd_requiredSandboxMode = None, hd_requiredApprovalPolicy = Some On_Request\<rparr>"

definition host_needs_sandbox :: "sandbox_mode \<Rightarrow> host_decision" where
  "host_needs_sandbox m = \<lparr>hd_status = H_Needs_Sandbox, hd_executionReason = Some Why_Sandbox_Required,
     hd_requiredSandboxMode = Some m, hd_requiredApprovalPolicy = None\<rparr>"

definition host_fail_closed :: "execution_reason \<Rightarrow> host_decision" where
  "host_fail_closed why = \<lparr>hd_status = H_Fail_Closed, hd_executionReason = Some why,
     hd_requiredSandboxMode = None, hd_requiredApprovalPolicy = None\<rparr>"

definition decide_state_freshness :: "call_context \<Rightarrow> host_decision option" where
  "decide_state_freshness cx = (case cx_hostToolState cx of
     None \<Rightarrow> None
   | Some (current, observed) \<Rightarrow>
       if \<not> truthy observed \<or> observed = Some current then None else Some (host_fail_closed Why_Stale_State))"

definition context_cwd :: "host \<Rightarrow> json option \<Rightarrow> call_context \<Rightarrow> scope_validation" where
  "context_cwd h cwd cx = resolve_workspace_cwd (ho_realpath h) (ho_here h) (ho_home h)
     (case cwd of Some (J_String s) \<Rightarrow> Some s | _ \<Rightarrow> None) (cx_cwd cx) (cx_executionPolicy cx)"

definition decide_workspace_cwd :: "host \<Rightarrow> json \<Rightarrow> call_context \<Rightarrow> host_decision option" where
  "decide_workspace_cwd h input cx =
     (if \<not> is_json_object input then None
      else case json_field input ''cwd'' of
             None \<Rightarrow> if sv_valid (context_cwd h None cx) then None else Some (host_fail_closed Why_Policy_Blocked)
           | Some (J_String s) \<Rightarrow>
               if sv_valid (context_cwd h (Some (J_String s)) cx) then None else Some (host_fail_closed Why_Policy_Blocked)
           | Some _ \<Rightarrow> Some (host_fail_closed Why_Policy_Blocked))"

definition is_shell_tool :: "tool \<Rightarrow> bool" where
  "is_shell_tool t \<longleftrightarrow> tl_name t = ''shell'' \<or> tl_name t = ''shell_command''"

definition decide_shell_execution :: "host \<Rightarrow> tool \<Rightarrow> json \<Rightarrow> call_context \<Rightarrow> host_decision option" where
  "decide_shell_execution h t input cx =
     (if \<not> is_shell_tool t \<or> \<not> is_json_object input then None
      else case json_field input ''command'' of
             Some (J_String command) \<Rightarrow>
               (let r = assess_shell_command (ho_canonical h) (ho_here h) command (cx_executionPolicy cx)
                          (Some (sv_resolved (context_cwd h (json_field input ''cwd'') cx)));
                    c = as_capabilities r
                in Some (case as_status r of
                     Allowed \<Rightarrow> host_allowed
                   | Needs_Approval \<Rightarrow> if cx_hostPolicyApproved cx = Some True then host_allowed else host_needs_permission
                   | Denied \<Rightarrow>
                       (case cx_executionPolicy cx of
                          Some pol \<Rightarrow>
                            if (sc_localWrite c \<and> ep_sandboxMode pol = Read_Only) \<or> (sc_network c \<and> \<not> ep_networkAccess pol)
                            then host_needs_sandbox (if sc_network c then Danger_Full_Access else Workspace_Write)
                            else \<lparr>hd_status = H_Denied, hd_executionReason = Some Why_Policy_Blocked,
                                  hd_requiredSandboxMode = None, hd_requiredApprovalPolicy = None\<rparr>
                        | None \<Rightarrow> \<lparr>hd_status = H_Denied, hd_executionReason = Some Why_Policy_Blocked,
                                  hd_requiredSandboxMode = None, hd_requiredApprovalPolicy = None\<rparr>)))
           | _ \<Rightarrow> None)"

definition needs_network :: "tool \<Rightarrow> bool" where
  "needs_network t \<longleftrightarrow>
     tl_permissionLevel t = Level_Write_Remote \<or> tl_requiresNetwork t = Some True \<or> ''network'' \<in> set (tl_tags t)"

definition decide_host_tool_execution :: "host \<Rightarrow> tool \<Rightarrow> json \<Rightarrow> call_context \<Rightarrow> host_decision" where
  "decide_host_tool_execution h t input cx =
     (case decide_state_freshness cx of Some d \<Rightarrow> d | None \<Rightarrow>
      case cx_executionPolicy cx of None \<Rightarrow> host_allowed | Some pol \<Rightarrow>
      case decide_workspace_cwd h input cx of Some d \<Rightarrow> d | None \<Rightarrow>
      case decide_shell_execution h t input cx of Some d \<Rightarrow> d | None \<Rightarrow>
      if needs_network t \<and> \<not> ep_networkAccess pol then host_needs_sandbox Danger_Full_Access
      else if ep_sandboxMode pol = Read_Only \<and> \<not> tl_isReadOnly t then host_needs_sandbox Workspace_Write
      else if ep_approvalPolicy pol = Untrusted \<and>
              (tl_isDestructive t \<or> tl_permissionLevel t = Level_Execute \<or> tl_permissionLevel t = Level_Write_Remote)
           then \<lparr>hd_status = H_Needs_Escalation, hd_executionReason = Some Why_Escalation_Required,
                 hd_requiredSandboxMode = None, hd_requiredApprovalPolicy = Some On_Request\<rparr>
      else if cx_hostPolicyApproved cx = Some True then host_allowed
      else if tl_permissionLevel t \<in> {Level_Write_Local, Level_Execute, Level_Write_Remote} \<and> ep_approvalPolicy pol \<noteq> Never
           then host_needs_permission
      else host_allowed)"

section \<open>Does a stored grant cover the call\<close>

datatype evaluation_status =
  Matched | Missing_Grant | Expired_Grant | Revoked_Grant | Stale_Grant | Superseded_Grant | Excluded_Call
  | Unknown_Call | Hard_Boundary | Fresh_Approval_Required

record request_facts =
  rf_required :: "grant_capability list"
  rf_excluded :: "excluded_capability list"

record evaluation =
  ev_status :: evaluation_status
  ev_allowed :: bool
  ev_facts :: request_facts
  ev_matchedGrantId :: "string option"
  ev_consideredGrantIds :: "string list"

definition evaluated :: "evaluation_status \<Rightarrow> request_facts \<Rightarrow> string option \<Rightarrow> string list \<Rightarrow> evaluation" where
  "evaluated st facts i considered =
     \<lparr>ev_status = st, ev_allowed = (st = Matched), ev_facts = facts, ev_matchedGrantId = i, ev_consideredGrantIds = considered\<rparr>"

text \<open>The two sets are lists in the order in which the code adds their elements.\<close>

definition unknown_request :: request_facts where
  "unknown_request = \<lparr>rf_required = [], rf_excluded = [Unknown_Capability]\<rparr>"

definition shell_request_facts :: "shell_capabilities \<Rightarrow> request_facts" where
  "shell_request_facts c =
     \<lparr>rf_required = (if sc_localWrite c then [Run_Safe_Local_Commands] else if sc_readOnly c then [Inspect_Runtime] else []),
      rf_excluded = (if sc_destructive c then [Destructive_Action] else []) @
        (if sc_protectedTarget c then [Protected_Path_Mutation] else []) @
        (if sc_network c then [Network_Send, External_Send] else []) @
        (if \<not> sc_readOnly c \<and> \<not> sc_localWrite c \<and> \<not> sc_network c \<and> \<not> sc_destructive c then [Unknown_Capability] else [])\<rparr>"

definition classify_shell_permission_grant_request :: "host \<Rightarrow> json \<Rightarrow> call_context \<Rightarrow> request_facts" where
  "classify_shell_permission_grant_request h input cx =
     (if \<not> is_json_object input then unknown_request
      else case json_field input ''command'' of
             Some (J_String command) \<Rightarrow>
               (let v = context_cwd h (json_field input ''cwd'') cx
                in shell_request_facts (as_capabilities
                     (assess_shell_command (ho_canonical h) (ho_here h) command (cx_executionPolicy cx)
                        (Some (if sv_valid v then sv_resolved v else cx_cwd cx)))))
           | _ \<Rightarrow> unknown_request)"

definition classify_permission_grant_request :: "host \<Rightarrow> tool \<Rightarrow> json \<Rightarrow> call_context \<Rightarrow> request_facts" where
  "classify_permission_grant_request h t input cx =
     (if is_shell_tool t then classify_shell_permission_grant_request h input cx
      else
        let excluded = (if tl_isDestructive t then [Destructive_Action] else []) @
              (if tl_permissionLevel t = Level_Write_Remote then [Write_Remote_Data] else []) @
              (if tl_requiresNetwork t = Some True \<or> ''network'' \<in> set (tl_tags t) then [Network_Send, External_Send] else []);
            required = (if ''memory'' \<in> set (tl_tags t) then [Update_Memory] else []) @
              (if ''surface'' \<in> set (tl_tags t) then [Update_Surface] else []) @
              (if tl_activityCategory t = Some Act_Test then [Run_Tests] else []) @
              (if tl_activityCategory t = Some Act_File_Create \<or> tl_activityCategory t = Some Act_File_Modify
               then [Write_Workspace] else [])
        in if required \<noteq> [] then \<lparr>rf_required = required, rf_excluded = excluded\<rparr>
           else case tl_permissionLevel t of
                  Level_Read_Only \<Rightarrow> \<lparr>rf_required = [Read_Workspace], rf_excluded = excluded\<rparr>
                | Level_Read_Metrics \<Rightarrow> \<lparr>rf_required = [Inspect_Runtime], rf_excluded = excluded\<rparr>
                | Level_Write_Local \<Rightarrow> \<lparr>rf_required = [Write_Workspace], rf_excluded = excluded\<rparr>
                | Level_Execute \<Rightarrow> \<lparr>rf_required = [], rf_excluded = excluded @ [Unknown_Capability]\<rparr>
                | Level_Write_Remote \<Rightarrow> \<lparr>rf_required = [], rf_excluded = excluded\<rparr>)"

definition present_strings :: "string option list \<Rightarrow> string list" where
  "present_strings xs = map the (filter truthy xs)"

definition string_field :: "json option \<Rightarrow> string \<Rightarrow> string option" where
  "string_field v k = (case v of
     None \<Rightarrow> None
   | Some j \<Rightarrow> (case json_field j k of Some (J_String s) \<Rightarrow> if trim s \<noteq> [] then Some s else None | _ \<Rightarrow> None))"

definition context_session_ids :: "call_context \<Rightarrow> string list" where
  "context_session_ids cx = present_strings [cx_sessionId cx, cx_conversationSessionId cx]"

definition context_conversation_ids :: "call_context \<Rightarrow> string list" where
  "context_conversation_ids cx = present_strings
     [cx_conversationSessionId cx, string_field (cx_runtimeReplyTarget cx) ''conversation_id'',
      string_field (cx_runtimeControlActor cx) ''conversation_id'']"

definition context_user_ids :: "call_context \<Rightarrow> string list" where
  "context_user_ids cx = present_strings
     [string_field (cx_runtimeReplyTarget cx) ''user_id'', string_field (cx_runtimeControlActor cx) ''user_id'']"

definition normalize_path :: "string \<Rightarrow> string option \<Rightarrow> string option" where
  "normalize_path here v = (if truthy v then Some (path_resolve here [] (the v)) else None)"

definition context_workspace_roots :: "string \<Rightarrow> call_context \<Rightarrow> string list" where
  "context_workspace_roots here cx = present_strings
     [normalize_path here (map_option ep_workspaceRoot (cx_executionPolicy cx)), normalize_path here (Some (cx_cwd cx))]"

definition grant_scope_matches_context :: "string \<Rightarrow> grant \<Rightarrow> call_context \<Rightarrow> bool" where
  "grant_scope_matches_context here g cx = (case sc_kind (gr_scope g) of
     Scope_Turn \<Rightarrow> truthy (cx_turnId cx) \<and> cx_turnId cx = sc_turn_id (gr_scope g)
   | Scope_Run \<Rightarrow> truthy (cx_runId cx) \<and> cx_runId cx = sc_run_id (gr_scope g)
   | Scope_Goal \<Rightarrow> Some (cx_goalId cx) = sc_goal_id (gr_scope g)
   | Scope_Session \<Rightarrow> nullish (sc_session_id (gr_scope g)) [] \<in> set (context_session_ids cx)
   | Scope_Workspace \<Rightarrow> (let r = normalize_path here (sc_workspace_root (gr_scope g))
                        in truthy r \<and> the r \<in> set (context_workspace_roots here cx))
   | Scope_Project \<Rightarrow> truthy (cx_projectId cx) \<and> cx_projectId cx = sc_project_id (gr_scope g)
   | Scope_Global \<Rightarrow> True)"

definition grant_origin_matches_context :: "grant \<Rightarrow> call_context \<Rightarrow> bool" where
  "grant_origin_matches_context g cx =
     (let og = gr_origin g
      in (\<not> truthy (go_session_id og) \<or> gr_duration g = Standing \<or> the (go_session_id og) \<in> set (context_session_ids cx)) \<and>
         (\<not> truthy (go_conversation_id og) \<or> the (go_conversation_id og) \<in> set (context_conversation_ids cx)) \<and>
         (\<not> truthy (go_user_id og) \<or> context_user_ids cx = [] \<or> the (go_user_id og) \<in> set (context_user_ids cx)))"

definition inactive_grant_decision :: "grant \<Rightarrow> int \<Rightarrow> request_facts \<Rightarrow> string list \<Rightarrow> evaluation option" where
  "inactive_grant_decision g now facts considered =
     (if gr_state g = Grant_Revoked then Some (evaluated Revoked_Grant facts (Some (gr_grant_id g)) considered)
      else if gr_state g = Grant_Superseded then Some (evaluated Superseded_Grant facts (Some (gr_grant_id g)) considered)
      else if is_permission_grant_expired g now then Some (evaluated Expired_Grant facts (Some (gr_grant_id g)) considered)
      else if is_permission_grant_stale g \<or> \<not> is_permission_grant_currently_active g now
           then Some (evaluated Stale_Grant facts (Some (gr_grant_id g)) considered)
      else None)"

definition covers_all_capabilities :: "request_facts \<Rightarrow> grant \<Rightarrow> bool" where
  "covers_all_capabilities facts g \<longleftrightarrow> list_all (\<lambda>c. c \<in> set (gr_capabilities g)) (rf_required facts)"

text \<open>
  The loop over the listed grants ends in an answer or at the first grant whose use is to be
  recorded, with the ids considered up to it.
\<close>

fun scan_grants ::
  "string \<Rightarrow> call_context \<Rightarrow> int \<Rightarrow> request_facts \<Rightarrow> string list \<Rightarrow> evaluation option \<Rightarrow> grant list \<Rightarrow> evaluation + (grant \<times> string list)" where
  "scan_grants here cx now facts considered blocker [] = Inl (nullish blocker (evaluated Missing_Grant facts None considered))"
| "scan_grants here cx now facts considered blocker (g # gs) =
     (let considered = considered @ [gr_grant_id g] in
      if \<not> grant_scope_matches_context here g cx \<or> \<not> grant_origin_matches_context g cx
      then scan_grants here cx now facts considered blocker gs
      else case inactive_grant_decision g now facts considered of
             Some d \<Rightarrow> scan_grants here cx now facts considered (Some (nullish blocker d)) gs
           | None \<Rightarrow>
               if \<not> covers_all_capabilities facts g then scan_grants here cx now facts considered blocker gs
               else Inr (g, considered))"

definition use_audit_ref :: "tool \<Rightarrow> call_context \<Rightarrow> string" where
  "use_audit_ref t cx =
     (if truthy (cx_callId cx) then ''tool-call:'' @ the (cx_callId cx) else ''tool:'' @ tl_name t)"

text \<open>
  The grants are listed at \<open>now\<close>; the use is recorded by a transaction of its own, at \<open>later\<close>, and
  \<open>between\<close> is what others have done to the table in the meantime.
\<close>

definition evaluate_permission_grant_for_tool_call ::
  "host \<Rightarrow> tool \<Rightarrow> json \<Rightarrow> call_context \<Rightarrow> host_decision \<Rightarrow> int \<Rightarrow> int \<Rightarrow> grant_op list \<Rightarrow> grant_table option \<Rightarrow>
   evaluation result \<times> grant_table option" where
  "evaluate_permission_grant_for_tool_call h t input cx d now later between store =
     (let facts = classify_permission_grant_request h t input cx in
      if hd_status d \<noteq> H_Needs_Permission then (Inr (evaluated Hard_Boundary facts None []), store)
      else if rf_excluded facts \<noteq> []
      then (Inr (evaluated (if Unknown_Capability \<in> set (rf_excluded facts) then Unknown_Call else Excluded_Call) facts None []), store)
      else if rf_required facts = [] then (Inr (evaluated Fresh_Approval_Required facts None []), store)
      else case store of
             None \<Rightarrow> (Inr (evaluated Missing_Grant facts None []), store)
           | Some table \<Rightarrow>
               (case list_permission_grants (\<lambda>_. True) table of
                  Inl e \<Rightarrow> (Inl e, store)
                | Inr gs \<Rightarrow>
                    (case scan_grants (ho_here h) cx now facts [] None gs of
                       Inl ev \<Rightarrow> (Inr ev, store)
                     | Inr (g, considered) \<Rightarrow>
                         (case record_use (gr_grant_id g) None (Some (use_audit_ref t cx)) later (fold grant_step between table) of
                            (Inl e, table') \<Rightarrow> (Inl e, Some table')
                          | (Inr None, table') \<Rightarrow>
                              (Inr (evaluated Fresh_Approval_Required facts (Some (gr_grant_id g)) considered), Some table')
                          | (Inr (Some _), table') \<Rightarrow>
                              (Inr (evaluated Matched facts (Some (gr_grant_id g)) considered), Some table')))))"

section \<open>The check of a call\<close>

record permission_rule =
  pr_toolName :: "string option"
  pr_permissionLevel :: "permission_level option"
  pr_inputMatcher :: "(json \<Rightarrow> bool) option"
  pr_goalId :: "string option"

definition rule_matches :: "permission_rule \<Rightarrow> tool \<Rightarrow> json \<Rightarrow> call_context \<Rightarrow> bool" where
  "rule_matches r t input cx \<longleftrightarrow>
     (\<not> truthy (pr_toolName r) \<or> pr_toolName r = Some (tl_name t)) \<and>
     (pr_permissionLevel r = None \<or> pr_permissionLevel r = Some (tl_permissionLevel t)) \<and>
     (pr_inputMatcher r = None \<or> the (pr_inputMatcher r) input) \<and>
     (\<not> truthy (pr_goalId r) \<or> pr_goalId r = Some (cx_goalId cx))"

fun required_trust :: "permission_level \<Rightarrow> rat" where
  "required_trust Level_Read_Only = - 100"
| "required_trust Level_Read_Metrics = - 50"
| "required_trust Level_Write_Local = - 20"
| "required_trust Level_Execute = 0"
| "required_trust Level_Write_Remote = 10"

datatype check_status = Check_Allowed | Check_Denied | Check_Needs_Approval

record check_result =
  ck_status :: check_status
  ck_executionReason :: "execution_reason option"
  ck_policyDecision :: "host_decision option"
  ck_permissionGrantDecision :: "evaluation option"

definition checked :: "check_status \<Rightarrow> check_result" where
  "checked st = \<lparr>ck_status = st, ck_executionReason = None, ck_policyDecision = None, ck_permissionGrantDecision = None\<rparr>"

definition permission_result_from_host_decision :: "host_decision \<Rightarrow> check_result" where
  "permission_result_from_host_decision d =
     (if hd_status d = H_Allowed then checked Check_Allowed
      else (checked (if hd_status d = H_Needs_Permission then Check_Needs_Approval else Check_Denied))
             \<lparr>ck_executionReason := hd_executionReason d, ck_policyDecision := Some d\<rparr>)"

record permission_manager =
  pm_denyList :: "permission_rule list"
  pm_allowList :: "permission_rule list"
  pm_ethicsGate :: "(string \<Rightarrow> string \<Rightarrow> json \<Rightarrow> string option) option"

text \<open>
  The gate is asked about the goal, with a description made of the tool's name and the input; it
  answers with a verdict.
\<close>

definition add_deny_rule :: "permission_rule \<Rightarrow> permission_manager \<Rightarrow> permission_manager" where
  "add_deny_rule r m = m\<lparr>pm_denyList := pm_denyList m @ [r]\<rparr>"

definition add_allow_rule :: "permission_rule \<Rightarrow> permission_manager \<Rightarrow> permission_manager" where
  "add_allow_rule r m = m\<lparr>pm_allowList := pm_allowList m @ [r]\<rparr>"

definition check_without_policy :: "permission_manager \<Rightarrow> tool \<Rightarrow> json \<Rightarrow> call_context \<Rightarrow> check_status" where
  "check_without_policy m t input cx =
     (if tl_isReadOnly t then Check_Allowed
      else if cx_trustBalance cx < required_trust (tl_permissionLevel t) then Check_Needs_Approval
      else let gate = (if tl_name t = ''shell'' \<or> tl_permissionLevel t \<noteq> Level_Read_Only then pm_ethicsGate m else None) in
        case map_option (\<lambda>ask. ask (cx_goalId cx) (tl_name t) input) gate of
          Some None \<Rightarrow> Check_Needs_Approval
        | verdict \<Rightarrow>
            if verdict = Some (Some ''reject'') then Check_Denied
            else if list_ex (\<lambda>r. rule_matches r t input cx) (pm_allowList m) then Check_Allowed
            else if tl_permissionLevel t = Level_Read_Metrics then Check_Needs_Approval
            else Check_Allowed)"

definition permission_check ::
  "permission_manager \<Rightarrow> host \<Rightarrow> tool \<Rightarrow> json \<Rightarrow> call_context \<Rightarrow> int \<Rightarrow> int \<Rightarrow> grant_op list \<Rightarrow> grant_table option \<Rightarrow>
   check_result result \<times> grant_table option" where
  "permission_check m h t input cx now later between store =
     (let d = decide_host_tool_execution h t input cx; r = permission_result_from_host_decision d in
      if hd_status d = H_Fail_Closed then (Inr r, store)
      else if list_ex (\<lambda>rule. rule_matches rule t input cx) (pm_denyList m) then (Inr (checked Check_Denied), store)
      else if ck_status r \<noteq> Check_Allowed
      then (if hd_status d = H_Needs_Permission
            then case evaluate_permission_grant_for_tool_call h t input cx d now later between store of
                   (Inl e, store') \<Rightarrow> (Inl e, store')
                 | (Inr ev, store') \<Rightarrow>
                     (Inr ((if ev_allowed ev then checked Check_Allowed else r)\<lparr>ck_permissionGrantDecision := Some ev\<rparr>), store')
            else (Inr r, store))
      else if cx_executionPolicy cx \<noteq> None then (Inr r, store)
      else (Inr (checked (check_without_policy m t input cx)), store))"

section \<open>What the evaluation finds\<close>

lemma evaluated_simps [simp]:
  "ev_status (evaluated st facts i cs) = st" "ev_allowed (evaluated st facts i cs) \<longleftrightarrow> st = Matched"
  "ev_facts (evaluated st facts i cs) = facts" "ev_matchedGrantId (evaluated st facts i cs) = i"
  by (simp_all add: evaluated_def)

lemma inactive_grant_decision_None:
  "inactive_grant_decision g now facts cs = None \<longleftrightarrow> is_permission_grant_currently_active g now"
  by (auto simp: inactive_grant_decision_def is_permission_grant_currently_active_def)

lemma inactive_grant_decision_Some: "inactive_grant_decision g now facts cs = Some ev \<Longrightarrow> \<not> ev_allowed ev"
  by (auto simp: inactive_grant_decision_def split: if_splits)

lemma scan_grants_found:
  "scan_grants here cx now facts cs b gs = Inr (g, cs') \<Longrightarrow>
   g \<in> set gs \<and> grant_scope_matches_context here g cx \<and> grant_origin_matches_context g cx \<and>
   is_permission_grant_currently_active g now \<and> covers_all_capabilities facts g"
  by (induction here cx now facts cs b gs rule: scan_grants.induct)
    (auto simp: Let_def inactive_grant_decision_None split: if_splits option.splits)

lemma scan_grants_refused:
  "scan_grants here cx now facts cs b gs = Inl ev \<Longrightarrow> (\<And>e. b = Some e \<Longrightarrow> \<not> ev_allowed e) \<Longrightarrow> \<not> ev_allowed ev"
proof (induction gs arbitrary: cs b)
  case Nil
  then show ?case by (cases b) (auto simp: nullish_def)
next
  case (Cons g gs)
  show ?case
  proof (cases "inactive_grant_decision g now facts (cs @ [gr_grant_id g])")
    case None
    then show ?thesis using Cons.prems Cons.IH by (auto simp: Let_def split: if_splits)
  next
    case (Some d)
    have "\<not> ev_allowed (nullish b d)"
      using Cons.prems(2) inactive_grant_decision_Some[OF Some] by (cases b) (simp_all add: nullish_def)
    then show ?thesis using Some Cons.prems Cons.IH[where b = "Some (nullish b d)"] Cons.IH[where b = b]
      by (auto simp: Let_def split: if_splits)
  qed
qed

lemma list_permission_grants_all:
  "list_permission_grants (\<lambda>_. True) t = Inr gs \<Longrightarrow> set gs = snd ` set t"
  by (auto simp: list_permission_grants_def Let_def simp flip: set_map split: if_splits)

text \<open>An evaluation allows a call just by recording a use of a grant that covers it.\<close>

lemma evaluation_allowed:
  assumes ev: "evaluate_permission_grant_for_tool_call h t input cx d now later between (Some table) = (Inr ev, store')"
    and allowed: "ev_allowed ev" and ok: "grant_table_ok table"
  defines "facts \<equiv> classify_permission_grant_request h t input cx"
  shows "hd_status d = H_Needs_Permission \<and> rf_excluded facts = [] \<and> rf_required facts \<noteq> [] \<and>
    (\<exists>i g g'. ev_matchedGrantId ev = Some i \<and> table_get table i = Some g \<and>
       grant_scope_matches_context (ho_here h) g cx \<and> grant_origin_matches_context g cx \<and>
       is_permission_grant_currently_active g now \<and> set (rf_required facts) \<subseteq> set (gr_capabilities g) \<and>
       table_get (fold grant_step between table) i = Some g' \<and> is_permission_grant_currently_active g' later \<and>
       store' = Some (table_put i (Permission_Grants.used later (Some (use_audit_ref t cx)) g') (fold grant_step between table)))"
proof -
  have pre: "hd_status d = H_Needs_Permission" "rf_excluded facts = []" "rf_required facts \<noteq> []"
    using ev allowed by (auto simp: evaluate_permission_grant_for_tool_call_def Let_def facts_def split: if_splits)
  then obtain gs g cs where gs: "list_permission_grants (\<lambda>_. True) table = Inr gs"
    and scan: "scan_grants (ho_here h) cx now facts [] None gs = Inr (g, cs)"
    using ev allowed scan_grants_refused[of "ho_here h" cx now facts "[]" None]
    by (auto simp: evaluate_permission_grant_for_tool_call_def Let_def facts_def[symmetric] split: sum.splits prod.splits)
  let ?t = "fold grant_step between table"
  obtain r where r: "record_use (gr_grant_id g) None (Some (use_audit_ref t cx)) later ?t = (Inr (Some r), the store')"
    and store': "store' \<noteq> None" and i: "ev_matchedGrantId ev = Some (gr_grant_id g)"
    using ev allowed pre gs scan
    by (auto simp: evaluate_permission_grant_for_tool_call_def Let_def facts_def[symmetric] split: sum.splits prod.splits option.splits)
  have g: "table_get table (gr_grant_id g) = Some g"
    using scan_grants_found[OF scan] list_permission_grants_all[OF gs] ok grant_table_okD[OF ok]
    by (auto simp: grant_table_ok_def table_mem_iff)
  have "grant_table_ok ?t" using over.run_wf[OF ok] .
  then obtain g' where "table_get ?t (gr_grant_id g) = Some g'" "is_permission_grant_currently_active g' later"
      "the store' = table_put (gr_grant_id g) (Permission_Grants.used later (Some (use_audit_ref t cx)) g') ?t"
    using r by (auto simp: record_use_def update_grant_ok nullish_def split: option.splits if_splits)
  then show ?thesis using pre i g scan_grants_found[OF scan] store'
    by (auto simp: covers_all_capabilities_def list_all_iff)
qed

text \<open>A check that lets through what the host asks about rests on a grant that covers the call.\<close>

lemma grant_covers_call:
  assumes "permission_check m h t input cx now later between store = (Inr r, store')"
    "ck_status r = Check_Allowed" "hd_status (decide_host_tool_execution h t input cx) = H_Needs_Permission"
    "pred_option grant_table_ok store"
  shows "(\<forall>rule \<in> set (pm_denyList m). \<not> rule_matches rule t input cx) \<and>
    rf_excluded (classify_permission_grant_request h t input cx) = [] \<and>
    (\<exists>table i g g'. store = Some table \<and> table_get table i = Some g \<and>
       grant_scope_matches_context (ho_here h) g cx \<and> grant_origin_matches_context g cx \<and>
       is_permission_grant_currently_active g now \<and>
       set (rf_required (classify_permission_grant_request h t input cx)) \<subseteq> set (gr_capabilities g) \<and>
       table_get (fold grant_step between table) i = Some g' \<and> is_permission_grant_currently_active g' later \<and>
       store' = Some (table_put i (Permission_Grants.used later (Some (use_audit_ref t cx)) g') (fold grant_step between table)))"
proof -
  obtain ev where ev: "evaluate_permission_grant_for_tool_call h t input cx (decide_host_tool_execution h t input cx)
        now later between store = (Inr ev, store')" "ev_allowed ev"
    and rules: "\<not> list_ex (\<lambda>rule. rule_matches rule t input cx) (pm_denyList m)"
    using assms(1-3) by (auto simp: permission_check_def Let_def permission_result_from_host_decision_def checked_def
      split: if_splits prod.splits sum.splits)
  obtain table where table: "store = Some table"
    using ev by (cases store) (auto simp: evaluate_permission_grant_for_tool_call_def Let_def split: if_splits)
  then have "grant_table_ok table" using assms(4) by simp
  from evaluation_allowed[OF ev[unfolded table] this] show ?thesis
    using rules table by (auto simp: list_ex_iff)
qed

text \<open>
  C8. A stored grant answers for the user only where it may. If the host asks for permission and the
  check lets the call run, then no deny rule matches, the call has nothing that grants never cover,
  and there is a grant in scope, of a matching origin and in force that covers every capability the
  call needs; it was still in force when its use was recorded, whatever other transactions came in
  between, and the recorded use is all that the check changes.
\<close>
theorem grant_answers_only_for_covered_calls:
  assumes "permission_check m h t input cx now later between (Some table) = (Inr r, store')"
    "ck_status r = Check_Allowed" "hd_status (decide_host_tool_execution h t input cx) = H_Needs_Permission"
    "grant_table_ok table"
  shows "(\<forall>rule \<in> set (pm_denyList m). \<not> rule_matches rule t input cx) \<and>
    rf_excluded (classify_permission_grant_request h t input cx) = [] \<and>
    (\<exists>i g g'. table_get table i = Some g \<and>
       grant_scope_matches_context (ho_here h) g cx \<and> grant_origin_matches_context g cx \<and>
       is_permission_grant_currently_active g now \<and>
       set (rf_required (classify_permission_grant_request h t input cx)) \<subseteq> set (gr_capabilities g) \<and>
       table_get (fold grant_step between table) i = Some g' \<and> is_permission_grant_currently_active g' later \<and>
       store' = Some (table_put i (Permission_Grants.used later (Some (use_audit_ref t cx)) g') (fold grant_step between table)))"
  using grant_covers_call[OF assms(1-3)] assms(4) by simp

lemma permission_refused:
  assumes "hd_status (decide_host_tool_execution h t input cx) \<in> {H_Denied, H_Needs_Sandbox, H_Needs_Escalation, H_Fail_Closed} \<or>
     (\<exists>rule \<in> set (pm_denyList m). rule_matches rule t input cx)"
  shows "\<exists>r. permission_check m h t input cx now later between store = (Inr r, store) \<and> ck_status r = Check_Denied"
  using assms
  by (auto simp: permission_check_def Let_def permission_result_from_host_decision_def checked_def list_ex_iff)

text \<open>
  C10. A refusal is final: a call that the host denies, wants in another sandbox, wants escalated or
  fails closed on, and a call that a deny rule matches, is denied, whatever grants, trust, allow rules
  and the ethics gate say, and no grant is used up by it.
\<close>
theorem refusals_are_final:
  assumes "hd_status (decide_host_tool_execution h t input cx) \<in> {H_Denied, H_Needs_Sandbox, H_Needs_Escalation, H_Fail_Closed} \<or>
     (\<exists>rule \<in> set (pm_denyList m). rule_matches rule t input cx)"
  shows "\<exists>r. permission_check m h t input cx now later between store = (Inr r, store) \<and> ck_status r = Check_Denied"
  using assms by (rule permission_refused)

lemma assess_allowed_asking:
  assumes "as_status (assess_shell_command canonical here c (Some pol) cwd) = Allowed" "ep_approvalPolicy pol \<noteq> Never"
  defines "caps \<equiv> as_capabilities (assess_shell_command canonical here c (Some pol) cwd)"
  shows "sc_readOnly caps" "\<not> sc_localWrite caps" "\<not> sc_network caps" "\<not> sc_destructive caps" "\<not> sc_protectedTarget caps"
proof -
  let ?c = "sa_capabilities (analyze_shell_command c)"
  have ok: "sa_unsupportedReason (analyze_shell_command c) = None" and caps: "caps = ?c"
    and c: "sc_readOnly ?c" "\<not> sc_localWrite ?c" "\<not> sc_network ?c" "\<not> sc_destructive ?c"
    using assms unfolding assess_shell_command_def Let_def
    by (auto simp: assess_denied_status mutating_def allowed_def denied_def needs_approval_def split: if_splits)
  obtain ts where "tokenize_shell_command (trim c) = (ts, None)"
    using ok analysis_facts(1) by (metis prod.exhaust)
  then have "\<not> sc_protectedTarget ?c" by (rule collected_classes(5)[OF _ refl])
  with c show "sc_readOnly caps" "\<not> sc_localWrite caps" "\<not> sc_network caps" "\<not> sc_destructive caps" "\<not> sc_protectedTarget caps"
    by (simp_all add: caps)
qed

lemma assess_asks:
  assumes "as_status (assess_shell_command canonical here c (Some pol) cwd) = Needs_Approval"
  defines "caps \<equiv> as_capabilities (assess_shell_command canonical here c (Some pol) cwd)"
  shows "\<not> sc_readOnly caps \<or> sc_localWrite caps \<or> sc_network caps"
  using assms unfolding assess_shell_command_def Let_def
  by (auto simp: assess_denied_status mutating_def allowed_def denied_def needs_approval_def split: if_splits)

lemma host_answers_for_shell:
  fixes h :: host
  assumes "is_json_object input" "is_shell_tool t" "json_field input ''command'' = Some (J_String c)" "cx_executionPolicy cx = Some pol"
  defines "cwd \<equiv> context_cwd h (json_field input ''cwd'') cx"
  defines "a \<equiv> assess_shell_command (ho_canonical h) (ho_here h) c (Some pol) (Some (sv_resolved cwd))"
  defines "d \<equiv> decide_host_tool_execution h t input cx"
  shows "hd_status d = H_Fail_Closed \<or> sv_valid cwd \<and>
     (as_status a = Allowed \<and> hd_status d = H_Allowed \<or>
      as_status a = Needs_Approval \<and> hd_status d = (if cx_hostPolicyApproved cx = Some True then H_Allowed else H_Needs_Permission) \<or>
      as_status a = Denied \<and> hd_status d \<in> {H_Needs_Sandbox, H_Denied})"
proof (cases "decide_state_freshness cx")
  case None
  show ?thesis
  proof (cases "decide_workspace_cwd h input cx")
    case None': None
    have "sv_valid cwd" using None' assms(1)
      by (auto simp: decide_workspace_cwd_def cwd_def split: option.splits json.splits if_splits)
    moreover have "decide_shell_execution h t input cx = Some d"
      using None None' assms(1-4) by (auto simp: d_def decide_host_tool_execution_def decide_shell_execution_def Let_def)
    then have "as_status a = Allowed \<and> hd_status d = H_Allowed \<or>
      as_status a = Needs_Approval \<and> hd_status d = (if cx_hostPolicyApproved cx = Some True then H_Allowed else H_Needs_Permission) \<or>
      as_status a = Denied \<and> hd_status d \<in> {H_Needs_Sandbox, H_Denied}"
      by (auto simp: decide_shell_execution_def assms(1-4) Let_def a_def[symmetric] cwd_def[symmetric] host_allowed_def
          host_needs_permission_def host_needs_sandbox_def split: shell_status.splits if_splits)
    ultimately show ?thesis by blast
  next
    case (Some dec)
    then have "hd_status dec = H_Fail_Closed"
      by (auto simp: decide_workspace_cwd_def host_fail_closed_def split: option.splits json.splits if_splits)
    then show ?thesis using None Some assms(4) by (simp add: decide_host_tool_execution_def d_def)
  qed
next
  case (Some dec)
  then show ?thesis
    by (auto simp: decide_host_tool_execution_def d_def decide_state_freshness_def host_fail_closed_def split: option.splits if_splits)
qed

lemma permission_allowed_cases:
  assumes "permission_check m h t input cx now later between store = (Inr r, store')" "ck_status r = Check_Allowed"
  shows "hd_status (decide_host_tool_execution h t input cx) = H_Allowed \<or>
    hd_status (decide_host_tool_execution h t input cx) = H_Needs_Permission \<and>
    rf_excluded (classify_permission_grant_request h t input cx) = []"
proof (cases "hd_status (decide_host_tool_execution h t input cx) = H_Needs_Permission")
  case True
  then obtain ev where "evaluate_permission_grant_for_tool_call h t input cx (decide_host_tool_execution h t input cx)
        now later between store = (Inr ev, store')" "ev_allowed ev"
    using assms by (auto simp: permission_check_def Let_def permission_result_from_host_decision_def checked_def
      split: if_splits prod.splits sum.splits)
  then show ?thesis using True by (auto simp: evaluate_permission_grant_for_tool_call_def Let_def split: if_splits)
next
  case False
  then show ?thesis using assms by (auto simp: permission_check_def Let_def permission_result_from_host_decision_def checked_def
      split: if_splits)
qed

text \<open>
  C9. Under a policy that asks, a shell command that has not been approved runs unasked only if the
  classifier finds nothing destructive in it, no network access and no protected target, and either
  it is read-only or it writes locally, the host asks, and a stored grant answers: one that allows safe
  local commands, is in scope and of a matching origin, and is in force when it is looked up and when
  its use is recorded, the recorded use being all that the check changes. (The store holds a table of
  valid grants under their own ids, as every reachable one does, or there is no store.)
\<close>
theorem shell_runs_unasked_only_if_harmless:
  assumes "permission_check m h t input cx now later between store = (Inr r, store')" "ck_status r = Check_Allowed"
    "cx_executionPolicy cx = Some pol" "ep_approvalPolicy pol \<noteq> Never" "cx_hostPolicyApproved cx \<noteq> Some True"
    "is_shell_tool t" "json_field input ''command'' = Some (J_String c)" "pred_option grant_table_ok store"
  defines "caps \<equiv> as_capabilities (assess_shell_command (ho_canonical h) (ho_here h) c (Some pol)
     (Some (sv_resolved (context_cwd h (json_field input ''cwd'') cx))))"
  shows "\<not> sc_destructive caps \<and> \<not> sc_network caps \<and> \<not> sc_protectedTarget caps \<and>
    (sc_readOnly caps \<and> \<not> sc_localWrite caps \<or>
     sc_localWrite caps \<and> hd_status (decide_host_tool_execution h t input cx) = H_Needs_Permission \<and>
       rf_required (classify_permission_grant_request h t input cx) = [Run_Safe_Local_Commands] \<and>
       (\<exists>table i g g'. store = Some table \<and> table_get table i = Some g \<and>
          Run_Safe_Local_Commands \<in> set (gr_capabilities g) \<and>
          grant_scope_matches_context (ho_here h) g cx \<and> grant_origin_matches_context g cx \<and>
          is_permission_grant_currently_active g now \<and>
          table_get (fold grant_step between table) i = Some g' \<and> is_permission_grant_currently_active g' later \<and>
          store' = Some (table_put i (Permission_Grants.used later (Some (use_audit_ref t cx)) g') (fold grant_step between table))))"
proof -
  let ?d = "decide_host_tool_execution h t input cx" and ?cwd = "context_cwd h (json_field input ''cwd'') cx"
  let ?a = "assess_shell_command (ho_canonical h) (ho_here h) c (Some pol) (Some (sv_resolved ?cwd))"
  have obj: "is_json_object input" using assms(7) by (cases input) simp_all
  from permission_allowed_cases[OF assms(1,2)] assms(3)
  show ?thesis
  proof (elim disjE conjE)
    assume "hd_status ?d = H_Allowed"
    then have "as_status ?a = Allowed"
      using host_answers_for_shell[OF obj assms(6,7,3), where h = h] assms(5) by auto
    then show ?thesis using assess_allowed_asking[OF _ assms(4)] by (simp add: caps_def)
  next
    assume perm: "hd_status ?d = H_Needs_Permission"
      and facts: "rf_excluded (classify_permission_grant_request h t input cx) = []"
    have valid: "sv_valid ?cwd" and asks: "as_status ?a = Needs_Approval"
      using perm host_answers_for_shell[OF obj assms(6,7,3), where h = h] assms(5) by (auto split: if_splits)
    have "classify_permission_grant_request h t input cx = shell_request_facts caps"
      using valid obj assms(3,6,7)
      by (simp add: classify_permission_grant_request_def classify_shell_permission_grant_request_def Let_def caps_def)
    then have harmless: "\<not> sc_destructive caps \<and> \<not> sc_network caps \<and> \<not> sc_protectedTarget caps \<and> sc_localWrite caps \<and>
        rf_required (classify_permission_grant_request h t input cx) = [Run_Safe_Local_Commands]"
      using facts assess_asks[OF asks] by (auto simp: shell_request_facts_def caps_def split: if_splits)
    then have need: "Run_Safe_Local_Commands \<in> set (rf_required (classify_permission_grant_request h t input cx))" by simp
    from grant_covers_call[OF assms(1,2) perm assms(8)] show ?thesis
      using harmless perm need by (intro conjI disjI2) blast+
  qed
qed

lemma classified_effect:
  "classify_simple_command c = read_only_capabilities \<or> classify_simple_command c = unknown_capabilities \<or>
   sc_localWrite (classify_simple_command c) \<or> sc_network (classify_simple_command c) \<or> sc_destructive (classify_simple_command c)"
  using kind_cases[of c] by (elim disjE) (simp_all add: kind_defs)

text \<open>
  What a grant may cover of a command line is decided by its parts together, and an unclassified
  part counts only on its own: a grant for safe local commands is enough exactly when some part
  writes locally and no part is destructive or uses the network, and the line is refused as unknown
  only if no part writes locally either. So \<open>deploy\<close> needs a fresh approval, but \<open>touch x && deploy\<close>
  runs under the grant.
\<close>
lemma local_write_covers_unclassified_parts:
  fixes canonical :: "string \<Rightarrow> string" and here :: string and cwd :: "string option"
  assumes "tokenize_shell_command (trim command) = (ts, None)"
    "cs = map classify_simple_command (sa_commands (analyze_shell_command command))"
    "policy = None \<or> ep_protectedPaths (the policy) = []"
  defines "facts \<equiv> shell_request_facts (as_capabilities (assess_shell_command canonical here command policy cwd))"
  shows "(facts = \<lparr>rf_required = [Run_Safe_Local_Commands], rf_excluded = []\<rparr> \<longleftrightarrow>
            (redirects ts \<or> (\<exists>c \<in> set cs. sc_localWrite c)) \<and> (\<forall>c \<in> set cs. \<not> sc_network c \<and> \<not> sc_destructive c)) \<and>
         (Unknown_Capability \<in> set (rf_excluded facts) \<longleftrightarrow>
            \<not> redirects ts \<and> (\<forall>c \<in> set cs. \<not> sc_localWrite c \<and> \<not> sc_network c \<and> \<not> sc_destructive c) \<and>
            (\<exists>c \<in> set cs. c = unknown_capabilities))"
proof -
  let ?c = "sa_capabilities (analyze_shell_command command)"
  have "\<not> targets_protected_root canonical here (sa_pathTokens (analyze_shell_command command)) policy cwd"
    using assms(3) by (auto simp: targets_protected_root_def split: option.splits)
  then have caps: "as_capabilities (assess_shell_command canonical here command policy cwd) = ?c"
    by (auto simp: assess_shell_command_def Let_def denied_def allowed_def needs_approval_def split: option.splits)
  have "collected (redirects ts) (analyze_shell_command command)" by (rule analysis_facts(2)[OF assms(1) refl])
  then have c: "?c = \<lparr>sc_readOnly = (\<not> redirects ts \<and> list_all sc_readOnly cs),
      sc_localWrite = (redirects ts \<or> list_ex sc_localWrite cs), sc_network = list_ex sc_network cs,
      sc_destructive = list_ex sc_destructive cs, sc_protectedTarget = False\<rparr>"
    unfolding collected_def assms(2) by (simp only: Let_def)
  have kinds: "x = read_only_capabilities \<or> x = unknown_capabilities \<or> sc_localWrite x \<or> sc_network x \<or> sc_destructive x"
    if "x \<in> set cs" for x
    using that classified_effect unfolding assms(2) by auto
  have ro: "sc_readOnly read_only_capabilities" "\<not> sc_readOnly unknown_capabilities"
    "\<not> sc_localWrite unknown_capabilities" "\<not> sc_network unknown_capabilities" "\<not> sc_destructive unknown_capabilities"
    by (simp_all add: kind_defs)
  have "list_all sc_readOnly cs \<longleftrightarrow> (\<forall>c \<in> set cs. \<not> sc_localWrite c \<and> \<not> sc_network c \<and> \<not> sc_destructive c \<and> c \<noteq> unknown_capabilities)"
    using kinds ro classified_mutating unfolding assms(2) list_all_iff by fastforce
  then show ?thesis unfolding facts_def caps c shell_request_facts_def list_ex_iff
    by (simp split: if_split) blast
qed

section \<open>Witnesses\<close>

definition sample_host :: host where
  "sample_host = \<lparr>ho_realpath = Some, ho_canonical = id, ho_here = ''/w'', ho_home = ''/h''\<rparr>"

definition asking_policy :: execution_policy where
  "asking_policy = \<lparr>ep_executionProfile = Dev, ep_sandboxMode = Workspace_Write, ep_approvalPolicy = On_Request,
     ep_networkAccess = False, ep_workspaceRoot = ''/w'', ep_protectedPaths = [], ep_trustProjectInstructions = False\<rparr>"

definition sample_call :: call_context where
  "sample_call = \<lparr>cx_cwd = ''/w'', cx_goalId = ''g'', cx_trustBalance = 0, cx_hostPolicyApproved = None,
     cx_executionPolicy = Some asking_policy, cx_hostToolState = None, cx_runId = None, cx_turnId = None, cx_projectId = None,
     cx_sessionId = None, cx_conversationSessionId = None, cx_runtimeReplyTarget = None, cx_runtimeControlActor = None,
     cx_callId = None\<rparr>"

definition sample_tool :: "string \<Rightarrow> permission_level \<Rightarrow> tool" where
  "sample_tool n l = \<lparr>tl_name = n, tl_aliases = [], tl_permissionLevel = l, tl_isReadOnly = False, tl_isDestructive = False,
     tl_shouldDefer = False, tl_alwaysLoad = False, tl_requiresNetwork = None, tl_tags = [], tl_activityCategory = None,
     tl_gatewayExposure = None\<rparr>"

definition plain_manager :: permission_manager where
  "plain_manager = \<lparr>pm_denyList = [], pm_allowList = [], pm_ethicsGate = None\<rparr>"

definition command_input :: "string \<Rightarrow> json" where
  "command_input c = J_Object [(''command'', J_String c)]"

definition command_grants :: grant_table where
  "command_grants = [(''g1'', (new_grant (sample_grant_input Until_Goal_Done) Grant_Active 5)
     \<lparr>gr_capabilities := [Run_Safe_Local_Commands]\<rparr>)]"

definition answers :: "check_status \<Rightarrow> check_result result \<times> grant_table option \<Rightarrow> bool" where
  "answers st res \<longleftrightarrow> (case fst res of Inr r \<Rightarrow> ck_status r = st | Inl e \<Rightarrow> False)"

lemma answersE: "answers st res \<Longrightarrow> \<exists>r store. res = (Inr r, store) \<and> ck_status r = st"
  by (cases res) (auto simp: answers_def split: sum.splits)

lemma grant_allows_write:
  "answers Check_Allowed (permission_check plain_manager sample_host (sample_tool ''file_write'' Level_Write_Local) (J_Object [])
     sample_call 8 9 [] (Some (sample_grants Until_Goal_Done)))"
  by code_simp

lemma deploy_rides_along:
  "answers Check_Allowed (permission_check plain_manager sample_host (sample_tool ''shell'' Level_Execute)
     (command_input ''touch x && deploy'') sample_call 8 9 [] (Some command_grants))"
  "answers Check_Needs_Approval (permission_check plain_manager sample_host (sample_tool ''shell'' Level_Execute)
     (command_input ''deploy'') sample_call 8 9 [] (Some command_grants))"
  by code_simp+

theorem grant_answers_only_for_covered_calls_witness:
  "rf_excluded (classify_permission_grant_request sample_host (sample_tool ''file_write'' Level_Write_Local) (J_Object []) sample_call) = [] \<and>
   (\<exists>i g. table_get (sample_grants Until_Goal_Done) i = Some g \<and> is_permission_grant_currently_active g 8 \<and>
      set (rf_required (classify_permission_grant_request sample_host (sample_tool ''file_write'' Level_Write_Local) (J_Object []) sample_call))
        \<subseteq> set (gr_capabilities g))"
proof -
  obtain r store where *: "permission_check plain_manager sample_host (sample_tool ''file_write'' Level_Write_Local) (J_Object [])
     sample_call 8 9 [] (Some (sample_grants Until_Goal_Done)) = (Inr r, store)" "ck_status r = Check_Allowed"
    using answersE[OF grant_allows_write] by blast
  have "hd_status (decide_host_tool_execution sample_host (sample_tool ''file_write'' Level_Write_Local) (J_Object []) sample_call) = H_Needs_Permission"
    by code_simp
  then show ?thesis
    using grant_answers_only_for_covered_calls[OF * _ sample_grants_ok] by blast
qed

theorem refusals_are_final_witness:
  "\<exists>r. permission_check (add_deny_rule \<lparr>pr_toolName = Some ''shell'', pr_permissionLevel = None, pr_inputMatcher = None, pr_goalId = None\<rparr> plain_manager)
     sample_host (sample_tool ''shell'' Level_Execute) (command_input ''ls'') sample_call 8 9 [] (Some command_grants) = (Inr r, Some command_grants) \<and>
     ck_status r = Check_Denied"
  by (rule refusals_are_final)
    (simp add: add_deny_rule_def plain_manager_def rule_matches_def sample_tool_def truthy_def)

lemma command_grants_ok: "grant_table_ok command_grants"
  by (auto simp: grant_table_ok_def command_grants_def table_wf_def sample_grant_defs)

theorem shell_runs_unasked_only_if_harmless_witness:
  "\<not> sc_network (as_capabilities (assess_shell_command id ''/w'' ''touch x && deploy'' (Some asking_policy)
     (Some (sv_resolved (context_cwd sample_host None sample_call))))) \<and>
   (\<exists>i g. table_get command_grants i = Some g \<and> Run_Safe_Local_Commands \<in> set (gr_capabilities g) \<and>
      is_permission_grant_currently_active g 8)"
proof -
  obtain r store where *: "permission_check plain_manager sample_host (sample_tool ''shell'' Level_Execute)
     (command_input ''touch x && deploy'') sample_call 8 9 [] (Some command_grants) = (Inr r, store)" "ck_status r = Check_Allowed"
    using answersE[OF deploy_rides_along(1)] by blast
  have **: "cx_executionPolicy sample_call = Some asking_policy" "ep_approvalPolicy asking_policy \<noteq> Never"
    "cx_hostPolicyApproved sample_call \<noteq> Some True" "is_shell_tool (sample_tool ''shell'' Level_Execute)"
    "json_field (command_input ''touch x && deploy'') ''command'' = Some (J_String ''touch x && deploy'')"
    "json_field (command_input ''touch x && deploy'') ''cwd'' = None"
    by (simp_all add: sample_call_def asking_policy_def is_shell_tool_def sample_tool_def command_input_def)
  have "pred_option grant_table_ok (Some command_grants)" by (simp add: command_grants_ok)
  note harmless = shell_runs_unasked_only_if_harmless[OF * **(1-5) this, unfolded **(6)]
  have "\<not> (sc_readOnly (as_capabilities (assess_shell_command (ho_canonical sample_host) (ho_here sample_host) ''touch x && deploy''
      (Some asking_policy) (Some (sv_resolved (context_cwd sample_host None sample_call))))))"
    by code_simp
  with harmless show ?thesis by (auto simp: sample_host_def)
qed

end
