(* ===== verification/Capability_Plane.thy ===== *)
theory Capability_Plane
  imports Tool_Permission
begin

text \<open>
  The capability plane: \<open>src/runtime/capability-plane.ts\<close>, as far as it decides about tools: the
  descriptor that is made from a tool and the admission of a call by its descriptor.

  A descriptor is modelled with the fields that decide; its texts for users and operators, and the
  references for replays, are left out. \<open>digest\<close> is the SHA-256 prefix of a text, applied to the sorted
  JSON of a value.
\<close>

section \<open>Descriptors\<close>

datatype provider_kind =
  Builtin_Tool | Tool_Executor_Kind | Run_Adapter | Direct_Adapter | Native_Plugin | Foreign_Plugin | Mcp_Tool | Schedule_Tool
  | File_Tool | Gateway_Channel_Action | Runtime_Control_Action | Runtime_Tool | External_Action

datatype operation_kind = Op_Read | Op_Search | Op_Hint | Op_Prepare | Op_Send | Op_Write | Op_Publish | Op_Delete | Op_Mutate | Op_Run

datatype side_effect = Effect_None | Effect_Read | Effect_Send | Effect_Write | Effect_Publish | Effect_Delete | Effect_Mutate

datatype cost_risk = Cost_None | Cost_Low | Cost_Medium | Cost_High

datatype readiness_state = Proposal | Disabled | Configured | Verification_Required | Executable_Verified | Degraded | Blocked_State

datatype rollback_kind = Rollback_None | Rollback_Reversible | Rollback_Append_Only | Rollback_Manual | Rollback_Irreversible | Rollback_Unknown

datatype probe_kind =
  Probe_None | Manifest_Validation | Configuration_Validation | Operation_Specific_Smoke | Production_Caller_Path | Operator_Review

record authority_requirements =
  ar_approval_required :: bool
  ar_runtime_control_required :: bool
  ar_permission_level :: string
  ar_external_action_authority :: bool
  ar_required_refs :: "string list"

record verification_probe =
  vp_kind :: probe_kind
  vp_required :: bool
  vp_refs :: "string list"

record sandbox_requirement =
  sr_mode :: "sandbox_mode option"
  sr_network :: bool

record descriptor =
  cd_capability_id :: string
  cd_provider_kind :: provider_kind
  cd_provider_ref :: string
  cd_operation_kind :: operation_kind
  cd_authority_requirements :: authority_requirements
  cd_sandbox_requirement :: sandbox_requirement
  cd_cost_risk_class :: cost_risk
  cd_side_effect_profile :: side_effect
  cd_rollback_kind :: rollback_kind
  cd_rollback_steps :: "string list"
  cd_verification_probe :: verification_probe
  cd_readiness_state :: readiness_state
  cd_operation_ref :: string
  cd_tool_name :: "string option"

text \<open>\<open>sr_mode\<close> is \<open>None\<close> for the mode \<open>none\<close>; \<open>cd_tool_name\<close> is the property of the free metadata.\<close>

fun provider_name :: "provider_kind \<Rightarrow> string" where
  "provider_name Builtin_Tool = ''builtin_tool''"
| "provider_name Tool_Executor_Kind = ''tool_executor''"
| "provider_name Run_Adapter = ''run_adapter''"
| "provider_name Direct_Adapter = ''direct_adapter''"
| "provider_name Native_Plugin = ''native_plugin''"
| "provider_name Foreign_Plugin = ''foreign_plugin''"
| "provider_name Mcp_Tool = ''mcp_tool''"
| "provider_name Schedule_Tool = ''schedule_tool''"
| "provider_name File_Tool = ''file_tool''"
| "provider_name Gateway_Channel_Action = ''gateway_channel_action''"
| "provider_name Runtime_Control_Action = ''runtime_control_action''"
| "provider_name Runtime_Tool = ''runtime_tool''"
| "provider_name External_Action = ''external_action''"

fun operation_name :: "operation_kind \<Rightarrow> string" where
  "operation_name Op_Read = ''read''"
| "operation_name Op_Search = ''search''"
| "operation_name Op_Hint = ''hint''"
| "operation_name Op_Prepare = ''prepare''"
| "operation_name Op_Send = ''send''"
| "operation_name Op_Write = ''write''"
| "operation_name Op_Publish = ''publish''"
| "operation_name Op_Delete = ''delete''"
| "operation_name Op_Mutate = ''mutate''"
| "operation_name Op_Run = ''run''"

fun effect_name :: "side_effect \<Rightarrow> string" where
  "effect_name Effect_None = ''none''"
| "effect_name Effect_Read = ''read''"
| "effect_name Effect_Send = ''send''"
| "effect_name Effect_Write = ''write''"
| "effect_name Effect_Publish = ''publish''"
| "effect_name Effect_Delete = ''delete''"
| "effect_name Effect_Mutate = ''mutate''"

fun readiness_name :: "readiness_state \<Rightarrow> string" where
  "readiness_name Proposal = ''proposal''"
| "readiness_name Disabled = ''disabled''"
| "readiness_name Configured = ''configured''"
| "readiness_name Verification_Required = ''verification_required''"
| "readiness_name Executable_Verified = ''executable_verified''"
| "readiness_name Degraded = ''degraded''"
| "readiness_name Blocked_State = ''blocked''"

fun rollback_name :: "rollback_kind \<Rightarrow> string" where
  "rollback_name Rollback_None = ''none''"
| "rollback_name Rollback_Reversible = ''reversible''"
| "rollback_name Rollback_Append_Only = ''append_only''"
| "rollback_name Rollback_Manual = ''manual''"
| "rollback_name Rollback_Irreversible = ''irreversible''"
| "rollback_name Rollback_Unknown = ''unknown''"

fun probe_name :: "probe_kind \<Rightarrow> string" where
  "probe_name Probe_None = ''none''"
| "probe_name Manifest_Validation = ''manifest_validation''"
| "probe_name Configuration_Validation = ''configuration_validation''"
| "probe_name Operation_Specific_Smoke = ''operation_specific_smoke''"
| "probe_name Production_Caller_Path = ''production_caller_path''"
| "probe_name Operator_Review = ''operator_review''"

fun level_name :: "permission_level \<Rightarrow> string" where
  "level_name Level_Read_Only = ''read_only''"
| "level_name Level_Read_Metrics = ''read_metrics''"
| "level_name Level_Write_Local = ''write_local''"
| "level_name Level_Execute = ''execute''"
| "level_name Level_Write_Remote = ''write_remote''"

section \<open>The descriptor of a tool\<close>

definition has_tag :: "tool \<Rightarrow> string \<Rightarrow> bool" where
  "has_tag t tag \<longleftrightarrow> tag \<in> set (tl_tags t)"

definition is_runtime_control_tool :: "tool \<Rightarrow> bool" where
  "is_runtime_control_tool t \<longleftrightarrow> has_tag t ''runtime'' \<or> has_tag t ''runtime-control'' \<or> has_tag t ''runtime_control'' \<or>
     has_infix (tl_name t) ''runtime_control''"

definition provider_kind_for_tool :: "tool \<Rightarrow> provider_kind" where
  "provider_kind_for_tool t =
     (if tl_name t = ''run-adapter'' then Run_Adapter
      else if tl_name t = ''mcp_call_tool'' \<or> tl_name t = ''mcp_list_tools'' \<or> has_tag t ''mcp'' then Mcp_Tool
      else if has_tag t ''schedule'' then Schedule_Tool
      else if is_runtime_control_tool t then Runtime_Control_Action
      else if tl_permissionLevel t = Level_Write_Local \<or> has_tag t ''file'' \<or> has_infix (tl_name t) ''file'' \<or>
              tl_name t = ''read'' \<or> tl_name t = ''grep'' \<or> tl_name t = ''glob'' then File_Tool
      else if has_tag t ''gateway'' \<or> has_infix (tl_name t) ''notification'' \<or> has_infix (tl_name t) ''notify'' then Gateway_Channel_Action
      else if has_tag t ''plugin'' \<or> has_infix (tl_name t) ''plugin'' then Native_Plugin
      else Builtin_Tool)"

definition provider_ref_for_tool :: "tool \<Rightarrow> string" where
  "provider_ref_for_tool t = provider_name (provider_kind_for_tool t) @ '':'' @ tl_name t"

definition operation_by_level :: "tool \<Rightarrow> operation_kind" where
  "operation_by_level t =
     (if has_tag t ''schedule'' \<and> starts_with ''run_'' (tl_name t) then Op_Run
      else if has_tag t ''schedule'' \<and> tl_permissionLevel t \<noteq> Level_Read_Only then Op_Mutate
      else case tl_permissionLevel t of
             Level_Read_Only \<Rightarrow> Op_Read
           | Level_Read_Metrics \<Rightarrow> Op_Read
           | Level_Write_Local \<Rightarrow> Op_Write
           | Level_Execute \<Rightarrow> Op_Run
           | Level_Write_Remote \<Rightarrow> if has_tag t ''notifier'' then Op_Send else Op_Mutate)"

definition infer_operation_kind :: "tool \<Rightarrow> operation_kind" where
  "infer_operation_kind t = (case tl_activityCategory t of
     Some Act_Search \<Rightarrow> Op_Search
   | Some Act_Read \<Rightarrow> Op_Read
   | Some Act_Planning \<Rightarrow> Op_Prepare
   | Some Act_Approval \<Rightarrow> Op_Prepare
   | Some Act_File_Create \<Rightarrow> Op_Write
   | Some Act_File_Modify \<Rightarrow> Op_Write
   | Some Act_Command \<Rightarrow> Op_Run
   | Some Act_Test \<Rightarrow> Op_Run
   | None \<Rightarrow> operation_by_level t)"

definition infer_risk_class :: "tool \<Rightarrow> cost_risk" where
  "infer_risk_class t =
     (if tl_isDestructive t \<or> tl_permissionLevel t = Level_Execute \<or> tl_permissionLevel t = Level_Write_Remote then Cost_High
      else if tl_permissionLevel t = Level_Write_Local \<or> tl_permissionLevel t = Level_Read_Metrics then Cost_Medium
      else Cost_Low)"

definition infer_side_effect_profile :: "tool \<Rightarrow> operation_kind \<Rightarrow> side_effect" where
  "infer_side_effect_profile t k = (case k of
     Op_Hint \<Rightarrow> Effect_None
   | Op_Prepare \<Rightarrow> Effect_None
   | Op_Read \<Rightarrow> Effect_Read
   | Op_Search \<Rightarrow> Effect_Read
   | Op_Send \<Rightarrow> Effect_Send
   | Op_Write \<Rightarrow> Effect_Write
   | Op_Publish \<Rightarrow> Effect_Publish
   | Op_Delete \<Rightarrow> Effect_Delete
   | _ \<Rightarrow> if tl_permissionLevel t = Level_Write_Local then Effect_Write else Effect_Mutate)"

definition readiness_state_for_tool :: "tool \<Rightarrow> readiness_state" where
  "readiness_state_for_tool t =
     (if tl_name t = ''mcp_call_tool'' then Disabled
      else if tl_name t = ''toggle_plugin'' then Proposal
      else if provider_kind_for_tool t = Native_Plugin \<and> tl_name t \<noteq> ''get_plugins'' then Proposal
      else Executable_Verified)"

definition approval_required_for_tool :: "tool \<Rightarrow> side_effect \<Rightarrow> cost_risk \<Rightarrow> bool" where
  "approval_required_for_tool t e r \<longleftrightarrow> tl_isDestructive t \<or> r = Cost_High \<or> tl_permissionLevel t = Level_Read_Metrics \<or>
     (e \<noteq> Effect_None \<and> e \<noteq> Effect_Read)"

definition authority_refs_for_tool :: "tool \<Rightarrow> string list" where
  "authority_refs_for_tool t =
     [''descriptor:'' @ provider_name (provider_kind_for_tool t) @ '':'' @ tl_name t,
      ''permission:'' @ level_name (tl_permissionLevel t)] @
     (if tl_requiresNetwork t = Some True then [''permission:network''] else []) @
     (if tl_isDestructive t then [''approval:destructive-action''] else [])"

definition sandbox_requirement_for_tool :: "tool \<Rightarrow> sandbox_requirement" where
  "sandbox_requirement_for_tool t =
     (if tl_permissionLevel t = Level_Execute \<or> tl_permissionLevel t = Level_Write_Remote
      then \<lparr>sr_mode = Some Danger_Full_Access, sr_network = (tl_requiresNetwork t = Some True \<or> tl_permissionLevel t = Level_Write_Remote)\<rparr>
      else if tl_permissionLevel t = Level_Write_Local
      then \<lparr>sr_mode = Some Workspace_Write, sr_network = (tl_requiresNetwork t = Some True)\<rparr>
      else \<lparr>sr_mode = None, sr_network = (tl_requiresNetwork t = Some True)\<rparr>)"

definition rollback_plan_for_side_effect :: "side_effect \<Rightarrow> tool \<Rightarrow> rollback_kind \<times> string list" where
  "rollback_plan_for_side_effect e t =
     (if e = Effect_None \<or> e = Effect_Read then (Rollback_None, [''No mutation is expected.''])
      else if tl_isDestructive t \<or> e = Effect_Delete \<or> e = Effect_Publish \<or> e = Effect_Send
      then (if tl_isDestructive t \<or> e = Effect_Delete then Rollback_Irreversible else Rollback_Manual,
            [''Inspect the runtime event and RuntimeGraph refs for the exact side effect.'',
             ''Use provider-specific recovery or manual compensation if available.''])
      else (Rollback_Append_Only,
            [''Use the event-log idempotency key to identify the mutation.'',
             ''Apply the provider-specific reverse operation or create a correcting follow-up.'']))"

definition verification_probe_for_tool :: "tool \<Rightarrow> side_effect \<Rightarrow> readiness_state \<Rightarrow> verification_probe" where
  "verification_probe_for_tool t e s =
     (if s = Proposal \<or> s = Disabled
      then \<lparr>vp_kind = Operator_Review, vp_required = True, vp_refs = [''verification:'' @ tl_name t @ '':operator-review-required'']\<rparr>
      else if e = Effect_None \<or> e = Effect_Read
      then \<lparr>vp_kind = Production_Caller_Path, vp_required = False, vp_refs = [''verification:'' @ tl_name t @ '':read-path'']\<rparr>
      else \<lparr>vp_kind = Production_Caller_Path, vp_required = True, vp_refs = [''verification:'' @ tl_name t @ '':side-effect-path'']\<rparr>)"

definition descriptor_from_tool :: "tool \<Rightarrow> descriptor" where
  "descriptor_from_tool t =
     (let pk = provider_kind_for_tool t; k = infer_operation_kind t; e = infer_side_effect_profile t k;
          r = infer_risk_class t; s = readiness_state_for_tool t
      in \<lparr>cd_capability_id = ''capability:'' @ provider_name pk @ '':'' @ tl_name t, cd_provider_kind = pk,
          cd_provider_ref = provider_ref_for_tool t, cd_operation_kind = k,
          cd_authority_requirements =
            \<lparr>ar_approval_required = approval_required_for_tool t e r,
             ar_runtime_control_required = (pk = Runtime_Control_Action \<or> pk = Gateway_Channel_Action),
             ar_permission_level = level_name (tl_permissionLevel t),
             ar_external_action_authority = (e = Effect_Send \<or> e = Effect_Publish \<or> tl_permissionLevel t = Level_Write_Remote),
             ar_required_refs = authority_refs_for_tool t\<rparr>,
          cd_sandbox_requirement = sandbox_requirement_for_tool t, cd_cost_risk_class = r, cd_side_effect_profile = e,
          cd_rollback_kind = fst (rollback_plan_for_side_effect e t), cd_rollback_steps = snd (rollback_plan_for_side_effect e t),
          cd_verification_probe = verification_probe_for_tool t e s, cd_readiness_state = s,
          cd_operation_ref = ''operation:'' @ tl_name t @ '':'' @ operation_name k, cd_tool_name = Some (tl_name t)\<rparr>)"

section \<open>The registry of descriptors\<close>

record capability_registry =
  cr_descriptors :: "(string, descriptor) table"
  cr_toolNames :: "(string, string) table"

definition register_descriptor :: "descriptor \<Rightarrow> capability_registry \<Rightarrow> capability_registry" where
  "register_descriptor d r =
     r\<lparr>cr_descriptors := table_put (cd_capability_id d) d (cr_descriptors r),
       cr_toolNames := (if truthy (cd_tool_name d) then table_put (the (cd_tool_name d)) (cd_capability_id d) (cr_toolNames r)
                        else cr_toolNames r)\<rparr>"

definition get_descriptor :: "capability_registry \<Rightarrow> string \<Rightarrow> descriptor option" where
  "get_descriptor r i = table_get (cr_descriptors r) i"

definition get_by_tool_name :: "capability_registry \<Rightarrow> string \<Rightarrow> descriptor option" where
  "get_by_tool_name r n = (let i = table_get (cr_toolNames r) n in if truthy i then get_descriptor r (the i) else None)"

definition registry_from_tools :: "tool list \<Rightarrow> capability_registry" where
  "registry_from_tools ts = fold (\<lambda>t. register_descriptor (descriptor_from_tool t)) ts \<lparr>cr_descriptors = [], cr_toolNames = []\<rparr>"

section \<open>Admission\<close>

datatype admission_status = Admission_Allowed | Admission_Requires_Approval | Admission_Blocked

record admission =
  ad_status :: admission_status
  ad_descriptor :: "descriptor option"
  ad_fingerprint :: "string option"

record admission_context =
  ac_preApproved :: "bool option"
  ac_approvalFingerprint :: "string option"
  ac_authorityRefs :: "string list"
  ac_allowMissingAuthorityRefs :: bool
  ac_cwd :: string
  ac_goalId :: string
  ac_runId :: "string option"
  ac_sessionId :: "string option"
  ac_turnId :: "string option"
  ac_callId :: "string option"
  ac_stateEpoch :: "string option"

definition json_text :: "string option \<Rightarrow> json" where
  "json_text x = (case x of Some s \<Rightarrow> J_String s | None \<Rightarrow> J_Null)"

definition json_texts :: "string list \<Rightarrow> json" where
  "json_texts xs = J_Array (map J_String xs)"

definition fingerprint_value :: "descriptor \<Rightarrow> json \<Rightarrow> admission_context \<Rightarrow> json" where
  "fingerprint_value d input ac =
     (let ar = cd_authority_requirements d; p = cd_verification_probe d
      in J_Object
        [(''descriptor'', J_Object
           [(''capability_id'', J_String (cd_capability_id d)), (''provider_kind'', J_String (provider_name (cd_provider_kind d))),
            (''provider_ref'', J_String (cd_provider_ref d)), (''operation_kind'', J_String (operation_name (cd_operation_kind d))),
            (''side_effect_profile'', J_String (effect_name (cd_side_effect_profile d))),
            (''readiness_state'', J_String (readiness_name (cd_readiness_state d))),
            (''authority_requirements'', J_Object
               [(''descriptor_authority_required'', J_Bool True), (''approval_required'', J_Bool (ar_approval_required ar)),
                (''runtime_control_required'', J_Bool (ar_runtime_control_required ar)),
                (''permission_level'', J_String (ar_permission_level ar)),
                (''external_action_authority'', J_Bool (ar_external_action_authority ar)),
                (''required_refs'', json_texts (ar_required_refs ar))]),
            (''rollback_plan'', J_Object
               [(''kind'', J_String (rollback_name (cd_rollback_kind d))), (''steps'', json_texts (cd_rollback_steps d)),
                (''operator_visible'', J_Bool True)]),
            (''verification_probe'', J_Object
               [(''kind'', J_String (probe_name (vp_kind p))), (''required'', J_Bool (vp_required p)),
                (''refs'', json_texts (vp_refs p))])]),
         (''input'', input),
         (''context'', J_Object
           [(''cwd'', J_String (ac_cwd ac)), (''goal_id'', J_String (ac_goalId ac)), (''run_id'', json_text (ac_runId ac)),
            (''session_id'', json_text (ac_sessionId ac)), (''turn_id'', json_text (ac_turnId ac)),
            (''call_id'', json_text (ac_callId ac)), (''state_epoch'', json_text (ac_stateEpoch ac))])])"

definition fingerprint_capability_descriptor :: "(json \<Rightarrow> string) \<Rightarrow> descriptor \<Rightarrow> json \<Rightarrow> admission_context \<Rightarrow> string" where
  "fingerprint_capability_descriptor digest d input ac = digest (stable_json (fingerprint_value d input ac))"

definition admit_capability_descriptor :: "(json \<Rightarrow> string) \<Rightarrow> descriptor \<Rightarrow> json \<Rightarrow> admission_context \<Rightarrow> admission" where
  "admit_capability_descriptor digest d input ac =
     (let fp = fingerprint_capability_descriptor digest d input ac;
          out = (\<lambda>s. \<lparr>ad_status = s, ad_descriptor = Some d, ad_fingerprint = Some fp\<rparr>);
          ar = cd_authority_requirements d;
          missing = filter (\<lambda>r. r \<notin> set (ac_authorityRefs ac)) (ar_required_refs ar)
      in if cd_readiness_state d = Blocked_State \<or> cd_readiness_state d = Disabled \<or> cd_readiness_state d = Proposal
         then out Admission_Blocked
         else if cd_readiness_state d = Verification_Required \<or> cd_readiness_state d = Degraded then out Admission_Blocked
         else if truthy (ac_approvalFingerprint ac) \<and> ac_approvalFingerprint ac \<noteq> Some fp then out Admission_Blocked
         else if ar_required_refs ar \<noteq> [] \<and> \<not> ac_allowMissingAuthorityRefs ac \<and> missing \<noteq> []
         then (if ar_approval_required ar \<and> ac_preApproved ac \<noteq> Some True \<and> list_all (starts_with ''approval:'') missing
               then out Admission_Requires_Approval else out Admission_Blocked)
         else if ar_approval_required ar \<and> ac_preApproved ac \<noteq> Some True then out Admission_Requires_Approval
         else out Admission_Allowed)"

section \<open>Which tools require approval\<close>

text \<open>
  Approval is required exactly for the tools that are destructive, that execute, write remotely or
  read metrics, and for the others by what their activity category says: a category of writing, of
  commands or of tests requires it; a category of searching, reading, planning or approving
  does not, even for a tool that writes locally; without a category local writes and the
  schedule tools that run something require it.
\<close>
lemma approval_required_exactly:
  "ar_approval_required (cd_authority_requirements (descriptor_from_tool t)) \<longleftrightarrow>
     tl_isDestructive t \<or> tl_permissionLevel t \<in> {Level_Execute, Level_Write_Remote, Level_Read_Metrics} \<or>
     tl_activityCategory t \<in> Some ` {Act_File_Create, Act_File_Modify, Act_Command, Act_Test} \<or>
     (tl_activityCategory t = None \<and>
       (tl_permissionLevel t = Level_Write_Local \<or> (has_tag t ''schedule'' \<and> starts_with ''run_'' (tl_name t))))"
proof (cases "tl_isDestructive t \<or> tl_permissionLevel t \<in> {Level_Execute, Level_Write_Remote, Level_Read_Metrics}")
  case True
  then show ?thesis
    by (auto simp: descriptor_from_tool_def Let_def approval_required_for_tool_def infer_risk_class_def)
next
  case False
  then have "tl_permissionLevel t = Level_Read_Only \<or> tl_permissionLevel t = Level_Write_Local" "\<not> tl_isDestructive t"
    by (cases "tl_permissionLevel t"; simp)+
  then show ?thesis
  proof (cases "tl_activityCategory t")
    case None
    then show ?thesis
      using \<open>tl_permissionLevel t = _ \<or> _\<close> \<open>\<not> tl_isDestructive t\<close>
      by (auto simp: descriptor_from_tool_def Let_def approval_required_for_tool_def infer_risk_class_def infer_operation_kind_def
          operation_by_level_def infer_side_effect_profile_def)
  next
    case (Some c)
    then show ?thesis
      using \<open>tl_permissionLevel t = _ \<or> _\<close> \<open>\<not> tl_isDestructive t\<close>
      by (cases c) (auto simp: descriptor_from_tool_def Let_def approval_required_for_tool_def infer_risk_class_def infer_operation_kind_def
          infer_side_effect_profile_def)
  qed
qed

end
