(* ===== verification/Tool_Executor.thy ===== *)
theory Tool_Executor
  imports Capability_Plane Wait_Plans "HOL-Library.Countable_Set"
begin

text \<open>
  Running a tool: \<open>src/tools/executor.ts\<close>, with \<open>permission-wait-plan.ts\<close>. A call passes the capability
  plane, the host policy, the tool's own check, the permission manager, the final admission and the
  sanitizer before the tool is called.

  The tool itself (its schema, its check, its code), the user's answers and the clock are parameters.
  The stores of grants and of wait plans and the calls made are the state. Traces of decisions and
  authority events, the truncation of long outputs and the texts of results are left out; the texts
  that a wait plan quotes are parameters.
\<close>

section \<open>The parts around a call\<close>

datatype call_outcome = Call_Returned bool | Call_Threw string

record tool_code =
  tf_tool :: tool
  tf_parse :: "json \<Rightarrow> json option"
  tf_checkPermissions :: "json \<Rightarrow> call_context \<Rightarrow> check_status \<times> execution_reason option"
  tf_isConcurrencySafe :: "json \<Rightarrow> bool"
  tf_call :: "nat \<Rightarrow> json \<Rightarrow> call_context \<Rightarrow> call_outcome"

text \<open>
  \<open>tf_call n\<close> is the outcome of attempt \<open>n\<close>; a result is kept as its \<open>success\<close>. The mutable parts of a
  call context: the flags of an approved call, and the decision of the capability plane in it. A timeout, if there is one, is written as in the message.
\<close>

record run_context =
  rc_call :: call_context
  rc_preApproved :: "bool option"
  rc_dryRun :: bool
  rc_timeoutMs :: "string option"
  rc_admission :: "admission option"

record executor_state =
  xs_grants :: "grant_table option"
  xs_plans :: "wait_table option"
  xs_calls :: "(string \<times> json) list"

text \<open>
  What happens around a call. Question \<open>n\<close> is the first (0, asked by the permission gates) or the
  second (1, asked by the final admission) request for approval: the user's answer, what the broker
  and others do to the wait plans in the meantime, and the state of the host after it.
\<close>

record environment =
  en_manager :: permission_manager
  en_host :: host
  en_digest :: "json \<Rightarrow> string"
  en_now :: int
  en_later :: int
  en_between :: "grant_op list"
  en_answer :: "nat \<Rightarrow> bool"
  en_meanwhile :: "nat \<Rightarrow> wait_table \<Rightarrow> wait_table"
  en_hostState :: "nat \<Rightarrow> (string \<times> string option) option"
  en_uuid :: "nat \<Rightarrow> string"
  en_eventId :: "nat \<Rightarrow> string"
  en_hostReason :: "tool \<Rightarrow> json \<Rightarrow> call_context \<Rightarrow> string"
  en_grantReason :: "evaluation \<Rightarrow> string"
  en_admissionId :: "admission \<Rightarrow> string"
  en_aborted :: bool
  en_timesOut :: bool

section \<open>The plan of a waiting call\<close>

fun host_status_name :: "host_status \<Rightarrow> string" where
  "host_status_name H_Allowed = ''allowed''"
| "host_status_name H_Denied = ''denied''"
| "host_status_name H_Needs_Permission = ''needs_permission''"
| "host_status_name H_Needs_Sandbox = ''needs_sandbox''"
| "host_status_name H_Needs_Escalation = ''needs_escalation''"
| "host_status_name H_Fail_Closed = ''fail_closed''"

fun evaluation_name :: "evaluation_status \<Rightarrow> string" where
  "evaluation_name Matched = ''matched''"
| "evaluation_name Missing_Grant = ''missing_grant''"
| "evaluation_name Expired_Grant = ''expired_grant''"
| "evaluation_name Revoked_Grant = ''revoked_grant''"
| "evaluation_name Stale_Grant = ''stale_grant''"
| "evaluation_name Superseded_Grant = ''superseded_grant''"
| "evaluation_name Excluded_Call = ''excluded_capability''"
| "evaluation_name Unknown_Call = ''unknown_capability''"
| "evaluation_name Hard_Boundary = ''hard_boundary''"
| "evaluation_name Fresh_Approval_Required = ''fresh_approval_required''"

fun activity_name :: "activity_category \<Rightarrow> string" where
  "activity_name Act_Search = ''search''"
| "activity_name Act_Read = ''read''"
| "activity_name Act_Planning = ''planning''"
| "activity_name Act_Command = ''command''"
| "activity_name Act_File_Create = ''file_create''"
| "activity_name Act_File_Modify = ''file_modify''"
| "activity_name Act_Test = ''test''"
| "activity_name Act_Approval = ''approval''"

fun admission_name :: "admission_status \<Rightarrow> string" where
  "admission_name Admission_Allowed = ''allowed''"
| "admission_name Admission_Requires_Approval = ''requires_approval''"
| "admission_name Admission_Blocked = ''blocked''"

definition present :: "string option \<Rightarrow> string option" where
  "present x = (if truthy x then x else None)"

text \<open>\<open>hostToolState?.currentEpoch ?? hostToolState?.observedEpoch\<close>.\<close>

definition state_epoch :: "call_context \<Rightarrow> string option" where
  "state_epoch cx = map_option fst (cx_hostToolState cx)"

text \<open>
  The reason of a host decision is the one of the decision that the host takes for the call; a
  decision that is handed over was taken for the same call.
\<close>

definition build_permission_wait_canonical_plan ::
  "environment \<Rightarrow> tool \<Rightarrow> json \<Rightarrow> run_context \<Rightarrow> reversibility \<Rightarrow> host_decision option \<Rightarrow> evaluation option \<Rightarrow> canonical_plan" where
  "build_permission_wait_canonical_plan e t input rc rv policyDecision grantDecision =
     (let cx = rc_call rc;
          cwd = context_cwd (en_host e) (if is_json_object input then json_field input ''cwd'' else None) cx;
          d = nullish policyDecision (decide_host_tool_execution (en_host e) t input cx);
          cd = (case rc_admission rc of Some a \<Rightarrow> ad_descriptor a | None \<Rightarrow> None)
      in \<lparr>cp_tool_name = tl_name t, cp_input = Some input, cp_cwd = (if sv_valid cwd then sv_resolved cwd else cx_cwd cx),
          cp_command = (case text_field input ''command'' of Some c \<Rightarrow> if trim c \<noteq> [] then Some c else None | None \<Rightarrow> None),
          cp_target = \<lparr>pt_goal_id = Some (cx_goalId cx), pt_run_id = present (cx_runId cx), pt_session_id = present (cx_sessionId cx),
            pt_turn_id = present (cx_turnId cx), pt_tool_call_id = present (cx_callId cx)\<rparr>,
          cp_permission = \<lparr>pp_permission_level = level_name (tl_permissionLevel t), pp_is_destructive = tl_isDestructive t,
            pp_reversibility = rv\<rparr>,
          cp_state_epoch = present (state_epoch cx),
          cp_capability_facts =
            \<lparr>cf_tool_permission_level = level_name (tl_permissionLevel t), cf_tool_is_read_only = tl_isReadOnly t,
             cf_tool_is_destructive = tl_isDestructive t, cf_tool_requires_network = tl_requiresNetwork t,
             cf_tool_activity_category = map_option activity_name (tl_activityCategory t), cf_tool_tags = sort (tl_tags t),
             cf_capability_id = map_option cd_capability_id cd,
             cf_capability_provider_kind = map_option (\<lambda>d. provider_name (cd_provider_kind d)) cd,
             cf_capability_provider_ref = map_option cd_provider_ref cd,
             cf_capability_operation_kind = map_option (\<lambda>d. operation_name (cd_operation_kind d)) cd,
             cf_capability_side_effect_profile = map_option (\<lambda>d. effect_name (cd_side_effect_profile d)) cd,
             cf_capability_readiness_state = map_option (\<lambda>d. readiness_name (cd_readiness_state d)) cd,
             cf_capability_approval_fingerprint = present (case rc_admission rc of Some a \<Rightarrow> ad_fingerprint a | None \<Rightarrow> None),
             cf_capability_admission_id = map_option (en_admissionId e) (rc_admission rc),
             cf_capability_admission_status = map_option (\<lambda>a. admission_name (ad_status a)) (rc_admission rc),
             cf_host_decision_status = Some (host_status_name (hd_status d)),
             cf_host_decision_reason = Some (en_hostReason e t input cx),
             cf_permission_grant_status = map_option (\<lambda>ev. evaluation_name (ev_status ev)) grantDecision,
             cf_permission_grant_reason = present (map_option (en_grantReason e) grantDecision)\<rparr>\<rparr>)"

definition build_approved_tool_call_context :: "run_context \<Rightarrow> run_context" where
  "build_approved_tool_call_context rc =
     rc\<lparr>rc_preApproved := Some True, rc_call := (rc_call rc)\<lparr>cx_hostPolicyApproved := Some True\<rparr>\<rparr>"

section \<open>Asking for approval\<close>

datatype approval_outcome = Approved_Call run_context | Blocked_Call execution_reason | Approval_Threw js_error

definition asked_context :: "environment \<Rightarrow> nat \<Rightarrow> run_context \<Rightarrow> run_context" where
  "asked_context e n rc = rc\<lparr>rc_call := (rc_call rc)\<lparr>cx_hostToolState := en_hostState e n\<rparr>\<rparr>"

definition request_permission_approval ::
  "environment \<Rightarrow> nat \<Rightarrow> tool \<Rightarrow> json \<Rightarrow> run_context \<Rightarrow> reversibility \<Rightarrow> host_decision option \<Rightarrow> evaluation option \<Rightarrow>
   executor_state \<Rightarrow> approval_outcome \<times> executor_state" where
  "request_permission_approval e n t input rc rv policyDecision grantDecision w =
     (let plan = build_permission_wait_canonical_plan e t input rc rv policyDecision grantDecision;
          i = ''permission-wait:'' @ en_uuid e n;
          ref = ''tool:'' @ tl_name t @ '':'' @ nullish (cx_callId (rc_call rc)) i;
          rc' = asked_context e n rc
      in case xs_plans w of
           None \<Rightarrow> if en_answer e n then (Approved_Call (build_approved_tool_call_context rc'), w)
                   else (Blocked_Call Why_Approval_Denied, w)
         | Some plans \<Rightarrow>
             (case create_waiting \<lparr>wi_wait_plan_id = i, wi_approval_id = Some i, wi_goal_id = Some (cx_goalId (rc_call rc)),
                      wi_expires_at = None, wi_origin = None, wi_canonical_plan = plan, wi_audit_refs = Some [ref]\<rparr>
                      (en_now e) (en_eventId e (4 * n)) plans of
                (Inl err, plans1) \<Rightarrow> (Approval_Threw err, w\<lparr>xs_plans := Some plans1\<rparr>)
              | (Inr _, plans1) \<Rightarrow>
                  (let plans2 = en_meanwhile e n plans1 in
                   if \<not> en_answer e n
                   then (case mark_denied i \<lparr>rs_resolved_at = None, rs_response_channel = None, rs_reason = Some ''approval_denied'',
                             rs_audit_refs = Some [ref]\<rparr> (en_later e) (en_eventId e (4 * n + 1)) id plans2 of
                           (Inl err, plans3) \<Rightarrow> (Approval_Threw err, w\<lparr>xs_plans := Some plans3\<rparr>)
                         | (Inr _, plans3) \<Rightarrow> (Blocked_Call Why_Approval_Denied, w\<lparr>xs_plans := Some plans3\<rparr>))
                   else (case mark_approved i \<lparr>rs_resolved_at = None, rs_response_channel = None, rs_reason = None,
                             rs_audit_refs = Some [''approval:'' @ i, ref]\<rparr> (en_later e) (en_eventId e (4 * n + 2)) id plans2 of
                           (Inl err, plans3) \<Rightarrow> (Approval_Threw err, w\<lparr>xs_plans := Some plans3\<rparr>)
                         | (Inr _, plans3) \<Rightarrow>
                             (case resume_approved i (build_permission_wait_canonical_plan e t input rc' rv None grantDecision) None
                                     (Some [ref]) (en_later e) (en_later e) (en_eventId e (4 * n + 3)) id id plans3 of
                                (Inl err, plans4) \<Rightarrow> (Approval_Threw err, w\<lparr>xs_plans := Some plans4\<rparr>)
                              | (Inr (Resumed r), plans4) \<Rightarrow>
                                  (Approved_Call (build_approved_tool_call_context rc'), w\<lparr>xs_plans := Some plans4\<rparr>)
                              | (Inr (Rejected r reasons), plans4) \<Rightarrow> (Blocked_Call Why_Stale_State, w\<lparr>xs_plans := Some plans4\<rparr>)
                              | (Inr _, plans4) \<Rightarrow> (Blocked_Call Why_Approval_Denied, w\<lparr>xs_plans := Some plans4\<rparr>))))))"

section \<open>The gates\<close>

datatype tool_result =
  Not_Executed "execution_reason option"
| Dry_Run_Result
| Executed_Result bool
| Failed_Result "execution_reason option"
| Execute_Threw js_error

text \<open>
  \<open>Not_Executed\<close> carries the reason of a refusal (none for an input that the schema refuses),
  \<open>Executed_Result\<close> the success the tool reports, \<open>Failed_Result\<close> the reason of a failed execution.
\<close>

definition admission_context_of ::
  "run_context \<Rightarrow> bool option \<Rightarrow> string option \<Rightarrow> string list \<Rightarrow> bool \<Rightarrow> admission_context" where
  "admission_context_of rc approved fp refs allowMissing =
     (let cx = rc_call rc
      in \<lparr>ac_preApproved = approved, ac_approvalFingerprint = fp, ac_authorityRefs = refs, ac_allowMissingAuthorityRefs = allowMissing,
          ac_cwd = cx_cwd cx, ac_goalId = cx_goalId cx, ac_runId = cx_runId cx, ac_sessionId = cx_sessionId cx,
          ac_turnId = cx_turnId cx, ac_callId = cx_callId cx, ac_stateEpoch = state_epoch cx\<rparr>)"

definition admit_tool_execution :: "environment \<Rightarrow> capability_registry \<Rightarrow> tool \<Rightarrow> json \<Rightarrow> run_context \<Rightarrow> admission" where
  "admit_tool_execution e reg t input rc = (case get_by_tool_name reg (tl_name t) of
     None \<Rightarrow> \<lparr>ad_status = Admission_Blocked, ad_descriptor = None, ad_fingerprint = None\<rparr>
   | Some d \<Rightarrow> admit_capability_descriptor (en_digest e) d input
       (admission_context_of rc (rc_preApproved rc) None [] True))"

definition is_allowed_by_permission_grant :: "check_result \<Rightarrow> bool" where
  "is_allowed_by_permission_grant r \<longleftrightarrow> ck_status r = Check_Allowed \<and>
     (case ck_permissionGrantDecision r of Some ev \<Rightarrow> ev_allowed ev | None \<Rightarrow> False)"

definition is_allowed_by_host_policy :: "environment \<Rightarrow> tool \<Rightarrow> json \<Rightarrow> run_context \<Rightarrow> check_result \<Rightarrow> bool" where
  "is_allowed_by_host_policy e t input rc r \<longleftrightarrow> ck_status r = Check_Allowed \<and> cx_executionPolicy (rc_call rc) \<noteq> None \<and>
     hd_status (decide_host_tool_execution (en_host e) t input (rc_call rc)) = H_Allowed"

definition capability_authority_refs :: "tool \<Rightarrow> descriptor \<Rightarrow> check_result \<Rightarrow> bool \<Rightarrow> string list" where
  "capability_authority_refs t d r approved =
     [''descriptor:'' @ provider_name (cd_provider_kind d) @ '':'' @ tl_name t, ''permission:'' @ level_name (tl_permissionLevel t)] @
     (if tl_requiresNetwork t = Some True then [''permission:network''] else []) @
     (if tl_isDestructive t \<and> approved then [''approval:destructive-action''] else []) @
     (if is_allowed_by_permission_grant r then [''permission_grant:matched''] else [])"

fun reversibility_for_descriptor :: "descriptor \<Rightarrow> reversibility" where
  "reversibility_for_descriptor d = (case cd_rollback_kind d of
     Rollback_None \<Rightarrow> Reversible
   | Rollback_Reversible \<Rightarrow> Reversible
   | Rollback_Append_Only \<Rightarrow> Reversible
   | Rollback_Irreversible \<Rightarrow> Irreversible
   | _ \<Rightarrow> Reversibility_Unknown)"

datatype gate_outcome = Gate_Pass run_context check_result | Gate_Stop tool_result

definition ask :: "environment \<Rightarrow> nat \<Rightarrow> tool \<Rightarrow> json \<Rightarrow> run_context \<Rightarrow> reversibility \<Rightarrow> host_decision option \<Rightarrow> evaluation option \<Rightarrow>
   check_result \<Rightarrow> executor_state \<Rightarrow> gate_outcome \<times> executor_state" where
  "ask e n t input rc rv d g r w = (case request_permission_approval e n t input rc rv d g w of
     (Approved_Call rc', w') \<Rightarrow> (Gate_Pass rc' r, w')
   | (Blocked_Call why, w') \<Rightarrow> (Gate_Stop (Not_Executed (Some why)), w')
   | (Approval_Threw err, w') \<Rightarrow> (Gate_Stop (Execute_Threw err), w'))"

definition permission_gate ::
  "environment \<Rightarrow> tool \<Rightarrow> json \<Rightarrow> run_context \<Rightarrow> executor_state \<Rightarrow> gate_outcome \<times> executor_state" where
  "permission_gate e t input rc w =
     (case permission_check (en_manager e) (en_host e) t input (rc_call rc) (en_now e) (en_later e) (en_between e) (xs_grants w) of
        (Inl err, gs) \<Rightarrow> (Gate_Stop (Execute_Threw err), w\<lparr>xs_grants := gs\<rparr>)
      | (Inr r, gs) \<Rightarrow>
          (case ck_status r of
             Check_Denied \<Rightarrow> (Gate_Stop (Not_Executed (Some (nullish (ck_executionReason r) Why_Policy_Blocked))), w\<lparr>xs_grants := gs\<rparr>)
           | Check_Needs_Approval \<Rightarrow>
               ask e 0 t input rc Reversible (ck_policyDecision r) (ck_permissionGrantDecision r) r (w\<lparr>xs_grants := gs\<rparr>)
           | Check_Allowed \<Rightarrow> (Gate_Pass rc r, w\<lparr>xs_grants := gs\<rparr>)))"

text \<open>The tool's own check wants a confirmation: only a grant or the user can give it.\<close>

definition confirmation_gate ::
  "environment \<Rightarrow> tool \<Rightarrow> json \<Rightarrow> run_context \<Rightarrow> executor_state \<Rightarrow> gate_outcome \<times> executor_state" where
  "confirmation_gate e t input rc w =
     (case permission_check (en_manager e) (en_host e) t input (rc_call rc) (en_now e) (en_later e) (en_between e) (xs_grants w) of
        (Inl err, gs) \<Rightarrow> (Gate_Stop (Execute_Threw err), w\<lparr>xs_grants := gs\<rparr>)
      | (Inr r, gs) \<Rightarrow>
          if is_allowed_by_permission_grant r then (Gate_Pass rc r, w\<lparr>xs_grants := gs\<rparr>)
          else if ck_status r = Check_Denied
          then (Gate_Stop (Not_Executed (Some (nullish (ck_executionReason r) Why_Policy_Blocked))), w\<lparr>xs_grants := gs\<rparr>)
          else ask e 0 t input rc Reversibility_Unknown None (ck_permissionGrantDecision r) (checked Check_Allowed) (w\<lparr>xs_grants := gs\<rparr>))"

definition finalize_capability_plane_admission ::
  "environment \<Rightarrow> tool \<Rightarrow> json \<Rightarrow> run_context \<Rightarrow> check_result \<Rightarrow> executor_state \<Rightarrow> gate_outcome \<times> executor_state" where
  "finalize_capability_plane_admission e t input rc r w =
     (case rc_admission rc of
        None \<Rightarrow> (Gate_Pass rc r, w)
      | Some a0 \<Rightarrow>
     (case ad_descriptor a0 of
        None \<Rightarrow> (Gate_Pass rc r, w)
      | Some d \<Rightarrow>
          (let approved = (rc_preApproved rc = Some True \<or> is_allowed_by_permission_grant r \<or> is_allowed_by_host_policy e t input rc r);
               a = admit_capability_descriptor (en_digest e) d input
                     (admission_context_of rc (Some approved) (ad_fingerprint a0) (capability_authority_refs t d r approved) False);
               rc1 = rc\<lparr>rc_admission := Some a\<rparr>
           in case ad_status a of
                Admission_Blocked \<Rightarrow> (Gate_Stop (Not_Executed (Some Why_Policy_Blocked)), w)
              | Admission_Allowed \<Rightarrow> (Gate_Pass rc1 r, w)
              | Admission_Requires_Approval \<Rightarrow>
                  (case ask e 1 t input rc1 (reversibility_for_descriptor d) None None r w of
                     (Gate_Stop res, w') \<Rightarrow> (Gate_Stop res, w')
                   | (Gate_Pass rc2 _, w') \<Rightarrow>
                       (let a2 = admit_capability_descriptor (en_digest e) d input
                                   (admission_context_of rc2 (Some True) (ad_fingerprint a) (capability_authority_refs t d r True) False)
                        in if ad_status a2 = Admission_Allowed then (Gate_Pass (rc2\<lparr>rc_admission := Some a2\<rparr>) r, w')
                           else (Gate_Stop (Not_Executed (Some Why_Policy_Blocked)), w'))))))"

definition sanitize_input :: "environment \<Rightarrow> tool \<Rightarrow> json \<Rightarrow> run_context \<Rightarrow> bool" where
  "sanitize_input e t input rc \<longleftrightarrow>
     (case (tl_name t = ''shell'', text_field input ''command'') of
        (True, Some c) \<Rightarrow>
          as_status (assess_shell_command (ho_canonical (en_host e)) (ho_here (en_host e)) c (cx_executionPolicy (rc_call rc))
            (Some (cx_cwd (rc_call rc)))) \<noteq> Denied
      | _ \<Rightarrow> True)"

section \<open>The call\<close>

definition transient_patterns :: "string list" where
  "transient_patterns = [''ECONNRESET'', ''ETIMEDOUT'', ''ENOTFOUND'', ''fetch failed'', ''socket hang up'']"

definition is_transient :: "string \<Rightarrow> bool" where
  "is_transient msg \<longleftrightarrow> list_ex (has_infix msg) transient_patterns"

text \<open>The result of the attempts from \<open>attempt\<close> on, and how many were made.\<close>

function call_with_retry :: "(nat \<Rightarrow> call_outcome) \<Rightarrow> bool \<Rightarrow> bool \<Rightarrow> nat \<Rightarrow> tool_result \<times> nat" where
  "call_with_retry f isSafe aborted attempt =
     (if \<not> attempt < (if isSafe then 3 else 1) then (Failed_Result None, 0)
      else case f attempt of
             Call_Returned success \<Rightarrow> (Executed_Result success, 1)
           | Call_Threw msg \<Rightarrow>
               if \<not> isSafe \<or> \<not> is_transient msg \<or> attempt \<ge> 2
               then (Failed_Result (if aborted then Some Why_Interrupted else None), 1)
               else (case call_with_retry f isSafe aborted (Suc attempt) of (res, n) \<Rightarrow> (res, Suc n)))"
  by pat_completeness auto

termination by (relation "measure (\<lambda>(f, isSafe, aborted, attempt). 3 - attempt)") (auto split: if_splits)

declare call_with_retry.simps [simp del]

text \<open>A timeout ends the wait for the call and not the call: the attempts are still made.\<close>

definition run_tool :: "environment \<Rightarrow> tool_code \<Rightarrow> json \<Rightarrow> run_context \<Rightarrow> executor_state \<Rightarrow> tool_result \<times> executor_state" where
  "run_tool e tf input rc w =
     (if rc_dryRun rc then (Dry_Run_Result, w)
      else case call_with_retry (\<lambda>n. tf_call tf n input (rc_call rc)) (tf_isConcurrencySafe tf input) (en_aborted e) 0 of
             (res, n) \<Rightarrow>
               (if rc_timeoutMs rc \<noteq> None \<and> en_timesOut e
                then Execute_Threw (Thrown (''Tool call timed out after '' @ the (rc_timeoutMs rc) @ ''ms'')) else res,
                w\<lparr>xs_calls := xs_calls w @ replicate n (tl_name (tf_tool tf), input)\<rparr>))"

definition check_host_policy_preflight :: "environment \<Rightarrow> tool \<Rightarrow> json \<Rightarrow> run_context \<Rightarrow> tool_result option" where
  "check_host_policy_preflight e t input rc =
     (let d = decide_host_tool_execution (en_host e) t input (rc_call rc) in
      if hd_status d = H_Allowed \<or> hd_status d = H_Needs_Permission then None
      else Some (Not_Executed (Some (nullish (hd_executionReason d) Why_Policy_Blocked))))"

text \<open>\<open>execute\<close>, for a tool of the registry; for a name without a tool the result is \<open>policy_blocked\<close>.\<close>

definition execute ::
  "environment \<Rightarrow> capability_registry \<Rightarrow> tool_code option \<Rightarrow> json \<Rightarrow> run_context \<Rightarrow> executor_state \<Rightarrow> tool_result \<times> executor_state" where
  "execute e reg found raw rc w = (case found of
     None \<Rightarrow> (Not_Executed (Some Why_Policy_Blocked), w)
   | Some tf \<Rightarrow>
     (case tf_parse tf raw of
        None \<Rightarrow> (Not_Executed None, w)
      | Some input \<Rightarrow>
          (let t = tf_tool tf; a = admit_tool_execution e reg t input rc; rc1 = rc\<lparr>rc_admission := Some a\<rparr> in
           if ad_status a = Admission_Blocked then (Not_Executed (Some Why_Policy_Blocked), w)
           else case check_host_policy_preflight e t input rc1 of
                  Some res \<Rightarrow> (res, w)
                | None \<Rightarrow>
                    (case tf_checkPermissions tf input (rc_call rc1) of
                       (Check_Denied, why) \<Rightarrow> (Not_Executed (Some (nullish why Why_Permission_Denied)), w)
                     | (st, why) \<Rightarrow>
                         (case (if st = Check_Needs_Approval then confirmation_gate e t input rc1 w else permission_gate e t input rc1 w) of
                            (Gate_Stop res, w1) \<Rightarrow> (res, w1)
                          | (Gate_Pass rc2 r, w1) \<Rightarrow>
                              (case finalize_capability_plane_admission e t input rc2 r w1 of
                                 (Gate_Stop res, w2) \<Rightarrow> (res, w2)
                               | (Gate_Pass rc3 _, w2) \<Rightarrow>
                                   if \<not> sanitize_input e t input rc3 then (Not_Executed (Some Why_Policy_Blocked), w2)
                                   else run_tool e tf input rc3 w2))))))"

section \<open>What the gates let through\<close>

lemma request_approved:
  "request_permission_approval e n t input rc rv d g w = (out, w') \<Longrightarrow>
   xs_calls w' = xs_calls w \<and>
   (\<forall>rc'. out = Approved_Call rc' \<longrightarrow> en_answer e n \<and> rc' = build_approved_tool_call_context (asked_context e n rc))"
  by (auto simp: request_permission_approval_def Let_def split: option.splits prod.splits sum.splits if_splits resume_result.splits)

lemma ask_passes:
  assumes "ask e n t input rc rv d g r w = (out, w')"
  shows "xs_calls w' = xs_calls w"
    "out = Gate_Pass rc' r' \<Longrightarrow> en_answer e n \<and> r' = r \<and> rc' = build_approved_tool_call_context (asked_context e n rc)"
proof -
  obtain o1 w1 where req: "request_permission_approval e n t input rc rv d g w = (o1, w1)" by fastforce
  note * = request_approved[OF req]
  show "xs_calls w' = xs_calls w" using assms * by (auto simp: ask_def req split: approval_outcome.splits)
  show "out = Gate_Pass rc' r' \<Longrightarrow> en_answer e n \<and> r' = r \<and> rc' = build_approved_tool_call_context (asked_context e n rc)"
    using assms * by (auto simp: ask_def req split: approval_outcome.splits)
qed

text \<open>The check that both gates make, and what a gate that passes has found out.\<close>

abbreviation checked_by :: "environment \<Rightarrow> tool \<Rightarrow> json \<Rightarrow> run_context \<Rightarrow> executor_state \<Rightarrow> check_result result \<times> grant_table option" where
  "checked_by e t input rc w \<equiv>
     permission_check (en_manager e) (en_host e) t input (rc_call rc) (en_now e) (en_later e) (en_between e) (xs_grants w)"

definition gate_facts :: "environment \<Rightarrow> tool \<Rightarrow> json \<Rightarrow> run_context \<Rightarrow> executor_state \<Rightarrow> bool \<Rightarrow> run_context \<Rightarrow> check_result \<Rightarrow> bool" where
  "gate_facts e t input rc w confirm rc' r \<longleftrightarrow>
     (\<exists>r0 gs. checked_by e t input rc w = (Inr r0, gs) \<and> ck_status r0 \<noteq> Check_Denied \<and>
        (rc' = rc \<and> r = r0 \<and> ck_status r0 = Check_Allowed \<and> (confirm \<longrightarrow> is_allowed_by_permission_grant r0) \<or>
         en_answer e 0 \<and> rc' = build_approved_tool_call_context (asked_context e 0 rc)))"

lemma gate_passes:
  assumes "(if confirm then confirmation_gate e t input rc w else permission_gate e t input rc w) = (out, w')"
  shows "xs_calls w' = xs_calls w" "out = Gate_Pass rc' r \<Longrightarrow> gate_facts e t input rc w confirm rc' r"
proof -
  obtain res gs where c: "checked_by e t input rc w = (res, gs)" by fastforce
  show "xs_calls w' = xs_calls w"
    using assms c by (cases confirm)
      (auto simp: confirmation_gate_def permission_gate_def dest: ask_passes(1) split: sum.splits if_splits check_status.splits)
  show "gate_facts e t input rc w confirm rc' r" if "out = Gate_Pass rc' r"
    using assms c that by (cases confirm)
      (auto simp: confirmation_gate_def permission_gate_def gate_facts_def is_allowed_by_permission_grant_def
        dest: ask_passes(2) split: sum.splits if_splits check_status.splits)
qed

definition ready :: "descriptor \<Rightarrow> bool" where
  "ready d \<longleftrightarrow> cd_readiness_state d = Configured \<or> cd_readiness_state d = Executable_Verified"

text \<open>Admission, written out.\<close>

lemma admission_fields [simp]:
  "ad_descriptor (admit_capability_descriptor digest d input ac) = Some d"
  "ad_fingerprint (admit_capability_descriptor digest d input ac) = Some (fingerprint_capability_descriptor digest d input ac)"
  by (simp_all add: admit_capability_descriptor_def Let_def)

lemma admission_cases:
  fixes d :: descriptor and ac :: admission_context
  defines "ar \<equiv> cd_authority_requirements d"
  shows "ad_status (admit_capability_descriptor digest d input ac) =
    (if \<not> ready d then Admission_Blocked
     else if truthy (ac_approvalFingerprint ac) \<and>
             ac_approvalFingerprint ac \<noteq> Some (fingerprint_capability_descriptor digest d input ac) then Admission_Blocked
     else if \<not> ac_allowMissingAuthorityRefs ac \<and> \<not> set (ar_required_refs ar) \<subseteq> set (ac_authorityRefs ac)
     then (if ar_approval_required ar \<and> ac_preApproved ac \<noteq> Some True \<and>
              (\<forall>r \<in> set (ar_required_refs ar) - set (ac_authorityRefs ac). starts_with ''approval:'' r)
           then Admission_Requires_Approval else Admission_Blocked)
     else if ar_approval_required ar \<and> ac_preApproved ac \<noteq> Some True then Admission_Requires_Approval
     else Admission_Allowed)"
proof -
  have sub: "filter (\<lambda>r. r \<notin> set (ac_authorityRefs ac)) (ar_required_refs ar) \<noteq> [] \<longleftrightarrow>
      \<not> set (ar_required_refs ar) \<subseteq> set (ac_authorityRefs ac)"
    by (auto simp: filter_empty_conv)
  have all: "list_all (starts_with ''approval:'') (filter (\<lambda>r. r \<notin> set (ac_authorityRefs ac)) (ar_required_refs ar)) \<longleftrightarrow>
      (\<forall>r \<in> set (ar_required_refs ar) - set (ac_authorityRefs ac). starts_with ''approval:'' r)"
    by (auto simp: list_all_iff)
  have empty: "ar_required_refs ar \<noteq> []" if "\<not> set (ar_required_refs ar) \<subseteq> set (ac_authorityRefs ac)" using that by auto
  have states: "\<not> ready d \<longleftrightarrow> cd_readiness_state d = Blocked_State \<or> cd_readiness_state d = Disabled \<or> cd_readiness_state d = Proposal \<or>
      cd_readiness_state d = Verification_Required \<or> cd_readiness_state d = Degraded"
    by (cases "cd_readiness_state d") (simp_all add: ready_def)
  show ?thesis
  proof (cases "ready d")
    case False
    then show ?thesis by (cases "cd_readiness_state d") (simp_all add: admit_capability_descriptor_def Let_def ready_def)
  next
    case True
    then have "cd_readiness_state d \<noteq> Blocked_State" "cd_readiness_state d \<noteq> Disabled" "cd_readiness_state d \<noteq> Proposal"
        "cd_readiness_state d \<noteq> Verification_Required" "cd_readiness_state d \<noteq> Degraded"
      using states by blast+
    with True show ?thesis
      unfolding admit_capability_descriptor_def Let_def ar_def[symmetric] sub all
      using empty by (cases "set (ar_required_refs ar) \<subseteq> set (ac_authorityRefs ac)") simp_all
  qed
qed

lemma admission_allowed:
  "ad_status (admit_capability_descriptor digest d input ac) = Admission_Allowed \<Longrightarrow>
   ar_approval_required (cd_authority_requirements d) \<Longrightarrow> ac_preApproved ac = Some True"
  by (auto simp: admission_cases split: if_splits)

lemma admission_not_blocked:
  "ad_status (admit_capability_descriptor digest d input ac) \<noteq> Admission_Blocked \<Longrightarrow>
   ready d \<and> (truthy (ac_approvalFingerprint ac) \<longrightarrow>
     ac_approvalFingerprint ac = Some (fingerprint_capability_descriptor digest d input ac))"
  by (auto simp: admission_cases split: if_splits)

lemma finalize_passes:
  assumes "finalize_capability_plane_admission e t input rc r w = (out, w')" "rc_admission rc = Some a0" "ad_descriptor a0 = Some d"
  shows "xs_calls w' = xs_calls w"
    "out = Gate_Pass rc' r' \<Longrightarrow> ar_approval_required (cd_authority_requirements d) \<Longrightarrow>
       rc_preApproved rc = Some True \<or> is_allowed_by_permission_grant r \<or> is_allowed_by_host_policy e t input rc r \<or> en_answer e 1"
    "out = Gate_Pass rc' r' \<Longrightarrow> rc_dryRun rc' = rc_dryRun rc"
proof -
  let ?ok = "rc_preApproved rc = Some True \<or> is_allowed_by_permission_grant r \<or> is_allowed_by_host_policy e t input rc r"
  let ?a = "admit_capability_descriptor (en_digest e) d input
      (admission_context_of rc (Some ?ok) (ad_fingerprint a0) (capability_authority_refs t d r ?ok) False)"
  obtain o1 w1 where asked: "ask e 1 t input (rc\<lparr>rc_admission := Some ?a\<rparr>) (reversibility_for_descriptor d) None None r w = (o1, w1)"
    by fastforce
  note fin = assms(1)[unfolded finalize_capability_plane_admission_def assms(2,3) option.case Let_def asked prod.case]
  have cases: "ad_status ?a = Admission_Blocked \<and> out = Gate_Stop (Not_Executed (Some Why_Policy_Blocked)) \<and> w' = w \<or>
      ad_status ?a = Admission_Allowed \<and> out = Gate_Pass (rc\<lparr>rc_admission := Some ?a\<rparr>) r \<and> w' = w \<or>
      ad_status ?a = Admission_Requires_Approval \<and> w' = w1 \<and>
        (\<forall>rc' r'. out = Gate_Pass rc' r' \<longrightarrow> (\<exists>rc2 r2 a2. o1 = Gate_Pass rc2 r2 \<and> rc' = rc2\<lparr>rc_admission := Some a2\<rparr>))"
    using fin by (cases "ad_status ?a"; cases o1) (auto split: if_splits)
  show "xs_calls w' = xs_calls w" using cases ask_passes(1)[OF asked] by blast
  show "rc_preApproved rc = Some True \<or> is_allowed_by_permission_grant r \<or> is_allowed_by_host_policy e t input rc r \<or> en_answer e 1"
    if "out = Gate_Pass rc' r'" "ar_approval_required (cd_authority_requirements d)"
    using cases
  proof (elim disjE conjE)
    assume "ad_status ?a = Admission_Allowed"
    from admission_allowed[OF this that(2)] show ?thesis by (auto simp: admission_context_of_def Let_def)
  next
    assume "\<forall>rc' r'. out = Gate_Pass rc' r' \<longrightarrow> (\<exists>rc2 r2 a2. o1 = Gate_Pass rc2 r2 \<and> rc' = rc2\<lparr>rc_admission := Some a2\<rparr>)"
    then show ?thesis using that(1) ask_passes(2)[OF asked] by blast
  qed (use that(1) in simp)
  show "rc_dryRun rc' = rc_dryRun rc" if pass: "out = Gate_Pass rc' r'"
    using cases
  proof (elim disjE conjE)
    assume "\<forall>rc' r'. out = Gate_Pass rc' r' \<longrightarrow> (\<exists>rc2 r2 a2. o1 = Gate_Pass rc2 r2 \<and> rc' = rc2\<lparr>rc_admission := Some a2\<rparr>)"
    then obtain rc2 r2 a2 where "o1 = Gate_Pass rc2 r2" "rc' = rc2\<lparr>rc_admission := Some a2\<rparr>" using pass by blast
    then show ?thesis using ask_passes(2)[OF asked]
      by (simp add: build_approved_tool_call_context_def asked_context_def)
  qed (use pass in simp_all)
qed

lemma call_with_retry_count: "snd (call_with_retry f isSafe aborted n) \<le> (if isSafe then 3 else 1) - n"
proof (induction f isSafe aborted n rule: call_with_retry.induct)
  case (1 f isSafe aborted attempt)
  show ?case
    using 1 by (subst call_with_retry.simps) (auto split: call_outcome.split prod.split if_splits; fastforce)
qed

section \<open>Which calls are made\<close>

lemma run_tool_calls:
  assumes "run_tool e tf input rc w = (res, w')"
  shows "\<exists>n. xs_calls w' = xs_calls w @ replicate n (tl_name (tf_tool tf), input) \<and>
     n \<le> (if tf_isConcurrencySafe tf input then 3 else 1) \<and> (rc_dryRun rc \<longrightarrow> n = 0)"
proof (cases "rc_dryRun rc")
  case True
  then show ?thesis using assms by (auto simp: run_tool_def intro!: exI[of _ 0])
next
  case False
  let ?c = "call_with_retry (\<lambda>n. tf_call tf n input (rc_call rc)) (tf_isConcurrencySafe tf input) (en_aborted e) 0"
  have "w' = w\<lparr>xs_calls := xs_calls w @ replicate (snd ?c) (tl_name (tf_tool tf), input)\<rparr>"
    using assms False by (auto simp: run_tool_def split: prod.splits)
  then show ?thesis
    using False call_with_retry_count[of "\<lambda>n. tf_call tf n input (rc_call rc)" "tf_isConcurrencySafe tf input" "en_aborted e" 0]
    by (intro exI[of _ "snd ?c"]) simp
qed

text \<open>A call that is made has passed every gate.\<close>

definition passed_gates ::
  "environment \<Rightarrow> capability_registry \<Rightarrow> tool_code \<Rightarrow> json \<Rightarrow> run_context \<Rightarrow> executor_state \<Rightarrow>
   run_context \<Rightarrow> check_result \<Rightarrow> run_context \<Rightarrow> executor_state \<Rightarrow> executor_state \<Rightarrow> bool" where
  "passed_gates e reg tf input rc w rc2 r rc3 w1 w2 \<longleftrightarrow>
     (let t = tf_tool tf; a = admit_tool_execution e reg t input rc; rc1 = rc\<lparr>rc_admission := Some a\<rparr>;
          confirm = (fst (tf_checkPermissions tf input (rc_call rc)) = Check_Needs_Approval) in
      ad_status a \<noteq> Admission_Blocked \<and> check_host_policy_preflight e t input rc1 = None \<and>
      fst (tf_checkPermissions tf input (rc_call rc)) \<noteq> Check_Denied \<and>
      (if confirm then confirmation_gate e t input rc1 w else permission_gate e t input rc1 w) = (Gate_Pass rc2 r, w1) \<and>
      (\<exists>r3. finalize_capability_plane_admission e t input rc2 r w1 = (Gate_Pass rc3 r3, w2)) \<and>
      sanitize_input e t input rc3)"

lemma finalize_calls:
  assumes "finalize_capability_plane_admission e t input rc r w = (out, w')"
  shows "xs_calls w' = xs_calls w"
proof (cases "case rc_admission rc of Some a \<Rightarrow> ad_descriptor a | None \<Rightarrow> None")
  case None
  then show ?thesis using assms by (auto simp: finalize_capability_plane_admission_def split: option.splits)
next
  case (Some d)
  then obtain a0 where "rc_admission rc = Some a0" "ad_descriptor a0 = Some d" by (auto split: option.splits)
  from finalize_passes(1)[OF assms this] show ?thesis .
qed

lemma execute_cases:
  assumes "execute e reg (Some tf) raw rc w = (res, w')"
  shows "xs_calls w' = xs_calls w \<or>
    (\<exists>input rc2 r rc3 w1 w2. tf_parse tf raw = Some input \<and> passed_gates e reg tf input rc w rc2 r rc3 w1 w2 \<and>
       run_tool e tf input rc3 w2 = (res, w'))"
proof (cases "tf_parse tf raw")
  case None
  then show ?thesis using assms by (simp add: execute_def)
next
  case (Some input)
  let ?t = "tf_tool tf"
  let ?a = "admit_tool_execution e reg ?t input rc"
  let ?rc1 = "rc\<lparr>rc_admission := Some ?a\<rparr>"
  obtain st why where own: "tf_checkPermissions tf input (rc_call rc) = (st, why)" by fastforce
  define confirm where "confirm = (st = Check_Needs_Approval)"
  obtain o1 w1 where gate: "(if confirm then confirmation_gate e ?t input ?rc1 w else permission_gate e ?t input ?rc1 w) = (o1, w1)"
    by fastforce
  note calls1 = gate_passes(1)[OF gate]
  show ?thesis
  proof (cases "ad_status ?a = Admission_Blocked \<or> check_host_policy_preflight e ?t input ?rc1 \<noteq> None \<or> st = Check_Denied")
    case True
    then show ?thesis using assms own by (auto simp: execute_def Some Let_def split: if_splits option.splits)
  next
    case False
    then have rest: "(case o1 of Gate_Stop res \<Rightarrow> (res, w1)
        | Gate_Pass rc2 r \<Rightarrow> (case finalize_capability_plane_admission e ?t input rc2 r w1 of
             (Gate_Stop res, w2) \<Rightarrow> (res, w2)
           | (Gate_Pass rc3 _, w2) \<Rightarrow> if \<not> sanitize_input e ?t input rc3 then (Not_Executed (Some Why_Policy_Blocked), w2)
                                     else run_tool e tf input rc3 w2)) = (res, w')"
      using assms own gate by (cases st) (simp_all add: execute_def Some Let_def confirm_def)
    show ?thesis
    proof (cases o1)
      case (Gate_Stop res1)
      then show ?thesis using rest calls1 by simp
    next
      case (Gate_Pass rc2 r)
      obtain o2 w2 where fin: "finalize_capability_plane_admission e ?t input rc2 r w1 = (o2, w2)" by fastforce
      note calls2 = finalize_calls[OF fin]
      show ?thesis
      proof (cases o2)
        case (Gate_Stop res2)
        then show ?thesis using rest Gate_Pass fin calls1 calls2 by simp
      next
        case (Gate_Pass rc3 r3)
        show ?thesis
        proof (cases "sanitize_input e ?t input rc3")
          case True
          have "passed_gates e reg tf input rc w rc2 r rc3 w1 w2"
            using False own gate fin \<open>o1 = Gate_Pass rc2 r\<close> Gate_Pass True by (simp add: passed_gates_def Let_def confirm_def)
          moreover have "run_tool e tf input rc3 w2 = (res, w')"
            using rest \<open>o1 = Gate_Pass rc2 r\<close> fin Gate_Pass True by simp
          ultimately show ?thesis using Some by blast
        next
          case False
          then show ?thesis using rest \<open>o1 = Gate_Pass rc2 r\<close> fin Gate_Pass calls1 calls2 by simp
        qed
      qed
    qed
  qed
qed

lemma passed_gates_calls:
  "passed_gates e reg tf input rc w rc2 r rc3 w1 w2 \<Longrightarrow> xs_calls w2 = xs_calls w"
  unfolding passed_gates_def Let_def using finalize_calls gate_passes(1) by metis

lemma passed_gates_admission:
  assumes "passed_gates e reg tf input rc w rc2 r rc3 w1 w2"
  shows "\<exists>d. get_by_tool_name reg (tl_name (tf_tool tf)) = Some d \<and> ready d \<and>
     ad_descriptor (admit_tool_execution e reg (tf_tool tf) input rc) = Some d"
  using assms
  by (auto simp: passed_gates_def Let_def admit_tool_execution_def dest: admission_not_blocked split: option.splits)

lemma gate_facts_context:
  assumes "gate_facts e t input rc w confirm rc' r"
  shows "rc_dryRun rc' = rc_dryRun rc" "rc_admission rc' = rc_admission rc"
    "en_answer e 0 \<or> rc' = rc \<and> (\<exists>gs. checked_by e t input rc w = (Inr r, gs)) \<and> ck_status r = Check_Allowed \<and>
       (confirm \<longrightarrow> is_allowed_by_permission_grant r)"
  using assms by (auto simp: gate_facts_def build_approved_tool_call_context_def asked_context_def)

text \<open>
  C2. A tool is called only when every gate lets the call through. If \<open>execute\<close> has called the tool, then
  the input was accepted by the schema and all calls are of this tool with this input (three attempts
  at most, one for a tool that is not safe to repeat), the call is no dry run, the capability of the
  tool is known and ready, the host has not refused it, the tool's own check has not denied it, no deny
  rule matches it, the permission manager has allowed it or the user has approved it, a confirmation
  that the tool's own check asked for came from a grant or from the user, and a capability that
  requires approval has it from the caller, a grant, the host policy or the user.
\<close>
theorem tool_runs_only_if_admitted:
  assumes "execute e reg (Some tf) raw rc w = (res, w')" "xs_calls w' \<noteq> xs_calls w"
  shows "\<exists>input n d r gs. tf_parse tf raw = Some input \<and>
    xs_calls w' = xs_calls w @ replicate n (tl_name (tf_tool tf), input) \<and>
    n \<le> (if tf_isConcurrencySafe tf input then 3 else 1) \<and> \<not> rc_dryRun rc \<and>
    get_by_tool_name reg (tl_name (tf_tool tf)) = Some d \<and> ready d \<and>
    hd_status (decide_host_tool_execution (en_host e) (tf_tool tf) input (rc_call rc)) \<in> {H_Allowed, H_Needs_Permission} \<and>
    fst (tf_checkPermissions tf input (rc_call rc)) \<noteq> Check_Denied \<and>
    (\<forall>rule \<in> set (pm_denyList (en_manager e)). \<not> rule_matches rule (tf_tool tf) input (rc_call rc)) \<and>
    permission_check (en_manager e) (en_host e) (tf_tool tf) input (rc_call rc) (en_now e) (en_later e) (en_between e) (xs_grants w)
      = (Inr r, gs) \<and>
    (en_answer e 0 \<or> ck_status r = Check_Allowed \<and>
       (fst (tf_checkPermissions tf input (rc_call rc)) = Check_Needs_Approval \<longrightarrow> is_allowed_by_permission_grant r)) \<and>
    (ar_approval_required (cd_authority_requirements d) \<longrightarrow>
       rc_preApproved rc = Some True \<or> is_allowed_by_permission_grant r \<or>
       is_allowed_by_host_policy e (tf_tool tf) input rc r \<or> en_answer e 0 \<or> en_answer e 1)"
proof -
  let ?t = "tf_tool tf"
  from execute_cases[OF assms(1)] assms(2) obtain input rc2 r2 rc3 w1 w2 where
    parse: "tf_parse tf raw = Some input" and gates: "passed_gates e reg tf input rc w rc2 r2 rc3 w1 w2" and
    run: "run_tool e tf input rc3 w2 = (res, w')" by blast
  let ?a = "admit_tool_execution e reg ?t input rc" and ?own = "fst (tf_checkPermissions tf input (rc_call rc))"
  let ?rc1 = "rc\<lparr>rc_admission := Some ?a\<rparr>" and ?confirm = "?own = Check_Needs_Approval"
  from gates obtain r3 where
    gate: "(if ?confirm then confirmation_gate e ?t input ?rc1 w else permission_gate e ?t input ?rc1 w) = (Gate_Pass rc2 r2, w1)" and
    fin: "finalize_capability_plane_admission e ?t input rc2 r2 w1 = (Gate_Pass rc3 r3, w2)" and
    own: "?own \<noteq> Check_Denied" and host: "check_host_policy_preflight e ?t input ?rc1 = None"
    by (auto simp: passed_gates_def Let_def)
  from passed_gates_admission[OF gates] obtain d where
    d: "get_by_tool_name reg (tl_name ?t) = Some d" "ready d" "ad_descriptor ?a = Some d" by blast
  note facts = gate_passes(2)[OF gate refl]
  note context_facts = gate_facts_context[OF facts]
  have a2: "rc_admission rc2 = Some ?a" using context_facts(2) by simp
  note fin2 = finalize_passes[OF fin a2 d(3)]
  from run_tool_calls[OF run] obtain n where n: "xs_calls w' = xs_calls w2 @ replicate n (tl_name ?t, input)"
    "n \<le> (if tf_isConcurrencySafe tf input then 3 else 1)" "rc_dryRun rc3 \<longrightarrow> n = 0" by blast
  have "\<not> rc_dryRun rc"
    using n(1,3) assms(2) passed_gates_calls[OF gates] fin2(3)[OF refl] context_facts(1) by auto
  moreover from facts obtain r gs where r: "checked_by e ?t input rc w = (Inr r, gs)" "ck_status r \<noteq> Check_Denied"
    by (auto simp: gate_facts_def)
  moreover have "\<forall>rule \<in> set (pm_denyList (en_manager e)). \<not> rule_matches rule ?t input (rc_call rc)"
    using r permission_refused[of "en_host e" ?t input "rc_call rc" "en_manager e" "en_now e" "en_later e" "en_between e" "xs_grants w"]
    by auto
  moreover have "hd_status (decide_host_tool_execution (en_host e) ?t input (rc_call rc)) \<in> {H_Allowed, H_Needs_Permission}"
    using host by (auto simp: check_host_policy_preflight_def Let_def split: if_splits)
  moreover have "en_answer e 0 \<or> rc2 = ?rc1 \<and> r2 = r \<and> ck_status r = Check_Allowed \<and> (?confirm \<longrightarrow> is_allowed_by_permission_grant r)"
    using context_facts(3) r(1) by auto
  moreover from this fin2(2)[OF refl]
  have "ar_approval_required (cd_authority_requirements d) \<longrightarrow> rc_preApproved rc = Some True \<or> is_allowed_by_permission_grant r \<or>
      is_allowed_by_host_policy e ?t input rc r \<or> en_answer e 0 \<or> en_answer e 1"
    by (auto simp: is_allowed_by_host_policy_def)
  ultimately show ?thesis using parse d own n(1,2) passed_gates_calls[OF gates] by (metis (no_types, lifting))
qed

lemma fingerprint_epoch:
  assumes "inj digest" "fingerprint_capability_descriptor digest d input ac = fingerprint_capability_descriptor digest d input ac'"
  shows "ac_stateEpoch ac = ac_stateEpoch ac'"
proof -
  let ?c = "\<lambda>ac. [(''cwd'', J_String (ac_cwd ac)), (''goal_id'', J_String (ac_goalId ac)), (''run_id'', json_text (ac_runId ac)),
            (''session_id'', json_text (ac_sessionId ac)), (''turn_id'', json_text (ac_turnId ac)),
            (''call_id'', json_text (ac_callId ac)), (''state_epoch'', json_text (ac_stateEpoch ac))]"
  obtain D where shape: "\<And>ac. fingerprint_value d input ac = J_Object [(''descriptor'', D), (''input'', input), (''context'', J_Object (?c ac))]"
    by (simp add: fingerprint_value_def Let_def)
  have "stable_json (fingerprint_value d input ac) = stable_json (fingerprint_value d input ac')"
    using assms by (simp add: fingerprint_capability_descriptor_def inj_eq)
  then have same: "json_same (fingerprint_value d input ac) (fingerprint_value d input ac')" by (rule stable_json_same)
  have "\<exists>w. map_of [(''descriptor'', D), (''input'', input), (''context'', J_Object (?c ac'))] ''context'' = Some w \<and>
      json_same (J_Object (?c ac)) w"
    by (rule json_same_field[OF same[unfolded shape]]) simp_all
  then have "json_same (J_Object (?c ac)) (J_Object (?c ac'))" by simp
  then have "\<exists>w. map_of (?c ac') ''state_epoch'' = Some w \<and> json_same (json_text (ac_stateEpoch ac)) w"
    by (rule json_same_field) simp_all
  then have "json_same (json_text (ac_stateEpoch ac)) (json_text (ac_stateEpoch ac'))" by simp
  then show ?thesis
    by (cases "ac_stateEpoch ac"; cases "ac_stateEpoch ac'") (auto simp: json_text_def elim!: json_same.cases is_leaf.elims)
qed

lemma finalize_fingerprint:
  assumes "finalize_capability_plane_admission e t input rc r w = (Gate_Pass rc' r', w')" "rc_admission rc = Some a0"
    "ad_descriptor a0 = Some d" "truthy (ad_fingerprint a0)"
  shows "\<exists>ac. ac_stateEpoch ac = state_epoch (rc_call rc) \<and> ad_fingerprint a0 = Some (fingerprint_capability_descriptor (en_digest e) d input ac)"
proof -
  let ?ok = "rc_preApproved rc = Some True \<or> is_allowed_by_permission_grant r \<or> is_allowed_by_host_policy e t input rc r"
  let ?ac = "admission_context_of rc (Some ?ok) (ad_fingerprint a0) (capability_authority_refs t d r ?ok) False"
  have "ad_status (admit_capability_descriptor (en_digest e) d input ?ac) \<noteq> Admission_Blocked"
    using assms(1-3) by (auto simp: finalize_capability_plane_admission_def Let_def)
  from admission_not_blocked[OF this] assms(4) show ?thesis
    by (intro exI[of _ ?ac]) (simp add: admission_context_of_def Let_def)
qed

text \<open>
  C3. An approval covers the state that the question was asked in. When the permission manager has to
  ask and the epoch of the host's state has changed by the time of the answer, the tool is not called,
  whatever the answer is and with or without stored wait plans: the fingerprint of the first admission,
  a collision-free digest, does not fit the last one.
\<close>
theorem changed_state_voids_approval:
  assumes "execute e reg (Some tf) raw rc w = (res, w')" "inj (en_digest e)" "\<forall>v. en_digest e v \<noteq> []"
    "\<And>input r gs. tf_parse tf raw = Some input \<Longrightarrow>
       permission_check (en_manager e) (en_host e) (tf_tool tf) input (rc_call rc) (en_now e) (en_later e) (en_between e) (xs_grants w)
         = (Inr r, gs) \<Longrightarrow> ck_status r \<noteq> Check_Allowed"
    "map_option fst (en_hostState e 0) \<noteq> state_epoch (rc_call rc)"
  shows "xs_calls w' = xs_calls w"
proof (rule ccontr)
  let ?t = "tf_tool tf"
  assume "xs_calls w' \<noteq> xs_calls w"
  with execute_cases[OF assms(1)] obtain input rc2 r2 rc3 w1 w2 where parse: "tf_parse tf raw = Some input" and
    gates: "passed_gates e reg tf input rc w rc2 r2 rc3 w1 w2" by blast
  let ?a = "admit_tool_execution e reg ?t input rc"
  let ?rc1 = "rc\<lparr>rc_admission := Some ?a\<rparr>" and ?confirm = "fst (tf_checkPermissions tf input (rc_call rc)) = Check_Needs_Approval"
  from gates obtain r3 where
    gate: "(if ?confirm then confirmation_gate e ?t input ?rc1 w else permission_gate e ?t input ?rc1 w) = (Gate_Pass rc2 r2, w1)" and
    fin: "finalize_capability_plane_admission e ?t input rc2 r2 w1 = (Gate_Pass rc3 r3, w2)"
    by (auto simp: passed_gates_def Let_def)
  from passed_gates_admission[OF gates] obtain d where
    d: "get_by_tool_name reg (tl_name ?t) = Some d" "ad_descriptor ?a = Some d" by blast
  note facts = gate_passes(2)[OF gate refl]
  have rc2: "rc2 = build_approved_tool_call_context (asked_context e 0 ?rc1)"
    using facts assms(4)[OF parse] by (auto simp: gate_facts_def)
  have a2: "rc_admission rc2 = Some ?a" by (simp add: rc2 build_approved_tool_call_context_def asked_context_def)
  have fp: "ad_fingerprint ?a = Some (fingerprint_capability_descriptor (en_digest e) d input
      (admission_context_of rc (rc_preApproved rc) None [] True))"
    using d by (simp add: admit_tool_execution_def)
  have "truthy (ad_fingerprint ?a)" using assms(3) by (simp add: fp truthy_def fingerprint_capability_descriptor_def)
  from finalize_fingerprint[OF fin a2 d(2) this] fp obtain ac where
    "ac_stateEpoch ac = state_epoch (rc_call rc2)"
    "fingerprint_capability_descriptor (en_digest e) d input ac =
     fingerprint_capability_descriptor (en_digest e) d input (admission_context_of rc (rc_preApproved rc) None [] True)" by auto
  with fingerprint_epoch[OF assms(2)] have "state_epoch (rc_call rc2) = state_epoch (rc_call rc)"
    by (metis admission_context.select_convs(11) admission_context_of_def)
  then show False using assms(5)
    by (simp add: rc2 build_approved_tool_call_context_def asked_context_def state_epoch_def)
qed

section \<open>Examples\<close>

text \<open>Approval is required exactly for these tools: a category that only reads or plans hides a local write.\<close>

definition sample_code :: "check_status \<Rightarrow> tool_code" where
  "sample_code st = \<lparr>tf_tool = sample_tool ''file_write'' Level_Write_Local, tf_parse = Some, tf_checkPermissions = (\<lambda>v cx. (st, None)),
     tf_isConcurrencySafe = (\<lambda>v. False), tf_call = (\<lambda>n v cx. Call_Returned True)\<rparr>"

definition sample_registry :: capability_registry where
  "sample_registry = registry_from_tools [sample_tool ''file_write'' Level_Write_Local]"

definition sample_run :: run_context where
  "sample_run = \<lparr>rc_call = sample_call, rc_preApproved = None, rc_dryRun = False, rc_timeoutMs = None, rc_admission = None\<rparr>"

definition sample_environment :: "(json \<Rightarrow> string) \<Rightarrow> environment" where
  "sample_environment digest = \<lparr>en_manager = plain_manager, en_host = sample_host, en_digest = digest, en_now = 8, en_later = 9,
     en_between = [], en_answer = (\<lambda>n. True), en_meanwhile = (\<lambda>n w. w), en_hostState = (\<lambda>n. Some (''e2'', None)), en_uuid = (\<lambda>n. ''u''),
     en_eventId = (\<lambda>n. ''v''), en_hostReason = (\<lambda>t v cx. []), en_grantReason = (\<lambda>ev. []), en_admissionId = (\<lambda>a. ''a''),
     en_aborted = False, en_timesOut = False\<rparr>"

definition sample_start :: "grant_table option \<Rightarrow> executor_state" where
  "sample_start grants = \<lparr>xs_grants = grants, xs_plans = None, xs_calls = []\<rparr>"

theorem tool_runs_only_if_admitted_witness:
  "ready (descriptor_from_tool (sample_tool ''file_write'' Level_Write_Local)) \<and>
   xs_calls (snd (execute (sample_environment (\<lambda>v. ''f'')) sample_registry (Some (sample_code Check_Allowed)) (J_Object []) sample_run
     (sample_start (Some (sample_grants Until_Goal_Done))))) = [(''file_write'', J_Object [])]"
proof -
  let ?x = "execute (sample_environment (\<lambda>v. ''f'')) sample_registry (Some (sample_code Check_Allowed)) (J_Object []) sample_run
     (sample_start (Some (sample_grants Until_Goal_Done)))"
  have "xs_calls (snd ?x) = [(''file_write'', J_Object [])]" by code_simp
  moreover have "xs_calls (sample_start (Some (sample_grants Until_Goal_Done))) = []" by (simp add: sample_start_def)
  ultimately have "xs_calls (snd ?x) \<noteq> xs_calls (sample_start (Some (sample_grants Until_Goal_Done)))" by simp
  from tool_runs_only_if_admitted[OF prod.collapse[symmetric] this] obtain d where
    "get_by_tool_name sample_registry (tl_name (tf_tool (sample_code Check_Allowed))) = Some d" "ready d" by blast
  moreover have "get_by_tool_name sample_registry ''file_write'' = Some (descriptor_from_tool (sample_tool ''file_write'' Level_Write_Local))"
    by code_simp
  ultimately show ?thesis
    using \<open>xs_calls (snd ?x) = [(''file_write'', J_Object [])]\<close> by (simp add: sample_code_def sample_tool_def)
qed

instance js_number :: countable by countable_datatype

instance json :: countable by countable_datatype

theorem changed_state_voids_approval_witness:
  "xs_calls (snd (execute (sample_environment (\<lambda>v. replicate (Suc (to_nat v)) CHR ''f'')) sample_registry
     (Some (sample_code Check_Needs_Approval)) (J_Object []) sample_run (sample_start None))) = []"
proof -
  let ?e = "sample_environment (\<lambda>v. replicate (Suc (to_nat v)) CHR ''f'')"
  have check: "answers Check_Needs_Approval (permission_check plain_manager sample_host (sample_tool ''file_write'' Level_Write_Local)
      (J_Object []) sample_call 8 9 [] None)" by code_simp
  have "inj (en_digest ?e)"
    by (rule injI) (simp add: sample_environment_def replicate_eq_replicate del: replicate_Suc)
  moreover have "\<forall>v. en_digest ?e v \<noteq> []" by (simp add: sample_environment_def)
  moreover have "ck_status r \<noteq> Check_Allowed"
    if "tf_parse (sample_code Check_Needs_Approval) (J_Object []) = Some input"
      "permission_check (en_manager ?e) (en_host ?e) (tf_tool (sample_code Check_Needs_Approval)) input (rc_call sample_run)
         (en_now ?e) (en_later ?e) (en_between ?e) (xs_grants (sample_start None)) = (Inr r, gs)" for input r gs
    using that check by (auto simp: answers_def sample_environment_def sample_code_def sample_run_def sample_start_def)
  moreover have "map_option fst (en_hostState ?e 0) \<noteq> state_epoch (rc_call sample_run)"
    by (simp add: sample_environment_def sample_run_def sample_call_def state_epoch_def)
  ultimately have "xs_calls (snd (execute ?e sample_registry (Some (sample_code Check_Needs_Approval)) (J_Object []) sample_run (sample_start None))) =
      xs_calls (sample_start None)"
    by (rule changed_state_voids_approval[OF prod.collapse[symmetric]])
  then show ?thesis by (simp add: sample_start_def)
qed

text \<open>A dry run passes the gates, and the grant that lets it through is used up.\<close>

lemma dry_run_uses_up_grant:
  "let x = execute (sample_environment (\<lambda>v. ''f'')) sample_registry (Some (sample_code Check_Allowed)) (J_Object [])
             (sample_run\<lparr>rc_dryRun := True\<rparr>) (sample_start (Some (sample_grants Once)))
   in fst x = Dry_Run_Result \<and> xs_calls (snd x) = [] \<and>
      map_option (map (gr_state \<circ> snd)) (xs_grants (snd x)) \<noteq> Some (map (gr_state \<circ> snd) (sample_grants Once))"
  by code_simp

end
