(* ===== verification/Admission_Policy.thy ===== *)
theory Admission_Policy
  imports Capability_Plane
begin

text \<open>
  Admission of an operation of a capability: \<open>src/runtime/control/admission-policy.ts\<close>. Grants, the state
  of the authentication and five lists of policy signals are combined into one of four results.

  Times are texts, as in the code, and compared as texts. \<open>parse\<close> is \<open>Date.parse\<close> (\<open>None\<close> for \<open>NaN\<close>),
  \<open>iso_text\<close> is \<open>toISOString\<close>, \<open>collation\<close> gives the keys whose order is that of \<open>localeCompare\<close>. The texts
  of the rationale are left out; the reasons keep their results.
\<close>

section \<open>The inputs\<close>

datatype policy_result = Ap_Allowed | Ap_Approval_Required | Ap_Suppressed | Ap_Prohibited

record policy_signal =
  ps_ref :: string
  ps_result :: policy_result
  ps_reason :: string
  ps_epoch :: "string option"
  ps_expires_at :: "string option"

datatype auth_status = Auth_Valid | Auth_Missing | Auth_Expired | Auth_Stale | Auth_Revoked

record auth_state =
  as_ref :: string
  as_auth_status :: auth_status
  as_epoch :: "string option"
  as_expires_at :: "string option"

record operation_scope =
  os_operation_id :: string
  os_capability_id :: "string option"
  os_operation_kind :: operation_kind
  os_provider_ref :: string
  os_asset_ref :: "string option"
  os_tool_name :: "string option"
  os_payload_class :: string
  os_payload_epoch :: "string option"
  os_side_effect_profile :: side_effect
  os_external_action_authority :: bool
  os_requires_runtime_control :: bool
  os_required_permission_capabilities :: "grant_capability list"
  os_target_refs :: "string list"
  os_target_epoch_refs :: "(string, string) table"
  os_provider_epoch :: "string option"

record reply_target =
  rt_channel :: "string option"
  rt_conversation_id :: "string option"
  rt_identity_key :: "string option"
  rt_user_id :: "string option"

record surface_scope =
  ss_surface_ref :: string
  ss_channel :: "string option"
  ss_platform :: "string option"
  ss_reply_target :: "reply_target option"
  ss_inbound_permission_refs :: "string list"
  ss_turn_ref :: "string option"
  ss_run_ref :: "string option"
  ss_goal_ref :: "string option"
  ss_session_ref :: "string option"
  ss_workspace_root :: "string option"
  ss_project_ref :: "string option"
  ss_epoch :: "string option"

datatype actor_surface = On_Chat | On_Gateway | On_Cli | On_Tui

record actor =
  ac_surface :: actor_surface
  ac_platform :: "string option"
  ac_conversation_id :: "string option"
  ac_identity_key :: "string option"
  ac_user_id :: "string option"

record grant_binding =
  gb_operation_id :: string
  gb_provider_ref :: string
  gb_payload_class :: string
  gb_auth_state_ref :: string
  gb_surface_ref :: string
  gb_target_refs :: "string list"
  gb_capabilities :: "grant_capability list"

type_synonym grant_evidence = "grant \<times> grant_binding"

definition signal_valid :: "policy_signal \<Rightarrow> bool" where
  "signal_valid s \<longleftrightarrow> ps_ref s \<noteq> [] \<and> ps_reason s \<noteq> [] \<and> opt_all (\<lambda>x. x \<noteq> []) (ps_epoch s) \<and> opt_all (\<lambda>x. x \<noteq> []) (ps_expires_at s)"

definition auth_valid :: "auth_state \<Rightarrow> bool" where
  "auth_valid a \<longleftrightarrow> as_ref a \<noteq> [] \<and> opt_all (\<lambda>x. x \<noteq> []) (as_epoch a) \<and> opt_all (\<lambda>x. x \<noteq> []) (as_expires_at a)"

definition operation_valid :: "operation_scope \<Rightarrow> bool" where
  "operation_valid op \<longleftrightarrow> os_operation_id op \<noteq> [] \<and> os_provider_ref op \<noteq> [] \<and> os_payload_class op \<noteq> [] \<and>
     list_all (opt_all (\<lambda>x. x \<noteq> []))
       [os_capability_id op, os_asset_ref op, os_tool_name op, os_payload_epoch op, os_provider_epoch op] \<and>
     list_all (\<lambda>x. x \<noteq> []) (os_target_refs op)"

definition surface_valid :: "surface_scope \<Rightarrow> bool" where
  "surface_valid s \<longleftrightarrow> ss_surface_ref s \<noteq> [] \<and> list_all (\<lambda>x. x \<noteq> []) (ss_inbound_permission_refs s) \<and>
     list_all (opt_all (\<lambda>x. x \<noteq> []))
       [ss_channel s, ss_platform s, ss_turn_ref s, ss_run_ref s, ss_goal_ref s, ss_session_ref s, ss_workspace_root s,
        ss_project_ref s, ss_epoch s]"

definition binding_valid :: "grant_binding \<Rightarrow> bool" where
  "binding_valid b \<longleftrightarrow> list_all (\<lambda>x. x \<noteq> [])
     ([gb_operation_id b, gb_provider_ref b, gb_payload_class b, gb_auth_state_ref b, gb_surface_ref b] @ gb_target_refs b)"

section \<open>Which grants cover the operation\<close>

text \<open>\<open>isPermissionGrantCurrentlyActive\<close> at a time that may be \<open>NaN\<close>: no comparison with \<open>NaN\<close> holds.\<close>

definition active_at :: "grant \<Rightarrow> int option \<Rightarrow> bool" where
  "active_at g now = (case now of
     Some t \<Rightarrow> is_permission_grant_currently_active g t
   | None \<Rightarrow> gr_state g = Grant_Active \<and> \<not> is_permission_grant_stale g \<and> \<not> (gr_duration g = Once \<and> 0 < gr_usage_count g))"

definition grant_subject_matches_actor :: "grant \<Rightarrow> actor \<Rightarrow> bool" where
  "grant_subject_matches_actor g a = (case sj_kind (gr_subject g) of
     Sk_System \<Rightarrow> ac_surface a = On_Cli
   | Sk_Agent \<Rightarrow> Some (sj_id (gr_subject g)) = ac_identity_key a
   | _ \<Rightarrow> Some (sj_id (gr_subject g)) = ac_user_id a \<or> Some (sj_id (gr_subject g)) = ac_identity_key a)"

definition reply_field :: "(reply_target \<Rightarrow> string option) \<Rightarrow> surface_scope \<Rightarrow> string option" where
  "reply_field f s = (case ss_reply_target s of Some r \<Rightarrow> f r | None \<Rightarrow> None)"

definition grant_origin_matches_actor_and_surface :: "grant \<Rightarrow> actor \<Rightarrow> surface_scope \<Rightarrow> bool" where
  "grant_origin_matches_actor_and_surface g a s =
     (let og = gr_origin g in
      if Some (go_channel og) \<noteq> ss_channel s \<and> Some (go_channel og) \<noteq> reply_field rt_channel s then False
      else if truthy (go_platform og) \<and> go_platform og \<noteq> ac_platform a \<and> go_platform og \<noteq> ss_platform s then False
      else if gr_duration g \<noteq> Standing \<and> truthy (go_session_id og) \<and> go_session_id og \<noteq> ss_session_ref s then False
      else if truthy (go_conversation_id og) \<and>
              go_conversation_id og \<notin> {ac_conversation_id a, reply_field rt_conversation_id s} then False
      else if truthy (go_user_id og) \<and>
              go_user_id og \<notin> {ac_user_id a, ac_identity_key a, reply_field rt_user_id s, reply_field rt_identity_key s} then False
      else True)"

definition grant_scope_matches_surface :: "grant \<Rightarrow> surface_scope \<Rightarrow> bool" where
  "grant_scope_matches_surface g s = (case sc_kind (gr_scope g) of
     Scope_Turn \<Rightarrow> sc_turn_id (gr_scope g) = ss_turn_ref s
   | Scope_Run \<Rightarrow> sc_run_id (gr_scope g) = ss_run_ref s
   | Scope_Goal \<Rightarrow> sc_goal_id (gr_scope g) = ss_goal_ref s
   | Scope_Session \<Rightarrow> sc_session_id (gr_scope g) = ss_session_ref s
   | Scope_Workspace \<Rightarrow> sc_workspace_root (gr_scope g) = ss_workspace_root s
   | Scope_Project \<Rightarrow> sc_project_id (gr_scope g) = ss_project_ref s
   | Scope_Global \<Rightarrow> gr_duration g = Standing)"

definition covers_capabilities :: "grant \<Rightarrow> grant_binding \<Rightarrow> grant_capability list \<Rightarrow> bool" where
  "covers_capabilities g b required = list_all (\<lambda>c. c \<in> set (gr_capabilities g) \<and> c \<in> set (gb_capabilities b)) required"

definition same_string_set :: "string list \<Rightarrow> string list \<Rightarrow> bool" where
  "same_string_set xs ys = (length xs = length ys \<and> list_all (\<lambda>x. x \<in> set ys) xs)"

datatype rejection =
  Not_Active | Other_Subject | Other_Origin | Other_Scope | Not_Covering | Other_Provider | Other_Payload | Other_Target
  | Other_Operation | Other_Surface | No_Auth_State | Auth_Not_Valid | Other_Auth_State

definition permission_grant_rejection_reason ::
  "operation_scope \<Rightarrow> actor \<Rightarrow> surface_scope \<Rightarrow> auth_state option \<Rightarrow> int option \<Rightarrow> grant_evidence \<Rightarrow> rejection option" where
  "permission_grant_rejection_reason op a s auth now ev =
     (let (g, b) = ev in
      if \<not> active_at g now then Some Not_Active
      else if \<not> grant_subject_matches_actor g a then Some Other_Subject
      else if \<not> grant_origin_matches_actor_and_surface g a s then Some Other_Origin
      else if \<not> grant_scope_matches_surface g s then Some Other_Scope
      else if \<not> covers_capabilities g b (os_required_permission_capabilities op) then Some Not_Covering
      else if gb_provider_ref b \<noteq> os_provider_ref op then Some Other_Provider
      else if gb_payload_class b \<noteq> os_payload_class op then Some Other_Payload
      else if \<not> same_string_set (gb_target_refs b) (os_target_refs op) then Some Other_Target
      else if gb_operation_id b \<noteq> os_operation_id op then Some Other_Operation
      else if gb_surface_ref b \<noteq> ss_surface_ref s then Some Other_Surface
      else case auth of
             None \<Rightarrow> Some No_Auth_State
           | Some st \<Rightarrow> if as_auth_status st \<noteq> Auth_Valid then Some Auth_Not_Valid
                       else if gb_auth_state_ref b \<noteq> as_ref st then Some Other_Auth_State
                       else None)"

text \<open>The ids of the matched and of the rejected grants, and one reason for each rejection.\<close>

definition matching_permission_grant_refs ::
  "operation_scope \<Rightarrow> actor \<Rightarrow> surface_scope \<Rightarrow> auth_state option \<Rightarrow> int option \<Rightarrow> grant_evidence list \<Rightarrow>
   string list \<times> string list \<times> rejection list" where
  "matching_permission_grant_refs op a s auth now evs =
     (let why = permission_grant_rejection_reason op a s auth now
      in (sort (map (gr_grant_id \<circ> fst) (filter (\<lambda>ev. why ev = None) evs)),
          sort (map (gr_grant_id \<circ> fst) (filter (\<lambda>ev. why ev \<noteq> None) evs)),
          map (the \<circ> why) (filter (\<lambda>ev. why ev \<noteq> None) evs)))"

section \<open>Signals\<close>

definition out_of_date :: "string option \<Rightarrow> string \<Rightarrow> bool" where
  "out_of_date expires now \<longleftrightarrow> truthy expires \<and> the expires \<le> now"

definition apply_auth_state :: "auth_state option \<Rightarrow> string \<Rightarrow> policy_result list" where
  "apply_auth_state auth now = (case auth of
     None \<Rightarrow> []
   | Some st \<Rightarrow>
       if out_of_date (as_expires_at st) now then [Ap_Approval_Required]
       else if as_auth_status st = Auth_Revoked then [Ap_Prohibited]
       else if as_auth_status st \<noteq> Auth_Valid then [Ap_Approval_Required]
       else [])"

primrec apply_signals :: "policy_signal list \<Rightarrow> string \<Rightarrow> policy_result list" where
  "apply_signals [] now = []"
| "apply_signals (sg # sgs) now =
     (if out_of_date (ps_expires_at sg) now then [Ap_Approval_Required]
      else if ps_result sg = Ap_Allowed then []
      else [ps_result sg]) @ apply_signals sgs now"

definition has_allowed_signal :: "policy_signal list \<Rightarrow> string \<Rightarrow> bool" where
  "has_allowed_signal sgs now \<longleftrightarrow>
     list_ex (\<lambda>sg. ps_result sg = Ap_Allowed \<and> (case ps_expires_at sg of None \<Rightarrow> True | Some t \<Rightarrow> now < t)) sgs"

definition requires_notification_admission :: "operation_scope \<Rightarrow> bool" where
  "requires_notification_admission op \<longleftrightarrow>
     os_operation_kind op = Op_Send \<or> os_side_effect_profile op = Effect_Send \<or> os_external_action_authority op"

definition strongest_result :: "policy_result list \<Rightarrow> policy_result" where
  "strongest_result rs =
     (if list_ex (\<lambda>r. r = Ap_Prohibited) rs then Ap_Prohibited
      else if list_ex (\<lambda>r. r = Ap_Suppressed) rs then Ap_Suppressed
      else if list_ex (\<lambda>r. r = Ap_Approval_Required) rs then Ap_Approval_Required
      else Ap_Allowed)"

section \<open>The evaluation\<close>

datatype binding_kind = Bind_Target | Bind_Provider | Bind_Auth | Bind_Payload | Bind_Policy | Bind_Surface

fun binding_kind_name :: "binding_kind \<Rightarrow> string" where
  "binding_kind_name Bind_Target = ''target''"
| "binding_kind_name Bind_Provider = ''provider''"
| "binding_kind_name Bind_Auth = ''auth''"
| "binding_kind_name Bind_Payload = ''payload''"
| "binding_kind_name Bind_Policy = ''policy''"
| "binding_kind_name Bind_Surface = ''surface''"

record invalidation_binding =
  ib_kind :: binding_kind
  ib_ref :: string
  ib_epoch :: "string option"

definition present_epoch :: "string option \<Rightarrow> string option" where
  "present_epoch x = (if truthy x then x else None)"

definition invalidation_bindings ::
  "(string \<Rightarrow> string) \<Rightarrow> operation_scope \<Rightarrow> surface_scope \<Rightarrow> auth_state option \<Rightarrow> policy_signal list \<Rightarrow> invalidation_binding list" where
  "invalidation_bindings collation op s auth policies =
     sort_key (\<lambda>b. collation (binding_kind_name (ib_kind b) @ '':'' @ ib_ref b))
       ([\<lparr>ib_kind = Bind_Provider, ib_ref = os_provider_ref op, ib_epoch = present_epoch (os_provider_epoch op)\<rparr>,
         \<lparr>ib_kind = Bind_Payload, ib_ref = os_payload_class op, ib_epoch = present_epoch (os_payload_epoch op)\<rparr>,
         \<lparr>ib_kind = Bind_Surface, ib_ref = ss_surface_ref s, ib_epoch = present_epoch (ss_epoch s)\<rparr>] @
        map (\<lambda>ref. \<lparr>ib_kind = Bind_Target, ib_ref = ref, ib_epoch = present_epoch (table_get (os_target_epoch_refs op) ref)\<rparr>)
          (os_target_refs op) @
        (case auth of Some st \<Rightarrow> [\<lparr>ib_kind = Bind_Auth, ib_ref = as_ref st, ib_epoch = present_epoch (as_epoch st)\<rparr>] | None \<Rightarrow> []) @
        map (\<lambda>p. \<lparr>ib_kind = Bind_Policy, ib_ref = ps_ref p, ib_epoch = present_epoch (ps_epoch p)\<rparr>) policies)"

fun surface_name :: "actor_surface \<Rightarrow> string" where
  "surface_name On_Chat = ''chat''"
| "surface_name On_Gateway = ''gateway''"
| "surface_name On_Cli = ''cli''"
| "surface_name On_Tui = ''tui''"

definition actor_ref :: "actor \<Rightarrow> string" where
  "actor_ref a = surface_name (ac_surface a) @ '':'' @ nullish (ac_platform a) ''unknown-platform'' @ '':'' @
     nullish (ac_conversation_id a) ''unknown-conversation'' @ '':'' @
     nullish (ac_identity_key a) (nullish (ac_user_id a) ''unknown-actor'')"

definition admission_evaluation_id :: "string \<Rightarrow> string \<Rightarrow> string \<Rightarrow> string \<Rightarrow> string" where
  "admission_evaluation_id op a s now = ''admission:'' @ op @ '':'' @ a @ '':'' @ s @ '':'' @ now"

record policies =
  po_relationship :: "policy_signal list"
  po_quieting :: "policy_signal list"
  po_privacy :: "policy_signal list"
  po_runtime_control :: "policy_signal list"
  po_notification :: "policy_signal list"

definition all_signals :: "policies \<Rightarrow> policy_signal list" where
  "all_signals p = po_relationship p @ po_quieting p @ po_privacy p @ po_runtime_control p @ po_notification p"

record evaluation_input =
  ei_operation :: operation_scope
  ei_actor :: actor
  ei_surface :: surface_scope
  ei_authState :: "auth_state option"
  ei_readiness :: "string option"
  ei_permissionGrants :: "grant_evidence list"
  ei_policies :: policies
  ei_evaluatedAt :: "string option"
  ei_expiresAt :: "string option"
  ei_ttlMs :: "int option"
  ei_evaluationId :: "string option"

record policy_evaluation =
  pe_evaluation_id :: string
  pe_operation_id :: string
  pe_capability_id :: "string option"
  pe_evaluated_at :: string
  pe_actor_ref :: string
  pe_surface_ref :: string
  pe_provider_ref :: string
  pe_payload_class :: string
  pe_target_refs :: "string list"
  pe_permission_grant_refs :: "string list"
  pe_rejected_permission_grant_refs :: "string list"
  pe_policy_refs :: "string list list"
  pe_auth_state_ref :: "string option"
  pe_readiness_ref :: "string option"
  pe_result :: policy_result
  pe_expires_at :: string
  pe_invalidation_bindings :: "invalidation_binding list"
  pe_considered_permission_grant_refs :: "string list"

text \<open>\<open>pe_policy_refs\<close> holds the references of the five policies, in the order of the record.\<close>

definition admission_reasons ::
  "operation_scope \<Rightarrow> actor \<Rightarrow> surface_scope \<Rightarrow> auth_state option \<Rightarrow> grant_evidence list \<Rightarrow> policies \<Rightarrow> string \<Rightarrow> int option \<Rightarrow>
   policy_result list" where
  "admission_reasons op a s auth evs p now nowMs =
     (let (matched, rejected, why) = matching_permission_grant_refs op a s auth nowMs evs;
          needs_grant = (os_required_permission_capabilities op \<noteq> [])
      in (if needs_grant then map (\<lambda>_. Ap_Approval_Required) why else []) @
         (if needs_grant \<and> matched = [] then [Ap_Approval_Required] else []) @
         apply_auth_state auth now @
         apply_signals (po_relationship p) now @ apply_signals (po_quieting p) now @ apply_signals (po_privacy p) now @
         apply_signals (po_runtime_control p) now @ apply_signals (po_notification p) now @
         (if os_requires_runtime_control op \<and> \<not> has_allowed_signal (po_runtime_control p) now then [Ap_Approval_Required] else []) @
         (if requires_notification_admission op \<and> po_notification p = [] then [Ap_Approval_Required] else []))"

definition default_admission_ttl_ms :: int where
  "default_admission_ttl_ms = 5 * 60 * 1000"

definition input_valid :: "evaluation_input \<Rightarrow> bool" where
  "input_valid i \<longleftrightarrow> operation_valid (ei_operation i) \<and> surface_valid (ei_surface i) \<and> opt_all auth_valid (ei_authState i) \<and>
     list_all (\<lambda>(g, b). grant_valid g \<and> binding_valid b) (ei_permissionGrants i) \<and> list_all signal_valid (all_signals (ei_policies i))"

definition expiry_text :: "(int \<Rightarrow> string) \<Rightarrow> int option \<Rightarrow> evaluation_input \<Rightarrow> string result" where
  "expiry_text iso_text nowMs i = (case ei_expiresAt i of
     Some t \<Rightarrow> Inr t
   | None \<Rightarrow> (case nowMs of
       None \<Rightarrow> Inl (Thrown ''Invalid time value'')
     | Some t \<Rightarrow> (let e = t + nullish (ei_ttlMs i) default_admission_ttl_ms
                 in if \<bar>e\<bar> \<le> 8640000000000000 then Inr (iso_text e) else Inl (Thrown ''Invalid time value''))))"

definition evaluate_admission_policy ::
  "(string \<Rightarrow> string) \<Rightarrow> (string \<Rightarrow> int option) \<Rightarrow> (int \<Rightarrow> string) \<Rightarrow> string \<Rightarrow> evaluation_input \<Rightarrow> policy_evaluation result" where
  "evaluate_admission_policy collation parse iso_text clock i =
     (let op = ei_operation i; a = ei_actor i; s = ei_surface i; auth = ei_authState i; p = ei_policies i; evs = ei_permissionGrants i;
          now = nullish (ei_evaluatedAt i) clock; nowMs = parse now
      in if \<not> (operation_valid op \<and> surface_valid s \<and> opt_all auth_valid auth) then Inl SchemaError
         else result_bind (expiry_text iso_text nowMs i) (\<lambda>expiresAt.
           if \<not> input_valid i then Inl SchemaError
           else let (matched, rejected, _) = matching_permission_grant_refs op a s auth nowMs evs;
                    e = \<lparr>pe_evaluation_id = nullish (ei_evaluationId i)
                           (admission_evaluation_id (os_operation_id op) (actor_ref a) (ss_surface_ref s) now),
                         pe_operation_id = os_operation_id op,
                         pe_capability_id = (if truthy (os_capability_id op) then os_capability_id op else None),
                         pe_evaluated_at = now, pe_actor_ref = actor_ref a, pe_surface_ref = ss_surface_ref s,
                         pe_provider_ref = os_provider_ref op, pe_payload_class = os_payload_class op,
                         pe_target_refs = sort (os_target_refs op), pe_permission_grant_refs = matched,
                         pe_rejected_permission_grant_refs = rejected,
                         pe_policy_refs = map (\<lambda>sgs. sort (map ps_ref sgs))
                           [po_relationship p, po_quieting p, po_privacy p, po_runtime_control p, po_notification p],
                         pe_auth_state_ref = map_option as_ref auth, pe_readiness_ref = ei_readiness i,
                         pe_result = strongest_result (admission_reasons op a s auth evs p now nowMs),
                         pe_expires_at = expiresAt,
                         pe_invalidation_bindings = invalidation_bindings collation op s auth (all_signals p),
                         pe_considered_permission_grant_refs = sort (map (gr_grant_id \<circ> fst) evs)\<rparr>
                in if pe_evaluation_id e \<noteq> [] \<and> now \<noteq> [] \<and> expiresAt \<noteq> [] \<and> opt_all (\<lambda>x. x \<noteq> []) (ei_readiness i)
                   then Inr e else Inl SchemaError))"

section \<open>What is admitted\<close>

lemma apply_signals_set:
  "r \<in> set (apply_signals sgs now) \<longleftrightarrow>
     (\<exists>sg \<in> set sgs. if out_of_date (ps_expires_at sg) now then r = Ap_Approval_Required
                    else ps_result sg = r \<and> r \<noteq> Ap_Allowed)"
  by (induction sgs) auto

lemma has_allowed_signal_iff:
  "list_all signal_valid sgs \<Longrightarrow> has_allowed_signal sgs now \<longleftrightarrow>
     (\<exists>sg \<in> set sgs. ps_result sg = Ap_Allowed \<and> \<not> out_of_date (ps_expires_at sg) now)"
proof -
  have "(case ps_expires_at sg of None \<Rightarrow> True | Some t \<Rightarrow> now < t) \<longleftrightarrow> \<not> out_of_date (ps_expires_at sg) now" if "signal_valid sg" for sg
    using that by (auto simp: signal_valid_def out_of_date_def not_le split: option.splits)
  then show "list_all signal_valid sgs \<Longrightarrow> ?thesis" by (auto simp: has_allowed_signal_def list_ex_iff list_all_iff)
qed

lemma strongest_result_cases:
  "strongest_result rs = Ap_Prohibited \<longleftrightarrow> Ap_Prohibited \<in> set rs"
  "strongest_result rs = Ap_Suppressed \<longleftrightarrow> Ap_Prohibited \<notin> set rs \<and> Ap_Suppressed \<in> set rs"
  "Ap_Allowed \<notin> set rs \<Longrightarrow> strongest_result rs = Ap_Allowed \<longleftrightarrow> rs = []"
proof -
  show "strongest_result rs = Ap_Prohibited \<longleftrightarrow> Ap_Prohibited \<in> set rs"
    "strongest_result rs = Ap_Suppressed \<longleftrightarrow> Ap_Prohibited \<notin> set rs \<and> Ap_Suppressed \<in> set rs"
    by (auto simp: strongest_result_def list_ex_iff)
  show "strongest_result rs = Ap_Allowed \<longleftrightarrow> rs = []" if "Ap_Allowed \<notin> set rs"
  proof
    assume "strongest_result rs = Ap_Allowed"
    then have none: "r \<noteq> Ap_Prohibited \<and> r \<noteq> Ap_Suppressed \<and> r \<noteq> Ap_Approval_Required" if "r \<in> set rs" for r
      using that by (auto simp: strongest_result_def list_ex_iff split: if_splits)
    show "rs = []"
    proof (cases rs)
      case (Cons r rs')
      then show ?thesis using none[of r] that by (cases r) auto
    qed simp
  qed (simp add: strongest_result_def)
qed

text \<open>A signal that speaks against the operation at a time: it has run out, or it is not \<open>allowed\<close>.\<close>

definition auth_fine :: "auth_state option \<Rightarrow> string \<Rightarrow> bool" where
  "auth_fine auth now \<longleftrightarrow> (\<forall>st. auth = Some st \<longrightarrow> as_auth_status st = Auth_Valid \<and> \<not> out_of_date (as_expires_at st) now)"

lemma reasons_allowed [simp]: "Ap_Allowed \<notin> set (admission_reasons op a s auth evs p now nowMs)"
  by (auto simp: admission_reasons_def matching_permission_grant_refs_def Let_def apply_signals_set apply_auth_state_def
      split: if_splits option.splits)

lemma apply_signals_empty:
  "apply_signals sgs now = [] \<longleftrightarrow> (\<forall>sg \<in> set sgs. ps_result sg = Ap_Allowed \<and> \<not> out_of_date (ps_expires_at sg) now)"
  by (induction sgs) auto

lemma auth_empty: "apply_auth_state auth now = [] \<longleftrightarrow> auth_fine auth now"
  by (cases auth) (auto simp: apply_auth_state_def auth_fine_def)

lemma reasons_empty:
  "admission_reasons op a s auth evs p now nowMs = [] \<longleftrightarrow>
     (os_required_permission_capabilities op \<noteq> [] \<longrightarrow>
        evs \<noteq> [] \<and> (\<forall>ev \<in> set evs. permission_grant_rejection_reason op a s auth nowMs ev = None)) \<and>
     auth_fine auth now \<and>
     (\<forall>sg \<in> set (all_signals p). ps_result sg = Ap_Allowed \<and> \<not> out_of_date (ps_expires_at sg) now) \<and>
     (os_requires_runtime_control op \<longrightarrow> has_allowed_signal (po_runtime_control p) now) \<and>
     (requires_notification_admission op \<longrightarrow> po_notification p \<noteq> [])"
proof -
  let ?why = "permission_grant_rejection_reason op a s auth nowMs"
  let ?N = "os_required_permission_capabilities op \<noteq> []"
  have sorted: "(sort (map f xs) = []) = (xs = [])" for f :: "grant_evidence \<Rightarrow> string" and xs
    by (metis length_0_conv length_map length_sort)
  have conditional: "((if b then map h ys else []) = []) = (b \<longrightarrow> ys = [])" "((if b \<and> c then [x] else []) = []) = (b \<longrightarrow> \<not> c)"
    for b c and h :: "rejection \<Rightarrow> policy_result" and ys and x :: policy_result by simp_all
  have grants: "(?N \<longrightarrow> map (the \<circ> ?why) (filter (\<lambda>ev. ?why ev \<noteq> None) evs) = []) \<and>
        (?N \<longrightarrow> sort (map (gr_grant_id \<circ> fst) (filter (\<lambda>ev. ?why ev = None) evs)) \<noteq> []) \<longleftrightarrow>
        (?N \<longrightarrow> evs \<noteq> [] \<and> (\<forall>ev \<in> set evs. ?why ev = None))"
    unfolding sorted by (cases evs) (auto simp: filter_empty_conv)
  have signals: "apply_signals (po_relationship p) now = [] \<and> apply_signals (po_quieting p) now = [] \<and>
        apply_signals (po_privacy p) now = [] \<and> apply_signals (po_runtime_control p) now = [] \<and>
        apply_signals (po_notification p) now = [] \<longleftrightarrow>
      (\<forall>sg \<in> set (all_signals p). ps_result sg = Ap_Allowed \<and> \<not> out_of_date (ps_expires_at sg) now)"
    unfolding apply_signals_empty all_signals_def by auto
  have split: "P1 \<and> P2 \<and> A \<and> S1 \<and> S2 \<and> S3 \<and> S4 \<and> S5 \<and> R \<and> n \<longleftrightarrow> (P1 \<and> P2) \<and> A \<and> (S1 \<and> S2 \<and> S3 \<and> S4 \<and> S5) \<and> R \<and> n"
    for P1 P2 A S1 S2 S3 S4 S5 R n by simp
  show ?thesis
    unfolding admission_reasons_def matching_permission_grant_refs_def Let_def prod.case append_is_Nil_conv conditional split
      grants auth_empty signals by simp
qed

lemma reasons_prohibited:
  "Ap_Prohibited \<in> set (admission_reasons op a s auth evs p now nowMs) \<longleftrightarrow>
     (\<exists>st. auth = Some st \<and> as_auth_status st = Auth_Revoked \<and> \<not> out_of_date (as_expires_at st) now) \<or>
     (\<exists>sg \<in> set (all_signals p). ps_result sg = Ap_Prohibited \<and> \<not> out_of_date (ps_expires_at sg) now)"
  by (auto simp: admission_reasons_def matching_permission_grant_refs_def Let_def apply_signals_set apply_auth_state_def
      all_signals_def split: if_splits option.splits)

lemma reasons_suppressed:
  "Ap_Suppressed \<in> set (admission_reasons op a s auth evs p now nowMs) \<longleftrightarrow>
     (\<exists>sg \<in> set (all_signals p). ps_result sg = Ap_Suppressed \<and> \<not> out_of_date (ps_expires_at sg) now)"
  by (auto simp: admission_reasons_def matching_permission_grant_refs_def Let_def apply_signals_set apply_auth_state_def
      all_signals_def split: if_splits option.splits)
lemma evaluation_facts:
  assumes "evaluate_admission_policy collation parse iso_text clock i = Inr e"
  defines "now \<equiv> nullish (ei_evaluatedAt i) clock"
  shows "input_valid i" "pe_evaluated_at e = now"
    "pe_result e = strongest_result (admission_reasons (ei_operation i) (ei_actor i) (ei_surface i) (ei_authState i)
       (ei_permissionGrants i) (ei_policies i) now (parse now))"
    "pe_permission_grant_refs e = fst (matching_permission_grant_refs (ei_operation i) (ei_actor i) (ei_surface i) (ei_authState i)
       (parse now) (ei_permissionGrants i))"
  using assms by (auto simp: evaluate_admission_policy_def Let_def result_bind_Inr_iff split: if_splits prod.splits)

text \<open>
  The expiry of the authentication is looked at before its status: a revoked authentication prohibits
  every operation until its time of expiry, and from then on only asks for approval.
\<close>

lemma revoked_auth_softens_with_age:
  assumes "as_auth_status st = Auth_Revoked"
  shows "apply_auth_state (Some st) now = (if out_of_date (as_expires_at st) now then [Ap_Approval_Required] else [Ap_Prohibited])"
  using assms by (simp add: apply_auth_state_def)

text \<open>
  C16. What admission decides of a valid input, exactly. An operation is allowed if and only if, when it
  needs permissions, some grant is offered and every grant that is offered covers it; the authentication,
  where there is one, is valid and not out of date; every signal of the five policies is in force and
  allows it; runtime control has a signal for it when it needs one; and there is a notification policy
  when it sends something. It is prohibited if and only if a signal in force prohibits it, or the
  authentication is revoked and not out of date (one that is revoked and out of date only asks).
  It is suppressed if and only if it is not prohibited and a signal in force suppresses it. In every
  other case it needs approval.
\<close>
theorem admission_result_exactly:
  fixes i :: evaluation_input
  assumes "evaluate_admission_policy collation parse iso_text clock i = Inr e"
  defines "now \<equiv> nullish (ei_evaluatedAt i) clock" and "op \<equiv> ei_operation i" and "sgs \<equiv> set (all_signals (ei_policies i))"
  shows "(pe_result e = Ap_Allowed \<longleftrightarrow>
      (os_required_permission_capabilities op \<noteq> [] \<longrightarrow> ei_permissionGrants i \<noteq> [] \<and>
         (\<forall>ev \<in> set (ei_permissionGrants i).
            permission_grant_rejection_reason op (ei_actor i) (ei_surface i) (ei_authState i) (parse now) ev = None)) \<and>
      (\<forall>st. ei_authState i = Some st \<longrightarrow> as_auth_status st = Auth_Valid \<and> \<not> out_of_date (as_expires_at st) now) \<and>
      (\<forall>sg \<in> sgs. ps_result sg = Ap_Allowed \<and> \<not> out_of_date (ps_expires_at sg) now) \<and>
      (os_requires_runtime_control op \<longrightarrow> po_runtime_control (ei_policies i) \<noteq> []) \<and>
      (os_operation_kind op = Op_Send \<or> os_side_effect_profile op = Effect_Send \<or> os_external_action_authority op \<longrightarrow>
         po_notification (ei_policies i) \<noteq> [])) \<and>
    (pe_result e = Ap_Prohibited \<longleftrightarrow>
      (\<exists>st. ei_authState i = Some st \<and> as_auth_status st = Auth_Revoked \<and> \<not> out_of_date (as_expires_at st) now) \<or>
      (\<exists>sg \<in> sgs. ps_result sg = Ap_Prohibited \<and> \<not> out_of_date (ps_expires_at sg) now)) \<and>
    (pe_result e = Ap_Suppressed \<longleftrightarrow> pe_result e \<noteq> Ap_Prohibited \<and>
      (\<exists>sg \<in> sgs. ps_result sg = Ap_Suppressed \<and> \<not> out_of_date (ps_expires_at sg) now))"
proof (intro conjI)
  let ?rs = "admission_reasons op (ei_actor i) (ei_surface i) (ei_authState i) (ei_permissionGrants i) (ei_policies i) now (parse now)"
  have res: "pe_result e = strongest_result ?rs" using evaluation_facts(3)[OF assms(1)] by (simp add: now_def op_def)
  have valid: "list_all signal_valid (po_runtime_control (ei_policies i))"
    using evaluation_facts(1)[OF assms(1)] by (simp add: input_valid_def all_signals_def)
  have control: "has_allowed_signal (po_runtime_control (ei_policies i)) now \<longleftrightarrow> po_runtime_control (ei_policies i) \<noteq> []"
    if "\<forall>sg \<in> sgs. ps_result sg = Ap_Allowed \<and> \<not> out_of_date (ps_expires_at sg) now"
    using that unfolding has_allowed_signal_iff[OF valid] sgs_def all_signals_def
    by (cases "po_runtime_control (ei_policies i)") auto
  show "pe_result e = Ap_Allowed \<longleftrightarrow>
      (os_required_permission_capabilities op \<noteq> [] \<longrightarrow> ei_permissionGrants i \<noteq> [] \<and>
         (\<forall>ev \<in> set (ei_permissionGrants i).
            permission_grant_rejection_reason op (ei_actor i) (ei_surface i) (ei_authState i) (parse now) ev = None)) \<and>
      (\<forall>st. ei_authState i = Some st \<longrightarrow> as_auth_status st = Auth_Valid \<and> \<not> out_of_date (as_expires_at st) now) \<and>
      (\<forall>sg \<in> sgs. ps_result sg = Ap_Allowed \<and> \<not> out_of_date (ps_expires_at sg) now) \<and>
      (os_requires_runtime_control op \<longrightarrow> po_runtime_control (ei_policies i) \<noteq> []) \<and>
      (os_operation_kind op = Op_Send \<or> os_side_effect_profile op = Effect_Send \<or> os_external_action_authority op \<longrightarrow>
         po_notification (ei_policies i) \<noteq> [])"
    unfolding res strongest_result_cases(3)[OF reasons_allowed] reasons_empty auth_fine_def requires_notification_admission_def
      sgs_def[symmetric]
    using control by blast
  show "pe_result e = Ap_Prohibited \<longleftrightarrow>
      (\<exists>st. ei_authState i = Some st \<and> as_auth_status st = Auth_Revoked \<and> \<not> out_of_date (as_expires_at st) now) \<or>
      (\<exists>sg \<in> sgs. ps_result sg = Ap_Prohibited \<and> \<not> out_of_date (ps_expires_at sg) now)"
    unfolding res strongest_result_cases(1) reasons_prohibited sgs_def by (rule refl)
  show "pe_result e = Ap_Suppressed \<longleftrightarrow> pe_result e \<noteq> Ap_Prohibited \<and>
      (\<exists>sg \<in> sgs. ps_result sg = Ap_Suppressed \<and> \<not> out_of_date (ps_expires_at sg) now)"
    unfolding res strongest_result_cases(1,2) reasons_suppressed sgs_def by (rule refl)
qed

text \<open>
  A stray grant costs the admission. For an operation that needs permissions, and is allowed, one
  more grant in the evidence that does not cover it, say one for another conversation or one that
  has run out, turns the result into \<open>approval_required\<close>, although the grants that cover it are
  all still there.
\<close>
lemma stray_grant_forces_approval:
  assumes "evaluate_admission_policy collation parse iso_text clock i = Inr e" "pe_result e = Ap_Allowed"
    "os_required_permission_capabilities (ei_operation i) \<noteq> []" "grant_valid g" "binding_valid b"
    "permission_grant_rejection_reason (ei_operation i) (ei_actor i) (ei_surface i) (ei_authState i)
       (parse (nullish (ei_evaluatedAt i) clock)) (g, b) \<noteq> None"
  shows "\<exists>e'. evaluate_admission_policy collation parse iso_text clock
      (i\<lparr>ei_permissionGrants := ei_permissionGrants i @ [(g, b)]\<rparr>) = Inr e' \<and>
    pe_result e' = Ap_Approval_Required \<and> pe_permission_grant_refs e' = pe_permission_grant_refs e"
proof -
  let ?i = "i\<lparr>ei_permissionGrants := ei_permissionGrants i @ [(g, b)]\<rparr>"
  let ?now = "nullish (ei_evaluatedAt i) clock"
  let ?rs = "\<lambda>evs. admission_reasons (ei_operation i) (ei_actor i) (ei_surface i) (ei_authState i) evs (ei_policies i) ?now (parse ?now)"
  have "input_valid ?i" using evaluation_facts(1)[OF assms(1)] assms(4,5) by (simp add: input_valid_def)
  moreover have "expiry_text iso_text n ?i = expiry_text iso_text n i" for n by (simp add: expiry_text_def cong: option.case_cong)
  ultimately obtain e' where e': "evaluate_admission_policy collation parse iso_text clock ?i = Inr e'"
    using assms(1) by (auto simp: evaluate_admission_policy_def Let_def result_bind_Inr_iff case_prod_beta split: if_splits)
  note facts = evaluation_facts[OF assms(1)] and facts' = evaluation_facts[OF e', simplified]
  have "?rs (ei_permissionGrants i) = []"
    using assms(2) facts(3) strongest_result_cases(3)[OF reasons_allowed] by metis
  then have "Ap_Prohibited \<notin> set (?rs (ei_permissionGrants i @ [(g, b)]))" "Ap_Suppressed \<notin> set (?rs (ei_permissionGrants i @ [(g, b)]))"
    unfolding reasons_empty reasons_prohibited reasons_suppressed by (auto simp: auth_fine_def)
  moreover have "?rs (ei_permissionGrants i @ [(g, b)]) \<noteq> []" using assms(3,6) unfolding reasons_empty by auto
  ultimately have "pe_result e' = Ap_Approval_Required"
    using strongest_result_cases[where rs = "?rs (ei_permissionGrants i @ [(g, b)])"] facts'(3)
    by (cases "pe_result e'") auto
  moreover have "pe_permission_grant_refs e' = pe_permission_grant_refs e"
    using facts(4) facts'(4) assms(6) by (simp add: matching_permission_grant_refs_def Let_def)
  ultimately show ?thesis using e' by blast
qed

section \<open>Examples\<close>

definition sample_binding :: grant_binding where
  "sample_binding = \<lparr>gb_operation_id = ''op1'', gb_provider_ref = ''p'', gb_payload_class = ''text'', gb_auth_state_ref = ''auth'',
     gb_surface_ref = ''s'', gb_target_refs = [], gb_capabilities = [Write_Workspace]\<rparr>"

definition sample_grant :: "string \<Rightarrow> grant" where
  "sample_grant channel = (new_grant (sample_grant_input Until_Goal_Done) Grant_Active 5)
     \<lparr>gr_scope := \<lparr>sc_kind = Scope_Goal, sc_turn_id = None, sc_run_id = None, sc_goal_id = Some ''g'', sc_session_id = None,
        sc_workspace_root = None, sc_project_id = None\<rparr>,
      gr_origin := (gr_origin (new_grant (sample_grant_input Until_Goal_Done) Grant_Active 5))\<lparr>go_channel := channel\<rparr>\<rparr>"

definition sample_evaluation :: evaluation_input where
  "sample_evaluation =
     \<lparr>ei_operation = \<lparr>os_operation_id = ''op1'', os_capability_id = None, os_operation_kind = Op_Write, os_provider_ref = ''p'',
        os_asset_ref = None, os_tool_name = None, os_payload_class = ''text'', os_payload_epoch = None,
        os_side_effect_profile = Effect_Write, os_external_action_authority = False, os_requires_runtime_control = False,
        os_required_permission_capabilities = [Write_Workspace], os_target_refs = [], os_target_epoch_refs = [], os_provider_epoch = None\<rparr>,
      ei_actor = \<lparr>ac_surface = On_Chat, ac_platform = None, ac_conversation_id = None, ac_identity_key = None, ac_user_id = Some ''ann''\<rparr>,
      ei_surface = \<lparr>ss_surface_ref = ''s'', ss_channel = Some ''chat'', ss_platform = None, ss_reply_target = None,
        ss_inbound_permission_refs = [], ss_turn_ref = None, ss_run_ref = None, ss_goal_ref = Some ''g'', ss_session_ref = None,
        ss_workspace_root = None, ss_project_ref = None, ss_epoch = None\<rparr>,
      ei_authState = Some \<lparr>as_ref = ''auth'', as_auth_status = Auth_Valid, as_epoch = None, as_expires_at = None\<rparr>,
      ei_readiness = None, ei_permissionGrants = [(sample_grant ''chat'', sample_binding)],
      ei_policies = \<lparr>po_relationship = [], po_quieting = [], po_privacy = [], po_runtime_control = [], po_notification = []\<rparr>,
      ei_evaluatedAt = Some ''t8'', ei_expiresAt = Some ''t9'', ei_ttlMs = None, ei_evaluationId = None\<rparr>"

lemma sample_evaluation_allowed:
  "\<exists>e. evaluate_admission_policy id (\<lambda>t. Some 8) (\<lambda>t. []) [] sample_evaluation = Inr e \<and> pe_result e = Ap_Allowed"
proof -
  have "(case evaluate_admission_policy id (\<lambda>t. Some 8) (\<lambda>t. []) [] sample_evaluation of
      Inr e \<Rightarrow> pe_result e = Ap_Allowed | Inl x \<Rightarrow> False)" by code_simp
  then show ?thesis by (auto split: sum.splits)
qed

theorem admission_result_exactly_witness:
  "permission_grant_rejection_reason (ei_operation sample_evaluation) (ei_actor sample_evaluation) (ei_surface sample_evaluation)
     (ei_authState sample_evaluation) (Some 8) (sample_grant ''chat'', sample_binding) = None"
proof -
  obtain e where *: "evaluate_admission_policy id (\<lambda>t. Some 8) (\<lambda>t. []) [] sample_evaluation = Inr e" "pe_result e = Ap_Allowed"
    using sample_evaluation_allowed by blast
  have "os_required_permission_capabilities (ei_operation sample_evaluation) \<noteq> []"
    "(sample_grant ''chat'', sample_binding) \<in> set (ei_permissionGrants sample_evaluation)"
    by (simp_all add: sample_evaluation_def)
  then show ?thesis using admission_result_exactly[OF *(1)] *(2) by blast
qed

end
