(* ===== verification/Tool_Registry.thy ===== *)
theory Tool_Registry
  imports Tool_Permission
begin

text \<open>
  The registry of tools and the limit of concurrent calls: \<open>src/tools/registry.ts\<close> and
  \<open>src/tools/concurrency.ts\<close>.

  A tool is its metadata with the text that it describes itself with (\<open>describe\<close>, a parameter: the text
  depends on the context). Both \<open>Map\<close>s of the registry are association tables. A call of \<open>run\<close> is cut at
  its awaits into steps of a transition system.
\<close>

section \<open>The catalog\<close>

record registry =
  rg_baseCatalog :: "(string, tool) table"
  rg_aliasMap :: "(string, string) table"

definition empty_registry :: registry where
  "empty_registry = \<lparr>rg_baseCatalog = [], rg_aliasMap = []\<rparr>"

primrec register_aliases :: "string \<Rightarrow> string list \<Rightarrow> registry \<Rightarrow> unit result \<times> registry" where
  "register_aliases n [] r = (Inr (), r)"
| "register_aliases n (a # as) r =
     (if table_get (rg_aliasMap r) a \<noteq> None \<or> table_get (rg_baseCatalog r) a \<noteq> None
      then (Inl (Thrown (''Alias \"'' @ a @ ''\" conflicts with existing tool or alias'')), r)
      else register_aliases n as (r\<lparr>rg_aliasMap := table_put a n (rg_aliasMap r)\<rparr>))"

definition register :: "tool \<Rightarrow> registry \<Rightarrow> unit result \<times> registry" where
  "register t r =
     (if table_get (rg_baseCatalog r) (tl_name t) \<noteq> None
      then (Inl (Thrown (''Tool \"'' @ tl_name t @ ''\" is already registered'')), r)
      else register_aliases (tl_name t) (tl_aliases t) (r\<lparr>rg_baseCatalog := table_put (tl_name t) t (rg_baseCatalog r)\<rparr>))"

definition unregister :: "string \<Rightarrow> registry \<Rightarrow> bool \<times> registry" where
  "unregister n r = (case table_get (rg_baseCatalog r) n of
     None \<Rightarrow> (False, r)
   | Some t \<Rightarrow> (True, \<lparr>rg_baseCatalog = table_del n (rg_baseCatalog r), rg_aliasMap = fold table_del (tl_aliases t) (rg_aliasMap r)\<rparr>))"

definition get_tool :: "registry \<Rightarrow> string \<Rightarrow> tool option" where
  "get_tool r n = table_get (rg_baseCatalog r) (nullish (table_get (rg_aliasMap r) n) n)"

definition list_all_tools :: "registry \<Rightarrow> tool list" where
  "list_all_tools r = map snd (rg_baseCatalog r)"

section \<open>Filtering and assembly\<close>

text \<open>The trust balance may be any number; an absent list of tags is \<open>None\<close>.\<close>

record context_filter =
  cf_trustBalance :: rat
  cf_requiredTags :: "string list option"
  cf_includeDeferred :: bool

definition is_permission_allowed :: "tool \<Rightarrow> rat \<Rightarrow> bool" where
  "is_permission_allowed t trust =
     (if tl_isReadOnly t then True
      else if tl_permissionLevel t = Level_Read_Metrics then trust \<ge> - 50
      else True)"

definition passes_filter :: "context_filter \<Rightarrow> tool \<Rightarrow> bool" where
  "passes_filter f t =
     (if \<not> is_permission_allowed t (cf_trustBalance f) then False
      else if (case cf_requiredTags f of Some ts \<Rightarrow> ts \<noteq> [] \<and> \<not> list_ex (\<lambda>tag. tag \<in> set (tl_tags t)) ts | None \<Rightarrow> False) then False
      else if tl_shouldDefer t \<and> \<not> cf_includeDeferred f then False
      else True)"

definition filter_by_context :: "context_filter \<Rightarrow> registry \<Rightarrow> tool list" where
  "filter_by_context f r = filter (passes_filter f) (list_all_tools r)"

definition estimate_tokens :: "(tool \<Rightarrow> string) \<Rightarrow> tool \<Rightarrow> nat" where
  "estimate_tokens describe t = (length (tl_name t) + length (describe t) + 3) div 4 + 50"

definition relevance :: "context_filter \<Rightarrow> tool \<Rightarrow> nat" where
  "relevance f t = (case cf_requiredTags f of Some ts \<Rightarrow> length (filter (\<lambda>tag. tag \<in> set (tl_tags t)) ts) | None \<Rightarrow> 0)"

definition sort_by_relevance :: "context_filter \<Rightarrow> tool list \<Rightarrow> tool list" where
  "sort_by_relevance f ts = sort_key (\<lambda>t. - int (relevance f t)) ts"

record assembled_pool =
  pl_included :: "tool list"
  pl_deferred :: "tool list"
  pl_usedTokens :: nat

definition add_always :: "(tool \<Rightarrow> string) \<Rightarrow> tool \<Rightarrow> assembled_pool \<Rightarrow> assembled_pool" where
  "add_always describe t p =
     p\<lparr>pl_included := pl_included p @ [t], pl_usedTokens := pl_usedTokens p + estimate_tokens describe t\<rparr>"

definition add_optional :: "(tool \<Rightarrow> string) \<Rightarrow> int \<Rightarrow> tool \<Rightarrow> assembled_pool \<Rightarrow> assembled_pool" where
  "add_optional describe budget t p =
     (if int (pl_usedTokens p + estimate_tokens describe t) \<le> budget then add_always describe t p
      else p\<lparr>pl_deferred := pl_deferred p @ [t]\<rparr>)"

definition assemble :: "(tool \<Rightarrow> string) \<Rightarrow> context_filter \<Rightarrow> int \<Rightarrow> registry \<Rightarrow> assembled_pool" where
  "assemble describe f budget r =
     (let filtered = filter_by_context f r
      in fold (add_optional describe budget) (sort_by_relevance f (filter (\<lambda>t. \<not> tl_alwaysLoad t) filtered))
           (fold (add_always describe) (filter tl_alwaysLoad filtered) \<lparr>pl_included = [], pl_deferred = [], pl_usedTokens = 0\<rparr>))"

section \<open>What a lookup finds\<close>

lemma table_get_del_fold:
  "table_get (fold table_del ks t) k = (if k \<in> set ks then None else table_get t k)"
  by (induction ks arbitrary: t) (auto simp: table_get_del)

lemma register_aliases_facts:
  assumes "register_aliases n as r = (res, r')" "rg_aliasMap r = m" "rg_baseCatalog r = c"
  shows "rg_baseCatalog r' = c \<and> (\<exists>ds. set ds \<subseteq> set as \<and> (res = Inr () \<longrightarrow> ds = as) \<and>
     (\<forall>a \<in> set ds. table_get m a = None) \<and>
     (\<forall>k. table_get (rg_aliasMap r') k = (if k \<in> set ds then Some n else table_get m k)))"
  using assms
proof (induction as arbitrary: r m)
  case Nil
  then show ?case by (intro conjI exI[of _ "[]"]) auto
next
  case (Cons a as)
  show ?case
  proof (cases "table_get (rg_aliasMap r) a \<noteq> None \<or> table_get (rg_baseCatalog r) a \<noteq> None")
    case True
    then show ?thesis using Cons.prems by (intro conjI exI[of _ "[]"]) auto
  next
    case False
    have "register_aliases n as (r\<lparr>rg_aliasMap := table_put a n m\<rparr>) = (res, r')" using Cons.prems False by simp
    from Cons.IH[OF this, of "table_put a n m"] Cons.prems(3) obtain xs where xs: "rg_baseCatalog r' = c"
      "set xs \<subseteq> set as" "res = Inr () \<longrightarrow> xs = as" "\<forall>b \<in> set xs. table_get (table_put a n m) b = None"
      "\<forall>k. table_get (rg_aliasMap r') k = (if k \<in> set xs then Some n else table_get (table_put a n m) k)"
      by auto
    then show ?thesis using False Cons.prems(2)
      by (intro conjI exI[of _ "a # xs"]) (auto simp: table_get_put split: if_splits)
  qed
qed

text \<open>
  What holds of every registry that the operations reach: a tool is filed under its own name, and an alias
  belongs to a tool in the catalog that declares it.
\<close>

definition registry_ok :: "registry \<Rightarrow> bool" where
  "registry_ok r \<longleftrightarrow> (\<forall>n t. table_get (rg_baseCatalog r) n = Some t \<longrightarrow> tl_name t = n) \<and>
     (\<forall>a n. table_get (rg_aliasMap r) a = Some n \<longrightarrow> (\<exists>t. table_get (rg_baseCatalog r) n = Some t \<and> a \<in> set (tl_aliases t)))"

datatype registry_op = Op_Register tool | Op_Unregister string

fun registry_step :: "registry_op \<Rightarrow> registry \<Rightarrow> registry" where
  "registry_step (Op_Register t) r = snd (register t r)"
| "registry_step (Op_Unregister n) r = snd (unregister n r)"

lemma register_cases:
  assumes "register t r = (res, r')"
  shows "r' = r \<and> table_get (rg_baseCatalog r) (tl_name t) \<noteq> None \<and> res \<noteq> Inr () \<or>
    table_get (rg_baseCatalog r) (tl_name t) = None \<and> rg_baseCatalog r' = table_put (tl_name t) t (rg_baseCatalog r) \<and>
    (\<exists>ds. set ds \<subseteq> set (tl_aliases t) \<and> (res = Inr () \<longrightarrow> ds = tl_aliases t) \<and>
       (\<forall>a \<in> set ds. table_get (rg_aliasMap r) a = None) \<and>
       (\<forall>k. table_get (rg_aliasMap r') k = (if k \<in> set ds then Some (tl_name t) else table_get (rg_aliasMap r) k)))"
proof (cases "table_get (rg_baseCatalog r) (tl_name t)")
  case None
  then have "register_aliases (tl_name t) (tl_aliases t) (r\<lparr>rg_baseCatalog := table_put (tl_name t) t (rg_baseCatalog r)\<rparr>) = (res, r')"
    using assms by (simp add: register_def)
  from register_aliases_facts[OF this, of "rg_aliasMap r" "table_put (tl_name t) t (rg_baseCatalog r)"] None show ?thesis by simp
qed (use assms in \<open>auto simp: register_def\<close>)

lemma register_ok:
  assumes "registry_ok r" "register t r = (res, r')"
  shows "registry_ok r'"
  using register_cases[OF assms(2)]
proof (elim disjE conjE exE)
  fix ds assume new: "table_get (rg_baseCatalog r) (tl_name t) = None" "rg_baseCatalog r' = table_put (tl_name t) t (rg_baseCatalog r)"
    "set ds \<subseteq> set (tl_aliases t)"
    "\<forall>k. table_get (rg_aliasMap r') k = (if k \<in> set ds then Some (tl_name t) else table_get (rg_aliasMap r) k)"
  have "\<exists>t'. table_get (rg_baseCatalog r') n = Some t' \<and> a \<in> set (tl_aliases t')" if "table_get (rg_aliasMap r') a = Some n" for a n
  proof (cases "a \<in> set ds")
    case False
    then have "table_get (rg_aliasMap r) a = Some n" using that new(4) by simp
    then obtain t' where "table_get (rg_baseCatalog r) n = Some t'" "a \<in> set (tl_aliases t')"
      using assms(1) unfolding registry_ok_def by blast
    then show ?thesis using new(1,2) by (auto simp: table_get_put)
  qed (use that new in \<open>auto simp: table_get_put\<close>)
  moreover have "tl_name t' = n" if "table_get (rg_baseCatalog r') n = Some t'" for n t'
    using that new(2) assms(1) unfolding registry_ok_def by (auto simp: table_get_put split: if_splits)
  ultimately show ?thesis unfolding registry_ok_def by blast
qed (use assms(1) in simp)

lemma unregister_ok:
  assumes "registry_ok r"
  shows "registry_ok (snd (unregister n r))"
proof (cases "table_get (rg_baseCatalog r) n")
  case (Some t)
  let ?r = "snd (unregister n r)"
  have "\<exists>t'. table_get (rg_baseCatalog ?r) m = Some t' \<and> a \<in> set (tl_aliases t')" if "table_get (rg_aliasMap ?r) a = Some m" for a m
  proof -
    have a: "a \<notin> set (tl_aliases t)" "table_get (rg_aliasMap r) a = Some m"
      using that by (auto simp: unregister_def Some table_get_del_fold split: if_splits)
    with assms obtain t' where "table_get (rg_baseCatalog r) m = Some t'" "a \<in> set (tl_aliases t')"
      unfolding registry_ok_def by blast
    moreover from this a(1) Some have "m \<noteq> n" by auto
    ultimately show ?thesis by (simp add: unregister_def Some table_get_del)
  qed
  then show ?thesis using assms Some by (auto simp: registry_ok_def unregister_def table_get_del split: if_splits)
qed (simp add: unregister_def assms)

lemma reachable_registry_ok: "registry_ok (fold registry_step as empty_registry)"
proof -
  have step: "registry_ok (registry_step a r)" if "registry_ok r" for a r
  proof (cases a)
    case (Op_Register t)
    obtain res r' where "register t r = (res, r')" by fastforce
    then show ?thesis using register_ok[OF that] Op_Register by simp
  qed (simp add: unregister_ok that)
  have "registry_ok r \<Longrightarrow> registry_ok (fold registry_step as r)" for r
    by (induction as arbitrary: r) (simp_all add: step)
  moreover have "registry_ok empty_registry" by (simp add: registry_ok_def empty_registry_def)
  ultimately show ?thesis by blast
qed

text \<open>
  C27. The registry finds what it was given. After any sequence of registrations and removals, failed ones
  included, a lookup gives a tool only under its own name or an alias that it declares, and a
  registration that succeeds is found under its aliases, under its name unless that is an alias of
  another tool, and leaves every other lookup as it was.
\<close>
theorem lookup_is_sound:
  fixes as :: "registry_op list"
  defines "r \<equiv> fold registry_step as empty_registry"
  shows "(\<forall>k t. get_tool r k = Some t \<longrightarrow> k = tl_name t \<or> k \<in> set (tl_aliases t)) \<and>
    (\<forall>t r'. register t r = (Inr (), r') \<longrightarrow>
       (\<forall>k. get_tool r' k = (if k \<in> set (tl_aliases t) \<or> k = tl_name t \<and> table_get (rg_aliasMap r) k = None then Some t
                            else get_tool r k)))"
proof (intro conjI allI impI)
  have ok: "registry_ok r" unfolding r_def by (rule reachable_registry_ok)
  show "k = tl_name t \<or> k \<in> set (tl_aliases t)" if "get_tool r k = Some t" for k t
    using that ok unfolding get_tool_def registry_ok_def by (cases "table_get (rg_aliasMap r) k") fastforce+
  show "get_tool r' k = (if k \<in> set (tl_aliases t) \<or> k = tl_name t \<and> table_get (rg_aliasMap r) k = None then Some t else get_tool r k)"
    if "register t r = (Inr (), r')" for t r' k
  proof -
    from register_cases[OF that] have new: "table_get (rg_baseCatalog r) (tl_name t) = None"
        "rg_baseCatalog r' = table_put (tl_name t) t (rg_baseCatalog r)"
        "table_get (rg_aliasMap r') k = (if k \<in> set (tl_aliases t) then Some (tl_name t) else table_get (rg_aliasMap r) k)"
      by auto
    have "n \<noteq> tl_name t" if "table_get (rg_aliasMap r) k = Some n" for n
      using that new(1) ok unfolding registry_ok_def by force
    then show ?thesis using new
      by (cases "table_get (rg_aliasMap r) k") (auto simp: get_tool_def table_get_put)
  qed
qed

text \<open>
  Clashes of names are not kept out. A tool whose name is an alias of another tool is registered
  without an error, and its name goes on giving the other tool. A registration that fails at an
  alias leaves the tool in the catalog, where it is found by its name, and removing it again takes
  the alias away from the tool that owns it.
\<close>
lemma name_clashes_get_through:
  assumes "registry_ok r" "table_get (rg_aliasMap r) a = Some n" "table_get (rg_baseCatalog r) a = None"
    "table_get (rg_baseCatalog r) m = None" "table_get (rg_aliasMap r) m = None"
  shows "(\<exists>r' t'. register (t\<lparr>tl_name := a, tl_aliases := []\<rparr>) r = (Inr (), r') \<and> get_tool r' a = Some t' \<and> tl_name t' = n \<and> n \<noteq> a) \<and>
    (\<exists>e r'. register (t\<lparr>tl_name := m, tl_aliases := [a]\<rparr>) r = (Inl e, r') \<and>
       get_tool r' m = Some (t\<lparr>tl_name := m, tl_aliases := [a]\<rparr>) \<and>
       get_tool r a \<noteq> None \<and> get_tool (snd (unregister m r')) a = None)"
proof -
  obtain t' where t': "table_get (rg_baseCatalog r) n = Some t'" "tl_name t' = n"
    using assms(1,2) unfolding registry_ok_def by blast
  then have "n \<noteq> a" using assms(3) by auto
  then have "\<exists>r' t'. register (t\<lparr>tl_name := a, tl_aliases := []\<rparr>) r = (Inr (), r') \<and> get_tool r' a = Some t' \<and> tl_name t' = n \<and> n \<noteq> a"
    using t' assms(2,3) by (simp add: register_def get_tool_def table_get_put)
  moreover have "m \<noteq> a" using assms(2,5) by auto
  then have "\<exists>e r'. register (t\<lparr>tl_name := m, tl_aliases := [a]\<rparr>) r = (Inl e, r') \<and>
       get_tool r' m = Some (t\<lparr>tl_name := m, tl_aliases := [a]\<rparr>) \<and>
       get_tool r a \<noteq> None \<and> get_tool (snd (unregister m r')) a = None"
    using t' assms(2-5) by (simp add: register_def get_tool_def table_get_put unregister_def table_get_del)
  ultimately show ?thesis by blast
qed

section \<open>The assembled pool\<close>

lemma always_fold:
  "fold (add_always describe) ts p =
     p\<lparr>pl_included := pl_included p @ ts, pl_usedTokens := pl_usedTokens p + sum_list (map (estimate_tokens describe) ts)\<rparr>"
  by (induction ts arbitrary: p) (simp_all add: add_always_def)

definition accounted :: "(tool \<Rightarrow> string) \<Rightarrow> assembled_pool \<Rightarrow> bool" where
  "accounted describe p \<longleftrightarrow> pl_usedTokens p = sum_list (map (estimate_tokens describe) (pl_included p))"

lemma optional_fold:
  fixes ts budget
  assumes "accounted describe p"
  defines "q \<equiv> fold (add_optional describe budget) ts p"
  shows "accounted describe q \<and> mset (pl_included q) + mset (pl_deferred q) = mset (pl_included p) + mset (pl_deferred p) + mset ts \<and>
    int (pl_usedTokens q) \<le> max budget (int (pl_usedTokens p)) \<and> (\<exists>ys. pl_included q = pl_included p @ ys)"
  unfolding q_def using assms(1)
proof (induction ts arbitrary: p)
  case (Cons t ts)
  let ?p = "add_optional describe budget t p"
  have "accounted describe ?p" using Cons.prems by (simp add: accounted_def add_optional_def add_always_def)
  note IH = Cons.IH[OF this]
  have "mset (pl_included ?p) + mset (pl_deferred ?p) = add_mset t (mset (pl_included p) + mset (pl_deferred p))"
    "int (pl_usedTokens ?p) \<le> max budget (int (pl_usedTokens p))" "\<exists>ys. pl_included ?p = pl_included p @ ys"
    by (auto simp: add_optional_def add_always_def)
  then show ?case using IH by (auto simp: max_def split: if_splits)
qed simp

lemma assembled_pool_bounds:
  fixes describe f budget r
  defines "pool \<equiv> assemble describe f budget r" and "always \<equiv> filter tl_alwaysLoad (filter_by_context f r)"
  shows "mset (pl_included pool) + mset (pl_deferred pool) = mset (filter_by_context f r)"
    "pl_usedTokens pool = sum_list (map (estimate_tokens describe) (pl_included pool))"
    "int (pl_usedTokens pool) \<le> max budget (int (sum_list (map (estimate_tokens describe) always)))"
    "set always \<subseteq> set (pl_included pool)"
proof -
  let ?p = "\<lparr>pl_included = always, pl_deferred = [], pl_usedTokens = sum_list (map (estimate_tokens describe) always)\<rparr>"
  let ?o = "sort_by_relevance f (filter (\<lambda>t. \<not> tl_alwaysLoad t) (filter_by_context f r))"
  have pool: "pool = fold (add_optional describe budget) ?o ?p"
    by (simp add: pool_def assemble_def Let_def always_fold always_def)
  have start: "accounted describe ?p" by (simp add: accounted_def)
  have "mset ?o + mset always = mset (filter_by_context f r)"
    by (simp add: sort_by_relevance_def always_def)
  then show "mset (pl_included pool) + mset (pl_deferred pool) = mset (filter_by_context f r)"
    using optional_fold[OF start, where ts = ?o and budget = budget, THEN conjunct2, THEN conjunct1] by (simp add: pool union_commute)
  show "pl_usedTokens pool = sum_list (map (estimate_tokens describe) (pl_included pool))"
    using optional_fold[OF start, where ts = ?o and budget = budget, THEN conjunct1] by (simp add: pool accounted_def)
  show "int (pl_usedTokens pool) \<le> max budget (int (sum_list (map (estimate_tokens describe) always)))"
    using optional_fold[OF start, where ts = ?o and budget = budget, THEN conjunct2, THEN conjunct2, THEN conjunct1] by (simp add: pool)
  show "set always \<subseteq> set (pl_included pool)"
    using optional_fold[OF start, where ts = ?o and budget = budget, THEN conjunct2, THEN conjunct2, THEN conjunct2] by (auto simp: pool)
qed

section \<open>The limit of concurrent calls\<close>

text \<open>
  A call of the tool \<open>shell\<close> carries its directory. \<open>cc_woken\<close> are the waiting calls whose promise is
  resolved and whose continuation has not run yet. The controller of a shell call is identified
  with the call; \<open>cc_aborted\<close> are the calls whose controller was aborted.
\<close>

record call =
  ca_id :: nat
  ca_shell :: "string option"

record controller =
  cc_activeCount :: nat
  cc_queue :: "call list"
  cc_woken :: "call list"
  cc_running :: "call list"
  cc_activeShells :: "(string, nat) table"
  cc_aborted :: "nat list"

definition fresh_controller :: controller where
  "fresh_controller = \<lparr>cc_activeCount = 0, cc_queue = [], cc_woken = [], cc_running = [], cc_activeShells = [], cc_aborted = []\<rparr>"

definition start_call :: "call \<Rightarrow> controller \<Rightarrow> controller" where
  "start_call c s =
     (let s1 = s\<lparr>cc_activeCount := cc_activeCount s + 1, cc_running := cc_running s @ [c]\<rparr>
      in case ca_shell c of
           None \<Rightarrow> s1
         | Some cwd \<Rightarrow> s1\<lparr>cc_aborted := cc_aborted s @ (case table_get (cc_activeShells s) cwd of Some i \<Rightarrow> [i] | None \<Rightarrow> []),
                         cc_activeShells := table_put cwd (ca_id c) (cc_activeShells s)\<rparr>)"

definition finish_call :: "call \<Rightarrow> controller \<Rightarrow> controller" where
  "finish_call c s =
     (let shells = (case ca_shell c of
            None \<Rightarrow> cc_activeShells s
          | Some cwd \<Rightarrow> if table_get (cc_activeShells s) cwd = Some (ca_id c) then table_del cwd (cc_activeShells s) else cc_activeShells s);
          s1 = s\<lparr>cc_activeCount := cc_activeCount s - 1, cc_running := remove1 c (cc_running s), cc_activeShells := shells\<rparr>
      in case cc_queue s of
           [] \<Rightarrow> s1
         | w # ws \<Rightarrow> s1\<lparr>cc_queue := ws, cc_woken := cc_woken s @ [w]\<rparr>)"

inductive conc_step :: "nat \<Rightarrow> controller \<Rightarrow> controller \<Rightarrow> bool" for limit where
  enter: "cc_activeCount s < limit \<Longrightarrow> conc_step limit s (start_call c s)"
| wait: "limit \<le> cc_activeCount s \<Longrightarrow> conc_step limit s (s\<lparr>cc_queue := cc_queue s @ [c]\<rparr>)"
| resume: "cc_woken s = c # ws \<Longrightarrow> conc_step limit s (start_call c (s\<lparr>cc_woken := ws\<rparr>))"
| finish: "c \<in> set (cc_running s) \<Longrightarrow> conc_step limit s (finish_call c s)"

text \<open>The same without overtaking: no call enters while a woken one has not continued.\<close>

inductive fair_step :: "nat \<Rightarrow> controller \<Rightarrow> controller \<Rightarrow> bool" for limit where
  "conc_step limit s s' \<Longrightarrow> (cc_woken s \<noteq> [] \<Longrightarrow> cc_activeCount s < limit \<Longrightarrow> (\<nexists>c. s' = start_call c s)) \<Longrightarrow> fair_step limit s s'"

inductive_cases conc_stepE: "conc_step limit s s'"

lemma start_call_simps [simp]:
  "cc_activeCount (start_call c s) = Suc (cc_activeCount s)" "cc_queue (start_call c s) = cc_queue s"
  "cc_woken (start_call c s) = cc_woken s" "cc_running (start_call c s) = cc_running s @ [c]"
  by (simp_all add: start_call_def Let_def split: option.split)

lemma finish_call_simps [simp]:
  "cc_activeCount (finish_call c s) = cc_activeCount s - 1" "cc_running (finish_call c s) = remove1 c (cc_running s)"
  "cc_queue (finish_call c s) = tl (cc_queue s)"
  "cc_woken (finish_call c s) = cc_woken s @ (case cc_queue s of [] \<Rightarrow> [] | w # ws \<Rightarrow> [w])"
  by (simp_all add: finish_call_def Let_def split: list.split)

lemma running_counted:
  "(conc_step limit)\<^sup>*\<^sup>* fresh_controller s \<Longrightarrow> cc_activeCount s = length (cc_running s)"
proof (induction rule: rtranclp_induct)
  case (step s s')
  from step.hyps(2) show ?case
    by cases (use step.IH in \<open>auto simp: length_remove1\<close>)
qed (simp add: fresh_controller_def)

text \<open>
  Without overtaking the limit holds. As long as no call enters while a woken call has not continued
  yet, the active calls and the woken ones together never exceed the limit, and no call waits
  while there is room.
\<close>
lemma limit_holds_without_overtaking:
  assumes "(fair_step limit)\<^sup>*\<^sup>* fresh_controller s"
  shows "cc_activeCount s + length (cc_woken s) \<le> limit \<and>
    (cc_queue s \<noteq> [] \<longrightarrow> cc_activeCount s + length (cc_woken s) = limit)"
  using assms
proof (induction rule: rtranclp_induct)
  case (step s s')
  have "(conc_step limit)\<^sup>*\<^sup>* fresh_controller s"
    using step.hyps(1) by (rule rtranclp_mono[THEN predicate2D, rotated]) (auto elim: fair_step.cases)
  then have active: "cc_activeCount s = length (cc_running s)" by (rule running_counted)
  from step.hyps(2) have "conc_step limit s s'" and
    fair: "cc_woken s \<noteq> [] \<Longrightarrow> cc_activeCount s < limit \<Longrightarrow> \<nexists>c. s' = start_call c s" by (auto elim: fair_step.cases)
  then show ?case
  proof cases
    case (enter c)
    then have "cc_woken s = []" using fair by auto
    then show ?thesis using enter step.IH by auto
  next
    case (finish c)
    then have "cc_running s \<noteq> []" by auto
    then show ?thesis using finish step.IH active by (cases "cc_queue s") (auto simp: length_remove1)
  qed (use step.IH in auto)
qed (simp add: fresh_controller_def)

lemma wait_many:
  "limit \<le> cc_activeCount s \<Longrightarrow> (conc_step limit)\<^sup>*\<^sup>* s (s\<lparr>cc_queue := cc_queue s @ replicate n c\<rparr>)"
proof (induction n)
  case (Suc n)
  let ?s = "s\<lparr>cc_queue := cc_queue s @ replicate n c\<rparr>"
  have "conc_step limit ?s (?s\<lparr>cc_queue := cc_queue ?s @ [c]\<rparr>)" using Suc.prems by (intro conc_step.wait) simp
  moreover have "?s\<lparr>cc_queue := cc_queue ?s @ [c]\<rparr> = s\<lparr>cc_queue := cc_queue s @ replicate (Suc n) c\<rparr>"
    by (simp add: replicate_append_same)
  ultimately show ?case using Suc.IH[OF Suc.prems] by (simp only: rtranclp.rtrancl_into_rtrancl)
qed simp

lemma finish_many:
  "n \<le> length (cc_running s) \<Longrightarrow> length (cc_running s) = cc_activeCount s \<Longrightarrow> n \<le> length (cc_queue s) \<Longrightarrow>
   \<exists>s'. (conc_step limit)\<^sup>*\<^sup>* s s' \<and> cc_activeCount s' = cc_activeCount s - n \<and> length (cc_woken s') = length (cc_woken s) + n \<and>
     cc_queue s' = drop n (cc_queue s)"
proof (induction n arbitrary: s)
  case (Suc n)
  from Suc.prems(1) obtain c cs where run: "cc_running s = c # cs" by (cases "cc_running s") auto
  from Suc.prems(3) obtain w ws where queue: "cc_queue s = w # ws" by (cases "cc_queue s") auto
  have "conc_step limit s (finish_call c s)" by (rule conc_step.finish) (simp add: run)
  moreover obtain s' where "(conc_step limit)\<^sup>*\<^sup>* (finish_call c s) s'" "cc_activeCount s' = cc_activeCount (finish_call c s) - n"
      "length (cc_woken s') = length (cc_woken (finish_call c s)) + n" "cc_queue s' = drop n (cc_queue (finish_call c s))"
    using Suc.IH[of "finish_call c s"] Suc.prems Suc.prems(2)[symmetric] by (auto simp: run queue)
  ultimately show ?case by (intro exI[of _ s']) (auto simp: queue intro: converse_rtranclp_into_rtranclp)
qed auto

lemma resume_all:
  "\<exists>s'. (conc_step limit)\<^sup>*\<^sup>* s s' \<and> cc_activeCount s' = cc_activeCount s + length (cc_woken s) \<and> cc_woken s' = [] \<and> cc_queue s' = cc_queue s"
proof (induction "cc_woken s" arbitrary: s)
  case (Cons c ws)
  let ?s = "start_call c (s\<lparr>cc_woken := ws\<rparr>)"
  have "conc_step limit s ?s" by (rule conc_step.resume) (simp add: Cons.hyps(2)[symmetric])
  moreover obtain s' where "(conc_step limit)\<^sup>*\<^sup>* ?s s'" "cc_activeCount s' = cc_activeCount ?s + length (cc_woken ?s)"
      "cc_woken s' = []" "cc_queue s' = cc_queue ?s"
    using Cons.hyps(1)[of ?s] by auto
  ultimately show ?case
    by (intro exI[of _ s']) (auto simp: Cons.hyps(2)[symmetric] intro: converse_rtranclp_into_rtranclp)
qed auto

text \<open>
  With overtaking there is no limit at all. A waiting call that is woken counts itself only when its
  continuation runs; a call that enters in between takes the free place as well. For every number there is a
  run in which that many calls more than the limit are active at once.
\<close>
lemma overtaking_breaks_the_limit:
  assumes "1 \<le> limit"
  shows "\<exists>s. (conc_step limit)\<^sup>*\<^sup>* fresh_controller s \<and> cc_activeCount s = limit + k \<and> length (cc_running s) = limit + k"
proof -
  have "\<exists>s. (conc_step limit)\<^sup>*\<^sup>* fresh_controller s \<and> cc_activeCount s = limit + k \<and> cc_woken s = [] \<and> cc_queue s = []"
  proof (induction k)
    case 0
    have "\<exists>s. (conc_step limit)\<^sup>*\<^sup>* fresh_controller s \<and> cc_activeCount s = n \<and> cc_woken s = [] \<and> cc_queue s = []" if "n \<le> limit" for n
      using that
    proof (induction n)
      case (Suc n)
      then obtain s where s: "(conc_step limit)\<^sup>*\<^sup>* fresh_controller s" "cc_activeCount s = n" "cc_woken s = []" "cc_queue s = []" by auto
      then have "conc_step limit s (start_call \<lparr>ca_id = 0, ca_shell = None\<rparr> s)" using Suc.prems by (intro conc_step.enter) simp
      with s show ?case by (intro exI[of _ "start_call \<lparr>ca_id = 0, ca_shell = None\<rparr> s"]) (auto intro: rtranclp.rtrancl_into_rtrancl)
    qed (auto simp: fresh_controller_def)
    then show ?case by simp
  next
    case (Suc k)
    let ?c = "\<lparr>ca_id = 0, ca_shell = None\<rparr>"
    from Suc obtain s0 where s0: "(conc_step limit)\<^sup>*\<^sup>* fresh_controller s0" "cc_activeCount s0 = limit + k" "cc_woken s0 = []" "cc_queue s0 = []"
      by blast
    let ?s1 = "s0\<lparr>cc_queue := replicate (Suc k) ?c\<rparr>"
    have s1: "(conc_step limit)\<^sup>*\<^sup>* fresh_controller ?s1"
      using s0 wait_many[of limit s0 "Suc k" ?c] by (auto intro: rtranclp_trans)
    from running_counted[OF s1] s0(2) have run: "length (cc_running ?s1) = cc_activeCount ?s1" "Suc k \<le> length (cc_running ?s1)"
      using assms by auto
    from finish_many[OF run(2,1), of limit] obtain s2 where s2: "(conc_step limit)\<^sup>*\<^sup>* ?s1 s2" "cc_activeCount s2 = limit + k - Suc k"
        "length (cc_woken s2) = Suc k" "cc_queue s2 = []"
      using s0 by auto
    let ?s3 = "start_call ?c s2"
    have "conc_step limit s2 ?s3" using s2(2) assms by (intro conc_step.enter) auto
    moreover obtain s4 where "(conc_step limit)\<^sup>*\<^sup>* ?s3 s4" "cc_activeCount s4 = cc_activeCount ?s3 + length (cc_woken ?s3)"
        "cc_woken s4 = []" "cc_queue s4 = cc_queue ?s3"
      using resume_all by blast
    ultimately have "(conc_step limit)\<^sup>*\<^sup>* fresh_controller s4"
      using s1 s2(1) by (meson rtranclp.rtrancl_into_rtrancl rtranclp_trans)
    then show ?case
      using \<open>cc_activeCount s4 = _\<close> \<open>cc_woken s4 = []\<close> \<open>cc_queue s4 = _\<close> s2 assms by (intro exI[of _ s4]) auto
  qed
  then show ?thesis using running_counted by metis
qed

section \<open>Examples\<close>

definition aliased_tool :: tool where
  "aliased_tool = (sample_tool ''read'' Level_Read_Only)\<lparr>tl_aliases := [''cat'']\<rparr>"

definition sample_registry_ops :: "registry_op list" where
  "sample_registry_ops = [Op_Register aliased_tool]"

lemma sample_registry_state:
  "fold registry_step sample_registry_ops empty_registry = \<lparr>rg_baseCatalog = [(''read'', aliased_tool)], rg_aliasMap = [(''cat'', ''read'')]\<rparr>"
  by (simp add: sample_registry_ops_def register_def empty_registry_def aliased_tool_def sample_tool_def)

theorem lookup_is_sound_witness:
  "get_tool (snd (register (sample_tool ''grep'' Level_Read_Only) (fold registry_step sample_registry_ops empty_registry))) ''grep'' =
     Some (sample_tool ''grep'' Level_Read_Only)"
proof -
  let ?r = "fold registry_step sample_registry_ops empty_registry" and ?t = "sample_tool ''grep'' Level_Read_Only"
  have "register ?t ?r = (Inr (), snd (register ?t ?r))"
    by (simp add: sample_registry_state register_def sample_tool_def)
  moreover have "table_get (rg_aliasMap ?r) ''grep'' = None" "tl_name ?t = ''grep''"
    by (simp_all add: sample_registry_state sample_tool_def)
  ultimately show ?thesis using lookup_is_sound[of sample_registry_ops] by presburger
qed

end
