(* ===== verification/Experiment_Queue.thy ===== *)
theory Experiment_Queue
  imports PS_Prelude Json_Values
begin

text \<open>
  Experiment queues: \<open>src/runtime/store/experiment-queue-store.ts\<close>. A queue is a list of revisions; a
  revision is designed, frozen, and then executed item by item.

  The table \<open>runtime_experiment_queues\<close> is an association table from queue id to record; the columns
  besides \<open>record_json\<close> are copies of fields. A method loads in one transaction and saves in another:
  \<open>others\<close> is what happens in between. \<open>evidence_ok\<close> is the schema of the evidence that the
  results carry and \<open>text_of\<close> the writer of JSON. The texts of errors leave out version numbers.
\<close>

section \<open>The records\<close>

datatype phase = Designing | Executing_Frozen_Queue

datatype revision_status = Rv_Draft | Rv_Frozen | Rv_Executing | Rv_Completed | Rv_Blocked

datatype item_status = It_Pending | It_Running | It_Succeeded | It_Failed | It_Skipped | It_Cancelled

record provenance =
  pv_source :: string
  pv_created_by :: "string option"
  pv_evidence_refs :: "string list option"
  pv_artifact_refs :: "string list option"
  pv_notes :: "string option"

record queue_item =
  qi_item_id :: string
  qi_idempotency_key :: string
  qi_title :: "string option"
  qi_config :: json
  qi_status :: item_status
  qi_output_artifacts :: "json list"
  qi_metrics :: "json list"
  qi_error :: "string option"
  qi_claimed_by :: "string option"
  qi_started_at :: "timestamp option"
  qi_completed_at :: "timestamp option"
  qi_updated_at :: timestamp
  qi_provenance :: provenance

record revision =
  rv_version :: int
  rv_phase :: phase
  rv_status :: revision_status
  rv_revision_of :: "int option"
  rv_revision_reason :: "string option"
  rv_created_at :: timestamp
  rv_frozen_at :: "timestamp option"
  rv_updated_at :: timestamp
  rv_provenance :: provenance
  rv_items :: "queue_item list"

record experiment_queue =
  eq_queue_id :: string
  eq_goal_id :: "string option"
  eq_run_id :: "string option"
  eq_title :: "string option"
  eq_current_version :: int
  eq_created_at :: timestamp
  eq_updated_at :: timestamp
  eq_revisions :: "revision list"

abbreviation (input) filled :: "string \<Rightarrow> bool" where
  "filled s \<equiv> s \<noteq> []"

definition provenance_valid :: "provenance \<Rightarrow> bool" where
  "provenance_valid p \<longleftrightarrow> filled (pv_source p) \<and> opt_all filled (pv_created_by p) \<and> opt_all (list_all filled) (pv_evidence_refs p) \<and>
     opt_all (list_all filled) (pv_artifact_refs p) \<and> opt_all filled (pv_notes p)"

definition item_valid :: "(json \<Rightarrow> bool) \<Rightarrow> queue_item \<Rightarrow> bool" where
  "item_valid evidence_ok i \<longleftrightarrow> filled (qi_item_id i) \<and> filled (qi_idempotency_key i) \<and> opt_all filled (qi_title i) \<and>
     is_json_object (qi_config i) \<and> list_all evidence_ok (qi_output_artifacts i) \<and> list_all evidence_ok (qi_metrics i) \<and>
     opt_all filled (qi_error i) \<and> opt_all filled (qi_claimed_by i) \<and> opt_all datetime_valid (qi_started_at i) \<and>
     opt_all datetime_valid (qi_completed_at i) \<and> datetime_valid (qi_updated_at i) \<and> provenance_valid (qi_provenance i)"

definition revision_valid :: "(json \<Rightarrow> bool) \<Rightarrow> revision \<Rightarrow> bool" where
  "revision_valid evidence_ok r \<longleftrightarrow> safe_pos (rv_version r) \<and> opt_all safe_pos (rv_revision_of r) \<and> opt_all filled (rv_revision_reason r) \<and>
     datetime_valid (rv_created_at r) \<and> opt_all datetime_valid (rv_frozen_at r) \<and> datetime_valid (rv_updated_at r) \<and>
     provenance_valid (rv_provenance r) \<and> list_all (item_valid evidence_ok) (rv_items r) \<and> distinct (map qi_item_id (rv_items r))"

definition queue_valid :: "(json \<Rightarrow> bool) \<Rightarrow> experiment_queue \<Rightarrow> bool" where
  "queue_valid evidence_ok q \<longleftrightarrow> filled (eq_queue_id q) \<and>
     list_all (opt_all filled) [eq_goal_id q, eq_run_id q, eq_title q] \<and> safe_pos (eq_current_version q) \<and>
     datetime_valid (eq_created_at q) \<and> datetime_valid (eq_updated_at q) \<and> eq_revisions q \<noteq> [] \<and>
     list_all (revision_valid evidence_ok) (eq_revisions q) \<and> eq_current_version q \<in> set (map rv_version (eq_revisions q))"

section \<open>The table\<close>

type_synonym experiment_table = "(string, experiment_queue) table"

text \<open>A row that the schema refuses is read as if it were missing.\<close>

definition read_experiment_queue :: "(json \<Rightarrow> bool) \<Rightarrow> experiment_table \<Rightarrow> string \<Rightarrow> experiment_queue option" where
  "read_experiment_queue ok t i = (case table_get t i of Some q \<Rightarrow> if queue_valid ok q then Some q else None | None \<Rightarrow> None)"

definition list_experiment_queues :: "(json \<Rightarrow> bool) \<Rightarrow> experiment_table \<Rightarrow> experiment_queue list" where
  "list_experiment_queues ok t = filter (queue_valid ok) (map snd (sort_key fst t))"

definition save_queue :: "(json \<Rightarrow> bool) \<Rightarrow> experiment_queue \<Rightarrow> experiment_table \<Rightarrow> experiment_queue result \<times> experiment_table" where
  "save_queue ok q t = (if queue_valid ok q then (Inr q, table_put (eq_queue_id q) q t) else (Inl SchemaError, t))"

section \<open>Creating and revising\<close>

record item_input =
  ii_item_id :: string
  ii_idempotency_key :: "string option"
  ii_title :: "string option"
  ii_config :: json
  ii_provenance :: provenance

definition normalize_item :: "(json \<Rightarrow> string) \<Rightarrow> item_input \<Rightarrow> timestamp \<Rightarrow> queue_item" where
  "normalize_item text_of i tm =
     \<lparr>qi_item_id = ii_item_id i,
      qi_idempotency_key = nullish (ii_idempotency_key i) (ii_item_id i @ '':'' @ text_of (stable_json (ii_config i))),
      qi_title = ii_title i, qi_config = ii_config i, qi_status = It_Pending, qi_output_artifacts = [], qi_metrics = [],
      qi_error = None, qi_claimed_by = None, qi_started_at = None, qi_completed_at = None, qi_updated_at = tm,
      qi_provenance = ii_provenance i\<rparr>"

definition draft_revision ::
  "(json \<Rightarrow> string) \<Rightarrow> int \<Rightarrow> int option \<Rightarrow> string option \<Rightarrow> timestamp \<Rightarrow> provenance \<Rightarrow> item_input list \<Rightarrow> revision" where
  "draft_revision text_of v prev why tm pv items =
     \<lparr>rv_version = v, rv_phase = Designing, rv_status = Rv_Draft, rv_revision_of = prev, rv_revision_reason = why,
      rv_created_at = tm, rv_frozen_at = None, rv_updated_at = tm, rv_provenance = pv,
      rv_items = map (\<lambda>i. normalize_item text_of i tm) items\<rparr>"

record create_input =
  ci_queue_id :: string
  ci_goal_id :: "string option"
  ci_run_id :: "string option"
  ci_title :: "string option"
  ci_created_at :: "timestamp option"
  ci_provenance :: provenance
  ci_items :: "item_input list"

definition present_text :: "string option \<Rightarrow> string option" where
  "present_text x = (if truthy x then x else None)"

text \<open>The parts of a record are checked where they are made, and once more with the whole record.\<close>

definition create_queue ::
  "(json \<Rightarrow> bool) \<Rightarrow> (json \<Rightarrow> string) \<Rightarrow> create_input \<Rightarrow> timestamp \<Rightarrow> (experiment_table \<Rightarrow> experiment_table) \<Rightarrow> experiment_table \<Rightarrow>
   experiment_queue result \<times> experiment_table" where
  "create_queue ok text_of c now others t = (case read_experiment_queue ok t (ci_queue_id c) of
     Some q \<Rightarrow> (Inl (Thrown (''Experiment queue already exists: '' @ ci_queue_id c @ ''; use appendRevision for explicit queue changes'')), others t)
   | None \<Rightarrow>
       (let tm = nullish (ci_created_at c) now
        in save_queue ok
             \<lparr>eq_queue_id = ci_queue_id c, eq_goal_id = present_text (ci_goal_id c), eq_run_id = present_text (ci_run_id c),
              eq_title = present_text (ci_title c), eq_current_version = 1, eq_created_at = tm, eq_updated_at = tm,
              eq_revisions = [draft_revision text_of 1 None None tm (ci_provenance c) (ci_items c)]\<rparr> (others t)))"

definition current_revision :: "experiment_queue \<Rightarrow> revision result" where
  "current_revision q = (case find (\<lambda>r. rv_version r = eq_current_version q) (eq_revisions q) of
     Some r \<Rightarrow> Inr r
   | None \<Rightarrow> Inl (Thrown (''Experiment queue '' @ eq_queue_id q @ '' current version is missing'')))"

definition update_queue ::
  "(json \<Rightarrow> bool) \<Rightarrow> string \<Rightarrow> (experiment_queue \<Rightarrow> experiment_queue result) \<Rightarrow> (experiment_table \<Rightarrow> experiment_table) \<Rightarrow>
   experiment_table \<Rightarrow> experiment_queue result \<times> experiment_table" where
  "update_queue ok i updater others t = (case read_experiment_queue ok t i of
     None \<Rightarrow> (Inl (Thrown (''Experiment queue not found: '' @ i)), others t)
   | Some q \<Rightarrow> (case updater q of
       Inl e \<Rightarrow> (Inl e, others t)
     | Inr q' \<Rightarrow> save_queue ok q' (others t)))"

definition frozen :: "timestamp \<Rightarrow> experiment_queue \<Rightarrow> experiment_queue result" where
  "frozen tm q = result_bind (current_revision q) (\<lambda>rev.
     if rv_phase rev = Executing_Frozen_Queue then Inr q
     else Inr (q\<lparr>eq_updated_at := tm,
       eq_revisions := map (\<lambda>r. if rv_version r = rv_version rev
         then r\<lparr>rv_phase := Executing_Frozen_Queue, rv_status := Rv_Frozen, rv_frozen_at := Some tm, rv_updated_at := tm\<rparr> else r)
         (eq_revisions q)\<rparr>))"

record revision_input =
  ri_reason :: string
  ri_created_at :: "timestamp option"
  ri_provenance :: provenance
  ri_items :: "item_input list"

definition revised :: "(json \<Rightarrow> string) \<Rightarrow> revision_input \<Rightarrow> timestamp \<Rightarrow> experiment_queue \<Rightarrow> experiment_queue result" where
  "revised text_of i now q = result_bind (current_revision q) (\<lambda>rev.
     let tm = nullish (ri_created_at i) now; v = Max (set (map rv_version (eq_revisions q))) + 1
     in Inr (q\<lparr>eq_current_version := v, eq_updated_at := tm,
          eq_revisions := eq_revisions q @
            [draft_revision text_of v (Some (rv_version rev)) (Some (ri_reason i)) tm (ri_provenance i) (ri_items i)]\<rparr>))"

section \<open>Executing\<close>

definition terminal_item :: "item_status \<Rightarrow> bool" where
  "terminal_item s \<longleftrightarrow> s = It_Succeeded \<or> s = It_Failed \<or> s = It_Skipped \<or> s = It_Cancelled"

primrec update_items ::
  "string \<Rightarrow> (queue_item \<Rightarrow> queue_item result) \<Rightarrow> queue_item list \<Rightarrow> queue_item list result" where
  "update_items i updater [] = Inr []"
| "update_items i updater (x # xs) =
     result_bind (if qi_item_id x = i then updater x else Inr x) (\<lambda>x'.
       result_bind (update_items i updater xs) (\<lambda>xs'. Inr (x' # xs')))"

text \<open>
  The loop over the revisions: the flags say whether a revision of the version, and an item in it, have
  been found so far.
\<close>

primrec update_revisions ::
  "int \<Rightarrow> string \<Rightarrow> (queue_item \<Rightarrow> revision \<Rightarrow> queue_item result) \<Rightarrow> timestamp \<Rightarrow> bool \<Rightarrow> bool \<Rightarrow> revision list \<Rightarrow>
   (revision list \<times> bool \<times> bool) result" where
  "update_revisions v i updater tm revFound itemFound [] = Inr ([], revFound, itemFound)"
| "update_revisions v i updater tm revFound itemFound (r # rs) =
     (if rv_version r \<noteq> v
      then result_bind (update_revisions v i updater tm revFound itemFound rs) (\<lambda>(rs', fs). Inr (r # rs', fs))
      else result_bind (update_items i (\<lambda>x. updater x r) (rv_items r)) (\<lambda>items.
        let found = (itemFound \<or> list_ex (\<lambda>x. qi_item_id x = i) (rv_items r));
            complete = (items \<noteq> [] \<and> list_all (\<lambda>x. terminal_item (qi_status x)) items);
            r' = (if \<not> found then r
                  else r\<lparr>rv_status := (if complete then Rv_Completed else Rv_Executing), rv_updated_at := tm, rv_items := items\<rparr>)
        in result_bind (update_revisions v i updater tm True found rs) (\<lambda>(rs', fs). Inr (r' # rs', fs))))"

definition item_updated ::
  "int option \<Rightarrow> string \<Rightarrow> (queue_item \<Rightarrow> revision \<Rightarrow> queue_item result) \<Rightarrow> timestamp \<Rightarrow> experiment_queue \<Rightarrow> experiment_queue result" where
  "item_updated v i updater tm q =
     result_bind (update_revisions (nullish v (eq_current_version q)) i updater tm False False (eq_revisions q))
       (\<lambda>(rs, revFound, itemFound).
          if \<not> revFound then Inl (Thrown (''Experiment queue revision not found: '' @ eq_queue_id q))
          else if \<not> itemFound then Inl (Thrown (''Experiment queue item not found: '' @ eq_queue_id q @ '' '' @ i))
          else Inr (q\<lparr>eq_updated_at := tm, eq_revisions := rs\<rparr>))"

definition assert_frozen_execution :: "revision \<Rightarrow> unit result" where
  "assert_frozen_execution r =
     (if rv_phase r = Executing_Frozen_Queue then Inr () else Inl (Thrown ''Experiment queue revision is still in designing''))"

definition started :: "string option \<Rightarrow> timestamp option \<Rightarrow> timestamp \<Rightarrow> queue_item \<Rightarrow> revision \<Rightarrow> queue_item result" where
  "started claimedBy startedAt now x r = result_bind (assert_frozen_execution r) (\<lambda>_.
     if terminal_item (qi_status x) then Inr x
     else let tm = nullish startedAt now
          in Inr (x\<lparr>qi_status := It_Running, qi_claimed_by := (if truthy claimedBy then claimedBy else qi_claimed_by x),
                    qi_started_at := Some (nullish (qi_started_at x) tm), qi_updated_at := tm\<rparr>))"

text \<open>The four states that a result may have.\<close>

datatype final_status = Fin_Succeeded | Fin_Failed | Fin_Skipped | Fin_Cancelled

fun item_status_of :: "final_status \<Rightarrow> item_status" where
  "item_status_of Fin_Succeeded = It_Succeeded"
| "item_status_of Fin_Failed = It_Failed"
| "item_status_of Fin_Skipped = It_Skipped"
| "item_status_of Fin_Cancelled = It_Cancelled"

record result_input =
  rs_version :: "int option"
  rs_item_id :: string
  rs_status :: final_status
  rs_completed_at :: "timestamp option"
  rs_output_artifacts :: "json list option"
  rs_metrics :: "json list option"
  rs_error :: "string option"

definition finished :: "result_input \<Rightarrow> timestamp \<Rightarrow> queue_item \<Rightarrow> revision \<Rightarrow> queue_item result" where
  "finished i now x r = result_bind (assert_frozen_execution r) (\<lambda>_.
     if terminal_item (qi_status x)
     then (if qi_status x \<noteq> item_status_of (rs_status i) then Inl (Thrown (''Experiment queue item '' @ qi_item_id x @ '' already finished'')) else Inr x)
     else let tm = nullish (rs_completed_at i) now
          in Inr (x\<lparr>qi_status := item_status_of (rs_status i), qi_output_artifacts := nullish (rs_output_artifacts i) (qi_output_artifacts x),
                    qi_metrics := nullish (rs_metrics i) (qi_metrics x),
                    qi_error := (if truthy (rs_error i) then rs_error i else qi_error x),
                    qi_completed_at := Some tm, qi_updated_at := tm\<rparr>))"

record directive =
  dr_queue_id :: string
  dr_version :: int
  dr_phase :: phase
  dr_item :: queue_item
  dr_idempotency_key :: string
  dr_resume :: bool

definition next_execution_directive :: "(json \<Rightarrow> bool) \<Rightarrow> string \<Rightarrow> experiment_table \<Rightarrow> directive option result" where
  "next_execution_directive ok i t = (case read_experiment_queue ok t i of
     None \<Rightarrow> Inr None
   | Some q \<Rightarrow> result_bind (current_revision q) (\<lambda>r. result_bind (assert_frozen_execution r) (\<lambda>_.
       case (case find (\<lambda>x. qi_status x = It_Running) (rv_items r) of
               Some x \<Rightarrow> Some x | None \<Rightarrow> find (\<lambda>x. qi_status x = It_Pending) (rv_items r)) of
         None \<Rightarrow> Inr None
       | Some x \<Rightarrow> Inr (Some \<lparr>dr_queue_id = eq_queue_id q, dr_version = rv_version r, dr_phase = rv_phase r, dr_item = x,
                            dr_idempotency_key = qi_idempotency_key x, dr_resume = (qi_status x = It_Running)\<rparr>))))"

text \<open>The operations on a stored queue. Every one reads the clock twice at most.\<close>

datatype queue_op =
  Eq_Freeze string timestamp
| Eq_Append string revision_input timestamp
| Eq_Start string "int option" string "string option" "timestamp option" timestamp timestamp
| Eq_Result string result_input timestamp timestamp
| Eq_Create create_input timestamp

fun perform ::
  "(json \<Rightarrow> bool) \<Rightarrow> (json \<Rightarrow> string) \<Rightarrow> queue_op \<Rightarrow> (experiment_table \<Rightarrow> experiment_table) \<Rightarrow> experiment_table \<Rightarrow>
   experiment_queue result \<times> experiment_table" where
  "perform ok text_of (Eq_Freeze i tm) others t = update_queue ok i (frozen tm) others t"
| "perform ok text_of (Eq_Append i input now) others t = update_queue ok i (revised text_of input now) others t"
| "perform ok text_of (Eq_Start i v item claimedBy startedAt now now') others t =
     update_queue ok i (item_updated v item (started claimedBy startedAt now') now) others t"
| "perform ok text_of (Eq_Result i input now now') others t =
     update_queue ok i (item_updated (rs_version input) (rs_item_id input) (finished input now') now) others t"
| "perform ok text_of (Eq_Create c now) others t = create_queue ok text_of c now others t"

section \<open>Queues only grow\<close>

text \<open>
  How an item, a revision and a queue may change. What an item is to run is never touched, a finished
  item is not touched at all; a revision changes its items only while it is executed, and
  stays so; a queue gets further revisions and loses none.
\<close>

definition item_le :: "queue_item \<Rightarrow> queue_item \<Rightarrow> bool" where
  "item_le x y \<longleftrightarrow> qi_item_id y = qi_item_id x \<and> qi_idempotency_key y = qi_idempotency_key x \<and> qi_title y = qi_title x \<and>
     qi_config y = qi_config x \<and> qi_provenance y = qi_provenance x \<and>
     (terminal_item (qi_status x) \<longrightarrow> y = x) \<and> (qi_status x = It_Running \<longrightarrow> qi_status y \<noteq> It_Pending)"

definition revision_le :: "revision \<Rightarrow> revision \<Rightarrow> bool" where
  "revision_le r r' \<longleftrightarrow> rv_version r' = rv_version r \<and> rv_revision_of r' = rv_revision_of r \<and>
     rv_revision_reason r' = rv_revision_reason r \<and> rv_created_at r' = rv_created_at r \<and> rv_provenance r' = rv_provenance r \<and>
     list_all2 item_le (rv_items r) (rv_items r') \<and>
     (rv_phase r = Executing_Frozen_Queue \<longrightarrow> rv_phase r' = Executing_Frozen_Queue \<and> rv_frozen_at r' = rv_frozen_at r) \<and>
     (rv_phase r' = Designing \<longrightarrow> rv_items r' = rv_items r)"

definition queue_le :: "experiment_queue \<Rightarrow> experiment_queue \<Rightarrow> bool" where
  "queue_le q q' \<longleftrightarrow> eq_queue_id q' = eq_queue_id q \<and> eq_goal_id q' = eq_goal_id q \<and> eq_run_id q' = eq_run_id q \<and>
     eq_title q' = eq_title q \<and> eq_created_at q' = eq_created_at q \<and> eq_current_version q \<le> eq_current_version q' \<and>
     (\<exists>rs news. eq_revisions q' = rs @ news \<and> list_all2 revision_le (eq_revisions q) rs)"

lemma item_le_refl [simp]: "item_le x x" by (simp add: item_le_def)

lemma item_le_trans: "item_le x y \<Longrightarrow> item_le y z \<Longrightarrow> item_le x z"
  by (cases "qi_status y") (auto simp: item_le_def terminal_item_def)

lemma items_le_refl [simp]: "list_all2 item_le xs xs" by (simp add: list_all2_refl)

lemma revision_le_refl [simp]: "revision_le r r" by (simp add: revision_le_def)

lemma items_le_trans:
  assumes "list_all2 item_le xs ys" "list_all2 item_le ys zs"
  shows "list_all2 item_le xs zs"
  by (rule list_all2_trans[OF _ assms]) (rule item_le_trans)

lemma revision_le_trans:
  assumes "revision_le a b" "revision_le b c"
  shows "revision_le a c"
proof -
  have "list_all2 item_le (rv_items a) (rv_items c)"
    using assms items_le_trans unfolding revision_le_def by blast
  moreover have "rv_items c = rv_items a" if "rv_phase c = Designing"
    using assms that unfolding revision_le_def by (metis phase.distinct(1) phase.exhaust)
  ultimately show ?thesis using assms unfolding revision_le_def by simp
qed

lemma queue_le_refl [simp]: "queue_le q q"
  unfolding queue_le_def by (intro conjI exI[of _ "eq_revisions q"] exI[of _ "[]"]) (simp_all add: list_all2_refl)

lemma queue_le_trans:
  assumes "queue_le a b" "queue_le b c"
  shows "queue_le a c"
proof -
  from assms obtain rs news rs' news' where
    ab: "eq_revisions b = rs @ news" "list_all2 revision_le (eq_revisions a) rs" and
    bc: "eq_revisions c = rs' @ news'" "list_all2 revision_le (rs @ news) rs'"
    unfolding queue_le_def by auto
  from bc(2) obtain u v where uv: "rs' = u @ v" "list_all2 revision_le rs u" by (auto simp: list_all2_append1)
  have "list_all2 revision_le (eq_revisions a) u"
    by (rule list_all2_trans[OF _ ab(2) uv(2)]) (rule revision_le_trans)
  then have "\<exists>xs ys. eq_revisions c = xs @ ys \<and> list_all2 revision_le (eq_revisions a) xs"
    using bc(1) uv(1) by (intro exI[of _ u] exI[of _ "v @ news'"]) simp
  then show ?thesis using assms unfolding queue_le_def by auto
qed

lemma update_items_le:
  assumes "update_items i u xs = Inr ys" "\<And>x y. u x = Inr y \<Longrightarrow> item_le x y"
  shows "list_all2 item_le xs ys" "(\<nexists>x y. u x = Inr y) \<Longrightarrow> ys = xs"
proof -
  show "list_all2 item_le xs ys"
    using assms by (induction xs arbitrary: ys) (auto simp: result_bind_Inr_iff split: if_splits)
  show "(\<nexists>x y. u x = Inr y) \<Longrightarrow> ys = xs"
    using assms(1) by (induction xs arbitrary: ys) (auto simp: result_bind_Inr_iff split: if_splits)
qed

lemma update_revisions_le:
  assumes "update_revisions v i u tm rf f rs = Inr (rs', fs)"
    "\<And>x r y. u x r = Inr y \<Longrightarrow> item_le x y \<and> rv_phase r = Executing_Frozen_Queue"
  shows "list_all2 revision_le rs rs'"
  using assms(1)
proof (induction rs arbitrary: rs' fs rf f)
  case (Cons r rs)
  show ?case
  proof (cases "rv_version r = v")
    case False
    then show ?thesis using Cons by (auto simp: result_bind_Inr_iff)
  next
    case True
    then obtain items where up: "update_items i (\<lambda>x. u x r) (rv_items r) = Inr items"
      using Cons.prems by (cases "update_items i (\<lambda>x. u x r) (rv_items r)") simp_all
    define f' where "f' = (f \<or> list_ex (\<lambda>x. qi_item_id x = i) (rv_items r))"
    define st where "st = (if items \<noteq> [] \<and> list_all (\<lambda>x. terminal_item (qi_status x)) items then Rv_Completed else Rv_Executing)"
    have "update_revisions v i u tm rf f (r # rs) = result_bind (update_revisions v i u tm True f' rs)
        (\<lambda>(rs', fs). Inr ((if f' then r\<lparr>rv_status := st, rv_updated_at := tm, rv_items := items\<rparr> else r) # rs', fs))"
      using True up by (simp add: Let_def f'_def st_def)
    then obtain rest where rest: "update_revisions v i u tm True f' rs = Inr (rest, fs)" and
      rs': "rs' = (if f' then r\<lparr>rv_status := st, rv_updated_at := tm, rv_items := items\<rparr> else r) # rest"
      using Cons.prems
      by (cases "update_revisions v i u tm True f' rs") (auto simp del: update_revisions.simps)
    have "list_all2 item_le (rv_items r) items" using update_items_le(1)[OF up] assms(2) by blast
    moreover have "items = rv_items r" if "rv_phase r = Designing"
      using update_items_le(2)[OF up] assms(2) that by (metis phase.distinct(1))
    ultimately show ?thesis using Cons.IH[OF rest] by (simp add: rs' revision_le_def)
  qed
qed simp

lemma updaters_le:
  "started c sa now x r = Inr y \<Longrightarrow> item_le x y \<and> rv_phase r = Executing_Frozen_Queue"
  "finished inp now x r = Inr y \<Longrightarrow> item_le x y \<and> rv_phase r = Executing_Frozen_Queue"
proof -
  have "terminal_item (item_status_of s)" "item_status_of s \<noteq> It_Pending" for s by (cases s; simp add: terminal_item_def)+
  then show "finished inp now x r = Inr y \<Longrightarrow> item_le x y \<and> rv_phase r = Executing_Frozen_Queue"
    by (auto simp: finished_def result_bind_Inr_iff assert_frozen_execution_def item_le_def Let_def split: if_splits)
  show "started c sa now x r = Inr y \<Longrightarrow> item_le x y \<and> rv_phase r = Executing_Frozen_Queue"
    by (auto simp: started_def result_bind_Inr_iff assert_frozen_execution_def item_le_def Let_def terminal_item_def split: if_splits)
qed

text \<open>What a stored queue is besides valid: its versions are distinct.\<close>

definition queue_ok :: "(json \<Rightarrow> bool) \<Rightarrow> experiment_queue \<Rightarrow> bool" where
  "queue_ok ok q \<longleftrightarrow> queue_valid ok q \<and> distinct (map rv_version (eq_revisions q))"

definition experiments_ok :: "(json \<Rightarrow> bool) \<Rightarrow> experiment_table \<Rightarrow> bool" where
  "experiments_ok ok t \<longleftrightarrow> (\<forall>i q. table_get t i = Some q \<longrightarrow> queue_ok ok q \<and> eq_queue_id q = i)"

lemma revisions_versions: "list_all2 revision_le rs rs' \<Longrightarrow> map rv_version rs' = map rv_version rs"
  by (induction rule: list_all2_induct) (simp_all add: revision_le_def)

definition grows :: "(experiment_queue \<Rightarrow> experiment_queue result) \<Rightarrow> bool" where
  "grows f \<longleftrightarrow> (\<forall>q q'. distinct (map rv_version (eq_revisions q)) \<longrightarrow> f q = Inr q' \<longrightarrow>
     queue_le q q' \<and> distinct (map rv_version (eq_revisions q')))"

lemma item_updated_grows:
  assumes "\<And>x r y. u x r = Inr y \<Longrightarrow> item_le x y \<and> rv_phase r = Executing_Frozen_Queue"
  shows "grows (item_updated v i u tm)"
  unfolding grows_def
proof (intro allI impI)
  fix q q' assume *: "distinct (map rv_version (eq_revisions q))" "item_updated v i u tm q = Inr q'"
  then obtain rs fs where rs: "update_revisions (nullish v (eq_current_version q)) i u tm False False (eq_revisions q) = Inr (rs, fs)"
    and q': "q' = q\<lparr>eq_updated_at := tm, eq_revisions := rs\<rparr>"
    by (auto simp: item_updated_def result_bind_Inr_iff split: if_splits)
  from update_revisions_le[OF rs assms] have le: "list_all2 revision_le (eq_revisions q) rs" by blast
  then have "\<exists>xs ys. rs = xs @ ys \<and> list_all2 revision_le (eq_revisions q) xs" by (intro exI[of _ rs] exI[of _ "[]"]) simp
  then show "queue_le q q' \<and> distinct (map rv_version (eq_revisions q'))"
    using *(1) revisions_versions[OF le] by (simp add: q' queue_le_def)
qed

lemma frozen_grows: "grows (frozen tm)"
  unfolding grows_def
proof (intro allI impI)
  fix q q' assume *: "distinct (map rv_version (eq_revisions q))" "frozen tm q = Inr q'"
  then obtain rev where rev: "current_revision q = Inr rev" by (auto simp: frozen_def result_bind_Inr_iff)
  show "queue_le q q' \<and> distinct (map rv_version (eq_revisions q'))"
  proof (cases "rv_phase rev")
    case Executing_Frozen_Queue
    then show ?thesis using * rev by (simp add: frozen_def)
  next
    case Designing
    let ?f = "\<lambda>r. if rv_version r = rv_version rev
         then r\<lparr>rv_phase := Executing_Frozen_Queue, rv_status := Rv_Frozen, rv_frozen_at := Some tm, rv_updated_at := tm\<rparr> else r"
    have q': "q' = q\<lparr>eq_updated_at := tm, eq_revisions := map ?f (eq_revisions q)\<rparr>"
      using * rev Designing by (simp add: frozen_def)
    have rev_in: "rev \<in> set (eq_revisions q)" using rev by (auto simp: current_revision_def find_Some_iff split: option.splits)
    have "revision_le r (?f r)" if "r \<in> set (eq_revisions q)" for r
    proof (cases "rv_version r = rv_version rev")
      case True
      then have "r = rev" using *(1) rev_in that by (auto simp: distinct_map inj_on_def)
      then show ?thesis using Designing by (simp add: revision_le_def)
    qed simp
    then have le: "list_all2 revision_le (eq_revisions q) (map ?f (eq_revisions q))"
      by (simp add: list_all2_conv_all_nth)
    then have "\<exists>xs ys. map ?f (eq_revisions q) = xs @ ys \<and> list_all2 revision_le (eq_revisions q) xs"
      by (intro exI[of _ "map ?f (eq_revisions q)"] exI[of _ "[]"]) simp
    then show ?thesis using *(1) revisions_versions[OF le] by (simp add: q' queue_le_def del: map_map)
  qed
qed

lemma revised_grows: "grows (revised text_of input now)"
  unfolding grows_def
proof (intro allI impI)
  fix q q' assume *: "distinct (map rv_version (eq_revisions q))" "revised text_of input now q = Inr q'"
  then obtain rev where rev: "current_revision q = Inr rev" by (auto simp: revised_def result_bind_Inr_iff)
  let ?V = "set (map rv_version (eq_revisions q))"
  let ?d = "draft_revision text_of (Max ?V + 1) (Some (rv_version rev)) (Some (ri_reason input)) (nullish (ri_created_at input) now)
      (ri_provenance input) (ri_items input)"
  have q': "q' = q\<lparr>eq_current_version := Max ?V + 1, eq_updated_at := nullish (ri_created_at input) now,
      eq_revisions := eq_revisions q @ [?d]\<rparr>"
    using *(2) rev by (simp add: revised_def Let_def)
  have "rv_version rev = eq_current_version q" "rev \<in> set (eq_revisions q)"
    using rev by (auto simp: current_revision_def find_Some_iff split: option.splits)
  then have "eq_current_version q \<in> ?V" by force
  then have "eq_current_version q \<le> Max ?V" by simp
  moreover have "Max ?V + 1 \<notin> ?V" using Max_ge[of ?V "Max ?V + 1"] by fastforce
  moreover have "\<exists>xs ys. eq_revisions q @ [?d] = xs @ ys \<and> list_all2 revision_le (eq_revisions q) xs"
    by (intro exI[of _ "eq_revisions q"] exI[of _ "[?d]"]) (simp add: list_all2_refl)
  ultimately show "queue_le q q' \<and> distinct (map rv_version (eq_revisions q'))"
    using *(1) by (simp add: q' queue_le_def draft_revision_def)
qed

lemma update_queue_facts:
  assumes "experiments_ok ok t" "grows f"
  shows "experiments_ok ok (snd (update_queue ok i f id t)) \<and>
    (\<forall>j q. table_get t j = Some q \<longrightarrow> (\<exists>q'. table_get (snd (update_queue ok i f id t)) j = Some q' \<and> queue_le q q'))"
proof (cases "\<exists>q q'. table_get t i = Some q \<and> f q = Inr q' \<and> queue_valid ok q'")
  case True
  then obtain q q' where q: "table_get t i = Some q" "f q = Inr q'" "queue_valid ok q'" by blast
  with assms(1) have ok: "queue_ok ok q" "eq_queue_id q = i" unfolding experiments_ok_def by auto
  then have le: "queue_le q q'" "distinct (map rv_version (eq_revisions q'))" using assms(2) q(2) unfolding grows_def queue_ok_def by auto
  then have "snd (update_queue ok i f id t) = table_put i q' t"
    using q ok by (auto simp: update_queue_def read_experiment_queue_def queue_ok_def save_queue_def queue_le_def)
  moreover have "eq_queue_id q' = i" using le ok by (simp add: queue_le_def)
  ultimately show ?thesis
    using assms(1) q(1,3) le by (auto simp: experiments_ok_def queue_ok_def table_get_put)
next
  case False
  then have "snd (update_queue ok i f id t) = t"
    by (auto simp: update_queue_def read_experiment_queue_def save_queue_def split: option.splits sum.splits)
  then show ?thesis using assms(1) by auto
qed

lemma create_queue_facts:
  assumes "experiments_ok ok t"
  shows "experiments_ok ok (snd (create_queue ok text_of c now id t)) \<and>
    (\<forall>j q. table_get t j = Some q \<longrightarrow> (\<exists>q'. table_get (snd (create_queue ok text_of c now id t)) j = Some q' \<and> queue_le q q'))"
proof (cases "table_get t (ci_queue_id c)")
  case None
  then show ?thesis using assms
    by (auto simp: create_queue_def read_experiment_queue_def Let_def save_queue_def experiments_ok_def queue_ok_def table_get_put)
next
  case (Some q)
  with assms have "queue_valid ok q" unfolding experiments_ok_def queue_ok_def by blast
  then show ?thesis using assms Some by (auto simp: create_queue_def read_experiment_queue_def)
qed

text \<open>One operation with no other in between.\<close>

definition queue_step :: "(json \<Rightarrow> bool) \<Rightarrow> (json \<Rightarrow> string) \<Rightarrow> queue_op \<Rightarrow> experiment_table \<Rightarrow> experiment_table" where
  "queue_step ok text_of a t = snd (perform ok text_of a id t)"

lemma queue_step_facts:
  assumes "experiments_ok ok t"
  shows "experiments_ok ok (queue_step ok text_of a t) \<and>
    (\<forall>j q. table_get t j = Some q \<longrightarrow> (\<exists>q'. table_get (queue_step ok text_of a t) j = Some q' \<and> queue_le q q'))"
  unfolding queue_step_def
proof (cases a)
  case (Eq_Freeze i tm)
  then show "experiments_ok ok (snd (perform ok text_of a id t)) \<and>
    (\<forall>j q. table_get t j = Some q \<longrightarrow> (\<exists>q'. table_get (snd (perform ok text_of a id t)) j = Some q' \<and> queue_le q q'))"
    using update_queue_facts[OF assms frozen_grows] by simp
next
  case (Eq_Append i input now)
  then show "experiments_ok ok (snd (perform ok text_of a id t)) \<and>
    (\<forall>j q. table_get t j = Some q \<longrightarrow> (\<exists>q'. table_get (snd (perform ok text_of a id t)) j = Some q' \<and> queue_le q q'))"
    using update_queue_facts[OF assms revised_grows] by simp
next
  case (Eq_Start i v item c sa now now')
  then show "experiments_ok ok (snd (perform ok text_of a id t)) \<and>
    (\<forall>j q. table_get t j = Some q \<longrightarrow> (\<exists>q'. table_get (snd (perform ok text_of a id t)) j = Some q' \<and> queue_le q q'))"
    using update_queue_facts[OF assms item_updated_grows[OF updaters_le(1)]] by simp
next
  case (Eq_Result i input now now')
  then show "experiments_ok ok (snd (perform ok text_of a id t)) \<and>
    (\<forall>j q. table_get t j = Some q \<longrightarrow> (\<exists>q'. table_get (snd (perform ok text_of a id t)) j = Some q' \<and> queue_le q q'))"
    using update_queue_facts[OF assms item_updated_grows[OF updaters_le(2)]] by simp
next
  case (Eq_Create c now)
  then show "experiments_ok ok (snd (perform ok text_of a id t)) \<and>
    (\<forall>j q. table_get t j = Some q \<longrightarrow> (\<exists>q'. table_get (snd (perform ok text_of a id t)) j = Some q' \<and> queue_le q q'))"
    using create_queue_facts[OF assms] by simp
qed

text \<open>
  C25. What was executed stays. Along every sequence of operations that follow one another, a stored queue
  keeps its revisions, in their order; what their items are to run is never changed, a finished item
  is never changed at all, a frozen revision stays frozen with its time, and an item of a revision that is
  still designed has not been touched. All queues stay valid, with distinct versions.
\<close>
theorem finished_items_are_final:
  assumes "experiments_ok ok t" "table_get t i = Some q"
  shows "experiments_ok ok (fold (queue_step ok text_of) as t) \<and>
    (\<exists>q'. table_get (fold (queue_step ok text_of) as t) i = Some q' \<and> queue_le q q')"
  using assms
proof (induction as arbitrary: t q)
  case (Cons a as)
  from queue_step_facts[OF Cons.prems(1), of text_of a] Cons.prems(2) obtain q1 where
    q1: "table_get (queue_step ok text_of a t) i = Some q1" "queue_le q q1" and
    ok: "experiments_ok ok (queue_step ok text_of a t)" by blast
  from Cons.IH[OF ok q1(1)] show ?case using queue_le_trans[OF q1(2)] by auto
qed auto

section \<open>Examples\<close>

definition plain_provenance :: provenance where
  "plain_provenance = \<lparr>pv_source = ''test'', pv_created_by = None, pv_evidence_refs = None, pv_artifact_refs = None, pv_notes = None\<rparr>"

definition sample_item :: "string \<Rightarrow> item_input" where
  "sample_item i = \<lparr>ii_item_id = i, ii_idempotency_key = Some i, ii_title = None, ii_config = J_Object [], ii_provenance = plain_provenance\<rparr>"

definition sample_queue_ops :: "queue_op list" where
  "sample_queue_ops =
     [Eq_Create \<lparr>ci_queue_id = ''q'', ci_goal_id = None, ci_run_id = None, ci_title = None, ci_created_at = None,
        ci_provenance = plain_provenance, ci_items = [sample_item ''a'', sample_item ''b'']\<rparr> (Iso 1),
      Eq_Freeze ''q'' (Iso 2)]"

definition sample_experiments :: experiment_table where
  "sample_experiments = fold (queue_step (\<lambda>v. True) (\<lambda>v. [])) sample_queue_ops []"

definition start_op :: "string \<Rightarrow> int \<Rightarrow> queue_op" where
  "start_op w tm = Eq_Start ''q'' None ''a'' (Some w) None (Iso tm) (Iso tm)"

definition result_op :: "string \<Rightarrow> int \<Rightarrow> queue_op" where
  "result_op i tm = Eq_Result ''q'' \<lparr>rs_version = None, rs_item_id = i, rs_status = Fin_Succeeded, rs_completed_at = None,
     rs_output_artifacts = None, rs_metrics = None, rs_error = None\<rparr> (Iso tm) (Iso tm)"

definition item_states :: "experiment_table \<Rightarrow> (string \<times> item_status \<times> string option) list" where
  "item_states t = (case table_get t ''q'' of
     Some q \<Rightarrow> concat (map (\<lambda>r. map (\<lambda>x. (qi_item_id x, qi_status x, qi_claimed_by x)) (rv_items r)) (eq_revisions q)) | None \<Rightarrow> [])"

text \<open>A second worker that starts a running item gets no error and takes over the claim.\<close>

lemma claims_do_not_exclude:
  "let t = queue_step (\<lambda>v. True) (\<lambda>v. []) (start_op ''w1'' 3) sample_experiments;
       (res, t') = perform (\<lambda>v. True) (\<lambda>v. []) (start_op ''w2'' 4) id t
   in item_states t = [(''a'', It_Running, Some ''w1''), (''b'', It_Pending, None)] \<and>
      (case res of Inr q \<Rightarrow> True | Inl e \<Rightarrow> False) \<and>
      item_states t' = [(''a'', It_Running, Some ''w2''), (''b'', It_Pending, None)]"
  by code_simp

text \<open>Two results that overlap are both answered as stored, and one of them is lost.\<close>

lemma overlapping_results_lose_one:
  "let (res, t') = perform (\<lambda>v. True) (\<lambda>v. []) (result_op ''a'' 3) (queue_step (\<lambda>v. True) (\<lambda>v. []) (result_op ''b'' 3)) sample_experiments
   in (case res of Inr q \<Rightarrow> True | Inl e \<Rightarrow> False) \<and>
      item_states t' = [(''a'', It_Succeeded, None), (''b'', It_Pending, None)]"
  by code_simp

lemma sample_experiments_ok: "experiments_ok (\<lambda>v. True) sample_experiments"
proof -
  have "experiments_ok ok t \<Longrightarrow> experiments_ok ok (fold (queue_step ok text_of) as t)" for ok text_of as t
    by (induction as arbitrary: t) (simp_all add: queue_step_facts)
  moreover have "experiments_ok (\<lambda>v. True) []" by (simp add: experiments_ok_def)
  ultimately show ?thesis unfolding sample_experiments_def by blast
qed

theorem finished_items_are_final_witness:
  "\<exists>q'. table_get (fold (queue_step (\<lambda>v. True) (\<lambda>v. [])) [result_op ''a'' 3, start_op ''w'' 4] sample_experiments) ''q'' = Some q' \<and>
     queue_le (the (table_get sample_experiments ''q'')) q'"
proof -
  have "table_get sample_experiments ''q'' \<noteq> None" by code_simp
  then have "table_get sample_experiments ''q'' = Some (the (table_get sample_experiments ''q''))" by simp
  from finished_items_are_final[OF sample_experiments_ok this] show ?thesis by blast
qed

end
