(* ===== verification/Outbox.thy ===== *)
theory Outbox
  imports PS_Prelude Json_Values
begin

text \<open>
  The outbox of notifications: \<open>src/runtime/store/outbox-store.ts\<close>. A subscriber remembers the sequence
  number of the last record that it has seen and asks for the later ones.

  The table \<open>outbox_records\<close> is an association table from sequence number to the pair of the column
  \<open>dedupe_key\<close> and the record; its unique index on the keys refuses a row. \<open>digest\<close> is the stable id of
  a payload, \<open>admit\<close> the recording of the decision trace, which may throw; \<open>others\<close> is what happens
  while it is recorded.
\<close>

section \<open>The records\<close>

record outbox_entry =
  ob_event_type :: string
  ob_goal_id :: "string option"
  ob_correlation_id :: "string option"
  ob_created_at :: int
  ob_payload :: json

text \<open>A record is an entry with its sequence number.\<close>

type_synonym outbox_record = "int \<times> outbox_entry"

type_synonym outbox_table = "(int, string option \<times> outbox_entry) table"

definition outbox_valid :: "outbox_record \<Rightarrow> bool" where
  "outbox_valid r \<longleftrightarrow> safe_pos (fst r) \<and> safe_nonneg (ob_created_at (snd r))"

definition outbox_dedupe_key :: "(json \<Rightarrow> string) \<Rightarrow> outbox_entry \<Rightarrow> string option" where
  "outbox_dedupe_key digest e =
     (if \<not> truthy (ob_correlation_id e) then None
      else Some (ob_event_type e @ '':'' @ nullish (ob_goal_id e) [] @ '':'' @ nullish (ob_correlation_id e) [] @ '':'' @
                 digest (stable_json (ob_payload e))))"

section \<open>Rows\<close>

definition rows :: "outbox_table \<Rightarrow> (int \<times> string option \<times> outbox_entry) list" where
  "rows t = sort_key fst t"

definition next_outbox_seq :: "outbox_table \<Rightarrow> int" where
  "next_outbox_seq t = (if t = [] then 0 else Max (set (map fst t))) + 1"

definition read_outbox :: "outbox_table \<Rightarrow> int \<Rightarrow> outbox_record option result" where
  "read_outbox t n = (case table_get t n of
     None \<Rightarrow> Inr None
   | Some (k, e) \<Rightarrow> if outbox_valid (n, e) then Inr (Some (n, e)) else Inl SchemaError)"

definition parse_rows :: "(int \<times> string option \<times> outbox_entry) list \<Rightarrow> outbox_record list result" where
  "parse_rows rs = (let es = map (\<lambda>(n, k, e). (n, e)) rs in if list_all outbox_valid es then Inr es else Inl SchemaError)"

definition load_latest :: "outbox_table \<Rightarrow> outbox_record option result" where
  "load_latest t = (if t = [] then Inr None else read_outbox t (Max (set (map fst t))))"

definition list_outbox :: "int \<Rightarrow> outbox_table \<Rightarrow> outbox_record list result" where
  "list_outbox after t = parse_rows (filter (\<lambda>r. after < fst r) (rows t))"

definition row_with_key :: "outbox_table \<Rightarrow> string \<Rightarrow> (int \<times> string option \<times> outbox_entry) option" where
  "row_with_key t k = find (\<lambda>(n, k', e). k' = Some k) (rows t)"

text \<open>The rows without a key, in order, until one has the key: it gets it and is the answer.\<close>

primrec backfill_by_key ::
  "(json \<Rightarrow> string) \<Rightarrow> string \<Rightarrow> (int \<times> string option \<times> outbox_entry) list \<Rightarrow> outbox_table \<Rightarrow> outbox_record option result \<times> outbox_table" where
  "backfill_by_key digest k [] t = (Inr None, t)"
| "backfill_by_key digest k (r # rs) t = (case r of (n, k', e) \<Rightarrow>
     if k' \<noteq> None then backfill_by_key digest k rs t
     else if \<not> outbox_valid (n, e) then (Inl SchemaError, t)
     else if outbox_dedupe_key digest e \<noteq> Some k then backfill_by_key digest k rs t
     else (Inr (Some (n, e)), table_put n (Some k, e) t))"

definition read_outbox_by_dedupe_key ::
  "(json \<Rightarrow> string) \<Rightarrow> string \<Rightarrow> outbox_table \<Rightarrow> outbox_record option result \<times> outbox_table" where
  "read_outbox_by_dedupe_key digest k t = (case row_with_key t k of
     Some (n, k', e) \<Rightarrow> (if outbox_valid (n, e) then (Inr (Some (n, e)), t) else (Inl SchemaError, t))
   | None \<Rightarrow> backfill_by_key digest k (rows t) t)"

definition upsert_outbox :: "(json \<Rightarrow> string) \<Rightarrow> outbox_record \<Rightarrow> outbox_table \<Rightarrow> unit result \<times> outbox_table" where
  "upsert_outbox digest r t =
     (let k = outbox_dedupe_key digest (snd r) in
      if k \<noteq> None \<and> list_ex (\<lambda>(n, k', e). n \<noteq> fst r \<and> k' = k) t
      then (Inl (Thrown ''UNIQUE constraint failed: outbox_records.dedupe_key''), t)
      else (Inr (), table_put (fst r) (k, snd r) t))"

text \<open>
  On opening, rows without a key get theirs unless another row has it. A row that the schema refuses ends the
  transaction, and nothing is changed.
\<close>

primrec backfill_rows ::
  "(json \<Rightarrow> string) \<Rightarrow> (int \<times> string option \<times> outbox_entry) list \<Rightarrow> outbox_table \<Rightarrow> outbox_table result" where
  "backfill_rows digest [] t = Inr t"
| "backfill_rows digest (r # rs) t = (case r of (n, k', e) \<Rightarrow>
     if k' \<noteq> None then backfill_rows digest rs t
     else if \<not> outbox_valid (n, e) then Inl SchemaError
     else case outbox_dedupe_key digest e of
            None \<Rightarrow> backfill_rows digest rs t
          | Some k \<Rightarrow> if row_with_key t k \<noteq> None then backfill_rows digest rs t
                     else backfill_rows digest rs (table_put n (Some k, e) t))"

definition open_outbox :: "(json \<Rightarrow> string) \<Rightarrow> outbox_table \<Rightarrow> unit result \<times> outbox_table" where
  "open_outbox digest t = (case backfill_rows digest (rows t) t of Inl e \<Rightarrow> (Inl e, t) | Inr t' \<Rightarrow> (Inr (), t'))"

section \<open>The operations\<close>

definition save_outbox :: "(json \<Rightarrow> string) \<Rightarrow> outbox_record \<Rightarrow> bool \<Rightarrow> outbox_table \<Rightarrow> outbox_record result \<times> outbox_table" where
  "save_outbox digest r boundary t =
     (if \<not> boundary then (Inl (Thrown ''OutboxStore.save is restricted to explicit boundaries''), t)
      else if \<not> outbox_valid r then (Inl SchemaError, t)
      else case upsert_outbox digest r t of (Inl e, t') \<Rightarrow> (Inl e, t') | (Inr u, t') \<Rightarrow> (Inr r, t'))"

definition remove_outbox :: "int \<Rightarrow> outbox_table \<Rightarrow> outbox_table" where
  "remove_outbox n t = table_del n t"

definition append_outbox ::
  "(json \<Rightarrow> string) \<Rightarrow> (outbox_record \<Rightarrow> js_error option) \<Rightarrow> outbox_entry \<Rightarrow> (outbox_table \<Rightarrow> outbox_table) \<Rightarrow> outbox_table \<Rightarrow>
   outbox_record result \<times> outbox_table" where
  "append_outbox digest admit e others t =
     (if \<not> outbox_valid (next_outbox_seq t, e) then (Inl SchemaError, t)
      else if 8640000000000000 < ob_created_at e then (Inl (Thrown ''Invalid time value''), t)
      else case admit (next_outbox_seq t, e) of
             Some err \<Rightarrow> (Inl err, others t)
           | None \<Rightarrow>
               (let t1 = others t;
                    (found, t2) = (case outbox_dedupe_key digest e of
                                     None \<Rightarrow> (Inr None, t1) | Some k \<Rightarrow> read_outbox_by_dedupe_key digest k t1)
                in case found of
                     Inl err \<Rightarrow> (Inl err, t1)
                   | Inr (Some r) \<Rightarrow> (Inr r, t2)
                   | Inr None \<Rightarrow>
                       (let r = (next_outbox_seq t2, e)
                        in if \<not> outbox_valid r then (Inl SchemaError, t1)
                           else case upsert_outbox digest r t2 of (Inl err, t3) \<Rightarrow> (Inl err, t1) | (Inr u, t3) \<Rightarrow> (Inr r, t3))))"

definition protected_seq :: "int \<Rightarrow> outbox_record list \<Rightarrow> int option" where
  "protected_seq maxRecords rs =
     (let i = int (length rs) - maxRecords
      in if i > 0 \<and> i < int (length rs) then Some (fst (rs ! nat i)) else None)"

definition pruned_record :: "int \<Rightarrow> int option \<Rightarrow> outbox_record \<Rightarrow> bool" where
  "pruned_record threshold protected r \<longleftrightarrow> ob_created_at (snd r) < threshold \<or> (case protected of Some n \<Rightarrow> fst r < n | None \<Rightarrow> False)"

definition prune_outbox ::
  "int option \<Rightarrow> int option \<Rightarrow> int \<Rightarrow> outbox_table \<Rightarrow> (nat \<times> nat) result \<times> outbox_table" where
  "prune_outbox olderThanMs maxRecords now t = (case list_outbox 0 t of
     Inl e \<Rightarrow> (Inl e, t)
   | Inr rs \<Rightarrow>
       (let threshold = now - nullish olderThanMs (30 * 24 * 60 * 60 * 1000);
            protected = protected_seq (nullish maxRecords 5000) rs;
            gone = filter (pruned_record threshold protected) rs
        in (Inr (length gone, length rs - length gone), fold (\<lambda>r. remove_outbox (fst r)) gone t)))"

section \<open>A notification is stored once\<close>

lemma rows_set [simp]: "set (rows t) = set t"
  by (simp add: rows_def)

lemma find_unique:
  assumes "x \<in> set xs" "P x" "\<And>y. y \<in> set xs \<Longrightarrow> P y \<Longrightarrow> y = x"
  shows "find P xs = Some x"
  using assms
proof (induction xs)
  case (Cons y ys)
  show ?case
  proof (cases "P y")
    case True
    have "y = x" by (rule Cons.prems(3)) (simp_all add: True)
    then show ?thesis using True by simp
  next
    case False
    with Cons.prems(1,2) have "x \<in> set ys" by auto
    then have "find P ys = Some x" by (rule Cons.IH[OF _ Cons.prems(2)]) (rule Cons.prems(3), simp_all)
    then show ?thesis using False by simp
  qed
qed simp

lemma row_with_key_None: "row_with_key t k = None \<longleftrightarrow> (\<forall>n e. (n, Some k, e) \<notin> set t)"
proof -
  have "(\<nexists>r. r \<in> set t \<and> (case r of (n, k', e) \<Rightarrow> k' = Some k)) \<longleftrightarrow> (\<forall>n e. (n, Some k, e) \<notin> set t)"
    by (metis (mono_tags, lifting) case_prod_conv prod.exhaust)
  then show ?thesis unfolding row_with_key_def find_None_iff rows_set .
qed

lemma row_with_key_Some:
  assumes "row_with_key t k = Some row"
  shows "\<exists>n e. row = (n, Some k, e)"
proof -
  have "case row of (n, k', e) \<Rightarrow> k' = Some k" using assms unfolding row_with_key_def find_Some_iff by auto
  then show ?thesis by (cases row) auto
qed

lemma row_with_key_put:
  assumes "table_wf t" "row_with_key t k = None"
  shows "row_with_key (table_put n (Some k, e) t) k = Some (n, Some k, e)"
proof -
  have wf: "table_wf (table_put n (Some k, e) t)" using assms(1) by simp
  have none: "table_get t m \<noteq> Some (Some k, e')" for m e'
    using assms(2) table_mem_iff[OF assms(1)] unfolding row_with_key_None by blast
  show ?thesis unfolding row_with_key_def
  proof (rule find_unique)
    show "(n, Some k, e) \<in> set (rows (table_put n (Some k, e) t))"
      by (simp add: table_mem_iff[OF wf] table_get_put)
    show "y = (n, Some k, e)" if mem: "y \<in> set (rows (table_put n (Some k, e) t))" and key: "(\<lambda>(n, k', e). k' = Some k) y" for y
    proof -
      obtain m e' where y: "y = (m, Some k, e')" using key by (cases y) auto
      then have "table_get (table_put n (Some k, e) t) m = Some (Some k, e')" using mem by (simp add: table_mem_iff[OF wf])
      then show ?thesis using none[of m e'] by (auto simp: table_get_put y split: if_splits)
    qed
  qed simp
qed

lemma backfill_found:
  "backfill_by_key digest k rs t = (Inr (Some r), t') \<Longrightarrow> \<exists>e. r = (fst r, e) \<and> t' = table_put (fst r) (Some k, e) t \<and> outbox_valid r"
  by (induction rs) (auto split: if_splits)

lemma backfill_not_found: "backfill_by_key digest k rs t = (Inr None, t') \<Longrightarrow> t' = t"
  by (induction rs) (auto split: if_splits)

lemma appended_row:
  assumes "append_outbox digest admit e others t = (Inr r, t')" "outbox_dedupe_key digest e = Some k" "table_wf (others t)"
  shows "\<exists>e'. row_with_key t' k = Some (fst r, Some k, e') \<and> r = (fst r, e') \<and> outbox_valid r"
proof -
  have "admit (next_outbox_seq t, e) = None" using assms(1) by (auto simp: append_outbox_def split: if_splits option.splits)
  then have *: "(case read_outbox_by_dedupe_key digest k (others t) of
      (Inl err, t2) \<Rightarrow> (Inl err, others t)
    | (Inr (Some r), t2) \<Rightarrow> (Inr r, t2)
    | (Inr None, t2) \<Rightarrow> (if \<not> outbox_valid (next_outbox_seq t2, e) then (Inl SchemaError, others t)
        else case upsert_outbox digest (next_outbox_seq t2, e) t2 of
               (Inl err, t3) \<Rightarrow> (Inl err, others t) | (Inr u, t3) \<Rightarrow> (Inr (next_outbox_seq t2, e), t3))) = (Inr r, t')"
    using assms(1,2) by (auto simp: append_outbox_def Let_def split: if_splits prod.splits sum.splits option.splits)
  show ?thesis
  proof (cases "row_with_key (others t) k")
    case (Some row)
    then obtain n e' where row: "row_with_key (others t) k = Some (n, Some k, e')"
      using row_with_key_Some by blast
    then show ?thesis using * by (auto simp: read_outbox_by_dedupe_key_def split: if_splits)
  next
    case None
    then have read: "read_outbox_by_dedupe_key digest k (others t) = backfill_by_key digest k (rows (others t)) (others t)"
      by (simp add: read_outbox_by_dedupe_key_def)
    obtain res t2 where bf: "backfill_by_key digest k (rows (others t)) (others t) = (res, t2)" by fastforce
    show ?thesis
    proof (cases res)
      case (Inr found)
      show ?thesis
      proof (cases found)
        case (Some r')
        with * read bf Inr have "r' = r" "t2 = t'" by auto
        then show ?thesis using backfill_found[of digest k "rows (others t)" "others t" r t'] bf Inr Some
          row_with_key_put[OF assms(3) None] by auto
      next
        case None
        with bf Inr have t2: "t2 = others t" using backfill_not_found by blast
        have "r = (next_outbox_seq t2, e)" "t' = table_put (next_outbox_seq t2) (Some k, e) t2" "outbox_valid r"
          using * read bf Inr None assms(2) by (auto simp: upsert_outbox_def Let_def split: if_splits)
        then show ?thesis using row_with_key_put[OF assms(3) \<open>row_with_key (others t) k = None\<close>] t2 by auto
      qed
    qed (use * read bf in simp)
  qed
qed

text \<open>
  A notification is stored once. An append that is repeated with the same event, goal, correlation and
  payload gives the record of the first one and changes nothing, whether the first found an older
  record, gave an older row its key or wrote a new row, and whatever other processes did while
  its decision was recorded.
\<close>
lemma repeated_append_changes_nothing:
  assumes "append_outbox digest admit e others t = (Inr r, t')" "table_wf (others t)"
    "outbox_dedupe_key digest e = Some k" "outbox_dedupe_key digest e' = Some k"
    "outbox_valid (next_outbox_seq t', e')" "ob_created_at e' \<le> 8640000000000000" "admit' (next_outbox_seq t', e') = None"
  shows "append_outbox digest admit' e' id t' = (Inr r, t')"
proof -
  from appended_row[OF assms(1,3,2)] obtain e'' where
    row: "row_with_key t' k = Some (fst r, Some k, e'')" and r: "r = (fst r, e'')" "outbox_valid r" by blast
  have "outbox_valid (fst r, e'')" using r by metis
  with row have "read_outbox_by_dedupe_key digest k t' = (Inr (Some r), t')"
    using r(1) by (simp add: read_outbox_by_dedupe_key_def)
  then show ?thesis using assms(4-7) by (simp add: append_outbox_def Let_def not_less)
qed

section \<open>Sequence numbers\<close>

lemma removed_rows:
  "table_get (fold (\<lambda>r. remove_outbox (fst r)) gone t) n = (if n \<in> set (map fst gone) then None else table_get t n)"
  by (induction gone arbitrary: t) (auto simp: remove_outbox_def table_get_del)

lemma table_empty_iff: "t = [] \<longleftrightarrow> (\<forall>k. table_get t k = None)"
  by (cases t) auto

text \<open>
  Sequence numbers start again. When all records are older than the limit, pruning removes them all, the
  newest one included, and the next notification gets the number 1. A subscriber that has seen any
  of the old records asks for later ones and does not get it, nor any other until the numbers have passed
  the one it remembers.
\<close>
lemma pruning_restarts_the_sequence:
  assumes "table_wf t" "\<forall>n k e. (n, k, e) \<in> set t \<longrightarrow> outbox_valid (n, e) \<and> ob_created_at e < now - age"
    "0 \<le> ob_created_at e" "ob_created_at e \<le> 8640000000000000" "admit (1, e) = None" "1 \<le> seen"
  shows "\<exists>res t' t''. prune_outbox (Some age) maxRecords now t = (Inr res, t') \<and> t' = [] \<and>
    append_outbox digest admit e id t' = (Inr (1, e), t'') \<and> list_outbox seen t'' = Inr [] \<and> list_outbox 0 t'' = Inr [(1, e)]"
proof -
  let ?rs = "map (\<lambda>(n, k, e). (n, e)) (rows t)"
  have all: "filter (\<lambda>r. 0 < fst r) (rows t) = rows t"
    using assms(2) by (force simp: filter_id_conv outbox_valid_def safe_pos_def)
  have "list_all outbox_valid ?rs" using assms(2) by (auto simp: list_all_iff)
  then have list: "list_outbox 0 t = Inr ?rs" by (simp add: list_outbox_def all parse_rows_def)
  have gone: "filter (pruned_record (now - age) p) ?rs = ?rs" for p
    using assms(2) by (auto simp: filter_id_conv pruned_record_def)
  have "table_get (fold (\<lambda>r. remove_outbox (fst r)) ?rs t) n = None" for n
  proof (cases "table_get t n")
    case None
    then show ?thesis by (simp add: removed_rows)
  next
    case (Some v)
    then have "(n, v) \<in> set t" using table_mem_iff[OF assms(1)] by blast
    moreover have "map fst ?rs = map fst (rows t)" by (simp add: case_prod_beta comp_def)
    ultimately have "n \<in> set (map fst ?rs)" by (metis fst_conv image_eqI rows_set set_map)
    then show ?thesis by (simp add: removed_rows)
  qed
  then have empty: "fold (\<lambda>r. remove_outbox (fst r)) ?rs t = []" unfolding table_empty_iff by blast
  have "\<exists>res. prune_outbox (Some age) maxRecords now t = (Inr res, [])"
    unfolding prune_outbox_def list using gone empty by (simp add: Let_def)
  moreover have seq: "next_outbox_seq [] = 1" by (simp add: next_outbox_seq_def)
  have valid: "outbox_valid (1, e)"
    using assms(3,4) by (simp add: outbox_valid_def safe_pos_def safe_nonneg_def max_safe_integer_def)
  have "append_outbox digest admit e id [] = (Inr (1, e), [(1, outbox_dedupe_key digest e, e)])"
    using valid assms(4,5) seq
    by (cases "outbox_dedupe_key digest e")
      (auto simp: append_outbox_def Let_def read_outbox_by_dedupe_key_def row_with_key_def rows_def upsert_outbox_def)
  moreover have "list_outbox seen [(1, outbox_dedupe_key digest e, e)] = Inr []"
    using assms(6) by (simp add: list_outbox_def rows_def parse_rows_def)
  moreover have "list_outbox 0 [(1, outbox_dedupe_key digest e, e)] = Inr [(1, e)]"
    using valid by (simp add: list_outbox_def rows_def parse_rows_def)
  ultimately show ?thesis by blast
qed

section \<open>Examples\<close>

definition sample_entry :: "int \<Rightarrow> outbox_entry" where
  "sample_entry tm = \<lparr>ob_event_type = ''report'', ob_goal_id = None, ob_correlation_id = Some ''c1'', ob_created_at = tm, ob_payload = J_Null\<rparr>"

end
