(* ===== verification/Strategy_Lifecycle.thy ===== *)
theory Strategy_Lifecycle
  imports Js_Numbers
begin

text \<open>
  The life of a strategy: \<open>orchestrator/strategy/strategy-manager.ts\<close>, its base class
  \<open>strategy-manager-base.ts\<close>, the transitions and the redistribution of \<open>strategy-helpers.ts\<close>, the
  schemas of \<open>types/strategy.ts\<close> and the rows of \<open>runtime/store/strategy-dream-state-store.ts\<close>.

  A manager keeps one portfolio and one history per goal and an index from strategies to goals. Every
  operation loads a portfolio, computes a new list of strategies and saves it; between the two
  come \<open>await\<close>s, and \<open>others\<close> is what other callers do to the rows there.
  Answers of the language model, the gap of a dimension, and what the caller says about waiting are
  parameters. Writing the end of a wait into the running task and into the schedule, and
  the outcome in the decision records, is left out: it is done after the operation, and its errors are caught.
\<close>

section \<open>The data\<close>

datatype strategy_state = St_Candidate | St_Active | St_Evaluating | St_Suspended | St_Completed | St_Terminated

datatype effect_direction = Increase | Decrease
datatype effect_magnitude = Small | Medium | Large

record expected_effect =
  ef_dimension :: string
  ef_direction :: effect_direction
  ef_magnitude :: effect_magnitude

datatype duration_unit = Minutes | Hours | Days | Weeks

record resource_estimate =
  re_sessions :: int
  re_duration :: rat
  re_unit :: duration_unit
  re_llm_calls :: "int option"

datatype exploration_phase = Phase_Normal | Phase_Divergent
datatype exploration_role = Exploitation | Adjacent_Exploration | Divergent_Exploration
datatype expected_cost = Cost_Low | Cost_Medium | Cost_High
datatype lineage_relationship =
  Lin_Current_Best | Lin_Neighbor | Lin_Failed | Lin_Different_Mechanism | Lin_Different_Assumption | Lin_Unknown
datatype smoke_status = Smoke_Not_Run | Smoke_Promote | Smoke_Defer | Smoke_Retire

datatype novelty_basis =
  Basis_Typed_Lineage | Basis_Strategy_Metadata | Basis_Metric_Trend | Basis_Smoke | Basis_Text_Overlap | Basis_Unknown
datatype lineage_trend = Lt_Improving | Lt_Stalled | Lt_Noisy | Lt_Regressing | Lt_Breakthrough

record lineage_assessment =
  la_confidence :: rat
  la_relationship :: lineage_relationship
  la_novelty_basis :: novelty_basis
  la_matched_failed_lineage_fingerprints :: "string list"
  la_matched_strategy_ids :: "string list"
  la_evidence_refs :: "string list"
  la_metric_trend :: "lineage_trend option"
  la_lexical_similarity_diagnostic :: "rat option"
  la_summary :: string

datatype hint_source = Hint_Typed_Applicability | Hint_Embedding

record hint_trace =
  ht_source :: hint_source
  ht_source_id :: string
  ht_confidence :: rat
  ht_lexical_overlap_used :: bool
  ht_matched_dimensions :: "string list"
  ht_evidence_refs :: "string list"

record exploration =
  xp_phase :: exploration_phase
  xp_role :: exploration_role
  xp_strategy_family :: string
  xp_novelty_score :: rat
  xp_similarity_to_recent_failures :: rat
  xp_expected_cost :: expected_cost
  xp_relationship_to_lineage :: lineage_relationship
  xp_prior_evidence :: "string option"
  xp_downrank_reason :: "string option"
  xp_smoke_status :: smoke_status
  xp_smoke_reason :: "string option"
  xp_smoke_evidence_ref :: "string option"
  xp_lineage_assessment :: "lineage_assessment option"

text \<open>The further fields of a \<open>WaitStrategy\<close>.\<close>

record wait_part =
  wt_wait_reason :: string
  wt_wait_until :: timestamp
  wt_measurement_plan :: string
  wt_fallback_strategy_id :: "string option"

record strategy =
  sg_id :: string
  sg_goal_id :: string
  sg_target_dimensions :: "string list"
  sg_primary_dimension :: string
  sg_hypothesis :: string
  sg_expected_effect :: "expected_effect list"
  sg_resource_estimate :: resource_estimate
  sg_state :: strategy_state
  sg_allocation :: rat
  sg_created_at :: timestamp
  sg_started_at :: "timestamp option"
  sg_completed_at :: "timestamp option"
  sg_gap_snapshot_at_start :: "rat option"
  sg_tasks_generated :: "string list"
  sg_effectiveness_score :: "rat option"
  sg_consecutive_stall_count :: int
  sg_source_template_id :: "string option"
  sg_cross_goal_context :: "string option"
  sg_rollback_target_id :: "string option"
  sg_max_pivot_count :: int
  sg_pivot_count :: int
  sg_toolset_locked :: bool
  sg_allowed_tools :: "string list"
  sg_required_tools :: "string list"
  sg_exploration :: "exploration option"
  sg_planner_hint_trace :: "hint_trace option"
  sg_wait :: "wait_part option"

record portfolio =
  pf_goal_id :: string
  pf_strategies :: "strategy list"
  pf_interval :: rat
  pf_interval_unit :: duration_unit
  pf_last_rebalanced_at :: timestamp

definition unit_interval :: "rat \<Rightarrow> bool" where
  "unit_interval x \<longleftrightarrow> 0 \<le> x \<and> x \<le> 1"

definition estimate_valid :: "resource_estimate \<Rightarrow> bool" where
  "estimate_valid e \<longleftrightarrow> safe_nonneg (re_sessions e) \<and> 0 \<le> re_duration e \<and> opt_all safe_nonneg (re_llm_calls e)"

definition assessment_valid :: "lineage_assessment \<Rightarrow> bool" where
  "assessment_valid a \<longleftrightarrow> unit_interval (la_confidence a) \<and> opt_all unit_interval (la_lexical_similarity_diagnostic a) \<and>
     list_all (\<lambda>s. s \<noteq> []) (la_summary a # la_matched_failed_lineage_fingerprints a @ la_matched_strategy_ids a @ la_evidence_refs a)"

definition trace_valid :: "hint_trace \<Rightarrow> bool" where
  "trace_valid h \<longleftrightarrow> unit_interval (ht_confidence h) \<and> list_all (\<lambda>s. s \<noteq> []) (ht_source_id h # ht_evidence_refs h)"

definition exploration_valid :: "exploration \<Rightarrow> bool" where
  "exploration_valid x \<longleftrightarrow> xp_strategy_family x \<noteq> [] \<and> unit_interval (xp_novelty_score x) \<and>
     unit_interval (xp_similarity_to_recent_failures x) \<and>
     list_all (opt_all (\<lambda>s. s \<noteq> []))
       [xp_prior_evidence x, xp_downrank_reason x, xp_smoke_reason x, xp_smoke_evidence_ref x] \<and>
     opt_all assessment_valid (xp_lineage_assessment x)"

definition strategy_valid :: "strategy \<Rightarrow> bool" where
  "strategy_valid s \<longleftrightarrow> estimate_valid (sg_resource_estimate s) \<and> unit_interval (sg_allocation s) \<and>
     opt_all (\<lambda>g. 0 \<le> g) (sg_gap_snapshot_at_start s) \<and> safe_nonneg (sg_consecutive_stall_count s) \<and>
     safe_nonneg (sg_max_pivot_count s) \<and> safe_nonneg (sg_pivot_count s) \<and>
     opt_all exploration_valid (sg_exploration s) \<and> opt_all trace_valid (sg_planner_hint_trace s)"

definition parse_strategy :: "strategy \<Rightarrow> strategy result" where
  "parse_strategy s = (if strategy_valid s then Inr s else Inl SchemaError)"

primrec parse_strategies :: "strategy list \<Rightarrow> strategy list result" where
  "parse_strategies [] = Inr []"
| "parse_strategies (s # ss) =
     result_bind (parse_strategy s) (\<lambda>s'. result_bind (parse_strategies ss) (\<lambda>ss'. Inr (s' # ss')))"

definition portfolio_valid :: "portfolio \<Rightarrow> bool" where
  "portfolio_valid p \<longleftrightarrow> list_all strategy_valid (pf_strategies p)"

definition is_wait_strategy :: "strategy \<Rightarrow> bool" where
  "is_wait_strategy s \<longleftrightarrow> sg_wait s \<noteq> None"

definition running :: "strategy \<Rightarrow> bool" where
  "running s \<longleftrightarrow> sg_state s = St_Active \<or> sg_state s = St_Evaluating"

section \<open>The rows and the index\<close>

record store =
  sr_portfolios :: "(string, portfolio) table"
  sr_history :: "(string, strategy list) table"
  sr_index :: "(string, string) table"

definition index_all :: "string \<Rightarrow> strategy list \<Rightarrow> store \<Rightarrow> store" where
  "index_all g ss st = st\<lparr>sr_index := fold (\<lambda>s. table_put (sg_id s) g) ss (sr_index st)\<rparr>"

definition get_portfolio :: "string \<Rightarrow> store \<Rightarrow> portfolio option result \<times> store" where
  "get_portfolio g st = (case table_get (sr_portfolios st) g of
     None \<Rightarrow> (Inr None, st)
   | Some p \<Rightarrow> if portfolio_valid p then (Inr (Some p), index_all g (pf_strategies p) st) else (Inl SchemaError, st))"

definition load_or_create_portfolio :: "timestamp \<Rightarrow> string \<Rightarrow> store \<Rightarrow> portfolio result \<times> store" where
  "load_or_create_portfolio now g st = (case get_portfolio g st of
     (Inl e, st1) \<Rightarrow> (Inl e, st1)
   | (Inr (Some p), st1) \<Rightarrow> (Inr p, st1)
   | (Inr None, st1) \<Rightarrow>
       (Inr \<lparr>pf_goal_id = g, pf_strategies = [], pf_interval = 7, pf_interval_unit = Days, pf_last_rebalanced_at = now\<rparr>, st1))"

definition save_portfolio :: "string \<Rightarrow> portfolio \<Rightarrow> store \<Rightarrow> unit result \<times> store" where
  "save_portfolio g p st =
     (if portfolio_valid p
      then (Inr (), index_all g (pf_strategies p) (st\<lparr>sr_portfolios := table_put g p (sr_portfolios st)\<rparr>))
      else (Inl SchemaError, st))"

definition get_strategy_history :: "string \<Rightarrow> store \<Rightarrow> strategy list result" where
  "get_strategy_history g st = parse_strategies (nullish (table_get (sr_history st) g) [])"

text \<open>The rows have the goal and the id of the strategy as their key.\<close>

definition save_strategy_history :: "string \<Rightarrow> strategy list \<Rightarrow> store \<Rightarrow> unit result \<times> store" where
  "save_strategy_history g ss st = (case parse_strategies ss of
     Inl e \<Rightarrow> (Inl e, st)
   | Inr ss' \<Rightarrow>
       if distinct (map sg_id ss') then (Inr (), st\<lparr>sr_history := table_put g ss' (sr_history st)\<rparr>)
       else (Inl (Thrown ''UNIQUE constraint failed: strategy_history_records''), st))"

text \<open>\<open>findIndex\<close> and the assignment at that index, or \<open>push\<close>.\<close>

primrec replace_or_push :: "strategy \<Rightarrow> strategy list \<Rightarrow> strategy list" where
  "replace_or_push s [] = [s]"
| "replace_or_push s (x # xs) = (if sg_id x = sg_id s then s # xs else x # replace_or_push s xs)"

definition append_to_history :: "string \<Rightarrow> strategy \<Rightarrow> store \<Rightarrow> unit result \<times> store" where
  "append_to_history g s st = (case get_strategy_history g st of
     Inl e \<Rightarrow> (Inl e, st)
   | Inr h \<Rightarrow> save_strategy_history g (replace_or_push s h) st)"

text \<open>What the operations share: load, compute, save. The answer comes with the new strategies.\<close>

definition edit_portfolio ::
  "timestamp \<Rightarrow> string \<Rightarrow> (store \<Rightarrow> store) \<Rightarrow> (portfolio \<Rightarrow> ('a \<times> strategy list) result) \<Rightarrow> store \<Rightarrow>
   'a result \<times> store" where
  "edit_portfolio now g others f st = (case load_or_create_portfolio now g st of
     (Inl e, st1) \<Rightarrow> (Inl e, st1)
   | (Inr p, st1) \<Rightarrow> (case f p of
       Inl e \<Rightarrow> (Inl e, others st1)
     | Inr (x, ss) \<Rightarrow> (case save_portfolio g (p\<lparr>pf_strategies := ss\<rparr>) (others st1) of
         (Inl e, st2) \<Rightarrow> (Inl e, st2)
       | (Inr _, st2) \<Rightarrow> (Inr x, st2))))"

definition find_strategy :: "string \<Rightarrow> strategy list \<Rightarrow> strategy option" where
  "find_strategy i ss = find (\<lambda>s. sg_id s = i) ss"

definition replace_strategy :: "string \<Rightarrow> strategy \<Rightarrow> strategy list \<Rightarrow> strategy list" where
  "replace_strategy i u ss = map (\<lambda>s. if sg_id s = i then u else s) ss"

section \<open>Transitions\<close>

fun valid_transitions :: "strategy_state \<Rightarrow> strategy_state list" where
  "valid_transitions St_Candidate = [St_Active]"
| "valid_transitions St_Active = [St_Completed, St_Terminated, St_Evaluating]"
| "valid_transitions St_Evaluating = [St_Active, St_Terminated]"
| "valid_transitions St_Suspended = [St_Active, St_Terminated]"
| "valid_transitions St_Completed = []"
| "valid_transitions St_Terminated = []"

definition finished :: "strategy_state \<Rightarrow> bool" where
  "finished a \<longleftrightarrow> a = St_Completed \<or> a = St_Terminated"

definition not_found :: "string \<Rightarrow> string \<Rightarrow> js_error" where
  "not_found operation i = Thrown (operation @ '': strategy '' @ i @ '' not found'')"

definition transitioned ::
  "string \<Rightarrow> strategy_state \<Rightarrow> rat option \<Rightarrow> timestamp \<Rightarrow> portfolio \<Rightarrow> (strategy \<times> strategy list) result" where
  "transitioned i new score now p = (case find_strategy i (pf_strategies p) of
     None \<Rightarrow> Inl (not_found ''updateState'' i)
   | Some s \<Rightarrow>
       if new \<notin> set (valid_transitions (sg_state s)) then Inl (Thrown ''updateState: invalid transition'')
       else result_bind (parse_strategy
              (s\<lparr>sg_state := new, sg_completed_at := (if finished new then Some now else sg_completed_at s),
                 sg_effectiveness_score := (case score of Some x \<Rightarrow> Some x | None \<Rightarrow> sg_effectiveness_score s)\<rparr>))
              (\<lambda>u. Inr (u, replace_strategy i u (pf_strategies p))))"

text \<open>\<open>resolveGoalId\<close>: the index, or a scan of the goals, which puts what it reads into the index.\<close>

primrec scan_goals :: "string \<Rightarrow> string list \<Rightarrow> store \<Rightarrow> string option result \<times> store" where
  "scan_goals i [] st = (Inr None, st)"
| "scan_goals i (g # gs) st = (case get_portfolio g st of
     (Inl e, st1) \<Rightarrow> (Inl e, st1)
   | (Inr (Some p), st1) \<Rightarrow> if find_strategy i (pf_strategies p) \<noteq> None then (Inr (Some g), st1) else scan_goals i gs st1
   | (Inr None, st1) \<Rightarrow> scan_goals i gs st1)"

definition resolve_goal_id :: "string list \<Rightarrow> string \<Rightarrow> store \<Rightarrow> string option result \<times> store" where
  "resolve_goal_id goals i st = (case table_get (sr_index st) i of
     Some g \<Rightarrow> if g \<noteq> [] then (Inr (Some g), st) else scan_goals i goals st
   | None \<Rightarrow> scan_goals i goals st)"

definition update_state ::
  "string list \<Rightarrow> string \<Rightarrow> strategy_state \<Rightarrow> rat option \<Rightarrow> timestamp \<Rightarrow> (store \<Rightarrow> store) \<Rightarrow> store \<Rightarrow>
   unit result \<times> store" where
  "update_state goals i new score now others st = (case resolve_goal_id goals i st of
     (Inl e, st1) \<Rightarrow> (Inl e, st1)
   | (Inr None, st1) \<Rightarrow> (Inl (not_found ''updateState'' i), st1)
   | (Inr (Some g), st1) \<Rightarrow>
       (if g = [] then (Inl (not_found ''updateState'' i), st1)
        else case edit_portfolio now g others (transitioned i new score now) st1 of
          (Inl e, st2) \<Rightarrow> (Inl e, st2)
        | (Inr u, st2) \<Rightarrow> if finished new then append_to_history g u st2 else (Inr (), st2)))"

section \<open>Shares\<close>

text \<open>\<open>redistributeAllocation\<close> of \<open>strategy-helpers.ts\<close>.\<close>

definition in_list :: "strategy list \<Rightarrow> strategy \<Rightarrow> bool" where
  "in_list ss s \<longleftrightarrow> list_ex (\<lambda>r. sg_id r = sg_id s) ss"

definition grown :: "(rat \<Rightarrow> rat) \<Rightarrow> strategy list \<Rightarrow> rat \<Rightarrow> strategy \<Rightarrow> strategy" where
  "grown rnd remaining freed s =
     (let total = js_sum rnd (map sg_allocation remaining);
          share = (if total > 0 then rnd (sg_allocation s / total) else rnd (1 / of_nat (length remaining)))
      in if \<not> in_list remaining s then s else s\<lparr>sg_allocation := rnd (sg_allocation s + rnd (freed * share))\<rparr>)"

definition redistribute_allocation ::
  "(rat \<Rightarrow> rat) \<Rightarrow> strategy list \<Rightarrow> string \<Rightarrow> rat \<Rightarrow> strategy list result" where
  "redistribute_allocation rnd ss excluded freed =
     (let remaining = filter (\<lambda>s. sg_id s \<noteq> excluded \<and> running s) ss
      in if remaining = [] \<or> freed \<le> 0 then Inr ss
         else parse_strategies (map (grown rnd remaining freed) ss))"

definition terminated ::
  "(rat \<Rightarrow> rat) \<Rightarrow> string \<Rightarrow> timestamp \<Rightarrow> portfolio \<Rightarrow> (strategy \<times> strategy list) result" where
  "terminated rnd i now p = (case find_strategy i (pf_strategies p) of
     None \<Rightarrow> Inl (not_found ''terminateStrategy'' i)
   | Some s \<Rightarrow>
       result_bind (parse_strategy (s\<lparr>sg_state := St_Terminated, sg_completed_at := Some now, sg_allocation := 0\<rparr>)) (\<lambda>u.
       result_bind (redistribute_allocation rnd (replace_strategy i u (pf_strategies p)) i (sg_allocation s)) (\<lambda>ss.
       Inr (u, ss))))"

definition terminate_strategy ::
  "(rat \<Rightarrow> rat) \<Rightarrow> string \<Rightarrow> string \<Rightarrow> timestamp \<Rightarrow> (store \<Rightarrow> store) \<Rightarrow> store \<Rightarrow> strategy result \<times> store" where
  "terminate_strategy rnd g i now others st = (case edit_portfolio now g others (terminated rnd i now) st of
     (Inl e, st1) \<Rightarrow> (Inl e, st1)
   | (Inr u, st1) \<Rightarrow> (case append_to_history g u st1 of (Inl e, st2) \<Rightarrow> (Inl e, st2) | (Inr _, st2) \<Rightarrow> (Inr u, st2)))"

definition suspended ::
  "(rat \<Rightarrow> rat) \<Rightarrow> string \<Rightarrow> portfolio \<Rightarrow> (strategy \<times> strategy list) result" where
  "suspended rnd i p = (case find_strategy i (pf_strategies p) of
     None \<Rightarrow> Inl (not_found ''suspendStrategy'' i)
   | Some s \<Rightarrow>
       if \<not> running s then Inl (Thrown ''suspendStrategy: must be active or evaluating'')
       else result_bind (parse_strategy (s\<lparr>sg_state := St_Suspended, sg_allocation := 0\<rparr>)) (\<lambda>u.
            result_bind (redistribute_allocation rnd (replace_strategy i u (pf_strategies p)) i (sg_allocation s)) (\<lambda>ss.
            Inr (u, ss))))"

definition suspend_strategy ::
  "(rat \<Rightarrow> rat) \<Rightarrow> string \<Rightarrow> string \<Rightarrow> timestamp \<Rightarrow> (store \<Rightarrow> store) \<Rightarrow> store \<Rightarrow> strategy result \<times> store" where
  "suspend_strategy rnd g i now others st = edit_portfolio now g others (suspended rnd i) st"

definition shrunk :: "(rat \<Rightarrow> rat) \<Rightarrow> strategy list \<Rightarrow> rat \<Rightarrow> strategy \<Rightarrow> strategy" where
  "shrunk rnd rest room s =
     (let total = js_sum rnd (map sg_allocation rest)
      in if \<not> in_list rest s then s
         else s\<lparr>sg_allocation := (if total > 0 then rnd (rnd (sg_allocation s / total) * room)
                               else rnd (room / of_nat (length rest)))\<rparr>)"

definition resumed ::
  "(rat \<Rightarrow> rat) \<Rightarrow> string \<Rightarrow> rat \<Rightarrow> portfolio \<Rightarrow> (strategy \<times> strategy list) result" where
  "resumed rnd i allocation p = (case find_strategy i (pf_strategies p) of
     None \<Rightarrow> Inl (not_found ''resumeStrategy'' i)
   | Some s \<Rightarrow>
       if sg_state s \<noteq> St_Suspended then Inl (Thrown ''resumeStrategy: must be suspended'')
       else result_bind (parse_strategy (s\<lparr>sg_state := St_Active, sg_allocation := allocation\<rparr>)) (\<lambda>u.
         let rest = filter (\<lambda>s. sg_id s \<noteq> i \<and> running s) (pf_strategies p)
         in result_bind (parse_strategies
              (map (\<lambda>s. if sg_id s = i then u else shrunk rnd rest (rnd (1 - allocation)) s) (pf_strategies p))) (\<lambda>ss.
            Inr (u, ss))))"

definition resume_strategy ::
  "(rat \<Rightarrow> rat) \<Rightarrow> string \<Rightarrow> string \<Rightarrow> rat \<Rightarrow> timestamp \<Rightarrow> (store \<Rightarrow> store) \<Rightarrow> store \<Rightarrow> strategy result \<times> store" where
  "resume_strategy rnd g i allocation now others st =
     (if allocation < 0 \<or> 1 < allocation then (Inl (Thrown ''resumeStrategy: allocation must be in [0, 1]''), st)
      else edit_portfolio now g others (resumed rnd i allocation) st)"

definition allocated :: "string \<Rightarrow> rat \<Rightarrow> portfolio \<Rightarrow> (unit \<times> strategy list) result" where
  "allocated i allocation p = (case find_strategy i (pf_strategies p) of
     None \<Rightarrow> Inl (not_found ''updateAllocation'' i)
   | Some s \<Rightarrow>
       result_bind (parse_strategies (map (\<lambda>s. if sg_id s = i then s\<lparr>sg_allocation := allocation\<rparr> else s) (pf_strategies p)))
         (\<lambda>ss. Inr ((), ss)))"

definition update_allocation ::
  "string \<Rightarrow> string \<Rightarrow> rat \<Rightarrow> timestamp \<Rightarrow> (store \<Rightarrow> store) \<Rightarrow> store \<Rightarrow> unit result \<times> store" where
  "update_allocation g i allocation now others st =
     (if allocation < 0 \<or> 1 < allocation then (Inl (Thrown ''updateAllocation: allocation must be in [0, 1]''), st)
      else edit_portfolio now g others (allocated i allocation) st)"

definition pivoted :: "string \<Rightarrow> portfolio \<Rightarrow> strategy list" where
  "pivoted i p = (case find_strategy i (pf_strategies p) of
     None \<Rightarrow> pf_strategies p
   | Some s \<Rightarrow> replace_strategy i (s\<lparr>sg_pivot_count := sg_pivot_count s + 1\<rparr>) (pf_strategies p))"

definition increment_pivot_count :: "string \<Rightarrow> string \<Rightarrow> timestamp \<Rightarrow> (store \<Rightarrow> store) \<Rightarrow> store \<Rightarrow> unit result \<times> store" where
  "increment_pivot_count g i now others st = edit_portfolio now g others (\<lambda>p. Inr ((), pivoted i p)) st"

definition get_active_strategy :: "timestamp \<Rightarrow> string \<Rightarrow> store \<Rightarrow> strategy option result \<times> store" where
  "get_active_strategy now g st = (case load_or_create_portfolio now g st of
     (Inl e, st1) \<Rightarrow> (Inl e, st1)
   | (Inr p, st1) \<Rightarrow> (Inr (find (\<lambda>s. sg_state s = St_Active) (pf_strategies p)), st1))"

definition get_all_active_strategies :: "timestamp \<Rightarrow> string \<Rightarrow> store \<Rightarrow> strategy list result \<times> store" where
  "get_all_active_strategies now g st = (case load_or_create_portfolio now g st of
     (Inl e, st1) \<Rightarrow> (Inl e, st1)
   | (Inr p, st1) \<Rightarrow> (Inr (filter running (pf_strategies p)), st1))"

section \<open>Activation\<close>

text \<open>
  What the caller and the state manager say while a wait is activated: the gap of a dimension as the caller and as
  the state manager give it, and whether the goal can afford a wait of so many hours, given the gap and the baseline.
\<close>

record activation =
  av_ctx_gap :: "string \<Rightarrow> rat option"
  av_stored_gap :: "string \<Rightarrow> rat option"
  av_can_afford :: "(strategy \<Rightarrow> js_number \<Rightarrow> rat \<Rightarrow> rat \<Rightarrow> bool) option"

definition wait_hours :: "(rat \<Rightarrow> rat) \<Rightarrow> timestamp \<Rightarrow> int \<Rightarrow> js_number" where
  "wait_hours rnd until now = (case date_parse until of
     None \<Rightarrow> NaN
   | Some t \<Rightarrow> Fin (max 0 (rnd (of_int (t - now) / 3600000))))"

primrec check_activation ::
  "(rat \<Rightarrow> rat) \<Rightarrow> activation \<Rightarrow> int \<Rightarrow> strategy list \<Rightarrow> string list \<Rightarrow> (string, rat) table \<Rightarrow> (string, rat) table result" where
  "check_activation rnd av now ss [] baselines = Inr baselines"
| "check_activation rnd av now ss (i # ids) baselines = (case find_strategy i ss of
     None \<Rightarrow> Inl (not_found ''activateMultiple'' i)
   | Some s \<Rightarrow>
       if sg_state s \<noteq> St_Candidate then Inl (Thrown ''activateMultiple: not in candidate state'')
       else (case sg_wait s of
         None \<Rightarrow> check_activation rnd av now ss ids baselines
       | Some w \<Rightarrow>
           (let dim = sg_primary_dimension s;
                currentGap = (case av_ctx_gap av dim of Some x \<Rightarrow> Some x | None \<Rightarrow> av_stored_gap av dim);
                baseline = (case sg_gap_snapshot_at_start s of Some x \<Rightarrow> x | None \<Rightarrow> nullish currentGap 1)
            in if (case av_can_afford av of None \<Rightarrow> False
                   | Some afford \<Rightarrow> \<not> afford s (wait_hours rnd (wt_wait_until w) now) (nullish currentGap baseline) baseline)
               then Inl (Thrown ''activateMultiple: the goal cannot afford waiting'')
               else check_activation rnd av now ss ids (table_put (sg_id s) baseline baselines))))"

definition equal_share :: "(rat \<Rightarrow> rat) \<Rightarrow> nat \<Rightarrow> rat" where
  "equal_share rnd n = (if n = 1 then 1 else min (max (rnd (1 / of_nat n)) (rnd (1 / 10))) (rnd (7 / 10)))"

definition started_strategy :: "timestamp \<Rightarrow> rat \<Rightarrow> (string, rat) table \<Rightarrow> strategy \<Rightarrow> strategy" where
  "started_strategy now share baselines s = s\<lparr>sg_state := St_Active, sg_started_at := Some now, sg_allocation := share,
     sg_gap_snapshot_at_start := (case table_get baselines (sg_id s) of Some x \<Rightarrow> Some x | None \<Rightarrow> sg_gap_snapshot_at_start s)\<rparr>"

definition activated ::
  "(rat \<Rightarrow> rat) \<Rightarrow> activation \<Rightarrow> string list \<Rightarrow> int \<Rightarrow> portfolio \<Rightarrow> (strategy list \<times> strategy list) result" where
  "activated rnd av ids now p = result_bind (check_activation rnd av now (pf_strategies p) ids []) (\<lambda>baselines.
     let up = started_strategy (Iso now) (equal_share rnd (length ids)) baselines
     in result_bind (parse_strategies (map up (filter (\<lambda>s. sg_id s \<in> set ids) (pf_strategies p)))) (\<lambda>us.
        Inr (us, map (\<lambda>s. if sg_id s \<in> set ids then up s else s) (pf_strategies p))))"

definition activate_multiple ::
  "(rat \<Rightarrow> rat) \<Rightarrow> activation \<Rightarrow> string \<Rightarrow> string list \<Rightarrow> int \<Rightarrow> (store \<Rightarrow> store) \<Rightarrow> store \<Rightarrow>
   strategy list result \<times> store" where
  "activate_multiple rnd av g ids now others st =
     (if ids = [] then (Inl (Thrown ''activateMultiple: strategyIds must not be empty''), st)
      else edit_portfolio (Iso now) g others (activated rnd av ids now) st)"

section \<open>New strategies\<close>

text \<open>A wait gets a fresh id, which is a parameter.\<close>

record wait_params =
  wp_hypothesis :: string
  wp_wait :: wait_part
  wp_target_dimensions :: "string list"
  wp_primary_dimension :: string

definition fresh_strategy :: "string \<Rightarrow> string \<Rightarrow> string \<Rightarrow> string \<Rightarrow> string list \<Rightarrow> resource_estimate \<Rightarrow> timestamp \<Rightarrow> strategy" where
  "fresh_strategy i g hypothesis primary targets estimate now =
     \<lparr>sg_id = i, sg_goal_id = g, sg_target_dimensions = targets, sg_primary_dimension = primary, sg_hypothesis = hypothesis,
      sg_expected_effect = [], sg_resource_estimate = estimate, sg_state = St_Candidate, sg_allocation = 0,
      sg_created_at = now, sg_started_at = None, sg_completed_at = None, sg_gap_snapshot_at_start = None,
      sg_tasks_generated = [], sg_effectiveness_score = None, sg_consecutive_stall_count = 0,
      sg_source_template_id = None, sg_cross_goal_context = None, sg_rollback_target_id = None, sg_max_pivot_count = 2,
      sg_pivot_count = 0, sg_toolset_locked = False, sg_allowed_tools = [], sg_required_tools = [],
      sg_exploration = None, sg_planner_hint_trace = None, sg_wait = None\<rparr>"

definition create_wait_strategy ::
  "string \<Rightarrow> string \<Rightarrow> wait_params \<Rightarrow> timestamp \<Rightarrow> (store \<Rightarrow> store) \<Rightarrow> store \<Rightarrow> strategy result \<times> store" where
  "create_wait_strategy fresh_id g w now others st =
     (let s = (fresh_strategy fresh_id g (wp_hypothesis w) (wp_primary_dimension w) (wp_target_dimensions w)
                 \<lparr>re_sessions = 0, re_duration = 0, re_unit = Hours, re_llm_calls = None\<rparr> now)\<lparr>sg_wait := Some (wp_wait w)\<rparr>
      in edit_portfolio now g others (\<lambda>p. Inr (s, pf_strategies p @ [s])) st)"

text \<open>
  What the model answers, one record per strategy; \<open>generateCandidates\<close> makes candidates of it. An id that the answer
  leaves out is drawn. \<open>enrich\<close> is what divergent recovery and the activation of templates make of the list.
\<close>

record raw_strategy =
  rw_id :: "string option"
  rw_hypothesis :: string
  rw_expected_effect :: "expected_effect list"
  rw_resource_estimate :: resource_estimate
  rw_allocation :: rat
  rw_required_tools :: "string list"
  rw_exploration :: "exploration option"

definition candidate_of :: "string \<Rightarrow> string \<Rightarrow> string list \<Rightarrow> timestamp \<Rightarrow> raw_strategy \<times> string \<Rightarrow> strategy" where
  "candidate_of g primary targets now r =
     (fresh_strategy (nullish (rw_id (fst r)) (snd r)) g (rw_hypothesis (fst r)) primary targets (rw_resource_estimate (fst r)) now)
       \<lparr>sg_expected_effect := rw_expected_effect (fst r), sg_allocation := rw_allocation (fst r),
        sg_required_tools := rw_required_tools (fst r), sg_exploration := rw_exploration (fst r)\<rparr>"

fun dedupe_candidates :: "string list \<Rightarrow> strategy list \<Rightarrow> strategy list" where
  "dedupe_candidates seen [] = []"
| "dedupe_candidates seen (s # ss) =
     (if sg_id s \<in> set seen then dedupe_candidates seen ss else s # dedupe_candidates (sg_id s # seen) ss)"

definition generate_candidates ::
  "string \<Rightarrow> string \<Rightarrow> string list \<Rightarrow> (raw_strategy \<times> string) list \<Rightarrow> (strategy list \<Rightarrow> strategy list) \<Rightarrow> timestamp \<Rightarrow>
   (store \<Rightarrow> store) \<Rightarrow> store \<Rightarrow> strategy list result \<times> store" where
  "generate_candidates g primary targets raws enrich now others st =
     (case parse_strategies (map (candidate_of g primary targets now) raws) of
        Inl e \<Rightarrow> (Inl e, st)
      | Inr cs \<Rightarrow>
          edit_portfolio now g others (\<lambda>p.
            let fresh = filter (\<lambda>c. sg_id c \<notin> sg_id ` set (pf_strategies p)) (dedupe_candidates [] (enrich cs))
            in Inr (fresh, pf_strategies p @ fresh)) st)"

section \<open>The choice of a candidate\<close>

text \<open>The feedback of executions: the strategy and whether it succeeded, 50 at most.\<close>

definition record_execution_feedback :: "string \<times> bool \<Rightarrow> (string \<times> bool) list \<Rightarrow> (string \<times> bool) list" where
  "record_execution_feedback f h = (let h' = h @ [f] in if length h' > 50 then tl h' else h')"

definition stats_of :: "(string \<times> bool) list \<Rightarrow> string \<Rightarrow> (nat \<times> nat) option" where
  "stats_of h i = (let fs = filter (\<lambda>f. fst f = i) h
     in if fs = [] then None else Some (length fs, length (filter snd fs)))"

definition history_penalty :: "(rat \<Rightarrow> rat) \<Rightarrow> (string \<times> bool) list \<Rightarrow> strategy \<Rightarrow> rat" where
  "history_penalty rnd h s =
     (case (case stats_of h (sg_id s) of Some x \<Rightarrow> Some x | None \<Rightarrow> stats_of h (sg_hypothesis s)) of
        None \<Rightarrow> 0
      | Some (n, wins) \<Rightarrow>
          if n < 3 then 0
          else if rnd (of_nat wins / of_nat n) < rnd (3 / 10) then - rnd (2 / 10) else 0)"

definition candidate_score :: "(rat \<Rightarrow> rat) \<Rightarrow> (string \<times> bool) list \<Rightarrow> string list \<Rightarrow> strategy \<Rightarrow> rat" where
  "candidate_score rnd h available s =
     rnd (- of_nat (length (filter (\<lambda>n. n \<notin> set available) (sg_required_tools s))) + history_penalty rnd h s)"

definition choose_candidate ::
  "(rat \<Rightarrow> rat) \<Rightarrow> string list option \<Rightarrow> (string \<times> bool) list \<Rightarrow> strategy list \<Rightarrow> strategy option" where
  "choose_candidate rnd tools h cs =
     (if cs = [] then None
      else case tools of
        Some available \<Rightarrow>
          if list_ex (\<lambda>c. sg_required_tools c \<noteq> []) cs
          then Some (hd (sort_key (\<lambda>c. - candidate_score rnd h available c) cs))
          else if h \<noteq> [] then Some (hd (sort_key (\<lambda>c. - history_penalty rnd h c) cs)) else Some (hd cs)
      | None \<Rightarrow> if h \<noteq> [] then Some (hd (sort_key (\<lambda>c. - history_penalty rnd h c) cs)) else Some (hd cs))"

definition candidate_pool :: "(strategy list \<Rightarrow> strategy list) \<Rightarrow> strategy list \<Rightarrow> strategy list" where
  "candidate_pool rank ss =
     (let pool = filter (\<lambda>s. sg_state s = St_Candidate \<and> opt_all (\<lambda>x. xp_smoke_status x \<noteq> Smoke_Retire) (sg_exploration s)) ss
      in if list_ex (\<lambda>c. map_option xp_phase (sg_exploration c) = Some Phase_Divergent) pool then rank pool else pool)"

text \<open>\<open>rank\<close> is \<open>rankDivergentCandidates\<close>.\<close>

definition activate_best_candidate ::
  "(rat \<Rightarrow> rat) \<Rightarrow> (strategy list \<Rightarrow> strategy list) \<Rightarrow> activation \<Rightarrow> string list option \<Rightarrow> (string \<times> bool) list \<Rightarrow>
   string \<Rightarrow> int \<Rightarrow> (store \<Rightarrow> store) \<Rightarrow> store \<Rightarrow> strategy result \<times> store" where
  "activate_best_candidate rnd rank av tools h g now others st = (case load_or_create_portfolio (Iso now) g st of
     (Inl e, st1) \<Rightarrow> (Inl e, st1)
   | (Inr p, st1) \<Rightarrow> (case choose_candidate rnd tools h (candidate_pool rank (pf_strategies p)) of
       None \<Rightarrow> (Inl (Thrown ''activateBestCandidate: no candidates found''), st1)
     | Some best \<Rightarrow> (case activate_multiple rnd av g [sg_id best] now others st1 of
         (Inl e, st2) \<Rightarrow> (Inl e, st2)
       | (Inr [], st2) \<Rightarrow> (Inl (Thrown ''activateBestCandidate: failed to activate''), st2)
       | (Inr (s # _), st2) \<Rightarrow> (Inr s, st2))))"

section \<open>Decision history\<close>

datatype decision_kind = Dk_Proceed | Dk_Refine | Dk_Pivot | Dk_Escalate
datatype decision_outcome = Do_Success | Do_Failure | Do_Pending

record decision_lineage =
  dl_strategy_family :: "string option"
  dl_source_template_id :: "string option"
  dl_failed_lineage_fingerprints :: "string list"

record decision_record =
  dr_strategy_id :: string
  dr_lineage :: "decision_lineage option"
  dr_decision :: decision_kind
  dr_outcome :: decision_outcome

definition key_list :: "string \<Rightarrow> string option \<Rightarrow> string list" where
  "key_list prefix x = (if truthy x then [prefix @ nullish x []] else [])"

definition decision_lineage_keys :: "decision_lineage \<Rightarrow> string list" where
  "decision_lineage_keys l =
     key_list ''template:'' (dl_source_template_id l) @ key_list ''family:'' (dl_strategy_family l) @
     map (\<lambda>f. ''failed:'' @ f) (dl_failed_lineage_fingerprints l)"

definition lineage_of_strategy :: "strategy \<Rightarrow> decision_lineage" where
  "lineage_of_strategy s =
     \<lparr>dl_strategy_family = map_option xp_strategy_family (sg_exploration s), dl_source_template_id = sg_source_template_id s,
      dl_failed_lineage_fingerprints = (case sg_exploration s of None \<Rightarrow> []
        | Some x \<Rightarrow> (case xp_lineage_assessment x of None \<Rightarrow> [] | Some a \<Rightarrow> la_matched_failed_lineage_fingerprints a))\<rparr>"

definition strategy_decision_lineage_keys :: "strategy \<Rightarrow> string list" where
  "strategy_decision_lineage_keys s = (''strategy:'' @ sg_id s) # decision_lineage_keys (lineage_of_strategy s)"

definition decision_record_lineage_keys :: "decision_record \<Rightarrow> string list" where
  "decision_record_lineage_keys r =
     (let keys = (case dr_lineage r of None \<Rightarrow> [] | Some l \<Rightarrow> decision_lineage_keys l)
      in if keys \<noteq> [] then keys else key_list ''strategy:'' (Some (dr_strategy_id r)))"

definition decision_delta :: "decision_record \<Rightarrow> int" where
  "decision_delta r = (if dr_decision r = Dk_Pivot \<and> dr_outcome r \<noteq> Do_Success then - 1
     else if dr_outcome r = Do_Success then 1 else 0)"

definition score_map :: "decision_record list \<Rightarrow> string \<Rightarrow> int" where
  "score_map rs k = (\<Sum>r \<leftarrow> rs. decision_delta r * int (count_list (decision_record_lineage_keys r) k))"

definition rank_by_decision_history :: "decision_record list \<Rightarrow> strategy list \<Rightarrow> strategy list" where
  "rank_by_decision_history rs cs =
     (if length rs < 3 then cs
      else sort_key (\<lambda>c. - (\<Sum>k \<leftarrow> strategy_decision_lineage_keys c. score_map rs k)) cs)"

text \<open>How the ranking is written back: every strategy is looked up in it by its id.\<close>

definition persist_ranking :: "strategy list \<Rightarrow> strategy list \<Rightarrow> strategy list" where
  "persist_ranking ranked ss = map (\<lambda>s. nullish (find_strategy (sg_id s) ranked) s) ss"

section \<open>A stall\<close>

definition stalled_once_more :: "strategy \<Rightarrow> portfolio \<Rightarrow> (unit \<times> strategy list) result" where
  "stalled_once_more a p = result_bind (parse_strategy (a\<lparr>sg_consecutive_stall_count := sg_consecutive_stall_count a + 1\<rparr>))
     (\<lambda>u. Inr ((), replace_strategy (sg_id a) u (pf_strategies p)))"

text \<open>
  \<open>raws\<close> is the answer of the model, \<open>None\<close> when the call or its schema fails; \<open>decisions\<close> the records of
  the knowledge manager, \<open>None\<close> without a manager, without a type of goal, or when the query fails. \<open>others n\<close> is what happens
  during the \<open>n\<close>th step.
\<close>

record stall_ports =
  sp_goals :: "string list"
  sp_raws :: "(raw_strategy \<times> string) list option"
  sp_enrich :: "strategy list \<Rightarrow> strategy list"
  sp_decisions :: "decision_record list option"
  sp_rank :: "strategy list \<Rightarrow> strategy list"
  sp_activation :: activation
  sp_tools :: "string list option"
  sp_history :: "(string \<times> bool) list"

definition terminate_active ::
  "stall_ports \<Rightarrow> string \<Rightarrow> timestamp \<Rightarrow> (nat \<Rightarrow> store \<Rightarrow> store) \<Rightarrow> strategy option \<Rightarrow> store \<Rightarrow> unit result \<times> store" where
  "terminate_active ports g now others active st = (case active of
     None \<Rightarrow> (Inr (), st)
   | Some a \<Rightarrow> (case edit_portfolio now g (others 0) (stalled_once_more a) st of
       (Inl e, st1) \<Rightarrow> (Inl e, st1)
     | (Inr _, st1) \<Rightarrow> update_state (sp_goals ports) (sg_id a) St_Terminated None now (others 1) st1))"

definition rank_step :: "stall_ports \<Rightarrow> string \<Rightarrow> timestamp \<Rightarrow> (nat \<Rightarrow> store \<Rightarrow> store) \<Rightarrow> strategy list \<Rightarrow> store \<Rightarrow> store" where
  "rank_step ports g now others cs st = (case sp_decisions ports of
     None \<Rightarrow> st
   | Some rs \<Rightarrow> snd (edit_portfolio now g (others 3)
       (\<lambda>p. Inr ((), persist_ranking (rank_by_decision_history rs cs) (pf_strategies p))) st))"

definition on_stall_detected ::
  "(rat \<Rightarrow> rat) \<Rightarrow> stall_ports \<Rightarrow> string \<Rightarrow> int \<Rightarrow> int \<Rightarrow> (nat \<Rightarrow> store \<Rightarrow> store) \<Rightarrow> store \<Rightarrow> strategy option result \<times> store" where
  "on_stall_detected rnd ports g stallCount now others st =
     (if stallCount < 2 then (Inr None, st)
      else case get_active_strategy (Iso now) g st of
        (Inl e, st1) \<Rightarrow> (Inl e, st1)
      | (Inr active, st1) \<Rightarrow> (case terminate_active ports g (Iso now) others active st1 of
          (Inl e, st2) \<Rightarrow> (Inl e, st2)
        | (Inr _, st2) \<Rightarrow> (case get_strategy_history g st2 of
            Inl e \<Rightarrow> (Inl e, st2)
          | Inr past \<Rightarrow>
              (let model = (case active of Some a \<Rightarrow> Some a | None \<Rightarrow> (case past of [] \<Rightarrow> None | s # _ \<Rightarrow> Some s));
                   primary = (case model of Some a \<Rightarrow> sg_primary_dimension a | None \<Rightarrow> []);
                   targets = (case model of Some a \<Rightarrow> sg_target_dimensions a | None \<Rightarrow> [])
               in case sp_raws ports of
                    None \<Rightarrow> (Inr None, st2)
                  | Some raws \<Rightarrow> (case generate_candidates g primary targets raws (sp_enrich ports) (Iso now) (others 2) st2 of
                      (Inl e, st3) \<Rightarrow> (Inr None, st3)
                    | (Inr cs, st3) \<Rightarrow>
                        if cs = [] then (Inr None, st3)
                        else case activate_best_candidate rnd (sp_rank ports) (sp_activation ports) (sp_tools ports) (sp_history ports)
                                    g now (others 4) (rank_step ports g (Iso now) others cs st3) of
                               (Inl e, st4) \<Rightarrow> (Inr None, st4)
                             | (Inr s, st4) \<Rightarrow> (Inr (Some s), st4))))))"

text \<open>
  \<open>recordDivergentSmokeResult\<close>: what a trial of a divergent strategy gave is kept in its exploration; a
  promoted one gets a share of at least 0.35. A strategy without exploration gets one.
\<close>

record smoke_input =
  si_status :: smoke_status
  si_reason :: string
  si_evidence_ref :: "string option"

definition infer_expected_cost :: "strategy \<Rightarrow> expected_cost" where
  "infer_expected_cost s =
     (let e = sg_resource_estimate s
      in if re_sessions e \<le> 1 \<and> (re_unit e = Minutes \<or> (re_unit e = Hours \<and> re_duration e \<le> 2)) then Cost_Low
         else if re_unit e = Days \<or> re_unit e = Weeks \<or> re_sessions e \<ge> 4 then Cost_High
         else Cost_Medium)"

definition apply_smoke_result :: "strategy \<Rightarrow> smoke_input \<Rightarrow> strategy result" where
  "apply_smoke_result s i =
     (let ref = (if truthy (si_evidence_ref i) then si_evidence_ref i else None)
      in case sg_exploration s of
           None \<Rightarrow> parse_strategy (s\<lparr>sg_exploration := Some
             \<lparr>xp_phase = Phase_Divergent, xp_role = Adjacent_Exploration, xp_strategy_family = ''unclassified'',
              xp_novelty_score = 1 / 2, xp_similarity_to_recent_failures = 0, xp_expected_cost = infer_expected_cost s,
              xp_relationship_to_lineage = Lin_Unknown, xp_prior_evidence = None, xp_downrank_reason = None,
              xp_smoke_status = si_status i, xp_smoke_reason = Some (si_reason i), xp_smoke_evidence_ref = ref,
              xp_lineage_assessment = None\<rparr>\<rparr>)
         | Some x \<Rightarrow> parse_strategy (s\<lparr>
             sg_allocation := (if si_status i = Smoke_Promote then max (sg_allocation s) (35 / 100) else sg_allocation s),
             sg_exploration := Some (x\<lparr>
               xp_downrank_reason := (if si_status i = Smoke_Retire \<or> si_status i = Smoke_Defer then Some (si_reason i)
                                     else xp_downrank_reason x),
               xp_smoke_status := si_status i, xp_smoke_reason := Some (si_reason i), xp_smoke_evidence_ref := ref\<rparr>)\<rparr>))"

definition record_divergent_smoke_result ::
  "string \<Rightarrow> string \<Rightarrow> smoke_input \<Rightarrow> timestamp \<Rightarrow> (store \<Rightarrow> store) \<Rightarrow> store \<Rightarrow> strategy option result \<times> store" where
  "record_divergent_smoke_result g i input now others st = (case load_or_create_portfolio now g st of
     (Inl e, st1) \<Rightarrow> (Inl e, st1)
   | (Inr p, st1) \<Rightarrow> (case find_strategy i (pf_strategies p) of
       None \<Rightarrow> (Inr None, st1)
     | Some s \<Rightarrow> (case apply_smoke_result s input of
         Inl e \<Rightarrow> (Inl e, st1)
       | Inr u \<Rightarrow> (case save_portfolio g (p\<lparr>pf_strategies := replace_strategy i u (pf_strategies p)\<rparr>) (others st1) of
           (Inl e, st2) \<Rightarrow> (Inl e, st2)
         | (Inr _, st2) \<Rightarrow> (Inr (Some u), st2)))))"

text \<open>\<open>detectStrategyGap\<close>: whether the candidates are a deadlock, and whether there are none at all.\<close>

definition detect_strategy_gap :: "(rat \<Rightarrow> rat) \<Rightarrow> strategy list \<Rightarrow> bool option" where
  "detect_strategy_gap rnd cs =
     (if cs = [] then Some True
      else let scored = filter (\<lambda>c. sg_effectiveness_score c \<noteq> None) cs
           in if scored \<noteq> [] \<and> list_all (\<lambda>c. nullish (sg_effectiveness_score c) 1 < rnd (3 / 10)) scored then Some False else None)"

section \<open>What every operation keeps\<close>

definition strategies_ok :: "strategy list \<Rightarrow> bool" where
  "strategies_ok ss \<longleftrightarrow> list_all strategy_valid ss \<and> distinct (map sg_id ss)"

definition store_ok :: "store \<Rightarrow> bool" where
  "store_ok st \<longleftrightarrow> (\<forall>g p. table_get (sr_portfolios st) g = Some p \<longrightarrow> strategies_ok (pf_strategies p)) \<and>
     (\<forall>g h. table_get (sr_history st) g = Some h \<longrightarrow> strategies_ok h)"

text \<open>
  The steps a strategy really takes: the table of transitions, suspension of what runs, and termination,
  which \<open>terminateStrategy\<close> does in every state.
\<close>

inductive life_step :: "strategy_state \<Rightarrow> strategy_state \<Rightarrow> bool" where
  life_transition: "b \<in> set (valid_transitions a) \<Longrightarrow> life_step a b"
| life_suspend: "a = St_Active \<or> a = St_Evaluating \<Longrightarrow> life_step a St_Suspended"
| life_terminate: "life_step a St_Terminated"

inductive_cases life_stepE: "life_step a b"

lemma finished_stays: "life_step\<^sup>*\<^sup>* a b \<Longrightarrow> finished a \<Longrightarrow> finished b"
proof (induction rule: rtranclp_induct)
  case (step b c)
  from step.hyps(2) show ?case using step.IH[OF step.prems] by cases (auto simp: finished_def)
qed

definition strategy_le :: "strategy \<Rightarrow> strategy \<Rightarrow> bool" where
  "strategy_le s t \<longleftrightarrow> sg_id t = sg_id s \<and> life_step\<^sup>*\<^sup>* (sg_state s) (sg_state t)"

definition strategies_le :: "strategy list \<Rightarrow> strategy list \<Rightarrow> bool" where
  "strategies_le ss ts \<longleftrightarrow> (\<exists>ys zs. ts = ys @ zs \<and> list_all2 strategy_le ss ys)"

definition store_le :: "store \<Rightarrow> store \<Rightarrow> bool" where
  "store_le st st' \<longleftrightarrow> (\<forall>g p. table_get (sr_portfolios st) g = Some p \<longrightarrow>
     (\<exists>q. table_get (sr_portfolios st') g = Some q \<and> strategies_le (pf_strategies p) (pf_strategies q)))"

lemma strategy_le_refl [simp]: "strategy_le s s"
  by (simp add: strategy_le_def)

lemma strategy_le_trans: "strategy_le s t \<Longrightarrow> strategy_le t u \<Longrightarrow> strategy_le s u"
  by (auto simp: strategy_le_def)

lemma strategy_le_same: "sg_id t = sg_id s \<Longrightarrow> sg_state t = sg_state s \<Longrightarrow> strategy_le s t"
  by (simp add: strategy_le_def)

lemma strategy_le_step: "sg_id t = sg_id s \<Longrightarrow> life_step (sg_state s) (sg_state t) \<Longrightarrow> strategy_le s t"
  by (auto simp: strategy_le_def)

lemma strategies_le_append: "strategies_le ss (ss @ zs)"
  by (auto simp: strategies_le_def list_all2_refl)

lemma strategies_le_refl [simp]: "strategies_le ss ss"
  using strategies_le_append[of ss "[]"] by simp

lemma strategies_le_map: "(\<And>s. s \<in> set ss \<Longrightarrow> strategy_le s (f s)) \<Longrightarrow> strategies_le ss (map f ss)"
  unfolding strategies_le_def by (intro exI[of _ "map f ss"] exI[of _ "[]"]) (simp add: list_all2_conv_all_nth)

lemma strategies_le_trans:
  assumes "strategies_le ss ts" "strategies_le ts us"
  shows "strategies_le ss us"
proof -
  obtain ys zs where ts: "ts = ys @ zs" "list_all2 strategy_le ss ys" using assms(1) by (auto simp: strategies_le_def)
  obtain ys' zs' where us: "us = ys' @ zs'" "list_all2 strategy_le (ys @ zs) ys'"
    using assms(2) ts(1) by (auto simp: strategies_le_def)
  obtain vs ws where split: "ys' = vs @ ws" "list_all2 strategy_le ys vs"
    using us(2) by (auto simp: list_all2_append1)
  have "list_all2 strategy_le ss vs" by (rule list_all2_trans[OF _ ts(2) split(2)]) (rule strategy_le_trans)
  then show ?thesis unfolding strategies_le_def us(1) split(1) by (intro exI[of _ vs] exI[of _ "ws @ zs'"]) simp
qed

lemma store_le_refl [simp]: "store_le st st"
  by (auto simp: store_le_def)

lemma store_le_trans: "store_le a b \<Longrightarrow> store_le b c \<Longrightarrow> store_le a c"
  unfolding store_le_def by (meson strategies_le_trans)

text \<open>A step keeps the rows in order and moves strategies along their life only.\<close>

definition keeps :: "store \<Rightarrow> store \<Rightarrow> bool" where
  "keeps st st' \<longleftrightarrow> (store_ok st \<longrightarrow> store_ok st' \<and> store_le st st')"

lemma keeps_refl [simp]: "keeps st st"
  by (simp add: keeps_def)

lemma keeps_trans: "keeps a b \<Longrightarrow> keeps b c \<Longrightarrow> keeps a c"
  unfolding keeps_def by (blast intro: store_le_trans)

lemma index_all_rows [simp]:
  "sr_portfolios (index_all g ss st) = sr_portfolios st" "sr_history (index_all g ss st) = sr_history st"
  by (simp_all add: index_all_def)

lemma get_portfolio_rows:
  "get_portfolio g st = (r, st') \<Longrightarrow> sr_portfolios st' = sr_portfolios st \<and> sr_history st' = sr_history st"
  by (auto simp: get_portfolio_def split: option.splits if_splits)

lemma load_or_create_rows:
  "load_or_create_portfolio now g st = (r, st') \<Longrightarrow> sr_portfolios st' = sr_portfolios st \<and> sr_history st' = sr_history st"
  by (auto simp: load_or_create_portfolio_def dest: get_portfolio_rows split: prod.splits sum.splits option.splits)

lemma scan_goals_rows:
  "scan_goals i gs st = (r, st') \<Longrightarrow> sr_portfolios st' = sr_portfolios st \<and> sr_history st' = sr_history st"
proof (induction gs arbitrary: st)
  case (Cons g gs)
  obtain q st1 where q: "get_portfolio g st = (q, st1)" by (cases "get_portfolio g st")
  have rows: "sr_portfolios st1 = sr_portfolios st \<and> sr_history st1 = sr_history st" by (rule get_portfolio_rows[OF q])
  show ?case
    using Cons.prems Cons.IH[of st1] rows by (auto simp: q split: sum.splits option.splits if_splits)
qed simp

lemma resolve_rows:
  "resolve_goal_id goals i st = (r, st') \<Longrightarrow> sr_portfolios st' = sr_portfolios st \<and> sr_history st' = sr_history st"
  by (auto simp: resolve_goal_id_def dest: scan_goals_rows split: option.splits if_splits)

lemma same_rows_keep: "sr_portfolios st' = sr_portfolios st \<Longrightarrow> sr_history st' = sr_history st \<Longrightarrow> keeps st st'"
  by (simp add: keeps_def store_ok_def store_le_def)

lemma load_or_create_found:
  assumes "load_or_create_portfolio now g st = (Inr p, st')" "store_ok st"
  shows "strategies_ok (pf_strategies p) \<and>
    (table_get (sr_portfolios st) g = Some p \<or> table_get (sr_portfolios st) g = None \<and> pf_strategies p = [])"
  using assms
  by (auto simp: load_or_create_portfolio_def get_portfolio_def store_ok_def strategies_ok_def split: option.splits if_splits)

lemma parse_strategy_Inr [simp]: "parse_strategy s = Inr t \<longleftrightarrow> t = s \<and> strategy_valid s"
  by (auto simp: parse_strategy_def)

lemma parse_strategies_Inr [simp]: "parse_strategies ss = Inr ts \<longleftrightarrow> ts = ss \<and> list_all strategy_valid ss"
  by (induction ss arbitrary: ts) (auto simp: result_bind_Inr_iff)

lemma strategies_parse [simp]:
  "strategy_valid s \<Longrightarrow> parse_strategy s = Inr s"
  "list_all strategy_valid ss \<Longrightarrow> parse_strategies ss = Inr ss"
  by simp_all

text \<open>Load, compute, save: the new list is all that matters.\<close>

lemma edit_portfolio_cases:
  assumes "edit_portfolio now g id f st = (r, st')" "store_ok st"
  obtains (failed) e where "r = Inl e" "sr_portfolios st' = sr_portfolios st" "sr_history st' = sr_history st"
  | (saved) p x ss where "r = Inr x" "f p = Inr (x, ss)" "list_all strategy_valid ss" "strategies_ok (pf_strategies p)"
      "table_get (sr_portfolios st) g = Some p \<or> table_get (sr_portfolios st) g = None \<and> pf_strategies p = []"
      "sr_portfolios st' = table_put g (p\<lparr>pf_strategies := ss\<rparr>) (sr_portfolios st)" "sr_history st' = sr_history st"
proof -
  obtain q st1 where q: "load_or_create_portfolio now g st = (q, st1)" by (cases "load_or_create_portfolio now g st")
  have rows: "sr_portfolios st1 = sr_portfolios st" "sr_history st1 = sr_history st" using load_or_create_rows[OF q] by auto
  show thesis
  proof (cases q)
    case (Inl e)
    then show thesis using assms(1) rows by (intro failed[of e]) (auto simp: edit_portfolio_def q)
  next
    case (Inr p)
    note found = load_or_create_found[OF q[unfolded Inr] assms(2)]
    show thesis
    proof (cases "f p")
      case (Inl e)
      then show thesis using assms(1) rows by (intro failed[of e]) (auto simp: edit_portfolio_def q Inr)
    next
      case y: (Inr y)
      obtain x ss where "y = (x, ss)" by (cases y)
      with y have f: "f p = Inr (x, ss)" by simp
      show thesis
      proof (cases "list_all strategy_valid ss")
        case True
        then show thesis using assms(1) rows found
          by (intro saved[of x p ss]) (auto simp: edit_portfolio_def q Inr f save_portfolio_def portfolio_valid_def)
      next
        case False
        then show thesis using assms(1) rows
          by (intro failed[of SchemaError]) (auto simp: edit_portfolio_def q Inr f save_portfolio_def portfolio_valid_def)
      qed
    qed
  qed
qed

lemma edit_portfolio_keeps:
  assumes "\<And>p x ss. f p = Inr (x, ss) \<Longrightarrow> strategies_ok (pf_strategies p) \<Longrightarrow>
      table_get (sr_portfolios st) g = Some p \<or> table_get (sr_portfolios st) g = None \<and> pf_strategies p = [] \<Longrightarrow>
      strategies_le (pf_strategies p) ss \<and> distinct (map sg_id ss)"
  shows "keeps st (snd (edit_portfolio now g id f st))"
  unfolding keeps_def
proof
  assume ok: "store_ok st"
  obtain r st' where e: "edit_portfolio now g id f st = (r, st')" by (cases "edit_portfolio now g id f st")
  from e ok have "store_ok st' \<and> store_le st st'"
  proof (cases rule: edit_portfolio_cases)
    case failed
    then show ?thesis using ok same_rows_keep[of st' st] by (simp add: keeps_def)
  next
    case (saved p x ss)
    note le = assms[OF saved(2,4,5)]
    have "store_ok st'"
      using ok saved(3,6,7) le by (auto simp: store_ok_def table_get_put strategies_ok_def)
    moreover have "store_le st st'"
      using saved(5,6) le by (auto simp: store_le_def table_get_put)
    ultimately show ?thesis ..
  qed
  then show "store_ok (snd (edit_portfolio now g id f st)) \<and> store_le st (snd (edit_portfolio now g id f st))"
    by (simp add: e)
qed

text \<open>Most operations change strategies in place.\<close>

lemma edit_in_place_keeps:
  assumes "\<And>p x ss. f p = Inr (x, ss) \<Longrightarrow> strategies_ok (pf_strategies p) \<Longrightarrow>
      \<exists>h. ss = map h (pf_strategies p) \<and> (\<forall>s \<in> set (pf_strategies p). strategy_le s (h s))"
  shows "keeps st (snd (edit_portfolio now g id f st))"
proof (rule edit_portfolio_keeps)
  fix p x ss
  assume f: "f p = Inr (x, ss)" and ok: "strategies_ok (pf_strategies p)"
  obtain h where h: "ss = map h (pf_strategies p)" "\<forall>s \<in> set (pf_strategies p). strategy_le s (h s)"
    using assms[OF f ok] by blast
  then have "map sg_id ss = map sg_id (pf_strategies p)" by (auto simp: strategy_le_def)
  then have "distinct (map sg_id ss)" using ok unfolding strategies_ok_def by metis
  then show "strategies_le (pf_strategies p) ss \<and> distinct (map sg_id ss)"
    using h by (auto intro: strategies_le_map)
qed

lemma find_strategyD: "find_strategy i ss = Some s \<Longrightarrow> s \<in> set ss \<and> sg_id s = i"
  unfolding find_strategy_def by (drule find_SomeD) simp

lemma find_strategy_unique:
  assumes "strategies_ok ss" "find_strategy i ss = Some s" "t \<in> set ss" "sg_id t = i"
  shows "t = s"
  using find_strategyD[OF assms(2)] assms(1,3,4) by (auto simp: strategies_ok_def distinct_map dest: inj_onD)

lemma replace_in_place:
  assumes "strategies_ok ss" "find_strategy i ss = Some s" "sg_id u = i" "strategy_le s u"
  shows "\<forall>t \<in> set ss. strategy_le t (if sg_id t = i then u else t)"
  using find_strategy_unique[OF assms(1,2)] assms(4) by auto

lemma transitioned_in_place:
  assumes "transitioned i new score now p = Inr (x, ss)" "strategies_ok (pf_strategies p)"
  shows "\<exists>h. ss = map h (pf_strategies p) \<and> (\<forall>s \<in> set (pf_strategies p). strategy_le s (h s))"
proof -
  from assms(1) obtain s where s: "find_strategy i (pf_strategies p) = Some s" "new \<in> set (valid_transitions (sg_state s))"
    "ss = replace_strategy i x (pf_strategies p)" "sg_id x = sg_id s" "sg_state x = new"
    by (auto simp: transitioned_def result_bind_Inr_iff split: option.splits if_splits)
  have "strategy_le s x" using s by (intro strategy_le_step) (auto intro: life_transition)
  moreover have "sg_id x = i" using s find_strategyD[OF s(1)] by simp
  ultimately show ?thesis
    using replace_in_place[OF assms(2) s(1)] unfolding s(3) replace_strategy_def by blast
qed

lemma append_to_history_keeps: "keeps st (snd (append_to_history g s st))"
  by (auto simp: append_to_history_def get_strategy_history_def save_strategy_history_def keeps_def store_ok_def store_le_def
      table_get_put strategies_ok_def split: sum.splits)

lemma update_state_keeps: "keeps st (snd (update_state goals i new score now id st))"
proof -
  obtain r st1 where r: "resolve_goal_id goals i st = (r, st1)" by (cases "resolve_goal_id goals i st")
  have first: "keeps st st1" using resolve_rows[OF r] same_rows_keep by blast
  have edit: "keeps st1 (snd (edit_portfolio now g id (transitioned i new score now) st1))" for g
    by (rule edit_in_place_keeps) (rule transitioned_in_place)
  have both: "keeps st st2" if "edit_portfolio now g id (transitioned i new score now) st1 = (x, st2)" for g x st2
    using keeps_trans[OF first edit[of g]] that by simp
  show ?thesis
    by (auto simp: update_state_def r first split: sum.split option.split prod.split
        intro: both keeps_trans[OF both append_to_history_keeps])
qed

text \<open>Shares are all that a redistribution changes.\<close>

definition share_change :: "(strategy \<Rightarrow> strategy) \<Rightarrow> bool" where
  "share_change k \<longleftrightarrow> (\<forall>s. \<exists>a. k s = s\<lparr>sg_allocation := a\<rparr>)"

lemma share_change_le: "share_change k \<Longrightarrow> strategy_le s (k s)"
  unfolding share_change_def by (metis strategy_le_same strategy.select_convs(1,8) strategy.surjective strategy.update_convs(9))

lemma share_change_if [simp]:
  "share_change (\<lambda>s. s)" "share_change (\<lambda>s. if P s then s\<lparr>sg_allocation := f s\<rparr> else s)"
  "share_change (\<lambda>s. if P s then s else s\<lparr>sg_allocation := f s\<rparr>)"
  unfolding share_change_def by (metis strategy.surjective strategy.update_convs(9))+

lemma grown_share [simp]: "share_change (grown rnd rs freed)"
  by (simp add: grown_def[abs_def] Let_def)

lemma shrunk_share [simp]: "share_change (shrunk rnd rs room)"
  by (simp add: shrunk_def[abs_def] Let_def)

lemma redistribute_shares:
  assumes "redistribute_allocation rnd ss i freed = Inr ts"
  shows "\<exists>k. ts = map k ss \<and> share_change k"
proof -
  have "ts = map (\<lambda>s. s) ss \<or> ts = map (grown rnd (filter (\<lambda>s. sg_id s \<noteq> i \<and> running s) ss) freed) ss"
    using assms by (auto simp: redistribute_allocation_def Let_def split: if_splits)
  then show ?thesis using share_change_if(1) grown_share by blast
qed

lemma replaced_and_shared:
  assumes "strategies_ok ss" "find_strategy i ss = Some s" "sg_id u = i" "strategy_le s u"
    and "redistribute_allocation rnd (replace_strategy i u ss) i freed = Inr ts"
  shows "\<exists>h. ts = map h ss \<and> (\<forall>t \<in> set ss. strategy_le t (h t))"
proof -
  obtain k where k: "ts = map k (replace_strategy i u ss)" "share_change k" using redistribute_shares[OF assms(5)] by blast
  have "\<forall>t \<in> set ss. strategy_le t (k (if sg_id t = i then u else t))"
    using replace_in_place[OF assms(1-4)] share_change_le[OF k(2)] by (blast intro: strategy_le_trans)
  then show ?thesis using k(1) by (intro exI[of _ "\<lambda>t. k (if sg_id t = i then u else t)"]) (simp add: replace_strategy_def)
qed

lemma terminated_in_place:
  assumes "terminated rnd i now p = Inr (x, ss)" "strategies_ok (pf_strategies p)"
  shows "\<exists>h. ss = map h (pf_strategies p) \<and> (\<forall>s \<in> set (pf_strategies p). strategy_le s (h s))"
proof -
  from assms(1) obtain s where s: "find_strategy i (pf_strategies p) = Some s" "sg_id x = sg_id s" "sg_state x = St_Terminated"
    "redistribute_allocation rnd (replace_strategy i x (pf_strategies p)) i (sg_allocation s) = Inr ss"
    by (auto simp: terminated_def result_bind_Inr_iff split: option.splits)
  have "strategy_le s x" using s by (intro strategy_le_step) (simp_all add: life_terminate)
  then show ?thesis using replaced_and_shared[OF assms(2) s(1) _ _ s(4)] s(2) find_strategyD[OF s(1)] by simp
qed

lemma suspended_in_place:
  assumes "suspended rnd i p = Inr (x, ss)" "strategies_ok (pf_strategies p)"
  shows "\<exists>h. ss = map h (pf_strategies p) \<and> (\<forall>s \<in> set (pf_strategies p). strategy_le s (h s))"
proof -
  from assms(1) obtain s where s: "find_strategy i (pf_strategies p) = Some s" "sg_id x = sg_id s" "sg_state x = St_Suspended"
    "running s" "redistribute_allocation rnd (replace_strategy i x (pf_strategies p)) i (sg_allocation s) = Inr ss"
    by (auto simp: suspended_def result_bind_Inr_iff split: option.splits if_splits)
  have "strategy_le s x" using s by (intro strategy_le_step) (auto simp: running_def intro: life_suspend)
  then show ?thesis using replaced_and_shared[OF assms(2) s(1) _ _ s(5)] s(2) find_strategyD[OF s(1)] by simp
qed

lemma resumed_in_place:
  assumes "resumed rnd i a p = Inr (x, ss)" "strategies_ok (pf_strategies p)"
  shows "\<exists>h. ss = map h (pf_strategies p) \<and> (\<forall>s \<in> set (pf_strategies p). strategy_le s (h s))"
proof -
  define k where "k = shrunk rnd (filter (\<lambda>s. sg_id s \<noteq> i \<and> running s) (pf_strategies p)) (rnd (1 - a))"
  from assms(1) obtain s where s: "find_strategy i (pf_strategies p) = Some s" "sg_state s = St_Suspended"
    "x = s\<lparr>sg_state := St_Active, sg_allocation := a\<rparr>"
    "ss = map (\<lambda>t. if sg_id t = i then x else k t) (pf_strategies p)" "share_change k"
    unfolding k_def by (auto simp: resumed_def Let_def result_bind_Inr_iff split: option.splits if_splits)
  have "strategy_le s x" using s(2,3) by (intro strategy_le_step) (auto intro: life_transition)
  then have "\<forall>t \<in> set (pf_strategies p). strategy_le t (if sg_id t = i then x else k t)"
    using find_strategy_unique[OF assms(2) s(1)] share_change_le[OF s(5)] by auto
  then show ?thesis using s(4) by blast
qed

lemma allocated_in_place:
  assumes "allocated i a p = Inr (x, ss)"
  shows "\<exists>h. ss = map h (pf_strategies p) \<and> (\<forall>s \<in> set (pf_strategies p). strategy_le s (h s))"
proof -
  have "ss = map (\<lambda>s. if sg_id s = i then s\<lparr>sg_allocation := a\<rparr> else s) (pf_strategies p)"
    using assms by (auto simp: allocated_def result_bind_Inr_iff split: option.splits)
  then show ?thesis by (intro exI[of _ "\<lambda>s. if sg_id s = i then s\<lparr>sg_allocation := a\<rparr> else s"]) (simp add: strategy_le_same)
qed

lemma pivoted_in_place:
  assumes "strategies_ok (pf_strategies p)"
  shows "\<exists>h. pivoted i p = map h (pf_strategies p) \<and> (\<forall>s \<in> set (pf_strategies p). strategy_le s (h s))"
proof (cases "find_strategy i (pf_strategies p)")
  case None
  then show ?thesis by (intro exI[of _ "\<lambda>s. s"]) (simp add: pivoted_def)
next
  case (Some s)
  have "\<forall>t \<in> set (pf_strategies p). strategy_le t (if sg_id t = i then s\<lparr>sg_pivot_count := sg_pivot_count s + 1\<rparr> else t)"
    using find_strategyD[OF Some] by (intro replace_in_place[OF assms Some]) (simp_all add: strategy_le_same)
  then show ?thesis unfolding pivoted_def Some option.case replace_strategy_def by blast
qed

lemma check_activation_candidates:
  "check_activation rnd av now ss ids bs = Inr cs \<Longrightarrow>
   \<forall>i \<in> set ids. \<exists>s. find_strategy i ss = Some s \<and> sg_state s = St_Candidate"
proof (induction ids arbitrary: bs)
  case (Cons i ids)
  from Cons.prems obtain s bs' where s: "find_strategy i ss = Some s" "sg_state s = St_Candidate"
    "check_activation rnd av now ss ids bs' = Inr cs"
    by (auto simp: Let_def split: option.splits if_splits)
  then show ?case using Cons.IH[OF s(3)] by auto
qed simp

lemma activated_in_place:
  assumes "activated rnd av ids now p = Inr (xs, ss)" "strategies_ok (pf_strategies p)"
  shows "\<exists>h. ss = map h (pf_strategies p) \<and> (\<forall>s \<in> set (pf_strategies p). strategy_le s (h s))"
proof -
  from assms(1) obtain bs where bs: "check_activation rnd av now (pf_strategies p) ids [] = Inr bs"
    "ss = map (\<lambda>s. if sg_id s \<in> set ids then started_strategy (Iso now) (equal_share rnd (length ids)) bs s else s) (pf_strategies p)"
    by (auto simp: activated_def Let_def result_bind_Inr_iff)
  have "strategy_le t (started_strategy (Iso now) (equal_share rnd (length ids)) bs t)"
    if t: "t \<in> set (pf_strategies p)" "sg_id t \<in> set ids" for t
  proof -
    obtain s where s: "find_strategy (sg_id t) (pf_strategies p) = Some s" "sg_state s = St_Candidate"
      using check_activation_candidates[OF bs(1)] t(2) by blast
    have "t = s" using find_strategy_unique[OF assms(2) s(1) t(1)] by simp
    then show ?thesis using s(2) by (intro strategy_le_step) (auto simp: started_strategy_def intro: life_transition)
  qed
  then show ?thesis unfolding bs(2) by (intro exI[of _ "\<lambda>s. if sg_id s \<in> set ids then _ s else s"]) auto
qed

text \<open>New strategies go to the end.\<close>

lemma create_wait_keeps:
  assumes "\<And>p s. table_get (sr_portfolios st) g = Some p \<Longrightarrow> s \<in> set (pf_strategies p) \<Longrightarrow> sg_id s \<noteq> i"
  shows "keeps st (snd (create_wait_strategy i g w now id st))"
  unfolding create_wait_strategy_def Let_def
proof (rule edit_portfolio_keeps, goal_cases)
  case (1 p x ss)
  have "i \<notin> sg_id ` set (pf_strategies p)" using 1(3) assms by auto
  then show ?case using 1(1,2) by (auto simp: strategies_le_append strategies_ok_def fresh_strategy_def)
qed

lemma dedupe_ids:
  "distinct (map sg_id (dedupe_candidates seen ss)) \<and> sg_id ` set (dedupe_candidates seen ss) \<inter> set seen = {}"
  by (induction seen ss rule: dedupe_candidates.induct) auto

lemma generate_adds_fresh:
  assumes "(let fresh = filter (\<lambda>c. sg_id c \<notin> sg_id ` set ps) (dedupe_candidates [] cs) in Inr (fresh, ps @ fresh)) =
      (Inr (xs, ss) :: (strategy list \<times> strategy list) result)" "distinct (map sg_id ps)"
  shows "ss = ps @ xs" "distinct (map sg_id ss)"
proof -
  show ss: "ss = ps @ xs" using assms(1) by (auto simp: Let_def)
  have xs: "xs = filter (\<lambda>c. sg_id c \<notin> sg_id ` set ps) (dedupe_candidates [] cs)" using assms(1) by (auto simp: Let_def)
  have "distinct (map sg_id xs)" unfolding xs using dedupe_ids[of "[]" cs] by (intro distinct_map_filter) blast
  moreover have "sg_id ` set xs \<inter> sg_id ` set ps = {}" unfolding xs by auto
  ultimately show "distinct (map sg_id ss)" unfolding ss using assms(2) by auto
qed

lemma generate_keeps: "keeps st (snd (generate_candidates g primary targets raws enrich now id st))"
proof -
  have "keeps st (snd (edit_portfolio now g id (\<lambda>p.
      let fresh = filter (\<lambda>c. sg_id c \<notin> sg_id ` set (pf_strategies p)) (dedupe_candidates [] cs)
      in Inr (fresh, pf_strategies p @ fresh)) st))" for cs
  proof (rule edit_portfolio_keeps, goal_cases)
    case (1 p xs ss)
    have "distinct (map sg_id (pf_strategies p))" using 1(2) by (simp add: strategies_ok_def)
    from generate_adds_fresh[OF 1(1) this] show ?case by (simp add: strategies_le_append)
  qed
  then show ?thesis unfolding generate_candidates_def by (auto split: sum.split)
qed

lemma generated_are_stored:
  assumes "generate_candidates g primary targets raws enrich now id st = (Inr cs, st')" "store_ok st"
  shows "\<exists>p. table_get (sr_portfolios st') g = Some p \<and> set cs \<subseteq> set (pf_strategies p)"
proof -
  obtain es where e: "edit_portfolio now g id (\<lambda>p.
      let fresh = filter (\<lambda>c. sg_id c \<notin> sg_id ` set (pf_strategies p)) (dedupe_candidates [] es)
      in Inr (fresh, pf_strategies p @ fresh)) st = (Inr cs, st')"
    using assms(1) by (auto simp: generate_candidates_def split: sum.splits)
  from e assms(2) show ?thesis
    by (cases rule: edit_portfolio_cases) (auto simp: Let_def table_get_put)
qed

text \<open>Writing the ranking back puts every strategy where it was.\<close>

lemma ranking_changes_nothing:
  assumes "strategies_ok ss" "set cs \<subseteq> set ss"
  shows "persist_ranking (rank_by_decision_history rs cs) ss = ss"
proof -
  have sub: "set (rank_by_decision_history rs cs) \<subseteq> set ss" using assms(2) by (simp add: rank_by_decision_history_def)
  have "nullish (find_strategy (sg_id s) (rank_by_decision_history rs cs)) s = s" if s: "s \<in> set ss" for s
  proof (cases "find_strategy (sg_id s) (rank_by_decision_history rs cs)")
    case (Some t)
    then have "t \<in> set ss" "sg_id t = sg_id s" using find_strategyD[OF Some] sub by auto
    then have "t = s" using assms(1) s by (auto simp: strategies_ok_def distinct_map dest: inj_onD)
    then show ?thesis using Some by simp
  qed simp
  then show ?thesis unfolding persist_ranking_def by (simp add: map_idI)
qed

lemma activate_multiple_keeps: "keeps st (snd (activate_multiple rnd av g ids now id st))"
  unfolding activate_multiple_def using edit_in_place_keeps[OF activated_in_place] by auto

lemma keeps_pair: "keeps st (snd x) \<Longrightarrow> x = (r, st') \<Longrightarrow> keeps st st'"
  by simp

lemma activate_best_keeps: "keeps st (snd (activate_best_candidate rnd rank av tools h g now id st))"
proof -
  obtain q st1 where q: "load_or_create_portfolio (Iso now) g st = (q, st1)" by (cases "load_or_create_portfolio (Iso now) g st")
  have first: "keeps st st1" using load_or_create_rows[OF q] same_rows_keep by blast
  have "keeps st st2" if "activate_multiple rnd av g ids now id st1 = (r, st2)" for ids r st2
    by (rule keeps_trans[OF first keeps_pair[OF activate_multiple_keeps that]])
  then show ?thesis
    by (auto simp: activate_best_candidate_def q first split: sum.split option.split prod.split list.split)
qed

lemma terminate_active_keeps:
  assumes "get_active_strategy now g st0 = (Inr active, st)" "store_ok st0"
  shows "keeps st (snd (terminate_active ports g now (\<lambda>_. id) active st))"
proof (cases active)
  case None
  then show ?thesis by (simp add: terminate_active_def)
next
  case (Some a)
  obtain p where p: "load_or_create_portfolio now g st0 = (Inr p, st)" "find (\<lambda>s. sg_state s = St_Active) (pf_strategies p) = Some a"
    using assms(1) Some by (auto simp: get_active_strategy_def split: prod.splits sum.splits)
  have a: "a \<in> set (pf_strategies p)" using find_SomeD[OF p(2)] by simp
  have stored: "table_get (sr_portfolios st) g = Some p"
    using load_or_create_found[OF p(1) assms(2)] load_or_create_rows[OF p(1)] a by auto
  have edit: "keeps st (snd (edit_portfolio now g id (stalled_once_more a) st))"
  proof (rule edit_portfolio_keeps, goal_cases)
    case (1 q x ss)
    have q: "q = p" using 1(3) stored by auto
    have ss: "ss = replace_strategy (sg_id a) (a\<lparr>sg_consecutive_stall_count := sg_consecutive_stall_count a + 1\<rparr>) (pf_strategies p)"
      using 1(1) q by (auto simp: stalled_once_more_def result_bind_Inr_iff)
    have same: "t = a" if "t \<in> set (pf_strategies p)" "sg_id t = sg_id a" for t
      using 1(2) q a that by (auto simp: strategies_ok_def distinct_map dest: inj_onD)
    have "strategies_le (pf_strategies p) ss"
      unfolding ss replace_strategy_def by (intro strategies_le_map) (auto dest!: same simp: strategy_le_same)
    moreover have "map sg_id ss = map sg_id (pf_strategies p)" unfolding ss replace_strategy_def by simp
    then have "distinct (map sg_id ss)" using 1(2) q unfolding strategies_ok_def by metis
    ultimately show ?case using q by simp
  qed
  have "keeps st st2" if "edit_portfolio now g id (stalled_once_more a) st = (r, st2)" for r st2
    by (rule keeps_pair[OF edit that])
  then show ?thesis
    by (auto simp: terminate_active_def Some split: prod.split sum.split intro: keeps_trans update_state_keeps)
qed

lemma rank_step_keeps:
  assumes "table_get (sr_portfolios st) g = Some p" "set cs \<subseteq> set (pf_strategies p)"
  shows "keeps st (rank_step ports g now (\<lambda>_. id) cs st)"
proof (cases "sp_decisions ports")
  case (Some rs)
  have "keeps st (snd (edit_portfolio now g id (\<lambda>p. Inr ((), persist_ranking (rank_by_decision_history rs cs) (pf_strategies p))) st))"
  proof (rule edit_portfolio_keeps, goal_cases)
    case (1 q x ss)
    then have "q = p" using assms(1) by auto
    then show ?case using 1 ranking_changes_nothing[OF _ assms(2)] by (auto simp: strategies_ok_def)
  qed
  then show ?thesis by (simp add: rank_step_def Some)
qed (simp add: rank_step_def)

lemma on_stall_keeps: "keeps st (snd (on_stall_detected rnd ports g n now (\<lambda>_. id) st))"
  unfolding keeps_def
proof
  assume ok: "store_ok st"
  obtain q st1 where q: "get_active_strategy (Iso now) g st = (q, st1)" by (cases "get_active_strategy (Iso now) g st")
  have first: "keeps st st1"
    using q by (auto simp: get_active_strategy_def dest: load_or_create_rows intro: same_rows_keep split: prod.splits sum.splits)
  have "keeps st (snd (on_stall_detected rnd ports g n now (\<lambda>_. id) st))"
  proof (cases "2 \<le> n \<and> (\<exists>active. q = Inr active)")
    case False
    then show ?thesis using first by (cases q) (auto simp: on_stall_detected_def q)
  next
    case True
    then obtain active where active: "q = Inr active" "\<not> n < 2" by auto
    obtain r st2 where r: "terminate_active ports g (Iso now) (\<lambda>_. id) active st1 = (r, st2)"
      by (cases "terminate_active ports g (Iso now) (\<lambda>_. id) active st1")
    have second: "keeps st st2"
      using keeps_trans[OF first terminate_active_keeps[OF q[unfolded active(1)] ok, of ports]] by (simp add: r)
    have ok2: "store_ok st2" using second ok by (simp add: keeps_def)
    have generated: "keeps st st3 \<and> keeps st (rank_step ports g (Iso now) (\<lambda>_. id) cs st3)"
      if g: "generate_candidates g primary targets raws enrich (Iso now) id st2 = (Inr cs, st3)" for primary targets raws enrich cs st3
    proof -
      obtain p where p: "table_get (sr_portfolios st3) g = Some p" "set cs \<subseteq> set (pf_strategies p)"
        using generated_are_stored[OF g ok2] by blast
      have third: "keeps st st3" by (rule keeps_trans[OF second keeps_pair[OF generate_keeps g]])
      then show ?thesis using keeps_trans[OF third rank_step_keeps[OF p]] by blast
    qed
    have refused: "keeps st st3" if "generate_candidates g primary targets raws enrich (Iso now) id st2 = (x, st3)"
      for primary targets raws enrich x st3
      by (rule keeps_trans[OF second keeps_pair[OF generate_keeps that]])
    have last: "keeps st st4" if "generate_candidates g primary targets raws enrich (Iso now) id st2 = (Inr cs, st3)"
        "activate_best_candidate rnd rank av tools h g now id (rank_step ports g (Iso now) (\<lambda>_. id) cs st3) = (x, st4)"
      for primary targets raws enrich cs st3 rank av tools h x st4
      using keeps_trans[OF conjunct2[OF generated[OF that(1)]] keeps_pair[OF activate_best_keeps that(2)]] .
    show ?thesis
      by (auto simp: on_stall_detected_def q active r second Let_def split: sum.split option.split prod.split
          intro: refused last dest: generated)
  qed
  then show "store_ok (snd (on_stall_detected rnd ports g n now (\<lambda>_. id) st)) \<and>
      store_le st (snd (on_stall_detected rnd ports g n now (\<lambda>_. id) st))"
    using ok by (simp add: keeps_def)
qed

text \<open>A smoke result changes one strategy in its place, and neither its id nor its state.\<close>

definition smoked :: "string \<Rightarrow> smoke_input \<Rightarrow> portfolio \<Rightarrow> (strategy \<times> strategy list) result" where
  "smoked i input p = (case find_strategy i (pf_strategies p) of
     None \<Rightarrow> Inl SchemaError
   | Some s \<Rightarrow> result_bind (apply_smoke_result s input) (\<lambda>u. Inr (u, replace_strategy i u (pf_strategies p))))"

lemma smoke_state:
  "snd (record_divergent_smoke_result g i input now id st) = snd (edit_portfolio now g id (smoked i input) st)"
proof -
  obtain x st1 where l: "load_or_create_portfolio now g st = (x, st1)" by (cases "load_or_create_portfolio now g st")
  show ?thesis
  proof (cases x)
    case (Inr p)
    note load = l[unfolded Inr]
    show ?thesis
    proof (cases "find_strategy i (pf_strategies p)")
      case None
      then show ?thesis by (simp add: record_divergent_smoke_result_def edit_portfolio_def smoked_def load)
    next
      case (Some s)
      then show ?thesis
        by (cases "apply_smoke_result s input")
          (auto simp: record_divergent_smoke_result_def edit_portfolio_def smoked_def load split: prod.split sum.split)
    qed
  qed (simp add: record_divergent_smoke_result_def edit_portfolio_def l)
qed

lemma apply_smoke_le: "apply_smoke_result s input = Inr u \<Longrightarrow> sg_id u = sg_id s \<and> sg_state u = sg_state s"
  by (auto simp: apply_smoke_result_def Let_def split: option.splits)

lemma smoked_in_place:
  assumes "smoked i input p = Inr (x, ss)" "strategies_ok (pf_strategies p)"
  shows "\<exists>h. ss = map h (pf_strategies p) \<and> (\<forall>s \<in> set (pf_strategies p). strategy_le s (h s))"
proof -
  obtain s where s: "find_strategy i (pf_strategies p) = Some s" "apply_smoke_result s input = Inr x"
    "ss = replace_strategy i x (pf_strategies p)"
    using assms(1) by (auto simp: smoked_def result_bind_Inr_iff split: option.splits)
  have "strategy_le s x" "sg_id x = i"
    using apply_smoke_le[OF s(2)] find_strategyD[OF s(1)] by (simp_all add: strategy_le_same)
  then show ?thesis using replace_in_place[OF assms(2) s(1)] unfolding s(3) replace_strategy_def by blast
qed

section \<open>Every sequence of operations\<close>

text \<open>
  The operations of the manager, one after the other, each with any arguments. The id of a new wait is one that its goal does not have.
  \<open>manages_share\<close> is also what the portfolio manager does when it writes a share.
\<close>

inductive manages :: "(rat \<Rightarrow> rat) \<Rightarrow> store \<Rightarrow> store \<Rightarrow> bool" for rnd where
  manages_state: "manages rnd st (snd (update_state goals i new score now id st))"
| manages_terminate: "manages rnd st (snd (terminate_strategy rnd g i now id st))"
| manages_suspend: "manages rnd st (snd (suspend_strategy rnd g i now id st))"
| manages_resume: "manages rnd st (snd (resume_strategy rnd g i a now id st))"
| manages_share: "manages rnd st (snd (edit_portfolio now g id (allocated i a) st))"
| manages_pivot: "manages rnd st (snd (increment_pivot_count g i now id st))"
| manages_activate: "manages rnd st (snd (activate_multiple rnd av g ids when id st))"
| manages_best: "manages rnd st (snd (activate_best_candidate rnd rank av tools h g when id st))"
| manages_generate: "manages rnd st (snd (generate_candidates g primary targets raws enrich now id st))"
| manages_wait: "(\<And>p s. table_get (sr_portfolios st) g = Some p \<Longrightarrow> s \<in> set (pf_strategies p) \<Longrightarrow> sg_id s \<noteq> i) \<Longrightarrow>
     manages rnd st (snd (create_wait_strategy i g w now id st))"
| manages_smoke: "manages rnd st (snd (record_divergent_smoke_result g i input now id st))"
| manages_stall: "manages rnd st (snd (on_stall_detected rnd ports g n when (\<lambda>_. id) st))"

lemma manages_keeps: "manages rnd st st' \<Longrightarrow> keeps st st'"
proof (induction rule: manages.induct)
  case (manages_terminate st g i now)
  have edit: "keeps st (snd (edit_portfolio now g id (terminated rnd i now) st))"
    by (rule edit_in_place_keeps) (rule terminated_in_place)
  show ?case
    by (auto simp: terminate_strategy_def split: prod.split sum.split
        intro: keeps_pair[OF edit] keeps_trans[OF keeps_pair[OF edit] keeps_pair[OF append_to_history_keeps]])
next
  case (manages_resume st g i a now)
  then show ?case unfolding resume_strategy_def using edit_in_place_keeps[OF resumed_in_place] by auto
next
  case (manages_share st now g i a)
  then show ?case by (rule edit_in_place_keeps) (rule allocated_in_place)
next
  case (manages_pivot st g i now)
  then show ?case unfolding increment_pivot_count_def using pivoted_in_place by (intro edit_in_place_keeps) auto
next
  case (manages_suspend st g i now)
  then show ?case unfolding suspend_strategy_def by (intro edit_in_place_keeps suspended_in_place)
next
  case (manages_smoke st g i input now)
  show ?case unfolding smoke_state by (rule edit_in_place_keeps) (rule smoked_in_place)
qed (auto intro: update_state_keeps activate_multiple_keeps activate_best_keeps generate_keeps create_wait_keeps on_stall_keeps)

lemma manages_star_keeps: "(manages rnd)\<^sup>*\<^sup>* st st' \<Longrightarrow> keeps st st'"
  by (induction rule: rtranclp_induct) (auto intro: keeps_trans manages_keeps)

definition strategy_at :: "store \<Rightarrow> string \<Rightarrow> string \<Rightarrow> strategy option" where
  "strategy_at st g i = (case table_get (sr_portfolios st) g of None \<Rightarrow> None | Some p \<Rightarrow> find_strategy i (pf_strategies p))"

lemma strategies_le_find:
  assumes "strategies_le ss ts" "find_strategy i ss = Some s"
  shows "\<exists>t. find_strategy i ts = Some t \<and> strategy_le s t"
proof -
  obtain ys zs where ts: "ts = ys @ zs" "list_all2 strategy_le ss ys" using assms(1) by (auto simp: strategies_le_def)
  have "\<exists>t. find_strategy i (ys @ zs) = Some t \<and> strategy_le s t"
    using ts(2) assms(2) by (induction rule: list_all2_induct) (auto simp: find_strategy_def strategy_le_def split: if_splits)
  then show ?thesis by (simp add: ts)
qed

lemma started_stays: "life_step\<^sup>*\<^sup>* a b \<Longrightarrow> a \<noteq> St_Candidate \<Longrightarrow> b \<noteq> St_Candidate"
proof (induction rule: rtranclp_induct)
  case (step b c)
  from step.hyps(2) show ?case by cases (cases b, use step in auto)
qed

text \<open>
  C5. Whatever the operations of the strategy manager do one after the other, a strategy is never lost and moves along
  its life only: the table of transitions, suspension of what runs, and termination. So a strategy that has started is
  never a candidate again, and one that is completed or terminated never runs again. The rows stay valid, and the ids
  of a portfolio and of a history distinct.
\<close>

theorem strategies_live_once:
  assumes "(manages rnd)\<^sup>*\<^sup>* st st'" "store_ok st" "strategy_at st g i = Some s"
  shows "store_ok st' \<and> (\<exists>t. strategy_at st' g i = Some t \<and> life_step\<^sup>*\<^sup>* (sg_state s) (sg_state t) \<and>
    (finished (sg_state s) \<longrightarrow> finished (sg_state t) \<and> \<not> running t) \<and>
    (sg_state s \<noteq> St_Candidate \<longrightarrow> sg_state t \<noteq> St_Candidate))"
proof -
  have ok: "store_ok st'" and le: "store_le st st'" using manages_star_keeps[OF assms(1)] assms(2) by (simp_all add: keeps_def)
  obtain p where p: "table_get (sr_portfolios st) g = Some p" "find_strategy i (pf_strategies p) = Some s"
    using assms(3) by (auto simp: strategy_at_def split: option.splits)
  obtain q where q: "table_get (sr_portfolios st') g = Some q" "strategies_le (pf_strategies p) (pf_strategies q)"
    using le p(1) by (auto simp: store_le_def)
  obtain t where t: "find_strategy i (pf_strategies q) = Some t" "strategy_le s t" using strategies_le_find[OF q(2) p(2)] by blast
  have life: "life_step\<^sup>*\<^sup>* (sg_state s) (sg_state t)" using t(2) by (simp add: strategy_le_def)
  have "\<not> running t" if "finished (sg_state s)"
    using finished_stays[OF life that] by (auto simp: finished_def running_def)
  then show ?thesis
    using ok life finished_stays[OF life] started_stays[OF life] q(1) t(1) by (auto simp: strategy_at_def)
qed

section \<open>Shares\<close>

definition running_share :: "strategy list \<Rightarrow> rat" where
  "running_share ss = sum_list (map sg_allocation (filter running ss))"

declare js_sum_exact [simp]

lemma grown_fields [simp]:
  "sg_id (grown rnd rs f s) = sg_id s" "sg_state (grown rnd rs f s) = sg_state s" "running (grown rnd rs f s) = running s"
  by (simp_all add: grown_def Let_def running_def)

lemma in_list_member [simp]: "s \<in> set rs \<Longrightarrow> in_list rs s"
  by (auto simp: in_list_def list_ex_iff)

text \<open>What is freed is shared out in full, and every share grows by the same factor.\<close>

lemma grown_sum:
  assumes "rs \<noteq> []" "list_all strategy_valid rs"
  shows "sum_list (map (\<lambda>s. sg_allocation (grown (\<lambda>x. x) rs f s)) rs) = sum_list (map sg_allocation rs) + f"
proof -
  let ?T = "sum_list (map sg_allocation rs)"
  have nonneg: "\<forall>s \<in> set rs. 0 \<le> sg_allocation s" using assms(2) by (auto simp: list_all_iff strategy_valid_def unit_interval_def)
  show ?thesis
  proof (cases "?T > 0")
    case True
    have "sum_list (map (\<lambda>s. sg_allocation (grown (\<lambda>x. x) rs f s)) rs) = sum_list (map (\<lambda>s. (1 + f / ?T) * sg_allocation s) rs)"
      using True by (intro arg_cong[of _ _ sum_list] map_cong) (simp_all add: grown_def Let_def field_simps)
    also have "\<dots> = (1 + f / ?T) * ?T" by (rule sum_list_const_mult)
    also have "\<dots> = ?T + f" using True by (simp add: field_simps)
    finally show ?thesis .
  next
    case False
    have "0 \<le> ?T" using nonneg by (intro sum_list_nonneg) auto
    then have zero: "?T = 0" using False by simp
    have "sg_allocation (grown (\<lambda>x. x) rs f s) = sg_allocation s + f / of_nat (length rs)" if "s \<in> set rs" for s
      using that by (simp add: grown_def Let_def zero)
    then have "sum_list (map (\<lambda>s. sg_allocation (grown (\<lambda>x. x) rs f s)) rs) =
        sum_list (map (\<lambda>s. sg_allocation s + f / of_nat (length rs)) rs)"
      by (intro arg_cong[of _ _ sum_list] map_cong) simp_all
    also have "\<dots> = ?T + of_nat (length rs) * (f / of_nat (length rs))"
      by (simp add: sum_list_addf sum_list_triv)
    also have "\<dots> = ?T + f" using assms(1) by simp
    finally show ?thesis .
  qed
qed

lemma member_le_sum_list: "x \<in> set xs \<Longrightarrow> \<forall>y \<in> set xs. 0 \<le> f y \<Longrightarrow> f x \<le> sum_list (map f xs)" for f :: "'a \<Rightarrow> rat"
proof (induction xs)
  case (Cons y ys)
  have "0 \<le> sum_list (map f ys)" using Cons.prems by (intro sum_list_nonneg) auto
  then show ?case using Cons by (cases "x = y") (auto intro: add_increasing)
qed simp

lemma redistribute_conserves:
  assumes "strategies_ok ss" "rs = filter (\<lambda>s. sg_id s \<noteq> i \<and> running s) ss" "rs \<noteq> []" "0 \<le> f"
    and "sum_list (map sg_allocation rs) + f \<le> 1" "\<forall>s \<in> set ss. sg_id s = i \<longrightarrow> \<not> running s"
  shows "\<exists>ts. redistribute_allocation (\<lambda>x. x) ss i f = Inr ts \<and> running_share ts = sum_list (map sg_allocation rs) + f \<and>
    list_all strategy_valid ts \<and> map sg_id ts = map sg_id ss \<and>
    (\<forall>s \<in> set ss. \<not> running s \<longrightarrow> s \<in> set ts)"
proof (cases "f = 0")
  case True
  have "filter running ss = rs" unfolding assms(2) using assms(6) by (intro filter_cong) auto
  then have "running_share ss = sum_list (map sg_allocation rs)" by (simp add: running_share_def)
  then show ?thesis using assms(1) True by (intro exI[of _ ss]) (simp add: redistribute_allocation_def Let_def strategies_ok_def)
next
  case False
  let ?g = "grown (\<lambda>x. x) rs f"
  have ok: "list_all strategy_valid rs" using assms(1,2) by (auto simp: strategies_ok_def list_all_iff)
  have sum: "sum_list (map (\<lambda>s. sg_allocation (?g s)) rs) = sum_list (map sg_allocation rs) + f" by (rule grown_sum[OF assms(3) ok])
  have same: "filter running ss = rs" unfolding assms(2) using assms(6) by (intro filter_cong) auto
  have running: "filter running (map ?g ss) = map ?g rs" unfolding same[symmetric] filter_map by (simp add: comp_def)
  have grow: "0 \<le> sg_allocation (?g s)" if "s \<in> set ss" for s
  proof -
    have a: "0 \<le> sg_allocation s" using that assms(1) by (auto simp: strategies_ok_def list_all_iff strategy_valid_def unit_interval_def)
    have "0 \<le> sum_list (map sg_allocation rs)"
      using ok by (intro sum_list_nonneg) (auto simp: list_all_iff strategy_valid_def unit_interval_def)
    with a assms(4) show ?thesis by (simp add: grown_def Let_def)
  qed
  have only: "?g s = s" if "s \<in> set ss" "s \<notin> set rs" for s
  proof -
    have "\<not> in_list rs s"
    proof
      assume "in_list rs s"
      then obtain r where r: "r \<in> set rs" "sg_id r = sg_id s" by (auto simp: in_list_def list_ex_iff)
      then have "r \<in> set ss" using assms(2) by auto
      then have "r = s" using r(2) that(1) assms(1) by (auto simp: strategies_ok_def distinct_map dest: inj_onD)
      then show False using r(1) that(2) by simp
    qed
    then show ?thesis by (simp add: grown_def Let_def)
  qed
  have valid: "strategy_valid (?g s)" if s: "s \<in> set ss" for s
  proof (cases "s \<in> set rs")
    case True
    have "\<forall>r \<in> set rs. 0 \<le> sg_allocation (?g r)" using grow assms(2) by auto
    then have "sg_allocation (?g s) \<le> 1" using member_le_sum_list[OF True, of "\<lambda>s. sg_allocation (?g s)"] sum assms(5) by simp
    moreover have "strategy_valid s" using s assms(1) by (auto simp: strategies_ok_def list_all_iff)
    ultimately show ?thesis using grow[OF s] by (auto simp: strategy_valid_def unit_interval_def grown_def Let_def)
  next
    case False
    then show ?thesis using only[OF s] s assms(1) by (auto simp: strategies_ok_def list_all_iff)
  qed
  have "redistribute_allocation (\<lambda>x. x) ss i f = Inr (map ?g ss)"
    using assms(3,4) False valid by (simp add: redistribute_allocation_def Let_def assms(2)[symmetric] list_all_iff)
  moreover have "running_share (map ?g ss) = sum_list (map sg_allocation rs) + f"
    unfolding running_share_def running using sum by (simp add: comp_def)
  moreover have "s \<in> set (map ?g ss)" if "s \<in> set ss" "\<not> running s" for s
    using only[OF that(1)] that assms(2) by (auto intro: image_eqI[of _ _ s])
  ultimately show ?thesis using valid by (intro exI[of _ "map ?g ss"]) (auto simp: list_all_iff comp_def)
qed

lemma edit_portfolio_saves:
  assumes "store_ok st" "table_get (sr_portfolios st) g = Some p" "f p = Inr (x, ss)" "list_all strategy_valid ss"
  shows "\<exists>st'. edit_portfolio now g id f st = (Inr x, st') \<and>
    sr_portfolios st' = table_put g (p\<lparr>pf_strategies := ss\<rparr>) (sr_portfolios st) \<and> sr_history st' = sr_history st"
proof -
  have "portfolio_valid p" using assms(1,2) by (auto simp: store_ok_def strategies_ok_def portfolio_valid_def)
  then show ?thesis
    using assms(2-4)
    by (simp add: edit_portfolio_def load_or_create_portfolio_def get_portfolio_def save_portfolio_def portfolio_valid_def)
qed

lemma replace_or_push_ok:
  "strategies_ok h \<Longrightarrow> strategy_valid s \<Longrightarrow> strategies_ok (replace_or_push s h) \<and> s \<in> set (replace_or_push s h) \<and>
     sg_id ` set (replace_or_push s h) = insert (sg_id s) (sg_id ` set h)"
  by (induction h) (auto simp: strategies_ok_def)

lemma append_to_history_works:
  assumes "store_ok st" "strategy_valid s"
  shows "\<exists>st' h. append_to_history g s st = (Inr (), st') \<and> sr_portfolios st' = sr_portfolios st \<and>
    table_get (sr_history st') g = Some h \<and> s \<in> set h"
proof -
  have h: "strategies_ok (nullish (table_get (sr_history st) g) [])"
    using assms(1) by (cases "table_get (sr_history st) g") (auto simp: store_ok_def strategies_ok_def)
  then have "get_strategy_history g st = Inr (nullish (table_get (sr_history st) g) [])"
    by (simp add: get_strategy_history_def strategies_ok_def)
  moreover have "parse_strategies (replace_or_push s (nullish (table_get (sr_history st) g) [])) =
      Inr (replace_or_push s (nullish (table_get (sr_history st) g) []))"
    using replace_or_push_ok[OF h assms(2)] by (simp add: strategies_ok_def)
  ultimately show ?thesis
    using replace_or_push_ok[OF h assms(2)]
    by (simp add: append_to_history_def save_strategy_history_def strategies_ok_def table_get_put)
qed

lemma running_share_split:
  assumes "strategies_ok ss" "find_strategy i ss = Some s" "running s"
  shows "running_share ss = sum_list (map sg_allocation (filter (\<lambda>t. sg_id t \<noteq> i \<and> running t) ss)) + sg_allocation s"
proof -
  have s: "s \<in> set (filter running ss)" "sg_id s = i" using find_strategyD[OF assms(2)] assms(3) by auto
  have "distinct ss" using assms(1) by (auto simp: strategies_ok_def distinct_map)
  then have "remove1 s (filter running ss) = filter (\<lambda>t. t \<noteq> s) (filter running ss)" by (intro remove1_filter_distinct) simp
  also have "\<dots> = filter (\<lambda>t. sg_id t \<noteq> i \<and> running t) ss"
    unfolding filter_filter using find_strategy_unique[OF assms(1,2)] s(2) by (intro filter_cong) auto
  finally show ?thesis unfolding running_share_def using sum_list_map_remove1[OF s(1), of sg_allocation] by simp
qed

lemma find_in_distinct: "distinct (map sg_id ss) \<Longrightarrow> u \<in> set ss \<Longrightarrow> find_strategy (sg_id u) ss = Some u"
  unfolding find_strategy_def by (induction ss) auto

text \<open>A strategy that stops hands its share on: \<open>u\<close> is what it becomes.\<close>

lemma stopping_hands_on:
  assumes "strategies_ok ss" "find_strategy i ss = Some s" "running s" "strategy_valid u" "sg_id u = i" "\<not> running u"
    and "\<exists>r \<in> set ss. sg_id r \<noteq> i \<and> running r" "running_share ss \<le> 1"
  shows "\<exists>ts. redistribute_allocation (\<lambda>x. x) (replace_strategy i u ss) i (sg_allocation s) = Inr ts \<and>
    running_share ts = running_share ss \<and> list_all strategy_valid ts \<and> find_strategy i ts = Some u"
proof -
  let ?ss = "replace_strategy i u ss"
  have ids: "map sg_id ?ss = map sg_id ss" using assms(5) by (simp add: replace_strategy_def comp_def)
  have "list_all strategy_valid ?ss" using assms(1,4) by (auto simp: replace_strategy_def strategies_ok_def list_all_iff)
  then have ok: "strategies_ok ?ss" using assms(1) ids unfolding strategies_ok_def by metis
  have same: "filter (\<lambda>t. sg_id t \<noteq> i \<and> running t) ?ss = filter (\<lambda>t. sg_id t \<noteq> i \<and> running t) ss"
    using assms(5) unfolding replace_strategy_def by (induction ss) auto
  have some: "filter (\<lambda>t. sg_id t \<noteq> i \<and> running t) ss \<noteq> []" using assms(7) by (auto simp: filter_empty_conv)
  have s: "s \<in> set ss" "sg_id s = i" using find_strategyD[OF assms(2)] by auto
  have share: "0 \<le> sg_allocation s" using s(1) assms(1) by (auto simp: strategies_ok_def list_all_iff strategy_valid_def unit_interval_def)
  have gone: "\<forall>t \<in> set ?ss. sg_id t = i \<longrightarrow> \<not> running t" using assms(6) by (auto simp: replace_strategy_def)
  note split = running_share_split[OF assms(1,2,3)]
  obtain ts where ts: "redistribute_allocation (\<lambda>x. x) ?ss i (sg_allocation s) = Inr ts"
    "running_share ts = sum_list (map sg_allocation (filter (\<lambda>t. sg_id t \<noteq> i \<and> running t) ss)) + sg_allocation s"
    "list_all strategy_valid ts" "map sg_id ts = map sg_id ?ss" "\<forall>t \<in> set ?ss. \<not> running t \<longrightarrow> t \<in> set ts"
    using redistribute_conserves[OF ok same[symmetric] some share _ gone] assms(8) unfolding split by metis
  have "u \<in> set ?ss" using s by (auto simp: replace_strategy_def)
  then have "u \<in> set ts" using ts(5) assms(6) by blast
  moreover have "distinct (map sg_id ts)" using ts(4) ok unfolding strategies_ok_def by metis
  ultimately have "find_strategy i ts = Some u" using find_in_distinct[of ts u] assms(5) by simp
  then show ?thesis using ts(1-3) split by (intro exI[of _ ts]) simp
qed

text \<open>
  C35. As long as the running strategies of a goal hold at most the whole, terminating or suspending one of several
  running strategies succeeds, and in exact arithmetic the others get all of its share: the total of
  the running strategies stays the same. The strategy that stops keeps no share, and a terminated one is in the history.
\<close>

theorem stopped_strategies_hand_on_their_share:
  assumes "store_ok st" "table_get (sr_portfolios st) g = Some p" "strategy_at st g i = Some s" "running s"
    and "\<exists>r \<in> set (pf_strategies p). sg_id r \<noteq> i \<and> running r" "running_share (pf_strategies p) \<le> 1"
  shows "(\<exists>u st' q h. terminate_strategy (\<lambda>x. x) g i now id st = (Inr u, st') \<and> table_get (sr_portfolios st') g = Some q \<and>
      strategy_at st' g i = Some u \<and> sg_state u = St_Terminated \<and> sg_allocation u = 0 \<and>
      running_share (pf_strategies q) = running_share (pf_strategies p) \<and>
      table_get (sr_history st') g = Some h \<and> u \<in> set h) \<and>
    (\<exists>u st' q. suspend_strategy (\<lambda>x. x) g i now id st = (Inr u, st') \<and> table_get (sr_portfolios st') g = Some q \<and>
      strategy_at st' g i = Some u \<and> sg_state u = St_Suspended \<and> sg_allocation u = 0 \<and>
      running_share (pf_strategies q) = running_share (pf_strategies p))"
proof
  have ok: "strategies_ok (pf_strategies p)" using assms(1,2) by (simp add: store_ok_def)
  have s: "find_strategy i (pf_strategies p) = Some s" using assms(2,3) by (simp add: strategy_at_def)
  have valid: "strategy_valid s" "sg_id s = i" using find_strategyD[OF s] ok by (auto simp: strategies_ok_def list_all_iff)
  define u where "u = s\<lparr>sg_state := St_Terminated, sg_completed_at := Some now, sg_allocation := 0\<rparr>"
  have u: "strategy_valid u" "sg_id u = i" "\<not> running u"
    using valid by (auto simp: u_def strategy_valid_def unit_interval_def running_def)
  obtain ts where ts: "redistribute_allocation (\<lambda>x. x) (replace_strategy i u (pf_strategies p)) i (sg_allocation s) = Inr ts"
    "running_share ts = running_share (pf_strategies p)" "list_all strategy_valid ts" "find_strategy i ts = Some u"
    using stopping_hands_on[OF ok s assms(4) u assms(5,6)] by blast
  have "parse_strategy u = Inr u" using u(1) by simp
  then have "terminated (\<lambda>x. x) i now p = Inr (u, ts)" using ts(1) unfolding u_def by (simp add: terminated_def s del: parse_strategy_Inr)
  from edit_portfolio_saves[where f = "terminated (\<lambda>x. x) i now" and now = now, OF assms(1,2) this ts(3)] obtain st1 where st1:
    "edit_portfolio now g id (terminated (\<lambda>x. x) i now) st = (Inr u, st1)"
    "sr_portfolios st1 = table_put g (p\<lparr>pf_strategies := ts\<rparr>) (sr_portfolios st)" by blast
  have "store_ok st1"
    using edit_in_place_keeps[of "terminated (\<lambda>x. x) i now" st now g, OF terminated_in_place] assms(1) st1(1) by (auto simp: keeps_def)
  from append_to_history_works[OF this u(1)] obtain st' h where st':
    "append_to_history g u st1 = (Inr (), st')" "sr_portfolios st' = sr_portfolios st1"
    "table_get (sr_history st') g = Some h" "u \<in> set h" by blast
  show "\<exists>u st' q h. terminate_strategy (\<lambda>x. x) g i now id st = (Inr u, st') \<and> table_get (sr_portfolios st') g = Some q \<and>
      strategy_at st' g i = Some u \<and> sg_state u = St_Terminated \<and> sg_allocation u = 0 \<and>
      running_share (pf_strategies q) = running_share (pf_strategies p) \<and>
      table_get (sr_history st') g = Some h \<and> u \<in> set h"
    using st1 st' ts(2,4) by (intro exI[of _ u] exI[of _ st'] exI[of _ "p\<lparr>pf_strategies := ts\<rparr>"] exI[of _ h])
      (simp add: terminate_strategy_def table_get_put strategy_at_def u_def)
next
  have ok: "strategies_ok (pf_strategies p)" using assms(1,2) by (simp add: store_ok_def)
  have s: "find_strategy i (pf_strategies p) = Some s" using assms(2,3) by (simp add: strategy_at_def)
  have valid: "strategy_valid s" "sg_id s = i" using find_strategyD[OF s] ok by (auto simp: strategies_ok_def list_all_iff)
  define u where "u = s\<lparr>sg_state := St_Suspended, sg_allocation := 0\<rparr>"
  have u: "strategy_valid u" "sg_id u = i" "\<not> running u"
    using valid by (auto simp: u_def strategy_valid_def unit_interval_def running_def)
  obtain ts where ts: "redistribute_allocation (\<lambda>x. x) (replace_strategy i u (pf_strategies p)) i (sg_allocation s) = Inr ts"
    "running_share ts = running_share (pf_strategies p)" "list_all strategy_valid ts" "find_strategy i ts = Some u"
    using stopping_hands_on[OF ok s assms(4) u assms(5,6)] by blast
  have "parse_strategy u = Inr u" using u(1) by simp
  then have "suspended (\<lambda>x. x) i p = Inr (u, ts)"
    using ts(1) assms(4) unfolding u_def by (simp add: suspended_def s del: parse_strategy_Inr)
  from edit_portfolio_saves[where f = "suspended (\<lambda>x. x) i" and now = now, OF assms(1,2) this ts(3)] obtain st1 where st1:
    "edit_portfolio now g id (suspended (\<lambda>x. x) i) st = (Inr u, st1)"
    "sr_portfolios st1 = table_put g (p\<lparr>pf_strategies := ts\<rparr>) (sr_portfolios st)" by blast
  show "\<exists>u st' q. suspend_strategy (\<lambda>x. x) g i now id st = (Inr u, st') \<and> table_get (sr_portfolios st') g = Some q \<and>
      strategy_at st' g i = Some u \<and> sg_state u = St_Suspended \<and> sg_allocation u = 0 \<and>
      running_share (pf_strategies q) = running_share (pf_strategies p)"
    using st1 ts(2,4) by (intro exI[of _ u] exI[of _ st1] exI[of _ "p\<lparr>pf_strategies := ts\<rparr>"])
      (simp add: suspend_strategy_def table_get_put strategy_at_def u_def)
qed

lemma parse_strategies_Inl: "\<not> list_all strategy_valid ss \<Longrightarrow> parse_strategies ss = Inl SchemaError"
  by (induction ss) (auto simp: parse_strategy_def)

lemma filter_id: "distinct (map sg_id ss) \<Longrightarrow> find_strategy i ss = Some s \<Longrightarrow> filter (\<lambda>t. sg_id t = i) ss = [s]"
proof (induction ss)
  case (Cons x xs)
  show ?case
  proof (cases "sg_id x = i")
    case True
    then have "filter (\<lambda>t. sg_id t = i) xs = []" using Cons.prems(1) by (auto simp: filter_empty_conv) (metis imageI)
    then show ?thesis using True Cons.prems(2) by (simp add: find_strategy_def)
  next
    case False
    then show ?thesis using Cons by (simp add: find_strategy_def)
  qed
qed (simp add: find_strategy_def)

text \<open>Activating one strategy that is no wait gives it the whole, whatever runs beside it.\<close>

lemma activate_one:
  fixes now :: int
  assumes "store_ok st" "table_get (sr_portfolios st) g = Some p" "find_strategy i (pf_strategies p) = Some s"
    "sg_state s = St_Candidate" "sg_wait s = None"
  defines "f \<equiv> \<lambda>t. if sg_id t = i then t\<lparr>sg_state := St_Active, sg_started_at := Some (Iso now), sg_allocation := 1\<rparr> else t"
  shows "\<exists>xs st'. activate_multiple rnd av g [i] now id st = (Inr xs, st') \<and> store_ok st' \<and>
    table_get (sr_portfolios st') g = Some (p\<lparr>pf_strategies := map f (pf_strategies p)\<rparr>)"
proof -
  have ok: "strategies_ok (pf_strategies p)" using assms(1,2) by (simp add: store_ok_def)
  have start: "started_strategy (Iso now) 1 [] t = t\<lparr>sg_state := St_Active, sg_started_at := Some (Iso now), sg_allocation := 1\<rparr>" for t
    by (simp add: started_strategy_def)
  have valid: "list_all strategy_valid (map f (pf_strategies p))"
    using ok by (auto simp: f_def strategies_ok_def list_all_iff strategy_valid_def unit_interval_def)
  have some: "list_all strategy_valid (map (started_strategy (Iso now) 1 []) (filter (\<lambda>s. sg_id s \<in> set [i]) (pf_strategies p)))"
    using ok by (auto simp: start strategies_ok_def list_all_iff strategy_valid_def unit_interval_def)
  have "activated rnd av [i] now p =
      Inr (map (started_strategy (Iso now) 1 []) (filter (\<lambda>s. sg_id s \<in> set [i]) (pf_strategies p)), map f (pf_strategies p))"
    using some by (simp add: activated_def assms(3-5) Let_def equal_share_def start f_def)
  from edit_portfolio_saves[where f = "activated rnd av [i] now" and now = "Iso now", OF assms(1,2) this valid] show ?thesis
    using activate_multiple_keeps[of st rnd av g "[i]" now] assms(1)
    by (auto simp: activate_multiple_def table_get_put keeps_def)
qed

lemma whole_grown_refused:
  assumes "ieee_rounding rnd" "distinct (map sg_id ss)" "find_strategy j ss = Some b" "sg_allocation b = 1" "running b" "i \<noteq> j"
    and "\<forall>u \<in> set ss. running u \<longrightarrow> sg_id u = i \<or> sg_id u = j" "sg_id c = i"
  shows "redistribute_allocation rnd (replace_strategy i c ss) i 1 = Inl SchemaError"
proof -
  have b: "b \<in> set ss" "sg_id b = j" using find_strategyD[OF assms(3)] by auto
  have "filter (\<lambda>u. sg_id u \<noteq> i \<and> running u) (replace_strategy i c ss) = filter (\<lambda>u. sg_id u \<noteq> i \<and> running u) ss"
    using assms(8) unfolding replace_strategy_def by (induction ss) auto
  also have "\<dots> = filter (\<lambda>u. sg_id u = j) ss"
  proof (rule filter_cong)
    fix u assume u: "u \<in> set ss"
    show "(sg_id u \<noteq> i \<and> running u) = (sg_id u = j)"
    proof
      assume "sg_id u = j"
      moreover have "inj_on sg_id (set ss)" using assms(2) by (simp add: distinct_map)
      ultimately have "u = b" using inj_onD[of sg_id "set ss" u b] u b by simp
      then show "sg_id u \<noteq> i \<and> running u" using b(2) assms(5,6) by simp
    qed (use bspec[OF assms(7) u] in blast)
  qed simp
  finally have rest: "filter (\<lambda>u. sg_id u \<noteq> i \<and> running u) (replace_strategy i c ss) = [b]"
    using filter_id[OF assms(2,3)] by simp
  have "js_sum rnd [1] = 1" "rnd (1 + rnd (1 * rnd (1 / 1))) = 2"
    using ieee_rounding.rnd_1[OF assms(1)] ieee_rounding.rnd_of_int[OF assms(1), of 2] by (simp_all add: js_sum_def)
  then have "sg_allocation (grown rnd [b] 1 b) = 2" using assms(4) by (simp add: grown_def Let_def in_list_def)
  then have "\<not> strategy_valid (grown rnd [b] 1 b)" by (simp add: strategy_valid_def unit_interval_def)
  moreover have "b \<in> set (replace_strategy i c ss)" using b assms(6) unfolding replace_strategy_def by force
  ultimately show ?thesis
    using rest by (auto simp: redistribute_allocation_def Let_def list_all_iff intro!: parse_strategies_Inl)
qed

lemma two_wholes_cannot_stop:
  assumes "ieee_rounding rnd" "store_ok st" "table_get (sr_portfolios st) g = Some p" "i \<noteq> j"
    and "find_strategy i (pf_strategies p) = Some a" "sg_allocation a = 1" "running a"
    and "find_strategy j (pf_strategies p) = Some b" "sg_allocation b = 1" "running b"
    and "\<forall>u \<in> set (pf_strategies p). running u \<longrightarrow> sg_id u = i \<or> sg_id u = j"
  shows "fst (terminate_strategy rnd g i now id st) = Inl SchemaError \<and>
    sr_portfolios (snd (terminate_strategy rnd g i now id st)) = sr_portfolios st \<and>
    fst (suspend_strategy rnd g i now id st) = Inl SchemaError \<and>
    sr_portfolios (snd (suspend_strategy rnd g i now id st)) = sr_portfolios st"
proof -
  have ok: "strategies_ok (pf_strategies p)" using assms(2,3) by (simp add: store_ok_def)
  have a: "sg_id a = i" "strategy_valid a" using find_strategyD[OF assms(5)] ok by (auto simp: strategies_ok_def list_all_iff)
  have distinct: "distinct (map sg_id (pf_strategies p))" using ok by (simp add: strategies_ok_def)
  note refused = whole_grown_refused[OF assms(1) distinct assms(8-10,4,11)]
  have "strategy_valid (a\<lparr>sg_state := St_Terminated, sg_completed_at := Some now, sg_allocation := 0\<rparr>)"
    "strategy_valid (a\<lparr>sg_state := St_Suspended, sg_allocation := 0\<rparr>)" using a(2) by (auto simp: strategy_valid_def unit_interval_def)
  then have "terminated rnd i now p = Inl SchemaError" "suspended rnd i p = Inl SchemaError"
    using a(1) assms(5-7) by (simp_all add: terminated_def suspended_def refused)
  moreover have "portfolio_valid p" using ok by (simp add: strategies_ok_def portfolio_valid_def)
  ultimately have "fst (edit_portfolio now g id (terminated rnd i now) st) = Inl SchemaError"
    "sr_portfolios (snd (edit_portfolio now g id (terminated rnd i now) st)) = sr_portfolios st"
    "fst (edit_portfolio now g id (suspended rnd i) st) = Inl SchemaError"
    "sr_portfolios (snd (edit_portfolio now g id (suspended rnd i) st)) = sr_portfolios st"
    using assms(3) by (simp_all add: edit_portfolio_def load_or_create_portfolio_def get_portfolio_def)
  then show ?thesis by (auto simp: terminate_strategy_def suspend_strategy_def split: prod.split sum.split)
qed

lemma find_strategy_mapped:
  "(\<And>t. sg_id (f t) = sg_id t) \<Longrightarrow> find_strategy i (map f ss) = map_option f (find_strategy i ss)"
  unfolding find_strategy_def by (induction ss) auto

text \<open>
  C39. In a portfolio where nothing runs, two strategies that wait for nothing are activated one right
  after the other, each alone: both get the whole. As long as the portfolio then stays as it is, neither of
  them can be terminated or suspended, at any time and however the other goals change: the other one
  would get a share of two, which the schema refuses, and all rows stay as they are.
\<close>

theorem single_activations_block_stopping:
  assumes "ieee_rounding rnd" "store_ok st" "strategy_at st g i = Some s" "strategy_at st g j = Some t" "i \<noteq> j"
    and "sg_state s = St_Candidate" "sg_wait s = None" "sg_state t = St_Candidate" "sg_wait t = None"
    and "\<forall>p. table_get (sr_portfolios st) g = Some p \<longrightarrow> \<not> list_ex running (pf_strategies p)"
  shows "\<exists>xs ys st1 st2. activate_multiple rnd av g [i] now id st = (Inr xs, st1) \<and>
    activate_multiple rnd av g [j] now' id st1 = (Inr ys, st2) \<and> store_ok st2 \<and>
    map_option sg_allocation (strategy_at st2 g i) = Some 1 \<and> map_option sg_allocation (strategy_at st2 g j) = Some 1 \<and>
    (\<forall>k \<in> {i, j}. \<forall>later clock. store_ok later \<and> table_get (sr_portfolios later) g = table_get (sr_portfolios st2) g \<longrightarrow>
       fst (terminate_strategy rnd g k clock id later) = Inl SchemaError \<and>
       sr_portfolios (snd (terminate_strategy rnd g k clock id later)) = sr_portfolios later \<and>
       fst (suspend_strategy rnd g k clock id later) = Inl SchemaError \<and>
       sr_portfolios (snd (suspend_strategy rnd g k clock id later)) = sr_portfolios later)"
proof -
  let ?up = "\<lambda>i now t. if sg_id t = i then t\<lparr>sg_state := St_Active, sg_started_at := Some (Iso now), sg_allocation := 1\<rparr> else t"
  have ids: "sg_id (?up k n u) = sg_id u" for k n u by simp
  obtain p where p: "table_get (sr_portfolios st) g = Some p" "find_strategy i (pf_strategies p) = Some s"
      "find_strategy j (pf_strategies p) = Some t"
    using assms(3,4) by (auto simp: strategy_at_def split: option.splits)
  have mem: "sg_id s = i" "sg_id t = j" using find_strategyD[OF p(2)] find_strategyD[OF p(3)] by auto
  obtain xs st1 where one: "activate_multiple rnd av g [i] now id st = (Inr xs, st1)" "store_ok st1"
      "table_get (sr_portfolios st1) g = Some (p\<lparr>pf_strategies := map (?up i now) (pf_strategies p)\<rparr>)"
    using activate_one[OF assms(2) p(1,2) assms(6,7)] by blast
  define p1 where "p1 = p\<lparr>pf_strategies := map (?up i now) (pf_strategies p)\<rparr>"
  have found1: "find_strategy k (pf_strategies p1) = map_option (?up i now) (find_strategy k (pf_strategies p))" for k
    by (simp add: p1_def find_strategy_mapped[of "?up i now", OF ids])
  have j1: "find_strategy j (pf_strategies p1) = Some t" using mem(2) assms(5) by (simp add: found1 p(3))
  obtain ys st2 where two: "activate_multiple rnd av g [j] now' id st1 = (Inr ys, st2)" "store_ok st2"
      "table_get (sr_portfolios st2) g = Some (p1\<lparr>pf_strategies := map (?up j now') (pf_strategies p1)\<rparr>)"
    using activate_one[OF one(2) one(3)[folded p1_def] j1 assms(8,9)] by blast
  define p2 where "p2 = p1\<lparr>pf_strategies := map (?up j now') (pf_strategies p1)\<rparr>"
  have found2: "find_strategy k (pf_strategies p2) = map_option (?up j now') (find_strategy k (pf_strategies p1))" for k
    by (simp add: p2_def find_strategy_mapped[of "?up j now'", OF ids])
  obtain a b where a: "find_strategy i (pf_strategies p2) = Some a" "sg_allocation a = 1" "running a"
    and b: "find_strategy j (pf_strategies p2) = Some b" "sg_allocation b = 1" "running b"
  proof
    show "find_strategy i (pf_strategies p2) = Some (?up i now s)" unfolding found2 found1 p(2) using mem(1) assms(5) by simp
    show "find_strategy j (pf_strategies p2) = Some (?up j now' t)" unfolding found2 j1 using mem(2) by simp
  qed (use mem in \<open>simp_all add: running_def\<close>)
  have runs: "\<forall>u \<in> set (pf_strategies p2). running u \<longrightarrow> sg_id u = i \<or> sg_id u = j"
    using assms(10) p(1) by (auto simp: p1_def p2_def list_ex_iff split: if_splits)
  then have runs': "\<forall>u \<in> set (pf_strategies p2). running u \<longrightarrow> sg_id u = j \<or> sg_id u = i" by blast
  have row: "table_get (sr_portfolios st2) g = Some p2" using two(3) by (simp add: p2_def)
  have stuck: "fst (terminate_strategy rnd g k clock id later) = Inl SchemaError \<and>
       sr_portfolios (snd (terminate_strategy rnd g k clock id later)) = sr_portfolios later \<and>
       fst (suspend_strategy rnd g k clock id later) = Inl SchemaError \<and>
       sr_portfolios (snd (suspend_strategy rnd g k clock id later)) = sr_portfolios later"
    if "k \<in> {i, j}" "store_ok later" "table_get (sr_portfolios later) g = Some p2" for k clock later
    using that two_wholes_cannot_stop[OF assms(1) that(2,3) assms(5) a b runs, of clock]
      two_wholes_cannot_stop[OF assms(1) that(2,3) not_sym[OF assms(5)] b a runs', of clock] by blast
  have shares: "map_option sg_allocation (strategy_at st2 g i) = Some 1" "map_option sg_allocation (strategy_at st2 g j) = Some 1"
    using a b by (simp_all add: strategy_at_def row)
  show ?thesis
    using one(1) two(1,2) shares stuck by (intro exI[of _ xs] exI[of _ ys] exI[of _ st1] exI[of _ st2]) (simp add: row)
qed

text \<open>Resuming makes room in the same way: the running strategies then hold the whole.\<close>

lemma shrunk_sum:
  assumes "rs \<noteq> []" "list_all strategy_valid rs"
  shows "sum_list (map (\<lambda>s. sg_allocation (shrunk (\<lambda>x. x) rs room s)) rs) = room"
proof (cases "sum_list (map sg_allocation rs) > 0")
  case True
  let ?T = "sum_list (map sg_allocation rs)"
  have "sum_list (map (\<lambda>s. sg_allocation (shrunk (\<lambda>x. x) rs room s)) rs) = sum_list (map (\<lambda>s. (room / ?T) * sg_allocation s) rs)"
    using True by (intro arg_cong[of _ _ sum_list] map_cong) (simp_all add: shrunk_def Let_def)
  also have "\<dots> = (room / ?T) * ?T" by (rule sum_list_const_mult)
  finally show ?thesis using True by simp
next
  case False
  have "sum_list (map (\<lambda>s. sg_allocation (shrunk (\<lambda>x. x) rs room s)) rs) = sum_list (map (\<lambda>s. room / of_nat (length rs)) rs)"
    using False by (intro arg_cong[of _ _ sum_list] map_cong) (simp_all add: shrunk_def Let_def)
  then show ?thesis using assms(1) by (simp add: sum_list_triv)
qed

lemma resumed_strategies_share_the_whole:
  assumes "resumed (\<lambda>x. x) i a p = Inr (u, ss)" "strategies_ok (pf_strategies p)" "\<exists>r \<in> set (pf_strategies p). sg_id r \<noteq> i \<and> running r"
  shows "running_share ss = 1"
proof -
  let ?rs = "filter (\<lambda>s. sg_id s \<noteq> i \<and> running s) (pf_strategies p)"
  let ?k = "shrunk (\<lambda>x. x) ?rs (1 - a)"
  from assms(1) obtain s where s: "find_strategy i (pf_strategies p) = Some s" "sg_state s = St_Suspended"
    "u = s\<lparr>sg_state := St_Active, sg_allocation := a\<rparr>" "ss = map (\<lambda>t. if sg_id t = i then u else ?k t) (pf_strategies p)"
    "list_all strategy_valid ss"
    by (auto simp: resumed_def Let_def result_bind_Inr_iff split: option.splits if_splits)
  have k: "sg_id (?k t) = sg_id t" "running (?k t) = running t" for t by (simp_all add: shrunk_def Let_def running_def)
  have u: "running u" "sg_id u = i" "u \<in> set ss"
    using find_strategyD[OF s(1)] s(3,4) by (auto simp: running_def)
  have ids: "map sg_id ss = map sg_id (pf_strategies p)" using s(4) u(2) k(1) by simp
  then have ok: "strategies_ok ss" using assms(2) s(5) unfolding strategies_ok_def by metis
  have find: "find_strategy i ss = Some u" using find_in_distinct[of ss u] ok u(2,3) by (simp add: strategies_ok_def)
  have "filter (\<lambda>t. sg_id t \<noteq> i \<and> running t) ss = map ?k ?rs"
  proof -
    have "filter (\<lambda>t. sg_id t \<noteq> i \<and> running t) (map (\<lambda>t. if sg_id t = i then u else f t) xs) =
        map f (filter (\<lambda>t. sg_id t \<noteq> i \<and> running t) xs)" if "\<And>t. sg_id (f t) = sg_id t" "\<And>t. running (f t) = running t" for f xs
      using u(2) that by (induction xs) auto
    from this[of ?k] show ?thesis using k s(4) by simp
  qed
  then have "running_share ss = sum_list (map (\<lambda>s. sg_allocation (?k s)) ?rs) + a"
    using running_share_split[OF ok find u(1)] s(3) by (simp add: comp_def)
  also have "sum_list (map (\<lambda>s. sg_allocation (?k s)) ?rs) = 1 - a"
    using assms(2,3) by (intro shrunk_sum) (auto simp: filter_empty_conv strategies_ok_def list_all_iff)
  finally show ?thesis by simp
qed

section \<open>Examples\<close>

definition sample_strategy :: "string \<Rightarrow> strategy_state \<Rightarrow> rat \<Rightarrow> strategy" where
  "sample_strategy i a x = (fresh_strategy i ''g'' i [] [] \<lparr>re_sessions = 1, re_duration = 1, re_unit = Hours, re_llm_calls = None\<rparr> (Iso 0))
     \<lparr>sg_state := a, sg_allocation := x\<rparr>"

definition sample_store :: "strategy list \<Rightarrow> store" where
  "sample_store ss = \<lparr>sr_portfolios = [(''g'', \<lparr>pf_goal_id = ''g'', pf_strategies = ss, pf_interval = 7, pf_interval_unit = Days,
     pf_last_rebalanced_at = Iso 0\<rparr>)], sr_history = [], sr_index = []\<rparr>"

definition sample_pair :: store where
  "sample_pair = sample_store [sample_strategy ''a'' St_Active (1/2), sample_strategy ''b'' St_Active (1/2)]"

lemma sample_ok:
  "unit_interval x \<Longrightarrow> unit_interval y \<Longrightarrow> store_ok (sample_store [sample_strategy ''a'' s x, sample_strategy ''b'' t y])"
  by (auto simp: store_ok_def sample_store_def strategies_ok_def strategy_valid_def sample_strategy_def fresh_strategy_def estimate_valid_def
      safe_nonneg_def max_safe_integer_def)

lemma sample_at:
  "strategy_at (sample_store [sample_strategy ''a'' s x, sample_strategy ''b'' t y]) ''g'' ''a'' = Some (sample_strategy ''a'' s x)"
  "strategy_at (sample_store [sample_strategy ''a'' s x, sample_strategy ''b'' t y]) ''g'' ''b'' = Some (sample_strategy ''b'' t y)"
  by (auto simp: strategy_at_def sample_store_def find_strategy_def sample_strategy_def fresh_strategy_def)

text \<open>
  An allocation that is written while a termination runs puts the terminated strategy back: it is in the history and runs on.
\<close>

lemma overlapping_update_revives:
  "(let st = snd (edit_portfolio (Iso 1) ''g'' (\<lambda>s. snd (terminate_strategy (\<lambda>x. x) ''g'' ''a'' (Iso 1) id s))
                    (allocated ''b'' (1/4)) sample_pair)
    in (map_option sg_state (strategy_at st ''g'' ''a''), map (\<lambda>s. (sg_id s, sg_state s)) (nullish (table_get (sr_history st) ''g'') []))) =
   (Some St_Active, [(''a'', St_Terminated)])"
  by code_simp

text \<open>Two goals may have strategies of the same id; the one that was read last is meant.\<close>

lemma same_id_in_two_goals:
  "(let s = sample_strategy ''a'' St_Active 1;
        st = \<lparr>sr_portfolios = map (\<lambda>g. (g, \<lparr>pf_goal_id = g, pf_strategies = [s], pf_interval = 7, pf_interval_unit = Days,
               pf_last_rebalanced_at = Iso 0\<rparr>)) [''g'', ''h''], sr_history = [], sr_index = []\<rparr>;
        st1 = snd (get_portfolio ''h'' (snd (get_portfolio ''g'' st)));
        st2 = snd (update_state [] ''a'' St_Completed None (Iso 1) id st1)
    in (map_option sg_state (strategy_at st2 ''g'' ''a''), map_option sg_state (strategy_at st2 ''h'' ''a''))) =
   (Some St_Active, Some St_Completed)"
  by code_simp

theorem strategies_live_once_witness:
  "\<exists>t. strategy_at (snd (terminate_strategy (\<lambda>x. x) ''g'' ''b'' (Iso 2) id
        (snd (update_state [''g''] ''a'' St_Completed None (Iso 1) id (sample_store
          [sample_strategy ''a'' St_Terminated (1/2), sample_strategy ''b'' St_Active (1/2)]))))) ''g'' ''a'' = Some t \<and>
     finished (sg_state t)"
proof -
  let ?st = "sample_store [sample_strategy ''a'' St_Terminated (1/2), sample_strategy ''b'' St_Active (1/2)]"
  have ok: "store_ok ?st" by (rule sample_ok) (simp_all add: unit_interval_def)
  have run: "(manages (\<lambda>x. x))\<^sup>*\<^sup>* ?st (snd (terminate_strategy (\<lambda>x. x) ''g'' ''b'' (Iso 2) id
        (snd (update_state [''g''] ''a'' St_Completed None (Iso 1) id ?st))))"
    by (rule converse_rtranclp_into_rtranclp, rule manages_state, rule r_into_rtranclp, rule manages_terminate)
  show ?thesis
    using strategies_live_once[OF run ok sample_at(1)] by (auto simp: sample_strategy_def finished_def)
qed

theorem stopped_strategies_hand_on_their_share_witness:
  "\<exists>u st'. terminate_strategy (\<lambda>x. x) ''g'' ''a'' (Iso 1) id sample_pair = (Inr u, st') \<and> sg_state u = St_Terminated"
proof -
  let ?ss = "[sample_strategy ''a'' St_Active (1/2), sample_strategy ''b'' St_Active (1/2)]"
  have ok: "store_ok sample_pair" unfolding sample_pair_def by (rule sample_ok) (simp_all add: unit_interval_def)
  have p: "table_get (sr_portfolios sample_pair) ''g'' = Some \<lparr>pf_goal_id = ''g'', pf_strategies = ?ss, pf_interval = 7,
      pf_interval_unit = Days, pf_last_rebalanced_at = Iso 0\<rparr>" by (simp add: sample_pair_def sample_store_def)
  have at: "strategy_at sample_pair ''g'' ''a'' = Some (sample_strategy ''a'' St_Active (1/2))"
    unfolding sample_pair_def by (rule sample_at)
  have "running (sample_strategy ''a'' St_Active (1/2))" "\<exists>r \<in> set ?ss. sg_id r \<noteq> ''a'' \<and> running r" "running_share ?ss \<le> 1"
    by (simp_all add: sample_strategy_def running_def running_share_def fresh_strategy_def)
  then show ?thesis
    using stopped_strategies_hand_on_their_share[OF ok p at, of "Iso 1"] by auto
qed

theorem single_activations_block_stopping_witness:
  "\<exists>xs ys st1 st2. activate_multiple (\<lambda>x. x) \<lparr>av_ctx_gap = \<lambda>_. None, av_stored_gap = \<lambda>_. None, av_can_afford = None\<rparr> ''g'' [''a''] 1 id
      (sample_store [sample_strategy ''a'' St_Candidate 0, sample_strategy ''b'' St_Candidate 0]) = (Inr xs, st1) \<and>
    activate_multiple (\<lambda>x. x) \<lparr>av_ctx_gap = \<lambda>_. None, av_stored_gap = \<lambda>_. None, av_can_afford = None\<rparr> ''g'' [''b''] 2 id st1 = (Inr ys, st2) \<and>
    fst (terminate_strategy (\<lambda>x. x) ''g'' ''a'' (Iso 3) id st2) = Inl SchemaError \<and>
    fst (suspend_strategy (\<lambda>x. x) ''g'' ''b'' (Iso 3) id st2) = Inl SchemaError"
proof -
  let ?st = "sample_store [sample_strategy ''a'' St_Candidate 0, sample_strategy ''b'' St_Candidate 0]"
  have ok: "store_ok ?st" by (rule sample_ok) (simp_all add: unit_interval_def)
  have idle: "\<forall>p. table_get (sr_portfolios ?st) ''g'' = Some p \<longrightarrow> \<not> list_ex running (pf_strategies p)"
    by (simp add: sample_store_def sample_strategy_def running_def)
  have "ieee_rounding (\<lambda>x. x)" by unfold_locales simp_all
  from single_activations_block_stopping[OF this ok sample_at(1) sample_at(2) _ _ _ _ _ idle] show ?thesis
    by (fastforce simp: sample_strategy_def fresh_strategy_def)
qed

end
