(* ===== verification/Portfolio_Rebalance.thy ===== *)
theory Portfolio_Rebalance
  imports Strategy_Lifecycle
begin

text \<open>
  The portfolio of one goal: \<open>orchestrator/strategy/portfolio-manager.ts\<close>, \<open>portfolio-rebalance.ts\<close>,
  the termination check of \<open>portfolio-allocation.ts\<close> and \<open>types/portfolio.ts\<close>.

  The manager keeps, besides the rows of the strategy manager, when it last rebalanced a goal, the results of
  the rebalances, when a strategy last completed a task, and how many tasks went to a goal.
  The gap of a dimension is a parameter. Invalid dates give \<open>NaN\<close>, written \<open>None\<close>.
\<close>

section \<open>Data\<close>

record portfolio_config =
  pc_min_allocation :: rat
  pc_max_allocation :: rat
  pc_rebalance_interval_hours :: rat
  pc_effectiveness_min_tasks :: rat
  pc_score_ratio_threshold :: rat
  pc_termination_stall_count :: rat
  pc_termination_resource_multiplier :: rat
  pc_termination_min_rebalances :: rat

record effectiveness_record =
  er_strategy_id :: string
  er_gap_delta_attributed :: rat
  er_sessions_consumed :: nat
  er_effectiveness_score :: "rat option"
  er_last_calculated_at :: timestamp

record adjustment =
  aj_strategy_id :: string
  aj_old_allocation :: rat
  aj_new_allocation :: rat

datatype trigger_type = Tg_Periodic | Tg_Strategy_Terminated | Tg_Stall_Detected | Tg_Score_Change

record rebalance_trigger =
  tg_type :: trigger_type
  tg_strategy_id :: "string option"

record rebalance_result =
  rr_triggered_by :: trigger_type
  rr_timestamp :: timestamp
  rr_adjustments :: "adjustment list"
  rr_terminated_strategies :: "string list"
  rr_new_generation_needed :: bool

record manager =
  mg_lastRebalanceTime :: "(string, int) table"
  mg_rebalanceHistory :: "(string, rebalance_result list) table"
  mg_lastTaskCompletion :: "(string, int) table"
  mg_goalTaskCounts :: "(string, nat) table"

section \<open>Which strategy gets the next task\<close>

definition record_task_completion :: "string \<Rightarrow> int \<Rightarrow> manager \<Rightarrow> manager" where
  "record_task_completion i now m = m\<lparr>mg_lastTaskCompletion := table_put i now (mg_lastTaskCompletion m)\<rparr>"

definition record_goal_task_dispatched :: "string \<Rightarrow> manager \<Rightarrow> manager" where
  "record_goal_task_dispatched g m =
     m\<lparr>mg_goalTaskCounts := table_put g (nullish (table_get (mg_goalTaskCounts m) g) 0 + 1) (mg_goalTaskCounts m)\<rparr>"

definition last_completion :: "manager \<Rightarrow> portfolio \<Rightarrow> strategy \<Rightarrow> int option" where
  "last_completion m p s = (case table_get (mg_lastTaskCompletion m) (sg_id s) of
     Some t \<Rightarrow> Some t
   | None \<Rightarrow> (case sg_started_at s of
       Some t \<Rightarrow> if t = Opaque [] then date_parse (pf_last_rebalanced_at p) else date_parse t
     | None \<Rightarrow> date_parse (pf_last_rebalanced_at p)))"

definition wait_ratio :: "(rat \<Rightarrow> rat) \<Rightarrow> int \<Rightarrow> manager \<Rightarrow> portfolio \<Rightarrow> strategy \<Rightarrow> rat option" where
  "wait_ratio rnd now m p s =
     (let allocation = (if sg_allocation s > 0 then sg_allocation s else rnd (1 / 100))
      in map_option (\<lambda>t. rnd (of_int (now - t) / allocation)) (last_completion m p s))"

text \<open>The loop: the best strategy so far with its ratio.\<close>

primrec most_starved :: "(strategy \<Rightarrow> rat option) \<Rightarrow> strategy list \<Rightarrow> (strategy \<times> rat) option \<Rightarrow> (strategy \<times> rat) option" where
  "most_starved ratio [] best = best"
| "most_starved ratio (s # ss) best = most_starved ratio ss (case ratio s of
     None \<Rightarrow> best
   | Some r \<Rightarrow> (case best of None \<Rightarrow> Some (s, r) | Some (b, r') \<Rightarrow> if r > r' then Some (s, r) else best))"

definition eligible :: "portfolio \<Rightarrow> strategy list" where
  "eligible p = filter (\<lambda>s. \<not> is_wait_strategy s) (filter running (pf_strategies p))"

definition select_next_strategy_for_task ::
  "(rat \<Rightarrow> rat) \<Rightarrow> int \<Rightarrow> manager \<Rightarrow> string \<Rightarrow> store \<Rightarrow> (string \<times> rat) option result \<times> store" where
  "select_next_strategy_for_task rnd now m g st = (case get_portfolio g st of
     (Inl e, st1) \<Rightarrow> (Inl e, st1)
   | (Inr None, st1) \<Rightarrow> (Inr None, st1)
   | (Inr (Some p), st1) \<Rightarrow>
       (Inr (map_option (\<lambda>(s, r). (sg_id s, r)) (most_starved (wait_ratio rnd now m p) (eligible p) None)), st1))"

text \<open>Across goals: the goals by saturation; one whose share is missing or not positive is passed over.\<close>

definition normalize_goal_allocation :: "rat option \<Rightarrow> rat \<Rightarrow> rat option" where
  "normalize_goal_allocation a fallback =
     (let x = nullish a fallback in if x \<le> 0 \<or> x > of_int max_safe_integer then None else Some x)"

definition scored_goals :: "(rat \<Rightarrow> rat) \<Rightarrow> string list \<Rightarrow> (string, rat) table \<Rightarrow> (string, nat) table \<Rightarrow> (string \<times> rat) list" where
  "scored_goals rnd goals allocations counts =
     List.map_filter (\<lambda>g. map_option (\<lambda>a. (g, rnd (of_nat (nullish (table_get counts g) 0) / a)))
       (normalize_goal_allocation (table_get allocations g) (rnd (1 / of_nat (length goals))))) goals"

primrec first_selected ::
  "(string \<Rightarrow> store \<Rightarrow> (string \<times> rat) option result \<times> store) \<Rightarrow> (string, rat) table \<Rightarrow> (string \<times> rat) list \<Rightarrow> store \<Rightarrow>
   (string \<times> string) option result \<times> store" where
  "first_selected select allocations [] st = (Inr None, st)"
| "first_selected select allocations (x # xs) st =
     (if nullish (table_get allocations (fst x)) 0 \<le> 0 then first_selected select allocations xs st
      else case select (fst x) st of
        (Inl e, st1) \<Rightarrow> (Inl e, st1)
      | (Inr None, st1) \<Rightarrow> first_selected select allocations xs st1
      | (Inr (Some (i, r)), st1) \<Rightarrow> (Inr (Some (fst x, i)), st1))"

definition select_next_strategy_across_goals ::
  "(rat \<Rightarrow> rat) \<Rightarrow> int \<Rightarrow> manager \<Rightarrow> string list \<Rightarrow> (string, rat) table \<Rightarrow> store \<Rightarrow> (string \<times> string) option result \<times> store" where
  "select_next_strategy_across_goals rnd now m goals allocations st =
     (if goals = [] then (Inr None, st)
      else first_selected (select_next_strategy_for_task rnd now m) allocations
             (sort_key snd (scored_goals rnd goals allocations (mg_goalTaskCounts m))) st)"

section \<open>Effectiveness\<close>

definition gap_delta :: "(rat \<Rightarrow> rat) \<Rightarrow> (string \<Rightarrow> rat option) \<Rightarrow> strategy \<Rightarrow> rat" where
  "gap_delta rnd gap s = foldl (\<lambda>total d. case gap d of
       None \<Rightarrow> total
     | Some x \<Rightarrow> rnd (total + rnd (nullish (sg_gap_snapshot_at_start s) 1 - x))) 0 (sg_target_dimensions s)"

definition effectiveness ::
  "(rat \<Rightarrow> rat) \<Rightarrow> portfolio_config \<Rightarrow> (string \<Rightarrow> rat option) \<Rightarrow> timestamp \<Rightarrow> strategy \<Rightarrow> effectiveness_record" where
  "effectiveness rnd c gap now s =
     (let n = length (sg_tasks_generated s); d = gap_delta rnd gap s
      in \<lparr>er_strategy_id = sg_id s, er_gap_delta_attributed = d, er_sessions_consumed = n,
          er_effectiveness_score = (if of_nat n \<ge> pc_effectiveness_min_tasks c
            then Some (if n > 0 then rnd (d / of_nat n) else 0) else None),
          er_last_calculated_at = now\<rparr>)"

definition calculate_effectiveness ::
  "(rat \<Rightarrow> rat) \<Rightarrow> portfolio_config \<Rightarrow> (string \<Rightarrow> rat option) \<Rightarrow> timestamp \<Rightarrow> portfolio option \<Rightarrow> effectiveness_record list" where
  "calculate_effectiveness rnd c gap now p = (case p of
     None \<Rightarrow> [] | Some p \<Rightarrow> map (effectiveness rnd c gap now) (filter running (pf_strategies p)))"

definition score_changed :: "(rat \<Rightarrow> rat) \<Rightarrow> portfolio \<Rightarrow> effectiveness_record \<Rightarrow> bool" where
  "score_changed rnd p r = (case er_effectiveness_score r of
     None \<Rightarrow> False
   | Some new \<Rightarrow> (case find_strategy (er_strategy_id r) (rev (pf_strategies p)) of
       None \<Rightarrow> False
     | Some s \<Rightarrow> (case sg_effectiveness_score s of
         None \<Rightarrow> False
       | Some old \<Rightarrow> old \<noteq> 0 \<and> \<bar>rnd (rnd (new - old) / old)\<bar> \<ge> 1 / 2)))"

definition should_rebalance ::
  "(rat \<Rightarrow> rat) \<Rightarrow> portfolio_config \<Rightarrow> (string \<Rightarrow> rat option) \<Rightarrow> int \<Rightarrow> manager \<Rightarrow> string \<Rightarrow> store \<Rightarrow>
   rebalance_trigger option result \<times> store" where
  "should_rebalance rnd c gap now m g st =
     (let lst = nullish (table_get (mg_lastRebalanceTime m) g) 0;
          interval = rnd (rnd (rnd (pc_rebalance_interval_hours c * 60) * 60) * 1000)
      in if lst > 0 \<and> of_int (now - lst) \<ge> interval
         then (Inr (Some \<lparr>tg_type = Tg_Periodic, tg_strategy_id = None\<rparr>), st)
         else case get_portfolio g st of
           (Inl e, st1) \<Rightarrow> (Inl e, st1)
         | (Inr None, st1) \<Rightarrow> (Inr None, st1)
         | (Inr (Some p), st1) \<Rightarrow>
             (Inr (if nullish (table_get (mg_rebalanceHistory m) g) [] = [] then None
                   else map_option (\<lambda>r. \<lparr>tg_type = Tg_Score_Change, tg_strategy_id = Some (er_strategy_id r)\<rparr>)
                     (find (score_changed rnd p) (calculate_effectiveness rnd c gap (Iso now) (Some p)))), st1))"

section \<open>Termination\<close>

definition count_consecutive_lowest :: "string \<Rightarrow> rebalance_result list \<Rightarrow> rat \<Rightarrow> nat" where
  "count_consecutive_lowest i history least =
     length (takeWhile (\<lambda>r. case find (\<lambda>a. aj_strategy_id a = i) (rr_adjustments r) of
        None \<Rightarrow> False | Some a \<Rightarrow> aj_new_allocation a \<le> least) (rev history))"

definition check_strategy_termination ::
  "(rat \<Rightarrow> rat) \<Rightarrow> portfolio_config \<Rightarrow> manager \<Rightarrow> effectiveness_record list \<Rightarrow> strategy \<Rightarrow> bool" where
  "check_strategy_termination rnd c m records s =
     (let consumed = of_nat (length (sg_tasks_generated s)); estimated = of_int (re_sessions (sg_resource_estimate s))
      in if of_int (sg_consecutive_stall_count s) \<ge> pc_termination_stall_count c then True
         else if estimated > 0 \<and> consumed > rnd (estimated * pc_termination_resource_multiplier c) then True
         else if sg_allocation s \<le> pc_min_allocation c then
           (case find (\<lambda>r. er_strategy_id r = sg_id s) records of
              None \<Rightarrow> False
            | Some r \<Rightarrow> (case er_effectiveness_score r of
                None \<Rightarrow> False
              | Some x \<Rightarrow>
                  (let others = List.map_filter (\<lambda>r. if er_strategy_id r \<noteq> sg_id s then er_effectiveness_score r else None) records
                   in others \<noteq> [] \<and> list_all (\<lambda>y. y \<ge> x) others \<and>
                      of_nat (count_consecutive_lowest (sg_id s) (nullish (table_get (mg_rebalanceHistory m) (sg_goal_id s)) [])
                        (pc_min_allocation c)) \<ge> pc_termination_min_rebalances c)))
         else False)"

section \<open>New shares\<close>

text \<open>Changes of no more than a thousandth are not made.\<close>

definition adjust_share :: "(rat \<Rightarrow> rat) \<Rightarrow> strategy \<Rightarrow> rat \<Rightarrow> adjustment list" where
  "adjust_share rnd s new =
     (if \<bar>rnd (new - sg_allocation s)\<bar> > rnd (1 / 1000)
      then [\<lparr>aj_strategy_id = sg_id s, aj_old_allocation = sg_allocation s, aj_new_allocation = new\<rparr>] else [])"

definition score_of :: "effectiveness_record list \<Rightarrow> strategy \<Rightarrow> rat" where
  "score_of records s = (case find (\<lambda>r. er_strategy_id r = sg_id s) records of
     None \<Rightarrow> 0 | Some r \<Rightarrow> nullish (er_effectiveness_score r) 0)"

definition redistribute_freed ::
  "(rat \<Rightarrow> rat) \<Rightarrow> portfolio_config \<Rightarrow> strategy list \<Rightarrow> effectiveness_record list \<Rightarrow> rat \<Rightarrow> adjustment list" where
  "redistribute_freed rnd c remaining records freed =
     (if remaining = [] \<or> freed \<le> 0 then []
      else let total = js_sum rnd (map (\<lambda>s. max (score_of records s) 0) remaining);
               share = (\<lambda>s. if total > 0 then rnd (max (score_of records s) 0 / total) else rnd (1 / of_nat (length remaining)))
           in concat (map (\<lambda>s. adjust_share rnd s
                (min (pc_max_allocation c) (rnd (sg_allocation s + rnd (freed * share s))))) remaining))"

definition positive_score :: "effectiveness_record \<Rightarrow> rat" where
  "positive_score r = max (nullish (er_effectiveness_score r) 0) 0"

definition target_share :: "(rat \<Rightarrow> rat) \<Rightarrow> portfolio_config \<Rightarrow> rat \<Rightarrow> effectiveness_record \<Rightarrow> rat" where
  "target_share rnd c whole r = max (pc_min_allocation c) (min (pc_max_allocation c) (rnd (positive_score r / whole)))"

definition target_shares ::
  "(rat \<Rightarrow> rat) \<Rightarrow> portfolio_config \<Rightarrow> strategy list \<Rightarrow> effectiveness_record list \<Rightarrow> rat \<Rightarrow> (string, rat) table" where
  "target_shares rnd c strategies ordered whole =
     foldl (\<lambda>t r. if find_strategy (er_strategy_id r) strategies = None then t
                  else table_put (er_strategy_id r) (target_share rnd c whole r) t) [] ordered"

definition normalized_shares :: "(rat \<Rightarrow> rat) \<Rightarrow> portfolio_config \<Rightarrow> (string, rat) table \<Rightarrow> (string, rat) table" where
  "normalized_shares rnd c t =
     (let raw = js_sum rnd (map snd t)
      in if raw > 0 \<and> \<bar>rnd (raw - 1)\<bar> > rnd (1 / 1000)
         then map (\<lambda>(i, a). (i, max (pc_min_allocation c) (rnd (a * rnd (1 / raw))))) t else t)"

definition adjust_allocations ::
  "(rat \<Rightarrow> rat) \<Rightarrow> portfolio_config \<Rightarrow> strategy list \<Rightarrow> effectiveness_record list \<Rightarrow> adjustment list" where
  "adjust_allocations rnd c strategies scored =
     (let ordered = sort_key (\<lambda>r. - nullish (er_effectiveness_score r) 0) scored;
          whole = js_sum rnd (map positive_score ordered)
      in if whole \<le> 0 then []
         else concat (map (\<lambda>(i, a). case find_strategy i strategies of None \<Rightarrow> [] | Some s \<Rightarrow> adjust_share rnd s a)
                (normalized_shares rnd c (target_shares rnd c strategies ordered whole))))"

section \<open>Writing the shares\<close>

text \<open>
  \<open>rebalance\<close> starts one write per adjustment and waits for none of them. Each loads the portfolio, and saves it
  later with its own change. \<open>Load_At k\<close> and \<open>Save_At k\<close> are the two halves of the \<open>k\<close>th write; a rejected write is dropped.
  The calls run in the order of their start up to the first \<open>await\<close>, so all of them load before the first one saves.
\<close>

datatype write_step = Load_At nat | Save_At nat

fun write_share ::
  "string \<Rightarrow> adjustment list \<Rightarrow> write_step \<Rightarrow> (nat, portfolio) table \<times> store \<Rightarrow> (nat, portfolio) table \<times> store" where
  "write_share g as (Load_At k) (seen, st) = (case get_portfolio g st of
     (Inr (Some p), st1) \<Rightarrow> (table_put k p seen, st1)
   | (_, st1) \<Rightarrow> (seen, st1))"
| "write_share g as (Save_At k) (seen, st) = (case table_get seen k of
     None \<Rightarrow> (seen, st)
   | Some p \<Rightarrow>
       (case parse_strategies (map (\<lambda>s. if sg_id s = aj_strategy_id (as ! k) then s\<lparr>sg_allocation := aj_new_allocation (as ! k)\<rparr> else s)
               (pf_strategies p)) of
          Inl e \<Rightarrow> (seen, st)
        | Inr ss \<Rightarrow> (seen, snd (save_portfolio g (p\<lparr>pf_strategies := ss\<rparr>) st))))"

definition overlapping :: "nat \<Rightarrow> write_step list" where
  "overlapping n = map Load_At [0..<n] @ map Save_At [0..<n]"

definition one_by_one :: "nat \<Rightarrow> write_step list" where
  "one_by_one n = concat (map (\<lambda>k. [Load_At k, Save_At k]) [0..<n])"

definition write_shares :: "string \<Rightarrow> adjustment list \<Rightarrow> write_step list \<Rightarrow> store \<Rightarrow> store" where
  "write_shares g as steps st = snd (fold (write_share g as) steps ([], st))"

section \<open>Rebalancing\<close>

primrec terminate_all ::
  "(strategy \<Rightarrow> bool) \<Rightarrow> string list \<Rightarrow> timestamp \<Rightarrow> strategy list \<Rightarrow> store \<Rightarrow> string list result \<times> store" where
  "terminate_all check goals now [] st = (Inr [], st)"
| "terminate_all check goals now (s # ss) st =
     (if \<not> check s then terminate_all check goals now ss st
      else case update_state goals (sg_id s) St_Terminated None now id st of
        (Inl e, st1) \<Rightarrow> (Inl e, st1)
      | (Inr _, st1) \<Rightarrow> (case terminate_all check goals now ss st1 of
          (Inl e, st2) \<Rightarrow> (Inl e, st2)
        | (Inr ids, st2) \<Rightarrow> (Inr (sg_id s # ids), st2)))"

definition record_rebalance :: "string \<Rightarrow> int \<Rightarrow> rebalance_result \<Rightarrow> manager \<Rightarrow> manager" where
  "record_rebalance g now r m =
     m\<lparr>mg_lastRebalanceTime := table_put g now (mg_lastRebalanceTime m),
       mg_rebalanceHistory := table_put g (nullish (table_get (mg_rebalanceHistory m) g) [] @ [r]) (mg_rebalanceHistory m)\<rparr>"

definition rebalance_adjustments ::
  "(rat \<Rightarrow> rat) \<Rightarrow> portfolio_config \<Rightarrow> strategy list \<Rightarrow> string list \<Rightarrow> effectiveness_record list \<Rightarrow> adjustment list" where
  "rebalance_adjustments rnd c active gone records =
     (let remaining = filter (\<lambda>s. sg_id s \<notin> set gone) active;
          freed = js_sum rnd (map (\<lambda>i. case find_strategy i active of Some s \<Rightarrow> sg_allocation s | None \<Rightarrow> 0) gone);
          shared = (if gone \<noteq> [] \<and> remaining \<noteq> [] then redistribute_freed rnd c remaining records freed else []);
          scored = filter (\<lambda>r. er_effectiveness_score r \<noteq> None \<and> list_ex (\<lambda>s. sg_id s = er_strategy_id r) remaining) records;
          scores = List.map_filter er_effectiveness_score scored
      in shared @
         (if length scored \<ge> 2 \<and> js_min scores > 0 \<and> rnd (js_max scores / js_min scores) \<ge> pc_score_ratio_threshold c
          then adjust_allocations rnd c remaining scored else []))"

text \<open>
  The result, the manager and the rows; \<open>steps n\<close> is the order in which \<open>n\<close> writes take place. Saving the history of rebalances as rows
  for readers outside is left out.
\<close>

definition rebalance ::
  "(rat \<Rightarrow> rat) \<Rightarrow> portfolio_config \<Rightarrow> (string \<Rightarrow> rat option) \<Rightarrow> string list \<Rightarrow> int \<Rightarrow> (nat \<Rightarrow> write_step list) \<Rightarrow> string \<Rightarrow>
   rebalance_trigger \<Rightarrow> manager \<Rightarrow> store \<Rightarrow> rebalance_result result \<times> manager \<times> store" where
  "rebalance rnd c gap goals now steps g trigger m st =
     (let result = \<lparr>rr_triggered_by = tg_type trigger, rr_timestamp = Iso now, rr_adjustments = [], rr_terminated_strategies = [],
                    rr_new_generation_needed = False\<rparr>
      in case get_portfolio g st of
        (Inl e, st1) \<Rightarrow> (Inl e, m, st1)
      | (Inr None, st1) \<Rightarrow> (Inr result, record_rebalance g now result m, st1)
      | (Inr (Some p), st1) \<Rightarrow>
          (let records = calculate_effectiveness rnd c gap (Iso now) (Some p);
               active = filter running (pf_strategies p)
           in case terminate_all (check_strategy_termination rnd c m records) goals (Iso now) active st1 of
                (Inl e, st2) \<Rightarrow> (Inl e, m, st2)
              | (Inr gone, st2) \<Rightarrow>
                  if filter (\<lambda>s. sg_id s \<notin> set gone) active = [] \<and> gone \<noteq> []
                  then (let r = result\<lparr>rr_terminated_strategies := gone, rr_new_generation_needed := True\<rparr>
                        in (Inr r, record_rebalance g now r m, st2))
                  else (let as = rebalance_adjustments rnd c active gone records;
                            r = result\<lparr>rr_terminated_strategies := gone, rr_adjustments := as\<rparr>
                        in (Inr r, record_rebalance g now r m, write_shares g as (steps (length as)) st2))))"

text \<open>\<open>calculateInitialAllocations\<close>.\<close>

definition calculate_initial_allocations :: "(rat \<Rightarrow> rat) \<Rightarrow> portfolio_config \<Rightarrow> nat \<Rightarrow> rat list" where
  "calculate_initial_allocations rnd c n =
     (if n = 1 then [1]
      else let bounded = (\<lambda>x. max (pc_min_allocation c) (min (pc_max_allocation c) x));
               as = replicate n (bounded (rnd (1 / of_nat n)));
               total = js_sum rnd as
           in if total > 0 \<and> \<bar>rnd (total - 1)\<bar> > rnd (1 / 1000)
              then (let bs = map (\<lambda>a. bounded (rnd (a * rnd (1 / total)))) as
                    in butlast bs @ [max (pc_min_allocation c) (rnd (1 - js_sum rnd (butlast bs)))])
              else as)"

section \<open>The most starved strategy\<close>

lemma most_starved_spec:
  assumes "most_starved ratio ss best = r" "\<forall>b x. best = Some (b, x) \<longrightarrow> ratio b = Some x"
  shows "case r of
      None \<Rightarrow> best = None \<and> (\<forall>s \<in> set ss. ratio s = None)
    | Some (b, x) \<Rightarrow> ratio b = Some x \<and> (b \<in> set ss \<or> best = Some (b, x)) \<and>
        (\<forall>s \<in> set ss. \<forall>y. ratio s = Some y \<longrightarrow> y \<le> x) \<and> (\<forall>b' y. best = Some (b', y) \<longrightarrow> y \<le> x)"
  using assms
proof (induction ss arbitrary: best)
  case Nil
  then show ?case by (auto split: option.split)
next
  case (Cons s ss)
  let ?best = "case ratio s of None \<Rightarrow> best
     | Some y \<Rightarrow> (case best of None \<Rightarrow> Some (s, y) | Some (b, y') \<Rightarrow> if y > y' then Some (s, y) else best)"
  have known: "\<forall>b x. ?best = Some (b, x) \<longrightarrow> ratio b = Some x"
    using Cons.prems(2) by (auto split: option.splits if_splits)
  have "most_starved ratio ss ?best = r" using Cons.prems(1) by simp
  from Cons.IH[OF this known] show ?case
    using Cons.prems(2) by (cases r) (fastforce split: option.splits if_splits)+
qed

text \<open>
  The strategy that is selected for the next task runs, is no wait, and has waited longest for its share: no other one
  that is eligible has a higher ratio. None is selected only if the time of every eligible strategy is unknown.
\<close>

lemma most_starved_is_selected:
  assumes "table_get (sr_portfolios st) g = Some p" "store_ok st"
    and "select_next_strategy_for_task rnd now m g st = (r, st')"
  shows "\<exists>c. r = Inr c \<and> sr_portfolios st' = sr_portfolios st \<and> (case c of
      None \<Rightarrow> \<forall>s \<in> set (pf_strategies p). running s \<and> \<not> is_wait_strategy s \<longrightarrow> last_completion m p s = None
    | Some (i, x) \<Rightarrow> \<exists>s \<in> set (pf_strategies p). sg_id s = i \<and> running s \<and> \<not> is_wait_strategy s \<and> wait_ratio rnd now m p s = Some x \<and>
        (\<forall>t \<in> set (pf_strategies p). running t \<and> \<not> is_wait_strategy t \<longrightarrow> (\<forall>y. wait_ratio rnd now m p t = Some y \<longrightarrow> y \<le> x)))"
proof -
  have "portfolio_valid p" using assms(1,2) by (auto simp: store_ok_def strategies_ok_def portfolio_valid_def)
  then have r: "r = Inr (map_option (\<lambda>(s, x). (sg_id s, x)) (most_starved (wait_ratio rnd now m p) (eligible p) None))"
    "sr_portfolios st' = sr_portfolios st"
    using assms(1,3) by (auto simp: select_next_strategy_for_task_def get_portfolio_def)
  have el: "s \<in> set (eligible p) \<longleftrightarrow> s \<in> set (pf_strategies p) \<and> running s \<and> \<not> is_wait_strategy s" for s
    by (auto simp: eligible_def)
  show ?thesis
  proof (cases "most_starved (wait_ratio rnd now m p) (eligible p) None")
    case None
    then have "\<forall>s \<in> set (eligible p). wait_ratio rnd now m p s = None" using most_starved_spec[OF None] by simp
    then show ?thesis using r None by (auto simp: el wait_ratio_def Let_def)
  next
    case (Some c)
    obtain s x where c: "c = (s, x)" by (cases c)
    have "s \<in> set (eligible p)" "wait_ratio rnd now m p s = Some x"
      "\<forall>t \<in> set (eligible p). \<forall>y. wait_ratio rnd now m p t = Some y \<longrightarrow> y \<le> x"
      using most_starved_spec[OF Some[unfolded c]] by auto
    then show ?thesis using r Some c by (auto simp: el intro!: bexI[of _ s])
  qed
qed

section \<open>What a rebalance terminates\<close>

definition indexed :: "string \<Rightarrow> store \<Rightarrow> string \<Rightarrow> bool" where
  "indexed g st i \<longleftrightarrow> table_get (sr_index st) i = Some g"

lemma indexed_rows [simp]: "indexed g (st\<lparr>sr_portfolios := ps\<rparr>) i = indexed g st i"
  by (simp add: indexed_def)

lemma index_all_indexed: "indexed g (index_all g ss st) i \<longleftrightarrow> i \<in> sg_id ` set ss \<or> indexed g st i"
proof -
  have "table_get (fold (\<lambda>s. table_put (sg_id s) g) ss t) i = (if i \<in> sg_id ` set ss then Some g else table_get t i)" for t
    by (induction ss arbitrary: t) (auto simp: table_get_put)
  then show ?thesis by (simp add: indexed_def index_all_def)
qed

definition is_archived :: "string \<Rightarrow> store \<Rightarrow> string \<Rightarrow> bool" where
  "is_archived g st i \<longleftrightarrow> i \<in> sg_id ` set (nullish (table_get (sr_history st) g) [])"

definition ended :: "timestamp \<Rightarrow> strategy \<Rightarrow> strategy" where
  "ended now s = s\<lparr>sg_state := St_Terminated, sg_completed_at := Some now\<rparr>"

lemma update_state_ends:
  assumes "store_ok st" "g \<noteq> []" "table_get (sr_portfolios st) g = Some q" "find_strategy i (pf_strategies q) = Some s" "running s"
    and "indexed g st i"
  shows "\<exists>st'. update_state goals i St_Terminated None now id st = (Inr (), st') \<and> store_ok st' \<and>
    table_get (sr_portfolios st') g = Some (q\<lparr>pf_strategies := replace_strategy i (ended now s) (pf_strategies q)\<rparr>) \<and>
    (\<forall>j. indexed g st j \<longrightarrow> indexed g st' j) \<and> is_archived g st' i \<and> (\<forall>j. is_archived g st j \<longrightarrow> is_archived g st' j)"
proof -
  have ok: "strategies_ok (pf_strategies q)" using assms(1,3) by (simp add: store_ok_def)
  have s: "s \<in> set (pf_strategies q)" "sg_id s = i" using find_strategyD[OF assms(4)] by auto
  have valid: "strategy_valid (ended now s)" using s(1) ok by (auto simp: ended_def strategies_ok_def list_all_iff strategy_valid_def)
  have new: "list_all strategy_valid (replace_strategy i (ended now s) (pf_strategies q))"
    using ok valid by (auto simp: replace_strategy_def strategies_ok_def list_all_iff)
  have step: "St_Terminated \<in> set (valid_transitions (sg_state s))" using assms(5) by (auto simp: running_def)
  have f: "transitioned i St_Terminated None now q = Inr (ended now s, replace_strategy i (ended now s) (pf_strategies q))"
    using valid step by (simp add: transitioned_def assms(4) ended_def finished_def)
  define st1 where "st1 = snd (edit_portfolio now g id (transitioned i St_Terminated None now) st)"
  have edit: "edit_portfolio now g id (transitioned i St_Terminated None now) st = (Inr (ended now s), st1)"
    "table_get (sr_portfolios st1) g = Some (q\<lparr>pf_strategies := replace_strategy i (ended now s) (pf_strategies q)\<rparr>)"
    "sr_history st1 = sr_history st"
    using edit_portfolio_saves[where f = "transitioned i St_Terminated None now" and now = now, OF assms(1,3) f new]
    by (auto simp: st1_def table_get_put)
  have q: "portfolio_valid q" "portfolio_valid (q\<lparr>pf_strategies := replace_strategy i (ended now s) (pf_strategies q)\<rparr>)"
    using ok new by (simp_all add: portfolio_valid_def strategies_ok_def)
  have index1: "indexed g st1 j" if "indexed g st j" for j
    using that q assms(3) f
    by (simp add: st1_def edit_portfolio_def load_or_create_portfolio_def get_portfolio_def save_portfolio_def index_all_indexed)
  have ok1: "store_ok st1"
    using edit_in_place_keeps[of "transitioned i St_Terminated None now" st now g, OF transitioned_in_place] assms(1)
    by (auto simp: keeps_def st1_def)
  have h: "strategies_ok (nullish (table_get (sr_history st1) g) [])"
    using ok1 by (cases "table_get (sr_history st1) g") (auto simp: store_ok_def strategies_ok_def)
  note rop = replace_or_push_ok[OF h valid]
  define st2 where "st2 = st1\<lparr>sr_history := table_put g (replace_or_push (ended now s) (nullish (table_get (sr_history st1) g) [])) (sr_history st1)\<rparr>"
  have append: "append_to_history g (ended now s) st1 = (Inr (), st2)"
    using h rop by (simp add: append_to_history_def get_strategy_history_def save_strategy_history_def strategies_ok_def st2_def)
  have ok2: "store_ok st2" using append_to_history_keeps[of st1 g "ended now s"] ok1 by (simp add: append keeps_def)
  have resolve: "resolve_goal_id goals i st = (Inr (Some g), st)"
    using assms(2,6) by (simp add: resolve_goal_id_def indexed_def)
  have "update_state goals i St_Terminated None now id st = (Inr (), st2)"
    using assms(2) by (simp add: update_state_def resolve edit(1) finished_def append)
  moreover have "indexed g st2 j" if "indexed g st j" for j using index1[OF that] by (simp add: indexed_def st2_def)
  moreover have "is_archived g st2 j \<longleftrightarrow> j = i \<or> is_archived g st j" for j
    using rop edit(3) s(2) by (simp add: is_archived_def st2_def table_get_put ended_def)
  ultimately show ?thesis using ok2 edit(2) by (auto simp: st2_def)
qed

lemma replace_ended:
  assumes "strategies_ok ss" "find_strategy i ss = Some s"
  shows "replace_strategy i (ended now s) ss = map (\<lambda>t. if sg_id t = i then ended now t else t) ss"
  unfolding replace_strategy_def using find_strategy_unique[OF assms] by (intro map_cong) auto

lemma terminate_all_spec:
  assumes "store_ok st" "g \<noteq> []" "table_get (sr_portfolios st) g = Some q" "distinct (map sg_id xs)"
    and "\<forall>s \<in> set xs. find_strategy (sg_id s) (pf_strategies q) = Some s \<and> running s \<and> indexed g st (sg_id s)"
  shows "\<exists>st'. terminate_all check goals now xs st = (Inr (map sg_id (filter check xs)), st') \<and> store_ok st' \<and>
    table_get (sr_portfolios st') g = Some (q\<lparr>pf_strategies :=
      map (\<lambda>t. if sg_id t \<in> sg_id ` set (filter check xs) then ended now t else t) (pf_strategies q)\<rparr>) \<and>
    (\<forall>i \<in> sg_id ` set (filter check xs). is_archived g st' i) \<and> (\<forall>i. is_archived g st i \<longrightarrow> is_archived g st' i)"
  using assms(1,3-)
proof (induction xs arbitrary: st q)
  case Nil
  then show ?case by simp
next
  case (Cons s xs)
  have ok: "strategies_ok (pf_strategies q)" using Cons.prems(1,2) by (simp add: store_ok_def)
  show ?case
  proof (cases "check s")
    case False
    then show ?thesis using Cons.IH[OF Cons.prems(1,2)] Cons.prems(3,4) by simp
  next
    case True
    let ?up = "\<lambda>t. if sg_id t = sg_id s then ended now t else t"
    have s: "find_strategy (sg_id s) (pf_strategies q) = Some s" "running s" "indexed g st (sg_id s)" using Cons.prems(4) by auto
    obtain st1 where st1: "update_state goals (sg_id s) St_Terminated None now id st = (Inr (), st1)" "store_ok st1"
      "table_get (sr_portfolios st1) g = Some (q\<lparr>pf_strategies := map ?up (pf_strategies q)\<rparr>)"
      "\<forall>j. indexed g st j \<longrightarrow> indexed g st1 j" "is_archived g st1 (sg_id s)" "\<forall>j. is_archived g st j \<longrightarrow> is_archived g st1 j"
      using update_state_ends[OF Cons.prems(1) assms(2) Cons.prems(2) s] unfolding replace_ended[OF ok s(1)] by blast
    have ids: "sg_id (?up t) = sg_id t" for t by (simp add: ended_def)
    have rest: "\<forall>t \<in> set xs. find_strategy (sg_id t) (map ?up (pf_strategies q)) = Some t \<and> running t \<and> indexed g st1 (sg_id t)"
    proof
      fix t assume t: "t \<in> set xs"
      have other: "sg_id t \<noteq> sg_id s" using Cons.prems(3) t by (metis distinct.simps(2) image_eqI image_set list.simps(9))
      have known: "find_strategy (sg_id t) (pf_strategies q) = Some t" "running t" "indexed g st1 (sg_id t)"
        using Cons.prems(4) st1(4) t by auto
      have "find_strategy (sg_id t) (map ?up (pf_strategies q)) = map_option ?up (Some t)"
        unfolding known(1)[symmetric] by (rule find_strategy_mapped[OF ids])
      then show "find_strategy (sg_id t) (map ?up (pf_strategies q)) = Some t \<and> running t \<and> indexed g st1 (sg_id t)"
        using other known(2,3) by simp
    qed
    have "distinct (map sg_id xs)" using Cons.prems(3) by simp
    from Cons.IH[OF st1(2,3) this] rest obtain st' where st': "terminate_all check goals now xs st1 = (Inr (map sg_id (filter check xs)), st')"
      "store_ok st'"
      "table_get (sr_portfolios st') g = Some (q\<lparr>pf_strategies :=
         map (\<lambda>t. if sg_id t \<in> sg_id ` set (filter check xs) then ended now t else t) (map ?up (pf_strategies q))\<rparr>)"
      "\<forall>i \<in> sg_id ` set (filter check xs). is_archived g st' i" "\<forall>i. is_archived g st1 i \<longrightarrow> is_archived g st' i"
      by auto
    have fresh: "sg_id s \<notin> sg_id ` set (filter check xs)" using Cons.prems(3) by auto
    have portfolio: "map (\<lambda>t. if sg_id t \<in> sg_id ` set (filter check xs) then ended now t else t) (map ?up (pf_strategies q)) =
        map (\<lambda>t. if sg_id t \<in> sg_id ` set (filter check (s # xs)) then ended now t else t) (pf_strategies q)"
      using True fresh unfolding map_map by (intro map_cong) (auto simp: ended_def)
    have run: "terminate_all check goals now (s # xs) st = (Inr (map sg_id (filter check (s # xs))), st')"
      using True st1(1) st'(1) by simp
    have archived: "\<forall>i \<in> sg_id ` set (filter check (s # xs)). is_archived g st' i"
      using True st1(5) st'(4,5) by simp
    have older: "\<forall>i. is_archived g st i \<longrightarrow> is_archived g st' i" using st1(6) st'(5) by blast
    show ?thesis
      using run st'(2) st'(3)[unfolded portfolio] archived older by blast
  qed
qed

definition same_but_shares :: "strategy list \<Rightarrow> strategy list \<Rightarrow> bool" where
  "same_but_shares ss ts \<longleftrightarrow> list_all2 (\<lambda>s t. \<exists>a. t = s\<lparr>sg_allocation := a\<rparr>) ss ts"

lemma same_but_shares_refl [simp]: "same_but_shares ss ss"
  unfolding same_but_shares_def by (intro list_all2_refl) (metis strategy.surjective strategy.update_convs(9))

lemma same_but_shares_map:
  assumes "same_but_shares ss ts" "share_change k"
  shows "same_but_shares ss (map k ts)"
  using assms(1) unfolding same_but_shares_def
proof (induction rule: list_all2_induct)
  case (Cons s ss t ts)
  obtain a where "t = s\<lparr>sg_allocation := a\<rparr>" using Cons.hyps by blast
  moreover obtain b where "k t = t\<lparr>sg_allocation := b\<rparr>" using assms(2) by (auto simp: share_change_def)
  ultimately have "k t = s\<lparr>sg_allocation := b\<rparr>" by simp
  then show ?case using Cons.IH by auto
qed simp

text \<open>In whatever order the writes take place, they change shares and nothing else.\<close>

lemma write_share_keeps:
  assumes "write_share g as step (seen, st) = (seen', st')"
    and "\<forall>k p. table_get seen k = Some p \<longrightarrow> same_but_shares ss (pf_strategies p)"
    and "\<exists>p. table_get (sr_portfolios st) g = Some p \<and> same_but_shares ss (pf_strategies p)"
  shows "(\<forall>k p. table_get seen' k = Some p \<longrightarrow> same_but_shares ss (pf_strategies p)) \<and>
    (\<exists>p. table_get (sr_portfolios st') g = Some p \<and> same_but_shares ss (pf_strategies p)) \<and> sr_history st' = sr_history st"
proof (cases step)
  case (Load_At k)
  show ?thesis
    using assms by (auto simp: Load_At get_portfolio_def table_get_put split: option.splits if_splits)
next
  case (Save_At k)
  show ?thesis
  proof (cases "table_get seen k")
    case None
    then show ?thesis using assms by (auto simp: Save_At)
  next
    case (Some p)
    let ?k = "\<lambda>s. if sg_id s = aj_strategy_id (as ! k) then s\<lparr>sg_allocation := aj_new_allocation (as ! k)\<rparr> else s"
    have "same_but_shares ss (map ?k (pf_strategies p))" using assms(2) Some by (intro same_but_shares_map) auto
    then show ?thesis
      using assms by (auto simp: Save_At Some save_portfolio_def table_get_put split: sum.splits if_splits)
  qed
qed

lemma write_shares_keep:
  assumes "table_get (sr_portfolios st) g = Some p"
  shows "\<exists>q. table_get (sr_portfolios (write_shares g as steps st)) g = Some q \<and> same_but_shares (pf_strategies p) (pf_strategies q) \<and>
    sr_history (write_shares g as steps st) = sr_history st"
proof -
  have "(\<forall>k p. table_get (fst (fold (write_share g as) steps (seen, st))) k = Some p \<longrightarrow> same_but_shares ss (pf_strategies p)) \<and>
      (\<exists>q. table_get (sr_portfolios (snd (fold (write_share g as) steps (seen, st)))) g = Some q \<and> same_but_shares ss (pf_strategies q)) \<and>
      sr_history (snd (fold (write_share g as) steps (seen, st))) = sr_history st"
    if "\<forall>k p. table_get seen k = Some p \<longrightarrow> same_but_shares ss (pf_strategies p)"
      "\<exists>q. table_get (sr_portfolios st) g = Some q \<and> same_but_shares ss (pf_strategies q)" for seen ss
    using that
  proof (induction steps arbitrary: seen st)
    case (Cons x xs)
    obtain seen1 st1 where one: "write_share g as x (seen, st) = (seen1, st1)" by (cases "write_share g as x (seen, st)")
    from write_share_keeps[OF one Cons.prems] Cons.IH[of seen1 st1] show ?case by (simp add: one)
  qed simp
  from this[of "[]" "pf_strategies p"] assms show ?thesis by (auto simp: write_shares_def)
qed

lemma same_but_shares_find:
  assumes "same_but_shares ss ts" "find_strategy i ss = Some s"
  shows "\<exists>a. find_strategy i ts = Some (s\<lparr>sg_allocation := a\<rparr>)"
  using assms unfolding same_but_shares_def
  by (induction rule: list_all2_induct) (auto simp: find_strategy_def split: if_splits)

lemma find_strategy_own:
  assumes "strategies_ok ss" "s \<in> set ss"
  shows "find_strategy (sg_id s) ss = Some s"
proof (cases "find_strategy (sg_id s) ss")
  case None
  then show ?thesis using assms(2) by (auto simp: find_strategy_def find_None_iff)
next
  case (Some t)
  then show ?thesis using find_strategy_unique[OF assms(1) Some assms(2) refl] by simp
qed

abbreviation doomed ::
  "(rat \<Rightarrow> rat) \<Rightarrow> portfolio_config \<Rightarrow> (string \<Rightarrow> rat option) \<Rightarrow> int \<Rightarrow> manager \<Rightarrow> portfolio \<Rightarrow> strategy \<Rightarrow> bool" where
  "doomed rnd c gap now m p \<equiv> check_strategy_termination rnd c m (calculate_effectiveness rnd c gap (Iso now) (Some p))"

lemma rebalance_outcome:
  assumes "store_ok st" "g \<noteq> []" "table_get (sr_portfolios st) g = Some p"
    and "rebalance rnd c gap goals now steps g trigger m st = (r, m', st')"
  defines "gone \<equiv> filter (doomed rnd c gap now m p) (filter running (pf_strategies p))"
  shows "\<exists>res q. r = Inr res \<and> table_get (sr_portfolios st') g = Some q \<and> rr_terminated_strategies res = map sg_id gone \<and>
    (rr_new_generation_needed res \<longleftrightarrow> gone \<noteq> [] \<and>
       filter (\<lambda>s. sg_id s \<notin> set (map sg_id gone)) (filter running (pf_strategies p)) = []) \<and>
    same_but_shares (map (\<lambda>t. if sg_id t \<in> sg_id ` set gone then ended (Iso now) t else t) (pf_strategies p)) (pf_strategies q) \<and>
    (\<forall>i \<in> sg_id ` set gone. is_archived g st' i)"
proof -
  let ?active = "filter running (pf_strategies p)"
  let ?st1 = "index_all g (pf_strategies p) st"
  let ?ended = "map (\<lambda>t. if sg_id t \<in> sg_id ` set gone then ended (Iso now) t else t) (pf_strategies p)"
  have ok: "strategies_ok (pf_strategies p)" using assms(1,3) by (simp add: store_ok_def)
  then have get: "get_portfolio g st = (Inr (Some p), ?st1)"
    using assms(3) by (simp add: get_portfolio_def portfolio_valid_def strategies_ok_def)
  have st1: "store_ok ?st1" "table_get (sr_portfolios ?st1) g = Some p" using assms(1,3) by (simp_all add: store_ok_def)
  have ids: "distinct (map sg_id ?active)" using ok by (auto simp: strategies_ok_def distinct_map intro: inj_on_subset)
  have all: "\<forall>s \<in> set ?active. find_strategy (sg_id s) (pf_strategies p) = Some s \<and> running s \<and> indexed g ?st1 (sg_id s)"
    using find_strategy_own[OF ok] by (simp add: index_all_indexed)
  obtain st2 where st2: "terminate_all (doomed rnd c gap now m p) goals (Iso now) ?active ?st1 = (Inr (map sg_id gone), st2)"
    "table_get (sr_portfolios st2) g = Some (p\<lparr>pf_strategies := ?ended\<rparr>)" "\<forall>i \<in> sg_id ` set gone. is_archived g st2 i"
    using terminate_all_spec[OF st1(1) assms(2) st1(2) ids all, of "doomed rnd c gap now m p" goals "Iso now"]
    unfolding gone_def by blast
  let ?all = "filter (\<lambda>s. sg_id s \<notin> set (map sg_id gone)) ?active = [] \<and> map sg_id gone \<noteq> []"
  show ?thesis
  proof (cases ?all)
    case True
    let ?r = "\<lparr>rr_triggered_by = tg_type trigger, rr_timestamp = Iso now, rr_adjustments = [],
      rr_terminated_strategies = map sg_id gone, rr_new_generation_needed = True\<rparr>"
    have "rebalance rnd c gap goals now steps g trigger m st = (Inr ?r, record_rebalance g now ?r m, st2)"
      unfolding rebalance_def get using True by (simp add: st2(1) Let_def del: set_map)
    then have "r = Inr ?r" "st' = st2" using assms(4) by auto
    then show ?thesis using st2 True by auto
  next
    case False
    let ?as = "rebalance_adjustments rnd c ?active (map sg_id gone) (calculate_effectiveness rnd c gap (Iso now) (Some p))"
    let ?r = "\<lparr>rr_triggered_by = tg_type trigger, rr_timestamp = Iso now, rr_adjustments = ?as,
      rr_terminated_strategies = map sg_id gone, rr_new_generation_needed = False\<rparr>"
    let ?st3 = "write_shares g ?as (steps (length ?as)) st2"
    have "rebalance rnd c gap goals now steps g trigger m st = (Inr ?r, record_rebalance g now ?r m, ?st3)"
      unfolding rebalance_def get prod.case sum.case option.case Let_def st2(1) if_not_P[OF False] by simp
    then have r: "r = Inr ?r" "st' = ?st3" using assms(4) by auto
    obtain q where q: "table_get (sr_portfolios ?st3) g = Some q" "same_but_shares ?ended (pf_strategies q)"
      "sr_history ?st3 = sr_history st2"
      using write_shares_keep[OF st2(2), of ?as "steps (length ?as)"] by auto
    have "\<forall>i \<in> sg_id ` set gone. is_archived g ?st3 i" using st2(3) q(3) by (simp add: is_archived_def)
    then show ?thesis using r q(1,2) False by auto
  qed
qed

text \<open>
  C18. A rebalance ends the running strategies that meet a condition of termination, and no others: they are Terminated and in the
  history afterwards, every other strategy differs from before in its share at most, whatever the order in which the shares are written.
  A new generation is asked for exactly when all that ran have ended.
\<close>

theorem rebalance_ends_exactly_the_doomed:
  assumes "store_ok st" "g \<noteq> []" "table_get (sr_portfolios st) g = Some p"
    and "rebalance rnd c gap goals now steps g trigger m st = (r, m', st')" and "s \<in> set (pf_strategies p)"
  shows "\<exists>res q t a. r = Inr res \<and> table_get (sr_portfolios st') g = Some q \<and> find_strategy (sg_id s) (pf_strategies q) = Some t \<and>
    (if running s \<and> doomed rnd c gap now m p s
     then sg_id s \<in> set (rr_terminated_strategies res) \<and> t = ended (Iso now) s\<lparr>sg_allocation := a\<rparr> \<and> is_archived g st' (sg_id s)
     else sg_id s \<notin> set (rr_terminated_strategies res) \<and> t = s\<lparr>sg_allocation := a\<rparr>) \<and>
    (rr_new_generation_needed res \<longleftrightarrow> list_ex running (pf_strategies p) \<and>
       list_all (doomed rnd c gap now m p) (filter running (pf_strategies p)))"
proof -
  let ?gone = "filter (doomed rnd c gap now m p) (filter running (pf_strategies p))"
  let ?fin = "\<lambda>t. if sg_id t \<in> sg_id ` set ?gone then ended (Iso now) t else t"
  have ok: "strategies_ok (pf_strategies p)" using assms(1,3) by (simp add: store_ok_def)
  have same: "x = y" if "x \<in> set (pf_strategies p)" "y \<in> set (pf_strategies p)" "sg_id x = sg_id y" for x y
    using that ok by (auto simp: strategies_ok_def distinct_map dest: inj_onD)
  have mem: "sg_id x \<in> sg_id ` set ?gone \<longleftrightarrow> running x \<and> doomed rnd c gap now m p x" if "x \<in> set (pf_strategies p)" for x
  proof
    assume "sg_id x \<in> sg_id ` set ?gone"
    then obtain y where y: "y \<in> set ?gone" "sg_id x = sg_id y" by blast
    then have "x = y" by (intro same[OF that]) simp_all
    then show "running x \<and> doomed rnd c gap now m p x" using y(1) by simp
  qed (use that in simp)
  obtain res q where o: "r = Inr res" "table_get (sr_portfolios st') g = Some q" "rr_terminated_strategies res = map sg_id ?gone"
    "rr_new_generation_needed res \<longleftrightarrow> ?gone \<noteq> [] \<and> filter (\<lambda>s. sg_id s \<notin> set (map sg_id ?gone)) (filter running (pf_strategies p)) = []"
    "same_but_shares (map ?fin (pf_strategies p)) (pf_strategies q)" "\<forall>i \<in> sg_id ` set ?gone. is_archived g st' i"
    using rebalance_outcome[OF assms(1-4)] by blast
  have ids: "sg_id (?fin t) = sg_id t" for t by (simp add: ended_def)
  have "find_strategy (sg_id s) (map ?fin (pf_strategies p)) = map_option ?fin (Some s)"
    unfolding find_strategy_own[OF ok assms(5), symmetric] by (rule find_strategy_mapped[OF ids])
  then have "find_strategy (sg_id s) (map ?fin (pf_strategies p)) = Some (?fin s)" by simp
  then obtain a where a: "find_strategy (sg_id s) (pf_strategies q) = Some ((?fin s)\<lparr>sg_allocation := a\<rparr>)"
    using same_but_shares_find[OF o(5)] by blast
  have all: "filter (\<lambda>s. sg_id s \<notin> set (map sg_id ?gone)) (filter running (pf_strategies p)) = [] \<longleftrightarrow>
      list_all (doomed rnd c gap now m p) (filter running (pf_strategies p))"
    using mem by (auto simp: filter_empty_conv list_all_iff)
  have new: "rr_new_generation_needed res \<longleftrightarrow> list_ex running (pf_strategies p) \<and>
      list_all (doomed rnd c gap now m p) (filter running (pf_strategies p))"
    unfolding o(4) all by (auto simp: filter_empty_conv list_ex_iff list_all_iff)
  have listed: "sg_id s \<in> set (rr_terminated_strategies res) \<longleftrightarrow> running s \<and> doomed rnd c gap now m p s"
    using mem[OF assms(5)] o(3) by simp
  show ?thesis
  proof (cases "running s \<and> doomed rnd c gap now m p s")
    case True
    then have "is_archived g st' (sg_id s)" "?fin s = ended (Iso now) s" using mem[OF assms(5)] o(6) by auto
    then show ?thesis using o(1,2) a new listed True by (intro exI[of _ res] exI[of _ q] exI[of _ "ended (Iso now) s\<lparr>sg_allocation := a\<rparr>"] exI[of _ a]) simp
  next
    case False
    then have "?fin s = s" using mem[OF assms(5)] by auto
    then show ?thesis using o(1,2) a new listed False by (intro exI[of _ res] exI[of _ q] exI[of _ "s\<lparr>sg_allocation := a\<rparr>"] exI[of _ a]) simp
  qed
qed

section \<open>Overlapping writes\<close>

definition apply_adjustment :: "adjustment \<Rightarrow> strategy list \<Rightarrow> strategy list" where
  "apply_adjustment a = map (\<lambda>s. if sg_id s = aj_strategy_id a then s\<lparr>sg_allocation := aj_new_allocation a\<rparr> else s)"

lemma apply_adjustment_valid:
  "list_all strategy_valid ss \<Longrightarrow> unit_interval (aj_new_allocation a) \<Longrightarrow> list_all strategy_valid (apply_adjustment a ss)"
  by (auto simp: apply_adjustment_def list_all_iff strategy_valid_def)

lemma save_step:
  assumes "table_get seen k = Some p" "list_all strategy_valid (pf_strategies p)" "unit_interval (aj_new_allocation (as ! k))"
  shows "\<exists>st'. write_share g as (Save_At k) (seen, st) = (seen, st') \<and>
    table_get (sr_portfolios st') g = Some (p\<lparr>pf_strategies := apply_adjustment (as ! k) (pf_strategies p)\<rparr>)"
proof -
  note new = apply_adjustment_valid[OF assms(2,3)]
  then have "parse_strategies (apply_adjustment (as ! k) (pf_strategies p)) = Inr (apply_adjustment (as ! k) (pf_strategies p))"
    by (rule strategies_parse(2))
  then show ?thesis
    using assms(1) new by (simp add: apply_adjustment_def save_portfolio_def portfolio_valid_def table_get_put)
qed

lemma load_step:
  assumes "table_get (sr_portfolios st) g = Some p" "list_all strategy_valid (pf_strategies p)"
  shows "write_share g as (Load_At k) (seen, st) = (table_put k p seen, index_all g (pf_strategies p) st)"
  using assms by (simp add: get_portfolio_def portfolio_valid_def)

lemma all_load:
  assumes "table_get (sr_portfolios st) g = Some p" "list_all strategy_valid (pf_strategies p)"
  shows "\<exists>seen' st'. fold (write_share g as) (map Load_At ks) (seen, st) = (seen', st') \<and> table_get (sr_portfolios st') g = Some p \<and>
    (\<forall>k. table_get seen' k = (if k \<in> set ks then Some p else table_get seen k))"
  using assms(1)
proof (induction ks arbitrary: seen st)
  case (Cons k ks)
  have "table_get (sr_portfolios (index_all g (pf_strategies p) st)) g = Some p" using Cons.prems by simp
  from Cons.IH[OF this, of "table_put k p seen"] show ?case
    by (auto simp: load_step[OF Cons.prems assms(2)] table_get_put simp del: write_share.simps)
qed simp

lemma all_save:
  assumes "\<forall>k < length as. table_get seen k = Some p" "list_all strategy_valid (pf_strategies p)"
    and "list_all (\<lambda>a. unit_interval (aj_new_allocation a)) as" "m \<le> length as"
  shows "\<exists>st'. fold (write_share g as) (map Save_At [0..<m]) (seen, st) = (seen, st') \<and>
    (m > 0 \<longrightarrow> table_get (sr_portfolios st') g = Some (p\<lparr>pf_strategies := apply_adjustment (as ! (m - 1)) (pf_strategies p)\<rparr>))"
  using assms(4)
proof (induction m)
  case (Suc m)
  then obtain st2 where st2: "fold (write_share g as) (map Save_At [0..<m]) (seen, st) = (seen, st2)" by auto
  have "unit_interval (aj_new_allocation (as ! m))" using assms(3) Suc.prems by (simp add: list_all_length)
  then obtain st3 where "write_share g as (Save_At m) (seen, st2) = (seen, st3)"
    "table_get (sr_portfolios st3) g = Some (p\<lparr>pf_strategies := apply_adjustment (as ! m) (pf_strategies p)\<rparr>)"
    using save_step[of seen m p as g st2] assms(1,2) Suc.prems by auto
  then show ?case using st2 by (simp del: write_share.simps)
qed simp

lemma one_after_the_other:
  assumes "table_get (sr_portfolios st) g = Some p" "list_all strategy_valid (pf_strategies p)"
    and "list_all (\<lambda>a. unit_interval (aj_new_allocation a)) as" "m \<le> length as"
  shows "\<exists>seen st'. fold (write_share g as) (one_by_one m) ([], st) = (seen, st') \<and>
    table_get (sr_portfolios st') g = Some (p\<lparr>pf_strategies := fold apply_adjustment (take m as) (pf_strategies p)\<rparr>) \<and>
    list_all strategy_valid (fold apply_adjustment (take m as) (pf_strategies p))"
  using assms(4)
proof (induction m)
  case 0
  then show ?case using assms(1,2) by (simp add: one_by_one_def)
next
  case (Suc m)
  let ?q = "p\<lparr>pf_strategies := fold apply_adjustment (take m as) (pf_strategies p)\<rparr>"
  from Suc obtain seen st2 where m: "fold (write_share g as) (one_by_one m) ([], st) = (seen, st2)"
    "table_get (sr_portfolios st2) g = Some ?q" "list_all strategy_valid (pf_strategies ?q)" by auto
  have u: "unit_interval (aj_new_allocation (as ! m))" using assms(3) Suc.prems by (simp add: list_all_length)
  obtain st3 where st3: "write_share g as (Save_At m) (table_put m ?q seen, index_all g (pf_strategies ?q) st2) = (table_put m ?q seen, st3)"
    "table_get (sr_portfolios st3) g = Some (?q\<lparr>pf_strategies := apply_adjustment (as ! m) (pf_strategies ?q)\<rparr>)"
    using save_step[of "table_put m ?q seen" m ?q as g, OF _ m(3) u] by (auto simp: table_get_put)
  have more: "take (Suc m) as = take m as @ [as ! m]" using Suc.prems by (simp add: take_Suc_conv_app_nth)
  have "one_by_one (Suc m) = one_by_one m @ [Load_At m, Save_At m]" by (simp add: one_by_one_def)
  then show ?case
    using m(1) load_step[OF m(2,3), of as m seen] st3 apply_adjustment_valid[OF m(3) u] by (simp add: more del: write_share.simps)
qed

text \<open>
  C40. All writes of a rebalance load the portfolio before the first one saves it. So of several new shares only the last one is kept,
  although the result lists all of them; had each write been awaited, all would be there.
\<close>

theorem overlapping_writes_leave_the_last:
  assumes "table_get (sr_portfolios st) g = Some p" "store_ok st" "as \<noteq> []" "list_all (\<lambda>a. unit_interval (aj_new_allocation a)) as"
  shows "table_get (sr_portfolios (write_shares g as (overlapping (length as)) st)) g =
      Some (p\<lparr>pf_strategies := apply_adjustment (last as) (pf_strategies p)\<rparr>) \<and>
    table_get (sr_portfolios (write_shares g as (one_by_one (length as)) st)) g =
      Some (p\<lparr>pf_strategies := fold apply_adjustment as (pf_strategies p)\<rparr>)"
proof
  have valid: "list_all strategy_valid (pf_strategies p)" using assms(1,2) by (auto simp: store_ok_def strategies_ok_def)
  obtain seen st1 where loaded: "fold (write_share g as) (map Load_At [0..<length as]) ([], st) = (seen, st1)"
    "\<forall>k < length as. table_get seen k = Some p"
    using all_load[OF assms(1) valid, of as "[0..<length as]" "[]"] by auto
  obtain st2 where "fold (write_share g as) (map Save_At [0..<length as]) (seen, st1) = (seen, st2)"
    "table_get (sr_portfolios st2) g = Some (p\<lparr>pf_strategies := apply_adjustment (last as) (pf_strategies p)\<rparr>)"
    using all_save[OF loaded(2) valid assms(4), of "length as" g st1] assms(3) by (auto simp: last_conv_nth)
  then show "table_get (sr_portfolios (write_shares g as (overlapping (length as)) st)) g =
      Some (p\<lparr>pf_strategies := apply_adjustment (last as) (pf_strategies p)\<rparr>)"
    by (simp add: write_shares_def overlapping_def loaded(1))
  show "table_get (sr_portfolios (write_shares g as (one_by_one (length as)) st)) g =
      Some (p\<lparr>pf_strategies := fold apply_adjustment as (pf_strategies p)\<rparr>)"
    using one_after_the_other[OF assms(1) valid assms(4), of "length as"] by (auto simp: write_shares_def)
qed

section \<open>Shares at the start, and the floor\<close>

lemma exact_sum_replicate: "js_sum (\<lambda>x. x) (replicate n a) = of_nat n * a"
  by (simp add: js_sum_def foldl_conv_fold fold_plus_sum_list_rev sum_list_replicate)

text \<open>
  \<open>calculateInitialAllocations\<close> is documented to return shares with sum 1. In exact arithmetic the sum is 1 only
  as long as the floors fit into the whole; otherwise it is the sum of the floors.
\<close>

lemma initial_allocations_sum:
  assumes "n \<ge> 2" "pc_max_allocation c * of_nat n \<ge> 1" "pc_min_allocation c \<le> pc_max_allocation c"
  shows "sum_list (calculate_initial_allocations (\<lambda>x. x) c n) = max 1 (of_nat n * pc_min_allocation c)"
proof -
  let ?mn = "pc_min_allocation c" and ?N = "of_nat n :: rat"
  let ?b = "\<lambda>x. max ?mn (min (pc_max_allocation c) x)"
  have N: "?N > 0" using assms(1) by simp
  have mx: "1 / ?N \<le> pc_max_allocation c" using assms(2) N by (simp add: field_simps)
  then have b: "?b (1 / ?N) = max ?mn (1 / ?N)" by simp
  have times: "?N * max ?mn (1 / ?N) = max 1 (?N * ?mn)" using N by (simp add: max_def field_simps)
  show ?thesis
  proof (cases "?mn \<le> 1 / ?N")
    case True
    then have "max ?mn (1 / ?N) = 1 / ?N" "?N * ?mn \<le> 1" using N by (simp_all add: field_simps)
    then show ?thesis
      using assms(1) N unfolding calculate_initial_allocations_def Let_def b
      by (simp add: exact_sum_replicate sum_list_replicate)
  next
    case False
    then have mn: "max ?mn (1 / ?N) = ?mn" "?N * ?mn > 1" using N by (simp_all add: field_simps)
    have "0 < ?N * ?mn" using mn(2) by linarith
    then have "?mn > 0" using N by (metis zero_less_mult_pos)
    then have "?mn * (1 / (?N * ?mn)) = 1 / ?N" by simp
    then have again: "?b (?mn * (1 / (?N * ?mn))) = ?mn" using b mn(1) by simp
    have last: "max ?mn (1 - of_nat (n - 1) * ?mn) = ?mn" using mn(2) assms(1) by (simp add: of_nat_diff algebra_simps)
    have less: "butlast (replicate n ?mn) = replicate (n - 1) ?mn" using assms(1) by (cases n) (simp_all add: replicate_append_same[symmetric])
    have "of_nat (n - 1) * ?mn + ?mn = ?N * ?mn" using assms(1) by (simp add: of_nat_diff algebra_simps)
    then show ?thesis
      using assms(1) N mn(2) last unfolding calculate_initial_allocations_def Let_def b mn(1) exact_sum_replicate map_replicate again less
      by (simp add: sum_list_replicate)
  qed
qed

definition default_config :: portfolio_config where
  "default_config = \<lparr>pc_min_allocation = 1/10, pc_max_allocation = 7/10, pc_rebalance_interval_hours = 168, pc_effectiveness_min_tasks = 3,
     pc_score_ratio_threshold = 2, pc_termination_stall_count = 3, pc_termination_resource_multiplier = 2,
     pc_termination_min_rebalances = 3\<rparr>"

lemma eleven_strategies_overcommit: "sum_list (calculate_initial_allocations (\<lambda>x. x) default_config 11) = 11 / 10"
  by (subst initial_allocations_sum) (simp_all add: default_config_def)

lemma adjust_shareD:
  "a \<in> set (adjust_share (\<lambda>x. x) s new) \<Longrightarrow>
    aj_strategy_id a = sg_id s \<and> aj_new_allocation a = new \<and> \<bar>new - sg_allocation s\<bar> > 1 / 1000"
  by (auto simp: adjust_share_def split: if_splits)

lemma redistributed_not_less:
  assumes "a \<in> set (redistribute_freed (\<lambda>x. x) c remaining records freed)"
  shows "\<exists>s \<in> set remaining. aj_strategy_id a = sg_id s \<and> aj_new_allocation a \<noteq> sg_allocation s \<and>
    (sg_allocation s \<le> pc_max_allocation c \<longrightarrow> sg_allocation s < aj_new_allocation a)"
proof -
  let ?total = "sum_list (map (\<lambda>s. max (score_of records s) 0) remaining)"
  let ?share = "\<lambda>s. if ?total > 0 then max (score_of records s) 0 / ?total else 1 / of_nat (length remaining)"
  have pos: "remaining \<noteq> []" "freed > 0" using assms by (auto simp: redistribute_freed_def split: if_splits)
  obtain s where s: "s \<in> set remaining" "a \<in> set (adjust_share (\<lambda>x. x) s (min (pc_max_allocation c) (sg_allocation s + freed * ?share s)))"
    using assms pos by (auto simp: redistribute_freed_def Let_def)
  have "0 \<le> freed * ?share s" using pos(2) by simp
  then have "sg_allocation s \<le> pc_max_allocation c \<Longrightarrow> sg_allocation s \<le> aj_new_allocation a"
    using adjust_shareD[OF s(2)] by linarith
  moreover have "aj_new_allocation a \<noteq> sg_allocation s"
  proof
    assume "aj_new_allocation a = sg_allocation s"
    then have "\<bar>sg_allocation s - sg_allocation s\<bar> > 1 / 1000" using adjust_shareD[OF s(2)] by metis
    then show False by simp
  qed
  moreover have "aj_strategy_id a = sg_id s" using adjust_shareD[OF s(2)] by blast
  ultimately show ?thesis using s(1) order_less_le by metis
qed

lemma update_values: "snd ` set (table_put k x t) \<subseteq> insert x (snd ` set t)"
proof (induction t)
  case (Cons e t)
  then show ?case by (cases "fst e = k") auto
qed simp

lemma normalized_floor:
  assumes "(i, a) \<in> set (normalized_shares (\<lambda>x. x) c (target_shares (\<lambda>x. x) c strategies ordered whole))"
  shows "pc_min_allocation c \<le> a"
proof -
  have "\<forall>y \<in> snd ` set (foldl (\<lambda>t r. if find_strategy (er_strategy_id r) strategies = None then t
      else table_put (er_strategy_id r) (target_share (\<lambda>x. x) c whole r) t) t ordered). pc_min_allocation c \<le> y"
    if "\<forall>y \<in> snd ` set t. pc_min_allocation c \<le> y" for t
    using that
  proof (induction ordered arbitrary: t)
    case (Cons r rs)
    have "\<forall>y \<in> snd ` set (table_put (er_strategy_id r) (target_share (\<lambda>x. x) c whole r) t). pc_min_allocation c \<le> y"
    proof
      fix y assume "y \<in> snd ` set (table_put (er_strategy_id r) (target_share (\<lambda>x. x) c whole r) t)"
      then have "y \<in> insert (target_share (\<lambda>x. x) c whole r) (snd ` set t)" by (rule subsetD[OF update_values])
      then show "pc_min_allocation c \<le> y"
      proof
        assume "y = target_share (\<lambda>x. x) c whole r"
        then show ?thesis by (simp add: target_share_def)
      next
        assume "y \<in> snd ` set t"
        then show ?thesis by (rule bspec[OF Cons.prems])
      qed
    qed
    note taken = Cons.IH[OF this] and passed = Cons.IH[OF Cons.prems]
    show ?case
    proof (cases "find_strategy (er_strategy_id r) strategies = None")
      case True
      then show ?thesis using passed by (simp only: foldl_Cons simp_thms if_True)
    next
      case False
      then show ?thesis using taken by (simp only: foldl_Cons simp_thms if_False)
    qed
  qed simp
  from this[of "[]"] have "\<forall>y \<in> snd ` set (target_shares (\<lambda>x. x) c strategies ordered whole). pc_min_allocation c \<le> y"
    by (simp add: target_shares_def)
  then show ?thesis using assms by (auto simp: normalized_shares_def Let_def split: if_splits)
qed

lemma adjusted_from:
  assumes "a \<in> set (adjust_allocations (\<lambda>x. x) c strategies scored)"
  obtains i x t ordered whole where
    "(i, x) \<in> set (normalized_shares (\<lambda>x. x) c (target_shares (\<lambda>x. x) c strategies ordered whole))"
    "find_strategy i strategies = Some t" "a \<in> set (adjust_share (\<lambda>x. x) t x)"
proof -
  let ?ordered = "sort_key (\<lambda>r. - nullish (er_effectiveness_score r) 0) scored"
  let ?whole = "js_sum (\<lambda>x. x) (map positive_score ?ordered)"
  let ?of = "\<lambda>(i, a). case find_strategy i strategies of None \<Rightarrow> [] | Some s \<Rightarrow> adjust_share (\<lambda>x. x) s a"
  let ?shares = "normalized_shares (\<lambda>x. x) c (target_shares (\<lambda>x. x) c strategies ?ordered ?whole)"
  have "a \<in> set (concat (map ?of ?shares))"
    using assms unfolding adjust_allocations_def Let_def by (cases "?whole \<le> 0") simp_all
  then obtain e where e: "e \<in> set ?shares" "a \<in> set (?of e)" unfolding set_concat set_map by blast
  obtain i x where "e = (i, x)" by (cases e)
  with e show thesis by (cases "find_strategy i strategies") (simp_all, rule that)
qed

text \<open>
  The third condition of termination counts the latest rebalances in which the strategy was adjusted down to the floor. A strategy
  that already has the floor gets no such adjustment, so the count falls back to zero at once and never reaches three.
\<close>

lemma floor_not_adjusted_again:
  assumes "distinct (map sg_id active)" "s \<in> set active" "sg_allocation s = pc_min_allocation c"
    "pc_min_allocation c \<le> pc_max_allocation c"
    and "a \<in> set (rebalance_adjustments (\<lambda>x. x) c active gone records)" "aj_strategy_id a = sg_id s"
  shows "pc_min_allocation c < aj_new_allocation a"
proof -
  let ?remaining = "filter (\<lambda>s. sg_id s \<notin> set gone) active"
  have same: "t = s" if "t \<in> set active" "sg_id t = sg_id s" for t
    using that assms(1,2) by (auto simp: distinct_map dest: inj_onD)
  consider (freed) freed where "a \<in> set (redistribute_freed (\<lambda>x. x) c ?remaining records freed)"
    | (adjusted) scored where "a \<in> set (adjust_allocations (\<lambda>x. x) c ?remaining scored)"
    using assms(5) by (auto simp: rebalance_adjustments_def Let_def split: if_splits)
  then show ?thesis
  proof cases
    case freed
    then obtain t where t: "t \<in> set ?remaining" "aj_strategy_id a = sg_id t"
      "sg_allocation t \<le> pc_max_allocation c \<longrightarrow> sg_allocation t < aj_new_allocation a"
      using redistributed_not_less by blast
    have "t = s" by (rule same) (use t(1,2) assms(6) in simp_all)
    then show ?thesis using t(3) assms(3,4) by simp
  next
    case adjusted
    then obtain i x t ordered whole where x: "(i, x) \<in> set (normalized_shares (\<lambda>x. x) c (target_shares (\<lambda>x. x) c ?remaining ordered whole))"
      "find_strategy i ?remaining = Some t" "a \<in> set (adjust_share (\<lambda>x. x) t x)"
      by (rule adjusted_from)
    have "t \<in> set ?remaining" using find_strategyD[OF x(2)] by blast
    moreover have t: "aj_strategy_id a = sg_id t" "aj_new_allocation a = x" "\<bar>x - sg_allocation t\<bar> > 1 / 1000"
      using adjust_shareD[OF x(3)] by blast+
    ultimately have "t = s" by (intro same) (use assms(6) in simp_all)
    then have "x \<noteq> pc_min_allocation c" using t(3) assms(3) by auto
    then show ?thesis using normalized_floor[OF x(1)] t(2) by simp
  qed
qed

lemma streak_falls_back:
  assumes "distinct (map sg_id active)" "s \<in> set active" "sg_allocation s = pc_min_allocation c"
    "pc_min_allocation c \<le> pc_max_allocation c" "rr_adjustments r = rebalance_adjustments (\<lambda>x. x) c active gone records"
  shows "count_consecutive_lowest (sg_id s) (history @ [r]) (pc_min_allocation c) = 0"
proof -
  have "\<not> aj_new_allocation a \<le> pc_min_allocation c" if "find (\<lambda>a. aj_strategy_id a = sg_id s) (rr_adjustments r) = Some a" for a
    using find_SomeD[OF that] floor_not_adjusted_again[OF assms(1-4)] assms(5) by (metis not_le)
  then show ?thesis by (auto simp: count_consecutive_lowest_def split: option.splits)
qed

section \<open>Concrete cases\<close>

definition sample_manager :: manager where
  "sample_manager = \<lparr>mg_lastRebalanceTime = [], mg_rebalanceHistory = [], mg_lastTaskCompletion = [], mg_goalTaskCounts = []\<rparr>"

lemma sample_pair_ok: "store_ok sample_pair"
  unfolding sample_pair_def by (rule sample_ok) (simp_all add: unit_interval_def)

abbreviation sample_portfolio :: "strategy list \<Rightarrow> portfolio" where
  "sample_portfolio ss \<equiv> \<lparr>pf_goal_id = ''g'', pf_strategies = ss, pf_interval = 7, pf_interval_unit = Days, pf_last_rebalanced_at = Iso 0\<rparr>"

lemma sample_store_get: "table_get (sr_portfolios (sample_store ss)) ''g'' = Some (sample_portfolio ss)"
  by (simp add: sample_store_def)

theorem rebalance_ends_exactly_the_doomed_witness:
  "\<exists>res. fst (rebalance (\<lambda>x. x) default_config (\<lambda>_. None) [''g''] 10 one_by_one ''g'' \<lparr>tg_type = Tg_Periodic, tg_strategy_id = None\<rparr>
      sample_manager (sample_store [sample_strategy ''a'' St_Active (1/2)\<lparr>sg_consecutive_stall_count := 3\<rparr>, sample_strategy ''b'' St_Active (1/2)]))
    = Inr res \<and> ''a'' \<in> set (rr_terminated_strategies res) \<and> \<not> rr_new_generation_needed res"
proof -
  let ?a = "sample_strategy ''a'' St_Active (1/2)\<lparr>sg_consecutive_stall_count := 3\<rparr>"
  let ?ss = "[?a, sample_strategy ''b'' St_Active (1/2)]"
  let ?t = "\<lparr>tg_type = Tg_Periodic, tg_strategy_id = None\<rparr>"
  have ok: "store_ok (sample_store ?ss)"
    by (auto simp: store_ok_def sample_store_def strategies_ok_def strategy_valid_def sample_strategy_def fresh_strategy_def estimate_valid_def
        unit_interval_def safe_nonneg_def max_safe_integer_def)
  have kinds: "running ?a" "running (sample_strategy ''b'' St_Active (1/2))"
    "doomed (\<lambda>x. x) default_config (\<lambda>_. None) 10 sample_manager (sample_portfolio ?ss) ?a"
    "\<not> doomed (\<lambda>x. x) default_config (\<lambda>_. None) 10 sample_manager (sample_portfolio ?ss) (sample_strategy ''b'' St_Active (1/2))"
    by (simp_all add: running_def sample_strategy_def fresh_strategy_def check_strategy_termination_def default_config_def)
  have a: "?a \<in> set (pf_strategies (sample_portfolio ?ss))" by simp
  have id: "sg_id ?a = ''a''" by (simp add: sample_strategy_def fresh_strategy_def)
  obtain r m' st' where run: "rebalance (\<lambda>x. x) default_config (\<lambda>_. None) [''g''] 10 one_by_one ''g'' ?t sample_manager (sample_store ?ss) = (r, m', st')"
    by (metis surj_pair)
  from rebalance_ends_exactly_the_doomed[OF ok _ sample_store_get run a] kinds show ?thesis
    by (auto simp: run id)
qed

theorem overlapping_writes_leave_the_last_witness:
  "\<exists>q. table_get (sr_portfolios (write_shares ''g'' [\<lparr>aj_strategy_id = ''a'', aj_old_allocation = 1/2, aj_new_allocation = 1/4\<rparr>,
      \<lparr>aj_strategy_id = ''b'', aj_old_allocation = 1/2, aj_new_allocation = 3/4\<rparr>] (overlapping 2) sample_pair)) ''g'' = Some q \<and>
    map sg_allocation (pf_strategies q) = [1/2, 3/4]"
proof -
  let ?as = "[\<lparr>aj_strategy_id = ''a'', aj_old_allocation = 1/2, aj_new_allocation = 1/4\<rparr>,
      \<lparr>aj_strategy_id = ''b'', aj_old_allocation = 1/2, aj_new_allocation = 3/4\<rparr>]"
  let ?ss = "[sample_strategy ''a'' St_Active (1/2), sample_strategy ''b'' St_Active (1/2)]"
  have at: "table_get (sr_portfolios sample_pair) ''g'' = Some (sample_portfolio ?ss)"
    unfolding sample_pair_def by (rule sample_store_get)
  have "list_all (\<lambda>a. unit_interval (aj_new_allocation a)) ?as" by (simp add: unit_interval_def)
  from overlapping_writes_leave_the_last[OF at sample_pair_ok _ this] show ?thesis
    by (simp add: apply_adjustment_def sample_strategy_def fresh_strategy_def numeral_2_eq_2)
qed

end
