(* ===== verification/Drive_Scores.thy ===== *)
theory Drive_Scores
  imports Gap_Calculator "HOL-Library.Multiset"
begin

text \<open>
  Drive scores: \<open>platform/drive/drive-scorer.ts\<close> and the schemas of \<open>platform/drive/types/drive.ts\<close> that it uses.

  \<open>Math.exp\<close> is the parameter \<open>ex\<close>; what the lemmas need of it (monotone, positive, \<open>ex 0 = 1\<close>) is a hypothesis there.
  Every arithmetic operation rounds with \<open>rnd\<close>.
\<close>

section \<open>Configuration and scores\<close>

record drive_config =
  dc_decay_floor :: rat
  dc_recovery_time_hours :: rat
  dc_deadline_horizon_hours :: rat
  dc_urgency_steepness :: rat
  dc_urgency_override_threshold :: rat
  dc_pacing_urgency_weight :: rat
  dc_half_life_hours :: rat

definition duration_hours_valid :: "rat \<Rightarrow> bool" where
  "duration_hours_valid x \<longleftrightarrow> 0 < x \<and> x \<le> 1000000"

definition config_valid :: "drive_config \<Rightarrow> bool" where
  "config_valid c \<longleftrightarrow> 0 \<le> dc_decay_floor c \<and> dc_decay_floor c \<le> 1 \<and> duration_hours_valid (dc_recovery_time_hours c) \<and>
     duration_hours_valid (dc_deadline_horizon_hours c) \<and> 0 \<le> dc_urgency_steepness c \<and> dc_urgency_steepness c \<le> 100 \<and>
     0 < dc_urgency_override_threshold c \<and> dc_urgency_override_threshold c \<le> 1000000 \<and>
     0 \<le> dc_pacing_urgency_weight c \<and> dc_pacing_urgency_weight c \<le> 1000000 \<and> duration_hours_valid (dc_half_life_hours c)"

definition default_drive_config :: "(rat \<Rightarrow> rat) \<Rightarrow> drive_config" where
  "default_drive_config rnd = \<lparr>dc_decay_floor = rnd (3 / 10), dc_recovery_time_hours = 24, dc_deadline_horizon_hours = 168,
     dc_urgency_steepness = 3, dc_urgency_override_threshold = 10, dc_pacing_urgency_weight = 1 / 2, dc_half_life_hours = 12\<rparr>"

definition resolve_config :: "(rat \<Rightarrow> rat) \<Rightarrow> drive_config option \<Rightarrow> drive_config result" where
  "resolve_config rnd c = (case c of
     None \<Rightarrow> Inr (default_drive_config rnd)
   | Some c \<Rightarrow> if config_valid c then Inr c else Inl SchemaError)"

record dissatisfaction_score =
  ds_gap :: rat
  ds_decay_factor :: rat
  ds_score :: rat

record deadline_score =
  dl_gap :: rat
  dl_urgency :: rat
  dl_score :: rat

record opportunity_score =
  op_value :: rat
  op_freshness_decay :: rat
  op_score :: rat

datatype drive = Dissatisfaction | Deadline | Opportunity

record drive_score =
  dv_dimension_name :: string
  dv_dissatisfaction :: rat
  dv_deadline :: rat
  dv_opportunity :: rat
  dv_final_score :: rat
  dv_dominant_drive :: drive

section \<open>The three drives\<close>

definition score_dissatisfaction :: "(rat \<Rightarrow> rat) \<Rightarrow> (rat \<Rightarrow> rat) \<Rightarrow> drive_config \<Rightarrow> rat \<Rightarrow> rat \<Rightarrow> dissatisfaction_score" where
  "score_dissatisfaction rnd ex c gap hours =
     (let t = max 0 hours;
          decay = rnd (dc_decay_floor c + rnd (rnd (1 - dc_decay_floor c) * rnd (1 - ex (rnd (- t / dc_recovery_time_hours c)))))
      in \<lparr>ds_gap = gap, ds_decay_factor = decay, ds_score = rnd (gap * decay)\<rparr>)"

definition max_pacing_ratio :: rat where
  "max_pacing_ratio = 1000000"

definition normalize_pacing_ratio :: "js_number option \<Rightarrow> rat option" where
  "normalize_pacing_ratio r = (case r of
     None \<Rightarrow> None
   | Some NaN \<Rightarrow> None
   | Some (Infinite positive) \<Rightarrow> Some (if positive then max_pacing_ratio else 0)
   | Some (Fin x) \<Rightarrow> Some (min (max x 0) max_pacing_ratio))"

definition urgency_at :: "(rat \<Rightarrow> rat) \<Rightarrow> (rat \<Rightarrow> rat) \<Rightarrow> drive_config \<Rightarrow> rat \<Rightarrow> rat" where
  "urgency_at rnd ex c hours = ex (rnd (dc_urgency_steepness c * rnd (1 - rnd (hours / dc_deadline_horizon_hours c))))"

definition score_deadline ::
  "(rat \<Rightarrow> rat) \<Rightarrow> (rat \<Rightarrow> rat) \<Rightarrow> drive_config \<Rightarrow> rat \<Rightarrow> rat option \<Rightarrow> js_number option \<Rightarrow> deadline_score" where
  "score_deadline rnd ex c gap remaining pacing = (case remaining of
     None \<Rightarrow> \<lparr>dl_gap = gap, dl_urgency = 0, dl_score = 0\<rparr>
   | Some hours \<Rightarrow>
       (let urgency = (if hours \<ge> dc_deadline_horizon_hours c then 1
                       else if hours < 0 then urgency_at rnd ex c 0
                       else urgency_at rnd ex c hours);
            bonus = (case normalize_pacing_ratio pacing of
                       Some r \<Rightarrow> rnd (max 0 (rnd (r - 1)) * dc_pacing_urgency_weight c)
                     | None \<Rightarrow> 0)
        in \<lparr>dl_gap = gap, dl_urgency = urgency, dl_score = rnd (gap * rnd (urgency + bonus))\<rparr>))"

text \<open>\<open>Math.LN2\<close>.\<close>

definition ln2 :: rat where
  "ln2 = 6243314768165359 / 2 ^ 53"

definition score_opportunity :: "(rat \<Rightarrow> rat) \<Rightarrow> (rat \<Rightarrow> rat) \<Rightarrow> drive_config \<Rightarrow> rat \<Rightarrow> rat \<Rightarrow> opportunity_score" where
  "score_opportunity rnd ex c opportunity hours =
     (let t = max 0 hours; decay = ex (rnd (rnd (- ln2 * t) / dc_half_life_hours c))
      in \<lparr>op_value = opportunity, op_freshness_decay = decay, op_score = rnd (opportunity * decay)\<rparr>)"

definition compute_opportunity_value :: "(rat \<Rightarrow> rat) \<Rightarrow> rat \<Rightarrow> rat \<Rightarrow> rat \<Rightarrow> rat" where
  "compute_opportunity_value rnd impact external timing = rnd (impact * rnd (rnd (1 + external) + timing))"

section \<open>The final score\<close>

primrec best_drive :: "(drive \<times> rat) list \<Rightarrow> drive \<times> rat \<Rightarrow> drive \<times> rat" where
  "best_drive [] best = best"
| "best_drive (s # ss) best = best_drive ss (if snd s > snd best then s else best)"

definition combine_drive_scores ::
  "drive_config \<Rightarrow> string \<Rightarrow> dissatisfaction_score \<Rightarrow> deadline_score \<Rightarrow> opportunity_score \<Rightarrow> drive_score" where
  "combine_drive_scores c n ds dl op =
     (let scores = [(Dissatisfaction, ds_score ds), (Deadline, dl_score dl), (Opportunity, op_score op)];
          best = (if dl_urgency dl \<ge> dc_urgency_override_threshold c then (Deadline, dl_score dl) else best_drive scores (hd scores))
      in \<lparr>dv_dimension_name = n, dv_dissatisfaction = ds_score ds, dv_deadline = dl_score dl, dv_opportunity = op_score op,
          dv_final_score = snd best, dv_dominant_drive = fst best\<rparr>)"

record drive_context =
  cx_time_since_last_attempt :: "(string, rat) table"
  cx_deadlines :: "(string, rat option) table"
  cx_opportunities :: "(string, rat \<times> timestamp) table"
  cx_pacing :: "(string, js_number option) table"

definition hours_since_detected :: "(rat \<Rightarrow> rat) \<Rightarrow> int \<Rightarrow> timestamp \<Rightarrow> rat" where
  "hours_since_detected rnd now detected = (case date_parse detected of
     None \<Rightarrow> 0 | Some t \<Rightarrow> max 0 (rnd (of_int (now - t) / 3600000)))"

definition score_dimension ::
  "(rat \<Rightarrow> rat) \<Rightarrow> (rat \<Rightarrow> rat) \<Rightarrow> drive_config \<Rightarrow> int \<Rightarrow> drive_context \<Rightarrow> weighted_gap \<Rightarrow> drive_score" where
  "score_dimension rnd ex c now cx w =
     (let n = wg_dimension_name w; gap = wg_normalized_weighted_gap w
      in combine_drive_scores c n
           (score_dissatisfaction rnd ex c gap (nullish (table_get (cx_time_since_last_attempt cx) n) 0))
           (score_deadline rnd ex c gap (nullish (table_get (cx_deadlines cx) n) None) (nullish (table_get (cx_pacing cx) n) None))
           (case table_get (cx_opportunities cx) n of
              Some (v, detected) \<Rightarrow> score_opportunity rnd ex c v (hours_since_detected rnd now detected)
            | None \<Rightarrow> score_opportunity rnd ex c 0 0))"

definition score_all_dimensions ::
  "(rat \<Rightarrow> rat) \<Rightarrow> (rat \<Rightarrow> rat) \<Rightarrow> drive_config option \<Rightarrow> int \<Rightarrow> drive_context \<Rightarrow> gap_vector \<Rightarrow> drive_score list result" where
  "score_all_dimensions rnd ex config now cx v =
     result_bind (resolve_config rnd config) (\<lambda>c. Inr (map (score_dimension rnd ex c now cx) (gv_gaps v)))"

text \<open>The comparison: by the score downwards, then by name.\<close>

definition rank_dimensions :: "drive_score list \<Rightarrow> drive_score list" where
  "rank_dimensions ss = sort_key (\<lambda>s. - dv_final_score s) (sort_key dv_dimension_name ss)"

section \<open>Priorities of goals\<close>

text \<open>\<open>prioritizeGoals\<close> of \<open>drive-system.ts\<close>.\<close>

definition prioritize_goals :: "string list \<Rightarrow> (string, rat) table \<Rightarrow> string list" where
  "prioritize_goals goals scores =
     sort_key (\<lambda>g. - the (table_get scores g)) (filter (\<lambda>g. table_get scores g \<noteq> None) goals) @
     filter (\<lambda>g. table_get scores g = None) goals"

section \<open>Properties\<close>

text \<open>
  The final score of a dimension: the score of its deadline once the urgency reaches the threshold, and the greatest of
  the three scores otherwise. The drive that is named as dominant has this score; of equal ones the first in the order dissatisfaction,
  deadline, opportunity is named.
\<close>

lemma final_score_exactly:
  "combine_drive_scores c n ds dl op =
    (if dl_urgency dl \<ge> dc_urgency_override_threshold c
     then \<lparr>dv_dimension_name = n, dv_dissatisfaction = ds_score ds, dv_deadline = dl_score dl, dv_opportunity = op_score op,
           dv_final_score = dl_score dl, dv_dominant_drive = Deadline\<rparr>
     else \<lparr>dv_dimension_name = n, dv_dissatisfaction = ds_score ds, dv_deadline = dl_score dl, dv_opportunity = op_score op,
           dv_final_score = Max {ds_score ds, dl_score dl, op_score op},
           dv_dominant_drive = (if ds_score ds = Max {ds_score ds, dl_score dl, op_score op} then Dissatisfaction
                                else if dl_score dl = Max {ds_score ds, dl_score dl, op_score op} then Deadline else Opportunity)\<rparr>)"
  by (auto simp: combine_drive_scores_def Let_def max_def)

text \<open>A stable sort keeps an order among the elements with equal keys.\<close>

lemma insort_key_sorted_wrt:
  fixes f :: "'a \<Rightarrow> 'b::linorder"
  assumes "sorted_wrt (\<lambda>a b. f a < f b \<or> f a = f b \<and> Q a b) ys" "\<forall>y \<in> set ys. Q x y"
  shows "sorted_wrt (\<lambda>a b. f a < f b \<or> f a = f b \<and> Q a b) (insort_key f x ys)"
  using assms
proof (induction ys)
  case (Cons y ys)
  show ?case
  proof (cases "f x \<le> f y")
    case True
    have "f x < f z \<or> f x = f z \<and> Q x z" if "z \<in> set (y # ys)" for z
    proof -
      have "f y \<le> f z" using Cons.prems(1) that by (auto intro: less_imp_le)
      then show ?thesis using True Cons.prems(2) that by (auto simp: le_less)
    qed
    then show ?thesis using True Cons.prems(1) by auto
  next
    case False
    then show ?thesis using Cons by (auto simp: set_insort_key)
  qed
qed simp

lemma sort_key_sorted_wrt:
  fixes f :: "'a \<Rightarrow> 'b::linorder"
  assumes "sorted_wrt Q xs"
  shows "sorted_wrt (\<lambda>a b. f a < f b \<or> f a = f b \<and> Q a b) (sort_key f xs)"
  using assms by (induction xs) (auto simp: insort_key_sorted_wrt)

text \<open>
  Ranking gives the same scores with the highest first, and the names in order among equal scores.
\<close>

lemma ranking_is_by_score_then_name:
  "mset (rank_dimensions ss) = mset ss \<and>
   sorted_wrt (\<lambda>a b. dv_final_score a > dv_final_score b \<or>
     dv_final_score a = dv_final_score b \<and> dv_dimension_name a \<le> dv_dimension_name b) (rank_dimensions ss)"
proof
  show "mset (rank_dimensions ss) = mset ss" by (simp add: rank_dimensions_def)
  have "sorted_wrt (\<lambda>a b. dv_dimension_name a \<le> dv_dimension_name b) (sort_key dv_dimension_name ss)"
    using sorted_sort_key[of dv_dimension_name ss] by (simp add: sorted_map)
  from sort_key_sorted_wrt[OF this, of "\<lambda>s. - dv_final_score s"]
  show "sorted_wrt (\<lambda>a b. dv_final_score a > dv_final_score b \<or>
     dv_final_score a = dv_final_score b \<and> dv_dimension_name a \<le> dv_dimension_name b) (rank_dimensions ss)"
    by (simp add: rank_dimensions_def)
qed

lemma prioritized_goals:
  "mset (prioritize_goals gs scores) = mset gs \<and>
   (\<exists>a b. prioritize_goals gs scores = a @ b \<and> b = filter (\<lambda>g. table_get scores g = None) gs \<and>
     sorted_wrt (\<lambda>x y. the (table_get scores x) \<ge> the (table_get scores y)) a)"
proof -
  let ?f = "\<lambda>g. - the (table_get scores g)"
  let ?a = "sort_key ?f (filter (\<lambda>g. table_get scores g \<noteq> None) gs)"
  have "sorted_wrt (\<lambda>x y. the (table_get scores x) \<ge> the (table_get scores y)) ?a"
    using sorted_sort_key[of ?f "filter (\<lambda>g. table_get scores g \<noteq> None) gs"] by (simp add: sorted_map)
  moreover have "mset (prioritize_goals gs scores) = mset gs"
    by (simp add: prioritize_goals_def flip: mset_filter) (simp add: multiset_eq_iff count_filter_mset)
  ultimately show ?thesis by (auto simp: prioritize_goals_def)
qed

text \<open>
  C33. In exact arithmetic, and for an exponential function that is positive, monotone and 1 at 0, the scores stay in their bounds:
  dissatisfaction between the floor of the gap and the gap, the urgency of a deadline between 1 and its value at the deadline, the
  freshness of an opportunity between 0 and 1. An overdue deadline is as urgent as one that is due now.
\<close>

theorem drive_scores_stay_in_bounds:
  assumes "config_valid c" "0 \<le> gap" "\<And>x y. x \<le> y \<Longrightarrow> ex x \<le> ex y" "\<And>x. 0 \<le> ex x" "ex 0 = (1::rat)"
  shows "gap * dc_decay_floor c \<le> ds_score (score_dissatisfaction (\<lambda>x. x) ex c gap t) \<and>
    ds_score (score_dissatisfaction (\<lambda>x. x) ex c gap t) \<le> gap \<and>
    1 \<le> dl_urgency (score_deadline (\<lambda>x. x) ex c gap (Some h) pace) \<and>
    dl_urgency (score_deadline (\<lambda>x. x) ex c gap (Some h) pace) \<le> ex (dc_urgency_steepness c) \<and>
    gap \<le> dl_score (score_deadline (\<lambda>x. x) ex c gap (Some h) pace) \<and>
    dl_urgency (score_deadline (\<lambda>x. x) ex c gap (Some (- \<bar>h\<bar>)) pace) = ex (dc_urgency_steepness c) \<and>
    0 \<le> op_freshness_decay (score_opportunity (\<lambda>x. x) ex c v t) \<and> op_freshness_decay (score_opportunity (\<lambda>x. x) ex c v t) \<le> 1"
proof -
  have c: "0 \<le> dc_decay_floor c" "dc_decay_floor c \<le> 1" "0 < dc_recovery_time_hours c" "0 < dc_deadline_horizon_hours c"
    "0 \<le> dc_urgency_steepness c" "0 \<le> dc_pacing_urgency_weight c" "0 < dc_half_life_hours c"
    using assms(1) by (simp_all add: config_valid_def duration_hours_valid_def)
  have le_one: "ex x \<le> 1" if "x \<le> 0" for x using assms(3)[OF that] assms(5) by simp
  have ge_one: "1 \<le> ex x" if "0 \<le> x" for x using assms(3)[OF that] assms(5) by simp
  let ?e = "ex (- max 0 t / dc_recovery_time_hours c)" and ?f = "dc_decay_floor c"
  have e: "0 \<le> ?e" "?e \<le> 1" using assms(4) le_one c(3) by (simp_all add: divide_nonpos_pos)
  have "0 \<le> (1 - ?f) * (1 - ?e)" "(1 - ?f) * (1 - ?e) \<le> 1 - ?f"
    using c(1,2) e by (simp_all add: mult_left_le)
  then have decay: "?f \<le> ?f + (1 - ?f) * (1 - ?e)" "?f + (1 - ?f) * (1 - ?e) \<le> 1" by simp_all
  have ds: "gap * ?f \<le> ds_score (score_dissatisfaction (\<lambda>x. x) ex c gap t) \<and> ds_score (score_dissatisfaction (\<lambda>x. x) ex c gap t) \<le> gap"
    using mult_left_mono[OF decay(1) assms(2)] mult_left_mono[OF decay(2) assms(2)] by (simp add: score_dissatisfaction_def Let_def)
  have at: "1 \<le> urgency_at (\<lambda>x. x) ex c x \<and> urgency_at (\<lambda>x. x) ex c x \<le> ex (dc_urgency_steepness c)"
    if "0 \<le> x" "x < dc_deadline_horizon_hours c" for x
  proof -
    have "0 \<le> x / dc_deadline_horizon_hours c" "x / dc_deadline_horizon_hours c \<le> 1" using that c(4) by simp_all
    then have "0 \<le> dc_urgency_steepness c * (1 - x / dc_deadline_horizon_hours c)"
      "dc_urgency_steepness c * (1 - x / dc_deadline_horizon_hours c) \<le> dc_urgency_steepness c" using c(5) by (simp_all add: mult_left_le)
    then show ?thesis using ge_one assms(3) by (simp add: urgency_at_def)
  qed
  have urgency: "1 \<le> dl_urgency (score_deadline (\<lambda>x. x) ex c gap (Some h) pace) \<and>
      dl_urgency (score_deadline (\<lambda>x. x) ex c gap (Some h) pace) \<le> ex (dc_urgency_steepness c)"
    using at[of h] at[of 0] c(4) ge_one[OF c(5)] by (simp add: score_deadline_def Let_def)
  obtain bonus where bonus: "0 \<le> bonus" "dl_score (score_deadline (\<lambda>x. x) ex c gap (Some h) pace) =
      gap * (dl_urgency (score_deadline (\<lambda>x. x) ex c gap (Some h) pace) + bonus)"
  proof
    show "0 \<le> (case normalize_pacing_ratio pace of Some r \<Rightarrow> max 0 (r - 1) * dc_pacing_urgency_weight c | None \<Rightarrow> 0)"
      using c(6) by (simp split: option.split)
  qed (simp add: score_deadline_def Let_def)
  have "gap * 1 \<le> gap * (dl_urgency (score_deadline (\<lambda>x. x) ex c gap (Some h) pace) + bonus)"
    using urgency bonus(1) by (intro mult_left_mono[OF _ assms(2)]) linarith
  moreover have "dl_urgency (score_deadline (\<lambda>x. x) ex c gap (Some (- \<bar>h\<bar>)) pace) = ex (dc_urgency_steepness c)"
  proof -
    have "\<not> dc_deadline_horizon_hours c \<le> - \<bar>h\<bar>" using c(4) by linarith
    then show ?thesis by (simp add: score_deadline_def Let_def urgency_at_def)
  qed
  moreover have "- ln2 * max 0 t / dc_half_life_hours c \<le> 0" using c(7) by (simp add: ln2_def divide_nonpos_pos mult_nonpos_nonneg)
  then have "op_freshness_decay (score_opportunity (\<lambda>x. x) ex c v t) \<le> 1" "0 \<le> op_freshness_decay (score_opportunity (\<lambda>x. x) ex c v t)"
    using le_one assms(4) by (simp_all add: score_opportunity_def Let_def)
  ultimately show ?thesis using ds urgency bonus(2) by simp
qed

theorem drive_scores_stay_in_bounds_witness:
  "1 \<le> dl_urgency (score_deadline (\<lambda>x. x) (\<lambda>x. max 0 (1 + x)) (default_drive_config (\<lambda>x. x)) 1 (Some 84) None) \<and>
   dl_urgency (score_deadline (\<lambda>x. x) (\<lambda>x. max 0 (1 + x)) (default_drive_config (\<lambda>x. x)) 1 (Some 84) None) \<le> 4"
proof -
  have "config_valid (default_drive_config (\<lambda>x. x))"
    by (simp add: config_valid_def default_drive_config_def duration_hours_valid_def)
  from drive_scores_stay_in_bounds[OF this, of 1 "\<lambda>x. max 0 (1 + x)" 0 84 None 0] show ?thesis
    by (simp add: default_drive_config_def)
qed

end
