(* ===== verification/Cross_Goal.thy ===== *)
theory Cross_Goal
  imports Drive_Scores Dependency_Graph
begin

text \<open>
  Shares across goals: \<open>orchestrator/strategy/cross-goal-portfolio.ts\<close>, \<open>portfolio-allocation.ts\<close>,
  \<open>portfolio-momentum.ts\<close>, \<open>portfolio-scheduling.ts\<close> and their types.

  The texts of reasons are left out, as is the recommendation of templates by embeddings. A dependency graph is the one of
  \<open>Dependency_Graph\<close>, stored goals are those of \<open>Goal_Model\<close>.
\<close>

section \<open>Data\<close>

record goal_allocation =
  ga_goal_id :: string
  ga_priority :: rat
  ga_resource_share :: rat

record cross_config =
  cg_max_concurrent_goals :: int
  cg_min_goal_share :: rat
  cg_synergy_bonus :: rat

definition cross_config_valid :: "cross_config \<Rightarrow> bool" where
  "cross_config_valid c \<longleftrightarrow> 1 \<le> cg_max_concurrent_goals c \<and> cg_max_concurrent_goals c \<le> 20 \<and>
     0 \<le> cg_min_goal_share c \<and> cg_min_goal_share c \<le> 1 \<and> 0 \<le> cg_synergy_bonus c \<and> cg_synergy_bonus c \<le> 2"

record priority_factors =
  pr_goal_id :: string
  pr_deadline_urgency :: rat
  pr_gap_severity :: rat
  pr_dependency_weight :: rat
  pr_user_priority :: rat
  pr_computed_priority :: rat

datatype momentum_trend = Accelerating | Steady | Decelerating | Stalled

record momentum =
  mo_recent_progress :: rat
  mo_velocity :: rat
  mo_trend :: momentum_trend

record dependency_phase =
  ph_phase :: nat
  ph_goal_ids :: "string list"
  ph_blocked_by :: "string list"

record dependency_schedule =
  sd_phases :: "dependency_phase list"
  sd_critical_path :: "string list"

datatype allocation_type = At_Equal | At_Priority | At_Momentum | At_Dependency_Aware

record allocation_strategy =
  as_type :: allocation_type
  as_momentum_weight :: "rat option"

datatype rebalance_kind = Reduce | Increase

record rebalance_action =
  ra_goal_id :: string
  ra_action :: rebalance_kind
  ra_previous_share :: rat
  ra_new_share :: rat

definition clamp :: "rat \<Rightarrow> rat \<Rightarrow> rat \<Rightarrow> rat" where
  "clamp x lo hi = min (max x lo) hi"

section \<open>Momentum\<close>

definition deltas :: "(rat \<Rightarrow> rat) \<Rightarrow> rat list \<Rightarrow> rat list" where
  "deltas rnd xs = map (\<lambda>(a, b). rnd (b - a)) (zip xs (tl xs))"

definition weighted_velocity :: "(rat \<Rightarrow> rat) \<Rightarrow> rat list \<Rightarrow> rat" where
  "weighted_velocity rnd ds =
     (let (s, w) = foldl (\<lambda>(s, w) (i, d). (rnd (s + rnd (d * of_nat i)), w + i)) (0, 0) (zip [1..<Suc (length ds)] ds)
      in if w > 0 then rnd (s / of_nat w) else 0)"

definition momentum_trend_of :: "(rat \<Rightarrow> rat) \<Rightarrow> rat list \<Rightarrow> rat \<Rightarrow> momentum_trend" where
  "momentum_trend_of rnd ds velocity =
     (if \<bar>velocity\<bar> < rnd (5 / 1000) then Stalled
      else if length ds \<ge> 2 then
        (let mid = length ds div 2;
             early = rnd (js_sum rnd (take mid ds) / of_nat mid);
             late = rnd (js_sum rnd (drop mid ds) / of_nat (length ds - mid))
         in if late > rnd (early + rnd (2 / 1000)) then Accelerating
            else if late < rnd (early - rnd (2 / 1000)) then Decelerating
            else Steady)
      else if velocity > 0 then Steady else Stalled)"

definition calculate_momentum :: "(rat \<Rightarrow> rat) \<Rightarrow> rat list \<Rightarrow> momentum" where
  "calculate_momentum rnd snapshots =
     (if length snapshots \<le> 1 then \<lparr>mo_recent_progress = 0, mo_velocity = 0, mo_trend = Stalled\<rparr>
      else (let ds = deltas rnd snapshots; v = weighted_velocity rnd ds
            in \<lparr>mo_recent_progress = rnd (last snapshots - hd snapshots), mo_velocity = v, mo_trend = momentum_trend_of rnd ds v\<rparr>))"

section \<open>Shares of goals\<close>

definition positive_velocity :: "(string, momentum) table \<Rightarrow> string \<Rightarrow> rat" where
  "positive_velocity ms g = (case table_get ms g of Some m \<Rightarrow> max (mo_velocity m) 0 | None \<Rightarrow> 0)"

definition unblocked_goals :: "dependency_schedule \<Rightarrow> string list" where
  "unblocked_goals sched = concat (map ph_goal_ids (filter (\<lambda>p. ph_blocked_by p = []) (sd_phases sched)))"

definition dependency_weight_of :: "(rat \<Rightarrow> rat) \<Rightarrow> dependency_schedule \<Rightarrow> priority_factors \<Rightarrow> rat" where
  "dependency_weight_of rnd sched p =
     (let w = pr_computed_priority p;
          w1 = (if pr_goal_id p \<in> set (sd_critical_path sched) then rnd (w * (3 / 2)) else w)
      in if pr_goal_id p \<in> set (unblocked_goals sched) then rnd (w1 * rnd (12 / 10)) else w1)"

definition goal_weights ::
  "(rat \<Rightarrow> rat) \<Rightarrow> allocation_strategy option \<Rightarrow> (string, momentum) table option \<Rightarrow> dependency_schedule option \<Rightarrow>
   priority_factors list \<Rightarrow> rat list" where
  "goal_weights rnd strategy ms sched ps =
     (case (case strategy of None \<Rightarrow> At_Priority | Some s \<Rightarrow> as_type s) of
        At_Equal \<Rightarrow> map (\<lambda>_. 1) ps
      | At_Momentum \<Rightarrow>
          (if nullish ms [] \<noteq> []
           then (let w = (case strategy of None \<Rightarrow> 1 / 2 | Some s \<Rightarrow> nullish (as_momentum_weight s) (1 / 2))
                 in map (\<lambda>p. rnd (rnd (rnd (1 - w) * pr_computed_priority p) + rnd (w * positive_velocity (nullish ms []) (pr_goal_id p)))) ps)
           else map pr_computed_priority ps)
      | At_Dependency_Aware \<Rightarrow> (case sched of Some s \<Rightarrow> map (dependency_weight_of rnd s) ps | None \<Rightarrow> map pr_computed_priority ps)
      | At_Priority \<Rightarrow> map pr_computed_priority ps)"

definition goal_shares :: "(rat \<Rightarrow> rat) \<Rightarrow> rat \<Rightarrow> rat list \<Rightarrow> rat list" where
  "goal_shares rnd least ws =
     (let n = length ws; reserved = rnd (of_nat n * least)
      in if reserved \<ge> 1 then map (\<lambda>_. rnd (1 / of_nat n)) ws
         else (let budget = rnd (1 - reserved); whole = js_sum rnd ws
               in if whole = 0 then map (\<lambda>_. rnd (least + rnd (budget / of_nat n))) ws
                  else map (\<lambda>w. rnd (least + rnd (budget * rnd (w / whole)))) ws))"

definition allocated_to :: "priority_factors \<Rightarrow> rat \<Rightarrow> goal_allocation" where
  "allocated_to p share = \<lparr>ga_goal_id = pr_goal_id p, ga_priority = pr_computed_priority p, ga_resource_share = share\<rparr>"

definition allocate_resources ::
  "(rat \<Rightarrow> rat) \<Rightarrow> cross_config \<Rightarrow> allocation_strategy option \<Rightarrow> (string, momentum) table option \<Rightarrow> dependency_schedule option \<Rightarrow>
   priority_factors list \<Rightarrow> goal_allocation list" where
  "allocate_resources rnd c strategy ms sched ps =
     (if ps = [] then []
      else (let n = min (length ps) (nat (cg_max_concurrent_goals c)); active = take n ps;
                waiting = map (\<lambda>p. allocated_to p 0) (drop n ps)
            in if active = [] then waiting
               else if length active = 1 then allocated_to (hd active) 1 # waiting
               else map2 allocated_to active (goal_shares rnd (cg_min_goal_share c) (goal_weights rnd strategy ms sched active)) @ waiting))"

text \<open>Goals that stall give their shares to the others that are known to move.\<close>

definition rebalance_on_stall :: "(rat \<Rightarrow> rat) \<Rightarrow> goal_allocation list \<Rightarrow> (string, momentum) table \<Rightarrow> rebalance_action list" where
  "rebalance_on_stall rnd as ms =
     (let known = filter (\<lambda>a. table_get ms (ga_goal_id a) \<noteq> None) as;
          is_stalled = (\<lambda>a. mo_trend (the (table_get ms (ga_goal_id a))) = Stalled);
          stalled = filter is_stalled known; progressing = filter (\<lambda>a. \<not> is_stalled a) known
      in if stalled = [] \<or> progressing = [] then []
         else (let freed = js_sum rnd (map ga_resource_share stalled);
                   velocity = (\<lambda>a. positive_velocity ms (ga_goal_id a));
                   whole = js_sum rnd (map velocity progressing);
                   bonus = (\<lambda>a. if whole > 0 then rnd (freed * rnd (velocity a / whole)) else rnd (freed / of_nat (length progressing)))
               in map (\<lambda>a. \<lparr>ra_goal_id = ga_goal_id a, ra_action = Reduce, ra_previous_share = ga_resource_share a, ra_new_share = 0\<rparr>) stalled @
                  map (\<lambda>a. \<lparr>ra_goal_id = ga_goal_id a, ra_action = Increase, ra_previous_share = ga_resource_share a,
                            ra_new_share = clamp (rnd (ga_resource_share a + bonus a)) 0 1\<rparr>) progressing))"

section \<open>Scheduling\<close>

definition prereq_map :: "dependency_graph \<Rightarrow> string list \<Rightarrow> (string, string list) table" where
  "prereq_map g goals = map (\<lambda>i. (i, uniq (filter (\<lambda>b. b \<in> set goals) (get_blocking_goals g i)))) (uniq goals)"

definition prereqs :: "(string, string list) table \<Rightarrow> string \<Rightarrow> string list" where
  "prereqs pm i = nullish (table_get pm i) []"

function build_phases ::
  "(string, string list) table \<Rightarrow> string list \<Rightarrow> string list \<Rightarrow> nat \<Rightarrow> dependency_phase list" where
  "build_phases pm completed remaining k =
     (if remaining = [] then []
      else (let ready = filter (\<lambda>i. list_all (\<lambda>p. p \<in> set completed) (prereqs pm i)) remaining
            in if ready = []
               then [\<lparr>ph_phase = k, ph_goal_ids = remaining,
                      ph_blocked_by = uniq (concat (map (\<lambda>i. filter (\<lambda>p. p \<notin> set completed) (prereqs pm i)) remaining))\<rparr>]
               else \<lparr>ph_phase = k, ph_goal_ids = ready, ph_blocked_by = uniq (concat (map (prereqs pm) ready))\<rparr> #
                    build_phases pm (completed @ ready) (filter (\<lambda>i. i \<notin> set ready) remaining) (Suc k)))"
  by pat_completeness auto
termination
proof (relation "measure (\<lambda>(pm, completed, remaining, k). length remaining)")
  fix pm completed k
  fix remaining ready :: "string list"
  assume ready: "ready = filter (\<lambda>i. list_all (\<lambda>p. p \<in> set completed) (prereqs pm i)) remaining" "ready \<noteq> []"
  then obtain x where "x \<in> set ready" by (meson list.set_sel(1))
  moreover from this have "x \<in> set remaining" by (simp add: ready(1))
  ultimately have "length (filter (\<lambda>i. i \<notin> set ready) remaining) < length remaining" by (intro length_filter_less) auto
  then show "((pm, completed @ ready, filter (\<lambda>i. i \<notin> set ready) remaining, Suc k), (pm, completed, remaining, k))
      \<in> measure (\<lambda>(pm, completed, remaining, k). length remaining)" by simp
qed simp

declare build_phases.simps [simp del]

text \<open>
  The longest chains, with the tables \<open>dp\<close> and \<open>parent\<close>. The recursion carries a depth and answers \<open>None\<close> when it is
  used up; JavaScript overflows its stack there.
\<close>

type_synonym chains = "(string, nat) table \<times> (string, string option) table"

primrec best_prereq ::
  "(string \<Rightarrow> chains \<Rightarrow> (nat \<times> chains) option) \<Rightarrow> string list \<Rightarrow> nat \<times> string option \<Rightarrow> chains \<Rightarrow>
   ((nat \<times> string option) \<times> chains) option" where
  "best_prereq visit [] best st = Some (best, st)"
| "best_prereq visit (p # ps) best st = (case visit p st of
     None \<Rightarrow> None
   | Some (len, st1) \<Rightarrow> best_prereq visit ps (if len > fst best then (len, Some p) else best) st1)"

primrec longest_from :: "nat \<Rightarrow> (string, string list) table \<Rightarrow> string \<Rightarrow> chains \<Rightarrow> (nat \<times> chains) option" where
  "longest_from 0 pm i st = None"
| "longest_from (Suc d) pm i st = (case table_get (fst st) i of
     Some n \<Rightarrow> Some (n, st)
   | None \<Rightarrow>
       (if prereqs pm i = [] then Some (1, (table_put i 1 (fst st), table_put i None (snd st)))
        else case best_prereq (longest_from d pm) (prereqs pm i) (0, None) st of
          None \<Rightarrow> None
        | Some ((best, parent), st1) \<Rightarrow>
            Some (best + 1, (table_put i (best + 1) (fst st1), table_put i parent (snd st1)))))"

primrec all_chains :: "nat \<Rightarrow> (string, string list) table \<Rightarrow> string list \<Rightarrow> chains \<Rightarrow> chains option" where
  "all_chains d pm [] st = Some st"
| "all_chains d pm (i # is) st = (case longest_from d pm i st of None \<Rightarrow> None | Some (n, st1) \<Rightarrow> all_chains d pm is st1)"

text \<open>
  Following the parents back; the list is built from its end. The number of nodes of the path is enough steps
  (\<open>trace_back_returns\<close>).
\<close>

primrec trace_back :: "nat \<Rightarrow> (string, string option) table \<Rightarrow> string option \<Rightarrow> string list \<Rightarrow> string list option" where
  "trace_back 0 parent c path = (if c = None then Some path else None)"
| "trace_back (Suc d) parent c path = (case c of
     None \<Rightarrow> Some path
   | Some i \<Rightarrow> trace_back d parent (nullish (table_get parent i) None) (i # path))"

definition longest_goal :: "(string, nat) table \<Rightarrow> string list \<Rightarrow> nat \<times> string" where
  "longest_goal dp goals = foldl (\<lambda>(n, g) i. if nullish (table_get dp i) 0 > n then (nullish (table_get dp i) 0, i) else (n, g))
     (0, (if goals = [] then [] else hd goals)) goals"

definition compute_critical_path :: "nat \<Rightarrow> string list \<Rightarrow> (string, string list) table \<Rightarrow> string list option" where
  "compute_critical_path d goals pm = (case all_chains d pm goals ([], []) of
     None \<Rightarrow> None
   | Some (dp, parent) \<Rightarrow>
       (case longest_goal dp goals of (n, g) \<Rightarrow> if n = 0 then Some [] else trace_back n parent (Some g) []))"

definition build_dependency_schedule :: "nat \<Rightarrow> string list \<Rightarrow> dependency_graph \<Rightarrow> dependency_schedule option" where
  "build_dependency_schedule d goals g =
     (if goals = [] then Some \<lparr>sd_phases = [], sd_critical_path = []\<rparr>
      else (let pm = prereq_map g goals
            in map_option (\<lambda>path. \<lparr>sd_phases = build_phases pm [] (uniq goals) 0, sd_critical_path = path\<rparr>)
                 (compute_critical_path d goals pm)))"

section \<open>Priorities of goals\<close>

text \<open>\<open>priority\<close>, one or more of colon, equals sign and white space, and a digit from 1 to 5; letters in either case.\<close>

definition lower_char :: "char \<Rightarrow> char" where
  "lower_char c = (let n = of_char c :: nat in if 65 \<le> n \<and> n \<le> 90 then char_of (n + 32) else c)"

definition parse_priority_constraint :: "string \<Rightarrow> nat option" where
  "parse_priority_constraint constraint =
     (let t = trim constraint; rest = drop 8 t
      in if map lower_char (take 8 t) = ''priority'' \<and> length rest \<ge> 2 \<and>
            list_all (\<lambda>c. c = CHR '':'' \<or> c = CHR ''='' \<or> is_space c) (butlast rest) \<and> last rest \<in> set ''12345''
         then Some (of_char (last rest) - 48) else None)"

definition estimate_dimension_gap :: "(rat \<Rightarrow> rat) \<Rightarrow> dimension \<Rightarrow> rat" where
  "estimate_dimension_gap rnd d =
     normalize_gap rnd (Fin (compute_raw_gap rnd (dm_current_value d) (dm_threshold d))) (dm_threshold d) (dm_current_value d)"

text \<open>The schema of goals admits dates only as a deadline.\<close>

definition deadline_urgency :: "(rat \<Rightarrow> rat) \<Rightarrow> (rat \<Rightarrow> rat) \<Rightarrow> int \<Rightarrow> goal \<Rightarrow> rat" where
  "deadline_urgency rnd ex now g = (case gl_deadline g of
     None \<Rightarrow> 0
   | Some d \<Rightarrow> (case date_parse d of
       None \<Rightarrow> 0
     | Some t \<Rightarrow>
         (let hours = rnd (of_int (t - now) / 3600000);
              result = score_deadline rnd ex (default_drive_config rnd) 1 (Some hours) None
          in clamp (rnd (dl_urgency result / ex 2)) 0 1)))"

definition gap_severity :: "(rat \<Rightarrow> rat) \<Rightarrow> goal \<Rightarrow> rat" where
  "gap_severity rnd g =
     clamp (foldl (\<lambda>s d. if estimate_dimension_gap rnd d > s then estimate_dimension_gap rnd d else s) 0 (gl_dimensions g)) 0 1"

definition dependent_count :: "dependency_graph \<Rightarrow> string list \<Rightarrow> string \<Rightarrow> nat" where
  "dependent_count gr goals i = length (filter (\<lambda>e. de_type e = Prerequisite \<and> de_status e = Active \<and>
     de_from e \<in> set goals \<and> de_to e \<in> set goals \<and> de_from e = i) (dg_edges gr))"

definition dependency_factor :: "(rat \<Rightarrow> rat) \<Rightarrow> dependency_graph \<Rightarrow> string list \<Rightarrow> string \<Rightarrow> rat" where
  "dependency_factor rnd gr goals i =
     clamp (if length goals > 1 then rnd (of_nat (dependent_count gr goals i) / of_nat (length goals - 1)) else 0) 0 1"

definition user_priority :: "(rat \<Rightarrow> rat) \<Rightarrow> goal \<Rightarrow> rat" where
  "user_priority rnd g = (case List.map_filter parse_priority_constraint (gl_constraints g) of
     [] \<Rightarrow> 1 / 2
   | n # _ \<Rightarrow> clamp (rnd (of_nat n / 5)) 0 1)"

text \<open>The factors with the weighted sum in the place of the priority.\<close>

definition base_factors ::
  "(rat \<Rightarrow> rat) \<Rightarrow> (rat \<Rightarrow> rat) \<Rightarrow> int \<Rightarrow> dependency_graph \<Rightarrow> string list \<Rightarrow> string \<Rightarrow> goal \<Rightarrow> priority_factors" where
  "base_factors rnd ex now gr goals i g =
     (let d = deadline_urgency rnd ex now g; s = gap_severity rnd g; w = dependency_factor rnd gr goals i; u = user_priority rnd g
      in \<lparr>pr_goal_id = i, pr_deadline_urgency = d, pr_gap_severity = s, pr_dependency_weight = w, pr_user_priority = u,
          pr_computed_priority =
            rnd (rnd (rnd (rnd (rnd (35 / 100) * d) + rnd (1 / 4 * s)) + rnd (1 / 4 * w)) + rnd (rnd (15 / 100) * u))\<rparr>)"

definition pair_key :: "string \<Rightarrow> string \<Rightarrow> string" where
  "pair_key a b = (if a \<le> b then a @ ''||'' @ b else b @ ''||'' @ a)"

text \<open>The index of the last factor of a goal, as the map of indices has it.\<close>

definition index_of :: "priority_factors list \<Rightarrow> string \<Rightarrow> nat option" where
  "index_of fs i = (case filter (\<lambda>k. pr_goal_id (fs ! k) = i) [0..<length fs] of [] \<Rightarrow> None | ks \<Rightarrow> Some (last ks))"

definition bump :: "(rat \<Rightarrow> rat) \<Rightarrow> nat option \<Rightarrow> rat \<Rightarrow> rat list \<Rightarrow> rat list" where
  "bump rnd k x adj = (case k of None \<Rightarrow> adj | Some k \<Rightarrow> adj[k := rnd (adj ! k + x)])"

definition adjust_for_edge ::
  "(rat \<Rightarrow> rat) \<Rightarrow> cross_config \<Rightarrow> priority_factors list \<Rightarrow> dependency_edge \<Rightarrow> rat list \<times> string list \<Rightarrow> rat list \<times> string list" where
  "adjust_for_edge rnd c fs e s =
     (let (adj, seen) = s; key = pair_key (de_from e) (de_to e); a = index_of fs (de_from e); b = index_of fs (de_to e)
      in if de_status e \<noteq> Active \<or> a = None \<or> b = None \<or> key \<in> set seen then s
         else case de_type e of
           Synergy \<Rightarrow> (bump rnd b (rnd (cg_synergy_bonus c / 2)) (bump rnd a (rnd (cg_synergy_bonus c / 2)) adj), key # seen)
         | Conflict \<Rightarrow>
             (if pr_computed_priority (fs ! the a) \<le> pr_computed_priority (fs ! the b)
              then bump rnd a (- rnd (15 / 100)) adj else bump rnd b (- rnd (15 / 100)) adj, key # seen)
         | _ \<Rightarrow> s)"

definition adjustments :: "(rat \<Rightarrow> rat) \<Rightarrow> cross_config \<Rightarrow> dependency_graph \<Rightarrow> priority_factors list \<Rightarrow> rat list" where
  "adjustments rnd c gr fs = fst (fold (adjust_for_edge rnd c fs) (dg_edges gr) (replicate (length fs) 0, []))"

definition priority_list ::
  "(rat \<Rightarrow> rat) \<Rightarrow> (rat \<Rightarrow> rat) \<Rightarrow> cross_config \<Rightarrow> int \<Rightarrow> dependency_graph \<Rightarrow> goal_store \<Rightarrow> string list \<Rightarrow> priority_factors list" where
  "priority_list rnd ex c now gr st goals =
     (let fs = List.map_filter (\<lambda>i. map_option (base_factors rnd ex now gr goals i) (load_goal st i)) goals
      in sort_key (\<lambda>f. - pr_computed_priority f)
           (map2 (\<lambda>f a. f\<lparr>pr_computed_priority := clamp (rnd (pr_computed_priority f + a)) 0 1\<rparr>) fs (adjustments rnd c gr fs)))"

text \<open>The object keeps the last factors of every goal.\<close>

type_synonym priorities = "(string, priority_factors) table"

definition calculate_goal_priorities ::
  "(rat \<Rightarrow> rat) \<Rightarrow> (rat \<Rightarrow> rat) \<Rightarrow> cross_config \<Rightarrow> int \<Rightarrow> dependency_graph \<Rightarrow> goal_store \<Rightarrow> string list \<Rightarrow> priorities \<Rightarrow>
   priority_factors list \<times> priorities" where
  "calculate_goal_priorities rnd ex c now gr st goals lst =
     (let fs = priority_list rnd ex c now gr st goals in (fs, fold (\<lambda>f. table_put (pr_goal_id f) f) fs lst))"

definition rebalance_goals ::
  "(rat \<Rightarrow> rat) \<Rightarrow> (rat \<Rightarrow> rat) \<Rightarrow> cross_config \<Rightarrow> int \<Rightarrow> dependency_graph \<Rightarrow> goal_store \<Rightarrow> string list option \<Rightarrow> priorities \<Rightarrow>
   goal_allocation list \<times> priorities" where
  "rebalance_goals rnd ex c now gr st goals lst =
     (case calculate_goal_priorities rnd ex c now gr st (case goals of Some gs \<Rightarrow> gs | None \<Rightarrow> map fst lst) lst of
        (fs, lst1) \<Rightarrow> (allocate_resources rnd c None None None fs, lst1))"

definition get_allocation_map ::
  "(rat \<Rightarrow> rat) \<Rightarrow> (rat \<Rightarrow> rat) \<Rightarrow> cross_config \<Rightarrow> int \<Rightarrow> dependency_graph \<Rightarrow> goal_store \<Rightarrow> string list \<Rightarrow> priorities \<Rightarrow>
   (string, rat) table \<times> priorities" where
  "get_allocation_map rnd ex c now gr st goals lst =
     (case calculate_goal_priorities rnd ex c now gr st goals lst of
        (fs, lst1) \<Rightarrow>
          (let shares = fold (\<lambda>a. table_put (ga_goal_id a) (ga_resource_share a)) (allocate_resources rnd c None None None fs) []
           in (fold (\<lambda>i t. if table_get t i = None then table_put i (rnd (1 / of_nat (length goals))) t else t) goals shares, lst1)))"

section \<open>The shares make the whole\<close>

declare js_sum_exact [simp]

lemma sum_affine: "sum_list (map (\<lambda>w. a + b * f w) ws) = of_nat (length ws) * a + b * sum_list (map f ws)" for a b :: rat
  by (induction ws) (simp_all add: algebra_simps)

lemma sum_divided: "sum_list (map (\<lambda>w. f w / t) ws) = sum_list (map f ws) / t" for t :: rat
  by (induction ws) (simp_all add: add_divide_distrib)

lemma goal_shares_make_the_whole:
  assumes "ws \<noteq> []" "list_all (\<lambda>w. 0 \<le> w) ws" "0 \<le> least"
  shows "length (goal_shares (\<lambda>x. x) least ws) = length ws \<and> sum_list (goal_shares (\<lambda>x. x) least ws) = 1 \<and>
    list_all (\<lambda>x. min least (1 / of_nat (length ws)) \<le> x) (goal_shares (\<lambda>x. x) least ws)"
proof -
  let ?n = "of_nat (length ws) :: rat"
  have n: "?n > 0" using assms(1) by simp
  have nonneg: "0 \<le> sum_list ws" using assms(2) by (intro sum_list_nonneg) (simp add: list_all_iff)
  consider (full) "1 \<le> ?n * least" | (none) "?n * least < 1" "sum_list ws = 0" | (some) "?n * least < 1" "0 < sum_list ws"
    using nonneg by linarith
  then show ?thesis
  proof cases
    case full
    then show ?thesis using n by (simp add: goal_shares_def Let_def sum_list_replicate map_replicate_const list_all_iff)
  next
    case none
    then show ?thesis using n
      by (simp add: goal_shares_def Let_def map_replicate_const sum_list_replicate list_all_iff field_simps min_le_iff_disj)
  next
    case some
    let ?T = "sum_list ws"
    have s: "goal_shares (\<lambda>x. x) least ws = map (\<lambda>w. least + (1 - ?n * least) * (w / ?T)) ws"
      using some by (simp add: goal_shares_def Let_def)
    have "sum_list (map (\<lambda>w. w / ?T) ws) = 1" using sum_divided[of "\<lambda>w. w" ?T ws] some(2) by simp
    then have "sum_list (goal_shares (\<lambda>x. x) least ws) = 1" unfolding s sum_affine by simp
    moreover have "0 \<le> (1 - ?n * least) * (w / ?T)" if "w \<in> set ws" for w
      using some assms(2) that by (simp add: list_all_iff)
    ultimately show ?thesis by (auto simp: s list_all_iff min_le_iff_disj)
  qed
qed

definition weight_valid :: "allocation_strategy \<Rightarrow> bool" where
  "weight_valid s \<longleftrightarrow> opt_all (\<lambda>w. 0 \<le> w \<and> w \<le> 1) (as_momentum_weight s)"

lemma goal_weights_nonneg:
  assumes "list_all (\<lambda>p. 0 \<le> pr_computed_priority p) ps" "opt_all weight_valid strategy"
  shows "length (goal_weights (\<lambda>x. x) strategy ms sched ps) = length ps \<and>
    list_all (\<lambda>w. 0 \<le> w) (goal_weights (\<lambda>x. x) strategy ms sched ps)"
proof -
  have w: "0 \<le> (case strategy of None \<Rightarrow> 1 / 2 | Some s \<Rightarrow> nullish (as_momentum_weight s) (1 / 2))"
    "(case strategy of None \<Rightarrow> 1 / 2 | Some s \<Rightarrow> nullish (as_momentum_weight s) (1 / 2)) \<le> (1::rat)"
    using assms(2) by (auto simp: weight_valid_def split: option.split) (auto simp: nullish_def split: option.split)
  have v: "0 \<le> positive_velocity ms g" for ms g by (simp add: positive_velocity_def split: option.split)
  have d: "0 \<le> pr_computed_priority p \<Longrightarrow> 0 \<le> dependency_weight_of (\<lambda>x. x) s p" for s p
    by (simp add: dependency_weight_of_def Let_def)
  show ?thesis
    using assms(1) w v d by (auto simp: goal_weights_def list_all_iff Let_def split: option.split allocation_type.split)
qed

text \<open>
  C21. In exact arithmetic the shares of the goals add up to the whole, whatever the strategy of allocation; every one of the goals
  that fit into the limit gets at least the floor, or an equal share where the floors do not fit; the goals beyond the limit get nothing.
\<close>

theorem shares_make_the_whole:
  fixes ms sched
  assumes "ps \<noteq> []" "cross_config_valid c" "list_all (\<lambda>p. 0 \<le> pr_computed_priority p) ps" "opt_all weight_valid strategy"
  defines "n \<equiv> min (length ps) (nat (cg_max_concurrent_goals c))"
  defines "as \<equiv> allocate_resources (\<lambda>x. x) c strategy ms sched ps"
  shows "map ga_goal_id as = map pr_goal_id ps \<and> sum_list (map ga_resource_share as) = 1 \<and>
    list_all (\<lambda>a. min (cg_min_goal_share c) (1 / of_nat n) \<le> ga_resource_share a) (take n as) \<and>
    list_all (\<lambda>a. ga_resource_share a = 0) (drop n as)"
proof -
  let ?active = "take n ps" and ?waiting = "map (\<lambda>p. allocated_to p 0) (drop n ps)"
  have n: "0 < n" "n \<le> length ps" "length ?active = n" using assms(1,2) by (auto simp: n_def cross_config_valid_def)
  have rest: "sum_list (map ga_resource_share ?waiting) = 0" "list_all (\<lambda>a. ga_resource_share a = 0) ?waiting"
    "map ga_goal_id ?waiting = map pr_goal_id (drop n ps)"
    by (simp_all add: allocated_to_def list_all_iff o_def map_replicate_const sum_list_replicate)
  show ?thesis
  proof (cases "n = 1")
    case True
    then obtain p qs where ps: "ps = p # qs" using assms(1) by (cases ps) auto
    have as: "as = allocated_to p 1 # ?waiting"
      using True n(3) unfolding as_def allocate_resources_def n_def[symmetric] Let_def by (simp add: ps)
    show ?thesis using rest True assms(2) unfolding as by (simp add: ps allocated_to_def cross_config_valid_def)
  next
    case False
    let ?ws = "goal_weights (\<lambda>x. x) strategy ms sched ?active"
    let ?shares = "goal_shares (\<lambda>x. x) (cg_min_goal_share c) ?ws"
    have "list_all (\<lambda>p. 0 \<le> pr_computed_priority p) ?active" using assms(3) by (auto simp: list_all_iff dest: in_set_takeD)
    note ws = goal_weights_nonneg[OF this assms(4), of ms sched]
    have "?ws \<noteq> []" using ws n by (metis length_0_conv less_numeral_extra(3))
    from goal_shares_make_the_whole[OF this, of "cg_min_goal_share c"] ws n(3) assms(2)
    have shares: "length ?shares = n" "sum_list ?shares = 1" "list_all (\<lambda>x. min (cg_min_goal_share c) (1 / of_nat n) \<le> x) ?shares"
      by (simp_all add: cross_config_valid_def)
    have as: "as = map2 allocated_to ?active ?shares @ ?waiting"
      using False n assms(1) unfolding as_def allocate_resources_def n_def[symmetric] Let_def by (simp add: take_eq_Nil)
    have active: "map ga_resource_share (map2 allocated_to ?active ?shares) = ?shares"
      "map ga_goal_id (map2 allocated_to ?active ?shares) = map pr_goal_id ?active"
      using shares(1) n(3) by (auto simp: allocated_to_def intro: nth_equalityI)
    have split: "take n as = map2 allocated_to ?active ?shares" "drop n as = ?waiting" using shares(1) n(3) by (simp_all add: as)
    have "list_all (\<lambda>a. min (cg_min_goal_share c) (1 / of_nat n) \<le> ga_resource_share a) (map2 allocated_to ?active ?shares)"
    proof -
      have "list_all (\<lambda>x. min (cg_min_goal_share c) (1 / of_nat n) \<le> x) (map ga_resource_share (map2 allocated_to ?active ?shares))"
        by (simp only: active(1) shares(3))
      then show ?thesis by (simp add: list_all_iff)
    qed
    moreover have "map ga_goal_id as = map pr_goal_id ps" unfolding as map_append active(2) rest(3) by (simp flip: map_append)
    moreover have "sum_list (map ga_resource_share as) = 1" unfolding as map_append sum_list_append active(1) shares(2) rest(1) by simp
    ultimately show ?thesis unfolding split using rest(2) by simp
  qed
qed

section \<open>Stalled goals\<close>

lemma sum_filter_split:
  "sum_list (map f (filter P xs)) + sum_list (map f (filter (\<lambda>x. \<not> P x) xs)) = sum_list (map f xs)" for f :: "'a \<Rightarrow> rat"
  by (induction xs) simp_all

lemma sum_filter_le:
  "(\<And>x. x \<in> set xs \<Longrightarrow> 0 \<le> f x) \<Longrightarrow> sum_list (map f (filter P xs)) \<le> sum_list (map f xs)" for f :: "'a \<Rightarrow> rat"
  by (induction xs) (auto simp: add_increasing)

lemma member_le_sum: "(\<And>x. x \<in> set xs \<Longrightarrow> 0 \<le> f x) \<Longrightarrow> a \<in> set xs \<Longrightarrow> f a \<le> sum_list (map f xs)" for f :: "'a \<Rightarrow> rat"
proof (induction xs)
  case (Cons x xs)
  have "0 \<le> sum_list (map f xs)" using Cons.prems(1) by (intro sum_list_nonneg) auto
  then show ?case using Cons by (auto simp: add_increasing)
qed simp

lemma bonus_shares:
  fixes v :: "'a \<Rightarrow> rat"
  assumes "xs \<noteq> []" "\<And>x. x \<in> set xs \<Longrightarrow> 0 \<le> v x"
  defines "whole \<equiv> sum_list (map v xs)"
  defines "part \<equiv> (\<lambda>x. if whole > 0 then v x / whole else 1 / of_nat (length xs))"
  shows "sum_list (map part xs) = 1 \<and> (\<forall>x \<in> set xs. 0 \<le> part x \<and> part x \<le> 1)"
proof (cases "whole > 0")
  case True
  have "v x \<le> whole" if "x \<in> set xs" for x unfolding whole_def using assms(2) that by (rule member_le_sum)
  then show ?thesis using True assms(2) sum_divided[of v whole xs] by (auto simp: part_def whole_def)
next
  case False
  moreover have "1 \<le> length xs" using assms(1) by (cases xs) simp_all
  ultimately show ?thesis using assms(1) by (simp add: part_def map_replicate_const sum_list_replicate)
qed

text \<open>
  C32. When goals stall, in exact arithmetic the others get what they had: the stalled ones fall to 0, no other one loses, every share stays
  between 0 and 1, and the sum over the goals with known momentum does not change.
\<close>

theorem stall_rebalance_conserves:
  fixes ms
  assumes "list_all (\<lambda>a. 0 \<le> ga_resource_share a) as" "sum_list (map ga_resource_share as) \<le> 1"
  defines "actions \<equiv> rebalance_on_stall (\<lambda>x. x) as ms"
  shows "sum_list (map ra_new_share actions) = sum_list (map ra_previous_share actions) \<and>
    list_all (\<lambda>a. 0 \<le> ra_new_share a \<and> ra_new_share a \<le> 1 \<and>
      (if ra_action a = Reduce then ra_new_share a = 0 else ra_previous_share a \<le> ra_new_share a)) actions"
proof -
  let ?known = "filter (\<lambda>a. table_get ms (ga_goal_id a) \<noteq> None) as"
  let ?st = "\<lambda>a. mo_trend (the (table_get ms (ga_goal_id a))) = Stalled"
  define stalled progressing where "stalled = filter ?st ?known" and "progressing = filter (\<lambda>a. \<not> ?st a) ?known"
  define freed where "freed = sum_list (map ga_resource_share stalled)"
  define v :: "goal_allocation \<Rightarrow> rat" where "v = (\<lambda>a. positive_velocity ms (ga_goal_id a))"
  define part where "part = (\<lambda>a. if sum_list (map v progressing) > 0 then v a / sum_list (map v progressing) else 1 / of_nat (length progressing))"
  have nonneg: "0 \<le> ga_resource_share a" if "a \<in> set as" for a using assms(1) that by (simp add: list_all_iff)
  have whole: "freed + sum_list (map ga_resource_share progressing) \<le> 1"
    using sum_filter_split[of ga_resource_share ?st ?known] sum_filter_le[of as ga_resource_share "\<lambda>a. table_get ms (ga_goal_id a) \<noteq> None"]
      nonneg assms(2) by (simp add: freed_def stalled_def progressing_def)
  have freed: "0 \<le> freed" using nonneg by (auto simp: freed_def stalled_def intro!: sum_list_nonneg)
  show ?thesis
  proof (cases "stalled = [] \<or> progressing = []")
    case True
    then have "actions = []" unfolding actions_def rebalance_on_stall_def Let_def stalled_def progressing_def by simp
    then show ?thesis by simp
  next
    case False
    have bonus: "(if sum_list (map v progressing) > 0 then freed * (v a / sum_list (map v progressing)) else freed / of_nat (length progressing)) =
        freed * part a" for a by (simp add: part_def)
    have "0 \<le> v a" for a by (simp add: v_def positive_velocity_def split: option.split)
    then have part: "sum_list (map part progressing) = 1" "\<forall>a \<in> set progressing. 0 \<le> part a \<and> part a \<le> 1"
      using bonus_shares[of progressing v] False by (simp_all add: part_def)
    have inside: "clamp (ga_resource_share a + freed * part a) 0 1 = ga_resource_share a + freed * part a \<and> 0 \<le> ga_resource_share a \<and>
        0 \<le> freed * part a \<and> ga_resource_share a + freed * part a \<le> 1" if "a \<in> set progressing" for a
    proof -
      have "freed * part a \<le> freed" "0 \<le> freed * part a" using part(2) that freed by (simp_all add: mult_left_le)
      moreover have "ga_resource_share a \<le> sum_list (map ga_resource_share progressing)" "0 \<le> ga_resource_share a"
        using nonneg that by (auto simp: progressing_def intro!: member_le_sum)
      ultimately show ?thesis using whole by (simp add: clamp_def)
    qed
    have actions: "actions =
        map (\<lambda>a. \<lparr>ra_goal_id = ga_goal_id a, ra_action = Reduce, ra_previous_share = ga_resource_share a, ra_new_share = 0\<rparr>) stalled @
        map (\<lambda>a. \<lparr>ra_goal_id = ga_goal_id a, ra_action = Increase, ra_previous_share = ga_resource_share a,
                  ra_new_share = clamp (ga_resource_share a + freed * part a) 0 1\<rparr>) progressing"
      using False unfolding actions_def rebalance_on_stall_def Let_def stalled_def[symmetric] progressing_def[symmetric]
        js_sum_exact freed_def[symmetric] v_def[symmetric] bonus by simp
    have "sum_list (map (\<lambda>a. clamp (ga_resource_share a + freed * part a) 0 1) progressing) =
        sum_list (map (\<lambda>a. ga_resource_share a + freed * part a) progressing)"
      using inside by (intro arg_cong[of _ _ sum_list] map_cong) simp_all
    moreover have "sum_list (map (\<lambda>a. ga_resource_share a + freed * part a) progressing) =
        sum_list (map ga_resource_share progressing) + freed * sum_list (map part progressing)"
      by (simp add: sum_list_addf sum_list_const_mult)
    ultimately have "sum_list (map ra_new_share actions) = sum_list (map ra_previous_share actions)"
      unfolding actions by (simp add: o_def part(1) freed_def[symmetric])
    then show ?thesis using inside by (auto simp: actions list_all_iff)
  qed
qed

text \<open>
  The urgency of a deadline is divided by its value for the steepness 2, while the steepness is 3: within 56 hours of the deadline and
  after it the urgency is the same.
\<close>

lemma urgency_saturates_early:
  assumes "gl_deadline g = Some (Iso t)" "t - now \<le> 56 * 3600000" "\<And>x y. x \<le> y \<Longrightarrow> ex x \<le> ex y" "0 < ex (2::rat)"
  shows "deadline_urgency (\<lambda>x. x) ex now g = 1"
proof -
  let ?h = "of_int (t - now) / 3600000 :: rat"
  have "of_int (t - now) \<le> (56 * 3600000 :: rat)" using assms(2) by (metis of_int_le_iff of_int_mult of_int_numeral)
  then have h: "?h \<le> 56" by simp
  have "ex 2 \<le> dl_urgency (score_deadline (\<lambda>x. x) ex (default_drive_config (\<lambda>x. x)) 1 (Some ?h) None)"
    using h by (auto simp: score_deadline_def Let_def urgency_at_def default_drive_config_def intro!: assms(3))
  then have "1 \<le> dl_urgency (score_deadline (\<lambda>x. x) ex (default_drive_config (\<lambda>x. x)) 1 (Some ?h) None) / ex 2"
    using assms(4) by (simp add: le_divide_eq)
  then show ?thesis by (simp add: deadline_urgency_def assms(1) Let_def clamp_def)
qed

section \<open>Phases\<close>

definition blocks :: "(string, string list) table \<Rightarrow> (string \<times> string) set" where
  "blocks pm = {(b, i). b \<in> set (prereqs pm i)}"

lemma prereqs_prereq_map:
  "set (prereqs (prereq_map g goals) i) = (if i \<in> set goals then set goals \<inter> set (get_blocking_goals g i) else {})"
proof -
  have "table_get (map (\<lambda>i. (i, f i)) xs) i = (if i \<in> set xs then Some (f i) else None)" for f :: "string \<Rightarrow> string list" and xs
    by (induction xs) auto
  then show ?thesis by (auto simp: prereqs_def prereq_map_def)
qed

lemma blocks_prereq_map:
  "blocks (prereq_map g goals) = {(b, i). b \<in> set goals \<and> i \<in> set goals \<and> b \<in> set (get_blocking_goals g i)}"
  by (auto simp: blocks_def prereqs_prereq_map split: if_splits)

lemma finite_blocks: "finite (blocks (prereq_map g goals))"
proof (rule finite_subset)
  show "blocks (prereq_map g goals) \<subseteq> set goals \<times> set goals" by (auto simp: blocks_prereq_map)
qed simp

lemma phases_partition:
  "distinct remaining \<Longrightarrow> distinct (concat (map ph_goal_ids (build_phases pm completed remaining k))) \<and>
    set (concat (map ph_goal_ids (build_phases pm completed remaining k))) = set remaining"
proof (induction pm completed remaining k rule: build_phases.induct)
  case (1 pm completed remaining k)
  let ?ready = "filter (\<lambda>i. list_all (\<lambda>p. p \<in> set completed) (prereqs pm i)) remaining"
  show ?case
  proof (cases "remaining = [] \<or> ?ready = []")
    case True
    then show ?thesis using "1.prems" by (subst (1 2) build_phases.simps) (auto simp: Let_def)
  next
    case False
    then have step: "build_phases pm completed remaining k = \<lparr>ph_phase = k, ph_goal_ids = ?ready, ph_blocked_by = uniq (concat (map (prereqs pm) ?ready))\<rparr> #
        build_phases pm (completed @ ?ready) (filter (\<lambda>i. i \<notin> set ?ready) remaining) (Suc k)"
      by (subst build_phases.simps) (simp add: Let_def)
    have "distinct (filter (\<lambda>i. i \<notin> set ?ready) remaining)" using "1.prems" by simp
    note rest = "1.IH"[OF _ refl _ this]
    show ?thesis using rest False "1.prems" unfolding step by auto
  qed
qed

lemma some_ready:
  assumes "acyclic (blocks pm)" "finite (blocks pm)" "remaining \<noteq> []"
    and "\<forall>i \<in> set remaining. set (prereqs pm i) \<subseteq> set completed \<union> set remaining"
  shows "filter (\<lambda>i. list_all (\<lambda>p. p \<in> set completed) (prereqs pm i)) remaining \<noteq> []"
proof -
  have wf: "wf (blocks pm)" using assms(1,2) by (rule finite_acyclic_wf[rotated])
  obtain x where x: "x \<in> set remaining" using assms(3) by (meson list.set_sel(1))
  obtain z where z: "z \<in> set remaining" "\<And>y. (y, z) \<in> blocks pm \<Longrightarrow> y \<notin> set remaining" using wfE_min[OF wf x] by metis
  then have "set (prereqs pm z) \<subseteq> set completed" using assms(4) by (auto simp: blocks_def)
  then show ?thesis using z(1) by (auto simp: filter_empty_conv list_all_iff)
qed

definition done_before :: "dependency_phase list \<Rightarrow> nat \<Rightarrow> string set" where
  "done_before ps j = set (concat (map ph_goal_ids (take j ps)))"

lemma done_before_simps [simp]:
  "done_before ps 0 = {}"
  "done_before (q # qs) (Suc j) = set (ph_goal_ids q) \<union> done_before qs j"
  by (simp_all add: done_before_def)

lemma phases_in_order:
  assumes "acyclic (blocks pm)" "finite (blocks pm)" "distinct remaining"
    and "\<forall>i \<in> set remaining. set (prereqs pm i) \<subseteq> set completed \<union> set remaining"
    and "j < length (build_phases pm completed remaining k)" "i \<in> set (ph_goal_ids (build_phases pm completed remaining k ! j))"
  shows "set (prereqs pm i) \<subseteq> set completed \<union> done_before (build_phases pm completed remaining k) j \<and>
    (j > 0 \<longrightarrow> \<not> set (prereqs pm i) \<subseteq> set completed \<union> done_before (build_phases pm completed remaining k) (j - 1))"
  using assms
proof (induction pm completed remaining k arbitrary: j rule: build_phases.induct)
  case (1 pm completed remaining k)
  let ?ready = "filter (\<lambda>i. list_all (\<lambda>p. p \<in> set completed) (prereqs pm i)) remaining"
  let ?left = "filter (\<lambda>i. i \<notin> set ?ready) remaining"
  let ?q = "\<lparr>ph_phase = k, ph_goal_ids = ?ready, ph_blocked_by = uniq (concat (map (prereqs pm) ?ready))\<rparr>"
  let ?qs = "build_phases pm (completed @ ?ready) ?left (Suc k)"
  have "remaining \<noteq> []" using "1.prems"(5) by (auto simp: build_phases.simps[of pm completed "[]"])
  note ready = some_ready[OF "1.prems"(1,2) this "1.prems"(4)]
  have step: "build_phases pm completed remaining k = ?q # ?qs"
    using \<open>remaining \<noteq> []\<close> ready by (subst build_phases.simps) (simp add: Let_def)
  show ?case
  proof (cases j)
    case 0
    then show ?thesis using "1.prems"(6) unfolding step by (auto simp: list_all_iff)
  next
    case (Suc l)
    have left: "\<forall>i \<in> set ?left. set (prereqs pm i) \<subseteq> set (completed @ ?ready) \<union> set ?left" using "1.prems"(4) by auto
    have l: "l < length ?qs" "i \<in> set (ph_goal_ids (?qs ! l))" using "1.prems"(5,6) unfolding step Suc by simp_all
    have distinct: "distinct ?left" using "1.prems"(3) by simp
    note IH = "1.IH"[OF \<open>remaining \<noteq> []\<close> refl ready "1.prems"(1,2) distinct left l]
    have "i \<in> set ?left"
    proof -
      have "i \<in> set (concat (map ph_goal_ids ?qs))" using l by auto
      then show ?thesis using phases_partition[OF distinct] by blast
    qed
    then have "\<not> set (prereqs pm i) \<subseteq> set completed" by (auto simp: list_all_iff)
    then show ?thesis using IH unfolding step Suc by (cases l) auto
  qed
qed

section \<open>The critical path\<close>

definition chain :: "(string, string list) table \<Rightarrow> string list \<Rightarrow> bool" where
  "chain pm xs \<longleftrightarrow> xs \<noteq> [] \<and> successively (\<lambda>a b. a \<in> set (prereqs pm b)) xs"

definition height :: "(string, string list) table \<Rightarrow> string \<Rightarrow> nat \<Rightarrow> bool" where
  "height pm i n \<longleftrightarrow> (\<exists>xs. chain pm xs \<and> last xs = i \<and> length xs = n) \<and> (\<forall>xs. chain pm xs \<and> last xs = i \<longrightarrow> length xs \<le> n)"

lemma height_unique: "height pm i n \<Longrightarrow> height pm i m \<Longrightarrow> n = m"
  unfolding height_def by (metis le_antisym)

lemma height_pos: "height pm i n \<Longrightarrow> 0 < n"
  unfolding height_def chain_def by auto

lemma chain_snoc: "chain pm xs \<Longrightarrow> last xs \<in> set (prereqs pm i) \<Longrightarrow> chain pm (xs @ [i])"
  by (auto simp: chain_def successively_append_iff)

lemma chain_snocE:
  assumes "chain pm xs" "last xs = i"
  obtains "xs = [i]" | ys where "xs = ys @ [i]" "chain pm ys" "last ys \<in> set (prereqs pm i)"
proof (cases "butlast xs = []")
  case True
  then have "xs = [i]" using assms by (cases xs rule: rev_cases) (auto simp: chain_def)
  then show thesis by (rule that(1))
next
  case False
  have xs: "xs = butlast xs @ [i]" using assms by (metis append_butlast_last_id chain_def)
  then have "chain pm (butlast xs @ [i])" using assms(1) by simp
  then have "chain pm (butlast xs)" "last (butlast xs) \<in> set (prereqs pm i)"
    using False by (auto simp: chain_def successively_append_iff)
  with xs show thesis by (rule that(2))
qed

lemma height_base: "prereqs pm i = [] \<Longrightarrow> height pm i 1"
  unfolding height_def
proof (intro conjI allI impI)
  show "\<exists>xs. chain pm xs \<and> last xs = i \<and> length xs = 1" by (intro exI[of _ "[i]"]) (simp add: chain_def)
next
  fix xs assume "prereqs pm i = []" "chain pm xs \<and> last xs = i"
  then have "xs = [i]" by (auto elim: chain_snocE)
  then show "length xs \<le> 1" by simp
qed

lemma height_step:
  assumes "p \<in> set (prereqs pm i)" "height pm p n" "\<forall>q \<in> set (prereqs pm i). \<exists>m \<le> n. height pm q m"
  shows "height pm i (n + 1)"
  unfolding height_def
proof (intro conjI allI impI)
  obtain xs where "chain pm xs" "last xs = p" "length xs = n" using assms(2) by (auto simp: height_def)
  then show "\<exists>xs. chain pm xs \<and> last xs = i \<and> length xs = n + 1" using chain_snoc assms(1) by (intro exI[of _ "xs @ [i]"]) auto
next
  fix xs assume "chain pm xs \<and> last xs = i"
  then consider "xs = [i]" | ys where "xs = ys @ [i]" "chain pm ys" "last ys \<in> set (prereqs pm i)" by (auto elim: chain_snocE)
  then show "length xs \<le> n + 1"
  proof cases
    case 2
    then obtain m where "m \<le> n" "height pm (last ys) m" using assms(3) by blast
    then have "length ys \<le> n" using 2(2) by (auto simp: height_def intro: le_trans)
    then show ?thesis using 2(1) by simp
  qed simp
qed

text \<open>The tables hold the heights, and each parent is a highest prerequisite.\<close>

definition chains_ok :: "(string, string list) table \<Rightarrow> chains \<Rightarrow> bool" where
  "chains_ok pm st \<longleftrightarrow> (\<forall>i n. table_get (fst st) i = Some n \<longrightarrow> height pm i n \<and>
     (n = 1 \<and> table_get (snd st) i = Some None \<or>
      (\<exists>p m. table_get (snd st) i = Some (Some p) \<and> p \<in> set (prereqs pm i) \<and> table_get (fst st) p = Some m \<and> n = m + 1)))"

definition chains_le :: "chains \<Rightarrow> chains \<Rightarrow> bool" where
  "chains_le a b \<longleftrightarrow> (\<forall>i n. table_get (fst a) i = Some n \<longrightarrow> table_get (fst b) i = Some n)"

lemma chains_le_refl: "chains_le a a"
  by (simp add: chains_le_def)

lemma chains_le_trans: "chains_le a b \<Longrightarrow> chains_le b c \<Longrightarrow> chains_le a c"
  by (simp add: chains_le_def)

lemma chains_le_put:
  assumes "chains_ok pm st" "height pm i n"
  shows "chains_le st (table_put i n (fst st), par)"
  using assms by (auto simp: chains_le_def chains_ok_def table_get_put dest: height_unique)

lemma chains_ok_put:
  assumes "chains_ok pm st" "height pm i n"
    and "n = 1 \<and> q = None \<or> (\<exists>p m. q = Some p \<and> p \<in> set (prereqs pm i) \<and> table_get (fst st) p = Some m \<and> n = m + 1)"
  shows "chains_ok pm (table_put i n (fst st), table_put i q (snd st))"
proof -
  have le: "table_get (table_put i n (fst st)) j = Some k" if "table_get (fst st) j = Some k" for j k
    using chains_le_put[OF assms(1,2), of "[]"] that by (simp add: chains_le_def)
  have "height pm j k \<and> (k = 1 \<and> table_get (table_put i q (snd st)) j = Some None \<or>
      (\<exists>p m. table_get (table_put i q (snd st)) j = Some (Some p) \<and> p \<in> set (prereqs pm j) \<and>
         table_get (table_put i n (fst st)) p = Some m \<and> k = m + 1))"
    if "table_get (table_put i n (fst st)) j = Some k" for j k
  proof (cases "j = i")
    case True
    then have "k = n" using that by (simp add: table_get_put)
    consider "n = 1" "q = None" | p m where "q = Some p" "p \<in> set (prereqs pm i)" "table_get (fst st) p = Some m" "n = m + 1"
      using assms(3) by blast
    then show ?thesis
    proof cases
      case 1
      then show ?thesis using True \<open>k = n\<close> assms(2) by (simp add: table_get_put)
    next
      case 2
      then show ?thesis using True \<open>k = n\<close> assms(2) le[OF 2(3)] by (simp add: table_get_put)
    qed
  next
    case False
    then have "table_get (fst st) j = Some k" using that by (simp add: table_get_put)
    then have known: "height pm j k" "k = 1 \<and> table_get (snd st) j = Some None \<or>
      (\<exists>p m. table_get (snd st) j = Some (Some p) \<and> p \<in> set (prereqs pm j) \<and> table_get (fst st) p = Some m \<and> k = m + 1)"
      using assms(1) unfolding chains_ok_def by blast+
    from known(2) show ?thesis
    proof
      assume "k = 1 \<and> table_get (snd st) j = Some None"
      then show ?thesis using known(1) False by (simp add: table_get_put)
    next
      assume "\<exists>p m. table_get (snd st) j = Some (Some p) \<and> p \<in> set (prereqs pm j) \<and> table_get (fst st) p = Some m \<and> k = m + 1"
      then obtain p m where "table_get (snd st) j = Some (Some p)" "p \<in> set (prereqs pm j)" "k = m + 1"
        "table_get (table_put i n (fst st)) p = Some m" using le by blast
      then show ?thesis using known(1) False by (simp only: table_get_put if_False) blast
    qed
  qed
  then show ?thesis by (simp add: chains_ok_def)
qed

text \<open>The loop over the prerequisites and the recursion, for any depth at which they return.\<close>

definition visits :: "(string, string list) table \<Rightarrow> (string \<Rightarrow> chains \<Rightarrow> (nat \<times> chains) option) \<Rightarrow> bool" where
  "visits pm visit \<longleftrightarrow> (\<forall>i st n st1. chains_ok pm st \<longrightarrow> visit i st = Some (n, st1) \<longrightarrow>
     chains_ok pm st1 \<and> chains_le st st1 \<and> table_get (fst st1) i = Some n)"

lemma best_prereq_ok:
  assumes "visits pm visit" "chains_ok pm st" "best_prereq visit ps best st = Some (best', st')"
  shows "chains_ok pm st' \<and> chains_le st st' \<and> fst best \<le> fst best' \<and> (\<forall>p \<in> set ps. \<exists>m \<le> fst best'. table_get (fst st') p = Some m) \<and>
    (best' = best \<or> (\<exists>p \<in> set ps. snd best' = Some p \<and> table_get (fst st') p = Some (fst best')))"
  using assms(2,3)
proof (induction ps arbitrary: best st)
  case Nil
  then show ?case by (simp add: chains_le_refl)
next
  case (Cons p ps)
  obtain len st1 where one: "visit p st = Some (len, st1)" using Cons.prems(2) by (auto split: option.splits)
  have st1: "chains_ok pm st1" "chains_le st st1" "table_get (fst st1) p = Some len"
    using assms(1) Cons.prems(1) one unfolding visits_def by blast+
  let ?best = "if len > fst best then (len, Some p) else best"
  have "best_prereq visit ps ?best st1 = Some (best', st')" using Cons.prems(2) by (simp add: one)
  note rest = Cons.IH[OF st1(1) this]
  have le: "chains_le st st'" using chains_le_trans[OF st1(2)] rest by blast
  have p: "table_get (fst st') p = Some len" using rest st1(3) by (simp add: chains_le_def)
  have ge: "fst best \<le> fst ?best" "len \<le> fst ?best" by auto
  then have "fst best \<le> fst best'" "len \<le> fst best'" using rest le_trans by blast+
  moreover have "best' = best \<or> (\<exists>q \<in> set (p # ps). snd best' = Some q \<and> table_get (fst st') q = Some (fst best'))"
    using rest p by (cases "len > fst best") auto
  ultimately show ?case using rest le p by auto
qed

lemma longest_from_ok: "visits pm (longest_from d pm)"
proof (induction d)
  case 0
  then show ?case by (simp add: visits_def)
next
  case (Suc d)
  have "chains_ok pm st1 \<and> chains_le st st1 \<and> table_get (fst st1) i = Some n"
    if ok: "chains_ok pm st" and run: "longest_from (Suc d) pm i st = Some (n, st1)" for i st n st1
  proof -
    consider (known) m where "table_get (fst st) i = Some m" | (free) "table_get (fst st) i = None" "prereqs pm i = []"
      | (more) "table_get (fst st) i = None" "prereqs pm i \<noteq> []" by (cases "table_get (fst st) i") auto
    then show ?thesis
    proof cases
      case known
      then show ?thesis using ok run by (simp add: chains_le_refl)
    next
      case free
      then have "st1 = (table_put i 1 (fst st), table_put i None (snd st))" "n = 1" using run by auto
      then show ?thesis
        using chains_ok_put[OF ok height_base[OF free(2)], of None] chains_le_put[OF ok height_base[OF free(2)]] by (simp add: table_get_put)
    next
      case more
      then obtain best parent st2 where b: "best_prereq (longest_from d pm) (prereqs pm i) (0, None) st = Some ((best, parent), st2)"
        "n = best + 1" "st1 = (table_put i (best + 1) (fst st2), table_put i parent (snd st2))"
        using run by (auto split: option.splits)
      note all = best_prereq_ok[OF Suc.IH ok b(1)]
      have heights: "\<forall>q \<in> set (prereqs pm i). \<exists>m \<le> best. height pm q m"
      proof
        fix q assume "q \<in> set (prereqs pm i)"
        then obtain m where "m \<le> best" "table_get (fst st2) q = Some m" using all by auto
        then show "\<exists>m \<le> best. height pm q m" using all unfolding chains_ok_def by blast
      qed
      obtain q where "q \<in> set (prereqs pm i)" using more(2) by (meson list.set_sel(1))
      then have "best \<noteq> 0" using heights height_pos by fastforce
      then obtain p where p: "p \<in> set (prereqs pm i)" "parent = Some p" "table_get (fst st2) p = Some best" using all by auto
      then have "height pm p best" using all unfolding chains_ok_def by blast
      note h = height_step[OF p(1) this heights]
      have ok2: "chains_ok pm st2" and le2: "chains_le st st2" using all by blast+
      have "chains_ok pm st1" unfolding b(3) using p by (intro chains_ok_put[OF ok2 h]) blast
      moreover have "chains_le st st1" unfolding b(3) by (rule chains_le_trans[OF le2 chains_le_put[OF ok2 h]])
      ultimately show ?thesis by (simp add: b table_get_put)
    qed
  qed
  then show ?case unfolding visits_def by blast
qed

lemma all_chains_ok:
  assumes "chains_ok pm st" "all_chains d pm is st = Some st'"
  shows "chains_ok pm st' \<and> chains_le st st' \<and> (\<forall>i \<in> set is. table_get (fst st') i \<noteq> None)"
  using assms
proof (induction "is" arbitrary: st)
  case Nil
  then show ?case by (simp add: chains_le_refl)
next
  case (Cons i "is")
  obtain n st1 where one: "longest_from d pm i st = Some (n, st1)" using Cons.prems(2) by (auto split: option.splits)
  have st1: "chains_ok pm st1" "chains_le st st1" "table_get (fst st1) i = Some n"
    using longest_from_ok[of pm d] Cons.prems(1) one unfolding visits_def by blast+
  have "all_chains d pm is st1 = Some st'" using Cons.prems(2) by (simp add: one)
  note rest = Cons.IH[OF st1(1) this]
  have "table_get (fst st') i = Some n" using rest st1(3) by (simp add: chains_le_def)
  then show ?case using rest chains_le_trans[OF st1(2)] by auto
qed

lemma no_chains: "chains_ok pm ([], [])"
  by (simp add: chains_ok_def)

lemma longest_goal_spec:
  assumes "longest_goal dp goals = (n, g)"
  shows "(\<forall>i \<in> set goals. nullish (table_get dp i) 0 \<le> n) \<and> (n > 0 \<longrightarrow> g \<in> set goals \<and> table_get dp g = Some n)"
proof -
  have "(\<forall>i \<in> set is. nullish (table_get dp i) 0 \<le> fst r) \<and> fst b \<le> fst r \<and>
      (r = b \<or> snd r \<in> set is \<and> table_get dp (snd r) = Some (fst r))"
    if "foldl (\<lambda>(n, g) i. if nullish (table_get dp i) 0 > n then (nullish (table_get dp i) 0, i) else (n, g)) b is = r" for b r "is"
    using that
  proof (induction "is" arbitrary: b)
    case (Cons i "is")
    let ?b = "if nullish (table_get dp i) 0 > fst b then (nullish (table_get dp i) 0, i) else b"
    have "foldl (\<lambda>(n, g) i. if nullish (table_get dp i) 0 > n then (nullish (table_get dp i) 0, i) else (n, g)) ?b is = r"
      using Cons.prems by (cases b) (auto split: if_splits)
    note IH = Cons.IH[OF this]
    have "nullish (table_get dp i) 0 \<le> fst r" "fst b \<le> fst r" using IH by (auto split: if_splits)
    moreover have "r = b \<or> snd r \<in> set (i # is) \<and> table_get dp (snd r) = Some (fst r)"
    proof (cases "nullish (table_get dp i) 0 > fst b")
      case True
      then have "table_get dp i = Some (nullish (table_get dp i) 0)" by (cases "table_get dp i") auto
      then show ?thesis using IH True by auto
    qed (use IH in auto)
    ultimately show ?case using IH by auto
  qed simp
  from this[OF assms[unfolded longest_goal_def]] show ?thesis by auto
qed

lemma trace_back_returns:
  assumes "chains_ok pm (dp, par)" "table_get dp i = Some n"
  shows "\<exists>xs. trace_back n par (Some i) acc = Some (xs @ acc) \<and> chain pm xs \<and> last xs = i \<and> length xs = n"
  using assms(2)
proof (induction n arbitrary: i acc)
  case 0
  then show ?case using assms(1) height_pos unfolding chains_ok_def by fastforce
next
  case (Suc n)
  consider "Suc n = 1" "table_get par i = Some None" | p where "table_get par i = Some (Some p)" "p \<in> set (prereqs pm i)" "table_get dp p = Some n"
    using assms(1) Suc.prems unfolding chains_ok_def by fastforce
  then show ?case
  proof cases
    case 1
    then show ?thesis by (intro exI[of _ "[i]"]) (simp add: chain_def)
  next
    case 2
    from Suc.IH[OF 2(3), of "i # acc"] obtain xs where xs: "trace_back n par (Some p) (i # acc) = Some (xs @ i # acc)"
      "chain pm xs" "last xs = p" "length xs = n" by auto
    have "trace_back (Suc n) par (Some i) acc = Some ((xs @ [i]) @ acc)" using xs(1) 2(1) by simp
    then show ?thesis using chain_snoc[OF xs(2)] xs(3,4) 2(2) by (intro exI[of _ "xs @ [i]"]) simp
  qed
qed

lemma critical_path_spec:
  assumes "compute_critical_path d goals pm = Some path" "goals \<noteq> []"
  shows "chain pm path \<and> last path \<in> set goals \<and> (\<forall>xs. chain pm xs \<and> last xs \<in> set goals \<longrightarrow> length xs \<le> length path)"
proof -
  obtain dp par where st: "all_chains d pm goals ([], []) = Some (dp, par)" using assms(1) by (auto simp: compute_critical_path_def split: option.splits)
  have ok: "chains_ok pm (dp, par)" "\<forall>i \<in> set goals. table_get dp i \<noteq> None" using all_chains_ok[OF no_chains st] by simp_all
  obtain n g where ng: "longest_goal dp goals = (n, g)" by (cases "longest_goal dp goals")
  note lg = longest_goal_spec[OF ng]
  have "height pm i k" if "table_get dp i = Some k" for i k using ok(1) that unfolding chains_ok_def by auto
  note h = this
  obtain i where i: "i \<in> set goals" using assms(2) by (meson list.set_sel(1))
  obtain k where "table_get dp i = Some k" using ok(2) i by auto
  then have pos: "n > 0" using lg i h height_pos by (metis bot_nat_0.not_eq_extremum le_zero_eq nullish_simps(2))
  then have g: "g \<in> set goals" "table_get dp g = Some n" using lg by blast+
  obtain xs where xs: "trace_back n par (Some g) [] = Some xs" "chain pm xs" "last xs = g" "length xs = n"
    using trace_back_returns[OF ok(1) g(2), of "[]"] by auto
  have "path = xs" using assms(1) xs(1) pos by (simp add: compute_critical_path_def st ng)
  moreover have "length ys \<le> n" if ys: "chain pm ys" "last ys \<in> set goals" for ys
  proof -
    obtain k where k: "table_get dp (last ys) = Some k" using ok(2) ys(2) by auto
    then have "length ys \<le> k" using h[OF k] ys(1) by (simp add: height_def)
    moreover have "k \<le> n" using lg ys(2) k by (metis nullish_simps(2))
    ultimately show ?thesis by simp
  qed
  ultimately show ?thesis using xs(2-4) g(1) by auto
qed

text \<open>When the recursion returns.\<close>

lemma best_prereq_returns:
  assumes "\<forall>p \<in> set ps. \<forall>st. visit p st \<noteq> None"
  shows "best_prereq visit ps best st \<noteq> None"
  using assms
proof (induction ps arbitrary: best st)
  case (Cons p ps)
  have rest: "\<forall>q \<in> set ps. \<forall>st. visit q st \<noteq> None" using Cons.prems by simp
  obtain len st1 where "visit p st = Some (len, st1)" using Cons.prems by fastforce
  then show ?case using Cons.IH[OF rest] by simp
qed simp

lemma longest_from_returns:
  assumes "wf (blocks pm)"
  shows "\<exists>d. \<forall>d' \<ge> d. \<forall>st. longest_from d' pm i st \<noteq> None"
  using assms
proof (induction i rule: wf_induct_rule)
  case (less i)
  have "\<forall>p \<in> set (prereqs pm i). \<exists>d. \<forall>d' \<ge> d. \<forall>st. longest_from d' pm p st \<noteq> None" using less by (simp add: blocks_def)
  then obtain f where f: "\<forall>p \<in> set (prereqs pm i). \<forall>d' \<ge> f p. \<forall>st. longest_from d' pm p st \<noteq> None" by metis
  let ?D = "Max (insert 0 (f ` set (prereqs pm i)))"
  have D: "f p \<le> ?D" if "p \<in> set (prereqs pm i)" for p using that by (intro Max_ge) auto
  have "longest_from d pm i st \<noteq> None" if deep: "d \<ge> Suc ?D" for d st
  proof -
    obtain e where e: "d = Suc e" "e \<ge> ?D" using deep Suc_le_D[OF deep] by (metis Suc_le_mono)
    have "\<forall>p \<in> set (prereqs pm i). \<forall>st. longest_from e pm p st \<noteq> None" using f D e(2) le_trans by blast
    from best_prereq_returns[OF this, of "(0, None)" st] show ?thesis unfolding e(1) by (auto split: option.split)
  qed
  then show ?case by blast
qed

lemma all_chains_returns:
  assumes "wf (blocks pm)"
  shows "\<exists>d. \<forall>st. all_chains d pm goals st \<noteq> None"
proof -
  have "\<exists>d. \<forall>d' \<ge> d. \<forall>st. all_chains d' pm goals st \<noteq> None"
  proof (induction goals)
    case (Cons i goals)
    then obtain d where d: "\<forall>d' \<ge> d. \<forall>st. all_chains d' pm goals st \<noteq> None" by blast
    obtain e where e: "\<forall>d' \<ge> e. \<forall>st. longest_from d' pm i st \<noteq> None" using longest_from_returns[OF assms] by blast
    have "all_chains d' pm (i # goals) st \<noteq> None" if "d' \<ge> max d e" for d' st
    proof -
      obtain x where "longest_from d' pm i st = Some x" using e \<open>d' \<ge> max d e\<close> by (metis max.bounded_iff not_None_eq)
      then show ?thesis using d \<open>d' \<ge> max d e\<close> by (cases x) simp
    qed
    then show ?case by blast
  qed simp
  then show ?thesis by blast
qed

lemma returned_is_acyclic:
  assumes "all_chains d (prereq_map g goals) goals ([], []) = Some (dp, par)"
  shows "acyclic (blocks (prereq_map g goals))"
proof -
  let ?pm = "prereq_map g goals"
  have ok: "chains_ok ?pm (dp, par)" "\<forall>i \<in> set goals. table_get dp i \<noteq> None" using all_chains_ok[OF no_chains assms] by simp_all
  have "blocks ?pm \<subseteq> measure (\<lambda>i. the (table_get dp i))"
  proof
    fix e assume "e \<in> blocks ?pm"
    then obtain b i where e: "e = (b, i)" "b \<in> set goals" "i \<in> set goals" "b \<in> set (prereqs ?pm i)"
      by (auto simp: blocks_def prereqs_prereq_map split: if_splits)
    obtain m n where mn: "table_get dp b = Some m" "table_get dp i = Some n" using ok(2) e(2,3) by (metis option.exhaust)
    have h: "height ?pm b m" "height ?pm i n" using ok(1) mn unfolding chains_ok_def by auto
    obtain xs where xs: "chain ?pm xs" "last xs = b" "length xs = m" using h(1) by (auto simp: height_def)
    have "chain ?pm (xs @ [i])" by (rule chain_snoc[OF xs(1)]) (simp add: xs(2) e(4))
    then have "length (xs @ [i]) \<le> n" using h(2) unfolding height_def by (metis last_snoc)
    then show "e \<in> measure (\<lambda>i. the (table_get dp i))" using xs(3) by (simp add: e(1) mn)
  qed
  then show ?thesis by (metis wf_acyclic wf_measure wf_subset)
qed

text \<open>
  C31. The schedule of goals is computed exactly if the active prerequisites among them have no cycle: the phases would come to an
  end in every case, but the search for the critical path recurses along a cycle without end.
\<close>

theorem schedule_returns_iff_acyclic:
  "(\<exists>d. build_dependency_schedule d goals g \<noteq> None) \<longleftrightarrow>
   acyclic {(b, i). b \<in> set goals \<and> i \<in> set goals \<and> b \<in> set (get_blocking_goals g i)}"
proof (cases "goals = []")
  case False
  let ?pm = "prereq_map g goals"
  have "(\<exists>d. build_dependency_schedule d goals g \<noteq> None) \<longleftrightarrow> (\<exists>d. compute_critical_path d goals ?pm \<noteq> None)"
    using False by (simp add: build_dependency_schedule_def Let_def)
  also have "\<dots> \<longleftrightarrow> acyclic (blocks ?pm)"
  proof
    assume "\<exists>d. compute_critical_path d goals ?pm \<noteq> None"
    then obtain d dp par where st: "all_chains d ?pm goals ([], []) = Some (dp, par)"
      by (auto simp: compute_critical_path_def split: option.splits)
    show "acyclic (blocks ?pm)" by (rule returned_is_acyclic[OF st])
  next
    assume "acyclic (blocks ?pm)"
    then have "wf (blocks ?pm)" using finite_blocks by (rule finite_acyclic_wf[rotated])
    from all_chains_returns[OF this, of goals] obtain d dp par where st: "all_chains d ?pm goals ([], []) = Some (dp, par)" by fastforce
    have ok: "chains_ok ?pm (dp, par)" using all_chains_ok[OF no_chains st] by simp
    obtain n i where ng: "longest_goal dp goals = (n, i)" by (cases "longest_goal dp goals")
    have "compute_critical_path d goals ?pm \<noteq> None"
    proof (cases "n = 0")
      case True
      then show ?thesis by (simp add: compute_critical_path_def st ng)
    next
      case False
      then obtain xs where "trace_back n par (Some i) [] = Some xs" using longest_goal_spec[OF ng] trace_back_returns[OF ok, of i n "[]"] by auto
      then show ?thesis using False by (simp add: compute_critical_path_def st ng)
    qed
    then show "\<exists>d. compute_critical_path d goals ?pm \<noteq> None" by blast
  qed
  finally show ?thesis by (simp add: blocks_prereq_map)
qed (simp add: build_dependency_schedule_def acyclic_def)

text \<open>A chain of goals is a chain of the map, except for the first goal that it may not know.\<close>

lemma chain_of_goals:
  assumes "successively (\<lambda>a b. a \<in> set (get_blocking_goals g b)) xs" "set xs \<subseteq> set goals" "xs \<noteq> []"
  shows "chain (prereq_map g goals) xs"
  unfolding chain_def
proof
  show "successively (\<lambda>a b. a \<in> set (prereqs (prereq_map g goals) b)) xs"
    using assms(1) by (rule successively_mono) (use assms(2) in \<open>auto simp: prereqs_prereq_map\<close>)
qed (rule assms(3))

lemma goals_of_chain:
  assumes "chain (prereq_map g goals) xs" "last xs \<in> set goals"
  shows "successively (\<lambda>a b. a \<in> set (get_blocking_goals g b)) xs \<and> set xs \<subseteq> set goals"
  using assms
proof (induction xs rule: rev_induct)
  case (snoc x xs)
  show ?case
  proof (cases "xs = []")
    case False
    then have "chain (prereq_map g goals) xs" "last xs \<in> set (prereqs (prereq_map g goals) x)"
      using snoc.prems(1) by (auto simp: chain_def successively_append_iff)
    then show ?thesis using snoc.IH snoc.prems(2) False by (auto simp: prereqs_prereq_map successively_append_iff split: if_splits)
  qed (use snoc.prems in simp)
qed simp

text \<open>
  C20. A schedule that is computed has every goal in one phase; the goals of a phase wait for earlier phases only, and could not
  run earlier; and the critical path is a chain of prerequisites than which none is longer.
\<close>

theorem schedule_is_right:
  assumes "build_dependency_schedule d goals g = Some s" "goals \<noteq> []"
  shows "distinct (concat (map ph_goal_ids (sd_phases s))) \<and> set (concat (map ph_goal_ids (sd_phases s))) = set goals \<and>
    (\<forall>j i. j < length (sd_phases s) \<longrightarrow> i \<in> set (ph_goal_ids (sd_phases s ! j)) \<longrightarrow>
       set goals \<inter> set (get_blocking_goals g i) \<subseteq> done_before (sd_phases s) j \<and>
       (j > 0 \<longrightarrow> \<not> set goals \<inter> set (get_blocking_goals g i) \<subseteq> done_before (sd_phases s) (j - 1))) \<and>
    sd_critical_path s \<noteq> [] \<and> set (sd_critical_path s) \<subseteq> set goals \<and>
    successively (\<lambda>a b. a \<in> set (get_blocking_goals g b)) (sd_critical_path s) \<and>
    (\<forall>xs. set xs \<subseteq> set goals \<longrightarrow> successively (\<lambda>a b. a \<in> set (get_blocking_goals g b)) xs \<longrightarrow> length xs \<le> length (sd_critical_path s))"
proof -
  let ?pm = "prereq_map g goals"
  obtain path where path: "compute_critical_path d goals ?pm = Some path"
    "s = \<lparr>sd_phases = build_phases ?pm [] (uniq goals) 0, sd_critical_path = path\<rparr>"
    using assms by (auto simp: build_dependency_schedule_def Let_def)
  have "acyclic (blocks ?pm)"
    using path(1) by (auto simp: compute_critical_path_def intro: returned_is_acyclic split: option.splits)
  note order = phases_in_order[OF this finite_blocks distinct_uniq, where completed = "[]" and k = 0]
  note partition = phases_partition[OF distinct_uniq[of goals], of ?pm "[]" 0]
  have known: "\<forall>i \<in> set (uniq goals). set (prereqs ?pm i) \<subseteq> set [] \<union> set (uniq goals)" by (auto simp: prereqs_prereq_map set_uniq)
  have phases: "set goals \<inter> set (get_blocking_goals g i) \<subseteq> done_before (sd_phases s) j \<and>
      (j > 0 \<longrightarrow> \<not> set goals \<inter> set (get_blocking_goals g i) \<subseteq> done_before (sd_phases s) (j - 1))"
    if ji: "j < length (sd_phases s)" "i \<in> set (ph_goal_ids (sd_phases s ! j))" for j i
  proof -
    have "i \<in> set (concat (map ph_goal_ids (sd_phases s)))" using ji by auto
    then have "i \<in> set goals" using partition by (auto simp: path(2) set_uniq)
    then show ?thesis using order[OF known, where j = j and i = i] ji by (simp add: path(2) prereqs_prereq_map)
  qed
  note critical = critical_path_spec[OF path(1) assms(2)]
  have chain: "chain ?pm path" "last path \<in> set goals" using critical by blast+
  have longest: "length xs \<le> length path"
    if xs: "set xs \<subseteq> set goals" "successively (\<lambda>a b. a \<in> set (get_blocking_goals g b)) xs" for xs
  proof (cases "xs = []")
    case False
    then have "chain ?pm xs" "last xs \<in> set goals" using chain_of_goals xs by (auto intro: last_in_set)
    then show ?thesis using critical by blast
  qed simp
  show ?thesis
    using partition phases goals_of_chain[OF chain] chain(1) longest by (auto simp: path(2) set_uniq chain_def)
qed

section \<open>Concrete cases\<close>

definition sample_factors :: "string \<Rightarrow> rat \<Rightarrow> priority_factors" where
  "sample_factors i x = \<lparr>pr_goal_id = i, pr_deadline_urgency = 0, pr_gap_severity = x, pr_dependency_weight = 0,
     pr_user_priority = 1 / 2, pr_computed_priority = x\<rparr>"

definition sample_cross_config :: cross_config where
  "sample_cross_config = \<lparr>cg_max_concurrent_goals = 2, cg_min_goal_share = 1 / 10, cg_synergy_bonus = 1 / 5\<rparr>"

definition sample_edge :: "string \<Rightarrow> string \<Rightarrow> dependency_edge" where
  "sample_edge a b = \<lparr>de_from = a, de_to = b, de_type = Prerequisite, de_status = Active, de_condition = None, de_affected_dimensions = [],
     de_mitigation = None, de_detection_confidence = 1, de_strategy_dependency = None, de_reasoning = None, de_created_at = Iso 0\<rparr>"

definition sample_graph :: dependency_graph where
  "sample_graph = \<lparr>dg_nodes = [''a'', ''b''], dg_edges = [sample_edge ''a'' ''b''], dg_updated_at = Iso 0\<rparr>"

text \<open>A goal that is not stored gets an equal share on top of the whole that the others hold.\<close>

lemma unknown_goal_overcommits:
  "(let st = \<lparr>st_goals = [(''a'', \<lparr>gl_id = ''a'', gl_parent_id = None, gl_status = G_Active, gl_dimensions = [], gl_constraints = [],
        gl_children_ids = [], gl_deadline = None, gl_uncertainty_weight = 1, gl_updated_at = Iso 0, gl_rest = []\<rparr>)],
        st_fence = (\<lambda>_. None)\<rparr>
    in fst (get_allocation_map (\<lambda>x. x) (\<lambda>x. max 0 (1 + x)) sample_cross_config 0 sample_graph st [''a'', ''b''] [])) =
   [(''a'', 1), (''b'', 1 / 2)]"
  by code_simp

theorem shares_make_the_whole_witness:
  "sum_list (map ga_resource_share (allocate_resources (\<lambda>x. x) sample_cross_config None None None
     [sample_factors ''a'' (3/4), sample_factors ''b'' (1/4), sample_factors ''c'' 0])) = 1"
proof -
  have "cross_config_valid sample_cross_config" by (simp add: cross_config_valid_def sample_cross_config_def)
  from shares_make_the_whole[OF _ this, of "[sample_factors ''a'' (3/4), sample_factors ''b'' (1/4), sample_factors ''c'' 0]" None None None]
  show ?thesis by (simp add: sample_factors_def)
qed

theorem stall_rebalance_conserves_witness:
  "sum_list (map ra_new_share (rebalance_on_stall (\<lambda>x. x)
     [\<lparr>ga_goal_id = ''a'', ga_priority = 1, ga_resource_share = 1/2\<rparr>, \<lparr>ga_goal_id = ''b'', ga_priority = 1, ga_resource_share = 1/4\<rparr>]
     [(''a'', \<lparr>mo_recent_progress = 0, mo_velocity = 0, mo_trend = Stalled\<rparr>),
      (''b'', \<lparr>mo_recent_progress = 1, mo_velocity = 1/10, mo_trend = Steady\<rparr>)])) = 3 / 4"
proof -
  let ?as = "[\<lparr>ga_goal_id = ''a'', ga_priority = 1, ga_resource_share = 1/2\<rparr>, \<lparr>ga_goal_id = ''b'', ga_priority = 1, ga_resource_share = 1/4\<rparr>]"
  let ?ms = "[(''a'', \<lparr>mo_recent_progress = 0, mo_velocity = 0, mo_trend = Stalled\<rparr>),
      (''b'', \<lparr>mo_recent_progress = 1, mo_velocity = 1/10, mo_trend = Steady\<rparr>)]"
  have "sum_list (map ra_previous_share (rebalance_on_stall (\<lambda>x. x) ?as ?ms)) = 3 / 4"
    by (simp add: rebalance_on_stall_def Let_def)
  then show ?thesis using stall_rebalance_conserves[of ?as ?ms] by simp
qed

theorem schedule_is_right_witness:
  "\<exists>s. build_dependency_schedule 3 [''a'', ''b''] sample_graph = Some s \<and> sd_critical_path s \<noteq> [] \<and>
    length [''a'', ''b''] \<le> length (sd_critical_path s)"
proof -
  have "build_dependency_schedule 3 [''a'', ''b''] sample_graph \<noteq> None" by code_simp
  then obtain s where s: "build_dependency_schedule 3 [''a'', ''b''] sample_graph = Some s" by blast
  have "successively (\<lambda>a b. a \<in> set (get_blocking_goals sample_graph b)) [''a'', ''b'']"
    by (simp add: get_blocking_goals_def get_prerequisites_def sample_graph_def sample_edge_def)
  then show ?thesis using schedule_is_right[OF s] s by blast
qed

end
