(* ===== verification/Spec2Isabelle.thy ===== *)
theory Spec2Isabelle
  imports Queue_Properties Leases Guardrails Dependency_Graph Parallel_Executor Capability_Order Shell_Policy
    Budget_Store Trust Goal_Tree Stall_Detector Ieee_Double Approval_Flow Tool_Executor
    Admission_Policy Tool_Registry Experiment_Queue Outbox Strategy_Lifecycle Portfolio_Rebalance
    Cross_Goal
begin

text \<open>
  PulSeed: a verification library for the state machines and decision procedures of its runtime.

  PulSeed drives goals: a daemon takes events from a durable queue, a leader lock and a lease per
  goal decide which process may work on a goal, and the loop around a goal observes its
  dimensions, computes gaps, judges completion, looks for stalls, plans tasks, executes them and
  checks what they may do. The library models the parts that decide: every store as the rows it
  keeps, every operation with its guards, its errors and its effect on the rows. Paths below are
  relative to \<open>src/\<close> of the repository.

  \<^bold>\<open>How code is modelled.\<close> A class is a record of its fields, an operation a function from
  arguments and state to result and state; a thrown error is the left side of a sum. A SQLite table
  is an association table; a transaction, or a method that holds the file lock, is one step. The
  clock, random tokens, process ids, liveness of processes, \<open>realpath\<close>, and the callbacks of the
  caller are arguments, one reading per synchronous method. Timestamps are either ISO texts of a
  valid date (\<open>Iso\<close> with its milliseconds) or other text. JavaScript objects are
  insertion-ordered association lists; integers with a schema check are \<open>int\<close> with the check.
  Doubles are rationals with a rounding \<open>rnd\<close> after each operation: a parameter with the laws of
  the locale \<open>ieee_rounding\<close>, which \<open>Ieee_Double\<close> proves for binary64 (without overflow). A loop
  that may not end carries a depth counter and answers \<open>None\<close> when it is used up, or is bounded
  by a measure; where it ends, a lemma gives a depth that is enough.

  \<^bold>\<open>The parts, theory by theory.\<close>

  \<^item> \<open>PS_Prelude\<close>: the vocabulary: error sums, tables, timestamps, truthiness, text functions.
    \<open>Js_Numbers\<close> and \<open>Ieee_Double\<close>: observed values, numbers in texts, doubles.

  \<^item> \<open>Message_Queue\<close>: \<open>runtime/queue/priority-queue.ts\<close> and \<open>journal-backed-queue.ts\<close>. The state is
    the records by message id, a pending list per priority and the claims by token, kept as the
    rows of \<open>runtime_queue_records\<close>. \<open>Queue_Invariant\<close>: a record is in its pending list exactly
    when it is pending and claimed exactly when in flight, kept by every mutator;
    \<open>Queue_Transactions\<close>: rows written and read back give the same state, so the invariant
    holds of every reachable table; \<open>Queue_Properties\<close>: claims that exclude others until they are settled or swept, what claim,
    acknowledgement, refusal, sweep and dead letter do, uniqueness of deduplication keys, and
    the priority order of the in-memory queue.

  \<^item> \<open>Leases\<close>: \<open>runtime/leader-lock-manager.ts\<close>, \<open>goal-lease-manager.ts\<close>. Both are instances of
    one contract, from which exclusion until expiry follows.

  \<^item> \<open>Guardrails\<close>: \<open>runtime/guardrails/\<close>: when a breaker opens, cools and closes, along every run
    of the breaker; the limits of concurrent work and of the rate per provider.

  \<^item> \<open>Dependency_Graph\<close>: \<open>orchestrator/goal/goal-dependency-graph.ts\<close>: the cycle search finds
    exactly the paths, so no reachable graph has a cycle of active prerequisites unless an edge
    is reactivated.

  \<^item> \<open>Parallel_Executor\<close>: \<open>orchestrator/execution/parallel-executor.ts\<close>: waves respect dependencies,
    the semaphore bounds and completes the tasks of a wave.

  \<^item> \<open>Capability_Order\<close>: \<open>platform/observation/capability-dependencies.ts\<close>: Kahn's algorithm, what it
    does on cycles, the order of acquisition.

  \<^item> \<open>Shell_Policy\<close>: \<open>tools/system/ShellTool/command-policy.ts\<close> and the execution policy: which
    command lines run without a question, and which hidden commands the analysis misses.

  \<^item> \<open>Workspace_Paths\<close>: \<open>tools/workspace-scope.ts\<close> and
    \<open>tools/fs/FileValidationTool/protected-path-policy.ts\<close>: no link that resolves leads an accepted path or
    working directory out of the workspace; what dangling links and the check before a write miss.

  \<^item> \<open>Permission_Grants\<close>: \<open>runtime/store/permission-grant-store.ts\<close>: along every sequence of
    operations a grant that is over stays over, its uses are counted, and a grant for one use is
    used once. \<open>Record_Lifecycle\<close> is the contract behind it.

  \<^item> \<open>Tool_Permission\<close>: \<open>tools/execution-orchestrator.ts\<close>, \<open>permission-grant-evaluator.ts\<close> and
    \<open>permission.ts\<close>: the check of a tool call as the composition of the shell policy, the
    workspace scope and the grants: refusals are final, a grant answers only for calls it
    covers, and what that means for shell commands. \<open>Json_Values\<close> holds untyped inputs.

  \<^item> \<open>Wait_Plans\<close>: \<open>runtime/store/permission-wait-plan-store.ts\<close>: a stored call is resumed once at
    most and only with the plan that was approved, as long as operations do not overlap.
    \<open>Approval_Flow\<close>: \<open>runtime/store/approval-store.ts\<close>, \<open>permission-dialogue.ts\<close> and
    \<open>approval-broker.ts\<close>: the first resolution of an approval stands, expiry is exact, and what the
    waiting caller is told when the answer is in time and when it is late.

  \<^item> \<open>Capability_Plane\<close>: \<open>runtime/capability-plane.ts\<close>: the descriptor of a tool, which tools
    require approval, the admission of a call by its descriptor.
    \<open>Tool_Executor\<close>: \<open>tools/executor.ts\<close>, \<open>permission-wait-plan.ts\<close>: a call as the composition of the
    capability plane, the permission check and the wait plans. A tool is called only if every
    gate lets it through, and an approval is void when the state has changed since it was asked for.
    \<open>Admission_Policy\<close>: \<open>runtime/control/admission-policy.ts\<close>: the result of an evaluation as the
    strongest of its reasons, and when an operation is allowed without a question.
    \<open>Tool_Registry\<close>: \<open>tools/registry.ts\<close>, \<open>concurrency.ts\<close>: what a lookup gives after every sequence of
    registrations, the token budget of a pool, the limit of concurrent calls as a step relation.

  \<^item> \<open>Experiment_Queue\<close>: \<open>runtime/store/experiment-queue-store.ts\<close>: along every sequence of operations
    queues lose no revision, finished items stay as they are, and a draft is never executed.
    \<open>Outbox\<close>: \<open>runtime/store/outbox-store.ts\<close>: a notification that is appended again is not stored
    again, and what pruning does to the sequence numbers.

  \<^item> \<open>Budget_Store\<close>: \<open>runtime/store/budget-store.ts\<close>: usage adds up, a record of consumption changes
    all budgets or none, the mode of a budget never relaxes as its usage grows.

  \<^item> \<open>Trust\<close>: \<open>platform/traits/trust-manager.ts\<close>, \<open>trust-state-store.ts\<close>: permanent gates stay, the gain
    of trust in an hour is bounded, and which actions need approval.

  \<^item> \<open>Goal_Model\<close>: goals, dimensions, thresholds and the goal rows of \<open>base/state/state-manager.ts\<close>;
    reading a goal tree ends for every shape of links and gives the reachable goals.
    \<open>Gap_Calculator\<close>: \<open>platform/drive/gap-calculator.ts\<close>: bounds and monotonicity of gaps.
    \<open>Satisficing\<close>: \<open>platform/drive/satisficing-judge.ts\<close>: satisfaction against gap, the double check
    before completion as a statement on every sequence of checks, the selection of dimensions.
    \<open>Goal_Completion\<close>: \<open>satisficing-propagation.ts\<close>: when the judgement of a tree returns (the depth
    number of goals + 1 is enough exactly without cycles), what is propagated to a parent.
    \<open>Goal_Tree\<close>: \<open>orchestrator/goal/state-aggregator.ts\<close>, \<open>goal-tree-pruner.ts\<close>: aggregation,
    propagation downwards, the completion cascade, pruning.

  \<^item> \<open>Strategy_Lifecycle\<close>: \<open>orchestrator/strategy/strategy-manager.ts\<close>, \<open>strategy-manager-base.ts\<close>: along
    every sequence of operations a strategy moves along its life only, and what happens to the share
    of one that stops. \<open>Portfolio_Rebalance\<close>: \<open>portfolio-manager.ts\<close>, \<open>portfolio-rebalance.ts\<close>: which strategy
    is selected, which a rebalance ends, and what is left of the shares it writes at the same time.

  \<^item> \<open>Drive_Scores\<close>: \<open>platform/drive/drive-scorer.ts\<close>: the three drives, their bounds and their combination.
    \<open>Cross_Goal\<close>: \<open>orchestrator/strategy/cross-goal-portfolio.ts\<close>, \<open>portfolio-allocation.ts\<close>,
    \<open>portfolio-scheduling.ts\<close>: the shares of goals make the whole, a rebalance after a stall keeps their sum, the
    phases respect prerequisites, and the critical path is a longest chain; it is found exactly without cycles (the depth of the
    recursion is a parameter, one that is enough exists then).

  \<^item> \<open>Stall_Detector\<close>: \<open>platform/drive/stall-detector.ts\<close> and the files beside it: when a gap history
    counts as a stall, the similarity of outputs as the Dice coefficient of bigram multisets.

  \<^bold>\<open>Contracts.\<close> \<open>keyed_table\<close> (lookup after insert and delete, interpreted on association
  tables), \<open>lease_lock\<close> (interpreted on the leader lock and on the lease of each goal),
  \<open>fifo_priority_queue\<close> (interpreted on the in-memory queue), \<open>ieee_rounding\<close> (interpreted on
  binary64 and on exact arithmetic),
  \<open>settled_records\<close> (interpreted on the life cycles of grants, wait plans and approvals).

  \<^bold>\<open>Not modelled.\<close> Calls of language models and everything built on their text (planning, chat,
  knowledge, attention, reports), network and file input and output, SQLite itself, the opening
  and migration of the database, plugins, user interfaces, cron expressions (a library). Parts
  that decide and are left out: the expiry of waits, the goal cycle of the daemon. Concurrency is modelled between operations, which are
  atomic as the transactions and file locks make them; where the code awaits between a read and a
  write the two are separate steps (the budget store, wait plans, the writes of a rebalance).
\<close>

end
